(* ===== verification/Prelude.thy ===== *)
theory Prelude
  imports Main "HOL-Library.Word" "HOL-Library.Multiset"
begin

text \<open>
  Shared vocabulary of the development: how a Go panic, an out-of-range index and a loop
  that does not return appear in the model, the machine integers, and the list facts
  that several components use.
  \<^item> \<open>panic\<close> has one constructor per way a Go operation of the program can fail;
    \<open>'a result\<close> is \<open>panic + 'a\<close>, with \<open>Inl\<close> for the panic.
  \<^item> \<open>'a run\<close> is \<open>'a result option\<close>: \<open>None\<close> is a loop that does not return.
\<close>

section \<open>Results, panics and runs\<close>

datatype panic =
    Panic string          \<comment> \<open>an explicit \<open>panic(...)\<close> of the source, with its message\<close>
  | IndexOutOfRange       \<comment> \<open>the run-time panic of a slice access\<close>
  | NilDereference        \<comment> \<open>the run-time panic of a nil pointer\<close>
  | DivideByZero          \<comment> \<open>the run-time panic of an integer division\<close>
  | ImplementationDefined \<comment> \<open>a conversion whose value the Go specification leaves open\<close>

type_synonym 'a result = "panic + 'a"

type_synonym 'a run = "'a result option"

type_synonym u8 = "8 word"
type_synonym u32 = "32 word"
type_synonym u64 = "64 word"

text \<open>The collections that the proofs of several components extend.\<close>

named_theorems result_simps \<open>unfolding of the result and run combinators\<close>
named_theorems invs \<open>preservation of the component invariants\<close>

definition bindR :: "'a result \<Rightarrow> ('a \<Rightarrow> 'b result) \<Rightarrow> 'b result" where
  "bindR r f = (case r of Inl e \<Rightarrow> Inl e | Inr a \<Rightarrow> f a)"

definition bindO :: "'a run \<Rightarrow> ('a \<Rightarrow> 'b run) \<Rightarrow> 'b run" where
  "bindO r f = Option.bind r (\<lambda>x. case x of Inl e \<Rightarrow> Some (Inl e) | Inr a \<Rightarrow> f a)"

text \<open>A Go slice read: out of range it panics.\<close>

definition get :: "'a list \<Rightarrow> nat \<Rightarrow> 'a result" where
  "get xs i = (if i < length xs then Inr (xs ! i) else Inl IndexOutOfRange)"

lemma bindR_simps [simp, result_simps]:
  "bindR (Inl e) f = Inl e"
  "bindR (Inr a) f = f a"
  by (simp_all add: bindR_def)

lemma bindR_Inr_iff [result_simps]:
  "bindR r f = Inr b \<longleftrightarrow> (\<exists>a. r = Inr a \<and> f a = Inr b)"
  by (cases r) auto

lemma bindO_simps [simp, result_simps]:
  "bindO None f = None"
  "bindO (Some (Inl e)) f = Some (Inl e)"
  "bindO (Some (Inr a)) f = f a"
  by (simp_all add: bindO_def)

lemma bindO_Inr_iff [result_simps]:
  "bindO r f = Some (Inr b) \<longleftrightarrow> (\<exists>a. r = Some (Inr a) \<and> f a = Some (Inr b))"
  by (cases r; cases "the r") (auto simp: bindO_def)

lemma bindO_mono [partial_function_mono]:
  assumes "mono_option B" and "\<And>y. mono_option (\<lambda>f. C y f)"
  shows "mono_option (\<lambda>f. bindO (B f) (\<lambda>y. C y f))"
proof -
  have "mono_option (\<lambda>f. case x of Inl e \<Rightarrow> Some (Inl e) | Inr a \<Rightarrow> C a f)" for x
    by (cases x) (simp_all add: assms(2) option.const_mono)
  with assms(1) show ?thesis
    unfolding bindO_def by (rule bind_mono)
qed

section \<open>Exchanging two entries of a list\<close>

definition swap :: "'a list \<Rightarrow> nat \<Rightarrow> nat \<Rightarrow> 'a list" where
  "swap xs i j = xs[i := xs ! j, j := xs ! i]"

lemma length_swap [simp]: "length (swap xs i j) = length xs"
  by (simp add: swap_def)

lemma swap_same [simp]: "swap xs i i = xs"
  by (simp add: swap_def)

lemma nth_swap:
  "i < length xs \<Longrightarrow> j < length xs \<Longrightarrow> k < length xs \<Longrightarrow>
   swap xs i j ! k = (if k = j then xs ! i else if k = i then xs ! j else xs ! k)"
  by (auto simp: swap_def nth_list_update)

lemma mset_swap_eq [simp]:
  "i < length xs \<Longrightarrow> j < length xs \<Longrightarrow> mset (swap xs i j) = mset xs"
  by (simp add: swap_def mset_swap)

lemma set_swap_eq [simp]:
  "i < length xs \<Longrightarrow> j < length xs \<Longrightarrow> set (swap xs i j) = set xs"
  by (metis mset_swap_eq mset_eq_setD)

lemma swap_swap [simp]:
  "i < length xs \<Longrightarrow> j < length xs \<Longrightarrow> swap (swap xs i j) i j = xs"
  by (rule nth_equalityI) (auto simp: nth_swap)

section \<open>Searching and removing\<close>

text \<open>The first position of an entry, as a range loop with an early return finds it.\<close>

fun indexOf :: "'a \<Rightarrow> 'a list \<Rightarrow> nat option" where
  "indexOf x [] = None"
| "indexOf x (y # ys) = (if y = x then Some 0 else map_option Suc (indexOf x ys))"

lemma indexOf_None [simp]: "indexOf x xs = None \<longleftrightarrow> x \<notin> set xs"
  by (induction xs) auto

lemma indexOf_Some: "indexOf x xs = Some i \<Longrightarrow> i < length xs \<and> xs ! i = x"
  by (induction xs arbitrary: i) (auto split: if_splits simp: nth_Cons')

lemma indexOf_in: "x \<in> set xs \<Longrightarrow> \<exists>i. indexOf x xs = Some i"
  by (metis indexOf_None option.exhaust)

lemma indexOf_Some_in: "indexOf x xs = Some i \<Longrightarrow> x \<in> set xs"
  by (metis indexOf_None option.distinct(1))

text \<open>Removal that puts the last entry into the hole.\<close>

definition swapRemove :: "'a list \<Rightarrow> nat \<Rightarrow> 'a list" where
  "swapRemove xs i = take (length xs - 1) (xs[i := xs ! (length xs - 1)])"

lemma length_swapRemove [simp]: "length (swapRemove xs i) = length xs - 1"
  by (simp add: swapRemove_def)

lemma mset_swapRemove: "i < length xs \<Longrightarrow> add_mset (xs ! i) (mset (swapRemove xs i)) = mset xs"
proof (cases xs rule: rev_cases)
  case (snoc ys y)
  assume "i < length xs"
  show ?thesis
  proof (cases "i = length ys")
    case False
    then have i: "i < length ys" using snoc \<open>i < length xs\<close> by simp
    then have "add_mset (ys ! i) (mset (ys[i := y])) = add_mset y (mset ys)"
      by (simp add: mset_update)
    then show ?thesis using i by (simp add: swapRemove_def snoc list_update_append nth_append)
  qed (simp add: swapRemove_def snoc)
qed simp

lemma mset_swapRemove_eq: "i < length xs \<Longrightarrow> mset (swapRemove xs i) = mset xs - {#xs ! i#}"
  by (metis mset_swapRemove add_mset_diff_bothsides diff_empty)

lemma swapRemove_map: "i < length xs \<Longrightarrow> swapRemove (map f xs) i = map f (swapRemove xs i)"
  by (simp add: swapRemove_def flip: take_map map_update)

lemma set_swapRemove_subset: "set (swapRemove xs i) \<subseteq> set xs"
proof (cases "i < length xs")
  case True
  then show ?thesis by (metis mset_swapRemove set_mset_add_mset_insert set_mset_mset subset_insertI)
next
  case False
  then show ?thesis by (auto simp: swapRemove_def dest: in_set_takeD)
qed

text \<open>A pointer into a heap that is a list of objects; \<open>None\<close> and a dangling pointer are nil.\<close>

definition deref :: "'a list \<Rightarrow> nat \<Rightarrow> 'a result" where
  "deref heap i = (if i < length heap then Inr (heap ! i) else Inl NilDereference)"

definition derefOpt :: "'a list \<Rightarrow> nat option \<Rightarrow> 'a result" where
  "derefOpt heap i = (case i of None \<Rightarrow> Inl NilDereference | Some i \<Rightarrow> deref heap i)"

lemma deref_Inr [simp]: "i < length heap \<Longrightarrow> deref heap i = Inr (heap ! i)"
  by (simp add: deref_def)

lemma deref_iff [result_simps]: "deref heap i = Inr x \<longleftrightarrow> i < length heap \<and> x = heap ! i"
  by (auto simp: deref_def)

text \<open>Dropping the last entry of a list exchanged with its end.\<close>

lemma mset_butlast: "xs \<noteq> [] \<Longrightarrow> add_mset (last xs) (mset (butlast xs)) = mset xs"
  by (cases xs rule: rev_cases) auto

text \<open>An \<open>int64\<close> that holds an integer in its range.\<close>

lemma sint_of_int: "- (2 ^ 63) \<le> i \<Longrightarrow> i < 2 ^ 63 \<Longrightarrow> sint (word_of_int i :: u64) = i"
  by (simp add: signed_of_int signed_take_bit_int_eq_self)

end
