(* ===== verification/Riblt_Symbol.thy ===== *)
theory Riblt_Symbol
  imports Prelude
begin

unbundle bit_operations_syntax

text \<open>
  \<open>riblt/symbol.go\<close>: source symbols, hashed symbols and coded symbols. The type
  parameter \<open>T Symbol[T]\<close> of the Go code is a dictionary of its two methods and its
  default value, passed explicitly. The locale \<open>symbol_laws\<close> states the contract of the
  interface: \<open>XOR\<close> with the default value as receiver gives the argument, and \<open>XOR\<close> is
  an exclusive or. Symbols are values here: the permission of \<open>XOR\<close> to reuse its
  receiver's memory is not modelled.
\<close>

section \<open>Symbols\<close>

record 'd symbolOps =
  XOR_of :: "'d \<Rightarrow> 'd \<Rightarrow> 'd"
  Hash_of :: "'d \<Rightarrow> u64"
  default_of :: 'd

record 'd HashedSymbol =
  Symbol :: 'd
  Hash :: u64

text \<open>\<open>count\<close> is an \<open>int64\<close>: a 64-bit word, read with \<open>sint\<close>.\<close>

record 'd CodedSymbol =
  sum_of :: 'd
  count :: u64
  checksum :: u64

definition add_dir :: u64 where "add_dir = 1"

definition remove_dir :: u64 where "remove_dir = -1"

definition applySym ::
  "'d symbolOps \<Rightarrow> 'd CodedSymbol \<Rightarrow> 'd HashedSymbol \<Rightarrow> u64 \<Rightarrow> 'd CodedSymbol" where
  "applySym T c s direction =
     c\<lparr>sum_of := XOR_of T (sum_of c) (Symbol s),
       count := count c + direction,
       checksum := checksum c XOR Hash s\<rparr>"

text \<open>The zero value \<open>CodedSymbol[T]{}\<close>.\<close>

definition emptyCoded :: "'d symbolOps \<Rightarrow> 'd CodedSymbol" where
  "emptyCoded T = \<lparr>sum_of = default_of T, count = 0, checksum = 0\<rparr>"

text \<open>\<open>HashedSymbol[T]{s, s.Hash()}\<close>.\<close>

definition hashSymbol :: "'d symbolOps \<Rightarrow> 'd \<Rightarrow> 'd HashedSymbol" where
  "hashSymbol T s = \<lparr>Symbol = s, Hash = Hash_of T s\<rparr>"

section \<open>The contract of a symbol type\<close>

locale symbol_laws =
  fixes T :: "'d symbolOps"
  assumes XOR_default: "XOR_of T (default_of T) a = a"
    and XOR_assoc: "XOR_of T (XOR_of T a b) c = XOR_of T a (XOR_of T b c)"
    and XOR_comm: "XOR_of T a b = XOR_of T b a"
    and XOR_self: "XOR_of T a a = default_of T"
begin

lemma XOR_default_right [simp]: "XOR_of T a (default_of T) = a"
  using XOR_default XOR_comm by metis

lemma XOR_left_comm: "XOR_of T a (XOR_of T b c) = XOR_of T b (XOR_of T a c)"
  using XOR_assoc XOR_comm by metis

lemma XOR_cancel [simp]: "XOR_of T (XOR_of T a b) b = a"
  by (simp add: XOR_assoc XOR_self)

lemma applySym_commute:
  "applySym T (applySym T c s d) s' d' = applySym T (applySym T c s' d') s d"
proof -
  have "XOR_of T (XOR_of T a b) b' = XOR_of T (XOR_of T a b') b" for a b b'
    using XOR_assoc XOR_comm by metis
  moreover have "(x XOR y) XOR z = (x XOR z) XOR y" for x y z :: u64
    by (simp add: xor.assoc xor.commute xor.left_commute)
  ultimately show ?thesis by (simp add: applySym_def add.commute add.left_commute)
qed

text \<open>Adding and removing the same symbol leaves a coded symbol as it was.\<close>

lemma applySym_cancel: "applySym T (applySym T c s d) s (- d) = c"
proof -
  have "(x XOR y) XOR y = x" for x y :: u64 by (simp add: xor.assoc)
  then show ?thesis by (simp add: applySym_def)
qed

end

text \<open>Applying a list of updates, each a symbol with its direction.\<close>

definition applyAll ::
  "'d symbolOps \<Rightarrow> ('d HashedSymbol \<times> u64) list \<Rightarrow> 'd CodedSymbol \<Rightarrow> 'd CodedSymbol" where
  "applyAll T us c = fold (\<lambda>(s, d) c. applySym T c s d) us c"

lemma applyAll_Nil [simp]: "applyAll T [] c = c"
  and applyAll_Cons [simp]: "applyAll T (u # us) c = applyAll T us (applySym T c (fst u) (snd u))"
  and applyAll_append [simp]: "applyAll T (us @ vs) c = applyAll T vs (applyAll T us c)"
  by (simp_all add: applyAll_def case_prod_unfold)

context symbol_laws
begin

text \<open>The order of the updates does not matter.\<close>

lemma applyAll_mset: "mset us = mset vs \<Longrightarrow> applyAll T us c = applyAll T vs c"
  unfolding applyAll_def
  by (rule fold_multiset_equiv [THEN fun_cong])
     (auto simp: fun_eq_iff applySym_commute)

lemma applyAll_applySym: "applyAll T us (applySym T c s d) = applySym T (applyAll T us c) s d"
  using applyAll_mset [of "(s, d) # us" "us @ [(s, d)]" c] by simp

end

end
