(* ===== verification/Newsim_Types.thy ===== *)
theory Newsim_Types
  imports Riblt_Symbol
begin

text \<open>
  \<open>newsim/types.go\<close>: the transactions that the simulated servers reconcile, and the
  degree sequence. \<open>siphash\<close> is a third-party package: its \<open>Hash\<close> is the parameter \<open>sip\<close>.
  A \<open>time.Duration\<close> is an \<open>int64\<close>, so a 64-bit word.
\<close>

record transaction =
  idx :: u64
  ts :: u64

definition transaction_XOR :: "transaction \<Rightarrow> transaction \<Rightarrow> transaction" where
  "transaction_XOR d t2 = \<lparr>idx = idx d XOR idx t2, ts = ts d XOR ts t2\<rparr>"

text \<open>\<open>binary.LittleEndian.PutUint64\<close>.\<close>

definition littleEndian64 :: "u64 \<Rightarrow> u8 list" where
  "littleEndian64 w = map (\<lambda>k. ucast (drop_bit (8 * k) w)) [0..<8]"

type_synonym siphash = "u64 \<Rightarrow> u64 \<Rightarrow> u8 list \<Rightarrow> u64"

definition transaction_Hash :: "siphash \<Rightarrow> transaction \<Rightarrow> u64" where
  "transaction_Hash sip d = sip 567 890 (littleEndian64 (idx d))"

text \<open>The dictionary of \<open>riblt.Symbol[transaction]\<close>, with the zero value of the struct.\<close>

definition transactionOps :: "siphash \<Rightarrow> transaction symbolOps" where
  "transactionOps sip =
     \<lparr>XOR_of = transaction_XOR, Hash_of = transaction_Hash sip, default_of = \<lparr>idx = 0, ts = 0\<rparr>\<rparr>"

interpretation tx: symbol_laws "transactionOps sip" for sip
  by unfold_locales
    (simp_all add: transactionOps_def transaction_XOR_def xor.assoc xor.commute xor.left_commute)

text \<open>\<open>transactionGenerator\<close>.\<close>

record transactionGenerator =
  last_of :: u64

definition generate :: "transactionGenerator \<Rightarrow> u64 \<Rightarrow> transactionGenerator \<times> transaction" where
  "generate t at = (let t = t\<lparr>last_of := last_of t + 1\<rparr> in (t, \<lparr>idx = last_of t, ts = at\<rparr>))"

end
