(* ===== verification/Binary_Heap.thy ===== *)
theory Binary_Heap
  imports Prelude
begin

text \<open>
  Array-backed binary heaps. \<open>heap_up\<close> and \<open>heap_down\<close> are the two loops of Go's
  standard \<open>container/heap\<close>, which \<open>des/simulator.go\<close> calls; the ordering
  (\<open>Less\<close> of the client) is an argument. The locale \<open>heap_order\<close> states what a client
  promises about its ordering and proves, once for all clients, that the two loops
  restore the heap property and only permute the array.
\<close>

section \<open>The loops of container/heap\<close>

text \<open>
  \<^verbatim>\<open>
  func up(h Interface, j int) {
      for {
          i := (j - 1) / 2 // parent
          if i == j || !h.Less(j, i) { break }
          h.Swap(i, j)
          j = i
      }
  }
  \<close>
\<close>

function heap_up :: "('a \<Rightarrow> 'a \<Rightarrow> bool) \<Rightarrow> 'a list \<Rightarrow> nat \<Rightarrow> 'a list" where
  "heap_up lt h j =
     (let i = (j - 1) div 2
      in if i = j \<or> \<not> lt (h ! j) (h ! i) then h else heap_up lt (swap h i j) i)"
  by pat_completeness auto
termination
  by (relation "measure (\<lambda>(lt, h, j). j)") auto

text \<open>
  \<^verbatim>\<open>
  func down(h Interface, i0, n int) bool {
      i := i0
      for {
          j1 := 2*i + 1
          if j1 >= n || j1 < 0 { break }
          j := j1 // left child
          if j2 := j1 + 1; j2 < n && h.Less(j2, j1) { j = j2 }
          if !h.Less(j, i) { break }
          h.Swap(i, j)
          i = j
      }
      return i > i0
  }
  \<close>
\<close>

definition smaller_child :: "('a \<Rightarrow> 'a \<Rightarrow> bool) \<Rightarrow> 'a list \<Rightarrow> nat \<Rightarrow> nat \<Rightarrow> nat" where
  "smaller_child lt h i n =
     (let j1 = 2 * i + 1; j2 = j1 + 1
      in if j2 < n \<and> lt (h ! j2) (h ! j1) then j2 else j1)"

lemma smaller_child_cases:
  "smaller_child lt h i n = 2 * i + 1 \<or> smaller_child lt h i n = 2 * i + 2"
  by (simp add: smaller_child_def Let_def)

lemma smaller_child_less: "2 * i + 1 < n \<Longrightarrow> smaller_child lt h i n < n"
  by (simp add: smaller_child_def Let_def)

lemma smaller_child_greater: "i < smaller_child lt h i n"
  by (simp add: smaller_child_def Let_def)

lemma smaller_child_parent: "(smaller_child lt h i n - 1) div 2 = i"
  by (simp add: smaller_child_def Let_def)

function heap_down :: "('a \<Rightarrow> 'a \<Rightarrow> bool) \<Rightarrow> 'a list \<Rightarrow> nat \<Rightarrow> nat \<Rightarrow> 'a list" where
  "heap_down lt h i n =
     (if 2 * i + 1 \<ge> n then h
      else let j = smaller_child lt h i n
           in if \<not> lt (h ! j) (h ! i) then h else heap_down lt (swap h i j) j n)"
  by pat_completeness auto
termination
proof (relation "measure (\<lambda>(lt, h, i, n). n - i)", goal_cases)
  case (2 lt h i n x)
  then show ?case
    using smaller_child_greater [of i lt h n] by simp
qed simp

declare heap_up.simps [simp del] heap_down.simps [simp del]

lemma length_heap_up [simp]: "length (heap_up lt h j) = length h"
  by (induction lt h j rule: heap_up.induct) (subst heap_up.simps, simp add: Let_def)

lemma length_heap_down [simp]: "length (heap_down lt h i n) = length h"
  by (induction lt h i n rule: heap_down.induct) (subst heap_down.simps, simp add: Let_def)

lemma mset_heap_up [simp]: "j < length h \<Longrightarrow> mset (heap_up lt h j) = mset h"
proof (induction lt h j rule: heap_up.induct)
  case (1 lt h j)
  let ?i = "(j - 1) div 2"
  have "?i < length h" using "1.prems" by linarith
  with "1" show ?case
    by (subst heap_up.simps) (auto simp: Let_def)
qed

lemma mset_heap_down [simp]: "n \<le> length h \<Longrightarrow> mset (heap_down lt h i n) = mset h"
proof (induction lt h i n rule: heap_down.induct)
  case (1 lt h i n)
  show ?case
  proof (cases "2 * i + 1 \<ge> n")
    case True
    then show ?thesis by (subst heap_down.simps) simp
  next
    case False
    then have "smaller_child lt h i n < length h" and "i < length h"
      using smaller_child_less [of i n lt h] "1.prems" by auto
    with False "1" show ?thesis
      by (subst heap_down.simps) (auto simp: Let_def)
  qed
qed

text \<open>Entries at \<open>n\<close> and beyond are not touched.\<close>

lemma heap_down_beyond:
  "n \<le> length h \<Longrightarrow> n \<le> k \<Longrightarrow> k < length h \<Longrightarrow> heap_down lt h i n ! k = h ! k"
proof (induction lt h i n rule: heap_down.induct)
  case (1 lt h i n)
  show ?case
  proof (cases "2 * i + 1 \<ge> n")
    case True
    then show ?thesis by (subst heap_down.simps) simp
  next
    case False
    let ?j = "smaller_child lt h i n"
    have j: "?j < n" using False smaller_child_less [of i n lt h] by simp
    then have "swap h i ?j ! k = h ! k"
      using "1.prems" False by (subst nth_swap) auto
    with False "1" j show ?thesis
      by (subst heap_down.simps) (auto simp: Let_def)
  qed
qed

section \<open>The heap property\<close>

definition is_heap :: "('a \<Rightarrow> 'a \<Rightarrow> bool) \<Rightarrow> 'a list \<Rightarrow> nat \<Rightarrow> bool" where
  "is_heap lt h n \<longleftrightarrow> (\<forall>i<n. 0 < i \<longrightarrow> \<not> lt (h ! i) (h ! ((i - 1) div 2)))"

text \<open>
  The heap property with one defect: \<open>up_ok\<close> where entry \<open>j\<close> may be smaller than its
  parent, \<open>down_ok\<close> where it may be larger than its children. In both, the children of
  \<open>j\<close> are no smaller than the parent of \<open>j\<close>.
\<close>

definition up_ok :: "('a \<Rightarrow> 'a \<Rightarrow> bool) \<Rightarrow> 'a list \<Rightarrow> nat \<Rightarrow> nat \<Rightarrow> bool" where
  "up_ok lt h n j \<longleftrightarrow>
     (\<forall>i<n. 0 < i \<longrightarrow> i \<noteq> j \<longrightarrow> \<not> lt (h ! i) (h ! ((i - 1) div 2))) \<and>
     (\<forall>i<n. 0 < i \<longrightarrow> 0 < j \<longrightarrow> (i - 1) div 2 = j \<longrightarrow> \<not> lt (h ! i) (h ! ((j - 1) div 2)))"

definition down_ok :: "('a \<Rightarrow> 'a \<Rightarrow> bool) \<Rightarrow> 'a list \<Rightarrow> nat \<Rightarrow> nat \<Rightarrow> bool" where
  "down_ok lt h n j \<longleftrightarrow>
     (\<forall>i<n. 0 < i \<longrightarrow> (i - 1) div 2 \<noteq> j \<longrightarrow> \<not> lt (h ! i) (h ! ((i - 1) div 2))) \<and>
     (\<forall>i<n. 0 < i \<longrightarrow> 0 < j \<longrightarrow> (i - 1) div 2 = j \<longrightarrow> \<not> lt (h ! i) (h ! ((j - 1) div 2)))"

locale heap_order =
  fixes lt :: "'a \<Rightarrow> 'a \<Rightarrow> bool"
  assumes lt_asym: "lt a b \<Longrightarrow> \<not> lt b a"
    and lt_cotrans: "lt a c \<Longrightarrow> lt a b \<or> lt b c"
begin

lemma lt_irrefl [simp]: "\<not> lt a a"
  using lt_asym by blast

lemma not_lt_trans: "\<not> lt b a \<Longrightarrow> \<not> lt c b \<Longrightarrow> \<not> lt c a"
  using lt_cotrans by blast

lemma head_minimal: "is_heap lt h n \<Longrightarrow> k < n \<Longrightarrow> \<not> lt (h ! k) (h ! 0)"
proof (induction k rule: less_induct)
  case (less k)
  show ?case
  proof (cases "k = 0")
    case True
    then show ?thesis by simp
  next
    case False
    let ?p = "(k - 1) div 2"
    have "?p < k" using False by linarith
    with less have "\<not> lt (h ! ?p) (h ! 0)" by simp
    moreover have "\<not> lt (h ! k) (h ! ?p)"
      using less.prems False by (simp add: is_heap_def)
    ultimately show ?thesis by (rule not_lt_trans)
  qed
qed

lemma up_restores:
  "n \<le> length h \<Longrightarrow> j < n \<Longrightarrow> up_ok lt h n j \<Longrightarrow> is_heap lt (heap_up lt h j) n"
proof (induction j arbitrary: h rule: less_induct)
  case (less j)
  let ?i = "(j - 1) div 2"
  show ?case
  proof (cases "?i = j \<or> \<not> lt (h ! j) (h ! ?i)")
    case True
    then have "is_heap lt h n"
      using less.prems(3) by (auto simp: is_heap_def up_ok_def)
    with True show ?thesis by (subst heap_up.simps) (simp add: Let_def)
  next
    case False
    then have i: "?i < j" "0 < j" by linarith+
    have nth: "swap h ?i j ! k = (if k = j then h ! ?i else if k = ?i then h ! j else h ! k)"
      if "k < n" for k
      using that i less.prems by (intro nth_swap) auto
    have "up_ok lt (swap h ?i j) n ?i"
      unfolding up_ok_def
    proof (intro conjI allI impI)
      fix k assume k: "k < n" "0 < k" "k \<noteq> ?i"
      have pk: "(k - 1) div 2 < k" "(k - 1) div 2 < n" using k by linarith+
      have old: "k \<noteq> j \<Longrightarrow> \<not> lt (h ! k) (h ! ((k - 1) div 2))"
        using less.prems(3) k by (auto simp: up_ok_def)
      have child: "(k - 1) div 2 = j \<Longrightarrow> \<not> lt (h ! k) (h ! ?i)"
        using less.prems(3) k i by (auto simp: up_ok_def)
      show "\<not> lt (swap h ?i j ! k) (swap h ?i j ! ((k - 1) div 2))"
        using old child k pk i False nth [of k] nth [of "(k - 1) div 2"]
          lt_asym [of "h ! j" "h ! ?i"] not_lt_trans [of "h ! ?i" "h ! j" "h ! k"]
        by (auto split: if_splits)
    next
      fix k assume k: "k < n" "0 < k" "0 < ?i" "(k - 1) div 2 = ?i"
      let ?g = "(?i - 1) div 2"
      have g: "?g < ?i" using k by linarith
      have gp: "\<not> lt (h ! ?i) (h ! ?g)"
        using less.prems i k by (auto simp: up_ok_def)
      have hg: "swap h ?i j ! ?g = h ! ?g" using nth [of ?g] g i less.prems by simp
      show "\<not> lt (swap h ?i j ! k) (swap h ?i j ! ?g)"
      proof (cases "k = j")
        case True
        then show ?thesis using nth [of k] k gp hg by simp
      next
        case neq: False
        have "k \<noteq> ?i" using k by linarith
        then have hk: "swap h ?i j ! k = h ! k" using nth [of k] k neq by simp
        have "\<not> lt (h ! k) (h ! ?i)"
          using less.prems(3) k neq by (auto simp: up_ok_def)
        then show ?thesis using gp not_lt_trans hg hk by metis
      qed
    qed
    with False less i show ?thesis
      by (subst heap_up.simps) (auto simp: Let_def)
  qed
qed

lemma smaller_child_minimal:
  assumes "2 * i + 1 < n" "k < n" "0 < k" "(k - 1) div 2 = i"
  shows "\<not> lt (h ! k) (h ! smaller_child lt h i n)"
proof -
  have "k = 2 * i + 1 \<or> k = 2 * i + 2" using assms(3,4) by linarith
  then show ?thesis
    using assms lt_asym by (auto simp: smaller_child_def Let_def)
qed

lemma down_ok_swap:
  assumes len: "n \<le> length h" and down: "down_ok lt h n i"
    and inner: "2 * i + 1 < n" and less: "lt (h ! smaller_child lt h i n) (h ! i)"
  shows "down_ok lt (swap h i (smaller_child lt h i n)) n (smaller_child lt h i n)"
proof -
  let ?j = "smaller_child lt h i n"
  have j: "?j < n" "i < ?j" "(?j - 1) div 2 = i"
    using inner smaller_child_less smaller_child_greater smaller_child_parent by auto
  have nth: "swap h i ?j ! k = (if k = ?j then h ! i else if k = i then h ! ?j else h ! k)"
    if "k < n" for k
    using that j len by (intro nth_swap) auto
  show ?thesis
    unfolding down_ok_def
  proof (intro conjI allI impI)
    fix k assume k: "k < n" "0 < k" "(k - 1) div 2 \<noteq> ?j"
    let ?p = "(k - 1) div 2"
    have p: "?p < n" "?p < k" using k by linarith+
    have gp: "k = i \<Longrightarrow> \<not> lt (h ! ?j) (h ! ?p)"
      using down j k by (auto simp: down_ok_def)
    have sib: "?p = i \<Longrightarrow> \<not> lt (h ! k) (h ! ?j)"
      using smaller_child_minimal inner k by blast
    have old: "?p \<noteq> i \<Longrightarrow> \<not> lt (h ! k) (h ! ?p)"
      using down k by (auto simp: down_ok_def)
    show "\<not> lt (swap h i ?j ! k) (swap h i ?j ! ?p)"
      using gp sib old nth [of k] nth [of ?p] k p j lt_asym [OF less] by auto
  next
    fix k assume k: "k < n" "0 < k" "0 < ?j" "(k - 1) div 2 = ?j"
    then have "?j < k" "i < n" using j by linarith+
    moreover have "\<not> lt (h ! k) (h ! ?j)"
      using down k j by (auto simp: down_ok_def)
    ultimately show "\<not> lt (swap h i ?j ! k) (swap h i ?j ! ((?j - 1) div 2))"
      using k j nth [of k] nth [of i] by auto
  qed
qed

lemma down_restores:
  "n \<le> length h \<Longrightarrow> down_ok lt h n i \<Longrightarrow> is_heap lt (heap_down lt h i n) n"
proof (induction "n - i" arbitrary: h i rule: less_induct)
  case less
  let ?j = "smaller_child lt h i n"
  consider "n \<le> 2 * i + 1" | "2 * i + 1 < n" "\<not> lt (h ! ?j) (h ! i)"
    | "2 * i + 1 < n" "lt (h ! ?j) (h ! i)" by linarith
  then show ?case
  proof cases
    case 1
    then have "is_heap lt h n"
      using less.prems(2) by (auto simp: is_heap_def down_ok_def)
    with 1 show ?thesis by (subst heap_down.simps) simp
  next
    case 2
    have "is_heap lt h n"
      unfolding is_heap_def
    proof (intro allI impI)
      fix k assume k: "k < n" "0 < k"
      show "\<not> lt (h ! k) (h ! ((k - 1) div 2))"
      proof (cases "(k - 1) div 2 = i")
        case True
        then have "\<not> lt (h ! k) (h ! ?j)" using smaller_child_minimal 2 k by blast
        with True 2 show ?thesis using not_lt_trans by metis
      next
        case False
        then show ?thesis using less.prems(2) k by (simp add: down_ok_def)
      qed
    qed
    with 2 show ?thesis by (subst heap_down.simps) (simp add: Let_def)
  next
    case 3
    have "is_heap lt (heap_down lt (swap h i ?j) ?j n) n"
      using 3 less.prems smaller_child_greater [of i lt h n]
      by (intro less.hyps down_ok_swap) auto
    with 3 show ?thesis by (subst heap_down.simps) (simp add: Let_def)
  qed
qed

text \<open>\<open>heap.Push\<close> and \<open>heap.Pop\<close> of the standard library, on a slice.\<close>

lemma push_restores:
  assumes "is_heap lt h (length h)"
  shows "is_heap lt (heap_up lt (h @ [x]) (length h)) (Suc (length h))"
proof -
  have "up_ok lt (h @ [x]) (Suc (length h)) (length h)"
    unfolding up_ok_def
  proof (intro conjI allI impI)
    fix i assume "i < Suc (length h)" "0 < i" "i \<noteq> length h"
    then have "i < length h" "(i - 1) div 2 < length h" by linarith+
    then show "\<not> lt ((h @ [x]) ! i) ((h @ [x]) ! ((i - 1) div 2))"
      using assms \<open>0 < i\<close> by (simp add: is_heap_def nth_append)
  next
    fix i assume "i < Suc (length h)" "0 < i" "(i - 1) div 2 = length h"
    then have False by linarith
    then show "\<not> lt ((h @ [x]) ! i) ((h @ [x]) ! ((length h - 1) div 2))" ..
  qed
  then show ?thesis by (intro up_restores) simp_all
qed

lemma pop_restores:
  assumes "is_heap lt h (length h)" "h \<noteq> []"
  shows "is_heap lt (heap_down lt (swap h 0 (length h - 1)) 0 (length h - 1)) (length h - 1)"
proof -
  let ?n = "length h - 1" and ?s = "swap h 0 (length h - 1)"
  have nth: "?s ! i = h ! i" if "0 < i" "i < ?n" for i
    using that assms(2) by (simp add: nth_swap)
  have "down_ok lt ?s ?n 0"
    unfolding down_ok_def
  proof (intro conjI allI impI)
    fix i assume i: "i < ?n" "0 < i" "(i - 1) div 2 \<noteq> 0"
    then have "0 < (i - 1) div 2" "(i - 1) div 2 < ?n" by linarith+
    moreover have "\<not> lt (h ! i) (h ! ((i - 1) div 2))" using assms i by (simp add: is_heap_def)
    ultimately show "\<not> lt (?s ! i) (?s ! ((i - 1) div 2))" using nth i by simp
  qed simp_all
  then show ?thesis by (intro down_restores) simp_all
qed

end

end
