(* ===== verification/Des.thy ===== *)
theory Des
  imports Binary_Heap
begin

text \<open>
  \<open>des/simulator.go\<close>: the discrete-event simulator. Its queue is a slice kept in order by
  the standard library's \<open>container/heap\<close> (theory \<open>Binary_Heap\<close>), ordered by arrival time and
  then by sequence number. A module is whatever implements \<open>HandleMessage\<close>: the parameter
  \<open>handle\<close> acts on the state \<open>w\<close> of all modules, and a nil module is \<open>None\<close>. A
  \<open>time.Duration\<close> is an \<open>int64\<close>, a 64-bit word read with \<open>sint\<close>.

  The locale \<open>module_contract\<close> states what the simulator relies on: modules never ask for a
  negative delay. Under it time does not run backwards.
\<close>

section \<open>Messages and the queue\<close>

type_synonym duration = u64

record ('p, 'm) OutgoingMessage =
  Payload :: 'p
  To :: "'m option"
  Delay :: duration

record ('p, 'm) queuedMessage =
  arrival :: duration
  mseq :: int
  mfrom :: "'m option"
  mto :: "'m option"
  payload :: 'p

record ('p, 'm) Simulator =
  stime :: duration
  mq :: "('p, 'm) queuedMessage list"
  seq :: int

definition emptySimulator :: "('p, 'm) Simulator" where
  "emptySimulator = \<lparr>stime = 0, mq = [], seq = 0\<rparr>"

definition queueLess :: "('p, 'm) queuedMessage \<Rightarrow> ('p, 'm) queuedMessage \<Rightarrow> bool" where
  "queueLess a b \<longleftrightarrow>
     (if sint (arrival a) < sint (arrival b) then True
      else if arrival a = arrival b then mseq a < mseq b
      else False)"

text \<open>\<open>heap.Push\<close>: \<open>priorityQueue.Push\<close> appends, then the last entry moves up.\<close>

definition heapPush :: "('p, 'm) queuedMessage list \<Rightarrow> ('p, 'm) queuedMessage \<Rightarrow> ('p, 'm) queuedMessage list" where
  "heapPush pq x = heap_up queueLess (pq @ [x]) (length pq)"

text \<open>
  \<open>heap.Pop\<close>: the head is exchanged with the last entry, moves down, and
  \<open>priorityQueue.Pop\<close> removes the last entry. On an empty queue \<open>Swap(0, -1)\<close> panics.
\<close>

definition heapPop ::
  "('p, 'm) queuedMessage list \<Rightarrow> (('p, 'm) queuedMessage list \<times> ('p, 'm) queuedMessage) result" where
  "heapPop pq =
     (if pq = [] then Inl IndexOutOfRange
      else let n = length pq - 1;
               pq = heap_down queueLess (swap pq 0 n) 0 n;
               res = pq ! (length pq - 1)
           in Inr (take (length pq - 1) pq, res))"

section \<open>The simulator\<close>

definition EventsQueued :: "('p, 'm) Simulator \<Rightarrow> nat" where
  "EventsQueued s = length (mq s)"

definition EventsDelivered :: "('p, 'm) Simulator \<Rightarrow> int" where
  "EventsDelivered s = seq s - int (length (mq s))"

definition Drained :: "('p, 'm) Simulator \<Rightarrow> bool" where
  "Drained s \<longleftrightarrow> length (mq s) = 0"

definition Time :: "('p, 'm) Simulator \<Rightarrow> duration" where
  "Time s = stime s"

definition ScheduleMessage ::
  "('p, 'm) Simulator \<Rightarrow> ('p, 'm) OutgoingMessage \<Rightarrow> 'm option \<Rightarrow> ('p, 'm) Simulator" where
  "ScheduleMessage s msg from =
     (let s = (if To msg = None
               then let m = \<lparr>arrival = stime s + Delay msg, mseq = seq s, mfrom = from, mto = from, payload = Payload msg\<rparr>
                    in s\<lparr>mq := heapPush (mq s) m\<rparr>
               else let m = \<lparr>arrival = stime s + Delay msg, mseq = seq s, mfrom = from, mto = To msg, payload = Payload msg\<rparr>
                    in s\<lparr>mq := heapPush (mq s) m\<rparr>)
      in s\<lparr>seq := seq s + 1\<rparr>)"

type_synonym ('w, 'p, 'm) handler =
  "'m \<Rightarrow> 'p \<Rightarrow> 'm option \<Rightarrow> duration \<Rightarrow> 'w \<Rightarrow> ('w \<times> ('p, 'm) OutgoingMessage list) run"

definition callHandler ::
  "('w, 'p, 'm) handler \<Rightarrow> 'm option \<Rightarrow> 'p \<Rightarrow> 'm option \<Rightarrow> duration \<Rightarrow> 'w \<Rightarrow>
   ('w \<times> ('p, 'm) OutgoingMessage list) run" where
  "callHandler handle to p from t w =
     (case to of None \<Rightarrow> Some (Inl NilDereference) | Some m \<Rightarrow> handle m p from t w)"

definition deliverNextMessage ::
  "('w, 'p, 'm) handler \<Rightarrow> ('p, 'm) Simulator \<Rightarrow> 'w \<Rightarrow> (('p, 'm) Simulator \<times> 'w) run" where
  "deliverNextMessage handle s w =
     bindO (Some (heapPop (mq s))) (\<lambda>(pq, m).
       let s = s\<lparr>mq := pq\<rparr> in
       if sint (arrival m) < sint (stime s) then Some (Inl (Panic ''time reversal''))
       else let s = s\<lparr>stime := arrival m\<rparr>
            in bindO (callHandler handle (mto m) (payload m) (mfrom m) (stime s) w) (\<lambda>(w, nm).
                 Some (Inr (fold (\<lambda>v s. ScheduleMessage s v (mto m)) nm s, w))))"

partial_function (option) RunUntil ::
  "('w, 'p, 'm) handler \<Rightarrow> duration \<Rightarrow> ('p, 'm) Simulator \<Rightarrow> 'w \<Rightarrow> (('p, 'm) Simulator \<times> 'w) run" where
  "RunUntil handle t s w =
     (if \<not> Drained s \<and> sint (stime s) \<le> sint t
      then bindO (deliverNextMessage handle s w) (\<lambda>p. RunUntil handle t (fst p) (snd p))
      else Some (Inr (s, w)))"

partial_function (option) Run ::
  "('w, 'p, 'm) handler \<Rightarrow> ('p, 'm) Simulator \<Rightarrow> 'w \<Rightarrow> (('p, 'm) Simulator \<times> 'w) run" where
  "Run handle s w =
     (if \<not> Drained s
      then bindO (deliverNextMessage handle s w) (\<lambda>p. Run handle (fst p) (snd p))
      else Some (Inr (s, w)))"

section \<open>The queue is a heap\<close>

abbreviation queue_heap :: "('p, 'm) queuedMessage list \<Rightarrow> bool" where
  "queue_heap pq \<equiv> is_heap queueLess pq (length pq)"

lemma sint_eq_iff: "sint a = sint b \<longleftrightarrow> a = b" for a b :: u64
  by (auto intro: signed_word_eqI)

interpretation queue: heap_order queueLess
  by unfold_locales (auto simp: queueLess_def sint_eq_iff split: if_splits)

lemma length_heapPush [simp]: "length (heapPush pq x) = Suc (length pq)"
  by (simp add: heapPush_def)

lemma mset_heapPush [simp]: "mset (heapPush pq x) = add_mset x (mset pq)"
  by (simp add: heapPush_def)

lemma set_heapPush [simp]: "set (heapPush pq x) = insert x (set pq)"
  by (metis mset_heapPush set_mset_add_mset_insert set_mset_mset)

lemma heapPush_distinct:
  assumes "distinct (map f pq)" "f x \<notin> f ` set pq"
  shows "distinct (map f (heapPush pq x))"
proof -
  have "mset (map f (heapPush pq x)) = mset (map f (x # pq))" by simp
  moreover have "distinct (map f (x # pq))" using assms by simp
  ultimately show ?thesis by (metis mset_eq_imp_distinct_iff)
qed

lemma heapPush_heap [invs]: "queue_heap pq \<Longrightarrow> queue_heap (heapPush pq x)"
  using queue.push_restores [of pq x] by (simp add: heapPush_def)

text \<open>\<open>earlier a b\<close>: the order of delivery.\<close>

definition earlier :: "('p, 'm) queuedMessage \<Rightarrow> ('p, 'm) queuedMessage \<Rightarrow> bool" where
  "earlier a b \<longleftrightarrow> sint (arrival a) < sint (arrival b) \<or> arrival a = arrival b \<and> mseq a < mseq b"

lemma queueLess_earlier: "queueLess a b \<longleftrightarrow> earlier a b"
  by (auto simp: queueLess_def earlier_def)

lemma heapPop_spec:
  assumes "queue_heap pq" "pq \<noteq> []"
  obtains pq' m where "heapPop pq = Inr (pq', m)" "mset pq = add_mset m (mset pq')" "queue_heap pq'"
    "\<forall>x\<in>set pq. \<not> earlier x m"
proof -
  let ?n = "length pq - 1"
  let ?d = "heap_down queueLess (swap pq 0 ?n) 0 ?n"
  have len: "length ?d = Suc ?n" using assms(2) by simp
  have last: "?d ! ?n = pq ! 0"
    using assms(2) by (simp add: heap_down_beyond nth_swap)
  have "mset (take ?n ?d @ [?d ! ?n]) = mset ?d"
    using len by (metis lessI take_Suc_conv_app_nth order.refl take_all)
  also have "\<dots> = mset pq" using assms(2) by simp
  finally have ms: "mset pq = add_mset (pq ! 0) (mset (take ?n ?d))"
    unfolding last by simp
  have "is_heap queueLess (take ?n ?d) ?n"
    using queue.pop_restores [OF assms] by (simp add: is_heap_def)
  moreover have "length (take ?n ?d) = ?n" by simp
  ultimately have heap: "queue_heap (take ?n ?d)" by simp
  have "\<forall>x\<in>set pq. \<not> earlier x (pq ! 0)"
    using queue.head_minimal [OF assms(1)] by (auto simp: in_set_conv_nth queueLess_earlier)
  moreover have "heapPop pq = Inr (take ?n ?d, pq ! 0)"
    using assms(2) last len by (simp add: heapPop_def Let_def)
  ultimately show ?thesis using that ms heap by blast
qed

section \<open>The invariant of the simulator\<close>

definition sim_ok :: "('p, 'm) Simulator \<Rightarrow> bool" where
  "sim_ok s \<longleftrightarrow>
     queue_heap (mq s) \<and> (\<forall>m\<in>set (mq s). sint (stime s) \<le> sint (arrival m) \<and> mseq m < seq s) \<and>
     distinct (map mseq (mq s))"

lemma sim_ok_empty [simp, invs]: "sim_ok emptySimulator"
  by (simp add: sim_ok_def emptySimulator_def is_heap_def)

text \<open>The queued form of a message that is scheduled as number \<open>k\<close> at time \<open>t\<close>.\<close>

definition queuedFor ::
  "duration \<Rightarrow> 'm option \<Rightarrow> int \<Rightarrow> ('p, 'm) OutgoingMessage \<Rightarrow> ('p, 'm) queuedMessage" where
  "queuedFor t from k v =
     \<lparr>arrival = t + Delay v, mseq = k, mfrom = from, mto = (if To v = None then from else To v),
      payload = Payload v\<rparr>"

lemma ScheduleMessage_eq:
  "ScheduleMessage s v from = s\<lparr>mq := heapPush (mq s) (queuedFor (stime s) from (seq s) v), seq := seq s + 1\<rparr>"
  by (simp add: ScheduleMessage_def queuedFor_def Let_def)

abbreviation scheduleAll ::
  "('p, 'm) OutgoingMessage list \<Rightarrow> 'm option \<Rightarrow> ('p, 'm) Simulator \<Rightarrow> ('p, 'm) Simulator" where
  "scheduleAll nm from s \<equiv> fold (\<lambda>v s. ScheduleMessage s v from) nm s"

fun queuedAll ::
  "duration \<Rightarrow> 'm option \<Rightarrow> int \<Rightarrow> ('p, 'm) OutgoingMessage list \<Rightarrow> ('p, 'm) queuedMessage list" where
  "queuedAll t from k [] = []"
| "queuedAll t from k (v # nm) = queuedFor t from k v # queuedAll t from (k + 1) nm"

lemma scheduleAll_spec:
  "stime (scheduleAll nm from s) = stime s \<and> seq (scheduleAll nm from s) = seq s + int (length nm) \<and>
   mset (mq (scheduleAll nm from s)) = mset (mq s) + mset (queuedAll (stime s) from (seq s) nm) \<and>
   (queue_heap (mq s) \<longrightarrow> queue_heap (mq (scheduleAll nm from s)))"
proof (induction nm arbitrary: s)
  case (Cons v nm)
  let ?s = "ScheduleMessage s v from"
  have "stime ?s = stime s" "seq ?s = seq s + 1"
    "mset (mq ?s) = add_mset (queuedFor (stime s) from (seq s) v) (mset (mq s))"
    "queue_heap (mq s) \<longrightarrow> queue_heap (mq ?s)"
    using heapPush_heap [of "mq s" "queuedFor (stime s) from (seq s) v"] by (simp_all add: ScheduleMessage_eq)
  then show ?case using Cons [of ?s] by simp
qed simp

lemma queuedAll_length [simp]: "length (queuedAll t from k nm) = length nm"
  by (induction nm arbitrary: k) simp_all

lemma queuedAll_seq:
  "x \<in> set (queuedAll t from k nm) \<Longrightarrow> k \<le> mseq x \<and> mseq x < k + int (length nm)"
  by (induction nm arbitrary: k) (fastforce simp: queuedFor_def)+

lemma queuedAll_distinct: "distinct (map mseq (queuedAll t from k nm))"
  by (induction nm arbitrary: k) (use queuedAll_seq in \<open>fastforce simp: queuedFor_def\<close>)+

lemma queuedAll_arrival:
  "x \<in> set (queuedAll t from k nm) \<Longrightarrow> \<exists>v\<in>set nm. arrival x = t + Delay v"
  by (induction nm arbitrary: k) (auto simp: queuedFor_def)

lemma sint_add:
  fixes a b :: u64
  assumes "- (2 ^ 63) \<le> sint a + sint b" "sint a + sint b < 2 ^ 63"
  shows "sint (a + b) = sint a + sint b"
  using signed_take_bit_int_eq_self [OF assms] by (simp add: sint_word_add)

lemma ScheduleMessage_ok [invs]:
  assumes "sim_ok s" "0 \<le> sint (Delay v)" "sint (stime s) + sint (Delay v) < 2 ^ 63"
  shows "sim_ok (ScheduleMessage s v from)"
proof -
  have "sint (stime s + Delay v) = sint (stime s) + sint (Delay v)"
    using assms sint_ge [of "stime s"] by (intro sint_add) auto
  then show ?thesis
    using assms heapPush_heap [of "mq s" "queuedFor (stime s) from (seq s) v"]
    by (auto simp: sim_ok_def ScheduleMessage_eq queuedFor_def set_heapPush intro!: heapPush_distinct)
qed

text \<open>
  One delivery: the delivered message is before all others in the order of arrival and
  sequence number, and its module's messages are queued behind it with fresh numbers.
\<close>

lemma deliver_spec:
  assumes "sim_ok s" "mq s \<noteq> []"
  obtains m rest where "mset (mq s) = add_mset m (mset rest)" "\<forall>x\<in>set rest. earlier m x"
    "deliverNextMessage handle s w =
       bindO (callHandler handle (mto m) (payload m) (mfrom m) (arrival m) w) (\<lambda>(w', nm).
         Some (Inr (scheduleAll nm (mto m) (s\<lparr>mq := rest, stime := arrival m\<rparr>), w')))"
    "queue_heap rest"
proof -
  have heap: "queue_heap (mq s)" using assms(1) by (simp add: sim_ok_def)
  obtain rest m where pop: "heapPop (mq s) = Inr (rest, m)" "mset (mq s) = add_mset m (mset rest)"
    "queue_heap rest" "\<forall>x\<in>set (mq s). \<not> earlier x m"
    by (rule heapPop_spec [OF heap assms(2)])
  have sub: "m \<in> set (mq s)" "set rest \<subseteq> set (mq s)"
    using pop(2) by (metis add_mset_remove_trivial insert_iff set_mset_add_mset_insert set_mset_mset)
      (metis pop(2) set_mset_add_mset_insert set_mset_mset subset_insertI)
  have "mset (map mseq (mq s)) = mset (map mseq (m # rest))" using pop(2) by simp
  moreover have "distinct (map mseq (mq s))" using assms(1) by (simp add: sim_ok_def)
  ultimately have dist: "distinct (map mseq (m # rest))" by (metis mset_eq_imp_distinct_iff)
  have "earlier m x" if "x \<in> set rest" for x
  proof -
    have "mseq m \<notin> mseq ` set rest" using dist by simp
    then have "mseq x \<noteq> mseq m" using that by (metis imageI)
    moreover have "\<not> earlier x m" using pop(4) sub that by blast
    ultimately show ?thesis by (auto simp: earlier_def sint_eq_iff not_less)
  qed
  moreover have "\<not> sint (arrival m) < sint (stime s)" using assms(1) sub by (fastforce simp: sim_ok_def)
  then have "deliverNextMessage handle s w =
       bindO (callHandler handle (mto m) (payload m) (mfrom m) (arrival m) w) (\<lambda>(w', nm).
         Some (Inr (scheduleAll nm (mto m) (s\<lparr>mq := rest, stime := arrival m\<rparr>), w')))"
    using pop(1) by (simp add: deliverNextMessage_def Let_def case_prod_unfold)
  ultimately show ?thesis using that pop(2,3) by blast
qed

section \<open>The contract of the modules\<close>

text \<open>
  \<open>in_reach b t s\<close>: no event of the queue is more than \<open>b\<close> beyond the clock or \<open>t\<close>.
  \<open>msgs_ok mok s\<close>: every queued message is one its module may be sent, where \<open>mok from m p\<close>
  says so of a sender, a module and a payload.
\<close>

definition in_reach :: "int \<Rightarrow> int \<Rightarrow> ('p, 'm) Simulator \<Rightarrow> bool" where
  "in_reach b t s \<longleftrightarrow> (\<forall>m\<in>set (mq s). sint (arrival m) \<le> max (sint (stime s)) t + b)"

definition msgs_ok :: "('m option \<Rightarrow> 'm \<Rightarrow> 'p \<Rightarrow> bool) \<Rightarrow> ('p, 'm) Simulator \<Rightarrow> bool" where
  "msgs_ok mok s \<longleftrightarrow> (\<forall>q\<in>set (mq s). \<exists>m. mto q = Some m \<and> mok (mfrom q) m (payload q))"

text \<open>The module that a message of \<open>m\<close> reaches.\<close>

definition destination :: "'m \<Rightarrow> ('p, 'm) OutgoingMessage \<Rightarrow> 'm" where
  "destination m v = (case To v of None \<Rightarrow> m | Some m' \<Rightarrow> m')"

lemma queuedAll_ok:
  "\<forall>v\<in>set nm. mok (Some h) (destination h v) (Payload v) \<Longrightarrow> x \<in> set (queuedAll t (Some h) k nm) \<Longrightarrow>
   \<exists>m. mto x = Some m \<and> mok (mfrom x) m (payload x)"
  by (induction nm arbitrary: k) (auto simp: queuedFor_def destination_def split: option.splits)

text \<open>Scheduling the answers \<open>nm\<close> to the delivered message \<open>m\<close>, with delays between 0 and \<open>bound\<close>.\<close>

lemma answers_keep:
  assumes ok: "sim_ok s" and m: "mset (mq s) = add_mset m (mset rest)" "\<forall>x\<in>set rest. earlier m x" "queue_heap rest"
    and reach: "in_reach bound t s" and early: "sint (stime s) \<le> t" and range: "t + 2 * bound < 2 ^ 63"
    and nm: "\<forall>v\<in>set nm. 0 \<le> sint (Delay v) \<and> sint (Delay v) \<le> bound"
    and s': "s' = scheduleAll nm (mto m) (s\<lparr>mq := rest, stime := arrival m\<rparr>)"
  shows "sim_ok s'" "in_reach bound t s'" "stime s' = arrival m" "sint (stime s) \<le> sint (arrival m)"
    "sint (arrival m) \<le> t + bound" "set (mq s') = set rest \<union> set (queuedAll (arrival m) (mto m) (seq s) nm)"
    "EventsDelivered s' = EventsDelivered s + 1"
proof -
  have mem: "set (mq s) = insert m (set rest)" by (metis m(1) set_mset_add_mset_insert set_mset_mset)
  let ?new = "queuedAll (arrival m) (mto m) (seq s) nm"
  have f: "stime s' = arrival m" "seq s' = seq s + int (length nm)"
    "mset (mq s') = mset rest + mset ?new" "queue_heap (mq s')"
    using scheduleAll_spec [of "mto m" nm "s\<lparr>mq := rest, stime := arrival m\<rparr>"] m(3) by (simp_all add: s')
  show mem': "set (mq s') = set rest \<union> set ?new" by (metis f(3) set_mset_mset set_mset_union)
  have old: "\<forall>x\<in>set (mq s). sint (stime s) \<le> sint (arrival x) \<and> mseq x < seq s"
    "distinct (map mseq (mq s))" using ok by (simp_all add: sim_ok_def)
  show am: "sint (stime s) \<le> sint (arrival m)" "sint (arrival m) \<le> t + bound"
    using old(1) reach early by (auto simp: mem in_reach_def)
  have new: "sint (arrival m) \<le> sint (arrival x) \<and> sint (arrival x) \<le> sint (arrival m) + bound" if x: "x \<in> set ?new" for x
  proof -
    obtain v where v: "v \<in> set nm" "arrival x = arrival m + Delay v" using queuedAll_arrival [OF x] by blast
    then have "sint (arrival x) = sint (arrival m) + sint (Delay v)"
      using nm am(2) range sint_ge [of "arrival m"] by (simp only: v(2)) (rule sint_add, auto)
    then show ?thesis using nm v(1) by simp
  qed
  have rest: "sint (arrival m) \<le> sint (arrival x)" if "x \<in> set rest" for x
    using m(2) that by (auto simp: earlier_def)
  have "mset (map mseq (mq s')) = mset (map mseq (rest @ ?new))" using f(3) by simp
  moreover have "mset (map mseq (mq s)) = mset (map mseq (m # rest))" using m(1) by simp
  then have "distinct (map mseq rest)" using old(2) by (metis distinct.simps(2) list.simps(9) mset_eq_imp_distinct_iff)
  then have "distinct (map mseq (rest @ ?new))"
    using queuedAll_distinct [of "arrival m" "mto m" "seq s" nm] queuedAll_seq [of _ "arrival m" "mto m" "seq s" nm] old(1)
    by (fastforce simp: mem)
  ultimately have "distinct (map mseq (mq s'))" by (metis mset_eq_imp_distinct_iff)
  moreover have "\<forall>x\<in>set (mq s'). sint (stime s') \<le> sint (arrival x) \<and> mseq x < seq s'"
    using rest new old(1) queuedAll_seq [of _ "arrival m" "mto m" "seq s" nm]
    by (fastforce simp: mem mem' f(1,2))
  ultimately show "sim_ok s'" using f(4) by (simp add: sim_ok_def)
  show "in_reach bound t s'"
    using new reach early unfolding in_reach_def mem' f(1) by (fastforce simp: mem)
  show "stime s' = arrival m" by (rule f(1))
  have "length (mq s') + 1 = length (mq s) + length nm"
    using arg_cong [OF f(3), of size] arg_cong [OF m(1), of size]
    by (simp add: queuedAll_length)
  then show "EventsDelivered s' = EventsDelivered s + 1" using f(2) by (simp add: EventsDelivered_def)
qed

text \<open>
  What the simulator relies on: on a message it may be sent, a module's call that returns
  keeps the invariant of the modules and asks for delays between 0 and \<open>bound\<close>, for messages
  that their modules may be sent.
\<close>

locale delay_contract =
  fixes handle :: "('w, 'p, 'm) handler"
    and winv :: "'w \<Rightarrow> bool"
    and bound :: int
    and mok :: "'m option \<Rightarrow> 'm \<Rightarrow> 'p \<Rightarrow> bool"
  assumes delays: "winv w \<Longrightarrow> mok from m p \<Longrightarrow> handle m p from t w = Some (Inr (w', nm)) \<Longrightarrow>
      winv w' \<and> (\<forall>v\<in>set nm. 0 \<le> sint (Delay v) \<and> sint (Delay v) \<le> bound \<and>
                           mok (Some m) (destination m v) (Payload v))"
begin

lemma deliver_keeps:
  assumes ok: "sim_ok s" and w: "winv w" and reach: "in_reach bound t s" and msgs: "msgs_ok mok s"
    and early: "sint (stime s) \<le> t" and range: "t + 2 * bound < 2 ^ 63"
    and run: "deliverNextMessage handle s w = Some (Inr (s', w'))"
  shows "sim_ok s' \<and> winv w' \<and> in_reach bound t s' \<and> msgs_ok mok s' \<and> sint (stime s) \<le> sint (stime s') \<and>
         EventsDelivered s' = EventsDelivered s + 1"
proof -
  have ne: "mq s \<noteq> []"
    using run by (cases "mq s") (simp_all add: deliverNextMessage_def heapPop_def)
  obtain m rest where d: "mset (mq s) = add_mset m (mset rest)" "\<forall>x\<in>set rest. earlier m x"
    "deliverNextMessage handle s w =
       bindO (callHandler handle (mto m) (payload m) (mfrom m) (arrival m) w) (\<lambda>(w', nm).
         Some (Inr (scheduleAll nm (mto m) (s\<lparr>mq := rest, stime := arrival m\<rparr>), w')))"
    "queue_heap rest" by (rule deliver_spec [OF ok ne])
  obtain h nm where call: "mto m = Some h" "handle h (payload m) (mfrom m) (arrival m) w = Some (Inr (w', nm))"
    and s': "s' = scheduleAll nm (mto m) (s\<lparr>mq := rest, stime := arrival m\<rparr>)"
    using run unfolding d(3) by (auto simp: bindO_Inr_iff callHandler_def split: option.splits)
  have mem: "set (mq s) = insert m (set rest)" by (metis d(1) set_mset_add_mset_insert set_mset_mset)
  have "mok (mfrom m) h (payload m)" using msgs call(1) by (auto simp: msgs_ok_def mem)
  from delays [OF w this call(2)]
  have nm: "winv w'" "\<forall>v\<in>set nm. 0 \<le> sint (Delay v) \<and> sint (Delay v) \<le> bound"
    "\<forall>v\<in>set nm. mok (Some h) (destination h v) (Payload v)" by simp_all
  note k = answers_keep [OF ok d(1,2,4) reach early range nm(2) s']
  have "msgs_ok mok s'"
    using msgs queuedAll_ok [where mok = mok, OF nm(3)] unfolding msgs_ok_def k(6) by (auto simp: mem call(1))
  then show ?thesis using k(1,2,4,7) nm(1) by (simp add: k(3))
qed

lemma RunUntil_keeps:
  assumes "RunUntil handle t s w = Some (Inr (s', w'))" "sim_ok s" "winv w" "in_reach bound (sint t) s"
    "msgs_ok mok s" and range: "sint t + 2 * bound < 2 ^ 63"
  shows "sim_ok s' \<and> winv w' \<and> sint (stime s) \<le> sint (stime s') \<and>
         (Drained s' \<or> sint t < sint (stime s')) \<and> EventsDelivered s \<le> EventsDelivered s' \<and>
      in_reach bound (sint t) s' \<and> msgs_ok mok s'"
proof -
  let ?Q = "\<lambda>(t :: duration) s w s' w'. sint t + 2 * bound < 2 ^ 63 \<longrightarrow> sim_ok s \<longrightarrow> winv w \<longrightarrow> in_reach bound (sint t) s \<longrightarrow>
    msgs_ok mok s \<longrightarrow> sim_ok s' \<and> winv w' \<and> sint (stime s) \<le> sint (stime s') \<and>
    (Drained s' \<or> sint t < sint (stime s')) \<and> EventsDelivered s \<le> EventsDelivered s' \<and>
      in_reach bound (sint t) s' \<and> msgs_ok mok s'"
  let ?P = "\<lambda>h t s w (r :: (('p, 'm) Simulator \<times> 'w) result). h = handle \<longrightarrow> (\<forall>s' w'. r = Inr (s', w') \<longrightarrow> ?Q t s w s' w')"
  have "?P handle t s w (Inr (s', w'))"
  proof (rule RunUntil.raw_induct [where P = ?P, OF _ assms(1)], intro allI impI)
    fix R :: "('w, 'p, 'm) handler \<Rightarrow> duration \<Rightarrow> ('p, 'm) Simulator \<Rightarrow> 'w \<Rightarrow> (('p, 'm) Simulator \<times> 'w) run"
    fix h t s w r s' w'
    assume IH: "\<And>h t s w r. R h t s w = Some r \<Longrightarrow> ?P h t s w r"
      and body: "(if \<not> Drained s \<and> sint (stime s) \<le> sint t
          then bindO (deliverNextMessage h s w) (\<lambda>p. R h t (fst p) (snd p))
          else Some (Inr (s, w))) = Some r"
      and h: "h = handle" and r: "r = Inr (s', w')"
      and range: "sint t + 2 * bound < 2 ^ 63" and ok: "sim_ok s" "winv w" "in_reach bound (sint t) s" "msgs_ok mok s"
    show "sim_ok s' \<and> winv w' \<and> sint (stime s) \<le> sint (stime s') \<and>
      (Drained s' \<or> sint t < sint (stime s')) \<and> EventsDelivered s \<le> EventsDelivered s' \<and>
      in_reach bound (sint t) s' \<and> msgs_ok mok s'"
    proof (cases "\<not> Drained s \<and> sint (stime s) \<le> sint t")
      case False
      then show ?thesis using body r ok by auto
    next
      case True
      then obtain s1 w1 where d: "deliverNextMessage handle s w = Some (Inr (s1, w1))"
        "R handle t s1 w1 = Some (Inr (s', w'))"
        using body r h by (auto simp: bindO_Inr_iff)
      note k = deliver_keeps [OF ok _ range d(1)]
      then show ?thesis using IH [OF d(2)] range True by force
    qed
  qed
  then show ?thesis using assms by blast
qed

end

section \<open>Runs that return\<close>

text \<open>
  The full contract: on the messages that modules may be sent they return, and they ask
  for delays of at least \<open>least\<close>.
\<close>

text \<open>How many more deliveries up to \<open>t\<close> a message can lead to, by the least delay.\<close>

definition rank :: "int \<Rightarrow> int \<Rightarrow> ('p, 'm) queuedMessage \<Rightarrow> nat" where
  "rank l t q = (if t < sint (arrival q) then 0 else Suc (nat ((t - sint (arrival q)) div l)))"

locale module_contract = delay_contract handle winv bound mok
  for handle :: "('w, 'p, 'm) handler" and winv :: "'w \<Rightarrow> bool" and bound :: int
    and mok :: "'m option \<Rightarrow> 'm \<Rightarrow> 'p \<Rightarrow> bool" +
  fixes least :: int
  assumes least_pos: "0 < least"
    and returns: "winv w \<Longrightarrow> mok from m p \<Longrightarrow>
      \<exists>w' nm. handle m p from t w = Some (Inr (w', nm)) \<and> (\<forall>v\<in>set nm. least \<le> sint (Delay v))"
begin

lemma rank_later:
  assumes "sint (arrival m) \<le> t" "sint (arrival m) + least \<le> sint (arrival x)"
  shows "rank least t x < rank least t m"
proof (cases "t < sint (arrival x)")
  case True
  then show ?thesis using assms(1) by (simp add: rank_def)
next
  case False
  have "t - sint (arrival x) \<le> t - sint (arrival m) - least" using assms(2) by simp
  then have "(t - sint (arrival x)) div least \<le> (t - sint (arrival m) - least) div least"
    by (rule zdiv_mono1) (rule least_pos)
  also have "\<dots> = (t - sint (arrival m)) div least - 1"
    using least_pos div_add_self2 [of least "t - sint (arrival m) - least"] by simp
  finally have "(t - sint (arrival x)) div least < (t - sint (arrival m)) div least" by simp
  moreover have "0 \<le> (t - sint (arrival x)) div least"
    using False least_pos by (simp add: pos_imp_zdiv_nonneg_iff)
  ultimately show ?thesis using assms(1) False by (simp add: rank_def nat_less_eq_zless)
qed

lemma deliver_returns:
  assumes ok: "sim_ok s" and w: "winv w" and reach: "in_reach bound t s" and early: "sint (stime s) \<le> t"
    and range: "t + 2 * bound < 2 ^ 63" and msgs: "msgs_ok mok s" and ne: "\<not> Drained s"
  obtains s' w' m rest new where "deliverNextMessage handle s w = Some (Inr (s', w'))"
    "mset (mq s) = add_mset m (mset rest)" "mset (mq s') = mset rest + mset new" "stime s' = arrival m"
    "\<forall>x\<in>set new. sint (arrival m) + least \<le> sint (arrival x)"
proof -
  have "mq s \<noteq> []" using ne by (simp add: Drained_def)
  obtain m rest where d: "mset (mq s) = add_mset m (mset rest)" "\<forall>x\<in>set rest. earlier m x"
    "deliverNextMessage handle s w =
       bindO (callHandler handle (mto m) (payload m) (mfrom m) (arrival m) w) (\<lambda>(w', nm).
         Some (Inr (scheduleAll nm (mto m) (s\<lparr>mq := rest, stime := arrival m\<rparr>), w')))"
    "queue_heap rest" by (rule deliver_spec [OF ok \<open>mq s \<noteq> []\<close>])
  have mem: "set (mq s) = insert m (set rest)" by (metis d(1) set_mset_add_mset_insert set_mset_mset)
  obtain h where h: "mto m = Some h" "mok (mfrom m) h (payload m)"
    using msgs by (auto simp: msgs_ok_def mem)
  obtain w' nm where call: "handle h (payload m) (mfrom m) (arrival m) w = Some (Inr (w', nm))"
    "\<forall>v\<in>set nm. least \<le> sint (Delay v)"
    using returns [OF w h(2)] by blast
  have dl: "\<forall>v\<in>set nm. sint (Delay v) \<le> bound" using delays [OF w h(2) call(1)] by simp
  let ?s = "scheduleAll nm (mto m) (s\<lparr>mq := rest, stime := arrival m\<rparr>)"
  let ?new = "queuedAll (arrival m) (mto m) (seq s) nm"
  have f: "stime ?s = arrival m" "mset (mq ?s) = mset rest + mset ?new"
    using scheduleAll_spec [of "mto m" nm "s\<lparr>mq := rest, stime := arrival m\<rparr>"] by simp_all
  have run: "deliverNextMessage handle s w = Some (Inr (?s, w'))"
    using d(3) h(1) call(1) by (simp add: callHandler_def)
  have am: "sint (arrival m) \<le> t + bound" using reach early by (auto simp: mem in_reach_def)
  have late: "sint (arrival m) + least \<le> sint (arrival x)" if x: "x \<in> set ?new" for x
  proof -
    obtain v where v: "v \<in> set nm" "arrival x = arrival m + Delay v" using queuedAll_arrival [OF x] by blast
    then have "sint (arrival x) = sint (arrival m) + sint (Delay v)"
      using call(2) dl least_pos am range sint_ge [of "arrival m"] by (simp only: v(2)) (rule sint_add, force+)
    then show ?thesis using call(2) v(1) by simp
  qed
  show ?thesis using that run d(1) f late by blast
qed

lemma RunUntil_returns:
  assumes "sim_ok s" "winv w" "in_reach bound (sint t) s" "msgs_ok mok s" and range: "sint t + 2 * bound < 2 ^ 63"
  shows "\<exists>s' w'. RunUntil handle t s w = Some (Inr (s', w'))"
  using assms(1-4)
proof (induction "image_mset (rank least (sint t)) (mset (mq s))" arbitrary: s w rule: wf_induct_rule [OF wf_mult [OF wf_less_than]])
  case (1 s w)
  show ?case
  proof (cases "\<not> Drained s \<and> sint (stime s) \<le> sint t")
    case False
    then show ?thesis using 1 by (subst RunUntil.simps) auto
  next
    case True
    then have early: "sint (stime s) \<le> sint t" and ne: "\<not> Drained s" by simp_all
    obtain s1 w1 m rest new where d: "deliverNextMessage handle s w = Some (Inr (s1, w1))"
      "mset (mq s) = add_mset m (mset rest)" "mset (mq s1) = mset rest + mset new" "stime s1 = arrival m"
      "\<forall>x\<in>set new. sint (arrival m) + least \<le> sint (arrival x)"
      by (rule deliver_returns [OF "1.prems"(1-3) early range "1.prems"(4) ne])
    note k = deliver_keeps [OF "1.prems" early range d(1)]
    have step: "RunUntil handle t s w = RunUntil handle t s1 w1"
      using True d(1) by (subst RunUntil.simps) simp
    show ?thesis
    proof (cases "sint (arrival m) \<le> sint t")
      case False
      then show ?thesis using step d(4) by (subst (asm) (2) RunUntil.simps) auto
    next
      case le: True
      have "(image_mset (rank least (sint t)) (mset rest) + image_mset (rank least (sint t)) (mset new),
             image_mset (rank least (sint t)) (mset rest) + {#rank least (sint t) m#}) \<in> mult less_than"
        using rank_later [OF le] d(5) by (intro one_step_implies_mult) auto
      then have "(image_mset (rank least (sint t)) (mset (mq s1)), image_mset (rank least (sint t)) (mset (mq s))) \<in> mult less_than"
        by (simp add: d(2,3))
      from "1.hyps" [OF this] k step show ?thesis by simp
    qed
  qed
qed

end

end
