(* ===== verification/Newsim_Messages.thy ===== *)
theory Newsim_Messages
  imports Newsim_Types Des
begin

text \<open>
  \<open>newsim/messages.go\<close>: the payloads that the servers exchange. A payload is an \<open>any\<close> in the
  source; here it is a datatype with one constructor per message type. The global \<open>TXSIZE\<close>
  is an argument of \<open>size_of\<close>.
\<close>

type_synonym txSymbol = "transaction HashedSymbol"

record codeword =
  CodedSymbol_of :: "transaction CodedSymbol"
  newBlock :: bool
  startHash :: u64
  endHash :: u64

record ack =
  ackBlock :: bool
  ackStart :: bool
  txs_of :: "txSymbol list"

datatype payload =
    CodewordMsg codeword
  | AckMsg ack
  | BlockArrival int
  | Response txSymbol
  | Announce u64
  | Request u64
  | InitialBroadcast txSymbol

definition codeword_size :: "int \<Rightarrow> codeword \<Rightarrow> int" where
  "codeword_size TXSIZE c = 8 + TXSIZE + 8 + 8"

definition ack_size :: "int \<Rightarrow> ack \<Rightarrow> int" where
  "ack_size TXSIZE a = int (length (txs_of a)) * TXSIZE + 8"

definition size_of :: "int \<Rightarrow> payload \<Rightarrow> int" where
  "size_of TXSIZE p =
     (case p of
        CodewordMsg c \<Rightarrow> codeword_size TXSIZE c
      | AckMsg a \<Rightarrow> ack_size TXSIZE a
      | BlockArrival n \<Rightarrow> 0
      | Response r \<Rightarrow> TXSIZE
      | Announce h \<Rightarrow> 32
      | Request h \<Rightarrow> 32
      | InitialBroadcast i \<Rightarrow> TXSIZE)"

text \<open>The zero values of the structs.\<close>

definition zeroTransaction :: transaction where
  "zeroTransaction = \<lparr>idx = 0, ts = 0\<rparr>"

definition zeroSymbol :: txSymbol where
  "zeroSymbol = \<lparr>Symbol = zeroTransaction, Hash = 0\<rparr>"

definition zeroCodeword :: codeword where
  "zeroCodeword = \<lparr>CodedSymbol_of = \<lparr>sum_of = zeroTransaction, count = 0, checksum = 0\<rparr>,
                   newBlock = False, startHash = 0, endHash = 0\<rparr>"

text \<open>Modules are pointers to servers: their number in the slice of \<open>newServers\<close>.\<close>

type_synonym serverId = nat

type_synonym outMsg = "(payload, serverId) OutgoingMessage"

end
