(* ===== verification/Riblt_Heap.thy ===== *)
theory Riblt_Heap
  imports Binary_Heap
begin

text \<open>
  \<open>riblt/encoder.go\<close>, the heap of a coding window: \<open>mappingHeap\<close> with \<open>fixHead\<close> and
  \<open>fixTail\<close>. Both loops are the generic ones of the binary heap with the ordering by
  \<open>codedIdx\<close>, whose locale gives the heap property after each.
\<close>

record symbolMapping =
  sourceIdx :: nat
  codedIdx :: int

type_synonym mappingHeap = "symbolMapping list"

section \<open>The two loops\<close>

function fixHead_loop :: "mappingHeap \<Rightarrow> nat \<Rightarrow> mappingHeap" where
  "fixHead_loop m cur =
     (let child = cur * 2 + 1
      in if child \<ge> length m then m
         else let rc = child + 1;
                  child = (if rc < length m \<and> codedIdx (m ! rc) < codedIdx (m ! child) then rc else child)
              in if codedIdx (m ! cur) \<le> codedIdx (m ! child) then m
                 else fixHead_loop (swap m cur child) child)"
  by pat_completeness auto
termination
  by (relation "measure (\<lambda>(m, cur). length m - cur)") auto

definition fixHead :: "mappingHeap \<Rightarrow> mappingHeap" where
  "fixHead m = fixHead_loop m 0"

function fixTail_loop :: "mappingHeap \<Rightarrow> nat \<Rightarrow> mappingHeap" where
  "fixTail_loop m cur =
     (let parent = (cur - 1) div 2
      in if cur = parent \<or> codedIdx (m ! parent) \<le> codedIdx (m ! cur) then m
         else fixTail_loop (swap m parent cur) parent)"
  by pat_completeness auto
termination
  by (relation "measure (\<lambda>(m, cur). cur)") auto

definition fixTail :: "mappingHeap \<Rightarrow> mappingHeap" where
  "fixTail m = fixTail_loop m (length m - 1)"

declare fixHead_loop.simps [simp del] fixTail_loop.simps [simp del]

section \<open>The loops restore the heap\<close>

definition coded_less :: "symbolMapping \<Rightarrow> symbolMapping \<Rightarrow> bool" where
  "coded_less a b \<longleftrightarrow> codedIdx a < codedIdx b"

interpretation coded: heap_order coded_less
  by unfold_locales (auto simp: coded_less_def)

lemma fixHead_loop_eq: "fixHead_loop m cur = heap_down coded_less m cur (length m)"
proof (induction m cur rule: fixHead_loop.induct)
  case (1 m cur)
  let ?j = "smaller_child coded_less m cur (length m)"
  have j: "(if cur * 2 + 1 + 1 < length m \<and> codedIdx (m ! (cur * 2 + 1 + 1)) < codedIdx (m ! (cur * 2 + 1))
            then cur * 2 + 1 + 1 else cur * 2 + 1) = ?j"
    by (simp add: smaller_child_def coded_less_def Let_def mult.commute)
  show ?case
  proof (cases "length m \<le> cur * 2 + 1 \<or> codedIdx (m ! cur) \<le> codedIdx (m ! ?j)")
    case True
    then show ?thesis
      by (subst fixHead_loop.simps, subst heap_down.simps)
         (simp only: Let_def j, auto simp: coded_less_def mult.commute)
  next
    case False
    then have "fixHead_loop (swap m cur ?j) ?j = heap_down coded_less (swap m cur ?j) ?j (length m)"
      using "1" [OF refl _ refl] by (simp only: Let_def j) simp
    with False show ?thesis
      by (subst fixHead_loop.simps, subst heap_down.simps)
         (simp only: Let_def j, auto simp: coded_less_def mult.commute)
  qed
qed

lemma fixTail_loop_eq: "fixTail_loop m cur = heap_up coded_less m cur"
proof (induction m cur rule: fixTail_loop.induct)
  case (1 m cur)
  let ?p = "(cur - 1) div 2"
  have stop: "codedIdx (m ! ?p) \<le> codedIdx (m ! cur) \<longleftrightarrow> \<not> coded_less (m ! cur) (m ! ?p)"
    by (simp add: coded_less_def not_less)
  show ?case
    using "1" [OF refl]
    by (subst fixTail_loop.simps, subst heap_up.simps)
       (simp only: Let_def stop eq_commute [of cur] split: if_split, blast)
qed

abbreviation coded_heap :: "mappingHeap \<Rightarrow> bool" where
  "coded_heap m \<equiv> is_heap coded_less m (length m)"

lemma mset_fixHead [simp]: "mset (fixHead m) = mset m"
  by (simp add: fixHead_def fixHead_loop_eq)

lemma mset_fixTail [simp]: "mset (fixTail m) = mset m"
  by (cases "m = []") (simp_all add: fixTail_def fixTail_loop_eq heap_up.simps [of _ _ 0])

lemma length_fixHead [simp]: "length (fixHead m) = length m"
  by (metis mset_fixHead size_mset)

lemma length_fixTail [simp]: "length (fixTail m) = length m"
  by (metis mset_fixTail size_mset)

lemma set_fixHead [simp]: "set (fixHead m) = set m"
  and set_fixTail [simp]: "set (fixTail m) = set m"
  by (metis mset_fixHead mset_eq_setD, metis mset_fixTail mset_eq_setD)

text \<open>Replacing the head of a heap and calling \<open>fixHead\<close>; appending and calling \<open>fixTail\<close>.\<close>

lemma fixHead_heap [invs]: "coded_heap m \<Longrightarrow> coded_heap (fixHead (m[0 := x]))"
proof -
  assume "coded_heap m"
  then have "down_ok coded_less (m[0 := x]) (length m) 0"
    by (auto simp: is_heap_def down_ok_def nth_list_update)
  then show ?thesis
    using coded.down_restores [of "length m" "m[0 := x]" 0] by (simp add: fixHead_def fixHead_loop_eq)
qed

lemma fixTail_heap [invs]: "coded_heap m \<Longrightarrow> coded_heap (fixTail (m @ [x]))"
  using coded.push_restores [of m x] by (simp add: fixTail_def fixTail_loop_eq)

lemma head_least: "coded_heap m \<Longrightarrow> q \<in> set m \<Longrightarrow> codedIdx (m ! 0) \<le> codedIdx q"
  using coded.head_minimal [of m "length m"] by (auto simp: in_set_conv_nth coded_less_def not_less)

end
