(* ===== verification/Float64.thy ===== *)
theory Float64
  imports Prelude Complex_Main "HOL-Library.Signed_Division"
begin

text \<open>
  Go's \<open>float64\<close>: IEEE 754 binary64 with rounding to nearest, ties to even, as
  \<open>riblt/random.go\<close>, \<open>newsim/coding.go\<close> and \<open>simulator/node.go\<close> use it. A finite value is
  the rational it denotes. Addition, subtraction, multiplication, division and
  \<open>math.Sqrt\<close> are correctly rounded in IEEE 754, so each is the exact result followed by
  \<open>rnd\<close> (for the square root, by a comparison with the midpoint of two neighbours).
  The two zeros are one value: the program divides by no zero that could be negative.
  Overflow and the subnormal grid are written out in \<open>rnd\<close>.
  A conversion to an integer type that cannot represent the truncated value has no value
  in the Go specification; it is \<open>Inl ImplementationDefined\<close>.

  The lemmas show that rounding and the square root are monotone and keep powers of two,
  which is all that the bounds of the components need.
\<close>

datatype float64 = Fin rat | PInf | NInf | NaN

section \<open>Exponents\<close>

fun nbits :: "nat \<Rightarrow> nat" where
  "nbits n = (if n = 0 then 0 else Suc (nbits (n div 2)))"

declare nbits.simps [simp del]

lemma nbits_0 [simp]: "nbits 0 = 0"
  by (simp add: nbits.simps)

lemma nbits_upper: "n < 2 ^ nbits n"
proof (induction n rule: nbits.induct)
  case (1 n)
  then show ?case by (cases "n = 0") (auto simp: nbits.simps [of n])
qed

lemma nbits_lower: "0 < n \<Longrightarrow> 2 ^ (nbits n - 1) \<le> n"
proof (induction n rule: nbits.induct)
  case (1 n)
  show ?case
  proof (cases "n div 2 = 0")
    case True
    with "1.prems" have "n = 1" by linarith
    then show ?thesis by (simp add: nbits.simps [of "Suc 0"])
  next
    case False
    with "1" have ih: "2 ^ (nbits (n div 2) - 1) \<le> n div 2" by auto
    have "0 < nbits (n div 2)" using False by (simp add: nbits.simps [of "n div 2"])
    then have "(2::nat) ^ nbits (n div 2) = 2 * 2 ^ (nbits (n div 2) - 1)"
      by (metis Suc_diff_1 power_Suc)
    with ih have "(2::nat) ^ nbits (n div 2) \<le> n" by linarith
    with "1.prems" show ?thesis by (simp add: nbits.simps [of n])
  qed
qed

lemma pow_le_of_nat: "(2::nat) ^ k \<le> n \<Longrightarrow> (2::rat) ^ k \<le> of_nat n"
  using of_nat_mono [of "2 ^ k" n, where ?'a = rat] by simp

lemma of_nat_le_pow: "n < (2::nat) ^ k \<Longrightarrow> (of_nat n :: rat) + 1 \<le> 2 ^ k"
  using of_nat_mono [of "Suc n" "2 ^ k", where ?'a = rat] by simp

text \<open>\<open>ilog2 x\<close> is the exponent of the binade of a positive rational.\<close>

definition ilog2 :: "rat \<Rightarrow> int" where
  "ilog2 x = (if 1 \<le> x then int (nbits (nat \<lfloor>x\<rfloor>)) - 1
              else - int (nbits (nat (\<lceil>1 / x\<rceil> - 1))))"

lemma ilog2_ge1:
  assumes "1 \<le> x"
  shows "2 powi ilog2 x \<le> x" and "x < 2 powi (ilog2 x + 1)"
proof -
  let ?n = "nat \<lfloor>x\<rfloor>"
  have n: "0 < ?n" and fl: "of_nat ?n \<le> x" "x < of_nat ?n + 1"
    using assms floor_correct [of x] by (auto simp: le_floor_iff)
  have b: "0 < nbits ?n" using n by (simp add: nbits.simps [of ?n])
  have "(2::rat) ^ (nbits ?n - 1) \<le> of_nat ?n"
    by (intro pow_le_of_nat nbits_lower n)
  with fl have "(2::rat) ^ (nbits ?n - 1) \<le> x" by linarith
  with b assms show "2 powi ilog2 x \<le> x"
    by (simp add: ilog2_def power_int_def nat_diff_distrib)
  have "(of_nat ?n :: rat) + 1 \<le> 2 ^ nbits ?n"
    by (intro of_nat_le_pow nbits_upper)
  with fl assms show "x < 2 powi (ilog2 x + 1)"
    by (simp add: ilog2_def power_int_def)
qed

lemma ilog2_lt1:
  assumes "0 < x" "x < 1"
  shows "2 powi ilog2 x \<le> x" and "x < 2 powi (ilog2 x + 1)"
proof -
  let ?c = "\<lceil>1 / x\<rceil>" let ?n = "nat (?c - 1)"
  have inv: "1 < 1 / x" using assms by simp
  then have c: "2 \<le> ?c" by linarith
  have n: "0 < ?n" using c by auto
  have "int ?n = ?c - 1" by (intro nat_0_le) (use c in linarith)
  then have "(of_nat ?n :: rat) = of_int ?c - 1"
    by (metis of_int_1 of_int_diff of_int_of_nat_eq)
  then have ge: "1 / x \<le> of_nat ?n + 1" and lt: "of_nat ?n < 1 / x"
    using ceiling_correct [of "1 / x"] by linarith+
  have b: "0 < nbits ?n" using n by (simp add: nbits.simps [of ?n])
  have "(of_nat ?n :: rat) + 1 \<le> 2 ^ nbits ?n"
    by (intro of_nat_le_pow nbits_upper)
  with ge have "1 / x \<le> 2 ^ nbits ?n" by linarith
  then have "1 / 2 ^ nbits ?n \<le> x" using assms by (simp add: field_simps)
  with assms b show "2 powi ilog2 x \<le> x"
    by (simp add: ilog2_def power_int_def field_simps)
  have "(2::rat) ^ (nbits ?n - 1) \<le> of_nat ?n"
    by (intro pow_le_of_nat nbits_lower n)
  with lt have "2 ^ (nbits ?n - 1) < 1 / x" by linarith
  then have x: "x < 1 / 2 ^ (nbits ?n - 1)" using assms by (simp add: field_simps)
  have "(2::rat) powi (ilog2 x + 1) = 1 / 2 ^ (nbits ?n - 1)"
  proof -
    have "ilog2 x + 1 = - int (nbits ?n - 1)"
      using assms b by (simp add: ilog2_def)
    then show ?thesis by (simp only: power_int_minus power_int_of_nat inverse_eq_divide)
  qed
  with x show "x < 2 powi (ilog2 x + 1)" by simp
qed

lemma ilog2_lower: "0 < x \<Longrightarrow> 2 powi ilog2 x \<le> x"
  by (cases "1 \<le> x") (auto intro: ilog2_ge1 ilog2_lt1)

lemma ilog2_upper: "0 < x \<Longrightarrow> x < 2 powi (ilog2 x + 1)"
  by (cases "1 \<le> x") (auto intro: ilog2_ge1 ilog2_lt1)

text \<open>Comparison of powers of two.\<close>

lemma powi_less_iff [simp]: "(2::rat) powi a < 2 powi b \<longleftrightarrow> a < b"
proof
  show "a < b \<Longrightarrow> (2::rat) powi a < 2 powi b"
    by (rule power_int_strict_increasing) simp_all
  show "(2::rat) powi a < 2 powi b \<Longrightarrow> a < b"
    using power_int_increasing [of b a "2::rat"] by (cases "b \<le> a") auto
qed

lemma powi_le_iff [simp]: "(2::rat) powi a \<le> 2 powi b \<longleftrightarrow> a \<le> b"
  using powi_less_iff [of b a] by linarith

lemma ilog2_ge: "0 < x \<Longrightarrow> 2 powi k \<le> x \<Longrightarrow> k \<le> ilog2 x"
  using ilog2_upper [of x] by (metis order.strict_trans1 powi_less_iff zless_add1_eq order_le_less)

lemma ilog2_lt: "0 < x \<Longrightarrow> x < 2 powi k \<Longrightarrow> ilog2 x < k"
  using ilog2_lower [of x] by (metis order.strict_trans1 powi_less_iff)

lemma ilog2_mono: "0 < x \<Longrightarrow> x \<le> y \<Longrightarrow> ilog2 x \<le> ilog2 y"
  by (meson ilog2_ge ilog2_lower order.trans order.strict_trans2)

section \<open>Rounding to nearest, ties to even\<close>

definition rnd_even :: "rat \<Rightarrow> int" where
  "rnd_even y =
     (let f = \<lfloor>y\<rfloor>; d = y - of_int f
      in if d < 1 / 2 then f else if 1 / 2 < d then f + 1 else if even f then f else f + 1)"

lemma rnd_even_of_int [simp]: "rnd_even (of_int k) = k"
  by (simp add: rnd_even_def)

lemma rnd_even_floor: "\<lfloor>y\<rfloor> \<le> rnd_even y" and rnd_even_ceil: "rnd_even y \<le> \<lfloor>y\<rfloor> + 1"
  by (simp_all add: rnd_even_def Let_def)

lemma rnd_even_mono:
  assumes "y \<le> z"
  shows "rnd_even y \<le> rnd_even z"
proof (cases "\<lfloor>y\<rfloor> = \<lfloor>z\<rfloor>")
  case True
  with assms show ?thesis by (auto simp: rnd_even_def Let_def)
next
  case False
  with assms have "\<lfloor>y\<rfloor> + 1 \<le> \<lfloor>z\<rfloor>" using floor_mono [of y z] by linarith
  with rnd_even_ceil [of y] rnd_even_floor [of z] show ?thesis by linarith
qed

text \<open>The spacing of the doubles around \<open>x\<close> is \<open>2 powi grid x\<close>; subnormals share the smallest one.\<close>

definition grid :: "rat \<Rightarrow> int" where
  "grid x = max (ilog2 \<bar>x\<bar> - 52) (- 1074)"

definition round_to_grid :: "int \<Rightarrow> rat \<Rightarrow> rat" where
  "round_to_grid e x = of_int (rnd_even (x / 2 powi e)) * 2 powi e"

definition rndq :: "rat \<Rightarrow> rat" where
  "rndq x = (if x = 0 then 0 else round_to_grid (grid x) x)"

definition f64_limit :: rat where
  "f64_limit = 2 powi 1024"

definition rnd :: "rat \<Rightarrow> float64" where
  "rnd x = (let r = rndq x
            in if f64_limit \<le> r then PInf else if r \<le> - f64_limit then NInf else Fin r)"

lemma round_to_grid_mono: "x \<le> y \<Longrightarrow> round_to_grid e x \<le> round_to_grid e y"
  by (simp add: round_to_grid_def rnd_even_mono divide_right_mono)

lemma round_to_grid_exact:
  assumes "e \<le> k"
  shows "round_to_grid e (of_int a * 2 powi k) = of_int a * 2 powi k"
proof -
  have eq: "(2::rat) powi k = 2 ^ nat (k - e) * 2 powi e"
    using assms by (simp add: power_int_add [symmetric] flip: power_int_of_nat)
  then have "of_int a * 2 powi k / 2 powi e = (of_int (a * 2 ^ nat (k - e)) :: rat)"
    by simp
  then show ?thesis
    by (simp only: round_to_grid_def rnd_even_of_int) (simp add: eq)
qed

lemma round_to_grid_0 [simp]: "round_to_grid e 0 = 0"
  using round_to_grid_exact [of e e 0] by simp

lemma round_to_grid_pow: "e \<le> k \<Longrightarrow> round_to_grid e (2 powi k) = 2 powi k"
  using round_to_grid_exact [of e k 1] by simp

text \<open>On nonnegative numbers rounding is monotone and fixes powers of two.\<close>

lemma grid_le: "0 < x \<Longrightarrow> x < 2 powi (k + 1) \<Longrightarrow> - 1074 \<le> k \<Longrightarrow> grid x \<le> k"
  using ilog2_lt [of x "k + 1"] by (simp add: grid_def)

lemma rndq_0 [simp]: "rndq 0 = 0"
  by (simp add: rndq_def)

lemma rndq_pow: "- 1074 \<le> k \<Longrightarrow> rndq (2 powi k) = 2 powi k"
  by (simp add: rndq_def round_to_grid_pow grid_le)

lemma rndq_mono:
  assumes "0 \<le> x" "x \<le> y"
  shows "rndq x \<le> rndq y"
proof (cases "x = 0")
  case True
  have "0 \<le> round_to_grid (grid y) y"
    using round_to_grid_mono [of 0 y "grid y"] assms True by simp
  with True show ?thesis by (simp add: rndq_def)
next
  case False
  with assms have pos: "0 < x" "0 < y" by auto
  have le: "ilog2 x \<le> ilog2 y" using ilog2_mono pos assms by blast
  show ?thesis
  proof (cases "grid x = grid y")
    case True
    with pos assms show ?thesis by (simp add: rndq_def round_to_grid_mono)
  next
    case False
    then have g: "grid x < grid y" "grid y = ilog2 y - 52" "ilog2 x < ilog2 y"
      using le pos by (auto simp: grid_def)
    let ?b = "(2::rat) powi ilog2 y"
    have "x \<le> ?b"
      using ilog2_upper [OF pos(1)] g(3) powi_le_iff [of "ilog2 x + 1" "ilog2 y"] by linarith
    then have "round_to_grid (grid x) x \<le> round_to_grid (grid x) ?b"
      by (rule round_to_grid_mono)
    also have "\<dots> = ?b" using g by (intro round_to_grid_pow) linarith
    also have "\<dots> = round_to_grid (grid y) ?b" using g by (intro round_to_grid_pow [symmetric]) linarith
    also have "\<dots> \<le> round_to_grid (grid y) y"
      by (intro round_to_grid_mono ilog2_lower pos)
    finally show ?thesis using pos by (simp add: rndq_def)
  qed
qed

lemma rndq_nonneg: "0 \<le> x \<Longrightarrow> 0 \<le> rndq x"
  using rndq_mono [of 0 x] by simp

lemma rndq_le_pow: "0 \<le> x \<Longrightarrow> x \<le> 2 powi k \<Longrightarrow> - 1074 \<le> k \<Longrightarrow> rndq x \<le> 2 powi k"
  using rndq_mono [of x "2 powi k"] by (simp add: rndq_pow)

lemma rndq_ge_pow: "2 powi k \<le> x \<Longrightarrow> - 1074 \<le> k \<Longrightarrow> 2 powi k \<le> rndq x"
  using rndq_mono [of "2 powi k" x] by (simp add: rndq_pow)

lemma rnd_Fin: "0 \<le> x \<Longrightarrow> x \<le> 2 powi 1023 \<Longrightarrow> rnd x = Fin (rndq x)"
proof -
  assume x: "0 \<le> x" "x \<le> 2 powi 1023"
  then have "rndq x \<le> 2 powi 1023" by (rule rndq_le_pow) simp
  also have "(2::rat) powi 1023 < f64_limit"
    unfolding f64_limit_def by (rule powi_less_iff [THEN iffD2]) simp
  finally have hi: "rndq x < f64_limit" .
  moreover have "- f64_limit < rndq x"
    using rndq_nonneg [OF x(1)] hi by linarith
  ultimately show ?thesis by (simp add: rnd_def Let_def)
qed

section \<open>The correctly rounded square root\<close>

fun isqrt :: "nat \<Rightarrow> nat" where
  "isqrt n = (if n = 0 then 0
              else let s = 2 * isqrt (n div 4) in if (s + 1)\<^sup>2 \<le> n then s + 1 else s)"

declare isqrt.simps [simp del]

lemma isqrt_bounds: "(isqrt n)\<^sup>2 \<le> n \<and> n < (isqrt n + 1)\<^sup>2"
proof (induction n rule: isqrt.induct)
  case (1 n)
  show ?case
  proof (cases "n = 0")
    case True
    then show ?thesis by (simp add: isqrt.simps)
  next
    case False
    let ?r = "isqrt (n div 4)"
    have ih: "?r\<^sup>2 \<le> n div 4" "n div 4 < (?r + 1)\<^sup>2" using "1" False by auto
    have "(2 * ?r)\<^sup>2 \<le> n" using ih(1) by (simp add: power2_eq_square)
    moreover have "n < (2 * ?r + 2)\<^sup>2"
      using ih(2) by (simp add: power2_eq_square algebra_simps)
    ultimately show ?thesis
      using False by (subst (1 2) isqrt.simps) (auto simp: Let_def)
  qed
qed

lemma isqrt_ge: "k\<^sup>2 \<le> n \<Longrightarrow> k \<le> isqrt n"
  using isqrt_bounds [of n] by (metis Suc_eq_plus1 leI less_Suc_eq_le order.strict_trans1 power_less_imp_less_base zero_le)

lemma isqrt_le: "n < (k + 1)\<^sup>2 \<Longrightarrow> isqrt n \<le> k"
  using isqrt_bounds [of n] by (metis Suc_eq_plus1 less_Suc_eq_le order.strict_trans1 power_less_imp_less_base zero_le)

lemma isqrt_mono: "m \<le> n \<Longrightarrow> isqrt m \<le> isqrt n"
  using isqrt_bounds [of m] by (intro isqrt_ge) linarith

text \<open>\<open>sqrt_even y\<close> is the integer nearest to the square root of \<open>y\<close>, the even one of two.\<close>

definition sqrt_even :: "rat \<Rightarrow> nat" where
  "sqrt_even y =
     (let m = isqrt (nat \<lfloor>y\<rfloor>); mid = (of_nat m + 1 / 2)\<^sup>2
      in if mid < y then m + 1 else if y < mid then m else if even m then m else m + 1)"

lemma sqrt_even_mono:
  assumes "0 \<le> y" "y \<le> z"
  shows "sqrt_even y \<le> sqrt_even z"
proof -
  let ?m = "isqrt (nat \<lfloor>y\<rfloor>)" and ?n = "isqrt (nat \<lfloor>z\<rfloor>)"
  have le: "?m \<le> ?n" using assms by (intro isqrt_mono nat_mono floor_mono)
  show ?thesis
  proof (cases "?m = ?n")
    case True
    with assms show ?thesis by (auto simp: sqrt_even_def Let_def)
  next
    case False
    with le have "?m + 1 \<le> ?n" by simp
    moreover have "sqrt_even y \<le> ?m + 1" "?n \<le> sqrt_even z"
      by (simp_all add: sqrt_even_def Let_def)
    ultimately show ?thesis by linarith
  qed
qed

lemma sqrt_even_square [simp]: "sqrt_even (of_nat (k\<^sup>2)) = k"
proof -
  have "isqrt (k\<^sup>2) = k"
    by (intro antisym isqrt_ge isqrt_le) (simp_all add: power2_eq_square)
  moreover have "(of_nat (k\<^sup>2) :: rat) < (of_nat k + 1 / 2)\<^sup>2"
    by (simp add: power2_eq_square algebra_simps)
  moreover have "nat \<lfloor>of_nat (k\<^sup>2) :: rat\<rfloor> = k\<^sup>2" by (simp only: floor_of_nat nat_int)
  ultimately show ?thesis by (simp only: sqrt_even_def Let_def) simp
qed

definition sqrt_grid :: "rat \<Rightarrow> int" where
  "sqrt_grid x = ilog2 x div 2 - 52"

definition sqrtq :: "rat \<Rightarrow> rat" where
  "sqrtq x = (if x = 0 then 0
              else let e = sqrt_grid x in of_nat (sqrt_even (x / 2 powi (2 * e))) * 2 powi e)"

lemma sqrt_scale:
  assumes "e \<le> k"
  shows "of_nat (sqrt_even (2 powi (2 * k) / 2 powi (2 * e))) * 2 powi e = (2 powi k :: rat)"
proof -
  let ?d = "nat (k - e)"
  have "(2::rat) powi (2 * k) / 2 powi (2 * e) = 2 powi (2 * int ?d)"
    using assms by (simp add: power_int_diff [symmetric] right_diff_distrib)
  also have "\<dots> = of_nat ((2 ^ ?d)\<^sup>2)"
    by (simp add: power_int_def nat_mult_distrib power_mult power2_eq_square
                  flip: power_mult_distrib)
  finally have "sqrt_even (2 powi (2 * k) / 2 powi (2 * e)) = 2 ^ ?d" by (simp only: sqrt_even_square)
  moreover have "(2::rat) powi k = 2 ^ ?d * 2 powi e"
    using assms by (simp add: power_int_add [symmetric] flip: power_int_of_nat)
  ultimately show ?thesis by simp
qed

lemma sqrtq_mono:
  assumes "0 < x" "x \<le> y"
  shows "sqrtq x \<le> sqrtq y"
proof -
  let ?s = "\<lambda>e z. of_nat (sqrt_even (z / 2 powi (2 * e))) * (2::rat) powi e"
  have pos: "0 < y" using assms by linarith
  have mono: "?s e u \<le> ?s e v" if "0 < u" "u \<le> v" for e u v
    using that by (intro mult_right_mono of_nat_mono sqrt_even_mono divide_right_mono) auto
  let ?kx = "ilog2 x div 2" and ?ky = "ilog2 y div 2"
  have le: "?kx \<le> ?ky" using ilog2_mono [OF assms] by (rule zdiv_mono1) simp
  show ?thesis
  proof (cases "?kx = ?ky")
    case True
    then have "?s (sqrt_grid x) x \<le> ?s (sqrt_grid y) y"
      using mono [OF assms, of "sqrt_grid x"] by (simp only: sqrt_grid_def)
    with assms pos show ?thesis by (simp add: sqrtq_def Let_def)
  next
    case False
    with le have lt: "?kx + 1 \<le> ?ky" by linarith
    have "ilog2 x + 1 \<le> 2 * ?ky" "2 * ?ky \<le> ilog2 y" using lt by linarith+
    then have x: "x \<le> 2 powi (2 * ?ky)" and y: "2 powi (2 * ?ky) \<le> y"
      using ilog2_upper [OF assms(1)] ilog2_lower [OF pos]
        powi_le_iff [of "ilog2 x + 1" "2 * ?ky"] powi_le_iff [of "2 * ?ky" "ilog2 y"] by linarith+
    have "?s (?kx - 52) x \<le> ?s (?kx - 52) (2 powi (2 * ?ky))" by (intro mono assms x)
    also have "\<dots> = 2 powi ?ky" using lt by (intro sqrt_scale) linarith
    also have "\<dots> = ?s (?ky - 52) (2 powi (2 * ?ky))" by (intro sqrt_scale [symmetric]) linarith
    also have "\<dots> \<le> ?s (?ky - 52) y" by (intro mono y) simp
    finally show ?thesis using assms pos by (simp add: sqrtq_def sqrt_grid_def Let_def)
  qed
qed

lemma sqrtq_pow: "sqrtq (2 powi (2 * k)) = 2 powi k"
proof -
  have "ilog2 (2 powi (2 * k)) = 2 * k"
    using ilog2_ge [of "2 powi (2 * k)" "2 * k"] ilog2_lt [of "2 powi (2 * k)" "2 * k + 1"] by simp
  then show ?thesis
    using sqrt_scale [of "k - 52" k] by (simp add: sqrtq_def sqrt_grid_def Let_def)
qed

section \<open>The operations\<close>

fun f_neg :: "float64 \<Rightarrow> float64" where
  "f_neg (Fin a) = Fin (- a)"
| "f_neg PInf = NInf"
| "f_neg NInf = PInf"
| "f_neg NaN = NaN"

fun f_add :: "float64 \<Rightarrow> float64 \<Rightarrow> float64" where
  "f_add NaN _ = NaN"
| "f_add _ NaN = NaN"
| "f_add (Fin a) (Fin b) = rnd (a + b)"
| "f_add (Fin _) y = y"
| "f_add x (Fin _) = x"
| "f_add PInf PInf = PInf"
| "f_add NInf NInf = NInf"
| "f_add _ _ = NaN"

definition f_sub :: "float64 \<Rightarrow> float64 \<Rightarrow> float64" where
  "f_sub x y = f_add x (f_neg y)"

definition f_signed_inf :: "rat \<Rightarrow> float64" where
  "f_signed_inf s = (if s = 0 then NaN else if 0 < s then PInf else NInf)"

fun f_sign :: "float64 \<Rightarrow> rat" where
  "f_sign (Fin a) = sgn a"
| "f_sign PInf = 1"
| "f_sign NInf = -1"
| "f_sign NaN = 0"

fun f_mul :: "float64 \<Rightarrow> float64 \<Rightarrow> float64" where
  "f_mul NaN _ = NaN"
| "f_mul _ NaN = NaN"
| "f_mul (Fin a) (Fin b) = rnd (a * b)"
| "f_mul x y = f_signed_inf (f_sign x * f_sign y)"

fun f_div :: "float64 \<Rightarrow> float64 \<Rightarrow> float64" where
  "f_div NaN _ = NaN"
| "f_div _ NaN = NaN"
| "f_div (Fin a) (Fin b) = (if b = 0 then f_signed_inf (sgn a) else rnd (a / b))"
| "f_div (Fin _) _ = Fin 0"
| "f_div x (Fin b) = f_signed_inf (f_sign x * (if b < 0 then -1 else 1))"
| "f_div _ _ = NaN"

fun f_sqrt :: "float64 \<Rightarrow> float64" where
  "f_sqrt (Fin a) = (if a < 0 then NaN else Fin (sqrtq a))"
| "f_sqrt PInf = PInf"
| "f_sqrt _ = NaN"

fun f_ceil :: "float64 \<Rightarrow> float64" where
  "f_ceil (Fin a) = Fin (of_int \<lceil>a\<rceil>)"
| "f_ceil x = x"

fun f_less :: "float64 \<Rightarrow> float64 \<Rightarrow> bool" where
  "f_less (Fin a) (Fin b) = (a < b)"
| "f_less (Fin _) PInf = True"
| "f_less NInf (Fin _) = True"
| "f_less NInf PInf = True"
| "f_less _ _ = False"

definition f_ge :: "float64 \<Rightarrow> float64 \<Rightarrow> bool" where
  "f_ge x y \<longleftrightarrow> x \<noteq> NaN \<and> y \<noteq> NaN \<and> \<not> f_less x y"

text \<open>Conversions: \<open>float64(i)\<close> of an integer, and \<open>uint64(f)\<close>, \<open>int(f)\<close> of a float (truncating).\<close>

definition f_of_int :: "int \<Rightarrow> float64" where
  "f_of_int i = rnd (of_int i)"

definition f_of_u64 :: "u64 \<Rightarrow> float64" where
  "f_of_u64 w = f_of_int (uint w)"

definition trunc_rat :: "rat \<Rightarrow> int" where
  "trunc_rat a = (if 0 \<le> a then \<lfloor>a\<rfloor> else \<lceil>a\<rceil>)"

fun f_to_u64 :: "float64 \<Rightarrow> u64 result" where
  "f_to_u64 (Fin a) =
     (let t = trunc_rat a
      in if 0 \<le> t \<and> t < 2 ^ 64 then Inr (word_of_int t) else Inl ImplementationDefined)"
| "f_to_u64 _ = Inl ImplementationDefined"

fun f_to_int :: "float64 \<Rightarrow> int result" where
  "f_to_int (Fin a) =
     (let t = trunc_rat a
      in if - (2 ^ 63) \<le> t \<and> t < 2 ^ 63 then Inr t else Inl ImplementationDefined)"
| "f_to_int _ = Inl ImplementationDefined"

text \<open>A share of a count below \<open>2 ^ 53\<close>: the count is exact, and the share truncates into its range.\<close>

lemma rndq_of_nat: "k < 2 ^ 53 \<Longrightarrow> rndq (of_nat k) = of_nat k"
proof (cases "k = 0")
  case False
  assume k: "k < 2 ^ 53"
  have "(of_nat k :: rat) < 2 ^ 53"
    using of_nat_less_iff [of k "2 ^ 53", where ?'a = rat] k by simp
  then have "(of_nat k :: rat) < 2 powi 53" by (simp add: power_int_def)
  then have "ilog2 (of_nat k) < 53" using False by (intro ilog2_lt) simp_all
  then have "grid (of_nat k) \<le> 0" by (simp add: grid_def)
  then show ?thesis using round_to_grid_exact [of "grid (of_nat k)" 0 "int k"] False by (simp add: rndq_def)
qed simp

lemma nat_le_powi_1023: "k < 2 ^ 53 \<Longrightarrow> (of_nat k :: rat) \<le> 2 powi 1023"
proof -
  assume k: "k < 2 ^ 53"
  have "(of_nat k :: rat) < 2 ^ 53" using of_nat_less_iff [of k "2 ^ 53", where ?'a = rat] k by simp
  also have "(2::rat) ^ 53 = 2 powi 53" by (simp add: power_int_def)
  also have "(2::rat) powi 53 \<le> 2 powi 1023" by (rule powi_le_iff [THEN iffD2]) simp
  finally show ?thesis by simp
qed

lemma share_of_count:
  assumes "k < 2 ^ 53" "0 \<le> c" "c \<le> 1"
  shows "\<exists>w. f_to_int (f_mul (f_of_int (int k)) (Fin c)) = Inr w \<and> 0 \<le> w \<and> w \<le> int k"
proof -
  let ?x = "of_nat k * c"
  have le: "?x \<le> of_nat k" "0 \<le> ?x" using assms(2,3) by (simp_all add: mult_left_le)
  have "f_of_int (int k) = Fin (of_nat k)"
    using rnd_Fin [of "of_nat k"] nat_le_powi_1023 [OF assms(1)] rndq_of_nat [OF assms(1)] by (simp add: f_of_int_def)
  moreover have "rnd ?x = Fin (rndq ?x)" using le nat_le_powi_1023 [OF assms(1)] by (intro rnd_Fin) linarith+
  moreover have r: "0 \<le> rndq ?x" "rndq ?x \<le> of_nat k"
    using rndq_nonneg [OF le(2)] rndq_mono [OF le(2,1)] rndq_of_nat [OF assms(1)] by simp_all
  moreover have t: "0 \<le> trunc_rat (rndq ?x)" "trunc_rat (rndq ?x) \<le> int k"
    using r by (simp_all add: trunc_rat_def floor_le_iff)
  moreover have "trunc_rat (rndq ?x) < 2 ^ 63" "- (2 ^ 63) \<le> trunc_rat (rndq ?x)" using t assms(1) by simp_all
  ultimately show ?thesis by (simp add: Let_def)
qed

text \<open>\<open>Duration.Seconds\<close> of the standard library; a duration is an \<open>int64\<close> of nanoseconds.\<close>

definition seconds :: "u64 \<Rightarrow> float64" where
  "seconds d =
     f_add (f_of_int (sint d sdiv 1000000000)) (f_div (f_of_int (sint d smod 1000000000)) (Fin 1000000000))"

section \<open>Evaluation\<close>

text \<open>The equations with which \<open>simp\<close> evaluates the operations on closed terms.\<close>

lemma floor_rat_numeral:
  "\<lfloor>numeral a / numeral b :: rat\<rfloor> = numeral a div numeral b"
  "\<lfloor>1 / numeral b :: rat\<rfloor> = 1 div numeral b"
  using floor_divide_of_int_eq [of "numeral a" "numeral b", where ?'a = rat]
    floor_divide_of_int_eq [of 1 "numeral b", where ?'a = rat] by simp_all

lemma ceiling_rat_numeral:
  "\<lceil>numeral a / numeral b :: rat\<rceil> = - ((- numeral a) div numeral b)"
  "\<lceil>1 / numeral b :: rat\<rceil> = - ((- 1) div numeral b)"
  using floor_divide_of_int_eq [of "- numeral a" "numeral b", where ?'a = rat]
    floor_divide_of_int_eq [of "- 1" "numeral b", where ?'a = rat]
  by (simp_all add: ceiling_def)

lemmas float_eval =
  Let_def nbits.simps isqrt.simps power2_eq_square ilog2_def grid_def round_to_grid_def rnd_even_def
  rndq_def rnd_def f64_limit_def sqrt_even_def sqrt_grid_def sqrtq_def f_sub_def f_of_int_def
  f_of_u64_def trunc_rat_def floor_rat_numeral ceiling_rat_numeral

end
