(* ===== verification/Riblt_Random.thy ===== *)
theory Riblt_Random
  imports Float64
begin

text \<open>
  \<open>riblt/random.go\<close>: the pseudo-random mapping of a symbol to the indices of coded
  symbols. \<open>nextIndex\<close> multiplies the state by an odd constant and advances the index by
  a floating-point expression. The lemmas settle the question of its comment ("can we
  prove this is fine?"): the state never reaches 0 from elsewhere; for an index below
  \<open>2 ^ 34\<close> the new index stays below \<open>2 ^ 63\<close>, so that \<open>int(...)\<close> of it is not negative;
  the index moves exactly when the new state exceeds 1024; two calls always move it; and
  the only states whose step leaves the range of \<open>uint64(...)\<close> are the top 1024.
\<close>

section \<open>The mapping\<close>

record randomMapping =
  prng :: u64
  lastIdx :: u64

definition multiplier :: u64 where
  "multiplier = 0xda942042e4dd58b5"

definition nextPrng :: "u64 \<Rightarrow> u64" where
  "nextPrng p = p * multiplier"

text \<open>The advance \<open>x = Ceil((j+1.5)*(1/Sqrt(1-r/2^64)-1))\<close>, before the conversion to \<open>uint64\<close>.\<close>

definition indexStep :: "u64 \<Rightarrow> u64 \<Rightarrow> float64" where
  "indexStep r j =
     (let xm = f_div (f_of_u64 r) (Fin (2 ^ 64))
      in f_ceil (f_mul (f_add (f_of_u64 j) (Fin (3 / 2)))
                       (f_sub (f_div (Fin 1) (f_sqrt (f_sub (Fin 1) xm))) (Fin 1))))"

definition nextIndex :: "randomMapping \<Rightarrow> randomMapping result" where
  "nextIndex s =
     (let r = nextPrng (prng s)
      in bindR (f_to_u64 (indexStep r (lastIdx s)))
           (\<lambda>x. Inr (s\<lparr>prng := r, lastIdx := lastIdx s + x\<rparr>)))"

section \<open>The floating-point expression\<close>

text \<open>Its factors on the rationals, for a state whose quotient does not round up to 1.\<close>

definition xmq :: "int \<Rightarrow> rat" where
  "xmq r = rndq (rndq (of_int r) / 2 ^ 64)"

definition tq :: "int \<Rightarrow> rat" where
  "tq r = rndq (rndq (1 / sqrtq (rndq (1 - xmq r))) - 1)"

definition aq :: "int \<Rightarrow> rat" where
  "aq j = rndq (rndq (of_int j) + 3 / 2)"

lemma rnd_le_pow:
  assumes "0 \<le> x" "x \<le> 2 powi k" "- 1074 \<le> k" "k \<le> 1023"
  shows "rnd x = Fin (rndq x)" "0 \<le> rndq x" "rndq x \<le> 2 powi k"
proof -
  have "x \<le> 2 powi 1023"
    using assms powi_le_iff [of k 1023] by linarith
  with assms show "rnd x = Fin (rndq x)" by (intro rnd_Fin)
  show "0 \<le> rndq x" "rndq x \<le> 2 powi k"
    using assms by (auto intro: rndq_nonneg rndq_le_pow)
qed

lemma of_int_le_pow: "k \<le> 2 ^ n \<Longrightarrow> (of_int k :: rat) \<le> 2 powi int n"
  by (metis of_int_le_iff of_int_numeral of_int_power power_int_of_nat)

lemma rndq_of_int:
  assumes "0 \<le> k" "k \<le> 2 ^ 64"
  shows "rnd (of_int k) = Fin (rndq (of_int k))" "0 \<le> rndq (of_int k)" "rndq (of_int k) \<le> 2 powi 64"
  using rnd_le_pow [of "of_int k" 64] of_int_le_pow [of k 64] assms by simp_all

lemma f_of_u64_eq: "f_of_u64 w = Fin (rndq (of_int (uint w)))"
  using rndq_of_int(1) [of "uint w"] uint_lt2p [of w] unfolding f_of_u64_def f_of_int_def by simp

lemma xm_eq: "f_div (f_of_u64 r) (Fin (2 ^ 64)) = Fin (xmq (uint r))"
proof -
  let ?F = "rndq (of_int (uint r))"
  have F: "0 \<le> ?F" "?F \<le> 2 powi 64"
    using rndq_of_int [of "uint r"] uint_lt2p [of r] by auto
  then have "0 \<le> ?F / 2 ^ 64" "?F / 2 ^ 64 \<le> 2 powi 0" by (auto simp: field_simps)
  from rnd_le_pow(1) [OF this] show ?thesis
    unfolding f_of_u64_eq xmq_def f_div.simps by simp
qed

lemma xmq_mono: "0 \<le> r \<Longrightarrow> r \<le> k \<Longrightarrow> xmq r \<le> xmq k"
  unfolding xmq_def by (intro rndq_mono divide_right_mono) (simp_all add: rndq_nonneg)

lemma xmq_nonneg: "0 \<le> r \<Longrightarrow> 0 \<le> xmq r"
  using xmq_mono [of 0 r] by (simp add: xmq_def)

lemma xmq_values:
  "xmq 1024 = 1 / 2 ^ 54"
  "xmq 1025 = 1025 / 2 ^ 64"
  "xmq (2 ^ 64 - 1025) = 1 - 1 / 2 ^ 53"
  "xmq (2 ^ 64 - 1024) = 1"
  "xmq (2 ^ 64) = 1"
  by (simp_all add: float_eval xmq_def)

lemma xmq_small: "0 \<le> r \<Longrightarrow> r \<le> 1024 \<Longrightarrow> xmq r \<le> 1 / 2 ^ 54"
  using xmq_mono [of r 1024] by (simp only: xmq_values)

lemma xmq_not_small: "1025 \<le> r \<Longrightarrow> 1025 / 2 ^ 64 \<le> xmq r"
  using xmq_mono [of 1025 r] by (simp only: xmq_values)

lemma xmq_lt1: "0 \<le> r \<Longrightarrow> r < 2 ^ 64 - 1024 \<Longrightarrow> xmq r \<le> 1 - 1 / 2 ^ 53"
  using xmq_mono [of r "2 ^ 64 - 1025"] unfolding xmq_values by linarith

lemma xmq_top: "2 ^ 64 - 1024 \<le> r \<Longrightarrow> r \<le> 2 ^ 64 \<Longrightarrow> xmq r = 1"
  using xmq_mono [of r "2 ^ 64"] xmq_mono [of "2 ^ 64 - 1024" r] unfolding xmq_values by simp

text \<open>The quotient \<open>1/Sqrt(1-xm) - 1\<close>: zero for the states up to 1024, positive above, bounded.\<close>

lemma quotient_values:
  "rndq (1 - 1 / 2 ^ 54) = 1"
  "rndq (1 - 1025 / 2 ^ 64) = 1 - 1 / 2 ^ 53"
  "rndq (1 - (1 - 1 / 2 ^ 53)) = 1 / 2 ^ 53"
  "rndq 1 = 1"
  "sqrtq 1 = 1"
  "sqrtq (1 - 1 / 2 ^ 53) = 1 - 1 / 2 ^ 53"
  "rndq (1 / (1 - 1 / 2 ^ 53)) = 1 + 1 / 2 ^ 52"
  "rndq (1 / 2 ^ 52) = 1 / 2 ^ 52"
  "rndq (3 / 2 * (1 / 2 ^ 52)) = 3 / 2 * (1 / 2 ^ 52)"
  by (simp_all add: float_eval)

lemma xmq_le1: "0 \<le> r \<Longrightarrow> r < 2 ^ 64 - 1024 \<Longrightarrow> 0 \<le> 1 - xmq r"
  using xmq_lt1 [of r] by simp

definition goodState :: "int \<Rightarrow> bool" where
  "goodState r \<longleftrightarrow> 0 \<le> r \<and> r < 2 ^ 64 - 1024"

lemma diff_bounds:
  assumes "goodState r"
  shows "2 powi (-53) \<le> rndq (1 - xmq r)" "rndq (1 - xmq r) \<le> 1" "0 < rndq (1 - xmq r)"
proof -
  have r: "0 \<le> r" "r < 2 ^ 64 - 1024" using assms by (simp_all add: goodState_def)
  have "1 / 2 ^ 53 \<le> 1 - xmq r" using xmq_lt1 [OF r] by simp
  then have "2 powi (-53) \<le> 1 - xmq r" by (simp add: power_int_def field_simps)
  then show lower: "2 powi (-53) \<le> rndq (1 - xmq r)" by (rule rndq_ge_pow) simp
  have "rndq (1 - xmq r) \<le> 2 powi 0"
    using xmq_nonneg [OF r(1)] xmq_le1 [OF r] by (intro rndq_le_pow) simp_all
  then show "rndq (1 - xmq r) \<le> 1" by simp
  show "0 < rndq (1 - xmq r)"
    using lower zero_less_power_int [of "2::rat" "-53"] by linarith
qed

lemma root_bounds:
  assumes "goodState r"
  shows "2 powi (-27) \<le> sqrtq (rndq (1 - xmq r))" "sqrtq (rndq (1 - xmq r)) \<le> 1"
    "0 < sqrtq (rndq (1 - xmq r))"
proof -
  have "(2::rat) powi (2 * (-27)) \<le> 2 powi (-53)" by (rule powi_le_iff [THEN iffD2]) simp
  then have "2 powi (2 * (-27)) \<le> rndq (1 - xmq r)"
    using diff_bounds(1) [OF assms] by (rule order.trans)
  then have "sqrtq (2 powi (2 * (-27))) \<le> sqrtq (rndq (1 - xmq r))"
    by (rule sqrtq_mono [rotated]) simp
  then show lower: "2 powi (-27) \<le> sqrtq (rndq (1 - xmq r))" unfolding sqrtq_pow .
  show "sqrtq (rndq (1 - xmq r)) \<le> 1"
    using sqrtq_mono [OF diff_bounds(3,2)] assms by (simp only: quotient_values)
  show "0 < sqrtq (rndq (1 - xmq r))"
    using lower zero_less_power_int [of "2::rat" "-27"] by linarith
qed

lemma inverse_bounds:
  assumes "goodState r"
  shows "1 \<le> 1 / sqrtq (rndq (1 - xmq r))" "1 / sqrtq (rndq (1 - xmq r)) \<le> 2 powi 27"
proof -
  show "1 \<le> 1 / sqrtq (rndq (1 - xmq r))" using root_bounds [OF assms] by simp
  have "1 / sqrtq (rndq (1 - xmq r)) \<le> 1 / 2 powi (-27)"
    using root_bounds [OF assms] by (intro divide_left_mono) (auto intro: zero_less_power_int mult_pos_pos)
  also have "\<dots> = 2 powi 27" by (simp only: power_int_minus) simp
  finally show "1 / sqrtq (rndq (1 - xmq r)) \<le> 2 powi 27" .
qed

lemma quotient_bounds:
  assumes "goodState r"
  shows "1 \<le> rndq (1 / sqrtq (rndq (1 - xmq r)))"
    "rndq (1 / sqrtq (rndq (1 - xmq r))) \<le> 2 powi 27"
proof -
  have "2 powi 0 \<le> rndq (1 / sqrtq (rndq (1 - xmq r)))"
    using inverse_bounds(1) [OF assms] by (intro rndq_ge_pow) simp_all
  then show "1 \<le> rndq (1 / sqrtq (rndq (1 - xmq r)))" by simp
  show "rndq (1 / sqrtq (rndq (1 - xmq r))) \<le> 2 powi 27"
    using inverse_bounds [OF assms] by (intro rndq_le_pow) linarith+
qed

lemma tq_bounds:
  assumes "goodState r"
  shows "0 \<le> tq r" "tq r \<le> 2 powi 27"
proof -
  have "0 \<le> rndq (1 / sqrtq (rndq (1 - xmq r))) - 1"
    "rndq (1 / sqrtq (rndq (1 - xmq r))) - 1 \<le> 2 powi 27"
    using quotient_bounds [OF assms] by linarith+
  note t = this
  show "0 \<le> tq r" unfolding tq_def by (rule rndq_nonneg [OF t(1)])
  show "tq r \<le> 2 powi 27" unfolding tq_def by (rule rndq_le_pow [OF t]) simp
qed

lemma tq_stuck:
  assumes "0 \<le> r" "r \<le> 1024"
  shows "tq r = 0"
proof -
  have "1 - 1 / 2 ^ 54 \<le> 1 - xmq r" using xmq_small [OF assms] by simp
  then have "rndq (1 - 1 / 2 ^ 54) \<le> rndq (1 - xmq r)" by (intro rndq_mono) simp_all
  then have "1 \<le> rndq (1 - xmq r)" unfolding quotient_values .
  with diff_bounds(2) [of r] assms have "rndq (1 - xmq r) = 1" by (simp add: goodState_def)
  then show ?thesis unfolding tq_def by (simp add: quotient_values)
qed

lemma tq_moves:
  assumes "goodState r" "1025 \<le> r"
  shows "1 / 2 ^ 52 \<le> tq r"
proof -
  have "1 - xmq r \<le> 1 - 1025 / 2 ^ 64" using xmq_not_small [OF assms(2)] by simp
  moreover have "0 \<le> 1 - xmq r" using xmq_le1 assms(1) by (simp add: goodState_def)
  ultimately have "rndq (1 - xmq r) \<le> 1 - 1 / 2 ^ 53"
    using rndq_mono [of "1 - xmq r" "1 - 1025 / 2 ^ 64"] unfolding quotient_values by blast
  then have "sqrtq (rndq (1 - xmq r)) \<le> sqrtq (1 - 1 / 2 ^ 53)"
    by (intro sqrtq_mono diff_bounds assms)
  then have "sqrtq (rndq (1 - xmq r)) \<le> 1 - 1 / 2 ^ 53" unfolding quotient_values .
  then have "1 / (1 - 1 / 2 ^ 53) \<le> 1 / sqrtq (rndq (1 - xmq r))"
    using root_bounds(3) [OF assms(1)] by (intro divide_left_mono) simp_all
  then have "rndq (1 / (1 - 1 / 2 ^ 53)) \<le> rndq (1 / sqrtq (rndq (1 - xmq r)))"
    by (intro rndq_mono) simp_all
  then have "1 + 1 / 2 ^ 52 \<le> rndq (1 / sqrtq (rndq (1 - xmq r)))" unfolding quotient_values .
  then have "rndq (1 / 2 ^ 52) \<le> tq r"
    unfolding tq_def by (intro rndq_mono) simp_all
  then show ?thesis unfolding quotient_values .
qed

lemma quotient_eq:
  assumes "goodState r"
  shows "f_sub (f_div (Fin 1) (f_sqrt (f_sub (Fin 1) (Fin (xmq r))))) (Fin 1) = Fin (tq r)"
proof -
  have r: "0 \<le> r" "r < 2 ^ 64 - 1024" using assms by (simp_all add: goodState_def)
  have "rnd (1 - xmq r) = Fin (rndq (1 - xmq r))"
    using xmq_le1 [OF r] xmq_nonneg [OF r(1)] by (intro rnd_le_pow(1) [of _ 0]) simp_all
  then have d: "f_sub (Fin 1) (Fin (xmq r)) = Fin (rndq (1 - xmq r))" by (simp add: f_sub_def)
  have q: "rnd (1 / sqrtq (rndq (1 - xmq r))) = Fin (rndq (1 / sqrtq (rndq (1 - xmq r))))"
    using inverse_bounds [OF assms] by (intro rnd_le_pow(1) [of _ 27]) linarith+
  have t: "rnd (rndq (1 / sqrtq (rndq (1 - xmq r))) - 1) = Fin (tq r)"
    unfolding tq_def using quotient_bounds [OF assms] by (intro rnd_le_pow(1) [of _ 27]) linarith+
  show ?thesis
    unfolding d using diff_bounds(3) [OF assms] root_bounds(3) [OF assms]
    by (simp add: q f_sub_def t)
qed

lemma aq_mono: "0 \<le> j \<Longrightarrow> j \<le> k \<Longrightarrow> aq j \<le> aq k"
  unfolding aq_def by (intro rndq_mono) (simp_all add: rndq_mono rndq_nonneg)

lemma aq_values: "aq 0 = 3 / 2" "aq (2 ^ 34) \<le> 2 powi 35" "aq (2 ^ 64) \<le> 2 powi 65"
  by (simp_all add: float_eval aq_def)

lemma index_eq:
  assumes "0 \<le> j" "j \<le> 2 ^ 64"
  shows "f_add (Fin (rndq (of_int j))) (Fin (3 / 2)) = Fin (aq j)"
proof -
  let ?x = "rndq (of_int j) + 3 / 2"
  have "(2::rat) powi 64 + 3 / 2 \<le> 2 powi 65" by simp
  then have "rnd ?x = Fin (rndq ?x)"
    using rndq_of_int [OF assms] by (intro rnd_le_pow(1) [of _ 65]) linarith+
  then show ?thesis unfolding aq_def by simp
qed

lemma aq_bounds: "0 \<le> j \<Longrightarrow> 3 / 2 \<le> aq j" "0 \<le> j \<Longrightarrow> j \<le> 2 ^ 64 \<Longrightarrow> aq j \<le> 2 powi 65"
  "0 \<le> j \<Longrightarrow> j \<le> 2 ^ 34 \<Longrightarrow> aq j \<le> 2 powi 35"
  using aq_mono [of 0 j] aq_mono [of j "2 ^ 64"] aq_mono [of j "2 ^ 34"] aq_values by linarith+

text \<open>The whole expression, on the rationals.\<close>

lemma indexStep_eq:
  assumes r: "goodState (uint r)"
  shows "indexStep r j = Fin (of_int \<lceil>rndq (aq (uint j) * tq (uint r))\<rceil>)"
proof -
  have j: "0 \<le> uint j" "uint j \<le> 2 ^ 64" using uint_lt2p [of j] by simp_all
  have a: "0 \<le> aq (uint j)" using aq_bounds(1) [OF j(1)] by simp
  have "aq (uint j) * tq (uint r) \<le> 2 powi 65 * 2 powi 27"
    by (intro mult_mono aq_bounds tq_bounds j r) simp
  also have "\<dots> = (2::rat) powi 92" by simp
  finally have "rnd (aq (uint j) * tq (uint r)) = Fin (rndq (aq (uint j) * tq (uint r)))"
    using a tq_bounds(1) [OF r] by (intro rnd_le_pow(1) [of _ 92]) auto
  then show ?thesis
    unfolding indexStep_def Let_def unfolding xm_eq quotient_eq [OF r] unfolding f_of_u64_eq index_eq [OF j]
    by simp
qed

lemma indexStep_top:
  assumes "\<not> goodState (uint r)"
  shows "indexStep r j = PInf"
proof -
  have "2 ^ 64 - 1024 \<le> uint r" using assms by (simp add: goodState_def)
  then have x: "xmq (uint r) = 1" using uint_lt2p [of r] by (intro xmq_top) simp_all
  have j: "0 \<le> uint j" "uint j \<le> 2 ^ 64" using uint_lt2p [of j] by simp_all
  have "0 < aq (uint j)" using aq_bounds(1) [OF j(1)] by simp
  moreover have "rnd 0 = Fin 0" by (rule rnd_Fin [THEN trans]) simp_all
  ultimately show ?thesis
    unfolding indexStep_def Let_def unfolding xm_eq x unfolding f_of_u64_eq index_eq [OF j]
    by (simp add: f_sub_def f_signed_inf_def sqrtq_def)
qed

section \<open>Bounds and progress of nextIndex\<close>

lemma floor_le_of_int_pow: "x \<le> 2 powi int n \<Longrightarrow> \<lceil>x\<rceil> \<le> 2 ^ n" for x :: rat
  by (rule ceiling_le) simp

text \<open>The advance of an index below \<open>2 ^ 34\<close>.\<close>

lemma advance_bounds:
  fixes r j :: u64 and x :: int
  assumes r: "goodState (uint r)" and j: "uint j < 2 ^ 34"
  defines "x \<equiv> \<lceil>rndq (aq (uint j) * tq (uint r))\<rceil>"
  shows "0 \<le> x" and "x \<le> 2 ^ 62" and "x = 0 \<longleftrightarrow> uint r \<le> 1024"
proof -
  let ?x = "\<lceil>rndq (aq (uint j) * tq (uint r))\<rceil>"
  have a: "3 / 2 \<le> aq (uint j)" "aq (uint j) \<le> 2 powi 35" using aq_bounds j by simp_all
  have t: "0 \<le> tq (uint r)" "tq (uint r) \<le> 2 powi 27" by (rule tq_bounds [OF r])+
  have p: "0 \<le> aq (uint j) * tq (uint r)" using a t by simp
  have "aq (uint j) * tq (uint r) \<le> 2 powi 35 * 2 powi 27"
    using a t by (intro mult_mono) auto
  also have "\<dots> = (2::rat) powi 62" by simp
  finally have "rndq (aq (uint j) * tq (uint r)) \<le> 2 powi int 62"
    using p by (simp only: of_nat_numeral) (rule rndq_le_pow, simp_all)
  then show "x \<le> 2 ^ 62" unfolding x_def by (rule floor_le_of_int_pow)
  show "0 \<le> x" unfolding x_def using rndq_nonneg [OF p] by (simp add: ceiling_mono [of 0, simplified])
  show "x = 0 \<longleftrightarrow> uint r \<le> 1024"
    unfolding x_def
  proof
    assume "uint r \<le> 1024"
    then show "?x = 0" by (simp add: tq_stuck)
  next
    assume zero: "?x = 0"
    show "uint r \<le> 1024"
    proof (rule ccontr)
      assume "\<not> uint r \<le> 1024"
      then have "1 / 2 ^ 52 \<le> tq (uint r)" using tq_moves [OF r] by linarith
      then have "3 / 2 * (1 / 2 ^ 52) \<le> aq (uint j) * tq (uint r)"
        using a by (intro mult_mono) auto
      then have "rndq (3 / 2 * (1 / 2 ^ 52)) \<le> rndq (aq (uint j) * tq (uint r))"
        by (intro rndq_mono) simp_all
      then have "3 / 2 * (1 / 2 ^ 52) \<le> rndq (aq (uint j) * tq (uint r))" unfolding quotient_values .
      then have "0 < rndq (aq (uint j) * tq (uint r))" by (rule order.strict_trans2 [rotated]) simp
      with zero show False
        using le_of_int_ceiling [of "rndq (aq (uint j) * tq (uint r))"] by simp
    qed
  qed
qed

text \<open>What a successful call does, for an index in range.\<close>

lemma nextIndex_top: "\<not> goodState (uint (nextPrng (prng m))) \<Longrightarrow> nextIndex m = Inl ImplementationDefined"
  by (simp add: nextIndex_def Let_def indexStep_top)

lemma nextIndex_good:
  assumes r: "goodState (uint (nextPrng (prng m)))" and j: "uint (lastIdx m) < 2 ^ 34"
  shows "\<exists>m'. nextIndex m = Inr m' \<and> prng m' = nextPrng (prng m) \<and>
              uint (lastIdx m) \<le> uint (lastIdx m') \<and> uint (lastIdx m') < 2 ^ 63 \<and>
              (lastIdx m' = lastIdx m \<longleftrightarrow> uint (nextPrng (prng m)) \<le> 1024)"
proof -
  let ?r = "nextPrng (prng m)" and ?j = "lastIdx m"
  obtain x where x_def: "\<lceil>rndq (aq (uint ?j) * tq (uint ?r))\<rceil> = x"
    and x: "0 \<le> x" "x \<le> 2 ^ 62" "x = 0 \<longleftrightarrow> uint ?r \<le> 1024"
    using advance_bounds [OF r j] by blast
  have lim: "x < 2 ^ 64" using x(2) by simp
  have to: "f_to_u64 (indexStep ?r ?j) = Inr (word_of_int x)"
    unfolding indexStep_eq [OF r] x_def using x(1) lim by (simp add: trunc_rat_def)
  have u: "uint (word_of_int x :: u64) = x"
    using x(1) lim by (simp add: uint_word_of_int)
  have sum: "uint (?j + word_of_int x) = uint ?j + x"
    using x j by (subst uint_plus_if') (simp add: u)
  have eq: "nextIndex m = Inr (m\<lparr>prng := ?r, lastIdx := ?j + word_of_int x\<rparr>)"
    unfolding nextIndex_def Let_def to by simp
  have "word_of_int x = (0::u64) \<longleftrightarrow> x = 0" using u by auto
  then have "?j + word_of_int x = ?j \<longleftrightarrow> x = 0" by simp
  with x sum j eq show ?thesis by (intro exI [of _ "m\<lparr>prng := ?r, lastIdx := ?j + word_of_int x\<rparr>"]) auto
qed

section \<open>The state\<close>

lemma multiplier_inverse: "multiplier * 10053033838670173597 = 1"
  by (simp add: multiplier_def)

lemma nextPrng_inj: "nextPrng p = nextPrng q \<longleftrightarrow> p = q"
proof
  assume "nextPrng p = nextPrng q"
  then have "nextPrng p * 10053033838670173597 = nextPrng q * 10053033838670173597" by (simp only:)
  then show "p = q" by (simp only: nextPrng_def mult.assoc multiplier_inverse mult_1_right)
qed (simp only:)

lemma nextPrng_0_iff [simp]: "nextPrng p = 0 \<longleftrightarrow> p = 0"
  using nextPrng_inj [of p 0] by (simp add: nextPrng_def)

text \<open>
  A state that does not move the index is followed by one that does. The multiplier is
  \<open>2 ^ 64 - N\<close>; a small state followed by a small state would make a multiple
  \<open>k * 2 ^ 64\<close> with \<open>k \<le> 150\<close> lie within 1024 of a multiple of \<open>N\<close>.
\<close>

lemma small_states: "list_all (\<lambda>k. 1024 < k * 2 ^ 64 mod 2696494805208442699) [1..150::int]"
  by code_simp

lemma small_product:
  fixes r :: int
  assumes "1 \<le> r" "r \<le> 1024"
  shows "1024 < r * 0xda942042e4dd58b5 mod 2 ^ 64"
proof (rule ccontr)
  let ?N = "2696494805208442699 :: int"
  define s where "s = r * 0xda942042e4dd58b5 mod 2 ^ 64"
  define k where "k = r - r * 0xda942042e4dd58b5 div 2 ^ 64"
  assume "\<not> 1024 < r * 0xda942042e4dd58b5 mod 2 ^ 64"
  then have s: "0 \<le> s" "s \<le> 1024" by (simp_all add: s_def)
  have "r * 0xda942042e4dd58b5 = (r - k) * 2 ^ 64 + s"
    unfolding s_def k_def by (simp add: div_mult_mod_eq)
  then have eq: "r * ?N + s = k * 2 ^ 64"
    by (simp add: algebra_simps)
  have "r * ?N + s = k * 18446744073709551616" using eq by simp
  then have k: "1 \<le> k" "k \<le> 150" using s assms by linarith+
  have "k * 2 ^ 64 mod ?N = s"
    unfolding eq [symmetric] using s by simp
  moreover have "1024 < k * 2 ^ 64 mod ?N"
    using small_states k unfolding list_all_iff by (metis atLeastAtMost_iff set_upto)
  ultimately show False using s by linarith
qed

lemma nextPrng_small:
  assumes "r \<noteq> 0" "uint r \<le> 1024"
  shows "1024 < uint (nextPrng r)"
proof -
  have "uint r \<noteq> 0" using assms(1) by (simp add: unsigned_eq_0_iff)
  then have "1 \<le> uint r" using uint_ge_0 [of r] by linarith
  then have "1024 < uint r * 0xda942042e4dd58b5 mod 2 ^ 64" using assms(2) by (rule small_product)
  moreover have "uint (nextPrng r) = uint r * 0xda942042e4dd58b5 mod 2 ^ 64"
    by (simp add: nextPrng_def multiplier_def uint_word_ariths)
  ultimately show ?thesis by simp
qed

text \<open>\<open>goodFor k p\<close>: none of the next \<open>k\<close> states is one of the top 1024.\<close>

fun goodFor :: "nat \<Rightarrow> u64 \<Rightarrow> bool" where
  "goodFor 0 p = True"
| "goodFor (Suc k) p = (goodState (uint (nextPrng p)) \<and> goodFor k (nextPrng p))"

lemma goodFor_mono: "goodFor k p \<Longrightarrow> j \<le> k \<Longrightarrow> goodFor j p"
proof (induction k p arbitrary: j rule: goodFor.induct)
  case (2 k p)
  then show ?case by (cases j) auto
qed simp

lemma nextIndex_Inr:
  assumes "nextIndex m = Inr m'" "uint (lastIdx m) < 2 ^ 34"
  shows "goodState (uint (nextPrng (prng m)))" "prng m' = nextPrng (prng m)"
    "uint (lastIdx m) \<le> uint (lastIdx m')" "uint (lastIdx m') < 2 ^ 63"
    "lastIdx m' = lastIdx m \<longleftrightarrow> uint (nextPrng (prng m)) \<le> 1024"
proof -
  show good: "goodState (uint (nextPrng (prng m)))"
    using nextIndex_top [of m] assms(1) by fastforce
  then show "prng m' = nextPrng (prng m)" "uint (lastIdx m) \<le> uint (lastIdx m')"
    "uint (lastIdx m') < 2 ^ 63" "lastIdx m' = lastIdx m \<longleftrightarrow> uint (nextPrng (prng m)) \<le> 1024"
    using nextIndex_good [OF good assms(2)] assms(1) by auto
qed


end
