(* ===== verification/Riblt_Walk.thy ===== *)
theory Riblt_Walk
  imports Riblt_Random
begin

text \<open>
  The loop over a mapping's indices that \<open>riblt/decoder.go\<close> (\<open>applyNewSymbol\<close>) and
  \<open>riblt/sketch.go\<close> (\<open>AddHashedSymbol\<close>) share, as a specification: which indices below
  \<open>n\<close> a mapping visits. It returns for every hash but 0, and for at least
  \<open>2 * n + 1\<close> states outside the top 1024 it returns without an error.
\<close>

section \<open>The indices a mapping visits\<close>

text \<open>
  \<open>walk n m\<close> runs the loop \<open>for int(m.lastIdx) < n { ...; m.nextIndex() }\<close> that
  \<open>Decoder.applyNewSymbol\<close> and \<open>Sketch.AddHashedSymbol\<close> share and collects the indices. It is
  the specification of both loops, not a definition of the source.
\<close>

partial_function (option) walk :: "nat \<Rightarrow> randomMapping \<Rightarrow> (nat list \<times> randomMapping) run" where
  "walk n m =
     (let i = sint (lastIdx m)
      in if i < int n
         then if i < 0 then Some (Inl IndexOutOfRange)
              else bindO (Some (nextIndex m)) (\<lambda>m'.
                     bindO (walk n m') (\<lambda>p. Some (Inr (nat i # fst p, snd p))))
         else Some (Inr ([], m)))"

lemma int_le_pow34: "n \<le> 2 ^ 34 \<Longrightarrow> int n \<le> 2 ^ 34"
  by (metis of_nat_le_iff of_nat_numeral of_nat_power)

lemma sint_uint_small: "uint (w::u64) < 2 ^ 63 \<Longrightarrow> sint w = uint w"
  using sint_uint [of w] signed_take_bit_int_eq_self [of 63 "uint w"] uint_ge_0 [of w] by simp

text \<open>
  What is left of a walk to \<open>n\<close>: twice the distance, and one more where the next step stands
  still. Every step spends at least one.
\<close>

definition budget :: "nat \<Rightarrow> randomMapping \<Rightarrow> nat" where
  "budget n m = 2 * nat (int n - uint (lastIdx m)) +
                (if uint (nextPrng (prng m)) \<le> 1024 then 1 else 0)"

lemma budget_decreases:
  assumes "nextIndex m = Inr m'" "prng m \<noteq> 0" "uint (lastIdx m) < int n" "n \<le> 2 ^ 34"
  shows "budget n m' < budget n m"
proof -
  have "int n \<le> 2 ^ 34" using assms(4) by (rule int_le_pow34)
  with assms(3) have j: "uint (lastIdx m) < 2 ^ 34" by linarith
  note nx = nextIndex_Inr [OF assms(1) j]
  show ?thesis
  proof (cases "uint (nextPrng (prng m)) \<le> 1024")
    case True
    then have "1024 < uint (nextPrng (prng m'))"
      using nx(2) assms(2) nextPrng_small [of "nextPrng (prng m)"] by simp
    then show ?thesis using True nx(5) by (simp add: budget_def)
  next
    case False
    then have "uint (lastIdx m') \<noteq> uint (lastIdx m)"
      using nx(5) by (simp add: word_uint_eq_iff)
    with nx(3) have "uint (lastIdx m) < uint (lastIdx m')" by linarith
    with assms(3) have "nat (int n - uint (lastIdx m')) < nat (int n - uint (lastIdx m))"
      by (intro nat_mono_iff [THEN iffD2]) linarith+
    with False show ?thesis unfolding budget_def by (auto simp del: zless_nat_conj)
  qed
qed

lemma walk_stop: "int n \<le> sint (lastIdx m) \<Longrightarrow> walk n m = Some (Inr ([], m))"
  by (subst walk.simps) (simp add: Let_def)

lemma walk_step:
  assumes "0 \<le> sint (lastIdx m)" "sint (lastIdx m) < int n" "nextIndex m = Inr m'"
  shows "walk n m = bindO (walk n m') (\<lambda>p. Some (Inr (nat (sint (lastIdx m)) # fst p, snd p)))"
proof -
  have "\<not> sint (lastIdx m) < 0" using assms(1) by linarith
  then show ?thesis by (subst walk.simps) (simp only: Let_def assms if_False if_True bindO_simps)
qed

lemma walk_returns:
  assumes "prng m \<noteq> 0" "uint (lastIdx m) < 2 ^ 63" "n \<le> 2 ^ 34"
  shows "\<exists>r. walk n m = Some r \<and>
             (goodFor (budget n m) (prng m) \<longrightarrow> (\<exists>p. r = Inr p)) \<and> (r = Inl e \<longrightarrow> e = ImplementationDefined)"
  using assms
proof (induction "budget n m" arbitrary: m rule: less_induct)
  case less
  have n: "int n \<le> 2 ^ 34" using less.prems(3) by (rule int_le_pow34)
  have s: "sint (lastIdx m) = uint (lastIdx m)" by (rule sint_uint_small [OF less.prems(2)])
  show ?case
  proof (cases "int n \<le> uint (lastIdx m)")
    case True
    with s show ?thesis by (simp add: walk_stop)
  next
    case False
    then have j: "uint (lastIdx m) < 2 ^ 34" using n by linarith
    have pos: "0 < budget n m" using False by (simp add: budget_def)
    show ?thesis
    proof (cases "nextIndex m")
      case (Inl e')
      then have "walk n m = Some (Inl e')"
        using False s by (subst walk.simps) (simp add: Let_def)
      moreover have ng: "\<not> goodState (uint (nextPrng (prng m)))"
        using nextIndex_good [OF _ j] Inl by fastforce
      moreover have "e' = ImplementationDefined" using Inl nextIndex_top [OF ng] by simp
      moreover have "\<not> goodFor (budget n m) (prng m)"
        using ng pos by (cases "budget n m") auto
      ultimately show ?thesis by simp
    next
      case (Inr m')
      note nx = nextIndex_Inr [OF Inr j]
      have dec: "budget n m' < budget n m"
        using budget_decreases [OF Inr less.prems(1)] False less.prems(3) by simp
      obtain r where r: "walk n m' = Some r"
        "goodFor (budget n m') (prng m') \<longrightarrow> (\<exists>p. r = Inr p)" "r = Inl e \<longrightarrow> e = ImplementationDefined"
        using less.hyps [OF dec] nx less.prems by auto
      have "goodFor (budget n m) (prng m) \<Longrightarrow> goodFor (budget n m') (prng m')"
        using dec nx(2) goodFor_mono [of "budget n m - 1" _ "budget n m'"]
        by (cases "budget n m") auto
      with r show ?thesis
        using False s walk_step [of m n m'] Inr by (cases r) auto
    qed
  qed
qed

section \<open>The parts of a walk\<close>

lemma walk_Nil_iff:
  "walk n m = Some (Inr ([], m')) \<longleftrightarrow> int n \<le> sint (lastIdx m) \<and> m' = m"
  by (subst walk.simps) (auto simp: Let_def bindO_Inr_iff)

lemma walk_Cons_iff:
  "walk n m = Some (Inr (i # is, m')) \<longleftrightarrow>
   0 \<le> sint (lastIdx m) \<and> sint (lastIdx m) < int n \<and> i = nat (sint (lastIdx m)) \<and>
   (\<exists>m1. nextIndex m = Inr m1 \<and> walk n m1 = Some (Inr (is, m')))"
  by (subst walk.simps) (auto simp: Let_def bindO_Inr_iff not_less)

lemma walk_extend:
  "walk n m = Some (Inr (is, m1)) \<Longrightarrow> n \<le> n' \<Longrightarrow>
   walk n' m = bindO (walk n' m1) (\<lambda>p. Some (Inr (is @ fst p, snd p)))"
proof (induction "is" arbitrary: m)
  case Nil
  then have "m1 = m" by (simp add: walk_Nil_iff)
  moreover have "bindO r (\<lambda>p. Some (Inr ([] @ fst p, snd p))) = r" for r :: "(nat list \<times> randomMapping) run"
    by (cases r; cases "the r") auto
  ultimately show ?case by simp
next
  case (Cons i "is")
  then obtain m2 where m2: "0 \<le> sint (lastIdx m)" "sint (lastIdx m) < int n" "i = nat (sint (lastIdx m))"
    "nextIndex m = Inr m2" "walk n m2 = Some (Inr (is, m1))"
    by (auto simp: walk_Cons_iff)
  have "walk n' m = bindO (walk n' m2) (\<lambda>p. Some (Inr (i # fst p, snd p)))"
    using m2 Cons.prems(2) by (simp add: walk_step)
  also have "\<dots> = bindO (walk n' m1) (\<lambda>p. Some (Inr ((i # is) @ fst p, snd p)))"
    using Cons.IH [OF m2(5) Cons.prems(2)]
    by (cases "walk n' m1"; cases "the (walk n' m1)") auto
  finally show ?case .
qed

text \<open>What a walk visits and where it leaves the mapping, where it succeeds.\<close>

definition walkable :: "nat \<Rightarrow> randomMapping \<Rightarrow> bool" where
  "walkable n m \<longleftrightarrow> (\<exists>p. walk n m = Some (Inr p))"

definition visit :: "nat \<Rightarrow> randomMapping \<Rightarrow> nat list" where
  "visit n m = (case walk n m of Some (Inr p) \<Rightarrow> fst p | _ \<Rightarrow> [])"

definition leave :: "nat \<Rightarrow> randomMapping \<Rightarrow> randomMapping" where
  "leave n m = (case walk n m of Some (Inr p) \<Rightarrow> snd p | _ \<Rightarrow> m)"

lemma walkable_iff: "walkable n m \<longleftrightarrow> walk n m = Some (Inr (visit n m, leave n m))"
  by (auto simp: walkable_def visit_def leave_def)

lemma walk_stopped:
  assumes "int n \<le> sint (lastIdx m)"
  shows "walkable n m" "visit n m = []" "leave n m = m"
  using walk_stop [OF assms] by (simp_all add: walkable_def visit_def leave_def)

lemma walk_moves:
  assumes "walkable n m" "sint (lastIdx m) < int n"
  obtains m1 where "0 \<le> sint (lastIdx m)" "nextIndex m = Inr m1" "walkable n m1"
    "visit n m = nat (sint (lastIdx m)) # visit n m1" "leave n m = leave n m1"
proof (cases "visit n m")
  case Nil
  then show ?thesis using assms by (simp add: walkable_iff walk_Nil_iff)
next
  case (Cons i "is")
  with assms obtain m1 where "0 \<le> sint (lastIdx m)" "i = nat (sint (lastIdx m))"
    "nextIndex m = Inr m1" "walk n m1 = Some (Inr (is, leave n m))"
    by (auto simp: walkable_iff walk_Cons_iff)
  with Cons show ?thesis
    by (intro that [of m1]) (auto simp: walkable_def visit_def leave_def)
qed

lemma walk_append:
  assumes "walkable n m" "n \<le> n'" "walkable n' (leave n m)"
  shows "walkable n' m" "visit n' m = visit n m @ visit n' (leave n m)"
    "leave n' m = leave n' (leave n m)"
proof -
  have "walk n' m = Some (Inr (visit n m @ visit n' (leave n m), leave n' (leave n m)))"
    using walk_extend [of n m "visit n m" "leave n m" n'] assms by (simp add: walkable_iff)
  then show "walkable n' m" "visit n' m = visit n m @ visit n' (leave n m)"
    "leave n' m = leave n' (leave n m)"
    by (simp_all add: walkable_def visit_def leave_def)
qed

lemma walkable_less:
  assumes "walkable n' m" "n \<le> n'"
  shows "walkable n m \<and> walkable n' (leave n m)"
proof -
  have "walk n' m = Some (Inr (is, m')) \<Longrightarrow>
        \<exists>js m1. walk n m = Some (Inr (js, m1)) \<and> walkable n' m1" for "is" m'
  proof (induction "is" arbitrary: m)
    case Nil
    then have "int n' \<le> sint (lastIdx m)" by (simp add: walk_Nil_iff)
    then show ?case using assms(2) by (auto simp: walk_stop walkable_def)
  next
    case (Cons i "is")
    then obtain m2 where m2: "0 \<le> sint (lastIdx m)" "nextIndex m = Inr m2"
      "walk n' m2 = Some (Inr (is, m'))" by (auto simp: walk_Cons_iff)
    with Cons obtain js m1 where IH: "walk n m2 = Some (Inr (js, m1))" "walkable n' m1" by blast
    show ?case
    proof (cases "sint (lastIdx m) < int n")
      case True
      then show ?thesis using m2 IH by (auto simp: walk_step)
    next
      case False
      then show ?thesis using Cons.prems by (auto simp: walk_stop walkable_def)
    qed
  qed
  with assms show ?thesis by (fastforce simp: walkable_def leave_def)
qed

text \<open>The indices are visited in order, below \<open>n\<close>; the mapping is left at \<open>n\<close> or beyond.\<close>

lemma uint_sint_nonneg:
  assumes "0 \<le> sint (w::u64)"
  shows "uint w = sint w"
proof -
  have "sint w < 2 ^ 64" using sint_lt [of w] by simp
  then have "take_bit 64 (sint w) = sint w" using assms by (intro take_bit_int_eq_self)
  moreover have "LENGTH(64) = 64" by simp
  moreover have "uint w = take_bit LENGTH(64) (sint w)" by (rule uint_sint)
  ultimately show ?thesis by (simp only:)
qed

lemma nextIndex_sint:
  assumes "nextIndex m = Inr m1" "0 \<le> sint (lastIdx m)" "sint (lastIdx m) < 2 ^ 34"
  shows "sint (lastIdx m) \<le> sint (lastIdx m1)"
proof -
  have u: "uint (lastIdx m) = sint (lastIdx m)" using assms(2) by (rule uint_sint_nonneg)
  then have "uint (lastIdx m) < 2 ^ 34" using assms(3) by linarith
  note nx = nextIndex_Inr [OF assms(1) this]
  show ?thesis using u nx(3) sint_uint_small [OF nx(4)] by linarith
qed

lemma walk_range:
  assumes "walkable n m" "0 \<le> sint (lastIdx m)" "n \<le> 2 ^ 34"
  shows "\<forall>i\<in>set (visit n m). sint (lastIdx m) \<le> int i \<and> i < n"
    and "int n \<le> sint (lastIdx (leave n m))" and "sint (lastIdx m) \<le> sint (lastIdx (leave n m))"
proof -
  have n: "int n \<le> 2 ^ 34" using assms(3) by (rule int_le_pow34)
  have "walk n m = Some (Inr (is, m')) \<Longrightarrow> 0 \<le> sint (lastIdx m) \<Longrightarrow>
        (\<forall>i\<in>set is. sint (lastIdx m) \<le> int i \<and> i < n) \<and> int n \<le> sint (lastIdx m') \<and>
        sint (lastIdx m) \<le> sint (lastIdx m')" for "is" m'
  proof (induction "is" arbitrary: m)
    case Nil
    then show ?case by (simp add: walk_Nil_iff)
  next
    case (Cons i "is")
    then obtain m2 where m2: "sint (lastIdx m) < int n" "i = nat (sint (lastIdx m))"
      "nextIndex m = Inr m2" "walk n m2 = Some (Inr (is, m'))" by (auto simp: walk_Cons_iff)
    then have le: "sint (lastIdx m) \<le> sint (lastIdx m2)"
      using nextIndex_sint [OF m2(3) Cons.prems(2)] n by linarith
    with Cons.IH [OF m2(4)] Cons.prems m2 show ?case by fastforce
  qed
  with assms show "\<forall>i\<in>set (visit n m). sint (lastIdx m) \<le> int i \<and> i < n"
    and "int n \<le> sint (lastIdx (leave n m))" and "sint (lastIdx m) \<le> sint (lastIdx (leave n m))"
    by (auto simp: walkable_iff)
qed

text \<open>A fresh mapping, as \<open>randomMapping{t.Hash, 0}\<close> makes it, starts at index 0.\<close>

definition freshMapping :: "u64 \<Rightarrow> randomMapping" where
  "freshMapping h = \<lparr>prng = h, lastIdx = 0\<rparr>"

lemma freshMapping_simps [simp]: "prng (freshMapping h) = h" "lastIdx (freshMapping h) = 0"
  by (simp_all add: freshMapping_def)

lemma walkable_fresh:
  assumes "h \<noteq> 0" "n \<le> 2 ^ 34" "goodFor (2 * n + 1) h"
  shows "walkable n (freshMapping h)"
proof -
  have "goodFor (budget n (freshMapping h)) h"
    using assms(3) by (rule goodFor_mono) (simp add: budget_def)
  then show ?thesis
    using walk_returns [of "freshMapping h" n] assms(1,2) by (fastforce simp: walkable_def)
qed

text \<open>
  \<open>spreadFor k p\<close>: none of the next \<open>k\<close> states is one of the top 1024 or the low 1025. Then the
  indices are visited once each, in order.
\<close>

fun spreadFor :: "nat \<Rightarrow> u64 \<Rightarrow> bool" where
  "spreadFor 0 p = True"
| "spreadFor (Suc k) p =
     (1024 < uint (nextPrng p) \<and> goodState (uint (nextPrng p)) \<and> spreadFor k (nextPrng p))"

lemma walk_spread:
  assumes "spreadFor k (prng m)" "0 \<le> sint (lastIdx m)" "int n \<le> sint (lastIdx m) + int k" "n \<le> 2 ^ 34"
  shows "\<exists>is m'. walk n m = Some (Inr (is, m')) \<and> sorted_wrt (<) is \<and> (\<forall>i\<in>set is. nat (sint (lastIdx m)) \<le> i)"
  using assms(1-3)
proof (induction k arbitrary: m)
  case 0
  then show ?case by (simp add: walk_stop)
next
  case (Suc k)
  show ?case
  proof (cases "int n \<le> sint (lastIdx m)")
    case True
    then show ?thesis by (simp add: walk_stop)
  next
    case False
    have "int n \<le> 2 ^ 34" using assms(4) by (rule int_le_pow34)
    moreover have u: "uint (lastIdx m) = sint (lastIdx m)" using Suc.prems(2) by (rule uint_sint_nonneg)
    ultimately have j: "uint (lastIdx m) < 2 ^ 34" using False by linarith
    have good: "goodState (uint (nextPrng (prng m)))" "1024 < uint (nextPrng (prng m))" using Suc.prems(1) by simp_all
    then obtain m1 where m1: "nextIndex m = Inr m1" using nextIndex_good [OF _ j] by blast
    note nx = nextIndex_Inr [OF m1 j]
    have "uint (lastIdx m1) \<noteq> uint (lastIdx m)"
      using nx(5) good(2) by (simp add: word_uint_eq_iff)
    then have lt: "sint (lastIdx m) < sint (lastIdx m1)"
      using nx(3) sint_uint_small [OF nx(4)] u by linarith
    obtain "is" m' where IH: "walk n m1 = Some (Inr (is, m'))" "sorted_wrt (<) is"
      "\<forall>i\<in>set is. nat (sint (lastIdx m1)) \<le> i"
      using Suc.IH [of m1] Suc.prems nx(2) lt by auto
    have "nat (sint (lastIdx m)) < nat (sint (lastIdx m1))" using lt Suc.prems(2) by linarith
    then show ?thesis
      using IH walk_step [OF Suc.prems(2) _ m1, of n] False by fastforce
  qed
qed

lemma spread_fresh:
  assumes "spreadFor n h" "n \<le> 2 ^ 34"
  shows "walkable n (freshMapping h) \<and> sorted_wrt (<) (visit n (freshMapping h))"
  using walk_spread [of n "freshMapping h" n] assms by (auto simp: walkable_def visit_def)

end
