(* ===== verification/Riblt_Window.thy ===== *)
theory Riblt_Window
  imports Riblt_Encoder
begin

text \<open>
  What \<open>applyWindow\<close> of \<open>riblt/encoder.go\<close> does to a coded symbol, and what the first \<open>n\<close>
  coded symbols of an encoder are. The specification of a cell is a list of updates: for
  every symbol, as many as its mapping visits the index of the cell.
\<close>

section \<open>The updates a window makes at its next index\<close>

definition visits_of :: "nat \<Rightarrow> 'd codingWindow \<Rightarrow> nat \<Rightarrow> nat" where
  "visits_of n e j = length (visit n (mappings e ! j))"

definition column :: "nat \<Rightarrow> 'd codingWindow \<Rightarrow> u64 \<Rightarrow> ('d HashedSymbol \<times> u64) list" where
  "column n e d =
     concat (map (\<lambda>j. replicate (visits_of n e j) (symbols e ! j, d)) [0..<length (symbols e)])"

lemma mset_column:
  "mset (column n e d) =
   (\<Sum>j<length (symbols e). replicate_mset (visits_of n e j) (symbols e ! j, d))"
  by (simp add: column_def mset_concat sum_list_distinct_conv_sum_set o_def
                interv_sum_list_conv_sum_set_nat atLeast0LessThan)

lemma length_column: "length (column n e d) = (\<Sum>j<length (symbols e). visits_of n e j)"
  by (simp add: column_def length_concat o_def interv_sum_list_conv_sum_set_nat atLeast0LessThan)

text \<open>All mappings of a window can be followed up to \<open>n\<close>.\<close>

definition window_walkable :: "nat \<Rightarrow> 'd codingWindow \<Rightarrow> bool" where
  "window_walkable n e \<longleftrightarrow> (\<forall>m\<in>set (mappings e). walkable n m)"

text \<open>The window after its mappings have been followed up to \<open>n\<close>.\<close>

definition window_at :: "nat \<Rightarrow> 'd codingWindow \<Rightarrow> 'd codingWindow \<Rightarrow> bool" where
  "window_at n e e' \<longleftrightarrow>
     window_ok e' \<and> symbols e' = symbols e \<and> mappings e' = map (leave n) (mappings e)"

section \<open>One iteration\<close>

lemma applyHead_spec:
  assumes ok: "window_ok e" and ready: "window_ready e" and ne: "queue e \<noteq> []"
    and idx: "nextIdx e = int n" and n: "n < 2 ^ 34" and head: "codedIdx (queue e ! 0) = nextIdx e"
    and walk: "window_walkable (Suc n) e"
  obtains e' j t where "applyHead T e cw d = Inr (e', applySym T cw t d)"
    "window_ok e'" "window_ready e'" "queue e' \<noteq> []" "nextIdx e' = nextIdx e" "symbols e' = symbols e"
    "window_walkable (Suc n) e'" "map (leave (Suc n)) (mappings e') = map (leave (Suc n)) (mappings e)"
    "mset (column (Suc n) e d) = add_mset (t, d) (mset (column (Suc n) e' d))"
proof -
  let ?q = "queue e ! 0"
  define j where "j = sourceIdx ?q"
  let ?m = "mappings e ! j" and ?t = "symbols e ! j"
  have q: "?q \<in> set (queue e)" using ne by simp
  have j: "j < length (symbols e)" "j < length (mappings e)"
    using window_source [OF ok q] ok by (simp_all add: j_def window_ok_def)
  have last: "sint (lastIdx ?m) = int n"
    using ok q head idx by (simp add: window_ok_def j_def)
  have "walkable (Suc n) ?m" using walk j by (simp add: window_walkable_def)
  then obtain m1 where m1: "nextIndex ?m = Inr m1" "walkable (Suc n) m1"
    "visit (Suc n) ?m = nat (sint (lastIdx ?m)) # visit (Suc n) m1" "leave (Suc n) ?m = leave (Suc n) m1"
    by (rule walk_moves) (simp add: last)
  have grow: "int n \<le> sint (lastIdx m1)"
    using nextIndex_sint [OF m1(1)] n last by (metis of_nat_0_le_iff of_nat_less_iff of_nat_numeral of_nat_power)
  let ?q' = "?q\<lparr>codedIdx := sint (lastIdx m1)\<rparr>"
  let ?qs = "(queue e)[0 := ?q']"
  let ?e = "e\<lparr>mappings := (mappings e)[j := m1], queue := fixHead ?qs\<rparr>"
  have eq: "applyHead T e cw d = Inr (?e, applySym T cw ?t d)"
    using j m1(1) by (simp add: applyHead_def Let_def get_def j_def [symmetric])
  have src: "map sourceIdx ?qs = map sourceIdx (queue e)"
    by (cases "queue e") (simp_all add: ne)
  have "mset (map sourceIdx (fixHead ?qs)) = mset (map sourceIdx ?qs)"
    by (simp only: mset_map mset_fixHead)
  also have "\<dots> = mset [0..<length (symbols e)]"
    unfolding src using ok by (simp add: window_ok_def)
  finally have ms: "mset (map sourceIdx (fixHead ?qs)) = mset [0..<length (symbols e)]" .
  have coded: "codedIdx q = sint (lastIdx ((mappings e)[j := m1] ! sourceIdx q))" if "q \<in> set ?qs" for q
  proof -
    from that obtain i where i: "i < length (queue e)" "q = ?qs ! i" by (auto simp: in_set_conv_nth)
    show ?thesis
    proof (cases "i = 0")
      case True
      with i j show ?thesis by (simp add: j_def)
    next
      case False
      with i have q: "q = queue e ! i" by simp
      have "sourceIdx q \<noteq> j"
        using window_distinct [OF ok] i q False ne
        by (simp add: j_def distinct_conv_nth)
      then show ?thesis using ok q i by (simp add: window_ok_def)
    qed
  qed
  have ok': "window_ok ?e"
    using ok ms coded fixHead_heap [of "queue e" ?q'] by (simp add: window_ok_def)
  have ready': "window_ready ?e"
    using ready grow idx by (auto simp: window_ready_def dest!: set_update_subset_insert [THEN subsetD])
  have walk': "window_walkable (Suc n) ?e"
    using walk m1(2) by (auto simp: window_walkable_def dest!: set_update_subset_insert [THEN subsetD])
  have leave: "map (leave (Suc n)) (mappings ?e) = map (leave (Suc n)) (mappings e)"
    using m1(4) j by (simp add: map_update) (metis length_map list_update_id nth_map)
  let ?f = "\<lambda>e k. replicate_mset (visits_of (Suc n) e k) (symbols e ! k, d)"
  have one: "?f e j = add_mset (?t, d) (?f ?e j)"
    using m1(3) j by (simp add: visits_of_def)
  have rest: "?f e k = ?f ?e k" if "k \<noteq> j" for k
    using that by (simp add: visits_of_def)
  have "mset (column (Suc n) e d) = ?f e j + (\<Sum>k\<in>{..<length (symbols e)} - {j}. ?f e k)"
    unfolding mset_column using j by (simp add: sum.remove)
  also have "\<dots> = add_mset (?t, d) (?f ?e j + (\<Sum>k\<in>{..<length (symbols e)} - {j}. ?f ?e k))"
    unfolding one using rest by (simp cong: sum.cong_simp)
  also have "\<dots> = add_mset (?t, d) (mset (column (Suc n) ?e d))"
    unfolding mset_column using j by (simp add: sum.remove [of _ j])
  finally have col: "mset (column (Suc n) e d) = add_mset (?t, d) (mset (column (Suc n) ?e d))" .
  have ne': "queue ?e \<noteq> []" using ne by (metis length_0_conv length_fixHead length_list_update select_convs(3) surjective update_convs(3))
  show ?thesis
    by (rule that [OF eq ok' ready' _ _ _ walk' leave col]) (use ne' in simp_all)
qed

section \<open>The loop\<close>

lemma window_idle:
  assumes ok: "window_ok e" and ready: "window_ready e" and ne: "queue e \<noteq> []"
    and idx: "nextIdx e = int n" and head: "codedIdx (queue e ! 0) \<noteq> nextIdx e"
  shows "column (Suc n) e d = []" "window_at (Suc n) e e"
proof -
  have beyond: "int (Suc n) \<le> sint (lastIdx m)" if "m \<in> set (mappings e)" for m
  proof -
    from that obtain j where j: "j < length (symbols e)" "m = mappings e ! j"
      using ok by (auto simp: in_set_conv_nth window_ok_def)
    obtain q where q: "q \<in> set (queue e)" "sourceIdx q = j" using window_queue_covers [OF ok j(1)] by blast
    have "codedIdx (queue e ! 0) \<le> codedIdx q"
      using head_least [OF _ q(1)] ok by (simp add: window_ok_def)
    moreover have "codedIdx q = sint (lastIdx m)" using ok q j by (simp add: window_ok_def)
    moreover have "nextIdx e \<le> codedIdx (queue e ! 0)"
    proof -
      have "queue e ! 0 \<in> set (queue e)" using ne by simp
      with ok window_source [OF ok this] ready show ?thesis by (simp add: window_ok_def window_ready_def)
    qed
    ultimately show ?thesis using head idx by linarith
  qed
  then show "column (Suc n) e d = []"
    using ok by (auto simp: column_def visits_of_def window_ok_def walk_stopped(2))
  show "window_at (Suc n) e e"
    using ok beyond by (auto simp: window_at_def walk_stopped(3) intro: map_idI [symmetric])
qed

context symbol_laws
begin

lemma applyWindow_loop_spec:
  assumes "window_ok e" "window_ready e" "queue e \<noteq> []" "nextIdx e = int n" "n < 2 ^ 34"
    "window_walkable (Suc n) e"
  shows "\<exists>e'. applyWindow_loop T e cw d = Some (Inr (e', applyAll T (column (Suc n) e d) cw)) \<and>
              window_at (Suc n) e e' \<and> nextIdx e' = nextIdx e"
  using assms
proof (induction "length (column (Suc n) e d)" arbitrary: e cw rule: less_induct)
  case less
  show ?case
  proof (cases "codedIdx (queue e ! 0) = nextIdx e")
    case False
    then have "applyWindow_loop T e cw d = Some (Inr (e, cw))"
      by (subst applyWindow_loop.simps) simp
    then show ?thesis
      using window_idle [OF less.prems(1-4) False] by (intro exI [of _ e]) simp
  next
    case True
    obtain e1 j t where head: "applyHead T e cw d = Inr (e1, applySym T cw t d)"
      and e1: "window_ok e1" "window_ready e1" "queue e1 \<noteq> []" "nextIdx e1 = nextIdx e"
        "symbols e1 = symbols e" "window_walkable (Suc n) e1"
        "map (leave (Suc n)) (mappings e1) = map (leave (Suc n)) (mappings e)"
      and col: "mset (column (Suc n) e d) = add_mset (t, d) (mset (column (Suc n) e1 d))"
      by (rule applyHead_spec [OF less.prems(1-5) True less.prems(6), of T cw d]) blast
    have "length (column (Suc n) e1 d) < length (column (Suc n) e d)"
      using arg_cong [OF col, of size] by simp
    from less.hyps [OF this e1(1-3) _ less.prems(5) e1(6), of "applySym T cw t d"] e1(4) less.prems(4)
    obtain e' where e': "applyWindow_loop T e1 (applySym T cw t d) d =
          Some (Inr (e', applyAll T (column (Suc n) e1 d) (applySym T cw t d)))"
      "window_at (Suc n) e1 e'" "nextIdx e' = nextIdx e1" by auto
    have "applyAll T (column (Suc n) e1 d) (applySym T cw t d) = applyAll T ((t, d) # column (Suc n) e1 d) cw"
      by simp
    also have "\<dots> = applyAll T (column (Suc n) e d) cw"
      using col by (intro applyAll_mset) simp
    finally show ?thesis
      using True head e' e1 by (subst applyWindow_loop.simps) (auto simp: window_at_def)
  qed
qed

lemma applyWindow_spec:
  assumes ok: "window_ok e" and ready: "window_ready e" and idx: "nextIdx e = int n" and n: "n < 2 ^ 34"
    and walk: "window_walkable (Suc n) e"
  shows "\<exists>e'. applyWindow T e cw d = Some (Inr (e', applyAll T (column (Suc n) e d) cw)) \<and>
              window_at (Suc n) e e' \<and> nextIdx e' = int (Suc n) \<and> window_ready e'"
proof (cases "queue e = []")
  case True
  then have none: "symbols e = []" "mappings e = []"
    using window_length [OF ok] ok by (auto simp: window_ok_def)
  then show ?thesis
    using True ok idx
    by (auto simp: applyWindow_def window_at_def window_ok_def window_ready_def column_def)
next
  case False
  obtain e' where e': "applyWindow_loop T e cw d = Some (Inr (e', applyAll T (column (Suc n) e d) cw))"
    "window_at (Suc n) e e'" "nextIdx e' = nextIdx e"
    using applyWindow_loop_spec [OF ok ready False idx n walk] by blast
  let ?e = "e'\<lparr>nextIdx := nextIdx e' + 1\<rparr>"
  have "int (Suc n) \<le> sint (lastIdx (leave (Suc n) m))" if m: "m \<in> set (mappings e)" for m
    using that walk ready n idx
    by (intro walk_range(2)) (auto simp: window_walkable_def window_ready_def intro: order_trans)
  then have "window_ready ?e"
    using e'(2,3) idx by (auto simp: window_ready_def window_at_def add.commute)
  moreover have "window_at (Suc n) e ?e"
    using e'(2) by (auto simp: window_at_def window_ok_def)
  ultimately show ?thesis
    using False e' idx by (intro exI [of _ ?e]) (simp add: applyWindow_def)
qed

end

section \<open>The coded symbols of an encoder\<close>

text \<open>
  The specification of cell \<open>i\<close> among \<open>n\<close>: every symbol of the list is applied as often as its
  mapping, from the start, visits \<open>i\<close>.
\<close>

definition cell_updates :: "nat \<Rightarrow> nat \<Rightarrow> 'd HashedSymbol list \<Rightarrow> u64 \<Rightarrow> ('d HashedSymbol \<times> u64) list" where
  "cell_updates n i ss d =
     concat (map (\<lambda>s. replicate (count_list (visit n (freshMapping (Hash s))) i) (s, d)) ss)"

lemma count_list_none: "x \<notin> set xs \<Longrightarrow> count_list xs x = 0"
  by (induction xs) auto

lemma count_list_all: "set xs \<subseteq> {x} \<Longrightarrow> count_list xs x = length xs"
  by (induction xs) auto

lemma visit_count:
  assumes walk: "walkable n m" and m: "0 \<le> sint (lastIdx m)" and i: "i < n" and n: "n \<le> 2 ^ 34"
  shows "length (visit (Suc i) (leave i m)) = count_list (visit n m) i"
proof -
  have w1: "walkable i m" "walkable n (leave i m)" using walkable_less [OF walk, of i] i by simp_all
  have w2: "walkable (Suc i) (leave i m)" "walkable n (leave (Suc i) (leave i m))"
    using walkable_less [OF w1(2), of "Suc i"] i by simp_all
  have i34: "i \<le> 2 ^ 34" "Suc i \<le> 2 ^ 34" using i n by linarith+
  note r1 = walk_range [OF w1(1) m i34(1)]
  have m1: "0 \<le> sint (lastIdx (leave i m))" using r1(3) m by linarith
  note r2 = walk_range [OF w2(1) m1 i34(2)]
  have m2: "0 \<le> sint (lastIdx (leave (Suc i) (leave i m)))" using r2(3) m1 by linarith
  note r3 = walk_range [OF w2(2) m2 n]
  have eq: "visit n m = visit i m @ visit (Suc i) (leave i m) @ visit n (leave (Suc i) (leave i m))"
    using walk_append [OF w1(1) _ w1(2)] walk_append [OF w2(1) _ w2(2)] i by simp
  have "count_list (visit i m) i = 0" using r1(1) by (intro count_list_none) auto
  moreover have "set (visit (Suc i) (leave i m)) \<subseteq> {i}" using r2(1) r1(2) by fastforce
  then have "count_list (visit (Suc i) (leave i m)) i = length (visit (Suc i) (leave i m))"
    by (rule count_list_all)
  moreover have "count_list (visit n (leave (Suc i) (leave i m))) i = 0"
    using r3(1) r2(2) by (intro count_list_none) force
  ultimately show ?thesis unfolding eq by simp
qed

text \<open>An encoder that holds \<open>ss\<close> and has produced \<open>i\<close> coded symbols.\<close>

definition encoder_at :: "nat \<Rightarrow> 'd HashedSymbol list \<Rightarrow> 'd Encoder \<Rightarrow> bool" where
  "encoder_at i ss e \<longleftrightarrow>
     window_ok e \<and> window_ready e \<and> nextIdx e = int i \<and> symbols e = ss \<and>
     mappings e = map (\<lambda>s. leave i (freshMapping (Hash s))) ss"

lemma encoder_at_column:
  assumes "encoder_at i ss e" "\<forall>s\<in>set ss. walkable n (freshMapping (Hash s))" "i < n" "n \<le> 2 ^ 34"
  shows "column (Suc i) e d = cell_updates n i ss d"
proof -
  have "column (Suc i) e d =
        concat (map (\<lambda>s. replicate (length (visit (Suc i) (leave i (freshMapping (Hash s))))) (s, d)) ss)"
    using assms(1) unfolding column_def encoder_at_def visits_of_def
    by (intro arg_cong [where f = concat] nth_equalityI) auto
  also have "\<dots> = cell_updates n i ss d"
    unfolding cell_updates_def using assms
    by (intro arg_cong [where f = concat] map_cong refl) (simp add: visit_count [of n])
  finally show ?thesis .
qed

context symbol_laws
begin

lemma window_step:
  assumes at: "encoder_at i ss e" and walk: "\<forall>s\<in>set ss. walkable n (freshMapping (Hash s))"
    and i: "i < n" and n: "n \<le> 2 ^ 34"
  shows "\<exists>e'. applyWindow T e cw d = Some (Inr (e', applyAll T (cell_updates n i ss d) cw)) \<and>
              encoder_at (Suc i) ss e'"
proof -
  have w: "walkable i (freshMapping (Hash s)) \<and> walkable (Suc i) (leave i (freshMapping (Hash s)))"
    if "s \<in> set ss" for s
    using that walk i walkable_less [of n _ i] walkable_less [of n _ "Suc i"] by (meson Suc_leI order.strict_implies_order)
  have "window_walkable (Suc i) e"
    using at w by (auto simp: encoder_at_def window_walkable_def)
  then obtain e' where e': "applyWindow T e cw d = Some (Inr (e', applyAll T (column (Suc i) e d) cw))"
    "window_at (Suc i) e e'" "nextIdx e' = int (Suc i)" "window_ready e'"
    using applyWindow_spec [of e i] at i n by (auto simp: encoder_at_def)
  have "leave (Suc i) (leave i (freshMapping (Hash s))) = leave (Suc i) (freshMapping (Hash s))"
    if "s \<in> set ss" for s
    using w [OF that] walk_append(3) [of i "freshMapping (Hash s)" "Suc i"] by simp
  then have "encoder_at (Suc i) ss e'"
    using e' at by (auto simp: encoder_at_def window_at_def)
  then show ?thesis
    using e'(1) encoder_at_column [OF at walk i n] by auto
qed

lemma ProduceNext_spec:
  assumes "encoder_at i ss e" "\<forall>s\<in>set ss. walkable n (freshMapping (Hash s))" "i < n" "n \<le> 2 ^ 34"
  shows "\<exists>e'. ProduceNextCodedSymbol T e =
              Some (Inr (e', applyAll T (cell_updates n i ss add_dir) (emptyCoded T))) \<and>
              encoder_at (Suc i) ss e'"
  unfolding ProduceNextCodedSymbol_def by (rule window_step [OF assms])

lemma produceMany_spec:
  assumes "encoder_at i ss e" "\<forall>s\<in>set ss. walkable n (freshMapping (Hash s))" "i + k \<le> n" "n \<le> 2 ^ 34"
  shows "\<exists>e'. produceMany T k e =
              Some (Inr (e', map (\<lambda>i. applyAll T (cell_updates n i ss add_dir) (emptyCoded T)) [i..<i + k])) \<and>
              encoder_at (i + k) ss e'"
  using assms
proof (induction k arbitrary: i e)
  case 0
  then show ?case by auto
next
  case (Suc k)
  then obtain e1 where e1: "ProduceNextCodedSymbol T e =
        Some (Inr (e1, applyAll T (cell_updates n i ss add_dir) (emptyCoded T)))" "encoder_at (Suc i) ss e1"
    using ProduceNext_spec [of i ss e n] by auto
  from Suc.IH [OF e1(2) Suc.prems(2) _ Suc.prems(4)] Suc.prems(3) obtain e' where
    "produceMany T k e1 = Some (Inr (e', map (\<lambda>i. applyAll T (cell_updates n i ss add_dir) (emptyCoded T))
       [Suc i..<Suc i + k]))" "encoder_at (Suc i + k) ss e'" by auto
  moreover have "[i..<i + Suc k] = i # [Suc i..<Suc i + k]" by (simp add: upt_conv_Cons del: upt_Suc)
  ultimately show ?case using e1 by (auto simp del: upt_Suc)
qed

end

text \<open>Adding symbols to a fresh window gives an encoder at index 0.\<close>

lemma leave_0: "0 \<le> sint (lastIdx m) \<Longrightarrow> leave 0 m = m"
  by (rule walk_stopped) simp

lemma encoder_at_add:
  assumes "encoder_at 0 ss e"
  shows "encoder_at 0 (ss @ [s]) (addHashedSymbol e s)"
  using assms
  by (auto simp: encoder_at_def addHashedSymbol_def leave_0 freshMapping_def
           intro!: window_ok_add window_ready_add)

lemma encoder_at_fold: "encoder_at 0 ss (fold (\<lambda>s e. Encoder_AddHashedSymbol e s) ss emptyWindow)"
proof (induction ss rule: rev_induct)
  case Nil
  have "symbols emptyWindow = []" "mappings emptyWindow = []" "nextIdx emptyWindow = 0"
    by (simp_all add: emptyWindow_def)
  then show ?case by (simp add: encoder_at_def)
next
  case (snoc s ss)
  then show ?case by (simp add: Encoder_AddHashedSymbol_def encoder_at_add)
qed

end
