(* ===== verification/Riblt_Decoder.thy ===== *)
theory Riblt_Decoder
  imports Riblt_Window
begin

text \<open>
  \<open>riblt/decoder.go\<close> and \<open>Sketch.Decode\<close>: the peeling decoder. Received coded symbols carry
  a dirty flag; the indices of the flagged ones are queued in \<open>dirty\<close>, and the decoding
  loop grows that list while it runs through it. The fields \<open>local\<close>, \<open>window\<close> and \<open>remote\<close>
  of the source are \<open>localW\<close>, \<open>windowW\<close> and \<open>remoteW\<close>.
\<close>

section \<open>The state\<close>

record 'd receivedSymbol =
  rcoded :: "'d CodedSymbol"
  rdirty :: bool

record 'd Decoder =
  cs :: "'d receivedSymbol list"
  localW :: "'d codingWindow"
  windowW :: "'d codingWindow"
  remoteW :: "'d codingWindow"
  dirty :: "nat list"
  pending :: int

definition emptyDecoder :: "'d Decoder" where
  "emptyDecoder = \<lparr>cs = [], localW = emptyWindow, windowW = emptyWindow, remoteW = emptyWindow,
                   dirty = [], pending = 0\<rparr>"

definition Decoded :: "'d Decoder \<Rightarrow> bool" where
  "Decoded d \<longleftrightarrow> pending d = 0"

definition Local :: "'d Decoder \<Rightarrow> 'd HashedSymbol list" where
  "Local d = symbols (localW d)"

definition Remote :: "'d Decoder \<Rightarrow> 'd HashedSymbol list" where
  "Remote d = symbols (remoteW d)"

section \<open>Adding symbols and coded symbols\<close>

definition Decoder_AddHashedSymbol :: "'d Decoder \<Rightarrow> 'd HashedSymbol \<Rightarrow> 'd Decoder" where
  "Decoder_AddHashedSymbol d s = d\<lparr>windowW := addHashedSymbol (windowW d) s\<rparr>"

definition Decoder_AddSymbol :: "'d symbolOps \<Rightarrow> 'd Decoder \<Rightarrow> 'd \<Rightarrow> 'd Decoder" where
  "Decoder_AddSymbol T d s = (let th = \<lparr>Symbol = s, Hash = Hash_of T s\<rparr> in Decoder_AddHashedSymbol d th)"

text \<open>The test \<open>c.count >= -1 && c.count <= 1\<close>.\<close>

definition nearPure :: "'d CodedSymbol \<Rightarrow> bool" where
  "nearPure c \<longleftrightarrow> sint (count c) \<ge> - 1 \<and> sint (count c) \<le> 1"

definition AddCodedSymbol :: "'d symbolOps \<Rightarrow> 'd Decoder \<Rightarrow> 'd CodedSymbol \<Rightarrow> 'd Decoder run" where
  "AddCodedSymbol T d c =
     bindO (applyWindow T (windowW d) c remove_dir) (\<lambda>(w, c).
     bindO (applyWindow T (remoteW d) c remove_dir) (\<lambda>(r, c).
     bindO (applyWindow T (localW d) c add_dir) (\<lambda>(l, c).
       let d = d\<lparr>windowW := w, remoteW := r, localW := l\<rparr>
       in Some (Inr
         (if count c = 0 \<and> checksum c = 0 then d\<lparr>cs := cs d @ [\<lparr>rcoded = c, rdirty = False\<rparr>]\<rparr>
          else let d = (if nearPure c
                        then let d = d\<lparr>cs := cs d @ [\<lparr>rcoded = c, rdirty = True\<rparr>]\<rparr>
                             in d\<lparr>dirty := dirty d @ [length (cs d) - 1]\<rparr>
                        else d\<lparr>cs := cs d @ [\<lparr>rcoded = c, rdirty = False\<rparr>]\<rparr>)
               in d\<lparr>pending := pending d + 1\<rparr>)))))"

section \<open>Peeling\<close>

text \<open>One iteration of the loop of \<open>applyNewSymbol\<close>, at index \<open>cidx\<close>.\<close>

definition touch :: "'d symbolOps \<Rightarrow> 'd HashedSymbol \<Rightarrow> u64 \<Rightarrow> nat \<Rightarrow> 'd Decoder \<Rightarrow> 'd Decoder" where
  "touch T t direction cidx d =
     (let c = (cs d ! cidx)\<lparr>rcoded := applySym T (rcoded (cs d ! cidx)) t direction\<rparr>
      in if \<not> rdirty c \<and> nearPure (rcoded c)
         then d\<lparr>cs := (cs d)[cidx := c\<lparr>rdirty := True\<rparr>], dirty := dirty d @ [cidx]\<rparr>
         else d\<lparr>cs := (cs d)[cidx := c]\<rparr>)"

partial_function (option) applyNewSymbol_loop ::
  "'d symbolOps \<Rightarrow> 'd HashedSymbol \<Rightarrow> u64 \<Rightarrow> 'd Decoder \<Rightarrow> randomMapping \<Rightarrow> ('d Decoder \<times> randomMapping) run" where
  "applyNewSymbol_loop T t direction d m =
     (if sint (lastIdx m) < int (length (cs d))
      then let cidx = unat (lastIdx m)
           in if cidx \<ge> length (cs d) then Some (Inl IndexOutOfRange)
              else bindO (Some (nextIndex m))
                     (\<lambda>m'. applyNewSymbol_loop T t direction (touch T t direction cidx d) m')
      else Some (Inr (d, m)))"

definition applyNewSymbol ::
  "'d symbolOps \<Rightarrow> 'd Decoder \<Rightarrow> 'd HashedSymbol \<Rightarrow> u64 \<Rightarrow> ('d Decoder \<times> randomMapping) run" where
  "applyNewSymbol T d t direction = applyNewSymbol_loop T t direction d \<lparr>prng = Hash t, lastIdx = 0\<rparr>"

text \<open>The \<open>switch\<close> of \<open>TryDecode\<close>.\<close>

definition decodeCell :: "'d symbolOps \<Rightarrow> 'd Decoder \<Rightarrow> 'd CodedSymbol \<Rightarrow> 'd Decoder run" where
  "decodeCell T d c =
     (if count c = 1 then
        let h = Hash_of T (sum_of c) in
        if h = checksum c then
          let ns = \<lparr>Symbol = XOR_of T (default_of T) (sum_of c), Hash = h\<rparr> in
          bindO (applyNewSymbol T d ns remove_dir) (\<lambda>(d, m).
            Some (Inr (d\<lparr>remoteW := addHashedSymbolWithMapping (remoteW d) ns m, pending := pending d - 1\<rparr>)))
        else Some (Inr d)
      else if count c = -1 then
        let h = Hash_of T (sum_of c) in
        if h = checksum c then
          let ns = \<lparr>Symbol = XOR_of T (default_of T) (sum_of c), Hash = h\<rparr> in
          bindO (applyNewSymbol T d ns add_dir) (\<lambda>(d, m).
            Some (Inr (d\<lparr>localW := addHashedSymbolWithMapping (localW d) ns m, pending := pending d - 1\<rparr>)))
        else Some (Inr d)
      else if count c = 0 then
        if checksum c = 0 then Some (Inr (d\<lparr>pending := pending d - 1\<rparr>)) else Some (Inr d)
      else Some (Inr d))"

definition clearDirty :: "nat \<Rightarrow> 'd Decoder \<Rightarrow> 'd Decoder" where
  "clearDirty cidx d = d\<lparr>cs := (cs d)[cidx := (cs d ! cidx)\<lparr>rdirty := False\<rparr>]\<rparr>"

partial_function (option) TryDecode_loop :: "'d symbolOps \<Rightarrow> nat \<Rightarrow> 'd Decoder \<Rightarrow> 'd Decoder run" where
  "TryDecode_loop T didx d =
     (if didx < length (dirty d)
      then let cidx = dirty d ! didx
           in if cidx \<ge> length (cs d) then Some (Inl IndexOutOfRange)
              else bindO (decodeCell T d (rcoded (cs d ! cidx)))
                     (\<lambda>d'. TryDecode_loop T (didx + 1) (clearDirty cidx d'))
      else Some (Inr d))"

definition TryDecode :: "'d symbolOps \<Rightarrow> 'd Decoder \<Rightarrow> 'd Decoder run" where
  "TryDecode T d = bindO (TryDecode_loop T 0 d) (\<lambda>d. Some (Inr (d\<lparr>dirty := []\<rparr>)))"

definition Decoder_Reset :: "'d Decoder \<Rightarrow> 'd Decoder" where
  "Decoder_Reset d =
     d\<lparr>cs := if length (cs d) \<noteq> 0 then [] else cs d,
       dirty := if length (dirty d) \<noteq> 0 then [] else dirty d,
       localW := resetWindow (localW d),
       remoteW := resetWindow (remoteW d),
       windowW := resetWindow (windowW d),
       pending := 0\<rparr>"

section \<open>Decoding a sketch\<close>

fun addCodedSymbols :: "'d symbolOps \<Rightarrow> 'd Decoder \<Rightarrow> 'd CodedSymbol list \<Rightarrow> 'd Decoder run" where
  "addCodedSymbols T d [] = Some (Inr d)"
| "addCodedSymbols T d (c # s) = bindO (AddCodedSymbol T d c) (\<lambda>d'. addCodedSymbols T d' s)"

definition Sketch_Decode ::
  "'d symbolOps \<Rightarrow> 'd CodedSymbol list \<Rightarrow> ('d HashedSymbol list \<times> 'd HashedSymbol list \<times> bool) run" where
  "Sketch_Decode T s =
     bindO (addCodedSymbols T emptyDecoder s) (\<lambda>dec.
     bindO (TryDecode T dec) (\<lambda>dec.
       Some (Inr (Remote dec, Local dec, Decoded dec))))"

section \<open>Resetting\<close>

lemma Decoder_Reset_eq: "Decoder_Reset d = emptyDecoder"
  by (simp add: Decoder_Reset_def emptyDecoder_def resetWindow_eq)

section \<open>What applying a decoded symbol does\<close>

lemma touch_simps [simp]:
  "length (cs (touch T t dr i d)) = length (cs d)"
  "localW (touch T t dr i d) = localW d"
  "windowW (touch T t dr i d) = windowW d"
  "remoteW (touch T t dr i d) = remoteW d"
  "pending (touch T t dr i d) = pending d"
  by (simp_all add: touch_def Let_def)

lemma touch_fold_simps [simp]:
  "length (cs (fold (touch T t dr) is d)) = length (cs d)"
  "localW (fold (touch T t dr) is d) = localW d"
  "windowW (fold (touch T t dr) is d) = windowW d"
  "remoteW (fold (touch T t dr) is d) = remoteW d"
  "pending (fold (touch T t dr) is d) = pending d"
  by (induction "is" arbitrary: d) simp_all

lemma applyNewSymbol_loop_walk:
  assumes "walk (length (cs d)) m = Some (Inr (is, m'))"
  shows "applyNewSymbol_loop T t dr d m = Some (Inr (fold (touch T t dr) is d, m'))"
  using assms
proof (induction "is" arbitrary: m d)
  case Nil
  then show ?case by (subst applyNewSymbol_loop.simps) (simp add: walk_Nil_iff)
next
  case (Cons i "is")
  then obtain m1 where m1: "0 \<le> sint (lastIdx m)" "sint (lastIdx m) < int (length (cs d))"
    "i = nat (sint (lastIdx m))" "nextIndex m = Inr m1" "walk (length (cs d)) m1 = Some (Inr (is, m'))"
    by (auto simp: walk_Cons_iff)
  have i: "unat (lastIdx m) = i"
    using uint_sint_nonneg [OF m1(1)] m1(3) by (simp add: unat_eq_nat_uint)
  have lt: "i < length (cs d)" using m1(1-3) by linarith
  have "applyNewSymbol_loop T t dr (touch T t dr i d) m1 =
        Some (Inr (fold (touch T t dr) is (touch T t dr i d), m'))"
    using m1(5) by (intro Cons.IH) simp
  then show ?case
    using m1 lt by (subst applyNewSymbol_loop.simps) (simp add: i Let_def)
qed

lemma applyNewSymbol_walk:
  assumes "walkable (length (cs d)) (freshMapping (Hash t))"
  shows "applyNewSymbol T d t dr =
         Some (Inr (fold (touch T t dr) (visit (length (cs d)) (freshMapping (Hash t))) d,
                    leave (length (cs d)) (freshMapping (Hash t))))"
  using assms applyNewSymbol_loop_walk
  by (simp add: applyNewSymbol_def walkable_iff freshMapping_def)

text \<open>
  Cell by cell, for indices without repetition: the cell is updated once, and it is
  flagged and queued when it was not yet flagged and is now nearly pure.
\<close>

definition touched :: "'d symbolOps \<Rightarrow> 'd HashedSymbol \<Rightarrow> u64 \<Rightarrow> 'd receivedSymbol \<Rightarrow> 'd receivedSymbol" where
  "touched T t dr r =
     (let c = applySym T (rcoded r) t dr in \<lparr>rcoded = c, rdirty = rdirty r \<or> nearPure c\<rparr>)"

lemma cs_touch: "i < length (cs d) \<Longrightarrow> cs (touch T t dr i d) = (cs d)[i := touched T t dr (cs d ! i)]"
  by (cases "cs d ! i") (auto simp: touch_def touched_def Let_def)

lemma cs_touch_fold:
  "distinct is \<Longrightarrow> set is \<subseteq> {..<length (cs d)} \<Longrightarrow> j < length (cs d) \<Longrightarrow>
   cs (fold (touch T t dr) is d) ! j = (if j \<in> set is then touched T t dr (cs d ! j) else cs d ! j)"
  by (induction "is" arbitrary: d) (auto simp: cs_touch nth_list_update)

lemma dirty_touch_fold:
  "distinct is \<Longrightarrow> set is \<subseteq> {..<length (cs d)} \<Longrightarrow>
   dirty (fold (touch T t dr) is d) =
   dirty d @ filter (\<lambda>i. \<not> rdirty (cs d ! i) \<and> rdirty (touched T t dr (cs d ! i))) is"
proof (induction "is" arbitrary: d)
  case Nil
  then show ?case by simp
next
  case (Cons i "is")
  have "dirty (touch T t dr i d) =
        dirty d @ (if \<not> rdirty (cs d ! i) \<and> rdirty (touched T t dr (cs d ! i)) then [i] else [])"
    by (simp add: touch_def touched_def Let_def)
  moreover have "cs (touch T t dr i d) ! j = cs d ! j" if "j \<in> set is" for j
    using that Cons.prems by (auto simp: cs_touch nth_list_update)
  ultimately show ?case
    using Cons by (auto simp: cong: filter_cong)
qed

end
