(* ===== verification/Newsim_Coding.thy ===== *)
theory Newsim_Coding
  imports Newsim_Messages Riblt_Decoder "HOL-Library.Signed_Division"
begin

text \<open>
  \<open>newsim/coding.go\<close>: the rateless reconciliation protocol of one link, sender and
  receiver. The pointers \<open>*sender\<close> and \<open>*receiver\<close> of \<open>coding\<close> are options (a nil pointer is
  \<open>None\<close>); each is referenced by one handler only. \<open>RNG.Perm\<close> and \<open>RNG.Uint64\<close> are
  arguments of \<open>connectCodingServers\<close>.
\<close>

section \<open>The shard of a block\<close>

text \<open>The condition that both ends evaluate for a symbol of their buffer.\<close>

definition inShard :: "u64 \<Rightarrow> u64 \<Rightarrow> u64 \<Rightarrow> bool" where
  "inShard start stop shardHash \<longleftrightarrow>
     start < stop \<and> shardHash \<ge> start \<and> shardHash < stop \<or>
     start \<ge> stop \<and> (shardHash \<ge> start \<or> shardHash < stop)"

text \<open>
  The loop that moves the symbols of the shard out of the buffer: a moved entry is
  replaced by the last one. \<open>add\<close> is what the end does with a moved symbol.
\<close>

function moveShard ::
  "('s \<Rightarrow> txSymbol \<Rightarrow> 's) \<Rightarrow> u64 \<Rightarrow> u64 \<Rightarrow> u64 \<Rightarrow> txSymbol list \<Rightarrow> nat \<Rightarrow> 's \<Rightarrow> txSymbol list \<times> 's" where
  "moveShard add start stop randomizer buffer tidx s =
     (if tidx < length buffer
      then let v = buffer ! tidx; shardHash = Hash v * randomizer
           in if inShard start stop shardHash
              then let l = length buffer - 1; buffer = buffer[tidx := buffer ! l]
                   in moveShard add start stop randomizer (take l buffer) tidx (add s v)
              else moveShard add start stop randomizer buffer (tidx + 1) s
      else (buffer, s))"
  by pat_completeness auto
termination
  by (relation "measure (\<lambda>(add, start, stop, rd, buffer, tidx, s). length buffer - tidx)") auto

declare moveShard.simps [simp del]

section \<open>The sender\<close>

record senderConfig =
  controlOverhead :: float64
  numShards :: int

record sender =
  sbuffer :: "txSymbol list"
  sencoder :: "transaction Encoder"
  sendWindow :: float64
  inFlight :: int
  encodingCurrentBlock :: bool
  currentBlockAckCount :: int
  receivingCurrentBlock :: bool
  soutbox :: "payload list"
  sconfig :: senderConfig
  shardSchedule :: "int list"
  sRandomizer :: u64
  nextShard :: int

text \<open>A Go slice read at an \<open>int\<close>.\<close>

definition getInt :: "'a list \<Rightarrow> int \<Rightarrow> 'a result" where
  "getInt xs i = (if i < 0 then Inl IndexOutOfRange else get xs (nat i))"

definition atLeastOne :: "float64 \<Rightarrow> float64" where
  "atLeastOne x = (if f_less x (Fin 1) then Fin 1 else x)"

text \<open>The part of \<open>tryProduceCodeword\<close> that starts the next block.\<close>

definition startBlock :: "sender \<Rightarrow> (sender \<times> codeword \<times> int) result" where
  "startBlock n =
     (let k = length (shardSchedule n) in
      if k = 0 then Inl DivideByZero
      else
        let shardSize = (- 1 :: u64) div of_nat k in
        bindR (getInt (shardSchedule n) (nextShard n)) (\<lambda>sh.
          let cw = zeroCodeword\<lparr>newBlock := True,
                     startHash := word_of_int sh * shardSize,
                     endHash := word_of_int ((sh + 1) smod int k) * shardSize\<rparr>;
              (buffer, enc) = moveShard Encoder_AddHashedSymbol (startHash cw) (endHash cw) (sRandomizer n)
                                (sbuffer n) 0 (Encoder_Reset (sencoder n));
              burstSize = (currentBlockAckCount n * 2) sdiv 3
          in Inr (n\<lparr>sbuffer := buffer, sencoder := enc,
                    nextShard := (nextShard n + 1) smod int k,
                    encodingCurrentBlock := True,
                    sendWindow := atLeastOne (f_mul (f_of_int (currentBlockAckCount n)) (controlOverhead (sconfig n))),
                    currentBlockAckCount := 0,
                    inFlight := 0\<rparr>, cw, burstSize)))"

definition tryProduceCodeword ::
  "transaction symbolOps \<Rightarrow> sender \<Rightarrow> (sender \<times> codeword \<times> bool \<times> int) run" where
  "tryProduceCodeword T n =
     bindO (Some (if \<not> encodingCurrentBlock n then startBlock n else Inr (n, zeroCodeword, 0)))
       (\<lambda>(n, cw, burstSize).
         if f_less (f_of_int (inFlight n)) (sendWindow n)
         then bindO (ProduceNextCodedSymbol T (sencoder n)) (\<lambda>(enc, c).
                Some (Inr (n\<lparr>sencoder := enc\<rparr>, cw\<lparr>CodedSymbol_of := c\<rparr>, True, burstSize)))
         else Some (Inr (n, cw, False, burstSize)))"

text \<open>The inner loop of \<open>tryFillSendWindow\<close>.\<close>

definition sendPlain :: "transaction symbolOps \<Rightarrow> sender \<Rightarrow> sender run" where
  "sendPlain T n =
     bindO (ProduceNextCodedSymbol T (sencoder n)) (\<lambda>(enc, c).
       let cw = zeroCodeword\<lparr>CodedSymbol_of := c\<rparr>
       in Some (Inr (n\<lparr>sencoder := enc, soutbox := soutbox n @ [CodewordMsg cw], inFlight := inFlight n + 1\<rparr>)))"

fun sendBurst :: "transaction symbolOps \<Rightarrow> nat \<Rightarrow> sender \<Rightarrow> sender run" where
  "sendBurst T 0 n = Some (Inr n)"
| "sendBurst T (Suc i) n = bindO (sendPlain T n) (sendBurst T i)"

partial_function (option) tryFillSendWindow :: "transaction symbolOps \<Rightarrow> sender \<Rightarrow> sender run" where
  "tryFillSendWindow T n =
     bindO (tryProduceCodeword T n) (\<lambda>(n, cw, yes, burst).
       if \<not> yes then Some (Inr n)
       else bindO (sendBurst T (nat burst)
                    (n\<lparr>soutbox := soutbox n @ [CodewordMsg cw], inFlight := inFlight n + 1\<rparr>))
              (\<lambda>n. tryFillSendWindow T n))"

definition sender_onAck :: "transaction symbolOps \<Rightarrow> sender \<Rightarrow> ack \<Rightarrow> (sender \<times> txSymbol list) run" where
  "sender_onAck T n a =
     (let n = (if ackBlock a then n\<lparr>encodingCurrentBlock := False, receivingCurrentBlock := False\<rparr> else n);
          n = (if ackStart a then n\<lparr>currentBlockAckCount := 0, receivingCurrentBlock := True\<rparr> else n);
          n = (if receivingCurrentBlock n
               then n\<lparr>currentBlockAckCount := currentBlockAckCount n + 1,
                      inFlight := inFlight n - 1,
                      sendWindow := atLeastOne (f_add (sendWindow n) (controlOverhead (sconfig n)))\<rparr>
               else n)
      in bindO (tryFillSendWindow T n) (\<lambda>n. Some (Inr (n, txs_of a))))"

definition sender_onTransaction :: "transaction symbolOps \<Rightarrow> sender \<Rightarrow> txSymbol \<Rightarrow> sender run" where
  "sender_onTransaction T n tx = tryFillSendWindow T (n\<lparr>sbuffer := sbuffer n @ [tx]\<rparr>)"

section \<open>The receiver\<close>

record receiver =
  rdecoder :: "transaction Decoder"
  rbuffer :: "txSymbol list"
  currentBlockReceived :: bool
  currentBlockSize :: int
  currentBlockCount :: int
  rRandomizer :: u64
  routbox :: "payload list"

definition receiver_onCodeword ::
  "transaction symbolOps \<Rightarrow> receiver \<Rightarrow> codeword \<Rightarrow> (receiver \<times> txSymbol list \<times> bool) run" where
  "receiver_onCodeword T n cw =
     (if currentBlockReceived n \<and> \<not> newBlock cw then Some (Inr (n, [], False))
      else
        let a = \<lparr>ackBlock = False, ackStart = newBlock cw, txs_of = []\<rparr>;
            n = (if newBlock cw
                 then let (buffer, dec) = moveShard Decoder_AddHashedSymbol (startHash cw) (endHash cw)
                                            (rRandomizer n) (rbuffer n) 0 (rdecoder n)
                      in n\<lparr>currentBlockReceived := False, currentBlockCount := 0,
                           rbuffer := buffer, rdecoder := dec\<rparr>
                 else n)
        in bindO (AddCodedSymbol T (rdecoder n) (CodedSymbol_of cw)) (\<lambda>dec.
           bindO (TryDecode T dec) (\<lambda>dec.
             let n = n\<lparr>rdecoder := dec, currentBlockCount := currentBlockCount n + 1\<rparr>
             in if Decoded dec
                then let a = a\<lparr>ackBlock := True, txs_of := Local dec\<rparr>; res = Remote dec
                     in Some (Inr (n\<lparr>currentBlockReceived := True, routbox := routbox n @ [AckMsg a],
                                     rdecoder := Decoder_Reset dec\<rparr>, res, True))
                else Some (Inr (n\<lparr>routbox := routbox n @ [AckMsg a]\<rparr>, [], False)))))"

definition receiver_onTransaction :: "receiver \<Rightarrow> txSymbol \<Rightarrow> receiver" where
  "receiver_onTransaction n tx = n\<lparr>rbuffer := rbuffer n @ [tx]\<rparr>"

section \<open>The handler of a link\<close>

record coding =
  csender :: "sender option"
  creceiver :: "receiver option"

definition coding_collect :: "coding \<Rightarrow> serverId \<Rightarrow> duration \<Rightarrow> outMsg list \<Rightarrow> coding \<times> outMsg list" where
  "coding_collect c peer delay outbox =
     (let msg = (\<lambda>p. \<lparr>Payload = p, To = Some peer, Delay = delay\<rparr>);
          (c, outbox) = (case csender c of None \<Rightarrow> (c, outbox)
            | Some s \<Rightarrow> (c\<lparr>csender := Some (s\<lparr>soutbox := []\<rparr>)\<rparr>, outbox @ map msg (soutbox s)))
      in case creceiver c of None \<Rightarrow> (c, outbox)
           | Some r \<Rightarrow> (c\<lparr>creceiver := Some (r\<lparr>routbox := []\<rparr>)\<rparr>, outbox @ map msg (routbox r)))"

definition coding_forward :: "transaction symbolOps \<Rightarrow> coding \<Rightarrow> txSymbol \<Rightarrow> coding run" where
  "coding_forward T c tx =
     bindO (case csender c of None \<Rightarrow> Some (Inr c)
              | Some s \<Rightarrow> bindO (sender_onTransaction T s tx) (\<lambda>s. Some (Inr (c\<lparr>csender := Some s\<rparr>))))
       (\<lambda>c. case creceiver c of None \<Rightarrow> Some (Inr c)
              | Some r \<Rightarrow> Some (Inr (c\<lparr>creceiver := Some (receiver_onTransaction r tx)\<rparr>)))"

definition coding_handle :: "transaction symbolOps \<Rightarrow> coding \<Rightarrow> payload \<Rightarrow> (coding \<times> txSymbol list) run" where
  "coding_handle T c msg =
     (case msg of
        CodewordMsg m \<Rightarrow>
          (case creceiver c of None \<Rightarrow> Some (Inr (c, []))
             | Some r \<Rightarrow> bindO (receiver_onCodeword T r m) (\<lambda>(r, remote, decoded).
                 Some (Inr (c\<lparr>creceiver := Some r\<rparr>, if decoded then remote else []))))
      | AckMsg m \<Rightarrow>
          (case csender c of None \<Rightarrow> Some (Inr (c, []))
             | Some s \<Rightarrow> bindO (sender_onAck T s m) (\<lambda>(s, decoded). Some (Inr (c\<lparr>csender := Some s\<rparr>, decoded))))
      | _ \<Rightarrow> Some (Inl (Panic ''unknown message type'')))"

end
