(* ===== verification/Newsim_Server.thy ===== *)
theory Newsim_Server
  imports Newsim_Coding
begin

text \<open>
  \<open>newsim/pull.go\<close>, \<open>newsim/module.go\<close> and the connection of servers: the announce, request
  and response protocol, and the server that runs either algorithm towards each peer. The
  interface \<open>algorithm\<close> of the source is the datatype \<open>algo\<close> of its two implementations; a
  \<open>*server\<close> is its number, and the state of all servers with the global \<open>txgen\<close> is \<open>world\<close>.
  The quantile sketch of \<open>latencySketch\<close> is a third-party package: its \<open>Add\<close> is a parameter.
\<close>

section \<open>The pull protocol\<close>

record pull =
  known :: "u64 \<rightharpoonup> txSymbol"
  poutbox :: "payload list"

definition pull_collect :: "pull \<Rightarrow> serverId \<Rightarrow> duration \<Rightarrow> outMsg list \<Rightarrow> pull \<times> outMsg list" where
  "pull_collect c peer delay outbox =
     (c\<lparr>poutbox := []\<rparr>, outbox @ map (\<lambda>p. \<lparr>Payload = p, To = Some peer, Delay = delay\<rparr>) (poutbox c))"

definition pull_forward :: "pull \<Rightarrow> txSymbol \<Rightarrow> pull" where
  "pull_forward c tx = c\<lparr>known := (known c)(Hash tx \<mapsto> tx), poutbox := poutbox c @ [Announce (Hash tx)]\<rparr>"

definition pull_handle :: "pull \<Rightarrow> payload \<Rightarrow> (pull \<times> txSymbol list) result" where
  "pull_handle c msg =
     (case msg of
        Announce h \<Rightarrow>
          Inr (if known c h = None then c\<lparr>poutbox := poutbox c @ [Request h]\<rparr> else c, [])
      | Request h \<Rightarrow>
          Inr (c\<lparr>poutbox := poutbox c @ [Response (case known c h of None \<Rightarrow> zeroSymbol | Some tx \<Rightarrow> tx)]\<rparr>, [])
      | Response tx \<Rightarrow> Inr (c\<lparr>known := (known c)(Hash tx \<mapsto> tx)\<rparr>, [tx])
      | _ \<Rightarrow> Inl (Panic ''unknown message type''))"

section \<open>Servers\<close>

record serverMetric =
  decodedTransactions :: int
  receivedTransactions :: int
  duplicateTransactions :: int
  receivedBytes :: int

definition resetMetric :: "serverMetric \<Rightarrow> serverMetric" where
  "resetMetric s = \<lparr>decodedTransactions = 0, receivedTransactions = 0, duplicateTransactions = 0, receivedBytes = 0\<rparr>"

record serverConfig =
  blockArrivalIntv :: float64
  blockArrivalBurst :: int
  initialFlood :: bool

datatype algo = CodingAlgo coding | PullAlgo pull

record peer =
  algorithm :: algo
  pdelay :: duration

record distributionSketch =
  warmup :: duration
  recorded :: "float64 list"

text \<open>\<open>rngCount\<close> is how many samples the server has drawn from its \<open>rng\<close>.\<close>

record server =
  handlers :: "serverId \<rightharpoonup> peer"
  peers :: "serverId list"
  rngCount :: nat
  config :: serverConfig
  latencySketch :: "distributionSketch option"
  metric :: serverMetric
  received :: "u64 set"

text \<open>
  The environment: \<open>siphash\<close>, the global \<open>TXSIZE\<close>, and the samples that \<open>rng.ExpFloat64\<close> of
  each server returns.
\<close>

record environment =
  env_sip :: siphash
  env_TXSIZE :: int
  env_exp :: "serverId \<Rightarrow> nat \<Rightarrow> float64"

definition env_ops :: "environment \<Rightarrow> transaction symbolOps" where
  "env_ops env = transactionOps (env_sip env)"

definition algo_collect :: "algo \<Rightarrow> serverId \<Rightarrow> duration \<Rightarrow> outMsg list \<Rightarrow> algo \<times> outMsg list" where
  "algo_collect a p delay outbox =
     (case a of CodingAlgo c \<Rightarrow> map_prod CodingAlgo id (coding_collect c p delay outbox)
              | PullAlgo c \<Rightarrow> map_prod PullAlgo id (pull_collect c p delay outbox))"

definition algo_forward :: "transaction symbolOps \<Rightarrow> algo \<Rightarrow> txSymbol \<Rightarrow> algo run" where
  "algo_forward T a tx =
     (case a of CodingAlgo c \<Rightarrow> bindO (coding_forward T c tx) (\<lambda>c. Some (Inr (CodingAlgo c)))
              | PullAlgo c \<Rightarrow> Some (Inr (PullAlgo (pull_forward c tx))))"

definition algo_handle :: "transaction symbolOps \<Rightarrow> algo \<Rightarrow> payload \<Rightarrow> (algo \<times> txSymbol list) run" where
  "algo_handle T a msg =
     (case a of CodingAlgo c \<Rightarrow> bindO (coding_handle T c msg) (\<lambda>(c, txs). Some (Inr (CodingAlgo c, txs)))
              | PullAlgo c \<Rightarrow> bindO (Some (pull_handle c msg)) (\<lambda>(c, txs). Some (Inr (PullAlgo c, txs))))"

text \<open>A call on the handler of a peer: a peer without an entry has a nil algorithm.\<close>

definition withPeer :: "server \<Rightarrow> serverId \<Rightarrow> (peer \<Rightarrow> ('a \<times> algo) run) \<Rightarrow> ('a \<times> server) run" where
  "withPeer s p f =
     (case handlers s p of None \<Rightarrow> Some (Inl NilDereference)
        | Some h \<Rightarrow> bindO (f h) (\<lambda>(x, a). Some (Inr (x, s\<lparr>handlers := (handlers s)(p \<mapsto> h\<lparr>algorithm := a\<rparr>)\<rparr>))))"

fun server_collect_from :: "serverId list \<Rightarrow> server \<Rightarrow> outMsg list \<Rightarrow> (server \<times> outMsg list) run" where
  "server_collect_from [] s outbox = Some (Inr (s, outbox))"
| "server_collect_from (p # ps) s outbox =
     bindO (withPeer s p (\<lambda>h. let (a, out) = algo_collect (algorithm h) p (pdelay h) outbox in Some (Inr (out, a))))
       (\<lambda>(outbox, s). server_collect_from ps s outbox)"

definition server_collect :: "server \<Rightarrow> outMsg list \<Rightarrow> (server \<times> outMsg list) run" where
  "server_collect s outbox = server_collect_from (peers s) s outbox"

fun server_forward_to ::
  "transaction symbolOps \<Rightarrow> serverId list \<Rightarrow> server \<Rightarrow> txSymbol \<Rightarrow> serverId option \<Rightarrow> server run" where
  "server_forward_to T [] s tx exclude = Some (Inr s)"
| "server_forward_to T (p # ps) s tx exclude =
     bindO (if Some p \<noteq> exclude
            then bindO (withPeer s p (\<lambda>h. bindO (algo_forward T (algorithm h) tx) (\<lambda>a. Some (Inr ((), a)))))
                   (\<lambda>(_, s). Some (Inr s))
            else Some (Inr s))
       (\<lambda>s. server_forward_to T ps s tx exclude)"

definition server_forward ::
  "transaction symbolOps \<Rightarrow> server \<Rightarrow> txSymbol \<Rightarrow> serverId option \<Rightarrow> server run" where
  "server_forward T s tx exclude = server_forward_to T (peers s) s tx exclude"

text \<open>\<open>recordRaw\<close> and \<open>recordTxLatency\<close>; \<open>seconds\<close> is \<open>Duration.Seconds\<close>.\<close>

definition recordRaw :: "distributionSketch option \<Rightarrow> float64 \<Rightarrow> duration \<Rightarrow> distributionSketch option" where
  "recordRaw t d tp =
     (case t of None \<Rightarrow> None
        | Some sk \<Rightarrow> Some (if sint (warmup sk) > sint tp then sk else sk\<lparr>recorded := recorded sk @ [d]\<rparr>))"

definition recordTxLatency :: "distributionSketch option \<Rightarrow> transaction \<Rightarrow> duration \<Rightarrow> distributionSketch option" where
  "recordTxLatency t tx tp =
     (case t of None \<Rightarrow> None
        | Some sk \<Rightarrow>
            if sint (warmup sk) > sint tp then Some sk
            else let latency = f_sub (seconds tp) (seconds (ts tx))
                 in Some (sk\<lparr>recorded := recorded sk @ [latency]\<rparr>))"

text \<open>What a server does with a transaction that reaches it.\<close>

definition acceptTx ::
  "transaction symbolOps \<Rightarrow> serverId option \<Rightarrow> duration \<Rightarrow> txSymbol \<Rightarrow> server \<Rightarrow> server run" where
  "acceptTx T from timestamp tx s =
     (if idx (Symbol tx) \<notin> received s then
        bindO (server_forward T (s\<lparr>latencySketch := recordTxLatency (latencySketch s) (Symbol tx) timestamp\<rparr>) tx from)
          (\<lambda>s. Some (Inr (s\<lparr>received := insert (idx (Symbol tx)) (received s),
                 metric := (metric s)\<lparr>decodedTransactions := decodedTransactions (metric s) + 1,
                                     receivedTransactions := receivedTransactions (metric s) + 1\<rparr>\<rparr>)))
      else Some (Inr (s\<lparr>metric := (metric s)\<lparr>duplicateTransactions := duplicateTransactions (metric s) + 1\<rparr>\<rparr>)))"

fun acceptAll ::
  "transaction symbolOps \<Rightarrow> serverId option \<Rightarrow> duration \<Rightarrow> txSymbol list \<Rightarrow> server \<Rightarrow> server run" where
  "acceptAll T from timestamp [] s = Some (Inr s)"
| "acceptAll T from timestamp (tx # txs) s =
     bindO (acceptTx T from timestamp tx s) (acceptAll T from timestamp txs)"

text \<open>One generated transaction of a block arrival.\<close>

definition floodOne :: "server \<Rightarrow> txSymbol \<Rightarrow> outMsg list" where
  "floodOne s hashed =
     map (\<lambda>p. \<lparr>Payload = InitialBroadcast hashed, To = Some p,
               Delay = (case handlers s p of None \<Rightarrow> 0 | Some h \<Rightarrow> pdelay h)\<rparr>) (peers s)"

definition arriveOne ::
  "transaction symbolOps \<Rightarrow> duration \<Rightarrow> transactionGenerator \<Rightarrow> server \<Rightarrow> outMsg list \<Rightarrow>
   (transactionGenerator \<times> server \<times> outMsg list) run" where
  "arriveOne T timestamp txgen s outbox =
     (let (txgen, tx) = generate txgen timestamp; hashed = hashSymbol T tx in
      bindO (if initialFlood (config s) then Some (Inr (s, outbox @ floodOne s hashed))
             else bindO (server_forward T s hashed None) (\<lambda>s. Some (Inr (s, outbox))))
        (\<lambda>(s, outbox).
          Some (Inr (txgen,
                     s\<lparr>received := insert (idx tx) (received s),
                       metric := (metric s)\<lparr>receivedTransactions := receivedTransactions (metric s) + 1\<rparr>\<rparr>,
                     outbox))))"

fun arriveMany ::
  "transaction symbolOps \<Rightarrow> duration \<Rightarrow> nat \<Rightarrow> transactionGenerator \<Rightarrow> server \<Rightarrow> outMsg list \<Rightarrow>
   (transactionGenerator \<times> server \<times> outMsg list) run" where
  "arriveMany T timestamp 0 txgen s outbox = Some (Inr (txgen, s, outbox))"
| "arriveMany T timestamp (Suc n) txgen s outbox =
     bindO (arriveOne T timestamp txgen s outbox) (\<lambda>(txgen, s, outbox). arriveMany T timestamp n txgen s outbox)"

text \<open>\<open>time.Duration(s.rng.ExpFloat64() / s.blockArrivalIntv)\<close>.\<close>

definition nextArrival :: "environment \<Rightarrow> serverId \<Rightarrow> server \<Rightarrow> (server \<times> duration) result" where
  "nextArrival env me s =
     bindR (f_to_int (f_div (env_exp env me (rngCount s)) (blockArrivalIntv (config s))))
       (\<lambda>i. Inr (s\<lparr>rngCount := rngCount s + 1\<rparr>, word_of_int i))"

definition server_handle ::
  "environment \<Rightarrow> serverId \<Rightarrow> payload \<Rightarrow> serverId option \<Rightarrow> duration \<Rightarrow> transactionGenerator \<Rightarrow> server \<Rightarrow>
   (transactionGenerator \<times> server \<times> outMsg list) run" where
  "server_handle env me pl from timestamp txgen s =
     (let T = env_ops env in
      bindO
        (case pl of
           BlockArrival n \<Rightarrow>
             bindO (arriveMany T timestamp (nat n) txgen s []) (\<lambda>(txgen, s, outbox).
             bindO (Some (nextArrival env me s)) (\<lambda>(s, intv).
               Some (Inr (txgen, s, outbox @ [\<lparr>Payload = BlockArrival (blockArrivalBurst (config s)),
                                               To = None, Delay = intv\<rparr>]))))
         | _ \<Rightarrow>
             bindO (case pl of
                      InitialBroadcast tx \<Rightarrow> acceptTx T from timestamp tx s
                    | _ \<Rightarrow>
                        (case from of None \<Rightarrow> Some (Inl NilDereference)
                         | Some p \<Rightarrow>
                             bindO (withPeer s p (\<lambda>h. bindO (algo_handle T (algorithm h) pl)
                                                        (\<lambda>(a, decoded). Some (Inr (decoded, a)))))
                               (\<lambda>(decoded, s). acceptAll T from timestamp decoded s)))
               (\<lambda>s. Some (Inr (txgen,
                      s\<lparr>metric := (metric s)\<lparr>receivedBytes := receivedBytes (metric s) + size_of (env_TXSIZE env) pl\<rparr>\<rparr>,
                      []))))
        (\<lambda>(txgen, s, outbox).
          bindO (server_collect s outbox) (\<lambda>(s, outbox). Some (Inr (txgen, s, outbox)))))"

section \<open>The world of all servers\<close>

record world =
  servers :: "server list"
  txgen :: transactionGenerator

definition world_handle :: "environment \<Rightarrow> (world, payload, serverId) handler" where
  "world_handle env m p from t w =
     (if m < length (servers w) then
        bindO (server_handle env m p from t (txgen w) (servers w ! m)) (\<lambda>(g, s, out).
          Some (Inr (w\<lparr>servers := (servers w)[m := s], txgen := g\<rparr>, out)))
      else Some (Inl NilDereference))"

definition zeroMetric :: serverMetric where
  "zeroMetric = \<lparr>decodedTransactions = 0, receivedTransactions = 0, duplicateTransactions = 0, receivedBytes = 0\<rparr>"

definition freshServer :: "serverConfig \<Rightarrow> server" where
  "freshServer cfg =
     \<lparr>handlers = Map.empty, peers = [], rngCount = 0, config = cfg, latencySketch = None,
      metric = zeroMetric, received = {}\<rparr>"

fun newServers ::
  "environment \<Rightarrow> serverConfig \<Rightarrow> nat \<Rightarrow> nat \<Rightarrow> (payload, serverId) Simulator \<Rightarrow> server list \<Rightarrow>
   ((payload, serverId) Simulator \<times> server list) result" where
  "newServers env cfg 0 i sim res = Inr (sim, res)"
| "newServers env cfg (Suc n) i sim res =
     bindR (nextArrival env i (freshServer cfg)) (\<lambda>(s, intv).
       newServers env cfg n (Suc i)
         (ScheduleMessage sim \<lparr>Payload = BlockArrival (blockArrivalBurst cfg), To = None, Delay = intv\<rparr> (Some i))
         (res @ [s]))"

definition addPeer :: "serverId \<Rightarrow> algo \<Rightarrow> duration \<Rightarrow> server \<Rightarrow> server" where
  "addPeer p a delay s = s\<lparr>handlers := (handlers s)(p \<mapsto> \<lparr>algorithm = a, pdelay = delay\<rparr>), peers := peers s @ [p]\<rparr>"

definition connectPullServers :: "serverId \<Rightarrow> serverId \<Rightarrow> duration \<Rightarrow> server list \<Rightarrow> server list" where
  "connectPullServers a b delay ss =
     (let fresh = PullAlgo \<lparr>known = Map.empty, poutbox = []\<rparr>;
          ss = ss[a := addPeer b fresh delay (ss ! a)]
      in ss[b := addPeer a fresh delay (ss ! b)])"

definition connectCodingServers ::
  "u64 \<Rightarrow> int list \<Rightarrow> serverId \<Rightarrow> serverId \<Rightarrow> duration \<Rightarrow> senderConfig \<Rightarrow> server list \<Rightarrow> server list" where
  "connectCodingServers randomizer perm a b delay cfg ss =
     (let snd = \<lparr>sbuffer = [], sencoder = emptyWindow, sendWindow = Fin 1, inFlight = 0,
                 encodingCurrentBlock = False, currentBlockAckCount = 0, receivingCurrentBlock = False,
                 soutbox = [], sconfig = cfg, shardSchedule = perm, sRandomizer = randomizer, nextShard = 0\<rparr>;
          rcv = \<lparr>rdecoder = emptyDecoder, rbuffer = [], currentBlockReceived = False, currentBlockSize = 0,
                 currentBlockCount = 0, rRandomizer = randomizer, routbox = []\<rparr>;
          ss = ss[a := addPeer b (CodingAlgo \<lparr>csender = Some snd, creceiver = None\<rparr>) delay (ss ! a)]
      in ss[b := addPeer a (CodingAlgo \<lparr>csender = None, creceiver = Some rcv\<rparr>) delay (ss ! b)])"

section \<open>Setting up a simulation\<close>

text \<open>
  \<open>connection\<close> of \<open>topology.go\<close>, and the part of \<open>main\<close> that builds the network: the servers,
  their latency sketches, and a link for every line of the topology. The slice indices of
  the source are checked, the algorithm is \<open>pull\<close> or \<open>coding\<close>; \<open>draws\<close> are the samples that
  \<open>RNG.Uint64\<close> and \<open>RNG.Perm\<close> return for each coding link.
\<close>

record connection =
  conn_a :: serverId
  conn_b :: serverId
  conn_delay :: duration

fun connectAllPull :: "connection list \<Rightarrow> server list \<Rightarrow> server list result" where
  "connectAllPull [] ss = Inr ss"
| "connectAllPull (c # conns) ss =
     (if conn_a c \<ge> length ss \<or> conn_b c \<ge> length ss then Inl IndexOutOfRange
      else connectAllPull conns (connectPullServers (conn_a c) (conn_b c) (conn_delay c) ss))"

fun connectAllCoding ::
  "senderConfig \<Rightarrow> (nat \<Rightarrow> u64 \<times> int list) \<Rightarrow> nat \<Rightarrow> connection list \<Rightarrow> server list \<Rightarrow> server list result" where
  "connectAllCoding cfg draws k [] ss = Inr ss"
| "connectAllCoding cfg draws k (c # conns) ss =
     (if conn_a c \<ge> length ss \<or> conn_b c \<ge> length ss then Inl IndexOutOfRange
      else connectAllCoding cfg draws (Suc k) conns
             (connectCodingServers (fst (draws k)) (snd (draws k)) (conn_a c) (conn_b c) (conn_delay c) cfg ss))"

definition setupPull ::
  "environment \<Rightarrow> serverConfig \<Rightarrow> duration \<Rightarrow> connection list \<Rightarrow> nat \<Rightarrow>
   ((payload, serverId) Simulator \<times> world) result" where
  "setupPull env cfg warm topo n =
     bindR (newServers env cfg n 0 emptySimulator []) (\<lambda>(sim, ss).
       let ss = map (\<lambda>s. s\<lparr>latencySketch := Some \<lparr>warmup = warm, recorded = []\<rparr>\<rparr>) ss
       in bindR (connectAllPull topo ss) (\<lambda>ss. Inr (sim, \<lparr>servers = ss, txgen = \<lparr>last_of = 0\<rparr>\<rparr>)))"

end
