(* ===== verification/Riblt_Peeling.thy ===== *)
theory Riblt_Peeling
  imports Riblt_Decoder
begin

text \<open>
  Why the decoder of \<open>riblt/decoder.go\<close> is right. The set difference to be found is two
  lists, \<open>P\<close> (symbols only the sender has) and \<open>Q\<close> (only the receiver). The invariant says
  that cell \<open>i\<close> holds exactly the symbols of the difference that are not decoded yet and
  visit \<open>i\<close>, that every pure cell is queued, and that \<open>pending\<close> counts the cells that are
  not empty or still queued. The hash enters as \<open>told_apart\<close>, a condition on single cells: a
  cell passes for empty or for pure only when it is. It is assumed of the cells that a decoder
  holds while it runs and of no others: over all combinations of symbols no hash of 64 bits
  could satisfy it.
\<close>

section \<open>The cells of a difference\<close>

definition hits :: "nat \<Rightarrow> nat \<Rightarrow> 'd HashedSymbol \<Rightarrow> bool" where
  "hits N i s \<longleftrightarrow> i \<in> set (visit N (freshMapping (Hash s)))"

definition simpleFor :: "nat \<Rightarrow> 'd HashedSymbol \<Rightarrow> bool" where
  "simpleFor N s \<longleftrightarrow> walkable N (freshMapping (Hash s)) \<and> distinct (visit N (freshMapping (Hash s)))"

definition cellUpd :: "nat \<Rightarrow> nat \<Rightarrow> 'd HashedSymbol list \<Rightarrow> u64 \<Rightarrow> ('d HashedSymbol \<times> u64) list" where
  "cellUpd N i ss d = map (\<lambda>s. (s, d)) (filter (hits N i) ss)"

definition cellOf :: "'d symbolOps \<Rightarrow> 'd HashedSymbol list \<Rightarrow> 'd HashedSymbol list \<Rightarrow> 'd CodedSymbol" where
  "cellOf T P Q = applyAll T (map (\<lambda>s. (s, add_dir)) P @ map (\<lambda>s. (s, remove_dir)) Q) (emptyCoded T)"

definition diffCell ::
  "'d symbolOps \<Rightarrow> nat \<Rightarrow> nat \<Rightarrow> 'd HashedSymbol list \<Rightarrow> 'd HashedSymbol list \<Rightarrow> 'd CodedSymbol" where
  "diffCell T N i P Q = cellOf T (filter (hits N i) P) (filter (hits N i) Q)"

definition remaining :: "'d HashedSymbol list \<Rightarrow> 'd HashedSymbol list \<Rightarrow> 'd HashedSymbol list" where
  "remaining D P = filter (\<lambda>s. s \<notin> set D) P"

definition zeroCell :: "'d CodedSymbol \<Rightarrow> bool" where
  "zeroCell c \<longleftrightarrow> count c = 0 \<and> checksum c = 0"

definition pureCell :: "'d symbolOps \<Rightarrow> 'd CodedSymbol \<Rightarrow> bool" where
  "pureCell T c \<longleftrightarrow> (count c = 1 \<or> count c = -1) \<and> Hash_of T (sum_of c) = checksum c"

text \<open>
  The test of \<open>TryDecode\<close> on a cell that holds \<open>P\<close> of the sender's symbols and \<open>Q\<close> of the
  receiver's: the cell passes for empty only when it is, and for pure only when it holds one
  symbol, of the side that its count names.
\<close>

definition told_apart :: "'d symbolOps \<Rightarrow> 'd HashedSymbol list \<Rightarrow> 'd HashedSymbol list \<Rightarrow> bool" where
  "told_apart T P Q \<longleftrightarrow>
     (let c = cellOf T P Q in
        (zeroCell c \<longrightarrow> P = [] \<and> Q = []) \<and>
        (pureCell T c \<and> count c = 1 \<longrightarrow> length P = 1 \<and> Q = []) \<and>
        (pureCell T c \<and> count c = -1 \<longrightarrow> P = [] \<and> length Q = 1))"

text \<open>All the cells that a decoder holds, when \<open>P\<close> and \<open>Q\<close> are the two sides of the difference.\<close>

definition cells_apart ::
  "'d symbolOps \<Rightarrow> nat \<Rightarrow> 'd HashedSymbol list \<Rightarrow> 'd HashedSymbol list \<Rightarrow> 'd Decoder \<Rightarrow> bool" where
  "cells_apart T N P Q d \<longleftrightarrow>
     (\<forall>i<length (cs d). told_apart T (filter (hits N i) (remaining (Remote d) P)) (filter (hits N i) (remaining (Local d) Q)))"

text \<open>One iteration of the loop of \<open>TryDecode\<close>, and the cells of all its iterations.\<close>

inductive decoding :: "'d symbolOps \<Rightarrow> nat \<times> 'd Decoder \<Rightarrow> nat \<times> 'd Decoder \<Rightarrow> bool" for T :: "'d symbolOps" where
  iteration: "didx < length (dirty d) \<Longrightarrow> decodeCell T d (rcoded (cs d ! (dirty d ! didx))) = Some (Inr d') \<Longrightarrow>
              decoding T (didx, d) (Suc didx, clearDirty (dirty d ! didx) d')"

definition attempt_apart ::
  "'d symbolOps \<Rightarrow> nat \<Rightarrow> 'd HashedSymbol list \<Rightarrow> 'd HashedSymbol list \<Rightarrow> nat \<Rightarrow> 'd Decoder \<Rightarrow> bool" where
  "attempt_apart T N P Q didx d \<longleftrightarrow> (\<forall>k x. (decoding T)\<^sup>*\<^sup>* (didx, d) (k, x) \<longrightarrow> cells_apart T N P Q x)"

lemma attempt_apart_here: "attempt_apart T N P Q k d \<Longrightarrow> cells_apart T N P Q d"
  by (auto simp: attempt_apart_def)

lemma attempt_apart_next:
  assumes "attempt_apart T N P Q k d" "k < length (dirty d)"
    and "decodeCell T d (rcoded (cs d ! (dirty d ! k))) = Some (Inr d')"
  shows "attempt_apart T N P Q (Suc k) (clearDirty (dirty d ! k) d')"
  using assms(1) decoding.iteration [OF assms(2,3)]
  by (auto simp: attempt_apart_def intro: converse_rtranclp_into_rtranclp)

lemma filter_subseqs: "filter p xs \<in> set (subseqs xs)"
  by (induction xs) (auto simp: Let_def)

text \<open>Cells that no combination of the symbols at hand can fool are told apart in every run.\<close>

lemma subseqs_apart:
  assumes "\<forall>P'\<in>set (subseqs P). \<forall>Q'\<in>set (subseqs Q). told_apart T P' Q'"
  shows "attempt_apart T N P Q k d"
proof -
  have "filter p (remaining D X) \<in> set (subseqs X)" for p :: "'a HashedSymbol \<Rightarrow> bool" and D X
    unfolding remaining_def filter_filter by (rule filter_subseqs)
  then show ?thesis using assms by (simp add: attempt_apart_def cells_apart_def)
qed

text \<open>
  The abstract decoder: a state is what has been found of \<open>P\<close> and of \<open>Q\<close>; a step finds the only
  symbol that is left in one of the first \<open>n\<close> cells.
\<close>

inductive peel_step ::
  "nat \<Rightarrow> nat \<Rightarrow> 'd HashedSymbol list \<Rightarrow> 'd HashedSymbol list \<Rightarrow>
   'd HashedSymbol list \<times> 'd HashedSymbol list \<Rightarrow> 'd HashedSymbol list \<times> 'd HashedSymbol list \<Rightarrow> bool"
  for N n :: nat and P Q :: "'d HashedSymbol list" where
  remote: "i < n \<Longrightarrow> filter (hits N i) (remaining R P) = [s] \<Longrightarrow> filter (hits N i) (remaining L Q) = [] \<Longrightarrow>
           peel_step N n P Q (R, L) (R @ [s], L)"
| local: "i < n \<Longrightarrow> filter (hits N i) (remaining R P) = [] \<Longrightarrow> filter (hits N i) (remaining L Q) = [s] \<Longrightarrow>
           peel_step N n P Q (R, L) (R, L @ [s])"

inductive_cases peel_stepE: "peel_step N n P Q (R, L) x"

lemma remaining_Nil [simp]: "remaining [] P = P"
  by (simp add: remaining_def)

lemma remaining_append: "remaining (D @ [s]) P = remaining [s] (remaining D P)"
  by (simp add: remaining_def conj_commute)

lemma set_remaining [simp]: "set (remaining D P) = set P - set D"
  by (auto simp: remaining_def)

lemma distinct_remaining [simp]: "distinct P \<Longrightarrow> distinct (remaining D P)"
  by (simp add: remaining_def)

lemma length_remaining:
  assumes "distinct P" "s \<in> set P"
  shows "length (remaining [s] P) < length P"
  unfolding remaining_def by (rule length_filter_less [of s]) (use assms in auto)

lemma count_list_distinct: "distinct xs \<Longrightarrow> count_list xs x = (if x \<in> set xs then 1 else 0)"
  by (induction xs) auto

lemma cell_updates_simple:
  assumes "\<forall>s\<in>set ss. simpleFor N s"
  shows "cell_updates N i ss d = cellUpd N i ss d"
  using assms
proof (induction ss)
  case (Cons s ss)
  then have "count_list (visit N (freshMapping (Hash s))) i = (if hits N i s then 1 else 0)"
    by (simp add: simpleFor_def hits_def count_list_distinct)
  with Cons show ?case by (simp add: cell_updates_def cellUpd_def)
qed (simp add: cell_updates_def cellUpd_def)

context symbol_laws
begin

text \<open>Updates and the opposite updates cancel.\<close>

lemma applyAll_cancel: "applyAll T (map (\<lambda>s. (s, d)) ss @ map (\<lambda>s. (s, - d)) ss) c = c"
proof (induction ss arbitrary: c)
  case (Cons s ss)
  have "applyAll T (map (\<lambda>s. (s, d)) (s # ss) @ map (\<lambda>s. (s, - d)) (s # ss)) c =
        applyAll T ((s, d) # (s, - d) # map (\<lambda>s. (s, d)) ss @ map (\<lambda>s. (s, - d)) ss) c"
    by (intro applyAll_mset) simp
  also have "\<dots> = c" using Cons.IH by (simp add: applySym_cancel)
  finally show ?case .
qed simp

lemma dirs: "- add_dir = remove_dir" "- remove_dir = add_dir"
  by (simp_all add: add_dir_def remove_dir_def)

text \<open>Removing decoded symbols from a cell leaves the cell of the remaining difference.\<close>

lemma mset_split:
  assumes "distinct P" "distinct D" "set D \<subseteq> set P"
  shows "mset P = mset D + mset (remaining D P)"
proof -
  have "mset P = mset (filter (\<lambda>s. s \<in> set D) P) + mset (remaining D P)"
    by (simp add: remaining_def)
  moreover have "mset (filter (\<lambda>s. s \<in> set D) P) = mset D"
    using assms by (intro set_eq_iff_mset_eq_distinct [THEN iffD1]) auto
  ultimately show ?thesis by simp
qed

lemma applyAll_peel:
  assumes "mset us = mset (map (\<lambda>s. (s, d)) ss) + mset vs"
  shows "applyAll T (us @ map (\<lambda>s. (s, - d)) ss) c = applyAll T vs c"
proof -
  have "applyAll T (us @ map (\<lambda>s. (s, - d)) ss) c =
        applyAll T ((map (\<lambda>s. (s, d)) ss @ map (\<lambda>s. (s, - d)) ss) @ vs) c"
    using assms by (intro applyAll_mset) simp
  also have "\<dots> = applyAll T vs c" by (simp only: applyAll_append applyAll_cancel [unfolded applyAll_append])
  finally show ?thesis .
qed

lemma diffCell_remove:
  assumes "distinct P" "distinct D" "set D \<subseteq> set P"
  shows "applyAll T (cellUpd N i D remove_dir) (diffCell T N i P Q) = diffCell T N i (remaining D P) Q"
proof -
  have "mset (filter (hits N i) P) = mset (filter (hits N i) D) + mset (filter (hits N i) (remaining D P))"
    using mset_split [OF assms] by (metis filter_union_mset mset_filter)
  then show ?thesis
    unfolding diffCell_def cellOf_def cellUpd_def applyAll_append [symmetric] dirs(1) [symmetric]
    by (intro applyAll_peel [of _ add_dir]) (simp add: ac_simps)
qed

lemma diffCell_add:
  assumes "distinct Q" "distinct D" "set D \<subseteq> set Q"
  shows "applyAll T (cellUpd N i D add_dir) (diffCell T N i P Q) = diffCell T N i P (remaining D Q)"
proof -
  have "mset (filter (hits N i) Q) = mset (filter (hits N i) D) + mset (filter (hits N i) (remaining D Q))"
    using mset_split [OF assms] by (metis filter_union_mset mset_filter)
  then show ?thesis
    unfolding diffCell_def cellOf_def cellUpd_def applyAll_append [symmetric]
    using applyAll_peel [of _ remove_dir, unfolded dirs(2)] by simp
qed

text \<open>What an encoder's cell becomes once the receiver's own symbols are removed.\<close>

lemma diffCell_window:
  assumes "distinct A" "distinct B"
  shows "applyAll T (cellUpd N i A add_dir @ cellUpd N i B remove_dir) (emptyCoded T) =
         diffCell T N i (remaining B A) (remaining A B)"
proof -
  define C where "C = filter (\<lambda>s. s \<in> set B) A"
  have A: "mset A = mset C + mset (remaining B A)" by (simp add: remaining_def C_def)
  have "mset C = mset (filter (\<lambda>s. s \<in> set A) B)"
    unfolding C_def using assms by (intro set_eq_iff_mset_eq_distinct [THEN iffD1]) auto
  then have B: "mset B = mset C + mset (remaining A B)"
    by (simp add: remaining_def)
  have "mset (filter (hits N i) X) = mset (filter (hits N i) C) + mset (filter (hits N i) Y)"
    if "mset X = mset C + mset Y" for X Y
    using that by (metis filter_union_mset mset_filter)
  note eqs = this [OF A] this [OF B]
  have "applyAll T (cellUpd N i A add_dir @ cellUpd N i B remove_dir) (emptyCoded T) =
        applyAll T ((cellUpd N i (remaining B A) add_dir @ cellUpd N i (remaining A B) remove_dir @
          cellUpd N i C add_dir) @ map (\<lambda>s. (s, - add_dir)) (filter (hits N i) C)) (emptyCoded T)"
    unfolding dirs cellUpd_def by (intro applyAll_mset) (simp add: ac_simps eqs del: mset_filter)
  also have "\<dots> = diffCell T N i (remaining B A) (remaining A B)"
    unfolding diffCell_def cellOf_def by (intro applyAll_peel) (simp add: cellUpd_def ac_simps)
  finally show ?thesis .
qed

end

end
