(* ===== verification/Riblt_Sketch.thy ===== *)
theory Riblt_Sketch
  imports Riblt_Window
begin

text \<open>
  \<open>riblt/sketch.go\<close>: a sketch of fixed size, filled by applying every symbol to all its
  cells. \<open>sketch_add_spec\<close> says what one symbol does to a sketch; \<open>encoder_is_sketch\<close> that
  the heap-driven encoder produces the cells of the sketch of the same symbols.
\<close>

section \<open>Sketches\<close>

type_synonym 'd Sketch = "'d CodedSymbol list"

text \<open>The body of the loop of \<open>AddHashedSymbol\<close>, at an index of the slice.\<close>

definition sketch_update :: "'d symbolOps \<Rightarrow> 'd Sketch \<Rightarrow> 'd HashedSymbol \<Rightarrow> nat \<Rightarrow> 'd Sketch" where
  "sketch_update T s t idx =
     (let c = s ! idx
      in s[idx := c\<lparr>sum_of := XOR_of T (sum_of c) (Symbol t),
                    count := count c + 1,
                    checksum := checksum c XOR Hash t\<rparr>])"

partial_function (option) Sketch_loop ::
  "'d symbolOps \<Rightarrow> 'd Sketch \<Rightarrow> 'd HashedSymbol \<Rightarrow> randomMapping \<Rightarrow> 'd Sketch run" where
  "Sketch_loop T s t m =
     (if sint (lastIdx m) < int (length s)
      then let idx = unat (lastIdx m)
           in if idx \<ge> length s then Some (Inl IndexOutOfRange)
              else bindO (Some (nextIndex m)) (\<lambda>m'. Sketch_loop T (sketch_update T s t idx) t m')
      else Some (Inr s))"

definition Sketch_AddHashedSymbol ::
  "'d symbolOps \<Rightarrow> 'd Sketch \<Rightarrow> 'd HashedSymbol \<Rightarrow> 'd Sketch run" where
  "Sketch_AddHashedSymbol T s t = Sketch_loop T s t \<lparr>prng = Hash t, lastIdx = 0\<rparr>"

definition Sketch_AddSymbol :: "'d symbolOps \<Rightarrow> 'd Sketch \<Rightarrow> 'd \<Rightarrow> 'd Sketch run" where
  "Sketch_AddSymbol T s t = (let hs = \<lparr>Symbol = t, Hash = Hash_of T t\<rparr> in Sketch_AddHashedSymbol T s hs)"

definition Subtract :: "'d symbolOps \<Rightarrow> 'd Sketch \<Rightarrow> 'd Sketch \<Rightarrow> 'd Sketch result" where
  "Subtract T s s2 =
     (if length s \<noteq> length s2 then Inl (Panic ''subtracting sketches of different sizes'')
      else Inr (map2 (\<lambda>a b. a\<lparr>sum_of := XOR_of T (sum_of a) (sum_of b),
                              count := count a - count b,
                              checksum := checksum a XOR checksum b\<rparr>) s s2))"

text \<open>\<open>make([]CodedSymbol[T], n)\<close>.\<close>

definition makeSketch :: "'d symbolOps \<Rightarrow> nat \<Rightarrow> 'd Sketch" where
  "makeSketch T n = replicate n (emptyCoded T)"

section \<open>What adding a symbol does\<close>

lemma sketch_update_eq: "sketch_update T s t idx = s[idx := applySym T (s ! idx) t add_dir]"
  by (simp add: sketch_update_def applySym_def add_dir_def Let_def)

text \<open>Cell by cell: the symbol is applied as often as the indices name the cell.\<close>

definition apply_at :: "'d symbolOps \<Rightarrow> 'd HashedSymbol \<Rightarrow> u64 \<Rightarrow> nat list \<Rightarrow> 'd Sketch \<Rightarrow> 'd Sketch" where
  "apply_at T t d is s =
     map (\<lambda>i. applyAll T (replicate (count_list is i) (t, d)) (s ! i)) [0..<length s]"

lemma length_apply_at [simp]: "length (apply_at T t d is s) = length s"
  by (simp add: apply_at_def)

lemma nth_apply_at [simp]:
  "i < length s \<Longrightarrow> apply_at T t d is s ! i = applyAll T (replicate (count_list is i) (t, d)) (s ! i)"
  by (simp add: apply_at_def)

lemma apply_at_Nil [simp]: "apply_at T t d [] s = s"
  by (rule nth_equalityI) simp_all

lemma apply_at_Cons:
  "i < length s \<Longrightarrow> apply_at T t d (i # is) s = apply_at T t d is (s[i := applySym T (s ! i) t d])"
  by (rule nth_equalityI) (auto simp: nth_list_update)

lemma Sketch_loop_walk:
  assumes "walk (length s) m = Some (Inr (is, m'))"
  shows "Sketch_loop T s t m = Some (Inr (apply_at T t add_dir is s))"
  using assms
proof (induction "is" arbitrary: m s)
  case Nil
  then show ?case by (subst Sketch_loop.simps) (simp add: walk_Nil_iff)
next
  case (Cons i "is")
  then obtain m1 where m1: "0 \<le> sint (lastIdx m)" "sint (lastIdx m) < int (length s)"
    "i = nat (sint (lastIdx m))" "nextIndex m = Inr m1" "walk (length s) m1 = Some (Inr (is, m'))"
    by (auto simp: walk_Cons_iff)
  have i: "unat (lastIdx m) = i"
    using uint_sint_nonneg [OF m1(1)] m1(3) by (simp add: unat_eq_nat_uint)
  have lt: "i < length s" using m1(1-3) by linarith
  have "Sketch_loop T (sketch_update T s t i) t m1 =
        Some (Inr (apply_at T t add_dir is (sketch_update T s t i)))"
    using m1(5) by (intro Cons.IH) (simp add: sketch_update_eq)
  then show ?case
    using m1 lt by (subst Sketch_loop.simps) (simp add: i apply_at_Cons sketch_update_eq Let_def)
qed

lemma sketch_add_spec:
  assumes "walkable (length s) (freshMapping (Hash t))"
  shows "Sketch_AddHashedSymbol T s t =
         Some (Inr (apply_at T t add_dir (visit (length s) (freshMapping (Hash t))) s))"
  using assms Sketch_loop_walk by (simp add: Sketch_AddHashedSymbol_def walkable_iff freshMapping_def)

text \<open>Adding a list of symbols, in order.\<close>

fun Sketch_addAll :: "'d symbolOps \<Rightarrow> 'd Sketch \<Rightarrow> 'd HashedSymbol list \<Rightarrow> 'd Sketch run" where
  "Sketch_addAll T s [] = Some (Inr s)"
| "Sketch_addAll T s (t # ts) = bindO (Sketch_AddHashedSymbol T s t) (\<lambda>s'. Sketch_addAll T s' ts)"

lemma Sketch_addAll_spec:
  assumes "\<forall>t\<in>set ts. walkable (length s) (freshMapping (Hash t))"
  shows "Sketch_addAll T s ts =
         Some (Inr (map (\<lambda>i. applyAll T (cell_updates (length s) i ts add_dir) (s ! i)) [0..<length s]))"
  using assms
proof (induction ts arbitrary: s)
  case Nil
  show ?case by (simp add: cell_updates_def map_nth)
next
  case (Cons t ts)
  let ?s = "apply_at T t add_dir (visit (length s) (freshMapping (Hash t))) s"
  have "Sketch_addAll T ?s ts =
        Some (Inr (map (\<lambda>i. applyAll T (cell_updates (length s) i ts add_dir) (?s ! i)) [0..<length s]))"
    using Cons by simp
  then show ?case
    using Cons.prems by (simp add: sketch_add_spec cell_updates_def)
qed

text \<open>The encoder and the sketch agree.\<close>

context symbol_laws
begin

lemma encoder_is_sketch:
  assumes "\<forall>s\<in>set ss. walkable n (freshMapping (Hash s))" "n \<le> 2 ^ 34"
  shows "\<exists>e' cs. produceMany T n (fold (\<lambda>s e. Encoder_AddHashedSymbol e s) ss emptyWindow) = Some (Inr (e', cs)) \<and>
                 Sketch_addAll T (makeSketch T n) ss = Some (Inr cs)"
proof -
  obtain e' where "produceMany T n (fold (\<lambda>s e. Encoder_AddHashedSymbol e s) ss emptyWindow) =
      Some (Inr (e', map (\<lambda>i. applyAll T (cell_updates n i ss add_dir) (emptyCoded T)) [0..<n]))"
    using produceMany_spec [OF encoder_at_fold assms(1), of n] assms(2) by auto
  moreover have "Sketch_addAll T (makeSketch T n) ss =
      Some (Inr (map (\<lambda>i. applyAll T (cell_updates n i ss add_dir) (emptyCoded T)) [0..<n]))"
    using assms(1) by (subst Sketch_addAll_spec) (simp_all add: makeSketch_def)
  ultimately show ?thesis by auto
qed

end

end
