(* ===== verification/Riblt_Reconcile.thy ===== *)
theory Riblt_Reconcile
  imports Riblt_Peeling Riblt_Sketch "HOL-Library.Product_Lexorder"
begin

text \<open>
  The decoder of \<open>riblt/decoder.go\<close> keeps its invariant, its decoding loop returns, and what
  it reports decoded is the set difference. Also the same for a sketch: subtracting two
  sketches and decoding the result.
\<close>

section \<open>The invariant of the decoder\<close>

text \<open>The cells that \<open>pending\<close> counts: not empty, or still queued.\<close>

definition open_cells :: "'d receivedSymbol list \<Rightarrow> nat set" where
  "open_cells rs = {i. i < length rs \<and> (\<not> zeroCell (rcoded (rs ! i)) \<or> rdirty (rs ! i))}"

definition dirty_cells :: "'d receivedSymbol list \<Rightarrow> nat set" where
  "dirty_cells rs = {i. i < length rs \<and> rdirty (rs ! i)}"

definition decoder_at ::
  "'d symbolOps \<Rightarrow> nat \<Rightarrow> 'd HashedSymbol list \<Rightarrow> 'd HashedSymbol list \<Rightarrow> 'd HashedSymbol list \<Rightarrow>
   nat \<Rightarrow> 'd Decoder \<Rightarrow> bool" where
  "decoder_at T N P Q W k d \<longleftrightarrow>
     length (cs d) \<le> N \<and>
     encoder_at (length (cs d)) W (windowW d) \<and>
     encoder_at (length (cs d)) (Remote d) (remoteW d) \<and>
     encoder_at (length (cs d)) (Local d) (localW d) \<and>
     distinct (Remote d) \<and> set (Remote d) \<subseteq> set P \<and>
     distinct (Local d) \<and> set (Local d) \<subseteq> set Q \<and>
     (\<forall>i<length (cs d). rcoded (cs d ! i) = diffCell T N i (remaining (Remote d) P) (remaining (Local d) Q)) \<and>
     (\<forall>i<length (cs d). pureCell T (rcoded (cs d ! i)) \<longrightarrow> rdirty (cs d ! i)) \<and>
     distinct (drop k (dirty d)) \<and> set (drop k (dirty d)) = dirty_cells (cs d) \<and>
     pending d = int (card (open_cells (cs d)))"

text \<open>
  The setting: a difference of hashed symbols, whose mappings visit each of at most \<open>N\<close> coded
  symbols at most once.
\<close>

definition setting ::
  "'d symbolOps \<Rightarrow> nat \<Rightarrow> 'd HashedSymbol list \<Rightarrow> 'd HashedSymbol list \<Rightarrow> 'd HashedSymbol list \<Rightarrow> bool" where
  "setting T N P Q W \<longleftrightarrow>
     N \<le> 2 ^ 34 \<and> distinct P \<and> distinct Q \<and> (\<forall>s\<in>set P \<union> set Q \<union> set W. simpleFor N s) \<and>
     (\<forall>s\<in>set P \<union> set Q. Hash s = Hash_of T (Symbol s))"

lemma spread_simple: "spreadFor N (Hash s) \<Longrightarrow> N \<le> 2 ^ 34 \<Longrightarrow> simpleFor N s"
  using spread_fresh [of N "Hash s"] strict_sorted_iff [of "visit N (freshMapping (Hash s))"]
  by (simp add: simpleFor_def)

section \<open>Pure and empty cells\<close>

lemma diffCell_zero:
  assumes "told_apart T (filter (hits N i) P) (filter (hits N i) Q)" "zeroCell (diffCell T N i P Q)"
    and "s \<in> set P \<or> s \<in> set Q"
  shows "\<not> hits N i s"
proof -
  have "filter (hits N i) P = [] \<and> filter (hits N i) Q = []"
    using assms(1,2) unfolding told_apart_def diffCell_def Let_def by blast
  then show ?thesis using assms(3) by (auto simp: filter_empty_conv)
qed

lemma pureCell_near: "pureCell T c \<Longrightarrow> nearPure c"
  by (auto simp: pureCell_def nearPure_def)

lemma zeroCell_near: "zeroCell c \<Longrightarrow> nearPure c"
  by (auto simp: zeroCell_def nearPure_def)

lemma zeroCell_not_pure: "zeroCell c \<Longrightarrow> \<not> pureCell T c"
  by (auto simp: zeroCell_def pureCell_def)

context symbol_laws
begin

lemma diffCell_pure_remote:
  assumes "told_apart T (filter (hits N i) P) (filter (hits N i) Q)" "diffCell T N i P Q = c"
    and "\<forall>s\<in>set P \<union> set Q. Hash s = Hash_of T (Symbol s)"
    and "pureCell T c" "count c = 1"
  obtains s where "filter (hits N i) P = [s]" "filter (hits N i) Q = []"
    "s \<in> set P" "hits N i s"
    "s = \<lparr>Symbol = XOR_of T (default_of T) (sum_of c), Hash = Hash_of T (sum_of c)\<rparr>"
proof -
  let ?P = "filter (hits N i) P" and ?Q = "filter (hits N i) Q"
  have c: "c = cellOf T ?P ?Q" using assms(2) by (simp add: diffCell_def)
  have "length ?P = 1 \<and> ?Q = []"
    using assms(1,4,5) unfolding told_apart_def c Let_def by blast
  then obtain s where s: "?P = [s]" "?Q = []" by (auto simp: length_Suc_conv)
  have "s \<in> set ?P" unfolding s(1) by simp
  then have mem: "s \<in> set P" "hits N i s" by auto
  have "Hash s = Hash_of T (Symbol s)" using assms(3) mem by auto
  then have "s = \<lparr>Symbol = XOR_of T (default_of T) (sum_of c), Hash = Hash_of T (sum_of c)\<rparr>"
    by (simp add: c s cellOf_def applySym_def emptyCoded_def XOR_default)
  with s mem show ?thesis by (rule that)
qed

lemma diffCell_pure_local:
  assumes "told_apart T (filter (hits N i) P) (filter (hits N i) Q)" "diffCell T N i P Q = c"
    and "\<forall>s\<in>set P \<union> set Q. Hash s = Hash_of T (Symbol s)"
    and "pureCell T c" "count c = -1"
  obtains s where "filter (hits N i) P = []" "filter (hits N i) Q = [s]"
    "s \<in> set Q" "hits N i s"
    "s = \<lparr>Symbol = XOR_of T (default_of T) (sum_of c), Hash = Hash_of T (sum_of c)\<rparr>"
proof -
  let ?P = "filter (hits N i) P" and ?Q = "filter (hits N i) Q"
  have c: "c = cellOf T ?P ?Q" using assms(2) by (simp add: diffCell_def)
  have "?P = [] \<and> length ?Q = 1"
    using assms(1,4,5) unfolding told_apart_def c Let_def by blast
  then obtain s where s: "?Q = [s]" "?P = []" by (auto simp: length_Suc_conv)
  have "s \<in> set ?Q" unfolding s(1) by simp
  then have mem: "s \<in> set Q" "hits N i s" by auto
  have "Hash s = Hash_of T (Symbol s)" using assms(3) mem by auto
  then have "s = \<lparr>Symbol = XOR_of T (default_of T) (sum_of c), Hash = Hash_of T (sum_of c)\<rparr>"
    by (simp add: c s cellOf_def applySym_def emptyCoded_def XOR_default)
  with s(2,1) mem show ?thesis by (rule that)
qed

text \<open>Peeling one symbol off a cell.\<close>

lemma diffCell_peel_remote:
  assumes "distinct P" "s \<in> set P"
  shows "diffCell T N i (remaining [s] P) Q =
         (if hits N i s then applySym T (diffCell T N i P Q) s remove_dir else diffCell T N i P Q)"
  using diffCell_remove [of P "[s]" N i Q] assms by (auto simp: cellUpd_def)

lemma diffCell_peel_local:
  assumes "distinct Q" "s \<in> set Q"
  shows "diffCell T N i P (remaining [s] Q) =
         (if hits N i s then applySym T (diffCell T N i P Q) s add_dir else diffCell T N i P Q)"
  using diffCell_add [of Q "[s]" N i P] assms by (auto simp: cellUpd_def)

end

section \<open>The visits of a received prefix\<close>

lemma simple_prefix:
  assumes "simpleFor N s" "n \<le> N" "N \<le> 2 ^ 34"
  shows "walkable n (freshMapping (Hash s))" "distinct (visit n (freshMapping (Hash s)))"
    "set (visit n (freshMapping (Hash s))) = {i. i < n \<and> hits N i s}"
    "walkable N (leave n (freshMapping (Hash s)))"
proof -
  let ?m = "freshMapping (Hash s)"
  have w: "walkable n ?m" "walkable N (leave n ?m)"
    using walkable_less [of N ?m n] assms by (simp_all add: simpleFor_def)
  then show "walkable n ?m" "walkable N (leave n ?m)" .
  have eq: "visit N ?m = visit n ?m @ visit N (leave n ?m)"
    using walk_append [OF w(1) assms(2) w(2)] by simp
  then show "distinct (visit n ?m)" using assms(1) by (simp add: simpleFor_def)
  have n34: "n \<le> 2 ^ 34" using assms by linarith
  have r1: "\<forall>i\<in>set (visit n ?m). i < n"
    using walk_range(1) [OF w(1) _ n34] by simp
  have l: "int n \<le> sint (lastIdx (leave n ?m))" using walk_range(2) [OF w(1) _ n34] by simp
  then have "0 \<le> sint (lastIdx (leave n ?m))" by linarith
  from walk_range(1) [OF w(2) this assms(3)] l have r2: "\<forall>i\<in>set (visit N (leave n ?m)). n \<le> i"
    by force
  show "set (visit n ?m) = {i. i < n \<and> hits N i s}"
    using r1 r2 by (auto simp: hits_def eq)
qed

lemma hits_0:
  assumes "simpleFor N s" "0 < N"
  shows "hits N 0 s"
  using walk_moves [of N "freshMapping (Hash s)"] assms by (fastforce simp: simpleFor_def hits_def)

lemma encoder_at_addMapping:
  assumes "encoder_at n ss e"
  shows "encoder_at n (ss @ [s]) (addHashedSymbolWithMapping e s (leave n (freshMapping (Hash s))))
     \<longleftrightarrow> window_ready (addHashedSymbolWithMapping e s (leave n (freshMapping (Hash s))))"
  using assms window_ok_add [of e] by (auto simp: encoder_at_def)

lemma encoder_at_addDecoded:
  assumes "encoder_at n ss e" "simpleFor N s" "n \<le> N" "N \<le> 2 ^ 34"
  shows "encoder_at n (ss @ [s]) (addHashedSymbolWithMapping e s (leave n (freshMapping (Hash s))))"
proof -
  have "int n \<le> sint (lastIdx (leave n (freshMapping (Hash s))))"
    using simple_prefix(1) [OF assms(2-4)] assms(3,4) by (intro walk_range(2)) simp_all
  then show ?thesis
    using assms(1) unfolding encoder_at_addMapping [OF assms(1)]
    by (intro window_ready_add) (auto simp: encoder_at_def)
qed

section \<open>One peeled symbol\<close>

text \<open>
  What the cells, the flags and the queue become when symbol \<open>s\<close> of the difference is
  applied at all its indices and the flag of cell \<open>i\<close> is cleared.
\<close>

lemma peeled_cells:
  assumes set: "setting T N P Q W" and at: "decoder_at T N P Q W k d"
    and k: "k < length (dirty d)" and i: "i = dirty d ! k" and s: "simpleFor N s" "hits N i s"
    and cell: "\<And>j. diffCell T N j R' L' =
      (if hits N j s then applySym T (diffCell T N j (remaining (Remote d) P) (remaining (Local d) Q)) s dr
       else diffCell T N j (remaining (Remote d) P) (remaining (Local d) Q))"
    and zero: "zeroCell (diffCell T N i R' L')"
    and nz: "\<And>j. j < length (cs d) \<Longrightarrow> hits N j s \<Longrightarrow> \<not> zeroCell (diffCell T N j (remaining (Remote d) P) (remaining (Local d) Q))"
    and d1: "d1 = fold (touch T s dr) (visit (length (cs d)) (freshMapping (Hash s))) d"
  shows "\<And>j. j < length (cs d) \<Longrightarrow> rcoded (cs (clearDirty i d1) ! j) = diffCell T N j R' L'"
    and "\<And>j. j < length (cs d) \<Longrightarrow> pureCell T (rcoded (cs (clearDirty i d1) ! j)) \<Longrightarrow> rdirty (cs (clearDirty i d1) ! j)"
    and "distinct (drop (Suc k) (dirty (clearDirty i d1)))"
    and "set (drop (Suc k) (dirty (clearDirty i d1))) = dirty_cells (cs (clearDirty i d1))"
    and "open_cells (cs (clearDirty i d1)) = open_cells (cs d) - {i}" and "i \<in> open_cells (cs d)"
proof -
  let ?n = "length (cs d)" and ?is = "visit (length (cs d)) (freshMapping (Hash s))"
  let ?t = "\<lambda>j. touched T s dr (cs d ! j)" and ?c2 = "cs (clearDirty i d1)"
  have n: "?n \<le> N" "N \<le> 2 ^ 34" using set at by (simp_all add: setting_def decoder_at_def)
  note pre = simple_prefix [OF s(1) n]
  have q: "drop k (dirty d) = i # drop (Suc k) (dirty d)" using k i by (simp add: Cons_nth_drop_Suc)
  have old: "distinct (drop k (dirty d))" "set (drop k (dirty d)) = dirty_cells (cs d)"
    using at by (simp_all add: decoder_at_def)
  have cells: "rcoded (cs d ! j) = diffCell T N j (remaining (Remote d) P) (remaining (Local d) Q)"
    if "j < ?n" for j using at that by (simp add: decoder_at_def)
  have pured: "pureCell T (rcoded (cs d ! j)) \<Longrightarrow> rdirty (cs d ! j)" if "j < ?n" for j
    using at that by (simp add: decoder_at_def)
  have iD: "i \<in> dirty_cells (cs d)" using old(2) unfolding q by auto
  then have iN: "i < ?n" "rdirty (cs d ! i)" by (simp_all add: dirty_cells_def)
  have c1: "cs d1 ! j = (if hits N j s then ?t j else cs d ! j)" if "j < ?n" for j
    using that pre(2,3) unfolding d1 by (subst cs_touch_fold) auto
  have len: "length (cs d1) = ?n" by (simp add: d1)
  have c2: "?c2 ! j = (if j = i then (?t i)\<lparr>rdirty := False\<rparr> else if hits N j s then ?t j else cs d ! j)"
    if "j < ?n" for j
    using that c1 s(2) iN(1) by (simp add: clearDirty_def nth_list_update len)
  have len2: "length ?c2 = ?n" by (simp add: clearDirty_def len)
  show rc: "rcoded (?c2 ! j) = diffCell T N j R' L'" if "j < ?n" for j
    using that cells [OF that] s(2) by (auto simp: c2 cell touched_def Let_def)
  have dj: "rdirty (?c2 ! j) \<longleftrightarrow> j \<noteq> i \<and> (rdirty (cs d ! j) \<or> (hits N j s \<and> rdirty (?t j)))" if "j < ?n" for j
    using that by (auto simp: c2 touched_def Let_def)
  have near: "hits N j s \<Longrightarrow> nearPure (diffCell T N j R' L') \<Longrightarrow> rdirty (?t j)" if "j < ?n" for j
    using cell [of j] cells [OF that] by (simp add: touched_def Let_def)
  show "rdirty (?c2 ! j)" if j: "j < ?n" and p: "pureCell T (rcoded (?c2 ! j))" for j
  proof -
    have p': "pureCell T (diffCell T N j R' L')" using p rc [OF j] by simp
    then have "j \<noteq> i" using zero zeroCell_not_pure by auto
    moreover have "rdirty (cs d ! j)" if "\<not> hits N j s"
      using p' pured [OF j] cells [OF j] cell [of j] that by simp
    ultimately show ?thesis using near [OF j] pureCell_near [OF p'] by (auto simp: dj [OF j])
  qed
  have dirty1: "drop (Suc k) (dirty (clearDirty i d1)) =
      drop (Suc k) (dirty d) @ filter (\<lambda>j. \<not> rdirty (cs d ! j) \<and> rdirty (?t j)) ?is"
    using k pre(2,3) unfolding d1 by (simp add: clearDirty_def) (subst dirty_touch_fold, auto)
  have rest: "set (drop (Suc k) (dirty d)) = dirty_cells (cs d) - {i}" "distinct (drop (Suc k) (dirty d))"
    using old unfolding q by auto
  show "distinct (drop (Suc k) (dirty (clearDirty i d1)))"
    unfolding dirty1 using rest pre(2) by (auto simp: dirty_cells_def)
  show "set (drop (Suc k) (dirty (clearDirty i d1))) = dirty_cells ?c2"
    unfolding dirty1 set_append rest(1) set_filter pre(3)
    using iN by (auto simp: dirty_cells_def len2 dj)
  show "i \<in> open_cells (cs d)" using iN by (simp add: open_cells_def)
  have "j \<in> open_cells ?c2 \<longleftrightarrow> j \<in> open_cells (cs d) - {i}" for j
  proof (cases "j < ?n \<and> j \<noteq> i")
    case True
    then have j: "j < ?n" "j \<noteq> i" by simp_all
    show ?thesis
    proof (cases "hits N j s")
      case True
      then show ?thesis
        using j nz [OF j(1)] cells [OF j(1)] near [OF j(1)] zeroCell_near
        by (auto simp: open_cells_def len2 rc dj)
    next
      case False
      then show ?thesis using j cells [OF j(1)] cell [of j] by (auto simp: open_cells_def len2 rc dj)
    qed
  next
    case False
    then show ?thesis using zero iN by (auto simp: open_cells_def len2 rc dj)
  qed
  then show "open_cells ?c2 = open_cells (cs d) - {i}" by blast
qed

section \<open>The decoding loop\<close>

lemma clearDirty_simps [simp]:
  "length (cs (clearDirty i d)) = length (cs d)" "localW (clearDirty i d) = localW d"
  "windowW (clearDirty i d) = windowW d" "remoteW (clearDirty i d) = remoteW d"
  "dirty (clearDirty i d) = dirty d" "pending (clearDirty i d) = pending d"
  "Remote (clearDirty i d) = Remote d" "Local (clearDirty i d) = Local d"
  by (simp_all add: clearDirty_def Remote_def Local_def)

lemma finite_open_cells [simp]: "finite (open_cells rs)"
  by (simp add: open_cells_def)

lemma card_open_cells:
  assumes "open_cells rs' = open_cells rs - {i}" "i \<in> open_cells rs"
  shows "int (card (open_cells rs')) = int (card (open_cells rs)) - 1"
  using card_Suc_Diff1 [OF finite_open_cells assms(2)] unfolding assms(1) by linarith

text \<open>How much of the difference is left.\<close>

definition left_over :: "'d HashedSymbol list \<Rightarrow> 'd HashedSymbol list \<Rightarrow> 'd Decoder \<Rightarrow> nat" where
  "left_over P Q d = length (remaining (Remote d) P) + length (remaining (Local d) Q)"

context symbol_laws
begin

lemma pure_peel_zero:
  assumes "pureCell T c" "Hash s = checksum c" "- count c = dr"
  shows "zeroCell (applySym T c s dr)"
  using assms by (auto simp: zeroCell_def applySym_def)

lemma decodeCell_remote:
  assumes set: "setting T N P Q W" and at: "decoder_at T N P Q W k d" and k: "k < length (dirty d)"
    and i: "i = dirty d ! k" and c: "c = rcoded (cs d ! i)" "pureCell T c" "count c = 1" and ap: "cells_apart T N P Q d"
  shows "\<exists>d'. decodeCell T d c = Some (Inr d') \<and> decoder_at T N P Q W (Suc k) (clearDirty i d') \<and>
              left_over P Q d' < left_over P Q d \<and> length (cs d') = length (cs d) \<and>
              peel_step N (length (cs d)) P Q (Remote d, Local d) (Remote d', Local d')"
proof -
  let ?n = "length (cs d)" and ?R = "remaining (Remote d) P" and ?L = "remaining (Local d) Q"
  have iN: "i < ?n"
    using at k i nth_mem [of 0 "drop k (dirty d)"] by (auto simp: decoder_at_def dirty_cells_def)
  have ci: "diffCell T N i ?R ?L = c" using at iN c(1) by (simp add: decoder_at_def)
  have sep: "told_apart T (filter (hits N j) ?R) (filter (hits N j) ?L)" if "j < ?n" for j
    using ap that by (simp add: cells_apart_def)
  have hs: "\<forall>s\<in>set ?R \<union> set ?L. Hash s = Hash_of T (Symbol s)" using set by (auto simp: setting_def)
  have dist: "distinct P" and n: "?n \<le> N" "N \<le> 2 ^ 34"
    using set at by (simp_all add: setting_def decoder_at_def)
  obtain s where one: "filter (hits N i) ?R = [s]" "filter (hits N i) ?L = []" and s: "s \<in> set ?R" "hits N i s"
    "s = \<lparr>Symbol = XOR_of T (default_of T) (sum_of c), Hash = Hash_of T (sum_of c)\<rparr>"
    by (rule diffCell_pure_remote [OF sep [OF iN] ci hs c(2,3)])
  have h: "Hash s = checksum c" "Hash_of T (sum_of c) = checksum c"
    using s(3) c(2) by (simp_all add: pureCell_def)
  have sf: "simpleFor N s" using set s(1) by (auto simp: setting_def)
  define d1 where "d1 = fold (touch T s remove_dir) (visit ?n (freshMapping (Hash s))) d"
  let ?d = "d1\<lparr>remoteW := addHashedSymbolWithMapping (remoteW d1) s (leave ?n (freshMapping (Hash s))),
               pending := pending d1 - 1\<rparr>"
  have run: "decodeCell T d c = Some (Inr ?d)"
    using c(3) h(2) applyNewSymbol_walk [OF simple_prefix(1) [OF sf n], of T remove_dir]
    by (simp add: decodeCell_def Let_def s(3) [unfolded h(2), symmetric] d1_def)
  have same [simp]: "length (cs d1) = ?n" "localW d1 = localW d" "windowW d1 = windowW d"
    "remoteW d1 = remoteW d" "pending d1 = pending d" by (simp_all add: d1_def)
  have rem: "Remote ?d = Remote d @ [s]" "Local ?d = Local d"
    by (simp_all add: Remote_def Local_def)
  have R': "remaining (Remote d @ [s]) P = remaining [s] ?R" by (rule remaining_append)
  have dR: "distinct ?R" using dist by simp
  note cell = diffCell_peel_remote [OF dR s(1), of N _ ?L]
  have zero: "zeroCell (diffCell T N i (remaining [s] ?R) ?L)"
    using c h by (simp add: cell s(2) ci pure_peel_zero remove_dir_def)
  have nz: "\<not> zeroCell (diffCell T N j ?R ?L)" if "j < ?n" "hits N j s" for j
    using that(2) diffCell_zero [OF sep [OF that(1)]] s(1) by blast
  note pc = peeled_cells [OF set at k i sf s(2) cell zero nz d1_def]
  have W: "encoder_at ?n W (windowW d)" "encoder_at ?n (Remote d) (remoteW d)" "encoder_at ?n (Local d) (localW d)"
    using at by (simp_all add: decoder_at_def)
  have eq: "cs (clearDirty i ?d) = cs (clearDirty i d1)" by (simp add: clearDirty_def)
  have ats: "distinct (Remote d)" "set (Remote d) \<subseteq> set P" "distinct (Local d)" "set (Local d) \<subseteq> set Q"
    "pending d = int (card (open_cells (cs d)))" using at by (simp_all add: decoder_at_def)
  have "decoder_at T N P Q W (Suc k) (clearDirty i ?d)"
    using pc(1-4) n(1) ats s(1) W encoder_at_addDecoded [OF W(2) sf n] card_open_cells [OF pc(5,6)]
    unfolding decoder_at_def eq clearDirty_simps rem R'
    by (intro conjI) simp_all
  moreover have "left_over P Q ?d < left_over P Q d"
    using length_remaining [OF dR s(1)] unfolding left_over_def rem R' by simp
  moreover have "length (cs ?d) = ?n" by simp
  moreover have "peel_step N ?n P Q (Remote d, Local d) (Remote ?d, Local ?d)"
    unfolding rem using iN one by (rule peel_step.remote)
  ultimately show ?thesis using run by blast
qed

lemma decodeCell_local:
  assumes set: "setting T N P Q W" and at: "decoder_at T N P Q W k d" and k: "k < length (dirty d)"
    and i: "i = dirty d ! k" and c: "c = rcoded (cs d ! i)" "pureCell T c" "count c = -1" and ap: "cells_apart T N P Q d"
  shows "\<exists>d'. decodeCell T d c = Some (Inr d') \<and> decoder_at T N P Q W (Suc k) (clearDirty i d') \<and>
              left_over P Q d' < left_over P Q d \<and> length (cs d') = length (cs d) \<and>
              peel_step N (length (cs d)) P Q (Remote d, Local d) (Remote d', Local d')"
proof -
  let ?n = "length (cs d)" and ?R = "remaining (Remote d) P" and ?L = "remaining (Local d) Q"
  have iN: "i < ?n"
    using at k i nth_mem [of 0 "drop k (dirty d)"] by (auto simp: decoder_at_def dirty_cells_def)
  have ci: "diffCell T N i ?R ?L = c" using at iN c(1) by (simp add: decoder_at_def)
  have sep: "told_apart T (filter (hits N j) ?R) (filter (hits N j) ?L)" if "j < ?n" for j
    using ap that by (simp add: cells_apart_def)
  have hs: "\<forall>s\<in>set ?R \<union> set ?L. Hash s = Hash_of T (Symbol s)" using set by (auto simp: setting_def)
  have dist: "distinct Q" and n: "?n \<le> N" "N \<le> 2 ^ 34"
    using set at by (simp_all add: setting_def decoder_at_def)
  obtain s where one: "filter (hits N i) ?R = []" "filter (hits N i) ?L = [s]" and s: "s \<in> set ?L" "hits N i s"
    "s = \<lparr>Symbol = XOR_of T (default_of T) (sum_of c), Hash = Hash_of T (sum_of c)\<rparr>"
    by (rule diffCell_pure_local [OF sep [OF iN] ci hs c(2,3)])
  have h: "Hash s = checksum c" "Hash_of T (sum_of c) = checksum c"
    using s(3) c(2) by (simp_all add: pureCell_def)
  have sf: "simpleFor N s" using set s(1) by (auto simp: setting_def)
  define d1 where "d1 = fold (touch T s add_dir) (visit ?n (freshMapping (Hash s))) d"
  let ?d = "d1\<lparr>localW := addHashedSymbolWithMapping (localW d1) s (leave ?n (freshMapping (Hash s))),
               pending := pending d1 - 1\<rparr>"
  have run: "decodeCell T d c = Some (Inr ?d)"
    using c(3) h(2) applyNewSymbol_walk [OF simple_prefix(1) [OF sf n], of T add_dir]
    by (simp add: decodeCell_def Let_def s(3) [unfolded h(2), symmetric] d1_def)
  have same [simp]: "length (cs d1) = ?n" "remoteW d1 = remoteW d" "windowW d1 = windowW d"
    "localW d1 = localW d" "pending d1 = pending d" by (simp_all add: d1_def)
  have rem: "Local ?d = Local d @ [s]" "Remote ?d = Remote d"
    by (simp_all add: Remote_def Local_def)
  have R': "remaining (Local d @ [s]) Q = remaining [s] ?L" by (rule remaining_append)
  have dR: "distinct ?L" using dist by simp
  note cell = diffCell_peel_local [OF dR s(1), of N _ ?R]
  have zero: "zeroCell (diffCell T N i ?R (remaining [s] ?L))"
    using c h by (simp add: cell s(2) ci pure_peel_zero add_dir_def)
  have nz: "\<not> zeroCell (diffCell T N j ?R ?L)" if "j < ?n" "hits N j s" for j
    using that(2) diffCell_zero [OF sep [OF that(1)]] s(1) by blast
  note pc = peeled_cells [OF set at k i sf s(2) cell zero nz d1_def]
  have W: "encoder_at ?n W (windowW d)" "encoder_at ?n (Remote d) (remoteW d)" "encoder_at ?n (Local d) (localW d)"
    using at by (simp_all add: decoder_at_def)
  have eq: "cs (clearDirty i ?d) = cs (clearDirty i d1)" by (simp add: clearDirty_def)
  have ats: "distinct (Remote d)" "set (Remote d) \<subseteq> set P" "distinct (Local d)" "set (Local d) \<subseteq> set Q"
    "pending d = int (card (open_cells (cs d)))" using at by (simp_all add: decoder_at_def)
  have "decoder_at T N P Q W (Suc k) (clearDirty i ?d)"
    using pc(1-4) n(1) ats s(1) W encoder_at_addDecoded [OF W(3) sf n] card_open_cells [OF pc(5,6)]
    unfolding decoder_at_def eq clearDirty_simps rem R'
    by (intro conjI) simp_all
  moreover have "left_over P Q ?d < left_over P Q d"
    using length_remaining [OF dR s(1)] unfolding left_over_def rem R' by simp
  moreover have "length (cs ?d) = ?n" by simp
  moreover have "peel_step N ?n P Q (Remote d, Local d) (Remote ?d, Local ?d)"
    unfolding rem using iN one by (rule peel_step.local)
  ultimately show ?thesis using run by blast
qed

text \<open>A queued cell that is not pure: at most \<open>pending\<close> changes.\<close>

lemma decodeCell_impure:
  assumes at: "decoder_at T N P Q W k d" and k: "k < length (dirty d)"
    and i: "i = dirty d ! k" and c: "c = rcoded (cs d ! i)" "\<not> pureCell T c"
  shows "\<exists>d'. decodeCell T d c = Some (Inr d') \<and> decoder_at T N P Q W (Suc k) (clearDirty i d') \<and>
              left_over P Q d' = left_over P Q d \<and> length (cs d') = length (cs d) \<and> dirty d' = dirty d \<and>
              (Remote d', Local d') = (Remote d, Local d)"
proof -
  let ?p = "if zeroCell c then pending d - 1 else pending d"
  let ?d = "d\<lparr>pending := ?p\<rparr>" and ?c = "cs (clearDirty i d)"
  have q: "drop k (dirty d) = i # drop (Suc k) (dirty d)" using k i by (simp add: Cons_nth_drop_Suc)
  have old: "distinct (drop k (dirty d))" "set (drop k (dirty d)) = dirty_cells (cs d)"
    using at by (simp_all add: decoder_at_def)
  have "i \<in> dirty_cells (cs d)" using old(2) unfolding q by auto
  then have iN: "i < length (cs d)" "rdirty (cs d ! i)" by (simp_all add: dirty_cells_def)
  have run: "decodeCell T d c = Some (Inr ?d)"
    using c(2) by (auto simp: decodeCell_def pureCell_def zeroCell_def Let_def)
  have cj: "?c ! j = (if j = i then (cs d ! i)\<lparr>rdirty := False\<rparr> else cs d ! j)" if "j < length (cs d)" for j
    using that by (simp add: clearDirty_def nth_list_update)
  have "dirty_cells ?c = dirty_cells (cs d) - {i}"
    by (auto simp: dirty_cells_def cj split: if_splits)
  then have ds: "set (drop (Suc k) (dirty d)) = dirty_cells ?c" "distinct (drop (Suc k) (dirty d))"
    using old unfolding q by auto
  have "open_cells ?c = (if zeroCell c then open_cells (cs d) - {i} else open_cells (cs d))"
    using iN c(1) by (auto simp: open_cells_def cj split: if_splits)
  moreover have "i \<in> open_cells (cs d)" using iN by (simp add: open_cells_def)
  moreover have "pending d = int (card (open_cells (cs d)))" using at by (simp add: decoder_at_def)
  ultimately have pen: "?p = int (card (open_cells ?c))"
    using card_open_cells [of ?c "cs d" i] by (cases "zeroCell c") simp_all
  have eq: "cs (clearDirty i ?d) = ?c" "Remote ?d = Remote d" "Local ?d = Local d"
    by (simp_all add: clearDirty_def Remote_def Local_def)
  have rc: "\<forall>j<length (cs d). rcoded (?c ! j) = rcoded (cs d ! j)" by (simp add: cj)
  have "\<forall>j<length (cs d). pureCell T (rcoded (cs d ! j)) \<longrightarrow> rdirty (cs d ! j)"
    using at by (simp add: decoder_at_def)
  then have pu: "\<forall>j<length (cs d). pureCell T (rcoded (?c ! j)) \<longrightarrow> rdirty (?c ! j)"
    using c rc by (auto simp: cj)
  have "decoder_at T N P Q W (Suc k) (clearDirty i ?d)"
    using at ds pen rc pu unfolding decoder_at_def eq clearDirty_simps
    by (intro conjI) simp_all
  moreover have "left_over P Q ?d = left_over P Q d" "length (cs ?d) = length (cs d)" "dirty ?d = dirty d"
    "(Remote ?d, Local ?d) = (Remote d, Local d)"
    by (simp_all add: left_over_def Remote_def Local_def)
  ultimately show ?thesis using run by blast
qed

lemma decodeCell_spec:
  assumes "setting T N P Q W" "decoder_at T N P Q W k d" "k < length (dirty d)" "cells_apart T N P Q d"
  shows "\<exists>d'. decodeCell T d (rcoded (cs d ! (dirty d ! k))) = Some (Inr d') \<and>
              decoder_at T N P Q W (Suc k) (clearDirty (dirty d ! k) d') \<and> length (cs d') = length (cs d) \<and>
              (left_over P Q d', length (dirty d') - Suc k) <
              (left_over P Q d, length (dirty d) - k) \<and>
              (peel_step N (length (cs d)) P Q)\<^sup>*\<^sup>* (Remote d, Local d) (Remote d', Local d')"
proof -
  let ?c = "rcoded (cs d ! (dirty d ! k))"
  consider "pureCell T ?c" "count ?c = 1" | "pureCell T ?c" "count ?c = -1" | "\<not> pureCell T ?c"
    by (auto simp: pureCell_def)
  then show ?thesis
  proof cases
    case 1
    then show ?thesis using decodeCell_remote [OF assms(1-3) refl refl _ _ assms(4)] by (auto simp: less_prod_def' intro: r_into_rtranclp)
  next
    case 2
    then show ?thesis using decodeCell_local [OF assms(1-3) refl refl _ _ assms(4)] by (auto simp: less_prod_def' intro: r_into_rtranclp)
  next
    case 3
    then show ?thesis
      using decodeCell_impure [OF assms(2,3) refl refl] assms(3) by (fastforce simp: less_prod_def')
  qed
qed

text \<open>The loop returns, keeps the invariant, and leaves no cell queued.\<close>

lemma TryDecode_loop_spec:
  assumes "setting T N P Q W" "decoder_at T N P Q W k d" "attempt_apart T N P Q k d"
  shows "\<exists>d' k'. TryDecode_loop T k d = Some (Inr d') \<and> decoder_at T N P Q W k' d' \<and> cells_apart T N P Q d' \<and>
                 length (dirty d') \<le> k' \<and> length (cs d') = length (cs d) \<and>
                 (peel_step N (length (cs d)) P Q)\<^sup>*\<^sup>* (Remote d, Local d) (Remote d', Local d')"
  using assms(2,3)
proof (induction "(left_over P Q d, length (dirty d) - k)" arbitrary: d k rule: less_induct)
  case less
  show ?case
  proof (cases "k < length (dirty d)")
    case False
    then show ?thesis using less.prems attempt_apart_here [OF less.prems(2)] by (subst TryDecode_loop.simps) auto
  next
    case True
    let ?i = "dirty d ! k"
    have i: "?i < length (cs d)"
      using less.prems(1) True nth_mem [of 0 "drop k (dirty d)"] by (auto simp: decoder_at_def dirty_cells_def)
    obtain d1 where d1: "decodeCell T d (rcoded (cs d ! ?i)) = Some (Inr d1)"
      "decoder_at T N P Q W (Suc k) (clearDirty ?i d1)" "length (cs d1) = length (cs d)"
      "(left_over P Q d1, length (dirty d1) - Suc k) < (left_over P Q d, length (dirty d) - k)"
      "(peel_step N (length (cs d)) P Q)\<^sup>*\<^sup>* (Remote d, Local d) (Remote d1, Local d1)"
      using decodeCell_spec [OF assms(1) less.prems(1) True attempt_apart_here [OF less.prems(2)]] by blast
    have "(left_over P Q (clearDirty ?i d1), length (dirty (clearDirty ?i d1)) - Suc k)
          < (left_over P Q d, length (dirty d) - k)"
      using d1(4) by (simp add: left_over_def)
    from less.hyps [OF this d1(2) attempt_apart_next [OF less.prems(2) True d1(1)]] obtain d2 k2 where d2:
      "TryDecode_loop T (Suc k) (clearDirty ?i d1) = Some (Inr d2)" "decoder_at T N P Q W k2 d2" "cells_apart T N P Q d2"
      "length (dirty d2) \<le> k2" "length (cs d2) = length (cs d)"
      "(peel_step N (length (cs d)) P Q)\<^sup>*\<^sup>* (Remote d1, Local d1) (Remote d2, Local d2)"
      using d1(3) by auto
    have "TryDecode_loop T k d = Some (Inr d2)"
      using True i d1(1) d2(1) by (subst TryDecode_loop.simps) (simp add: Let_def)
    then show ?thesis using d2(2-5) rtranclp_trans [OF d1(5) d2(6)] by blast
  qed
qed

lemma TryDecode_spec:
  assumes "setting T N P Q W" "decoder_at T N P Q W 0 d" "attempt_apart T N P Q 0 d"
  shows "\<exists>d'. TryDecode T d = Some (Inr d') \<and> decoder_at T N P Q W 0 d' \<and> dirty d' = [] \<and> cells_apart T N P Q d' \<and>
              length (cs d') = length (cs d) \<and>
              (peel_step N (length (cs d)) P Q)\<^sup>*\<^sup>* (Remote d, Local d) (Remote d', Local d')"
proof -
  obtain d1 k where d1: "TryDecode_loop T 0 d = Some (Inr d1)" "decoder_at T N P Q W k d1" "cells_apart T N P Q d1"
    "length (dirty d1) \<le> k" "length (cs d1) = length (cs d)"
    "(peel_step N (length (cs d)) P Q)\<^sup>*\<^sup>* (Remote d, Local d) (Remote d1, Local d1)"
    using TryDecode_loop_spec [OF assms] by blast
  then have "decoder_at T N P Q W 0 (d1\<lparr>dirty := []\<rparr>)" "cells_apart T N P Q (d1\<lparr>dirty := []\<rparr>)"
    by (simp_all add: decoder_at_def cells_apart_def Remote_def Local_def)
  then show ?thesis using d1 by (simp add: TryDecode_def Remote_def Local_def)
qed

section \<open>Receiving a coded symbol\<close>

lemma AddCodedSymbol_spec:
  assumes set: "setting T N P Q W" and at: "decoder_at T N P Q W 0 d" and n: "length (cs d) < N"
    and c: "applyAll T (cellUpd N (length (cs d)) W remove_dir) c = diffCell T N (length (cs d)) P Q"
  shows "\<exists>d'. AddCodedSymbol T d c = Some (Inr d') \<and> decoder_at T N P Q W 0 d' \<and>
              length (cs d') = Suc (length (cs d)) \<and> Remote d' = Remote d \<and> Local d' = Local d"
proof -
  let ?n = "length (cs d)" and ?R = "remaining (Remote d) P" and ?L = "remaining (Local d) Q"
  have N: "N \<le> 2 ^ 34" and dist: "distinct P" "distinct Q"
    and simp: "\<And>s. s \<in> set P \<union> set Q \<union> set W \<Longrightarrow> simpleFor N s"
    using set by (auto simp: setting_def)
  have ats: "distinct (Remote d)" "set (Remote d) \<subseteq> set P" "distinct (Local d)" "set (Local d) \<subseteq> set Q"
    "encoder_at ?n W (windowW d)" "encoder_at ?n (Remote d) (remoteW d)" "encoder_at ?n (Local d) (localW d)"
    using at by (simp_all add: decoder_at_def)
  have sW: "\<forall>s\<in>set W. simpleFor N s" "\<forall>s\<in>set (Remote d). simpleFor N s" "\<forall>s\<in>set (Local d). simpleFor N s"
    using simp ats(2,4) by blast+
  have step: "\<exists>e'. applyWindow T e cw dr = Some (Inr (e', applyAll T (cellUpd N ?n ss dr) cw)) \<and> encoder_at (Suc ?n) ss e'"
    if "encoder_at ?n ss e" "\<forall>s\<in>set ss. simpleFor N s" for ss e cw dr
    using window_step [OF that(1) _ n N, of cw dr] that(2) cell_updates_simple [OF that(2)]
    by (simp add: simpleFor_def)
  obtain w where w: "applyWindow T (windowW d) c remove_dir = Some (Inr (w, diffCell T N ?n P Q))"
    "encoder_at (Suc ?n) W w" using step [OF ats(5) sW(1)] c by metis
  obtain r where r: "applyWindow T (remoteW d) (diffCell T N ?n P Q) remove_dir =
      Some (Inr (r, diffCell T N ?n ?R Q))" "encoder_at (Suc ?n) (Remote d) r"
    using step [OF ats(6) sW(2)] diffCell_remove [OF dist(1) ats(1,2)] by metis
  obtain l where l: "applyWindow T (localW d) (diffCell T N ?n ?R Q) add_dir =
      Some (Inr (l, diffCell T N ?n ?R ?L))" "encoder_at (Suc ?n) (Local d) l"
    using step [OF ats(7) sW(3)] diffCell_add [OF dist(2) ats(3,4)] by metis
  define x where "x = diffCell T N ?n ?R ?L"
  let ?b = "\<not> zeroCell x \<and> nearPure x"
  let ?d = "d\<lparr>windowW := w, remoteW := r, localW := l, cs := cs d @ [\<lparr>rcoded = x, rdirty = ?b\<rparr>],
      dirty := dirty d @ (if ?b then [?n] else []), pending := pending d + (if zeroCell x then 0 else 1)\<rparr>"
  have run: "AddCodedSymbol T d c = Some (Inr ?d)"
    using w(1) r(1) l(1) by (simp add: AddCodedSymbol_def Let_def zeroCell_def x_def)
  have same: "Remote ?d = Remote d" "Local ?d = Local d"
    using r(2) l(2) by (simp_all add: Remote_def Local_def encoder_at_def)
  have "open_cells (cs ?d) = open_cells (cs d) \<union> (if zeroCell x then {} else {?n})"
    by (auto simp: open_cells_def nth_append less_Suc_eq)
  moreover have "?n \<notin> open_cells (cs d)" by (simp add: open_cells_def)
  moreover have "pending d = int (card (open_cells (cs d)))" using at by (simp add: decoder_at_def)
  ultimately have pen: "pending ?d = int (card (open_cells (cs ?d)))" by simp
  have "dirty_cells (cs ?d) = dirty_cells (cs d) \<union> (if ?b then {?n} else {})"
    by (auto simp: dirty_cells_def nth_append less_Suc_eq)
  moreover have "distinct (dirty d)" "set (dirty d) = dirty_cells (cs d)"
    using at by (simp_all add: decoder_at_def)
  ultimately have dirt: "distinct (drop 0 (dirty ?d))" "set (drop 0 (dirty ?d)) = dirty_cells (cs ?d)"
    by (auto simp: dirty_cells_def)
  have cells: "\<forall>i<Suc ?n. rcoded (cs ?d ! i) = diffCell T N i ?R ?L"
    using at by (simp add: decoder_at_def nth_append less_Suc_eq x_def)
  have pure: "\<forall>i<Suc ?n. pureCell T (rcoded (cs ?d ! i)) \<longrightarrow> rdirty (cs ?d ! i)"
    using at pureCell_near [of T x] zeroCell_not_pure [of x T]
    by (auto simp: decoder_at_def nth_append less_Suc_eq)
  have len: "length (cs ?d) = Suc ?n" by simp
  have "decoder_at T N P Q W 0 ?d"
    using ats(1-4) n w(2) r(2) l(2) pen dirt cells pure
    unfolding decoder_at_def same len by (intro conjI) simp_all
  then show ?thesis using run same len by blast
qed

section \<open>Decoded means reconciled\<close>

text \<open>
  When all received coded symbols are settled, the decoder has found exactly the difference:
  the first cell holds every symbol.
\<close>

lemma decoded_difference:
  assumes "setting T N P Q W" "decoder_at T N P Q W 0 d" "cs d \<noteq> []" "dirty d = []" "cells_apart T N P Q d"
  shows "Decoded d \<longleftrightarrow> set (Remote d) = set P \<and> set (Local d) = set Q"
proof -
  let ?R = "remaining (Remote d) P" and ?L = "remaining (Local d) Q"
  have sub: "set (Remote d) \<subseteq> set P" "set (Local d) \<subseteq> set Q"
    and cells: "\<forall>i<length (cs d). rcoded (cs d ! i) = diffCell T N i ?R ?L"
    using assms(2) by (auto simp: decoder_at_def)
  have N: "0 < N" using assms(2,3) by (cases "cs d") (auto simp: decoder_at_def)
  have "dirty_cells (cs d) = {}" using assms(2,4) by (simp add: decoder_at_def)
  then have open_iff: "Decoded d \<longleftrightarrow> (\<forall>i<length (cs d). zeroCell (diffCell T N i ?R ?L))"
    using assms(2) cells by (auto simp: Decoded_def decoder_at_def open_cells_def dirty_cells_def)
  show ?thesis
  proof
    assume "Decoded d"
    then have "zeroCell (diffCell T N 0 ?R ?L)" using open_iff assms(3) by blast
    moreover have "told_apart T (filter (hits N 0) ?R) (filter (hits N 0) ?L)"
      using assms(3,5) by (simp add: cells_apart_def)
    ultimately have "\<not> hits N 0 s" if "s \<in> set ?R \<or> s \<in> set ?L" for s
      using diffCell_zero that by blast
    moreover have "hits N 0 s" if "s \<in> set ?R \<or> s \<in> set ?L" for s
      using that assms(1) N by (intro hits_0) (auto simp: setting_def)
    ultimately have "s \<notin> set ?R \<and> s \<notin> set ?L" for s by metis
    then show "set (Remote d) = set P \<and> set (Local d) = set Q" using sub by auto
  next
    assume "set (Remote d) = set P \<and> set (Local d) = set Q"
    then have "?R = []" "?L = []" by (simp_all add: remaining_def filter_empty_conv)
    then show "Decoded d"
      by (simp add: open_iff diffCell_def cellOf_def zeroCell_def emptyCoded_def)
  qed
qed

text \<open>A settled decoder is stuck only where no received cell holds a single symbol.\<close>

lemma settled_no_single:
  assumes "setting T N P Q W" "decoder_at T N P Q W 0 d" "dirty d = []" "i < length (cs d)"
  shows "length (filter (hits N i) (remaining (Remote d) P)) + length (filter (hits N i) (remaining (Local d) Q)) \<noteq> 1"
proof
  let ?P = "filter (hits N i) (remaining (Remote d) P)" and ?Q = "filter (hits N i) (remaining (Local d) Q)"
  assume "length ?P + length ?Q = 1"
  then consider s where "?P = [s]" "?Q = []" | s where "?P = []" "?Q = [s]"
    by (cases ?P; cases ?Q) auto
  then have "pureCell T (diffCell T N i (remaining (Remote d) P) (remaining (Local d) Q))"
  proof cases
    case (1 s)
    have "s \<in> set ?P" unfolding 1 by simp
    then have "Hash s = Hash_of T (Symbol s)" using assms(1) by (auto simp: setting_def)
    then show ?thesis
      by (simp add: diffCell_def 1 cellOf_def applySym_def emptyCoded_def pureCell_def XOR_default add_dir_def)
  next
    case (2 s)
    have "s \<in> set ?Q" unfolding 2 by simp
    then have "Hash s = Hash_of T (Symbol s)" using assms(1) by (auto simp: setting_def)
    then show ?thesis
      by (simp add: diffCell_def 2 cellOf_def applySym_def emptyCoded_def pureCell_def XOR_default remove_dir_def)
  qed
  moreover have "rcoded (cs d ! i) = diffCell T N i (remaining (Remote d) P) (remaining (Local d) Q)"
    "pureCell T (rcoded (cs d ! i)) \<longrightarrow> rdirty (cs d ! i)" "dirty_cells (cs d) = {}"
    using assms by (simp_all add: decoder_at_def)
  ultimately show False using assms(4) by (auto simp: dirty_cells_def)
qed

end

section \<open>A rateless session\<close>

text \<open>
  How the callers drive the two ends: the sender draws the next coded symbol, the receiver
  adds it and tries to decode.
\<close>

fun session :: "'d symbolOps \<Rightarrow> nat \<Rightarrow> 'd Encoder \<Rightarrow> 'd Decoder \<Rightarrow> ('d Encoder \<times> 'd Decoder) run" where
  "session T 0 e d = Some (Inr (e, d))"
| "session T (Suc n) e d =
     bindO (ProduceNextCodedSymbol T e) (\<lambda>(e, c).
     bindO (AddCodedSymbol T d c) (\<lambda>d.
     bindO (TryDecode T d) (\<lambda>d. session T n e d)))"

text \<open>
  More generally: the calls of the receiver in any order. It takes the next coded symbol of the
  sender, or tries to decode what it has.
\<close>

datatype call = Receive | Attempt

fun schedule :: "'d symbolOps \<Rightarrow> call list \<Rightarrow> 'd Encoder \<Rightarrow> 'd Decoder \<Rightarrow> ('d Encoder \<times> 'd Decoder) run" where
  "schedule T [] e d = Some (Inr (e, d))"
| "schedule T (Receive # evs) e d =
     bindO (ProduceNextCodedSymbol T e) (\<lambda>(e, c).
     bindO (AddCodedSymbol T d c) (\<lambda>d. schedule T evs e d))"
| "schedule T (Attempt # evs) e d = bindO (TryDecode T d) (\<lambda>d. schedule T evs e d)"

abbreviation receives :: "call list \<Rightarrow> nat" where
  "receives evs \<equiv> count_list evs Receive"

fun rounds :: "nat \<Rightarrow> call list" where
  "rounds 0 = []"
| "rounds (Suc n) = Receive # Attempt # rounds n"

lemma session_schedule: "session T n e d = schedule T (rounds n) e d"
proof (induction n arbitrary: e d)
  case (Suc n)
  have "schedule T (Attempt # evs) e = (\<lambda>d. bindO (TryDecode T d) (schedule T evs e))" for evs e
    by (rule ext) simp
  moreover have "session T n = schedule T (rounds n)" using Suc by (intro ext)
  ultimately show ?case by simp
qed simp

text \<open>
  What is assumed of the hash along such a run: in every iteration of every attempt to decode,
  the cells that the decoder then holds are told apart.
\<close>

fun run_apart ::
  "'d symbolOps \<Rightarrow> nat \<Rightarrow> 'd HashedSymbol list \<Rightarrow> 'd HashedSymbol list \<Rightarrow> call list \<Rightarrow> 'd Encoder \<Rightarrow> 'd Decoder \<Rightarrow> bool" where
  "run_apart T N P Q [] e d = True"
| "run_apart T N P Q (Receive # evs) e d =
     (\<forall>e' c d'. ProduceNextCodedSymbol T e = Some (Inr (e', c)) \<longrightarrow> AddCodedSymbol T d c = Some (Inr d') \<longrightarrow>
        run_apart T N P Q evs e' d')"
| "run_apart T N P Q (Attempt # evs) e d =
     (attempt_apart T N P Q 0 d \<and> (\<forall>d'. TryDecode T d = Some (Inr d') \<longrightarrow> run_apart T N P Q evs e d'))"

lemma subseqs_run_apart:
  assumes "\<forall>P'\<in>set (subseqs P). \<forall>Q'\<in>set (subseqs Q). told_apart T P' Q'"
  shows "run_apart T N P Q evs e d"
proof (induction evs arbitrary: e d)
  case (Cons ev evs)
  then show ?case by (cases ev) (simp_all add: subseqs_apart [OF assms])
qed simp

definition encoderOf :: "'d HashedSymbol list \<Rightarrow> 'd Encoder" where
  "encoderOf A = fold (\<lambda>s e. Encoder_AddHashedSymbol e s) A emptyWindow"

definition decoderOf :: "'d HashedSymbol list \<Rightarrow> 'd Decoder" where
  "decoderOf B = fold (\<lambda>s d. Decoder_AddHashedSymbol d s) B emptyDecoder"

lemma decoderOf_fields:
  "cs (decoderOf B) = [] \<and> localW (decoderOf B) = emptyWindow \<and> remoteW (decoderOf B) = emptyWindow \<and>
   dirty (decoderOf B) = [] \<and> pending (decoderOf B) = 0 \<and> encoder_at 0 B (windowW (decoderOf B))"
proof (induction B rule: rev_induct)
  case Nil
  show ?case
    using encoder_at_fold [of "[]"] by (simp add: decoderOf_def emptyDecoder_def)
next
  case (snoc s B)
  then show ?case by (simp add: decoderOf_def Decoder_AddHashedSymbol_def encoder_at_add)
qed

lemma encoder_at_empty: "encoder_at 0 [] emptyWindow"
  using encoder_at_fold [of "[]"] by simp

lemma symbols_emptyWindow [simp]: "symbols emptyWindow = []"
  by (simp add: emptyWindow_def)

lemma decoder_at_decoderOf: "decoder_at T N P Q B 0 (decoderOf B)"
proof -
  show ?thesis
    using decoderOf_fields [of B] encoder_at_empty
    by (simp add: decoder_at_def Remote_def Local_def open_cells_def dirty_cells_def)
qed

text \<open>What is assumed of the hash: the cells of the one decoding of the subtracted sketch.\<close>

definition sketch_apart :: "'d symbolOps \<Rightarrow> nat \<Rightarrow> 'd HashedSymbol list \<Rightarrow> 'd HashedSymbol list \<Rightarrow> bool" where
  "sketch_apart T n P Q \<longleftrightarrow>
     (\<forall>d. addCodedSymbols T emptyDecoder (map (\<lambda>i. diffCell T n i P Q) [0..<n]) = Some (Inr d) \<longrightarrow>
        attempt_apart T n P Q 0 d)"

context symbol_laws
begin

lemma session_spec:
  assumes "setting T N (remaining B A) (remaining A B) B" "distinct A" "distinct B" "\<forall>s\<in>set A. simpleFor N s"
    and "encoder_at (length (cs d)) A e" "decoder_at T N (remaining B A) (remaining A B) B 0 d"
    and "length (cs d) + n \<le> N" "dirty d = []"
    and "run_apart T N (remaining B A) (remaining A B) (rounds n) e d"
  shows "\<exists>e' d'. session T n e d = Some (Inr (e', d')) \<and> dirty d' = [] \<and> length (cs d') = length (cs d) + n \<and>
                 (0 < n \<longrightarrow> cells_apart T N (remaining B A) (remaining A B) d') \<and>
                 decoder_at T N (remaining B A) (remaining A B) B 0 d'"
  using assms(5-9)
proof (induction n arbitrary: e d)
  case 0
  then show ?case by simp
next
  case (Suc n)
  let ?P = "remaining B A" and ?Q = "remaining A B" and ?n = "length (cs d)"
  have N: "?n < N" "N \<le> 2 ^ 34" using Suc.prems(3) assms(1) by (simp_all add: setting_def)
  have wA: "\<forall>s\<in>set A. walkable N (freshMapping (Hash s))" using assms(4) by (simp add: simpleFor_def)
  obtain e1 where e1: "ProduceNextCodedSymbol T e =
      Some (Inr (e1, applyAll T (cellUpd N ?n A add_dir) (emptyCoded T)))" "encoder_at (Suc ?n) A e1"
    using ProduceNext_spec [OF Suc.prems(1) wA N] cell_updates_simple [OF assms(4)] by metis
  have "applyAll T (cellUpd N ?n B remove_dir) (applyAll T (cellUpd N ?n A add_dir) (emptyCoded T)) =
        diffCell T N ?n ?P ?Q"
    using diffCell_window [OF assms(2,3), of N ?n] by simp
  from AddCodedSymbol_spec [OF assms(1) Suc.prems(2) N(1) this]
  obtain d1 where d1: "AddCodedSymbol T d (applyAll T (cellUpd N ?n A add_dir) (emptyCoded T)) = Some (Inr d1)"
    "decoder_at T N ?P ?Q B 0 d1" "length (cs d1) = Suc ?n" by blast
  have ap: "attempt_apart T N ?P ?Q 0 d1"
    "\<And>d2. TryDecode T d1 = Some (Inr d2) \<Longrightarrow> run_apart T N ?P ?Q (rounds n) e1 d2"
    using Suc.prems(5) e1(1) d1(1) by simp_all
  obtain d2 where d2: "TryDecode T d1 = Some (Inr d2)" "decoder_at T N ?P ?Q B 0 d2" "dirty d2 = []"
    "length (cs d2) = Suc ?n" "cells_apart T N ?P ?Q d2" using TryDecode_spec [OF assms(1) d1(2) ap(1)] d1(3) by auto
  obtain e3 d3 where "session T n e1 d2 = Some (Inr (e3, d3))" "dirty d3 = []" "length (cs d3) = Suc ?n + n"
    "0 < n \<longrightarrow> cells_apart T N ?P ?Q d3" "decoder_at T N ?P ?Q B 0 d3"
    using Suc.IH [of d2 e1] Suc.prems(3) e1 d2 ap(2) by auto
  moreover from this have "cells_apart T N ?P ?Q d3" using d2(5) by (cases n) auto
  ultimately show ?case using e1(1) d1(1) d2(1) by auto
qed

text \<open>
  From fresh ends: every session returns, and a decoder that then reports success holds the
  difference of the two sets.
\<close>

lemma session_reconciles:
  assumes "setting T N (remaining B A) (remaining A B) B" "distinct A" "distinct B" "\<forall>s\<in>set A. simpleFor N s"
    and "n \<le> N" "run_apart T N (remaining B A) (remaining A B) (rounds n) (encoderOf A) (decoderOf B)"
  shows "\<exists>e d. session T n (encoderOf A) (decoderOf B) = Some (Inr (e, d)) \<and>
               (0 < n \<longrightarrow> (Decoded d \<longleftrightarrow> set (Remote d) = set A - set B \<and> set (Local d) = set B - set A)) \<and>
               set (Remote d) \<subseteq> set A - set B \<and> set (Local d) \<subseteq> set B - set A \<and>
               distinct (Remote d) \<and> distinct (Local d)"
proof -
  have "encoder_at 0 A (encoderOf A)" using encoder_at_fold by (simp add: encoderOf_def)
  then obtain e d where d: "session T n (encoderOf A) (decoderOf B) = Some (Inr (e, d))" "dirty d = []"
    "length (cs d) = n" "0 < n \<longrightarrow> cells_apart T N (remaining B A) (remaining A B) d"
    "decoder_at T N (remaining B A) (remaining A B) B 0 d"
    using session_spec [OF assms(1-4) _ decoder_at_decoderOf, of "encoderOf A" n] assms(5,6) decoderOf_fields [of B]
    by auto
  have "Decoded d \<longleftrightarrow> set (Remote d) = set A - set B \<and> set (Local d) = set B - set A" if "0 < n"
    using decoded_difference [OF assms(1) d(5) _ d(2)] d(3,4) that by auto
  moreover have "set (Remote d) \<subseteq> set A - set B \<and> set (Local d) \<subseteq> set B - set A \<and>
      distinct (Remote d) \<and> distinct (Local d)"
    using d(5) by (auto simp: decoder_at_def)
  ultimately show ?thesis using d(1) by blast
qed

section \<open>Sketches\<close>

text \<open>The difference of two sketches, cell by cell.\<close>

lemma addCodedSymbols_spec:
  assumes "setting T N P Q []" "decoder_at T N P Q [] 0 d" "length (cs d) + length s \<le> N"
    and "\<forall>j<length s. s ! j = diffCell T N (length (cs d) + j) P Q"
  shows "\<exists>d'. addCodedSymbols T d s = Some (Inr d') \<and> decoder_at T N P Q [] 0 d' \<and>
              length (cs d') = length (cs d) + length s"
  using assms(2-4)
proof (induction s arbitrary: d)
  case Nil
  then show ?case by simp
next
  case (Cons c s)
  have "applyAll T (cellUpd N (length (cs d)) [] remove_dir) c = diffCell T N (length (cs d)) P Q"
    using Cons.prems(3) by (auto simp: cellUpd_def)
  from AddCodedSymbol_spec [OF assms(1) Cons.prems(1) _ this] Cons.prems(2)
  obtain d1 where d1: "AddCodedSymbol T d c = Some (Inr d1)" "decoder_at T N P Q [] 0 d1"
    "length (cs d1) = Suc (length (cs d))" by auto
  have "\<forall>j<length s. s ! j = diffCell T N (length (cs d1) + j) P Q"
    using Cons.prems(3) d1(3) by (metis Suc_less_eq add_Suc_shift length_Cons nth_Cons_Suc)
  from Cons.IH [OF d1(2) _ this] Cons.prems(2) d1 show ?case by auto
qed

lemma Sketch_Decode_spec:
  assumes "setting T n P Q []" "s = map (\<lambda>i. diffCell T n i P Q) [0..<n]" "0 < n" "sketch_apart T n P Q"
  shows "\<exists>R L ok. Sketch_Decode T s = Some (Inr (R, L, ok)) \<and> (ok \<longleftrightarrow> set R = set P \<and> set L = set Q) \<and>
                 set R \<subseteq> set P \<and> set L \<subseteq> set Q \<and> distinct R \<and> distinct L"
proof -
  have "decoder_at T n P Q [] 0 (decoderOf [])" by (rule decoder_at_decoderOf)
  then have start: "decoder_at T n P Q [] 0 emptyDecoder" by (simp add: decoderOf_def)
  obtain d1 where d1: "addCodedSymbols T emptyDecoder s = Some (Inr d1)" "decoder_at T n P Q [] 0 d1"
    "length (cs d1) = n"
    using addCodedSymbols_spec [OF assms(1) start, of s] assms(2) by (auto simp: emptyDecoder_def)
  obtain d2 where d2: "TryDecode T d1 = Some (Inr d2)" "decoder_at T n P Q [] 0 d2" "dirty d2 = []"
    "length (cs d2) = n" "cells_apart T n P Q d2"
    using TryDecode_spec [OF assms(1) d1(2)] d1(1,3) assms(2,4) by (auto simp: sketch_apart_def)
  have "cs d2 \<noteq> []" using d2(4) assms(3) by auto
  from decoded_difference [OF assms(1) d2(2) this d2(3,5)] d1(1) d2(1,2) show ?thesis
    by (simp add: Sketch_Decode_def decoder_at_def)
qed

text \<open>Subtracting a sketch removes its symbols.\<close>

lemma subtract_cell:
  fixes c e :: "'d CodedSymbol"
  defines "sub \<equiv> \<lambda>a b. a\<lparr>sum_of := XOR_of T (sum_of a) (sum_of b), count := count a - count b,
                             checksum := checksum a XOR checksum b\<rparr>"
  shows "sub c (applyAll T (map (\<lambda>s. (s, add_dir)) ss) (emptyCoded T)) =
         applyAll T (map (\<lambda>s. (s, remove_dir)) ss) c"
proof (induction ss rule: rev_induct)
  case Nil
  show ?case by (simp add: sub_def emptyCoded_def)
next
  case (snoc s ss)
  have "sub a (applySym T b s add_dir) = applySym T (sub a b) s remove_dir" for a b :: "'d CodedSymbol"
    by (simp add: sub_def applySym_def add_dir_def remove_dir_def XOR_assoc xor.assoc)
  with snoc show ?case by simp
qed

lemma sketch_cells:
  assumes "\<forall>s\<in>set A. simpleFor n s"
  shows "Sketch_addAll T (makeSketch T n) A =
         Some (Inr (map (\<lambda>i. applyAll T (cellUpd n i A add_dir) (emptyCoded T)) [0..<n]))"
  using assms cell_updates_simple [OF assms]
  by (subst Sketch_addAll_spec) (simp_all add: makeSketch_def simpleFor_def)

lemma sketch_reconciles:
  assumes "setting T n (remaining B A) (remaining A B) []" "distinct A" "distinct B"
    and "\<forall>s\<in>set A \<union> set B. simpleFor n s" "0 < n" "sketch_apart T n (remaining B A) (remaining A B)"
  shows "\<exists>sA sB s R L ok. Sketch_addAll T (makeSketch T n) A = Some (Inr sA) \<and>
           Sketch_addAll T (makeSketch T n) B = Some (Inr sB) \<and> Subtract T sA sB = Inr s \<and>
           Sketch_Decode T s = Some (Inr (R, L, ok)) \<and>
           (ok \<longleftrightarrow> set R = set A - set B \<and> set L = set B - set A) \<and>
           set R \<subseteq> set A - set B \<and> set L \<subseteq> set B - set A \<and> distinct R \<and> distinct L"
proof -
  let ?c = "\<lambda>X i. applyAll T (cellUpd n i X add_dir) (emptyCoded T)"
  have AB: "Sketch_addAll T (makeSketch T n) A = Some (Inr (map (?c A) [0..<n]))"
    "Sketch_addAll T (makeSketch T n) B = Some (Inr (map (?c B) [0..<n]))"
    using sketch_cells assms(4) by blast+
  have "diffCell T n i (remaining B A) (remaining A B) = applyAll T (cellUpd n i B remove_dir) (?c A i)" for i
    using diffCell_window [OF assms(2,3), of n i] by simp
  then have sub: "Subtract T (map (?c A) [0..<n]) (map (?c B) [0..<n]) =
      Inr (map (\<lambda>i. diffCell T n i (remaining B A) (remaining A B)) [0..<n])"
    unfolding Subtract_def cellUpd_def using subtract_cell
    by (auto intro!: nth_equalityI)
  show ?thesis
    using Sketch_Decode_spec [OF assms(1) refl assms(5,6)] AB sub by fastforce
qed

end

section \<open>When the loop over a sketch returns\<close>

text \<open>The loop returns, with the same error if any, when the walk does.\<close>

lemma negative_index:
  assumes "sint (lastIdx m) < 0" "n \<le> 2 ^ 34"
  shows "n \<le> unat (lastIdx m)"
proof (rule ccontr)
  assume "\<not> ?thesis"
  moreover have "int (unat (lastIdx m)) = uint (lastIdx m)" by (simp only: uint_nat)
  moreover have "int n \<le> 2 ^ 34" using assms(2) by (rule int_le_pow34)
  moreover have "(2::int) ^ 34 < 2 ^ 63" by simp
  ultimately have "uint (lastIdx m) < 2 ^ 63" by linarith
  then have "sint (lastIdx m) = uint (lastIdx m)" by (rule sint_uint_small)
  then show False using assms(1) by simp
qed

lemma Sketch_loop_returns:
  assumes "walk (length s) m = Some r" "length s \<le> 2 ^ 34"
  shows "\<exists>r'. Sketch_loop T s t m = Some r' \<and> (\<forall>e. r' = Inl e \<longleftrightarrow> r = Inl e)"
proof -
  let ?P = "\<lambda>n m r. \<forall>s. n = length s \<longrightarrow> n \<le> 2 ^ 34 \<longrightarrow>
    (\<exists>r'. Sketch_loop T s t m = Some r' \<and> (\<forall>e. r' = Inl e \<longleftrightarrow> r = Inl e))"
  have "?P (length s) m r"
  proof (rule walk.raw_induct [where P = ?P, OF _ assms(1)], intro allI impI)
    fix w :: "nat \<Rightarrow> randomMapping \<Rightarrow> (nat list \<times> randomMapping) run" and n and m :: randomMapping and r and s :: "'a CodedSymbol list"
    let ?i = "sint (lastIdx m)"
    assume IH: "\<And>n m r. w n m = Some r \<Longrightarrow> ?P n m r"
      and body: "(let i = ?i in if i < int n
         then if i < 0 then Some (Inl IndexOutOfRange)
              else bindO (Some (nextIndex m)) (\<lambda>m'. bindO (w n m') (\<lambda>p. Some (Inr (nat i # fst p, snd p))))
         else Some (Inr ([], m))) = Some r"
      and n: "n = length s" "n \<le> 2 ^ 34"
    show "\<exists>r'. Sketch_loop T s t m = Some r' \<and> (\<forall>e. r' = Inl e \<longleftrightarrow> r = Inl e)"
    proof (cases "0 \<le> ?i \<and> ?i < int n")
      case False
      then show ?thesis
        using body n negative_index [of m n] by (subst Sketch_loop.simps) (auto simp: Let_def split: if_splits)
    next
      case True
      have lt: "unat (lastIdx m) < length s"
        using uint_sint_nonneg [of "lastIdx m"] True n(1) by (simp add: unat_eq_nat_uint) linarith
      have loop: "Sketch_loop T s t m =
          bindO (Some (nextIndex m)) (\<lambda>m'. Sketch_loop T (sketch_update T s t (unat (lastIdx m))) t m')"
        using True n lt by (subst Sketch_loop.simps) (simp add: Let_def)
      show ?thesis
      proof (cases "nextIndex m")
        case (Inl e)
        then show ?thesis using body True loop by (auto simp: Let_def)
      next
        case (Inr m')
        then obtain r1 where r1: "w n m' = Some r1" "\<forall>e. r1 = Inl e \<longleftrightarrow> r = Inl e"
          using body True by (cases "w n m'"; cases "the (w n m')") (auto simp: Let_def)
        have "length (sketch_update T s t (unat (lastIdx m))) = n"
          using n by (simp add: sketch_update_def Let_def)
        then show ?thesis using IH [OF r1(1)] n(2) r1(2) Inr loop by simp
      qed
    qed
  qed
  then show ?thesis using assms(2) by simp
qed

lemma Sketch_AddHashedSymbol_returns:
  assumes "Hash t \<noteq> 0" "length s \<le> 2 ^ 34"
  shows "\<exists>r. Sketch_AddHashedSymbol T s t = Some r \<and> (\<forall>e. r = Inl e \<longrightarrow> e = ImplementationDefined)"
proof -
  have r: "\<exists>r. walk (length s) \<lparr>prng = Hash t, lastIdx = 0\<rparr> = Some r \<and> (r = Inl e \<longrightarrow> e = ImplementationDefined)" for e
    using walk_returns [of "\<lparr>prng = Hash t, lastIdx = 0\<rparr>" "length s" e] assms by auto
  then obtain r where "walk (length s) \<lparr>prng = Hash t, lastIdx = 0\<rparr> = Some r" by blast
  with r Sketch_loop_returns [OF this assms(2)] show ?thesis
    unfolding Sketch_AddHashedSymbol_def by (metis option.inject)
qed

section \<open>A hash of 0\<close>

text \<open>A symbol whose hash is 0 never leaves index 0: the loop does not return.\<close>

lemma nextIndex_zero:
  assumes "prng m = 0" "0 \<le> sint (lastIdx m)" "sint (lastIdx m) < 2 ^ 34"
  obtains m' where "nextIndex m = Inr m'" "prng m' = 0" "lastIdx m' = lastIdx m"
proof -
  have u: "uint (lastIdx m) < 2 ^ 34" using uint_sint_nonneg [OF assms(2)] assms(3) by linarith
  have z: "nextPrng (prng m) = 0" using assms(1) by simp
  then have "goodState (uint (nextPrng (prng m)))" by (simp only: goodState_def) simp
  from nextIndex_good [OF this u] show ?thesis
    using that unfolding z by auto
qed

definition stuck_at :: "nat \<Rightarrow> randomMapping \<Rightarrow> bool" where
  "stuck_at n m \<longleftrightarrow> prng m = 0 \<and> 0 \<le> sint (lastIdx m) \<and> sint (lastIdx m) < int n \<and> n \<le> 2 ^ 34"

lemma stuck_at_next:
  assumes "stuck_at n m"
  obtains m' where "nextIndex m = Inr m'" "stuck_at n m'" "sint (lastIdx m) < int n" "unat (lastIdx m) < n"
proof -
  note st = assms [unfolded stuck_at_def]
  have n: "int n \<le> 2 ^ 34" using st by (intro int_le_pow34) simp
  obtain m' where "nextIndex m = Inr m'" "prng m' = 0" "lastIdx m' = lastIdx m"
    using nextIndex_zero [of m] st n by force
  moreover have "int (unat (lastIdx m)) = sint (lastIdx m)"
    using uint_sint_nonneg [of "lastIdx m"] st by (simp only: uint_nat)
  then have "unat (lastIdx m) < n" using st by linarith
  ultimately show ?thesis using that st by (simp add: stuck_at_def)
qed

lemma Sketch_loop_zero: "Sketch_loop T s t m = Some r \<Longrightarrow> \<not> stuck_at (length s) m"
proof (rule Sketch_loop.raw_induct [where P = "\<lambda>T s t m r. \<not> stuck_at (length s) m"])
  fix Sk T s t m r
  assume IH: "\<And>T s t m r. Sk T s t m = Some r \<Longrightarrow> \<not> stuck_at (length s) m"
    and body: "(if sint (lastIdx m) < int (length s)
      then let idx = unat (lastIdx m)
           in if idx \<ge> length s then Some (Inl IndexOutOfRange)
              else bindO (Some (nextIndex m)) (\<lambda>m'. Sk T (sketch_update T s t idx) t m')
      else Some (Inr s)) = Some r"
  show "\<not> stuck_at (length s) m"
  proof
    assume "stuck_at (length s) m"
    then obtain m' where m': "nextIndex m = Inr m'" "stuck_at (length s) m'"
      "sint (lastIdx m) < int (length s)" "unat (lastIdx m) < length s" by (rule stuck_at_next)
    have "Sk T (sketch_update T s t (unat (lastIdx m))) t m' = Some r"
      using body m'(1,3,4) by (simp add: Let_def)
    from IH [OF this] show False using m'(2) by (simp add: sketch_update_def Let_def)
  qed
qed

lemma Sketch_AddHashedSymbol_zero:
  assumes "Hash t = 0" "s \<noteq> []" "length s \<le> 2 ^ 34"
  shows "Sketch_AddHashedSymbol T s t = None"
proof -
  have "stuck_at (length s) \<lparr>prng = Hash t, lastIdx = 0\<rparr>" using assms by (simp add: stuck_at_def)
  then show ?thesis
    using Sketch_loop_zero [of T s t "\<lparr>prng = Hash t, lastIdx = 0\<rparr>"]
    by (cases "Sketch_AddHashedSymbol T s t") (auto simp: Sketch_AddHashedSymbol_def)
qed

end
