(* ===== verification/Newsim_Shards.thy ===== *)
theory Newsim_Shards
  imports Newsim_Server Riblt_Reconcile
begin

text \<open>
  The sender and the receiver of \<open>newsim/coding.go\<close>: the shards of a schedule partition the
  hashes; starting a block moves exactly the symbols of its shard out of the buffer; the
  send window is respected; acknowledgements are counted once.
\<close>

section \<open>Moving a shard out of a buffer\<close>

abbreviation wanted :: "u64 \<Rightarrow> u64 \<Rightarrow> u64 \<Rightarrow> txSymbol \<Rightarrow> bool" where
  "wanted start stop randomizer v \<equiv> inShard start stop (Hash v * randomizer)"

lemma mset_take_update:
  assumes "i < length xs"
  shows "add_mset (xs ! i) (mset (take (length xs - 1) (xs[i := xs ! (length xs - 1)]))) = mset xs"
  using mset_swapRemove [OF assms] by (simp add: swapRemove_def)

lemma moveShard_spec:
  "moveShard add start stop rd buffer tidx s = (buffer', s') \<Longrightarrow>
   (\<forall>v\<in>set (take tidx buffer). \<not> wanted start stop rd v) \<Longrightarrow>
   \<exists>moved. mset buffer = mset moved + mset buffer' \<and> (\<forall>v\<in>set moved. wanted start stop rd v) \<and>
           (\<forall>v\<in>set buffer'. \<not> wanted start stop rd v) \<and> s' = fold (\<lambda>v s. add s v) moved s"
proof (induction add start stop rd buffer tidx s rule: moveShard.induct)
  case (1 add start stop rd buffer tidx s)
  let ?v = "buffer ! tidx" and ?l = "length buffer - 1"
  let ?b = "take ?l (buffer[tidx := buffer ! ?l])"
  show ?case
  proof (cases "tidx < length buffer")
    case False
    then show ?thesis using "1.prems" by (intro exI [of _ "[]"]) (simp add: moveShard.simps)
  next
    case lt: True
    show ?thesis
    proof (cases "wanted start stop rd ?v")
      case True
      have tk: "take tidx ?b = take tidx buffer" using lt by (auto simp: min_def)
      have run: "moveShard add start stop rd ?b tidx (add s ?v) = (buffer', s')"
        using "1.prems"(1) lt True by (subst (asm) moveShard.simps) (simp add: Let_def)
      have "\<forall>v\<in>set (take tidx ?b). \<not> wanted start stop rd v" using "1.prems"(2) tk by simp
      from "1.IH"(1) [OF lt refl refl True refl refl run this]
      obtain moved where m: "mset ?b = mset moved + mset buffer'" "\<forall>v\<in>set moved. wanted start stop rd v"
        "\<forall>v\<in>set buffer'. \<not> wanted start stop rd v" "s' = fold (\<lambda>v s. add s v) moved (add s ?v)" by blast
      have "mset buffer = add_mset ?v (mset ?b)" using mset_take_update [OF lt] by simp
      then show ?thesis using m True by (intro exI [of _ "?v # moved"]) simp
    next
      case False
      have run: "moveShard add start stop rd buffer (tidx + 1) s = (buffer', s')"
        using "1.prems"(1) lt False by (subst (asm) moveShard.simps) (simp add: Let_def)
      have "\<forall>v\<in>set (take (tidx + 1) buffer). \<not> wanted start stop rd v"
        using "1.prems"(2) lt False by (simp add: take_Suc_conv_app_nth)
      from "1.IH"(2) [OF lt refl refl False run this] show ?thesis .
    qed
  qed
qed

lemma moveShard_all:
  assumes "moveShard add start stop rd buffer 0 s = (buffer', s')"
  obtains moved where "mset moved = mset (filter (wanted start stop rd) buffer)"
    "mset buffer' = mset (filter (\<lambda>v. \<not> wanted start stop rd v) buffer)"
    "s' = fold (\<lambda>v s. add s v) moved s"
proof -
  obtain moved where m: "mset buffer = mset moved + mset buffer'" "\<forall>v\<in>set moved. wanted start stop rd v"
    "\<forall>v\<in>set buffer'. \<not> wanted start stop rd v" "s' = fold (\<lambda>v s. add s v) moved s"
    using moveShard_spec [OF assms] by auto
  have split: "mset (filter P buffer) = mset (filter P moved) + mset (filter P buffer')" for P
    using m(1) by (metis filter_union_mset mset_filter)
  show ?thesis
    using split [of "wanted start stop rd"] split [of "\<lambda>v. \<not> wanted start stop rd v"] m(2-4)
    by (intro that [of moved]) (simp_all add: filter_False filter_True del: mset_filter)
qed

section \<open>The shards partition the hashes\<close>

text \<open>The range that \<open>startBlock\<close> announces for shard \<open>i\<close> of \<open>k\<close>.\<close>

definition shardStart :: "nat \<Rightarrow> nat \<Rightarrow> u64" where
  "shardStart k i = of_nat i * ((- 1 :: u64) div of_nat k)"

lemma shard_start_nat:
  assumes "0 < k" "k < 2 ^ 63" "i \<le> k"
  shows "unat (shardStart k i) = i * ((2 ^ 64 - 1) div k)"
proof -
  have k: "unat (of_nat k :: u64) = k" using assms(2) by (simp add: unat_of_nat)
  have "unat (- 1 :: u64) = 2 ^ 64 - 1"
    by (simp add: unsigned_minus_1_eq_mask mask_eq_exp_minus_1)
  then have "unat ((- 1 :: u64) div of_nat k) = (2 ^ 64 - 1) div k"
    by (simp only: unat_div k)
  moreover have "i * ((2 ^ 64 - 1) div k) < 2 ^ 64"
  proof -
    have "i * ((2 ^ 64 - 1) div k) \<le> k * ((2 ^ 64 - 1) div k)" using assms(3) by simp
    also have "\<dots> \<le> 2 ^ 64 - 1" by (rule times_div_less_eq_dividend)
    finally show ?thesis by simp
  qed
  ultimately show ?thesis
    using assms by (simp add: shardStart_def unat_word_ariths unat_of_nat)
qed

lemma shards_partition:
  assumes "0 < k" "k < 2 ^ 63"
  shows "\<exists>!i. i < k \<and> inShard (shardStart k i) (shardStart k ((i + 1) mod k)) h"
proof -
  define S :: nat where "S = (2 ^ 64 - 1) div k"
  let ?h = "unat h"
  have S: "0 < S" using assms by (simp add: S_def div_greater_zero_iff)
  have in_iff: "inShard (shardStart k i) (shardStart k ((i + 1) mod k)) h \<longleftrightarrow>
      (if i + 1 < k then i * S \<le> ?h \<and> ?h < (i + 1) * S else i * S \<le> ?h)" if "i < k" for i
  proof -
    have j: "(i + 1) mod k \<le> k" using assms(1) by (simp add: less_imp_le)
    have le: "i \<le> k" using that by simp
    note n = shard_start_nat [OF assms le, folded S_def] shard_start_nat [OF assms j, folded S_def]
    show ?thesis
    proof (cases "i + 1 < k")
      case True
      then have "(i + 1) mod k = i + 1" by simp
      then show ?thesis using S True n
        by (simp add: inShard_def word_le_nat_alt word_less_nat_alt)
    next
      case False
      then have "i + 1 = k" using that by simp
      then have "(i + 1) mod k = 0" by simp
      then show ?thesis using False n by (simp add: inShard_def word_le_nat_alt word_less_nat_alt)
    qed
  qed
  let ?i = "min (?h div S) (k - 1)"
  have "?i < k" using assms(1) by simp
  have "?i * S \<le> ?h"
    by (metis div_times_less_eq_dividend min.cobounded1 mult_le_mono1 order.trans)
  moreover have "?h < (?i + 1) * S" if "?i + 1 < k"
  proof -
    have "?i = ?h div S" using that by auto
    moreover have "?h < (?h div S + 1) * S" using S by (simp add: dividend_less_div_times)
    ultimately show ?thesis by simp
  qed
  ultimately have ex: " inShard (shardStart k ?i) (shardStart k ((?i + 1) mod k)) h"
    unfolding in_iff [OF \<open>?i < k\<close>] by auto
  have uniq: "i = j" if i: "i < k" "inShard (shardStart k i) (shardStart k ((i + 1) mod k)) h"
    and j: "j < k" "inShard (shardStart k j) (shardStart k ((j + 1) mod k)) h" for i j
  proof -
    have contra: False if ab: "a < b" "b < k" "inShard (shardStart k a) (shardStart k ((a + 1) mod k)) h"
      "inShard (shardStart k b) (shardStart k ((b + 1) mod k)) h" for a b
    proof -
      have "?h < (a + 1) * S" "b * S \<le> ?h" using ab in_iff [of a] in_iff [of b] by (auto split: if_splits)
      moreover have "(a + 1) * S \<le> b * S" using ab(1) by (intro mult_le_mono1) simp
      ultimately show False by linarith
    qed
    show ?thesis using contra [of i j] contra [of j i] i j by (metis linorder_neqE_nat)
  qed
  show ?thesis using ex uniq \<open>?i < k\<close> by blast
qed

section \<open>Starting a block\<close>

lemma startBlock_spec:
  assumes "length (shardSchedule n) = k" "0 < k" "k < 2 ^ 63" "nextShard n = int j" "j < k"
    and "shardSchedule n ! j = int i" "i < k"
  obtains n' cw moved where
    "startBlock n = Inr (n', cw, (currentBlockAckCount n * 2) sdiv 3)"
    "newBlock cw" "startHash cw = shardStart k i" "endHash cw = shardStart k ((i + 1) mod k)"
    "sencoder n' = encoderOf moved"
    "mset moved = mset (filter (wanted (startHash cw) (endHash cw) (sRandomizer n)) (sbuffer n))"
    "mset (sbuffer n') = mset (filter (\<lambda>v. \<not> wanted (startHash cw) (endHash cw) (sRandomizer n) v) (sbuffer n))"
    "nextShard n' = int ((j + 1) mod k)" "inFlight n' = 0" "encodingCurrentBlock n'" "currentBlockAckCount n' = 0"
    "\<not> f_less (sendWindow n') (Fin 1)"
proof -
  let ?cw = "zeroCodeword\<lparr>newBlock := True, startHash := shardStart k i, endHash := shardStart k ((i + 1) mod k)\<rparr>"
  obtain buf enc where mv: "moveShard Encoder_AddHashedSymbol (shardStart k i) (shardStart k ((i + 1) mod k))
      (sRandomizer n) (sbuffer n) 0 (Encoder_Reset (sencoder n)) = (buf, enc)" by fastforce
  obtain moved where m: "mset moved = mset (filter (wanted (shardStart k i) (shardStart k ((i + 1) mod k)) (sRandomizer n)) (sbuffer n))"
    "mset buf = mset (filter (\<lambda>v. \<not> wanted (shardStart k i) (shardStart k ((i + 1) mod k)) (sRandomizer n) v) (sbuffer n))"
    "enc = fold (\<lambda>v s. Encoder_AddHashedSymbol s v) moved (Encoder_Reset (sencoder n))"
    by (rule moveShard_all [OF mv])
  have enc: "enc = encoderOf moved"
    unfolding m(3) by (simp add: encoderOf_def Encoder_Reset_def resetWindow_eq)
  have md: "(int i + 1) smod int k = int ((i + 1) mod k)" "(int j + 1) smod int k = int ((j + 1) mod k)"
    using assms(2) by (simp_all add: smod_int_alt_def sgn_if zmod_int add.commute)
  let ?n = "n\<lparr>sbuffer := buf, sencoder := enc, nextShard := int ((j + 1) mod k), encodingCurrentBlock := True,
      sendWindow := atLeastOne (f_mul (f_of_int (currentBlockAckCount n)) (controlOverhead (sconfig n))),
      currentBlockAckCount := 0, inFlight := 0\<rparr>"
  have "startBlock n = Inr (?n, ?cw, (currentBlockAckCount n * 2) sdiv 3)"
    using assms mv by (simp add: startBlock_def getInt_def get_def Let_def md flip: shardStart_def)
  moreover have "\<not> f_less (atLeastOne x) (Fin 1)" for x by (simp add: atLeastOne_def)
  ultimately show ?thesis using that [of ?n ?cw moved] enc m(1,2) by simp
qed

text \<open>The receiver takes the symbols of the announced range into a fresh decoder.\<close>

lemma receiver_block:
  assumes "moveShard Decoder_AddHashedSymbol start stop rd buffer 0 emptyDecoder = (buffer', dec)"
  obtains moved where "dec = decoderOf moved" "mset moved = mset (filter (wanted start stop rd) buffer)"
    "mset buffer' = mset (filter (\<lambda>v. \<not> wanted start stop rd v) buffer)"
proof -
  obtain moved where m: "mset moved = mset (filter (wanted start stop rd) buffer)"
    "mset buffer' = mset (filter (\<lambda>v. \<not> wanted start stop rd v) buffer)"
    "dec = fold (\<lambda>v s. Decoder_AddHashedSymbol s v) moved emptyDecoder"
    by (rule moveShard_all [OF assms])
  then show ?thesis using that by (simp add: decoderOf_def)
qed

section \<open>The send window\<close>

lemma startBlock_flight:
  "startBlock n = Inr (n', cw, b) \<Longrightarrow> encodingCurrentBlock n' \<and> inFlight n' = 0 \<and> soutbox n' = soutbox n"
  by (auto simp: startBlock_def Let_def bindR_Inr_iff case_prod_unfold split: if_splits)

section \<open>Acknowledgements\<close>

text \<open>Every coded symbol of a block in progress is acknowledged exactly once; later ones are dropped.\<close>

lemma receiver_ack:
  assumes "receiver_onCodeword T r cw = Some (Inr (r', remote, decoded))"
  shows "(if currentBlockReceived r \<and> \<not> newBlock cw then r' = r \<and> remote = [] \<and> \<not> decoded
          else \<exists>a. routbox r' = routbox r @ [AckMsg a] \<and> ackStart a = newBlock cw \<and> ackBlock a = decoded \<and>
                   (decoded \<longrightarrow> currentBlockReceived r' \<and> rdecoder r' = emptyDecoder) \<and>
                   (\<not> decoded \<longrightarrow> remote = [] \<and> txs_of a = []))"
proof (cases "currentBlockReceived r \<and> \<not> newBlock cw")
  case True
  then show ?thesis using assms by (simp add: receiver_onCodeword_def)
next
  case False
  then show ?thesis using assms
    by (auto simp: receiver_onCodeword_def Let_def bindO_Inr_iff Decoder_Reset_eq split: if_splits prod.splits)
qed

end
