(* ===== verification/Newsim_Link.thy ===== *)
theory Newsim_Link
  imports Newsim_Shards
begin

text \<open>
  One block over a link of \<open>newsim/coding.go\<close>: the coded symbols of the sender's encoder, the
  first of them with the range of the shard, reach the receiver in order. The receiver
  acknowledges them one by one, and the block ends with the difference of the two shards.
\<close>

section \<open>The codewords of a block\<close>

text \<open>The receiver's answers to the codewords it receives, in order.\<close>

fun receiveAll ::
  "transaction symbolOps \<Rightarrow> receiver \<Rightarrow> codeword list \<Rightarrow> (receiver \<times> txSymbol list) run" where
  "receiveAll T r [] = Some (Inr (r, []))"
| "receiveAll T r (cw # cws) =
     bindO (receiver_onCodeword T r cw) (\<lambda>(r, txs, decoded).
     bindO (receiveAll T r cws) (\<lambda>(r, out). Some (Inr (r, txs @ out))))"

text \<open>The codewords that \<open>tryFillSendWindow\<close> sends for the coded symbols of a block.\<close>

abbreviation plainCodeword :: "transaction CodedSymbol \<Rightarrow> codeword" where
  "plainCodeword c \<equiv> zeroCodeword\<lparr>CodedSymbol_of := c\<rparr>"

abbreviation firstCodeword :: "u64 \<Rightarrow> u64 \<Rightarrow> transaction CodedSymbol \<Rightarrow> codeword" where
  "firstCodeword start stop c \<equiv>
     zeroCodeword\<lparr>newBlock := True, startHash := start, endHash := stop, CodedSymbol_of := c\<rparr>"

abbreviation nack :: "bool \<Rightarrow> payload" where
  "nack start \<equiv> AckMsg \<lparr>ackBlock = False, ackStart = start, txs_of = []\<rparr>"

text \<open>
  What a receiver has to show for \<open>k\<close> codewords of a block, where \<open>P\<close> is what only the sender
  has and \<open>Q\<close> what only the receiver has; the first acknowledgement repeats \<open>start\<close>.
\<close>

definition block_done :: "txSymbol set \<Rightarrow> txSymbol set \<Rightarrow> ack \<Rightarrow> receiver \<Rightarrow> txSymbol list \<Rightarrow> bool" where
  "block_done P Q a r out \<longleftrightarrow>
     ackBlock a \<and> set (txs_of a) = Q \<and> distinct (txs_of a) \<and> currentBlockReceived r \<and>
     rdecoder r = emptyDecoder \<and> set out = P \<and> distinct out"

fun answers :: "bool \<Rightarrow> ack list \<Rightarrow> bool" where
  "answers start [] = True"
| "answers start (a # as) = (ackStart a = start \<and> answers False as)"

definition negative :: "ack list \<Rightarrow> bool" where
  "negative as \<longleftrightarrow> (\<forall>a\<in>set as. \<not> ackBlock a \<and> txs_of a = [])"

definition block_result ::
  "txSymbol set \<Rightarrow> txSymbol set \<Rightarrow> bool \<Rightarrow> nat \<Rightarrow> payload list \<Rightarrow> receiver \<Rightarrow> txSymbol list \<Rightarrow> bool" where
  "block_result P Q start k box r out \<longleftrightarrow>
     (if currentBlockReceived r
      then \<exists>as a. length as < k \<and> routbox r = box @ map AckMsg (as @ [a]) \<and>
                  answers start (as @ [a]) \<and> negative as \<and> block_done P Q a r out
      else \<exists>as. length as = k \<and> routbox r = box @ map AckMsg as \<and>
                answers start as \<and> negative as \<and> out = [])"

lemma block_result_cons:
  assumes "block_result P Q False k (box @ [nack start]) r out"
  shows "block_result P Q start (Suc k) box r out"
proof (cases "currentBlockReceived r")
  case True
  then obtain as a where "length as < k" "routbox r = box @ [nack start] @ map AckMsg (as @ [a])"
    "answers False (as @ [a])" "negative as" "block_done P Q a r out"
    using assms by (auto simp: block_result_def)
  then show ?thesis
    using True unfolding block_result_def
    by (simp only: if_True, intro exI [of _ "\<lparr>ackBlock = False, ackStart = start, txs_of = []\<rparr> # as"] exI [of _ a])
      (simp add: negative_def)
next
  case False
  then obtain as where "length as = k" "routbox r = box @ [nack start] @ map AckMsg as"
    "answers False as" "negative as" "out = []"
    using assms by (auto simp: block_result_def)
  then show ?thesis
    using False unfolding block_result_def
    by (simp only: if_False, intro exI [of _ "\<lparr>ackBlock = False, ackStart = start, txs_of = []\<rparr> # as"])
      (simp add: negative_def)
qed

lemma block_result_now:
  assumes "set (Remote d) = P \<and> set (Local d) = Q \<and> distinct (Remote d) \<and> distinct (Local d)"
    and "currentBlockReceived r" "rdecoder r = emptyDecoder"
    and "routbox r = box @ [AckMsg \<lparr>ackBlock = True, ackStart = start, txs_of = Local d\<rparr>]"
  shows "block_result P Q start (Suc k) box r (Remote d)"
proof -
  let ?a = "\<lparr>ackBlock = True, ackStart = start, txs_of = Local d\<rparr>"
  have "block_done P Q ?a r (Remote d)" using assms by (simp add: block_done_def)
  then show ?thesis
    using assms(2,4) unfolding block_result_def
    by (simp only: if_True, intro exI [of _ "[]"] exI [of _ ?a]) (simp add: negative_def)
qed

section \<open>One coded symbol\<close>

lemma dropped_all:
  "currentBlockReceived r \<Longrightarrow> receiveAll T r (map plainCodeword cws) = Some (Inr (r, []))"
  by (induction cws) (simp_all add: receiver_onCodeword_def zeroCodeword_def)

text \<open>
  The decoder of the receiver is up to date with \<open>k\<close> coded symbols of \<open>A\<close>, and the sender's
  encoder likewise; the next coded symbol either settles the block or leaves it so.
\<close>

definition block_at ::
  "transaction symbolOps \<Rightarrow> nat \<Rightarrow> txSymbol list \<Rightarrow> txSymbol list \<Rightarrow> transaction Encoder \<Rightarrow> transaction Decoder \<Rightarrow> bool" where
  "block_at T N A B e d \<longleftrightarrow>
     encoder_at (length (cs d)) A e \<and> decoder_at T N (remaining B A) (remaining A B) B 0 d \<and> dirty d = []"

text \<open>The sets of a block, and what is assumed of the hash while its first \<open>n\<close> coded symbols are decoded.\<close>

definition block_setting :: "transaction symbolOps \<Rightarrow> nat \<Rightarrow> txSymbol list \<Rightarrow> txSymbol list \<Rightarrow> bool" where
  "block_setting T N A B \<longleftrightarrow>
     symbol_laws T \<and> setting T N (remaining B A) (remaining A B) B \<and> distinct A \<and> distinct B \<and>
     (\<forall>s\<in>set A. simpleFor N s)"

abbreviation block_apart ::
  "transaction symbolOps \<Rightarrow> nat \<Rightarrow> txSymbol list \<Rightarrow> txSymbol list \<Rightarrow> nat \<Rightarrow> transaction Encoder \<Rightarrow> transaction Decoder \<Rightarrow> bool" where
  "block_apart T N A B n e d \<equiv> run_apart T N (remaining B A) (remaining A B) (rounds n) e d"

lemma block_step:
  assumes set: "block_setting T N A B" and at: "block_at T N A B e d" and n: "length (cs d) < N"
    and ap: "block_apart T N A B (Suc k) e d"
  obtains e' c d' d1 where "ProduceNextCodedSymbol T e = Some (Inr (e', c))"
    "AddCodedSymbol T d c = Some (Inr d1)" "TryDecode T d1 = Some (Inr d')" "block_at T N A B e' d'"
    "block_apart T N A B k e' d'" "length (cs d') = Suc (length (cs d))"
    "Decoded d' \<longrightarrow> set (Remote d') = set A - set B \<and> set (Local d') = set B - set A \<and>
       distinct (Remote d') \<and> distinct (Local d')"
proof -
  have T: "symbol_laws T" and st: "setting T N (remaining B A) (remaining A B) B"
    and sA: "distinct A" "distinct B" "\<forall>s\<in>set A. simpleFor N s" using set by (simp_all add: block_setting_def)
  have enc: "encoder_at (length (cs d)) A e" and dec: "decoder_at T N (remaining B A) (remaining A B) B 0 d"
    and dr: "dirty d = []" using at by (simp_all add: block_at_def)
  have "block_apart T N A B 1 e d" using ap by simp
  then obtain e' d' where s: "session T 1 e d = Some (Inr (e', d'))" "dirty d' = []"
    "length (cs d') = length (cs d) + 1" "decoder_at T N (remaining B A) (remaining A B) B 0 d'"
    "cells_apart T N (remaining B A) (remaining A B) d'"
    using symbol_laws.session_spec [OF T st sA enc dec _ dr, of 1] n by auto
  obtain c d1 where r: "ProduceNextCodedSymbol T e = Some (Inr (e', c))"
    "AddCodedSymbol T d c = Some (Inr d1)" "TryDecode T d1 = Some (Inr d')"
    using s(1) by (auto simp: bindO_Inr_iff)
  have ap': "block_apart T N A B k e' d'" using ap r by simp
  have "\<forall>s\<in>set A. walkable N (freshMapping (Hash s))" "N \<le> 2 ^ 34"
    using sA(3) st by (simp_all add: simpleFor_def setting_def)
  then have "encoder_at (length (cs d) + 1) A e'"
    using symbol_laws.ProduceNext_spec [OF T enc _ n] r(1) by fastforce
  then have "block_at T N A B e' d'" using s by (simp add: block_at_def)
  moreover have "set (Remote d') = set A - set B \<and> set (Local d') = set B - set A \<and>
       distinct (Remote d') \<and> distinct (Local d')" if "Decoded d'"
  proof -
    have "cs d' \<noteq> []" using s(3) by auto
    then show ?thesis
      using symbol_laws.decoded_difference [OF T st s(4) _ s(2,5)] that s(4) by (auto simp: decoder_at_def)
  qed
  ultimately show ?thesis using that r s(3) ap' by simp
qed

text \<open>What a receiver with an up-to-date decoder does with a coded symbol.\<close>

definition settle :: "bool \<Rightarrow> transaction Decoder \<Rightarrow> receiver \<Rightarrow> receiver \<times> txSymbol list \<times> bool" where
  "settle start d r =
     (if Decoded d
      then (r\<lparr>rdecoder := emptyDecoder, currentBlockCount := currentBlockCount r + 1, currentBlockReceived := True,
              routbox := routbox r @ [AckMsg \<lparr>ackBlock = True, ackStart = start, txs_of = Local d\<rparr>]\<rparr>, Remote d, True)
      else (r\<lparr>rdecoder := d, currentBlockCount := currentBlockCount r + 1, routbox := routbox r @ [nack start]\<rparr>, [], False))"

lemma receiver_plain:
  assumes "AddCodedSymbol T (rdecoder r) c = Some (Inr d1)" "TryDecode T d1 = Some (Inr d')" "\<not> currentBlockReceived r"
  shows "receiver_onCodeword T r (plainCodeword c) = Some (Inr (settle False d' r))"
  using assms by (simp add: receiver_onCodeword_def zeroCodeword_def Decoder_Reset_eq settle_def)

lemma receiver_first:
  assumes "moveShard Decoder_AddHashedSymbol start stop (rRandomizer r) (rbuffer r) 0 (rdecoder r) = (buffer', d)"
    and "AddCodedSymbol T d c = Some (Inr d1)" "TryDecode T d1 = Some (Inr d')"
  shows "receiver_onCodeword T r (firstCodeword start stop c) = Some (Inr (settle True d'
    (r\<lparr>rdecoder := d, rbuffer := buffer', currentBlockReceived := False, currentBlockCount := 0\<rparr>)))"
  using assms by (simp add: receiver_onCodeword_def zeroCodeword_def Decoder_Reset_eq settle_def)

text \<open>The rest of a block after its codewords so far.\<close>

lemma produce_rest:
  assumes "block_setting T N A B" "block_at T N A B e d" "length (cs d) + n \<le> N"
  shows "\<exists>e' css. produceMany T n e = Some (Inr (e', css))"
  using symbol_laws.produceMany_spec [of T "length (cs d)" A e N n] assms
  by (auto simp: block_setting_def block_at_def setting_def simpleFor_def)

text \<open>
  \<open>rest n\<close>: the encoder produces \<open>n\<close> more coded symbols, and the receiver answers them as a
  block should.
\<close>

definition rest_of :: "transaction symbolOps \<Rightarrow> txSymbol set \<Rightarrow> txSymbol set \<Rightarrow> nat \<Rightarrow> transaction Encoder \<Rightarrow> receiver \<Rightarrow> bool" where
  "rest_of T P Q n e r \<longleftrightarrow>
     (\<exists>e' css r' out. produceMany T n e = Some (Inr (e', css)) \<and>
        receiveAll T r (map plainCodeword css) = Some (Inr (r', out)) \<and> rbuffer r' = rbuffer r \<and>
        block_result P Q False n (routbox r) r' out)"

lemma block_next:
  assumes set: "block_setting T N A B" and at: "block_at T N A B e' d'" and n: "length (cs d') + n \<le> N"
    and ap: "block_apart T N A B n e' d'"
    and dec: "Decoded d' \<longrightarrow> set (Remote d') = set A - set B \<and> set (Local d') = set B - set A \<and>
       distinct (Remote d') \<and> distinct (Local d')"
    and IH: "\<And>r. block_at T N A B e' (rdecoder r) \<Longrightarrow> length (cs (rdecoder r)) + n \<le> N \<Longrightarrow>
       block_apart T N A B n e' (rdecoder r) \<Longrightarrow>
       \<not> currentBlockReceived r \<Longrightarrow> rest_of T (set A - set B) (set B - set A) n e' r"
    and r: "\<not> currentBlockReceived r"
  shows "\<exists>e'' css r' out. produceMany T n e' = Some (Inr (e'', css)) \<and>
           receiveAll T (fst (settle start d' r)) (map plainCodeword css) = Some (Inr (r', out)) \<and> rbuffer r' = rbuffer r \<and>
           block_result (set A - set B) (set B - set A) start (Suc n) (routbox r) r' (fst (snd (settle start d' r)) @ out)"
proof (cases "Decoded d'")
  case True
  let ?r = "fst (settle start d' r)"
  obtain e'' css where p: "produceMany T n e' = Some (Inr (e'', css))" using produce_rest [OF set at n] by blast
  have "receiveAll T ?r (map plainCodeword css) = Some (Inr (?r, []))"
    using True by (intro dropped_all) (simp add: settle_def)
  moreover have "block_result (set A - set B) (set B - set A) start (Suc n) (routbox r) ?r (Remote d')"
    using True by (intro block_result_now dec [rule_format]) (simp_all add: settle_def)
  ultimately show ?thesis using p True by (simp add: settle_def)
next
  case False
  let ?r = "fst (settle start d' r)"
  have "rest_of T (set A - set B) (set B - set A) n e' ?r"
    using False at n r ap by (intro IH) (simp_all add: settle_def)
  then obtain e'' css r' out where f: "produceMany T n e' = Some (Inr (e'', css))"
    "receiveAll T ?r (map plainCodeword css) = Some (Inr (r', out))" "rbuffer r' = rbuffer ?r"
    "block_result (set A - set B) (set B - set A) False n (routbox ?r) r' out"
    unfolding rest_of_def by blast
  have box: "routbox ?r = routbox r @ [nack start]" "rbuffer ?r = rbuffer r" "fst (snd (settle start d' r)) = []"
    using False by (simp_all add: settle_def)
  then show ?thesis using f(1-3) block_result_cons [OF f(4) [unfolded box]] by auto
qed

lemma block_rest:
  assumes set: "block_setting T N A B"
    and "block_at T N A B e (rdecoder r)" "length (cs (rdecoder r)) + n \<le> N" "block_apart T N A B n e (rdecoder r)"
    and "\<not> currentBlockReceived r"
  shows "rest_of T (set A - set B) (set B - set A) n e r"
  using assms(2-)
proof (induction n arbitrary: e r)
  case 0
  then show ?case by (simp add: rest_of_def block_result_def negative_def)
next
  case (Suc n)
  have lt: "length (cs (rdecoder r)) < N" using Suc.prems(2) by simp
  obtain e' c d' d1 where s: "ProduceNextCodedSymbol T e = Some (Inr (e', c))"
    "AddCodedSymbol T (rdecoder r) c = Some (Inr d1)" "TryDecode T d1 = Some (Inr d')" "block_at T N A B e' d'"
    "block_apart T N A B n e' d'" "length (cs d') = Suc (length (cs (rdecoder r)))"
    "Decoded d' \<longrightarrow> set (Remote d') = set A - set B \<and> set (Local d') = set B - set A \<and>
       distinct (Remote d') \<and> distinct (Local d')"
    by (rule block_step [OF set Suc.prems(1) lt Suc.prems(3)])
  obtain e'' css r' out where f: "produceMany T n e' = Some (Inr (e'', css))"
    "receiveAll T (fst (settle False d' r)) (map plainCodeword css) = Some (Inr (r', out))" "rbuffer r' = rbuffer r"
    "block_result (set A - set B) (set B - set A) False (Suc n) (routbox r) r' (fst (snd (settle False d' r)) @ out)"
    using block_next [OF set s(4) _ s(5,7) Suc.IH Suc.prems(4), where start = False] s(6) Suc.prems(2) by auto
  have "receiveAll T r (map plainCodeword (c # css)) = Some (Inr (r', fst (snd (settle False d' r)) @ out))"
    using receiver_plain [OF s(2,3) Suc.prems(4)] f(2) by (simp add: case_prod_unfold)
  moreover have "produceMany T (Suc n) e = Some (Inr (e'', c # css))" using s(1) f(1) by simp
  ultimately show ?case unfolding rest_of_def using f(3,4) by blast
qed

section \<open>The block\<close>

lemma link_block:
  assumes set: "block_setting T N A B" and n: "Suc n \<le> N"
    and ap: "block_apart T N A B (Suc n) (encoderOf A) (decoderOf B)"
    and mv: "moveShard Decoder_AddHashedSymbol start stop (rRandomizer r) (rbuffer r) 0 (rdecoder r) = (buffer', decoderOf B)"
  shows "\<exists>e c css r' out. produceMany T (Suc n) (encoderOf A) = Some (Inr (e, c # css)) \<and>
     receiveAll T r (firstCodeword start stop c # map plainCodeword css) = Some (Inr (r', out)) \<and>
     rbuffer r' = buffer' \<and> block_result (set A - set B) (set B - set A) True (Suc n) (routbox r) r' out"
proof -
  let ?r = "r\<lparr>rdecoder := decoderOf B, rbuffer := buffer', currentBlockReceived := False, currentBlockCount := 0\<rparr>"
  have T: "symbol_laws T" using set by (simp add: block_setting_def)
  have at: "block_at T N A B (encoderOf A) (decoderOf B)"
    using encoder_at_fold [of A] decoder_at_decoderOf [of T N "remaining B A" "remaining A B" B] decoderOf_fields [of B]
    by (simp add: block_at_def encoderOf_def)
  have lt: "length (cs (decoderOf B)) < N" using n decoderOf_fields [of B] by simp
  obtain e' c d' d1 where s: "ProduceNextCodedSymbol T (encoderOf A) = Some (Inr (e', c))"
    "AddCodedSymbol T (decoderOf B) c = Some (Inr d1)" "TryDecode T d1 = Some (Inr d')" "block_at T N A B e' d'"
    "block_apart T N A B n e' d'" "length (cs d') = Suc (length (cs (decoderOf B)))"
    "Decoded d' \<longrightarrow> set (Remote d') = set A - set B \<and> set (Local d') = set B - set A \<and>
       distinct (Remote d') \<and> distinct (Local d')"
    by (rule block_step [OF set at lt ap])
  have IH: "\<And>r. block_at T N A B e' (rdecoder r) \<Longrightarrow> length (cs (rdecoder r)) + n \<le> N \<Longrightarrow>
       block_apart T N A B n e' (rdecoder r) \<Longrightarrow>
       \<not> currentBlockReceived r \<Longrightarrow> rest_of T (set A - set B) (set B - set A) n e' r"
    using block_rest [OF set] by blast
  obtain e'' css r' out where f: "produceMany T n e' = Some (Inr (e'', css))"
    "receiveAll T (fst (settle True d' ?r)) (map plainCodeword css) = Some (Inr (r', out))" "rbuffer r' = rbuffer ?r"
    "block_result (set A - set B) (set B - set A) True (Suc n) (routbox ?r) r' (fst (snd (settle True d' ?r)) @ out)"
    using block_next [OF set s(4) _ s(5,7) IH, of ?r, where start = True] s(6) n decoderOf_fields [of B] by auto
  have "receiveAll T r (firstCodeword start stop c # map plainCodeword css) =
      Some (Inr (r', fst (snd (settle True d' ?r)) @ out))"
    using receiver_first [OF mv s(2,3)] f(2) by (simp add: case_prod_unfold)
  moreover have "produceMany T (Suc n) (encoderOf A) = Some (Inr (e'', c # css))" using s(1) f(1) by simp
  ultimately show ?thesis using f(3,4) by fastforce
qed

end
