(* ===== verification/Newsim_Fill.thy ===== *)
theory Newsim_Fill
  imports Newsim_Link
begin

text \<open>
  \<open>tryFillSendWindow\<close> of \<open>newsim/coding.go\<close> returns: it sends the next coded symbols of the
  encoder, as many as the send window has room for, and after the start of a block the burst
  that its size asks for.
\<close>

lemma window_has_room:
  assumes "0 \<le> i" "i < 2 ^ 53"
  shows "f_less (f_of_int i) (Fin w) \<longleftrightarrow> of_int i < w"
proof -
  obtain k where k: "i = int k" "k < 2 ^ 53" using assms by (metis zero_le_imp_eq_int of_nat_less_numeral_power_cancel_iff)
  have "(of_nat k :: rat) < 2 ^ 53" using k(2) by (metis of_nat_less_iff of_nat_numeral of_nat_power)
  also have "(2 :: rat) ^ 53 \<le> 2 powi 1023" by simp
  finally have "f_of_int i = Fin (of_nat k)" using k by (simp add: f_of_int_def rnd_Fin rndq_of_nat)
  then show ?thesis by (simp add: k(1))
qed

lemma produceMany_add:
  "produceMany T a e = Some (Inr (e1, cs1)) \<Longrightarrow> produceMany T b e1 = Some (Inr (e2, cs2)) \<Longrightarrow>
   produceMany T (a + b) e = Some (Inr (e2, cs1 @ cs2))"
  by (induction a arbitrary: e cs1) (auto simp: bindO_Inr_iff)

text \<open>A sender that has put more coded symbols of its block into the outbox.\<close>

definition sentMore :: "sender \<Rightarrow> transaction Encoder \<Rightarrow> codeword list \<Rightarrow> sender" where
  "sentMore n e cws = n\<lparr>sencoder := e, soutbox := soutbox n @ map CodewordMsg cws, inFlight := inFlight n + int (length cws)\<rparr>"

lemma sentMore_simps [simp]:
  "sencoder (sentMore n e cws) = e" "inFlight (sentMore n e cws) = inFlight n + int (length cws)"
  "sendWindow (sentMore n e cws) = sendWindow n" "encodingCurrentBlock (sentMore n e cws) = encodingCurrentBlock n"
  by (simp_all add: sentMore_def)

lemma sentMore_append: "sentMore (sentMore n e cws) e' cws' = sentMore n e' (cws @ cws')"
  by (simp add: sentMore_def)

lemma sendPlain_sends:
  "ProduceNextCodedSymbol T (sencoder n) = Some (Inr (e, c)) \<Longrightarrow> sendPlain T n = Some (Inr (sentMore n e [plainCodeword c]))"
  by (simp add: sendPlain_def sentMore_def)

lemma sendBurst_sends:
  "produceMany T k (sencoder n) = Some (Inr (e, css)) \<Longrightarrow>
   sendBurst T k n = Some (Inr (sentMore n e (map plainCodeword css)))"
proof (induction k arbitrary: n css)
  case 0
  then show ?case by (simp add: sentMore_def)
next
  case (Suc k)
  then obtain e1 c cs where c: "ProduceNextCodedSymbol T (sencoder n) = Some (Inr (e1, c))"
    "produceMany T k e1 = Some (Inr (e, cs))" "css = c # cs" by (auto simp: bindO_Inr_iff)
  then show ?case using Suc.IH [of "sentMore n e1 [plainCodeword c]" cs]
    by (simp add: sendPlain_sends sentMore_append)
qed

lemma length_produceMany: "produceMany T k e = Some (Inr (e', css)) \<Longrightarrow> length css = k"
  by (induction k arbitrary: e css) (auto simp: bindO_Inr_iff)

text \<open>The encoder has enough symbols left.\<close>

definition can_send :: "transaction symbolOps \<Rightarrow> nat \<Rightarrow> txSymbol list \<Rightarrow> nat \<Rightarrow> transaction Encoder \<Rightarrow> bool" where
  "can_send T N A j e \<longleftrightarrow>
     symbol_laws T \<and> N \<le> 2 ^ 34 \<and> (\<forall>s\<in>set A. walkable N (freshMapping (Hash s))) \<and> encoder_at j A e"

lemma can_send_many:
  assumes "can_send T N A j e" "j + k \<le> N"
  obtains e' css where "produceMany T k e = Some (Inr (e', css))" "can_send T N A (j + k) e'" "length css = k"
  using assms symbol_laws.produceMany_spec [of T j A e N k] by (auto simp: can_send_def)

lemma fill_window:
  assumes "encodingCurrentBlock n" "can_send T N A j (sencoder n)" "sendWindow n = Fin w" "0 \<le> inFlight n"
    and "k = nat (\<lceil>w\<rceil> - inFlight n)" "j + k \<le> N" "inFlight n + int k < 2 ^ 53"
  shows "\<exists>e css. produceMany T k (sencoder n) = Some (Inr (e, css)) \<and>
    tryFillSendWindow T n = Some (Inr (sentMore n e (map plainCodeword css)))"
  using assms
proof (induction k arbitrary: n j)
  case 0
  then have "\<not> f_less (f_of_int (inFlight n)) (sendWindow n)" by (simp add: window_has_room ceiling_le_iff not_less)
  then have "tryFillSendWindow T n = Some (Inr n)"
    using 0(1) by (subst tryFillSendWindow.simps) (simp add: tryProduceCodeword_def)
  then show ?case by (simp add: sentMore_def)
next
  case (Suc k)
  have fl: "inFlight n < \<lceil>w\<rceil>" "inFlight n < 2 ^ 53" using Suc.prems(5,7) by linarith+
  have room: "f_less (f_of_int (inFlight n)) (sendWindow n)"
    using fl Suc.prems(3,4) by (simp add: window_has_room less_ceiling_iff)
  obtain e1 cs where "produceMany T 1 (sencoder n) = Some (Inr (e1, cs))" "can_send T N A (j + 1) e1"
    by (rule can_send_many [OF Suc.prems(2), of 1]) (use Suc.prems(6) in simp_all)
  then obtain c where c: "ProduceNextCodedSymbol T (sencoder n) = Some (Inr (e1, c))" "can_send T N A (Suc j) e1"
    by (auto simp: bindO_Inr_iff)
  let ?n = "sentMore n e1 [plainCodeword c]"
  have step: "tryFillSendWindow T n = tryFillSendWindow T ?n"
    using Suc.prems(1) room c(1)
    by (subst tryFillSendWindow.simps) (simp add: tryProduceCodeword_def sentMore_def)
  have k: "k = nat (\<lceil>w\<rceil> - inFlight ?n)" "Suc j + k \<le> N" "inFlight ?n + int k < 2 ^ 53"
    using Suc.prems(5) Suc.prems(6) Suc.prems(7) by (simp, simp, simp only: sentMore_simps list.size of_nat_Suc)
  obtain e css where r: "produceMany T k e1 = Some (Inr (e, css))"
    "tryFillSendWindow T ?n = Some (Inr (sentMore ?n e (map plainCodeword css)))"
    using Suc.IH [OF _ _ _ _ k] Suc.prems(1,3,4) c(2) by auto
  then show ?case using c(1) by (intro exI [of _ e] exI [of _ "c # css"]) (simp add: step sentMore_append)
qed

lemma startBlock_window:
  assumes "startBlock n = Inr (n1, cw, b)" "sendWindow n1 = Fin w"
  shows "1 \<le> w"
  using assms by (auto simp: startBlock_def Let_def bindR_Inr_iff case_prod_unfold atLeastOne_def split: if_splits)

text \<open>The codewords of a block that starts: the first announces the range of its shard.\<close>

fun announced :: "codeword \<Rightarrow> transaction CodedSymbol list \<Rightarrow> codeword list" where
  "announced cw [] = []"
| "announced cw (c # css) = cw\<lparr>CodedSymbol_of := c\<rparr> # map plainCodeword css"

lemma announced_append: "css \<noteq> [] \<Longrightarrow> announced cw css @ map plainCodeword css' = announced cw (css @ css')"
  by (cases css) simp_all

lemma start_fills:
  assumes "\<not> encodingCurrentBlock n" "startBlock n = Inr (n1, cw, b)" "can_send T N A j (sencoder n1)" "sendWindow n1 = Fin w"
    and "k = max (nat \<lceil>w\<rceil>) (Suc (nat b))" "j + k \<le> N" "int k < 2 ^ 53"
  shows "\<exists>e css. produceMany T k (sencoder n1) = Some (Inr (e, css)) \<and>
    tryFillSendWindow T n = Some (Inr (sentMore n1 e (announced cw css)))"
proof -
  have w: "1 \<le> w" by (rule startBlock_window [OF assms(2,4)])
  have n1: "encodingCurrentBlock n1" "inFlight n1 = 0" using startBlock_flight [OF assms(2)] by simp_all
  have room: "f_less (f_of_int (inFlight n1)) (sendWindow n1)" using w by (simp add: n1 assms(4) window_has_room)
  define m where "m = Suc (nat b)"
  let ?r = "nat (\<lceil>w\<rceil> - int m)"
  have k: "k = m + ?r" using assms(5) unfolding m_def by linarith
  obtain e1 cs1 where s: "produceMany T m (sencoder n1) = Some (Inr (e1, cs1))" "can_send T N A (j + m) e1" "length cs1 = m"
    by (rule can_send_many [OF assms(3), of m]) (use assms(6) k in simp_all)
  then obtain e0 c cs where c: "ProduceNextCodedSymbol T (sencoder n1) = Some (Inr (e0, c))"
    "produceMany T (nat b) e0 = Some (Inr (e1, cs))" "cs1 = c # cs" by (auto simp: m_def bindO_Inr_iff)
  let ?n0 = "sentMore n1 e0 [cw\<lparr>CodedSymbol_of := c\<rparr>]" and ?n2 = "sentMore n1 e1 (announced cw cs1)"
  have "sendBurst T (nat b) ?n0 = Some (Inr ?n2)"
    using sendBurst_sends [of T "nat b" ?n0 e1 cs] c by (simp add: sentMore_append)
  then have step: "tryFillSendWindow T n = tryFillSendWindow T ?n2"
    using assms(1,2) room c(1)
    by (subst tryFillSendWindow.simps) (simp add: tryProduceCodeword_def sentMore_def)
  have "inFlight ?n2 = int m" using c(3) s(3) by (simp add: n1)
  then have n2: "?r = nat (\<lceil>w\<rceil> - inFlight ?n2)" "0 \<le> inFlight ?n2" "inFlight ?n2 + int ?r < 2 ^ 53" "j + m + ?r \<le> N"
    "encodingCurrentBlock ?n2" "can_send T N A (j + m) (sencoder ?n2)" "sendWindow ?n2 = Fin w"
    using assms(4,6,7) n1(1) s(2) k by simp_all
  obtain e css where f: "produceMany T ?r e1 = Some (Inr (e, css))"
    "tryFillSendWindow T ?n2 = Some (Inr (sentMore ?n2 e (map plainCodeword css)))"
    using fill_window [OF n2(5,6,7,2,1,4,3)] by auto
  have "produceMany T k (sencoder n1) = Some (Inr (e, cs1 @ css))" unfolding k by (rule produceMany_add [OF s(1) f(1)])
  then show ?thesis using f(2) c(3) by (intro exI [of _ e] exI [of _ "cs1 @ css"]) (simp add: step sentMore_append)
qed

end
