(* ===== verification/Newsim_Contract.thy ===== *)
theory Newsim_Contract
  imports Newsim_Server
begin

text \<open>
  The servers of \<open>newsim\<close> keep the contract of \<open>des\<close>: both locales of theory \<open>Des\<close> are
  interpreted on \<open>world_handle\<close>. For any algorithm, delays are those of the topology and of
  the block arrivals. For networks that run the pull protocol the handlers also return on
  every message that can reach them, so that the simulation never panics or hangs.
\<close>

section \<open>What a call leaves alone\<close>

text \<open>The delays, the peers, the configuration and the sketch of a server, and which handlers run pull.\<close>

definition delay_of :: "server \<Rightarrow> serverId \<Rightarrow> duration option" where
  "delay_of s p = map_option pdelay (handlers s p)"

definition is_pull :: "algo \<Rightarrow> bool" where
  "is_pull a \<longleftrightarrow> (case a of PullAlgo _ \<Rightarrow> True | CodingAlgo _ \<Rightarrow> False)"

definition pull_of :: "server \<Rightarrow> serverId \<Rightarrow> bool option" where
  "pull_of s p = map_option (\<lambda>h. is_pull (algorithm h)) (handlers s p)"

definition same_links :: "server \<Rightarrow> server \<Rightarrow> bool" where
  "same_links s s' \<longleftrightarrow> delay_of s' = delay_of s \<and> pull_of s' = pull_of s \<and> peers s' = peers s \<and> config s' = config s \<and>
     (latencySketch s' = None \<longleftrightarrow> latencySketch s = None)"

lemma recordTxLatency_None [simp]: "recordTxLatency l tx t = None \<longleftrightarrow> l = None"
  by (auto simp: recordTxLatency_def Let_def split: option.splits)

lemma same_links_refl [simp]: "same_links s s"
  by (simp add: same_links_def)

lemma same_links_trans [trans]: "same_links s s1 \<Longrightarrow> same_links s1 s2 \<Longrightarrow> same_links s s2"
  by (simp add: same_links_def)

lemma same_links_update [simp]:
  "same_links s (s'\<lparr>latencySketch := recordTxLatency (latencySketch s') tx t\<rparr>) = same_links s s'"
  "same_links s (s'\<lparr>received := r\<rparr>) = same_links s s'"
  "same_links s (s'\<lparr>metric := m\<rparr>) = same_links s s'"
  "same_links s (s'\<lparr>rngCount := n\<rparr>) = same_links s s'"
  "same_links (s\<lparr>latencySketch := recordTxLatency (latencySketch s) tx t\<rparr>) s' = same_links s s'"
  by (simp_all add: same_links_def delay_of_def pull_of_def fun_eq_iff)

lemma algo_collect_pull: "algo_collect a p delay out = (a', out') \<Longrightarrow> is_pull a' = is_pull a"
  by (cases a) (auto simp: algo_collect_def is_pull_def map_prod_def split: prod.splits)

lemma algo_forward_pull: "algo_forward T a tx = Some (Inr a') \<Longrightarrow> is_pull a' = is_pull a"
  by (auto simp: algo_forward_def is_pull_def bindO_Inr_iff split: algo.splits)

lemma algo_handle_pull: "algo_handle T a msg = Some (Inr (a', txs)) \<Longrightarrow> is_pull a' = is_pull a"
  by (auto simp: algo_handle_def is_pull_def bindO_Inr_iff split: algo.splits)

lemma withPeer_links:
  assumes "withPeer s p f = Some (Inr (x, s'))"
    and "\<And>h x a. handlers s p = Some h \<Longrightarrow> f h = Some (Inr (x, a)) \<Longrightarrow> is_pull a = is_pull (algorithm h)"
  shows "same_links s s'"
proof -
  obtain h a where h: "handlers s p = Some h" "f h = Some (Inr (x, a))"
    "s' = s\<lparr>handlers := (handlers s)(p \<mapsto> h\<lparr>algorithm := a\<rparr>)\<rparr>"
    using assms(1) by (auto simp: withPeer_def bindO_Inr_iff split: option.splits)
  with assms(2) [OF h(1,2)] show ?thesis
    by (auto simp: same_links_def delay_of_def pull_of_def fun_eq_iff)
qed

lemma server_collect_from_links:
  "server_collect_from ps s out = Some (Inr (s', out')) \<Longrightarrow>
   same_links s s' \<and> (\<forall>v\<in>set out'. v \<in> set out \<or> (\<exists>p. p \<in> set ps \<and> To v = Some p \<and> delay_of s p = Some (Delay v)))"
proof (induction ps arbitrary: s out)
  case Nil
  then show ?case by simp
next
  case (Cons p ps)
  let ?f = "\<lambda>h. let (a, o') = algo_collect (algorithm h) p (pdelay h) out in Some (Inr (o', a))"
  obtain o1 s1 where 1: "withPeer s p ?f = Some (Inr (o1, s1))"
    "server_collect_from ps s1 o1 = Some (Inr (s', out'))"
    using Cons.prems by (auto simp: bindO_Inr_iff)
  have l1: "same_links s s1"
    by (rule withPeer_links [OF 1(1)]) (auto simp: Let_def split: prod.splits dest: algo_collect_pull)
  have "\<forall>v\<in>set o1. v \<in> set out \<or> To v = Some p \<and> delay_of s p = Some (Delay v)"
    using 1(1) by (auto simp: withPeer_def bindO_Inr_iff delay_of_def algo_collect_def coding_collect_def
        pull_collect_def Let_def split: option.splits algo.splits prod.splits)
  moreover have "delay_of s1 = delay_of s" using l1 by (simp add: same_links_def)
  ultimately show ?case
    using Cons.IH [OF 1(2)] same_links_trans [OF l1] by fastforce
qed

lemma server_collect_links:
  assumes "server_collect s out = Some (Inr (s', out'))"
  shows "same_links s s'"
    "\<forall>v\<in>set out'. v \<in> set out \<or> (\<exists>p. p \<in> set (peers s) \<and> To v = Some p \<and> delay_of s p = Some (Delay v))"
  using server_collect_from_links assms unfolding server_collect_def by blast+

lemma server_forward_to_links:
  "server_forward_to T ps s tx ex = Some (Inr s') \<Longrightarrow> same_links s s'"
proof (induction ps arbitrary: s)
  case (Cons p ps)
  show ?case
  proof (cases "Some p \<noteq> ex")
    case True
    then obtain s1 where 1:
      "withPeer s p (\<lambda>h. bindO (algo_forward T (algorithm h) tx) (\<lambda>a. Some (Inr ((), a)))) = Some (Inr ((), s1))"
      "server_forward_to T ps s1 tx ex = Some (Inr s')"
      using Cons.prems by (auto simp: bindO_Inr_iff)
    have "same_links s s1"
      by (rule withPeer_links [OF 1(1)]) (auto simp: bindO_Inr_iff dest: algo_forward_pull)
    then show ?thesis using Cons.IH [OF 1(2)] by (rule same_links_trans)
  next
    case False
    then show ?thesis using Cons by simp
  qed
qed simp

lemma acceptTx_links: "acceptTx T from t tx s = Some (Inr s') \<Longrightarrow> same_links s s'"
  by (auto simp: acceptTx_def bindO_Inr_iff server_forward_def dest!: server_forward_to_links split: if_splits)

lemma acceptAll_links: "acceptAll T from t txs s = Some (Inr s') \<Longrightarrow> same_links s s'"
  by (induction txs arbitrary: s)
     (auto simp: bindO_Inr_iff dest!: acceptTx_links intro: same_links_trans)

text \<open>Messages of a server: to its peers with the delay of the link, or to itself.\<close>

definition linked :: "server \<Rightarrow> outMsg \<Rightarrow> bool" where
  "linked s v \<longleftrightarrow> (\<exists>p\<in>set (peers s). To v = Some p \<and>
     (delay_of s p = Some (Delay v) \<or> delay_of s p = None \<and> Delay v = 0))"

lemma linked_same: "same_links s s' \<Longrightarrow> linked s' v = linked s v"
  by (simp add: linked_def same_links_def)

lemma floodOne_linked: "v \<in> set (floodOne s tx) \<Longrightarrow> linked s v"
  by (auto simp: floodOne_def linked_def delay_of_def split: option.splits)

lemma arriveMany_links:
  "arriveMany T t n g s out = Some (Inr (g', s', out')) \<Longrightarrow>
   same_links s s' \<and> (\<forall>v\<in>set out'. v \<in> set out \<or> linked s v)"
proof (induction n arbitrary: g s out)
  case (Suc n)
  then obtain g1 s1 o1 where 1: "arriveOne T t g s out = Some (Inr (g1, s1, o1))"
    "arriveMany T t n g1 s1 o1 = Some (Inr (g', s', out'))"
    by (auto simp: bindO_Inr_iff)
  have "same_links s s1 \<and> (\<forall>v\<in>set o1. v \<in> set out \<or> linked s v)"
    using 1(1) floodOne_linked
    by (auto simp: arriveOne_def Let_def bindO_Inr_iff server_forward_def dest!: server_forward_to_links
             split: prod.splits if_splits)
  then show ?case
    using Suc.IH [OF 1(2)] by (auto simp: linked_same intro: same_links_trans)
qed simp

text \<open>The delay of the \<open>k\<close>-th block arrival of server \<open>m\<close>.\<close>

definition arrival_gap :: "environment \<Rightarrow> serverConfig \<Rightarrow> serverId \<Rightarrow> nat \<Rightarrow> int result" where
  "arrival_gap env cfg m k = f_to_int (f_div (env_exp env m k) (blockArrivalIntv cfg))"

lemma nextArrival_eq:
  "nextArrival env m s =
   bindR (arrival_gap env (config s) m (rngCount s)) (\<lambda>i. Inr (s\<lparr>rngCount := rngCount s + 1\<rparr>, word_of_int i))"
  by (simp add: nextArrival_def arrival_gap_def)

lemma nextArrival_links:
  "nextArrival env m s = Inr (s', iv) \<Longrightarrow>
   same_links s s' \<and> (\<exists>i. arrival_gap env (config s) m (rngCount s) = Inr i \<and> iv = word_of_int i)"
  by (auto simp: nextArrival_eq bindR_Inr_iff)

definition own_arrival :: "environment \<Rightarrow> serverId \<Rightarrow> server \<Rightarrow> outMsg \<Rightarrow> bool" where
  "own_arrival env m s v \<longleftrightarrow> To v = None \<and> Payload v = BlockArrival (blockArrivalBurst (config s)) \<and>
     (\<exists>k i. arrival_gap env (config s) m k = Inr i \<and> Delay v = word_of_int i)"

lemma server_handle_links:
  assumes "server_handle env me pl from t g s = Some (Inr (g', s', out'))"
  shows "same_links s s' \<and> (\<forall>v\<in>set out'. linked s v \<or> own_arrival env me s v)"
proof -
  let ?T = "env_ops env"
  obtain s1 o1 where 1: "same_links s s1" "\<forall>v\<in>set o1. linked s v \<or> own_arrival env me s v"
    "server_collect s1 o1 = Some (Inr (s', out'))"
  proof (cases "\<exists>n. pl = BlockArrival n")
    case True
    then obtain n g2 s2 o2 s3 iv where 2: "arriveMany ?T t (nat n) g s [] = Some (Inr (g2, s2, o2))"
      "nextArrival env me s2 = Inr (s3, iv)"
      "server_collect s3 (o2 @ [\<lparr>Payload = BlockArrival (blockArrivalBurst (config s3)), To = None, Delay = iv\<rparr>])
        = Some (Inr (s', out'))"
      using assms by (auto simp: server_handle_def Let_def bindO_Inr_iff)
    have l: "same_links s s2" "\<forall>v\<in>set o2. linked s v" using arriveMany_links [OF 2(1)] by simp_all
    have l3: "same_links s2 s3" and own: "own_arrival env me s \<lparr>Payload = BlockArrival (blockArrivalBurst (config s3)), To = None, Delay = iv\<rparr>"
      using nextArrival_links [OF 2(2)] l(1) by (auto simp: own_arrival_def same_links_def)
    show ?thesis
      by (rule that [OF same_links_trans [OF l(1) l3] _ 2(3)]) (use l(2) own in auto)
  next
    case False
    then have "\<exists>s1. same_links s s1 \<and> server_collect s1 [] = Some (Inr (s', out'))"
    proof (cases "\<exists>tx. pl = InitialBroadcast tx")
      case True
      then obtain tx s2 where 3: "acceptTx ?T from t tx s = Some (Inr s2)"
        "server_collect (s2\<lparr>metric := (metric s2)\<lparr>receivedBytes := receivedBytes (metric s2) + size_of (env_TXSIZE env) pl\<rparr>\<rparr>) []
          = Some (Inr (s', out'))"
        using assms by (auto simp: server_handle_def Let_def bindO_Inr_iff)
      then show ?thesis using acceptTx_links [OF 3(1)] same_links_update(3) by blast
    next
      case noib: False
      define f where "f = (\<lambda>h :: peer. bindO (algo_handle ?T (algorithm h) pl) (\<lambda>(a, decoded). Some (Inr (decoded, a))))"
      obtain p decoded s2 s3 where 3: "withPeer s p f = Some (Inr (decoded, s2))"
        "acceptAll ?T from t decoded s2 = Some (Inr s3)"
        "server_collect (s3\<lparr>metric := (metric s3)\<lparr>receivedBytes := receivedBytes (metric s3) + size_of (env_TXSIZE env) pl\<rparr>\<rparr>) []
          = Some (Inr (s', out'))"
        using assms False noib
        by (cases pl) (auto simp: server_handle_def Let_def bindO_Inr_iff f_def split: option.splits)
      have "same_links s s2"
        by (rule withPeer_links [OF 3(1)]) (auto simp: f_def bindO_Inr_iff dest: algo_handle_pull)
      then have "same_links s s3" using acceptAll_links [OF 3(2)] by (rule same_links_trans)
      then show ?thesis using 3(3) same_links_update(3) by blast
    qed
    then obtain s1 where "same_links s s1" "server_collect s1 [] = Some (Inr (s', out'))" by blast
    then show ?thesis by (intro that [of s1 "[]"]) simp_all
  qed
  note c = server_collect_links [OF 1(3)]
  have "delay_of s1 = delay_of s" "peers s1 = peers s" using 1(1) by (simp_all add: same_links_def)
  then show ?thesis using c 1(1,2) same_links_trans by (fastforce simp: linked_def)
qed

section \<open>The delay contract, for every algorithm\<close>

definition server_delays :: "environment \<Rightarrow> int \<Rightarrow> serverId \<Rightarrow> server \<Rightarrow> bool" where
  "server_delays env b m s \<longleftrightarrow>
     (\<forall>p d. delay_of s p = Some d \<longrightarrow> 0 \<le> sint d \<and> sint d \<le> b) \<and>
     (\<forall>k i. arrival_gap env (config s) m k = Inr i \<longrightarrow> 0 \<le> i \<and> i \<le> b)"

definition world_delays :: "environment \<Rightarrow> int \<Rightarrow> world \<Rightarrow> bool" where
  "world_delays env b w \<longleftrightarrow> 0 \<le> b \<and> b < 2 ^ 63 \<and> (\<forall>m<length (servers w). server_delays env b m (servers w ! m))"

lemma sint_of_small: "0 \<le> i \<Longrightarrow> i < 2 ^ 63 \<Longrightarrow> sint (word_of_int i :: u64) = i"
  by (simp add: signed_of_int signed_take_bit_int_eq_self)

lemma server_delays_same: "same_links s s' \<Longrightarrow> server_delays env b m s' = server_delays env b m s"
  by (simp add: server_delays_def same_links_def)

lemma message_delay:
  assumes "linked s v \<or> own_arrival env m s v" "server_delays env b m s" "0 \<le> b" "b < 2 ^ 63"
  shows "0 \<le> sint (Delay v) \<and> sint (Delay v) \<le> b"
  using assms(1)
proof
  assume "linked s v"
  then show ?thesis using assms(2,3) by (auto simp: linked_def server_delays_def)
next
  assume "own_arrival env m s v"
  then obtain k i where "arrival_gap env (config s) m k = Inr i" and d: "Delay v = word_of_int i"
    by (auto simp: own_arrival_def)
  then have i: "0 \<le> i" "i \<le> b" using assms(2) by (auto simp: server_delays_def)
  then have "sint (word_of_int i :: u64) = i" using assms(4) by (intro sint_of_small) linarith+
  then show ?thesis using i d by simp
qed

lemma world_handle_delays:
  assumes w: "world_delays env b w" and run: "world_handle env m p fr t w = Some (Inr (w', nm))"
  shows "world_delays env b w' \<and> (\<forall>v\<in>set nm. 0 \<le> sint (Delay v) \<and> sint (Delay v) \<le> b)"
proof -
  obtain g s where h: "m < length (servers w)"
    "server_handle env m p fr t (txgen w) (servers w ! m) = Some (Inr (g, s, nm))"
    "w' = w\<lparr>servers := (servers w)[m := s], txgen := g\<rparr>"
    using run by (auto simp: world_handle_def bindO_Inr_iff split: if_splits)
  note l = server_handle_links [OF h(2)]
  have d: "server_delays env b m (servers w ! m)" "0 \<le> b" "b < 2 ^ 63"
    using w h(1) by (simp_all add: world_delays_def)
  have "server_delays env b m s" using d(1) l server_delays_same by blast
  then have "world_delays env b w'"
    using w h(1) by (auto simp: world_delays_def h(3) nth_list_update)
  moreover have "\<forall>v\<in>set nm. 0 \<le> sint (Delay v) \<and> sint (Delay v) \<le> b"
    using l message_delay [OF _ d] by blast
  ultimately show ?thesis ..
qed

interpretation newsim: delay_contract "world_handle env" "world_delays env b" b "\<lambda>_ _ _. True" for env b
  by unfold_locales (drule (1) world_handle_delays, blast)

section \<open>The full contract, for the pull protocol\<close>

fun pull_payload :: "payload \<Rightarrow> bool" where
  "pull_payload (Announce _) = True"
| "pull_payload (Request _) = True"
| "pull_payload (Response _) = True"
| "pull_payload _ = False"

fun peer_payload :: "payload \<Rightarrow> bool" where
  "peer_payload (InitialBroadcast _) = True"
| "peer_payload x = pull_payload x"

text \<open>All handlers towards the servers of \<open>A\<close> run the pull protocol.\<close>

definition pull_server :: "serverId set \<Rightarrow> server \<Rightarrow> bool" where
  "pull_server A s \<longleftrightarrow>
     (\<forall>p\<in>A. \<exists>h c. handlers s p = Some h \<and> algorithm h = PullAlgo c \<and> (\<forall>x\<in>set (poutbox c). pull_payload x))"

lemma pull_server_update [simp]:
  "pull_server A (s\<lparr>latencySketch := l\<rparr>) = pull_server A s"
  "pull_server A (s\<lparr>received := r\<rparr>) = pull_server A s"
  "pull_server A (s\<lparr>metric := m\<rparr>) = pull_server A s"
  "pull_server A (s\<lparr>rngCount := n\<rparr>) = pull_server A s"
  by (simp_all add: pull_server_def)

lemma withPeer_pull:
  assumes "pull_server A s" "p \<in> A"
    and "\<And>h c. algorithm h = PullAlgo c \<Longrightarrow> \<forall>x\<in>set (poutbox c). pull_payload x \<Longrightarrow>
           \<exists>x c'. f h = Some (Inr (x, PullAlgo c')) \<and> Q x \<and> (\<forall>x\<in>set (poutbox c'). pull_payload x)"
  shows "\<exists>x s'. withPeer s p f = Some (Inr (x, s')) \<and> Q x \<and> pull_server A s'"
proof -
  obtain h c where h: "handlers s p = Some h" "algorithm h = PullAlgo c" "\<forall>x\<in>set (poutbox c). pull_payload x"
    using assms(1,2) by (auto simp: pull_server_def)
  obtain x c' where f: "f h = Some (Inr (x, PullAlgo c'))" "Q x" "\<forall>x\<in>set (poutbox c'). pull_payload x"
    using assms(3) [OF h(2,3)] by blast
  have "pull_server A (s\<lparr>handlers := (handlers s)(p \<mapsto> h\<lparr>algorithm := PullAlgo c'\<rparr>)\<rparr>)"
    using assms(1) f(3) by (auto simp: pull_server_def)
  then show ?thesis using h(1) f(1,2) by (simp add: withPeer_def)
qed

lemma server_forward_to_pull:
  "pull_server A s \<Longrightarrow> set ps \<subseteq> A \<Longrightarrow> \<exists>s'. server_forward_to T ps s tx ex = Some (Inr s') \<and> pull_server A s'"
proof (induction ps arbitrary: s)
  case (Cons p ps)
  let ?f = "\<lambda>h. bindO (algo_forward T (algorithm h) tx) (\<lambda>a. Some (Inr ((), a)))"
  have "\<exists>x s'. withPeer s p ?f = Some (Inr (x, s')) \<and> True \<and> pull_server A s'"
    using Cons.prems by (intro withPeer_pull) (auto simp: algo_forward_def pull_forward_def)
  then obtain s1 where "withPeer s p ?f = Some (Inr ((), s1))" "pull_server A s1" by auto
  moreover from this(2) obtain s2 where "server_forward_to T ps s1 tx ex = Some (Inr s2)" "pull_server A s2"
    using Cons.IH Cons.prems(2) by auto
  moreover obtain s3 where "server_forward_to T ps s tx ex = Some (Inr s3)" "pull_server A s3"
    using Cons.IH [OF Cons.prems(1)] Cons.prems(2) by auto
  ultimately show ?case by auto
qed simp

lemma server_forward_pull:
  "pull_server A s \<Longrightarrow> set (peers s) \<subseteq> A \<Longrightarrow> \<exists>s'. server_forward T s tx ex = Some (Inr s') \<and> pull_server A s'"
  unfolding server_forward_def by (rule server_forward_to_pull)

lemma acceptTx_pull:
  assumes "pull_server A s" "set (peers s) \<subseteq> A"
  shows "\<exists>s'. acceptTx T ex t tx s = Some (Inr s') \<and> pull_server A s'"
proof -
  let ?s = "s\<lparr>latencySketch := recordTxLatency (latencySketch s) (Symbol tx) t\<rparr>"
  have "pull_server A ?s" "set (peers ?s) \<subseteq> A" using assms by simp_all
  then obtain s1 where "server_forward T ?s tx ex = Some (Inr s1)" "pull_server A s1"
    using server_forward_pull by blast
  then show ?thesis using assms by (simp add: acceptTx_def)
qed

lemma acceptAll_pull:
  "pull_server A s \<Longrightarrow> set (peers s) \<subseteq> A \<Longrightarrow> \<exists>s'. acceptAll T ex t txs s = Some (Inr s') \<and> pull_server A s'"
proof (induction txs arbitrary: s)
  case (Cons tx txs)
  then obtain s1 where 1: "acceptTx T ex t tx s = Some (Inr s1)" "pull_server A s1"
    using acceptTx_pull by blast
  then have "set (peers s1) \<subseteq> A" using acceptTx_links [OF 1(1)] Cons.prems(2) by (simp add: same_links_def)
  then show ?case using Cons.IH [OF 1(2)] 1(1) by simp
qed simp

definition peer_message :: "outMsg \<Rightarrow> bool" where
  "peer_message v \<longleftrightarrow> (case To v of None \<Rightarrow> (\<exists>n. Payload v = BlockArrival n) | Some _ \<Rightarrow> peer_payload (Payload v))"

lemma pull_is_peer: "pull_payload x \<Longrightarrow> peer_payload x"
  by (cases x) simp_all

lemma server_collect_from_pull:
  "pull_server A s \<Longrightarrow> set ps \<subseteq> A \<Longrightarrow> \<forall>v\<in>set out. peer_message v \<Longrightarrow>
   \<exists>s' out'. server_collect_from ps s out = Some (Inr (s', out')) \<and> pull_server A s' \<and> (\<forall>v\<in>set out'. peer_message v)"
proof (induction ps arbitrary: s out)
  case (Cons p ps)
  let ?f = "\<lambda>h. let (a, o') = algo_collect (algorithm h) p (pdelay h) out in Some (Inr (o', a))"
  have "\<exists>x s'. withPeer s p ?f = Some (Inr (x, s')) \<and> (\<forall>v\<in>set x. peer_message v) \<and> pull_server A s'"
    using Cons.prems
    by (intro withPeer_pull)
       (auto simp: algo_collect_def pull_collect_def map_prod_def peer_message_def pull_is_peer)
  then obtain o1 s1 where 1: "withPeer s p ?f = Some (Inr (o1, s1))" "\<forall>v\<in>set o1. peer_message v" "pull_server A s1"
    by blast
  then show ?case using Cons.IH [OF 1(3) _ 1(2)] Cons.prems(2) by simp
qed simp

lemma arriveMany_pull:
  "pull_server A s \<Longrightarrow> set (peers s) \<subseteq> A \<Longrightarrow> \<forall>v\<in>set out. peer_message v \<Longrightarrow>
   \<exists>g' s' out'. arriveMany T t n g s out = Some (Inr (g', s', out')) \<and> pull_server A s' \<and>
                (\<forall>v\<in>set out'. peer_message v)"
proof (induction n arbitrary: g s out)
  case (Suc n)
  obtain g1 tx where g1: "generate g t = (g1, tx)" by (cases "generate g t") auto
  obtain s2 where s2: "server_forward T s (hashSymbol T tx) None = Some (Inr s2)" "pull_server A s2"
    using server_forward_pull Suc.prems(1,2) by blast
  have "\<exists>s1 o1. arriveOne T t g s out = Some (Inr (g1, s1, o1)) \<and> pull_server A s1 \<and> (\<forall>v\<in>set o1. peer_message v)"
    using Suc.prems s2 g1 by (auto simp: arriveOne_def floodOne_def peer_message_def Let_def)
  then obtain s1 o1 where 1: "arriveOne T t g s out = Some (Inr (g1, s1, o1))" "pull_server A s1"
    "\<forall>v\<in>set o1. peer_message v" by blast
  have "arriveMany T t 1 g s out = Some (Inr (g1, s1, o1))" using 1(1) by simp
  then have "same_links s s1" using arriveMany_links by blast
  then have "set (peers s1) \<subseteq> A" using Suc.prems(2) by (simp add: same_links_def)
  then show ?case using Suc.IH [OF 1(2) _ 1(3)] 1(1) by simp
qed simp

lemma server_handle_pull:
  assumes "pull_server A s" "set (peers s) \<subseteq> A" "\<And>k. \<exists>i. arrival_gap env (config s) me k = Inr i"
    and "(\<exists>n. pl = BlockArrival n) \<or> (\<exists>p. from = Some p \<and> p \<in> A \<and> peer_payload pl)"
  shows "\<exists>g' s' out. server_handle env me pl from t g s = Some (Inr (g', s', out)) \<and> pull_server A s' \<and>
           (\<forall>v\<in>set out. peer_message v)"
proof -
  let ?T = "env_ops env"
  define step where "step =
     (case pl of
           BlockArrival n \<Rightarrow>
             bindO (arriveMany ?T t (nat n) g s []) (\<lambda>(txgen, s, outbox).
             bindO (Some (nextArrival env me s)) (\<lambda>(s, intv).
               Some (Inr (txgen, s, outbox @ [\<lparr>Payload = BlockArrival (blockArrivalBurst (config s)),
                                               To = None, Delay = intv\<rparr>]))))
         | _ \<Rightarrow>
             bindO (case pl of
                      InitialBroadcast tx \<Rightarrow> acceptTx ?T from t tx s
                    | _ \<Rightarrow>
                        (case from of None \<Rightarrow> Some (Inl NilDereference)
                         | Some p \<Rightarrow>
                             bindO (withPeer s p (\<lambda>h. bindO (algo_handle ?T (algorithm h) pl)
                                                        (\<lambda>(a, decoded). Some (Inr (decoded, a)))))
                               (\<lambda>(decoded, s). acceptAll ?T from t decoded s)))
               (\<lambda>s. Some (Inr (g,
                      s\<lparr>metric := (metric s)\<lparr>receivedBytes := receivedBytes (metric s) + size_of (env_TXSIZE env) pl\<rparr>\<rparr>,
                      []))))"
  have "\<exists>g1 s1 o1. step = Some (Inr (g1, s1, o1)) \<and> pull_server A s1 \<and> set (peers s1) \<subseteq> A \<and> (\<forall>v\<in>set o1. peer_message v)"
  proof (cases "\<exists>n. pl = BlockArrival n")
    case True
    then obtain n where n: "pl = BlockArrival n" by blast
    obtain g2 s2 o2 where 2: "arriveMany ?T t (nat n) g s [] = Some (Inr (g2, s2, o2))" "pull_server A s2"
      "\<forall>v\<in>set o2. peer_message v"
      using arriveMany_pull [OF assms(1,2), of "[]"] by force
    have l: "same_links s s2" using arriveMany_links [OF 2(1)] by simp
    then obtain i where "arrival_gap env (config s2) me (rngCount s2) = Inr i"
      using assms(3) by (auto simp: same_links_def)
    then show ?thesis
      using n 2 l assms(2) by (simp add: step_def nextArrival_eq peer_message_def same_links_def)
  next
    case False
    then obtain p where p: "from = Some p" "p \<in> A" "peer_payload pl" using assms(4) by blast
    show ?thesis
    proof (cases "\<exists>tx. pl = InitialBroadcast tx")
      case True
      then obtain tx where tx: "pl = InitialBroadcast tx" by blast
      obtain s1 where 1: "acceptTx ?T from t tx s = Some (Inr s1)" "pull_server A s1"
        using acceptTx_pull assms(1,2) by blast
      then show ?thesis
        using tx acceptTx_links [OF 1(1)] assms(2) by (simp add: step_def same_links_def)
    next
      case noib: False
      define f where "f = (\<lambda>h :: peer. bindO (algo_handle ?T (algorithm h) pl) (\<lambda>(a, decoded). Some (Inr (decoded, a))))"
      have "\<exists>x s'. withPeer s p f = Some (Inr (x, s')) \<and> True \<and> pull_server A s'"
        using p(3) noib unfolding f_def
        by (intro withPeer_pull [OF assms(1) p(2)])
           (cases pl, auto simp: algo_handle_def pull_handle_def)
      then obtain decoded s1 where 1: "withPeer s p f = Some (Inr (decoded, s1))" "pull_server A s1" by blast
      have l1: "same_links s s1"
        by (rule withPeer_links [OF 1(1)]) (auto simp: f_def bindO_Inr_iff dest: algo_handle_pull)
      then have "set (peers s1) \<subseteq> A" using assms(2) by (simp add: same_links_def)
      then obtain s2 where 2: "acceptAll ?T from t decoded s1 = Some (Inr s2)" "pull_server A s2"
        using acceptAll_pull 1(2) by blast
      have "peers s2 = peers s" using l1 acceptAll_links [OF 2(1)] by (simp add: same_links_def)
      then show ?thesis
        using False noib p(1) 1(1) 2 assms(2) by (cases pl) (simp_all add: step_def f_def)
    qed
  qed
  then obtain g1 s1 o1 where 1: "step = Some (Inr (g1, s1, o1))" "pull_server A s1" "set (peers s1) \<subseteq> A"
    "\<forall>v\<in>set o1. peer_message v" by blast
  obtain s2 o2 where "server_collect s1 o1 = Some (Inr (s2, o2))" "pull_server A s2" "\<forall>v\<in>set o2. peer_message v"
    using server_collect_from_pull [OF 1(2,3,4)] by (auto simp: server_collect_def)
  then show ?thesis using 1(1) unfolding server_handle_def Let_def step_def [symmetric] by simp
qed

text \<open>
  A network of \<open>n\<close> servers with the links \<open>E\<close>, all of them running pull. Delays are at
  least \<open>l\<close> and at most \<open>b\<close>.
\<close>

definition pull_node :: "environment \<Rightarrow> (serverId \<times> serverId) set \<Rightarrow> int \<Rightarrow> serverId \<Rightarrow> server \<Rightarrow> bool" where
  "pull_node env E l m s \<longleftrightarrow>
     pull_server (E `` {m}) s \<and> set (peers s) \<subseteq> E `` {m} \<and> latencySketch s \<noteq> None \<and>
     (\<forall>p d. delay_of s p = Some d \<longrightarrow> l \<le> sint d) \<and>
     (\<forall>k. \<exists>i. arrival_gap env (config s) m k = Inr i \<and> l \<le> i)"

definition pull_network ::
  "environment \<Rightarrow> (serverId \<times> serverId) set \<Rightarrow> nat \<Rightarrow> int \<Rightarrow> int \<Rightarrow> world \<Rightarrow> bool" where
  "pull_network env E n l b w \<longleftrightarrow>
     world_delays env b w \<and> length (servers w) = n \<and> sym E \<and> E \<subseteq> {..<n} \<times> {..<n} \<and>
     (\<forall>m<n. pull_node env E l m (servers w ! m))"

definition pull_mok :: "(serverId \<times> serverId) set \<Rightarrow> nat \<Rightarrow> serverId option \<Rightarrow> serverId \<Rightarrow> payload \<Rightarrow> bool" where
  "pull_mok E n from m p \<longleftrightarrow>
     m < n \<and> ((\<exists>k. p = BlockArrival k) \<or> (\<exists>q. from = Some q \<and> (m, q) \<in> E \<and> peer_payload p))"

lemma pull_node_same:
  "same_links s s' \<Longrightarrow> pull_server (E `` {m}) s' \<Longrightarrow> pull_node env E l m s \<Longrightarrow> pull_node env E l m s'"
  by (simp add: pull_node_def same_links_def)

lemma pull_network_handle:
  assumes net: "pull_network env E n l b w" and ok: "pull_mok E n fr m p"
  obtains w' nm where "world_handle env m p fr t w = Some (Inr (w', nm))" "pull_network env E n l b w'"
    "\<forall>v\<in>set nm. l \<le> sint (Delay v) \<and> 0 \<le> sint (Delay v) \<and> sint (Delay v) \<le> b \<and>
                 pull_mok E n (Some m) (destination m v) (Payload v)"
proof -
  let ?s = "servers w ! m" and ?A = "E `` {m}"
  have E: "sym E" "E \<subseteq> {..<n} \<times> {..<n}" and len: "length (servers w) = n" and wd: "world_delays env b w"
    and m: "m < n" and node: "pull_node env E l m ?s"
    using net ok by (auto simp: pull_network_def pull_mok_def)
  have A: "pull_server ?A ?s" "set (peers ?s) \<subseteq> ?A" "\<And>k. \<exists>i. arrival_gap env (config ?s) m k = Inr i \<and> l \<le> i"
    "\<And>p d. delay_of ?s p = Some d \<Longrightarrow> l \<le> sint d"
    using node by (auto simp: pull_node_def)
  have "(\<exists>n. p = BlockArrival n) \<or> (\<exists>q. fr = Some q \<and> q \<in> ?A \<and> peer_payload p)"
    using ok by (auto simp: pull_mok_def)
  moreover have "\<exists>i. arrival_gap env (config ?s) m k = Inr i" for k using A(3) by blast
  ultimately obtain g s nm where h: "server_handle env m p fr t (txgen w) ?s = Some (Inr (g, s, nm))"
    "pull_server ?A s" "\<forall>v\<in>set nm. peer_message v"
    using server_handle_pull [OF A(1,2)] by blast
  let ?w = "w\<lparr>servers := (servers w)[m := s], txgen := g\<rparr>"
  have run: "world_handle env m p fr t w = Some (Inr (?w, nm))"
    using h(1) m len by (simp add: world_handle_def)
  note l = server_handle_links [OF h(1)]
  have "pull_node env E l m s" using l h(2) node pull_node_same by blast
  then have net': "pull_network env E n l b ?w"
    using net m world_handle_delays [OF wd run] by (auto simp: pull_network_def nth_list_update)
  have "l \<le> sint (Delay v) \<and> pull_mok E n (Some m) (destination m v) (Payload v)" if v: "v \<in> set nm" for v
  proof -
    have pm: "peer_message v" using h(3) v by blast
    have "linked ?s v \<or> own_arrival env m ?s v" using l v by blast
    then show ?thesis
    proof
      assume "linked ?s v"
      then obtain q where q: "q \<in> set (peers ?s)" "To v = Some q"
        "delay_of ?s q = Some (Delay v) \<or> delay_of ?s q = None \<and> Delay v = 0" by (auto simp: linked_def)
      then have mq: "(m, q) \<in> E" using A(2) by auto
      then have "delay_of ?s q \<noteq> None" using A(1) by (auto simp: pull_server_def delay_of_def)
      moreover have "(q, m) \<in> E" "q < n" using mq E by (auto dest: symD)
      ultimately show ?thesis using q A(4) pm by (auto simp: pull_mok_def peer_message_def destination_def)
    next
      assume own: "own_arrival env m ?s v"
      then obtain k i where i: "arrival_gap env (config ?s) m k = Inr i" "Delay v = word_of_int i"
        by (auto simp: own_arrival_def)
      then have "l \<le> i" using A(3) [of k] by auto
      moreover have "0 \<le> i" "i < 2 ^ 63"
        using i(1) wd m len unfolding world_delays_def server_delays_def by force+
      ultimately show ?thesis
        using own m i(2) by (auto simp: own_arrival_def pull_mok_def destination_def sint_of_small)
    qed
  qed
  then show ?thesis using that run net' world_handle_delays [OF wd run] by blast
qed

interpretation pullnet: module_contract "world_handle env" "pull_network env E n (int (Suc l)) b" b "pull_mok E n" "int (Suc l)"
  for env E n l b
proof unfold_locales
  fix w fr m p t w' nm
  assume "pull_network env E n (int (Suc l)) b w" "pull_mok E n fr m p"
    and run: "world_handle env m p fr t w = Some (Inr (w', nm))"
  then show "pull_network env E n (int (Suc l)) b w' \<and> (\<forall>v\<in>set nm. 0 \<le> sint (Delay v) \<and> sint (Delay v) \<le> b \<and>
      pull_mok E n (Some m) (destination m v) (Payload v))"
    using pull_network_handle [of env E n "int (Suc l)" b w fr m p t] by auto
next
  show "0 < int (Suc l)" by simp
next
  fix w fr m p t
  assume "pull_network env E n (int (Suc l)) b w" "pull_mok E n fr m p"
  then show "\<exists>w' nm. world_handle env m p fr t w = Some (Inr (w', nm)) \<and> (\<forall>v\<in>set nm. int (Suc l) \<le> sint (Delay v))"
    using pull_network_handle [of env E n "int (Suc l)" b w fr m p t] by metis
qed

section \<open>A pull network from its topology\<close>

definition links_of :: "connection list \<Rightarrow> (serverId \<times> serverId) set" where
  "links_of conns = (\<Union>c\<in>set conns. {(conn_a c, conn_b c), (conn_b c, conn_a c)})"

text \<open>Delays within \<open>l\<close> and \<open>b\<close>, for every link and every block arrival.\<close>

definition timely :: "environment \<Rightarrow> serverConfig \<Rightarrow> int \<Rightarrow> int \<Rightarrow> connection list \<Rightarrow> bool" where
  "timely env cfg l b conns \<longleftrightarrow>
     (\<forall>c\<in>set conns. l \<le> sint (conn_delay c) \<and> sint (conn_delay c) \<le> b) \<and>
     (\<forall>m k. \<exists>i. arrival_gap env cfg m k = Inr i \<and> l \<le> i \<and> i \<le> b)"

definition link_node :: "serverConfig \<Rightarrow> int \<Rightarrow> int \<Rightarrow> serverId set \<Rightarrow> server \<Rightarrow> bool" where
  "link_node cfg l b A s \<longleftrightarrow>
     pull_server A s \<and> set (peers s) \<subseteq> A \<and> config s = cfg \<and> latencySketch s \<noteq> None \<and>
     (\<forall>p d. delay_of s p = Some d \<longrightarrow> l \<le> sint d \<and> sint d \<le> b)"

definition link_all ::
  "serverConfig \<Rightarrow> int \<Rightarrow> int \<Rightarrow> nat \<Rightarrow> (serverId \<times> serverId) set \<Rightarrow> server list \<Rightarrow> bool" where
  "link_all cfg l b n E ss \<longleftrightarrow> length ss = n \<and> (\<forall>m<n. link_node cfg l b (E `` {m}) (ss ! m))"

lemma addPeer_link:
  assumes "link_all cfg l b n E ss" "x < n" "l \<le> sint d" "sint d \<le> b"
  shows "link_all cfg l b n (insert (x, y) E) (ss[x := addPeer y (PullAlgo \<lparr>known = Map.empty, poutbox = []\<rparr>) d (ss ! x)])"
proof -
  let ?s = "addPeer y (PullAlgo \<lparr>known = Map.empty, poutbox = []\<rparr>) d (ss ! x)"
  have "link_node cfg l b (E `` {x}) (ss ! x)" using assms(1,2) by (simp add: link_all_def)
  then have "link_node cfg l b (insert y (E `` {x})) ?s"
    using assms(3,4) by (auto simp: link_node_def addPeer_def pull_server_def delay_of_def)
  moreover have "insert (x, y) E `` {x} = insert y (E `` {x})" by auto
  moreover have "insert (x, y) E `` {m} = E `` {m}" if "m \<noteq> x" for m using that by auto
  ultimately show ?thesis
    using assms(1,2) by (auto simp: link_all_def nth_list_update)
qed

lemma connectAllPull_links:
  "link_all cfg l b n E ss \<Longrightarrow> \<forall>c\<in>set conns. l \<le> sint (conn_delay c) \<and> sint (conn_delay c) \<le> b \<Longrightarrow>
   \<forall>c\<in>set conns. conn_a c < n \<and> conn_b c < n \<Longrightarrow>
   \<exists>ss'. connectAllPull conns ss = Inr ss' \<and> link_all cfg l b n (E \<union> links_of conns) ss'"
proof (induction conns arbitrary: E ss)
  case Nil
  then show ?case by (simp add: links_of_def)
next
  case (Cons c conns)
  let ?E = "insert (conn_b c, conn_a c) (insert (conn_a c, conn_b c) E)"
  have "link_all cfg l b n ?E (connectPullServers (conn_a c) (conn_b c) (conn_delay c) ss)"
    using Cons.prems unfolding connectPullServers_def Let_def by (intro addPeer_link) auto
  moreover have "length ss = n" using Cons.prems(1) by (simp add: link_all_def)
  moreover have "?E \<union> links_of conns = E \<union> links_of (c # conns)" by (auto simp: links_of_def)
  ultimately show ?case using Cons.IH [of ?E] Cons.prems(2,3) by simp
qed

lemma sym_links: "sym (links_of conns)"
  by (auto simp: links_of_def sym_def)

text \<open>The servers before they are connected, and the first block arrivals.\<close>

definition fresh_node :: "serverConfig \<Rightarrow> server \<Rightarrow> bool" where
  "fresh_node cfg s \<longleftrightarrow> handlers s = Map.empty \<and> peers s = [] \<and> config s = cfg"

definition start_queue :: "int \<Rightarrow> nat \<Rightarrow> (payload, serverId) Simulator \<Rightarrow> bool" where
  "start_queue b n sim \<longleftrightarrow>
     sim_ok sim \<and> stime sim = 0 \<and>
     (\<forall>q\<in>set (mq sim). sint (arrival q) \<le> b \<and> (\<exists>m k. m < n \<and> mto q = Some m \<and> payload q = BlockArrival k))"

lemma newServers_start:
  assumes "\<forall>m k. \<exists>i. arrival_gap env cfg m k = Inr i \<and> 0 \<le> i \<and> i \<le> b" "b < 2 ^ 63"
  shows "start_queue b i sim \<Longrightarrow> length res = i \<Longrightarrow> \<forall>s\<in>set res. fresh_node cfg s \<Longrightarrow>
    \<exists>sim' ss. newServers env cfg n i sim res = Inr (sim', ss) \<and> start_queue b (i + n) sim' \<and>
              length ss = i + n \<and> (\<forall>s\<in>set ss. fresh_node cfg s)"
proof (induction n arbitrary: i sim res)
  case 0
  then show ?case by simp
next
  case (Suc n)
  let ?s = "freshServer cfg"
  obtain k where k: "arrival_gap env (config ?s) i (rngCount ?s) = Inr k" "0 \<le> k" "k \<le> b"
    using assms(1) by (auto simp: freshServer_def)
  let ?v = "\<lparr>Payload = BlockArrival (blockArrivalBurst cfg), To = None, Delay = word_of_int k\<rparr> :: outMsg"
  have sk: "sint (word_of_int k :: u64) = k" using k(2,3) assms(2) by (intro sint_of_small) linarith+
  have "sim_ok (ScheduleMessage sim ?v (Some i))"
    using Suc.prems(1) k(2,3) assms(2) by (intro ScheduleMessage_ok) (auto simp: start_queue_def sk)
  then have q: "start_queue b (Suc i) (ScheduleMessage sim ?v (Some i))"
    using Suc.prems(1) k(3) by (auto simp: start_queue_def ScheduleMessage_eq queuedFor_def sk intro: less_SucI)
  have f: "fresh_node cfg (?s\<lparr>rngCount := Suc (rngCount ?s)\<rparr>)" by (simp add: fresh_node_def freshServer_def)
  show ?case
    using Suc.IH [OF q, of "res @ [?s\<lparr>rngCount := Suc (rngCount ?s)\<rparr>]"] Suc.prems(2,3) f k(1)
    by (simp add: nextArrival_eq)
qed

lemma setupPull_network:
  assumes "timely env cfg l b topo" "0 < l" "b < 2 ^ 63" "\<forall>c\<in>set topo. conn_a c < n \<and> conn_b c < n"
  obtains sim w where "setupPull env cfg warm topo n = Inr (sim, w)" "start_queue b n sim"
    "pull_network env (links_of topo) n l b w"
proof -
  have gap: "\<forall>m k. \<exists>i. arrival_gap env cfg m k = Inr i \<and> 0 \<le> i \<and> i \<le> b"
    using assms(1,2) unfolding timely_def by (meson le_less_trans less_imp_le order.trans)
  have "start_queue b 0 emptySimulator" by (simp add: start_queue_def) (simp add: emptySimulator_def)
  from newServers_start [OF gap assms(3) this, of "[]" n]
  obtain sim ss where ns: "newServers env cfg n 0 emptySimulator [] = Inr (sim, ss)" "start_queue b n sim"
    "length ss = n" "\<forall>s\<in>set ss. fresh_node cfg s" by auto
  let ?ss = "map (\<lambda>s. s\<lparr>latencySketch := Some \<lparr>warmup = warm, recorded = []\<rparr>\<rparr>) ss"
  have "link_all cfg l b n {} ?ss"
    using ns(3,4) by (auto simp: link_all_def link_node_def fresh_node_def pull_server_def delay_of_def)
  then obtain ss' where c: "connectAllPull topo ?ss = Inr ss'" "link_all cfg l b n (links_of topo) ss'"
    using connectAllPull_links [of cfg l b n "{}" ?ss topo] assms(1,4) by (auto simp: timely_def)
  let ?w = "\<lparr>servers = ss', txgen = \<lparr>last_of = 0\<rparr>\<rparr>"
  have len: "length ss' = n" and node: "\<And>m. m < n \<Longrightarrow> link_node cfg l b (links_of topo `` {m}) (ss' ! m)"
    using c(2) by (simp_all add: link_all_def)
  have gap': "arrival_gap env cfg m k = Inr i \<Longrightarrow> l \<le> i \<and> i \<le> b" for m k i
    using assms(1) unfolding timely_def by (metis sum.inject(2))
  have b: "0 \<le> b" using gap by fastforce
  have "server_delays env b m (ss' ! m)" if "m < n" for m
    using node [OF that] gap' assms(2) unfolding server_delays_def link_node_def by fastforce
  then have "world_delays env b ?w" using len b assms(3) by (simp add: world_delays_def)
  moreover have "links_of topo \<subseteq> {..<n} \<times> {..<n}" using assms(4) by (auto simp: links_of_def)
  moreover have "pull_node env (links_of topo) l m (ss' ! m)" if "m < n" for m
    using node [OF that] assms(1) by (auto simp: pull_node_def link_node_def timely_def) blast
  ultimately have "pull_network env (links_of topo) n l b ?w"
    using len sym_links by (simp add: pull_network_def)
  then show ?thesis using that ns(1,2) c(1) by (simp add: setupPull_def Let_def)
qed

text \<open>A pull simulation runs up to any time without a panic.\<close>

lemma pull_simulation:
  assumes "timely env cfg l b topo" "0 < l" "\<forall>c\<in>set topo. conn_a c < n \<and> conn_b c < n"
    and "0 \<le> sint t" "sint t + 2 * b < 2 ^ 63"
  shows "\<exists>sim w sim' w'. setupPull env cfg warm topo n = Inr (sim, w) \<and>
     RunUntil (world_handle env) t sim w = Some (Inr (sim', w')) \<and>
     (Drained sim' \<or> sint t < sint (stime sim')) \<and> length (servers w') = n"
proof -
  obtain l' where l: "l = int (Suc l')" using assms(2) by (metis gr0_implies_Suc zero_less_imp_eq_int)
  have "\<exists>i. arrival_gap env cfg 0 0 = Inr i \<and> l \<le> i \<and> i \<le> b" using assms(1) by (simp add: timely_def)
  then have b: "0 \<le> b" "b < 2 ^ 63" using assms(2,4,5) by auto
  obtain sim w where w: "setupPull env cfg warm topo n = Inr (sim, w)" "start_queue b n sim"
    "pull_network env (links_of topo) n l b w"
    by (rule setupPull_network [OF assms(1,2) b(2) assms(3)])
  have start: "sim_ok sim" "in_reach b (sint t) sim" "msgs_ok (pull_mok (links_of topo) n) sim"
    using w(2) b(1) assms(4) by (fastforce simp: start_queue_def in_reach_def msgs_ok_def pull_mok_def)+
  obtain sim' w' where run: "RunUntil (world_handle env) t sim w = Some (Inr (sim', w'))"
    using pullnet.RunUntil_returns [OF start(1) w(3) [unfolded l] start(2,3) assms(5)] by blast
  have "pull_network env (links_of topo) n (int (Suc l')) b w' \<and> (Drained sim' \<or> sint t < sint (stime sim'))"
    using pullnet.RunUntil_keeps [OF run start(1) w(3) [unfolded l] start(2,3) assms(5)] by simp
  then show ?thesis using w(1) run by (auto simp: pull_network_def)
qed

end
