(* ===== verification/Newsim_Accounts.thy ===== *)
theory Newsim_Accounts
  imports Newsim_Contract
begin

text \<open>
  The metrics of a server of \<open>newsim/module.go\<close>: every transaction that reaches a server is
  counted once, as received when its index is new and as a duplicate otherwise.
\<close>

section \<open>What leaves the books alone\<close>

definition same_books :: "server \<Rightarrow> server \<Rightarrow> bool" where
  "same_books s s' \<longleftrightarrow> received s' = received s \<and> metric s' = metric s"

lemma same_books_refl [simp]: "same_books s s"
  by (simp add: same_books_def)

lemma same_books_trans [trans]: "same_books s s1 \<Longrightarrow> same_books s1 s2 \<Longrightarrow> same_books s s2"
  by (simp add: same_books_def)

lemma withPeer_books: "withPeer s p f = Some (Inr (x, s')) \<Longrightarrow> same_books s s'"
  by (auto simp: withPeer_def bindO_Inr_iff same_books_def split: option.splits)

lemma server_collect_from_books: "server_collect_from ps s out = Some (Inr (s', out')) \<Longrightarrow> same_books s s'"
  by (induction ps arbitrary: s out) (auto simp: bindO_Inr_iff dest!: withPeer_books intro: same_books_trans)

lemma server_forward_to_books: "server_forward_to T ps s tx ex = Some (Inr s') \<Longrightarrow> same_books s s'"
  by (induction ps arbitrary: s)
     (auto simp: bindO_Inr_iff dest!: withPeer_books intro: same_books_trans split: if_splits)

section \<open>Transactions from the network\<close>

text \<open>How the books change when the transactions \<open>txs\<close> are handed to a server.\<close>

definition booked :: "u64 set \<Rightarrow> nat \<Rightarrow> server \<Rightarrow> server \<Rightarrow> bool" where
  "booked new k s s' \<longleftrightarrow>
     received s' = received s \<union> new \<and>
     receivedTransactions (metric s') - receivedTransactions (metric s) = int (card (new - received s)) \<and>
     decodedTransactions (metric s') - decodedTransactions (metric s) = int (card (new - received s)) \<and>
     duplicateTransactions (metric s') - duplicateTransactions (metric s) = int k - int (card (new - received s))"

text \<open>
  The transactions that a message brings to a server: the one of a broadcast, and otherwise those
  that the algorithm of the peer it comes from decodes.
\<close>

definition brought :: "transaction symbolOps \<Rightarrow> server \<Rightarrow> payload \<Rightarrow> serverId option \<Rightarrow> txSymbol list" where
  "brought T s pl from =
     (case pl of InitialBroadcast tx \<Rightarrow> [tx]
      | _ \<Rightarrow> (case from of None \<Rightarrow> []
              | Some p \<Rightarrow> (case handlers s p of None \<Rightarrow> []
                  | Some h \<Rightarrow> (case algo_handle T (algorithm h) pl of Some (Inr (a, decoded)) \<Rightarrow> decoded | _ \<Rightarrow> []))))"

abbreviation tx_idx :: "txSymbol \<Rightarrow> u64" where
  "tx_idx tx \<equiv> idx (Symbol tx)"

lemma acceptTx_books:
  assumes "acceptTx T ex t tx s = Some (Inr s')"
  shows "booked {idx (Symbol tx)} 1 s s'"
proof (cases "idx (Symbol tx) \<in> received s")
  case True
  then show ?thesis using assms by (auto simp: acceptTx_def booked_def)
next
  case False
  then obtain s1 where "same_books s s1" "s' = s1\<lparr>received := insert (idx (Symbol tx)) (received s1),
      metric := (metric s1)\<lparr>decodedTransactions := decodedTransactions (metric s1) + 1,
                           receivedTransactions := receivedTransactions (metric s1) + 1\<rparr>\<rparr>"
    using assms server_forward_to_books
    by (fastforce simp: acceptTx_def server_forward_def bindO_Inr_iff same_books_def)
  then show ?thesis using False by (simp add: booked_def same_books_def insert_Diff_if)
qed

lemma booked_trans:
  assumes "booked new k s s1" "booked new' k' s1 s2" "finite new" "finite new'"
  shows "booked (new \<union> new') (k + k') s s2"
proof -
  have "new' - (received s \<union> new) \<union> (new - received s) = new \<union> new' - received s" by auto
  moreover have "card (new' - (received s \<union> new) \<union> (new - received s)) =
      card (new' - (received s \<union> new)) + card (new - received s)"
    using assms(3,4) by (intro card_Un_disjoint) auto
  ultimately have "card (new \<union> new' - received s) = card (new' - (received s \<union> new)) + card (new - received s)"
    by simp
  then show ?thesis using assms(1,2) by (simp add: booked_def Un_assoc)
qed

lemma acceptAll_books:
  "acceptAll T ex t txs s = Some (Inr s') \<Longrightarrow> booked ((\<lambda>tx. idx (Symbol tx)) ` set txs) (length txs) s s'"
proof (induction txs arbitrary: s)
  case Nil
  then show ?case by (simp add: booked_def)
next
  case (Cons tx txs)
  then obtain s1 where "acceptTx T ex t tx s = Some (Inr s1)" "acceptAll T ex t txs s1 = Some (Inr s')"
    by (auto simp: bindO_Inr_iff)
  from booked_trans [OF acceptTx_books [OF this(1)] Cons.IH [OF this(2)]] show ?case by simp
qed

lemma booked_same:
  "booked new k s s' \<Longrightarrow> same_books s0 s \<Longrightarrow> same_books s' s'' \<Longrightarrow> booked new k s0 s''"
  by (simp add: booked_def same_books_def)

lemma server_handle_books:
  assumes run: "server_handle env me pl from t g s = Some (Inr (g', s', out))" and no: "\<forall>n. pl \<noteq> BlockArrival n"
  shows "g' = g \<and> receivedBytes (metric s') = receivedBytes (metric s) + size_of (env_TXSIZE env) pl \<and>
         booked (tx_idx ` set (brought (env_ops env) s pl from)) (length (brought (env_ops env) s pl from)) s s'"
proof -
  have bytes: "receivedBytes (metric s2) = receivedBytes (metric s1)"
    if "acceptAll T ex t txs s1 = Some (Inr s2)" for T ex txs s1 s2
    using that
  proof (induction txs arbitrary: s1)
    case (Cons tx txs)
    then obtain s3 where 3: "acceptTx T ex t tx s1 = Some (Inr s3)" "acceptAll T ex t txs s3 = Some (Inr s2)"
      by (auto simp: bindO_Inr_iff)
    have "receivedBytes (metric s3) = receivedBytes (metric s1)"
      using 3(1) server_forward_to_books
      by (fastforce simp: acceptTx_def server_forward_def bindO_Inr_iff same_books_def split: if_splits)
    then show ?case using Cons.IH [OF 3(2)] by simp
  qed simp
  obtain s1 s2 where 1: "same_books s s1" "acceptAll (env_ops env) from t (brought (env_ops env) s pl from) s1 = Some (Inr s2)" "g' = g"
    "server_collect (s2\<lparr>metric := (metric s2)\<lparr>receivedBytes := receivedBytes (metric s2) + size_of (env_TXSIZE env) pl\<rparr>\<rparr>) []
      = Some (Inr (s', out))"
  proof (cases "\<exists>tx. pl = InitialBroadcast tx")
    case True
    then obtain tx s2 where "pl = InitialBroadcast tx" "acceptAll (env_ops env) from t [tx] s = Some (Inr s2)" "g' = g"
      "server_collect (s2\<lparr>metric := (metric s2)\<lparr>receivedBytes := receivedBytes (metric s2) + size_of (env_TXSIZE env) pl\<rparr>\<rparr>) []
        = Some (Inr (s', out))"
      using run by (auto simp: server_handle_def Let_def bindO_Inr_iff)
    moreover have "brought (env_ops env) s pl from = [tx]" using calculation(1) by (simp add: brought_def)
    ultimately show ?thesis using that [of s s2] by simp
  next
    case False
    define f where "f = (\<lambda>h :: peer. bindO (algo_handle (env_ops env) (algorithm h) pl) (\<lambda>(a, decoded). Some (Inr (decoded, a))))"
    from False obtain p txs s1 s2 where w: "from = Some p" "withPeer s p f = Some (Inr (txs, s1))"
      "acceptAll (env_ops env) from t txs s1 = Some (Inr s2)" "g' = g"
      "server_collect (s2\<lparr>metric := (metric s2)\<lparr>receivedBytes := receivedBytes (metric s2) + size_of (env_TXSIZE env) pl\<rparr>\<rparr>) []
        = Some (Inr (s', out))"
      using run no by (cases pl) (auto simp: server_handle_def Let_def bindO_Inr_iff f_def split: option.splits)
    moreover from w obtain h a where "handlers s p = Some h" "algo_handle (env_ops env) (algorithm h) pl = Some (Inr (a, txs))"
      by (auto simp: withPeer_def f_def bindO_Inr_iff split: option.splits)
    then have "brought (env_ops env) s pl from = txs"
      using False w(1) by (auto simp: brought_def split: payload.split)
    ultimately show ?thesis using that [of s1 s2] withPeer_books [OF w(2)] by simp
  qed
  have c: "same_books (s2\<lparr>metric := (metric s2)\<lparr>receivedBytes := receivedBytes (metric s2) + size_of (env_TXSIZE env) pl\<rparr>\<rparr>) s'"
    using 1(4) unfolding server_collect_def by (rule server_collect_from_books)
  have "g' = g \<and> receivedBytes (metric s') = receivedBytes (metric s) + size_of (env_TXSIZE env) pl"
    using 1(1,3) c bytes [OF 1(2)] by (auto simp: same_books_def)
  moreover have "booked (tx_idx ` set (brought (env_ops env) s pl from)) (length (brought (env_ops env) s pl from)) s s'"
    using acceptAll_books [OF 1(2)] 1(1) c by (simp add: booked_def same_books_def)
  ultimately show ?thesis by blast
qed

section \<open>Generated transactions\<close>

lemma arriveOne_books:
  assumes "arriveOne T t g s out = Some (Inr (g', s', out'))"
  shows "last_of g' = last_of g + 1 \<and> received s' = insert (last_of g + 1) (received s) \<and>
         receivedTransactions (metric s') = receivedTransactions (metric s) + 1 \<and>
         decodedTransactions (metric s') = decodedTransactions (metric s) \<and>
         duplicateTransactions (metric s') = duplicateTransactions (metric s)"
  using assms server_forward_to_books
  by (fastforce simp: arriveOne_def generate_def Let_def bindO_Inr_iff server_forward_def same_books_def split: if_splits)

lemma arriveMany_books:
  "arriveMany T t n g s out = Some (Inr (g', s', out')) \<Longrightarrow>
   last_of g' = last_of g + of_nat n \<and>
   received s' = received s \<union> (\<lambda>i. last_of g + of_nat i) ` {1..n} \<and>
   receivedTransactions (metric s') = receivedTransactions (metric s) + int n \<and>
   decodedTransactions (metric s') = decodedTransactions (metric s) \<and>
   duplicateTransactions (metric s') = duplicateTransactions (metric s)"
proof (induction n arbitrary: g s out)
  case (Suc n)
  then obtain g1 s1 o1 where 1: "arriveOne T t g s out = Some (Inr (g1, s1, o1))"
    "arriveMany T t n g1 s1 o1 = Some (Inr (g', s', out'))" by (auto simp: bindO_Inr_iff)
  note b = arriveOne_books [OF 1(1)]
  have "(\<lambda>i. last_of g1 + of_nat i) ` {1..n} = (\<lambda>i. last_of g + of_nat i) ` Suc ` {1..n}"
    unfolding image_image using b by (intro image_cong) (simp_all add: add.assoc)
  also have "Suc ` {1..n} = {2..Suc n}" by (simp add: image_Suc_atLeastAtMost numeral_2_eq_2)
  finally have "insert (last_of g + 1) ((\<lambda>i. last_of g1 + of_nat i) ` {1..n}) =
      (\<lambda>i. last_of g + of_nat i) ` insert 1 {2..Suc n}" by simp
  also have "insert 1 {2..Suc n} = {1..Suc n}" by auto
  finally have new: "insert (last_of g + 1) ((\<lambda>i. last_of g1 + of_nat i) ` {1..n}) =
      (\<lambda>i. last_of g + of_nat i) ` {1..Suc n}" .
  have "received s' = received s \<union> insert (last_of g + 1) ((\<lambda>i. last_of g1 + of_nat i) ` {1..n})"
    using Suc.IH [OF 1(2)] b by auto
  then show ?case using Suc.IH [OF 1(2)] b unfolding new by (simp add: add.assoc)
qed simp

end
