(* ===== verification/Loops.thy ===== *)
theory Loops
  imports Prelude
begin

text \<open>
  The counting loops of the drivers: a body that may panic or not return, over the values of a
  loop variable in order, and the allocation and the conversions that the drivers share.
\<close>

fun eachO :: "('a \<Rightarrow> 's \<Rightarrow> 's run) \<Rightarrow> 'a list \<Rightarrow> 's \<Rightarrow> 's run" where
  "eachO f [] s = Some (Inr s)"
| "eachO f (x # xs) s = bindO (f x s) (eachO f xs)"

fun eachR :: "('a \<Rightarrow> 's \<Rightarrow> 's result) \<Rightarrow> 'a list \<Rightarrow> 's \<Rightarrow> 's result" where
  "eachR f [] s = Inr s"
| "eachR f (x # xs) s = bindR (f x s) (eachR f xs)"

text \<open>\<open>make([]T, n)\<close>.\<close>

definition makeSlice :: "int \<Rightarrow> 'a \<Rightarrow> 'a list result" where
  "makeSlice n z = (if n < 0 then Inl (Panic ''makeslice: len out of range'') else Inr (replicate (nat n) z))"

text \<open>The values of \<open>i\<close> in \<open>for i := lo; i < hi; i++\<close>, for a bound that may be negative.\<close>

definition upTo :: "int \<Rightarrow> int \<Rightarrow> nat list" where
  "upTo lo hi = [nat lo..<nat hi]"

lemma upTo_0 [simp]: "upTo 0 hi = [0..<nat hi]"
  by (simp add: upTo_def)

lemma bindR_assoc: "bindR (bindR r f) g = bindR r (\<lambda>x. bindR (f x) g)"
  by (cases r) simp_all

lemma eachR_pure:
  assumes "\<And>x s. x \<in> set xs \<Longrightarrow> f x s = Inr (g x s)"
  shows "eachR f xs s = Inr (fold g xs s)"
  using assms by (induction xs arbitrary: s) simp_all

lemma eachO_pure:
  assumes "\<And>x s. x \<in> set xs \<Longrightarrow> f x s = Some (Inr (g x s))"
  shows "eachO f xs s = Some (Inr (fold g xs s))"
  using assms by (induction xs arbitrary: s) simp_all

lemma eachO_inv:
  assumes "\<And>x s. x \<in> set xs \<Longrightarrow> I s \<Longrightarrow> \<exists>s'. f x s = Some (Inr s') \<and> I s'" "I s"
  shows "\<exists>s'. eachO f xs s = Some (Inr s') \<and> I s'"
  using assms
proof (induction xs arbitrary: s)
  case (Cons x xs)
  then obtain s1 where "f x s = Some (Inr s1)" "I s1" by (meson list.set_intros(1))
  moreover from Cons.IH [of s1] Cons.prems(1) this(2) obtain s2 where "eachO f xs s1 = Some (Inr s2)" "I s2" by auto
  ultimately show ?case by simp
qed simp

lemma eachO_append:
  "eachO f (xs @ ys) s = bindO (eachO f xs s) (eachO f ys)"
  by (induction xs arbitrary: s) (auto simp: bindO_def split: Option.bind_splits sum.splits)

text \<open>A fold over a range of positions is a fold over the entries there.\<close>

lemma fold_positions: "hi \<le> length xs \<Longrightarrow> fold (\<lambda>i. g (xs ! i)) [lo..<hi] s = fold g (drop lo (take hi xs)) s"
proof -
  assume "hi \<le> length xs"
  then have "drop lo (take hi xs) = map ((!) xs) [lo..<hi]"
    by (auto intro!: nth_equalityI simp: min_absorb2)
  then show ?thesis by (simp add: fold_map comp_def)
qed

end
