(* ===== verification/Riblt_Schedule.thy ===== *)
theory Riblt_Schedule
  imports Riblt_Reconcile
begin

text \<open>
  The order of peeling in \<open>riblt/decoder.go\<close> does not matter. What can be found with the first
  \<open>n\<close> coded symbols is a least fixed point, \<open>ripe\<close>; a decoder that has received \<open>n\<close> coded symbols
  and settles has found exactly that, whenever \<open>TryDecode\<close> was called on the way.
\<close>

section \<open>What the first coded symbols determine\<close>

inductive_set ripe :: "nat \<Rightarrow> nat \<Rightarrow> 'd HashedSymbol list \<Rightarrow> 'd HashedSymbol list \<Rightarrow> 'd HashedSymbol set"
  for N n :: nat and P Q :: "'d HashedSymbol list" where
  alone: "s \<in> set P \<union> set Q \<Longrightarrow> i < n \<Longrightarrow> hits N i s \<Longrightarrow>
          (\<And>t. t \<in> set P \<union> set Q \<Longrightarrow> hits N i t \<Longrightarrow> t \<noteq> s \<Longrightarrow> t \<in> ripe N n P Q) \<Longrightarrow> s \<in> ripe N n P Q"

lemma ripe_sub: "ripe N n P Q \<subseteq> set P \<union> set Q"
  by (auto elim: ripe.cases)

lemma filter_remaining_single:
  "filter p (remaining R P) = [s] \<Longrightarrow> s \<in> set P \<and> p s \<and> (\<forall>t\<in>set P. p t \<longrightarrow> t = s \<or> t \<in> set R)"
proof -
  assume "filter p (remaining R P) = [s]"
  then have "set (filter p (remaining R P)) = {s}" by simp
  then show ?thesis by auto
qed

lemma filter_remaining_Nil: "filter p (remaining R P) = [] \<Longrightarrow> \<forall>t\<in>set P. p t \<longrightarrow> t \<in> set R"
  by (auto simp: filter_empty_conv)

lemma peel_step_ripe:
  assumes "peel_step N n P Q (R, L) (R', L')" "set R \<union> set L \<subseteq> ripe N n P Q"
  shows "set R' \<union> set L' \<subseteq> ripe N n P Q"
  using assms(1)
proof (cases rule: peel_step.cases)
  case (remote i s)
  have "s \<in> ripe N n P Q"
    by (rule ripe.alone [of s _ _ i])
       (use remote(3,4,5) assms(2) filter_remaining_single [OF remote(4)] filter_remaining_Nil [OF remote(5)] in blast)+
  then show ?thesis using remote(1,2) assms(2) by simp
next
  case (local i s)
  have "s \<in> ripe N n P Q"
    by (rule ripe.alone [of s _ _ i])
       (use local(3,4,5) assms(2) filter_remaining_Nil [OF local(4)] filter_remaining_single [OF local(5)] in blast)+
  then show ?thesis using local(1,2) assms(2) by simp
qed

lemma peel_steps_ripe:
  "(peel_step N n P Q)\<^sup>*\<^sup>* x y \<Longrightarrow> set (fst x) \<union> set (snd x) \<subseteq> ripe N n P Q \<Longrightarrow>
   set (fst y) \<union> set (snd y) \<subseteq> ripe N n P Q"
proof (induction rule: rtranclp_induct)
  case (step y z)
  then show ?case using peel_step_ripe [of N n P Q "fst y" "snd y" "fst z" "snd z"] by simp
qed

lemma ripe_mono: "n \<le> m \<Longrightarrow> ripe N n P Q \<subseteq> ripe N m P Q"
proof
  fix s assume "n \<le> m" "s \<in> ripe N n P Q"
  from this(2) show "s \<in> ripe N m P Q"
  proof induction
    case (alone s i)
    then show ?case using \<open>n \<le> m\<close> by (intro ripe.alone [of s _ _ i]) auto
  qed
qed

text \<open>A state in which no cell holds a single symbol has found all that is ripe.\<close>

lemma length_filter_single:
  assumes "distinct xs" "s \<in> set xs" "p s" "\<And>t. t \<in> set xs \<Longrightarrow> p t \<Longrightarrow> t = s"
  shows "length (filter p xs) = 1"
proof -
  have "set (filter p xs) = {s}" using assms(2-4) unfolding set_filter by blast
  then show ?thesis using assms(1) distinct_card [of "filter p xs"] by simp
qed

lemma settled_ripe:
  assumes "distinct P" "distinct Q" "set P \<inter> set Q = {}" "set R \<subseteq> set P" "set L \<subseteq> set Q"
    and "\<And>i. i < n \<Longrightarrow> length (filter (hits N i) (remaining R P)) + length (filter (hits N i) (remaining L Q)) \<noteq> 1"
  shows "ripe N n P Q \<subseteq> set R \<union> set L"
proof
  fix s assume "s \<in> ripe N n P Q"
  then show "s \<in> set R \<union> set L"
  proof induction
    case (alone s i)
    show ?case
    proof (rule ccontr)
      assume new: "s \<notin> set R \<union> set L"
      have others: "t = s" if "t \<in> set (remaining R P) \<union> set (remaining L Q)" "hits N i t" for t
      proof (rule ccontr)
        have t: "t \<in> set P - set R \<or> t \<in> set Q - set L" using that(1) by simp
        assume "t \<noteq> s"
        then have "t \<in> set R \<union> set L" using alone.IH [of t] t that(2) by fastforce
        then show False using t assms(3-5) by blast
      qed
      consider "s \<in> set (remaining R P)" "s \<notin> set (remaining L Q)"
        | "s \<in> set (remaining L Q)" "s \<notin> set (remaining R P)"
        using alone.hyps(1) new assms(3) unfolding set_remaining by blast
      then have "length (filter (hits N i) (remaining R P)) + length (filter (hits N i) (remaining L Q)) = 1"
      proof cases
        case 1
        then have "filter (hits N i) (remaining L Q) = []" using others unfolding filter_empty_conv by blast
        moreover have "length (filter (hits N i) (remaining R P)) = 1"
          using length_filter_single [where p = "hits N i", OF distinct_remaining [OF assms(1)] 1(1) alone.hyps(3)] others by blast
        ultimately show ?thesis by simp
      next
        case 2
        then have "filter (hits N i) (remaining R P) = []" using others unfolding filter_empty_conv by blast
        moreover have "length (filter (hits N i) (remaining L Q)) = 1"
          using length_filter_single [where p = "hits N i", OF distinct_remaining [OF assms(2)] 2(1) alone.hyps(3)] others by blast
        ultimately show ?thesis by simp
      qed
      then show False using assms(6) [OF alone.hyps(2)] by simp
    qed
  qed
qed

section \<open>Schedules\<close>

text \<open>The two ends of a session for \<open>A\<close> and \<open>B\<close>, of which \<open>n\<close> coded symbols have been received.\<close>

definition ends_at ::
  "'d symbolOps \<Rightarrow> nat \<Rightarrow> 'd HashedSymbol list \<Rightarrow> 'd HashedSymbol list \<Rightarrow> nat \<Rightarrow> 'd Encoder \<Rightarrow> 'd Decoder \<Rightarrow> bool" where
  "ends_at T N A B n e d \<longleftrightarrow>
     length (cs d) = n \<and> encoder_at n A e \<and> decoder_at T N (remaining B A) (remaining A B) B 0 d \<and>
     set (Remote d) \<union> set (Local d) \<subseteq> ripe N n (remaining B A) (remaining A B)"

text \<open>What the sets satisfy.\<close>

definition sets_ok :: "'d symbolOps \<Rightarrow> nat \<Rightarrow> 'd HashedSymbol list \<Rightarrow> 'd HashedSymbol list \<Rightarrow> bool" where
  "sets_ok T N A B \<longleftrightarrow>
     setting T N (remaining B A) (remaining A B) B \<and> distinct A \<and> distinct B \<and> (\<forall>s\<in>set A. simpleFor N s)"

lemma run_apart_append:
  "run_apart T N P Q (evs @ evs') e d \<longleftrightarrow>
     run_apart T N P Q evs e d \<and> (\<forall>e' d'. schedule T evs e d = Some (Inr (e', d')) \<longrightarrow> run_apart T N P Q evs' e' d')"
proof (induction evs arbitrary: e d)
  case (Cons ev evs)
  then show ?case by (cases ev) (fastforce simp: bindO_Inr_iff)+
qed simp

lemma ends_at_start: "ends_at T N A B 0 (encoderOf A) (decoderOf B)"
  using encoder_at_fold [of A] decoder_at_decoderOf [of T N "remaining B A" "remaining A B" B] decoderOf_fields [of B]
  by (simp add: ends_at_def encoderOf_def Remote_def Local_def)

context symbol_laws
begin

lemma receive_step:
  assumes "sets_ok T N A B" "ends_at T N A B n e d" "n < N"
  shows "\<exists>e' c d'. ProduceNextCodedSymbol T e = Some (Inr (e', c)) \<and> AddCodedSymbol T d c = Some (Inr d') \<and>
                   ends_at T N A B (Suc n) e' d'"
proof -
  let ?P = "remaining B A" and ?Q = "remaining A B"
  have ok: "setting T N ?P ?Q B" "distinct A" "distinct B" "\<forall>s\<in>set A. simpleFor N s" "N \<le> 2 ^ 34"
    using assms(1) by (simp_all add: sets_ok_def setting_def)
  have d: "length (cs d) = n" "encoder_at n A e" "decoder_at T N ?P ?Q B 0 d"
    "set (Remote d) \<union> set (Local d) \<subseteq> ripe N n ?P ?Q"
    using assms(2) by (simp_all add: ends_at_def)
  have wA: "\<forall>s\<in>set A. walkable N (freshMapping (Hash s))" using ok(4) by (simp add: simpleFor_def)
  obtain e1 where e1: "ProduceNextCodedSymbol T e =
      Some (Inr (e1, applyAll T (cellUpd N n A add_dir) (emptyCoded T)))" "encoder_at (Suc n) A e1"
    using ProduceNext_spec [OF d(2) wA assms(3) ok(5)] cell_updates_simple [OF ok(4)] by metis
  have "applyAll T (cellUpd N n B remove_dir) (applyAll T (cellUpd N n A add_dir) (emptyCoded T)) = diffCell T N n ?P ?Q"
    using diffCell_window [OF ok(2,3), of N n] by simp
  from AddCodedSymbol_spec [OF ok(1) d(3), unfolded d(1), OF assms(3) this]
  obtain d1 where d1: "AddCodedSymbol T d (applyAll T (cellUpd N n A add_dir) (emptyCoded T)) = Some (Inr d1)"
    "decoder_at T N ?P ?Q B 0 d1" "length (cs d1) = Suc n" "Remote d1 = Remote d" "Local d1 = Local d" by blast
  have "ends_at T N A B (Suc n) e1 d1"
    using e1(2) d1(2-5) d(4) ripe_mono [of n "Suc n" N ?P ?Q] unfolding ends_at_def by auto
  then show ?thesis using e1(1) d1(1) by blast
qed

text \<open>An attempt finds all that is ripe, and \<open>Decoded\<close> says whether that is everything.\<close>

lemma attempt_step:
  assumes "sets_ok T N A B" "ends_at T N A B n e d" "attempt_apart T N (remaining B A) (remaining A B) 0 d"
  shows "\<exists>d'. TryDecode T d = Some (Inr d') \<and> ends_at T N A B n e d' \<and>
              set (Remote d') = ripe N n (remaining B A) (remaining A B) \<inter> set A \<and>
              set (Local d') = ripe N n (remaining B A) (remaining A B) \<inter> set B \<and>
              (0 < n \<longrightarrow> (Decoded d' \<longleftrightarrow> ripe N n (remaining B A) (remaining A B) = (set A - set B) \<union> (set B - set A)))"
proof -
  let ?P = "remaining B A" and ?Q = "remaining A B" and ?r = "ripe N n (remaining B A) (remaining A B)"
  have ok: "setting T N ?P ?Q B" "distinct A" "distinct B" using assms(1) by (simp_all add: sets_ok_def)
  have d: "length (cs d) = n" "encoder_at n A e" "decoder_at T N ?P ?Q B 0 d" "set (Remote d) \<union> set (Local d) \<subseteq> ?r"
    using assms(2) by (simp_all add: ends_at_def)
  obtain d' where d': "TryDecode T d = Some (Inr d')" "decoder_at T N ?P ?Q B 0 d'" "dirty d' = []"
    "length (cs d') = n" "(peel_step N n ?P ?Q)\<^sup>*\<^sup>* (Remote d, Local d) (Remote d', Local d')"
    "cells_apart T N ?P ?Q d'"
    using TryDecode_spec [OF ok(1) d(3) assms(3)] d(1) by blast
  have sub: "set (Remote d') \<union> set (Local d') \<subseteq> ?r" using peel_steps_ripe [OF d'(5)] d(4) by simp
  have RL: "set (Remote d') \<subseteq> set ?P" "set (Local d') \<subseteq> set ?Q" using d'(2) by (simp_all add: decoder_at_def)
  have "?r \<subseteq> set (Remote d') \<union> set (Local d')"
    using settled_ripe [of ?P ?Q "Remote d'" "Local d'" n N] ok(2,3) RL d'(4)
      settled_no_single [OF ok(1) d'(2,3)] by auto
  with sub have all: "?r = set (Remote d') \<union> set (Local d')" by blast
  then have found: "set (Remote d') = ?r \<inter> set A" "set (Local d') = ?r \<inter> set B" using RL by auto
  have "Decoded d' \<longleftrightarrow> ?r = (set A - set B) \<union> (set B - set A)" if "0 < n"
  proof -
    have "cs d' \<noteq> []" using d'(4) that by auto
    from decoded_difference [OF ok(1) d'(2) this d'(3,6)]
    have "Decoded d' \<longleftrightarrow> set (Remote d') = set A - set B \<and> set (Local d') = set B - set A" by simp
    then show ?thesis unfolding all using RL by auto
  qed
  then show ?thesis using d'(1,2,4) d(2) sub found unfolding ends_at_def by blast
qed

lemma schedule_spec:
  assumes "sets_ok T N A B" "ends_at T N A B n e d" "n + receives evs \<le> N"
    and "run_apart T N (remaining B A) (remaining A B) evs e d"
  shows "\<exists>e' d'. schedule T evs e d = Some (Inr (e', d')) \<and> ends_at T N A B (n + receives evs) e' d'"
  using assms(2-4)
proof (induction evs arbitrary: n e d)
  case (Cons ev evs)
  show ?case
  proof (cases ev)
    case Receive
    then obtain e1 c d1 where "ProduceNextCodedSymbol T e = Some (Inr (e1, c))"
      "AddCodedSymbol T d c = Some (Inr d1)" "ends_at T N A B (Suc n) e1 d1"
      using receive_step [OF assms(1) Cons.prems(1)] Cons.prems(2) by auto
    then show ?thesis using Cons.IH [of "Suc n" e1 d1] Cons.prems(2,3) Receive by simp
  next
    case Attempt
    then obtain d1 where "TryDecode T d = Some (Inr d1)" "ends_at T N A B n e d1"
      using attempt_step [OF assms(1) Cons.prems(1)] Cons.prems(3) Attempt by auto
    then show ?thesis using Cons.IH [of n e d1] Cons.prems(2,3) Attempt by simp
  qed
qed simp

lemma schedule_append:
  "schedule T (evs @ evs') e d = bindO (schedule T evs e d) (\<lambda>(e, d). schedule T evs' e d)"
proof (induction evs arbitrary: e d)
  case (Cons ev evs)
  then show ?case by (cases ev) (auto simp: bindO_def split: Option.bind_splits sum.splits)
qed simp

lemma schedule_finds:
  assumes "sets_ok T N A B" "receives evs = n" "n \<le> N"
    and "run_apart T N (remaining B A) (remaining A B) (evs @ [Attempt]) (encoderOf A) (decoderOf B)"
  shows "\<exists>e d. schedule T (evs @ [Attempt]) (encoderOf A) (decoderOf B) = Some (Inr (e, d)) \<and>
               set (Remote d) = ripe N n (remaining B A) (remaining A B) \<inter> set A \<and>
               set (Local d) = ripe N n (remaining B A) (remaining A B) \<inter> set B \<and>
               (0 < n \<longrightarrow> (Decoded d \<longleftrightarrow> ripe N n (remaining B A) (remaining A B) = (set A - set B) \<union> (set B - set A)))"
proof -
  obtain e d where run: "schedule T evs (encoderOf A) (decoderOf B) = Some (Inr (e, d))" "ends_at T N A B n e d"
    using schedule_spec [OF assms(1) ends_at_start, of evs] assms(2-4) by (auto simp: run_apart_append)
  moreover have "attempt_apart T N (remaining B A) (remaining A B) 0 d"
    using assms(4) run(1) by (simp add: run_apart_append)
  moreover from attempt_step [OF assms(1) run(2) this] obtain d' where "TryDecode T d = Some (Inr d')"
    "set (Remote d') = ripe N n (remaining B A) (remaining A B) \<inter> set A"
    "set (Local d') = ripe N n (remaining B A) (remaining A B) \<inter> set B"
    "0 < n \<longrightarrow> (Decoded d' \<longleftrightarrow> ripe N n (remaining B A) (remaining A B) = (set A - set B) \<union> (set B - set A))"
    by blast
  ultimately show ?thesis by (simp add: schedule_append)
qed

end

end
