(* ===== verification/Bench_Riblt.thy ===== *)
theory Bench_Riblt
  imports Loops Riblt_Schedule Newsim_Types
begin

text \<open>
  \<open>benchmark/main.go\<close>: the benchmark of \<open>riblt/\<close>. Each test counts the coded symbols that a
  difference takes, then fills a sketch and a decoder of that size and decodes at once. The
  timing and the printed line are left out. \<open>testSymbol\<close> is an array of 8 bytes, which its \<open>XOR\<close>
  reads as a \<open>uint64\<close>: here it is that number, little-endian. The global generator gives
  \<open>rand.Int\<close> and the permutations of \<open>rand.Perm\<close>, one of each per test.
\<close>

section \<open>Symbols\<close>

type_synonym testSymbol = u64

definition testSymbol_XOR :: "testSymbol \<Rightarrow> testSymbol \<Rightarrow> testSymbol" where
  "testSymbol_XOR d t2 = d XOR t2"

definition testSymbol_Hash :: "siphash \<Rightarrow> testSymbol \<Rightarrow> u64" where
  "testSymbol_Hash sip d = sip 567 890 (littleEndian64 d)"

definition testOps :: "siphash \<Rightarrow> testSymbol symbolOps" where
  "testOps sip = \<lparr>XOR_of = testSymbol_XOR, Hash_of = testSymbol_Hash sip, default_of = 0\<rparr>"

interpretation testSym: symbol_laws "testOps sip" for sip
  by unfold_locales (simp_all add: testOps_def testSymbol_XOR_def xor.assoc xor.commute xor.left_commute)

definition testSymbols :: "int \<Rightarrow> int \<Rightarrow> testSymbol list result" where
  "testSymbols n start =
     bindR (makeSlice n 0) (\<lambda>data.
     eachR (\<lambda>i data. Inr (data[i := of_nat i + word_of_int start])) (upTo 0 n) data)"

text \<open>\<open>rand.Perm(n)\<close> allocates \<open>n\<close> numbers too.\<close>

definition randomTestSymbols :: "nat list \<Rightarrow> int \<Rightarrow> int \<Rightarrow> testSymbol list result" where
  "randomTestSymbols src n start =
     bindR (makeSlice n 0) (\<lambda>data.
     eachR (\<lambda>i data. bindR (get src i) (\<lambda>v. Inr (data[i := of_nat v + word_of_int start]))) (upTo 0 n) data)"

definition hashSymbols :: "siphash \<Rightarrow> testSymbol list \<Rightarrow> testSymbol HashedSymbol list" where
  "hashSymbols sip xs = fold (\<lambda>v res. res @ [\<lparr>Symbol = v, Hash = testSymbol_Hash sip v\<rparr>]) xs []"

section \<open>A test\<close>

definition fillDecoder :: "testSymbol HashedSymbol list \<Rightarrow> int \<Rightarrow> testSymbol Decoder result" where
  "fillDecoder hashedDiff nlocal =
     eachR (\<lambda>i dec. bindR (get hashedDiff i) (\<lambda>s. Inr (Decoder_AddHashedSymbol dec s))) (upTo 0 nlocal) emptyDecoder"

definition fillEncoder :: "testSymbol HashedSymbol list \<Rightarrow> int \<Rightarrow> int \<Rightarrow> testSymbol Encoder result" where
  "fillEncoder hashedDiff nlocal nremote =
     eachR (\<lambda>i enc. bindR (get hashedDiff i) (\<lambda>s. Inr (Encoder_AddHashedSymbol enc s)))
           (upTo nlocal (nlocal + nremote)) emptyWindow"

text \<open>The probe: receive and decode until \<open>Decoded\<close>.\<close>

partial_function (option) probeLoop ::
  "testSymbol symbolOps \<Rightarrow> testSymbol Encoder \<Rightarrow> testSymbol Decoder \<Rightarrow> nat \<Rightarrow> nat run" where
  "probeLoop T enc dec ncw =
     bindO (ProduceNextCodedSymbol T enc) (\<lambda>(enc, c).
     bindO (AddCodedSymbol T dec c) (\<lambda>dec.
     bindO (TryDecode T dec) (\<lambda>dec.
       if Decoded dec then Some (Inr (ncw + 1)) else probeLoop T enc dec (ncw + 1))))"

definition probeTest :: "siphash \<Rightarrow> testSymbol HashedSymbol list \<Rightarrow> int \<Rightarrow> int \<Rightarrow> nat run" where
  "probeTest sip hashedDiff nlocal nremote =
     bindO (Some (fillDecoder hashedDiff nlocal)) (\<lambda>dec.
     bindO (Some (fillEncoder hashedDiff nlocal nremote)) (\<lambda>enc.
     probeLoop (testOps sip) enc dec 0))"

text \<open>The timed fill of a sketch.\<close>

definition addFrom :: "siphash \<Rightarrow> testSymbol list \<Rightarrow> nat list \<Rightarrow> testSymbol Sketch \<Rightarrow> testSymbol Sketch run" where
  "addFrom sip data = eachO (\<lambda>i s. bindO (Some (get data i)) (Sketch_AddSymbol (testOps sip) s))"

definition encodeTest ::
  "siphash \<Rightarrow> testSymbol list \<Rightarrow> testSymbol list \<Rightarrow> int \<Rightarrow> int \<Rightarrow> int \<Rightarrow> nat \<Rightarrow> testSymbol Sketch run" where
  "encodeTest sip diffData commonData nlocal nremote ncommon ncw =
     bindO (addFrom sip diffData (upTo nlocal (nlocal + nremote)) (makeSketch (testOps sip) ncw)) (\<lambda>codewords.
     addFrom sip commonData (upTo 0 ncommon) codewords)"

text \<open>The timed decoding of all coded symbols at once.\<close>

definition decodeTest :: "siphash \<Rightarrow> testSymbol HashedSymbol list \<Rightarrow> int \<Rightarrow> int \<Rightarrow> nat \<Rightarrow> testSymbol Decoder run" where
  "decodeTest sip hashedDiff nlocal nremote ncw =
     bindO (Some (fillDecoder hashedDiff nlocal)) (\<lambda>dec.
     bindO (Some (fillEncoder hashedDiff nlocal nremote)) (\<lambda>enc.
     bindO (eachO (\<lambda>i (enc, dec).
              bindO (ProduceNextCodedSymbol (testOps sip) enc) (\<lambda>(enc, c).
              bindO (AddCodedSymbol (testOps sip) dec c) (\<lambda>dec. Some (Inr (enc, dec))))) [0..<ncw] (enc, dec)) (\<lambda>(enc, dec).
     bindO (TryDecode (testOps sip) dec) (\<lambda>dec.
       if \<not> Decoded dec then Some (Inl (Panic ''fail to decode'')) else Some (Inr dec)))))"

definition benchTest :: "siphash \<Rightarrow> int \<Rightarrow> int \<Rightarrow> int \<Rightarrow> nat list \<Rightarrow> nat run" where
  "benchTest sip diff setSize symbolBegin perm =
     (let nlocal = diff sdiv 2; nremote = diff sdiv 2; ncommon = setSize - diff sdiv 2 in
      bindO (Some (randomTestSymbols perm diff symbolBegin)) (\<lambda>diffData.
      let hashedDiff = hashSymbols sip diffData in
      bindO (Some (testSymbols ncommon (diff + symbolBegin))) (\<lambda>commonData.
      bindO (probeTest sip hashedDiff nlocal nremote) (\<lambda>ncw.
      bindO (encodeTest sip diffData commonData nlocal nremote ncommon ncw) (\<lambda>codewords.
      bindO (decodeTest sip hashedDiff nlocal nremote ncw) (\<lambda>dec. Some (Inr ncw)))))))"

text \<open>\<open>main\<close>, up to the final line: the total of the coded symbols.\<close>

definition benchMain :: "siphash \<Rightarrow> int \<Rightarrow> int \<Rightarrow> int \<Rightarrow> (nat \<Rightarrow> int) \<Rightarrow> (nat \<Rightarrow> nat list) \<Rightarrow> nat run" where
  "benchMain sip diff setSize test ints perms =
     (if diff smod 2 \<noteq> 0 then Some (Inl (Panic ''diff not an even number''))
      else eachO (\<lambda>k totalCw. bindO (benchTest sip diff setSize (ints k) (perms k)) (\<lambda>ncw. Some (Inr (totalCw + ncw))))
             (upTo 0 test) 0)"

section \<open>The symbols of a test\<close>

text \<open>The allocation and filling of a slice by position.\<close>

lemma fill_by_position:
  assumes "0 \<le> n" "\<And>i. i < nat n \<Longrightarrow> f i = Inr (g i)"
  shows "bindR (makeSlice n z) (\<lambda>data. eachR (\<lambda>i data. bindR (f i) (\<lambda>v. Inr (data[i := v]))) (upTo 0 n) data) =
         Inr (map g [0..<nat n])"
proof -
  have filled: "fold (\<lambda>i data. data[i := g i]) [0..<m] (replicate l z) = map g [0..<m] @ replicate (l - m) z" if "m \<le> l" for m l
    using that
  proof (induction m)
    case (Suc m)
    then have "replicate (l - m) z = z # replicate (l - Suc m) z" by (metis Suc_diff_Suc Suc_le_lessD replicate_Suc)
    with Suc show ?case by (simp add: list_update_append)
  qed simp
  have "eachR (\<lambda>i data. bindR (f i) (\<lambda>v. Inr (data[i := v]))) [0..<nat n] (replicate (nat n) z) =
        Inr (fold (\<lambda>i data. data[i := g i]) [0..<nat n] (replicate (nat n) z))"
    by (rule eachR_pure) (simp add: assms(2))
  then show ?thesis using assms(1) filled [of "nat n" "nat n"] by (simp add: makeSlice_def)
qed

lemma testSymbols_eq:
  "0 \<le> n \<Longrightarrow> testSymbols n start = Inr (map (\<lambda>i. of_nat i + word_of_int start) [0..<nat n])"
  using fill_by_position [of n "\<lambda>i. Inr (of_nat i + word_of_int start)" "\<lambda>i. of_nat i + word_of_int start" "0 :: testSymbol"]
  by (simp add: testSymbols_def)

lemma randomTestSymbols_eq:
  assumes "0 \<le> n" "length src = nat n"
  shows "randomTestSymbols src n start = Inr (map (\<lambda>v. of_nat v + word_of_int start) src)"
proof -
  have "map (\<lambda>i. of_nat (src ! i) + word_of_int start :: testSymbol) [0..<nat n] = map (\<lambda>v. of_nat v + word_of_int start) src"
    using assms(2) by (auto intro: nth_equalityI)
  then show ?thesis
    using fill_by_position [of n "\<lambda>i. bindR (get src i) (\<lambda>v. Inr (of_nat v + word_of_int start))"
        "\<lambda>i. of_nat (src ! i) + word_of_int start" "0 :: testSymbol"] assms
    unfolding randomTestSymbols_def bindR_assoc by (simp add: get_def)
qed

lemma hashSymbols_map: "hashSymbols sip xs = map (hashSymbol (testOps sip)) xs"
proof -
  have "fold (\<lambda>v res. res @ [\<lparr>Symbol = v, Hash = testSymbol_Hash sip v\<rparr>]) xs ys = ys @ map (hashSymbol (testOps sip)) xs" for ys
    by (induction xs arbitrary: ys) (simp_all add: hashSymbol_def testOps_def)
  then show ?thesis by (simp add: hashSymbols_def)
qed

lemma fillDecoder_eq:
  assumes "k \<le> length hs"
  shows "fillDecoder hs (int k) = Inr (decoderOf (take k hs))"
proof -
  have "fillDecoder hs (int k) = Inr (fold (\<lambda>i dec. Decoder_AddHashedSymbol dec (hs ! i)) [0..<k] emptyDecoder)"
    unfolding fillDecoder_def upTo_0 nat_int by (rule eachR_pure) (use assms in \<open>simp add: get_def\<close>)
  then show ?thesis
    using fold_positions [OF assms, of "\<lambda>s dec. Decoder_AddHashedSymbol dec s" 0] by (simp add: decoderOf_def)
qed

lemma fillEncoder_eq:
  assumes "k + l \<le> length hs"
  shows "fillEncoder hs (int k) (int l) = Inr (encoderOf (drop k (take (k + l) hs)))"
proof -
  have r: "upTo (int k) (int k + int l) = [k..<k + l]" by (simp add: upTo_def nat_int_add)
  have "fillEncoder hs (int k) (int l) = Inr (fold (\<lambda>i enc. Encoder_AddHashedSymbol enc (hs ! i)) [k..<k + l] emptyWindow)"
    unfolding fillEncoder_def r by (rule eachR_pure) (use assms in \<open>simp add: get_def\<close>)
  then show ?thesis
    using fold_positions [OF assms, of "\<lambda>s enc. Encoder_AddHashedSymbol enc s" k] by (simp add: encoderOf_def)
qed

section \<open>A test returns the least sufficient number of coded symbols\<close>

definition suffices :: "nat \<Rightarrow> 'd HashedSymbol list \<Rightarrow> 'd HashedSymbol list \<Rightarrow> nat \<Rightarrow> bool" where
  "suffices N A B n \<longleftrightarrow> 0 < n \<and> ripe N n (remaining B A) (remaining A B) = (set A - set B) \<union> (set B - set A)"

lemma probeLoop_least:
  assumes "sets_ok (testOps sip) N A B" "ends_at (testOps sip) N A B n e d"
    and "n < m" "m \<le> N" "suffices N A B m" "\<And>j. n < j \<Longrightarrow> j < m \<Longrightarrow> \<not> suffices N A B j"
    and "run_apart (testOps sip) N (remaining B A) (remaining A B) (rounds (N - n)) e d"
  shows "probeLoop (testOps sip) e d n = Some (Inr m)"
  using assms(2,3,6,7)
proof (induction "m - n" arbitrary: n e d)
  case (Suc x)
  have "N - n = Suc (N - Suc n)" using Suc.prems(2) assms(4) by simp
  note ap = Suc.prems(4) [unfolded this, simplified, rule_format]
  obtain e1 c d1 where step: "ProduceNextCodedSymbol (testOps sip) e = Some (Inr (e1, c))"
    "AddCodedSymbol (testOps sip) d c = Some (Inr d1)" "ends_at (testOps sip) N A B (Suc n) e1 d1"
    using testSym.receive_step [OF assms(1) Suc.prems(1)] Suc.prems(2) assms(4) by fastforce
  obtain d2 where d2: "TryDecode (testOps sip) d1 = Some (Inr d2)" "ends_at (testOps sip) N A B (Suc n) e1 d2"
    "Decoded d2 \<longleftrightarrow> suffices N A B (Suc n)"
    using testSym.attempt_step [OF assms(1) step(3) ap [OF step(1,2), THEN conjunct1]] by (auto simp: suffices_def)
  show ?case
  proof (cases "Suc n = m")
    case True
    then have "Decoded d2" using d2(3) assms(5) by simp
    then show ?thesis using step(1,2) d2(1) True by (subst probeLoop.simps) simp
  next
    case False
    then have "Suc n < m" "\<not> Decoded d2" using Suc.prems(2,3) d2(3) by auto
    moreover have "probeLoop (testOps sip) e1 d2 (Suc n) = Some (Inr m)"
      using Suc.hyps(1) [of "Suc n" e1 d2] Suc.hyps(2) d2(2) \<open>Suc n < m\<close> Suc.prems(3)
        ap [OF step(1,2), THEN conjunct2, rule_format, OF d2(1)] by auto
    ultimately show ?thesis using step(1,2) d2(1) by (subst probeLoop.simps) simp
  qed
qed simp

text \<open>A probe that returns has counted on; when no number up to \<open>N\<close> suffices, beyond \<open>N\<close>.\<close>

lemma probeLoop_counts:
  assumes "probeLoop T e d n = Some r"
  shows "r = Inr m \<longrightarrow> n < m"
proof (rule probeLoop.raw_induct [where P = "\<lambda>T e d n r. r = Inr m \<longrightarrow> n < m", OF _ assms], rule impI)
  fix loop T e d n r
  assume IH: "\<And>T e d n r. loop T e d n = Some r \<Longrightarrow> r = Inr m \<longrightarrow> n < m"
    and body: "bindO (ProduceNextCodedSymbol T e) (\<lambda>(e, c). bindO (AddCodedSymbol T d c) (\<lambda>d. bindO (TryDecode T d) (\<lambda>d.
      if Decoded d then Some (Inr (n + 1)) else loop T e d (n + 1)))) = Some r"
    and r: "r = Inr m"
  obtain e1 d1 where "(if Decoded d1 then Some (Inr (n + 1)) else loop T e1 d1 (n + 1)) = Some (Inr m)"
    using body unfolding r bindO_Inr_iff case_prod_beta by blast
  then show "n < m" using IH [of T e1 d1 "n + 1" "Inr m"] by (auto split: if_splits)
qed

lemma probeLoop_beyond:
  assumes "sets_ok (testOps sip) N A B" "ends_at (testOps sip) N A B n e d"
    and "n \<le> N" "\<And>j. n < j \<Longrightarrow> j \<le> N \<Longrightarrow> \<not> suffices N A B j"
    and "run_apart (testOps sip) N (remaining B A) (remaining A B) (rounds (N - n)) e d"
    and "probeLoop (testOps sip) e d n = Some (Inr m)"
  shows "N < m"
  using assms(2-)
proof (induction "N - n" arbitrary: n e d)
  case 0
  then show ?case using probeLoop_counts [OF 0(6), of m] by simp
next
  case (Suc x)
  have "N - n = Suc (N - Suc n)" using Suc.hyps(2) by simp
  note ap = Suc.prems(4) [unfolded this, simplified, rule_format]
  have n: "n < N" using Suc.hyps(2) by simp
  obtain e1 c d1 where step: "ProduceNextCodedSymbol (testOps sip) e = Some (Inr (e1, c))"
    "AddCodedSymbol (testOps sip) d c = Some (Inr d1)" "ends_at (testOps sip) N A B (Suc n) e1 d1"
    using testSym.receive_step [OF assms(1) Suc.prems(1) n] by blast
  obtain d2 where d2: "TryDecode (testOps sip) d1 = Some (Inr d2)" "ends_at (testOps sip) N A B (Suc n) e1 d2"
    "Decoded d2 \<longleftrightarrow> suffices N A B (Suc n)"
    using testSym.attempt_step [OF assms(1) step(3) ap [OF step(1,2), THEN conjunct1]] by (auto simp: suffices_def)
  have "\<not> Decoded d2" using d2(3) Suc.prems(3) [of "Suc n"] n by simp
  then have "probeLoop (testOps sip) e1 d2 (Suc n) = Some (Inr m)"
    using Suc.prems(5) step(1,2) d2(1) by (subst (asm) probeLoop.simps) simp
  then show ?case
    using Suc.hyps(1) [of "Suc n" e1 d2] Suc.hyps(2) d2(2) n Suc.prems(3)
      ap [OF step(1,2), THEN conjunct2, rule_format, OF d2(1)] by auto
qed

lemma eachO_single: "eachO f [x] = f x"
proof
  fix s
  have "eachO f [] = (\<lambda>a. Some (Inr a))" by (intro ext) simp
  then show "eachO f [x] s = f x s" by (cases "f x s"; cases "the (f x s)") (simp_all add: bindO_def)
qed

lemma schedule_receives:
  "schedule (testOps sip) (replicate n Receive) e d =
     eachO (\<lambda>i (enc, dec). bindO (ProduceNextCodedSymbol (testOps sip) enc) (\<lambda>(enc, c).
       bindO (AddCodedSymbol (testOps sip) dec c) (\<lambda>dec. Some (Inr (enc, dec))))) [0..<n] (e, d)"
proof (induction n)
  case (Suc n)
  have "schedule (testOps sip) (replicate (Suc n) Receive) e d =
      schedule (testOps sip) (replicate n Receive @ [Receive]) e d"
    by (simp only: replicate_append_same [symmetric] replicate_Suc)
  moreover have "schedule (testOps sip) [] e = (\<lambda>d. Some (Inr (e, d)))" for e by (intro ext) simp
  ultimately show ?case unfolding testSym.schedule_append Suc by (simp add: eachO_append eachO_single case_prod_unfold)
qed simp

lemma receive_all:
  assumes "sets_ok (testOps sip) N A B" "n \<le> N"
  shows "\<exists>e d. eachO (\<lambda>i (enc, dec). bindO (ProduceNextCodedSymbol (testOps sip) enc) (\<lambda>(enc, c).
                  bindO (AddCodedSymbol (testOps sip) dec c) (\<lambda>dec. Some (Inr (enc, dec))))) [0..<n]
                (encoderOf A, decoderOf B) = Some (Inr (e, d)) \<and> ends_at (testOps sip) N A B n e d"
  using assms(2)
proof (induction n)
  case 0
  then show ?case by (simp add: ends_at_start)
next
  case (Suc n)
  then obtain e d where IH: "eachO (\<lambda>i (enc, dec). bindO (ProduceNextCodedSymbol (testOps sip) enc) (\<lambda>(enc, c).
        bindO (AddCodedSymbol (testOps sip) dec c) (\<lambda>dec. Some (Inr (enc, dec))))) [0..<n]
      (encoderOf A, decoderOf B) = Some (Inr (e, d))" "ends_at (testOps sip) N A B n e d" by auto
  then show ?case using testSym.receive_step [OF assms(1) IH(2)] Suc.prems by (auto simp: eachO_append)
qed

lemma addFrom_returns:
  assumes "\<And>i. i \<in> set is \<Longrightarrow> i < length data \<and> simpleFor N (hashSymbol (testOps sip) (data ! i))"
    and "length s \<le> N" "N \<le> 2 ^ 34"
  shows "\<exists>s'. addFrom sip data is s = Some (Inr s') \<and> length s' = length s"
  unfolding addFrom_def
proof (rule eachO_inv [where I = "\<lambda>s'. length s' = length s"])
  fix i :: nat and s' :: "testSymbol Sketch" assume i: "i \<in> set is" and l: "length s' = length s"
  have "walkable (length s') (freshMapping (Hash (hashSymbol (testOps sip) (data ! i))))"
    using simple_prefix(1) [of N "hashSymbol (testOps sip) (data ! i)" "length s'"] assms i l by auto
  from sketch_add_spec [OF this] show "\<exists>s''. bindO (Some (get data i)) (Sketch_AddSymbol (testOps sip) s') = Some (Inr s'') \<and>
      length s'' = length s"
    using assms(1) [OF i] l by (simp add: get_def Sketch_AddSymbol_def Let_def hashSymbol_def)
qed simp

text \<open>The sets of a test: the local and the remote half of the difference, and the common symbols.\<close>

definition testData :: "int \<Rightarrow> nat list \<Rightarrow> testSymbol list" where
  "testData start src = map (\<lambda>v. of_nat v + word_of_int start) src"

definition testEncoded :: "siphash \<Rightarrow> nat \<Rightarrow> int \<Rightarrow> nat list \<Rightarrow> testSymbol HashedSymbol list" where
  "testEncoded sip k start perm = map (hashSymbol (testOps sip)) (drop k (testData start perm))"

definition testDecoded :: "siphash \<Rightarrow> nat \<Rightarrow> int \<Rightarrow> nat list \<Rightarrow> testSymbol HashedSymbol list" where
  "testDecoded sip k start perm = map (hashSymbol (testOps sip)) (take k (testData start perm))"

text \<open>A difference takes \<open>m\<close> coded symbols when \<open>m\<close> is the least number that suffices.\<close>

definition takes :: "nat \<Rightarrow> 'd HashedSymbol list \<Rightarrow> 'd HashedSymbol list \<Rightarrow> nat \<Rightarrow> bool" where
  "takes N A B m \<longleftrightarrow> suffices N A B m \<and> (\<forall>j<m. \<not> suffices N A B j)"

lemma takes_unique: "takes N A B m \<Longrightarrow> takes N A B m' \<Longrightarrow> m = m'"
  by (metis takes_def nat_neq_iff)

lemma takes_least: "suffices N A B m \<Longrightarrow> \<exists>m'. m' \<le> m \<and> takes N A B m'"
proof -
  assume "suffices N A B m"
  then have "Least (suffices N A B) \<le> m" "suffices N A B (Least (suffices N A B))" by (rule Least_le, rule LeastI)
  moreover have "\<forall>j<Least (suffices N A B). \<not> suffices N A B j" using not_less_Least by blast
  ultimately show ?thesis unfolding takes_def by blast
qed

text \<open>
  What is assumed of a test: the sets are as \<open>main\<close> makes them, the mappings visit each of \<open>N\<close>
  coded symbols at most once, and the hash tells the cells of the two decodings apart. That the
  coded symbols suffice is not assumed.
\<close>

definition testCells :: "siphash \<Rightarrow> nat \<Rightarrow> testSymbol HashedSymbol list \<Rightarrow> testSymbol HashedSymbol list \<Rightarrow> bool" where
  "testCells sip N A B \<longleftrightarrow>
     run_apart (testOps sip) N (remaining B A) (remaining A B) (rounds N) (encoderOf A) (decoderOf B) \<and>
     (\<forall>m\<le>N. takes N A B m \<longrightarrow>
        run_apart (testOps sip) N (remaining B A) (remaining A B) (replicate m Receive @ [Attempt]) (encoderOf A) (decoderOf B))"

definition goodTest :: "siphash \<Rightarrow> nat \<Rightarrow> nat \<Rightarrow> int \<Rightarrow> int \<Rightarrow> nat list \<Rightarrow> bool" where
  "goodTest sip N k setSize start perm \<longleftrightarrow>
     (let A = testEncoded sip k start perm; B = testDecoded sip k start perm in
      length perm = 2 * k \<and> int k \<le> setSize \<and> sets_ok (testOps sip) N A B \<and> testCells sip N A B \<and>
      (\<forall>i<nat (setSize - int k). simpleFor N (hashSymbol (testOps sip) (of_nat i + word_of_int (2 * int k + start)))))"

lemma fill_test:
  assumes "length perm = 2 * k"
  shows "fillDecoder (map (hashSymbol (testOps sip)) (testData start perm)) (int k) = Inr (decoderOf (testDecoded sip k start perm))"
    "fillEncoder (map (hashSymbol (testOps sip)) (testData start perm)) (int k) (int k) = Inr (encoderOf (testEncoded sip k start perm))"
  using fillDecoder_eq [of k "map (hashSymbol (testOps sip)) (testData start perm)"]
    fillEncoder_eq [of k k "map (hashSymbol (testOps sip)) (testData start perm)"] assms
  by (simp_all add: testData_def testDecoded_def testEncoded_def take_map drop_map)

lemma benchTest_least:
  assumes "goodTest sip N k setSize start perm" "m \<le> N"
    and "takes N (testEncoded sip k start perm) (testDecoded sip k start perm) m"
  shows "benchTest sip (2 * int k) setSize start perm = Some (Inr m)"
proof -
  let ?T = "testOps sip" and ?D = "testData start perm"
  let ?h = "hashSymbol ?T" and ?C = "map (\<lambda>i. of_nat i + word_of_int (2 * int k + start)) [0..<nat (setSize - int k)]"
  define A B where "A = testEncoded sip k start perm" and "B = testDecoded sip k start perm"
  have tk: "takes N A B m" using assms(3) by (simp add: A_def B_def)
  have g: "length perm = 2 * k" "int k \<le> setSize" "sets_ok ?T N A B" "m \<le> N" "suffices N A B m"
    "\<And>j. j < m \<Longrightarrow> \<not> suffices N A B j"
    "\<And>i. i < nat (setSize - int k) \<Longrightarrow> simpleFor N (?h (of_nat i + word_of_int (2 * int k + start)))"
    using assms(1,2) tk by (simp_all add: goodTest_def takes_def Let_def A_def B_def)
  have ap: "run_apart ?T N (remaining B A) (remaining A B) (rounds N) (encoderOf A) (decoderOf B)"
    "run_apart ?T N (remaining B A) (remaining A B) (replicate m Receive @ [Attempt]) (encoderOf A) (decoderOf B)"
    using assms(1,2) tk by (simp_all add: goodTest_def testCells_def Let_def A_def B_def)
  have half: "(2 * int k) sdiv 2 = int k" by (cases "k = 0") (simp_all add: signed_divide_int_def sgn_mult)
  have len: "length ?D = 2 * k" using g(1) by (simp add: testData_def)
  note fill = fill_test [OF g(1), of sip start, folded A_def B_def]
  have dec: "fillDecoder (map ?h ?D) (int k) = Inr (decoderOf B)" and
    enc: "fillEncoder (map ?h ?D) (int k) (int k) = Inr (encoderOf A)" by (rule fill)+
  have "0 < m" using g(5) by (simp add: suffices_def)
  then have probe: "probeTest sip (map ?h ?D) (int k) (int k) = Some (Inr m)"
    using probeLoop_least [OF g(3) ends_at_start _ g(4,5)] g(6) ap(1) by (simp add: probeTest_def dec enc)
  have N: "N \<le> 2 ^ 34" "\<forall>s\<in>set A. simpleFor N s" using g(3) by (simp_all add: sets_ok_def setting_def)
  have "simpleFor N (?h (?D ! i))" if "k \<le> i" "i < 2 * k" for i
  proof -
    have "?D ! i = drop k ?D ! (i - k)" "i - k < length (drop k ?D)" using that len by simp_all
    then have "?D ! i \<in> set (drop k ?D)" by (metis nth_mem)
    then show ?thesis using N(2) by (simp add: A_def testEncoded_def)
  qed
  moreover have "upTo (int k) (int k + int k) = [k..<2 * k]" by (simp add: upTo_def nat_mult_distrib)
  moreover have "length (makeSketch ?T m) = m" by (simp add: makeSketch_def)
  ultimately obtain s1 where s1: "addFrom sip ?D (upTo (int k) (int k + int k)) (makeSketch ?T m) = Some (Inr s1)" "length s1 = m"
    using addFrom_returns [of "[k..<2 * k]" ?D N sip "makeSketch ?T m"] len g(4) N(1) by fastforce
  obtain s2 where "addFrom sip ?C (upTo 0 (setSize - int k)) s1 = Some (Inr s2)"
    using addFrom_returns [of "upTo 0 (setSize - int k)" ?C N sip s1] g(4,7) N(1) s1(2) by auto
  then have encT: "encodeTest sip ?D ?C (int k) (int k) (setSize - int k) m = Some (Inr s2)"
    using s1(1) by (simp add: encodeTest_def)
  obtain e d where all: "eachO (\<lambda>i (enc, dec). bindO (ProduceNextCodedSymbol ?T enc) (\<lambda>(enc, c).
        bindO (AddCodedSymbol ?T dec c) (\<lambda>dec. Some (Inr (enc, dec))))) [0..<m]
      (encoderOf A, decoderOf B) = Some (Inr (e, d))" "ends_at ?T N A B m e d"
    using receive_all [OF g(3,4)] by blast
  have settled: "attempt_apart ?T N (remaining B A) (remaining A B) 0 d"
    using ap(2) all(1) by (simp add: run_apart_append schedule_receives)
  obtain d' where "TryDecode ?T d = Some (Inr d')" "Decoded d'"
    using testSym.attempt_step [OF g(3) all(2) settled] g(5) by (auto simp: suffices_def)
  then have "decodeTest sip (map ?h ?D) (int k) (int k) m = Some (Inr d')"
    using all(1) by (simp add: decodeTest_def dec enc)
  then show ?thesis
    using probe encT g(1,2) randomTestSymbols_eq [of "2 * int k" perm start] testSymbols_eq [of "setSize - int k" "2 * int k + start"]
    by (simp add: benchTest_def half Let_def hashSymbols_map flip: testData_def)
qed

text \<open>A test that returns at most \<open>N\<close> returns the number that its difference takes.\<close>

lemma benchTest_returns:
  assumes "goodTest sip N k setSize start perm" "m \<le> N" "benchTest sip (2 * int k) setSize start perm = Some (Inr m)"
  shows "takes N (testEncoded sip k start perm) (testDecoded sip k start perm) m"
proof (cases "\<exists>m'\<le>N. suffices N (testEncoded sip k start perm) (testDecoded sip k start perm) m'")
  case True
  then obtain m' where "m' \<le> N" "takes N (testEncoded sip k start perm) (testDecoded sip k start perm) m'"
    using takes_least order_trans by blast
  then show ?thesis using benchTest_least [OF assms(1)] assms(3) by auto
next
  case False
  let ?D = "testData start perm" and ?h = "hashSymbol (testOps sip)"
  have g: "length perm = 2 * k" "sets_ok (testOps sip) N (testEncoded sip k start perm) (testDecoded sip k start perm)"
    "testCells sip N (testEncoded sip k start perm) (testDecoded sip k start perm)"
    using assms(1) by (simp_all add: goodTest_def Let_def)
  have half: "(2 * int k) sdiv 2 = int k" by (cases "k = 0") (simp_all add: signed_divide_int_def sgn_mult)
  have "probeTest sip (map ?h ?D) (int k) (int k) = Some (Inr m)"
    using assms(3) randomTestSymbols_eq [of "2 * int k" perm start] g(1)
    by (auto simp: benchTest_def half Let_def hashSymbols_map bindO_Inr_iff simp flip: testData_def)
  then have "probeLoop (testOps sip) (encoderOf (testEncoded sip k start perm)) (decoderOf (testDecoded sip k start perm)) 0 = Some (Inr m)"
    by (simp add: probeTest_def fill_test [OF g(1)])
  from probeLoop_beyond [OF g(2) ends_at_start _ _ _ this] False g(3) assms(2) show ?thesis
    by (auto simp: testCells_def)
qed

lemma benchMain_total:
  assumes "\<And>t. t < n \<Longrightarrow> benchTest sip (2 * int k) setSize (ints t) (perms t) = Some (Inr (cw t))"
  shows "benchMain sip (2 * int k) setSize (int n) ints perms = Some (Inr (\<Sum>t<n. cw t))"
proof -
  have even: "(2 * int k) smod 2 = 0" by (cases "k = 0") (simp_all add: signed_modulo_int_def signed_divide_int_def sgn_mult)
  have "eachO (\<lambda>t totalCw. bindO (benchTest sip (2 * int k) setSize (ints t) (perms t)) (\<lambda>ncw. Some (Inr (totalCw + ncw)))) [0..<n] 0
        = Some (Inr (fold (\<lambda>t tot. tot + cw t) [0..<n] 0))"
    by (rule eachO_pure) (simp add: assms)
  moreover have "fold (\<lambda>t tot. tot + cw t) [0..<n] 0 = (\<Sum>t<n. cw t)" by (induction n) (simp_all add: add.commute)
  ultimately show ?thesis by (simp add: benchMain_def even)
qed

end
