(* ===== verification/Riblt_Properties.thy ===== *)
theory Riblt_Properties
  imports Newsim_Types Bench_Riblt
begin

text \<open>
  The properties of \<open>riblt/\<close>, each with a witness on the transactions of \<open>newsim/types.go\<close>,
  with a multiplicative hash in the place of \<open>siphash\<close>.
\<close>

section \<open>Concrete symbols for the witnesses\<close>

definition demoSip :: siphash where
  "demoSip k0 k1 bs = ucast (hd bs) * 0x9E3779B97F4A7C15"

definition demoOps :: "transaction symbolOps" where
  "demoOps = transactionOps demoSip"

definition demoSym :: "u64 \<Rightarrow> transaction HashedSymbol" where
  "demoSym i = hashSymbol demoOps \<lparr>idx = i, ts = 100 + i\<rparr>"

lemmas demo_simps = demoSym_def demoSip_def demoOps_def hashSymbol_def transactionOps_def
  transaction_Hash_def transaction_XOR_def littleEndian64_def upt_rec

lemma demo_laws: "symbol_laws demoOps"
  unfolding demoOps_def by (rule tx.symbol_laws_axioms)

lemma demo_hash:
  "Hash (demoSym 1) = 0x9E3779B97F4A7C15" "Hash (demoSym 2) = 0x3C6EF372FE94F82A"
  "Hash (demoSym 3) = 0xDAA66D2C7DDF743F"
  by (simp_all add: demo_simps)

lemma demo_distinct: "demoSym 1 \<noteq> demoSym 2" "demoSym 1 \<noteq> demoSym 3" "demoSym 2 \<noteq> demoSym 3"
  by (simp_all add: demo_simps)

lemma demo_spread: "spreadFor 3 (Hash (demoSym 1))" "spreadFor 3 (Hash (demoSym 2))" "spreadFor 3 (Hash (demoSym 3))"
  by (simp_all add: demo_hash numeral_3_eq_3 nextPrng_def multiplier_def goodState_def)

lemmas demo_simple = demo_spread [THEN spread_simple, simplified]

lemma demo_apart: "\<forall>P\<in>set (subseqs [demoSym 1]). \<forall>Q\<in>set (subseqs [demoSym 2]). told_apart demoOps P Q"
  by (simp add: told_apart_def Let_def cellOf_def applySym_def emptyCoded_def zeroCell_def pureCell_def
     add_dir_def remove_dir_def demo_simps)

lemma demo_remaining:
  "remaining [demoSym 2, demoSym 3] [demoSym 1, demoSym 3] = [demoSym 1]"
  "remaining [demoSym 1, demoSym 3] [demoSym 2, demoSym 3] = [demoSym 2]"
  using demo_distinct by (auto simp: remaining_def)

lemma demo_setting:
  "setting demoOps 3 [demoSym 1] [demoSym 2] [demoSym 2, demoSym 3]"
  "setting demoOps 3 [demoSym 1] [demoSym 2] []"
  "setting demoOps 3 [demoSym 1] [] []"
  using demo_simple by (simp_all add: setting_def) (simp_all add: demoSym_def hashSymbol_def)

lemmas demo_run_apart = subseqs_run_apart [OF demo_apart] and demo_attempt_apart = subseqs_apart [OF demo_apart]

section \<open>The properties\<close>

text \<open>C1: A rateless session between an encoder of \<open>A\<close> and a decoder that holds \<open>B\<close> returns
  without a panic, whatever the number \<open>n\<close> of coded symbols up to \<open>N\<close>. The decoder never reports
  a symbol that is not in the difference, nor one twice, and from the first coded symbol on
  \<open>Decoded\<close> answers true exactly when \<open>Remote\<close> is \<open>A - B\<close> and \<open>Local\<close> is \<open>B - A\<close>. The
  hypotheses: the symbol type's \<open>XOR\<close> is an exclusive or, the mappings visit each index at
  most once, and the hash tells apart the cells that the decoder holds in this session, in the
  iterations of its attempts to decode.\<close>

theorem session_finds_difference:
  assumes "symbol_laws T" "setting T N (remaining B A) (remaining A B) B"
    and "distinct A" "distinct B" "\<forall>s\<in>set A. simpleFor N s" "n \<le> N"
    and "run_apart T N (remaining B A) (remaining A B) (rounds n) (encoderOf A) (decoderOf B)"
  shows "\<exists>e d. session T n (encoderOf A) (decoderOf B) = Some (Inr (e, d)) \<and>
           (0 < n \<longrightarrow> (Decoded d \<longleftrightarrow> set (Remote d) = set A - set B \<and> set (Local d) = set B - set A)) \<and>
           set (Remote d) \<subseteq> set A - set B \<and> set (Local d) \<subseteq> set B - set A \<and>
           distinct (Remote d) \<and> distinct (Local d)"
  by (rule symbol_laws.session_reconciles [OF assms])

theorem session_finds_difference_witness:
  "\<exists>e d. session demoOps 2 (encoderOf [demoSym 1, demoSym 3]) (decoderOf [demoSym 2, demoSym 3]) = Some (Inr (e, d)) \<and>
         (Decoded d \<longleftrightarrow> set (Remote d) = {demoSym 1} \<and> set (Local d) = {demoSym 2})"
  using session_finds_difference [OF demo_laws, of 3 "[demoSym 2, demoSym 3]" "[demoSym 1, demoSym 3]" 2]
    demo_setting demo_remaining demo_distinct demo_simple demo_run_apart by (auto simp: insert_Diff_if)

text \<open>C2: The decoding loop refines peeling. From every state of the invariant it returns; the
  symbols it finds are those of a run of the abstract decoder \<open>peel_step\<close>, in its order; and it
  ends in a state of the invariant with an empty queue, from which no step is possible: no
  received cell holds exactly one symbol of the difference still to be found. The hash is
  assumed to tell apart the cells that the decoder holds in the iterations of this loop.\<close>

theorem TryDecode_settles:
  assumes "symbol_laws T" "setting T N P Q W" "decoder_at T N P Q W 0 d" "attempt_apart T N P Q 0 d"
  shows "\<exists>d'. TryDecode T d = Some (Inr d') \<and> decoder_at T N P Q W 0 d' \<and> dirty d' = [] \<and>
              length (cs d') = length (cs d) \<and>
              (peel_step N (length (cs d)) P Q)\<^sup>*\<^sup>* (Remote d, Local d) (Remote d', Local d') \<and>
              (\<forall>i<length (cs d'). length (filter (hits N i) (remaining (Remote d') P)) +
                                  length (filter (hits N i) (remaining (Local d') Q)) \<noteq> 1)"
  using symbol_laws.TryDecode_spec [OF assms] symbol_laws.settled_no_single [OF assms(1,2)] by metis

lemma single_list:
  assumes "distinct xs" "set xs = {x}"
  shows "xs = [x]"
proof -
  have "length xs = 1" using distinct_card [OF assms(1)] assms(2) by simp
  then obtain y where "xs = [y]" by (auto simp: length_Suc_conv)
  then show ?thesis using assms(2) by simp
qed

text \<open>A decoder that has received one coded symbol, which holds one symbol of the sender.\<close>

theorem TryDecode_settles_witness:
  "\<exists>d d'. AddCodedSymbol demoOps (decoderOf []) (diffCell demoOps 3 0 [demoSym 1] []) = Some (Inr d) \<and>
          TryDecode demoOps d = Some (Inr d') \<and> dirty d' = [] \<and> Remote d' = [demoSym 1]"
proof -
  let ?P = "[demoSym 1]" and ?Q = "[] :: transaction HashedSymbol list"
  have none: "cs (decoderOf ?Q) = []" using decoderOf_fields by blast
  obtain d where d: "AddCodedSymbol demoOps (decoderOf ?Q) (diffCell demoOps 3 0 ?P ?Q) = Some (Inr d)"
    "decoder_at demoOps 3 ?P ?Q ?Q 0 d" "length (cs d) = 1"
    using symbol_laws.AddCodedSymbol_spec [OF demo_laws demo_setting(3) decoder_at_decoderOf,
        of "diffCell demoOps 3 0 ?P ?Q"] none by (auto simp: cellUpd_def)
  have "attempt_apart demoOps 3 ?P ?Q 0 d" by (rule subseqs_apart) (use demo_apart in simp)
  from TryDecode_settles [OF demo_laws demo_setting(3) d(2) this] obtain d' where d':
    "TryDecode demoOps d = Some (Inr d')" "decoder_at demoOps 3 ?P ?Q ?Q 0 d'" "dirty d' = []"
    "length (cs d') = length (cs d)"
    "\<forall>i<length (cs d'). length (filter (hits 3 i) (remaining (Remote d') ?P)) +
       length (filter (hits 3 i) (remaining (Local d') ?Q)) \<noteq> 1" by (elim exE conjE) (rule that)
  then have "length (filter (hits 3 0) (remaining (Remote d') ?P)) \<noteq> 1"
    using d(3) by (simp add: remaining_def)
  moreover have "hits 3 0 (demoSym 1)" by (rule hits_0) (simp_all add: demo_simple)
  ultimately have "demoSym 1 \<in> set (Remote d')" by (auto simp: remaining_def split: if_splits)
  moreover have "distinct (Remote d')" "set (Remote d') \<subseteq> {demoSym 1}" using d'(2) by (simp_all add: decoder_at_def)
  ultimately have "Remote d' = [demoSym 1]" by (intro single_list) auto
  then show ?thesis using d(1) d'(1,3) by blast
qed

text \<open>C3: Receiving the next coded symbol keeps the decoder's invariant: the new cell holds what
  is left of the difference there, \<open>pending\<close> and the queue are right again, and nothing is
  decoded yet.\<close>

theorem AddCodedSymbol_keeps:
  assumes "symbol_laws T" "setting T N P Q W" "decoder_at T N P Q W 0 d" "length (cs d) < N"
    and "applyAll T (cellUpd N (length (cs d)) W remove_dir) c = diffCell T N (length (cs d)) P Q"
  shows "\<exists>d'. AddCodedSymbol T d c = Some (Inr d') \<and> decoder_at T N P Q W 0 d' \<and>
              length (cs d') = Suc (length (cs d)) \<and> Remote d' = Remote d \<and> Local d' = Local d"
  by (rule symbol_laws.AddCodedSymbol_spec [OF assms])

theorem AddCodedSymbol_keeps_witness:
  "\<exists>d'. AddCodedSymbol demoOps (decoderOf []) (diffCell demoOps 3 0 [demoSym 1] [demoSym 2]) = Some (Inr d') \<and>
        length (cs d') = 1"
  using AddCodedSymbol_keeps [OF demo_laws demo_setting(2) decoder_at_decoderOf,
      of "diffCell demoOps 3 0 [demoSym 1] [demoSym 2]"] decoderOf_fields [of "[] :: transaction HashedSymbol list"]
  by (auto simp: cellUpd_def)

text \<open>C4: Two sketches of the same size, subtracted and decoded, return without a panic: the result
  is within the difference of the two sets, and the third component is true exactly when all
  of the difference has been found. The hypotheses: \<open>XOR\<close> is an exclusive or, each symbol's
  mapping visits a cell at most once, and the hash tells apart the cells that the decoder of
  the subtracted sketch holds, in the iterations of its loop.\<close>

theorem sketch_finds_difference:
  assumes "symbol_laws T" "setting T n (remaining B A) (remaining A B) []" "distinct A" "distinct B"
    and "\<forall>s\<in>set A \<union> set B. simpleFor n s" "0 < n" "sketch_apart T n (remaining B A) (remaining A B)"
  shows "\<exists>sA sB s R L ok. Sketch_addAll T (makeSketch T n) A = Some (Inr sA) \<and>
           Sketch_addAll T (makeSketch T n) B = Some (Inr sB) \<and> Subtract T sA sB = Inr s \<and>
           Sketch_Decode T s = Some (Inr (R, L, ok)) \<and>
           (ok \<longleftrightarrow> set R = set A - set B \<and> set L = set B - set A) \<and>
           set R \<subseteq> set A - set B \<and> set L \<subseteq> set B - set A \<and> distinct R \<and> distinct L"
  by (rule symbol_laws.sketch_reconciles [OF assms])

theorem sketch_finds_difference_witness:
  "\<exists>sA sB s R L ok. Sketch_addAll demoOps (makeSketch demoOps 3) [demoSym 1, demoSym 3] = Some (Inr sA) \<and>
     Sketch_addAll demoOps (makeSketch demoOps 3) [demoSym 2, demoSym 3] = Some (Inr sB) \<and>
     Subtract demoOps sA sB = Inr s \<and> Sketch_Decode demoOps s = Some (Inr (R, L, ok)) \<and>
     (ok \<longleftrightarrow> set R = {demoSym 1} \<and> set L = {demoSym 2})"
proof -
  have "sketch_apart demoOps 3 [demoSym 1] [demoSym 2]" by (simp add: sketch_apart_def demo_attempt_apart)
  then show ?thesis
    using sketch_finds_difference [OF demo_laws, of 3 "[demoSym 2, demoSym 3]" "[demoSym 1, demoSym 3]"]
      demo_setting demo_remaining demo_distinct demo_simple by (auto simp: insert_Diff_if)
qed

text \<open>C5: The heap-driven encoder and the sketch agree: the first \<open>n\<close> coded symbols that an
  encoder of \<open>ss\<close> produces are the cells of the sketch of \<open>n\<close> cells of the same symbols.\<close>

theorem encoder_equals_sketch:
  assumes "symbol_laws T" "\<forall>s\<in>set ss. walkable n (freshMapping (Hash s))" "n \<le> 2 ^ 34"
  shows "\<exists>e' cs. produceMany T n (fold (\<lambda>s e. Encoder_AddHashedSymbol e s) ss emptyWindow) = Some (Inr (e', cs)) \<and>
                 Sketch_addAll T (makeSketch T n) ss = Some (Inr cs)"
  by (rule symbol_laws.encoder_is_sketch [OF assms])

theorem encoder_equals_sketch_witness:
  "\<exists>e' cs. produceMany demoOps 3 (fold (\<lambda>s e. Encoder_AddHashedSymbol e s) [demoSym 1, demoSym 2] emptyWindow)
             = Some (Inr (e', cs)) \<and>
           Sketch_addAll demoOps (makeSketch demoOps 3) [demoSym 1, demoSym 2] = Some (Inr cs)"
  using encoder_equals_sketch [OF demo_laws, of "[demoSym 1, demoSym 2]" 3] demo_simple
  by (simp add: simpleFor_def)

text \<open>C6: A step of the mapping for an index below \<open>2 ^ 34\<close> and a state outside the top 1024:
  it succeeds, the index never decreases and stays below \<open>2 ^ 63\<close> (so that \<open>int(...)\<close> of it
  is not negative), and it stands still exactly when the new state is at most 1024.\<close>

theorem nextIndex_advances:
  assumes "goodState (uint (nextPrng (prng m)))" "uint (lastIdx m) < 2 ^ 34"
  shows "\<exists>m'. nextIndex m = Inr m' \<and> prng m' = nextPrng (prng m) \<and>
              uint (lastIdx m) \<le> uint (lastIdx m') \<and> uint (lastIdx m') < 2 ^ 63 \<and>
              (lastIdx m' = lastIdx m \<longleftrightarrow> uint (nextPrng (prng m)) \<le> 1024)"
  by (rule nextIndex_good [OF assms])

theorem nextIndex_advances_witness:
  "\<exists>m'. nextIndex \<lparr>prng = 1, lastIdx = 7\<rparr> = Inr m' \<and> 7 < uint (lastIdx m')"
proof -
  have "goodState (uint (nextPrng (prng \<lparr>prng = 1, lastIdx = 7\<rparr>)))"
    by (simp add: nextPrng_def multiplier_def goodState_def)
  from nextIndex_advances [OF this] obtain m' where m': "nextIndex \<lparr>prng = 1, lastIdx = 7\<rparr> = Inr m'"
    "7 \<le> uint (lastIdx m')" "lastIdx m' = 7 \<longleftrightarrow> uint (nextPrng 1) \<le> 1024" by auto
  moreover have "lastIdx m' \<noteq> 7" using m'(3) by (simp add: nextPrng_def multiplier_def)
  then have "uint (lastIdx m') \<noteq> 7" using word_uint_eq_iff [of "lastIdx m'" 7] by simp
  ultimately show ?thesis by force
qed

text \<open>The generator behind the mapping permutes the 64-bit states, and 0 is a cycle of its own.\<close>

lemma nextPrng_permutes: "bij nextPrng \<and> (\<forall>p. nextPrng p = 0 \<longleftrightarrow> p = 0)"
proof -
  have "inj nextPrng" by (rule injI) (simp add: nextPrng_inj)
  then show ?thesis by (simp add: bij_def finite_UNIV_inj_surj)
qed

text \<open>C8: Adding a symbol to a sketch of 1 to \<open>2 ^ 34\<close> cells returns exactly when its hash is not 0
  (a symbol whose hash is 0 never leaves the first cell), and the only error it can meet is
  the conversion of an out-of-range float.\<close>

theorem sketch_add_returns_iff:
  assumes "s \<noteq> []" "length s \<le> 2 ^ 34"
  shows "(Sketch_AddHashedSymbol T s t = None \<longleftrightarrow> Hash t = 0) \<and>
         (\<forall>e. Sketch_AddHashedSymbol T s t = Some (Inl e) \<longrightarrow> e = ImplementationDefined)"
  using Sketch_AddHashedSymbol_returns [of t s T] Sketch_AddHashedSymbol_zero [of t s T] assms
  by (cases "Hash t = 0") auto

theorem sketch_add_returns_iff_witness:
  "Sketch_AddHashedSymbol demoOps (makeSketch demoOps 5) (demoSym 1) \<noteq> None \<and>
   Sketch_AddHashedSymbol demoOps (makeSketch demoOps 1) \<lparr>Symbol = \<lparr>idx = 5, ts = 6\<rparr>, Hash = 0\<rparr> = None"
  using sketch_add_returns_iff [of "makeSketch demoOps 5" demoOps "demoSym 1"]
    sketch_add_returns_iff [of "makeSketch demoOps 1" demoOps "\<lparr>Symbol = \<lparr>idx = 5, ts = 6\<rparr>, Hash = 0\<rparr>"]
  by (simp add: demo_hash makeSketch_def)

text \<open>C9: What the benchmark counts. A test returns a number \<open>m\<close> up to \<open>N\<close> exactly when \<open>m\<close> is the
  least number of coded symbols whose peeling finds the difference of its two sets; and when
  the differences of all tests take at most \<open>N\<close>, the benchmark returns the sum of these numbers:
  no test panics, and the second decoder, which receives that many coded symbols at once, does not
  fail to decode. The hypotheses on each test, \<open>goodTest\<close>: its permutation has the right length and
  the set is at least half the difference, symbols are distinct, mappings visit each of \<open>N\<close> coded
  symbols at most once, and the hash tells apart the cells that its two decoders hold. That
  \<open>N\<close> coded symbols suffice is a premise of the second part only.\<close>

theorem benchmark_finishes:
  assumes "\<And>t. t < n \<Longrightarrow> goodTest sip N k setSize (ints t) (perms t)"
  shows "(\<forall>t<n. \<forall>m\<le>N. benchTest sip (2 * int k) setSize (ints t) (perms t) = Some (Inr m) \<longleftrightarrow>
            takes N (testEncoded sip k (ints t) (perms t)) (testDecoded sip k (ints t) (perms t)) m) \<and>
         (\<forall>cw. (\<forall>t<n. cw t \<le> N \<and> takes N (testEncoded sip k (ints t) (perms t)) (testDecoded sip k (ints t) (perms t)) (cw t)) \<longrightarrow>
            benchMain sip (2 * int k) setSize (int n) ints perms = Some (Inr (\<Sum>t<n. cw t)))"
  using benchTest_least [OF assms] benchTest_returns [OF assms] benchMain_total [of n sip k setSize ints perms] by blast

text \<open>Two symbols that meet in cell 0; the second visits cell 1, the first does not.\<close>

definition benchSip :: siphash where
  "benchSip k0 k1 bs = (if hd bs = 1 then 0xb000000000000000 else 0xc000000000000000)"

abbreviation benchSym :: "u64 \<Rightarrow> u64 HashedSymbol" where
  "benchSym \<equiv> hashSymbol (testOps benchSip)"

lemma bench_hash:
  "Hash (benchSym 1) = 0xb000000000000000" "Hash (benchSym 2) = 0xc000000000000000" "Hash (benchSym 3) = 0xc000000000000000"
  by (simp_all add: hashSymbol_def testOps_def testSymbol_Hash_def benchSip_def littleEndian64_def upt_rec)

lemma bench_simple: "simpleFor 2 (benchSym 1)" "simpleFor 2 (benchSym 2)" "simpleFor 2 (benchSym 3)"
proof -
  have "spreadFor 2 p = (1024 < uint (nextPrng p) \<and> goodState (uint (nextPrng p)) \<and>
      1024 < uint (nextPrng (nextPrng p)) \<and> goodState (uint (nextPrng (nextPrng p))))" for p
    by (simp add: numeral_2_eq_2)
  then have "spreadFor 2 (Hash (benchSym 1))" "spreadFor 2 (Hash (benchSym 2))" "spreadFor 2 (Hash (benchSym 3))"
    by (simp_all add: bench_hash nextPrng_def multiplier_def goodState_def)
  then show "simpleFor 2 (benchSym 1)" "simpleFor 2 (benchSym 2)" "simpleFor 2 (benchSym 3)"
    by (simp_all add: spread_simple)
qed

lemma bench_hits_0: "hits 2 0 (benchSym 1)" "hits 2 0 (benchSym 2)"
  using bench_simple by (auto intro: hits_0)

lemma bench_first_index:
  "nextIndex (freshMapping 0xb000000000000000) = Inr \<lparr>prng = 0x7000000000000000, lastIdx = 1\<rparr>"
  "nextIndex (freshMapping 0xc000000000000000) = Inr \<lparr>prng = 0xc000000000000000, lastIdx = 2\<rparr>"
proof -
  have "indexStep 0x7000000000000000 0 = Fin 1" "indexStep 0xc000000000000000 0 = Fin 2"
    by (simp_all add: indexStep_def float_eval)
  moreover have "nextPrng 0xb000000000000000 = 0x7000000000000000" "nextPrng 0xc000000000000000 = 0xc000000000000000"
    by (simp_all add: nextPrng_def multiplier_def)
  ultimately show "nextIndex (freshMapping 0xb000000000000000) = Inr \<lparr>prng = 0x7000000000000000, lastIdx = 1\<rparr>"
    "nextIndex (freshMapping 0xc000000000000000) = Inr \<lparr>prng = 0xc000000000000000, lastIdx = 2\<rparr>"
    by (simp_all add: nextIndex_def freshMapping_def Let_def trunc_rat_def)
qed

lemma bench_hits_1: "hits 2 1 (benchSym 1)" "\<not> hits 2 1 (benchSym 2)"
proof -
  have w: "walkable 2 (freshMapping 0xb000000000000000)" "walkable 2 (freshMapping 0xc000000000000000)"
    using bench_simple(1,2) by (simp_all add: simpleFor_def bench_hash)
  obtain m1 where m1: "nextIndex (freshMapping 0xb000000000000000) = Inr m1" "walkable 2 m1"
    "visit 2 (freshMapping 0xb000000000000000) = 0 # visit 2 m1"
    by (rule walk_moves [OF w(1)]) (auto simp: freshMapping_def)
  obtain m2 where m2: "nextIndex (freshMapping 0xc000000000000000) = Inr m2"
    "visit 2 (freshMapping 0xc000000000000000) = 0 # visit 2 m2"
    by (rule walk_moves [OF w(2)]) (auto simp: freshMapping_def)
  obtain m3 where "visit 2 m1 = 1 # visit 2 m3"
    by (rule walk_moves [OF m1(2)]) (use m1(1) bench_first_index(1) in auto)
  then show "hits 2 1 (benchSym 1)" by (simp add: hits_def bench_hash m1(3))
  have "visit 2 m2 = []" using m2(1) bench_first_index(2) by (auto intro: walk_stopped)
  then show "\<not> hits 2 1 (benchSym 2)" by (simp add: hits_def bench_hash m2(2))
qed

lemma bench_suffices: "suffices 2 [benchSym 2] [benchSym 1] 2 \<and> (\<forall>j<2. \<not> suffices 2 [benchSym 2] [benchSym 1] j)"
proof -
  have ne: "benchSym 1 \<noteq> benchSym 2" by (simp add: hashSymbol_def)
  then have rem: "remaining [benchSym 1] [benchSym 2] = [benchSym 2]" "remaining [benchSym 2] [benchSym 1] = [benchSym 1]"
    by (simp_all add: remaining_def)
  have one: "benchSym 1 \<in> ripe 2 2 [benchSym 2] [benchSym 1]"
    by (rule ripe.alone [of _ _ _ 1]) (use bench_hits_1 in auto)
  have two: "benchSym 2 \<in> ripe 2 2 [benchSym 2] [benchSym 1]"
    by (rule ripe.alone [of _ _ _ 0]) (use bench_hits_0 one in auto)
  have full: "suffices 2 [benchSym 2] [benchSym 1] 2"
    using one two ripe_sub [of 2 2 "[benchSym 2]" "[benchSym 1]"] ne unfolding suffices_def rem by auto
  have none: "s \<notin> ripe 2 1 [benchSym 2] [benchSym 1]" for s
  proof
    assume "s \<in> ripe 2 1 [benchSym 2] [benchSym 1]"
    then show False
    proof induction
      case (alone s i)
      then have "i = 0" "s = benchSym 1 \<or> s = benchSym 2" by auto
      then show ?case using alone.IH [of "benchSym 1"] alone.IH [of "benchSym 2"] bench_hits_0 ne by auto
    qed
  qed
  have "\<not> suffices 2 [benchSym 2] [benchSym 1] j" if "j < 2" for j
  proof (cases "j = 0")
    case False
    then have "j = 1" using that by simp
    then show ?thesis using none ne unfolding suffices_def rem by auto
  qed (simp add: suffices_def)
  with full show ?thesis by blast
qed

lemma bench_setting: "sets_ok (testOps benchSip) 2 [benchSym 2] [benchSym 1]"
proof -
  have ne: "benchSym 1 \<noteq> benchSym 2" by (simp add: hashSymbol_def)
  then have rem: "remaining [benchSym 1] [benchSym 2] = [benchSym 2]" "remaining [benchSym 2] [benchSym 1] = [benchSym 1]"
    by (simp_all add: remaining_def)
  show ?thesis using bench_simple unfolding sets_ok_def setting_def rem by (simp add: hashSymbol_def)
qed

lemma bench_apart:
  "\<forall>P\<in>set (subseqs [benchSym 2]). \<forall>Q\<in>set (subseqs [benchSym 1]). told_apart (testOps benchSip) P Q"
  by (simp add: told_apart_def Let_def cellOf_def applySym_def emptyCoded_def zeroCell_def pureCell_def bench_hash
     add_dir_def remove_dir_def testOps_def testSymbol_XOR_def testSymbol_Hash_def benchSip_def hashSymbol_def
     littleEndian64_def upt_rec)

lemma bench_run_apart:
  "run_apart (testOps benchSip) N (remaining [benchSym 1] [benchSym 2]) (remaining [benchSym 2] [benchSym 1]) evs e d"
proof -
  have "benchSym 1 \<noteq> benchSym 2" by (simp add: hashSymbol_def)
  then have rem: "remaining [benchSym 1] [benchSym 2] = [benchSym 2]" "remaining [benchSym 2] [benchSym 1] = [benchSym 1]"
    by (simp_all add: remaining_def)
  show ?thesis unfolding rem by (rule subseqs_run_apart [OF bench_apart])
qed

theorem benchmark_finishes_witness:
  "benchMain benchSip 2 2 3 (\<lambda>_. 1) (\<lambda>_. [0, 1]) = Some (Inr 6) \<and> benchTest benchSip 2 2 1 [0, 1] \<noteq> Some (Inr 1)"
proof -
  have sets: "testEncoded benchSip 1 1 [0, 1] = [benchSym 2]" "testDecoded benchSip 1 1 [0, 1] = [benchSym 1]"
    by (simp_all add: testEncoded_def testDecoded_def testData_def)
  then have good: "goodTest benchSip 2 1 2 1 [0, 1]"
    using bench_setting bench_simple(3) bench_run_apart by (simp add: goodTest_def testCells_def Let_def)
  have t: "takes 2 [benchSym 2] [benchSym 1] 2" using bench_suffices by (simp add: takes_def)
  then have "\<not> takes 2 [benchSym 2] [benchSym 1] 1" by (simp add: takes_def)
  note b = benchmark_finishes [of 3 benchSip 2 1 2 "\<lambda>_. 1" "\<lambda>_. [0, 1]", OF good, unfolded sets]
  have "benchMain benchSip 2 2 3 (\<lambda>_. 1) (\<lambda>_. [0, 1]) = Some (Inr 6)"
    using b [THEN conjunct2, rule_format, of "\<lambda>_. 2"] t by simp
  moreover have "benchTest benchSip 2 2 1 [0, 1] = Some (Inr 1) \<longleftrightarrow> takes 2 [benchSym 2] [benchSym 1] 1"
    using b [THEN conjunct1, rule_format, of 0 1] by simp
  ultimately show ?thesis using \<open>\<not> takes 2 [benchSym 2] [benchSym 1] 1\<close> by simp
qed

text \<open>C11: The mapping heap: writing its head and calling \<open>fixHead\<close>, or appending and calling
  \<open>fixTail\<close>, gives a heap with the same entries, whose head has a least index.\<close>

theorem mapping_heap_restored:
  assumes "coded_heap q"
  shows "coded_heap (fixHead (q[0 := x])) \<and> mset (fixHead (q[0 := x])) = mset (q[0 := x]) \<and>
         coded_heap (fixTail (q @ [x])) \<and> mset (fixTail (q @ [x])) = add_mset x (mset q) \<and>
         (\<forall>y\<in>set (q @ [x]). codedIdx (fixTail (q @ [x]) ! 0) \<le> codedIdx y)"
  using fixHead_heap [OF assms] fixTail_heap [OF assms] head_least [of "fixTail (q @ [x])"]
  by (metis mset_fixHead mset_fixTail set_fixTail mset.simps(2) union_mset_add_mset_right
      mset_append add.right_neutral mset.simps(1))

theorem mapping_heap_restored_witness:
  "coded_heap (fixTail ([\<lparr>sourceIdx = 0, codedIdx = 4\<rparr>] @ [\<lparr>sourceIdx = 1, codedIdx = 2\<rparr>]))"
  using mapping_heap_restored [of "[\<lparr>sourceIdx = 0, codedIdx = 4\<rparr>]"] by (simp add: is_heap_def)

text \<open>C12: When \<open>TryDecode\<close> is called does not matter. Whatever the order of the calls that receive the
  next coded symbol and those that try to decode, after \<open>n\<close> coded symbols and a last attempt
  the decoder has found exactly what the first \<open>n\<close> cells determine by peeling, \<open>ripe\<close>, and
  \<open>Decoded\<close> says whether that is the whole difference. The hypotheses: \<open>XOR\<close> is an exclusive or; \<open>sets_ok\<close>,
  that the two lists are sets of hashed symbols whose mappings visit each of at most \<open>N\<close> coded symbols
  at most once; and \<open>run_apart\<close>, that the hash tells apart the cells that the decoder holds in the
  attempts of this order of calls.\<close>

theorem schedule_does_not_matter:
  assumes "symbol_laws T" "sets_ok T N A B" "receives evs = n" "n \<le> N"
    and "run_apart T N (remaining B A) (remaining A B) (evs @ [Attempt]) (encoderOf A) (decoderOf B)"
  shows "\<exists>e d. schedule T (evs @ [Attempt]) (encoderOf A) (decoderOf B) = Some (Inr (e, d)) \<and>
               set (Remote d) = ripe N n (remaining B A) (remaining A B) \<inter> set A \<and>
               set (Local d) = ripe N n (remaining B A) (remaining A B) \<inter> set B \<and>
               (0 < n \<longrightarrow> (Decoded d \<longleftrightarrow> ripe N n (remaining B A) (remaining A B) = (set A - set B) \<union> (set B - set A)))"
  by (rule symbol_laws.schedule_finds [OF assms])

theorem schedule_does_not_matter_witness:
  "\<exists>e d. schedule (testOps benchSip) [Receive, Attempt, Attempt, Receive, Attempt] (encoderOf [benchSym 2]) (decoderOf [benchSym 1])
           = Some (Inr (e, d)) \<and> Decoded d"
proof -
  have "suffices 2 [benchSym 2] [benchSym 1] 2" using bench_suffices by blast
  moreover have "receives [Receive, Attempt, Attempt, Receive] = 2" by simp
  ultimately show ?thesis
    using schedule_does_not_matter [OF testSym.symbol_laws_axioms bench_setting _ _ bench_run_apart,
        of "[Receive, Attempt, Attempt, Receive]" 2]
    unfolding suffices_def append.simps by (metis order_refl zero_less_numeral)
qed

end
