(* ===== verification/Newsim_Properties.thy ===== *)
theory Newsim_Properties
  imports Newsim_Fill Newsim_Accounts Riblt_Properties
begin

text \<open>
  The properties of the event simulator \<open>des/\<close> and of the simulated servers of \<open>newsim/\<close>, with
  their witnesses on a small network of two servers that run the pull protocol.
\<close>

section \<open>A concrete network for the witnesses\<close>

definition demoEnv :: environment where
  "demoEnv = \<lparr>env_sip = (\<lambda>_ _ bs. ucast (hd bs) * 3), env_TXSIZE = 256, env_exp = (\<lambda>_ _. Fin 1)\<rparr>"

definition demoConfig :: serverConfig where
  "demoConfig = \<lparr>blockArrivalIntv = Fin 1, blockArrivalBurst = 1, initialFlood = False\<rparr>"

definition demoTopo :: "connection list" where
  "demoTopo = [\<lparr>conn_a = 0, conn_b = 1, conn_delay = 5\<rparr>]"

lemma demo_gap: "arrival_gap demoEnv demoConfig m k = Inr 1"
  by (simp add: arrival_gap_def demoEnv_def demoConfig_def float_eval)

lemma demo_timely: "timely demoEnv demoConfig 1 5 demoTopo"
  by (simp add: timely_def demo_gap demoTopo_def)

lemma demo_topo: "\<forall>c\<in>set demoTopo. conn_a c < 2 \<and> conn_b c < 2"
  by (simp add: demoTopo_def)

definition demoSim :: "(payload, serverId) Simulator" where
  "demoSim = ScheduleMessage (ScheduleMessage emptySimulator
     \<lparr>Payload = BlockArrival 1, To = None, Delay = 7\<rparr> (Some 0))
     \<lparr>Payload = BlockArrival 1, To = None, Delay = 4\<rparr> (Some 1)"

lemma demoSim_ok: "sim_ok demoSim"
  unfolding demoSim_def
  by (intro ScheduleMessage_ok sim_ok_empty) (simp_all add: ScheduleMessage_eq emptySimulator_def)

lemma demoSim_set: "mset (mq demoSim) = {#queuedFor 0 (Some 0) 0 \<lparr>Payload = BlockArrival 1, To = None, Delay = 7\<rparr>,
    queuedFor 0 (Some 1) 1 \<lparr>Payload = BlockArrival 1, To = None, Delay = 4\<rparr>#}"
  by (simp add: demoSim_def ScheduleMessage_eq emptySimulator_def)

lemma demoSim_fields: "stime demoSim = 0" "mq demoSim \<noteq> []"
proof -
  show "stime demoSim = 0" by (simp add: demoSim_def ScheduleMessage_eq emptySimulator_def)
  show "mq demoSim \<noteq> []" using demoSim_set by auto
qed

lemma demoSim_queue: "set (mq demoSim) = {queuedFor 0 (Some 0) 0 \<lparr>Payload = BlockArrival 1, To = None, Delay = 7\<rparr>,
    queuedFor 0 (Some 1) 1 \<lparr>Payload = BlockArrival 1, To = None, Delay = 4\<rparr>}"
proof -
  have "set (mq demoSim) = set_mset (mset (mq demoSim))" by simp
  then show ?thesis unfolding demoSim_set by simp
qed

text \<open>One end of a link each, on the symbols of \<open>Riblt_Properties\<close>.\<close>

definition demoSender :: sender where
  "demoSender = \<lparr>sbuffer = [demoSym 1, demoSym 3], sencoder = emptyWindow, sendWindow = Fin 1, inFlight = 0,
     encodingCurrentBlock = False, currentBlockAckCount = 3, receivingCurrentBlock = False, soutbox = [],
     sconfig = \<lparr>controlOverhead = Fin 1, numShards = 2\<rparr>, shardSchedule = [1, 0], sRandomizer = 1, nextShard = 0\<rparr>"

definition demoReceiver :: receiver where
  "demoReceiver = \<lparr>rdecoder = emptyDecoder, rbuffer = [], currentBlockReceived = False, currentBlockSize = 0,
     currentBlockCount = 0, rRandomizer = 1, routbox = []\<rparr>"

lemma demo_block: "block_setting demoOps 3 [] []" "block_setting demoOps 3 [demoSym 1, demoSym 3] [demoSym 2, demoSym 3]"
  using demo_laws demo_setting demo_remaining demo_distinct demo_simple
  by (simp_all add: block_setting_def setting_def [of demoOps 3 "[]"])

section \<open>The event simulator\<close>

text \<open>C13: A delivery takes the message that comes first by arrival time and then by sequence
  number, calls its module at the arrival time, and schedules the module's messages from
  there; it never panics with \<open>time reversal\<close> on its own account.\<close>

theorem deliver_earliest:
  assumes "sim_ok s" "mq s \<noteq> []"
  shows "\<exists>m rest. mset (mq s) = add_mset m (mset rest) \<and> (\<forall>x\<in>set rest. earlier m x) \<and>
     deliverNextMessage handle s w =
       bindO (callHandler handle (mto m) (payload m) (mfrom m) (arrival m) w) (\<lambda>(w', nm).
         Some (Inr (fold (\<lambda>v s. ScheduleMessage s v (mto m)) nm (s\<lparr>mq := rest, stime := arrival m\<rparr>), w')))"
  by (rule deliver_spec [OF assms, of handle w]) blast

theorem deliver_earliest_witness:
  "\<exists>m rest. mset (mq demoSim) = add_mset m (mset rest) \<and> (\<forall>x\<in>set rest. earlier m x)"
  using deliver_earliest [OF demoSim_ok demoSim_fields(2), of "world_handle demoEnv" "\<lparr>servers = [], txgen = \<lparr>last_of = 0\<rparr>\<rparr>"]
  by blast

text \<open>C14: Whatever the modules, as long as they ask for delays between 0 and \<open>bound\<close>: a run up to
  time \<open>t\<close> that returns keeps the queue in order, never lets the clock run backwards, never
  loses count of its deliveries, and stops only when the queue is empty or the clock has
  passed \<open>t\<close>.\<close>

theorem RunUntil_in_order:
  assumes "delay_contract handle winv bound mok" "RunUntil handle t s w = Some (Inr (s', w'))"
    and "sim_ok s" "winv w" "in_reach bound (sint t) s" "msgs_ok mok s" "sint t + 2 * bound < 2 ^ 63"
  shows "sim_ok s' \<and> winv w' \<and> sint (stime s) \<le> sint (stime s') \<and>
         (Drained s' \<or> sint t < sint (stime s')) \<and> EventsDelivered s \<le> EventsDelivered s'"
  using delay_contract.RunUntil_keeps [OF assms] by blast

text \<open>The messages of \<open>demoSim\<close> to two servers that run the pull protocol, up to time 20.\<close>

theorem RunUntil_in_order_witness:
  "\<exists>sim w s' w'. setupPull demoEnv demoConfig 0 demoTopo 2 = Inr (sim, w) \<and>
     RunUntil (world_handle demoEnv) 20 demoSim w = Some (Inr (s', w')) \<and> sim_ok s' \<and>
     0 < EventsDelivered s' \<and> (Drained s' \<or> 20 < sint (stime s'))"
proof -
  obtain sim w where w: "setupPull demoEnv demoConfig 0 demoTopo 2 = Inr (sim, w)"
    "pull_network demoEnv (links_of demoTopo) 2 1 5 w"
    by (rule setupPull_network [OF demo_timely _ _ demo_topo, of 0]) simp_all
  have q: "in_reach 5 (sint (20 :: duration)) demoSim" "msgs_ok (pull_mok (links_of demoTopo) 2) demoSim"
    by (simp_all add: in_reach_def msgs_ok_def demoSim_queue queuedFor_def pull_mok_def demoSim_fields(1))
  have range: "sint (20 :: duration) + 2 * 5 < 2 ^ 63" by simp
  note net = pullnet.delay_contract_axioms [of demoEnv "links_of demoTopo" 2 0 5]
  have w1: "pull_network demoEnv (links_of demoTopo) 2 (int (Suc 0)) 5 w" using w(2) by simp
  obtain s' w' where run: "RunUntil (world_handle demoEnv) 20 demoSim w = Some (Inr (s', w'))"
    using pullnet.RunUntil_returns [OF demoSim_ok w1 q range] by blast
  have early: "\<not> Drained demoSim" "sint (stime demoSim) \<le> sint (20 :: duration)"
    by (simp_all add: demoSim_fields Drained_def)
  then obtain s1 w2 where d: "deliverNextMessage (world_handle demoEnv) demoSim w = Some (Inr (s1, w2))"
    "RunUntil (world_handle demoEnv) 20 s1 w2 = Some (Inr (s', w'))"
    using run by (subst (asm) RunUntil.simps) (auto simp: bindO_Inr_iff)
  note k = delay_contract.deliver_keeps [OF net demoSim_ok w1 q early(2) range d(1)]
  have "EventsDelivered demoSim = 0" by (simp add: EventsDelivered_def demoSim_def ScheduleMessage_eq emptySimulator_def)
  moreover have "sim_ok s' \<and> EventsDelivered s1 \<le> EventsDelivered s' \<and> (Drained s' \<or> 20 < sint (stime s'))"
    using RunUntil_in_order [OF net d(2) _ _ _ _ range] k by simp
  ultimately show ?thesis using w(1) run k by (intro exI [of _ sim] exI [of _ w] exI [of _ s'] exI [of _ w']) simp
qed

text \<open>C15: A run up to time \<open>t\<close> returns when the modules return on every message they may be sent
  and their delays have a positive lower bound.\<close>

theorem RunUntil_terminates:
  assumes "module_contract handle winv bound mok least" "sim_ok s" "winv w"
    and "in_reach bound (sint t) s" "msgs_ok mok s" "sint t + 2 * bound < 2 ^ 63"
  shows "\<exists>s' w'. RunUntil handle t s w = Some (Inr (s', w'))"
  by (rule module_contract.RunUntil_returns [OF assms])

theorem RunUntil_terminates_witness:
  "\<exists>sim w sim' w'. setupPull demoEnv demoConfig 0 demoTopo 2 = Inr (sim, w) \<and>
     RunUntil (world_handle demoEnv) 20 sim w = Some (Inr (sim', w'))"
proof -
  obtain sim w where w: "setupPull demoEnv demoConfig 0 demoTopo 2 = Inr (sim, w)" "start_queue 5 2 sim"
    "pull_network demoEnv (links_of demoTopo) 2 1 5 w"
    by (rule setupPull_network [OF demo_timely _ _ demo_topo, of 0]) simp_all
  have "sim_ok sim" "in_reach 5 (sint (20 :: duration)) sim" "msgs_ok (pull_mok (links_of demoTopo) 2) sim"
    using w(2) by (fastforce simp: start_queue_def in_reach_def msgs_ok_def pull_mok_def)+
  then show ?thesis
    using RunUntil_terminates [OF pullnet.module_contract_axioms [of demoEnv "links_of demoTopo" 2 0 5]] w by auto
qed

section \<open>The servers\<close>

text \<open>C18: Every transaction that a message brings to a server is booked once: as received and
  decoded when its index is new to the server, as a duplicate otherwise. The transactions are
  those of \<open>brought\<close>: the one of a broadcast, or all that the algorithm of the sending peer decodes
  from the message. The size of the message is added to the received bytes.\<close>

theorem server_books_balance:
  assumes "server_handle env me pl from t g s = Some (Inr (g', s', out))" "\<forall>n. pl \<noteq> BlockArrival n"
  shows "g' = g \<and> receivedBytes (metric s') = receivedBytes (metric s) + size_of (env_TXSIZE env) pl \<and>
         booked (tx_idx ` set (brought (env_ops env) s pl from)) (length (brought (env_ops env) s pl from)) s s'"
  by (rule server_handle_books [OF assms])

text \<open>A server with one peer, which answers a request with a transaction.\<close>

theorem server_books_balance_witness:
  "\<exists>g' s' out. server_handle demoEnv 0 (Response zeroSymbol) (Some 1) 0 \<lparr>last_of = 0\<rparr>
        (addPeer 1 (PullAlgo \<lparr>known = Map.empty, poutbox = []\<rparr>) 5 (freshServer demoConfig))
      = Some (Inr (g', s', out)) \<and> receivedBytes (metric s') = size_of 256 (Response zeroSymbol) \<and>
        received s' = {tx_idx zeroSymbol} \<and> decodedTransactions (metric s') = 1"
proof -
  let ?s = "addPeer 1 (PullAlgo \<lparr>known = Map.empty, poutbox = []\<rparr>) 5 (freshServer demoConfig)"
  have "brought (env_ops demoEnv) ?s (Response zeroSymbol) (Some 1) = [zeroSymbol]"
    by (simp add: brought_def addPeer_def algo_handle_def pull_handle_def)
  moreover obtain g' s' out where "server_handle demoEnv 0 (Response zeroSymbol) (Some 1) 0 \<lparr>last_of = 0\<rparr> ?s = Some (Inr (g', s', out))"
    by (simp add: server_handle_def acceptTx_def server_forward_def server_collect_def freshServer_def addPeer_def
        withPeer_def algo_handle_def pull_handle_def algo_collect_def pull_collect_def Let_def)
  moreover note server_books_balance [OF this, simplified]
  ultimately show ?thesis
    by (auto simp: booked_def freshServer_def addPeer_def zeroMetric_def demoEnv_def)
qed

section \<open>The algorithms between two peers\<close>

text \<open>C19: One round of the pull protocol. The peer that is told of an unknown hash asks for it and
  receives the transaction that was announced; after the round it does not ask again, and the
  announcing side keeps the transaction.\<close>

theorem pull_round_trip:
  assumes "known b (Hash tx) = None"
  shows "\<exists>b1 a1 b2. poutbox (pull_forward a tx) = poutbox a @ [Announce (Hash tx)] \<and>
     pull_handle b (Announce (Hash tx)) = Inr (b1, []) \<and> poutbox b1 = poutbox b @ [Request (Hash tx)] \<and>
     pull_handle (pull_forward a tx) (Request (Hash tx)) = Inr (a1, []) \<and>
     poutbox a1 = poutbox (pull_forward a tx) @ [Response tx] \<and>
     pull_handle b1 (Response tx) = Inr (b2, [tx]) \<and>
     pull_handle b2 (Announce (Hash tx)) = Inr (b2, []) \<and> known a1 (Hash tx) = Some tx"
  using assms by (simp add: pull_handle_def pull_forward_def)

theorem pull_round_trip_witness:
  "\<exists>b1. pull_handle \<lparr>known = Map.empty, poutbox = []\<rparr> (Announce (Hash zeroSymbol)) = Inr (b1, []) \<and>
        poutbox b1 = [Request (Hash zeroSymbol)]"
  using pull_round_trip [of "\<lparr>known = Map.empty, poutbox = []\<rparr>" zeroSymbol "\<lparr>known = Map.empty, poutbox = []\<rparr>"] by auto

text \<open>C20: The ranges that \<open>startBlock\<close> announces for a schedule of \<open>k\<close> shards partition the
  hashes: every hash lies in exactly one of them, the last one being open above.\<close>

theorem shards_cover:
  assumes "0 < k" "k < 2 ^ 63"
  shows "\<exists>!i. i < k \<and> inShard (shardStart k i) (shardStart k ((i + 1) mod k)) h"
  by (rule shards_partition [OF assms])

theorem shards_cover_witness: "\<exists>!i. i < 3 \<and> inShard (shardStart 3 i) (shardStart 3 ((i + 1) mod 3)) 77"
  by (rule shards_cover) simp_all

text \<open>C21: Starting a block moves the buffered symbols of the shard whose turn it is into a fresh
  encoder and leaves all others in the buffer; the announced range is that of the shard, the
  turn passes to the next shard, and the send window holds at least one coded symbol.\<close>

theorem startBlock_moves_shard:
  assumes "length (shardSchedule n) = k" "0 < k" "k < 2 ^ 63" "nextShard n = int j" "j < k"
    and "shardSchedule n ! j = int i" "i < k"
  shows "\<exists>n' cw moved. startBlock n = Inr (n', cw, (currentBlockAckCount n * 2) sdiv 3) \<and>
    newBlock cw \<and> startHash cw = shardStart k i \<and> endHash cw = shardStart k ((i + 1) mod k) \<and>
    sencoder n' = encoderOf moved \<and>
    mset moved = mset (filter (wanted (startHash cw) (endHash cw) (sRandomizer n)) (sbuffer n)) \<and>
    mset (sbuffer n') = mset (filter (\<lambda>v. \<not> wanted (startHash cw) (endHash cw) (sRandomizer n) v) (sbuffer n)) \<and>
    nextShard n' = int ((j + 1) mod k) \<and> inFlight n' = 0 \<and> \<not> f_less (sendWindow n') (Fin 1)"
  by (rule startBlock_spec [OF assms]) blast

theorem startBlock_moves_shard_witness:
  "\<exists>n' cw. startBlock demoSender = Inr (n', cw, 2) \<and> newBlock cw \<and> nextShard n' = 1"
proof -
  have "length (shardSchedule demoSender) = 2" "nextShard demoSender = int 0" "shardSchedule demoSender ! 0 = int 1"
    by (simp_all add: demoSender_def)
  from startBlock_moves_shard [OF this(1) _ _ this(2) _ this(3)] show ?thesis
    by (auto simp: demoSender_def)
qed

text \<open>C22: \<open>tryFillSendWindow\<close> returns, with the send window full, while the encoder has coded
  symbols left. In a block it puts the next ones into the outbox, as many as there is room for. When a
  block starts there are at least the first codeword, which announces the range, and the burst.\<close>

theorem send_window_filled:
  assumes "if encodingCurrentBlock n then n1 = n else startBlock n = Inr (n1, cw, b)"
    and "can_send T N A j (sencoder n1)" "sendWindow n1 = Fin w" "0 \<le> inFlight n1"
    and "k = (if encodingCurrentBlock n then nat (\<lceil>w\<rceil> - inFlight n1) else max (nat \<lceil>w\<rceil>) (Suc (nat b)))"
    and "j + k \<le> N" "inFlight n1 + int k < 2 ^ 53"
  shows "\<exists>n' e css. produceMany T k (sencoder n1) = Some (Inr (e, css)) \<and> tryFillSendWindow T n = Some (Inr n') \<and>
    soutbox n' = soutbox n1 @ map CodewordMsg (if encodingCurrentBlock n then map plainCodeword css else announced cw css) \<and>
    inFlight n' = inFlight n1 + int k \<and> w \<le> of_int (inFlight n') \<and>
    n' = n1\<lparr>sencoder := e, soutbox := soutbox n', inFlight := inFlight n'\<rparr>"
proof -
  let ?cws = "\<lambda>css. if encodingCurrentBlock n then map plainCodeword css else announced cw css"
  have "\<exists>e css. produceMany T k (sencoder n1) = Some (Inr (e, css)) \<and> tryFillSendWindow T n = Some (Inr (sentMore n1 e (?cws css)))"
  proof (cases "encodingCurrentBlock n")
    case True
    then show ?thesis using fill_window [of n T N A j w k] assms by simp
  next
    case False
    have "inFlight n1 = 0" using startBlock_flight assms(1) False by auto
    then show ?thesis using start_fills [of n n1 cw b T N A j w k] assms False by simp
  qed
  then obtain e css where r: "produceMany T k (sencoder n1) = Some (Inr (e, css))"
    "tryFillSendWindow T n = Some (Inr (sentMore n1 e (?cws css)))" by blast
  have "length (?cws css) = k" using length_produceMany [OF r(1)] by (cases css) auto
  moreover have "\<lceil>w\<rceil> \<le> inFlight n1 + int k" using assms(4,5) by (auto split: if_splits)
  ultimately show ?thesis
    using r by (intro exI [of _ "sentMore n1 e (?cws css)"] exI [of _ e] exI [of _ css]) (simp add: sentMore_def ceiling_le_iff)
qed

theorem send_window_filled_witness:
  "\<exists>n'. tryFillSendWindow demoOps (demoSender\<lparr>encodingCurrentBlock := True, sendWindow := Fin (5 / 2)\<rparr>) = Some (Inr n') \<and>
        inFlight n' = 3 \<and> length (soutbox n') = 3"
proof -
  let ?n = "demoSender\<lparr>encodingCurrentBlock := True, sendWindow := Fin (5 / 2)\<rparr>"
  have fields: "encodingCurrentBlock ?n" "sendWindow ?n = Fin (5 / 2)" "inFlight ?n = 0" "soutbox ?n = []"
    by (simp_all add: demoSender_def)
  have start: "if encodingCurrentBlock ?n then ?n = ?n else startBlock ?n = Inr (?n, zeroCodeword, 0)" by (simp add: fields)
  have e: "can_send demoOps 3 [] 0 (sencoder ?n)"
    using demo_laws encoder_at_empty by (simp add: can_send_def demoSender_def)
  have "\<lceil>5 / 2 :: rat\<rceil> = 3" by (rule ceiling_unique) simp_all
  then have k: "3 = (if encodingCurrentBlock ?n then nat (\<lceil>5 / 2 :: rat\<rceil> - inFlight ?n) else max (nat \<lceil>5 / 2 :: rat\<rceil>) (Suc (nat 0)))"
    by (simp add: fields)
  have bounds: "0 \<le> inFlight ?n" "0 + (3 :: nat) \<le> 3" "inFlight ?n + int 3 < 2 ^ 53" by (simp_all add: fields)
  obtain n' e css where r: "produceMany demoOps 3 (sencoder ?n) = Some (Inr (e, css))" "tryFillSendWindow demoOps ?n = Some (Inr n')"
    "soutbox n' = soutbox ?n @ map CodewordMsg (if encodingCurrentBlock ?n then map plainCodeword css else announced zeroCodeword css)"
    "inFlight n' = inFlight ?n + int 3"
    using send_window_filled [OF start e fields(2) bounds(1) k bounds(2,3)] by metis
  moreover have "length (soutbox n') = 3" using r(3) length_produceMany [OF r(1)] by (simp add: fields)
  ultimately show ?thesis using fields(3) by simp
qed

text \<open>C24: One block over a link. The sender's encoder holds the shard \<open>A\<close>, the receiver moves its
  own symbols of the announced range, \<open>B\<close>, into its decoder. Then sending any number of coded
  symbols and receiving them in order returns without a panic; every codeword is answered by
  one negative acknowledgement until the block is decoded, then by one positive one that
  carries exactly \<open>B - A\<close>, while the receiver hands out exactly \<open>A - B\<close>; the codewords that
  arrive later are dropped. Only the first acknowledgement says that a block began. The
  hypotheses: the shards are sets of hashed symbols whose mappings visit each of at most \<open>N\<close>
  coded symbols at most once, and the hash tells apart the cells that the receiver's decoder
  holds while it decodes these \<open>n + 1\<close> coded symbols.\<close>

theorem block_reconciles:
  assumes "block_setting T N A B" "Suc n \<le> N" "block_apart T N A B (Suc n) (encoderOf A) (decoderOf B)"
    and "moveShard Decoder_AddHashedSymbol start stop (rRandomizer r) (rbuffer r) 0 (rdecoder r) = (buffer', decoderOf B)"
  shows "\<exists>e c css r' out. produceMany T (Suc n) (encoderOf A) = Some (Inr (e, c # css)) \<and>
     receiveAll T r (firstCodeword start stop c # map plainCodeword css) = Some (Inr (r', out)) \<and>
     rbuffer r' = buffer' \<and> block_result (set A - set B) (set B - set A) True (Suc n) (routbox r) r' out"
  by (rule link_block [OF assms])

theorem block_reconciles_witness:
  "\<exists>e c css r' out. produceMany demoOps 2 (encoderOf [demoSym 1, demoSym 3]) = Some (Inr (e, c # css)) \<and>
     receiveAll demoOps (demoReceiver\<lparr>rbuffer := [demoSym 2, demoSym 3]\<rparr>) (firstCodeword 0 0 c # map plainCodeword css)
       = Some (Inr (r', out)) \<and> rbuffer r' = [] \<and> (currentBlockReceived r' \<longrightarrow> set out = {demoSym 1})"
proof -
  have "moveShard Decoder_AddHashedSymbol 0 0 1 [demoSym 2, demoSym 3] 0 emptyDecoder = ([], decoderOf [demoSym 2, demoSym 3])"
    by (simp add: moveShard.simps inShard_def decoderOf_def Let_def)
  moreover have "block_apart demoOps 3 [demoSym 1, demoSym 3] [demoSym 2, demoSym 3] n e d" for n e d
    unfolding demo_remaining by (rule demo_run_apart)
  ultimately show ?thesis
    using block_reconciles [OF demo_block(2), of 1 0 0 "demoReceiver\<lparr>rbuffer := [demoSym 2, demoSym 3]\<rparr>" "[]"] demo_distinct
    by (fastforce simp: demoReceiver_def block_result_def block_done_def insert_Diff_if numeral_2_eq_2 split: if_splits)
qed

end
