(* ===== verification/Newsim_Main.thy ===== *)
theory Newsim_Main
  imports Newsim_Server
begin

text \<open>
  The rest of \<open>newsim/\<close>: the degree sequence of \<open>types.go\<close>, the recorders of \<open>filter.go\<close> at the
  type \<open>int\<close>, and the loop of \<open>main.go\<close> that runs the simulation. The progress line that the
  loop prints in each round is left out, and with it the counters that only that line uses.
\<close>

record degseq =
  dcount :: int

definition degseq_Reset :: "degseq \<Rightarrow> degseq" where
  "degseq_Reset t = t\<lparr>dcount := 0\<rparr>"

definition NextThreshold :: "degseq \<Rightarrow> (degseq \<times> u64) result" where
  "NextThreshold t =
     bindR (if dcount t \<noteq> 0
            then f_to_u64 (f_div (f_of_u64 (- 1)) (f_add (Fin 1) (f_div (f_of_int (dcount t)) (Fin 2))))
            else Inr (- 1))
       (\<lambda>th. Inr (t\<lparr>dcount := dcount t + 1\<rparr>, th))"

record maximum =
  max_of :: int

definition maximum_record :: "maximum \<Rightarrow> int \<Rightarrow> maximum" where
  "maximum_record m val = (if val > max_of m then m\<lparr>max_of := val\<rparr> else m)"

definition maximum_get :: "maximum \<Rightarrow> maximum \<times> int" where
  "maximum_get m = (let res = max_of m in (m\<lparr>max_of := 0\<rparr>, res))"

record difference =
  lastRead :: int
  current :: int

definition difference_record :: "difference \<Rightarrow> int \<Rightarrow> difference" where
  "difference_record d val = d\<lparr>current := val\<rparr>"

definition difference_get :: "difference \<Rightarrow> difference \<times> int" where
  "difference_get d = (let diff = current d - lastRead d in (d\<lparr>lastRead := current d\<rparr>, diff))"

text \<open>The loop over the report intervals; the metrics restart once, when the warm-up is over.\<close>

partial_function (option) mainLoop ::
  "environment \<Rightarrow> duration \<Rightarrow> duration \<Rightarrow> duration \<Rightarrow> bool \<Rightarrow> (payload, serverId) Simulator \<Rightarrow> world \<Rightarrow>
   ((payload, serverId) Simulator \<times> world) run" where
  "mainLoop env simDuration warmupDuration cur warmed s w =
     (if sint cur < sint simDuration
      then bindO (RunUntil (world_handle env) cur s w) (\<lambda>(s, w).
             if sint cur > sint warmupDuration \<and> \<not> warmed
             then mainLoop env simDuration warmupDuration (cur + 1000000000) True s
                    (w\<lparr>servers := map (\<lambda>s. s\<lparr>metric := resetMetric (metric s)\<rparr>) (servers w)\<rparr>)
             else mainLoop env simDuration warmupDuration (cur + 1000000000) warmed s w)
      else Some (Inr (s, w)))"

end
