(* ===== verification/Topology.thy ===== *)
theory Topology
  imports Des "HOL-Library.Char_ord"
begin

text \<open>
  \<open>newsim/topology.go\<close>: the links of a network from the lines of a file, each \<open>a,b,d\<close> with a
  delay of \<open>d\<close> milliseconds. The file is the list of its lines, ASCII text; opening and reading
  it are not modelled. \<open>fmt.Sscanf\<close> with \<open>"%d,%d,%d"\<close> is modelled as the standard library
  documents it: leading spaces, an optional sign and decimal digits per number, which must fit
  \<open>int\<close>, exact commas, and input after the last number is ignored.
\<close>

definition isSpace :: "char \<Rightarrow> bool" where
  "isSpace c \<longleftrightarrow> of_char c \<in> {9, 11, 12, 13, 32 :: nat}"

definition isDigit :: "char \<Rightarrow> bool" where
  "isDigit c \<longleftrightarrow> 48 \<le> (of_char c :: nat) \<and> (of_char c :: nat) \<le> 57"

definition scanInt :: "string \<Rightarrow> (int \<times> string) option" where
  "scanInt s =
     (let s = dropWhile isSpace s;
          (neg, s) = (case s of [] \<Rightarrow> (False, s)
            | c # r \<Rightarrow> if c = CHR ''-'' then (True, r) else if c = CHR ''+'' then (False, r) else (False, s));
          ds = takeWhile isDigit s;
          v = foldl (\<lambda>a d. a * 10 + (of_char d - 48)) 0 ds;
          v = (if neg then - v else v)
      in if ds = [] \<or> v < - (2 ^ 63) \<or> v \<ge> 2 ^ 63 then None else Some (v, dropWhile isDigit s))"

definition scanComma :: "string \<Rightarrow> string option" where
  "scanComma s = (case s of [] \<Rightarrow> None | c # r \<Rightarrow> if c = CHR '','' then Some r else None)"

definition sscanfLink :: "string \<Rightarrow> (int \<times> int \<times> int) option" where
  "sscanfLink s =
     Option.bind (scanInt s) (\<lambda>(a, s). Option.bind (scanComma s) (\<lambda>s.
     Option.bind (scanInt s) (\<lambda>(b, s). Option.bind (scanComma s) (\<lambda>s.
     Option.bind (scanInt s) (\<lambda>(d, s). Some (a, b, d))))))"

text \<open>A link, with the endpoints as the file has them.\<close>

record topoLink =
  link_a :: int
  link_b :: int
  link_delay :: duration

fun readLinks :: "string list \<Rightarrow> topoLink list \<Rightarrow> int \<Rightarrow> (topoLink list \<times> int) result" where
  "readLinks [] res maxIdx = Inr (res, maxIdx)"
| "readLinks (l # ls) res maxIdx =
     (case sscanfLink l of None \<Rightarrow> Inl (Panic ''scan error'')
        | Some (a, b, d) \<Rightarrow>
            let res = res @ [\<lparr>link_a = a, link_b = b, link_delay = word_of_int d * 1000000\<rparr>];
                maxIdx = (if a > maxIdx then a else maxIdx);
                maxIdx = (if b > maxIdx then b else maxIdx)
            in readLinks ls res maxIdx)"

definition loadTopology :: "string list \<Rightarrow> (topoLink list \<times> int) result" where
  "loadTopology lines = bindR (readLinks lines [] 0) (\<lambda>(res, maxIdx). Inr (res, maxIdx + 1))"

text \<open>The number of servers covers the endpoints.\<close>

lemma readLinks_bounds:
  assumes "readLinks ls res m = Inr (links, n)" "\<forall>x\<in>set res. link_a x \<le> m \<and> link_b x \<le> m" "0 \<le> m"
  shows "(\<forall>x\<in>set links. link_a x \<le> n \<and> link_b x \<le> n) \<and> 0 \<le> n \<and> length links = length res + length ls"
  using assms
proof (induction ls arbitrary: res m)
  case (Cons l ls)
  obtain a b d where s: "sscanfLink l = Some (a, b, d)" using Cons.prems(1) by (auto split: option.splits)
  define m' where "m' = (let m = (if a > m then a else m) in if b > m then b else m)"
  have le: "m \<le> m'" "a \<le> m'" "b \<le> m'" by (auto simp: m'_def Let_def)
  have "readLinks ls (res @ [\<lparr>link_a = a, link_b = b, link_delay = word_of_int d * 1000000\<rparr>]) m' = Inr (links, n)"
    using Cons.prems(1) s by (simp add: m'_def Let_def)
  from Cons.IH [OF this] show ?case using Cons.prems(2,3) le by fastforce
qed auto

lemma loadTopology_bounds:
  assumes "loadTopology lines = Inr (links, n)"
  shows "\<forall>x\<in>set links. link_a x < n \<and> link_b x < n" "1 \<le> n" "length links = length lines"
  using assms readLinks_bounds [of lines "[]" 0] by (fastforce simp: loadTopology_def result_simps)+

section \<open>Writing and reading a topology\<close>

text \<open>The decimal digits of a number, and the line of a link with a delay of \<open>d\<close> milliseconds.\<close>

fun showNat :: "nat \<Rightarrow> string" where
  "showNat n = (if n < 10 then [char_of (48 + n)] else showNat (n div 10) @ [char_of (48 + n mod 10)])"

declare showNat.simps [simp del]

definition showLink :: "nat \<times> nat \<times> nat \<Rightarrow> string" where
  "showLink = (\<lambda>(a, b, d). showNat a @ CHR '','' # showNat b @ CHR '','' # showNat d)"

definition linkFor :: "nat \<times> nat \<times> nat \<Rightarrow> topoLink" where
  "linkFor = (\<lambda>(a, b, d). \<lparr>link_a = int a, link_b = int b, link_delay = word_of_int (int d) * 1000000\<rparr>)"

lemma digit_char:
  fixes k :: nat
  assumes "k < 10"
  shows "isDigit (char_of (48 + k))" "(of_char (char_of (48 + k) :: char) :: nat) = 48 + k"
  using assms by (simp_all add: isDigit_def)

lemma showNat_digits: "\<forall>c\<in>set (showNat n). isDigit c"
proof (induction n rule: showNat.induct)
  case (1 n)
  then show ?case using digit_char [of n] digit_char [of "n mod 10"] by (auto simp: showNat.simps [of n])
qed

lemma showNat_nonempty: "showNat n \<noteq> []"
  by (simp add: showNat.simps [of n])

lemma showNat_value: "foldl (\<lambda>a d. a * 10 + (of_char d - 48)) 0 (showNat n) = int n"
proof (induction n rule: showNat.induct)
  case (1 n)
  have v: "(of_char (char_of (48 + k) :: char) :: int) = int (48 + k)" if "k < 10" for k
    using digit_char(2) [OF that] by (metis of_nat_of_char)
  show ?case
  proof (cases "n < 10")
    case True
    then show ?thesis using v [OF True] by (simp add: showNat.simps [of n])
  next
    case False
    have "int (n div 10) * 10 + int (n mod 10) = int n" by presburger
    then show ?thesis using False 1 v [of "n mod 10"] by (simp add: showNat.simps [of n])
  qed
qed

text \<open>A digit is neither a space nor a sign.\<close>

lemma digit_not: "isDigit c \<Longrightarrow> \<not> isSpace c \<and> c \<noteq> CHR ''-'' \<and> c \<noteq> CHR ''+''"
  by (auto simp: isDigit_def isSpace_def)

lemma scanInt_showNat:
  assumes "n < 2 ^ 63" "rest = [] \<or> \<not> isDigit (hd rest)"
  shows "scanInt (showNat n @ rest) = Some (int n, rest)"
proof -
  obtain c cs where c: "showNat n = c # cs" using showNat_nonempty by (cases "showNat n") auto
  have d: "isDigit c" using showNat_digits [of n] c by simp
  have "dropWhile isSpace (showNat n @ rest) = showNat n @ rest" using c digit_not [OF d] by simp
  moreover have "takeWhile isDigit (showNat n @ rest) = showNat n" "dropWhile isDigit (showNat n @ rest) = rest"
    using showNat_digits [of n] assms(2) by (cases rest; simp)+
  moreover have "int n < 2 ^ 63" using assms(1) by simp
  ultimately show ?thesis
    using c digit_not [OF d] showNat_value [of n] by (simp add: scanInt_def Let_def)
qed

lemma sscanf_showLink:
  assumes "a < 2 ^ 63" "b < 2 ^ 63" "d < 2 ^ 63"
  shows "sscanfLink (showLink (a, b, d)) = Some (int a, int b, int d)"
proof -
  have comma: "\<not> isDigit (CHR '','')" by (simp add: isDigit_def)
  have "scanInt (showNat d) = Some (int d, [])" using scanInt_showNat [OF assms(3), of "[]"] by simp
  then show ?thesis
    using scanInt_showNat [OF assms(1)] scanInt_showNat [OF assms(2)] comma
    by (simp add: sscanfLink_def showLink_def scanComma_def)
qed

lemma readLinks_shown:
  assumes "\<forall>(a, b, d)\<in>set ls. a < 2 ^ 63 \<and> b < 2 ^ 63 \<and> d < 2 ^ 63"
  shows "readLinks (map showLink ls) res m = Inr (res @ map linkFor ls, fold (\<lambda>(a, b, d) m. max (max m (int a)) (int b)) ls m)"
  using assms
proof (induction ls arbitrary: res m)
  case (Cons l ls)
  obtain a b d where l: "l = (a, b, d)" by (cases l) auto
  have s: "sscanfLink (showLink l) = Some (int a, int b, int d)" using Cons.prems l by (simp add: sscanf_showLink)
  have m: "(if int b > (if int a > m then int a else m) then int b else (if int a > m then int a else m)) = max (max m (int a)) (int b)"
    by auto
  have "readLinks (showLink l # map showLink ls) res m = readLinks (map showLink ls) (res @ [linkFor l]) (max (max m (int a)) (int b))"
    by (simp add: s Let_def m) (simp add: l linkFor_def)
  then show ?case using Cons.IH Cons.prems by (simp add: l)
qed simp

lemma fold_endpoints:
  "fold (\<lambda>(a, b, d) m. max (max m (int a)) (int b)) ls m = N \<Longrightarrow>
   m \<le> N \<and> (\<forall>(a, b, d)\<in>set ls. int a \<le> N \<and> int b \<le> N) \<and> (N = m \<or> (\<exists>(a, b, d)\<in>set ls. N = int a \<or> N = int b))"
proof (induction ls arbitrary: m)
  case (Cons l ls)
  obtain a b d where l: "l = (a, b, d)" by (cases l) auto
  have "max (max m (int a)) (int b) \<in> {m, int a, int b}" by (auto simp: max_def)
  then show ?case using Cons.IH [of "max (max m (int a)) (int b)"] Cons.prems l by auto
qed simp

lemma loadTopology_shown:
  assumes "\<forall>(a, b, d)\<in>set ls. a < 2 ^ 63 \<and> b < 2 ^ 63 \<and> d < 2 ^ 63"
  shows "\<exists>N. loadTopology (map showLink ls) = Inr (map linkFor ls, N) \<and> 1 \<le> N \<and>
    (\<forall>(a, b, d)\<in>set ls. int a < N \<and> int b < N) \<and> (N = 1 \<or> (\<exists>(a, b, d)\<in>set ls. N = int a + 1 \<or> N = int b + 1))"
  using readLinks_shown [OF assms, of "[]" 0] fold_endpoints [of ls 0]
  by (fastforce simp: loadTopology_def)

end
