(* ===== verification/Moments.thy ===== *)
theory Moments
  imports Float64
begin

text \<open>
  \<open>collectMoments\<close>, which \<open>newsim/main.go\<close> and \<open>simulator/main.go\<close> define alike, and
  \<open>getQuantiles\<close> of their \<open>distributionSketch\<close>. \<open>sort.Float64s\<close> puts NaN first: floats are a
  linear order that does. The statistics are third-party code: functions of the sorted sample,
  and of the values that were added to a sketch.
\<close>

section \<open>Floats in order\<close>

fun f_rank :: "float64 \<Rightarrow> nat" where
  "f_rank NaN = 0"
| "f_rank NInf = 1"
| "f_rank (Fin _) = 2"
| "f_rank PInf = 3"

instantiation float64 :: linorder
begin

fun less_eq_float64 :: "float64 \<Rightarrow> float64 \<Rightarrow> bool" where
  "less_eq_float64 (Fin a) (Fin b) = (a \<le> b)"
| "less_eq_float64 x y = (f_rank x \<le> f_rank y)"

definition less_float64 :: "float64 \<Rightarrow> float64 \<Rightarrow> bool" where
  "less_float64 x y \<longleftrightarrow> x \<le> y \<and> \<not> y \<le> x"

instance
proof
  fix x y z :: float64
  show "x < y \<longleftrightarrow> x \<le> y \<and> \<not> y \<le> x" by (rule less_float64_def)
  show "x \<le> x" by (cases x) simp_all
  show "x \<le> y \<or> y \<le> x" by (cases x; cases y) auto
  show "x \<le> y \<Longrightarrow> y \<le> x \<Longrightarrow> x = y" by (cases x; cases y) auto
  show "x \<le> y \<Longrightarrow> y \<le> z \<Longrightarrow> x \<le> z" by (cases x; cases y; cases z) auto
qed

end

text \<open>The order extends the comparison of the language.\<close>

lemma f_less_less: "f_less x y \<Longrightarrow> x < y"
  by (cases x; cases y) (auto simp: less_float64_def)

section \<open>The moments of a metric\<close>

record statFns =
  smp_Mean :: "float64 list \<Rightarrow> float64"
  smp_StdDev :: "float64 list \<Rightarrow> float64"
  smp_Quantile :: "float64 list \<Rightarrow> float64 \<Rightarrow> float64"
  sketch_Quantiles :: "float64 list \<Rightarrow> float64 list \<Rightarrow> float64 list option"

definition collectMoments :: "statFns \<Rightarrow> 's list \<Rightarrow> ('s \<Rightarrow> float64 result) \<Rightarrow> float64 list result" where
  "collectMoments F servers metric =
     (let res = [] in
      bindR (foldl (\<lambda>r server. bindR r (\<lambda>xs. bindR (metric server) (\<lambda>x. Inr (xs @ [x])))) (Inr []) servers) (\<lambda>xs.
      let s = sort xs;
          res = res @ [smp_Mean F s];
          res = res @ [smp_StdDev F s];
          res = res @ [smp_Quantile F s (rnd (5 / 100))];
          res = res @ [smp_Quantile F s (rnd (25 / 100))];
          res = res @ [smp_Quantile F s (rnd (50 / 100))];
          res = res @ [smp_Quantile F s (rnd (75 / 100))];
          res = res @ [smp_Quantile F s (rnd (95 / 100))]
      in Inr res))"

text \<open>A sketch without values, like any error of the package, panics.\<close>

definition getQuantiles :: "statFns \<Rightarrow> float64 list \<Rightarrow> float64 list \<Rightarrow> float64 list result" where
  "getQuantiles F added q =
     (case sketch_Quantiles F added q of None \<Rightarrow> Inl (Panic ''sketch error'') | Some res \<Rightarrow> Inr res)"

lemma collectMoments_eq:
  assumes "\<And>s. s \<in> set servers \<Longrightarrow> metric s = Inr (f s)"
  shows "collectMoments F servers metric =
    (let xs = sort (map f servers)
     in Inr ([smp_Mean F xs, smp_StdDev F xs] @ map (\<lambda>p. smp_Quantile F xs (rnd (p / 100))) [5, 25, 50, 75, 95]))"
proof -
  have "foldl (\<lambda>r server. bindR r (\<lambda>xs. bindR (metric server) (\<lambda>x. Inr (xs @ [x])))) (Inr ys) servers
      = Inr (ys @ map f servers)" for ys
    using assms by (induction servers arbitrary: ys) simp_all
  from this [of "[]"] show ?thesis by (simp add: collectMoments_def Let_def)
qed

text \<open>One error for all servers that have no value: it is what the call ends with.\<close>

lemma collectMoments_fails:
  assumes "\<And>s. s \<in> set servers \<Longrightarrow> metric s = (if P s then Inl e else Inr (f s))" "\<exists>s\<in>set servers. P s"
  shows "collectMoments F servers metric = Inl e"
proof -
  let ?g = "\<lambda>r server. bindR r (\<lambda>xs. bindR (metric server) (\<lambda>x. Inr (xs @ [x])))"
  have err: "foldl ?g (Inl e) ys = Inl e" for ys by (induction ys) simp_all
  have "foldl ?g (Inr ys) servers = Inl e" for ys
    using assms
  proof (induction servers arbitrary: ys)
    case (Cons s servers)
    show ?case
    proof (cases "P s")
      case True
      then show ?thesis using Cons.prems(1) err by simp
    next
      case False
      then show ?thesis using Cons.prems Cons.IH by simp
    qed
  qed simp
  from this [of "[]"] show ?thesis by (simp add: collectMoments_def)
qed

text \<open>The moments of a metric that has a value for every server.\<close>

definition momentsOf :: "statFns \<Rightarrow> float64 list \<Rightarrow> float64 list" where
  "momentsOf F xs =
     (let s = sort xs in [smp_Mean F s, smp_StdDev F s] @ map (\<lambda>p. smp_Quantile F s (rnd (p / 100))) [5, 25, 50, 75, 95])"

lemma collectMoments_values:
  "(\<And>s. s \<in> set servers \<Longrightarrow> metric s = Inr (f s)) \<Longrightarrow> collectMoments F servers metric = Inr (momentsOf F (map f servers))"
  by (simp add: collectMoments_eq momentsOf_def Let_def)

end
