(* ===== verification/Newsim_Program.thy ===== *)
theory Newsim_Program
  imports Loops Newsim_Main Topology Moments
begin

text \<open>
  \<open>main\<close> of \<open>newsim/main.go\<close> as a whole: from the flags and the lines of the topology file to the
  report on standard output. The progress lines on standard error, which also show real time,
  are left out. The samples that \<open>RNG\<close> gives for each link are \<open>draws\<close>.
\<close>

record newsimFlags =
  flag_b :: int
  flag_txgen :: float64
  flag_txsize :: int
  flag_dur :: duration
  flag_w :: duration
  flag_c :: float64
  flag_s :: int
  flag_a :: string
  flag_flood :: bool

text \<open>The defaults of the flags.\<close>

definition defaultFlags :: newsimFlags where
  "defaultFlags =
     \<lparr>flag_b = 1, flag_txgen = Fin 5, flag_txsize = 256, flag_dur = 100 * 1000000000, flag_w = 20 * 1000000000,
      flag_c = rnd (1 / 10), flag_s = 64, flag_a = ''coding'', flag_flood = False\<rparr>"

definition newsimServerConfig :: "newsimFlags \<Rightarrow> serverConfig" where
  "newsimServerConfig fl =
     \<lparr>blockArrivalIntv = f_div (f_div (flag_txgen fl) (f_of_int (flag_b fl))) (Fin 1000000000),
      blockArrivalBurst = flag_b fl, initialFlood = flag_flood fl\<rparr>"

definition newsimSenderConfig :: "newsimFlags \<Rightarrow> senderConfig" where
  "newsimSenderConfig fl = \<lparr>controlOverhead = flag_c fl, numShards = flag_s fl\<rparr>"

text \<open>The loop over the links: another algorithm than the two connects nothing.\<close>

fun connectTopology ::
  "string \<Rightarrow> senderConfig \<Rightarrow> (nat \<Rightarrow> u64 \<times> int list) \<Rightarrow> nat \<Rightarrow> topoLink list \<Rightarrow> server list \<Rightarrow> server list result" where
  "connectTopology alg cfg draws k [] ss = Inr ss"
| "connectTopology alg cfg draws k (c # conns) ss =
     (if alg = ''coding'' \<or> alg = ''pull''
      then if link_a c < 0 \<or> link_b c < 0 \<or> link_a c \<ge> int (length ss) \<or> link_b c \<ge> int (length ss)
           then Inl IndexOutOfRange
           else let a = nat (link_a c); b = nat (link_b c) in
             if alg = ''pull'' then connectTopology alg cfg draws k conns (connectPullServers a b (link_delay c) ss)
             else if numShards cfg < 0 then Inl (Panic ''makeslice: len out of range'')
             else connectTopology alg cfg draws (Suc k) conns
                    (connectCodingServers (fst (draws k)) (snd (draws k)) a b (link_delay c) cfg ss)
      else connectTopology alg cfg draws k conns ss)"

record newsimReport =
  rep_nodes :: int
  rep_peers :: nat
  rep_moments :: "(string \<times> float64 list) list"

text \<open>The six metrics, in the order in which they are printed.\<close>

definition latencyQuantile :: "statFns \<Rightarrow> rat \<Rightarrow> server \<Rightarrow> float64 result" where
  "latencyQuantile F q s =
     (case latencySketch s of None \<Rightarrow> Inl NilDereference
        | Some sk \<Rightarrow> bindR (getQuantiles F (recorded sk) [rnd q]) (\<lambda>res. get res 0))"

definition newsimMetrics :: "statFns \<Rightarrow> int \<Rightarrow> duration \<Rightarrow> duration \<Rightarrow> (string \<times> (server \<Rightarrow> float64 result)) list" where
  "newsimMetrics F TXSIZE now warm =
     [(''# received transaction rate'', \<lambda>s. Inr (f_div (f_of_int (receivedTransactions (metric s))) (seconds (now - warm)))),
      (''# duplicate transaction rate'', \<lambda>s. Inr (f_div (f_of_int (duplicateTransactions (metric s))) (seconds (now - warm)))),
      (''# overhead'', \<lambda>s. Inr (f_div (f_div (f_of_int (receivedBytes (metric s)))
          (f_of_int (decodedTransactions (metric s)))) (f_of_int TXSIZE))),
      (''# latency p5'', latencyQuantile F (5 / 100)),
      (''# latency p50'', latencyQuantile F (50 / 100)),
      (''# latency p95'', latencyQuantile F (95 / 100))]"

definition newsimMain ::
  "environment \<Rightarrow> statFns \<Rightarrow> (nat \<Rightarrow> u64 \<times> int list) \<Rightarrow> newsimFlags \<Rightarrow> string list \<Rightarrow> newsimReport run" where
  "newsimMain env F draws fl file =
     (let env = env\<lparr>env_TXSIZE := flag_txsize fl\<rparr> in
      bindO (Some (loadTopology file)) (\<lambda>(topo, N).
      bindO (Some (newServers env (newsimServerConfig fl) (nat N) 0 emptySimulator [])) (\<lambda>(s, ss).
      let ss = map (\<lambda>s. s\<lparr>latencySketch := Some \<lparr>warmup = flag_w fl, recorded = []\<rparr>\<rparr>) ss in
      bindO (Some (connectTopology (flag_a fl) (newsimSenderConfig fl) draws 0 topo ss)) (\<lambda>ss.
      bindO (Some (get ss 0)) (\<lambda>s0.
      bindO (mainLoop env (flag_dur fl) (flag_w fl) 0 False s \<lparr>servers = ss, txgen = \<lparr>last_of = 0\<rparr>\<rparr>) (\<lambda>(s, w).
      bindO (Some (eachR (\<lambda>(caption, metric) rows. bindR (collectMoments F (servers w) metric) (\<lambda>m. Inr (rows @ [(caption, m)])))
               (newsimMetrics F (flag_txsize fl) (Time s) (flag_w fl)) [])) (\<lambda>rows.
      Some (Inr \<lparr>rep_nodes = N, rep_peers = card (dom (handlers s0)), rep_moments = rows\<rparr>))))))))"

end
