(* ===== verification/Newsim_Network.thy ===== *)
theory Newsim_Network
  imports Newsim_Program
begin

text \<open>
  The network that \<open>newsim/main.go\<close> builds from a topology: when it is built at all, and that the
  handlers of two servers for each other fit together, for both algorithms.
\<close>

section \<open>Networks\<close>

definition joined :: "topoLink list \<Rightarrow> serverId \<Rightarrow> serverId \<Rightarrow> bool" where
  "joined topo i j \<longleftrightarrow>
     (\<exists>c\<in>set topo. (link_a c = int i \<and> link_b c = int j) \<or> (link_a c = int j \<and> link_b c = int i))"

text \<open>The two ends of a coding link: a sender in its initial state, and a receiver with the same randomizer.\<close>

definition coding_ends :: "senderConfig \<Rightarrow> algo \<Rightarrow> algo \<Rightarrow> bool" where
  "coding_ends cfg x y \<longleftrightarrow>
     (\<exists>s r. x = CodingAlgo \<lparr>csender = Some s, creceiver = None\<rparr> \<and> y = CodingAlgo \<lparr>csender = None, creceiver = Some r\<rparr> \<and>
        sconfig s = cfg \<and> sRandomizer s = rRandomizer r \<and>
        sbuffer s = [] \<and> soutbox s = [] \<and> inFlight s = 0 \<and> \<not> encodingCurrentBlock s \<and>
        rbuffer r = [] \<and> routbox r = [] \<and> rdecoder r = emptyDecoder)"

definition paired :: "string \<Rightarrow> senderConfig \<Rightarrow> peer \<Rightarrow> peer \<Rightarrow> bool" where
  "paired alg cfg p q \<longleftrightarrow> pdelay p = pdelay q \<and>
     (if alg = ''pull''
      then algorithm p = PullAlgo \<lparr>known = Map.empty, poutbox = []\<rparr> \<and> algorithm q = PullAlgo \<lparr>known = Map.empty, poutbox = []\<rparr>
      else coding_ends cfg (algorithm p) (algorithm q) \<or> coding_ends cfg (algorithm q) (algorithm p))"

text \<open>The handlers are those of a set of links, and fit together.\<close>

definition network :: "string \<Rightarrow> senderConfig \<Rightarrow> (serverId \<Rightarrow> serverId \<Rightarrow> bool) \<Rightarrow> server list \<Rightarrow> bool" where
  "network alg cfg E ss \<longleftrightarrow>
     (\<forall>i<length ss. (\<forall>j. handlers (ss ! i) j \<noteq> None \<longleftrightarrow> E i j) \<and> set (peers (ss ! i)) = dom (handlers (ss ! i))) \<and>
     (\<forall>i<length ss. \<forall>j<length ss. \<forall>p q. i \<noteq> j \<longrightarrow> handlers (ss ! i) j = Some p \<longrightarrow> handlers (ss ! j) i = Some q \<longrightarrow>
        paired alg cfg p q)"

section \<open>A link\<close>

text \<open>What a link does, for either algorithm: an entry on each side.\<close>

definition connectBoth :: "algo \<Rightarrow> algo \<Rightarrow> serverId \<Rightarrow> serverId \<Rightarrow> duration \<Rightarrow> server list \<Rightarrow> server list" where
  "connectBoth x y a b d ss = (let ss = ss[a := addPeer b x d (ss ! a)] in ss[b := addPeer a y d (ss ! b)])"

lemma length_connectBoth [simp]: "length (connectBoth x y a b d ss) = length ss"
  by (simp add: connectBoth_def Let_def)

lemma handlers_connectBoth:
  assumes "a < length ss" "b < length ss" "a \<noteq> b" "i < length ss"
  shows "handlers (connectBoth x y a b d ss ! i) =
      (if i = a then (handlers (ss ! a))(b \<mapsto> \<lparr>algorithm = x, pdelay = d\<rparr>)
       else if i = b then (handlers (ss ! b))(a \<mapsto> \<lparr>algorithm = y, pdelay = d\<rparr>) else handlers (ss ! i))"
    "set (peers (connectBoth x y a b d ss ! i)) =
      set (peers (ss ! i)) \<union> (if i = a then {b} else if i = b then {a} else {})"
  using assms by (auto simp: connectBoth_def addPeer_def nth_list_update)

lemma handlers_connectSelf:
  assumes "a < length ss" "i < length ss"
  shows "handlers (connectBoth x y a a d ss ! i) =
      (if i = a then (handlers (ss ! a))(a \<mapsto> \<lparr>algorithm = y, pdelay = d\<rparr>) else handlers (ss ! i))"
    "set (peers (connectBoth x y a a d ss ! i)) = set (peers (ss ! i)) \<union> (if i = a then {a} else {})"
  using assms by (auto simp: connectBoth_def addPeer_def nth_list_update)

lemma network_connectBoth:
  assumes net: "network alg cfg E ss" and ab: "a < length ss" "b < length ss"
    and fit: "paired alg cfg \<lparr>algorithm = x, pdelay = d\<rparr> \<lparr>algorithm = y, pdelay = d\<rparr>"
      "paired alg cfg \<lparr>algorithm = y, pdelay = d\<rparr> \<lparr>algorithm = x, pdelay = d\<rparr>"
  shows "network alg cfg (\<lambda>i j. E i j \<or> (i = a \<and> j = b) \<or> (i = b \<and> j = a)) (connectBoth x y a b d ss)"
proof (cases "a = b")
  case True
  then show ?thesis using net ab unfolding network_def
    by (auto simp: handlers_connectSelf)
next
  case False
  have "paired alg cfg p q"
    if ij: "i < length ss" "j < length ss" "i \<noteq> j"
      and p: "handlers (connectBoth x y a b d ss ! i) j = Some p" "handlers (connectBoth x y a b d ss ! j) i = Some q" for i j p q
    using p net ij fit False unfolding handlers_connectBoth(1) [OF ab False ij(1)] handlers_connectBoth(1) [OF ab False ij(2)]
    by (auto simp: network_def split: if_splits)
  then show ?thesis using net ab False unfolding network_def
    by (auto simp: handlers_connectBoth split: if_splits)
qed

lemma pull_is_both:
  "connectPullServers a b d ss =
     connectBoth (PullAlgo \<lparr>known = Map.empty, poutbox = []\<rparr>) (PullAlgo \<lparr>known = Map.empty, poutbox = []\<rparr>) a b d ss"
  by (simp add: connectPullServers_def connectBoth_def Let_def)

lemma coding_is_both:
  "\<exists>x y. connectCodingServers r perm a b d cfg ss = connectBoth x y a b d ss \<and> coding_ends cfg x y"
  unfolding connectCodingServers_def connectBoth_def Let_def coding_ends_def by (rule exI, rule exI, rule conjI, rule refl) simp

section \<open>All links\<close>

definition in_range :: "nat \<Rightarrow> topoLink \<Rightarrow> bool" where
  "in_range n c \<longleftrightarrow> 0 \<le> link_a c \<and> 0 \<le> link_b c \<and> link_a c < int n \<and> link_b c < int n"

lemma connectTopology_step:
  assumes "alg \<in> {''coding'', ''pull''}" "in_range (length ss) c" "alg = ''coding'' \<longrightarrow> 0 \<le> numShards cfg"
  shows "\<exists>k' x y. connectTopology alg cfg draws k (c # topo) ss =
      connectTopology alg cfg draws k' topo (connectBoth x y (nat (link_a c)) (nat (link_b c)) (link_delay c) ss) \<and>
    paired alg cfg \<lparr>algorithm = x, pdelay = link_delay c\<rparr> \<lparr>algorithm = y, pdelay = link_delay c\<rparr> \<and>
    paired alg cfg \<lparr>algorithm = y, pdelay = link_delay c\<rparr> \<lparr>algorithm = x, pdelay = link_delay c\<rparr>"
proof (cases "alg = ''pull''")
  case True
  then show ?thesis using assms(2) by (auto simp: in_range_def pull_is_both paired_def Let_def)
next
  case False
  obtain x y where "connectCodingServers (fst (draws k)) (snd (draws k)) (nat (link_a c)) (nat (link_b c)) (link_delay c) cfg ss
      = connectBoth x y (nat (link_a c)) (nat (link_b c)) (link_delay c) ss" "coding_ends cfg x y"
    using coding_is_both by blast
  then show ?thesis using assms False by (auto simp: in_range_def paired_def Let_def)
qed

lemma connectTopology_network:
  assumes "alg \<in> {''coding'', ''pull''}" "network alg cfg E ss" "\<forall>c\<in>set topo. in_range (length ss) c"
    and "alg = ''coding'' \<longrightarrow> topo = [] \<or> 0 \<le> numShards cfg"
  shows "\<exists>ss'. connectTopology alg cfg draws k topo ss = Inr ss' \<and> length ss' = length ss \<and>
    network alg cfg (\<lambda>i j. E i j \<or> joined topo i j) ss'"
  using assms(2-)
proof (induction topo arbitrary: ss E k)
  case Nil
  then show ?case by (simp add: joined_def)
next
  case (Cons c topo)
  let ?a = "nat (link_a c)" and ?b = "nat (link_b c)"
  have c: "in_range (length ss) c" "?a < length ss" "?b < length ss" using Cons.prems(2) by (auto simp: in_range_def)
  obtain k' x y where step: "connectTopology alg cfg draws k (c # topo) ss = connectTopology alg cfg draws k' topo (connectBoth x y ?a ?b (link_delay c) ss)"
    and fit: "paired alg cfg \<lparr>algorithm = x, pdelay = link_delay c\<rparr> \<lparr>algorithm = y, pdelay = link_delay c\<rparr>"
      "paired alg cfg \<lparr>algorithm = y, pdelay = link_delay c\<rparr> \<lparr>algorithm = x, pdelay = link_delay c\<rparr>"
    using connectTopology_step [OF assms(1) c(1)] Cons.prems(3) by blast
  let ?E = "\<lambda>i j. E i j \<or> (i = ?a \<and> j = ?b) \<or> (i = ?b \<and> j = ?a)"
  have "network alg cfg ?E (connectBoth x y ?a ?b (link_delay c) ss)"
    by (rule network_connectBoth [OF Cons.prems(1) c(2,3) fit])
  from Cons.IH [OF this] obtain ss' where ss': "connectTopology alg cfg draws k' topo (connectBoth x y ?a ?b (link_delay c) ss) = Inr ss'"
    "length ss' = length ss" "network alg cfg (\<lambda>i j. ?E i j \<or> joined topo i j) ss'"
    using Cons.prems(2,3) by auto
  moreover have "(\<lambda>i j. ?E i j \<or> joined topo i j) = (\<lambda>i j. E i j \<or> joined (c # topo) i j)"
    using c(1) by (auto simp: joined_def in_range_def fun_eq_iff)
  ultimately show ?case using step by auto
qed

lemma connectTopology_fails:
  assumes "alg \<in> {''coding'', ''pull''}" "\<exists>c\<in>set topo. \<not> in_range (length ss) c"
    and "alg = ''coding'' \<longrightarrow> 0 \<le> numShards cfg"
  shows "connectTopology alg cfg draws k topo ss = Inl IndexOutOfRange"
  using assms(2)
proof (induction topo arbitrary: ss k)
  case (Cons c topo)
  show ?case
  proof (cases "in_range (length ss) c")
    case True
    then obtain k' x y where "connectTopology alg cfg draws k (c # topo) ss = connectTopology alg cfg draws k' topo
        (connectBoth x y (nat (link_a c)) (nat (link_b c)) (link_delay c) ss)"
      using connectTopology_step [OF assms(1) _ assms(3)] by blast
    then show ?thesis using Cons True by auto
  next
    case False
    then show ?thesis using assms(1) by (auto simp: in_range_def)
  qed
qed simp

section \<open>The network of a file\<close>

lemma newServers_fresh:
  "newServers env cfg n i sim res = Inr (sim', ss) \<Longrightarrow> \<forall>s\<in>set res. handlers s = Map.empty \<and> peers s = [] \<Longrightarrow>
   length ss = length res + n \<and> (\<forall>s\<in>set ss. handlers s = Map.empty \<and> peers s = [])"
proof (induction n arbitrary: i sim res)
  case (Suc n)
  obtain s intv where s: "nextArrival env i (freshServer cfg) = Inr (s, intv)"
    using Suc.prems(1) by (auto simp: bindR_Inr_iff)
  then have fresh: "handlers s = Map.empty \<and> peers s = []"
    by (auto simp: nextArrival_def Let_def bindR_Inr_iff freshServer_def)
  have "newServers env cfg n (Suc i) (ScheduleMessage sim
      \<lparr>Payload = BlockArrival (blockArrivalBurst cfg), To = None, Delay = intv\<rparr> (Some i)) (res @ [s]) = Inr (sim', ss)"
    using Suc.prems(1) s by simp
  moreover have "\<forall>s\<in>set (res @ [s]). handlers s = Map.empty \<and> peers s = []"
    unfolding set_append list.set using Suc.prems(2) fresh by blast
  ultimately have "length ss = length (res @ [s]) + n \<and> (\<forall>s\<in>set ss. handlers s = Map.empty \<and> peers s = [])"
    by (rule Suc.IH)
  then show ?case unfolding length_append list.size by linarith
qed simp

lemma network_of_file:
  assumes "loadTopology file = Inr (topo, N)" "newServers env scfg (nat N) 0 emptySimulator [] = Inr (sim, ss)"
    and "alg \<in> {''coding'', ''pull''}" "alg = ''coding'' \<longrightarrow> 0 \<le> numShards cfg"
    and "ss0 = map (\<lambda>s. s\<lparr>latencySketch := Some \<lparr>warmup = warm, recorded = []\<rparr>\<rparr>) ss"
  shows "if \<exists>c\<in>set topo. link_a c < 0 \<or> link_b c < 0
    then connectTopology alg cfg draws k topo ss0 = Inl IndexOutOfRange
    else \<exists>ss'. connectTopology alg cfg draws k topo ss0 = Inr ss' \<and> length ss' = nat N \<and> network alg cfg (joined topo) ss'"
proof -
  note top = loadTopology_bounds [OF assms(1)]
  have fresh: "length ss = nat N" "\<forall>s\<in>set ss. handlers s = Map.empty \<and> peers s = []"
    using newServers_fresh [OF assms(2)] by simp_all
  then have n: "length ss0 = nat N" and net: "network alg cfg (\<lambda>_ _. False) ss0"
    unfolding assms(5) by (auto simp: network_def)
  have range: "in_range (length ss0) c = (0 \<le> link_a c \<and> 0 \<le> link_b c)" if "c \<in> set topo" for c
    using that top(1,2) n by (auto simp: in_range_def)
  show ?thesis
  proof (cases "\<exists>c\<in>set topo. link_a c < 0 \<or> link_b c < 0")
    case True
    then have "\<exists>c\<in>set topo. \<not> in_range (length ss0) c" using range by fastforce
    then show ?thesis using True connectTopology_fails [OF assms(3) _ assms(4)] by simp
  next
    case False
    then have "\<forall>c\<in>set topo. in_range (length ss0) c" using range by fastforce
    then show ?thesis using False connectTopology_network [OF assms(3) net] assms(4) n by auto
  qed
qed

end
