(* ===== verification/Newsim_Program_Runs.thy ===== *)
theory Newsim_Program_Runs
  imports Newsim_Program Newsim_Contract
begin

text \<open>
  The program of \<open>newsim/main.go\<close> with the pull protocol: from any topology file that loads, it
  runs to its report.
\<close>

section \<open>The loop\<close>

lemma delay_of_metric [simp]: "delay_of (s\<lparr>metric := m\<rparr>) = delay_of s"
  by (simp add: delay_of_def fun_eq_iff)

lemma pull_network_reset:
  assumes "pull_network env E n l b w"
  shows "pull_network env E n l b (w\<lparr>servers := map (\<lambda>s. s\<lparr>metric := resetMetric (metric s)\<rparr>) (servers w)\<rparr>)"
  using assms by (auto simp: pull_network_def world_delays_def server_delays_def pull_node_def)

lemma in_reach_mono: "in_reach b t s \<Longrightarrow> t \<le> t' \<Longrightarrow> in_reach b t' s"
  by (fastforce simp: in_reach_def)

lemma mainLoop_returns:
  fixes cur :: duration
  assumes range: "sint simDuration + 1000000000 + 2 * b < 2 ^ 63" and b: "0 \<le> b"
  shows "sim_ok s \<Longrightarrow> pull_network env E n (int (Suc l)) b w \<Longrightarrow> in_reach b (sint cur) s \<Longrightarrow> msgs_ok (pull_mok E n) s \<Longrightarrow>
    0 \<le> sint cur \<Longrightarrow>
    \<exists>s' w'. mainLoop env simDuration warm cur warmed s w = Some (Inr (s', w')) \<and> pull_network env E n (int (Suc l)) b w'"
proof (induction "nat (sint simDuration - sint cur)" arbitrary: cur warmed s w rule: less_induct)
  case less
  show ?case
  proof (cases "sint cur < sint simDuration")
    case False
    then show ?thesis using less.prems(2) by (subst mainLoop.simps) auto
  next
    case True
    then have r: "sint cur + 2 * b < 2 ^ 63" and nw: "sint (cur + 1000000000) = sint cur + 1000000000"
      using range b less.prems(5) by (simp_all add: sint_add)
    obtain s1 w1 where run: "RunUntil (world_handle env) cur s w = Some (Inr (s1, w1))"
      using pullnet.RunUntil_returns [OF less.prems(1-4) r] by blast
    note k = pullnet.RunUntil_keeps [OF run less.prems(1-4) r]
    let ?w = "w1\<lparr>servers := map (\<lambda>s. s\<lparr>metric := resetMetric (metric s)\<rparr>) (servers w1)\<rparr>"
    have reach: "in_reach b (sint (cur + 1000000000)) s1" using k nw by (auto intro: in_reach_mono)
    have "\<exists>s' w'. mainLoop env simDuration warm (cur + 1000000000) warmed' s1 w2 = Some (Inr (s', w')) \<and>
        pull_network env E n (int (Suc l)) b w'" if "pull_network env E n (int (Suc l)) b w2" for w2 warmed'
      using less.hyps [of "cur + 1000000000" s1 w2 warmed'] that k reach nw True less.prems(5) by auto
    moreover have "pull_network env E n (int (Suc l)) b w1" "pull_network env E n (int (Suc l)) b ?w"
      using k pull_network_reset by blast+
    ultimately show ?thesis using run True by (subst mainLoop.simps) auto
  qed
qed

section \<open>The network of the file\<close>

definition linkOf :: "topoLink \<Rightarrow> connection" where
  "linkOf c = \<lparr>conn_a = nat (link_a c), conn_b = nat (link_b c), conn_delay = link_delay c\<rparr>"

lemma length_connectPull [simp]: "length (connectPullServers a b d ss) = length ss"
  by (simp add: connectPullServers_def Let_def)

lemma connectTopology_pull:
  "\<forall>c\<in>set topo. 0 \<le> link_a c \<and> 0 \<le> link_b c \<Longrightarrow>
   connectTopology ''pull'' cfg draws k topo ss = connectAllPull (map linkOf topo) ss"
proof (induction topo arbitrary: ss)
  case (Cons c topo)
  then have "0 \<le> link_a c" "0 \<le> link_b c" by simp_all
  then have "(link_a c \<ge> int (length ss)) = (nat (link_a c) \<ge> length ss)" "(link_b c \<ge> int (length ss)) = (nat (link_b c) \<ge> length ss)"
    by linarith+
  then show ?case using Cons by (auto simp: linkOf_def Let_def)
qed simp

lemma arrival_gap_TXSIZE [simp]: "arrival_gap (env\<lparr>env_TXSIZE := x\<rparr>) = arrival_gap env"
  by (simp add: arrival_gap_def fun_eq_iff)

text \<open>The hypotheses about the flags, the file and the samples of the generators.\<close>

definition pull_input :: "environment \<Rightarrow> newsimFlags \<Rightarrow> topoLink list \<Rightarrow> int \<Rightarrow> int \<Rightarrow> bool" where
  "pull_input env fl topo l b \<longleftrightarrow>
     flag_a fl = ''pull'' \<and> 0 < l \<and> 0 \<le> sint (flag_dur fl) \<and> sint (flag_dur fl) + 1000000000 + 2 * b < 2 ^ 63 \<and>
     (\<forall>c\<in>set topo. 0 \<le> link_a c \<and> 0 \<le> link_b c \<and> l \<le> sint (link_delay c) \<and> sint (link_delay c) \<le> b) \<and>
     (\<forall>m k. \<exists>i. arrival_gap env (newsimServerConfig fl) m k = Inr i \<and> l \<le> i \<and> i \<le> b)"

section \<open>The report\<close>

text \<open>The values of the six metrics for a server that recorded a latency.\<close>

definition recordedOf :: "server \<Rightarrow> float64 list" where
  "recordedOf s = recorded (the (latencySketch s))"

definition metricValues ::
  "(float64 list \<Rightarrow> float64 \<Rightarrow> float64) \<Rightarrow> int \<Rightarrow> duration \<Rightarrow> duration \<Rightarrow> (string \<times> (server \<Rightarrow> float64)) list" where
  "metricValues quant TXSIZE now warm =
     [(''# received transaction rate'', \<lambda>s. f_div (f_of_int (receivedTransactions (metric s))) (seconds (now - warm))),
      (''# duplicate transaction rate'', \<lambda>s. f_div (f_of_int (duplicateTransactions (metric s))) (seconds (now - warm))),
      (''# overhead'', \<lambda>s. f_div (f_div (f_of_int (receivedBytes (metric s)))
          (f_of_int (decodedTransactions (metric s)))) (f_of_int TXSIZE)),
      (''# latency p5'', \<lambda>s. quant (recordedOf s) (rnd (5 / 100))),
      (''# latency p50'', \<lambda>s. quant (recordedOf s) (rnd (50 / 100))),
      (''# latency p95'', \<lambda>s. quant (recordedOf s) (rnd (95 / 100)))]"

text \<open>
  What the program needs of the third-party sketch at a quantile \<open>q\<close>: it fails when it is empty
  and returns one value otherwise.
\<close>

definition sketch_quantile :: "statFns \<Rightarrow> (float64 list \<Rightarrow> float64 \<Rightarrow> float64) \<Rightarrow> rat \<Rightarrow> bool" where
  "sketch_quantile F quant q \<longleftrightarrow>
     (\<forall>xs. sketch_Quantiles F xs [rnd q] = (if xs = [] then None else Some [quant xs (rnd q)]))"

lemma latencyQuantile_value:
  assumes "sketch_quantile F quant q" "latencySketch s \<noteq> None"
  shows "latencyQuantile F q s =
    (if recordedOf s = [] then Inl (Panic ''sketch error'') else Inr (quant (recordedOf s) (rnd q)))"
  using assms by (auto simp: sketch_quantile_def latencyQuantile_def getQuantiles_def recordedOf_def get_def)

lemma report_rows:
  assumes "sketch_quantile F quant (5 / 100)" "sketch_quantile F quant (50 / 100)" "sketch_quantile F quant (95 / 100)"
    and "\<And>s. s \<in> set ss \<Longrightarrow> latencySketch s \<noteq> None"
  shows "eachR (\<lambda>(caption, metric) rows. bindR (collectMoments F ss metric) (\<lambda>m. Inr (rows @ [(caption, m)])))
           (newsimMetrics F TX now warm) [] =
    (if \<exists>s\<in>set ss. recordedOf s = [] then Inl (Panic ''sketch error'')
     else Inr (map (\<lambda>(caption, f). (caption, momentsOf F (map f ss))) (metricValues quant TX now warm)))"
proof -
  have lat: "collectMoments F ss (latencyQuantile F q) =
      (if \<exists>s\<in>set ss. recordedOf s = [] then Inl (Panic ''sketch error'')
       else Inr (momentsOf F (map (\<lambda>s. quant (recordedOf s) (rnd q)) ss)))" if "sketch_quantile F quant q" for q
  proof (cases "\<exists>s\<in>set ss. recordedOf s = []")
    case True
    then show ?thesis
      using collectMoments_fails [of ss "latencyQuantile F q" "\<lambda>s. recordedOf s = []"] latencyQuantile_value [OF that] assms(4)
      by simp
  next
    case False
    then show ?thesis
      using collectMoments_values [of ss "latencyQuantile F q"] latencyQuantile_value [OF that] assms(4) by simp
  qed
  have val: "collectMoments F ss (\<lambda>s. Inr (f s)) = Inr (momentsOf F (map f ss))" for f :: "server \<Rightarrow> float64"
    by (rule collectMoments_values) simp
  show ?thesis by (simp add: newsimMetrics_def metricValues_def lat val assms(1-3) [simplified])
qed

section \<open>The program\<close>

lemma newsimMain_pull:
  assumes "loadTopology file = Inr (topo, N)" and input: "pull_input env fl topo l b"
    and "sketch_quantile F quant (5 / 100)" "sketch_quantile F quant (50 / 100)" "sketch_quantile F quant (95 / 100)"
  shows "\<exists>sim w0 s w. setupPull (env\<lparr>env_TXSIZE := flag_txsize fl\<rparr>) (newsimServerConfig fl) (flag_w fl) (map linkOf topo) (nat N) = Inr (sim, w0) \<and>
    mainLoop (env\<lparr>env_TXSIZE := flag_txsize fl\<rparr>) (flag_dur fl) (flag_w fl) 0 False sim w0 = Some (Inr (s, w)) \<and>
    length (servers w) = nat N \<and>
    newsimMain env F draws fl file = Some (
      if \<exists>x\<in>set (servers w). recordedOf x = [] then Inl (Panic ''sketch error'')
      else Inr \<lparr>rep_nodes = N, rep_peers = card (dom (handlers (servers w0 ! 0))), rep_moments =
             map (\<lambda>(caption, f). (caption, momentsOf F (map f (servers w))))
               (metricValues quant (flag_txsize fl) (Time s) (flag_w fl))\<rparr>)"
proof -
  let ?env = "env\<lparr>env_TXSIZE := flag_txsize fl\<rparr>" and ?cfg = "newsimServerConfig fl" and ?topo = "map linkOf topo"
  note top = loadTopology_bounds [OF assms(1)]
  obtain l' where l: "l = int (Suc l')"
    using input unfolding pull_input_def by (metis gr0_implies_Suc zero_less_imp_eq_int)
  have timely: "timely ?env ?cfg l b ?topo" using input by (auto simp: timely_def pull_input_def linkOf_def)
  have ends: "\<forall>c\<in>set ?topo. conn_a c < nat N \<and> conn_b c < nat N"
    using top(1,2) input by (auto simp: linkOf_def pull_input_def)
  obtain i where "l \<le> i" "i \<le> b" using input unfolding pull_input_def by metis
  then have b: "0 \<le> b" "b < 2 ^ 63" "0 < l" using input unfolding pull_input_def by auto
  obtain sim w where w: "setupPull ?env ?cfg (flag_w fl) ?topo (nat N) = Inr (sim, w)" "start_queue b (nat N) sim"
    "pull_network ?env (links_of ?topo) (nat N) (int (Suc l')) b w"
    using setupPull_network [OF timely b(3,2) ends] l by metis
  obtain ss ss' where ss: "newServers ?env ?cfg (nat N) 0 emptySimulator [] = Inr (sim, ss)"
    "connectAllPull ?topo (map (\<lambda>s. s\<lparr>latencySketch := Some \<lparr>warmup = flag_w fl, recorded = []\<rparr>\<rparr>) ss) = Inr ss'"
    "w = \<lparr>servers = ss', txgen = \<lparr>last_of = 0\<rparr>\<rparr>"
    using w(1) by (auto simp: setupPull_def Let_def bindR_Inr_iff)
  have conn: "connectTopology (flag_a fl) (newsimSenderConfig fl) draws 0 topo
      (map (\<lambda>s. s\<lparr>latencySketch := Some \<lparr>warmup = flag_w fl, recorded = []\<rparr>\<rparr>) ss) = Inr ss'"
    using connectTopology_pull [of topo] ss(2) input by (auto simp: pull_input_def)
  have start: "sim_ok sim" "in_reach b (sint (0 :: duration)) sim" "msgs_ok (pull_mok (links_of ?topo) (nat N)) sim"
    using w(2) b(1) by (fastforce simp: start_queue_def in_reach_def msgs_ok_def pull_mok_def)+
  obtain s1 w1 where run: "mainLoop ?env (flag_dur fl) (flag_w fl) 0 False sim w = Some (Inr (s1, w1))"
    "pull_network ?env (links_of ?topo) (nat N) (int (Suc l')) b w1"
    using mainLoop_returns [OF _ b(1) start(1) w(3) start(2,3)] input by (fastforce simp: pull_input_def)
  have len: "length (servers w1) = nat N" "length ss' = nat N" using run(2) w(3) ss(3) by (simp_all add: pull_network_def)
  have sk: "latencySketch x \<noteq> None" if "x \<in> set (servers w1)" for x
    using that run(2) by (auto simp: pull_network_def pull_node_def in_set_conv_nth)
  have s0: "get ss' 0 = Inr (ss' ! 0)" using len(2) top(2) by (simp add: get_def)
  note rows = report_rows [OF assms(3-5) sk, where TX = "flag_txsize fl" and now = "Time s1" and warm = "flag_w fl"]
  have "newsimMain env F draws fl file = Some (
      if \<exists>x\<in>set (servers w1). recordedOf x = [] then Inl (Panic ''sketch error'')
      else Inr \<lparr>rep_nodes = N, rep_peers = card (dom (handlers (servers w ! 0))), rep_moments =
             map (\<lambda>(caption, f). (caption, momentsOf F (map f (servers w1))))
               (metricValues quant (flag_txsize fl) (Time s1) (flag_w fl))\<rparr>)"
    by (simp add: newsimMain_def Let_def assms(1) ss(1) conn s0 run(1) [unfolded ss(3)] rows ss(3))
  then show ?thesis using w(1) run(1) len(1) by blast
qed

end
