(* ===== verification/Program_Properties.thy ===== *)
theory Program_Properties
  imports Newsim_Network Newsim_Program_Runs Newsim_Properties
begin

text \<open>
  The properties of the program of \<open>newsim/main.go\<close>: its topology files, the network it builds from
  one, and its runs with the pull protocol.
\<close>

section \<open>The topology\<close>

text \<open>C23: What is written is what is read: loading the lines of any links, each as \<open>a,b,d\<close> in decimal,
  gives exactly these links with their delays in milliseconds, and the least positive number
  of servers that covers their ends.\<close>

theorem topology_round_trip:
  assumes "\<forall>(a, b, d)\<in>set ls. a < 2 ^ 63 \<and> b < 2 ^ 63 \<and> d < 2 ^ 63"
  shows "\<exists>N. loadTopology (map showLink ls) = Inr (map linkFor ls, N) \<and> 1 \<le> N \<and>
    (\<forall>(a, b, d)\<in>set ls. int a < N \<and> int b < N) \<and> (N = 1 \<or> (\<exists>(a, b, d)\<in>set ls. N = int a + 1 \<or> N = int b + 1))"
  by (rule loadTopology_shown [OF assms])

lemma demo_file: "map showLink [(0, 1, 5), (12, 3, 40)] = [''0,1,5'', ''12,3,40'']"
  by code_simp

theorem topology_round_trip_witness:
  "\<exists>N. loadTopology [''0,1,5'', ''12,3,40''] =
     Inr ([\<lparr>link_a = 0, link_b = 1, link_delay = 5000000\<rparr>, \<lparr>link_a = 12, link_b = 3, link_delay = 40000000\<rparr>], N) \<and> 13 \<le> N"
  using topology_round_trip [of "[(0, 1, 5), (12, 3, 40)]"] unfolding demo_file by (auto simp: linkFor_def)

text \<open>C7: From the servers that \<open>newServers\<close> makes for a file, and the links of the file: the network
  is built exactly when no link has a negative end, which is an index out of range; then each
  server has a handler for exactly the servers it shares a link with, its list of peers names
  them, and the two handlers of a link have one delay and fit together: two empty pull states,
  or a sender on one end and a receiver with the same randomizer on the other.\<close>

theorem network_fits_together:
  assumes "loadTopology file = Inr (topo, N)" "newServers env scfg (nat N) 0 emptySimulator [] = Inr (sim, ss)"
    and "alg \<in> {''coding'', ''pull''}" "alg = ''coding'' \<longrightarrow> 0 \<le> numShards cfg"
    and "ss0 = map (\<lambda>s. s\<lparr>latencySketch := Some \<lparr>warmup = warm, recorded = []\<rparr>\<rparr>) ss"
  shows "if \<exists>c\<in>set topo. link_a c < 0 \<or> link_b c < 0
    then connectTopology alg cfg draws k topo ss0 = Inl IndexOutOfRange
    else \<exists>ss'. connectTopology alg cfg draws k topo ss0 = Inr ss' \<and> length ss' = nat N \<and> network alg cfg (joined topo) ss'"
  by (rule network_of_file [OF assms])

definition ringFile :: "string list" where
  "ringFile = [''0,1,5'', ''1,2,5'']"

definition ringLinks :: "topoLink list" where
  "ringLinks = [\<lparr>link_a = 0, link_b = 1, link_delay = 5000000\<rparr>, \<lparr>link_a = 1, link_b = 2, link_delay = 5000000\<rparr>]"

lemma ring_loads: "loadTopology ringFile = Inr (ringLinks, 3)"
  unfolding ringFile_def ringLinks_def by code_simp

lemma demo_servers: "\<exists>sim ss. newServers demoEnv demoConfig 3 0 emptySimulator [] = Inr (sim, ss)"
proof -
  have "\<forall>m k. \<exists>i. arrival_gap demoEnv demoConfig m k = Inr i \<and> 0 \<le> i \<and> i \<le> 1" by (simp add: demo_gap)
  from newServers_start [OF this, of 0 emptySimulator "[]" 3] show ?thesis
    by (simp add: start_queue_def) (auto simp: emptySimulator_def)
qed

theorem network_fits_together_witness:
  "\<exists>sim ss ss' p q. newServers demoEnv demoConfig 3 0 emptySimulator [] = Inr (sim, ss) \<and>
     connectTopology ''coding'' \<lparr>controlOverhead = Fin 0, numShards = 2\<rparr> (\<lambda>_. (9, [1, 0])) 0 ringLinks
       (map (\<lambda>s. s\<lparr>latencySketch := Some \<lparr>warmup = 3, recorded = []\<rparr>\<rparr>) ss) = Inr ss' \<and>
     handlers (ss' ! 0) 2 = None \<and> handlers (ss' ! 1) 2 = Some p \<and> handlers (ss' ! 2) 1 = Some q \<and> pdelay p = pdelay q"
proof -
  obtain sim ss where ss: "newServers demoEnv demoConfig (nat 3) 0 emptySimulator [] = Inr (sim, ss)"
    using demo_servers by auto
  obtain ss' where ss': "connectTopology ''coding'' \<lparr>controlOverhead = Fin 0, numShards = 2\<rparr> (\<lambda>_. (9, [1, 0])) 0 ringLinks
       (map (\<lambda>s. s\<lparr>latencySketch := Some \<lparr>warmup = 3, recorded = []\<rparr>\<rparr>) ss) = Inr ss'" "length ss' = 3"
    "network ''coding'' \<lparr>controlOverhead = Fin 0, numShards = 2\<rparr> (joined ringLinks) ss'"
    using network_fits_together [OF ring_loads ss, of "''coding''" "\<lparr>controlOverhead = Fin 0, numShards = 2\<rparr>" _ 3 "\<lambda>_. (9, [1, 0])" 0]
    by (auto simp: ringLinks_def)
  have "\<not> joined ringLinks 0 2" "joined ringLinks 1 2" "joined ringLinks 2 1" by (simp_all add: joined_def ringLinks_def)
  then obtain p q where "handlers (ss' ! 0) 2 = None" "handlers (ss' ! 1) 2 = Some p" "handlers (ss' ! 2) 1 = Some q"
    using ss'(2,3) unfolding network_def by fastforce
  moreover from this have "paired ''coding'' \<lparr>controlOverhead = Fin 0, numShards = 2\<rparr> p q"
    using ss'(2,3) unfolding network_def by (metis One_nat_def lessI less_Suc_eq n_not_Suc_n numeral_2_eq_2 numeral_3_eq_3)
  then have "pdelay p = pdelay q" by (simp add: paired_def)
  ultimately show ?thesis using ss ss'(1) by auto
qed

section \<open>The program\<close>

text \<open>C16: The program with the pull protocol, on any file that loads and has no negative ends, with
  delays and block arrivals between \<open>l > 0\<close> and \<open>b\<close>: it sets up the network, runs the simulation
  through all report intervals without a panic, and prints the moments of the six metrics of
  the servers, unless a server has recorded no latency since the warm-up, when asking its
  sketch for a quantile panics. Of the sketch the theorem needs that the 5, 50 and 95 per cent
  quantiles are defined exactly when it is not empty.\<close>

theorem pull_program_reports:
  assumes "loadTopology file = Inr (topo, N)" "pull_input env fl topo l b"
    and "sketch_quantile F quant (5 / 100)" "sketch_quantile F quant (50 / 100)" "sketch_quantile F quant (95 / 100)"
  shows "\<exists>sim w0 s w. setupPull (env\<lparr>env_TXSIZE := flag_txsize fl\<rparr>) (newsimServerConfig fl) (flag_w fl) (map linkOf topo) (nat N) = Inr (sim, w0) \<and>
    mainLoop (env\<lparr>env_TXSIZE := flag_txsize fl\<rparr>) (flag_dur fl) (flag_w fl) 0 False sim w0 = Some (Inr (s, w)) \<and>
    length (servers w) = nat N \<and>
    newsimMain env F draws fl file = Some (
      if \<exists>x\<in>set (servers w). recordedOf x = [] then Inl (Panic ''sketch error'')
      else Inr \<lparr>rep_nodes = N, rep_peers = card (dom (handlers (servers w0 ! 0))), rep_moments =
             map (\<lambda>(caption, f). (caption, momentsOf F (map f (servers w))))
               (metricValues quant (flag_txsize fl) (Time s) (flag_w fl))\<rparr>)"
  by (rule newsimMain_pull [OF assms])

definition demoStats :: statFns where
  "demoStats = \<lparr>smp_Mean = hd, smp_StdDev = (\<lambda>_. Fin 0), smp_Quantile = (\<lambda>xs _. hd xs),
     sketch_Quantiles = (\<lambda>xs qs. if xs = [] then None else Some (map (\<lambda>_. hd xs) qs))\<rparr>"

definition pullFlags :: newsimFlags where
  "pullFlags = defaultFlags\<lparr>flag_a := ''pull'', flag_txgen := Fin 1000000000\<rparr>"

lemma pull_demo_input:
  "pull_input demoEnv pullFlags ringLinks 1 5000000"
proof -
  have "newsimServerConfig pullFlags = demoConfig"
    by (simp add: newsimServerConfig_def pullFlags_def defaultFlags_def demoConfig_def float_eval)
  then show ?thesis by (simp add: pull_input_def demo_gap ringLinks_def) (simp add: pullFlags_def defaultFlags_def)
qed

lemma demo_quantiles: "sketch_quantile demoStats (\<lambda>xs _. hd xs) q"
  by (simp add: sketch_quantile_def demoStats_def)

theorem pull_program_reports_witness:
  "\<exists>r. newsimMain demoEnv demoStats (\<lambda>_. (9, [])) pullFlags ringFile = Some r \<and>
     (r = Inl (Panic ''sketch error'') \<or> (\<exists>rep. r = Inr rep \<and> rep_nodes rep = 3 \<and> length (rep_moments rep) = 6))"
proof -
  obtain s :: "(payload, serverId) Simulator" and w w0 :: world where "newsimMain demoEnv demoStats (\<lambda>_. (9, [])) pullFlags ringFile = Some (
      if \<exists>x\<in>set (servers w). recordedOf x = [] then Inl (Panic ''sketch error'')
      else Inr \<lparr>rep_nodes = 3, rep_peers = card (dom (handlers (servers w0 ! 0))), rep_moments =
             map (\<lambda>(caption, f). (caption, momentsOf demoStats (map f (servers w))))
               (metricValues (\<lambda>xs _. hd xs) (flag_txsize pullFlags) (Time s) (flag_w pullFlags))\<rparr>)"
    using pull_program_reports [OF ring_loads pull_demo_input demo_quantiles demo_quantiles demo_quantiles, of "\<lambda>_. (9, [])"] by blast
  then show ?thesis by (cases "\<exists>x\<in>set (servers w). recordedOf x = []") (auto simp: metricValues_def)
qed

end
