(* ===== verification/Lt_Encoder.thy ===== *)
theory Lt_Encoder
  imports Prelude
begin

text \<open>
  \<open>lt/transaction.go\<close> and \<open>lt/encoder.go\<close>: transactions, and the encoder that mixes a window of
  them into codewords. The type parameter \<open>T TransactionData[T]\<close> is a dictionary of its
  methods and its zero value; its values are compared with \<open>=\<close> (Go's \<open>comparable\<close>). The hasher
  (a third-party \<open>siphash\<close> with the salt as its key) is a function from the written bytes to
  \<open>Sum64\<close>. The degree distribution and \<open>*rand.Rand\<close> are the sequences of samples they will
  still give: \<open>Uint64\<close> and, for each bound, \<open>Intn\<close>.
\<close>

section \<open>Transactions\<close>

record 'd dataOps =
  data_XOR :: "'d \<Rightarrow> 'd \<Rightarrow> 'd"
  data_Hash :: "'d \<Rightarrow> u8 list"
  data_zero :: 'd

record 'd ltTransaction =
  data :: 'd
  hash :: "u8 list"

definition NewTransaction :: "'d dataOps \<Rightarrow> 'd \<Rightarrow> 'd ltTransaction" where
  "NewTransaction T d = (let d' = data_XOR T (data_zero T) d in \<lparr>data = d', hash = data_Hash T d'\<rparr>)"

text \<open>The zero value of the struct.\<close>

definition zeroTx :: "'d dataOps \<Rightarrow> 'd ltTransaction" where
  "zeroTx T = \<lparr>data = data_zero T, hash = []\<rparr>"

record 'd saltedTransaction =
  saltedHash :: u32
  tx_of :: "'d ltTransaction"

record 'd ltCodeword =
  cw_symbol :: 'd
  cw_members :: "u32 list"

type_synonym hash64 = "u8 list \<Rightarrow> u64"

text \<open>\<open>(uint32)(hasher.Sum64())\<close> after the hasher was reset and the hash written.\<close>

definition salted :: "hash64 \<Rightarrow> u8 list \<Rightarrow> u32" where
  "salted h bs = ucast (h bs)"

section \<open>The encoder\<close>

record 'd ltEncoder =
  rng :: "nat \<Rightarrow> nat \<Rightarrow> int"
  window :: "'d saltedTransaction list"
  hasher :: hash64
  degreeDist :: "nat \<Rightarrow> u64"
  hashes :: "u32 set"
  windowSize :: int
  shuffleHistory :: "nat list"

definition lt_NewEncoder ::
  "(nat \<Rightarrow> nat \<Rightarrow> int) \<Rightarrow> hash64 \<Rightarrow> (nat \<Rightarrow> u64) \<Rightarrow> int \<Rightarrow> 'd ltEncoder" where
  "lt_NewEncoder rand siphash dist ws =
     \<lparr>rng = rand, window = [], hasher = siphash, degreeDist = dist, hashes = {}, windowSize = ws,
      shuffleHistory = []\<rparr>"

definition lt_Reset :: "'d ltEncoder \<Rightarrow> (nat \<Rightarrow> u64) \<Rightarrow> int \<Rightarrow> 'd ltEncoder" where
  "lt_Reset e dist ws = e\<lparr>degreeDist := dist, window := [], windowSize := ws, hashes := {}\<rparr>"

text \<open>The loop that drops the oldest entries of a window that is too long.\<close>

fun trimWindow ::
  "int \<Rightarrow> 'd saltedTransaction list \<Rightarrow> u32 set \<Rightarrow> ('d saltedTransaction list \<times> u32 set) result" where
  "trimWindow ws [] hs = (if 0 > ws then Inl IndexOutOfRange else Inr ([], hs))"
| "trimWindow ws (x # xs) hs =
     (if int (length (x # xs)) > ws then trimWindow ws xs (hs - {saltedHash x}) else Inr (x # xs, hs))"

definition lt_AddTransaction :: "'d ltEncoder \<Rightarrow> 'd ltTransaction \<Rightarrow> ('d ltEncoder \<times> bool) result" where
  "lt_AddTransaction e t =
     (let hash = salted (hasher e) (hash t) in
      if hash \<in> hashes e then Inr (e, False)
      else
        let tx = \<lparr>saltedHash = hash, tx_of = t\<rparr> in
        bindR (trimWindow (windowSize e) (window e @ [tx]) (insert hash (hashes e))) (\<lambda>(w, hs).
          Inr (e\<lparr>window := w, hashes := hs\<rparr>, True)))"

text \<open>\<open>r.Intn(n)\<close>: it panics for \<open>n \<le> 0\<close>.\<close>

definition Intn :: "'d ltEncoder \<Rightarrow> nat \<Rightarrow> ('d ltEncoder \<times> int) result" where
  "Intn e n =
     (if n = 0 then Inl (Panic ''invalid argument to Intn'')
      else Inr (e\<lparr>rng := (\<lambda>k. rng e (Suc k))\<rparr>, rng e 0 n))"

text \<open>One round of the sampling loop of \<open>produceCodeword\<close>.\<close>

definition sampleOne :: "'d dataOps \<Rightarrow> nat \<Rightarrow> 'd ltEncoder \<Rightarrow> 'd ltCodeword \<Rightarrow> ('d ltEncoder \<times> 'd ltCodeword) result" where
  "sampleOne T i e c =
     (let n = length (window e) in
      bindR (Intn e (n - i)) (\<lambda>(e, x).
        let r = x + int i in
        if r < 0 \<or> r \<ge> int n \<or> i \<ge> n then Inl IndexOutOfRange
        else
          let e = e\<lparr>shuffleHistory := shuffleHistory e @ [nat r], window := swap (window e) i (nat r)\<rparr>
          in Inr (e, c\<lparr>cw_symbol := data_XOR T (cw_symbol c) (data (tx_of (window e ! i))),
                       cw_members := (cw_members c)[i := saltedHash (window e ! i)]\<rparr>)))"

fun sampleLoop ::
  "'d dataOps \<Rightarrow> nat \<Rightarrow> nat \<Rightarrow> 'd ltEncoder \<Rightarrow> 'd ltCodeword \<Rightarrow> ('d ltEncoder \<times> 'd ltCodeword) result" where
  "sampleLoop T i 0 e c = Inr (e, c)"
| "sampleLoop T i (Suc k) e c = bindR (sampleOne T i e c) (\<lambda>(e, c). sampleLoop T (i + 1) k e c)"

text \<open>The loop that reverts the shuffling, from position \<open>k - 1\<close> down to 0.\<close>

fun revertLoop :: "nat list \<Rightarrow> nat \<Rightarrow> 'a list \<Rightarrow> 'a list result" where
  "revertLoop history 0 w = Inr w"
| "revertLoop history (Suc i) w =
     bindR (get history i) (\<lambda>r.
       if i < length w \<and> r < length w then revertLoop history i (swap w i r) else Inl IndexOutOfRange)"

definition produceCodeword :: "'d dataOps \<Rightarrow> 'd ltEncoder \<Rightarrow> int \<Rightarrow> ('d ltEncoder \<times> 'd ltCodeword) result" where
  "produceCodeword T e deg =
     (let deg = (if deg > int (length (window e)) then int (length (window e)) else deg) in
      if deg = 0 then Inl (Panic ''trying to produce codeword with degree zero'')
      else if deg < 0 then Inl (Panic ''makeslice: len out of range'')
      else
        let c = \<lparr>cw_symbol = data_zero T, cw_members = replicate (nat deg) 0\<rparr>;
            e = e\<lparr>shuffleHistory := []\<rparr>
        in bindR (sampleLoop T 0 (nat deg) e c) (\<lambda>(e, c).
           bindR (revertLoop (shuffleHistory e) (nat deg) (window e)) (\<lambda>w.
             Inr (e\<lparr>window := w\<rparr>, c))))"

definition lt_ProduceCodeword :: "'d dataOps \<Rightarrow> 'd ltEncoder \<Rightarrow> ('d ltEncoder \<times> 'd ltCodeword) result" where
  "lt_ProduceCodeword T e =
     (let deg = sint (degreeDist e 0) in
      produceCodeword T (e\<lparr>degreeDist := (\<lambda>k. degreeDist e (Suc k))\<rparr>) deg)"

section \<open>The contract of the transaction data\<close>

locale data_laws =
  fixes T :: "'d dataOps"
  assumes zero_left: "data_XOR T (data_zero T) a = a"
    and assoc: "data_XOR T (data_XOR T a b) c = data_XOR T a (data_XOR T b c)"
    and comm: "data_XOR T a b = data_XOR T b a"
    and self: "data_XOR T a a = data_zero T"
begin

lemma zero_right [simp]: "data_XOR T a (data_zero T) = a"
  using zero_left comm by metis

lemma left_comm: "data_XOR T a (data_XOR T b c) = data_XOR T b (data_XOR T a c)"
  using assoc comm by metis

lemma cancel [simp]: "data_XOR T (data_XOR T a b) b = a"
  by (simp add: assoc self)

sublocale xors: comp_fun_commute "data_XOR T"
  by unfold_locales (auto simp: fun_eq_iff left_comm)

text \<open>The exclusive or of many: its order does not matter.\<close>

lemma xors_insert: "fold_mset (data_XOR T) z (add_mset x M) = data_XOR T x (fold_mset (data_XOR T) z M)"
  by (rule xors.fold_mset_add_mset)

end

definition xorAll :: "'d dataOps \<Rightarrow> 'd multiset \<Rightarrow> 'd" where
  "xorAll T M = fold_mset (data_XOR T) (data_zero T) M"

lemma xorAll_empty [simp]: "xorAll T {#} = data_zero T"
  by (simp add: xorAll_def)

context data_laws
begin

lemma xorAll_add [simp]: "xorAll T (add_mset x M) = data_XOR T x (xorAll T M)"
  by (simp add: xorAll_def xors_insert)

lemma xorAll_union: "xorAll T (M + N) = data_XOR T (xorAll T M) (xorAll T N)"
  by (induction M) (simp_all add: zero_left assoc)

end

section \<open>The window\<close>

definition encoder_ok :: "'d ltEncoder \<Rightarrow> bool" where
  "encoder_ok e \<longleftrightarrow>
     hashes e = saltedHash ` set (window e) \<and> distinct (map saltedHash (window e)) \<and>
     int (length (window e)) \<le> windowSize e"

lemma encoder_ok_update:
  "encoder_ok (e\<lparr>window := w, hashes := hs\<rparr>) \<longleftrightarrow>
     hs = saltedHash ` set w \<and> distinct (map saltedHash w) \<and> int (length w) \<le> windowSize e"
  by (simp add: encoder_ok_def)

lemma trimWindow_eq:
  assumes "0 \<le> ws"
  shows "trimWindow ws xs hs =
    Inr (drop (length xs - nat ws) xs, hs - saltedHash ` set (take (length xs - nat ws) xs))"
proof (induction xs arbitrary: hs)
  case (Cons x xs)
  then show ?case using assms
    by (cases "int (length (x # xs)) > ws") (auto simp: Suc_diff_le)
qed (use assms in simp)

lemma trim_ok:
  assumes "distinct (map saltedHash w)" "0 \<le> ws"
  shows "saltedHash ` set w - saltedHash ` set (take (length w - nat ws) w) = saltedHash ` set (drop (length w - nat ws) w) \<and>
    distinct (map saltedHash (drop (length w - nat ws) w)) \<and> int (length (drop (length w - nat ws) w)) \<le> ws"
proof -
  let ?d = "length w - nat ws"
  have "map saltedHash w = map saltedHash (take ?d w) @ map saltedHash (drop ?d w)"
    by (metis append_take_drop_id map_append)
  then have "set (map saltedHash (take ?d w)) \<inter> set (map saltedHash (drop ?d w)) = {}"
    "set (map saltedHash w) = set (map saltedHash (take ?d w)) \<union> set (map saltedHash (drop ?d w))"
    using assms(1) by (metis distinct_append) (metis append_take_drop_id map_append set_append)
  moreover have "distinct (map saltedHash (drop ?d w))" using assms(1) by (metis distinct_drop drop_map)
  ultimately show ?thesis using assms(2) by auto
qed

lemma lt_AddTransaction_spec:
  assumes "encoder_ok e" "h = salted (hasher e) (hash t)"
  shows "if h \<in> saltedHash ` set (window e) then lt_AddTransaction e t = Inr (e, False)
    else \<exists>e'. lt_AddTransaction e t = Inr (e', True) \<and> encoder_ok e' \<and>
      window e' = drop (Suc (length (window e)) - nat (windowSize e)) (window e @ [\<lparr>saltedHash = h, tx_of = t\<rparr>]) \<and>
      windowSize e' = windowSize e \<and> degreeDist e' = degreeDist e \<and> rng e' = rng e \<and> hasher e' = hasher e"
proof (cases "h \<in> saltedHash ` set (window e)")
  case True
  then show ?thesis using assms by (simp add: lt_AddTransaction_def encoder_ok_def)
next
  case False
  have ws: "0 \<le> windowSize e" using assms(1) by (auto simp: encoder_ok_def)
  let ?w = "window e @ [\<lparr>saltedHash = h, tx_of = t\<rparr>]" and ?d = "Suc (length (window e)) - nat (windowSize e)"
  let ?hs = "insert h (hashes e) - saltedHash ` set (take ?d ?w)"
  have run: "lt_AddTransaction e t = Inr (e\<lparr>window := drop ?d ?w, hashes := ?hs\<rparr>, True)"
    using False assms by (simp add: lt_AddTransaction_def trimWindow_eq [OF ws] encoder_ok_def Let_def)
  have dist: "distinct (map saltedHash ?w)" "insert h (hashes e) = saltedHash ` set ?w"
    using False assms(1) by (auto simp: encoder_ok_def)
  have len: "?d = length ?w - nat (windowSize e)" by simp
  have "encoder_ok (e\<lparr>window := drop ?d ?w, hashes := ?hs\<rparr>)"
    unfolding encoder_ok_update dist(2) len
    by (rule trim_ok [OF dist(1) ws])
  then show ?thesis using run False by simp
qed

section \<open>Sampling without replacement\<close>

text \<open>The exchanges of a history, from position \<open>i\<close> on.\<close>

fun shuffleBy :: "nat \<Rightarrow> nat list \<Rightarrow> 'a list \<Rightarrow> 'a list" where
  "shuffleBy i [] w = w"
| "shuffleBy i (r # rs) w = shuffleBy (Suc i) rs (swap w i r)"

lemma shuffleBy_append: "shuffleBy i (hs @ [r]) w = swap (shuffleBy i hs w) (i + length hs) r"
  by (induction hs arbitrary: i w) simp_all

lemma length_shuffleBy [simp]: "length (shuffleBy i hs w) = length w"
  by (induction hs arbitrary: i w) simp_all

lemma mset_shuffleBy:
  "i + length hs \<le> length w \<Longrightarrow> \<forall>r\<in>set hs. r < length w \<Longrightarrow> mset (shuffleBy i hs w) = mset w"
  by (induction hs arbitrary: i w) simp_all

lemma shuffleBy_below:
  "j < i \<Longrightarrow> i + length hs \<le> length w \<Longrightarrow> \<forall>k<length hs. i + k \<le> hs ! k \<and> hs ! k < length w \<Longrightarrow>
   shuffleBy i hs w ! j = w ! j"
proof (induction hs arbitrary: i w)
  case (Cons r rs)
  have r: "i \<le> r" "r < length w" using Cons.prems(3) by (force dest: spec [of _ 0])+
  have "\<forall>k<length rs. Suc i + k \<le> rs ! k \<and> rs ! k < length (swap w i r)"
    using Cons.prems(3) by (metis Suc_less_eq add_Suc add_Suc_right length_Cons length_swap nth_Cons_Suc)
  then have "shuffleBy (Suc i) rs (swap w i r) ! j = swap w i r ! j"
    using Cons.prems(1,2) by (intro Cons.IH) auto
  then show ?case using Cons.prems r by (simp add: nth_swap)
qed simp

lemma revertLoop_spec:
  assumes "\<forall>r\<in>set hs. r < length w" "length hs \<le> length w" "k \<le> length hs"
  shows "revertLoop hs k (shuffleBy 0 (take k hs) w) = Inr w"
  using assms(3)
proof (induction k)
  case (Suc k)
  then have "hs ! k < length w" using assms(1) by auto
  then show ?case
    using Suc assms(2) by (simp add: take_Suc_conv_app_nth shuffleBy_append get_def)
qed simp

text \<open>
  The contract of the samples: \<open>Intn(n)\<close> returns a value from 0 to \<open>n - 1\<close>.
\<close>

definition fair :: "(nat \<Rightarrow> nat \<Rightarrow> int) \<Rightarrow> bool" where
  "fair rand \<longleftrightarrow> (\<forall>k n. 0 < n \<longrightarrow> 0 \<le> rand k n \<and> rand k n < int n)"

text \<open>What the sampling loop leaves of the encoder apart from the window and the history.\<close>

definition sampled :: "nat list \<Rightarrow> 'd ltEncoder \<Rightarrow> 'd ltEncoder \<Rightarrow> bool" where
  "sampled hs e e' \<longleftrightarrow>
     fair (rng e') \<and> shuffleHistory e' = shuffleHistory e @ hs \<and> hasher e' = hasher e \<and>
     degreeDist e' = degreeDist e \<and> hashes e' = hashes e \<and> windowSize e' = windowSize e"

lemma sampleOne_spec:
  assumes "fair (rng e)" "i < length (window e)" "i < length (cw_members c)"
  obtains r rd where "i \<le> r" "r < length (window e)" "fair rd"
    "sampleOne T i e c = Inr (e\<lparr>rng := rd, shuffleHistory := shuffleHistory e @ [r], window := swap (window e) i r\<rparr>,
       c\<lparr>cw_symbol := data_XOR T (cw_symbol c) (data (tx_of (swap (window e) i r ! i))),
         cw_members := (cw_members c)[i := saltedHash (swap (window e) i r ! i)]\<rparr>)"
proof -
  let ?n = "length (window e)" and ?x = "rng e 0 (length (window e) - i)"
  have x: "0 \<le> ?x" "?x < int (?n - i)" using assms(1) [unfolded fair_def, rule_format, of "?n - i" 0] assms(2) by simp_all
  let ?r = "nat (?x + int i)"
  have r: "i \<le> ?r" "?r < ?n" using x assms(2) by auto
  have "fair (\<lambda>k. rng e (Suc k))" using assms(1) by (simp add: fair_def)
  moreover have "sampleOne T i e c = Inr (e\<lparr>rng := (\<lambda>k. rng e (Suc k)), shuffleHistory := shuffleHistory e @ [?r],
        window := swap (window e) i ?r\<rparr>,
       c\<lparr>cw_symbol := data_XOR T (cw_symbol c) (data (tx_of (swap (window e) i ?r ! i))),
         cw_members := (cw_members c)[i := saltedHash (swap (window e) i ?r ! i)]\<rparr>)"
    using x r assms(2) by (simp add: sampleOne_def Intn_def Let_def nat_add_distrib)
  ultimately show ?thesis using that r by blast
qed

lemma sampleLoop_spec:
  assumes "fair (rng e)" "i + k \<le> length (window e)" "i + k \<le> length (cw_members c)"
  shows "\<exists>e' c' hs. sampleLoop T i k e c = Inr (e', c') \<and> length hs = k \<and>
    (\<forall>j<k. i + j \<le> hs ! j \<and> hs ! j < length (window e)) \<and> sampled hs e e' \<and>
    window e' = shuffleBy i hs (window e) \<and>
    cw_members c' = take i (cw_members c) @ map saltedHash (take k (drop i (window e'))) @ drop (i + k) (cw_members c) \<and>
    cw_symbol c' = foldl (data_XOR T) (cw_symbol c) (map (\<lambda>x. data (tx_of x)) (take k (drop i (window e'))))"
  using assms
proof (induction k arbitrary: i e c)
  case 0
  then show ?case by (intro exI [of _ e] exI [of _ c] exI [of _ "[]"]) (auto simp: sampled_def)
next
  case (Suc k)
  obtain r rd where r: "i \<le> r" "r < length (window e)" "fair rd" and
    run: "sampleOne T i e c = Inr (e\<lparr>rng := rd, shuffleHistory := shuffleHistory e @ [r], window := swap (window e) i r\<rparr>,
       c\<lparr>cw_symbol := data_XOR T (cw_symbol c) (data (tx_of (swap (window e) i r ! i))),
         cw_members := (cw_members c)[i := saltedHash (swap (window e) i r ! i)]\<rparr>)"
    using sampleOne_spec [of e i c T] Suc.prems by auto
  define e1 where "e1 = e\<lparr>rng := rd, shuffleHistory := shuffleHistory e @ [r], window := swap (window e) i r\<rparr>"
  define c1 where "c1 = c\<lparr>cw_symbol := data_XOR T (cw_symbol c) (data (tx_of (window e1 ! i))),
         cw_members := (cw_members c)[i := saltedHash (window e1 ! i)]\<rparr>"
  have run1: "sampleOne T i e c = Inr (e1, c1)" using run by (simp add: e1_def c1_def)
  have e1: "fair (rng e1)" "length (window e1) = length (window e)" "length (cw_members c1) = length (cw_members c)"
    using r(3) by (simp_all add: e1_def c1_def)
  obtain e' c' hs where IH: "sampleLoop T (Suc i) k e1 c1 = Inr (e', c')" "length hs = k"
    "\<forall>j<k. Suc i + j \<le> hs ! j \<and> hs ! j < length (window e1)" "sampled hs e1 e'"
    "window e' = shuffleBy (Suc i) hs (window e1)"
    "cw_members c' = take (Suc i) (cw_members c1) @ map saltedHash (take k (drop (Suc i) (window e'))) @ drop (Suc i + k) (cw_members c1)"
    "cw_symbol c' = foldl (data_XOR T) (cw_symbol c1) (map (\<lambda>x. data (tx_of x)) (take k (drop (Suc i) (window e'))))"
    using Suc.IH [of e1 "Suc i" c1] Suc.prems e1 by auto
  have i: "i < length (window e')" "i < length (cw_members c)" using Suc.prems IH(5) e1(2) by simp_all
  have at: "window e' ! i = window e1 ! i"
    unfolding IH(5) using IH(2,3) e1 Suc.prems(2) by (intro shuffleBy_below) auto
  have tk: "take (Suc k) (drop i (window e')) = window e1 ! i # take k (drop (Suc i) (window e'))"
    using i(1) at by (simp add: Cons_nth_drop_Suc [symmetric])
  have m: "cw_members c' = take i (cw_members c) @ map saltedHash (take (Suc k) (drop i (window e'))) @ drop (i + Suc k) (cw_members c)"
    unfolding IH(6) tk using i(2) by (simp add: c1_def take_Suc_conv_app_nth take_update_cancel)
  have y: "cw_symbol c' = foldl (data_XOR T) (cw_symbol c) (map (\<lambda>x. data (tx_of x)) (take (Suc k) (drop i (window e'))))"
    unfolding IH(7) tk by (simp add: c1_def)
  have hs: "\<forall>j<Suc k. i + j \<le> (r # hs) ! j \<and> (r # hs) ! j < length (window e)"
    using IH(3) r(1,2) e1(2) by (auto simp: nth_Cons less_Suc_eq_0_disj split: nat.splits)
  have "sampled (r # hs) e e'" using IH(4) by (simp add: sampled_def e1_def)
  moreover have "window e' = shuffleBy i (r # hs) (window e)" using IH(5) by (simp add: e1_def)
  moreover have "sampleLoop T i (Suc k) e c = Inr (e', c')" using run1 IH(1) by simp
  ultimately show ?case using IH(2) hs m y by (metis length_Cons)
qed

text \<open>
  A codeword is the exclusive or of as many distinct entries of the window as the degree
  asks for, and the window is afterwards as before.
\<close>

definition mixes :: "'d dataOps \<Rightarrow> 'd saltedTransaction list \<Rightarrow> 'd ltCodeword \<Rightarrow> bool" where
  "mixes T chosen c \<longleftrightarrow>
     cw_members c = map saltedHash chosen \<and>
     cw_symbol c = foldl (data_XOR T) (data_zero T) (map (\<lambda>x. data (tx_of x)) chosen)"

lemma produceCodeword_spec:
  assumes "fair (rng e)" "0 < deg" "window e \<noteq> []"
  shows "\<exists>e' c chosen. produceCodeword T e deg = Inr (e', c) \<and>
    window e' = window e \<and> hashes e' = hashes e \<and> windowSize e' = windowSize e \<and> hasher e' = hasher e \<and>
    degreeDist e' = degreeDist e \<and> fair (rng e') \<and>
    length chosen = min (nat deg) (length (window e)) \<and> mset chosen \<subseteq># mset (window e) \<and> mixes T chosen c"
proof -
  let ?d = "min (nat deg) (length (window e))"
  let ?c = "\<lparr>cw_symbol = data_zero T, cw_members = replicate ?d 0\<rparr>"
  have d: "(if deg > int (length (window e)) then int (length (window e)) else deg) = int ?d" "0 < ?d"
    using assms(2,3) by auto
  obtain e' c hs where s: "sampleLoop T 0 ?d (e\<lparr>shuffleHistory := []\<rparr>) ?c = Inr (e', c)" "length hs = ?d"
    "\<forall>j<?d. 0 + j \<le> hs ! j \<and> hs ! j < length (window e)" "sampled hs (e\<lparr>shuffleHistory := []\<rparr>) e'"
    "window e' = shuffleBy 0 hs (window e)"
    "cw_members c = map saltedHash (take ?d (window e'))"
    "cw_symbol c = foldl (data_XOR T) (data_zero T) (map (\<lambda>x. data (tx_of x)) (take ?d (window e')))"
    using sampleLoop_spec [of "e\<lparr>shuffleHistory := []\<rparr>" 0 ?d ?c T] assms(1) by auto
  have rs: "\<forall>r\<in>set hs. r < length (window e)" using s(2,3) by (metis in_set_conv_nth)
  have "revertLoop hs ?d (window e') = Inr (window e)"
    using revertLoop_spec [OF rs, of ?d] s(2,5) by simp
  then have run: "produceCodeword T e deg = Inr (e'\<lparr>window := window e\<rparr>, c)"
    using s(1,4) d by (simp add: produceCodeword_def Let_def sampled_def)
  have "mset (window e') = mset (window e)" unfolding s(5) using rs s(2) by (intro mset_shuffleBy) simp_all
  then have "mset (take ?d (window e')) \<subseteq># mset (window e)"
    by (metis append_take_drop_id mset_append mset_subset_eq_add_left)
  moreover have "length (take ?d (window e')) = ?d" using s(5) by simp
  ultimately show ?thesis
    using run s(4,6,7)
    by (intro exI [of _ "e'\<lparr>window := window e\<rparr>"] exI [of _ c] exI [of _ "take ?d (window e')"])
      (simp add: sampled_def mixes_def)
qed

lemma produceCodeword_fails:
  assumes "deg \<le> 0 \<or> window e = []"
  shows "produceCodeword T e deg =
    Inl (if deg < 0 then Panic ''makeslice: len out of range''
         else Panic ''trying to produce codeword with degree zero'')"
  using assms by (auto simp: produceCodeword_def Let_def)

lemma mixes_xorAll:
  assumes "data_laws T" "mixes T chosen c"
  shows "cw_symbol c = xorAll T (image_mset (\<lambda>x. data (tx_of x)) (mset chosen))"
proof -
  have "foldl (data_XOR T) z xs = data_XOR T z (xorAll T (mset xs))" for z xs
    by (induction xs arbitrary: z)
      (simp_all add: data_laws.assoc [OF assms(1)] data_laws.zero_right [OF assms(1)] data_laws.xorAll_add [OF assms(1)])
  then show ?thesis using assms(2) by (simp add: mixes_def data_laws.zero_left [OF assms(1)])
qed

end
