(* ===== verification/Sim_Types.thy ===== *)
theory Sim_Types
  imports Lt_Encoder Des Float64
begin

unbundle bit_operations_syntax

text \<open>
  \<open>simulator/transaction.go\<close>, \<open>messages.go\<close> and \<open>filter.go\<close>: the transactions that the servers
  of \<open>simulator/\<close> exchange through \<open>lt/\<close>, their messages, and the recorders of statistics. The
  quantile sketch is a third-party package; the model keeps the values added to it.
\<close>

section \<open>Transactions\<close>

record simTransaction =
  tidx :: u64
  tts :: duration

definition simTransaction_XOR :: "simTransaction \<Rightarrow> simTransaction \<Rightarrow> simTransaction" where
  "simTransaction_XOR d t2 = \<lparr>tidx = tidx d XOR tidx t2, tts = tts d XOR tts t2\<rparr>"

text \<open>\<open>binary.LittleEndian.PutUint64\<close> into a fresh slice.\<close>

definition simTransaction_Hash :: "simTransaction \<Rightarrow> u8 list" where
  "simTransaction_Hash d = map (\<lambda>k. ucast (drop_bit (8 * k) (tidx d))) [0..<8]"

definition simOps :: "simTransaction dataOps" where
  "simOps = \<lparr>data_XOR = simTransaction_XOR, data_Hash = simTransaction_Hash, data_zero = \<lparr>tidx = 0, tts = 0\<rparr>\<rparr>"

interpretation simTx: data_laws simOps
  by unfold_locales
    (simp_all add: simOps_def simTransaction_XOR_def xor.assoc xor.commute xor.left_commute)

type_synonym simTx = "simTransaction ltTransaction"

record simGenerator =
  next_of :: u64

definition newTransactionGenerator :: simGenerator where
  "newTransactionGenerator = \<lparr>next_of = 0\<rparr>"

definition sim_generate :: "simGenerator \<Rightarrow> duration \<Rightarrow> simGenerator \<times> simTx" where
  "sim_generate t now =
     (let tx = \<lparr>tidx = next_of t, tts = now\<rparr>; t = t\<lparr>next_of := next_of t + 1\<rparr>
      in (t, NewTransaction simOps tx))"

section \<open>Messages\<close>

record simCodeword =
  Codeword_of :: "simTransaction ltCodeword"
  newBlock :: bool

record simAck =
  ackBlock :: bool

text \<open>The payloads; \<open>blockArrival\<close>, \<open>loopback\<close> and \<open>createNewBlock\<close> are the last three.\<close>

datatype simPayload =
    SimCodeword simCodeword
  | SimAck simAck
  | BlockArrival int
  | Loopback simTx
  | CreateNewBlock

text \<open>Modules are pointers to servers: their number in the slice of \<open>newServers\<close>.\<close>

type_synonym serverId = nat

type_synonym simMsg = "(simPayload, serverId) OutgoingMessage"

section \<open>Statistics\<close>

record maximum =
  max_of :: int

definition maximum_record :: "maximum \<Rightarrow> int \<Rightarrow> maximum" where
  "maximum_record m val = (if val > max_of m then m\<lparr>max_of := val\<rparr> else m)"

definition maximum_get :: "maximum \<Rightarrow> maximum \<times> int" where
  "maximum_get m = (let res = max_of m in (m\<lparr>max_of := 0\<rparr>, res))"

record difference =
  lastRead :: int
  current :: int

definition difference_record :: "difference \<Rightarrow> int \<Rightarrow> difference" where
  "difference_record d val = d\<lparr>current := val\<rparr>"

definition difference_get :: "difference \<Rightarrow> difference \<times> int" where
  "difference_get d = (let diff = current d - lastRead d in (d\<lparr>lastRead := current d\<rparr>, diff))"

record simSketch =
  sketch_values :: "float64 list"
  sketch_warmup :: duration

definition newDistributionSketch :: "duration \<Rightarrow> simSketch" where
  "newDistributionSketch w = \<lparr>sketch_values = [], sketch_warmup = w\<rparr>"

text \<open>The receiver \<open>t\<close> may be nil.\<close>

definition sim_recordRaw :: "simSketch option \<Rightarrow> float64 \<Rightarrow> duration \<Rightarrow> simSketch option" where
  "sim_recordRaw t d tp =
     (case t of None \<Rightarrow> None
        | Some sk \<Rightarrow>
            if sint (sketch_warmup sk) > sint tp then Some sk
            else Some (sk\<lparr>sketch_values := sketch_values sk @ [d]\<rparr>))"

definition sim_recordTxLatency :: "simSketch option \<Rightarrow> simTransaction \<Rightarrow> duration \<Rightarrow> simSketch option" where
  "sim_recordTxLatency t tx tp =
     (case t of None \<Rightarrow> None
        | Some sk \<Rightarrow>
            if sint (sketch_warmup sk) > sint tp then Some sk
            else let latency = f_sub (seconds tp) (seconds (tts tx))
                 in Some (sk\<lparr>sketch_values := sketch_values sk @ [latency]\<rparr>))"

end
