(* ===== verification/Lt_Decoder.thy ===== *)
theory Lt_Decoder
  imports Lt_Encoder
begin

text \<open>
  \<open>lt/decoder.go\<close>: the decoder that peels codewords. Pending transactions and codewords point
  to each other, and the caller keeps pointers to codewords (\<open>Decoded\<close>): the objects live in
  two heaps of the decoder, lists that allocation extends, and a pointer is a position. The
  entries that the source sets to nil to free memory are \<open>None\<close>.
\<close>

section \<open>State\<close>

record pendingTransaction =
  stubHash :: u32
  blocking :: "nat option list"

record 'd PendingCodeword =
  symbol :: 'd
  members :: "nat list"
  queued :: bool
  decoded :: bool

record 'd ltDecoder =
  receivedTransactions :: "u32 \<rightharpoonup> 'd ltTransaction"
  recentTransactions :: "'d saltedTransaction list"
  pendingTransactions :: "u32 \<rightharpoonup> nat"
  dhasher :: hash64
  memory :: int
  txHeap :: "pendingTransaction list"
  cwHeap :: "'d PendingCodeword list"

definition lt_NewDecoder :: "hash64 \<Rightarrow> int \<Rightarrow> 'd ltDecoder" where
  "lt_NewDecoder siphash mem =
     \<lparr>receivedTransactions = Map.empty, recentTransactions = [], pendingTransactions = Map.empty,
      dhasher = siphash, memory = mem, txHeap = [], cwHeap = []\<rparr>"

definition lt_HasDecoded :: "'d ltDecoder \<Rightarrow> 'd ltTransaction \<Rightarrow> bool" where
  "lt_HasDecoded p tx = (let h = salted (dhasher p) (hash tx) in receivedTransactions p h \<noteq> None)"

definition cw_Decoded :: "'d ltDecoder \<Rightarrow> nat \<Rightarrow> bool result" where
  "cw_Decoded p c = bindR (deref (cwHeap p) c) (\<lambda>cw. Inr (decoded cw))"

section \<open>Peeling\<close>

definition peelTransaction :: "'d dataOps \<Rightarrow> 'd PendingCodeword \<Rightarrow> nat \<Rightarrow> 'd \<Rightarrow> 'd PendingCodeword result" where
  "peelTransaction T peelable stub d =
     (case indexOf stub (members peelable) of
        Some idx \<Rightarrow> Inr (peelable\<lparr>members := swapRemove (members peelable) idx,
                                  symbol := data_XOR T (symbol peelable) d\<rparr>)
      | None \<Rightarrow> Inl (Panic ''unable to peel decoded transaction from codeword pointing to it''))"

text \<open>One entry of the blocking list: peel the codeword, queue it when it became decodable, clear the entry.\<close>

definition markOne ::
  "'d dataOps \<Rightarrow> nat \<Rightarrow> 'd \<Rightarrow> nat \<Rightarrow> nat option \<Rightarrow> 'd ltDecoder \<Rightarrow> nat list \<Rightarrow> ('d ltDecoder \<times> nat list) result" where
  "markOne T tx d idx b p queue =
     (case b of None \<Rightarrow> Inl NilDereference
      | Some c \<Rightarrow>
          bindR (deref (cwHeap p) c) (\<lambda>cw.
          bindR (peelTransaction T cw tx d) (\<lambda>cw.
            let (cw, queue) =
                  (if length (members cw) \<le> 1 \<and> \<not> queued cw then (cw\<lparr>queued := True\<rparr>, queue @ [c]) else (cw, queue))
            in bindR (deref (txHeap p) tx) (\<lambda>stub.
                 Inr (p\<lparr>cwHeap := (cwHeap p)[c := cw],
                        txHeap := (txHeap p)[tx := stub\<lparr>blocking := (blocking stub)[idx := None]\<rparr>]\<rparr>, queue)))))"

fun markLoop ::
  "'d dataOps \<Rightarrow> nat \<Rightarrow> 'd \<Rightarrow> nat \<Rightarrow> nat option list \<Rightarrow> 'd ltDecoder \<Rightarrow> nat list \<Rightarrow> ('d ltDecoder \<times> nat list) result" where
  "markLoop T tx d idx [] p queue = Inr (p, queue)"
| "markLoop T tx d idx (b # bs) p queue =
     bindR (markOne T tx d idx b p queue) (\<lambda>(p, queue). markLoop T tx d (idx + 1) bs p queue)"

definition markDecoded ::
  "'d dataOps \<Rightarrow> 'd ltDecoder \<Rightarrow> nat \<Rightarrow> 'd \<Rightarrow> nat list \<Rightarrow> ('d ltDecoder \<times> nat list) result" where
  "markDecoded T p tx d decodableCws =
     bindR (deref (txHeap p) tx) (\<lambda>stub. markLoop T tx d 0 (blocking stub) p decodableCws)"

text \<open>The answer of \<open>failToDecode\<close>: the hash, the pointer, and whether the transaction is given up.\<close>

definition failToDecode :: "'d ltDecoder \<Rightarrow> nat \<Rightarrow> ('d ltDecoder \<times> u32 \<times> nat option \<times> bool) result" where
  "failToDecode p c =
     bindR (deref (cwHeap p) c) (\<lambda>cw.
       if length (members cw) \<noteq> 1 then Inl (Panic ''failing a codeword when it has more than 1 members'')
       else
         let ptr = members cw ! 0 in
         bindR (deref (txHeap p) ptr) (\<lambda>stub.
           case indexOf (Some c) (blocking stub) of
             None \<Rightarrow> Inl (Panic ''unable to find blocked codeword in pending transaction'')
           | Some cwIdx \<Rightarrow>
               let bs = swapRemove (blocking stub) cwIdx;
                   p = p\<lparr>cwHeap := (cwHeap p)[c := cw\<lparr>members := []\<rparr>],
                         txHeap := (txHeap p)[ptr := stub\<lparr>blocking := bs\<rparr>]\<rparr>
               in if length bs = 0 then Inr (p, stubHash stub, Some ptr, True) else Inr (p, 0, None, False)))"

section \<open>Storing\<close>

text \<open>The loop that forgets the oldest transactions beyond the memory.\<close>

fun forgetOld ::
  "'d dataOps \<Rightarrow> int \<Rightarrow> 'd saltedTransaction list \<Rightarrow> (u32 \<rightharpoonup> 'd ltTransaction) \<Rightarrow>
   ('d saltedTransaction list \<times> (u32 \<rightharpoonup> 'd ltTransaction)) result" where
  "forgetOld T mem [] received = (if 0 > mem then Inl IndexOutOfRange else Inr ([], received))"
| "forgetOld T mem (x # xs) received =
     (if int (length (x # xs)) > mem then
        let e = (case received (saltedHash x) of None \<Rightarrow> zeroTx T | Some e \<Rightarrow> e)
        in forgetOld T mem xs (if data e = data (tx_of x) then received(saltedHash x := None) else received)
      else Inr (x # xs, received))"

definition storeNewTransaction ::
  "'d dataOps \<Rightarrow> 'd ltDecoder \<Rightarrow> u32 \<Rightarrow> 'd ltTransaction \<Rightarrow> 'd ltDecoder result" where
  "storeNewTransaction T p h t =
     bindR (forgetOld T (memory p) (recentTransactions p @ [\<lparr>saltedHash = h, tx_of = t\<rparr>])
              ((receivedTransactions p)(h \<mapsto> t)))
       (\<lambda>(recent, received). Inr (p\<lparr>recentTransactions := recent, receivedTransactions := received\<rparr>))"

section \<open>Decoding\<close>

text \<open>One round of \<open>decodeCodewords\<close>, for the codeword \<open>c\<close> popped from the queue.\<close>

definition decodeOne ::
  "'d dataOps \<Rightarrow> nat \<Rightarrow> 'd ltDecoder \<Rightarrow> nat list \<Rightarrow> 'd ltTransaction list \<Rightarrow>
   ('d ltDecoder \<times> nat list \<times> 'd ltTransaction list) result" where
  "decodeOne T c p queue newTx =
     bindR (deref (cwHeap p) c) (\<lambda>cw.
       if \<not> queued cw then Inl (Panic ''decoding a codeword not queued'')
       else bindR
         (if length (members cw) = 0 then Inr (p, queue, newTx)
          else if length (members cw) = 1 then
            let decodableTx = members cw ! 0 in
            bindR (deref (txHeap p) decodableTx) (\<lambda>stub.
              if receivedTransactions p (stubHash stub) = None then
                if pendingTransactions p (stubHash stub) \<noteq> None then
                  let decodedTx = NewTransaction T (symbol cw);
                      h = salted (dhasher p) (hash decodedTx)
                  in if h \<noteq> stubHash stub then
                       bindR (failToDecode p c) (\<lambda>(p, failedHash, _, failed).
                         Inr (if failed then p\<lparr>pendingTransactions := (pendingTransactions p)(failedHash := None)\<rparr> else p,
                              queue, newTx))
                     else
                       bindR (storeNewTransaction T (p\<lparr>pendingTransactions := (pendingTransactions p)(h := None)\<rparr>) h decodedTx) (\<lambda>p.
                       bindR (markDecoded T p decodableTx (data decodedTx) queue) (\<lambda>(p, queue).
                         Inr (p, queue, newTx @ [decodedTx])))
                else Inl (Panic ''unpeeled transaction is not pending'')
              else Inl (Panic ''unpeeled transaction is already received''))
          else Inl (Panic ''queued undecodable codeword''))
         (\<lambda>(p, queue, newTx).
            bindR (deref (cwHeap p) c) (\<lambda>cw.
              if length (members cw) \<noteq> 0 then Inl (Panic ''codeword not empty after decoded'')
              else Inr (p\<lparr>cwHeap := (cwHeap p)[c := cw\<lparr>decoded := True\<rparr>]\<rparr>, queue, newTx))))"

partial_function (option) decodeLoop ::
  "'d dataOps \<Rightarrow> 'd ltDecoder \<Rightarrow> nat list \<Rightarrow> 'd ltTransaction list \<Rightarrow> ('d ltDecoder \<times> 'd ltTransaction list) run" where
  "decodeLoop T p queue newTx =
     (if queue = [] then Some (Inr (p, newTx))
      else bindO (Some (decodeOne T (last queue) p (butlast queue) newTx))
             (\<lambda>(p, queue, newTx). decodeLoop T p queue newTx))"

definition decodeCodewords ::
  "'d dataOps \<Rightarrow> 'd ltDecoder \<Rightarrow> nat list \<Rightarrow> ('d ltDecoder \<times> 'd ltTransaction list) run" where
  "decodeCodewords T p queue = decodeLoop T p queue []"

section \<open>Adding codewords and transactions\<close>

text \<open>One member of a received codeword \<open>c\<close>.\<close>

definition linkMember :: "'d dataOps \<Rightarrow> nat \<Rightarrow> 'd ltDecoder \<Rightarrow> u32 \<Rightarrow> 'd ltDecoder result" where
  "linkMember T c p m =
     bindR (deref (cwHeap p) c) (\<lambda>cw.
     case receivedTransactions p m of
       None \<Rightarrow>
         let (p, pending) =
               (case pendingTransactions p m of
                  Some t \<Rightarrow> (p, t)
                | None \<Rightarrow> (p\<lparr>txHeap := txHeap p @ [\<lparr>stubHash = m, blocking = []\<rparr>],
                             pendingTransactions := (pendingTransactions p)(m \<mapsto> length (txHeap p))\<rparr>, length (txHeap p)))
         in bindR (deref (txHeap p) pending) (\<lambda>stub.
              Inr (p\<lparr>txHeap := (txHeap p)[pending := stub\<lparr>blocking := blocking stub @ [Some c]\<rparr>],
                     cwHeap := (cwHeap p)[c := cw\<lparr>members := members cw @ [pending]\<rparr>]\<rparr>))
     | Some received \<Rightarrow>
         if pendingTransactions p m = None then
           Inr (p\<lparr>cwHeap := (cwHeap p)[c := cw\<lparr>symbol := data_XOR T (symbol cw) (data received)\<rparr>]\<rparr>)
         else Inl (Panic ''transaction is marked both received and pending''))"

fun linkMembers :: "'d dataOps \<Rightarrow> nat \<Rightarrow> u32 list \<Rightarrow> 'd ltDecoder \<Rightarrow> 'd ltDecoder result" where
  "linkMembers T c [] p = Inr p"
| "linkMembers T c (m # ms) p = bindR (linkMember T c p m) (linkMembers T c ms)"

definition lt_AddCodeword ::
  "'d dataOps \<Rightarrow> 'd ltDecoder \<Rightarrow> 'd ltCodeword \<Rightarrow> ('d ltDecoder \<times> nat \<times> 'd ltTransaction list) run" where
  "lt_AddCodeword T p raw =
     (let c = length (cwHeap p);
          p = p\<lparr>cwHeap := cwHeap p @ [\<lparr>symbol = cw_symbol raw, members = [], queued = False, decoded = False\<rparr>]\<rparr>
      in bindO (Some (linkMembers T c (cw_members raw) p)) (\<lambda>p.
         bindO (Some (deref (cwHeap p) c)) (\<lambda>cw.
           if length (members cw) \<le> 1 then
             bindO (decodeCodewords T (p\<lparr>cwHeap := (cwHeap p)[c := cw\<lparr>queued := True\<rparr>]\<rparr>) [c]) (\<lambda>(p, txs).
               Some (Inr (p, c, txs)))
           else Some (Inr (p, c, [])))))"

definition lt_Decoder_AddTransaction ::
  "'d dataOps \<Rightarrow> 'd ltDecoder \<Rightarrow> 'd ltTransaction \<Rightarrow> ('d ltDecoder \<times> 'd ltTransaction list) run" where
  "lt_Decoder_AddTransaction T p t =
     (let h = salted (dhasher p) (hash t) in
      case receivedTransactions p h of
        None \<Rightarrow>
          bindO (Some (storeNewTransaction T p h t)) (\<lambda>p.
            case pendingTransactions p h of
              Some pending \<Rightarrow>
                bindO (Some (deref (txHeap p) pending)) (\<lambda>stub.
                  if stubHash stub \<noteq> h
                  then Some (Inl (Panic ''salted hash of retrieved transaction stub does not match the hash computed from the full transaction''))
                  else
                    bindO (Some (markDecoded T (p\<lparr>pendingTransactions := (pendingTransactions p)(h := None)\<rparr>) pending (data t) []))
                      (\<lambda>(p, queue). decodeCodewords T p queue))
            | None \<Rightarrow> Some (Inr (p, [])))
      | Some existing \<Rightarrow>
          if hash existing = hash t then Some (Inr (p, []))
          else
            bindO (Some (storeNewTransaction T p h t)) (\<lambda>p.
              if pendingTransactions p h \<noteq> None then Some (Inl (Panic ''pending transaction is already decoded''))
              else Some (Inr (p, []))))"

end
