(* ===== verification/Sim_Node.thy ===== *)
theory Sim_Node
  imports Sim_Types Lt_Decoder
begin

text \<open>
  \<open>simulator/node.go\<close>: the two ends of a link, the sender that mixes a block of transactions
  into codewords within a send window, and the receiver that acknowledges them. All links of
  a server share its decoder, which is an argument here. \<open>soliton.NewRobustSoliton\<close> is a
  third-party package: \<open>solitons\<close> are the degree sequences that its calls will return, for
  each block size.
\<close>

section \<open>The sender\<close>

record simSenderConfig =
  controlOverhead :: float64
  sendThreshold :: int

record simSender =
  sbuffer :: "simTx list"
  currentBlock :: "simTx list"
  Encoder_of :: "simTransaction ltEncoder"
  solitons :: "nat \<Rightarrow> u64 \<Rightarrow> nat \<Rightarrow> u64"
  sendWindow :: int
  inFlight :: int
  encodingCurrentBlock :: bool
  soutbox :: "simPayload list"
  sconfig :: simSenderConfig

text \<open>The loop that moves the buffer into the encoder; a duplicate is dropped with a warning.\<close>

fun sim_fillBlock :: "simTx list \<Rightarrow> simSender \<Rightarrow> simSender result" where
  "sim_fillBlock [] n = Inr n"
| "sim_fillBlock (tx # txs) n =
     bindR (lt_AddTransaction (Encoder_of n) tx) (\<lambda>(e, res).
       sim_fillBlock txs
         (if \<not> res then n\<lparr>Encoder_of := e\<rparr>
          else n\<lparr>Encoder_of := e, currentBlock := currentBlock n @ [tx]\<rparr>))"

definition sim_startBlock :: "simSender \<Rightarrow> simSender result" where
  "sim_startBlock n =
     (let blockSize = length (sbuffer n) in
      bindR (f_to_int (f_mul (f_of_int (int blockSize)) (controlOverhead (sconfig n)))) (\<lambda>w.
      let dist = solitons n 0 (of_nat blockSize);
          n = n\<lparr>sendWindow := w, encodingCurrentBlock := True, solitons := (\<lambda>k. solitons n (Suc k)),
                Encoder_of := lt_Reset (Encoder_of n) dist (int blockSize), currentBlock := []\<rparr>
      in bindR (sim_fillBlock (sbuffer n) n) (\<lambda>n. Inr (n\<lparr>sbuffer := []\<rparr>))))"

definition sim_tryProduceCodeword :: "bool \<Rightarrow> simSender \<Rightarrow> (simSender \<times> simCodeword \<times> bool) result" where
  "sim_tryProduceCodeword mayStartNewBlock n =
     (let cw = \<lparr>Codeword_of = \<lparr>cw_symbol = data_zero simOps, cw_members = []\<rparr>, newBlock = False\<rparr>;
          produce = (\<lambda>n cw. bindR (lt_ProduceCodeword simOps (Encoder_of n)) (\<lambda>(e, c).
                              Inr (n\<lparr>Encoder_of := e\<rparr>, cw\<lparr>Codeword_of := c\<rparr>, True)))
      in if \<not> encodingCurrentBlock n \<and> mayStartNewBlock
         then bindR (f_to_int (f_div (f_of_int (sendThreshold (sconfig n))) (controlOverhead (sconfig n)))) (\<lambda>minBlockSize.
                if int (length (sbuffer n)) \<ge> minBlockSize
                then bindR (sim_startBlock n) (\<lambda>n. produce n (cw\<lparr>newBlock := True\<rparr>))
                else Inr (n, cw, False))
         else if \<not> encodingCurrentBlock n \<and> \<not> mayStartNewBlock then Inr (n, cw, False)
         else produce n cw)"

partial_function (option) sim_tryFillSendWindow :: "bool \<Rightarrow> simSender \<Rightarrow> simSender run" where
  "sim_tryFillSendWindow mayStartNewBlock n =
     (if inFlight n < sendWindow n
      then bindO (Some (sim_tryProduceCodeword mayStartNewBlock n)) (\<lambda>(n, cw, yes).
             if \<not> yes then Some (Inr n)
             else sim_tryFillSendWindow mayStartNewBlock
                    (n\<lparr>soutbox := soutbox n @ [SimCodeword cw], inFlight := inFlight n + 1\<rparr>))
      else Some (Inr n))"

definition sim_onAck :: "simSender \<Rightarrow> simAck \<Rightarrow> bool \<Rightarrow> simSender run" where
  "sim_onAck n a mayStartNewBlock =
     (let n = n\<lparr>inFlight := inFlight n - 1\<rparr>;
          n = (if ackBlock a then n\<lparr>encodingCurrentBlock := False\<rparr> else n)
      in sim_tryFillSendWindow mayStartNewBlock n)"

definition sim_onTransaction :: "simSender \<Rightarrow> simTx \<Rightarrow> bool \<Rightarrow> simSender run" where
  "sim_onTransaction n tx mayStartNewBlock =
     sim_tryFillSendWindow mayStartNewBlock (n\<lparr>sbuffer := sbuffer n @ [tx]\<rparr>)"

section \<open>The receiver\<close>

record simReceiverConfig =
  detectThreshold :: int
  targetCodewordLoss :: float64

record simReceiver =
  curCodewords :: "nat list"
  currentBlockReceived :: bool
  routbox :: "simPayload list"
  rconfig :: simReceiverConfig

text \<open>The loop that counts the codewords that are not decoded.\<close>

fun countUndecoded :: "simTransaction ltDecoder \<Rightarrow> nat list \<Rightarrow> int result" where
  "countUndecoded p [] = Inr 0"
| "countUndecoded p (c # cs) =
     bindR (cw_Decoded p c) (\<lambda>d. bindR (countUndecoded p cs) (\<lambda>k. Inr (if \<not> d then k + 1 else k)))"

definition blockIsReceived :: "simTransaction ltDecoder \<Rightarrow> simReceiver \<Rightarrow> bool result" where
  "blockIsReceived p n =
     (if \<not> currentBlockReceived n \<and> int (length (curCodewords n)) > detectThreshold (rconfig n)
      then bindR (f_to_int (f_mul (f_of_int (int (length (curCodewords n)))) (targetCodewordLoss (rconfig n)))) (\<lambda>limit.
           bindR (countUndecoded p (curCodewords n)) (\<lambda>notDecoded. Inr (notDecoded \<le> limit)))
      else Inr False)"

definition sim_onCodeword ::
  "simTransaction ltDecoder \<Rightarrow> simReceiver \<Rightarrow> simCodeword \<Rightarrow> (simTransaction ltDecoder \<times> simReceiver \<times> simTx list) run" where
  "sim_onCodeword p n cw =
     (let n = (if newBlock cw then n\<lparr>curCodewords := [], currentBlockReceived := False\<rparr> else n) in
      bindO (lt_AddCodeword simOps p (Codeword_of cw)) (\<lambda>(p, stub, tx).
        let n = n\<lparr>curCodewords := curCodewords n @ [stub]\<rparr> in
        bindO (Some (blockIsReceived p n)) (\<lambda>yes.
          if yes
          then Some (Inr (p, n\<lparr>currentBlockReceived := True, routbox := routbox n @ [SimAck \<lparr>ackBlock = True\<rparr>]\<rparr>, tx))
          else Some (Inr (p, n\<lparr>routbox := routbox n @ [SimAck \<lparr>ackBlock = False\<rparr>]\<rparr>, tx)))))"

end
