(* ===== verification/Sim_Server.thy ===== *)
theory Sim_Server
  imports Sim_Node
begin

text \<open>
  \<open>simulator/module.go\<close> and the parts of \<open>simulator/main.go\<close> that build and run the network. A
  \<open>*server\<close> is its number, and \<open>simWorld\<close> holds all servers with the global \<open>txgen\<close>. Go ranges
  over a map in an unspecified order: \<open>env_order\<close> gives, for each server and each range
  statement it executes, the order of the keys. The random generator of a server is the
  samples that its users will draw: \<open>env_exp\<close> for \<open>ExpFloat64\<close>, \<open>env_rng\<close> and \<open>env_solitons\<close> for
  the encoder of each link. \<open>env_sip\<close> is \<open>siphash\<close> under the key \<open>testKey\<close>.
\<close>

section \<open>State\<close>

record serverMetric =
  decodedTransactions :: int
  receivedCodewords :: int

definition resetMetric :: "serverMetric \<Rightarrow> serverMetric" where
  "resetMetric m = m\<lparr>decodedTransactions := 0, receivedCodewords := 0\<rparr>"

record serverConfig =
  blockArrivalIntv :: float64
  blockArrivalBurst :: int
  decoderMemory :: int
  senderConfig :: simSenderConfig
  receiverConfig :: simReceiverConfig
  forceSynchronize :: duration

record simPeer =
  sender_of :: simSender
  receiver_of :: simReceiver
  pdelay :: duration

record rateLimiter =
  lastScheduled :: duration
  minInterval :: duration

record simServer =
  handlers :: "serverId \<rightharpoonup> simPeer"
  decoder :: "simTransaction ltDecoder"
  received :: "simTransaction set"
  expCount :: nat
  rangeCount :: nat
  config :: serverConfig
  latencySketch :: "simSketch option"
  overlapSketch :: "simSketch option"
  metric :: serverMetric
  forwardRateLimiter :: rateLimiter

record simEnv =
  env_sip :: hash64
  env_exp :: "serverId \<Rightarrow> nat \<Rightarrow> float64"
  env_order :: "serverId \<Rightarrow> nat \<Rightarrow> serverId set \<Rightarrow> serverId list"
  env_rng :: "serverId \<Rightarrow> serverId \<Rightarrow> nat \<Rightarrow> nat \<Rightarrow> int"
  env_solitons :: "serverId \<Rightarrow> serverId \<Rightarrow> nat \<Rightarrow> u64 \<Rightarrow> nat \<Rightarrow> u64"

text \<open>The new encoder has no degree distribution until its first block; no codeword is produced before.\<close>

definition newHandler :: "simEnv \<Rightarrow> serverId \<Rightarrow> serverId \<Rightarrow> serverConfig \<Rightarrow> simSender \<times> simReceiver" where
  "newHandler env me peer cfg =
     (\<lparr>sbuffer = [], currentBlock = [], Encoder_of = lt_NewEncoder (env_rng env me peer) (env_sip env) (\<lambda>_. 0) 0,
       solitons = env_solitons env me peer, sendWindow = sendThreshold (senderConfig cfg), inFlight = 0,
       encodingCurrentBlock = False, soutbox = [], sconfig = senderConfig cfg\<rparr>,
      \<lparr>curCodewords = [], currentBlockReceived = False, routbox = [], rconfig = receiverConfig cfg\<rparr>)"

definition addHandler :: "simEnv \<Rightarrow> serverId \<Rightarrow> serverId \<Rightarrow> duration \<Rightarrow> simServer \<Rightarrow> simServer" where
  "addHandler env me peer delay s =
     (let (snd, rcv) = newHandler env me peer (config s)
      in s\<lparr>handlers := (handlers s)(peer \<mapsto> \<lparr>sender_of = snd, receiver_of = rcv, pdelay = delay\<rparr>)\<rparr>)"

definition connectServers :: "simEnv \<Rightarrow> serverId \<Rightarrow> serverId \<Rightarrow> duration \<Rightarrow> simServer list \<Rightarrow> simServer list" where
  "connectServers env a b delay ss =
     (let ss = ss[a := addHandler env a b delay (ss ! a)]
      in ss[b := addHandler env b a delay (ss ! b)])"

section \<open>Ranging over the handlers\<close>

definition rangeHandlers :: "simEnv \<Rightarrow> serverId \<Rightarrow> simServer \<Rightarrow> simServer \<times> serverId list" where
  "rangeHandlers env me s =
     (s\<lparr>rangeCount := rangeCount s + 1\<rparr>, env_order env me (rangeCount s) (dom (handlers s)))"

text \<open>A call on the handler of a peer: a peer without an entry has a nil handler.\<close>

definition withPeer :: "simServer \<Rightarrow> serverId \<Rightarrow> (simPeer \<Rightarrow> ('a \<times> simPeer) run) \<Rightarrow> ('a \<times> simServer) run" where
  "withPeer s p f =
     (case handlers s p of None \<Rightarrow> Some (Inl NilDereference)
        | Some h \<Rightarrow> bindO (f h) (\<lambda>(x, h). Some (Inr (x, s\<lparr>handlers := (handlers s)(p \<mapsto> h)\<rparr>))))"

fun eachSender :: "(simSender \<Rightarrow> simSender run) \<Rightarrow> serverId list \<Rightarrow> simServer \<Rightarrow> simServer run" where
  "eachSender f [] s = Some (Inr s)"
| "eachSender f (p # ps) s =
     bindO (withPeer s p (\<lambda>h. bindO (f (sender_of h)) (\<lambda>n. Some (Inr ((), h\<lparr>sender_of := n\<rparr>)))))
       (\<lambda>(_, s). eachSender f ps s)"

definition emptyOutbox :: "serverId \<Rightarrow> simPeer \<Rightarrow> simMsg list \<times> simPeer" where
  "emptyOutbox p h =
     (let msg = (\<lambda>m. \<lparr>Payload = m, To = Some p, Delay = pdelay h\<rparr>)
      in (map msg (soutbox (sender_of h)) @ map msg (routbox (receiver_of h)),
          h\<lparr>sender_of := (sender_of h)\<lparr>soutbox := []\<rparr>, receiver_of := (receiver_of h)\<lparr>routbox := []\<rparr>\<rparr>))"

fun collectFrom :: "serverId list \<Rightarrow> simServer \<Rightarrow> simMsg list \<Rightarrow> (simServer \<times> simMsg list) run" where
  "collectFrom [] s outbox = Some (Inr (s, outbox))"
| "collectFrom (p # ps) s outbox =
     bindO (withPeer s p (\<lambda>h. Some (Inr (emptyOutbox p h)))) (\<lambda>(msgs, s). collectFrom ps s (outbox @ msgs))"

definition collectOutgoingMessages ::
  "simEnv \<Rightarrow> serverId \<Rightarrow> simServer \<Rightarrow> simMsg list \<Rightarrow> (simServer \<times> simMsg list) run" where
  "collectOutgoingMessages env me s outbox =
     (let (s, ps) = rangeHandlers env me s in collectFrom ps s outbox)"

section \<open>The rate limiter\<close>

fun scheduleLoop :: "duration \<Rightarrow> duration \<Rightarrow> simTx list \<Rightarrow> rateLimiter \<Rightarrow> simMsg list \<Rightarrow> rateLimiter \<times> simMsg list" where
  "scheduleLoop ts nextSlot [] r out = (r, out)"
| "scheduleLoop ts nextSlot (tx # txs) r out =
     scheduleLoop ts (nextSlot + minInterval r) txs (r\<lparr>lastScheduled := nextSlot\<rparr>)
       (out @ [\<lparr>Payload = Loopback tx, To = None, Delay = nextSlot - ts\<rparr>])"

definition scheduleForwardingTransactions ::
  "simServer \<Rightarrow> simMsg list \<Rightarrow> simTx list \<Rightarrow> duration \<Rightarrow> simServer \<times> simMsg list" where
  "scheduleForwardingTransactions s out txs ts =
     (let r = forwardRateLimiter s;
          nextSlot = (if sint (lastScheduled r + minInterval r) > sint ts then lastScheduled r + minInterval r else ts);
          (r, out) = scheduleLoop ts nextSlot txs r out
      in (s\<lparr>forwardRateLimiter := r\<rparr>, out))"

section \<open>Handling a message\<close>

definition canStartNewBlock :: "simServer \<Rightarrow> bool" where
  "canStartNewBlock s \<longleftrightarrow> forceSynchronize (config s) = 0"

definition forwardTransaction :: "simEnv \<Rightarrow> serverId \<Rightarrow> simServer \<Rightarrow> simTx \<Rightarrow> simServer run" where
  "forwardTransaction env me s tx =
     (let can = canStartNewBlock s; (s, ps) = rangeHandlers env me s
      in eachSender (\<lambda>n. sim_onTransaction n tx can) ps s)"

definition registerReceived :: "simServer \<Rightarrow> simTx \<Rightarrow> simServer result" where
  "registerReceived s tx =
     (if data tx \<in> received s then Inl (Panic ''duplicate'') else Inr (s\<lparr>received := insert (data tx) (received s)\<rparr>))"

text \<open>One generated transaction of a block arrival, and all of them.\<close>

definition arriveOne ::
  "duration \<Rightarrow> simGenerator \<Rightarrow> simServer \<Rightarrow> (simGenerator \<times> simServer \<times> simTx) run" where
  "arriveOne timestamp txgen s =
     (let (txgen, tx) = sim_generate txgen timestamp in
      bindO (Some (registerReceived s tx)) (\<lambda>s.
      bindO (lt_Decoder_AddTransaction simOps (decoder s) tx) (\<lambda>(dec, buf).
        if length buf \<noteq> 0 then Some (Inl (Panic ''locally generated tx leading to decode''))
        else Some (Inr (txgen, s\<lparr>decoder := dec\<rparr>, tx)))))"

fun arriveMany ::
  "duration \<Rightarrow> nat \<Rightarrow> simGenerator \<Rightarrow> simServer \<Rightarrow> simTx list \<Rightarrow> (simGenerator \<times> simServer \<times> simTx list) run" where
  "arriveMany timestamp 0 txgen s txs = Some (Inr (txgen, s, txs))"
| "arriveMany timestamp (Suc n) txgen s txs =
     bindO (arriveOne timestamp txgen s) (\<lambda>(txgen, s, tx). arriveMany timestamp n txgen s (txs @ [tx]))"

text \<open>\<open>time.Duration(s.rng.ExpFloat64() / s.blockArrivalIntv)\<close>.\<close>

definition nextArrival :: "simEnv \<Rightarrow> serverId \<Rightarrow> simServer \<Rightarrow> (simServer \<times> duration) result" where
  "nextArrival env me s =
     bindR (f_to_int (f_div (env_exp env me (expCount s)) (blockArrivalIntv (config s))))
       (\<lambda>i. Inr (s\<lparr>expCount := expCount s + 1\<rparr>, word_of_int i))"

fun registerDecoded :: "duration \<Rightarrow> simTx list \<Rightarrow> simServer \<Rightarrow> simServer result" where
  "registerDecoded timestamp [] s = Inr s"
| "registerDecoded timestamp (val # vals) s =
     bindR (registerReceived s val) (\<lambda>s.
       registerDecoded timestamp vals
         (s\<lparr>latencySketch := sim_recordTxLatency (latencySketch s) (data val) timestamp\<rparr>))"

definition handleCodeword ::
  "serverId \<Rightarrow> simCodeword \<Rightarrow> duration \<Rightarrow> simServer \<Rightarrow> (simServer \<times> simMsg list) run" where
  "handleCodeword from m timestamp s =
     bindO (withPeer s from (\<lambda>h. bindO (sim_onCodeword (decoder s) (receiver_of h) m) (\<lambda>(dec, r, buf).
              Some (Inr ((dec, buf), h\<lparr>receiver_of := r\<rparr>))))) (\<lambda>((dec, buf), s).
     bindO (Some (registerDecoded timestamp buf (s\<lparr>decoder := dec\<rparr>))) (\<lambda>s.
       let s = s\<lparr>metric := (metric s)\<lparr>decodedTransactions := decodedTransactions (metric s) + int (length buf),
                                     receivedCodewords := receivedCodewords (metric s) + 1\<rparr>\<rparr>
       in Some (Inr (scheduleForwardingTransactions s [] buf timestamp))))"

definition handlePayload ::
  "simEnv \<Rightarrow> serverId \<Rightarrow> simPayload \<Rightarrow> serverId option \<Rightarrow> duration \<Rightarrow> simGenerator \<Rightarrow> simServer \<Rightarrow>
   (simGenerator \<times> simServer \<times> simMsg list) run" where
  "handlePayload env me pl from timestamp txgen s =
     (case pl of
        BlockArrival n \<Rightarrow>
          bindO (arriveMany timestamp (nat n) txgen s []) (\<lambda>(txgen, s, txs).
          let (s, outbox) = scheduleForwardingTransactions s [] txs timestamp in
          bindO (Some (nextArrival env me s)) (\<lambda>(s, intv).
            Some (Inr (txgen, s, outbox @ [\<lparr>Payload = BlockArrival (blockArrivalBurst (config s)), To = None, Delay = intv\<rparr>]))))
      | Loopback tx \<Rightarrow> bindO (forwardTransaction env me s tx) (\<lambda>s. Some (Inr (txgen, s, [])))
      | CreateNewBlock \<Rightarrow>
          (let (s, ps) = rangeHandlers env me s in
           bindO (eachSender (sim_tryFillSendWindow True) ps s) (\<lambda>s.
             Some (Inr (txgen, s, [\<lparr>Payload = CreateNewBlock, To = None, Delay = forceSynchronize (config s)\<rparr>]))))
      | SimCodeword m \<Rightarrow>
          (case from of None \<Rightarrow> Some (Inl NilDereference)
             | Some p \<Rightarrow> bindO (handleCodeword p m timestamp s) (\<lambda>(s, out). Some (Inr (txgen, s, out))))
      | SimAck m \<Rightarrow>
          (case from of None \<Rightarrow> Some (Inl NilDereference)
             | Some p \<Rightarrow>
                 bindO (withPeer s p (\<lambda>h. bindO (sim_onAck (sender_of h) m (canStartNewBlock s)) (\<lambda>n.
                                          Some (Inr ((), h\<lparr>sender_of := n\<rparr>)))))
                   (\<lambda>(_, s). Some (Inr (txgen, s, [])))))"

section \<open>All servers\<close>

record simWorld =
  servers :: "simServer list"
  txgen_of :: simGenerator

text \<open>
  The overlap of a starting block with what the peer has decoded. A message without a
  receiver fails the type assertion, and a missing handler is a nil pointer.
\<close>

definition overlapOf :: "simServer list \<Rightarrow> serverId \<Rightarrow> serverId \<Rightarrow> float64 result" where
  "overlapOf ss me p =
     bindR (deref ss me) (\<lambda>s.
     bindR (deref ss p) (\<lambda>peerServer.
       case handlers s p of None \<Rightarrow> Inl NilDereference
       | Some ourHandler \<Rightarrow>
           let block = currentBlock (sender_of ourHandler);
               overlap = length (filter (lt_HasDecoded (decoder peerServer)) block)
           in if block \<noteq> [] \<and> handlers peerServer me = None then Inl NilDereference
              else Inr (f_div (f_of_int (int overlap)) (f_of_int (int (length block))))))"

fun recordOverlaps :: "serverId \<Rightarrow> duration \<Rightarrow> simMsg list \<Rightarrow> simServer list \<Rightarrow> simServer list result" where
  "recordOverlaps me timestamp [] ss = Inr ss"
| "recordOverlaps me timestamp (msg # msgs) ss =
     bindR (case Payload msg of
              SimCodeword cw \<Rightarrow>
                if newBlock cw then
                  (case To msg of None \<Rightarrow> Inl (Panic ''interface conversion'')
                   | Some p \<Rightarrow> bindR (overlapOf ss me p) (\<lambda>ratio.
                       Inr (ss[me := (ss ! me)\<lparr>overlapSketch := sim_recordRaw (overlapSketch (ss ! me)) ratio timestamp\<rparr>])))
                else Inr ss
            | _ \<Rightarrow> Inr ss)
       (recordOverlaps me timestamp msgs)"

definition sim_HandleMessage :: "simEnv \<Rightarrow> (simWorld, simPayload, serverId) handler" where
  "sim_HandleMessage env me pl from timestamp w =
     bindO (Some (deref (servers w) me)) (\<lambda>s.
     bindO (handlePayload env me pl from timestamp (txgen_of w) s) (\<lambda>(txgen, s, outbox).
     bindO (collectOutgoingMessages env me s outbox) (\<lambda>(s, outbox).
       let ss = (servers w)[me := s] in
       bindO (Some (if overlapSketch s \<noteq> None then recordOverlaps me timestamp outbox ss else Inr ss)) (\<lambda>ss.
         Some (Inr (w\<lparr>servers := ss, txgen_of := txgen\<rparr>, outbox))))))"

section \<open>Building and running the network\<close>

definition freshServer :: "simEnv \<Rightarrow> serverConfig \<Rightarrow> simServer" where
  "freshServer env cfg =
     \<lparr>handlers = Map.empty, decoder = lt_NewDecoder (env_sip env) (decoderMemory cfg), received = {}, expCount = 0,
      rangeCount = 0, config = cfg, latencySketch = None, overlapSketch = None,
      metric = \<lparr>decodedTransactions = 0, receivedCodewords = 0\<rparr>,
      forwardRateLimiter = \<lparr>lastScheduled = 0, minInterval = 0\<rparr>\<rparr>"

fun newServers ::
  "simEnv \<Rightarrow> serverConfig \<Rightarrow> nat \<Rightarrow> nat \<Rightarrow> (simPayload, serverId) Simulator \<Rightarrow> simServer list \<Rightarrow>
   ((simPayload, serverId) Simulator \<times> simServer list) result" where
  "newServers env cfg 0 i simulator res = Inr (simulator, res)"
| "newServers env cfg (Suc n) i simulator res =
     bindR (nextArrival env i (freshServer env cfg)) (\<lambda>(s, intv).
       let simulator = ScheduleMessage simulator
             \<lparr>Payload = BlockArrival (blockArrivalBurst cfg), To = None, Delay = intv\<rparr> (Some i);
           simulator = (if forceSynchronize cfg \<noteq> 0
             then ScheduleMessage simulator \<lparr>Payload = CreateNewBlock, To = None, Delay = forceSynchronize cfg\<rparr> (Some i)
             else simulator)
       in newServers env cfg n (Suc i) simulator (res @ [s]))"

text \<open>The part of \<open>main\<close> that gives every server its sketches and its rate limit, and connects them.\<close>

definition equipServer :: "duration \<Rightarrow> duration \<Rightarrow> simServer \<Rightarrow> simServer" where
  "equipServer warmup minIntv s =
     s\<lparr>latencySketch := Some (newDistributionSketch warmup), overlapSketch := Some (newDistributionSketch warmup),
       forwardRateLimiter := (forwardRateLimiter s)\<lparr>minInterval := minIntv\<rparr>\<rparr>"

fun connectAll :: "simEnv \<Rightarrow> (serverId \<times> serverId \<times> duration) list \<Rightarrow> simServer list \<Rightarrow> simServer list result" where
  "connectAll env [] ss = Inr ss"
| "connectAll env ((a, b, delay) # conns) ss =
     (if a < length ss \<and> b < length ss then connectAll env conns (connectServers env a b delay ss)
      else Inl IndexOutOfRange)"

definition setupNetwork ::
  "simEnv \<Rightarrow> serverConfig \<Rightarrow> duration \<Rightarrow> float64 \<Rightarrow> (serverId \<times> serverId \<times> duration) list \<Rightarrow> nat \<Rightarrow>
   ((simPayload, serverId) Simulator \<times> simWorld) result" where
  "setupNetwork env cfg warmup smoothingRate topo N =
     bindR (newServers env cfg N 0 emptySimulator []) (\<lambda>(s, ss).
     bindR (if ss = [] then Inr 0 else f_to_int (f_mul (f_div (Fin 1) smoothingRate) (Fin 1000000000))) (\<lambda>minIntv.
     bindR (connectAll env topo (map (equipServer warmup (word_of_int minIntv)) ss)) (\<lambda>ss.
       Inr (s, \<lparr>servers = ss, txgen_of = newTransactionGenerator\<rparr>))))"

text \<open>The reporting loop of \<open>main\<close>; \<open>printed\<close> is what it prints, the time and the codeword rate.\<close>

partial_function (option) reportLoop ::
  "simEnv \<Rightarrow> duration \<Rightarrow> duration \<Rightarrow> duration \<Rightarrow> duration \<Rightarrow> bool \<Rightarrow> difference \<Rightarrow>
   (simPayload, serverId) Simulator \<Rightarrow> simWorld \<Rightarrow> (float64 \<times> float64) list \<Rightarrow>
   ((simPayload, serverId) Simulator \<times> simWorld \<times> (float64 \<times> float64) list) run" where
  "reportLoop env simDuration reportInterval warmup cur warmed rate s w printed =
     (if sint cur < sint simDuration
      then bindO (RunUntil (sim_HandleMessage env) cur s w) (\<lambda>(s, w).
             if sint cur > sint warmup
             then let w = (if \<not> warmed
                           then w\<lparr>servers := map (\<lambda>s. s\<lparr>metric := resetMetric (metric s)\<rparr>) (servers w)\<rparr> else w)
                  in bindO (Some (get (servers w) 0)) (\<lambda>s0.
                     let rate = difference_record rate (receivedCodewords (metric s0));
                         (rate, printed) =
                           (if \<not> warmed then (rate, printed)
                            else let (rate, d) = difference_get rate
                                 in (rate, printed @ [(seconds (Time s), f_div (f_of_int d) (seconds reportInterval))]))
                     in reportLoop env simDuration reportInterval warmup (cur + reportInterval) True rate s w printed)
             else reportLoop env simDuration reportInterval warmup (cur + reportInterval) warmed rate s w printed)
      else Some (Inr (s, w, printed)))"

end
