(* ===== verification/Lt_Invariant.thy ===== *)
theory Lt_Invariant
  imports Lt_Decoder
begin

text \<open>
  The decoder of \<open>lt/decoder.go\<close> never panics and its decoding loop returns: the pointers
  between pending transactions and codewords stay consistent, and no hash is both received and
  pending. The input is arbitrary: codewords may name a member twice or lie about the symbol.
\<close>

section \<open>The invariant\<close>

abbreviation mem_of :: "'d ltDecoder \<Rightarrow> nat \<Rightarrow> nat list" where
  "mem_of p c \<equiv> members (cwHeap p ! c)"

abbreviation hash_of :: "'d ltDecoder \<Rightarrow> nat \<Rightarrow> u32" where
  "hash_of p t \<equiv> stubHash (txHeap p ! t)"

text \<open>A pending transaction that the map points to.\<close>

definition live :: "'d ltDecoder \<Rightarrow> nat \<Rightarrow> bool" where
  "live p t \<longleftrightarrow> t < length (txHeap p) \<and> pendingTransactions p (hash_of p t) = Some t"

definition maps_ok :: "'d ltDecoder \<Rightarrow> bool" where
  "maps_ok p \<longleftrightarrow>
     (\<forall>h. pendingTransactions p h \<noteq> None \<longrightarrow> receivedTransactions p h = None) \<and>
     (\<forall>h t. pendingTransactions p h = Some t \<longrightarrow> t < length (txHeap p) \<and> hash_of p t = h)"

lemma live_not_received: "maps_ok p \<Longrightarrow> live p t \<Longrightarrow> receivedTransactions p (hash_of p t) = None"
  by (simp add: maps_ok_def live_def)

text \<open>\<open>bs\<close> lists the codewords that contain \<open>t\<close>, each as often as it does.\<close>

definition blocks :: "'d ltDecoder \<Rightarrow> nat \<Rightarrow> nat list \<Rightarrow> bool" where
  "blocks p t bs \<longleftrightarrow>
     (\<forall>c\<in>set bs. c < length (cwHeap p)) \<and>
     (\<forall>c<length (cwHeap p). count (mset bs) c = count (mset (mem_of p c)) t)"

text \<open>\<open>D\<close>: transactions that are being peeled and no longer pending.\<close>

definition links_ok :: "nat set \<Rightarrow> 'd ltDecoder \<Rightarrow> bool" where
  "links_ok D p \<longleftrightarrow>
     (\<forall>c<length (cwHeap p). \<forall>t\<in>set (mem_of p c). live p t \<or> t \<in> D) \<and>
     (\<forall>t. live p t \<longrightarrow> (\<exists>bs. blocking (txHeap p ! t) = map Some bs \<and> blocks p t bs))"

text \<open>The state of a codeword, given whether it is in the queue.\<close>

definition cw_ok :: "bool \<Rightarrow> 'd PendingCodeword \<Rightarrow> bool" where
  "cw_ok inQueue cw \<longleftrightarrow>
     (if inQueue then queued cw \<and> \<not> decoded cw \<and> length (members cw) \<le> 1
      else if queued cw then members cw = [] \<and> decoded cw
      else 2 \<le> length (members cw) \<and> \<not> decoded cw)"

text \<open>\<open>E\<close>: the codeword that is being processed.\<close>

definition queue_ok :: "nat set \<Rightarrow> 'd ltDecoder \<Rightarrow> nat list \<Rightarrow> bool" where
  "queue_ok E p Q \<longleftrightarrow>
     distinct Q \<and> set Q \<inter> E = {} \<and> (\<forall>c\<in>set Q. c < length (cwHeap p)) \<and>
     (\<forall>c<length (cwHeap p). c \<notin> E \<longrightarrow> cw_ok (c \<in> set Q) (cwHeap p ! c))"

definition lt_wf :: "nat set \<Rightarrow> nat set \<Rightarrow> 'd ltDecoder \<Rightarrow> nat list \<Rightarrow> bool" where
  "lt_wf E D p Q \<longleftrightarrow> maps_ok p \<and> links_ok D p \<and> queue_ok E p Q \<and> 0 \<le> memory p"

text \<open>Between two calls nothing is queued, in work, or being peeled.\<close>

abbreviation lt_ok :: "'d ltDecoder \<Rightarrow> bool" where
  "lt_ok p \<equiv> lt_wf {} {} p []"

text \<open>The codewords that can still be queued: the decoding loop runs at most once for each.\<close>

definition unqueued :: "'d ltDecoder \<Rightarrow> nat" where
  "unqueued p = length (filter (\<lambda>cw. \<not> queued cw) (cwHeap p))"

lemma length_filter_update:
  "c < length xs \<Longrightarrow> length (filter P (xs[c := y])) + (if P (xs ! c) then 1 else 0) =
     length (filter P xs) + (if P y then 1 else 0)"
proof (induction xs arbitrary: c)
  case (Cons x xs)
  show ?case
  proof (cases c)
    case (Suc c')
    then show ?thesis using Cons.IH [of c'] Cons.prems by simp
  qed simp
qed simp

lemma unqueued_update:
  "c < length (cwHeap p) \<Longrightarrow>
   unqueued (p\<lparr>cwHeap := (cwHeap p)[c := cw], txHeap := th\<rparr>) + (if queued (cwHeap p ! c) then 0 else 1) =
   unqueued p + (if queued cw then 0 else 1)"
  using length_filter_update [of c "cwHeap p" "\<lambda>cw. \<not> queued cw" cw] by (auto simp: unqueued_def)

section \<open>Peeling one transaction\<close>

text \<open>
  What peeling the transaction \<open>t\<close> leaves as it was. \<open>residual f p c\<close>: the symbol of \<open>c\<close> with
  the values \<open>f\<close> of its members taken out; it does not change when \<open>f t\<close> is the peeled data.
\<close>

definition residual :: "'d dataOps \<Rightarrow> (nat \<Rightarrow> 'd) \<Rightarrow> 'd ltDecoder \<Rightarrow> nat \<Rightarrow> 'd" where
  "residual T f p c = data_XOR T (symbol (cwHeap p ! c)) (xorAll T (image_mset f (mset (mem_of p c))))"

definition cw_frame :: "nat \<Rightarrow> 'd PendingCodeword \<Rightarrow> 'd PendingCodeword \<Rightarrow> bool" where
  "cw_frame t cw cw' \<longleftrightarrow>
     mset (members cw') \<subseteq># mset (members cw) \<and>
     filter_mset (\<lambda>x. x \<noteq> t) (mset (members cw')) = filter_mset (\<lambda>x. x \<noteq> t) (mset (members cw)) \<and>
     (queued cw \<longrightarrow> queued cw') \<and> decoded cw' = decoded cw"

lemma cw_frame_refl [simp]: "cw_frame t cw cw"
  by (simp add: cw_frame_def)

lemma cw_frame_trans: "cw_frame t cw cw1 \<Longrightarrow> cw_frame t cw1 cw2 \<Longrightarrow> cw_frame t cw cw2"
  unfolding cw_frame_def by (simp, metis subset_mset.trans)

definition same_maps :: "'d ltDecoder \<Rightarrow> 'd ltDecoder \<Rightarrow> bool" where
  "same_maps p p' \<longleftrightarrow>
     receivedTransactions p' = receivedTransactions p \<and> recentTransactions p' = recentTransactions p \<and>
     pendingTransactions p' = pendingTransactions p \<and> dhasher p' = dhasher p \<and> memory p' = memory p \<and>
     map stubHash (txHeap p') = map stubHash (txHeap p) \<and> length (cwHeap p') = length (cwHeap p)"

definition frame :: "nat \<Rightarrow> 'd ltDecoder \<Rightarrow> 'd ltDecoder \<Rightarrow> bool" where
  "frame t p p' \<longleftrightarrow>
     same_maps p p' \<and> (\<forall>t'. t' \<noteq> t \<longrightarrow> txHeap p' ! t' = txHeap p ! t') \<and>
     (\<forall>c<length (cwHeap p). cw_frame t (cwHeap p ! c) (cwHeap p' ! c))"

lemma frame_refl [simp]: "frame t p p"
  by (simp add: frame_def same_maps_def)

lemma frame_trans: "frame t p p1 \<Longrightarrow> frame t p1 p2 \<Longrightarrow> frame t p p2"
  unfolding frame_def same_maps_def using cw_frame_trans by (metis (no_types, lifting))

lemma same_maps_length: "same_maps p p' \<Longrightarrow> length (txHeap p') = length (txHeap p)"
  unfolding same_maps_def by (metis length_map)

lemma same_maps_hash: "same_maps p p' \<Longrightarrow> x < length (txHeap p) \<Longrightarrow> hash_of p' x = hash_of p x"
  using same_maps_length [of p p'] unfolding same_maps_def by (metis nth_map)

lemma same_maps_live: "same_maps p p' \<Longrightarrow> live p' x \<longleftrightarrow> live p x"
  using same_maps_length [of p p'] same_maps_hash [of p p' x] by (auto simp: live_def same_maps_def)

lemma same_maps_ok:
  assumes "same_maps p p'"
  shows "maps_ok p' \<longleftrightarrow> maps_ok p"
proof -
  have "(x < length (txHeap p') \<and> hash_of p' x = h) = (x < length (txHeap p) \<and> hash_of p x = h)" for x h
    using same_maps_length [OF assms] same_maps_hash [OF assms, of x] by auto
  then show ?thesis using assms by (simp add: maps_ok_def same_maps_def)
qed

lemma links_frame:
  assumes links: "links_ok {t} p" and dead: "\<not> live p t" and fr: "frame t p p'"
  shows "links_ok {t} p'"
proof -
  have sm: "same_maps p p'" and th: "\<forall>x. x \<noteq> t \<longrightarrow> txHeap p' ! x = txHeap p ! x"
    and cw: "\<forall>c<length (cwHeap p). cw_frame t (cwHeap p ! c) (cwHeap p' ! c)"
    using fr by (simp_all add: frame_def)
  have len: "length (cwHeap p') = length (cwHeap p)" using sm by (simp add: same_maps_def)
  have "live p' x \<or> x \<in> {t}" if "c < length (cwHeap p')" "x \<in> set (mem_of p' c)" for c x
  proof -
    have "mset (mem_of p' c) \<subseteq># mset (mem_of p c)" using cw that(1) len by (simp add: cw_frame_def)
    then have "x \<in> set (mem_of p c)" using that(2) by (metis mset_subset_eqD set_mset_mset)
    then show ?thesis using links that(1) len by (simp add: links_ok_def same_maps_live [OF sm])
  qed
  moreover have "\<exists>bs. blocking (txHeap p' ! x) = map Some bs \<and> blocks p' x bs" if "live p' x" for x
  proof -
    have x: "live p x" "x \<noteq> t" using that dead same_maps_live [OF sm] by auto
    then obtain bs where bs: "blocking (txHeap p ! x) = map Some bs" "blocks p x bs"
      using links by (auto simp: links_ok_def)
    have "count (mset (mem_of p' c)) x = count (mset (mem_of p c)) x" if "c < length (cwHeap p)" for c
    proof -
      have "count (filter_mset (\<lambda>y. y \<noteq> t) (mset (mem_of p' c))) x = count (filter_mset (\<lambda>y. y \<noteq> t) (mset (mem_of p c))) x"
        using cw that by (simp add: cw_frame_def)
      then show ?thesis using x(2) by simp
    qed
    then have "blocks p' x bs" using bs(2) by (simp add: blocks_def len)
    then show ?thesis using bs(1) th x(2) by simp
  qed
  ultimately show ?thesis by (simp add: links_ok_def)
qed

text \<open>The codeword after one entry of the blocking list, and the queue.\<close>

definition peeled :: "'d dataOps \<Rightarrow> 'd \<Rightarrow> nat \<Rightarrow> 'd PendingCodeword \<Rightarrow> 'd PendingCodeword" where
  "peeled T d idx cw =
     (let cw = cw\<lparr>members := swapRemove (members cw) idx, symbol := data_XOR T (symbol cw) d\<rparr>
      in if length (members cw) \<le> 1 \<and> \<not> queued cw then cw\<lparr>queued := True\<rparr> else cw)"

lemma markOne_eq:
  assumes "c < length (cwHeap p)" "indexOf t (mem_of p c) = Some k" "t < length (txHeap p)"
  shows "markOne T t d idx (Some c) p Q = Inr
    (p\<lparr>cwHeap := (cwHeap p)[c := peeled T d k (cwHeap p ! c)],
       txHeap := (txHeap p)[t := (txHeap p ! t)\<lparr>blocking := (blocking (txHeap p ! t))[idx := None]\<rparr>]\<rparr>,
     if length (mem_of p c) \<le> 2 \<and> \<not> queued (cwHeap p ! c) then Q @ [c] else Q)"
  using assms by (auto simp: markOne_def peelTransaction_def peeled_def Let_def)

lemma peeled_fields:
  assumes "indexOf t (members cw) = Some k"
  shows "mset (members (peeled T d k cw)) = mset (members cw) - {#t#}"
    "length (members (peeled T d k cw)) = length (members cw) - 1"
    "queued (peeled T d k cw) \<longleftrightarrow> queued cw \<or> length (members cw) \<le> 2"
    "decoded (peeled T d k cw) = decoded cw" "symbol (peeled T d k cw) = data_XOR T (symbol cw) d"
    "cw_frame t cw (peeled T d k cw)"
proof -
  have k: "k < length (members cw)" "members cw ! k = t" using indexOf_Some [OF assms] by simp_all
  show ms: "mset (members (peeled T d k cw)) = mset (members cw) - {#t#}"
    using mset_swapRemove_eq [OF k(1)] k(2) by (simp add: peeled_def Let_def)
  show q: "queued (peeled T d k cw) \<longleftrightarrow> queued cw \<or> length (members cw) \<le> 2"
    using k(1) by (auto simp: peeled_def Let_def)
  show "length (members (peeled T d k cw)) = length (members cw) - 1"
    "decoded (peeled T d k cw) = decoded cw" "symbol (peeled T d k cw) = data_XOR T (symbol cw) d"
    by (simp_all add: peeled_def Let_def)
  then show "cw_frame t cw (peeled T d k cw)" unfolding cw_frame_def ms q by (simp add: multiset_eq_iff)
qed

lemma markOne_wf:
  assumes wf: "lt_wf E {t} p Q" and dead: "\<not> live p t" "t < length (txHeap p)"
    and c: "c < length (cwHeap p)" "t \<in> set (mem_of p c)" and E: "\<forall>e\<in>E. queued (cwHeap p ! e)"
  obtains p' Q' where "markOne T t d idx (Some c) p Q = Inr (p', Q')" "lt_wf E {t} p' Q'" "frame t p p'"
    "mset (mem_of p' c) = mset (mem_of p c) - {#t#}" "symbol (cwHeap p' ! c) = data_XOR T (symbol (cwHeap p ! c)) d"
    "\<forall>x. x \<noteq> c \<longrightarrow> cwHeap p' ! x = cwHeap p ! x"
    "length Q' + unqueued p' = length Q + unqueued p"
proof -
  obtain k where k: "indexOf t (mem_of p c) = Some k" using indexOf_in [OF c(2)] by blast
  note f = peeled_fields [OF k, of T d]
  let ?cw = "cwHeap p ! c" and ?cw' = "peeled T d k (cwHeap p ! c)"
  let ?p = "p\<lparr>cwHeap := (cwHeap p)[c := ?cw'],
       txHeap := (txHeap p)[t := (txHeap p ! t)\<lparr>blocking := (blocking (txHeap p ! t))[idx := None]\<rparr>]\<rparr>"
  let ?Q = "if length (mem_of p c) \<le> 2 \<and> \<not> queued ?cw then Q @ [c] else Q"
  have parts: "maps_ok p" "links_ok {t} p" "queue_ok E p Q" "0 \<le> memory p" using wf by (simp_all add: lt_wf_def)
  have "same_maps p ?p" using dead(2) by (simp add: same_maps_def map_update [symmetric] flip: map_update)
    (metis list_update_id map_update pendingTransaction.select_convs(1) pendingTransaction.surjective pendingTransaction.update_convs(2))
  note sm = this
  then have fr: "frame t p ?p" using f(6) c(1) by (auto simp: frame_def nth_list_update)
  have ne: "mem_of p c \<noteq> []" using c(2) by auto
  have "queue_ok E ?p ?Q"
  proof -
    have q: "distinct Q" "set Q \<inter> E = {}" "\<forall>c\<in>set Q. c < length (cwHeap p)"
      "\<And>x. x < length (cwHeap p) \<Longrightarrow> x \<notin> E \<Longrightarrow> cw_ok (x \<in> set Q) (cwHeap p ! x)"
      using parts(3) by (auto simp: queue_ok_def)
    have new: "c \<notin> set Q \<and> c \<notin> E" if "\<not> queued ?cw" using q(4) [OF c(1)] E that by (auto simp: cw_ok_def)
    have "cw_ok (x \<in> set ?Q) (cwHeap ?p ! x)" if x: "x < length (cwHeap p)" "x \<notin> E" for x
    proof (cases "x = c")
      case True
      then show ?thesis using q(4) [OF x] f(2-4) ne x(1) by (auto simp: cw_ok_def split: if_splits)
    next
      case False
      then show ?thesis using q(4) [OF x] by simp
    qed
    then show ?thesis using q(1-3) new c(1) by (auto simp: queue_ok_def)
  qed
  moreover have "maps_ok ?p" "links_ok {t} ?p"
    using parts(1) links_frame [OF parts(2) dead(1) fr] same_maps_ok [OF sm] by blast+
  ultimately have "lt_wf E {t} ?p ?Q" using parts(4) by (simp add: lt_wf_def)
  moreover have "length ?Q + unqueued ?p = length Q + unqueued p"
    using unqueued_update [OF c(1), where cw = ?cw'] f(3) by (auto split: if_splits)
  ultimately show ?thesis
    using that [of ?p ?Q] markOne_eq [OF c(1) k dead(2), of T d idx Q] fr f(1,5) c(1) by simp
qed

text \<open>The whole blocking list: afterwards no codeword contains the transaction.\<close>

lemma markLoop_wf:
  assumes "lt_wf E {t} p Q" "\<not> live p t" "t < length (txHeap p)" "\<forall>e\<in>E. queued (cwHeap p ! e)" "blocks p t bs"
  shows "\<exists>p' Q'. markLoop T t d idx (map Some bs) p Q = Inr (p', Q') \<and> lt_wf E {t} p' Q' \<and> frame t p p' \<and>
    (\<forall>c<length (cwHeap p). t \<notin> set (mem_of p' c)) \<and> length Q' + unqueued p' = length Q + unqueued p \<and>
    (data_laws T \<longrightarrow> (\<forall>f. f t = d \<longrightarrow> (\<forall>c<length (cwHeap p). residual T f p' c = residual T f p c)))"
  using assms
proof (induction bs arbitrary: p Q idx)
  case Nil
  then have "\<forall>c<length (cwHeap p). t \<notin> set (mem_of p c)" by (simp add: blocks_def count_eq_zero_iff)
  then show ?case using Nil by simp
next
  case (Cons c bs)
  have c: "c < length (cwHeap p)" using Cons.prems(5) by (simp add: blocks_def)
  have "count (mset (c # bs)) c = count (mset (mem_of p c)) t" using Cons.prems(5) c unfolding blocks_def by blast
  then have "0 < count (mset (mem_of p c)) t" by (metis count_add_mset lessI mset.simps(2) not_less_zero neq0_conv nat.distinct(1))
  then have tc: "t \<in> set (mem_of p c)" unfolding count_greater_zero_iff by simp
  obtain p1 Q1 where 1: "markOne T t d idx (Some c) p Q = Inr (p1, Q1)" "lt_wf E {t} p1 Q1" "frame t p p1"
    "mset (mem_of p1 c) = mset (mem_of p c) - {#t#}" "symbol (cwHeap p1 ! c) = data_XOR T (symbol (cwHeap p ! c)) d"
    "\<forall>x. x \<noteq> c \<longrightarrow> cwHeap p1 ! x = cwHeap p ! x"
    "length Q1 + unqueued p1 = length Q + unqueued p"
    by (rule markOne_wf [OF Cons.prems(1-3) c tc Cons.prems(4)])
  have sm: "same_maps p p1" using 1(3) by (simp add: frame_def)
  have len: "length (cwHeap p1) = length (cwHeap p)" using sm by (simp add: same_maps_def)
  have dead: "\<not> live p1 t" "t < length (txHeap p1)"
    using Cons.prems(2,3) same_maps_live [OF sm] same_maps_length [OF sm] by simp_all
  have E: "\<forall>e\<in>E. queued (cwHeap p1 ! e)"
    using Cons.prems(4) 1(3,6) c by (metis cw_frame_def frame_def)
  have "count (mset bs) x = count (mset (mem_of p1 x)) t" if "x < length (cwHeap p)" for x
  proof -
    have "count (mset (c # bs)) x = count (mset (mem_of p x)) t" using Cons.prems(5) that by (simp add: blocks_def)
    then show ?thesis using 1(4,6) by (cases "x = c") auto
  qed
  then have bs: "blocks p1 t bs" using Cons.prems(5) by (simp add: blocks_def len)
  obtain p' Q' where 2: "markLoop T t d (Suc idx) (map Some bs) p1 Q1 = Inr (p', Q')" "lt_wf E {t} p' Q'" "frame t p1 p'"
    "\<forall>c<length (cwHeap p). t \<notin> set (mem_of p' c)" "length Q' + unqueued p' = length Q1 + unqueued p1"
    "data_laws T \<longrightarrow> (\<forall>f. f t = d \<longrightarrow> (\<forall>c<length (cwHeap p). residual T f p' c = residual T f p1 c))"
    using Cons.IH [OF 1(2) dead E bs, of "Suc idx"] len by auto
  have "residual T f p1 x = residual T f p x" if "data_laws T" "f t = d" "x < length (cwHeap p)" for f x
  proof (cases "x = c")
    case True
    have "mset (mem_of p c) = add_mset t (mset (mem_of p1 c))" using tc 1(4) by simp
    then show ?thesis using True that 1(5)
      by (simp add: residual_def data_laws.xorAll_add [OF that(1)] data_laws.assoc [OF that(1)])
  qed (use 1(6) in \<open>simp add: residual_def\<close>)
  then have "data_laws T \<longrightarrow> (\<forall>f. f t = d \<longrightarrow> (\<forall>c<length (cwHeap p). residual T f p' c = residual T f p c))"
    using 2(6) by simp
  then show ?case using 1(1,7) 2 frame_trans [OF 1(3) 2(3)] by simp
qed

lemma links_undead:
  "links_ok {t} p \<Longrightarrow> \<forall>c<length (cwHeap p). t \<notin> set (mem_of p c) \<Longrightarrow> links_ok {} p"
  by (auto simp: links_ok_def)

lemma markDecoded_wf:
  assumes "lt_wf E {t} p Q" "\<not> live p t" "t < length (txHeap p)" "\<forall>e\<in>E. queued (cwHeap p ! e)"
    and "blocking (txHeap p ! t) = map Some bs" "blocks p t bs"
  obtains p' Q' where "markDecoded T p t d Q = Inr (p', Q')" "lt_wf E {} p' Q'" "frame t p p'"
    "\<forall>c<length (cwHeap p). mset (mem_of p' c) = filter_mset (\<lambda>x. x \<noteq> t) (mset (mem_of p c))"
    "length Q' + unqueued p' = length Q + unqueued p"
    "data_laws T \<longrightarrow> (\<forall>f. f t = d \<longrightarrow> (\<forall>c<length (cwHeap p). residual T f p' c = residual T f p c))"
proof -
  obtain p' Q' where m: "markLoop T t d 0 (map Some bs) p Q = Inr (p', Q')" "lt_wf E {t} p' Q'" "frame t p p'"
    "\<forall>c<length (cwHeap p). t \<notin> set (mem_of p' c)" "length Q' + unqueued p' = length Q + unqueued p"
    "data_laws T \<longrightarrow> (\<forall>f. f t = d \<longrightarrow> (\<forall>c<length (cwHeap p). residual T f p' c = residual T f p c))"
    using markLoop_wf [OF assms(1-4,6), of T d 0] by blast
  have run: "markDecoded T p t d Q = Inr (p', Q')" using m(1) assms(3,5) by (simp add: markDecoded_def)
  have len: "length (cwHeap p') = length (cwHeap p)" using m(3) by (simp add: frame_def same_maps_def)
  have "links_ok {} p'" using m(2,4) links_undead [of t p'] len by (simp add: lt_wf_def)
  then have wf: "lt_wf E {} p' Q'" using m(2) by (simp add: lt_wf_def)
  have "mset (mem_of p' c) = filter_mset (\<lambda>x. x \<noteq> t) (mset (mem_of p c))" if "c < length (cwHeap p)" for c
  proof -
    have "filter_mset (\<lambda>x. x \<noteq> t) (mset (mem_of p' c)) = mset (mem_of p' c)"
      using m(4) that by (auto simp: multiset_eq_iff count_eq_zero_iff)
    then show ?thesis using m(3) that by (simp add: frame_def cw_frame_def)
  qed
  then show ?thesis using that run wf m(3,5,6) by blast
qed

section \<open>Storing a transaction\<close>

lemma forgetOld_spec:
  "0 \<le> mem \<Longrightarrow> \<exists>rv. forgetOld T mem xs received = Inr (drop (length xs - nat mem) xs, rv) \<and>
     (\<forall>k. rv k = None \<or> rv k = received k) \<and> (int (length xs) \<le> mem \<longrightarrow> rv = received)"
proof (induction xs arbitrary: received)
  case (Cons x xs)
  show ?case
  proof (cases "int (length (x # xs)) > mem")
    case True
    let ?e = "case received (saltedHash x) of None \<Rightarrow> zeroTx T | Some e \<Rightarrow> e"
    let ?r = "if data ?e = data (tx_of x) then received(saltedHash x := None) else received"
    obtain rv where rv: "forgetOld T mem xs ?r = Inr (drop (length xs - nat mem) xs, rv)"
      "\<forall>k. rv k = None \<or> rv k = ?r k" using Cons by blast
    have "\<forall>k. ?r k = None \<or> ?r k = received k" by simp
    then have "\<forall>k. rv k = None \<or> rv k = received k" using rv(2) by metis
    moreover have "length (x # xs) - nat mem = Suc (length xs - nat mem)" using True Cons.prems by auto
    ultimately show ?thesis using rv(1) True by (simp add: Let_def)
  qed (use Cons.prems in simp)
qed simp

text \<open>The effect of storing \<open>t\<close> under \<open>h\<close>, with forgetting and without.\<close>

definition stores :: "u32 \<Rightarrow> 'd ltTransaction \<Rightarrow> 'd ltDecoder \<Rightarrow> 'd saltedTransaction list \<Rightarrow> (u32 \<rightharpoonup> 'd ltTransaction) \<Rightarrow> bool" where
  "stores h t p rc rv \<longleftrightarrow>
     (let xs = recentTransactions p @ [\<lparr>saltedHash = h, tx_of = t\<rparr>] in
      rc = drop (length xs - nat (memory p)) xs \<and>
      (\<forall>k. rv k = None \<or> rv k = ((receivedTransactions p)(h \<mapsto> t)) k) \<and>
      (int (length xs) \<le> memory p \<longrightarrow> rv = (receivedTransactions p)(h \<mapsto> t)))"

lemma storeNew_spec:
  assumes "0 \<le> memory p"
  obtains rc rv where "storeNewTransaction T p h t = Inr (p\<lparr>recentTransactions := rc, receivedTransactions := rv\<rparr>)"
    "stores h t p rc rv"
  using forgetOld_spec [OF assms, of T "recentTransactions p @ [\<lparr>saltedHash = h, tx_of = t\<rparr>]" "(receivedTransactions p)(h \<mapsto> t)"]
  by (auto simp: storeNewTransaction_def stores_def Let_def)

lemma stores_None: "stores h t p rc rv \<Longrightarrow> k \<noteq> h \<Longrightarrow> receivedTransactions p k = None \<Longrightarrow> rv k = None"
  unfolding stores_def Let_def by (metis fun_upd_apply)

section \<open>A pending transaction that is decoded\<close>

lemma retire:
  assumes wf: "lt_wf E {} p Q" and pend: "pendingTransactions p h = Some t" and st: "stores h tx p rc rv"
  defines "p1 \<equiv> p\<lparr>pendingTransactions := (pendingTransactions p)(h := None), recentTransactions := rc, receivedTransactions := rv\<rparr>"
  shows "lt_wf E {t} p1 Q \<and> \<not> live p1 t \<and> t < length (txHeap p1) \<and> hash_of p t = h \<and> live p t \<and>
    (\<exists>bs. blocking (txHeap p1 ! t) = map Some bs \<and> blocks p1 t bs)"
proof -
  have parts: "maps_ok p" "links_ok {} p" "queue_ok E p Q" "0 \<le> memory p" using wf by (simp_all add: lt_wf_def)
  have t: "t < length (txHeap p)" "hash_of p t = h" using parts(1) pend by (auto simp: maps_ok_def)
  have lt: "live p t" using t pend by (simp add: live_def)
  have live1: "live p1 x \<longleftrightarrow> live p x \<and> x \<noteq> t" for x using t pend by (auto simp: live_def p1_def)
  have same: "txHeap p1 = txHeap p" "cwHeap p1 = cwHeap p" by (simp_all add: p1_def)
  have "maps_ok p1" using parts(1) stores_None [OF st] by (auto simp: maps_ok_def p1_def)
  moreover have "links_ok {t} p1" using parts(2) by (auto simp: links_ok_def live1 same blocks_def)
  moreover have "queue_ok E p1 Q" using parts(3) by (simp add: queue_ok_def same)
  moreover have "\<exists>bs. blocking (txHeap p1 ! t) = map Some bs \<and> blocks p1 t bs"
    using parts(2) lt by (auto simp: links_ok_def same blocks_def)
  ultimately show ?thesis using parts(4) live1 t lt by (simp add: lt_wf_def p1_def)
qed

lemma finish_cw:
  assumes "lt_wf {c} {} p Q" "c < length (cwHeap p)" "mem_of p c = []" "queued (cwHeap p ! c)"
  shows "lt_wf {} {} (p\<lparr>cwHeap := (cwHeap p)[c := (cwHeap p ! c)\<lparr>decoded := True\<rparr>]\<rparr>) Q"
proof -
  let ?p = "p\<lparr>cwHeap := (cwHeap p)[c := (cwHeap p ! c)\<lparr>decoded := True\<rparr>]\<rparr>"
  have mem: "mem_of ?p x = mem_of p x" for x using assms(2) by (cases "x = c") simp_all
  have "maps_ok ?p" "live ?p x = live p x" for x using assms(1) by (simp_all add: lt_wf_def maps_ok_def live_def)
  moreover have "links_ok {} ?p"
    using assms(1) calculation(2) unfolding lt_wf_def links_ok_def blocks_def mem by simp
  moreover have "queue_ok {} ?p Q"
    using assms by (auto simp: lt_wf_def queue_ok_def nth_list_update cw_ok_def)
  ultimately show ?thesis using assms(1) by (simp add: lt_wf_def)
qed

lemma pop_queue:
  assumes "lt_wf {} {} p Q" "Q \<noteq> []"
  shows "lt_wf {last Q} {} p (butlast Q)" "last Q < length (cwHeap p)" "queued (cwHeap p ! last Q)"
    "\<not> decoded (cwHeap p ! last Q)" "length (mem_of p (last Q)) \<le> 1"
proof -
  have q: "distinct Q" "\<forall>c\<in>set Q. c < length (cwHeap p)" "\<And>c. c < length (cwHeap p) \<Longrightarrow> cw_ok (c \<in> set Q) (cwHeap p ! c)"
    using assms(1) by (auto simp: lt_wf_def queue_ok_def)
  obtain Q0 c where Q: "Q = Q0 @ [c]" using assms(2) by (metis append_butlast_last_id)
  have "cw_ok True (cwHeap p ! c)" using q(2) q(3) [of c] Q by simp
  then show "last Q < length (cwHeap p)" "queued (cwHeap p ! last Q)" "\<not> decoded (cwHeap p ! last Q)"
    "length (mem_of p (last Q)) \<le> 1" using q(2) Q by (simp_all add: cw_ok_def)
  have "queue_ok {c} p Q0" unfolding queue_ok_def
  proof (intro conjI allI impI)
    show "distinct Q0" "set Q0 \<inter> {c} = {}" "\<forall>x\<in>set Q0. x < length (cwHeap p)" using q(1,2) Q by simp_all
    show "cw_ok (x \<in> set Q0) (cwHeap p ! x)" if "x < length (cwHeap p)" "x \<notin> {c}" for x
      using q(3) [OF that(1)] that(2) Q by simp
  qed
  then show "lt_wf {last Q} {} p (butlast Q)" using assms(1) Q by (simp add: lt_wf_def)
qed

section \<open>A codeword that cannot be decoded\<close>

text \<open>What \<open>failToDecode\<close> and the deletion after it do to the decoder.\<close>

definition dropCw :: "'d ltDecoder \<Rightarrow> nat \<Rightarrow> nat \<Rightarrow> nat list \<Rightarrow> 'd ltDecoder" where
  "dropCw p c t bs =
     p\<lparr>cwHeap := (cwHeap p)[c := (cwHeap p ! c)\<lparr>members := []\<rparr>],
       txHeap := (txHeap p)[t := (txHeap p ! t)\<lparr>blocking := map Some bs\<rparr>],
       pendingTransactions := (if bs = [] then (pendingTransactions p)(hash_of p t := None) else pendingTransactions p)\<rparr>"

lemma failToDecode_eq:
  assumes "c < length (cwHeap p)" "mem_of p c = [t]" "t < length (txHeap p)"
    and "blocking (txHeap p ! t) = map Some bs" "c \<in> set bs"
  obtains p' h ptr b bs' where "failToDecode p c = Inr (p', h, ptr, b)" "mset bs = add_mset c (mset bs')"
    "(if b then p'\<lparr>pendingTransactions := (pendingTransactions p')(h := None)\<rparr> else p') = dropCw p c t bs'"
proof -
  have "Some c \<in> set (map Some bs)" using assms(5) by simp
  then obtain i where i: "indexOf (Some c) (map Some bs) = Some i" using indexOf_in by metis
  then have i2: "i < length bs" "bs ! i = c" using indexOf_Some [OF i] by auto
  have ms: "mset bs = add_mset c (mset (swapRemove bs i))" using mset_swapRemove [OF i2(1)] i2(2) by simp
  let ?bs = "swapRemove bs i"
  have sw: "swapRemove (map Some bs) i = map Some ?bs" by (rule swapRemove_map [OF i2(1)])
  let ?p = "p\<lparr>cwHeap := (cwHeap p)[c := (cwHeap p ! c)\<lparr>members := []\<rparr>],
       txHeap := (txHeap p)[t := (txHeap p ! t)\<lparr>blocking := map Some ?bs\<rparr>]\<rparr>"
  have run: "failToDecode p c = Inr (if ?bs = [] then (?p, hash_of p t, Some t, True) else (?p, 0, None, False))"
    using assms(1-4) i sw by (auto simp: failToDecode_def Let_def)
  show ?thesis
  proof (cases "?bs = []")
    case True
    then show ?thesis using that [of ?p "hash_of p t" "Some t" True ?bs] run ms by (simp add: dropCw_def)
  next
    case False
    then show ?thesis using that [of ?p 0 None False ?bs] run ms by (simp add: dropCw_def)
  qed
qed

lemma dropCw_wf:
  assumes wf: "lt_wf {c} {} p Q" and c: "c < length (cwHeap p)" "mem_of p c = [t]"
    and bs: "blocks p t bs" "mset bs = add_mset c (mset bs')" and lt: "live p t"
  shows "lt_wf {c} {} (dropCw p c t bs') Q"
proof -
  let ?p = "dropCw p c t bs'"
  have parts: "maps_ok p" "links_ok {} p" "queue_ok {c} p Q" "0 \<le> memory p" using wf by (simp_all add: lt_wf_def)
  have t: "t < length (txHeap p)" "pendingTransactions p (hash_of p t) = Some t" using lt by (simp_all add: live_def)
  have hash: "hash_of ?p x = hash_of p x" for x using t(1) by (cases "x = t") (simp_all add: dropCw_def)
  have len: "length (txHeap ?p) = length (txHeap p)" "length (cwHeap ?p) = length (cwHeap p)" by (simp_all add: dropCw_def)
  have mem: "mem_of ?p x = (if x = c then [] else mem_of p x)" for x using c(1) by (simp add: dropCw_def)
  have pend: "pendingTransactions ?p h = (if bs' = [] \<and> h = hash_of p t then None else pendingTransactions p h)" for h
    by (simp add: dropCw_def)
  have live1: "live ?p x \<longleftrightarrow> live p x \<and> \<not> (bs' = [] \<and> x = t)" for x
  proof -
    have "x = t" if "live p x" "hash_of p x = hash_of p t" using that t(2) by (simp add: live_def)
    then show ?thesis using t unfolding live_def hash len pend by (cases "x = t") auto
  qed
  have count: "count (mset bs') x = count (mset (mem_of ?p x)) t" if "x < length (cwHeap p)" for x
  proof -
    have "count (mset bs) x = count (mset (mem_of p x)) t" using bs(1) that by (simp add: blocks_def)
    then show ?thesis using bs(2) c(2) by (cases "x = c") (simp_all add: mem)
  qed
  have "maps_ok ?p" using parts(1) by (auto simp: maps_ok_def len hash pend) (simp add: dropCw_def)+
  moreover have "links_ok {} ?p" unfolding links_ok_def len
  proof (intro conjI allI ballI impI)
    fix x y assume x: "x < length (cwHeap p)" "y \<in> set (mem_of ?p x)"
    then have "live p y" using parts(2) by (auto simp: links_ok_def mem split: if_splits)
    moreover have "bs' \<noteq> []" if "y = t" using count [OF x(1)] x(2) that by (metis count_eq_zero_iff empty_iff mset.simps(1) set_mset_empty set_mset_mset)
    ultimately show "live ?p y \<or> y \<in> {}" using live1 by blast
  next
    fix x assume "live ?p x"
    then have x: "live p x" using live1 by blast
    show "\<exists>bs. blocking (txHeap ?p ! x) = map Some bs \<and> blocks ?p x bs"
    proof (cases "x = t")
      case True
      have "blocks ?p t bs'" using bs count unfolding blocks_def len by (metis insert_iff set_mset_add_mset_insert set_mset_mset)
      moreover have "blocking (txHeap ?p ! t) = map Some bs'" using t(1) by (simp add: dropCw_def)
      ultimately show ?thesis using True by blast
    next
      case False
      obtain b where b: "blocking (txHeap p ! x) = map Some b" "blocks p x b"
        using parts(2) x by (auto simp: links_ok_def)
      have "count (mset (mem_of ?p y)) x = count (mset (mem_of p y)) x" for y
        using False c(2) by (cases "y = c") (simp_all add: mem)
      then have "blocks ?p x b" using b(2) unfolding blocks_def len by simp
      moreover have "blocking (txHeap ?p ! x) = map Some b" using b(1) False by (simp add: dropCw_def)
      ultimately show ?thesis by blast
    qed
  qed
  moreover have "queue_ok {c} ?p Q"
    using parts(3) by (simp add: queue_ok_def len) (simp add: dropCw_def)
  ultimately show ?thesis using parts(4) by (simp add: lt_wf_def) (simp add: dropCw_def)
qed

section \<open>One round of the decoding loop\<close>

definition kept :: "'d ltDecoder \<Rightarrow> 'd ltDecoder \<Rightarrow> bool" where
  "kept p p' \<longleftrightarrow>
     dhasher p' = dhasher p \<and> memory p' = memory p \<and> map stubHash (txHeap p') = map stubHash (txHeap p) \<and>
     length (cwHeap p') = length (cwHeap p)"

text \<open>The transaction \<open>tx\<close> is stored in the place of the pending \<open>t\<close> and peeled from all codewords.\<close>

definition resolved :: "'d dataOps \<Rightarrow> nat \<Rightarrow> 'd ltTransaction \<Rightarrow> 'd ltDecoder \<Rightarrow> 'd ltDecoder \<Rightarrow> bool" where
  "resolved T t tx p p' \<longleftrightarrow>
     stores (hash_of p t) tx p (recentTransactions p') (receivedTransactions p') \<and>
     (\<forall>x<length (cwHeap p). mset (mem_of p' x) = filter_mset (\<lambda>y. y \<noteq> t) (mset (mem_of p x))) \<and>
     (data_laws T \<longrightarrow> (\<forall>f. f t = data tx \<longrightarrow> (\<forall>x<length (cwHeap p). residual T f p' x = residual T f p x)))"

definition decode_out :: "'d dataOps \<Rightarrow> nat \<Rightarrow> 'd ltDecoder \<Rightarrow> 'd ltDecoder \<Rightarrow> 'd ltTransaction list \<Rightarrow> bool" where
  "decode_out T c p p' new \<longleftrightarrow>
     (let tx = NewTransaction T (symbol (cwHeap p ! c)) in
      mem_of p c = [] \<and> new = [] \<and> p' = p\<lparr>cwHeap := (cwHeap p)[c := (cwHeap p ! c)\<lparr>decoded := True\<rparr>]\<rparr> \<or>
      (\<exists>t. mem_of p c = [t] \<and> live p t \<and> salted (dhasher p) (hash tx) \<noteq> hash_of p t \<and> new = []) \<or>
      (\<exists>t. mem_of p c = [t] \<and> live p t \<and> salted (dhasher p) (hash tx) = hash_of p t \<and> new = [tx] \<and>
           resolved T t tx p p'))"

lemma finish_residual:
  "c < length (cwHeap p) \<Longrightarrow>
   residual T f (p\<lparr>cwHeap := (cwHeap p)[c := (cwHeap p ! c)\<lparr>decoded := True\<rparr>]\<rparr>) x = residual T f p x"
  by (cases "x = c") (simp_all add: residual_def)

lemma finish_members:
  "c < length (cwHeap p) \<Longrightarrow> members ((cwHeap p)[c := (cwHeap p ! c)\<lparr>decoded := True\<rparr>] ! x) = mem_of p x"
  by (cases "x = c") simp_all

lemma finish_unqueued:
  "c < length (cwHeap p) \<Longrightarrow> unqueued (p\<lparr>cwHeap := (cwHeap p)[c := (cwHeap p ! c)\<lparr>decoded := True\<rparr>]\<rparr>) = unqueued p"
  using unqueued_update [of c p "txHeap p" "(cwHeap p ! c)\<lparr>decoded := True\<rparr>"] by simp

lemma decodeOne_empty:
  assumes "lt_wf {c} {} p Q" "c < length (cwHeap p)" "queued (cwHeap p ! c)" "mem_of p c = []"
  shows "\<exists>p' Q' new. decodeOne T c p Q newTx = Inr (p', Q', newTx @ new) \<and> lt_wf {} {} p' Q' \<and>
    length Q' + unqueued p' = length Q + unqueued p \<and> kept p p' \<and> decode_out T c p p' new"
proof -
  let ?p = "p\<lparr>cwHeap := (cwHeap p)[c := (cwHeap p ! c)\<lparr>decoded := True\<rparr>]\<rparr>"
  have "decodeOne T c p Q newTx = Inr (?p, Q, newTx @ [])" using assms(2-4) by (simp add: decodeOne_def)
  moreover have "lt_wf {} {} ?p Q" by (rule finish_cw [OF assms(1,2,4,3)])
  moreover have "decode_out T c p ?p []" using assms(4) by (simp add: decode_out_def Let_def)
  moreover have "kept p ?p" by (simp add: kept_def)
  ultimately show ?thesis using finish_unqueued [OF assms(2)]
    by (intro exI [of _ ?p] exI [of _ Q] exI [of _ "[]"] conjI) simp_all
qed

lemma decodeOne_fail:
  assumes wf: "lt_wf {c} {} p Q" and c: "c < length (cwHeap p)" "queued (cwHeap p ! c)" "mem_of p c = [t]"
    and bad: "salted (dhasher p) (hash (NewTransaction T (symbol (cwHeap p ! c)))) \<noteq> hash_of p t"
  shows "\<exists>p' Q' new. decodeOne T c p Q newTx = Inr (p', Q', newTx @ new) \<and> lt_wf {} {} p' Q' \<and>
    length Q' + unqueued p' = length Q + unqueued p \<and> kept p p' \<and> decode_out T c p p' new"
proof -
  have parts: "maps_ok p" "links_ok {} p" using wf by (simp_all add: lt_wf_def)
  have lt: "live p t" using parts(2) c by (auto simp: links_ok_def)
  then have t: "t < length (txHeap p)" "pendingTransactions p (hash_of p t) = Some t" by (simp_all add: live_def)
  have rc: "receivedTransactions p (hash_of p t) = None" by (rule live_not_received [OF parts(1) lt])
  obtain bs where bs: "blocking (txHeap p ! t) = map Some bs" "blocks p t bs"
    using parts(2) lt by (auto simp: links_ok_def)
  have "0 < count (mset bs) c" using bs(2) c(1,3) by (simp add: blocks_def)
  then have "c \<in> set bs" unfolding count_greater_zero_iff by simp
  from failToDecode_eq [OF c(1,3) t(1) bs(1) this]
  obtain p1 h ptr b bs' where f: "failToDecode p c = Inr (p1, h, ptr, b)" "mset bs = add_mset c (mset bs')"
    "(if b then p1\<lparr>pendingTransactions := (pendingTransactions p1)(h := None)\<rparr> else p1) = dropCw p c t bs'"
    by blast
  let ?p = "dropCw p c t bs'"
  let ?q = "?p\<lparr>cwHeap := (cwHeap ?p)[c := (cwHeap ?p ! c)\<lparr>decoded := True\<rparr>]\<rparr>"
  have cw: "c < length (cwHeap ?p)" "mem_of ?p c = []" "queued (cwHeap ?p ! c)"
    using c by (simp_all add: dropCw_def)
  have "lt_wf {c} {} ?p Q" by (rule dropCw_wf [OF wf c(1,3) bs(2) f(2) lt])
  then have wf': "lt_wf {} {} ?q Q" using cw by (intro finish_cw)
  have run: "decodeOne T c p Q newTx = Inr (?q, Q, newTx @ [])"
    using c t rc bad f(1) cw unfolding decodeOne_def by (simp add: Let_def f(3))
  have th: "map stubHash (txHeap ?p) = map stubHash (txHeap p)"
    using t(1) by (simp add: dropCw_def map_update) (metis list_update_id nth_map)
  have "kept p ?q" using th by (simp add: kept_def) (simp add: dropCw_def)
  moreover have "unqueued ?q = unqueued p"
  proof -
    have "unqueued ?p = unqueued p"
      using unqueued_update [OF c(1), where cw = "(cwHeap p ! c)\<lparr>members := []\<rparr>"] by (simp add: dropCw_def unqueued_def)
    then show ?thesis using finish_unqueued [OF cw(1)] by simp
  qed
  moreover have "decode_out T c p ?q []" using c(3) lt bad by (simp add: decode_out_def Let_def)
  ultimately show ?thesis using run wf'
    by (intro exI [of _ ?q] exI [of _ Q] exI [of _ "[]"] conjI) simp_all
qed

lemma decodeOne_decode:
  assumes wf: "lt_wf {c} {} p Q" and c: "c < length (cwHeap p)" "queued (cwHeap p ! c)" "mem_of p c = [t]"
    and good: "salted (dhasher p) (hash (NewTransaction T (symbol (cwHeap p ! c)))) = hash_of p t"
  shows "\<exists>p' Q' new. decodeOne T c p Q newTx = Inr (p', Q', newTx @ new) \<and> lt_wf {} {} p' Q' \<and>
    length Q' + unqueued p' = length Q + unqueued p \<and> kept p p' \<and> decode_out T c p p' new"
proof -
  let ?tx = "NewTransaction T (symbol (cwHeap p ! c))" and ?h = "hash_of p t"
  have parts: "maps_ok p" "links_ok {} p" "0 \<le> memory p" using wf by (simp_all add: lt_wf_def)
  have lt: "live p t" using parts(2) c by (auto simp: links_ok_def)
  then have t: "t < length (txHeap p)" "pendingTransactions p ?h = Some t" by (simp_all add: live_def)
  have rc: "receivedTransactions p ?h = None" by (rule live_not_received [OF parts(1) lt])
  let ?p0 = "p\<lparr>pendingTransactions := (pendingTransactions p)(?h := None)\<rparr>"
  obtain rec rv where s: "storeNewTransaction T ?p0 ?h ?tx = Inr (?p0\<lparr>recentTransactions := rec, receivedTransactions := rv\<rparr>)"
    "stores ?h ?tx p rec rv"
    using storeNew_spec [of ?p0 T ?h ?tx] parts(3) by (auto simp: stores_def Let_def)
  let ?p1 = "?p0\<lparr>recentTransactions := rec, receivedTransactions := rv\<rparr>"
  from retire [OF wf t(2) s(2)]
  obtain bs where r: "lt_wf {c} {t} ?p1 Q" "\<not> live ?p1 t" "t < length (txHeap ?p1)"
    "blocking (txHeap ?p1 ! t) = map Some bs" "blocks ?p1 t bs" by auto
  have q: "\<forall>e\<in>{c}. queued (cwHeap ?p1 ! e)" using c(2) by simp
  obtain p2 Q2 where m: "markDecoded T ?p1 t (data ?tx) Q = Inr (p2, Q2)" "lt_wf {c} {} p2 Q2" "frame t ?p1 p2"
    "\<forall>x<length (cwHeap ?p1). mset (mem_of p2 x) = filter_mset (\<lambda>y. y \<noteq> t) (mset (mem_of ?p1 x))"
    "length Q2 + unqueued p2 = length Q + unqueued ?p1"
    "data_laws T \<longrightarrow> (\<forall>f. f t = data ?tx \<longrightarrow> (\<forall>x<length (cwHeap ?p1). residual T f p2 x = residual T f ?p1 x))"
    by (rule markDecoded_wf [OF r(1-3) q r(4,5)])
  have sm: "same_maps ?p1 p2" using m(3) by (simp add: frame_def)
  have c2: "c < length (cwHeap p2)" using sm c(1) by (simp add: same_maps_def)
  have "cw_frame t (cwHeap p ! c) (cwHeap p2 ! c)" using m(3) c(1) by (simp add: frame_def)
  then have q2: "queued (cwHeap p2 ! c)" using c(2) by (simp add: cw_frame_def)
  have "mset (mem_of p2 c) = {#}" using m(4) c(1,3) by simp
  then have e2: "mem_of p2 c = []" by simp
  let ?q = "p2\<lparr>cwHeap := (cwHeap p2)[c := (cwHeap p2 ! c)\<lparr>decoded := True\<rparr>]\<rparr>"
  have run: "decodeOne T c p Q newTx = Inr (?q, Q2, newTx @ [?tx])"
    using c t rc good s(1) m(1) c2 e2 unfolding decodeOne_def by (simp add: Let_def)
  have wf': "lt_wf {} {} ?q Q2" by (rule finish_cw [OF m(2) c2 e2 q2])
  have kp: "kept p ?q" using sm by (simp add: kept_def same_maps_def)
  have "resolved T t ?tx p ?q"
    unfolding resolved_def using sm s(2) m(4,6) by (simp add: same_maps_def finish_members [OF c2] finish_residual [OF c2])
      (simp add: residual_def)
  then have "decode_out T c p ?q [?tx]" using c(3) lt good by (simp add: decode_out_def Let_def)
  moreover have "length Q2 + unqueued ?q = length Q + unqueued p"
    using m(5) finish_unqueued [OF c2] by (simp add: unqueued_def)
  ultimately show ?thesis using run wf' kp
    by (intro exI [of _ ?q] exI [of _ Q2] exI [of _ "[?tx]"] conjI) simp_all
qed

lemma decodeOne_wf:
  assumes "lt_wf {c} {} p Q" "c < length (cwHeap p)" "queued (cwHeap p ! c)" "length (mem_of p c) \<le> 1"
  shows "\<exists>p' Q' new. decodeOne T c p Q newTx = Inr (p', Q', newTx @ new) \<and> lt_wf {} {} p' Q' \<and>
    length Q' + unqueued p' = length Q + unqueued p \<and> kept p p' \<and> decode_out T c p p' new"
proof -
  consider "mem_of p c = []" | t where "mem_of p c = [t]" using assms(4) by (cases "mem_of p c") auto
  then show ?thesis
  proof cases
    case 1
    then show ?thesis by (rule decodeOne_empty [OF assms(1-3)])
  next
    case (2 t)
    show ?thesis
      by (cases "salted (dhasher p) (hash (NewTransaction T (symbol (cwHeap p ! c)))) = hash_of p t")
        (rule decodeOne_decode [OF assms(1-3) 2] decodeOne_fail [OF assms(1-3) 2], assumption)+
  qed
qed

end
