(* ===== verification/Lt_Operations.thy ===== *)
theory Lt_Operations
  imports Lt_Invariant
begin

text \<open>
  The operations of \<open>lt/decoder.go\<close> as a whole: the decoding loop returns from every state of
  the invariant, and adding a codeword or a transaction keeps it. \<open>decode_run\<close> lists the
  rounds of a loop, for inductions over what it decodes.
\<close>

section \<open>The decoding loop\<close>

inductive decode_run :: "'d dataOps \<Rightarrow> 'd ltDecoder \<Rightarrow> 'd ltDecoder \<Rightarrow> 'd ltTransaction list \<Rightarrow> bool"
  for T :: "'d dataOps" where
  finish: "decode_run T p p []"
| round: "lt_wf {} {} p Q \<Longrightarrow> c < length (cwHeap p) \<Longrightarrow> decode_out T c p p1 new1 \<Longrightarrow> kept p p1 \<Longrightarrow>
    lt_wf {} {} p1 Q1 \<Longrightarrow> decode_run T p1 p2 new2 \<Longrightarrow> decode_run T p p2 (new1 @ new2)"

lemma kept_refl [simp]: "kept p p"
  by (simp add: kept_def)

lemma kept_trans: "kept p q \<Longrightarrow> kept q r \<Longrightarrow> kept p r"
  by (simp add: kept_def)

lemma decodeLoop_spec:
  "lt_wf {} {} p Q \<Longrightarrow> \<exists>p' new. decodeLoop T p Q newTx = Some (Inr (p', newTx @ new)) \<and> lt_ok p' \<and> kept p p' \<and>
     decode_run T p p' new"
proof (induction "length Q + unqueued p" arbitrary: p Q newTx rule: less_induct)
  case less
  show ?case
  proof (cases "Q = []")
    case True
    then have "decodeLoop T p Q newTx = Some (Inr (p, newTx @ []))" by (simp add: decodeLoop.simps)
    moreover have "lt_ok p" using less.prems True by simp
    ultimately show ?thesis using decode_run.finish [of T p] kept_refl [of p] by metis
  next
    case False
    note pop = pop_queue [OF less.prems False]
    obtain p1 Q1 new1 where 1: "decodeOne T (last Q) p (butlast Q) newTx = Inr (p1, Q1, newTx @ new1)"
      "lt_wf {} {} p1 Q1" "length Q1 + unqueued p1 = length (butlast Q) + unqueued p" "kept p p1"
      "decode_out T (last Q) p p1 new1"
      using decodeOne_wf [OF pop(1-3,5)] by blast
    have "length Q1 + unqueued p1 < length Q + unqueued p" using 1(3) False by (cases Q) simp_all
    from less.hyps [OF this 1(2)] obtain p2 new2 where
      2: "decodeLoop T p1 Q1 (newTx @ new1) = Some (Inr (p2, (newTx @ new1) @ new2))" "lt_ok p2" "kept p1 p2"
        "decode_run T p1 p2 new2" by blast
    have "decodeLoop T p Q newTx = Some (Inr (p2, newTx @ (new1 @ new2)))"
      using False 1(1) 2(1) by (subst decodeLoop.simps) simp
    moreover have "decode_run T p p2 (new1 @ new2)"
      by (rule decode_run.round [OF less.prems pop(2) 1(5,4,2) 2(4)])
    ultimately show ?thesis using 2(2) kept_trans [OF 1(4) 2(3)] by blast
  qed
qed

section \<open>Linking a received codeword\<close>

text \<open>A new pending transaction, with no codeword yet.\<close>

definition allocStub :: "'d ltDecoder \<Rightarrow> u32 \<Rightarrow> 'd ltDecoder" where
  "allocStub p m = p\<lparr>txHeap := txHeap p @ [\<lparr>stubHash = m, blocking = []\<rparr>],
                     pendingTransactions := (pendingTransactions p)(m \<mapsto> length (txHeap p))\<rparr>"

lemma links_bound: "links_ok {} p \<Longrightarrow> c < length (cwHeap p) \<Longrightarrow> t \<in> set (mem_of p c) \<Longrightarrow> t < length (txHeap p)"
  by (auto simp: links_ok_def live_def)

lemma allocStub_wf:
  assumes wf: "lt_wf E {} p Q" and new: "pendingTransactions p m = None" "receivedTransactions p m = None"
  shows "lt_wf E {} (allocStub p m) Q \<and> live (allocStub p m) (length (txHeap p)) \<and>
         hash_of (allocStub p m) (length (txHeap p)) = m"
proof -
  let ?p = "allocStub p m" and ?t = "length (txHeap p)"
  have parts: "maps_ok p" "links_ok {} p" "queue_ok E p Q" "0 \<le> memory p" using wf by (simp_all add: lt_wf_def)
  have hash: "hash_of ?p x = (if x = ?t then m else hash_of p x)" if "x \<le> ?t" for x
    using that by (auto simp: allocStub_def nth_append)
  have live1: "live ?p x \<longleftrightarrow> live p x \<or> x = ?t" for x
  proof (cases "x < ?t")
    case True
    have "hash_of ?p x = hash_of p x" using hash [of x] True by simp
    then have "live ?p x \<longleftrightarrow> x < Suc ?t \<and> (if hash_of p x = m then Some ?t else pendingTransactions p (hash_of p x)) = Some x"
      unfolding live_def by (simp add: allocStub_def)
    then show ?thesis using True new(1) by (auto simp: live_def split: if_splits)
  next
    case False
    then show ?thesis using hash [of x] by (auto simp: live_def allocStub_def)
  qed
  have "maps_ok ?p" using parts(1) new hash unfolding maps_ok_def
    by (auto simp: allocStub_def less_Suc_eq nth_append)
  moreover have "links_ok {} ?p"
  proof -
    have "count (mset (mem_of p c)) ?t = 0" if "c < length (cwHeap p)" for c
      using links_bound [OF parts(2) that] by (auto simp: count_eq_zero_iff)
    then have "blocks ?p ?t []" by (simp add: blocks_def allocStub_def)
    moreover have "blocking (txHeap ?p ! ?t) = map Some []" by (simp add: allocStub_def)
    moreover have "\<exists>bs. blocking (txHeap ?p ! x) = map Some bs \<and> blocks ?p x bs" if "live p x" for x
    proof -
      have "x < ?t" using that by (simp add: live_def)
      then have "txHeap ?p ! x = txHeap p ! x" by (simp add: allocStub_def nth_append)
      moreover have "blocks ?p x bs = blocks p x bs" for bs by (simp add: blocks_def allocStub_def)
      ultimately show ?thesis using parts(2) that by (simp add: links_ok_def)
    qed
    moreover have "\<forall>c<length (cwHeap p). \<forall>t\<in>set (mem_of p c). live p t" using parts(2) by (simp add: links_ok_def)
    moreover have "cwHeap ?p = cwHeap p" by (simp add: allocStub_def)
    ultimately show ?thesis unfolding links_ok_def live1 by metis
  qed
  moreover have "queue_ok E ?p Q" using parts(3) by (simp add: queue_ok_def allocStub_def)
  ultimately show ?thesis using parts(4) live1 hash [of ?t] by (simp add: lt_wf_def) (simp add: allocStub_def)
qed

text \<open>Linking the codeword \<open>c\<close> and a pending transaction.\<close>

definition linkTo :: "'d ltDecoder \<Rightarrow> nat \<Rightarrow> nat \<Rightarrow> 'd ltDecoder" where
  "linkTo p c t = p\<lparr>txHeap := (txHeap p)[t := (txHeap p ! t)\<lparr>blocking := blocking (txHeap p ! t) @ [Some c]\<rparr>],
                    cwHeap := (cwHeap p)[c := (cwHeap p ! c)\<lparr>members := mem_of p c @ [t]\<rparr>]\<rparr>"

lemma linkTo_wf:
  assumes wf: "lt_wf {c} {} p Q" and c: "c < length (cwHeap p)" and lt: "live p t"
  shows "lt_wf {c} {} (linkTo p c t) Q \<and> live (linkTo p c t) = live p \<and> (\<forall>x. hash_of (linkTo p c t) x = hash_of p x)"
proof -
  let ?p = "linkTo p c t"
  have parts: "maps_ok p" "links_ok {} p" "queue_ok {c} p Q" "0 \<le> memory p" using wf by (simp_all add: lt_wf_def)
  have t: "t < length (txHeap p)" using lt by (simp add: live_def)
  have hash: "hash_of ?p x = hash_of p x" for x using t by (cases "x = t") (simp_all add: linkTo_def)
  have len: "length (txHeap ?p) = length (txHeap p)" "length (cwHeap ?p) = length (cwHeap p)"
    "pendingTransactions ?p = pendingTransactions p" by (simp_all add: linkTo_def)
  have live1: "live ?p x = live p x" for x by (simp add: live_def hash len)
  have mem: "mem_of ?p x = (if x = c then mem_of p c @ [t] else mem_of p x)" for x using c by (simp add: linkTo_def)
  have "maps_ok ?p" using parts(1) by (simp add: maps_ok_def hash len) (simp add: linkTo_def)
  moreover have "links_ok {} ?p" unfolding links_ok_def len
  proof (intro conjI allI impI ballI)
    fix x y assume "x < length (cwHeap p)" "y \<in> set (mem_of ?p x)"
    then show "live ?p y \<or> y \<in> {}" using parts(2) lt by (auto simp: links_ok_def live1 mem split: if_splits)
  next
    fix x assume "live ?p x"
    then obtain bs where bs: "blocking (txHeap p ! x) = map Some bs" "blocks p x bs"
      using parts(2) by (auto simp: links_ok_def live1)
    show "\<exists>bs. blocking (txHeap ?p ! x) = map Some bs \<and> blocks ?p x bs"
    proof (cases "x = t")
      case True
      have "blocking (txHeap ?p ! x) = map Some (bs @ [c])" using bs(1) t True by (simp add: linkTo_def)
      moreover have "blocks ?p x (bs @ [c])" using bs(2) c True by (auto simp: blocks_def len mem)
      ultimately show ?thesis by blast
    next
      case False
      have "blocking (txHeap ?p ! x) = map Some bs" using bs(1) False by (simp add: linkTo_def)
      moreover have "blocks ?p x bs" using bs(2) False by (auto simp: blocks_def len mem)
      ultimately show ?thesis by blast
    qed
  qed
  moreover have "queue_ok {c} ?p Q" using parts(3) by (simp add: queue_ok_def linkTo_def)
  ultimately show ?thesis using parts(4) live1 hash by (auto simp: lt_wf_def fun_eq_iff) (simp_all add: linkTo_def)
qed

text \<open>What linking leaves as it was: everything but the codeword \<open>c\<close> and the pending transactions.\<close>

definition link_rel :: "u32 set \<Rightarrow> nat \<Rightarrow> 'd ltDecoder \<Rightarrow> 'd ltDecoder \<Rightarrow> bool" where
  "link_rel M c p p' \<longleftrightarrow>
     receivedTransactions p' = receivedTransactions p \<and> recentTransactions p' = recentTransactions p \<and>
     dhasher p' = dhasher p \<and> memory p' = memory p \<and> length (cwHeap p') = length (cwHeap p) \<and>
     (\<forall>x. x \<noteq> c \<longrightarrow> cwHeap p' ! x = cwHeap p ! x) \<and>
     queued (cwHeap p' ! c) = queued (cwHeap p ! c) \<and> decoded (cwHeap p' ! c) = decoded (cwHeap p ! c) \<and>
     (\<exists>ext. map stubHash (txHeap p') = map stubHash (txHeap p) @ ext \<and> set ext \<subseteq> M)"

lemma link_rel_refl [simp]: "link_rel M c p p"
  by (simp add: link_rel_def)

lemma link_rel_trans:
  assumes "link_rel M c p q" "link_rel M c q r"
  shows "link_rel M c p r"
proof -
  obtain e1 e2 where "map stubHash (txHeap q) = map stubHash (txHeap p) @ e1" "set e1 \<subseteq> M"
    "map stubHash (txHeap r) = map stubHash (txHeap q) @ e2" "set e2 \<subseteq> M"
    using assms by (auto simp: link_rel_def)
  then have "\<exists>ext. map stubHash (txHeap r) = map stubHash (txHeap p) @ ext \<and> set ext \<subseteq> M"
    by (intro exI [of _ "e1 @ e2"]) simp
  then show ?thesis using assms by (simp add: link_rel_def)
qed

lemma link_rel_mono: "link_rel M c p q \<Longrightarrow> M \<subseteq> N \<Longrightarrow> link_rel N c p q"
  by (auto simp: link_rel_def)

lemma link_rel_hash:
  assumes "link_rel M c p q" "t < length (txHeap p)"
  shows "t < length (txHeap q) \<and> hash_of q t = hash_of p t"
proof -
  obtain ext where e: "map stubHash (txHeap q) = map stubHash (txHeap p) @ ext" using assms(1) by (auto simp: link_rel_def)
  have "length (txHeap q) = length (txHeap p) + length ext" using arg_cong [OF e, of length] by simp
  then show ?thesis using assms(2) arg_cong [OF e, of "\<lambda>xs. xs ! t"] by (simp add: nth_append)
qed

text \<open>The part of the linking that concerns the codeword: members not received are linked, the others peeled.\<close>

fun peelKnown :: "'d dataOps \<Rightarrow> (u32 \<rightharpoonup> 'd ltTransaction) \<Rightarrow> u32 list \<Rightarrow> 'd \<Rightarrow> 'd" where
  "peelKnown T rv [] s = s"
| "peelKnown T rv (m # ms) s = peelKnown T rv ms (case rv m of None \<Rightarrow> s | Some tx \<Rightarrow> data_XOR T s (data tx))"

lemma linkTo_rel:
  assumes "t < length (txHeap p)" "c < length (cwHeap p)"
  shows "link_rel M c p (linkTo p c t)"
proof -
  have "map stubHash (txHeap (linkTo p c t)) = map stubHash (txHeap p)"
    using assms(1) by (simp add: linkTo_def map_update) (metis list_update_id nth_map)
  then show ?thesis using assms(2) by (simp add: link_rel_def) (simp add: linkTo_def)
qed

lemma allocStub_rel: "link_rel {m} c p (allocStub p m)"
  by (simp add: link_rel_def allocStub_def)

lemma linkMember_spec:
  assumes wf: "lt_wf {c} {} p []" and c: "c < length (cwHeap p)"
  obtains p' where "linkMember T c p m = Inr p'" "lt_wf {c} {} p' []" "link_rel {m} c p p'"
    "symbol (cwHeap p' ! c) = peelKnown T (receivedTransactions p) [m] (symbol (cwHeap p ! c))"
    "map (hash_of p') (mem_of p' c) = map (hash_of p) (mem_of p c) @ filter (\<lambda>m. receivedTransactions p m = None) [m]"
proof (cases "receivedTransactions p m")
  case None
  have maps: "maps_ok p" and links: "links_ok {} p" using wf by (simp_all add: lt_wf_def)
  obtain q t where q: "q = (if pendingTransactions p m = None then allocStub p m else p)" "lt_wf {c} {} q []" "live q t"
    "hash_of q t = m" "link_rel {m} c p q" "cwHeap q = cwHeap p" "linkMember T c p m = Inr (linkTo q c t)"
  proof (cases "pendingTransactions p m")
    case None
    note a = allocStub_wf [OF wf None \<open>receivedTransactions p m = None\<close>]
    show ?thesis
      by (rule that [of "allocStub p m" "length (txHeap p)"])
        (use a None \<open>receivedTransactions p m = None\<close> c allocStub_rel in
          \<open>auto simp: linkMember_def Let_def linkTo_def allocStub_def\<close>)
  next
    case (Some t)
    then have t: "live p t" "hash_of p t = m" using maps by (auto simp: maps_ok_def live_def)
    then have "linkMember T c p m = Inr (linkTo p c t)"
      using Some None c by (simp add: linkMember_def linkTo_def live_def)
    then show ?thesis using that [of p t] wf t Some by simp
  qed
  have t: "t < length (txHeap q)" using q(3) by (simp add: live_def)
  have cq: "c < length (cwHeap q)" using c q(6) by simp
  note l = linkTo_wf [OF q(2) cq q(3)]
  have "map (hash_of q) (mem_of q c) = map (hash_of p) (mem_of p c)"
    using link_rel_hash [OF q(5)] links_bound [OF links c] by (simp add: q(6))
  then have "map (hash_of (linkTo q c t)) (mem_of (linkTo q c t) c) = map (hash_of p) (mem_of p c) @ [m]"
    using l q(4) cq by (simp add: q(6)) (simp add: linkTo_def q(6) c)
  moreover have "symbol (cwHeap (linkTo q c t) ! c) = symbol (cwHeap p ! c)" using cq q(6) by (simp add: linkTo_def)
  moreover have "link_rel {m} c p (linkTo q c t)" by (rule link_rel_trans [OF q(5) linkTo_rel [OF t cq]])
  ultimately show ?thesis using that [OF q(7)] l None by simp
next
  case (Some tx)
  have maps: "maps_ok p" using wf by (simp add: lt_wf_def)
  then have np: "pendingTransactions p m = None" using Some by (metis maps_ok_def option.distinct(1))
  let ?p = "p\<lparr>cwHeap := (cwHeap p)[c := (cwHeap p ! c)\<lparr>symbol := data_XOR T (symbol (cwHeap p ! c)) (data tx)\<rparr>]\<rparr>"
  have mem: "mem_of ?p x = mem_of p x" for x using c by (cases "x = c") simp_all
  have "live ?p x = live p x" for x by (simp add: live_def)
  then have "links_ok {} ?p" using wf unfolding lt_wf_def links_ok_def blocks_def mem by simp
  then have "lt_wf {c} {} ?p []" using wf by (simp add: lt_wf_def maps_ok_def queue_ok_def)
  moreover have "linkMember T c p m = Inr ?p" using Some np c by (simp add: linkMember_def)
  moreover have "link_rel {m} c p ?p" using c by (simp add: link_rel_def)
  ultimately show ?thesis using that [of ?p] Some c by simp
qed

lemma linkMembers_spec:
  "lt_wf {c} {} p [] \<Longrightarrow> c < length (cwHeap p) \<Longrightarrow>
   \<exists>p'. linkMembers T c ms p = Inr p' \<and> lt_wf {c} {} p' [] \<and> link_rel (set ms) c p p' \<and>
     symbol (cwHeap p' ! c) = peelKnown T (receivedTransactions p) ms (symbol (cwHeap p ! c)) \<and>
     map (hash_of p') (mem_of p' c) = map (hash_of p) (mem_of p c) @ filter (\<lambda>m. receivedTransactions p m = None) ms"
proof (induction ms arbitrary: p)
  case (Cons m ms)
  obtain p1 where 1: "linkMember T c p m = Inr p1" "lt_wf {c} {} p1 []" "link_rel {m} c p p1"
    "symbol (cwHeap p1 ! c) = peelKnown T (receivedTransactions p) [m] (symbol (cwHeap p ! c))"
    "map (hash_of p1) (mem_of p1 c) = map (hash_of p) (mem_of p c) @ filter (\<lambda>m. receivedTransactions p m = None) [m]"
    by (rule linkMember_spec [OF Cons.prems])
  have r: "receivedTransactions p1 = receivedTransactions p" "c < length (cwHeap p1)"
    using 1(3) Cons.prems(2) by (simp_all add: link_rel_def)
  obtain p2 where 2: "linkMembers T c ms p1 = Inr p2" "lt_wf {c} {} p2 []" "link_rel (set ms) c p1 p2"
    "symbol (cwHeap p2 ! c) = peelKnown T (receivedTransactions p1) ms (symbol (cwHeap p1 ! c))"
    "map (hash_of p2) (mem_of p2 c) = map (hash_of p1) (mem_of p1 c) @ filter (\<lambda>m. receivedTransactions p1 m = None) ms"
    using Cons.IH [OF 1(2) r(2)] by blast
  have "link_rel (set (m # ms)) c p p2"
    by (rule link_rel_trans [OF link_rel_mono [OF 1(3)] link_rel_mono [OF 2(3)]]) auto
  then show ?case using 1(1,4,5) 2 r(1) by (intro exI [of _ p2]) simp
qed simp

section \<open>Adding a codeword\<close>

text \<open>The state \<open>p0\<close> after linking the codeword \<open>raw\<close>, before the decoding loop.\<close>

definition linked :: "'d dataOps \<Rightarrow> 'd ltCodeword \<Rightarrow> 'd ltDecoder \<Rightarrow> 'd ltDecoder \<Rightarrow> bool" where
  "linked T raw p p0 \<longleftrightarrow>
     (let c = length (cwHeap p) in
      receivedTransactions p0 = receivedTransactions p \<and> recentTransactions p0 = recentTransactions p \<and>
      dhasher p0 = dhasher p \<and> memory p0 = memory p \<and> length (cwHeap p0) = Suc c \<and>
      (\<forall>x<c. cwHeap p0 ! x = cwHeap p ! x) \<and>
      (\<exists>ext. map stubHash (txHeap p0) = map stubHash (txHeap p) @ ext \<and> set ext \<subseteq> set (cw_members raw)) \<and>
      symbol (cwHeap p0 ! c) = peelKnown T (receivedTransactions p) (cw_members raw) (cw_symbol raw) \<and>
      map (hash_of p0) (mem_of p0 c) = filter (\<lambda>m. receivedTransactions p m = None) (cw_members raw))"

definition freshCw :: "'d ltCodeword \<Rightarrow> 'd PendingCodeword" where
  "freshCw raw = \<lparr>symbol = cw_symbol raw, members = [], queued = False, decoded = False\<rparr>"

lemma alloc_cw_wf:
  assumes "lt_ok p"
  shows "lt_wf {length (cwHeap p)} {} (p\<lparr>cwHeap := cwHeap p @ [freshCw raw]\<rparr>) []"
proof -
  let ?p = "p\<lparr>cwHeap := cwHeap p @ [freshCw raw]\<rparr>" and ?c = "length (cwHeap p)"
  have parts: "maps_ok p" "links_ok {} p" "queue_ok {} p []" "0 \<le> memory p" using assms by (simp_all add: lt_wf_def)
  have live1: "live ?p x = live p x" for x by (simp add: live_def)
  have mem: "mem_of ?p x = (if x = ?c then [] else mem_of p x)" if "x \<le> ?c" for x
    using that by (simp add: nth_append freshCw_def)
  have blk: "blocks ?p x bs" if "blocks p x bs" for x bs
  proof -
    have "?c \<notin> set bs" using that by (auto simp: blocks_def)
    then have "count (mset bs) ?c = count (mset (mem_of ?p ?c)) x"
      using mem [of ?c] by (simp add: count_eq_zero_iff)
    then show ?thesis using that mem by (auto simp: blocks_def less_Suc_eq)
  qed
  have "links_ok {} ?p" unfolding links_ok_def
  proof (intro conjI allI ballI impI)
    fix x t assume x: "x < length (cwHeap ?p)" "t \<in> set (mem_of ?p x)"
    then have "x \<le> ?c" by simp
    then have "x < ?c \<and> t \<in> set (mem_of p x)" using mem [of x] x(2) by (cases "x = ?c") simp_all
    then show "live ?p t \<or> t \<in> {}" using parts(2) by (auto simp: links_ok_def live1)
  next
    fix t assume "live ?p t"
    then obtain bs where "blocking (txHeap p ! t) = map Some bs" "blocks p t bs"
      using parts(2) by (auto simp: links_ok_def live1)
    then show "\<exists>bs. blocking (txHeap ?p ! t) = map Some bs \<and> blocks ?p t bs" using blk by auto
  qed
  moreover have "queue_ok {?c} ?p []" using parts(3) by (auto simp: queue_ok_def less_Suc_eq nth_append)
  ultimately show ?thesis using parts(1,4) by (simp add: lt_wf_def maps_ok_def)
qed

lemma queue_up:
  assumes "lt_wf {c} {} p []" "c < length (cwHeap p)" "\<not> queued (cwHeap p ! c)" "\<not> decoded (cwHeap p ! c)"
  shows "2 \<le> length (mem_of p c) \<Longrightarrow> lt_ok p"
    "length (mem_of p c) \<le> 1 \<Longrightarrow> lt_wf {} {} (p\<lparr>cwHeap := (cwHeap p)[c := (cwHeap p ! c)\<lparr>queued := True\<rparr>]\<rparr>) [c]"
proof -
  have parts: "maps_ok p" "links_ok {} p" "queue_ok {c} p []" "0 \<le> memory p" using assms(1) by (simp_all add: lt_wf_def)
  show "lt_ok p" if "2 \<le> length (mem_of p c)"
    using parts assms that by (auto simp: lt_wf_def queue_ok_def) (auto simp: cw_ok_def)
  let ?p = "p\<lparr>cwHeap := (cwHeap p)[c := (cwHeap p ! c)\<lparr>queued := True\<rparr>]\<rparr>"
  have mem: "mem_of ?p x = mem_of p x" for x using assms(2) by (cases "x = c") simp_all
  have "live ?p x = live p x" for x by (simp add: live_def)
  then have "links_ok {} ?p" using parts(2) unfolding links_ok_def blocks_def mem by simp
  moreover have "queue_ok {} ?p [c]" if "length (mem_of p c) \<le> 1"
    using parts(3) assms(2-4) that by (auto simp: queue_ok_def nth_list_update cw_ok_def)
  ultimately show "lt_wf {} {} ?p [c]" if "length (mem_of p c) \<le> 1"
    using parts(1,4) that by (simp add: lt_wf_def maps_ok_def)
qed

lemma lt_AddCodeword_spec:
  assumes "lt_ok p"
  shows "\<exists>p0 Q p' txs. lt_AddCodeword T p raw = Some (Inr (p', length (cwHeap p), txs)) \<and> lt_ok p' \<and>
           linked T raw p p0 \<and> lt_wf {} {} p0 Q \<and> kept p0 p' \<and> decode_run T p0 p' txs"
proof -
  let ?c = "length (cwHeap p)" and ?p = "p\<lparr>cwHeap := cwHeap p @ [freshCw raw]\<rparr>"
  obtain p1 where 1: "linkMembers T ?c (cw_members raw) ?p = Inr p1" "lt_wf {?c} {} p1 []" "link_rel (set (cw_members raw)) ?c ?p p1"
    "symbol (cwHeap p1 ! ?c) = peelKnown T (receivedTransactions ?p) (cw_members raw) (symbol (cwHeap ?p ! ?c))"
    "map (hash_of p1) (mem_of p1 ?c) = map (hash_of ?p) (mem_of ?p ?c) @
       filter (\<lambda>m. receivedTransactions ?p m = None) (cw_members raw)"
    using linkMembers_spec [OF alloc_cw_wf [OF assms], of raw T "cw_members raw"] by auto
  have c1: "?c < length (cwHeap p1)" "\<not> queued (cwHeap p1 ! ?c)" "\<not> decoded (cwHeap p1 ! ?c)"
    using 1(3) by (simp_all add: link_rel_def freshCw_def)
  have link1: "linked T raw p p1"
    using 1(3-5) by (auto simp: linked_def link_rel_def Let_def freshCw_def nth_append)
  show ?thesis
  proof (cases "length (mem_of p1 ?c) \<le> 1")
    case True
    let ?q = "p1\<lparr>cwHeap := (cwHeap p1)[?c := (cwHeap p1 ! ?c)\<lparr>queued := True\<rparr>]\<rparr>"
    have wf: "lt_wf {} {} ?q [?c]" using queue_up(2) [OF 1(2) c1 True] .
    obtain p' txs where d: "decodeLoop T ?q [?c] [] = Some (Inr (p', [] @ txs))" "lt_ok p'" "kept ?q p'" "decode_run T ?q p' txs"
      using decodeLoop_spec [OF wf, of T "[]"] by blast
    have "lt_AddCodeword T p raw = Some (Inr (p', ?c, txs))"
      using 1(1) c1(1) True d(1) by (simp add: lt_AddCodeword_def decodeCodewords_def freshCw_def Let_def)
    moreover have "linked T raw p ?q" using link1 c1(1) by (simp add: linked_def Let_def)
    ultimately show ?thesis using d wf by blast
  next
    case False
    have "lt_AddCodeword T p raw = Some (Inr (p1, ?c, []))"
      using 1(1) c1(1) False by (simp add: lt_AddCodeword_def freshCw_def Let_def)
    moreover have "lt_ok p1" using queue_up(1) [OF 1(2) c1] False by simp
    ultimately show ?thesis using link1 decode_run.finish [of T p1] kept_refl [of p1] by blast
  qed
qed

section \<open>Adding a transaction\<close>

lemma stored_wf:
  assumes "lt_ok p" "stores h t p rc rv" "pendingTransactions p h = None"
  shows "lt_ok (p\<lparr>recentTransactions := rc, receivedTransactions := rv\<rparr>)"
proof -
  let ?p = "p\<lparr>recentTransactions := rc, receivedTransactions := rv\<rparr>"
  have "rv k = None" if "pendingTransactions p k \<noteq> None" for k
  proof (rule stores_None [OF assms(2)])
    show "k \<noteq> h" using that assms(3) by auto
    show "receivedTransactions p k = None" using assms(1) that by (auto simp: lt_wf_def maps_ok_def)
  qed
  then have "maps_ok ?p" using assms(1) by (auto simp: lt_wf_def maps_ok_def)
  moreover have "live ?p x = live p x" for x by (simp add: live_def)
  ultimately show ?thesis using assms(1) by (simp add: lt_wf_def links_ok_def blocks_def queue_ok_def)
qed

lemma resolve:
  assumes wf: "lt_ok p" and pend: "pendingTransactions p h = Some tt" and st: "stores h t p rc rv"
  obtains p0 Q where "markDecoded T (p\<lparr>recentTransactions := rc, receivedTransactions := rv,
      pendingTransactions := (pendingTransactions p)(h := None)\<rparr>) tt (data t) [] = Inr (p0, Q)"
    "lt_wf {} {} p0 Q" "kept p p0" "resolved T tt t p p0" "hash_of p tt = h" "live p tt"
proof -
  let ?p1 = "p\<lparr>pendingTransactions := (pendingTransactions p)(h := None), recentTransactions := rc, receivedTransactions := rv\<rparr>"
  from retire [OF wf pend st]
  obtain bs where r: "lt_wf {} {tt} ?p1 []" "\<not> live ?p1 tt" "tt < length (txHeap ?p1)"
    "blocking (txHeap ?p1 ! tt) = map Some bs" "blocks ?p1 tt bs" "hash_of p tt = h" "live p tt" by auto
  have q: "\<forall>e\<in>{}. queued (cwHeap ?p1 ! e)" by simp
  obtain p0 Q where m: "markDecoded T ?p1 tt (data t) [] = Inr (p0, Q)" "lt_wf {} {} p0 Q" "frame tt ?p1 p0"
    "\<forall>x<length (cwHeap ?p1). mset (mem_of p0 x) = filter_mset (\<lambda>y. y \<noteq> tt) (mset (mem_of ?p1 x))"
    "length Q + unqueued p0 = length ([] :: nat list) + unqueued ?p1"
    "data_laws T \<longrightarrow> (\<forall>f. f tt = data t \<longrightarrow> (\<forall>x<length (cwHeap ?p1). residual T f p0 x = residual T f ?p1 x))"
    by (rule markDecoded_wf [OF r(1-3) q r(4,5)])
  have sm: "same_maps ?p1 p0" using m(3) by (simp add: frame_def)
  have "resolved T tt t p p0"
    using sm st m(4,6) r(6) by (simp add: resolved_def same_maps_def) (simp add: residual_def)
  moreover have "kept p p0" using sm by (simp add: kept_def same_maps_def)
  moreover have "?p1 = p\<lparr>recentTransactions := rc, receivedTransactions := rv,
      pendingTransactions := (pendingTransactions p)(h := None)\<rparr>" by simp
  ultimately show ?thesis using that m(1,2) r(6,7) by metis
qed

lemma lt_AddTransaction_known:
  assumes "receivedTransactions p (salted (dhasher p) (hash t)) = Some e" "hash e = hash t"
  shows "lt_Decoder_AddTransaction T p t = Some (Inr (p, []))"
  using assms by (simp add: lt_Decoder_AddTransaction_def Let_def)

lemma lt_AddTransaction_stored:
  assumes wf: "lt_ok p" and h: "h = salted (dhasher p) (hash t)" and pend: "pendingTransactions p h = None"
    and new: "\<And>e. receivedTransactions p h = Some e \<Longrightarrow> hash e \<noteq> hash t"
  shows "\<exists>rc rv. lt_Decoder_AddTransaction T p t = Some (Inr (p\<lparr>recentTransactions := rc, receivedTransactions := rv\<rparr>, [])) \<and>
    stores h t p rc rv \<and> lt_ok (p\<lparr>recentTransactions := rc, receivedTransactions := rv\<rparr>)"
proof -
  have "0 \<le> memory p" using wf by (simp add: lt_wf_def)
  then obtain rc rv where s: "storeNewTransaction T p h t = Inr (p\<lparr>recentTransactions := rc, receivedTransactions := rv\<rparr>)"
    "stores h t p rc rv" by (rule storeNew_spec)
  then show ?thesis
    using stored_wf [OF wf s(2) pend] h pend new
    by (auto simp: lt_Decoder_AddTransaction_def Let_def split: option.splits)
qed

lemma lt_AddTransaction_pending:
  assumes wf: "lt_ok p" and h: "h = salted (dhasher p) (hash t)" and pend: "pendingTransactions p h = Some tt"
  shows "\<exists>p0 Q p' txs. lt_Decoder_AddTransaction T p t = Some (Inr (p', txs)) \<and> lt_ok p' \<and> live p tt \<and> hash_of p tt = h \<and>
    resolved T tt t p p0 \<and> kept p p0 \<and> lt_wf {} {} p0 Q \<and> kept p0 p' \<and> decode_run T p0 p' txs"
proof -
  have "0 \<le> memory p" "maps_ok p" using wf by (simp_all add: lt_wf_def)
  then have rcv: "receivedTransactions p h = None" "tt < length (txHeap p)" "hash_of p tt = h"
    using pend by (auto simp: maps_ok_def)
  obtain rc rv where s: "storeNewTransaction T p h t = Inr (p\<lparr>recentTransactions := rc, receivedTransactions := rv\<rparr>)"
    "stores h t p rc rv" by (rule storeNew_spec [OF \<open>0 \<le> memory p\<close>])
  obtain p0 Q where r: "markDecoded T (p\<lparr>recentTransactions := rc, receivedTransactions := rv,
      pendingTransactions := (pendingTransactions p)(h := None)\<rparr>) tt (data t) [] = Inr (p0, Q)"
    "lt_wf {} {} p0 Q" "kept p p0" "resolved T tt t p p0" "hash_of p tt = h" "live p tt"
    by (rule resolve [OF wf pend s(2)])
  obtain p' txs where d: "decodeLoop T p0 Q [] = Some (Inr (p', [] @ txs))" "lt_ok p'" "kept p0 p'" "decode_run T p0 p' txs"
    using decodeLoop_spec [OF r(2), of T "[]"] by blast
  have "lt_Decoder_AddTransaction T p t = Some (Inr (p', txs))"
    using s(1) r(1) d(1) rcv pend unfolding lt_Decoder_AddTransaction_def h [symmetric] Let_def
    by (simp add: decodeCodewords_def)
  then show ?thesis using r d by blast
qed

end
