(* ===== verification/Lt_Peeling.thy ===== *)
theory Lt_Peeling
  imports Lt_Operations
begin

text \<open>
  What the decoder of \<open>lt/decoder.go\<close> decodes, when the codewords are honest: each symbol is
  the exclusive or of the transactions whose hashes the codeword names. Then every decoded
  transaction is genuine, whatever the memory; and with memory for all transactions the
  decoder has received exactly the closure of what it was given under peeling.
\<close>

section \<open>Genuine transactions\<close>

text \<open>
  \<open>truth h\<close>: the data of the transaction with salted hash \<open>h\<close>, for the hashes \<open>H\<close> in use.
\<close>

definition true_tx :: "'d dataOps \<Rightarrow> (u32 \<Rightarrow> 'd) \<Rightarrow> u32 \<Rightarrow> 'd ltTransaction" where
  "true_tx T truth h = \<lparr>data = truth h, hash = data_Hash T (truth h)\<rparr>"

definition hashes_to :: "'d dataOps \<Rightarrow> hash64 \<Rightarrow> (u32 \<Rightarrow> 'd) \<Rightarrow> u32 set \<Rightarrow> bool" where
  "hashes_to T sip truth H \<longleftrightarrow> (\<forall>h\<in>H. salted sip (data_Hash T (truth h)) = h)"

definition agrees :: "'d dataOps \<Rightarrow> (u32 \<Rightarrow> 'd) \<Rightarrow> u32 set \<Rightarrow> 'd ltDecoder \<Rightarrow> bool" where
  "agrees T truth H p \<longleftrightarrow>
     hashes_to T (dhasher p) truth H \<and> stubHash ` set (txHeap p) \<subseteq> H \<and>
     (\<forall>h tx. receivedTransactions p h = Some tx \<longrightarrow> tx = true_tx T truth h) \<and>
     (\<forall>c<length (cwHeap p). residual T (\<lambda>t. truth (hash_of p t)) p c = data_zero T)"

text \<open>An honest codeword, and an honest transaction.\<close>

definition honest_cw :: "'d dataOps \<Rightarrow> (u32 \<Rightarrow> 'd) \<Rightarrow> u32 set \<Rightarrow> 'd ltCodeword \<Rightarrow> bool" where
  "honest_cw T truth H raw \<longleftrightarrow>
     set (cw_members raw) \<subseteq> H \<and> cw_symbol raw = xorAll T (image_mset truth (mset (cw_members raw)))"

definition honest_tx :: "'d dataOps \<Rightarrow> hash64 \<Rightarrow> (u32 \<Rightarrow> 'd) \<Rightarrow> u32 set \<Rightarrow> 'd ltTransaction \<Rightarrow> bool" where
  "honest_tx T sip truth H t \<longleftrightarrow> salted sip (hash t) \<in> H \<and> t = true_tx T truth (salted sip (hash t))"

lemma NewTransaction_eq: "data_laws T \<Longrightarrow> NewTransaction T d = \<lparr>data = d, hash = data_Hash T d\<rparr>"
  by (simp add: NewTransaction_def data_laws.zero_left)

lemma xor_zero_eq: "data_laws T \<Longrightarrow> data_XOR T a b = data_zero T \<Longrightarrow> a = b"
  by (metis data_laws.cancel data_laws.zero_left)

text \<open>The residual does not depend on the heap positions, only on the hashes.\<close>

lemma residual_hash_cong:
  assumes "lt_wf E {} p' Q" "map stubHash (txHeap p') = map stubHash (txHeap p)" "c < length (cwHeap p')"
  shows "residual T (\<lambda>t. truth (hash_of p' t)) p' c = residual T (\<lambda>t. truth (hash_of p t)) p' c"
proof -
  have "hash_of p' t = hash_of p t" if "t \<in> set (mem_of p' c)" for t
  proof -
    have "t < length (txHeap p')" using links_bound [OF _ assms(3) that] assms(1) by (simp add: lt_wf_def)
    then show ?thesis using assms(2) by (metis length_map nth_map)
  qed
  then have "image_mset (\<lambda>t. truth (hash_of p' t)) (mset (mem_of p' c)) = image_mset (\<lambda>t. truth (hash_of p t)) (mset (mem_of p' c))"
    by (intro image_mset_cong) simp
  then show ?thesis by (simp add: residual_def)
qed

lemma residual_lone:
  assumes "data_laws T" "mem_of p c = [t]" "residual T f p c = data_zero T"
  shows "symbol (cwHeap p ! c) = f t"
  using assms by (simp add: residual_def data_laws.xorAll_add data_laws.zero_right xor_zero_eq)

lemma stubs_kept: "kept p p' \<Longrightarrow> stubHash ` set (txHeap p') = stubHash ` set (txHeap p)"
  unfolding kept_def by (metis list.set_map)

text \<open>Storing a genuine transaction and peeling it keeps the agreement.\<close>

lemma agrees_resolved:
  assumes T: "data_laws T" and ag: "agrees T truth H p" and wf: "lt_wf {} {} p' Q"
    and k: "kept p p'" and r: "resolved T t tx p p'" and tx: "tx = true_tx T truth (hash_of p t)"
  shows "agrees T truth H p'"
proof -
  have len: "length (cwHeap p') = length (cwHeap p)" and th: "map stubHash (txHeap p') = map stubHash (txHeap p)"
    using k by (simp_all add: kept_def)
  have "residual T (\<lambda>t. truth (hash_of p' t)) p' c = data_zero T" if c: "c < length (cwHeap p)" for c
  proof -
    have "residual T (\<lambda>t. truth (hash_of p t)) p' c = residual T (\<lambda>t. truth (hash_of p t)) p c"
      using r T c tx unfolding resolved_def by (simp add: true_tx_def)
    then show ?thesis using residual_hash_cong [OF wf th, of c] ag c len by (simp add: agrees_def)
  qed
  moreover have "e = true_tx T truth h" if "receivedTransactions p' h = Some e" for h e
  proof -
    have "((receivedTransactions p)(hash_of p t \<mapsto> tx)) h = Some e"
      using r that unfolding resolved_def stores_def Let_def by (metis option.distinct(1))
    then show ?thesis using ag tx by (auto simp: agrees_def split: if_splits)
  qed
  ultimately show ?thesis using ag k len stubs_kept [OF k] by (simp add: agrees_def kept_def)
qed

text \<open>One round: a queued codeword of an honest decoder never fails to decode.\<close>

lemma agrees_round:
  assumes T: "data_laws T" and ag: "agrees T truth H p" and wf: "lt_wf {} {} p Q" and wf': "lt_wf {} {} p' Q'"
    and c: "c < length (cwHeap p)" and k: "kept p p'" and out: "decode_out T c p p' new"
  shows "agrees T truth H p' \<and>
    (mem_of p c = [] \<and> new = [] \<and> receivedTransactions p' = receivedTransactions p \<and>
     recentTransactions p' = recentTransactions p \<and> (\<forall>x<length (cwHeap p). mem_of p' x = mem_of p x) \<or>
     (\<exists>t. mem_of p c = [t] \<and> live p t \<and> hash_of p t \<in> H \<and> new = [true_tx T truth (hash_of p t)] \<and>
          resolved T t (true_tx T truth (hash_of p t)) p p'))"
proof -
  have sym: "symbol (cwHeap p ! c) = truth (hash_of p t)" if "mem_of p c = [t]" for t
    using residual_lone [OF T that] ag c by (auto simp: agrees_def)
  have H: "hash_of p t \<in> H" if "live p t" for t using ag that by (auto simp: agrees_def live_def)
  have new_tx: "NewTransaction T (symbol (cwHeap p ! c)) = true_tx T truth (hash_of p t)" if "mem_of p c = [t]" for t
    using sym [OF that] by (simp add: NewTransaction_eq [OF T] true_tx_def)
  have good: "salted (dhasher p) (hash (true_tx T truth (hash_of p t))) = hash_of p t" if "live p t" for t
    using ag H [OF that] by (simp add: agrees_def hashes_to_def true_tx_def)
  from out consider
      "mem_of p c = []" "new = []" "p' = p\<lparr>cwHeap := (cwHeap p)[c := (cwHeap p ! c)\<lparr>decoded := True\<rparr>]\<rparr>"
    | t where "mem_of p c = [t]" "live p t" "new = [true_tx T truth (hash_of p t)]"
        "resolved T t (true_tx T truth (hash_of p t)) p p'"
    unfolding decode_out_def Let_def using new_tx good by metis
  then show ?thesis
  proof cases
    case 1
    have mem: "mem_of p' x = mem_of p x" for x using 1(3) finish_members [OF c] by simp
    have "residual T f p' x = residual T f p x" for f x using finish_residual [OF c] 1(3) by simp
    moreover have "hash_of p' t = hash_of p t" for t using 1(3) by simp
    ultimately have "agrees T truth H p'" using ag 1(3) by (simp add: agrees_def)
    then show ?thesis using 1 mem by simp
  next
    case (2 t)
    then show ?thesis using agrees_resolved [OF T ag wf' k 2(4) refl] H by blast
  qed
qed

lemma agrees_linked:
  assumes T: "data_laws T" and ag: "agrees T truth H p" and wf: "lt_ok p" and wf0: "lt_wf {} {} p0 Q"
    and raw: "honest_cw T truth H raw" and l: "linked T raw p p0"
  shows "agrees T truth H p0"
proof -
  let ?c = "length (cwHeap p)" and ?rv = "receivedTransactions p"
  have l': "receivedTransactions p0 = ?rv" "dhasher p0 = dhasher p" "length (cwHeap p0) = Suc ?c"
    "\<forall>x<?c. cwHeap p0 ! x = cwHeap p ! x"
    "symbol (cwHeap p0 ! ?c) = peelKnown T ?rv (cw_members raw) (cw_symbol raw)"
    "map (hash_of p0) (mem_of p0 ?c) = filter (\<lambda>m. ?rv m = None) (cw_members raw)"
    using l by (simp_all add: linked_def Let_def)
  obtain ext where e: "map stubHash (txHeap p0) = map stubHash (txHeap p) @ ext" "set ext \<subseteq> set (cw_members raw)"
    using l by (auto simp: linked_def Let_def)
  have "stubHash ` set (txHeap p0) = stubHash ` set (txHeap p) \<union> set ext"
    using arg_cong [OF e(1), of set] by simp
  then have H0: "stubHash ` set (txHeap p0) \<subseteq> H" using ag raw e(2) by (auto simp: agrees_def honest_cw_def)
  have hash: "hash_of p0 t = hash_of p t" if "t < length (txHeap p)" for t
  proof -
    have "t < length (txHeap p0)" using that arg_cong [OF e(1), of length] by simp
    then show ?thesis using that arg_cong [OF e(1), of "\<lambda>xs. xs ! t"] by (simp add: nth_append)
  qed
  have peel: "data_XOR T (peelKnown T ?rv ms s) (xorAll T (image_mset truth (mset (filter (\<lambda>m. ?rv m = None) ms)))) =
      data_XOR T s (xorAll T (image_mset truth (mset ms)))" for ms s
  proof (induction ms arbitrary: s)
    case (Cons m ms)
    show ?case
    proof (cases "?rv m")
      case None
      then show ?thesis using Cons [of s] data_laws.left_comm [OF T] by (simp add: data_laws.xorAll_add [OF T])
    next
      case (Some tx)
      then have "tx = true_tx T truth m" using ag by (simp add: agrees_def)
      then have "data tx = truth m" by (simp add: true_tx_def)
      then show ?thesis using Some Cons [of "data_XOR T s (truth m)"]
        by (simp add: data_laws.xorAll_add [OF T] data_laws.assoc [OF T])
    qed
  qed simp
  have "residual T (\<lambda>t. truth (hash_of p0 t)) p0 x = data_zero T" if x: "x < Suc ?c" for x
  proof (cases "x = ?c")
    case True
    have "image_mset (\<lambda>t. truth (hash_of p0 t)) (mset (mem_of p0 ?c)) =
          image_mset truth (mset (map (hash_of p0) (mem_of p0 ?c)))" by (simp add: multiset.map_comp comp_def)
    then show ?thesis
      using peel [of "cw_members raw" "cw_symbol raw"] raw True
      by (simp add: residual_def l'(5) l'(6) honest_cw_def data_laws.self [OF T] del: mset_map mset_filter)
  next
    case False
    then have xc: "x < ?c" using x by simp
    have "hash_of p0 t = hash_of p t" if "t \<in> set (mem_of p x)" for t
      using hash links_bound [OF _ xc that] wf by (simp add: lt_wf_def)
    then have "image_mset (\<lambda>t. truth (hash_of p0 t)) (mset (mem_of p x)) = image_mset (\<lambda>t. truth (hash_of p t)) (mset (mem_of p x))"
      by (intro image_mset_cong) simp
    then show ?thesis using ag xc l'(4) by (simp add: residual_def agrees_def)
  qed
  then show ?thesis using ag H0 l' by (simp add: agrees_def)
qed

lemma agrees_run:
  assumes "data_laws T" "decode_run T p p' new" "agrees T truth H p"
  shows "agrees T truth H p' \<and> set new \<subseteq> true_tx T truth ` H"
  using assms(2,3)
proof (induction rule: decode_run.induct)
  case (round p Q c p1 new1 Q1 p2 new2)
  from agrees_round [OF assms(1) round.prems round.hyps(1,5,2,4,3)]
  have "agrees T truth H p1" "set new1 \<subseteq> true_tx T truth ` H" by auto
  then show ?case using round.IH by simp
qed simp

section \<open>The closure under peeling\<close>

text \<open>
  What can be known from the given transactions \<open>G\<close> and the codewords with members \<open>os\<close>: a
  codeword of which all members but one are known gives that one.
\<close>

inductive_set peelable :: "u32 set \<Rightarrow> u32 list list \<Rightarrow> u32 set" for G :: "u32 set" and os :: "u32 list list" where
  given: "h \<in> G \<Longrightarrow> h \<in> peelable G os"
| peel: "ms \<in> set os \<Longrightarrow> mset ms = add_mset h (mset rest) \<Longrightarrow> \<forall>x\<in>set rest. x \<in> peelable G os \<Longrightarrow> h \<in> peelable G os"

lemma peelable_mono:
  assumes "h \<in> peelable G os" "G \<subseteq> G'" "set os \<subseteq> set os'"
  shows "h \<in> peelable G' os'"
  using assms(1)
proof induction
  case (given h)
  then show ?case using assms(2) by (auto intro: peelable.given)
next
  case (peel ms h rest)
  then show ?case using assms(3) by (intro peelable.peel [of ms os' h rest]) auto
qed

text \<open>
  The decoder has received exactly what it has derived: \<open>os\<close> lists the members of its
  codewords as they came, and the members left in a codeword are those not received.
\<close>

definition unknown :: "'d ltDecoder \<Rightarrow> u32 list \<Rightarrow> u32 multiset" where
  "unknown p ms = filter_mset (\<lambda>h. receivedTransactions p h = None) (mset ms)"

definition remembers :: "u32 set \<Rightarrow> 'd ltDecoder \<Rightarrow> bool" where
  "remembers H p \<longleftrightarrow>
     finite H \<and> int (card H) \<le> memory p \<and> distinct (map saltedHash (recentTransactions p)) \<and>
     saltedHash ` set (recentTransactions p) = dom (receivedTransactions p) \<and> dom (receivedTransactions p) \<subseteq> H"

definition tracks :: "u32 set \<Rightarrow> u32 list list \<Rightarrow> 'd ltDecoder \<Rightarrow> bool" where
  "tracks G os p \<longleftrightarrow>
     length os = length (cwHeap p) \<and>
     (\<forall>c<length os. mset (map (hash_of p) (mem_of p c)) = unknown p (os ! c)) \<and>
     G \<subseteq> dom (receivedTransactions p) \<and> dom (receivedTransactions p) \<subseteq> peelable G os"

lemma remembers_stores:
  assumes "remembers H p" "stores h t p rc rv" "h \<in> H" "receivedTransactions p h = None"
  shows "rv = (receivedTransactions p)(h \<mapsto> t) \<and> rc = recentTransactions p @ [\<lparr>saltedHash = h, tx_of = t\<rparr>] \<and>
    distinct (map saltedHash rc) \<and> saltedHash ` set rc = insert h (dom (receivedTransactions p))"
proof -
  let ?rs = "recentTransactions p"
  have r: "finite H" "int (card H) \<le> memory p" "distinct (map saltedHash ?rs)"
    "saltedHash ` set ?rs = dom (receivedTransactions p)" "dom (receivedTransactions p) \<subseteq> H"
    using assms(1) by (simp_all add: remembers_def)
  have nh: "h \<notin> saltedHash ` set ?rs" using r(4) assms(4) by auto
  have "card (set (map saltedHash ?rs)) = length ?rs" using distinct_card [OF r(3)] by simp
  then have "card (insert h (saltedHash ` set ?rs)) = Suc (length ?rs)" using nh by simp
  moreover have "insert h (saltedHash ` set ?rs) \<subseteq> H" using r(4,5) assms(3) by auto
  ultimately have "Suc (length ?rs) \<le> card H" using r(1) by (metis card_mono)
  then have len: "int (length (?rs @ [\<lparr>saltedHash = h, tx_of = t\<rparr>])) \<le> memory p" using r(2) by simp
  then have "rv = (receivedTransactions p)(h \<mapsto> t)" using assms(2) unfolding stores_def Let_def by blast
  moreover have "rc = ?rs @ [\<lparr>saltedHash = h, tx_of = t\<rparr>]"
    using assms(2) len unfolding stores_def Let_def by (simp add: nat_le_iff [symmetric] le_nat_iff)
  ultimately show ?thesis using r(3,4) nh by simp
qed

text \<open>Learning \<open>h\<close>: the transaction is stored, and every codeword loses it.\<close>

lemma tracks_learn:
  assumes tr: "tracks G os p" and rm: "remembers H p" and st: "stores h tx p (recentTransactions p') (receivedTransactions p')"
    and h: "h \<in> H" "receivedTransactions p h = None" "h \<in> peelable G' os" "G' = G \<or> G' = insert h G"
    and k: "length (cwHeap p') = length (cwHeap p)" "memory p' = memory p"
    and mem: "\<forall>c<length (cwHeap p). mset (map (hash_of p') (mem_of p' c)) = filter_mset (\<lambda>x. x \<noteq> h) (mset (map (hash_of p) (mem_of p c)))"
  shows "tracks G' os p' \<and> remembers H p' \<and> dom (receivedTransactions p') = insert h (dom (receivedTransactions p))"
proof -
  note s = remembers_stores [OF rm st h(1,2)]
  have dom: "dom (receivedTransactions p') = insert h (dom (receivedTransactions p))" using s by auto
  have unk: "unknown p' ms = filter_mset (\<lambda>x. x \<noteq> h) (unknown p ms)" for ms
    using s by (auto simp: unknown_def intro!: multiset_eqI)
  have sub: "G \<subseteq> G'" using h(4) by auto
  have "dom (receivedTransactions p) \<subseteq> peelable G' os"
  proof
    fix x assume "x \<in> dom (receivedTransactions p)"
    then have "x \<in> peelable G os" using tr by (auto simp: tracks_def)
    then show "x \<in> peelable G' os" using peelable_mono [OF _ sub order.refl] by blast
  qed
  then have "tracks G' os p'"
    using tr mem k(1) dom h(3,4) unfolding tracks_def unk by auto
  moreover have "remembers H p'" using rm s h(1) unfolding remembers_def dom k(2) by blast
  ultimately show ?thesis using dom by simp
qed

text \<open>The hashes of live transactions are different, so peeling \<open>t\<close> is peeling its hash.\<close>

lemma resolved_hashes:
  assumes wf: "lt_wf {} {} p Q" and wf': "lt_wf {} {} p' Q'" and k: "kept p p'" and r: "resolved T t tx p p'" and lt: "live p t"
    and c: "c < length (cwHeap p)"
  shows "mset (map (hash_of p') (mem_of p' c)) = filter_mset (\<lambda>x. x \<noteq> hash_of p t) (mset (map (hash_of p) (mem_of p c)))"
proof -
  have links: "links_ok {} p" "links_ok {} p'" using wf wf' by (simp_all add: lt_wf_def)
  have c': "c < length (cwHeap p')" and th: "map stubHash (txHeap p') = map stubHash (txHeap p)" using c k by (simp_all add: kept_def)
  have "hash_of p' x = hash_of p x" if "x \<in> set (mem_of p' c)" for x
    using links_bound [OF links(2) c' that] th by (metis length_map nth_map)
  then have "mset (map (hash_of p') (mem_of p' c)) = image_mset (hash_of p) (mset (mem_of p' c))"
    unfolding mset_map by (intro image_mset_cong) simp
  also have "\<dots> = image_mset (hash_of p) (filter_mset (\<lambda>y. y \<noteq> t) (mset (mem_of p c)))"
    using r c by (simp add: resolved_def)
  also have "filter_mset (\<lambda>y. y \<noteq> t) (mset (mem_of p c)) = filter_mset (\<lambda>y. hash_of p y \<noteq> hash_of p t) (mset (mem_of p c))"
  proof (rule filter_mset_cong [OF refl])
    fix x assume "x \<in># mset (mem_of p c)"
    then have "live p x" using links(1) c by (simp add: links_ok_def)
    then show "(x \<noteq> t) = (hash_of p x \<noteq> hash_of p t)" using lt by (metis live_def option.inject)
  qed
  also have "image_mset (hash_of p) \<dots> = filter_mset (\<lambda>x. x \<noteq> hash_of p t) (mset (map (hash_of p) (mem_of p c)))"
    unfolding mset_map filter_mset_image_mset comp_def ..
  finally show ?thesis .
qed

section \<open>What a decoding loop derives\<close>

text \<open>Rounds keep the decoder exact, and the decoded transactions are the newly received ones.\<close>

definition exact :: "'d dataOps \<Rightarrow> (u32 \<Rightarrow> 'd) \<Rightarrow> u32 set \<Rightarrow> u32 set \<Rightarrow> u32 list list \<Rightarrow> 'd ltDecoder \<Rightarrow> bool" where
  "exact T truth H G os p \<longleftrightarrow> agrees T truth H p \<and> tracks G os p \<and> remembers H p"

definition delivers :: "'d dataOps \<Rightarrow> (u32 \<Rightarrow> 'd) \<Rightarrow> u32 set \<Rightarrow> u32 set \<Rightarrow> 'd ltTransaction list \<Rightarrow> bool" where
  "delivers T truth A B new \<longleftrightarrow>
     A \<subseteq> B \<and> (\<exists>hs. new = map (true_tx T truth) hs \<and> distinct hs \<and> set hs = B - A)"

lemma delivers_refl [simp]: "delivers T truth A A []"
  by (simp add: delivers_def)

lemma delivers_trans:
  assumes "delivers T truth A B new1" "delivers T truth B C new2"
  shows "delivers T truth A C (new1 @ new2)"
proof -
  obtain hs1 hs2 where h: "new1 = map (true_tx T truth) hs1" "distinct hs1" "set hs1 = B - A"
    "new2 = map (true_tx T truth) hs2" "distinct hs2" "set hs2 = C - B" "A \<subseteq> B" "B \<subseteq> C"
    using assms by (auto simp: delivers_def)
  have "new1 @ new2 = map (true_tx T truth) (hs1 @ hs2)" using h(1,4) by simp
  moreover have "distinct (hs1 @ hs2)" "set (hs1 @ hs2) = C - A" using h by auto
  ultimately show ?thesis using h(7,8) unfolding delivers_def by blast
qed

lemma unknown_same:
  "receivedTransactions p' = receivedTransactions p \<Longrightarrow> unknown p' ms = unknown p ms"
  by (simp add: unknown_def)

lemma exact_round:
  assumes T: "data_laws T" and ex: "exact T truth H G os p" and wf: "lt_wf {} {} p Q" and wf': "lt_wf {} {} p' Q'"
    and c: "c < length (cwHeap p)" and k: "kept p p'" and out: "decode_out T c p p' new"
  shows "exact T truth H G os p' \<and> delivers T truth (dom (receivedTransactions p)) (dom (receivedTransactions p')) new"
proof -
  have ag: "agrees T truth H p" and tr: "tracks G os p" and rm: "remembers H p" using ex by (simp_all add: exact_def)
  have len: "length os = length (cwHeap p)" "length (cwHeap p') = length (cwHeap p)" "memory p' = memory p"
    using tr k by (simp_all add: tracks_def kept_def)
  note a = agrees_round [OF T ag wf wf' c k out]
  show ?thesis
  proof (cases "mem_of p c = []")
    case True
    then have s: "new = []" "receivedTransactions p' = receivedTransactions p" "recentTransactions p' = recentTransactions p"
      "\<forall>x<length (cwHeap p). mem_of p' x = mem_of p x" using a by auto
    have "mset (map (hash_of p') (mem_of p' x)) = mset (map (hash_of p) (mem_of p x))" if "x < length (cwHeap p)" for x
    proof -
      have "hash_of p' t = hash_of p t" if "t \<in> set (mem_of p x)" for t
        using links_bound [OF _ \<open>x < length (cwHeap p)\<close> that] wf k by (metis kept_def length_map lt_wf_def nth_map)
      then have "map (\<lambda>t. hash_of p' t) (mem_of p x) = map (\<lambda>t. hash_of p t) (mem_of p x)" by (rule map_cong [OF refl])
      moreover have "mem_of p' x = mem_of p x" using s(4) that by simp
      ultimately show ?thesis by (simp only:)
    qed
    then have "tracks G os p'" using tr unfolding tracks_def len(1,2) unknown_same [OF s(2)] s(2) by metis
    moreover have "remembers H p'" using rm s len by (simp add: remembers_def)
    ultimately show ?thesis using a s by (simp add: exact_def)
  next
    case False
    then obtain t where t: "mem_of p c = [t]" "live p t" "hash_of p t \<in> H" "new = [true_tx T truth (hash_of p t)]"
      "resolved T t (true_tx T truth (hash_of p t)) p p'" using a by blast
    let ?h = "hash_of p t"
    have rcv: "receivedTransactions p ?h = None" using live_not_received [OF _ t(2)] wf by (simp add: lt_wf_def)
    have "mset (map (hash_of p) (mem_of p c)) = unknown p (os ! c)" using tr c len(1) by (simp only: tracks_def)
    then have unk: "unknown p (os ! c) = {#?h#}" by (simp add: t(1))
    obtain rest where rest: "mset rest = filter_mset (\<lambda>h. receivedTransactions p h \<noteq> None) (mset (os ! c))"
      by (metis ex_mset)
    have "mset (os ! c) = unknown p (os ! c) + mset rest"
      unfolding unknown_def rest by (rule multiset_partition)
    then have "mset (os ! c) = add_mset ?h (mset rest)" by (simp add: unk)
    moreover have "\<forall>x\<in>set rest. x \<in> peelable G os"
    proof
      fix x assume "x \<in> set rest"
      then have "x \<in># filter_mset (\<lambda>h. receivedTransactions p h \<noteq> None) (mset (os ! c))" using rest by (metis set_mset_mset)
      then show "x \<in> peelable G os" using tr by (auto simp: tracks_def)
    qed
    ultimately have peel: "?h \<in> peelable G os" using c len(1) by (intro peelable.peel [of "os ! c" os ?h rest]) simp_all
    have st: "stores ?h (true_tx T truth ?h) p (recentTransactions p') (receivedTransactions p')"
      using t(5) by (simp add: resolved_def)
    have "tracks G os p' \<and> remembers H p' \<and> dom (receivedTransactions p') = insert ?h (dom (receivedTransactions p))"
      using resolved_hashes [OF wf wf' k t(5,2)]
      by (intro tracks_learn [OF tr rm st t(3) rcv peel disjI1 [OF refl] len(2,3)]) blast
    moreover have "delivers T truth (dom (receivedTransactions p)) (insert ?h (dom (receivedTransactions p))) new"
      using t(4) rcv unfolding delivers_def by (intro conjI exI [of _ "[?h]"]) auto
    ultimately show ?thesis using a by (simp add: exact_def)
  qed
qed

lemma exact_run:
  assumes "data_laws T" "decode_run T p p' new" "exact T truth H G os p"
  shows "exact T truth H G os p' \<and> delivers T truth (dom (receivedTransactions p)) (dom (receivedTransactions p')) new"
  using assms(2,3)
proof (induction rule: decode_run.induct)
  case (round p Q c p1 new1 Q1 p2 new2)
  from exact_round [OF assms(1) round.prems round.hyps(1,5,2,4,3)]
  show ?case using round.IH delivers_trans by blast
qed simp

lemma filter_mset_none: "filter_mset P M = {#} \<longleftrightarrow> (\<forall>x\<in>#M. \<not> P x)"
  by (induction M) auto

text \<open>A decoder at rest has derived everything that can be derived.\<close>

lemma rest_closed:
  assumes "lt_ok p" "tracks G os p"
  shows "dom (receivedTransactions p) = peelable G os"
    "c < length os \<Longrightarrow> decoded (cwHeap p ! c) \<longleftrightarrow> set (os ! c) \<subseteq> dom (receivedTransactions p)"
proof -
  have len: "length os = length (cwHeap p)" using assms(2) by (simp add: tracks_def)
  have cw: "cw_ok False (cwHeap p ! c)" if "c < length os" for c
    using assms(1) that len by (auto simp: lt_wf_def queue_ok_def)
  have size: "length (mem_of p c) = size (unknown p (os ! c))" if "c < length os" for c
    using assms(2) that by (metis tracks_def length_map size_mset)
  have "h \<in> dom (receivedTransactions p)" if "h \<in> peelable G os" for h
    using that
  proof induction
    case (given h)
    then show ?case using assms(2) by (auto simp: tracks_def)
  next
    case (peel ms h rest)
    then obtain c where c: "c < length os" "ms = os ! c" by (metis in_set_conv_nth)
    show ?case
    proof (rule ccontr)
      assume no: "h \<notin> dom (receivedTransactions p)"
      have "filter_mset (\<lambda>h. receivedTransactions p h = None) (mset rest) = {#}"
        using peel.IH by (auto simp: filter_mset_none)
      then have "unknown p (os ! c) = {#h#}" using no peel.hyps(2) c(2) by (auto simp: unknown_def)
      then have "length (mem_of p c) = 1" using size [OF c(1)] by simp
      then show False using cw [OF c(1)] by (auto simp: cw_ok_def split: if_splits)
    qed
  qed
  then show "dom (receivedTransactions p) = peelable G os" using assms(2) by (auto simp: tracks_def)
  show "decoded (cwHeap p ! c) \<longleftrightarrow> set (os ! c) \<subseteq> dom (receivedTransactions p)" if c: "c < length os"
  proof -
    have "decoded (cwHeap p ! c) \<longleftrightarrow> mem_of p c = []" using cw [OF c] by (auto simp: cw_ok_def split: if_splits)
    also have "\<dots> \<longleftrightarrow> unknown p (os ! c) = {#}" using size [OF c] by (metis length_0_conv size_eq_0_iff_empty)
    also have "\<dots> \<longleftrightarrow> set (os ! c) \<subseteq> dom (receivedTransactions p)"
      by (auto simp: unknown_def filter_mset_none)
    finally show ?thesis .
  qed
qed

end
