(* ===== verification/Lt_History.thy ===== *)
theory Lt_History
  imports Lt_Peeling
begin

text \<open>
  Histories of the decoder of \<open>lt/decoder.go\<close>: any sequence of received codewords and added
  transactions. No history panics; with honest input the decoded transactions are genuine,
  and with enough memory they are those that peeling derives.
\<close>

section \<open>Histories\<close>

datatype 'd ltEvent = GotCodeword "'d ltCodeword" | GotTransaction "'d ltTransaction"

definition lt_receive :: "'d dataOps \<Rightarrow> 'd ltDecoder \<Rightarrow> 'd ltEvent \<Rightarrow> ('d ltDecoder \<times> 'd ltTransaction list) run" where
  "lt_receive T p ev =
     (case ev of
        GotCodeword raw \<Rightarrow> bindO (lt_AddCodeword T p raw) (\<lambda>(p, _, txs). Some (Inr (p, txs)))
      | GotTransaction t \<Rightarrow> lt_Decoder_AddTransaction T p t)"

fun lt_receiveAll :: "'d dataOps \<Rightarrow> 'd ltDecoder \<Rightarrow> 'd ltEvent list \<Rightarrow> ('d ltDecoder \<times> 'd ltTransaction list) run" where
  "lt_receiveAll T p [] = Some (Inr (p, []))"
| "lt_receiveAll T p (ev # evs) =
     bindO (lt_receive T p ev) (\<lambda>(p, txs).
     bindO (lt_receiveAll T p evs) (\<lambda>(p, out). Some (Inr (p, txs @ out))))"

text \<open>What a history hands to the decoder: salted hashes of transactions, and members of codewords.\<close>

fun givenBy :: "hash64 \<Rightarrow> 'd ltEvent list \<Rightarrow> u32 set" where
  "givenBy sip [] = {}"
| "givenBy sip (GotCodeword raw # evs) = givenBy sip evs"
| "givenBy sip (GotTransaction t # evs) = insert (salted sip (hash t)) (givenBy sip evs)"

fun wordsOf :: "'d ltEvent list \<Rightarrow> u32 list list" where
  "wordsOf [] = []"
| "wordsOf (GotCodeword raw # evs) = cw_members raw # wordsOf evs"
| "wordsOf (GotTransaction t # evs) = wordsOf evs"

definition honest :: "'d dataOps \<Rightarrow> hash64 \<Rightarrow> (u32 \<Rightarrow> 'd) \<Rightarrow> u32 set \<Rightarrow> 'd ltEvent \<Rightarrow> bool" where
  "honest T sip truth H ev =
     (case ev of GotCodeword raw \<Rightarrow> honest_cw T truth H raw | GotTransaction t \<Rightarrow> honest_tx T sip truth H t)"

section \<open>One event\<close>

lemma NewDecoder_ok: "0 \<le> mem \<Longrightarrow> lt_ok (lt_NewDecoder sip mem)"
  by (simp add: lt_wf_def maps_ok_def links_ok_def live_def queue_ok_def lt_NewDecoder_def)

lemma AddTransaction_cases:
  assumes "lt_ok p" "h = salted (dhasher p) (hash t)"
  obtains (known) e where "receivedTransactions p h = Some e" "hash e = hash t"
      "lt_Decoder_AddTransaction T p t = Some (Inr (p, []))"
    | (stored) rc rv where "\<And>e. receivedTransactions p h = Some e \<Longrightarrow> hash e \<noteq> hash t" "stores h t p rc rv"
      "lt_Decoder_AddTransaction T p t = Some (Inr (p\<lparr>recentTransactions := rc, receivedTransactions := rv\<rparr>, []))"
      "lt_ok (p\<lparr>recentTransactions := rc, receivedTransactions := rv\<rparr>)"
    | (pending) p0 Q p' txs tt where "lt_Decoder_AddTransaction T p t = Some (Inr (p', txs))" "lt_ok p'" "live p tt"
      "hash_of p tt = h" "resolved T tt t p p0" "kept p p0" "lt_wf {} {} p0 Q" "kept p0 p'" "decode_run T p0 p' txs"
proof (cases "pendingTransactions p h")
  case (Some tt)
  show ?thesis using lt_AddTransaction_pending [OF assms Some, of T] pending by blast
next
  case None
  show ?thesis
  proof (cases "\<exists>e. receivedTransactions p h = Some e \<and> hash e = hash t")
    case True
    then obtain e where "receivedTransactions p h = Some e" "hash e = hash t" by blast
    then show ?thesis using lt_AddTransaction_known [of p t e T] assms(2) known by blast
  next
    case False
    then have "\<And>e. receivedTransactions p h = Some e \<Longrightarrow> hash e \<noteq> hash t" by blast
    then show ?thesis using lt_AddTransaction_stored [OF assms None, of T] stored by blast
  qed
qed

lemma lt_receive_ok:
  assumes "lt_ok p"
  shows "\<exists>p' out. lt_receive T p ev = Some (Inr (p', out)) \<and> lt_ok p' \<and> dhasher p' = dhasher p \<and> memory p' = memory p"
proof (cases ev)
  case (GotCodeword raw)
  then show ?thesis using lt_AddCodeword_spec [OF assms, of T raw]
    by (fastforce simp: lt_receive_def linked_def kept_def Let_def)
next
  case (GotTransaction t)
  show ?thesis
    by (rule AddTransaction_cases [OF assms refl, of t T]) (use GotTransaction assms in \<open>auto simp: lt_receive_def kept_def\<close>)
qed

lemma agrees_receive:
  assumes T: "data_laws T" and wf: "lt_ok p" and ag: "agrees T truth H p" and hon: "honest T (dhasher p) truth H ev"
    and run: "lt_receive T p ev = Some (Inr (p', out))"
  shows "agrees T truth H p' \<and> set out \<subseteq> true_tx T truth ` H"
proof (cases ev)
  case (GotCodeword raw)
  obtain p0 Q p1 txs where s: "lt_AddCodeword T p raw = Some (Inr (p1, length (cwHeap p), txs))" "linked T raw p p0"
    "lt_wf {} {} p0 Q" "decode_run T p0 p1 txs" using lt_AddCodeword_spec [OF wf, of T raw] by blast
  have "agrees T truth H p0" using agrees_linked [OF T ag wf s(3) _ s(2)] hon GotCodeword by (simp add: honest_def)
  moreover have "p1 = p'" "txs = out" using run s(1) GotCodeword by (simp_all add: lt_receive_def)
  ultimately show ?thesis using agrees_run [OF T s(4)] by blast
next
  case (GotTransaction t)
  let ?h = "salted (dhasher p) (hash t)"
  have t: "?h \<in> H" "t = true_tx T truth ?h" using hon GotTransaction by (simp_all add: honest_def honest_tx_def)
  show ?thesis
  proof (rule AddTransaction_cases [OF wf refl, of t T])
    fix e assume "lt_Decoder_AddTransaction T p t = Some (Inr (p, []))"
    then show ?thesis using run GotTransaction ag by (simp add: lt_receive_def)
  next
    fix rc rv assume s: "stores ?h t p rc rv"
      "lt_Decoder_AddTransaction T p t = Some (Inr (p\<lparr>recentTransactions := rc, receivedTransactions := rv\<rparr>, []))"
    have "e = true_tx T truth k" if "rv k = Some e" for k e
    proof -
      have "((receivedTransactions p)(?h \<mapsto> t)) k = Some e"
        using s(1) that unfolding stores_def Let_def by (metis option.distinct(1))
      then show ?thesis using ag t(2) by (auto simp: agrees_def split: if_splits)
    qed
    then have "agrees T truth H (p\<lparr>recentTransactions := rc, receivedTransactions := rv\<rparr>)"
      using ag by (simp add: agrees_def residual_def)
    then show ?thesis using run GotTransaction s(2) by (auto simp: lt_receive_def)
  next
    fix p0 Q p1 txs tt
    assume s: "lt_Decoder_AddTransaction T p t = Some (Inr (p1, txs))" "live p tt" "hash_of p tt = ?h"
      "resolved T tt t p p0" "kept p p0" "lt_wf {} {} p0 Q" "decode_run T p0 p1 txs"
    have "agrees T truth H p0" using agrees_resolved [OF T ag s(6,5,4)] t(2) s(3) by simp
    then show ?thesis using agrees_run [OF T s(7)] run s(1) GotTransaction by (auto simp: lt_receive_def)
  qed
qed

section \<open>What a history teaches the decoder\<close>

text \<open>
  \<open>learns A G B out\<close>: from the received hashes \<open>A\<close> and the given ones \<open>G\<close>, the decoder came to
  \<open>B\<close> and reported the transactions \<open>out\<close>, none twice and none it had before.
\<close>

definition learns :: "'d dataOps \<Rightarrow> (u32 \<Rightarrow> 'd) \<Rightarrow> u32 set \<Rightarrow> u32 set \<Rightarrow> u32 set \<Rightarrow> 'd ltTransaction list \<Rightarrow> bool" where
  "learns T truth A G B out \<longleftrightarrow>
     (\<exists>hs. out = map (true_tx T truth) hs \<and> distinct hs \<and> set hs \<inter> A = {} \<and> B = A \<union> G \<union> set hs)"

lemma learns_refl [simp]: "learns T truth A {} A []"
  by (simp add: learns_def)

lemma learns_trans:
  assumes "learns T truth A G1 B out1" "learns T truth B G2 C out2"
  shows "learns T truth A (G1 \<union> G2) C (out1 @ out2)"
proof -
  obtain hs1 hs2 where h: "out1 = map (true_tx T truth) hs1" "distinct hs1" "set hs1 \<inter> A = {}" "B = A \<union> G1 \<union> set hs1"
    "out2 = map (true_tx T truth) hs2" "distinct hs2" "set hs2 \<inter> B = {}" "C = B \<union> G2 \<union> set hs2"
    using assms unfolding learns_def by blast
  have "out1 @ out2 = map (true_tx T truth) (hs1 @ hs2)" "distinct (hs1 @ hs2)" "set (hs1 @ hs2) \<inter> A = {}"
    "C = A \<union> (G1 \<union> G2) \<union> set (hs1 @ hs2)" using h by auto
  then show ?thesis unfolding learns_def by blast
qed

lemma delivers_learns: "delivers T truth (A \<union> G) B out \<Longrightarrow> learns T truth A G B out"
  unfolding delivers_def learns_def by blast

lemma exact_linked:
  assumes T: "data_laws T" and ex: "exact T truth H G os p" and wf: "lt_ok p" and wf0: "lt_wf {} {} p0 Q"
    and raw: "honest_cw T truth H raw" and l: "linked T raw p p0"
  shows "exact T truth H G (os @ [cw_members raw]) p0"
proof -
  have ag: "agrees T truth H p" and tr: "tracks G os p" and rm: "remembers H p" using ex by (simp_all add: exact_def)
  let ?c = "length (cwHeap p)"
  have l': "receivedTransactions p0 = receivedTransactions p" "recentTransactions p0 = recentTransactions p"
    "memory p0 = memory p" "length (cwHeap p0) = Suc ?c" "\<forall>x<?c. cwHeap p0 ! x = cwHeap p ! x"
    "map (hash_of p0) (mem_of p0 ?c) = filter (\<lambda>m. receivedTransactions p m = None) (cw_members raw)"
    using l by (simp_all add: linked_def Let_def)
  obtain ext where e: "map stubHash (txHeap p0) = map stubHash (txHeap p) @ ext" using l by (auto simp: linked_def Let_def)
  have len: "length os = ?c" using tr by (simp add: tracks_def)
  have "mset (map (hash_of p0) (mem_of p0 x)) = unknown p ((os @ [cw_members raw]) ! x)" if x: "x < Suc ?c" for x
  proof (cases "x = ?c")
    case True
    have "(os @ [cw_members raw]) ! ?c = cw_members raw" using len by (metis nth_append_length)
    then show ?thesis using l'(6) True by (simp add: unknown_def del: mset_map)
  next
    case False
    then have xc: "x < ?c" using x by simp
    have "hash_of p0 t = hash_of p t" if "t \<in> set (mem_of p x)" for t
    proof -
      have t: "t < length (txHeap p)" using links_bound [OF _ xc that] wf by (simp add: lt_wf_def)
      have "t < length (txHeap p0)" using t arg_cong [OF e, of length] by simp
      then show ?thesis using t arg_cong [OF e, of "\<lambda>xs. xs ! t"] by (simp add: nth_append)
    qed
    then have "map (\<lambda>t. hash_of p0 t) (mem_of p x) = map (\<lambda>t. hash_of p t) (mem_of p x)" by (rule map_cong [OF refl])
    moreover have "mem_of p0 x = mem_of p x" using l'(5) xc by simp
    moreover have "mset (map (hash_of p) (mem_of p x)) = unknown p (os ! x)" using tr xc len by (simp only: tracks_def)
    ultimately show ?thesis using xc len by (simp only: nth_append if_True)
  qed
  moreover have "dom (receivedTransactions p) \<subseteq> peelable G (os @ [cw_members raw])"
  proof
    fix x assume "x \<in> dom (receivedTransactions p)"
    then have "x \<in> peelable G os" using tr by (auto simp: tracks_def)
    then show "x \<in> peelable G (os @ [cw_members raw])" by (rule peelable_mono) auto
  qed
  ultimately have "tracks G (os @ [cw_members raw]) p0"
    using tr len unfolding tracks_def unknown_same [OF l'(1)] l'(1,4) by simp
  moreover have "remembers H p0" using rm l' by (simp add: remembers_def)
  ultimately show ?thesis using agrees_linked [OF T ag wf wf0 raw l] by (simp add: exact_def)
qed

lemma filter_mset_all: "\<forall>x\<in>#M. P x \<Longrightarrow> filter_mset P M = M"
  by (induction M) auto

text \<open>A transaction that arrives while the decoder is exact.\<close>

lemma tracks_given:
  assumes "tracks G os p" "h \<in> dom (receivedTransactions p)"
  shows "tracks (insert h G) os p"
proof -
  have "x \<in> peelable (insert h G) os" if "x \<in> dom (receivedTransactions p)" for x
  proof -
    have "x \<in> peelable G os" using assms(1) that by (auto simp: tracks_def)
    then show ?thesis by (rule peelable_mono) auto
  qed
  then show ?thesis using assms by (auto simp: tracks_def)
qed

lemma exact_stored:
  assumes ex: "exact T truth H G os p" and ag: "agrees T truth H p'" and h: "h \<in> H" "receivedTransactions p h = None"
    and np: "pendingTransactions p h = None" and wf: "lt_ok p"
    and st: "stores h t p rc rv" and p': "p' = p\<lparr>recentTransactions := rc, receivedTransactions := rv\<rparr>"
  shows "exact T truth H (insert h G) os p' \<and> dom (receivedTransactions p') = insert h (dom (receivedTransactions p))"
proof -
  have tr: "tracks G os p" and rm: "remembers H p" using ex by (simp_all add: exact_def)
  have links: "links_ok {} p" using wf by (simp add: lt_wf_def)
  have "filter_mset (\<lambda>x. x \<noteq> h) (mset (map (hash_of p) (mem_of p c))) = mset (map (hash_of p) (mem_of p c))"
    if c: "c < length (cwHeap p)" for c
  proof -
    have "hash_of p t \<noteq> h" if "t \<in> set (mem_of p c)" for t
      using links c that np by (auto simp: links_ok_def live_def)
    then show ?thesis by (intro filter_mset_all) auto
  qed
  then have "\<forall>c<length (cwHeap p). mset (map (hash_of p') (mem_of p' c)) = filter_mset (\<lambda>x. x \<noteq> h) (mset (map (hash_of p) (mem_of p c)))"
    by (simp only: p') simp
  moreover have "stores h t p (recentTransactions p') (receivedTransactions p')" using st by (simp add: p')
  moreover have "h \<in> peelable (insert h G) os" by (rule peelable.given) simp
  ultimately show ?thesis
    using tracks_learn [OF tr rm _ h _ disjI2 [OF refl], of t p'] ag p' by (simp add: exact_def)
qed

lemma exact_given:
  assumes T: "data_laws T" and wf: "lt_ok p" and ex: "exact T truth H G os p" and t: "honest_tx T (dhasher p) truth H t"
    and h: "h = salted (dhasher p) (hash t)" and run: "lt_Decoder_AddTransaction T p t = Some (Inr (p', out))"
  shows "exact T truth H (insert h G) os p' \<and> learns T truth (dom (receivedTransactions p)) {h} (dom (receivedTransactions p')) out"
proof -
  have ag: "agrees T truth H p" and tr: "tracks G os p" and rm: "remembers H p" using ex by (simp_all add: exact_def)
  have th: "h \<in> H" "t = true_tx T truth h" using t h by (simp_all add: honest_tx_def)
  have ag': "agrees T truth H p'"
    using agrees_receive [OF T wf ag, of "GotTransaction t" p' out] t run by (simp add: honest_def lt_receive_def)
  show ?thesis
  proof (rule AddTransaction_cases [OF wf h, of T])
    fix e assume e: "receivedTransactions p h = Some e" "lt_Decoder_AddTransaction T p t = Some (Inr (p, []))"
    then have d: "h \<in> dom (receivedTransactions p)" "p' = p" "out = []" using run by auto
    then show ?thesis using ex tracks_given [OF tr d(1)] by (auto simp: exact_def learns_def)
  next
    fix rc rv assume s: "\<And>e. receivedTransactions p h = Some e \<Longrightarrow> hash e \<noteq> hash t" "stores h t p rc rv"
      "lt_Decoder_AddTransaction T p t = Some (Inr (p\<lparr>recentTransactions := rc, receivedTransactions := rv\<rparr>, []))"
      "lt_ok (p\<lparr>recentTransactions := rc, receivedTransactions := rv\<rparr>)"
    have new: "receivedTransactions p h = None"
    proof (rule ccontr)
      assume "receivedTransactions p h \<noteq> None"
      then obtain e where e: "receivedTransactions p h = Some e" by blast
      then have "e = t" using ag th(2) by (simp add: agrees_def)
      then show False using s(1) [OF e] by simp
    qed
    have p': "p' = p\<lparr>recentTransactions := rc, receivedTransactions := rv\<rparr>" "out = []" using run s(3) by simp_all
    have np: "pendingTransactions p h = None"
    proof (rule ccontr)
      assume "pendingTransactions p h \<noteq> None"
      then have "pendingTransactions p' h \<noteq> None" by (simp add: p'(1))
      then have "receivedTransactions p' h = None" using s(4) unfolding p'(1) lt_wf_def maps_ok_def by blast
      moreover have "rv = (receivedTransactions p)(h \<mapsto> t)" using remembers_stores [OF rm s(2) th(1) new] by blast
      ultimately show False by (simp add: p'(1))
    qed
    have "exact T truth H (insert h G) os p' \<and> dom (receivedTransactions p') = insert h (dom (receivedTransactions p))"
      by (rule exact_stored [OF ex ag' th(1) new np wf s(2) p'(1)])
    then show ?thesis by (simp add: p'(2) learns_def)
  next
    fix p0 Q p1 txs tt
    assume s: "lt_Decoder_AddTransaction T p t = Some (Inr (p1, txs))" "live p tt" "hash_of p tt = h"
      "resolved T tt t p p0" "kept p p0" "lt_wf {} {} p0 Q" "decode_run T p0 p1 txs"
    have p': "p' = p1" "out = txs" using run s(1) by simp_all
    have new: "receivedTransactions p h = None" using live_not_received [OF _ s(2)] wf s(3) by (simp add: lt_wf_def)
    have ag0: "agrees T truth H p0" using agrees_resolved [OF T ag s(6,5,4)] th(2) s(3) by simp
    have st: "stores h t p (recentTransactions p0) (receivedTransactions p0)" using s(3,4) by (simp add: resolved_def)
    have k: "length (cwHeap p0) = length (cwHeap p)" "memory p0 = memory p" using s(5) by (simp_all add: kept_def)
    have mem: "\<forall>c<length (cwHeap p). mset (map (hash_of p0) (mem_of p0 c)) = filter_mset (\<lambda>x. x \<noteq> h) (mset (map (hash_of p) (mem_of p c)))"
      using resolved_hashes [OF wf s(6,5,4,2)] s(3) by blast
    have "tracks (insert h G) os p0 \<and> remembers H p0 \<and> dom (receivedTransactions p0) = insert h (dom (receivedTransactions p))"
      by (rule tracks_learn [OF tr rm st th(1) new _ disjI2 [OF refl] k mem]) (simp add: peelable.given)
    then have "exact T truth H (insert h G) os p0" "dom (receivedTransactions p0) = insert h (dom (receivedTransactions p))"
      using ag0 by (simp_all add: exact_def)
    then show ?thesis using exact_run [OF T s(7)] delivers_learns [of T truth _ "{h}"] p' by fastforce
  qed
qed

lemma exact_receive:
  assumes T: "data_laws T" and wf: "lt_ok p" and ex: "exact T truth H G os p" and hon: "honest T (dhasher p) truth H ev"
    and run: "lt_receive T p ev = Some (Inr (p', out))"
  shows "exact T truth H (G \<union> givenBy (dhasher p) [ev]) (os @ wordsOf [ev]) p' \<and>
    learns T truth (dom (receivedTransactions p)) (givenBy (dhasher p) [ev]) (dom (receivedTransactions p')) out"
proof (cases ev)
  case (GotCodeword raw)
  obtain p0 Q p1 txs where s: "lt_AddCodeword T p raw = Some (Inr (p1, length (cwHeap p), txs))" "linked T raw p p0"
    "lt_wf {} {} p0 Q" "decode_run T p0 p1 txs" using lt_AddCodeword_spec [OF wf, of T raw] by blast
  have ex0: "exact T truth H G (os @ [cw_members raw]) p0"
    using exact_linked [OF T ex wf s(3) _ s(2)] hon GotCodeword by (simp add: honest_def)
  have "receivedTransactions p0 = receivedTransactions p" using s(2) by (simp add: linked_def Let_def)
  moreover have "p1 = p'" "txs = out" using run s(1) GotCodeword by (simp_all add: lt_receive_def)
  ultimately show ?thesis
    using exact_run [OF T s(4) ex0] delivers_learns [of T truth "dom (receivedTransactions p)" "{}"] GotCodeword by simp
next
  case (GotTransaction t)
  then show ?thesis
    using exact_given [OF T wf ex _ refl, of t p' out] hon run by (simp add: honest_def lt_receive_def)
qed

section \<open>Whole histories\<close>

lemma history_ok:
  assumes "lt_ok p"
  shows "\<exists>p' out. lt_receiveAll T p evs = Some (Inr (p', out)) \<and> lt_ok p' \<and> dhasher p' = dhasher p \<and> memory p' = memory p"
  using assms
proof (induction evs arbitrary: p)
  case (Cons ev evs)
  obtain p1 out1 where 1: "lt_receive T p ev = Some (Inr (p1, out1))" "lt_ok p1" "dhasher p1 = dhasher p" "memory p1 = memory p"
    using lt_receive_ok [OF Cons.prems, of T ev] by blast
  obtain p2 out2 where 2: "lt_receiveAll T p1 evs = Some (Inr (p2, out2))" "lt_ok p2" "dhasher p2 = dhasher p1" "memory p2 = memory p1"
    using Cons.IH [OF 1(2)] by blast
  show ?case using 1 2 by simp
qed simp

lemma history_genuine:
  assumes "data_laws T" "lt_ok p" "agrees T truth H p" "\<forall>ev\<in>set evs. honest T (dhasher p) truth H ev"
    and "lt_receiveAll T p evs = Some (Inr (p', out))"
  shows "agrees T truth H p' \<and> set out \<subseteq> true_tx T truth ` H"
  using assms(2-)
proof (induction evs arbitrary: p out)
  case (Cons ev evs)
  obtain p1 out1 where 1: "lt_receive T p ev = Some (Inr (p1, out1))" "lt_ok p1" "dhasher p1 = dhasher p"
    using lt_receive_ok [OF Cons.prems(1), of T ev] by blast
  obtain out2 where 2: "lt_receiveAll T p1 evs = Some (Inr (p', out2))" "out = out1 @ out2"
    using Cons.prems(4) 1(1) by (auto simp: bindO_Inr_iff)
  have "agrees T truth H p1 \<and> set out1 \<subseteq> true_tx T truth ` H"
    using agrees_receive [OF assms(1) Cons.prems(1,2) _ 1(1)] Cons.prems(3) by simp
  then show ?case using Cons.IH [OF 1(2) _ _ 2(1)] Cons.prems(3) 1(3) 2(2) by auto
qed simp

lemma history_exact:
  assumes "data_laws T" "lt_ok p" "exact T truth H G os p" "\<forall>ev\<in>set evs. honest T (dhasher p) truth H ev"
    and "lt_receiveAll T p evs = Some (Inr (p', out))"
  shows "lt_ok p' \<and> exact T truth H (G \<union> givenBy (dhasher p) evs) (os @ wordsOf evs) p' \<and>
    learns T truth (dom (receivedTransactions p)) (givenBy (dhasher p) evs) (dom (receivedTransactions p')) out"
  using assms(2-)
proof (induction evs arbitrary: p out G os)
  case (Cons ev evs)
  obtain p1 out1 where 1: "lt_receive T p ev = Some (Inr (p1, out1))" "lt_ok p1" "dhasher p1 = dhasher p"
    using lt_receive_ok [OF Cons.prems(1), of T ev] by blast
  obtain out2 where 2: "lt_receiveAll T p1 evs = Some (Inr (p', out2))" "out = out1 @ out2"
    using Cons.prems(4) 1(1) by (auto simp: bindO_Inr_iff)
  let ?G = "givenBy (dhasher p) [ev]"
  have e1: "exact T truth H (G \<union> ?G) (os @ wordsOf [ev]) p1"
    "learns T truth (dom (receivedTransactions p)) ?G (dom (receivedTransactions p1)) out1"
    using exact_receive [OF assms(1) Cons.prems(1,2) _ 1(1)] Cons.prems(3) by simp_all
  have e2: "lt_ok p' \<and> exact T truth H ((G \<union> ?G) \<union> givenBy (dhasher p) evs) ((os @ wordsOf [ev]) @ wordsOf evs) p' \<and>
      learns T truth (dom (receivedTransactions p1)) (givenBy (dhasher p) evs) (dom (receivedTransactions p')) out2"
    using Cons.IH [OF 1(2) e1(1) _ 2(1)] Cons.prems(3) 1(3) by simp
  have "givenBy (dhasher p) (ev # evs) = ?G \<union> givenBy (dhasher p) evs" "wordsOf (ev # evs) = wordsOf [ev] @ wordsOf evs"
    by (cases ev; simp)+
  then show ?case using e2 learns_trans [OF e1(2)] 2(2) by (metis Un_assoc append.assoc)
qed simp

section \<open>From the encoder to the decoder\<close>

text \<open>The entries of the window are genuine, hashed as the decoder hashes.\<close>

definition genuine_window :: "'d dataOps \<Rightarrow> hash64 \<Rightarrow> (u32 \<Rightarrow> 'd) \<Rightarrow> 'd saltedTransaction list \<Rightarrow> bool" where
  "genuine_window T sip truth w \<longleftrightarrow>
     distinct (map saltedHash w) \<and>
     (\<forall>x\<in>set w. saltedHash x = salted sip (hash (tx_of x)) \<and> tx_of x = true_tx T truth (saltedHash x))"

lemma mixes_honest:
  assumes "data_laws T" "genuine_window T sip truth w" "mset chosen \<subseteq># mset w" "mixes T chosen c"
  shows "honest_cw T truth (saltedHash ` set w) c"
proof -
  have sub: "set chosen \<subseteq> set w" using set_mset_mono [OF assms(3)] by simp
  have "data (tx_of x) = truth (saltedHash x)" if "x \<in> set chosen" for x
    using assms(2) sub that unfolding genuine_window_def by (metis ltTransaction.select_convs(1) subsetD true_tx_def)
  then have "image_mset (\<lambda>x. data (tx_of x)) (mset chosen) = image_mset (\<lambda>x. truth (saltedHash x)) (mset chosen)"
    by (intro image_mset_cong) simp
  also have "\<dots> = image_mset truth (mset (map saltedHash chosen))" by (simp add: multiset.map_comp comp_def)
  finally show ?thesis
    using mixes_xorAll [OF assms(1,4)] assms(4) sub by (auto simp: honest_cw_def mixes_def simp del: mset_map)
qed

abbreviation givesAll :: "'d saltedTransaction list \<Rightarrow> 'd ltEvent list" where
  "givesAll w \<equiv> map (\<lambda>x. GotTransaction (tx_of x)) w"

lemma givenBy_append: "givenBy sip (xs @ ys) = givenBy sip xs \<union> givenBy sip ys"
  by (induction sip xs rule: givenBy.induct) auto

lemma wordsOf_append: "wordsOf (xs @ ys) = wordsOf xs @ wordsOf ys"
  by (induction xs rule: wordsOf.induct) auto

lemma givesAll_given: "givenBy sip (givesAll w) = (\<lambda>x. salted sip (hash (tx_of x))) ` set w" "wordsOf (givesAll w) = []"
  by (induction w) auto

text \<open>One codeword gives the decoder the only entry that it lacks.\<close>

lemma missing_recovered:
  assumes T: "data_laws T" and w: "genuine_window T sip truth w" and mem: "int (length w) \<le> mem"
    and c: "mset chosen \<subseteq># mset w" "mixes T chosen c" and x: "x \<in> set chosen"
  shows "\<exists>p out. lt_receiveAll T (lt_NewDecoder sip mem) (givesAll (filter (\<lambda>y. y \<noteq> x) w) @ [GotCodeword c]) = Some (Inr (p, out)) \<and>
           tx_of x \<in> set out"
proof -
  let ?ws = "filter (\<lambda>y. y \<noteq> x) w" and ?H = "saltedHash ` set w"
  let ?evs = "givesAll ?ws @ [GotCodeword c]" and ?p = "lt_NewDecoder sip mem"
  have ent: "saltedHash y = salted sip (hash (tx_of y))" "tx_of y = true_tx T truth (saltedHash y)" if "y \<in> set w" for y
    using w that unfolding genuine_window_def by blast+
  have xw: "x \<in> set w" "set chosen \<subseteq> set w" using set_mset_mono [OF c(1)] x by auto
  have inj: "inj_on saltedHash (set w)" and dw: "distinct w" using w by (simp_all add: genuine_window_def distinct_map)
  have "salted sip (data_Hash T (truth (saltedHash y))) = saltedHash y" if "y \<in> set w" for y
  proof -
    have "hash (tx_of y) = data_Hash T (truth (saltedHash y))" by (subst ent(2) [OF that]) (simp add: true_tx_def)
    then show ?thesis using ent(1) [OF that] by simp
  qed
  then have H: "hashes_to T sip truth ?H" by (simp add: hashes_to_def)
  have hon: "\<forall>ev\<in>set ?evs. honest T sip truth ?H ev"
  proof
    fix ev assume "ev \<in> set ?evs"
    then consider y where "y \<in> set w" "ev = GotTransaction (tx_of y)" | "ev = GotCodeword c" by auto
    then show "honest T sip truth ?H ev"
    proof cases
      case (1 y)
      have "salted sip (hash (tx_of y)) = saltedHash y" using ent(1) [OF 1(1)] by (rule sym)
      then have "honest_tx T sip truth ?H (tx_of y)" using ent(2) [OF 1(1)] 1(1) unfolding honest_tx_def by (metis imageI)
      then show ?thesis by (simp add: honest_def 1(2))
    qed (use mixes_honest [OF T w c] in \<open>simp add: honest_def\<close>)
  qed
  have "card ?H \<le> length w" using card_image_le [of "set w" saltedHash] card_length [of w] by simp
  then have ex: "exact T truth ?H {} [] ?p"
    using H mem by (simp add: exact_def agrees_def tracks_def remembers_def lt_NewDecoder_def)
  have m0: "0 \<le> mem" using mem by linarith
  obtain p out where r: "lt_receiveAll T ?p ?evs = Some (Inr (p, out))" using history_ok [OF NewDecoder_ok [OF m0]] by blast
  have d: "dhasher ?p = sip" "dom (receivedTransactions ?p) = {}" by (simp_all add: lt_NewDecoder_def)
  let ?G = "saltedHash ` set ?ws"
  have "(\<lambda>y. salted sip (hash (tx_of y))) ` set ?ws = ?G" using ent(1) by (intro image_cong) auto
  then have gv: "givenBy sip ?evs = ?G" "wordsOf ?evs = [cw_members c]"
    by (simp_all add: givenBy_append wordsOf_append givesAll_given)
  have f: "lt_ok p" "tracks ?G [cw_members c] p" "learns T truth {} ?G (dom (receivedTransactions p)) out"
    using history_exact [OF T NewDecoder_ok [OF m0] ex _ r] hon unfolding d gv by (simp_all add: exact_def)
  obtain rest where rest: "mset chosen = add_mset x (mset rest)"
    using x by (metis ex_mset mset_add set_mset_mset)
  have "x \<notin> set rest"
  proof
    assume "x \<in> set rest"
    then have "2 \<le> count (mset chosen) x" using rest count_greater_zero_iff [of "mset rest" x] by simp
    also have "\<dots> \<le> count (mset w) x" by (rule mset_subset_eq_count [OF c(1)])
    also have "\<dots> \<le> 1" using dw by (simp add: distinct_count_atmost_1)
    finally show False by simp
  qed
  moreover have "set rest \<subseteq> set w" using arg_cong [OF rest, of set_mset] xw(2) by auto
  ultimately have "y \<in> peelable ?G [cw_members c]" if "y \<in> set (map saltedHash rest)" for y
    using that by (intro peelable.given) auto
  moreover have "mset (cw_members c) = add_mset (saltedHash x) (mset (map saltedHash rest))"
    using c(2) rest by (simp add: mixes_def)
  ultimately have "saltedHash x \<in> peelable ?G [cw_members c]"
    by (intro peelable.peel [of "cw_members c" _ _ "map saltedHash rest"]) auto
  then have "saltedHash x \<in> dom (receivedTransactions p)" using rest_closed(1) [OF f(1,2)] by simp
  moreover have "saltedHash x \<notin> ?G" using inj xw(1) by (auto dest: inj_onD)
  ultimately obtain hs where "out = map (true_tx T truth) hs" "saltedHash x \<in> set hs"
    using f(3) unfolding learns_def by auto
  then show ?thesis using r ent(2) [OF xw(1)] by auto
qed

end
