(* ===== verification/Sim_Links.thy ===== *)
theory Sim_Links
  imports Sim_Node Lt_History
begin

text \<open>
  What the two ends of a link of \<open>simulator/node.go\<close> guarantee: a sender that is ready fills its
  window with codewords of its block, and a receiver answers each codeword with one
  acknowledgement, which is positive when enough of the block is decoded.
\<close>

section \<open>The block of a sender\<close>

text \<open>The hash of an encoder's window entry is that of its transaction.\<close>

definition saltedOf :: "simTransaction ltEncoder \<Rightarrow> simTx \<Rightarrow> u32" where
  "saltedOf e tx = salted (hasher e) (hash tx)"

text \<open>The transactions of a buffer whose salted hash no earlier one has.\<close>

fun firstOnes :: "(simTx \<Rightarrow> u32) \<Rightarrow> u32 set \<Rightarrow> simTx list \<Rightarrow> simTx list" where
  "firstOnes h seen [] = []"
| "firstOnes h seen (tx # txs) =
     (if h tx \<in> seen then firstOnes h seen txs else tx # firstOnes h (insert (h tx) seen) txs)"

lemma firstOnes_hashes: "h ` set (firstOnes h seen txs) \<union> seen = h ` set txs \<union> seen"
proof (induction txs arbitrary: seen)
  case (Cons tx txs)
  then show ?case using Cons.IH [of seen] Cons.IH [of "insert (h tx) seen"] by auto
qed simp

lemma firstOnes_subset: "set (firstOnes h seen txs) \<subseteq> set txs"
proof (induction txs arbitrary: seen)
  case (Cons tx txs)
  then show ?case using Cons.IH [of seen] Cons.IH [of "insert (h tx) seen"] by auto
qed simp

lemma firstOnes_distinct: "distinct (map h (firstOnes h seen txs)) \<and> h ` set (firstOnes h seen txs) \<inter> seen = {}"
proof (induction txs arbitrary: seen)
  case (Cons tx txs)
  then show ?case using Cons.IH [of seen] Cons.IH [of "insert (h tx) seen"] by auto
qed simp

lemma firstOnes_nonempty: "txs \<noteq> [] \<Longrightarrow> firstOnes h {} txs \<noteq> []"
  by (cases txs) simp_all

lemma fillBlock_spec:
  assumes "encoder_ok (Encoder_of n)" "int (length (window (Encoder_of n)) + length txs) \<le> windowSize (Encoder_of n)"
  shows "\<exists>e. sim_fillBlock txs n = Inr (n\<lparr>Encoder_of := e,
      currentBlock := currentBlock n @ firstOnes (saltedOf (Encoder_of n)) (saltedHash ` set (window (Encoder_of n))) txs\<rparr>) \<and>
    encoder_ok e \<and> hasher e = hasher (Encoder_of n) \<and> rng e = rng (Encoder_of n) \<and> degreeDist e = degreeDist (Encoder_of n) \<and>
    window e = window (Encoder_of n) @ map (\<lambda>tx. \<lparr>saltedHash = saltedOf (Encoder_of n) tx, tx_of = tx\<rparr>)
      (firstOnes (saltedOf (Encoder_of n)) (saltedHash ` set (window (Encoder_of n))) txs)"
  using assms
proof (induction txs arbitrary: n)
  case Nil
  then show ?case by (intro exI [of _ "Encoder_of n"]) simp
next
  case (Cons tx txs)
  let ?e = "Encoder_of n" and ?h = "saltedOf (Encoder_of n) tx"
  note add = lt_AddTransaction_spec [OF Cons.prems(1) refl, of tx, folded saltedOf_def]
  show ?case
  proof (cases "?h \<in> saltedHash ` set (window ?e)")
    case True
    then show ?thesis using add Cons.IH [of n] Cons.prems by simp
  next
    case False
    have d: "Suc (length (window ?e)) - nat (windowSize ?e) = 0" using Cons.prems(2) by simp
    obtain e' where e': "lt_AddTransaction ?e tx = Inr (e', True)" "encoder_ok e'"
      "window e' = window ?e @ [\<lparr>saltedHash = ?h, tx_of = tx\<rparr>]" "windowSize e' = windowSize ?e"
      "degreeDist e' = degreeDist ?e" "rng e' = rng ?e" "hasher e' = hasher ?e"
      using add False unfolding d by auto
    have h: "saltedOf e' = saltedOf ?e" by (rule ext) (simp add: saltedOf_def e'(7))
    show ?thesis
      using Cons.IH [of "n\<lparr>Encoder_of := e', currentBlock := currentBlock n @ [tx]\<rparr>"] e' False Cons.prems(2)
      by (fastforce simp: h)
  qed
qed

section \<open>A sender that is ready\<close>

definition window_config :: "simSenderConfig \<Rightarrow> bool" where
  "window_config cfg \<longleftrightarrow>
     (\<exists>c. controlOverhead cfg = Fin c \<and> 0 \<le> c \<and> c \<le> 1) \<and>
     (\<exists>m\<ge>1. f_to_int (f_div (f_of_int (sendThreshold cfg)) (controlOverhead cfg)) = Inr m)"

definition positive :: "(nat \<Rightarrow> u64) \<Rightarrow> bool" where
  "positive degs \<longleftrightarrow> (\<forall>k. 0 < sint (degs k))"

definition can_encode :: "simTransaction ltEncoder \<Rightarrow> bool" where
  "can_encode e \<longleftrightarrow> window e \<noteq> [] \<and> positive (degreeDist e)"

definition sender_ready :: "simSender \<Rightarrow> bool" where
  "sender_ready n \<longleftrightarrow>
     window_config (sconfig n) \<and> length (sbuffer n) < 2 ^ 53 \<and> fair (rng (Encoder_of n)) \<and>
     (\<forall>k size. positive (solitons n k size)) \<and> (encodingCurrentBlock n \<longrightarrow> can_encode (Encoder_of n))"

lemma ProduceCodeword_ready:
  assumes "fair (rng e)" "can_encode e"
  obtains e' c chosen where "lt_ProduceCodeword simOps e = Inr (e', c)" "fair (rng e')" "can_encode e'"
    "window e' = window e" "chosen \<noteq> []" "mset chosen \<subseteq># mset (window e)" "mixes simOps chosen c" "hasher e' = hasher e"
proof -
  let ?e = "e\<lparr>degreeDist := (\<lambda>k. degreeDist e (Suc k))\<rparr>" and ?d = "sint (degreeDist e 0)"
  have d: "0 < ?d" and w: "window e \<noteq> []" and p: "positive (degreeDist ?e)"
    using assms(2) by (simp_all add: can_encode_def positive_def)
  obtain e' c chosen where r: "produceCodeword simOps ?e ?d = Inr (e', c)" "window e' = window ?e"
    "degreeDist e' = degreeDist ?e" "fair (rng e')" "length chosen = min (nat ?d) (length (window ?e))" "hasher e' = hasher ?e"
    "mset chosen \<subseteq># mset (window ?e)" "mixes simOps chosen c"
    using produceCodeword_spec [of ?e ?d simOps] assms(1) d w by auto
  moreover have "chosen \<noteq> []" using r(5) d w by (auto simp: min_def split: if_splits)
  moreover have "can_encode e'" using r(2,3) w p by (simp add: can_encode_def)
  ultimately show thesis using that by (simp add: lt_ProduceCodeword_def Let_def)
qed

definition ofBlock :: "simTransaction ltEncoder \<Rightarrow> simCodeword \<Rightarrow> bool" where
  "ofBlock e cw \<longleftrightarrow>
     (\<exists>chosen. chosen \<noteq> [] \<and> mset chosen \<subseteq># mset (window e) \<and> mixes simOps chosen (Codeword_of cw))"

text \<open>The sender \<open>n'\<close> after \<open>n\<close> has put the codewords \<open>cws\<close> of its current block into the outbox.\<close>

definition sent :: "simCodeword list \<Rightarrow> simSender \<Rightarrow> simSender \<Rightarrow> bool" where
  "sent cws n n' \<longleftrightarrow>
     soutbox n' = soutbox n @ map SimCodeword cws \<and> inFlight n' = inFlight n + int (length cws) \<and>
     window (Encoder_of n') = window (Encoder_of n) \<and> hasher (Encoder_of n') = hasher (Encoder_of n) \<and> sendWindow n' = sendWindow n \<and> sbuffer n' = sbuffer n \<and>
     currentBlock n' = currentBlock n \<and> encodingCurrentBlock n' = encodingCurrentBlock n \<and> sconfig n' = sconfig n \<and>
     (\<forall>cw\<in>set cws. \<not> newBlock cw \<and> ofBlock (Encoder_of n) cw)"

lemma fill_encoding:
  assumes "sender_ready n" "encodingCurrentBlock n"
  shows "\<exists>n' cws. sim_tryFillSendWindow may n = Some (Inr n') \<and> sender_ready n' \<and> sent cws n n' \<and>
    inFlight n' = max (inFlight n) (sendWindow n)"
  using assms
proof (induction "nat (sendWindow n - inFlight n)" arbitrary: n)
  case 0
  then show ?case by (intro exI [of _ n] exI [of _ "[]"]) (simp add: sim_tryFillSendWindow.simps sent_def)
next
  case (Suc k)
  obtain e' c chosen where p: "lt_ProduceCodeword simOps (Encoder_of n) = Inr (e', c)" "fair (rng e')" "can_encode e'"
    "window e' = window (Encoder_of n)" "chosen \<noteq> []" "mset chosen \<subseteq># mset (window (Encoder_of n))" "mixes simOps chosen c"
    "hasher e' = hasher (Encoder_of n)"
    using Suc.prems ProduceCodeword_ready [of "Encoder_of n"] by (metis sender_ready_def)
  let ?cw = "\<lparr>Codeword_of = c, newBlock = False\<rparr>"
  let ?n = "n\<lparr>Encoder_of := e', soutbox := soutbox n @ [SimCodeword ?cw], inFlight := inFlight n + 1\<rparr>"
  have less: "inFlight n < sendWindow n" using Suc.hyps(2) by simp
  have step: "sim_tryFillSendWindow may n = sim_tryFillSendWindow may ?n"
    using less Suc.prems(2) p(1)
    by (subst sim_tryFillSendWindow.simps) (simp add: sim_tryProduceCodeword_def Let_def)
  have "sender_ready ?n" using Suc.prems(1) p(2,3) by (simp add: sender_ready_def)
  moreover have k: "k = nat (sendWindow ?n - inFlight ?n)" using Suc.hyps(2) by simp
  ultimately obtain n' cws where n': "sim_tryFillSendWindow may ?n = Some (Inr n')" "sender_ready n'" "sent cws ?n n'"
    "inFlight n' = max (inFlight ?n) (sendWindow ?n)"
    using Suc.hyps(1) [of ?n] k Suc.prems(2) by auto
  have "ofBlock (Encoder_of n) ?cw" using p(5-7) unfolding ofBlock_def by auto
  moreover have "ofBlock e' cw = ofBlock (Encoder_of n) cw" for cw using p(4) by (simp add: ofBlock_def)
  ultimately have "sent (?cw # cws) n n'" using n'(3) p(4,8) by (simp add: sent_def)
  then show ?case using n'(1,2,4) step Suc.hyps(2) by auto
qed

section \<open>Starting a block\<close>

text \<open>
  The sender \<open>n'\<close> has moved its buffer into a new block: the transactions with different
  salted hashes, of which its encoder's window consists.
\<close>

definition started :: "simSender \<Rightarrow> simSender \<Rightarrow> bool" where
  "started n n' \<longleftrightarrow>
     sbuffer n' = [] \<and> encodingCurrentBlock n' \<and> hasher (Encoder_of n') = hasher (Encoder_of n) \<and>
     currentBlock n' = firstOnes (saltedOf (Encoder_of n)) {} (sbuffer n) \<and>
     map tx_of (window (Encoder_of n')) = currentBlock n' \<and>
     map saltedHash (window (Encoder_of n')) = map (saltedOf (Encoder_of n)) (currentBlock n')"

lemma startBlock_ready:
  assumes "sender_ready n" "sbuffer n \<noteq> []"
  shows "\<exists>n'. sim_startBlock n = Inr n' \<and> sender_ready n' \<and> started n n' \<and> soutbox n' = soutbox n \<and>
    inFlight n' = inFlight n \<and> sconfig n' = sconfig n"
proof -
  obtain c where c: "controlOverhead (sconfig n) = Fin c" "0 \<le> c" "c \<le> 1" and len: "length (sbuffer n) < 2 ^ 53"
    and sol: "\<And>k size. positive (solitons n k size)"
    using assms(1) by (auto simp: sender_ready_def window_config_def)
  obtain w where w: "f_to_int (f_mul (f_of_int (int (length (sbuffer n)))) (controlOverhead (sconfig n))) = Inr w"
    using share_of_count [OF len c(2,3)] c(1) by auto
  let ?e = "lt_Reset (Encoder_of n) (solitons n 0 (of_nat (length (sbuffer n)))) (int (length (sbuffer n)))"
  let ?n = "n\<lparr>sendWindow := w, encodingCurrentBlock := True, solitons := (\<lambda>k. solitons n (Suc k)),
              Encoder_of := ?e, currentBlock := []\<rparr>"
  have e: "window ?e = []" "windowSize ?e = int (length (sbuffer n))" "hasher ?e = hasher (Encoder_of n)"
    "rng ?e = rng (Encoder_of n)" "degreeDist ?e = solitons n 0 (of_nat (length (sbuffer n)))" "encoder_ok ?e"
    by (simp_all add: lt_Reset_def encoder_ok_def)
  have h: "saltedOf ?e = saltedOf (Encoder_of n)" by (rule ext) (simp add: saltedOf_def e(3))
  let ?block = "firstOnes (saltedOf (Encoder_of n)) {} (sbuffer n)"
  obtain e' where e': "sim_fillBlock (sbuffer n) ?n = Inr (?n\<lparr>Encoder_of := e', currentBlock := ?block\<rparr>)"
    "hasher e' = hasher (Encoder_of n)" "rng e' = rng (Encoder_of n)"
    "degreeDist e' = solitons n 0 (of_nat (length (sbuffer n)))"
    "window e' = map (\<lambda>tx. \<lparr>saltedHash = saltedOf (Encoder_of n) tx, tx_of = tx\<rparr>) ?block"
    using fillBlock_spec [of ?n "sbuffer n"] e by (simp add: h) blast
  let ?n' = "?n\<lparr>Encoder_of := e', currentBlock := ?block, sbuffer := []\<rparr>"
  have run: "sim_startBlock n = Inr ?n'" using e'(1) w by (simp add: sim_startBlock_def Let_def)
  have "can_encode e'" using e'(4,5) firstOnes_nonempty [OF assms(2)] sol by (simp add: can_encode_def)
  then have "sender_ready ?n'" using assms(1) e'(3) by (simp add: sender_ready_def)
  moreover have "started n ?n'" using e'(2,5) by (simp add: started_def comp_def)
  ultimately show ?thesis using run by auto
qed

text \<open>The whole loop: either the sender continues its block, or it starts one, or it has none.\<close>

lemma fill_starting:
  assumes "sender_ready n" "\<not> encodingCurrentBlock n" "inFlight n < sendWindow n"
    and m: "f_to_int (f_div (f_of_int (sendThreshold (sconfig n))) (controlOverhead (sconfig n))) = Inr m"
      "m \<le> int (length (sbuffer n))"
  shows "\<exists>n' cw cws. sim_tryFillSendWindow True n = Some (Inr n') \<and> sender_ready n' \<and> started n n' \<and>
    soutbox n' = soutbox n @ map SimCodeword (cw # cws) \<and> inFlight n' = inFlight n + int (length (cw # cws)) \<and>
    sendWindow n' \<le> inFlight n' \<and> newBlock cw \<and> ofBlock (Encoder_of n') cw \<and>
    (\<forall>x\<in>set cws. \<not> newBlock x \<and> ofBlock (Encoder_of n') x)"
proof -
  have "1 \<le> m" using assms(1) m(1) by (auto simp: sender_ready_def window_config_def)
  then have "sbuffer n \<noteq> []" using m(2) by auto
  then obtain n1 where n1: "sim_startBlock n = Inr n1" "sender_ready n1" "started n n1" "soutbox n1 = soutbox n"
    "inFlight n1 = inFlight n" "sconfig n1 = sconfig n" using startBlock_ready [OF assms(1)] by blast
  have enc: "encodingCurrentBlock n1" using n1(3) by (simp add: started_def)
  obtain e' c chosen where p: "lt_ProduceCodeword simOps (Encoder_of n1) = Inr (e', c)" "fair (rng e')" "can_encode e'"
    "window e' = window (Encoder_of n1)" "chosen \<noteq> []" "mset chosen \<subseteq># mset (window (Encoder_of n1))" "mixes simOps chosen c"
    "hasher e' = hasher (Encoder_of n1)"
    using n1(2) enc ProduceCodeword_ready [of "Encoder_of n1"] by (metis sender_ready_def)
  let ?cw = "\<lparr>Codeword_of = c, newBlock = True\<rparr>"
  let ?n = "n1\<lparr>Encoder_of := e', soutbox := soutbox n1 @ [SimCodeword ?cw], inFlight := inFlight n1 + 1\<rparr>"
  have step: "sim_tryFillSendWindow True n = sim_tryFillSendWindow True ?n"
    using assms(2,3) m n1(1) p(1) by (subst sim_tryFillSendWindow.simps) (simp add: sim_tryProduceCodeword_def Let_def)
  have "sender_ready ?n" using n1(2) p(2,3) by (simp add: sender_ready_def)
  then obtain n' cws where n': "sim_tryFillSendWindow True ?n = Some (Inr n')" "sender_ready n'" "sent cws ?n n'"
    "inFlight n' = max (inFlight ?n) (sendWindow ?n)" using fill_encoding [of ?n True] enc by auto
  have w: "window (Encoder_of n') = window (Encoder_of n1)" using n'(3) p(4) by (simp add: sent_def)
  then have of: "ofBlock (Encoder_of n') ?cw" "\<And>x. ofBlock e' x \<Longrightarrow> ofBlock (Encoder_of n') x"
    using p(4-7) unfolding ofBlock_def by auto
  have "started n n'" using n1(3) n'(3) w p(8) by (simp add: started_def sent_def)
  moreover have "sendWindow n' \<le> inFlight n'" using n'(3,4) by (simp add: sent_def max_def split: if_splits)
  ultimately show ?thesis using n' step n1(4,5) of
    by (intro exI [of _ n'] exI [of _ ?cw] exI [of _ cws]) (simp add: sent_def)
qed

lemma fill_idle:
  assumes "sender_ready n" "\<not> encodingCurrentBlock n"
    and "inFlight n < sendWindow n \<and> may \<longrightarrow>
      (\<exists>m. f_to_int (f_div (f_of_int (sendThreshold (sconfig n))) (controlOverhead (sconfig n))) = Inr m \<and>
           int (length (sbuffer n)) < m)"
  shows "sim_tryFillSendWindow may n = Some (Inr n)"
  using assms by (subst sim_tryFillSendWindow.simps) (auto simp: sim_tryProduceCodeword_def Let_def)

section \<open>The receiver\<close>

lemma countUndecoded_eq:
  assumes "\<forall>c\<in>set cs. c < length (cwHeap p)"
  shows "countUndecoded p cs = Inr (int (length (filter (\<lambda>c. \<not> decoded (cwHeap p ! c)) cs)))"
  using assms by (induction cs) (simp_all add: cw_Decoded_def)

definition receiver_ready :: "simTransaction ltDecoder \<Rightarrow> simReceiver \<Rightarrow> bool" where
  "receiver_ready p r \<longleftrightarrow>
     (\<forall>c\<in>set (curCodewords r). c < length (cwHeap p)) \<and>
     (\<exists>l. targetCodewordLoss (rconfig r) = Fin l \<and> 0 \<le> l \<and> l \<le> 1)"

text \<open>The number of codewords of the block that may stay undecoded.\<close>

definition lossLimit :: "simReceiver \<Rightarrow> int \<Rightarrow> bool" where
  "lossLimit r limit \<longleftrightarrow>
     f_to_int (f_mul (f_of_int (int (length (curCodewords r)))) (targetCodewordLoss (rconfig r))) = Inr limit"

definition undecodedIn :: "simTransaction ltDecoder \<Rightarrow> simReceiver \<Rightarrow> nat" where
  "undecodedIn p r = length (filter (\<lambda>c. \<not> decoded (cwHeap p ! c)) (curCodewords r))"

lemma blockIsReceived_spec:
  assumes "receiver_ready p r" "length (curCodewords r) < 2 ^ 53"
  shows "\<exists>limit. lossLimit r limit \<and> 0 \<le> limit \<and> blockIsReceived p r =
    Inr (\<not> currentBlockReceived r \<and> detectThreshold (rconfig r) < int (length (curCodewords r)) \<and>
         int (undecodedIn p r) \<le> limit)"
proof -
  obtain l where l: "targetCodewordLoss (rconfig r) = Fin l" "0 \<le> l" "l \<le> 1"
    using assms(1) by (auto simp: receiver_ready_def)
  obtain limit where "lossLimit r limit" "0 \<le> limit"
    using share_of_count [OF assms(2) l(2,3)] l(1) by (auto simp: lossLimit_def)
  moreover have "countUndecoded p (curCodewords r) = Inr (int (undecodedIn p r))"
    using assms(1) countUndecoded_eq [of "curCodewords r" p] by (simp add: receiver_ready_def undecodedIn_def)
  ultimately show ?thesis by (intro exI [of _ limit]) (auto simp: blockIsReceived_def lossLimit_def)
qed

lemma onCodeword_spec:
  assumes "lt_ok p" "receiver_ready p r" "length (curCodewords r) < 2 ^ 53 - 1"
  shows "\<exists>p' r' txs yes limit. sim_onCodeword p r cw = Some (Inr (p', r', txs)) \<and>
    lt_AddCodeword simOps p (Codeword_of cw) = Some (Inr (p', length (cwHeap p), txs)) \<and>
    lt_ok p' \<and> dhasher p' = dhasher p \<and> length (cwHeap p') = Suc (length (cwHeap p)) \<and> receiver_ready p' r' \<and>
    curCodewords r' = (if newBlock cw then [] else curCodewords r) @ [length (cwHeap p)] \<and>
    routbox r' = routbox r @ [SimAck \<lparr>ackBlock = yes\<rparr>] \<and> rconfig r' = rconfig r \<and> lossLimit r' limit \<and> 0 \<le> limit \<and>
    (yes \<longleftrightarrow> (newBlock cw \<or> \<not> currentBlockReceived r) \<and>
             detectThreshold (rconfig r) < int (length (curCodewords r')) \<and> int (undecodedIn p' r') \<le> limit) \<and>
    (currentBlockReceived r' \<longleftrightarrow> yes \<or> currentBlockReceived r \<and> \<not> newBlock cw)"
proof -
  obtain p0 p' txs where a: "lt_AddCodeword simOps p (Codeword_of cw) = Some (Inr (p', length (cwHeap p), txs))" "lt_ok p'"
    "linked simOps (Codeword_of cw) p p0" "kept p0 p'"
    using lt_AddCodeword_spec [OF assms(1), of simOps "Codeword_of cw"] by blast
  have len: "length (cwHeap p') = Suc (length (cwHeap p))" "dhasher p' = dhasher p"
    using a(3,4) by (simp_all add: linked_def kept_def Let_def)
  let ?r = "if newBlock cw then r\<lparr>curCodewords := [], currentBlockReceived := False\<rparr> else r"
  let ?r1 = "?r\<lparr>curCodewords := curCodewords ?r @ [length (cwHeap p)]\<rparr>"
  have rr: "receiver_ready p' ?r1" using assms(2) len(1) by (auto simp: receiver_ready_def less_Suc_eq)
  have "length (curCodewords ?r1) < 2 ^ 53" using assms(3) by simp
  then obtain limit where limit: "lossLimit ?r1 limit" "0 \<le> limit" "blockIsReceived p' ?r1 =
    Inr (\<not> currentBlockReceived ?r1 \<and> detectThreshold (rconfig ?r1) < int (length (curCodewords ?r1)) \<and>
         int (undecodedIn p' ?r1) \<le> limit)" using blockIsReceived_spec [OF rr] by blast
  define yes where "yes = (\<not> currentBlockReceived ?r1 \<and> detectThreshold (rconfig ?r1) < int (length (curCodewords ?r1)) \<and>
         int (undecodedIn p' ?r1) \<le> limit)"
  define r' where "r' = ?r1\<lparr>routbox := routbox r @ [SimAck \<lparr>ackBlock = yes\<rparr>],
      currentBlockReceived := yes \<or> currentBlockReceived ?r1\<rparr>"
  have run: "sim_onCodeword p r cw = Some (Inr (p', r', txs))"
    using a(1) limit(3) unfolding yes_def [symmetric] by (cases yes) (simp_all add: sim_onCodeword_def Let_def r'_def)
  have "lossLimit r' limit" "receiver_ready p' r'" "undecodedIn p' r' = undecodedIn p' ?r1"
    using limit(1) rr by (simp_all add: lossLimit_def receiver_ready_def undecodedIn_def r'_def)
  then show ?thesis using run a(1,2) len limit(2)
    by (intro exI [of _ p'] exI [of _ r'] exI [of _ txs] exI [of _ yes] exI [of _ limit])
      (auto simp: r'_def yes_def)
qed

text \<open>Without tolerated loss a block is acknowledged only when all members of its codewords are known.\<close>

lemma acked_block_known:
  assumes "lt_ok p" "exact simOps truth H G os p" "receiver_ready p r" "length (curCodewords r) < 2 ^ 53"
    and "targetCodewordLoss (rconfig r) = Fin 0" "lossLimit r limit" "int (undecodedIn p r) \<le> limit"
    and "c \<in> set (curCodewords r)"
  shows "set (os ! c) \<subseteq> dom (receivedTransactions p)"
proof -
  have tr: "tracks G os p" using assms(2) by (simp add: exact_def)
  then have c: "c < length os" using assms(3,8) by (auto simp: receiver_ready_def tracks_def)
  have "f_of_int (int (length (curCodewords r))) = Fin (of_nat (length (curCodewords r)))"
    using assms(4) rnd_Fin [OF _ nat_le_powi_1023 [OF assms(4)]] rndq_of_nat by (simp add: f_of_int_def)
  moreover have "f64_limit > 0" by (simp add: f64_limit_def)
  ultimately have "limit = 0" using assms(5,6) by (simp add: lossLimit_def rnd_def trunc_rat_def)
  then have "decoded (cwHeap p ! c)" using assms(7,8) by (auto simp: undecodedIn_def filter_empty_conv)
  then show ?thesis using rest_closed(2) [OF assms(1) tr c] by simp
qed

end
