(* ===== verification/Sim_Contract.thy ===== *)
theory Sim_Contract
  imports Sim_Server Sim_Links
begin

text \<open>
  What a server of \<open>simulator/module.go\<close> guarantees: the slots of its rate limiter, and the
  bookkeeping of the transactions that a codeword brings.
\<close>

section \<open>The rate limiter\<close>

lemma scheduleLoop_eq:
  "scheduleLoop t slot txs r out =
     (if txs = [] then r else r\<lparr>lastScheduled := slot + of_nat (length txs - 1) * minInterval r\<rparr>,
      out @ map (\<lambda>i. \<lparr>Payload = Loopback (txs ! i), To = None, Delay = slot + of_nat i * minInterval r - t\<rparr>) [0..<length txs])"
proof (induction txs arbitrary: slot r out)
  case (Cons tx txs)
  have shift: "map f [0..<length (tx # txs)] = f 0 # map (\<lambda>i. f (Suc i)) [0..<length txs]" for f :: "nat \<Rightarrow> simMsg"
    by (simp add: upt_conv_Cons comp_def del: upt_Suc flip: map_Suc_upt)
  have "slot + minInterval r + of_nat (length txs - 1) * minInterval r = slot + of_nat (length txs) * minInterval r"
    if "txs \<noteq> []" using that by (cases txs) (simp_all add: algebra_simps)
  then show ?case unfolding shift by (cases "txs = []") (simp_all add: Cons.IH algebra_simps)
qed simp

text \<open>A sum of signed words that does not overflow.\<close>

lemma sint_slot:
  fixes slot m t :: u64
  assumes "0 \<le> sint m" "0 \<le> sint t" "0 \<le> sint slot" "sint slot + int k * sint m < 2 ^ 63"
  shows "sint (slot + of_nat k * m) = sint slot + int k * sint m"
    "sint (slot + of_nat k * m - t) = sint slot + int k * sint m - sint t"
proof -
  have w: "slot + of_nat k * m = word_of_int (sint slot + int k * sint m)" by simp
  have b: "0 \<le> sint slot + int k * sint m" using assms(1,3) by simp
  show "sint (slot + of_nat k * m) = sint slot + int k * sint m"
    unfolding w using b assms(4) by (intro sint_of_int) simp_all
  have "sint t < 2 ^ 63" using sint_lt [of t] by simp
  moreover have "slot + of_nat k * m - t = word_of_int (sint slot + int k * sint m - sint t)" by simp
  ultimately show "sint (slot + of_nat k * m - t) = sint slot + int k * sint m - sint t"
    using b assms(2,4) by (simp only: sint_of_int)
qed

text \<open>The first free slot at time \<open>t\<close>, and that the clock of the rate limiter stays in range for \<open>n\<close> more.\<close>

definition firstSlot :: "rateLimiter \<Rightarrow> duration \<Rightarrow> int" where
  "firstSlot r t = max (sint t) (sint (lastScheduled r) + sint (minInterval r))"

definition limiter_ok :: "rateLimiter \<Rightarrow> duration \<Rightarrow> nat \<Rightarrow> bool" where
  "limiter_ok r t n \<longleftrightarrow>
     0 \<le> sint t \<and> 0 \<le> sint (lastScheduled r) \<and> 0 \<le> sint (minInterval r) \<and>
     firstSlot r t + int n * sint (minInterval r) < 2 ^ 63"

lemma scheduleForwarding_spec:
  assumes ok: "limiter_ok (forwardRateLimiter s) t (length txs)"
  shows "\<exists>s' msgs. scheduleForwardingTransactions s out txs t = (s', out @ msgs) \<and> length msgs = length txs \<and>
    (\<forall>i<length txs. Payload (msgs ! i) = Loopback (txs ! i) \<and> To (msgs ! i) = None \<and>
       sint t + sint (Delay (msgs ! i)) = firstSlot (forwardRateLimiter s) t + int i * sint (minInterval (forwardRateLimiter s))) \<and>
    minInterval (forwardRateLimiter s') = minInterval (forwardRateLimiter s) \<and>
    sint (lastScheduled (forwardRateLimiter s')) =
      (if txs = [] then sint (lastScheduled (forwardRateLimiter s))
       else firstSlot (forwardRateLimiter s) t + int (length txs - 1) * sint (minInterval (forwardRateLimiter s))) \<and>
    s' = s\<lparr>forwardRateLimiter := forwardRateLimiter s'\<rparr>"
proof -
  let ?r = "forwardRateLimiter s"
  let ?slot = "if sint (lastScheduled ?r + minInterval ?r) > sint t then lastScheduled ?r + minInterval ?r else t"
  have pos: "0 \<le> sint t" "0 \<le> sint (lastScheduled ?r)" "0 \<le> sint (minInterval ?r)"
    and bound: "firstSlot ?r t + int (length txs) * sint (minInterval ?r) < 2 ^ 63"
    using ok by (simp_all add: limiter_ok_def)
  have "sint (lastScheduled ?r) + sint (minInterval ?r) \<le> firstSlot ?r t" by (simp add: firstSlot_def)
  moreover have "0 \<le> int (length txs) * sint (minInterval ?r)" using pos(3) by simp
  ultimately have "sint (lastScheduled ?r) + int 1 * sint (minInterval ?r) < 2 ^ 63" using bound by linarith
  then have "sint (lastScheduled ?r + minInterval ?r) = sint (lastScheduled ?r) + sint (minInterval ?r)"
    using sint_slot(1) [of "minInterval ?r" t "lastScheduled ?r" 1] pos by simp
  then have slot: "sint ?slot = firstSlot ?r t" by (auto simp: firstSlot_def)
  have nn: "0 \<le> firstSlot ?r t" using pos(1) by (simp add: firstSlot_def)
  have at: "sint (?slot + of_nat i * minInterval ?r) = firstSlot ?r t + int i * sint (minInterval ?r)"
    "sint (?slot + of_nat i * minInterval ?r - t) = firstSlot ?r t + int i * sint (minInterval ?r) - sint t"
    if "i \<le> length txs" for i
  proof -
    have "int i * sint (minInterval ?r) \<le> int (length txs) * sint (minInterval ?r)"
      using that pos(3) by (intro mult_right_mono) simp_all
    then have "sint ?slot + int i * sint (minInterval ?r) < 2 ^ 63" using bound slot by linarith
    then show "sint (?slot + of_nat i * minInterval ?r) = firstSlot ?r t + int i * sint (minInterval ?r)"
      "sint (?slot + of_nat i * minInterval ?r - t) = firstSlot ?r t + int i * sint (minInterval ?r) - sint t"
      using sint_slot [of "minInterval ?r" t ?slot i] pos nn slot by simp_all
  qed
  let ?r' = "if txs = [] then ?r else ?r\<lparr>lastScheduled := ?slot + of_nat (length txs - 1) * minInterval ?r\<rparr>"
  let ?msgs = "map (\<lambda>i. \<lparr>Payload = Loopback (txs ! i), To = None, Delay = ?slot + of_nat i * minInterval ?r - t\<rparr>) [0..<length txs]"
  have "scheduleForwardingTransactions s out txs t = (s\<lparr>forwardRateLimiter := ?r'\<rparr>, out @ ?msgs)"
    by (simp only: scheduleForwardingTransactions_def Let_def scheduleLoop_eq case_prod_conv)
  then show ?thesis using at [of "length txs - 1"] at(2)
    by (intro exI [of _ "s\<lparr>forwardRateLimiter := ?r'\<rparr>"] exI [of _ ?msgs]) simp
qed

section \<open>The transactions of a codeword\<close>

text \<open>
  \<open>server_knows\<close>: the decoder of the server is exact for the transactions \<open>truth\<close> of the hashes
  \<open>H\<close>, and the server has registered those that its decoder holds.
\<close>

definition server_knows :: "(u32 \<Rightarrow> simTransaction) \<Rightarrow> u32 set \<Rightarrow> u32 set \<Rightarrow> u32 list list \<Rightarrow> simServer \<Rightarrow> bool" where
  "server_knows truth H G os s \<longleftrightarrow>
     lt_ok (decoder s) \<and> exact simOps truth H G os (decoder s) \<and> inj_on truth H \<and> finite H \<and>
     received s = truth ` dom (receivedTransactions (decoder s))"

lemma registerDecoded_spec:
  assumes "distinct (map data vals)" "data ` set vals \<inter> received s = {}"
  shows "\<exists>sk. registerDecoded t vals s = Inr (s\<lparr>received := received s \<union> data ` set vals, latencySketch := sk\<rparr>)"
  using assms
proof (induction vals arbitrary: s)
  case Nil
  then show ?case by (intro exI [of _ "latencySketch s"]) simp
next
  case (Cons v vals)
  let ?s = "s\<lparr>received := insert (data v) (received s), latencySketch := sim_recordTxLatency (latencySketch s) (data v) t\<rparr>"
  obtain sk where "registerDecoded t vals ?s = Inr (?s\<lparr>received := received ?s \<union> data ` set vals, latencySketch := sk\<rparr>)"
    using Cons.IH [of ?s] Cons.prems by auto
  then show ?case using Cons.prems by (intro exI [of _ sk]) (simp add: registerReceived_def Un_commute)
qed

lemma handleCodeword_full:
  assumes knows: "server_knows truth H G os s" and hon: "honest_cw simOps truth H (Codeword_of m)"
    and h: "handlers s from = Some h" "receiver_ready (decoder s) (receiver_of h)"
      "length (curCodewords (receiver_of h)) < 2 ^ 53 - 1"
    and lim: "\<And>n. n \<le> card H \<Longrightarrow> limiter_ok (forwardRateLimiter s) t n"
  shows "\<exists>s' msgs hs r yes. handleCodeword from m t s = Some (Inr (s', msgs)) \<and>
    server_knows truth H G (os @ [cw_members (Codeword_of m)]) s' \<and> distinct hs \<and>
    set hs = dom (receivedTransactions (decoder s')) - dom (receivedTransactions (decoder s)) \<and>
    map Payload msgs = map (\<lambda>h. Loopback (true_tx simOps truth h)) hs \<and>
    received s' = received s \<union> truth ` set hs \<and>
    metric s' = \<lparr>decodedTransactions = decodedTransactions (metric s) + int (length hs),
                 receivedCodewords = receivedCodewords (metric s) + 1\<rparr> \<and>
    handlers s' = (handlers s)(from \<mapsto> h\<lparr>receiver_of := r\<rparr>) \<and>
    routbox r = routbox (receiver_of h) @ [SimAck \<lparr>ackBlock = yes\<rparr>] \<and> receiver_ready (decoder s') r \<and>
    (yes \<and> targetCodewordLoss (rconfig r) = Fin 0 \<longrightarrow>
       (\<forall>c\<in>set (curCodewords r). set ((os @ [cw_members (Codeword_of m)]) ! c) \<subseteq> dom (receivedTransactions (decoder s')))) \<and>
    dhasher (decoder s') = dhasher (decoder s) \<and> memory (decoder s') = memory (decoder s) \<and> config s' = config s \<and>
    length (cwHeap (decoder s')) = Suc (length (cwHeap (decoder s))) \<and> rconfig r = rconfig (receiver_of h) \<and>
    length (curCodewords r) \<le> Suc (length (curCodewords (receiver_of h))) \<and> length msgs = length hs \<and>
    minInterval (forwardRateLimiter s') = minInterval (forwardRateLimiter s) \<and>
    sint (lastScheduled (forwardRateLimiter s')) =
      (if hs = [] then sint (lastScheduled (forwardRateLimiter s))
       else firstSlot (forwardRateLimiter s) t + int (length hs - 1) * sint (minInterval (forwardRateLimiter s))) \<and>
    (\<forall>i<length hs. To (msgs ! i) = None \<and>
       sint t + sint (Delay (msgs ! i)) = firstSlot (forwardRateLimiter s) t + int i * sint (minInterval (forwardRateLimiter s)))"
proof -
  have k: "lt_ok (decoder s)" "exact simOps truth H G os (decoder s)" "inj_on truth H" "finite H"
    "received s = truth ` dom (receivedTransactions (decoder s))" using knows by (simp_all add: server_knows_def)
  let ?A = "dom (receivedTransactions (decoder s))"
  obtain p' r buf yes limit where on: "sim_onCodeword (decoder s) (receiver_of h) m = Some (Inr (p', r, buf))"
    "lt_AddCodeword simOps (decoder s) (Codeword_of m) = Some (Inr (p', length (cwHeap (decoder s)), buf))" "lt_ok p'"
    "receiver_ready p' r" "routbox r = routbox (receiver_of h) @ [SimAck \<lparr>ackBlock = yes\<rparr>]"
    "lossLimit r limit" "yes \<longrightarrow> int (undecodedIn p' r) \<le> limit"
    "curCodewords r = (if newBlock m then [] else curCodewords (receiver_of h)) @ [length (cwHeap (decoder s))]"
    "dhasher p' = dhasher (decoder s)" "length (cwHeap p') = Suc (length (cwHeap (decoder s)))"
    "rconfig r = rconfig (receiver_of h)"
    using onCodeword_spec [OF k(1) h(2,3), of m] by blast
  have rc: "lt_receive simOps (decoder s) (GotCodeword (Codeword_of m)) = Some (Inr (p', buf))"
    using on(2) by (simp add: lt_receive_def)
  have mem: "memory p' = memory (decoder s)"
    using lt_receive_ok [OF k(1), of simOps "GotCodeword (Codeword_of m)"] rc by simp
  have ex: "exact simOps truth H G (os @ [cw_members (Codeword_of m)]) p'"
    "learns simOps truth ?A {} (dom (receivedTransactions p')) buf"
    using exact_receive [OF simTx.data_laws_axioms k(1,2) _ rc] hon by (simp_all add: honest_def)
  obtain hs where hs: "buf = map (true_tx simOps truth) hs" "distinct hs" "set hs \<inter> ?A = {}"
    "dom (receivedTransactions p') = ?A \<union> set hs" using ex(2) unfolding learns_def by auto
  have sub: "dom (receivedTransactions p') \<subseteq> H" using ex(1) by (auto simp: exact_def remembers_def)
  then have H: "set hs \<subseteq> H" "?A \<subseteq> H" using hs(4) by auto
  have dat: "data ` set buf = truth ` set hs" "map data buf = map truth hs"
    by (simp_all add: hs(1) true_tx_def image_image comp_def)
  have dis: "truth ` set hs \<inter> truth ` ?A = {}"
    using inj_on_image_Int [OF k(3) H] hs(3) by simp
  have inj: "distinct (map truth hs)" using hs(2) inj_on_subset [OF k(3) H(1)] by (simp add: distinct_map)
  let ?s1 = "s\<lparr>handlers := (handlers s)(from \<mapsto> h\<lparr>receiver_of := r\<rparr>), decoder := p'\<rparr>"
  obtain sk where reg: "registerDecoded t buf ?s1 = Inr (?s1\<lparr>received := received s \<union> truth ` set hs, latencySketch := sk\<rparr>)"
    using registerDecoded_spec [of buf ?s1 t] inj dis k(5) by (auto simp: dat)
  let ?s2 = "?s1\<lparr>received := received s \<union> truth ` set hs, latencySketch := sk,
      metric := (metric s)\<lparr>decodedTransactions := decodedTransactions (metric s) + int (length buf),
                           receivedCodewords := receivedCodewords (metric s) + 1\<rparr>\<rparr>"
  have "length buf \<le> card H" using hs(1,2) H(1) k(4) by (metis card_mono distinct_card length_map)
  then have "limiter_ok (forwardRateLimiter ?s2) t (length buf)" using lim by simp
  then obtain s' msgs where sch: "scheduleForwardingTransactions ?s2 [] buf t = (s', [] @ msgs)" "length msgs = length buf"
    "\<forall>i<length buf. Payload (msgs ! i) = Loopback (buf ! i) \<and> To (msgs ! i) = None \<and>
       sint t + sint (Delay (msgs ! i)) = firstSlot (forwardRateLimiter s) t + int i * sint (minInterval (forwardRateLimiter s))"
    "s' = ?s2\<lparr>forwardRateLimiter := forwardRateLimiter s'\<rparr>"
    "minInterval (forwardRateLimiter s') = minInterval (forwardRateLimiter s)"
    "sint (lastScheduled (forwardRateLimiter s')) =
      (if buf = [] then sint (lastScheduled (forwardRateLimiter s))
       else firstSlot (forwardRateLimiter s) t + int (length buf - 1) * sint (minInterval (forwardRateLimiter s)))"
    using scheduleForwarding_spec [of ?s2 t buf "[]"] by auto
  have pay: "map Payload msgs = map (\<lambda>h. Loopback (true_tx simOps truth h)) hs"
    using sch(2,3) hs(1) by (intro nth_equalityI) simp_all
  have run: "handleCodeword from m t s = Some (Inr (s', msgs))"
    using on(1) h(1) reg sch(1) by (simp add: handleCodeword_def withPeer_def Let_def)
  obtain fr where fr: "s' = ?s2\<lparr>forwardRateLimiter := fr\<rparr>" using sch(4) by blast
  have "server_knows truth H G (os @ [cw_members (Codeword_of m)]) s'"
    using ex(1) on(3) k(3-5) hs(4) by (simp add: server_knows_def fr image_Un)
  moreover have "\<forall>c\<in>set (curCodewords r). set ((os @ [cw_members (Codeword_of m)]) ! c) \<subseteq> dom (receivedTransactions p')"
    if "yes" "targetCodewordLoss (rconfig r) = Fin 0"
    using acked_block_known [OF on(3) ex(1) on(4) _ that(2) on(6)] on(7,8) that(1) h(3) by simp
  ultimately have main: "server_knows truth H G (os @ [cw_members (Codeword_of m)]) s'"
    "yes \<and> targetCodewordLoss (rconfig r) = Fin 0 \<longrightarrow>
       (\<forall>c\<in>set (curCodewords r). set ((os @ [cw_members (Codeword_of m)]) ! c) \<subseteq> dom (receivedTransactions p'))" by blast+
  have parts: "decoder s' = p'" "config s' = config s" "handlers s' = (handlers s)(from \<mapsto> h\<lparr>receiver_of := r\<rparr>)"
    "received s' = received s \<union> truth ` set hs" "length buf = length hs" "buf = [] \<longleftrightarrow> hs = []"
    "metric s' = \<lparr>decodedTransactions = decodedTransactions (metric s) + int (length hs),
                 receivedCodewords = receivedCodewords (metric s) + 1\<rparr>"
    by (simp_all add: fr hs(1))
  have new: "set hs = dom (receivedTransactions p') - dom (receivedTransactions (decoder s))" using hs(3,4) by auto
  have len: "length (curCodewords r) \<le> Suc (length (curCodewords (receiver_of h)))" by (simp add: on(8))
  have delays: "\<forall>i<length hs. To (msgs ! i) = None \<and>
       sint t + sint (Delay (msgs ! i)) = firstSlot (forwardRateLimiter s) t + int i * sint (minInterval (forwardRateLimiter s))"
    using sch(3) parts(5) by simp
  show ?thesis
    by (intro exI [of _ s'] exI [of _ msgs] exI [of _ hs] exI [of _ r] exI [of _ yes] conjI, unfold parts(1))
      (use run main pay hs(2) new on(4,5) parts on(9-11) mem len delays sch(2,5,6) in \<open>simp_all only: parts(5,6)\<close>)
qed

end
