(* ===== verification/Sim_Network.thy ===== *)
theory Sim_Network
  imports Sim_Contract
begin

text \<open>
  The network of \<open>simulator/\<close> as a whole: an invariant of all servers and of the messages under
  way, and that a server that handles a message keeps it. The invariant speaks of the
  transactions generated so far: \<open>truth\<close> gives them by their salted hashes, and the decoder of
  every server is exact for them. It is kept because a transaction that is generated is new to
  all servers, and because whatever a server puts on a link is made of transactions that were
  generated. The hash is assumed to separate the transactions that will be generated, \<open>N\<close> at
  most, and the memory of the decoders to hold them.
\<close>

section \<open>Growing knowledge\<close>

lemma honest_tx_mono:
  assumes "honest_tx T sip truth H tx" "\<forall>h\<in>H. truth' h = truth h" "H \<subseteq> H'"
  shows "honest_tx T sip truth' H' tx"
  using assms by (auto simp: honest_tx_def true_tx_def)

lemma honest_cw_mono:
  assumes "honest_cw T truth H raw" "\<forall>h\<in>H. truth' h = truth h" "H \<subseteq> H'"
  shows "honest_cw T truth' H' raw"
proof -
  have "image_mset truth' (mset (cw_members raw)) = image_mset truth (mset (cw_members raw))"
    using assms by (intro image_mset_cong) (auto simp: honest_cw_def)
  then show ?thesis using assms(1,3) by (auto simp: honest_cw_def)
qed

lemma exact_mono:
  assumes ex: "exact T truth H G os p" and wf: "lt_ok p" and eq: "\<forall>h\<in>H. truth' h = truth h" and sub: "H \<subseteq> H'"
    and H': "finite H'" "int (card H') \<le> memory p" "hashes_to T (dhasher p) truth' H'"
  shows "exact T truth' H' G os p"
proof -
  have ag: "agrees T truth H p" and tr: "tracks G os p" and rm: "remembers H p" using ex by (simp_all add: exact_def)
  have "residual T (\<lambda>t. truth' (hash_of p t)) p c = data_zero T" if c: "c < length (cwHeap p)" for c
  proof -
    have "truth' (hash_of p t) = truth (hash_of p t)" if "t \<in> set (mem_of p c)" for t
    proof -
      have "t < length (txHeap p)" using links_bound [OF _ c that] wf by (simp add: lt_wf_def)
      then have "hash_of p t \<in> H" using ag by (auto simp: agrees_def)
      then show ?thesis using eq by blast
    qed
    then have "image_mset (\<lambda>t. truth' (hash_of p t)) (mset (mem_of p c)) = image_mset (\<lambda>t. truth (hash_of p t)) (mset (mem_of p c))"
      by (intro image_mset_cong) simp
    then show ?thesis using ag c by (simp add: agrees_def residual_def)
  qed
  moreover have "tx = true_tx T truth' h" if "receivedTransactions p h = Some tx" for h tx
  proof -
    have "h \<in> H" using rm that by (auto simp: remembers_def)
    then show ?thesis using ag that eq by (simp add: agrees_def true_tx_def)
  qed
  ultimately have "agrees T truth' H' p" using ag sub H'(3) by (auto simp: agrees_def)
  moreover have "remembers H' p" using rm sub H' by (auto simp: remembers_def)
  ultimately show ?thesis using tr by (simp add: exact_def)
qed

section \<open>The generated transactions\<close>

text \<open>The salted hash of the transaction with index \<open>i\<close>, whatever its time.\<close>

definition hashOf :: "hash64 \<Rightarrow> nat \<Rightarrow> u32" where
  "hashOf sip i = salted sip (simTransaction_Hash \<lparr>tidx = of_nat i, tts = 0\<rparr>)"

definition hashesBelow :: "hash64 \<Rightarrow> nat \<Rightarrow> u32 set" where
  "hashesBelow sip g = hashOf sip ` {..<g}"

definition truthful :: "hash64 \<Rightarrow> (u32 \<Rightarrow> simTransaction) \<Rightarrow> nat \<Rightarrow> bool" where
  "truthful sip truth g \<longleftrightarrow> (\<forall>i<g. tidx (truth (hashOf sip i)) = of_nat i)"

text \<open>No two of the first \<open>N\<close> transactions have the same salted hash.\<close>

definition noCollision :: "hash64 \<Rightarrow> nat \<Rightarrow> bool" where
  "noCollision sip N \<longleftrightarrow> inj_on (hashOf sip) {..<N}"

lemma hash_index: "simTransaction_Hash d = simTransaction_Hash \<lparr>tidx = tidx d, tts = 0\<rparr>"
  by (simp add: simTransaction_Hash_def)

lemma simOps_Hash [simp]: "data_Hash simOps = simTransaction_Hash" "data_XOR simOps = simTransaction_XOR"
  by (simp_all add: simOps_def)

lemma noCollision_bound:
  assumes "noCollision sip N"
  shows "N \<le> 2 ^ 32"
proof -
  have "card (hashOf sip ` {..<N}) = N" using assms by (simp add: noCollision_def card_image)
  moreover have "card (hashOf sip ` {..<N}) \<le> card (UNIV :: u32 set)" by (rule card_mono) simp_all
  ultimately show ?thesis by (simp add: card_word)
qed

lemma hashesBelow_facts:
  assumes "noCollision sip N" "g \<le> N"
  shows "finite (hashesBelow sip g)" "card (hashesBelow sip g) = g"
    "g < N \<Longrightarrow> hashOf sip g \<notin> hashesBelow sip g"
proof -
  have "inj_on (hashOf sip) {..<g}" using assms by (auto simp: noCollision_def intro: inj_on_subset)
  then show "card (hashesBelow sip g) = g" by (simp add: hashesBelow_def card_image)
  show "finite (hashesBelow sip g)" by (simp add: hashesBelow_def)
  show "hashOf sip g \<notin> hashesBelow sip g" if "g < N"
  proof
    assume "hashOf sip g \<in> hashesBelow sip g"
    then obtain i where i: "i < g" "hashOf sip g = hashOf sip i" by (auto simp: hashesBelow_def)
    then have "g = i" using assms(1) that by (intro inj_onD [of "hashOf sip" "{..<N}"]) (auto simp: noCollision_def)
    then show False using i(1) by simp
  qed
qed

lemma hashesBelow_mono: "g \<le> g' \<Longrightarrow> hashesBelow sip g \<subseteq> hashesBelow sip g'"
  by (auto simp: hashesBelow_def)

lemma truthful_facts:
  assumes "truthful sip truth g" "noCollision sip N" "g \<le> N"
  shows "hashes_to simOps sip truth (hashesBelow sip g)" "inj_on truth (hashesBelow sip g)"
proof -
  have ti: "tidx (truth (hashOf sip i)) = of_nat i" if "i < g" for i using assms(1) that by (simp add: truthful_def)
  have "salted sip (simTransaction_Hash (truth (hashOf sip i))) = hashOf sip i" if "i < g" for i
    unfolding hash_index [of "truth (hashOf sip i)"] ti [OF that] by (simp add: hashOf_def)
  then show "hashes_to simOps sip truth (hashesBelow sip g)"
    by (auto simp: hashes_to_def hashesBelow_def)
  have g: "g \<le> 2 ^ 32" using noCollision_bound [OF assms(2)] assms(3) by simp
  show "inj_on truth (hashesBelow sip g)"
  proof (rule inj_onI)
    fix x y assume "x \<in> hashesBelow sip g" "y \<in> hashesBelow sip g" "truth x = truth y"
    then obtain i j where ij: "i < g" "j < g" "x = hashOf sip i" "y = hashOf sip j" "(of_nat i :: u64) = of_nat j"
      using ti by (metis hashesBelow_def imageE lessThan_iff)
    then have "unat (of_nat i :: u64) = unat (of_nat j :: u64)" by simp
    then have "i = j" using ij(1,2) g by (simp add: unsigned_of_nat take_bit_nat_eq_self)
    then show "x = y" using ij by simp
  qed
qed

text \<open>The next transaction extends the truth.\<close>

definition extends :: "hash64 \<Rightarrow> (u32 \<Rightarrow> simTransaction) \<Rightarrow> nat \<Rightarrow> (u32 \<Rightarrow> simTransaction) \<Rightarrow> nat \<Rightarrow> bool" where
  "extends sip truth g truth' g' \<longleftrightarrow> g \<le> g' \<and> (\<forall>h\<in>hashesBelow sip g. truth' h = truth h)"

lemma extends_refl [simp]: "extends sip truth g truth g"
  by (simp add: extends_def)

lemma extends_trans: "extends sip t1 g1 t2 g2 \<Longrightarrow> extends sip t2 g2 t3 g3 \<Longrightarrow> extends sip t1 g1 t3 g3"
  using hashesBelow_mono [of g1 g2 sip] by (auto simp: extends_def subset_iff)

lemma extends_next:
  assumes "truthful sip truth g" "noCollision sip N" "g < N" "tidx d = of_nat g"
  shows "extends sip truth g (truth(hashOf sip g := d)) (Suc g)" "truthful sip (truth(hashOf sip g := d)) (Suc g)"
proof -
  have new: "hashOf sip g \<notin> hashesBelow sip g" using hashesBelow_facts(3) [OF assms(2)] assms(3) by simp
  then show "extends sip truth g (truth(hashOf sip g := d)) (Suc g)" by (auto simp: extends_def)
  have "hashOf sip i \<noteq> hashOf sip g" if "i < g" for i using new that by (metis hashesBelow_def imageI lessThan_iff)
  then show "truthful sip (truth(hashOf sip g := d)) (Suc g)" using assms(1,4) by (auto simp: truthful_def less_Suc_eq)
qed

lemma server_knows_mono:
  assumes "server_knows truth (hashesBelow sip g) G os s" "extends sip truth g truth' g'" "truthful sip truth' g'"
    and "noCollision sip N" "g' \<le> N" "dhasher (decoder s) = sip" "int N \<le> memory (decoder s)"
  shows "server_knows truth' (hashesBelow sip g') G os s"
proof -
  have k: "lt_ok (decoder s)" "exact simOps truth (hashesBelow sip g) G os (decoder s)"
    "received s = truth ` dom (receivedTransactions (decoder s))" using assms(1) by (simp_all add: server_knows_def)
  have e: "g \<le> g'" "\<forall>h\<in>hashesBelow sip g. truth' h = truth h" using assms(2) by (simp_all add: extends_def)
  note f = hashesBelow_facts [OF assms(4,5)] truthful_facts [OF assms(3-5)]
  have "exact simOps truth' (hashesBelow sip g') G os (decoder s)"
    using exact_mono [OF k(2,1) e(2) hashesBelow_mono [OF e(1)]] f assms(5-7) by simp
  moreover have "dom (receivedTransactions (decoder s)) \<subseteq> hashesBelow sip g"
    using k(2) by (simp add: exact_def remembers_def)
  then have "received s = truth' ` dom (receivedTransactions (decoder s))"
    unfolding k(3) by (intro image_cong) (use e(2) in auto)
  ultimately show ?thesis using k(1) f by (simp add: server_knows_def)
qed

section \<open>A sender with genuine transactions\<close>

definition honestTx :: "hash64 \<Rightarrow> (u32 \<Rightarrow> simTransaction) \<Rightarrow> nat \<Rightarrow> simTx \<Rightarrow> bool" where
  "honestTx sip truth g = honest_tx simOps sip truth (hashesBelow sip g)"

definition honestCodeword :: "hash64 \<Rightarrow> (u32 \<Rightarrow> simTransaction) \<Rightarrow> nat \<Rightarrow> simCodeword \<Rightarrow> bool" where
  "honestCodeword sip truth g cw = honest_cw simOps truth (hashesBelow sip g) (Codeword_of cw)"

definition sender_genuine :: "hash64 \<Rightarrow> (u32 \<Rightarrow> simTransaction) \<Rightarrow> nat \<Rightarrow> simSender \<Rightarrow> bool" where
  "sender_genuine sip truth g n \<longleftrightarrow>
     hasher (Encoder_of n) = sip \<and> (\<forall>tx\<in>set (sbuffer n). honestTx sip truth g tx) \<and>
     (encodingCurrentBlock n \<longrightarrow>
        genuine_window simOps sip truth (window (Encoder_of n)) \<and> saltedHash ` set (window (Encoder_of n)) \<subseteq> hashesBelow sip g)"

lemma honestTx_mono: "honestTx sip truth g tx \<Longrightarrow> extends sip truth g truth' g' \<Longrightarrow> honestTx sip truth' g' tx"
  unfolding honestTx_def extends_def using honest_tx_mono hashesBelow_mono by blast

lemma honestCodeword_mono:
  "honestCodeword sip truth g cw \<Longrightarrow> extends sip truth g truth' g' \<Longrightarrow> honestCodeword sip truth' g' cw"
  unfolding honestCodeword_def extends_def using honest_cw_mono hashesBelow_mono by blast

lemma sender_genuine_mono:
  assumes "sender_genuine sip truth g n" "extends sip truth g truth' g'"
  shows "sender_genuine sip truth' g' n"
proof -
  have e: "\<forall>h\<in>hashesBelow sip g. truth' h = truth h" "hashesBelow sip g \<subseteq> hashesBelow sip g'"
    using assms(2) hashesBelow_mono by (auto simp: extends_def)
  have "genuine_window simOps sip truth' w"
    if w: "genuine_window simOps sip truth w" "saltedHash ` set w \<subseteq> hashesBelow sip g" for w
  proof -
    have "saltedHash x = salted sip (hash (tx_of x)) \<and> tx_of x = true_tx simOps truth' (saltedHash x)" if x: "x \<in> set w" for x
    proof -
      have "truth' (saltedHash x) = truth (saltedHash x)" using e(1) w(2) x by blast
      then have eq: "true_tx simOps truth' (saltedHash x) = true_tx simOps truth (saltedHash x)" by (simp add: true_tx_def)
      have "saltedHash x = salted sip (hash (tx_of x)) \<and> tx_of x = true_tx simOps truth (saltedHash x)"
        using w(1) x unfolding genuine_window_def by blast
      then show ?thesis unfolding eq .
    qed
    then show ?thesis using w(1) unfolding genuine_window_def by blast
  qed
  moreover have "\<forall>tx\<in>set (sbuffer n). honestTx sip truth' g' tx"
    using assms(1) honestTx_mono [OF _ assms(2)] by (simp add: sender_genuine_def)
  ultimately show ?thesis using assms(1) e(2) unfolding sender_genuine_def by blast
qed

lemma ofBlock_honest:
  assumes "genuine_window simOps sip truth (window e)" "saltedHash ` set (window e) \<subseteq> hashesBelow sip g" "ofBlock e cw"
  shows "honestCodeword sip truth g cw"
proof -
  obtain chosen where "mset chosen \<subseteq># mset (window e)" "mixes simOps chosen (Codeword_of cw)"
    using assms(3) by (auto simp: ofBlock_def)
  then have "honest_cw simOps truth (saltedHash ` set (window e)) (Codeword_of cw)"
    using mixes_honest [OF simTx.data_laws_axioms assms(1)] by blast
  then show ?thesis using assms(2) by (auto simp: honestCodeword_def honest_cw_def)
qed

lemma started_genuine:
  assumes "sender_genuine sip truth g n" "started n n'"
  shows "genuine_window simOps sip truth (window (Encoder_of n'))" "saltedHash ` set (window (Encoder_of n')) \<subseteq> hashesBelow sip g"
    "hasher (Encoder_of n') = sip"
proof -
  let ?w = "window (Encoder_of n')"
  have h: "hasher (Encoder_of n) = sip" and buf: "\<forall>tx\<in>set (sbuffer n). honestTx sip truth g tx"
    using assms(1) by (simp_all add: sender_genuine_def)
  have st: "currentBlock n' = firstOnes (saltedOf (Encoder_of n)) {} (sbuffer n)" "map tx_of ?w = currentBlock n'"
    "map saltedHash ?w = map (saltedOf (Encoder_of n)) (currentBlock n')" "hasher (Encoder_of n') = hasher (Encoder_of n)"
    using assms(2) by (simp_all add: started_def)
  show "hasher (Encoder_of n') = sip" using st(4) h by simp
  have "set (currentBlock n') \<subseteq> set (sbuffer n)" unfolding st(1) by (rule firstOnes_subset)
  then have hon: "honestTx sip truth g (tx_of x)" if "x \<in> set ?w" for x
    using buf st(2) that by (metis imageI list.set_map subsetD)
  have "map saltedHash ?w = map (\<lambda>x. salted sip (hash (tx_of x))) ?w"
    unfolding st(3) st(2) [symmetric] by (simp add: saltedOf_def h)
  then have sh: "saltedHash x = salted sip (hash (tx_of x))" if "x \<in> set ?w" for x using that by simp
  have "distinct (map saltedHash ?w)" unfolding st(3) st(1) using firstOnes_distinct by blast
  moreover have "tx_of x = true_tx simOps truth (saltedHash x)" "saltedHash x \<in> hashesBelow sip g" if "x \<in> set ?w" for x
    using hon [OF that] sh [OF that] unfolding honestTx_def honest_tx_def by metis+
  ultimately show "genuine_window simOps sip truth ?w" "saltedHash ` set ?w \<subseteq> hashesBelow sip g"
    using sh by (auto simp: genuine_window_def)
qed

text \<open>What filling the window does to a sender: it stays in order, and sends honest codewords.\<close>

definition filled :: "hash64 \<Rightarrow> (u32 \<Rightarrow> simTransaction) \<Rightarrow> nat \<Rightarrow> simSender \<Rightarrow> simSender \<Rightarrow> bool" where
  "filled sip truth g n n' \<longleftrightarrow>
     sender_ready n' \<and> sender_genuine sip truth g n' \<and> length (sbuffer n') \<le> length (sbuffer n) \<and>
     (\<exists>cws. soutbox n' = soutbox n @ map SimCodeword cws \<and> (\<forall>cw\<in>set cws. honestCodeword sip truth g cw))"

lemma fill_genuine:
  assumes "sender_ready n" "sender_genuine sip truth g n"
  shows "\<exists>n'. sim_tryFillSendWindow may n = Some (Inr n') \<and> filled sip truth g n n'"
proof (cases "encodingCurrentBlock n")
  case True
  have w: "genuine_window simOps sip truth (window (Encoder_of n))"
    "saltedHash ` set (window (Encoder_of n)) \<subseteq> hashesBelow sip g" using assms(2) True by (simp_all add: sender_genuine_def)
  obtain n' cws where n': "sim_tryFillSendWindow may n = Some (Inr n')" "sender_ready n'" "sent cws n n'"
    using fill_encoding [OF assms(1) True, of may] by blast
  have "\<forall>cw\<in>set cws. honestCodeword sip truth g cw" using n'(3) ofBlock_honest [OF w] by (simp add: sent_def)
  moreover have "sender_genuine sip truth g n'" using assms(2) n'(3) by (simp add: sender_genuine_def sent_def)
  ultimately show ?thesis using n' by (auto simp: filled_def sent_def)
next
  case False
  obtain m where m: "f_to_int (f_div (f_of_int (sendThreshold (sconfig n))) (controlOverhead (sconfig n))) = Inr m"
    using assms(1) by (auto simp: sender_ready_def window_config_def)
  show ?thesis
  proof (cases "inFlight n < sendWindow n \<and> may \<and> m \<le> int (length (sbuffer n))")
    case True
    obtain n' cw cws where n': "sim_tryFillSendWindow True n = Some (Inr n')" "sender_ready n'" "started n n'"
      "soutbox n' = soutbox n @ map SimCodeword (cw # cws)" "ofBlock (Encoder_of n') cw"
      "\<forall>x\<in>set cws. ofBlock (Encoder_of n') x"
      using fill_starting [OF assms(1) False _ m] True by blast
    note w = started_genuine [OF assms(2) n'(3)]
    have "\<forall>x\<in>set (cw # cws). honestCodeword sip truth g x" using ofBlock_honest [OF w(1,2)] n'(5,6) by simp
    moreover have "sender_genuine sip truth g n'" using n'(3) w by (simp add: sender_genuine_def started_def)
    moreover have "sbuffer n' = []" using n'(3) by (simp add: started_def)
    ultimately have "filled sip truth g n n'" unfolding filled_def
      by (intro conjI exI [of _ "cw # cws"]) (use n'(2,4) in simp_all)
    then show ?thesis using n'(1) True by auto
  next
    case idle: False
    have "sim_tryFillSendWindow may n = Some (Inr n)" using fill_idle [OF assms(1) False, of may] m idle by auto
    then show ?thesis using assms by (auto simp: filled_def)
  qed
qed

lemma onTransaction_genuine:
  assumes "sender_ready n" "sender_genuine sip truth g n" "honestTx sip truth g tx" "length (sbuffer n) < 2 ^ 53 - 1"
  shows "\<exists>n'. sim_onTransaction n tx may = Some (Inr n') \<and> filled sip truth g (n\<lparr>sbuffer := sbuffer n @ [tx]\<rparr>) n'"
  unfolding sim_onTransaction_def
  by (rule fill_genuine) (use assms in \<open>auto simp: sender_ready_def sender_genuine_def\<close>)

lemma onAck_genuine:
  assumes "sender_ready n" "sender_genuine sip truth g n"
  shows "\<exists>n'. sim_onAck n a may = Some (Inr n') \<and> filled sip truth g n n'"
proof -
  let ?n = "n\<lparr>inFlight := inFlight n - 1\<rparr>"
  let ?m = "if ackBlock a then ?n\<lparr>encodingCurrentBlock := False\<rparr> else ?n"
  have "sender_ready ?m" "sender_genuine sip truth g ?m" using assms by (auto simp: sender_ready_def sender_genuine_def)
  then obtain n' where "sim_tryFillSendWindow may ?m = Some (Inr n')" "filled sip truth g ?m n'"
    using fill_genuine by blast
  then show ?thesis by (cases "ackBlock a") (auto simp: sim_onAck_def filled_def)
qed

end
