(* ===== verification/Sim_Invariant.thy ===== *)
theory Sim_Invariant
  imports Sim_Network
begin

text \<open>
  The invariant of a network of \<open>simulator/\<close> and the handler of a server: \<open>netSpec\<close> holds what
  does not change in a run, \<open>peer_ok\<close> is the invariant of one end of a link, \<open>server_ok\<close> that of a
  server.
\<close>

section \<open>The invariant of a server\<close>

text \<open>
  \<open>net_N\<close> bounds the transactions to be generated, \<open>net_b\<close> the delays of links, block arrivals and
  forced synchronisation, and \<open>net_m\<close> is the interval of the rate limiter.
\<close>

record netSpec =
  net_env :: simEnv
  net_cfg :: serverConfig
  net_N :: nat
  net_b :: int
  net_m :: duration
  net_size :: nat
  net_edge :: "serverId \<Rightarrow> serverId \<Rightarrow> bool"

abbreviation net_sip :: "netSpec \<Rightarrow> hash64" where
  "net_sip K \<equiv> env_sip (net_env K)"

text \<open>No message asks for a longer delay.\<close>

definition net_bound :: "netSpec \<Rightarrow> int" where
  "net_bound K = net_b K + (2 * int (net_N K) + 1) * sint (net_m K)"

definition orders_keys :: "simEnv \<Rightarrow> bool" where
  "orders_keys env \<longleftrightarrow> (\<forall>me k S. finite S \<longrightarrow> distinct (env_order env me k S) \<and> set (env_order env me k S) = S)"

definition arrivals_within :: "simEnv \<Rightarrow> serverConfig \<Rightarrow> int \<Rightarrow> bool" where
  "arrivals_within env cfg b \<longleftrightarrow>
     (\<forall>i k. \<exists>z. f_to_int (f_div (env_exp env i k) (blockArrivalIntv cfg)) = Inr z \<and> 0 \<le> z \<and> z \<le> b)"

definition net_ok :: "netSpec \<Rightarrow> bool" where
  "net_ok K \<longleftrightarrow>
     noCollision (net_sip K) (net_N K) \<and> int (net_N K) \<le> decoderMemory (net_cfg K) \<and>
     0 \<le> net_b K \<and> 0 \<le> sint (net_m K) \<and> net_bound K < 2 ^ 63 \<and>
     orders_keys (net_env K) \<and> arrivals_within (net_env K) (net_cfg K) (net_b K) \<and>
     0 \<le> sint (forceSynchronize (net_cfg K)) \<and> sint (forceSynchronize (net_cfg K)) \<le> net_b K \<and>
     (\<forall>i j. net_edge K i j \<longrightarrow> net_edge K j i \<and> i < net_size K)"

definition linkPayload :: "netSpec \<Rightarrow> (u32 \<Rightarrow> simTransaction) \<Rightarrow> nat \<Rightarrow> simPayload \<Rightarrow> bool" where
  "linkPayload K truth g pl \<longleftrightarrow>
     (case pl of SimCodeword cw \<Rightarrow> honestCodeword (net_sip K) truth g cw | SimAck a \<Rightarrow> True | _ \<Rightarrow> False)"

text \<open>\<open>d\<close> bounds the length of the buffers; it counts deliveries.\<close>

definition peer_ok ::
  "netSpec \<Rightarrow> (u32 \<Rightarrow> simTransaction) \<Rightarrow> nat \<Rightarrow> nat \<Rightarrow> simTransaction ltDecoder \<Rightarrow> simPeer \<Rightarrow> bool" where
  "peer_ok K truth g d p h \<longleftrightarrow>
     sender_ready (sender_of h) \<and> sender_genuine (net_sip K) truth g (sender_of h) \<and> length (sbuffer (sender_of h)) \<le> d \<and>
     receiver_ready p (receiver_of h) \<and> length (curCodewords (receiver_of h)) \<le> d \<and>
     (\<forall>pl\<in>set (soutbox (sender_of h)) \<union> set (routbox (receiver_of h)). linkPayload K truth g pl) \<and>
     0 \<le> sint (pdelay h) \<and> sint (pdelay h) \<le> net_b K"

definition limiter_within :: "netSpec \<Rightarrow> int \<Rightarrow> nat \<Rightarrow> rateLimiter \<Rightarrow> bool" where
  "limiter_within K t c r \<longleftrightarrow>
     minInterval r = net_m K \<and> 0 \<le> sint (lastScheduled r) \<and> sint (lastScheduled r) \<le> t + int c * sint (net_m K)"

definition server_ok ::
  "netSpec \<Rightarrow> (u32 \<Rightarrow> simTransaction) \<Rightarrow> nat \<Rightarrow> nat \<Rightarrow> int \<Rightarrow> serverId \<Rightarrow> simServer \<Rightarrow> bool" where
  "server_ok K truth g d t me s \<longleftrightarrow>
     config s = net_cfg K \<and> dhasher (decoder s) = net_sip K \<and> memory (decoder s) = decoderMemory (net_cfg K) \<and>
     (\<exists>G os. server_knows truth (hashesBelow (net_sip K) g) G os s) \<and>
     dom (handlers s) = {p. net_edge K me p} \<and>
     (\<forall>p h. handlers s p = Some h \<longrightarrow> peer_ok K truth g d (decoder s) h) \<and>
     limiter_within K t (card (received s)) (forwardRateLimiter s)"

lemma peer_ok_mono:
  assumes "peer_ok K truth g d p h" "extends (net_sip K) truth g truth' g'" "d \<le> d'" "length (cwHeap p) \<le> length (cwHeap p')"
  shows "peer_ok K truth' g' d' p' h"
proof -
  have "linkPayload K truth' g' pl" if "linkPayload K truth g pl" for pl
    using that honestCodeword_mono [OF _ assms(2)] by (auto simp: linkPayload_def split: simPayload.splits)
  moreover have "receiver_ready p' (receiver_of h)"
    using assms(1,4) by (auto simp: peer_ok_def receiver_ready_def)
  moreover have "sender_genuine (net_sip K) truth' g' (sender_of h)"
    using assms(1) sender_genuine_mono [OF _ assms(2)] by (simp add: peer_ok_def)
  ultimately show ?thesis using assms(1,3) by (auto simp: peer_ok_def)
qed

lemma limiter_within_mono:
  assumes "limiter_within K t c r" "t \<le> t'" "c \<le> c'" "0 \<le> sint (net_m K)"
  shows "limiter_within K t' c' r"
proof -
  have "int c * sint (net_m K) \<le> int c' * sint (net_m K)" using assms(3,4) by (intro mult_right_mono) simp_all
  then show ?thesis using assms(1,2) unfolding limiter_within_def by linarith
qed

lemma server_ok_mono:
  assumes "server_ok K truth g d t me s" "net_ok K" "extends (net_sip K) truth g truth' g'" "truthful (net_sip K) truth' g'"
    and "g' \<le> net_N K" "d \<le> d'" "t \<le> t'"
  shows "server_ok K truth' g' d' t' me s"
proof -
  have n: "noCollision (net_sip K) (net_N K)" "int (net_N K) \<le> decoderMemory (net_cfg K)" "0 \<le> sint (net_m K)"
    using assms(2) by (simp_all add: net_ok_def)
  have s: "dhasher (decoder s) = net_sip K" "memory (decoder s) = decoderMemory (net_cfg K)"
    using assms(1) by (simp_all add: server_ok_def)
  obtain G os where "server_knows truth (hashesBelow (net_sip K) g) G os s" using assms(1) unfolding server_ok_def by blast
  then have "server_knows truth' (hashesBelow (net_sip K) g') G os s"
    using server_knows_mono [OF _ assms(3,4) n(1) assms(5) s(1)] n(2) s(2) by simp
  moreover have "limiter_within K t' (card (received s)) (forwardRateLimiter s)"
    using assms(1,7) limiter_within_mono [OF _ _ order.refl n(3)] unfolding server_ok_def by blast
  moreover have "peer_ok K truth' g' d' (decoder s) h" if "handlers s p = Some h" for p h
    using assms(1) that peer_ok_mono [OF _ assms(3,6) order.refl] unfolding server_ok_def by blast
  ultimately show ?thesis using assms(1) unfolding server_ok_def by blast
qed

text \<open>A server has registered no more than was generated.\<close>

lemma received_bound:
  assumes "server_ok K truth g d t me s" "net_ok K" "g \<le> net_N K"
  shows "finite (received s)" "card (received s) \<le> g" "received s \<subseteq> truth ` hashesBelow (net_sip K) g"
proof -
  obtain G os where k: "server_knows truth (hashesBelow (net_sip K) g) G os s" using assms(1) unfolding server_ok_def by blast
  have r: "received s = truth ` dom (receivedTransactions (decoder s))"
    "dom (receivedTransactions (decoder s)) \<subseteq> hashesBelow (net_sip K) g"
    using k by (simp_all add: server_knows_def exact_def remembers_def)
  have h: "finite (hashesBelow (net_sip K) g)" "card (hashesBelow (net_sip K) g) = g"
    using hashesBelow_facts(1,2) [OF _ assms(3)] assms(2) by (simp_all add: net_ok_def)
  show "received s \<subseteq> truth ` hashesBelow (net_sip K) g" using r by blast
  have "finite (dom (receivedTransactions (decoder s)))" "card (dom (receivedTransactions (decoder s))) \<le> g"
    using finite_subset [OF r(2) h(1)] card_mono [OF h(1) r(2)] h(2) by simp_all
  then show "finite (received s)" "card (received s) \<le> g"
    using card_image_le [of "dom (receivedTransactions (decoder s))" truth] unfolding r(1) by auto
qed

section \<open>Forwarding\<close>

text \<open>Scheduling \<open>txs\<close> keeps the limiter within its bound and asks for bounded delays.\<close>

lemma schedule_within:
  assumes lim: "limiter_within K (sint ts) c (forwardRateLimiter s)" and K: "net_ok K"
    and n: "c + length txs \<le> net_N K" and ts: "0 \<le> sint ts" "sint ts + net_bound K < 2 ^ 63"
  shows "\<exists>r msgs. scheduleForwardingTransactions s out txs ts = (s\<lparr>forwardRateLimiter := r\<rparr>, out @ msgs) \<and>
    limiter_within K (sint ts) (c + length txs) r \<and>
    (\<forall>v\<in>set msgs. To v = None \<and> 0 \<le> sint (Delay v) \<and> sint (Delay v) \<le> net_bound K \<and> (\<exists>tx\<in>set txs. Payload v = Loopback tx))"
proof -
  let ?r = "forwardRateLimiter s" and ?m = "sint (net_m K)"
  have l: "minInterval ?r = net_m K" "0 \<le> sint (lastScheduled ?r)" "sint (lastScheduled ?r) \<le> sint ts + int c * ?m"
    using lim by (simp_all add: limiter_within_def)
  have m: "0 \<le> ?m" "0 \<le> net_b K" using K by (simp_all add: net_ok_def)
  have first: "sint ts \<le> firstSlot ?r ts" "firstSlot ?r ts \<le> sint ts + int (c + 1) * ?m"
  proof -
    show "sint ts \<le> firstSlot ?r ts" by (simp add: firstSlot_def)
    have "int (c + 1) * ?m = int c * ?m + ?m" by (simp add: algebra_simps)
    moreover have "0 \<le> int (c + 1) * ?m" using m(1) by simp
    ultimately show "firstSlot ?r ts \<le> sint ts + int (c + 1) * ?m" using l by (simp add: firstSlot_def)
  qed
  have slot: "firstSlot ?r ts + int i * ?m \<le> sint ts + int (c + 1 + i) * ?m" for i
    using first(2) by (simp add: algebra_simps)
  have bnd: "int k * ?m \<le> net_bound K" if "k \<le> 2 * net_N K + 1" for k
  proof -
    have "int k * ?m \<le> (2 * int (net_N K) + 1) * ?m" using that m(1) by (intro mult_right_mono) simp_all
    then show ?thesis using m(2) by (simp add: net_bound_def)
  qed
  have "firstSlot ?r ts + int (length txs) * ?m < 2 ^ 63"
    using slot [of "length txs"] bnd [of "c + 1 + length txs"] n ts(2) by linarith
  then have "limiter_ok ?r ts (length txs)" using ts(1) l m(1) by (simp add: limiter_ok_def)
  from scheduleForwarding_spec [OF this, of out] obtain s' msgs where sch:
    "scheduleForwardingTransactions s out txs ts = (s', out @ msgs)" "length msgs = length txs"
    "\<forall>i<length txs. Payload (msgs ! i) = Loopback (txs ! i) \<and> To (msgs ! i) = None \<and>
       sint ts + sint (Delay (msgs ! i)) = firstSlot ?r ts + int i * sint (minInterval ?r)"
    "minInterval (forwardRateLimiter s') = minInterval ?r"
    "sint (lastScheduled (forwardRateLimiter s')) =
      (if txs = [] then sint (lastScheduled ?r) else firstSlot ?r ts + int (length txs - 1) * sint (minInterval ?r))"
    "s' = s\<lparr>forwardRateLimiter := forwardRateLimiter s'\<rparr>" by blast
  have "To v = None \<and> 0 \<le> sint (Delay v) \<and> sint (Delay v) \<le> net_bound K \<and> (\<exists>tx\<in>set txs. Payload v = Loopback tx)"
    if v: "v \<in> set msgs" for v
  proof -
    obtain i where i: "i < length txs" "v = msgs ! i" using v sch(2) by (metis in_set_conv_nth)
    have "0 \<le> int i * ?m" using m(1) by simp
    moreover have d: "sint ts + sint (Delay v) = firstSlot ?r ts + int i * ?m" using sch(3) i l(1) by simp
    ultimately have "0 \<le> sint (Delay v)" using first(1) by linarith
    moreover have "sint (Delay v) \<le> net_bound K" using d slot [of i] bnd [of "c + 1 + i"] i(1) n by linarith
    moreover have "To v = None" "Payload v = Loopback (txs ! i)" using sch(3) i by simp_all
    ultimately show ?thesis using nth_mem [OF i(1)] by blast
  qed
  moreover have "limiter_within K (sint ts) (c + length txs) (forwardRateLimiter s')"
  proof (cases "txs = []")
    case True
    then show ?thesis using sch(4,5) l by (simp add: limiter_within_def)
  next
    case False
    have eq: "c + 1 + (length txs - 1) = c + length txs" using False by (cases txs) simp_all
    have "0 \<le> int (length txs - 1) * ?m" using m(1) by simp
    then show ?thesis using sch(4,5) l(1) slot [of "length txs - 1", unfolded eq] first(1) ts(1) False
      by (simp add: limiter_within_def)
  qed
  moreover have "scheduleForwardingTransactions s out txs ts = (s\<lparr>forwardRateLimiter := forwardRateLimiter s'\<rparr>, out @ msgs)"
    using sch(1) unfolding sch(6) [symmetric] .
  ultimately show ?thesis by blast
qed

section \<open>Generating transactions\<close>

text \<open>The invariant after a new decoder state that knows more.\<close>

lemma server_ok_decoder:
  assumes "server_ok K truth g d t me s" "server_knows truth (hashesBelow (net_sip K) g) G os s'"
    and "s' = s\<lparr>decoder := p', received := rc\<rparr>" "dhasher p' = dhasher (decoder s)" "memory p' = memory (decoder s)"
    and "length (cwHeap p') = length (cwHeap (decoder s))" "card (received s) \<le> card rc" "0 \<le> sint (net_m K)"
  shows "server_ok K truth g d t me s'"
proof -
  have "peer_ok K truth g d p' h" if "handlers s q = Some h" for q h
    using assms(1,6) that peer_ok_mono [OF _ extends_refl order.refl, of K truth g d "decoder s" h p']
    unfolding server_ok_def by simp
  moreover have "limiter_within K t (card rc) (forwardRateLimiter s)"
    using assms(1) limiter_within_mono [OF _ order.refl assms(7,8)] unfolding server_ok_def by blast
  moreover have "\<exists>G os. server_knows truth (hashesBelow (net_sip K) g) G os (s\<lparr>decoder := p', received := rc\<rparr>)"
    using assms(2,3) by blast
  ultimately show ?thesis using assms(1,4,5) unfolding server_ok_def assms(3) by simp
qed

lemma new_index:
  assumes "server_ok K truth g d t me s" "net_ok K" "truthful (net_sip K) truth g" "g < net_N K" "tidx x = of_nat g"
  shows "x \<notin> received s"
proof
  assume "x \<in> received s"
  then obtain i where i: "i < g" "x = truth (hashOf (net_sip K) i)"
    using received_bound(3) [OF assms(1,2)] assms(4) by (fastforce simp: hashesBelow_def)
  then have "(of_nat i :: u64) = of_nat g" using assms(3,5) by (simp add: truthful_def)
  then have "unat (of_nat i :: u64) = unat (of_nat g :: u64)" by simp
  moreover have "g \<le> 2 ^ 32" using noCollision_bound assms(2,4) by (fastforce simp: net_ok_def)
  ultimately show False using i(1) by (simp add: unsigned_of_nat take_bit_nat_eq_self)
qed

lemma decoder_adds_new:
  assumes "server_knows truth H G os s" "h = salted (dhasher (decoder s)) (hash tx)" "h \<notin> H"
  shows "\<exists>p'. lt_Decoder_AddTransaction simOps (decoder s) tx = Some (Inr (p', [])) \<and> lt_ok p' \<and>
    dhasher p' = dhasher (decoder s) \<and> memory p' = memory (decoder s) \<and> length (cwHeap p') = length (cwHeap (decoder s))"
proof -
  have k: "lt_ok (decoder s)" "agrees simOps truth H (decoder s)" "dom (receivedTransactions (decoder s)) \<subseteq> H"
    using assms(1) by (simp_all add: server_knows_def exact_def remembers_def)
  show ?thesis
  proof (rule AddTransaction_cases [OF k(1) assms(2), of simOps])
    fix e assume "receivedTransactions (decoder s) h = Some e"
    then show ?thesis using k(3) assms(3) by blast
  next
    fix rc rv assume "lt_Decoder_AddTransaction simOps (decoder s) tx =
      Some (Inr ((decoder s)\<lparr>recentTransactions := rc, receivedTransactions := rv\<rparr>, []))"
      "lt_ok ((decoder s)\<lparr>recentTransactions := rc, receivedTransactions := rv\<rparr>)"
    then show ?thesis
      by (intro exI [of _ "(decoder s)\<lparr>recentTransactions := rc, receivedTransactions := rv\<rparr>"]) simp
  next
    fix tt assume tt: "live (decoder s) tt" "hash_of (decoder s) tt = h"
    have "hash_of (decoder s) tt \<in> H" using k(2) tt(1) by (auto simp: agrees_def live_def)
    then show ?thesis using tt(2) assms(3) by simp
  qed
qed

lemma arriveOne_spec:
  assumes K: "net_ok K" and s: "server_ok K truth g d t me s" and tr: "truthful (net_sip K) truth g" and g: "g < net_N K"
    and gen: "next_of txgen = of_nat g"
  shows "\<exists>truth' txgen' s' tx. arriveOne ts txgen s = Some (Inr (txgen', s', tx)) \<and> next_of txgen' = of_nat (Suc g) \<and>
    extends (net_sip K) truth g truth' (Suc g) \<and> truthful (net_sip K) truth' (Suc g) \<and>
    server_ok K truth' (Suc g) d t me s' \<and> honestTx (net_sip K) truth' (Suc g) tx \<and>
    forwardRateLimiter s' = forwardRateLimiter s \<and> card (received s') = Suc (card (received s))"
proof -
  define x where "x = \<lparr>tidx = next_of txgen, tts = ts\<rparr>"
  define tx :: simTx where "tx = \<lparr>data = x, hash = simTransaction_Hash x\<rparr>"
  let ?sip = "net_sip K" and ?h = "hashOf (net_sip K) g"
  define truth' where "truth' = truth(?h := x)"
  have x: "tidx x = of_nat g" by (simp add: x_def gen)
  have nc: "noCollision ?sip (net_N K)" "0 \<le> sint (net_m K)" using K by (simp_all add: net_ok_def)
  have h: "salted ?sip (hash tx) = ?h" unfolding tx_def using hash_index [of x] x by (simp add: hashOf_def)
  have ext: "extends ?sip truth g truth' (Suc g)" "truthful ?sip truth' (Suc g)"
    unfolding truth'_def using extends_next [OF tr nc(1) g x] by blast+
  have s1: "server_ok K truth' (Suc g) d t me s"
    using server_ok_mono [OF s K ext] g by simp
  obtain G os where k0: "server_knows truth (hashesBelow ?sip g) G os s" using s unfolding server_ok_def by blast
  have p: "dhasher (decoder s) = ?sip" "int (net_N K) \<le> memory (decoder s)"
    using s K by (simp_all add: server_ok_def net_ok_def)
  have k1: "server_knows truth' (hashesBelow ?sip (Suc g)) G os s"
    using server_knows_mono [OF k0 ext nc(1) _ p] g by simp
  have new: "?h \<notin> hashesBelow ?sip g" using hashesBelow_facts(3) [OF nc(1) _ g] g by simp
  obtain p' where p': "lt_Decoder_AddTransaction simOps (decoder s) tx = Some (Inr (p', []))" "lt_ok p'"
    "dhasher p' = dhasher (decoder s)" "memory p' = memory (decoder s)" "length (cwHeap p') = length (cwHeap (decoder s))"
    using decoder_adds_new [OF k0, of ?h tx] new h p(1) by metis
  have hon: "honestTx ?sip truth' (Suc g) tx"
    unfolding honestTx_def honest_tx_def h by (simp add: hashesBelow_def true_tx_def truth'_def tx_def)
  have "exact simOps truth' (hashesBelow ?sip (Suc g)) (insert ?h G) os p' \<and>
    learns simOps truth' (dom (receivedTransactions (decoder s))) {?h} (dom (receivedTransactions p')) []"
    using exact_given [OF simTx.data_laws_axioms _ _ _ _ p'(1), of truth' "hashesBelow ?sip (Suc g)" G os ?h] k1 hon h p(1)
    by (simp add: server_knows_def honestTx_def)
  then have ex: "exact simOps truth' (hashesBelow ?sip (Suc g)) (insert ?h G) os p'"
    "dom (receivedTransactions p') = insert ?h (dom (receivedTransactions (decoder s)))" by (simp_all add: learns_def)
  have nrec: "x \<notin> received s" by (rule new_index [OF s K tr g x])
  have fin: "finite (received s)" using received_bound(1) [OF s K] g by simp
  have at: "truth' ?h = x" by (simp add: truth'_def)
  let ?s = "s\<lparr>decoder := p', received := insert x (received s)\<rparr>"
  have "server_knows truth' (hashesBelow ?sip (Suc g)) (insert ?h G) os ?s"
    using k1 ex p'(2) at by (simp add: server_knows_def)
  then have ok: "server_ok K truth' (Suc g) d t me ?s"
    using server_ok_decoder [OF s1 _ refl p'(3-5) _ nc(2)] fin nrec by simp
  have "sim_generate txgen ts = (txgen\<lparr>next_of := next_of txgen + 1\<rparr>, tx)"
    by (simp add: sim_generate_def Let_def NewTransaction_eq [OF simTx.data_laws_axioms] tx_def x_def)
  then have "arriveOne ts txgen s = Some (Inr (txgen\<lparr>next_of := next_of txgen + 1\<rparr>, ?s, tx))"
    using p'(1) nrec by (simp add: arriveOne_def registerReceived_def tx_def)
  then show ?thesis using ok hon ext fin nrec
    by (intro exI [of _ truth'] exI [of _ "txgen\<lparr>next_of := next_of txgen + 1\<rparr>"] exI [of _ ?s] exI [of _ tx])
      (simp add: gen add.commute)
qed

lemma arriveMany_spec:
  assumes "net_ok K" "server_ok K truth g d t me s" "truthful (net_sip K) truth g" "g + n \<le> net_N K" "next_of txgen = of_nat g"
    and "\<forall>tx\<in>set txs. honestTx (net_sip K) truth g tx"
  shows "\<exists>truth' txgen' s' txs'. arriveMany ts n txgen s txs = Some (Inr (txgen', s', txs @ txs')) \<and>
    length txs' = n \<and> next_of txgen' = of_nat (g + n) \<and>
    extends (net_sip K) truth g truth' (g + n) \<and> truthful (net_sip K) truth' (g + n) \<and>
    server_ok K truth' (g + n) d t me s' \<and> (\<forall>tx\<in>set (txs @ txs'). honestTx (net_sip K) truth' (g + n) tx) \<and>
    forwardRateLimiter s' = forwardRateLimiter s \<and> card (received s') = card (received s) + n"
  using assms(2-)
proof (induction n arbitrary: truth g txgen s txs)
  case 0
  then show ?case by (intro exI [of _ truth] exI [of _ txgen] exI [of _ s] exI [of _ "[]"]) simp
next
  case (Suc n)
  have g: "g < net_N K" using Suc.prems(3) by simp
  obtain truth1 txgen1 s1 tx where one: "arriveOne ts txgen s = Some (Inr (txgen1, s1, tx))" "next_of txgen1 = of_nat (Suc g)"
    "extends (net_sip K) truth g truth1 (Suc g)" "truthful (net_sip K) truth1 (Suc g)" "server_ok K truth1 (Suc g) d t me s1"
    "honestTx (net_sip K) truth1 (Suc g) tx" "forwardRateLimiter s1 = forwardRateLimiter s"
    "card (received s1) = Suc (card (received s))"
    using arriveOne_spec [OF assms(1) Suc.prems(1,2) g Suc.prems(4)] by blast
  have hon: "\<forall>y\<in>set (txs @ [tx]). honestTx (net_sip K) truth1 (Suc g) y"
    using Suc.prems(5) one(6) honestTx_mono [OF _ one(3)] by auto
  have le: "Suc g + n \<le> net_N K" using Suc.prems(3) by simp
  obtain truth2 txgen2 s2 txs2 where rest: "arriveMany ts n txgen1 s1 (txs @ [tx]) = Some (Inr (txgen2, s2, (txs @ [tx]) @ txs2))"
    "length txs2 = n" "next_of txgen2 = of_nat (Suc g + n)" "extends (net_sip K) truth1 (Suc g) truth2 (Suc g + n)"
    "truthful (net_sip K) truth2 (Suc g + n)" "server_ok K truth2 (Suc g + n) d t me s2"
    "\<forall>y\<in>set ((txs @ [tx]) @ txs2). honestTx (net_sip K) truth2 (Suc g + n) y"
    "forwardRateLimiter s2 = forwardRateLimiter s1" "card (received s2) = card (received s1) + n"
    using Suc.IH [OF one(5,4) le one(2) hon] by blast
  have run: "arriveMany ts (Suc n) txgen s txs = Some (Inr (txgen2, s2, txs @ (tx # txs2)))" using one(1) rest(1) by simp
  have g': "g + Suc n = Suc g + n" by simp
  show ?case unfolding g'
    by (intro exI [of _ truth2] exI [of _ txgen2] exI [of _ s2] exI [of _ "tx # txs2"] conjI run
        extends_trans [OF one(3) rest(4)] rest(3,5,6))
      (use rest one(7,8) in simp_all)
qed

section \<open>The links of a server\<close>

lemma server_knows_irrelevant [simp]:
  "server_knows truth H G os (s\<lparr>handlers := hs\<rparr>) = server_knows truth H G os s"
  "server_knows truth H G os (s\<lparr>forwardRateLimiter := r\<rparr>) = server_knows truth H G os s"
  "server_knows truth H G os (s\<lparr>rangeCount := k\<rparr>) = server_knows truth H G os s"
  "server_knows truth H G os (s\<lparr>expCount := k\<rparr>) = server_knows truth H G os s"
  "server_knows truth H G os (s\<lparr>overlapSketch := sk\<rparr>) = server_knows truth H G os s"
  by (simp_all add: server_knows_def)

lemma server_ok_irrelevant [simp]:
  "server_ok K truth g d t me (s\<lparr>rangeCount := k\<rparr>) = server_ok K truth g d t me s"
  "server_ok K truth g d t me (s\<lparr>expCount := k\<rparr>) = server_ok K truth g d t me s"
  "server_ok K truth g d t me (s\<lparr>overlapSketch := sk\<rparr>) = server_ok K truth g d t me s"
  by (simp_all add: server_ok_def)

lemma server_ok_handlers:
  assumes "server_ok K truth g d t me s" "dom hs = dom (handlers s)"
    and "\<forall>p h. hs p = Some h \<longrightarrow> peer_ok K truth g d' (decoder s) h"
  shows "server_ok K truth g d' t me (s\<lparr>handlers := hs\<rparr>)"
  using assms unfolding server_ok_def by simp

lemma server_ok_limiter:
  assumes "server_ok K truth g d t me s" "limiter_within K t (card (received s)) r"
  shows "server_ok K truth g d t me (s\<lparr>forwardRateLimiter := r\<rparr>)"
  using assms unfolding server_ok_def by simp

lemma edge_facts:
  assumes "net_ok K" "net_edge K i j"
  shows "net_edge K j i" "i < net_size K" "j < net_size K"
proof -
  have sym: "\<forall>i j. net_edge K i j \<longrightarrow> net_edge K j i \<and> i < net_size K" using assms(1) by (simp add: net_ok_def)
  show "net_edge K j i" "i < net_size K" using sym assms(2) by blast+
  show "j < net_size K" using sym assms(2) by blast
qed

lemma rangeHandlers_spec:
  assumes "server_ok K truth g d t me s" "net_ok K"
  shows "\<exists>ps. rangeHandlers (net_env K) me s = (s\<lparr>rangeCount := rangeCount s + 1\<rparr>, ps) \<and> distinct ps \<and>
    set ps = dom (handlers s)"
proof -
  have "finite (dom (handlers s))"
  proof (rule finite_subset)
    show "dom (handlers s) \<subseteq> {..<net_size K}" using assms(1) edge_facts(3) [OF assms(2)] by (auto simp: server_ok_def)
  qed simp
  then show ?thesis using assms(2) by (simp add: rangeHandlers_def net_ok_def orders_keys_def)
qed

lemma eachSender_spec:
  assumes "distinct ps" "set ps \<subseteq> dom (handlers s)" "\<forall>p h. handlers s p = Some h \<longrightarrow> p \<in> set ps \<longrightarrow> P h"
    and step: "\<And>h. P h \<Longrightarrow> \<exists>n'. f (sender_of h) = Some (Inr n') \<and> Q (h\<lparr>sender_of := n'\<rparr>)"
  shows "\<exists>hs. eachSender f ps s = Some (Inr (s\<lparr>handlers := hs\<rparr>)) \<and> dom hs = dom (handlers s) \<and>
    (\<forall>p h. hs p = Some h \<longrightarrow> (if p \<in> set ps then Q h else handlers s p = Some h))"
  using assms(1-3)
proof (induction ps arbitrary: s)
  case Nil
  then show ?case by (intro exI [of _ "handlers s"]) simp
next
  case (Cons p ps)
  obtain h where h: "handlers s p = Some h" using Cons.prems(2) by auto
  then obtain n' where n': "f (sender_of h) = Some (Inr n')" "Q (h\<lparr>sender_of := n'\<rparr>)" using Cons.prems(3) step by fastforce
  let ?s = "s\<lparr>handlers := (handlers s)(p \<mapsto> h\<lparr>sender_of := n'\<rparr>)\<rparr>"
  have d: "dom (handlers ?s) = dom (handlers s)" using h by auto
  have sub: "set ps \<subseteq> dom (handlers ?s)" unfolding d using Cons.prems(2) by simp
  have ph: "\<forall>q h. handlers ?s q = Some h \<longrightarrow> q \<in> set ps \<longrightarrow> P h" using Cons.prems(1,3) by auto
  have dis: "distinct ps" using Cons.prems(1) by simp
  obtain hs where hs: "eachSender f ps ?s = Some (Inr (?s\<lparr>handlers := hs\<rparr>))" "dom hs = dom (handlers ?s)"
    "\<forall>q h. hs q = Some h \<longrightarrow> (if q \<in> set ps then Q h else handlers ?s q = Some h)"
    using Cons.IH [OF dis sub ph] by blast
  have "eachSender f (p # ps) s = Some (Inr (s\<lparr>handlers := hs\<rparr>))" using hs(1) h n'(1) by (simp add: withPeer_def)
  moreover have "if q \<in> set (p # ps) then Q x else handlers s q = Some x" if "hs q = Some x" for q x
    using hs(3) that n'(2) Cons.prems(1) by (cases "q = p") (auto split: if_splits)
  ultimately show ?case using hs(2) d by blast
qed

text \<open>What an outgoing message may be.\<close>

definition mok :: "netSpec \<Rightarrow> (u32 \<Rightarrow> simTransaction) \<Rightarrow> nat \<Rightarrow> serverId option \<Rightarrow> serverId \<Rightarrow> simPayload \<Rightarrow> bool" where
  "mok K truth g from me pl \<longleftrightarrow>
     me < net_size K \<and>
     (case pl of
        SimCodeword cw \<Rightarrow> (\<exists>p. from = Some p \<and> net_edge K me p) \<and> honestCodeword (net_sip K) truth g cw
      | SimAck a \<Rightarrow> \<exists>p. from = Some p \<and> net_edge K me p
      | BlockArrival n \<Rightarrow> n = blockArrivalBurst (net_cfg K)
      | Loopback tx \<Rightarrow> honestTx (net_sip K) truth g tx
      | CreateNewBlock \<Rightarrow> True)"

definition out_ok :: "netSpec \<Rightarrow> (u32 \<Rightarrow> simTransaction) \<Rightarrow> nat \<Rightarrow> serverId \<Rightarrow> simMsg \<Rightarrow> bool" where
  "out_ok K truth g me v \<longleftrightarrow>
     0 \<le> sint (Delay v) \<and> sint (Delay v) \<le> net_bound K \<and> mok K truth g (Some me) (destination me v) (Payload v) \<and>
     (\<forall>cw. Payload v = SimCodeword cw \<longrightarrow> To v \<noteq> None)"

lemma mok_mono:
  assumes "mok K truth g from me pl" "extends (net_sip K) truth g truth' g'"
  shows "mok K truth' g' from me pl"
  using assms honestTx_mono [OF _ assms(2)] honestCodeword_mono [OF _ assms(2)]
  by (auto simp: mok_def split: simPayload.splits)

lemma collectFrom_spec:
  assumes "distinct ps" "set ps \<subseteq> dom (handlers s)" "\<forall>p h. handlers s p = Some h \<longrightarrow> peer_ok K truth g d (decoder s) h"
  shows "\<exists>hs msgs. collectFrom ps s out = Some (Inr (s\<lparr>handlers := hs\<rparr>, out @ msgs)) \<and> dom hs = dom (handlers s) \<and>
    (\<forall>p h. hs p = Some h \<longrightarrow> peer_ok K truth g d (decoder s) h) \<and>
    (\<forall>v\<in>set msgs. \<exists>p. To v = Some p \<and> p \<in> dom (handlers s) \<and> linkPayload K truth g (Payload v) \<and>
       0 \<le> sint (Delay v) \<and> sint (Delay v) \<le> net_b K)"
  using assms
proof (induction ps arbitrary: s out)
  case Nil
  then show ?case by (intro exI [of _ "handlers s"] exI [of _ "[]"]) simp
next
  case (Cons p ps)
  obtain h where h: "handlers s p = Some h" using Cons.prems(2) by auto
  then have hok: "peer_ok K truth g d (decoder s) h" using Cons.prems(3) by blast
  obtain new h' where e: "emptyOutbox p h = (new, h')" by (cases "emptyOutbox p h")
  have h'_eq: "h' = h\<lparr>sender_of := (sender_of h)\<lparr>soutbox := []\<rparr>, receiver_of := (receiver_of h)\<lparr>routbox := []\<rparr>\<rparr>"
    using e by (simp add: emptyOutbox_def Let_def)
  have h': "peer_ok K truth g d (decoder s) h'"
    using hok unfolding h'_eq peer_ok_def sender_ready_def sender_genuine_def receiver_ready_def by simp
  have new: "\<forall>v\<in>set new. To v = Some p \<and> linkPayload K truth g (Payload v) \<and> 0 \<le> sint (Delay v) \<and> sint (Delay v) \<le> net_b K"
  proof -
    have "new = map (\<lambda>m. \<lparr>Payload = m, To = Some p, Delay = pdelay h\<rparr>) (soutbox (sender_of h) @ routbox (receiver_of h))"
      using e by (auto simp: emptyOutbox_def Let_def)
    moreover have "\<forall>m\<in>set (soutbox (sender_of h) @ routbox (receiver_of h)). linkPayload K truth g m"
      using hok by (simp add: peer_ok_def)
    ultimately show ?thesis using hok by (auto simp: peer_ok_def)
  qed
  let ?s = "s\<lparr>handlers := (handlers s)(p \<mapsto> h')\<rparr>"
  have d: "dom (handlers ?s) = dom (handlers s)" using h by auto
  have sub: "set ps \<subseteq> dom (handlers ?s)" unfolding d using Cons.prems(2) by simp
  have pk: "\<forall>q x. handlers ?s q = Some x \<longrightarrow> peer_ok K truth g d (decoder ?s) x" using Cons.prems(3) h' by simp
  obtain hs msgs where r: "collectFrom ps ?s (out @ new) = Some (Inr (?s\<lparr>handlers := hs\<rparr>, (out @ new) @ msgs))"
    "dom hs = dom (handlers ?s)" "\<forall>q x. hs q = Some x \<longrightarrow> peer_ok K truth g d (decoder ?s) x"
    "\<forall>v\<in>set msgs. \<exists>q. To v = Some q \<and> q \<in> dom (handlers ?s) \<and> linkPayload K truth g (Payload v) \<and>
       0 \<le> sint (Delay v) \<and> sint (Delay v) \<le> net_b K"
    using Cons.IH [OF _ sub pk, of "out @ new"] Cons.prems(1) unfolding distinct.simps by blast
  have "collectFrom (p # ps) s out = Some (Inr (s\<lparr>handlers := hs\<rparr>, out @ (new @ msgs)))"
    using r(1) h e by (simp add: withPeer_def)
  moreover have "\<forall>v\<in>set (new @ msgs). \<exists>q. To v = Some q \<and> q \<in> dom (handlers s) \<and> linkPayload K truth g (Payload v) \<and>
       0 \<le> sint (Delay v) \<and> sint (Delay v) \<le> net_b K"
    using r(4) new h unfolding d by auto
  ultimately show ?case using r(2,3) unfolding d by (intro exI [of _ hs] exI [of _ "new @ msgs"]) simp
qed

lemma collect_spec:
  assumes "net_ok K" "server_ok K truth g d t me s" "\<forall>v\<in>set out. out_ok K truth g me v"
  shows "\<exists>s' out'. collectOutgoingMessages (net_env K) me s out = Some (Inr (s', out')) \<and> server_ok K truth g d t me s' \<and>
    (\<forall>v\<in>set out'. out_ok K truth g me v) \<and> overlapSketch s' = overlapSketch s"
proof -
  let ?s = "s\<lparr>rangeCount := rangeCount s + 1\<rparr>"
  obtain ps where ps: "rangeHandlers (net_env K) me s = (?s, ps)" "distinct ps" "set ps = dom (handlers s)"
    using rangeHandlers_spec [OF assms(2,1)] by blast
  have sub: "set ps \<subseteq> dom (handlers ?s)" using ps(3) by simp
  have pk: "\<forall>p h. handlers ?s p = Some h \<longrightarrow> peer_ok K truth g d (decoder ?s) h" using assms(2) by (simp add: server_ok_def)
  obtain hs msgs where r: "collectFrom ps ?s out = Some (Inr (?s\<lparr>handlers := hs\<rparr>, out @ msgs))" "dom hs = dom (handlers ?s)"
    "\<forall>p h. hs p = Some h \<longrightarrow> peer_ok K truth g d (decoder ?s) h"
    "\<forall>v\<in>set msgs. \<exists>p. To v = Some p \<and> p \<in> dom (handlers ?s) \<and> linkPayload K truth g (Payload v) \<and>
       0 \<le> sint (Delay v) \<and> sint (Delay v) \<le> net_b K"
    using collectFrom_spec [OF ps(2) sub pk, of out] by blast
  have b: "net_b K \<le> net_bound K" using assms(1) by (simp add: net_ok_def net_bound_def)
  have "out_ok K truth g me v" if v: "v \<in> set msgs" for v
  proof -
    obtain p where p: "To v = Some p" "p \<in> dom (handlers s)" "linkPayload K truth g (Payload v)" "0 \<le> sint (Delay v)"
      "sint (Delay v) \<le> net_b K" using bspec [OF r(4) v] by (simp add: dom_def) blast
    have "net_edge K me p" using p(2) assms(2) by (auto simp: server_ok_def)
    then have "net_edge K p me" "p < net_size K" using edge_facts [OF assms(1)] by blast+
    then have "mok K truth g (Some me) p (Payload v)"
      using p(3) by (auto simp: mok_def linkPayload_def split: simPayload.splits)
    then show ?thesis using p(1,4,5) b by (simp add: out_ok_def destination_def)
  qed
  moreover have "server_ok K truth g d t me (?s\<lparr>handlers := hs\<rparr>)"
    by (rule server_ok_handlers [of K truth g d t me ?s hs d, OF _ r(2,3)]) (simp add: assms(2))
  ultimately show ?thesis using r(1) ps(1) assms(3)
    by (intro exI [of _ "?s\<lparr>handlers := hs\<rparr>"] exI [of _ "out @ msgs"])
      (auto simp: collectOutgoingMessages_def)
qed

end
