(* ===== verification/Sim_Handler.thy ===== *)
theory Sim_Handler
  imports Sim_Invariant
begin

text \<open>
  The handler of a server of \<open>simulator/module.go\<close> keeps the invariant of the network, for every
  message that a server may be sent: it returns without a panic, and the messages it sends are
  again such messages.
\<close>

section \<open>The senders of a server\<close>

lemma peer_filled:
  assumes "peer_ok K truth g d p h" "filled (net_sip K) truth g n n'" "soutbox n = soutbox (sender_of h)"
    and "length (sbuffer n) \<le> d'" "d \<le> d'"
  shows "peer_ok K truth g d' p (h\<lparr>sender_of := n'\<rparr>)"
proof -
  obtain cws where cws: "soutbox n' = soutbox n @ map SimCodeword cws" "\<forall>cw\<in>set cws. honestCodeword (net_sip K) truth g cw"
    using assms(2) by (auto simp: filled_def)
  have "linkPayload K truth g pl" if "pl \<in> set (soutbox n')" for pl
    using that cws assms(1,3) by (auto simp: peer_ok_def linkPayload_def)
  then show ?thesis using assms by (auto simp: peer_ok_def filled_def)
qed

text \<open>A call on the senders of all links.\<close>

lemma all_senders:
  assumes "net_ok K" "server_ok K truth g d t me s"
    and "\<And>h. peer_ok K truth g d (decoder s) h \<Longrightarrow>
      \<exists>n'. f (sender_of h) = Some (Inr n') \<and> peer_ok K truth g d' (decoder s) (h\<lparr>sender_of := n'\<rparr>)"
    and "rangeHandlers (net_env K) me s = (s', ps)"
  shows "\<exists>s''. eachSender f ps s' = Some (Inr s'') \<and> server_ok K truth g d' t me s'' \<and> config s'' = config s"
proof -
  have ps: "s' = s\<lparr>rangeCount := rangeCount s + 1\<rparr>" "distinct ps" "set ps = dom (handlers s)"
    using rangeHandlers_spec [OF assms(2,1)] assms(4) by auto
  have P: "\<forall>p h. handlers s' p = Some h \<longrightarrow> p \<in> set ps \<longrightarrow> peer_ok K truth g d (decoder s) h"
    using assms(2) by (simp add: ps(1) server_ok_def)
  have sub: "set ps \<subseteq> dom (handlers s')" using ps by simp
  note each = eachSender_spec [where P = "peer_ok K truth g d (decoder s)" and Q = "peer_ok K truth g d' (decoder s)" and f = f,
      OF ps(2) sub P]
  obtain hs where hs: "eachSender f ps s' = Some (Inr (s'\<lparr>handlers := hs\<rparr>))" "dom hs = dom (handlers s')"
    "\<forall>p h. hs p = Some h \<longrightarrow> (if p \<in> set ps then peer_ok K truth g d' (decoder s) h else handlers s' p = Some h)"
    using each assms(3) by blast
  have "\<forall>p h. hs p = Some h \<longrightarrow> peer_ok K truth g d' (decoder s') h"
  proof (intro allI impI)
    fix p h assume h: "hs p = Some h"
    then have "p \<in> set ps" using hs(2) ps(1,3) by auto
    then show "peer_ok K truth g d' (decoder s') h" using hs(3) h ps(1) by auto
  qed
  moreover have "server_ok K truth g d t me s'" using assms(2) by (simp add: ps(1))
  ultimately have "server_ok K truth g d' t me (s'\<lparr>handlers := hs\<rparr>)" using server_ok_handlers hs(2) by blast
  then show ?thesis using hs(1) by (auto simp: ps(1))
qed

lemma loopback_spec:
  assumes K: "net_ok K" and s: "server_ok K truth g d t me s" and tx: "honestTx (net_sip K) truth g tx" and d: "d < 2 ^ 53 - 1"
  shows "\<exists>s'. forwardTransaction (net_env K) me s tx = Some (Inr s') \<and> server_ok K truth g (Suc d) t me s'"
proof -
  obtain s1 ps where r: "rangeHandlers (net_env K) me s = (s1, ps)" by (cases "rangeHandlers (net_env K) me s")
  have "\<exists>n'. sim_onTransaction (sender_of h) tx (canStartNewBlock s) = Some (Inr n') \<and>
      peer_ok K truth g (Suc d) (decoder s) (h\<lparr>sender_of := n'\<rparr>)" if h: "peer_ok K truth g d (decoder s) h" for h
  proof -
    let ?n = "(sender_of h)\<lparr>sbuffer := sbuffer (sender_of h) @ [tx]\<rparr>"
    have n: "sender_ready (sender_of h)" "sender_genuine (net_sip K) truth g (sender_of h)" "length (sbuffer (sender_of h)) \<le> d"
      using h by (simp_all add: peer_ok_def)
    have "length (sbuffer (sender_of h)) < 2 ^ 53 - 1" using n(3) d by simp
    then obtain n' where n': "sim_onTransaction (sender_of h) tx (canStartNewBlock s) = Some (Inr n')"
      "filled (net_sip K) truth g ?n n'" using onTransaction_genuine [OF n(1,2) tx] by blast
    have "peer_ok K truth g (Suc d) (decoder s) (h\<lparr>sender_of := n'\<rparr>)"
      by (rule peer_filled [OF h n'(2)]) (use n(3) in simp_all)
    then show ?thesis using n'(1) by blast
  qed
  from all_senders [OF K s this r] show ?thesis by (auto simp: forwardTransaction_def r)
qed

lemma newBlock_spec:
  assumes K: "net_ok K" and s: "server_ok K truth g d t me s" and r: "rangeHandlers (net_env K) me s = (s1, ps)"
  shows "\<exists>s'. eachSender (sim_tryFillSendWindow True) ps s1 = Some (Inr s') \<and> server_ok K truth g d t me s'"
proof -
  have "\<exists>n'. sim_tryFillSendWindow True (sender_of h) = Some (Inr n') \<and>
      peer_ok K truth g d (decoder s) (h\<lparr>sender_of := n'\<rparr>)" if h: "peer_ok K truth g d (decoder s) h" for h
  proof -
    have n: "sender_ready (sender_of h)" "sender_genuine (net_sip K) truth g (sender_of h)" "length (sbuffer (sender_of h)) \<le> d"
      using h by (simp_all add: peer_ok_def)
    then obtain n' where "sim_tryFillSendWindow True (sender_of h) = Some (Inr n')" "filled (net_sip K) truth g (sender_of h) n'"
      using fill_genuine by blast
    then show ?thesis using peer_filled [OF h _ refl n(3) order.refl] by blast
  qed
  from all_senders [OF K s this r] show ?thesis by blast
qed

lemma ack_spec:
  assumes K: "net_ok K" and s: "server_ok K truth g d t me s" and p: "net_edge K me p"
  shows "\<exists>s'. withPeer s p (\<lambda>h. bindO (sim_onAck (sender_of h) a can) (\<lambda>n. Some (Inr ((), h\<lparr>sender_of := n\<rparr>)))) = Some (Inr ((), s')) \<and>
    server_ok K truth g d t me s'"
proof -
  have "p \<in> dom (handlers s)" using s p by (simp add: server_ok_def)
  then obtain h where h: "handlers s p = Some h" by blast
  then have hok: "peer_ok K truth g d (decoder s) h" using s unfolding server_ok_def by blast
  have n: "sender_ready (sender_of h)" "sender_genuine (net_sip K) truth g (sender_of h)" "length (sbuffer (sender_of h)) \<le> d"
    using hok by (simp_all add: peer_ok_def)
  obtain n' where n': "sim_onAck (sender_of h) a can = Some (Inr n')" "filled (net_sip K) truth g (sender_of h) n'"
    using onAck_genuine [OF n(1,2)] by blast
  have h': "peer_ok K truth g d (decoder s) (h\<lparr>sender_of := n'\<rparr>)" by (rule peer_filled [OF hok n'(2) refl n(3) order.refl])
  let ?hs = "(handlers s)(p \<mapsto> h\<lparr>sender_of := n'\<rparr>)"
  have "\<forall>q x. ?hs q = Some x \<longrightarrow> peer_ok K truth g d (decoder s) x" using s h' unfolding server_ok_def by simp
  moreover have "dom ?hs = dom (handlers s)" using h by auto
  ultimately have "server_ok K truth g d t me (s\<lparr>handlers := ?hs\<rparr>)" using server_ok_handlers [OF s] by blast
  then show ?thesis using h n'(1) by (simp add: withPeer_def)
qed

section \<open>A block arrival\<close>

lemma nextArrival_spec:
  assumes "net_ok K" "config s = net_cfg K"
  shows "\<exists>i. nextArrival (net_env K) me s = Inr (s\<lparr>expCount := expCount s + 1\<rparr>, i) \<and> 0 \<le> sint i \<and> sint i \<le> net_b K"
proof -
  obtain z where z: "f_to_int (f_div (env_exp (net_env K) me (expCount s)) (blockArrivalIntv (net_cfg K))) = Inr z" "0 \<le> z" "z \<le> net_b K"
    using assms(1) unfolding net_ok_def arrivals_within_def by blast
  have "0 \<le> (2 * int (net_N K) + 1) * sint (net_m K)" "net_bound K < 2 ^ 63" using assms(1) by (simp_all add: net_ok_def)
  then have "z < 2 ^ 63" using z(3) by (simp add: net_bound_def)
  then have "sint (word_of_int z :: u64) = z" using z(2) by (intro sint_of_int) simp_all
  then show ?thesis using z assms(2) by (simp add: nextArrival_def)
qed

lemma net_b_le: "net_ok K \<Longrightarrow> net_b K \<le> net_bound K"
  by (simp add: net_ok_def net_bound_def)

lemma arrival_spec:
  assumes K: "net_ok K" and s: "server_ok K truth g d (sint ts) me s" and tr: "truthful (net_sip K) truth g"
    and g: "g + n \<le> net_N K" and gen: "next_of txgen = of_nat g" and ts: "0 \<le> sint ts" "sint ts + net_bound K < 2 ^ 63"
    and me: "me < net_size K"
  shows "\<exists>truth' txgen' s' out. 
    bindO (arriveMany ts n txgen s []) (\<lambda>(txgen, s, txs).
      let (s, outbox) = scheduleForwardingTransactions s [] txs ts in
      bindO (Some (nextArrival (net_env K) me s)) (\<lambda>(s, intv).
        Some (Inr (txgen, s, outbox @ [\<lparr>Payload = BlockArrival (blockArrivalBurst (config s)), To = None, Delay = intv\<rparr>])))) =
      Some (Inr (txgen', s', out)) \<and>
    next_of txgen' = of_nat (g + n) \<and> extends (net_sip K) truth g truth' (g + n) \<and> truthful (net_sip K) truth' (g + n) \<and>
    server_ok K truth' (g + n) d (sint ts) me s' \<and> (\<forall>v\<in>set out. out_ok K truth' (g + n) me v)"
proof -
  obtain truth' txgen' s1 txs where a: "arriveMany ts n txgen s [] = Some (Inr (txgen', s1, txs))" "length txs = n"
    "next_of txgen' = of_nat (g + n)" "extends (net_sip K) truth g truth' (g + n)" "truthful (net_sip K) truth' (g + n)"
    "server_ok K truth' (g + n) d (sint ts) me s1" "\<forall>tx\<in>set txs. honestTx (net_sip K) truth' (g + n) tx"
    "forwardRateLimiter s1 = forwardRateLimiter s" "card (received s1) = card (received s) + n"
    using arriveMany_spec [OF K s tr g gen, of "[]" ts] by auto
  have c: "card (received s) + length txs \<le> net_N K"
    using received_bound(2) [OF s K] g a(2) by simp
  have lim: "limiter_within K (sint ts) (card (received s)) (forwardRateLimiter s1)" using s a(8) by (simp add: server_ok_def)
  obtain r msgs where sch: "scheduleForwardingTransactions s1 [] txs ts = (s1\<lparr>forwardRateLimiter := r\<rparr>, msgs)"
    "limiter_within K (sint ts) (card (received s) + length txs) r"
    "\<forall>v\<in>set msgs. To v = None \<and> 0 \<le> sint (Delay v) \<and> sint (Delay v) \<le> net_bound K \<and> (\<exists>tx\<in>set txs. Payload v = Loopback tx)"
    using schedule_within [OF lim K c ts, of "[]"] by auto
  let ?s2 = "s1\<lparr>forwardRateLimiter := r\<rparr>"
  have s2: "server_ok K truth' (g + n) d (sint ts) me ?s2"
    by (rule server_ok_limiter [OF a(6)]) (use sch(2) a(2,9) in simp)
  then have cfg: "config ?s2 = net_cfg K" by (simp add: server_ok_def)
  obtain i where i: "nextArrival (net_env K) me ?s2 = Inr (?s2\<lparr>expCount := expCount ?s2 + 1\<rparr>, i)" "0 \<le> sint i" "sint i \<le> net_b K"
    using nextArrival_spec [OF K cfg] by blast
  let ?v = "\<lparr>Payload = BlockArrival (blockArrivalBurst (net_cfg K)), To = None, Delay = i\<rparr> :: simMsg"
  have "out_ok K truth' (g + n) me v" if v: "v \<in> set msgs" for v
  proof -
    have "To v = None" "0 \<le> sint (Delay v)" "sint (Delay v) \<le> net_bound K" "\<exists>tx\<in>set txs. Payload v = Loopback tx"
      using bspec [OF sch(3) v] by blast+
    then show ?thesis using a(7) me by (auto simp: out_ok_def mok_def destination_def)
  qed
  moreover have "out_ok K truth' (g + n) me ?v"
    using i(2,3) net_b_le [OF K] me by (simp add: out_ok_def mok_def destination_def)
  ultimately have out: "\<forall>v\<in>set (msgs @ [?v]). out_ok K truth' (g + n) me v" by simp
  have s3: "server_ok K truth' (g + n) d (sint ts) me (?s2\<lparr>expCount := expCount ?s2 + 1\<rparr>)" using s2 by (simp only: server_ok_irrelevant)
  have "config s1 = net_cfg K" using cfg by simp
  then show ?thesis using a(1) sch(1) i(1) by (intro exI [of _ truth'] exI [of _ txgen']
        exI [of _ "?s2\<lparr>expCount := expCount ?s2 + 1\<rparr>"] exI [of _ "msgs @ [?v]"] conjI a(3-5) s3 out)
      simp
qed

section \<open>A codeword\<close>

lemma limiter_within_ok:
  assumes "limiter_within K (sint ts) c r" "net_ok K" "c \<le> net_N K" "n \<le> net_N K" "0 \<le> sint ts" "sint ts + net_bound K < 2 ^ 63"
  shows "limiter_ok r ts n" "firstSlot r ts + int i * sint (net_m K) \<le> sint ts + int (c + 1 + i) * sint (net_m K)"
    "sint ts \<le> firstSlot r ts"
proof -
  let ?m = "sint (net_m K)"
  have l: "minInterval r = net_m K" "0 \<le> sint (lastScheduled r)" "sint (lastScheduled r) \<le> sint ts + int c * ?m"
    using assms(1) by (simp_all add: limiter_within_def)
  have m: "0 \<le> ?m" "0 \<le> net_b K" using assms(2) by (simp_all add: net_ok_def)
  show first: "sint ts \<le> firstSlot r ts" by (simp add: firstSlot_def)
  have nn: "0 \<le> int c * ?m" using m(1) by simp
  have slot: "firstSlot r ts \<le> sint ts + int c * ?m + ?m" using l m(1) nn by (simp add: firstSlot_def)
  then show "firstSlot r ts + int i * ?m \<le> sint ts + int (c + 1 + i) * ?m" by (simp add: algebra_simps)
  have "int (c + 1 + n) * ?m \<le> (2 * int (net_N K) + 1) * ?m" using assms(3,4) m(1) by (intro mult_right_mono) simp_all
  then have "int c * ?m + ?m + int n * ?m \<le> net_bound K" using m(2) by (simp add: net_bound_def algebra_simps)
  then show "limiter_ok r ts n" using slot assms(5,6) l m(1) by (simp add: limiter_ok_def)
qed

lemma codeword_spec:
  assumes K: "net_ok K" and s: "server_ok K truth g d (sint ts) me s" and g: "g \<le> net_N K"
    and ts: "0 \<le> sint ts" "sint ts + net_bound K < 2 ^ 63" and d: "d < 2 ^ 53 - 1" and me: "me < net_size K"
    and p: "net_edge K me p" and m: "honestCodeword (net_sip K) truth g m"
  shows "\<exists>s' out. handleCodeword p m ts s = Some (Inr (s', out)) \<and> server_ok K truth g (Suc d) (sint ts) me s' \<and>
    (\<forall>v\<in>set out. out_ok K truth g me v)"
proof -
  let ?H = "hashesBelow (net_sip K) g" and ?c = "card (received s)" and ?m = "sint (net_m K)"
  let ?A = "dom (receivedTransactions (decoder s))"
  have "p \<in> dom (handlers s)" using s p by (simp add: server_ok_def)
  then obtain h where h: "handlers s p = Some h" by blast
  have hok: "peer_ok K truth g d (decoder s) h" using s h unfolding server_ok_def by blast
  obtain G os where k: "server_knows truth ?H G os s" using s unfolding server_ok_def by blast
  have H: "finite ?H" "card ?H = g" using hashesBelow_facts(1,2) [OF _ g] K by (simp_all add: net_ok_def)
  have c: "?c \<le> g" by (rule received_bound(2) [OF s K g])
  have lim: "limiter_within K (sint ts) ?c (forwardRateLimiter s)" using s by (simp add: server_ok_def)
  have cN: "?c \<le> net_N K" using c g by simp
  have lok: "limiter_ok (forwardRateLimiter s) ts n" if "n \<le> card ?H" for n
    by (rule limiter_within_ok(1) [OF lim K cN _ ts]) (use that H(2) g in simp)
  have hr: "receiver_ready (decoder s) (receiver_of h)" "length (curCodewords (receiver_of h)) < 2 ^ 53 - 1"
    using hok d by (simp_all add: peer_ok_def)
  have hon: "honest_cw simOps truth ?H (Codeword_of m)" using m by (simp add: honestCodeword_def)
  obtain s' msgs hs r yes where r: "handleCodeword p m ts s = Some (Inr (s', msgs))"
    "server_knows truth ?H G (os @ [cw_members (Codeword_of m)]) s'" "distinct hs"
    "set hs = dom (receivedTransactions (decoder s')) - ?A"
    "map Payload msgs = map (\<lambda>h. Loopback (true_tx simOps truth h)) hs"
    "received s' = received s \<union> truth ` set hs" "handlers s' = (handlers s)(p \<mapsto> h\<lparr>receiver_of := r\<rparr>)"
    "routbox r = routbox (receiver_of h) @ [SimAck \<lparr>ackBlock = yes\<rparr>]" "receiver_ready (decoder s') r"
    "dhasher (decoder s') = dhasher (decoder s)" "memory (decoder s') = memory (decoder s)" "config s' = config s"
    "length (cwHeap (decoder s')) = Suc (length (cwHeap (decoder s)))"
    "length (curCodewords r) \<le> Suc (length (curCodewords (receiver_of h)))" "length msgs = length hs"
    "minInterval (forwardRateLimiter s') = minInterval (forwardRateLimiter s)"
    "sint (lastScheduled (forwardRateLimiter s')) =
      (if hs = [] then sint (lastScheduled (forwardRateLimiter s))
       else firstSlot (forwardRateLimiter s) ts + int (length hs - 1) * sint (minInterval (forwardRateLimiter s)))"
    "\<forall>i<length hs. To (msgs ! i) = None \<and>
       sint ts + sint (Delay (msgs ! i)) = firstSlot (forwardRateLimiter s) ts + int i * sint (minInterval (forwardRateLimiter s))"
    by (rule exE [OF handleCodeword_full [where t = ts, OF k hon h hr lok]], assumption, elim exE conjE, rule that; assumption)
  let ?B = "dom (receivedTransactions (decoder s'))"
  have kk: "inj_on truth ?H" "received s = truth ` ?A" "received s' = truth ` ?B" "?A \<subseteq> ?H" "?B \<subseteq> ?H"
    "hashes_to simOps (dhasher (decoder s')) truth ?H"
    using k r(2) by (simp_all add: server_knows_def exact_def remembers_def agrees_def)
  have hs: "set hs \<subseteq> ?H" "set hs \<inter> ?A = {}" using r(4) kk(5) by auto
  have "truth ` set hs \<inter> truth ` ?A = {}" using inj_on_image_Int [OF kk(1) hs(1) kk(4)] hs(2) by simp
  moreover have "card (truth ` set hs) = length hs"
    using card_image [OF inj_on_subset [OF kk(1) hs(1)]] distinct_card [OF r(3)] by simp
  moreover have "finite (truth ` ?A)" using kk(2) received_bound(1) [OF s K g] by simp
  ultimately have card: "card (received s') = ?c + length hs" unfolding r(6) kk(2) by (simp add: card_Un_disjoint Int_commute)
  have "card (truth ` ?B) \<le> card ?B" "card ?B \<le> g"
    using card_image_le [OF finite_subset [OF kk(5) H(1)]] card_mono [OF H(1) kk(5)] H(2) by simp_all
  then have "card (received s') \<le> g" unfolding kk(3) by (rule le_trans)
  then have cl: "?c + length hs \<le> g" unfolding card .
  have mI: "minInterval (forwardRateLimiter s) = net_m K" using lim by (simp add: limiter_within_def)
  note slot = limiter_within_ok(2) [OF lim K cN _ ts, of 0] and first = limiter_within_ok(3) [OF lim K cN _ ts, of 0]
  have m0: "0 \<le> ?m" "0 \<le> net_b K" using K by (simp_all add: net_ok_def)
  have newlim: "limiter_within K (sint ts) (card (received s')) (forwardRateLimiter s')"
  proof (cases "hs = []")
    case True
    then show ?thesis using r(16,17) lim unfolding card by (simp add: limiter_within_def)
  next
    case False
    have eq: "?c + 1 + (length hs - 1) = ?c + length hs" using False by (cases hs) simp_all
    have "0 \<le> int (length hs - 1) * ?m" using m0(1) by simp
    then show ?thesis using r(16,17) mI slot [of "length hs - 1", unfolded eq] first ts(1) False
      unfolding card by (simp add: limiter_within_def)
  qed
  have peer: "peer_ok K truth g (Suc d) (decoder s') (h\<lparr>receiver_of := r\<rparr>)"
    using hok r(8,9,14) by (auto simp: peer_ok_def linkPayload_def)
  have len: "length (cwHeap (decoder s)) \<le> length (cwHeap (decoder s'))" using r(13) by simp
  have others: "peer_ok K truth g (Suc d) (decoder s') x" if "handlers s q = Some x" for q x
    using s that peer_ok_mono [OF _ extends_refl _ len, of K truth g d x "Suc d"] unfolding server_ok_def by auto
  have "\<forall>q x. handlers s' q = Some x \<longrightarrow> peer_ok K truth g (Suc d) (decoder s') x"
    using peer others unfolding r(7) by simp
  moreover have "dom (handlers s') = {q. net_edge K me q}" using s h unfolding r(7) server_ok_def by auto
  moreover have "\<exists>G os. server_knows truth ?H G os s'" using r(2) by blast
  ultimately have "server_ok K truth g (Suc d) (sint ts) me s'"
    using s newlim r(10-12) unfolding server_ok_def by simp
  moreover have "out_ok K truth g me v" if v: "v \<in> set msgs" for v
  proof -
    obtain i where i: "i < length hs" "v = msgs ! i" using v r(15) by (metis in_set_conv_nth)
    have "Payload v = map Payload msgs ! i" using i r(15) by simp
    then have pl: "Payload v = Loopback (true_tx simOps truth (hs ! i))" unfolding r(5) using i by simp
    have x: "hs ! i \<in> ?H" using hs(1) i(1) by (meson nth_mem subsetD)
    have "salted (net_sip K) (hash (true_tx simOps truth (hs ! i))) = hs ! i"
      using kk(6) x s r(10) by (simp add: hashes_to_def true_tx_def server_ok_def)
    then have tx: "honestTx (net_sip K) truth g (true_tx simOps truth (hs ! i))"
      using x unfolding honestTx_def honest_tx_def by simp
    have dl: "To v = None" "sint ts + sint (Delay v) = firstSlot (forwardRateLimiter s) ts + int i * ?m"
      using r(18) i mI by simp_all
    have "0 \<le> int i * ?m" using m0(1) by simp
    then have "0 \<le> sint (Delay v)" using dl(2) first by linarith
    moreover have "int (?c + 1 + i) * ?m \<le> (2 * int (net_N K) + 1) * ?m"
      using i(1) cl g m0(1) by (intro mult_right_mono) simp_all
    then have "sint (Delay v) \<le> net_bound K" using dl(2) slot [of i] m0(2) by (simp add: net_bound_def)
    ultimately show ?thesis using pl dl(1) tx me by (simp add: out_ok_def mok_def destination_def)
  qed
  ultimately show ?thesis using r(1) by blast
qed

section \<open>Any message\<close>

text \<open>The transactions that a message generates, and what handling it achieves.\<close>

definition arrivals :: "simPayload \<Rightarrow> nat" where
  "arrivals pl = (case pl of BlockArrival n \<Rightarrow> nat n | _ \<Rightarrow> 0)"

definition handles ::
  "netSpec \<Rightarrow> (u32 \<Rightarrow> simTransaction) \<Rightarrow> nat \<Rightarrow> nat \<Rightarrow> duration \<Rightarrow> serverId \<Rightarrow> nat \<Rightarrow> (simGenerator \<times> simServer \<times> simMsg list) run \<Rightarrow> bool" where
  "handles K truth g d ts me n r \<longleftrightarrow>
     (\<exists>truth' txgen' s' out. r = Some (Inr (txgen', s', out)) \<and> next_of txgen' = of_nat (g + n) \<and>
        extends (net_sip K) truth g truth' (g + n) \<and> truthful (net_sip K) truth' (g + n) \<and>
        server_ok K truth' (g + n) (Suc d) (sint ts) me s' \<and> (\<forall>v\<in>set out. out_ok K truth' (g + n) me v))"

lemma handles_same:
  assumes "r = Some (Inr (txgen, s', out))" "next_of txgen = of_nat g" "truthful (net_sip K) truth g"
    and "server_ok K truth g (Suc d) (sint ts) me s'" "\<forall>v\<in>set out. out_ok K truth g me v"
  shows "handles K truth g d ts me 0 r"
  unfolding handles_def
  by (rule exI [of _ truth], rule exI [of _ txgen], rule exI [of _ s'], rule exI [of _ out]) (use assms in simp)

lemma server_ok_Suc:
  assumes "server_ok K truth g d t me s" "net_ok K" "truthful (net_sip K) truth g" "g \<le> net_N K"
  shows "server_ok K truth g (Suc d) t me s"
  by (rule server_ok_mono [OF assms(1,2) extends_refl assms(3,4)]) simp_all

lemma handlePayload_spec:
  assumes K: "net_ok K" and s: "server_ok K truth g d (sint ts) me s" and tr: "truthful (net_sip K) truth g"
    and gen: "next_of txgen = of_nat g" and g: "g + nat (blockArrivalBurst (net_cfg K)) \<le> net_N K"
    and ts: "0 \<le> sint ts" "sint ts + net_bound K < 2 ^ 63" and d: "d < 2 ^ 53 - 1"
    and m: "mok K truth g from me pl"
  shows "handles K truth g d ts me (arrivals pl) (handlePayload (net_env K) me pl from ts txgen s)"
proof -
  have me: "me < net_size K" using m by (simp add: mok_def)
  have gN: "g \<le> net_N K" using g by simp
  have cfg: "config s = net_cfg K" using s by (simp add: server_ok_def)
  note suc = server_ok_Suc [OF _ K tr gN]
  show ?thesis
  proof (cases pl)
    case (SimCodeword cw)
    then obtain p where p: "from = Some p" "net_edge K me p" "honestCodeword (net_sip K) truth g cw"
      using m by (auto simp: mok_def)
    obtain s' out where r: "handleCodeword p cw ts s = Some (Inr (s', out))" "server_ok K truth g (Suc d) (sint ts) me s'"
      "\<forall>v\<in>set out. out_ok K truth g me v" using codeword_spec [OF K s gN ts d me p(2,3)] by blast
    show ?thesis unfolding SimCodeword arrivals_def simPayload.case
      by (rule handles_same [OF _ gen tr r(2,3)]) (simp add: handlePayload_def p(1) r(1))
  next
    case (SimAck a)
    then obtain p where p: "from = Some p" "net_edge K me p" using m by (auto simp: mok_def)
    obtain s' where r: "withPeer s p (\<lambda>h. bindO (sim_onAck (sender_of h) a (canStartNewBlock s)) (\<lambda>n. Some (Inr ((), h\<lparr>sender_of := n\<rparr>)))) =
      Some (Inr ((), s'))" "server_ok K truth g d (sint ts) me s'" using ack_spec [OF K s p(2)] by blast
    show ?thesis unfolding SimAck arrivals_def simPayload.case
      by (rule handles_same [OF _ gen tr suc [OF r(2)]]) (simp add: handlePayload_def p(1) r(1), simp)
  next
    case (BlockArrival n)
    have n: "n = blockArrivalBurst (net_cfg K)" using m BlockArrival by (simp add: mok_def)
    have gn: "g + nat n \<le> net_N K" using g by (simp add: n)
    obtain truth' txgen' s' out where a: "handlePayload (net_env K) me pl from ts txgen s = Some (Inr (txgen', s', out))"
      "next_of txgen' = of_nat (g + nat n)" "extends (net_sip K) truth g truth' (g + nat n)"
      "truthful (net_sip K) truth' (g + nat n)" "server_ok K truth' (g + nat n) d (sint ts) me s'"
      "\<forall>v\<in>set out. out_ok K truth' (g + nat n) me v"
      using arrival_spec [OF K s tr gn gen ts me] unfolding BlockArrival handlePayload_def simPayload.case by blast
    have s'': "server_ok K truth' (g + nat n) (Suc d) (sint ts) me s'" by (rule server_ok_Suc [OF a(5) K a(4) gn])
    have ar: "arrivals pl = nat n" by (simp add: arrivals_def BlockArrival)
    show ?thesis unfolding handles_def ar a(1)
      by (rule exI [of _ truth'], rule exI [of _ txgen'], rule exI [of _ s'], rule exI [of _ out]) (intro conjI refl a(2-4,6) s'')
  next
    case (Loopback tx)
    then have tx: "honestTx (net_sip K) truth g tx" using m by (simp add: mok_def)
    obtain s' where r: "forwardTransaction (net_env K) me s tx = Some (Inr s')" "server_ok K truth g (Suc d) (sint ts) me s'"
      using loopback_spec [OF K s tx d] by blast
    show ?thesis unfolding Loopback arrivals_def simPayload.case
      by (rule handles_same [OF _ gen tr r(2)]) (simp add: handlePayload_def r(1), simp)
  next
    case CreateNewBlock
    obtain s1 ps where rg: "rangeHandlers (net_env K) me s = (s1, ps)" by (cases "rangeHandlers (net_env K) me s")
    obtain s' where r: "eachSender (sim_tryFillSendWindow True) ps s1 = Some (Inr s')" "server_ok K truth g d (sint ts) me s'"
      using newBlock_spec [OF K s rg] by blast
    have cfg': "config s' = net_cfg K" using r(2) by (simp add: server_ok_def)
    let ?out = "[\<lparr>Payload = CreateNewBlock, To = None, Delay = forceSynchronize (net_cfg K)\<rparr>] :: simMsg list"
    have "0 \<le> sint (forceSynchronize (net_cfg K))" "sint (forceSynchronize (net_cfg K)) \<le> net_bound K"
      using K net_b_le [OF K] by (simp_all add: net_ok_def)
    then have out: "\<forall>v\<in>set ?out. out_ok K truth g me v" using me by (simp add: out_ok_def mok_def destination_def)
    show ?thesis unfolding CreateNewBlock arrivals_def simPayload.case
      by (rule handles_same [OF _ gen tr suc [OF r(2)] out]) (simp add: handlePayload_def rg r(1) cfg')
  qed
qed

section \<open>All servers\<close>

definition world_ok :: "netSpec \<Rightarrow> (u32 \<Rightarrow> simTransaction) \<Rightarrow> nat \<Rightarrow> nat \<Rightarrow> int \<Rightarrow> simWorld \<Rightarrow> bool" where
  "world_ok K truth g d t w \<longleftrightarrow>
     length (servers w) = net_size K \<and> next_of (txgen_of w) = of_nat g \<and> g \<le> net_N K \<and> truthful (net_sip K) truth g \<and>
     (\<forall>i<net_size K. server_ok K truth g d t i (servers w ! i))"

text \<open>Recording the overlaps needs the handlers at both ends of a link.\<close>

lemma recordOverlaps_spec:
  assumes "net_ok K" "length ss = net_size K" "\<forall>i<net_size K. dom (handlers (ss ! i)) = {p. net_edge K i p}" "me < net_size K"
    and "\<forall>v\<in>set msgs. out_ok K truth g me v"
  shows "\<exists>sk. recordOverlaps me ts msgs ss = Inr (ss[me := (ss ! me)\<lparr>overlapSketch := sk\<rparr>])"
  using assms(2-)
proof (induction msgs arbitrary: ss)
  case Nil
  then show ?case by (intro exI [of _ "overlapSketch (ss ! me)"]) simp
next
  case (Cons v msgs)
  have step: "\<exists>sk. (case Payload v of
      SimCodeword cw \<Rightarrow>
        if newBlock cw then
          (case To v of None \<Rightarrow> Inl (Panic ''interface conversion'')
           | Some p \<Rightarrow> bindR (overlapOf ss me p) (\<lambda>ratio.
               Inr (ss[me := (ss ! me)\<lparr>overlapSketch := sim_recordRaw (overlapSketch (ss ! me)) ratio ts\<rparr>])))
        else Inr ss
    | _ \<Rightarrow> Inr ss) = Inr (ss[me := (ss ! me)\<lparr>overlapSketch := sk\<rparr>])"
  proof (cases "\<exists>cw. Payload v = SimCodeword cw \<and> newBlock cw")
    case True
    then obtain cw where cw: "Payload v = SimCodeword cw" "newBlock cw" by blast
    have o: "out_ok K truth g me v" using Cons.prems(4) by simp
    then obtain p where p: "To v = Some p" "net_edge K p me" using cw(1) by (auto simp: out_ok_def mok_def destination_def)
    then have e: "net_edge K me p" "p < net_size K" using edge_facts [OF assms(1)] by blast+
    then have "p \<in> dom (handlers (ss ! me))" "me \<in> dom (handlers (ss ! p))" using Cons.prems(2,3) p(2) by auto
    then obtain ratio where "overlapOf ss me p = Inr ratio"
      using Cons.prems(1,3) e(2) by (auto simp: overlapOf_def deref_def Let_def)
    then show ?thesis using cw p(1) by auto
  next
    case False
    then show ?thesis by (intro exI [of _ "overlapSketch (ss ! me)"]) (auto split: simPayload.splits)
  qed
  then obtain sk where sk: "recordOverlaps me ts (v # msgs) ss = recordOverlaps me ts msgs (ss[me := (ss ! me)\<lparr>overlapSketch := sk\<rparr>])"
    by auto
  let ?ss = "ss[me := (ss ! me)\<lparr>overlapSketch := sk\<rparr>]"
  have "\<forall>i<net_size K. dom (handlers (?ss ! i)) = {p. net_edge K i p}"
    using Cons.prems(1-3) by (auto simp: nth_list_update)
  then obtain sk' where "recordOverlaps me ts msgs ?ss = Inr (?ss[me := (?ss ! me)\<lparr>overlapSketch := sk'\<rparr>])"
    using Cons.IH [of ?ss] Cons.prems by auto
  then show ?case unfolding sk using Cons.prems(1,3) by auto
qed

lemma HandleMessage_spec:
  assumes K: "net_ok K" and w: "world_ok K truth g d t w" and tt: "t \<le> sint ts"
    and g: "g + nat (blockArrivalBurst (net_cfg K)) \<le> net_N K"
    and ts: "0 \<le> sint ts" "sint ts + net_bound K < 2 ^ 63" and d: "d < 2 ^ 53 - 1" and m: "mok K truth g from me pl"
  shows "\<exists>truth' w' out. sim_HandleMessage (net_env K) me pl from ts w = Some (Inr (w', out)) \<and>
    extends (net_sip K) truth g truth' (g + arrivals pl) \<and> world_ok K truth' (g + arrivals pl) (Suc d) (sint ts) w' \<and>
    (\<forall>v\<in>set out. out_ok K truth' (g + arrivals pl) me v)"
proof -
  have me: "me < net_size K" using m by (simp add: mok_def)
  have wf: "length (servers w) = net_size K" "next_of (txgen_of w) = of_nat g" "g \<le> net_N K" "truthful (net_sip K) truth g"
    "\<forall>i<net_size K. server_ok K truth g d t i (servers w ! i)" using w by (simp_all add: world_ok_def)
  have ar: "arrivals pl \<le> nat (blockArrivalBurst (net_cfg K))"
    using m by (auto simp: arrivals_def mok_def split: simPayload.splits)
  let ?g = "g + arrivals pl"
  have gN: "?g \<le> net_N K" using ar g by simp
  have s: "server_ok K truth g d (sint ts) me (servers w ! me)"
    by (rule server_ok_mono [OF _ K extends_refl wf(4,3) order.refl tt]) (use wf(5) me in blast)
  obtain truth' txgen' s1 out1 where p: "handlePayload (net_env K) me pl from ts (txgen_of w) (servers w ! me) = Some (Inr (txgen', s1, out1))"
    "next_of txgen' = of_nat ?g" "extends (net_sip K) truth g truth' ?g" "truthful (net_sip K) truth' ?g"
    "server_ok K truth' ?g (Suc d) (sint ts) me s1" "\<forall>v\<in>set out1. out_ok K truth' ?g me v"
    using handlePayload_spec [OF K s wf(4,2) g ts d m] unfolding handles_def by blast
  obtain s2 out where c: "collectOutgoingMessages (net_env K) me s1 out1 = Some (Inr (s2, out))"
    "server_ok K truth' ?g (Suc d) (sint ts) me s2" "\<forall>v\<in>set out. out_ok K truth' ?g me v"
    using collect_spec [OF K p(5,6)] by blast
  let ?ss = "(servers w)[me := s2]"
  have all: "server_ok K truth' ?g (Suc d) (sint ts) i (?ss ! i)" if i: "i < net_size K" for i
  proof (cases "i = me")
    case True
    then show ?thesis using c(2) me wf(1) by simp
  next
    case False
    have "server_ok K truth' ?g (Suc d) (sint ts) i (servers w ! i)"
      by (rule server_ok_mono [OF _ K p(3,4) gN _ tt]) (use wf(5) i in auto)
    then show ?thesis using False by simp
  qed
  have dm: "\<forall>i<net_size K. dom (handlers (?ss ! i)) = {p. net_edge K i p}" using all by (simp add: server_ok_def)
  have len: "length ?ss = net_size K" using wf(1) by simp
  obtain sk where sk: "recordOverlaps me ts out ?ss = Inr (?ss[me := (?ss ! me)\<lparr>overlapSketch := sk\<rparr>])"
    using recordOverlaps_spec [OF K len dm me c(3)] by blast
  define ss where "ss = (if overlapSketch s2 \<noteq> None then ?ss[me := (?ss ! me)\<lparr>overlapSketch := sk\<rparr>] else ?ss)"
  have all': "server_ok K truth' ?g (Suc d) (sint ts) i (ss ! i)" if i: "i < net_size K" for i
    using all [OF i] i wf(1) me by (cases "i = me") (simp_all add: ss_def nth_list_update)
  let ?w = "w\<lparr>servers := ss, txgen_of := txgen'\<rparr>"
  have "sim_HandleMessage (net_env K) me pl from ts w = Some (Inr (?w, out))"
    using p(1) c(1) sk wf(1) me by (simp add: sim_HandleMessage_def deref_def ss_def Let_def)
  moreover have "world_ok K truth' ?g (Suc d) (sint ts) ?w"
    using all' p(2,4) gN wf(1) by (simp add: world_ok_def ss_def)
  ultimately show ?thesis using p(3) c(3) by blast
qed

end
