(* ===== verification/Sim_Runs.thy ===== *)
theory Sim_Runs
  imports Sim_Handler
begin

text \<open>
  Runs of the network of \<open>simulator/\<close>: \<open>setupNetwork\<close> of \<open>main.go\<close> puts it into the invariant of
  \<open>Sim_Handler\<close>, and every delivery of \<open>des\<close> keeps it.
\<close>

section \<open>Deliveries\<close>

text \<open>The state after \<open>k\<close> deliveries, or after all messages have been delivered.\<close>

primrec deliveries ::
  "simEnv \<Rightarrow> nat \<Rightarrow> (simPayload, serverId) Simulator \<Rightarrow> simWorld \<Rightarrow> ((simPayload, serverId) Simulator \<times> simWorld) run" where
  "deliveries env 0 s w = Some (Inr (s, w))"
| "deliveries env (Suc k) s w =
     bindO (deliveries env k s w) (\<lambda>(s, w). if Drained s then Some (Inr (s, w)) else deliverNextMessage (sim_HandleMessage env) s w)"

definition generated :: "simWorld \<Rightarrow> nat" where
  "generated w = unat (next_of (txgen_of w))"

definition run_ok ::
  "netSpec \<Rightarrow> (u32 \<Rightarrow> simTransaction) \<Rightarrow> nat \<Rightarrow> nat \<Rightarrow> (simPayload, serverId) Simulator \<Rightarrow> simWorld \<Rightarrow> bool" where
  "run_ok K truth g d s w \<longleftrightarrow>
     sim_ok s \<and> 0 \<le> sint (stime s) \<and> in_reach (net_bound K) (sint (stime s)) s \<and> msgs_ok (mok K truth g) s \<and>
     world_ok K truth g d (sint (stime s)) w"

lemma msgs_ok_mono:
  assumes "msgs_ok (mok K truth g) s" "extends (net_sip K) truth g truth' g'" "x \<in> set (mq s)"
  shows "\<exists>m. mto x = Some m \<and> mok K truth' g' (mfrom x) m (payload x)"
  using assms mok_mono [OF _ assms(2)] unfolding msgs_ok_def by blast

text \<open>What one delivery does: the call of the handler, and the invariant after it.\<close>

lemma delivery_runs:
  assumes K: "net_ok K" and r: "run_ok K truth g d s w" and ne: "\<not> Drained s"
    and t: "sint (stime s) + 2 * net_bound K < 2 ^ 63" and g: "g + nat (blockArrivalBurst (net_cfg K)) \<le> net_N K"
    and d: "d < 2 ^ 53 - 1"
  obtains m rest h w' nm truth' where "mset (mq s) = add_mset m (mset rest)" "\<forall>x\<in>set rest. earlier m x"
    "mto m = Some h" "mok K truth g (mfrom m) h (payload m)"
    "sint (stime s) \<le> sint (arrival m)" "sint (arrival m) \<le> sint (stime s) + net_bound K"
    "sim_HandleMessage (net_env K) h (payload m) (mfrom m) (arrival m) w = Some (Inr (w', nm))"
    "\<forall>v\<in>set nm. out_ok K truth' (g + arrivals (payload m)) h v"
    "deliverNextMessage (sim_HandleMessage (net_env K)) s w =
       Some (Inr (scheduleAll nm (mto m) (s\<lparr>mq := rest, stime := arrival m\<rparr>), w'))"
    "run_ok K truth' (g + arrivals (payload m)) (Suc d) (scheduleAll nm (mto m) (s\<lparr>mq := rest, stime := arrival m\<rparr>)) w'"
proof -
  have ok: "sim_ok s" "0 \<le> sint (stime s)" "in_reach (net_bound K) (sint (stime s)) s" "msgs_ok (mok K truth g) s"
    "world_ok K truth g d (sint (stime s)) w" using r by (simp_all add: run_ok_def)
  have "mq s \<noteq> []" using ne by (simp add: Drained_def)
  obtain m rest where d1: "mset (mq s) = add_mset m (mset rest)" "\<forall>x\<in>set rest. earlier m x"
    "deliverNextMessage (sim_HandleMessage (net_env K)) s w =
       bindO (callHandler (sim_HandleMessage (net_env K)) (mto m) (payload m) (mfrom m) (arrival m) w) (\<lambda>(w', nm).
         Some (Inr (scheduleAll nm (mto m) (s\<lparr>mq := rest, stime := arrival m\<rparr>), w')))"
    "queue_heap rest" by (rule deliver_spec [OF ok(1) \<open>mq s \<noteq> []\<close>])
  have mem: "set (mq s) = insert m (set rest)" by (metis d1(1) set_mset_add_mset_insert set_mset_mset)
  obtain h where h: "mto m = Some h" "mok K truth g (mfrom m) h (payload m)"
    using ok(4) by (auto simp: msgs_ok_def mem)
  have am: "sint (stime s) \<le> sint (arrival m)" "sint (arrival m) \<le> sint (stime s) + net_bound K"
    using ok(1,3) by (auto simp: mem sim_ok_def in_reach_def)
  have ts: "0 \<le> sint (arrival m)" "sint (arrival m) + net_bound K < 2 ^ 63" using am ok(2) t by linarith+
  let ?g = "g + arrivals (payload m)"
  obtain truth' w' nm where call: "sim_HandleMessage (net_env K) h (payload m) (mfrom m) (arrival m) w = Some (Inr (w', nm))"
    "extends (net_sip K) truth g truth' ?g" "world_ok K truth' ?g (Suc d) (sint (arrival m)) w'"
    "\<forall>v\<in>set nm. out_ok K truth' ?g h v"
    using HandleMessage_spec [OF K ok(5) am(1) g ts d h(2)] by blast
  have nm: "\<forall>v\<in>set nm. 0 \<le> sint (Delay v) \<and> sint (Delay v) \<le> net_bound K"
    "\<forall>v\<in>set nm. mok K truth' ?g (Some h) (destination h v) (Payload v)" using call(4) by (simp_all add: out_ok_def)
  let ?s = "scheduleAll nm (mto m) (s\<lparr>mq := rest, stime := arrival m\<rparr>)"
  note k = answers_keep [OF ok(1) d1(1,2,4) ok(3) order.refl t nm(1) refl]
  have msgs: "msgs_ok (mok K truth' ?g) ?s"
    unfolding msgs_ok_def
  proof
    fix x assume "x \<in> set (mq ?s)"
    then consider "x \<in> set (mq s)" | "x \<in> set (queuedAll (arrival m) (Some h) (seq s) nm)" unfolding k(6) by (auto simp: mem h(1))
    then show "\<exists>q. mto x = Some q \<and> mok K truth' ?g (mfrom x) q (payload x)"
    proof cases
      case 1
      then show ?thesis by (rule msgs_ok_mono [OF ok(4) call(2)])
    next
      case 2
      then show ?thesis using queuedAll_ok [where mok = "mok K truth' ?g", OF nm(2)] by blast
    qed
  qed
  have reach: "in_reach (net_bound K) (sint (stime ?s)) ?s"
    using k(2) am(1) unfolding in_reach_def k(3) by (simp add: max_absorb1)
  have run: "run_ok K truth' ?g (Suc d) ?s w'"
    using k(1) msgs reach call(3) ts(1) by (simp add: run_ok_def k(3))
  have dl: "deliverNextMessage (sim_HandleMessage (net_env K)) s w = Some (Inr (?s, w'))"
    using d1(3) h(1) call(1) by (simp add: callHandler_def)
  show thesis by (rule that [OF d1(1,2) h am call(1,4) dl run])
qed

lemma delivery_keeps:
  assumes K: "net_ok K" and r: "run_ok K truth g d s w" and ne: "\<not> Drained s"
    and t: "sint (stime s) + 2 * net_bound K < 2 ^ 63" and g: "g + nat (blockArrivalBurst (net_cfg K)) \<le> net_N K"
    and d: "d < 2 ^ 53 - 1"
  shows "\<exists>s' w' truth' g'. deliverNextMessage (sim_HandleMessage (net_env K)) s w = Some (Inr (s', w')) \<and>
    run_ok K truth' g' (Suc d) s' w' \<and> g' \<le> g + nat (blockArrivalBurst (net_cfg K)) \<and>
    sint (stime s') \<le> sint (stime s) + net_bound K"
proof -
  obtain m rest h w' nm truth' where m: "mset (mq s) = add_mset m (mset rest)"
    and r: "mok K truth g (mfrom m) h (payload m)" "sint (arrival m) \<le> sint (stime s) + net_bound K"
    "deliverNextMessage (sim_HandleMessage (net_env K)) s w =
       Some (Inr (scheduleAll nm (mto m) (s\<lparr>mq := rest, stime := arrival m\<rparr>), w'))"
    "run_ok K truth' (g + arrivals (payload m)) (Suc d) (scheduleAll nm (mto m) (s\<lparr>mq := rest, stime := arrival m\<rparr>)) w'"
    by (rule delivery_runs [OF assms]) (rule that; assumption)
  have "arrivals (payload m) \<le> nat (blockArrivalBurst (net_cfg K))"
    using r(1) by (auto simp: arrivals_def mok_def split: simPayload.splits)
  then have g': "g + arrivals (payload m) \<le> g + nat (blockArrivalBurst (net_cfg K))" by simp
  have "stime (scheduleAll nm (mto m) (s\<lparr>mq := rest, stime := arrival m\<rparr>)) = arrival m"
    using scheduleAll_spec [of "mto m" nm "s\<lparr>mq := rest, stime := arrival m\<rparr>"] by simp
  then have st: "sint (stime (scheduleAll nm (mto m) (s\<lparr>mq := rest, stime := arrival m\<rparr>))) \<le> sint (stime s) + net_bound K"
    using r(2) by (simp only:)
  show ?thesis by (intro exI conjI) (rule r(3), rule r(4), rule g', rule st)
qed

text \<open>Pace of a run: before each delivery the clock is at \<open>t\<close> at most, and a block may still arrive.\<close>

definition paced ::
  "simEnv \<Rightarrow> serverConfig \<Rightarrow> nat \<Rightarrow> int \<Rightarrow> nat \<Rightarrow> (simPayload, serverId) Simulator \<Rightarrow> simWorld \<Rightarrow> bool" where
  "paced env cfg N t k s0 w0 \<longleftrightarrow>
     (\<forall>j<k. \<forall>s w. deliveries env j s0 w0 = Some (Inr (s, w)) \<longrightarrow>
        sint (stime s) \<le> t \<and> generated w + nat (blockArrivalBurst cfg) \<le> N)"

lemma run_generated:
  assumes "run_ok K truth g d s w" "net_ok K"
  shows "generated w = g"
proof -
  have g: "next_of (txgen_of w) = of_nat g" "g \<le> net_N K" using assms(1) by (simp_all add: run_ok_def world_ok_def)
  have "g \<le> 2 ^ 32" using noCollision_bound g(2) assms(2) by (fastforce simp: net_ok_def)
  then show ?thesis using g(1) by (simp add: generated_def unsigned_of_nat take_bit_nat_eq_self)
qed

lemma deliveries_keep:
  assumes K: "net_ok K" and r: "run_ok K truth g 0 s0 w0" and t: "t + 2 * net_bound K < 2 ^ 63" and k: "k < 2 ^ 53"
    and p: "paced (net_env K) (net_cfg K) (net_N K) t k s0 w0"
  shows "\<exists>s w truth' g'. deliveries (net_env K) k s0 w0 = Some (Inr (s, w)) \<and> run_ok K truth' g' k s w \<and>
    g' \<le> g + k * nat (blockArrivalBurst (net_cfg K)) \<and> sint (stime s) \<le> sint (stime s0) + int k * net_bound K"
  using k p
proof (induction k)
  case 0
  then show ?case using r by auto
next
  case (Suc k)
  let ?n = "nat (blockArrivalBurst (net_cfg K))"
  have "paced (net_env K) (net_cfg K) (net_N K) t k s0 w0" using Suc.prems(2) less_SucI unfolding paced_def by blast
  then obtain s w truth' g' where IH: "deliveries (net_env K) k s0 w0 = Some (Inr (s, w))" "run_ok K truth' g' k s w"
    "g' \<le> g + k * ?n" "sint (stime s) \<le> sint (stime s0) + int k * net_bound K"
    using Suc.IH Suc.prems(1) by auto
  have gen: "generated w = g'" by (rule run_generated [OF IH(2) K])
  have pc: "sint (stime s) \<le> t" "g' + ?n \<le> net_N K" using Suc.prems(2) IH(1) gen by (auto simp: paced_def)
  have B: "0 \<le> net_bound K" using K by (simp add: net_ok_def net_bound_def)
  have w: "g' \<le> net_N K" "truthful (net_sip K) truth' g'" using IH(2) by (simp_all add: run_ok_def world_ok_def)
  show ?case
  proof (cases "Drained s")
    case True
    have "run_ok K truth' g' (Suc k) s w"
      using IH(2) server_ok_Suc [OF _ K w(2,1)] by (simp add: run_ok_def world_ok_def)
    moreover have "g' \<le> g + Suc k * ?n" "sint (stime s) \<le> sint (stime s0) + int (Suc k) * net_bound K"
      using IH(3,4) B by (simp_all add: algebra_simps)
    ultimately show ?thesis using IH(1) True by auto
  next
    case False
    have "k < 2 ^ 53 - 1" "sint (stime s) + 2 * net_bound K < 2 ^ 63" using Suc.prems(1) pc(1) t by linarith+
    then obtain s' w' truth'' g'' where s': "deliverNextMessage (sim_HandleMessage (net_env K)) s w = Some (Inr (s', w'))"
      "run_ok K truth'' g'' (Suc k) s' w'" "g'' \<le> g' + ?n" "sint (stime s') \<le> sint (stime s) + net_bound K"
      using delivery_keeps [OF K IH(2) False _ pc(2)] by blast
    have "g'' \<le> g + Suc k * ?n" "sint (stime s') \<le> sint (stime s0) + int (Suc k) * net_bound K"
      using IH(3,4) s'(3,4) by (simp_all add: algebra_simps)
    then show ?thesis using IH(1) s'(1,2) False by auto
  qed
qed

section \<open>Setting up the network\<close>

text \<open>
  A configuration under which the network runs: the samples of the random generators are in
  range, the distribution of the degrees gives positive ones, the limits of the sender and of
  the receiver make sense, no two of the first \<open>N\<close> transactions collide, a decoder remembers
  that many, and delays and intervals are bounded.
\<close>

definition linkedBy :: "(serverId \<times> serverId \<times> duration) list \<Rightarrow> serverId \<Rightarrow> serverId \<Rightarrow> bool" where
  "linkedBy topo i j \<longleftrightarrow> (\<exists>d. (i, j, d) \<in> set topo \<or> (j, i, d) \<in> set topo)"

definition sim_config_ok :: "simEnv \<Rightarrow> serverConfig \<Rightarrow> nat \<Rightarrow> int \<Rightarrow> bool" where
  "sim_config_ok env cfg N b \<longleftrightarrow>
     noCollision (env_sip env) N \<and> int N \<le> decoderMemory cfg \<and> 0 \<le> b \<and>
     orders_keys env \<and> arrivals_within env cfg b \<and>
     0 \<le> sint (forceSynchronize cfg) \<and> sint (forceSynchronize cfg) \<le> b \<and>
     window_config (senderConfig cfg) \<and> (\<forall>i j. fair (env_rng env i j)) \<and>
     (\<forall>i j k size. positive (env_solitons env i j k size)) \<and>
     (\<exists>l. targetCodewordLoss (receiverConfig cfg) = Fin l \<and> 0 \<le> l \<and> l \<le> 1)"

definition topo_ok :: "(serverId \<times> serverId \<times> duration) list \<Rightarrow> nat \<Rightarrow> int \<Rightarrow> bool" where
  "topo_ok topo n b \<longleftrightarrow> (\<forall>(i, j, d)\<in>set topo. i < n \<and> j < n \<and> 0 \<le> sint d \<and> sint d \<le> b)"

text \<open>A server before it is connected knows nothing.\<close>

lemma fresh_knows:
  assumes "0 \<le> mem" "decoder s = lt_NewDecoder sip mem" "received s = {}"
  shows "server_knows truth {} {} [] s"
  using assms NewDecoder_ok [OF assms(1), of sip]
  by (simp add: server_knows_def exact_def agrees_def tracks_def remembers_def hashes_to_def) (simp add: lt_NewDecoder_def)

lemma newHandler_ok:
  assumes "sim_config_ok (net_env K) (net_cfg K) (net_N K) (net_b K)" "config s = net_cfg K"
    "0 \<le> sint delay" "sint delay \<le> net_b K" "newHandler (net_env K) me p (config s) = (n, r)"
  shows "peer_ok K truth 0 0 dec \<lparr>sender_of = n, receiver_of = r, pdelay = delay\<rparr>"
  using assms
  by (auto simp: newHandler_def sim_config_ok_def peer_ok_def sender_ready_def sender_genuine_def receiver_ready_def lt_NewEncoder_def)

lemma edges_irrelevant:
  "linkPayload (K\<lparr>net_edge := E\<rparr>) = linkPayload K"
  "peer_ok (K\<lparr>net_edge := E\<rparr>) = peer_ok K"
  "limiter_within (K\<lparr>net_edge := E\<rparr>) = limiter_within K"
proof -
  show l: "linkPayload (K\<lparr>net_edge := E\<rparr>) = linkPayload K"
    by (intro ext) (simp add: linkPayload_def split: simPayload.splits)
  show "peer_ok (K\<lparr>net_edge := E\<rparr>) = peer_ok K" by (intro ext) (simp add: peer_ok_def l)
  show "limiter_within (K\<lparr>net_edge := E\<rparr>) = limiter_within K" by (intro ext) (simp add: limiter_within_def)
qed

lemma addHandler_ok:
  assumes "sim_config_ok (net_env K) (net_cfg K) (net_N K) (net_b K)" "server_ok (K\<lparr>net_edge := E\<rparr>) truth 0 0 0 me s"
    "0 \<le> sint delay" "sint delay \<le> net_b K"
  shows "server_ok (K\<lparr>net_edge := (\<lambda>i j. E i j \<or> i = me \<and> j = p)\<rparr>) truth 0 0 0 me (addHandler (net_env K) me p delay s)"
proof -
  obtain n r where nr: "newHandler (net_env K) me p (config s) = (n, r)" by (cases "newHandler (net_env K) me p (config s)")
  have cfg: "config s = net_cfg K" using assms(2) by (simp add: server_ok_def)
  have h: "peer_ok K truth 0 0 (decoder s) \<lparr>sender_of = n, receiver_of = r, pdelay = delay\<rparr>"
    by (rule newHandler_ok [OF assms(1) cfg assms(3,4) nr])
  let ?s = "s\<lparr>handlers := (handlers s)(p \<mapsto> \<lparr>sender_of = n, receiver_of = r, pdelay = delay\<rparr>)\<rparr>"
  have s: "addHandler (net_env K) me p delay s = ?s" by (simp add: addHandler_def nr)
  have "{q. E me q \<or> me = me \<and> q = p} = insert p {q. E me q}" by auto
  then show ?thesis using assms(2) h unfolding server_ok_def edges_irrelevant s by simp
qed

lemma server_ok_edges:
  assumes "server_ok (K\<lparr>net_edge := E\<rparr>) truth g d t me s" "\<And>j. E me j = E' me j"
  shows "server_ok (K\<lparr>net_edge := E'\<rparr>) truth g d t me s"
proof -
  have "Collect (E' me) = Collect (E me)" by (intro Collect_cong) (rule assms(2) [symmetric])
  then show ?thesis using assms(1) unfolding server_ok_def edges_irrelevant by simp
qed

lemma connectServers_ok:
  assumes K: "sim_config_ok (net_env K) (net_cfg K) (net_N K) (net_b K)"
    and ss: "\<forall>i<length ss. server_ok (K\<lparr>net_edge := E\<rparr>) truth 0 0 0 i (ss ! i)"
    and l: "a < length ss" "b < length ss" "0 \<le> sint delay" "sint delay \<le> net_b K"
  shows "\<forall>i<length ss. server_ok (K\<lparr>net_edge := (\<lambda>i j. E i j \<or> i = a \<and> j = b \<or> i = b \<and> j = a)\<rparr>) truth 0 0 0 i
    (connectServers (net_env K) a b delay ss ! i)"
proof (intro allI impI)
  fix i assume i: "i < length ss"
  let ?E1 = "\<lambda>i j. E i j \<or> i = a \<and> j = b" and ?ss1 = "ss[a := addHandler (net_env K) a b delay (ss ! a)]"
  have one: "server_ok (K\<lparr>net_edge := ?E1\<rparr>) truth 0 0 0 i (?ss1 ! i)" if "i < length ss" for i
  proof (cases "i = a")
    case True
    then show ?thesis using addHandler_ok [OF K _ l(3,4)] ss l(1) by simp
  next
    case False
    then show ?thesis using server_ok_edges [where E = E and E' = ?E1 and s = "ss ! i"] ss that by simp
  qed
  show "server_ok (K\<lparr>net_edge := (\<lambda>i j. E i j \<or> i = a \<and> j = b \<or> i = b \<and> j = a)\<rparr>) truth 0 0 0 i
    (connectServers (net_env K) a b delay ss ! i)"
  proof (cases "i = b")
    case True
    have "server_ok (K\<lparr>net_edge := (\<lambda>i j. ?E1 i j \<or> i = b \<and> j = a)\<rparr>) truth 0 0 0 b (addHandler (net_env K) b a delay (?ss1 ! b))"
      by (rule addHandler_ok [OF K one [OF l(2)] l(3,4)])
    then have "server_ok (K\<lparr>net_edge := (\<lambda>i j. E i j \<or> i = a \<and> j = b \<or> i = b \<and> j = a)\<rparr>) truth 0 0 0 b
        (addHandler (net_env K) b a delay (?ss1 ! b))" by (rule server_ok_edges) blast
    then show ?thesis using True l(2) by (simp add: connectServers_def Let_def)
  next
    case False
    have "server_ok (K\<lparr>net_edge := (\<lambda>i j. E i j \<or> i = a \<and> j = b \<or> i = b \<and> j = a)\<rparr>) truth 0 0 0 i (?ss1 ! i)"
      by (rule server_ok_edges [OF one [OF i]]) (use False in blast)
    then show ?thesis using False by (simp add: connectServers_def Let_def)
  qed
qed

lemma length_connectServers [simp]: "length (connectServers env a b delay ss) = length ss"
  by (simp add: connectServers_def Let_def)

lemma connectAll_ok:
  assumes "sim_config_ok (net_env K) (net_cfg K) (net_N K) (net_b K)"
    and "\<forall>i<length ss. server_ok (K\<lparr>net_edge := E\<rparr>) truth 0 0 0 i (ss ! i)" "topo_ok topo (length ss) (net_b K)"
  shows "\<exists>ss'. connectAll (net_env K) topo ss = Inr ss' \<and> length ss' = length ss \<and>
    (\<forall>i<length ss'. server_ok (K\<lparr>net_edge := (\<lambda>i j. E i j \<or> linkedBy topo i j)\<rparr>) truth 0 0 0 i (ss' ! i))"
  using assms(2,3)
proof (induction topo arbitrary: ss E)
  case Nil
  then show ?case by (simp add: linkedBy_def)
next
  case (Cons c topo)
  obtain a b delay where c: "c = (a, b, delay)" by (cases c) auto
  have l: "a < length ss" "b < length ss" "0 \<le> sint delay" "sint delay \<le> net_b K" using Cons.prems(2) c by (auto simp: topo_ok_def)
  let ?ss = "connectServers (net_env K) a b delay ss" and ?E = "\<lambda>i j. E i j \<or> i = a \<and> j = b \<or> i = b \<and> j = a"
  have "\<forall>i<length ?ss. server_ok (K\<lparr>net_edge := ?E\<rparr>) truth 0 0 0 i (?ss ! i)"
    using connectServers_ok [OF assms(1) Cons.prems(1) l] by simp
  moreover have "topo_ok topo (length ?ss) (net_b K)" using Cons.prems(2) by (auto simp: topo_ok_def)
  ultimately obtain ss' where ss': "connectAll (net_env K) topo ?ss = Inr ss'" "length ss' = length ?ss"
    "\<forall>i<length ss'. server_ok (K\<lparr>net_edge := (\<lambda>i j. ?E i j \<or> linkedBy topo i j)\<rparr>) truth 0 0 0 i (ss' ! i)"
    using Cons.IH by blast
  have e: "(?E i j \<or> linkedBy topo i j) = (E i j \<or> linkedBy (c # topo) i j)" for i j
    unfolding linkedBy_def c by auto
  have "\<forall>i<length ss'. server_ok (K\<lparr>net_edge := (\<lambda>i j. E i j \<or> linkedBy (c # topo) i j)\<rparr>) truth 0 0 0 i (ss' ! i)"
    using ss'(3) unfolding e .
  then show ?case using ss'(1,2) l(1,2) by (simp add: c)
qed

text \<open>The messages of \<open>newServers\<close>: each server expects its first block, and perhaps a new block.\<close>

definition start_ok :: "netSpec \<Rightarrow> (u32 \<Rightarrow> simTransaction) \<Rightarrow> (simPayload, serverId) Simulator \<Rightarrow> bool" where
  "start_ok K truth s \<longleftrightarrow>
     sim_ok s \<and> stime s = 0 \<and> in_reach (net_bound K) 0 s \<and> msgs_ok (mok K truth 0) s"

lemma start_ok_schedule:
  assumes "net_ok K" "start_ok K truth s" "To v = None" "0 \<le> sint (Delay v)" "sint (Delay v) \<le> net_b K"
    and "mok K truth 0 (Some i) i (Payload v)"
  shows "start_ok K truth (ScheduleMessage s v (Some i))"
proof -
  have s: "sim_ok s" "stime s = 0" "in_reach (net_bound K) 0 s" "msgs_ok (mok K truth 0) s"
    using assms(2) by (simp_all add: start_ok_def)
  have b: "sint (Delay v) \<le> net_bound K" "net_bound K < 2 ^ 63" using net_b_le [OF assms(1)] assms(1,5) by (simp_all add: net_ok_def)
  have "sim_ok (ScheduleMessage s v (Some i))" by (rule ScheduleMessage_ok) (use s(1,2) assms(4) b in simp_all)
  moreover have "in_reach (net_bound K) 0 (ScheduleMessage s v (Some i))"
    using s(2,3) b(1) by (simp add: ScheduleMessage_eq in_reach_def queuedFor_def)
  moreover have "msgs_ok (mok K truth 0) (ScheduleMessage s v (Some i))"
    using s(4) assms(3,6) by (simp add: ScheduleMessage_eq msgs_ok_def queuedFor_def)
  ultimately show ?thesis using s(2) by (simp add: start_ok_def ScheduleMessage_eq)
qed

lemma newServers_ok:
  assumes K: "net_ok K" and "start_ok K truth s" "i + n = net_size K"
  shows "\<exists>s' ss. newServers (net_env K) (net_cfg K) n i s res = Inr (s', res @ ss) \<and> length ss = n \<and> start_ok K truth s' \<and>
    (\<forall>x\<in>set ss. x = (freshServer (net_env K) (net_cfg K))\<lparr>expCount := 1\<rparr>)"
  using assms(2,3)
proof (induction n arbitrary: i s res)
  case (Suc n)
  let ?f = "freshServer (net_env K) (net_cfg K)"
  have me: "i < net_size K" using Suc.prems(2) by simp
  obtain d where d: "nextArrival (net_env K) i ?f = Inr (?f\<lparr>expCount := 1\<rparr>, d)" "0 \<le> sint d" "sint d \<le> net_b K"
    using nextArrival_spec [OF K, of ?f i] by (auto simp: freshServer_def)
  let ?s1 = "ScheduleMessage s \<lparr>Payload = BlockArrival (blockArrivalBurst (net_cfg K)), To = None, Delay = d\<rparr> (Some i)"
  have 1: "start_ok K truth ?s1" by (rule start_ok_schedule [OF K Suc.prems(1)]) (use d me in \<open>simp_all add: mok_def\<close>)
  let ?s2 = "ScheduleMessage ?s1 \<lparr>Payload = CreateNewBlock, To = None, Delay = forceSynchronize (net_cfg K)\<rparr> (Some i)"
  have 2: "start_ok K truth ?s2"
    by (rule start_ok_schedule [OF K 1]) (use K me in \<open>simp_all add: mok_def net_ok_def\<close>)
  define s2 where "s2 = (if forceSynchronize (net_cfg K) \<noteq> 0 then ?s2 else ?s1)"
  have s2: "start_ok K truth s2" using 1 2 by (simp add: s2_def)
  have n: "Suc i + n = net_size K" using Suc.prems(2) by simp
  obtain s' ss where r: "newServers (net_env K) (net_cfg K) n (Suc i) s2 (res @ [?f\<lparr>expCount := 1\<rparr>]) =
      Inr (s', (res @ [?f\<lparr>expCount := 1\<rparr>]) @ ss)" "length ss = n" "start_ok K truth s'" "\<forall>x\<in>set ss. x = ?f\<lparr>expCount := 1\<rparr>"
    using Suc.IH [OF s2 n, of "res @ [?f\<lparr>expCount := 1\<rparr>]"] by blast
  have "newServers (net_env K) (net_cfg K) (Suc n) i s res = Inr (s', res @ (?f\<lparr>expCount := 1\<rparr> # ss))"
    using d(1) r(1) by (simp add: Let_def s2_def)
  then show ?case using r(2-4) by (intro exI [of _ s'] exI [of _ "?f\<lparr>expCount := 1\<rparr> # ss"]) simp
qed simp

definition specOf ::
  "simEnv \<Rightarrow> serverConfig \<Rightarrow> (serverId \<times> serverId \<times> duration) list \<Rightarrow> nat \<Rightarrow> nat \<Rightarrow> int \<Rightarrow> duration \<Rightarrow> netSpec" where
  "specOf env cfg topo n N b m =
     \<lparr>net_env = env, net_cfg = cfg, net_N = N, net_b = b, net_m = m, net_size = n, net_edge = linkedBy topo\<rparr>"

lemma specOf_ok:
  assumes "sim_config_ok env cfg N b" "topo_ok topo n b" "0 \<le> sint m" "b + (2 * int N + 1) * sint m < 2 ^ 63"
  shows "net_ok (specOf env cfg topo n N b m)"
proof -
  have "linkedBy topo i j \<Longrightarrow> linkedBy topo j i \<and> i < n" for i j
    using assms(2) by (fastforce simp: linkedBy_def topo_ok_def)
  then show ?thesis using assms by (simp add: specOf_def net_ok_def net_bound_def sim_config_ok_def)
qed

lemma setup_ok:
  assumes cfg: "sim_config_ok env cfg N b" and topo: "topo_ok topo n b" and m: "0 \<le> z" "b + (2 * int N + 1) * z < 2 ^ 63" "0 < n"
    and z: "f_to_int (f_mul (f_div (Fin 1) smoothing) (Fin 1000000000)) = Inr z"
  defines "K \<equiv> specOf env cfg topo n N b (word_of_int z)"
  shows "\<exists>s w. setupNetwork env cfg warmup smoothing topo n = Inr (s, w) \<and> net_ok K \<and> net_bound K = b + (2 * int N + 1) * z \<and>
    stime s = 0 \<and> run_ok K (\<lambda>_. \<lparr>tidx = 0, tts = 0\<rparr>) 0 0 s w"
proof -
  define truth :: "u32 \<Rightarrow> simTransaction" where "truth = (\<lambda>_. \<lparr>tidx = 0, tts = 0\<rparr>)"
  have b: "0 \<le> b" using cfg by (simp add: sim_config_ok_def)
  have "z \<le> (2 * int N + 1) * z" using m(1) by (simp add: algebra_simps)
  then have sz: "sint (word_of_int z :: u64) = z" using m(1,2) b by (intro sint_of_int) simp_all
  have K: "net_ok K" unfolding K_def by (rule specOf_ok [OF cfg topo]) (use sz m in simp_all)
  have f: "net_env K = env" "net_cfg K = cfg" "net_N K = N" "net_b K = b" "net_m K = word_of_int z" "net_size K = n"
    "net_edge K = linkedBy topo" by (simp_all add: K_def specOf_def)
  have bound: "net_bound K = b + (2 * int N + 1) * z" by (simp add: net_bound_def f sz)
  have "start_ok K truth emptySimulator" by (simp add: start_ok_def emptySimulator_def in_reach_def msgs_ok_def sim_ok_def is_heap_def)
  then obtain s ss where ns: "newServers env cfg n 0 emptySimulator [] = Inr (s, ss)" "length ss = n" "start_ok K truth s"
    "\<forall>x\<in>set ss. x = (freshServer env cfg)\<lparr>expCount := 1\<rparr>" using newServers_ok [OF K, of truth emptySimulator 0 n "[]"] by (auto simp: f)
  let ?ss = "map (equipServer warmup (word_of_int z)) ss"
  have mem: "0 \<le> decoderMemory cfg" using cfg by (simp add: sim_config_ok_def)
  have "server_ok (K\<lparr>net_edge := (\<lambda>i j. False)\<rparr>) truth 0 0 0 i (?ss ! i)" if i: "i < length ?ss" for i
  proof -
    define x where "x = equipServer warmup (word_of_int z) ((freshServer env cfg)\<lparr>expCount := 1\<rparr>)"
    have "i < length ss" using i by simp
    then have "ss ! i = (freshServer env cfg)\<lparr>expCount := 1\<rparr>" by (rule bspec [OF ns(4) nth_mem])
    then have "?ss ! i = x" using i by (simp only: nth_map length_map x_def)
    moreover have x: "config x = cfg" "decoder x = lt_NewDecoder (env_sip env) (decoderMemory cfg)" "received x = {}" "handlers x = Map.empty"
      "forwardRateLimiter x = \<lparr>lastScheduled = 0, minInterval = word_of_int z\<rparr>"
      by (simp_all add: x_def equipServer_def freshServer_def)
    have "server_knows truth (hashesBelow (env_sip env) 0) {} [] x"
      using fresh_knows [OF mem x(2,3)] by (simp add: hashesBelow_def)
    then have "server_ok (K\<lparr>net_edge := (\<lambda>i j. False)\<rparr>) truth 0 0 0 i x"
      unfolding server_ok_def edges_irrelevant by (auto simp: f x limiter_within_def lt_NewDecoder_def)
    ultimately show ?thesis by simp
  qed
  then have init: "\<forall>i<length ?ss. server_ok (K\<lparr>net_edge := (\<lambda>i j. False)\<rparr>) truth 0 0 0 i (?ss ! i)" by blast
  have cfgK: "sim_config_ok (net_env K) (net_cfg K) (net_N K) (net_b K)" "topo_ok topo (length ?ss) (net_b K)"
    using cfg topo ns(2) by (simp_all add: f)
  obtain ss' where c: "connectAll env topo ?ss = Inr ss'" "length ss' = n"
    "\<forall>i<n. server_ok (K\<lparr>net_edge := linkedBy topo\<rparr>) truth 0 0 0 i (ss' ! i)"
    using connectAll_ok [OF cfgK(1) init cfgK(2)] ns(2) by (auto simp: f)
  have edge: "K\<lparr>net_edge := linkedBy topo\<rparr> = K" by (simp add: K_def specOf_def)
  have "\<forall>i<n. server_ok K truth 0 0 0 i (ss' ! i)" using c(3) unfolding edge .
  then have "world_ok K truth 0 0 0 \<lparr>servers = ss', txgen_of = newTransactionGenerator\<rparr>"
    using c(2) by (simp add: world_ok_def f newTransactionGenerator_def truthful_def)
  then have "run_ok K truth 0 0 s \<lparr>servers = ss', txgen_of = newTransactionGenerator\<rparr>" "stime s = 0"
    using ns(3) by (simp_all add: run_ok_def start_ok_def)
  moreover have "ss \<noteq> []" using ns(2) m(3) by auto
  then have "setupNetwork env cfg warmup smoothing topo n = Inr (s, \<lparr>servers = ss', txgen_of = newTransactionGenerator\<rparr>)"
    using ns(1) z c(1) by (simp add: setupNetwork_def)
  ultimately show ?thesis using K bound unfolding truth_def by blast
qed

text \<open>What the servers hold in a state of the invariant.\<close>

lemma run_holds:
  assumes "run_ok K truth g d s w" "net_ok K"
  shows "\<exists>txs. map tidx txs = map of_nat [0..<generated w] \<and>
    (\<forall>srv\<in>set (servers w). received srv = data ` ran (receivedTransactions (decoder srv)) \<and> received srv \<subseteq> set txs)"
proof (intro exI conjI ballI)
  let ?sip = "net_sip K" and ?txs = "map (\<lambda>i. truth (hashOf (net_sip K) i)) [0..<generated w]"
  have gen: "generated w = g" by (rule run_generated [OF assms])
  have w: "length (servers w) = net_size K" "g \<le> net_N K" "truthful ?sip truth g"
    "\<forall>i<net_size K. server_ok K truth g d (sint (stime s)) i (servers w ! i)"
    using assms(1) by (simp_all add: run_ok_def world_ok_def)
  show "map tidx ?txs = map of_nat [0..<generated w]" using w(3) by (simp add: gen truthful_def)
  fix srv assume "srv \<in> set (servers w)"
  then obtain i where "server_ok K truth g d (sint (stime s)) i srv" using w(1,4) by (metis in_set_conv_nth)
  then have ok: "server_ok K truth g d (sint (stime s)) i srv" .
  show "received srv \<subseteq> set ?txs" using received_bound(3) [OF ok assms(2) w(2)] by (auto simp: gen hashesBelow_def)
  obtain G os where k: "server_knows truth (hashesBelow ?sip g) G os srv" using ok unfolding server_ok_def by blast
  let ?r = "receivedTransactions (decoder srv)"
  have r: "received srv = truth ` dom ?r" "\<forall>h tx. ?r h = Some tx \<longrightarrow> tx = true_tx simOps truth h"
    using k by (simp_all add: server_knows_def exact_def agrees_def)
  have "data ` ran ?r = truth ` dom ?r"
  proof
    show "data ` ran ?r \<subseteq> truth ` dom ?r"
    proof
      fix x assume "x \<in> data ` ran ?r"
      then obtain h tx where h: "x = data tx" "?r h = Some tx" by (auto simp: ran_def)
      have "tx = true_tx simOps truth h" using r(2) h(2) by blast
      then have "x = truth h" using h(1) by (simp add: true_tx_def)
      then show "x \<in> truth ` dom ?r" using h(2) by blast
    qed
    show "truth ` dom ?r \<subseteq> data ` ran ?r"
    proof
      fix x assume "x \<in> truth ` dom ?r"
      then obtain h tx where h: "x = truth h" "?r h = Some tx" by blast
      have "tx = true_tx simOps truth h" using r(2) h(2) by blast
      then have "data tx = x" using h(1) by (simp add: true_tx_def)
      then show "x \<in> data ` ran ?r" using h(2) by (auto simp: ran_def)
    qed
  qed
  then show "received srv = data ` ran ?r" using r(1) by simp
qed

end
