(* ===== verification/Sim_Accounts.thy ===== *)
theory Sim_Accounts
  imports Sim_Runs
begin

text \<open>
  Accounts of the messages of \<open>simulator/\<close>: what a call of a handler that returns has sent, and
  at which cost. The cost of a message bounds how many deliveries up to a time it can still
  lead to on its link; a codeword that is not in flight costs as much as one that is sent
  later, so that a sender that fills its window spends nothing. That the calls return is shown
  in \<open>Sim_Handler\<close>.
\<close>

section \<open>Rounds up to a time\<close>

text \<open>The number of times \<open>t\<close>, \<open>t + e\<close>, \<open>t + 2 * e\<close> and so on that are \<open>T\<close> at most.\<close>

definition turns :: "int \<Rightarrow> int \<Rightarrow> int \<Rightarrow> int" where
  "turns T e t = (if T < t then 0 else 1 + (T - t) div e)"

lemma turns_nonneg: "0 < e \<Longrightarrow> 0 \<le> turns T e t"
  using pos_imp_zdiv_nonneg_iff [of e "T - t"] by (simp add: turns_def)

lemma turns_mono:
  assumes "0 < e" "t \<le> t'"
  shows "turns T e t' \<le> turns T e t"
proof (cases "T < t'")
  case True
  then show ?thesis using turns_nonneg [OF assms(1)] by (simp add: turns_def)
next
  case False
  have "(T - t') div e \<le> (T - t) div e" using assms by (intro zdiv_mono1) simp_all
  then show ?thesis using False assms(2) by (simp add: turns_def)
qed

lemma turns_step:
  assumes "0 < e" "t \<le> T"
  shows "turns T e t = 1 + turns T e (t + e)"
proof (cases "T < t + e")
  case True
  then have "(T - t) div e = 0" using assms by (intro div_pos_pos_trivial) simp_all
  then show ?thesis using True assms(2) by (simp add: turns_def)
next
  case False
  have "(T - (t + e)) div e = (T - t) div e - 1" using assms(1) div_add_self2 [of e "T - (t + e)"] by simp
  then show ?thesis using False assms(2) by (simp add: turns_def)
qed

section \<open>Senders\<close>

text \<open>Bounds for a sender: \<open>L\<close> for its buffer, \<open>W\<close> for its window and its codewords in flight.\<close>

definition sender_within :: "int \<Rightarrow> nat \<Rightarrow> simSender \<Rightarrow> bool" where
  "sender_within W L n \<longleftrightarrow>
     window_config (sconfig n) \<and> length (sbuffer n) \<le> L \<and> sendWindow n \<le> W \<and> inFlight n \<le> W"

text \<open>The sender has put \<open>cws\<close> into its outbox, and counts them as in flight.\<close>

definition put :: "simCodeword list \<Rightarrow> simSender \<Rightarrow> simSender \<Rightarrow> bool" where
  "put cws n n' \<longleftrightarrow> soutbox n' = soutbox n @ map SimCodeword cws \<and> inFlight n' = inFlight n + int (length cws)"

lemma put_nil [simp]: "put [] n n"
  by (simp add: put_def)

lemma put_append: "put cws n n' \<Longrightarrow> put cws' n' n'' \<Longrightarrow> put (cws @ cws') n n''"
  by (simp add: put_def)

lemma fillBlock_frame:
  "sim_fillBlock txs n = Inr n' \<Longrightarrow> \<exists>e b. n' = n\<lparr>Encoder_of := e, currentBlock := b\<rparr>"
proof (induction txs n rule: sim_fillBlock.induct)
  case (1 n)
  then show ?case by (intro exI [of _ "Encoder_of n"] exI [of _ "currentBlock n"]) simp
next
  case (2 tx txs n)
  obtain e res where add: "lt_AddTransaction (Encoder_of n) tx = Inr (e, res)"
    "sim_fillBlock txs (if \<not> res then n\<lparr>Encoder_of := e\<rparr> else n\<lparr>Encoder_of := e, currentBlock := currentBlock n @ [tx]\<rparr>) = Inr n'"
    using 2(2) by (auto simp: bindR_Inr_iff)
  obtain e' b where "n' = (if \<not> res then n\<lparr>Encoder_of := e\<rparr> else n\<lparr>Encoder_of := e, currentBlock := currentBlock n @ [tx]\<rparr>)
      \<lparr>Encoder_of := e', currentBlock := b\<rparr>" using 2(1) [OF add(2)] by blast
  then have "n' = n\<lparr>Encoder_of := e', currentBlock := b\<rparr>" by (cases res) simp_all
  then show ?case by blast
qed

lemma startBlock_within:
  assumes "sim_startBlock n = Inr n'" "sender_within W L n" "L < 2 ^ 53" "int L \<le> W"
  shows "sender_within W L n' \<and> put [] n n'"
proof -
  have cfg: "window_config (sconfig n)" "length (sbuffer n) < 2 ^ 53" using assms(2,3) by (auto simp: sender_within_def)
  obtain c where c: "controlOverhead (sconfig n) = Fin c" "0 \<le> c" "c \<le> 1" using cfg(1) by (auto simp: window_config_def)
  obtain w where w: "f_to_int (f_mul (f_of_int (int (length (sbuffer n)))) (controlOverhead (sconfig n))) = Inr w"
    "w \<le> int (length (sbuffer n))" using share_of_count [OF cfg(2) c(2,3)] c(1) by auto
  let ?n = "n\<lparr>sendWindow := w, encodingCurrentBlock := True, solitons := (\<lambda>k. solitons n (Suc k)),
      Encoder_of := lt_Reset (Encoder_of n) (solitons n 0 (of_nat (length (sbuffer n)))) (int (length (sbuffer n))), currentBlock := []\<rparr>"
  obtain n1 where n1: "sim_fillBlock (sbuffer n) ?n = Inr n1" "n' = n1\<lparr>sbuffer := []\<rparr>"
    using assms(1) w(1) by (auto simp: sim_startBlock_def Let_def bindR_Inr_iff)
  obtain e b where "n1 = ?n\<lparr>Encoder_of := e, currentBlock := b\<rparr>" using fillBlock_frame [OF n1(1)] by blast
  then show ?thesis using assms(2,4) w(2) by (auto simp: n1(2) sender_within_def put_def)
qed

lemma tryProduce_within:
  assumes "sim_tryProduceCodeword may n = Inr (n', cw, yes)" "sender_within W L n" "L < 2 ^ 53" "int L \<le> W"
  shows "sender_within W L n' \<and> put [] n n'"
proof -
  have produce: "sender_within W L n2 \<and> put [] n1 n2"
    if "bindR (lt_ProduceCodeword simOps (Encoder_of n1)) (\<lambda>(e, c). Inr (n1\<lparr>Encoder_of := e\<rparr>, cw0\<lparr>Codeword_of := c\<rparr>, True)) = Inr (n2, cw2, yes2)"
      "sender_within W L n1" for n1 n2 cw0 cw2 yes2
    using that by (auto simp: bindR_Inr_iff sender_within_def put_def)
  show ?thesis
  proof (cases "\<not> encodingCurrentBlock n \<and> may")
    case True
    then obtain m where m: "(if int (length (sbuffer n)) \<ge> m
        then bindR (sim_startBlock n) (\<lambda>n. bindR (lt_ProduceCodeword simOps (Encoder_of n)) (\<lambda>(e, c).
               Inr (n\<lparr>Encoder_of := e\<rparr>, \<lparr>Codeword_of = \<lparr>cw_symbol = data_zero simOps, cw_members = []\<rparr>, newBlock = False\<rparr>
                 \<lparr>newBlock := True\<rparr>\<lparr>Codeword_of := c\<rparr>, True)))
        else Inr (n, \<lparr>Codeword_of = \<lparr>cw_symbol = data_zero simOps, cw_members = []\<rparr>, newBlock = False\<rparr>, False)) = Inr (n', cw, yes)"
      using assms(1) unfolding sim_tryProduceCodeword_def Let_def if_P [OF True] bindR_Inr_iff [of "f_to_int _"] by blast
    show ?thesis
    proof (cases "int (length (sbuffer n)) \<ge> m")
      case True
      then obtain n1 where n1: "sim_startBlock n = Inr n1" "bindR (lt_ProduceCodeword simOps (Encoder_of n1)) (\<lambda>(e, c).
               Inr (n1\<lparr>Encoder_of := e\<rparr>, \<lparr>Codeword_of = \<lparr>cw_symbol = data_zero simOps, cw_members = []\<rparr>, newBlock = False\<rparr>
                 \<lparr>newBlock := True\<rparr>\<lparr>Codeword_of := c\<rparr>, True)) = Inr (n', cw, yes)"
        using m by (auto simp: bindR_Inr_iff [of "sim_startBlock n"])
      then show ?thesis using produce [OF n1(2)] startBlock_within [OF n1(1) assms(2-)] by (simp add: put_def)
    next
      case False
      then show ?thesis using m assms(2) by simp
    qed
  next
    case False
    then show ?thesis using assms(1,2)
      by (auto simp: sim_tryProduceCodeword_def Let_def bindR_Inr_iff sender_within_def put_def split: if_splits)
  qed
qed

lemma fill_within:
  assumes "sim_tryFillSendWindow may n = Some (Inr n')" "sender_within W L n" "L < 2 ^ 53" "int L \<le> W"
  shows "\<exists>cws. put cws n n' \<and> sender_within W L n'"
proof -
  let ?P = "\<lambda>(may :: bool) n (r :: simSender result). \<forall>n'. r = Inr n' \<longrightarrow> sender_within W L n \<longrightarrow> (\<exists>cws. put cws n n' \<and> sender_within W L n')"
  have "?P may n (Inr n')"
  proof (rule sim_tryFillSendWindow.raw_induct [where P = ?P, OF _ assms(1)], intro allI impI)
    fix F :: "bool \<Rightarrow> simSender \<Rightarrow> simSender run" and may n r n'
    assume IH: "\<And>may n r. F may n = Some r \<Longrightarrow> ?P may n r"
      and body: "(if inFlight n < sendWindow n
        then bindO (Some (sim_tryProduceCodeword may n)) (\<lambda>(n, cw, yes).
               if \<not> yes then Some (Inr n)
               else F may (n\<lparr>soutbox := soutbox n @ [SimCodeword cw], inFlight := inFlight n + 1\<rparr>))
        else Some (Inr n)) = Some r" and r: "r = Inr n'" and w: "sender_within W L n"
    show "\<exists>cws. put cws n n' \<and> sender_within W L n'"
    proof (cases "inFlight n < sendWindow n")
      case False
      then show ?thesis using body r w by (intro exI [of _ "[]"]) auto
    next
      case True
      then obtain n1 cw yes where p: "sim_tryProduceCodeword may n = Inr (n1, cw, yes)"
        "(if \<not> yes then Some (Inr n1) else F may (n1\<lparr>soutbox := soutbox n1 @ [SimCodeword cw], inFlight := inFlight n1 + 1\<rparr>)) = Some (Inr n')"
        using body r by (auto simp: bindO_Inr_iff)
      have n1: "sender_within W L n1" "put [] n n1" using tryProduce_within [OF p(1) w assms(3,4)] by simp_all
      show ?thesis
      proof (cases yes)
        case False
        then show ?thesis using p(2) n1 by auto
      next
        case yes: True
        let ?n = "n1\<lparr>soutbox := soutbox n1 @ [SimCodeword cw], inFlight := inFlight n1 + 1\<rparr>"
        have "inFlight n1 + 1 \<le> W" using n1(2) True w by (simp add: put_def sender_within_def)
        then have "sender_within W L ?n" using n1(1) by (simp add: sender_within_def)
        then obtain cws where "put cws ?n n'" "sender_within W L n'" using IH [of may ?n] p(2) yes by auto
        moreover have "put [cw] n ?n" using n1(2) by (simp add: put_def)
        ultimately show ?thesis using put_append by blast
      qed
    qed
  qed
  then show ?thesis using assms(2) by blast
qed

lemma onTransaction_within:
  assumes "sim_onTransaction n tx may = Some (Inr n')" "sender_within W L n" "Suc L < 2 ^ 53" "int (Suc L) \<le> W"
  shows "\<exists>cws. put cws n n' \<and> sender_within W (Suc L) n'"
proof -
  have "sender_within W (Suc L) (n\<lparr>sbuffer := sbuffer n @ [tx]\<rparr>)" using assms(2) by (simp add: sender_within_def)
  then obtain cws where "put cws (n\<lparr>sbuffer := sbuffer n @ [tx]\<rparr>) n'" "sender_within W (Suc L) n'"
    using fill_within [OF assms(1) [unfolded sim_onTransaction_def] _ assms(3,4)] by blast
  then show ?thesis by (auto simp: put_def)
qed

lemma onAck_within:
  assumes "sim_onAck n a may = Some (Inr n')" "sender_within W L n" "L < 2 ^ 53" "int L \<le> W"
  shows "\<exists>cws. put cws (n\<lparr>inFlight := inFlight n - 1\<rparr>) n' \<and> sender_within W L n'"
proof -
  let ?n = "n\<lparr>inFlight := inFlight n - 1\<rparr>"
  let ?m = "if ackBlock a then ?n\<lparr>encodingCurrentBlock := False\<rparr> else ?n"
  have "sender_within W L ?m" using assms(2) by (simp add: sender_within_def)
  then obtain cws where "put cws ?m n'" "sender_within W L n'"
    using fill_within [OF assms(1) [unfolded sim_onAck_def Let_def] _ assms(3,4)] by blast
  then show ?thesis by (auto simp: put_def split: if_splits)
qed

section \<open>Budgets\<close>

text \<open>
  The time to be reached, the least delay of a link, the interval of forced synchronisation, the
  largest window, and how many blocks a server and transactions the network may generate.
\<close>

record netBudget =
  nb_end :: int
  nb_link :: int
  nb_sync :: int
  nb_window :: int
  nb_blocks :: nat
  nb_txs :: nat

definition budget_ok :: "netBudget \<Rightarrow> bool" where
  "budget_ok C \<longleftrightarrow> 0 < nb_link C \<and> 0 < nb_sync C \<and> int (nb_txs C) \<le> nb_window C \<and> nb_txs C < 2 ^ 53"

abbreviation nextTurns :: "netBudget \<Rightarrow> int \<Rightarrow> int" where
  "nextTurns C t \<equiv> turns (nb_end C) (nb_link C) (t + nb_link C)"

definition msgCost :: "netBudget \<Rightarrow> int \<Rightarrow> simPayload \<Rightarrow> int" where
  "msgCost C t pl =
     (case pl of
        SimCodeword cw \<Rightarrow> turns (nb_end C) (nb_link C) t
      | SimAck a \<Rightarrow> turns (nb_end C) (nb_link C) t
      | BlockArrival n \<Rightarrow> 0
      | Loopback tx \<Rightarrow> 1
      | CreateNewBlock \<Rightarrow> turns (nb_end C) (nb_sync C) t)"

definition outCost :: "netBudget \<Rightarrow> int \<Rightarrow> simMsg list \<Rightarrow> int" where
  "outCost C t out = sum_list (map (\<lambda>v. msgCost C (t + sint (Delay v)) (Payload v)) out)"

definition isLink :: "simPayload \<Rightarrow> bool" where
  "isLink pl = (case pl of SimCodeword cw \<Rightarrow> True | SimAck a \<Rightarrow> True | _ \<Rightarrow> False)"

definition isLoop :: "simPayload \<Rightarrow> bool" where
  "isLoop pl = (case pl of Loopback tx \<Rightarrow> True | _ \<Rightarrow> False)"

definition isBlock :: "simPayload \<Rightarrow> bool" where
  "isBlock pl = (case pl of BlockArrival n \<Rightarrow> True | _ \<Rightarrow> False)"

lemma outCost_simps [simp]:
  "outCost C t [] = 0" "outCost C t (v # out) = msgCost C (t + sint (Delay v)) (Payload v) + outCost C t out"
  "outCost C t (out @ out') = outCost C t out + outCost C t out'"
  by (simp_all add: outCost_def)

lemma msgCost_nonneg: "budget_ok C \<Longrightarrow> 0 \<le> msgCost C t pl"
  by (simp add: msgCost_def budget_ok_def turns_nonneg split: simPayload.splits)

text \<open>What one end of a link may still send, in codewords and acknowledgements.\<close>

definition peerSlots :: "netBudget \<Rightarrow> simPeer \<Rightarrow> int" where
  "peerSlots C h =
     nb_window C - inFlight (sender_of h) + int (length (soutbox (sender_of h))) + int (length (routbox (receiver_of h)))"

definition linkSlots :: "netBudget \<Rightarrow> simServer \<Rightarrow> int" where
  "linkSlots C s = (\<Sum>p\<in>dom (handlers s). peerSlots C (the (handlers s p)))"

definition peer_within :: "netBudget \<Rightarrow> nat \<Rightarrow> simPeer \<Rightarrow> bool" where
  "peer_within C L h \<longleftrightarrow>
     sender_within (nb_window C) L (sender_of h) \<and> nb_link C \<le> sint (pdelay h) \<and>
     (\<forall>pl\<in>set (soutbox (sender_of h)) \<union> set (routbox (receiver_of h)). isLink pl)"

definition server_within :: "netBudget \<Rightarrow> nat \<Rightarrow> simServer \<Rightarrow> bool" where
  "server_within C L s \<longleftrightarrow>
     finite (dom (handlers s)) \<and> finite (received s) \<and> (\<forall>p h. handlers s p = Some h \<longrightarrow> peer_within C L h)"

lemma peerSlots_nonneg: "peer_within C L h \<Longrightarrow> 0 \<le> peerSlots C h"
  by (simp add: peer_within_def sender_within_def peerSlots_def)

lemma linkSlots_nonneg:
  assumes "server_within C L s"
  shows "0 \<le> linkSlots C s"
  unfolding linkSlots_def
proof (rule sum_nonneg)
  fix p assume "p \<in> dom (handlers s)"
  then obtain h where h: "handlers s p = Some h" by blast
  then have "peer_within C L h" using assms by (simp add: server_within_def)
  then show "0 \<le> peerSlots C (the (handlers s p))" using peerSlots_nonneg h by simp
qed

lemma linkSlots_update:
  assumes "finite (dom (handlers s))" "handlers s p = Some h"
  shows "linkSlots C (s\<lparr>handlers := (handlers s)(p \<mapsto> h')\<rparr>) = linkSlots C s - peerSlots C h + peerSlots C h'"
proof -
  let ?hs = "(handlers s)(p \<mapsto> h')" and ?D = "dom (handlers s)"
  have p: "p \<in> ?D" using assms(2) by blast
  have d: "dom ?hs = ?D" using p by auto
  have hs: "handlers (s\<lparr>handlers := ?hs\<rparr>) = ?hs" by simp
  have "(\<Sum>q\<in>?D - {p}. peerSlots C (the (?hs q))) = (\<Sum>q\<in>?D - {p}. peerSlots C (the (handlers s q)))"
    by (rule sum.cong) auto
  moreover have "(\<Sum>q\<in>?D. peerSlots C (the (?hs q))) = peerSlots C h' + (\<Sum>q\<in>?D - {p}. peerSlots C (the (?hs q)))"
    using sum.remove [OF assms(1) p, of "\<lambda>q. peerSlots C (the (?hs q))"] by simp
  moreover have "linkSlots C s = peerSlots C h + (\<Sum>q\<in>?D - {p}. peerSlots C (the (handlers s q)))"
    using sum.remove [OF assms(1) p, of "\<lambda>q. peerSlots C (the (handlers s q))"] assms(2) by (simp add: linkSlots_def)
  moreover have "linkSlots C (s\<lparr>handlers := ?hs\<rparr>) = (\<Sum>q\<in>?D. peerSlots C (the (?hs q)))"
    unfolding linkSlots_def hs d ..
  ultimately show ?thesis by linarith
qed

lemma linkSlots_irrelevant [simp]:
  "linkSlots C (s\<lparr>forwardRateLimiter := r\<rparr>) = linkSlots C s" "linkSlots C (s\<lparr>rangeCount := k\<rparr>) = linkSlots C s"
  "linkSlots C (s\<lparr>expCount := k\<rparr>) = linkSlots C s" "linkSlots C (s\<lparr>overlapSketch := sk\<rparr>) = linkSlots C s"
  "linkSlots C (s\<lparr>decoder := p\<rparr>) = linkSlots C s" "linkSlots C (s\<lparr>received := rc\<rparr>) = linkSlots C s"
  "linkSlots C (s\<lparr>metric := m\<rparr>) = linkSlots C s" "linkSlots C (s\<lparr>latencySketch := sk\<rparr>) = linkSlots C s"
  by (simp_all add: linkSlots_def)

section \<open>The senders of a server\<close>

text \<open>Putting codewords into the outbox takes as many slots as it fills.\<close>

lemma peer_put:
  assumes "peer_within C L h" "put cws n n'" "sender_within (nb_window C) L' n'" "soutbox n = soutbox (sender_of h)"
  shows "peer_within C L' (h\<lparr>sender_of := n'\<rparr>)"
    "peerSlots C (h\<lparr>sender_of := n'\<rparr>) = peerSlots C h + inFlight (sender_of h) - inFlight n"
  using assms by (auto simp: peer_within_def put_def peerSlots_def isLink_def)

lemma eachSender_within:
  assumes "eachSender f ps s = Some (Inr s')" "distinct ps" "finite (dom (handlers s))"
    and step: "\<And>h n'. peer_within C L h \<Longrightarrow> f (sender_of h) = Some (Inr n') \<Longrightarrow>
      peer_within C L' (h\<lparr>sender_of := n'\<rparr>) \<and> peerSlots C (h\<lparr>sender_of := n'\<rparr>) = peerSlots C h"
    and "\<forall>p h. handlers s p = Some h \<longrightarrow> peer_within C (if p \<in> set ps then L else L') h"
  shows "\<exists>hs. s' = s\<lparr>handlers := hs\<rparr> \<and> dom hs = dom (handlers s) \<and> (\<forall>p h. hs p = Some h \<longrightarrow> peer_within C L' h) \<and>
    linkSlots C s' = linkSlots C s"
  using assms(1-3,5)
proof (induction ps arbitrary: s)
  case Nil
  then show ?case by (intro exI [of _ "handlers s"]) simp
next
  case (Cons p ps)
  obtain h n where h: "handlers s p = Some h" "f (sender_of h) = Some (Inr n)"
    "eachSender f ps (s\<lparr>handlers := (handlers s)(p \<mapsto> h\<lparr>sender_of := n\<rparr>)\<rparr>) = Some (Inr s')"
    using Cons.prems(1) by (auto simp: withPeer_def bindO_Inr_iff split: option.splits)
  let ?s = "s\<lparr>handlers := (handlers s)(p \<mapsto> h\<lparr>sender_of := n\<rparr>)\<rparr>"
  have "peer_within C (if p \<in> set (p # ps) then L else L') h" using Cons.prems(4) h(1) by blast
  then have n: "peer_within C L' (h\<lparr>sender_of := n\<rparr>)" "peerSlots C (h\<lparr>sender_of := n\<rparr>) = peerSlots C h"
    using step [OF _ h(2)] by simp_all
  have d: "dom (handlers ?s) = dom (handlers s)" using h(1) by auto
  have dis: "distinct ps" "p \<notin> set ps" using Cons.prems(2) by simp_all
  have pk: "\<forall>q x. handlers ?s q = Some x \<longrightarrow> peer_within C (if q \<in> set ps then L else L') x"
  proof (intro allI impI)
    fix q x assume q: "handlers ?s q = Some x"
    show "peer_within C (if q \<in> set ps then L else L') x"
    proof (cases "q = p")
      case True
      then show ?thesis using q n(1) dis(2) by simp
    next
      case False
      then have "handlers s q = Some x" using q by simp
      then have "peer_within C (if q \<in> set (p # ps) then L else L') x" using Cons.prems(4) by blast
      then show ?thesis using False by simp
    qed
  qed
  have fin: "finite (dom (handlers ?s))" unfolding d by (rule Cons.prems(3))
  obtain hs where hs: "s' = ?s\<lparr>handlers := hs\<rparr>" "dom hs = dom (handlers ?s)" "\<forall>q x. hs q = Some x \<longrightarrow> peer_within C L' x"
    "linkSlots C s' = linkSlots C ?s" using Cons.IH [OF h(3) dis(1) fin pk] by blast
  have "linkSlots C ?s = linkSlots C s" using linkSlots_update [OF Cons.prems(3) h(1)] n(2) by simp
  then show ?case using hs d by (intro exI [of _ hs]) simp
qed

end
