(* ===== verification/Sim_Budget.thy ===== *)
theory Sim_Budget
  imports Sim_Accounts
begin

text \<open>
  The account of a server of \<open>simulator/\<close>: what handling a message costs. A block arrival takes
  one of the blocks that the server may generate; every transaction is forwarded once, when it
  is registered; a codeword is answered with one acknowledgement, which frees a slot of the
  sender's window. So the cost of a message and of the state of the server pays for the
  messages that it sends, and one unit is left.
\<close>

section \<open>Parts of the handler\<close>

definition loops :: "simMsg list \<Rightarrow> nat" where
  "loops out = length (filter (\<lambda>v. isLoop (Payload v)) out)"

lemma loops_simps [simp]: "loops [] = 0" "loops (out @ out') = loops out + loops out'"
  by (simp_all add: loops_def)

lemma all_loops:
  assumes "\<forall>v\<in>set out. isLoop (Payload v)"
  shows "loops out = length out" "outCost C t out = int (length out)"
proof -
  show "loops out = length out" using assms by (simp add: loops_def)
  show "outCost C t out = int (length out)"
    using assms by (induction out) (auto simp: isLoop_def msgCost_def split: simPayload.splits)
qed

lemma onCodeword_acks:
  "sim_onCodeword p r cw = Some (Inr (p', r', txs)) \<Longrightarrow> \<exists>a. routbox r' = routbox r @ [SimAck a]"
  by (auto simp: sim_onCodeword_def Let_def bindO_Inr_iff split: if_splits)

lemma registerReceived_adds:
  "registerReceived s tx = Inr s' \<Longrightarrow> s' = s\<lparr>received := insert (data tx) (received s)\<rparr> \<and> data tx \<notin> received s"
  by (auto simp: registerReceived_def split: if_splits)

lemma registerDecoded_adds:
  assumes "registerDecoded ts txs s = Inr s'" "finite (received s)"
  shows "\<exists>rc sk. s' = s\<lparr>received := rc, latencySketch := sk\<rparr> \<and> finite rc \<and> card rc = card (received s) + length txs"
  using assms
proof (induction txs arbitrary: s)
  case Nil
  then show ?case by (intro exI [of _ "received s"] exI [of _ "latencySketch s"]) simp
next
  case (Cons tx txs)
  obtain s1 where s1: "registerReceived s tx = Inr s1"
    "registerDecoded ts txs (s1\<lparr>latencySketch := sim_recordTxLatency (latencySketch s1) (data tx) ts\<rparr>) = Inr s'"
    using Cons.prems(1) by (auto simp: bindR_Inr_iff)
  note a = registerReceived_adds [OF s1(1)]
  let ?s = "s1\<lparr>latencySketch := sim_recordTxLatency (latencySketch s1) (data tx) ts\<rparr>"
  have r: "received ?s = insert (data tx) (received s)" using a by simp
  have fin: "finite (received ?s)" unfolding r using Cons.prems(2) by simp
  obtain rc sk where rc: "s' = ?s\<lparr>received := rc, latencySketch := sk\<rparr>" "finite rc" "card rc = card (received ?s) + length txs"
    using Cons.IH [OF s1(2) fin] by blast
  have "card (received ?s) = Suc (card (received s))" unfolding r using a Cons.prems(2) by simp
  moreover have "s' = s\<lparr>received := rc, latencySketch := sk\<rparr>" using rc(1) a by simp
  ultimately show ?case using rc(2,3) by (intro exI [of _ rc] exI [of _ sk]) simp
qed

lemma scheduleLoop_loops:
  "scheduleLoop ts slot txs r out = (r', out') \<Longrightarrow>
   \<exists>msgs. out' = out @ msgs \<and> length msgs = length txs \<and> (\<forall>v\<in>set msgs. isLoop (Payload v) \<and> To v = None)"
proof (induction txs arbitrary: slot r out)
  case (Cons tx txs)
  let ?v = "\<lparr>Payload = Loopback tx, To = None, Delay = slot - ts\<rparr> :: simMsg"
  obtain msgs where m: "out' = (out @ [?v]) @ msgs" "length msgs = length txs" "\<forall>v\<in>set msgs. isLoop (Payload v) \<and> To v = None"
    using Cons.IH [OF Cons.prems [unfolded scheduleLoop.simps]] by blast
  then show ?case by (intro exI [of _ "?v # msgs"]) (simp add: isLoop_def)
qed simp

lemma scheduleForwarding_loops:
  assumes "scheduleForwardingTransactions s out txs ts = (s', out')"
  shows "\<exists>r msgs. s' = s\<lparr>forwardRateLimiter := r\<rparr> \<and> out' = out @ msgs \<and> length msgs = length txs \<and>
    (\<forall>v\<in>set msgs. isLoop (Payload v) \<and> To v = None)"
proof -
  obtain slot r where "scheduleLoop ts slot txs (forwardRateLimiter s) out = (r, out')" "s' = s\<lparr>forwardRateLimiter := r\<rparr>"
    using assms by (auto simp: scheduleForwardingTransactions_def Let_def split: prod.splits)
  then show ?thesis using scheduleLoop_loops by blast
qed

lemma arriveMany_adds:
  assumes "arriveMany ts n txgen s txs = Some (Inr (txgen', s', txs'))" "finite (received s)"
  shows "\<exists>p rc. s' = s\<lparr>decoder := p, received := rc\<rparr> \<and> finite rc \<and> card rc = card (received s) + n \<and> length txs' = length txs + n"
  using assms
proof (induction n arbitrary: txgen s txs)
  case 0
  then show ?case by (intro exI [of _ "decoder s"] exI [of _ "received s"]) simp
next
  case (Suc n)
  obtain txgen1 s1 tx where one: "arriveOne ts txgen s = Some (Inr (txgen1, s1, tx))"
    "arriveMany ts n txgen1 s1 (txs @ [tx]) = Some (Inr (txgen', s', txs'))"
    using Suc.prems(1) by (auto simp: bindO_Inr_iff)
  obtain s2 p where s2: "registerReceived s tx = Inr s2" "s1 = s2\<lparr>decoder := p\<rparr>"
    using one(1) by (auto simp: arriveOne_def Let_def bindO_Inr_iff split: prod.splits if_splits)
  note a = registerReceived_adds [OF s2(1)]
  have r: "received s1 = insert (data tx) (received s)" using a s2(2) by simp
  have fin: "finite (received s1)" unfolding r using Suc.prems(2) by simp
  obtain p' rc where rc: "s' = s1\<lparr>decoder := p', received := rc\<rparr>" "finite rc" "card rc = card (received s1) + n"
    "length txs' = length (txs @ [tx]) + n" using Suc.IH [OF one(2) fin] by blast
  have "card (received s1) = Suc (card (received s))" unfolding r using a Suc.prems(2) by simp
  moreover have "s' = s\<lparr>decoder := p', received := rc\<rparr>" using rc(1) a s2(2) by simp
  ultimately show ?case using rc(2-4) by (intro exI [of _ p'] exI [of _ rc]) simp
qed

section \<open>A message and its account\<close>

text \<open>The time until block \<open>k\<close> after the previous one, and the time of that block.\<close>

definition interval :: "simEnv \<Rightarrow> serverConfig \<Rightarrow> serverId \<Rightarrow> nat \<Rightarrow> int" where
  "interval env cfg i k =
     (case f_to_int (f_div (env_exp env i k) (blockArrivalIntv cfg)) of Inr z \<Rightarrow> z | Inl e \<Rightarrow> 0)"

definition blockTime :: "simEnv \<Rightarrow> serverConfig \<Rightarrow> serverId \<Rightarrow> nat \<Rightarrow> int" where
  "blockTime env cfg i k = (\<Sum>j<k. interval env cfg i j)"

definition blockDelays :: "simMsg list \<Rightarrow> duration list" where
  "blockDelays out = map Delay (filter (\<lambda>v. isBlock (Payload v)) out)"

lemma blockDelays_simps [simp]:
  "blockDelays [] = []" "blockDelays (v # out) = (if isBlock (Payload v) then Delay v # blockDelays out else blockDelays out)"
  "blockDelays (out @ out') = blockDelays out @ blockDelays out'"
  by (simp_all add: blockDelays_def)

text \<open>
  Handling \<open>pl\<close> took the server from \<open>s\<close> to \<open>s'\<close> and sent \<open>out\<close>, before the outboxes are
  emptied. A message of a link frees one slot of that link.
\<close>

definition accounted ::
  "netBudget \<Rightarrow> simEnv \<Rightarrow> nat \<Rightarrow> int \<Rightarrow> serverId \<Rightarrow> simPayload \<Rightarrow> simServer \<Rightarrow> simServer \<Rightarrow> simMsg list \<Rightarrow> bool" where
  "accounted C env L t me pl s s' out \<longleftrightarrow>
     server_within C (if isLoop pl then Suc L else L) s' \<and> dom (handlers s') = dom (handlers s) \<and> config s' = config s \<and>
     card (received s') = card (received s) + loops out \<and>
     linkSlots C s' = linkSlots C s + (if isLink pl then 1 else 0) \<and>
     outCost C t out + (if isLink pl then nextTurns C t else 0) + 1 \<le>
       msgCost C t pl + int (loops out) + (if isBlock pl then 1 else 0) \<and>
     (\<forall>v\<in>set out. \<not> isLink (Payload v) \<and> To v = None \<and> (Payload v = CreateNewBlock \<longrightarrow> pl = CreateNewBlock)) \<and>
     expCount s' = expCount s + (if isBlock pl then 1 else 0) \<and>
     blockDelays out = (if isBlock pl then [word_of_int (interval env (config s) me (expCount s))] else [])"

lemma no_blocks: "\<forall>v\<in>set out. isLoop (Payload v) \<and> To v = None \<Longrightarrow> blockDelays out = []"
  by (induction out) (auto simp: isLoop_def isBlock_def split: simPayload.splits)

lemma loop_kinds: "isLoop pl \<Longrightarrow> \<not> isLink pl \<and> pl \<noteq> CreateNewBlock"
  by (auto simp: isLoop_def isLink_def split: simPayload.splits)

lemma nextArrival_accounted:
  "nextArrival env me s = Inr (s', i) \<Longrightarrow>
   s' = s\<lparr>expCount := expCount s + 1\<rparr> \<and> i = word_of_int (interval env (config s) me (expCount s))"
  by (auto simp: nextArrival_def interval_def bindR_Inr_iff)

lemma arrival_accounted:
  assumes r: "handlePayload env me (BlockArrival n) from ts txgen s = Some (Inr (txgen', s', out))"
    and s: "server_within C L s"
  shows "accounted C env L (sint ts) me (BlockArrival n) s s' out"
proof -
  obtain g1 s1 txs where a1: "arriveMany ts (nat n) txgen s [] = Some (Inr (g1, s1, txs))"
    "(let (s, outbox) = scheduleForwardingTransactions s1 [] txs ts in
      bindO (Some (nextArrival env me s)) (\<lambda>(s, intv).
        Some (Inr (g1, s, outbox @ [\<lparr>Payload = BlockArrival (blockArrivalBurst (config s)), To = None, Delay = intv\<rparr>])))) =
      Some (Inr (txgen', s', out))"
    using r unfolding handlePayload_def simPayload.case bindO_Inr_iff [of "arriveMany ts (nat n) txgen s []"]
      split_paired_Ex prod.case by blast
  obtain s2 out2 where a2: "scheduleForwardingTransactions s1 [] txs ts = (s2, out2)" by fastforce
  obtain i where a3: "nextArrival env me s2 = Inr (s', i)"
    "out = out2 @ [\<lparr>Payload = BlockArrival (blockArrivalBurst (config s')), To = None, Delay = i\<rparr>]"
    using a1(2) unfolding a2 by (auto simp: bindO_Inr_iff)
  note a = a1(1) a2 a3
  have fin: "finite (received s)" using s by (simp add: server_within_def)
  obtain p rc where am: "s1 = s\<lparr>decoder := p, received := rc\<rparr>" "finite rc" "card rc = card (received s) + nat n"
    "length txs = nat n" using arriveMany_adds [OF a(1) fin] by auto
  obtain l where sc: "s2 = s1\<lparr>forwardRateLimiter := l\<rparr>" "length out2 = length txs" "\<forall>v\<in>set out2. isLoop (Payload v) \<and> To v = None"
    using scheduleForwarding_loops [OF a(2)] by auto
  note na = nextArrival_accounted [OF a(3)]
  have lo: "loops out2 = nat n" "outCost C (sint ts) out2 = int (nat n)"
    using all_loops [of out2] sc(2,3) am(4) by auto
  have "\<forall>v\<in>set out2. \<not> isLink (Payload v) \<and> To v = None \<and> Payload v \<noteq> CreateNewBlock" using sc(3) loop_kinds by blast
  then show ?thesis
    unfolding accounted_def using s na am(2,3) lo no_blocks [OF sc(3)]
    by (simp add: a(4) sc(1) am(1) isLoop_def isLink_def isBlock_def msgCost_def server_within_def loops_def)
qed

lemma codeword_accounted:
  assumes r: "handleCodeword p m ts s = Some (Inr (s', out))" and s: "server_within C L s"
    and C: "budget_ok C" and t: "sint ts \<le> nb_end C"
  shows "accounted C env L (sint ts) me (SimCodeword m) s s' out"
proof -
  obtain dec buf s1 s2 where a: "withPeer s p (\<lambda>h. bindO (sim_onCodeword (decoder s) (receiver_of h) m) (\<lambda>(dec, r, buf).
      Some (Inr ((dec, buf), h\<lparr>receiver_of := r\<rparr>)))) = Some (Inr ((dec, buf), s1))"
    "registerDecoded ts buf (s1\<lparr>decoder := dec\<rparr>) = Inr s2"
    "scheduleForwardingTransactions (s2\<lparr>metric := (metric s2)\<lparr>decodedTransactions := decodedTransactions (metric s2) + int (length buf),
       receivedCodewords := receivedCodewords (metric s2) + 1\<rparr>\<rparr>) [] buf ts = (s', out)"
    using r by (auto simp: handleCodeword_def bindO_Inr_iff Let_def)
  obtain h r' where h: "handlers s p = Some h" "sim_onCodeword (decoder s) (receiver_of h) m = Some (Inr (dec, r', buf))"
    "s1 = s\<lparr>handlers := (handlers s)(p \<mapsto> h\<lparr>receiver_of := r'\<rparr>)\<rparr>"
    using a(1) by (auto simp: withPeer_def bindO_Inr_iff split: option.splits)
  obtain ack where ack: "routbox r' = routbox (receiver_of h) @ [SimAck ack]" using onCodeword_acks [OF h(2)] by blast
  have fin: "finite (dom (handlers s))" "finite (received s)" "\<forall>q x. handlers s q = Some x \<longrightarrow> peer_within C L x"
    using s by (simp_all add: server_within_def)
  have hw: "peer_within C L (h\<lparr>receiver_of := r'\<rparr>)" using fin(3) h(1) ack by (auto simp: peer_within_def isLink_def)
  have slots: "linkSlots C s1 = linkSlots C s + 1"
    using linkSlots_update [OF fin(1) h(1)] ack by (simp add: h(3) peerSlots_def)
  have fr: "finite (received (s1\<lparr>decoder := dec\<rparr>))" using fin(2) by (simp add: h(3))
  obtain rc sk where rd: "s2 = s1\<lparr>decoder := dec, received := rc, latencySketch := sk\<rparr>" "finite rc"
    "card rc = card (received s) + length buf" using registerDecoded_adds [OF a(2) fr] by (auto simp: h(3))
  obtain l where sc: "s' = s2\<lparr>metric := (metric s2)\<lparr>decodedTransactions := decodedTransactions (metric s2) + int (length buf),
       receivedCodewords := receivedCodewords (metric s2) + 1\<rparr>, forwardRateLimiter := l\<rparr>"
    "length out = length buf" "\<forall>v\<in>set out. isLoop (Payload v) \<and> To v = None" using scheduleForwarding_loops [OF a(3)] by auto
  have lo: "loops out = length buf" "outCost C (sint ts) out = int (length buf)" using all_loops [of out] sc(2,3) by auto
  have d: "handlers s' = (handlers s)(p \<mapsto> h\<lparr>receiver_of := r'\<rparr>)" "received s' = rc" "config s' = config s" "expCount s' = expCount s"
    "linkSlots C s' = linkSlots C s1" by (simp_all add: sc(1) rd(1) h(3))
  have "server_within C L s'" using fin(1,3) hw rd(2) by (simp add: server_within_def d(1,2))
  moreover have "dom (handlers s') = dom (handlers s)" using h(1) by (auto simp: d(1))
  moreover have "turns (nb_end C) (nb_link C) (sint ts) = 1 + nextTurns C (sint ts)"
    using C t by (intro turns_step) (simp_all add: budget_ok_def)
  moreover have "\<forall>v\<in>set out. \<not> isLink (Payload v) \<and> To v = None \<and> Payload v \<noteq> CreateNewBlock" using sc(3) loop_kinds by blast
  ultimately show ?thesis
    unfolding accounted_def using lo rd(3) slots no_blocks [OF sc(3)]
    by (simp add: d(2-5) isLoop_def isLink_def isBlock_def msgCost_def)
qed

lemma ack_accounted:
  assumes r: "withPeer s p (\<lambda>h. bindO (sim_onAck (sender_of h) a can) (\<lambda>n. Some (Inr ((), h\<lparr>sender_of := n\<rparr>)))) = Some (Inr ((), s'))"
    and s: "server_within C L s" and C: "budget_ok C" and t: "sint ts \<le> nb_end C" and L: "L \<le> nb_txs C"
  shows "accounted C env L (sint ts) me (SimAck a) s s' []"
proof -
  obtain h n where h: "handlers s p = Some h" "sim_onAck (sender_of h) a can = Some (Inr n)"
    "s' = s\<lparr>handlers := (handlers s)(p \<mapsto> h\<lparr>sender_of := n\<rparr>)\<rparr>"
    using r by (auto simp: withPeer_def bindO_Inr_iff split: option.splits)
  have fin: "finite (dom (handlers s))" "\<forall>q x. handlers s q = Some x \<longrightarrow> peer_within C L x"
    using s by (simp_all add: server_within_def)
  then have hw: "peer_within C L h" using h(1) by blast
  have W: "L < 2 ^ 53" "int L \<le> nb_window C" using C L by (simp_all add: budget_ok_def)
  have "sender_within (nb_window C) L (sender_of h)" using hw by (simp add: peer_within_def)
  then obtain cws where cws: "put cws ((sender_of h)\<lparr>inFlight := inFlight (sender_of h) - 1\<rparr>) n" "sender_within (nb_window C) L n"
    using onAck_within [OF h(2) _ W] by blast
  note p = peer_put [OF hw cws]
  have slots: "linkSlots C s' = linkSlots C s + 1" using linkSlots_update [OF fin(1) h(1)] p(2) by (simp add: h(3))
  have "server_within C L s'" using s p(1) by (simp add: server_within_def h(3))
  moreover have "dom (handlers s') = dom (handlers s)" "received s' = received s" "config s' = config s" "expCount s' = expCount s"
    using h(1) by (auto simp: h(3))
  moreover have "turns (nb_end C) (nb_link C) (sint ts) = 1 + nextTurns C (sint ts)"
    using C t by (intro turns_step) (simp_all add: budget_ok_def)
  ultimately show ?thesis
    unfolding accounted_def using slots by (simp add: isLoop_def isLink_def isBlock_def msgCost_def)
qed

text \<open>A call on the senders of all links.\<close>

lemma senders_within:
  assumes "eachSender f ps s1 = Some (Inr s')" "rangeHandlers env me s = (s1, ps)" "orders_keys env" "server_within C L s"
    and step: "\<And>h n'. peer_within C L h \<Longrightarrow> f (sender_of h) = Some (Inr n') \<Longrightarrow>
      \<exists>cws. put cws ((sender_of h)\<lparr>sbuffer := b h\<rparr>) n' \<and> sender_within (nb_window C) L' n'"
  shows "server_within C L' s' \<and> dom (handlers s') = dom (handlers s) \<and> received s' = received s \<and> config s' = config s \<and>
    expCount s' = expCount s \<and> linkSlots C s' = linkSlots C s"
proof -
  have fin: "finite (dom (handlers s))" "finite (received s)" "\<forall>p h. handlers s p = Some h \<longrightarrow> peer_within C L h"
    using assms(4) by (simp_all add: server_within_def)
  have s1: "s1 = s\<lparr>rangeCount := rangeCount s + 1\<rparr>" "distinct ps" "set ps = dom (handlers s)"
    using assms(2,3) fin(1) by (auto simp: rangeHandlers_def orders_keys_def)
  have d: "finite (dom (handlers s1))" using fin(1) by (simp add: s1(1))
  have pk: "\<forall>p h. handlers s1 p = Some h \<longrightarrow> peer_within C (if p \<in> set ps then L else L') h"
    using fin(3) s1(3) by (auto simp: s1(1))
  have st: "peer_within C L' (h\<lparr>sender_of := n'\<rparr>) \<and> peerSlots C (h\<lparr>sender_of := n'\<rparr>) = peerSlots C h"
    if h: "peer_within C L h" "f (sender_of h) = Some (Inr n')" for h n'
  proof -
    obtain cws where cws: "put cws ((sender_of h)\<lparr>sbuffer := b h\<rparr>) n'" "sender_within (nb_window C) L' n'"
      using step [OF h] by blast
    show ?thesis using peer_put [OF h(1) cws] by simp
  qed
  obtain hs where hs: "s' = s1\<lparr>handlers := hs\<rparr>" "dom hs = dom (handlers s1)" "\<forall>p h. hs p = Some h \<longrightarrow> peer_within C L' h"
    "linkSlots C s' = linkSlots C s1" using eachSender_within [OF assms(1) s1(2) d st pk] by blast
  then show ?thesis using fin(1,2) by (simp add: s1(1) server_within_def)
qed

lemma handlePayload_accounted:
  assumes r: "handlePayload env me pl from ts txgen s = Some (Inr (txgen', s', out))" and s: "server_within C L s"
    and C: "budget_ok C" and t: "sint ts \<le> nb_end C" and L: "(if isLoop pl then Suc L else L) \<le> nb_txs C"
    and env: "orders_keys env" and sync: "pl = CreateNewBlock \<longrightarrow> nb_sync C \<le> sint (forceSynchronize (config s))"
  shows "accounted C env L (sint ts) me pl s s' out"
proof -
  have W: "L' < 2 ^ 53" "int L' \<le> nb_window C" if "L' \<le> nb_txs C" for L' using C that by (simp_all add: budget_ok_def)
  have same: "put cws n n'" if "put cws (n\<lparr>sbuffer := b\<rparr>) n'" for cws n n' b using that by (simp add: put_def)
  show ?thesis
  proof (cases pl)
    case (SimCodeword m)
    obtain p where "handleCodeword p m ts s = Some (Inr (s', out))"
      using r unfolding SimCodeword by (auto simp: handlePayload_def bindO_Inr_iff split: option.splits)
    then show ?thesis unfolding SimCodeword by (rule codeword_accounted [OF _ s C t])
  next
    case (SimAck a)
    obtain p where p: "withPeer s p (\<lambda>h. bindO (sim_onAck (sender_of h) a (canStartNewBlock s)) (\<lambda>n. Some (Inr ((), h\<lparr>sender_of := n\<rparr>)))) =
        Some (Inr ((), s'))" "out = []"
      using r unfolding SimAck by (auto simp: handlePayload_def bindO_Inr_iff split: option.splits)
    have "L \<le> nb_txs C" using L by (simp add: SimAck isLoop_def)
    then show ?thesis unfolding SimAck p(2) by (rule ack_accounted [OF p(1) s C t])
  next
    case (BlockArrival n)
    then show ?thesis using arrival_accounted [OF _ s] r by simp
  next
    case (Loopback tx)
    obtain s1 ps where rg: "rangeHandlers env me s = (s1, ps)" by (cases "rangeHandlers env me s")
    have e: "eachSender (\<lambda>n. sim_onTransaction n tx (canStartNewBlock s)) ps s1 = Some (Inr s')" "out = []"
      using r unfolding Loopback by (auto simp: handlePayload_def forwardTransaction_def rg bindO_Inr_iff)
    have SL: "Suc L \<le> nb_txs C" using L by (simp add: Loopback isLoop_def)
    have "\<exists>cws. put cws ((sender_of h)\<lparr>sbuffer := sbuffer (sender_of h)\<rparr>) n' \<and> sender_within (nb_window C) (Suc L) n'"
      if "peer_within C L h" "sim_onTransaction (sender_of h) tx (canStartNewBlock s) = Some (Inr n')" for h n'
      using onTransaction_within [OF that(2) _ W [OF SL]] that(1) by (simp add: peer_within_def)
    from senders_within [OF e(1) rg env s this] show ?thesis
      unfolding accounted_def by (simp add: Loopback e(2) isLoop_def isLink_def isBlock_def msgCost_def)
  next
    case CreateNewBlock
    obtain s1 ps where rg: "rangeHandlers env me s = (s1, ps)" by (cases "rangeHandlers env me s")
    have e: "eachSender (sim_tryFillSendWindow True) ps s1 = Some (Inr s')"
      "out = [\<lparr>Payload = CreateNewBlock, To = None, Delay = forceSynchronize (config s')\<rparr>]"
      using r unfolding CreateNewBlock by (auto simp: handlePayload_def rg bindO_Inr_iff)
    have SL: "L \<le> nb_txs C" using L by (simp add: CreateNewBlock isLoop_def)
    have "\<exists>cws. put cws ((sender_of h)\<lparr>sbuffer := sbuffer (sender_of h)\<rparr>) n' \<and> sender_within (nb_window C) L n'"
      if "peer_within C L h" "sim_tryFillSendWindow True (sender_of h) = Some (Inr n')" for h n'
      using fill_within [OF that(2) _ W [OF SL]] that(1) by (simp add: peer_within_def)
    note k = senders_within [OF e(1) rg env s this]
    have sy: "nb_sync C \<le> sint (forceSynchronize (config s'))" using sync k CreateNewBlock by simp
    have "0 < nb_sync C" using C by (simp add: budget_ok_def)
    then have "turns (nb_end C) (nb_sync C) (sint ts) = 1 + turns (nb_end C) (nb_sync C) (sint ts + nb_sync C)"
      "turns (nb_end C) (nb_sync C) (sint ts + sint (forceSynchronize (config s'))) \<le>
       turns (nb_end C) (nb_sync C) (sint ts + nb_sync C)"
      using t sy by (intro turns_step, simp_all, intro turns_mono, simp_all)
    then show ?thesis using k
      unfolding accounted_def by (simp add: CreateNewBlock e(2) isLoop_def isLink_def isBlock_def msgCost_def loops_def)
  qed
qed

section \<open>Emptying the outboxes\<close>

lemma linkMsgs_cost:
  assumes "\<forall>pl\<in>set pls. isLink pl" "nb_link C \<le> sint d" "0 < nb_link C"
  shows "outCost C t (map (\<lambda>m. \<lparr>Payload = m, To = Some p, Delay = d\<rparr>) pls) \<le> int (length pls) * nextTurns C t"
  using assms(1)
proof (induction pls)
  case (Cons pl pls)
  have "msgCost C (t + sint d) pl = turns (nb_end C) (nb_link C) (t + sint d)"
    using Cons.prems by (auto simp: isLink_def msgCost_def split: simPayload.splits)
  also have "\<dots> \<le> nextTurns C t" by (rule turns_mono) (use assms in simp_all)
  finally show ?case using Cons by (simp add: algebra_simps)
qed simp

definition linksOnly :: "simMsg list \<Rightarrow> bool" where
  "linksOnly out \<longleftrightarrow> (\<forall>v\<in>set out. isLink (Payload v))"

lemma linksOnly_facts:
  assumes "linksOnly out"
  shows "loops out = 0" "blockDelays out = []"
  using assms by (induction out) (auto simp: linksOnly_def loops_def isLoop_def isLink_def isBlock_def split: simPayload.splits)

lemma collectFrom_within:
  assumes "collectFrom ps s out = Some (Inr (s', out'))" "server_within C L s" "budget_ok C"
  shows "\<exists>hs msgs. s' = s\<lparr>handlers := hs\<rparr> \<and> out' = out @ msgs \<and> dom hs = dom (handlers s) \<and> server_within C L s' \<and>
    linksOnly msgs \<and> outCost C t msgs + linkSlots C s' * nextTurns C t \<le> linkSlots C s * nextTurns C t"
  using assms(1,2)
proof (induction ps arbitrary: s out)
  case Nil
  then show ?case by (intro exI [of _ "handlers s"] exI [of _ "[]"]) (simp add: linksOnly_def)
next
  case (Cons p ps)
  obtain h where h: "handlers s p = Some h"
    "collectFrom ps (s\<lparr>handlers := (handlers s)(p \<mapsto> snd (emptyOutbox p h))\<rparr>) (out @ fst (emptyOutbox p h)) = Some (Inr (s', out'))"
    using Cons.prems(1) by (auto simp: withPeer_def bindO_Inr_iff split: option.splits prod.splits)
  let ?h = "snd (emptyOutbox p h)" and ?s = "s\<lparr>handlers := (handlers s)(p \<mapsto> snd (emptyOutbox p h))\<rparr>"
  let ?pls = "soutbox (sender_of h) @ routbox (receiver_of h)"
  have e: "fst (emptyOutbox p h) = map (\<lambda>m. \<lparr>Payload = m, To = Some p, Delay = pdelay h\<rparr>) ?pls"
    "?h = h\<lparr>sender_of := (sender_of h)\<lparr>soutbox := []\<rparr>, receiver_of := (receiver_of h)\<lparr>routbox := []\<rparr>\<rparr>"
    by (simp_all add: emptyOutbox_def Let_def)
  have fin: "finite (dom (handlers s))" using Cons.prems(2) by (simp add: server_within_def)
  have hw: "peer_within C L h" using Cons.prems(2) h(1) by (simp add: server_within_def)
  have hw': "peer_within C L ?h" using hw by (simp add: e(2) peer_within_def sender_within_def)
  have sw: "server_within C L ?s" using Cons.prems(2) hw' by (simp add: server_within_def)
  have slots: "linkSlots C ?s = linkSlots C s - int (length ?pls)"
    using linkSlots_update [OF fin h(1)] by (simp add: e(2) peerSlots_def)
  have lk: "\<forall>pl\<in>set ?pls. isLink pl" "nb_link C \<le> sint (pdelay h)" using hw by (auto simp: peer_within_def)
  have l0: "0 < nb_link C" using assms(3) by (simp add: budget_ok_def)
  have cost: "outCost C t (fst (emptyOutbox p h)) \<le> int (length ?pls) * nextTurns C t"
    unfolding e(1) by (rule linkMsgs_cost [OF lk l0])
  obtain hs msgs where r: "s' = ?s\<lparr>handlers := hs\<rparr>" "out' = (out @ fst (emptyOutbox p h)) @ msgs" "dom hs = dom (handlers ?s)"
    "server_within C L s'" "linksOnly msgs" "outCost C t msgs + linkSlots C s' * nextTurns C t \<le> linkSlots C ?s * nextTurns C t"
    using Cons.IH [OF h(2) sw] by blast
  have "dom (handlers ?s) = dom (handlers s)" using h(1) by auto
  moreover have "linksOnly (fst (emptyOutbox p h) @ msgs)" using lk(1) r(5) by (auto simp: linksOnly_def e(1))
  moreover have "outCost C t (fst (emptyOutbox p h) @ msgs) + linkSlots C s' * nextTurns C t \<le> linkSlots C s * nextTurns C t"
    using r(6) cost unfolding slots by (simp add: algebra_simps)
  ultimately show ?case using r(1-4) by (intro exI [of _ hs] exI [of _ "fst (emptyOutbox p h) @ msgs"]) simp
qed

end
