(* ===== verification/Sim_Funded.thy ===== *)
theory Sim_Funded
  imports Sim_Budget
begin

text \<open>
  The account of the whole network of \<open>simulator/\<close>: the cost of the queued messages and of the
  states of the servers falls with every delivery up to the time of the budget. So the number
  of deliveries is bounded, and with it the number of generated transactions.
\<close>

section \<open>One server\<close>

text \<open>What a server can still spend at time \<open>t\<close>: slots, transactions to register, blocks.\<close>

definition serverPot :: "netBudget \<Rightarrow> int \<Rightarrow> simServer \<Rightarrow> int" where
  "serverPot C t s =
     linkSlots C s * nextTurns C t + (int (nb_txs C) - int (card (received s))) + (int (nb_blocks C) - int (expCount s))"

lemma serverPot_mono:
  assumes "server_within C L s" "budget_ok C" "t \<le> t'"
  shows "serverPot C t' s \<le> serverPot C t s"
proof -
  have "nextTurns C t' \<le> nextTurns C t" using assms(2,3) by (intro turns_mono) (simp_all add: budget_ok_def)
  then have "linkSlots C s * nextTurns C t' \<le> linkSlots C s * nextTurns C t"
    using linkSlots_nonneg [OF assms(1)] by (rule mult_left_mono)
  then show ?thesis by (simp add: serverPot_def)
qed

lemma recordOverlaps_frame:
  "recordOverlaps me ts msgs ss = Inr ss' \<Longrightarrow> me < length ss \<Longrightarrow> \<exists>sk. ss' = ss[me := (ss ! me)\<lparr>overlapSketch := sk\<rparr>]"
proof (induction msgs arbitrary: ss)
  case Nil
  then show ?case by (intro exI [of _ "overlapSketch (ss ! me)"]) simp
next
  case (Cons v msgs)
  obtain ss1 where s1: "recordOverlaps me ts msgs ss1 = Inr ss'" "\<exists>sk. ss1 = ss[me := (ss ! me)\<lparr>overlapSketch := sk\<rparr>]"
  proof -
    obtain ss1 where 1: "recordOverlaps me ts msgs ss1 = Inr ss'" "(case Payload v of
        SimCodeword cw \<Rightarrow>
          if newBlock cw then
            (case To v of None \<Rightarrow> Inl (Panic ''interface conversion'')
             | Some p \<Rightarrow> bindR (overlapOf ss me p) (\<lambda>ratio.
                 Inr (ss[me := (ss ! me)\<lparr>overlapSketch := sim_recordRaw (overlapSketch (ss ! me)) ratio ts\<rparr>])))
          else Inr ss
      | _ \<Rightarrow> Inr ss) = Inr ss1"
      using Cons.prems(1) unfolding recordOverlaps.simps bindR_Inr_iff by blast
    have keep: "\<exists>sk. ss = ss[me := (ss ! me)\<lparr>overlapSketch := sk\<rparr>]"
      by (intro exI [of _ "overlapSketch (ss ! me)"]) simp
    have "\<exists>sk. ss1 = ss[me := (ss ! me)\<lparr>overlapSketch := sk\<rparr>]"
      using 1(2) keep by (auto simp: bindR_Inr_iff split: simPayload.splits if_splits option.splits)
    then show thesis using that 1(1) by blast
  qed
  then obtain sk where sk: "ss1 = ss[me := (ss ! me)\<lparr>overlapSketch := sk\<rparr>]" by blast
  have "me < length ss1" using Cons.prems(2) by (simp add: sk)
  then obtain sk' where "ss' = ss1[me := (ss1 ! me)\<lparr>overlapSketch := sk'\<rparr>]" using Cons.IH [OF s1(1)] by blast
  then show ?case using Cons.prems(2) by (intro exI [of _ sk']) (simp add: sk)
qed

text \<open>A message is handled on account.\<close>

definition paid ::
  "netBudget \<Rightarrow> simEnv \<Rightarrow> nat \<Rightarrow> int \<Rightarrow> serverId \<Rightarrow> simPayload \<Rightarrow> simServer \<Rightarrow> simServer \<Rightarrow> simMsg list \<Rightarrow> bool" where
  "paid C env L t me pl s s' out \<longleftrightarrow>
     server_within C (if isLoop pl then Suc L else L) s' \<and> config s' = config s \<and>
     card (received s') = card (received s) + loops out \<and> expCount s' = expCount s + (if isBlock pl then 1 else 0) \<and>
     serverPot C t s' + outCost C t out + 1 \<le> serverPot C t s + msgCost C t pl \<and>
     (\<forall>v\<in>set out. (isLink (Payload v) \<or> To v = None) \<and> (Payload v = CreateNewBlock \<longrightarrow> pl = CreateNewBlock)) \<and>
     blockDelays out = (if isBlock pl then [word_of_int (interval env (config s) me (expCount s))] else [])"

lemma collect_paid:
  assumes "accounted C env L t me pl s s1 out1" "collectOutgoingMessages env me s1 out1 = Some (Inr (s2, out))"
    and C: "budget_ok C"
  shows "paid C env L t me pl s s2 out"
proof -
  let ?L = "if isLoop pl then Suc L else L" and ?s1 = "s1\<lparr>rangeCount := rangeCount s1 + 1\<rparr>"
  obtain ps where ps: "collectFrom ps ?s1 out1 = Some (Inr (s2, out))"
    using assms(2) by (auto simp: collectOutgoingMessages_def rangeHandlers_def)
  have a: "server_within C ?L s1" "config s1 = config s" "card (received s1) = card (received s) + loops out1"
    "linkSlots C s1 = linkSlots C s + (if isLink pl then 1 else 0)"
    "outCost C t out1 + (if isLink pl then nextTurns C t else 0) + 1 \<le> msgCost C t pl + int (loops out1) + (if isBlock pl then 1 else 0)"
    "\<forall>v\<in>set out1. \<not> isLink (Payload v) \<and> To v = None \<and> (Payload v = CreateNewBlock \<longrightarrow> pl = CreateNewBlock)"
    "expCount s1 = expCount s + (if isBlock pl then 1 else 0)"
    "blockDelays out1 = (if isBlock pl then [word_of_int (interval env (config s) me (expCount s))] else [])"
    using assms(1) unfolding accounted_def by blast+
  have w: "server_within C ?L ?s1" using a(1) by (simp add: server_within_def)
  obtain hs msgs where c: "s2 = ?s1\<lparr>handlers := hs\<rparr>" "out = out1 @ msgs" "server_within C ?L s2" "linksOnly msgs"
    "outCost C t msgs + linkSlots C s2 * nextTurns C t \<le> linkSlots C ?s1 * nextTurns C t"
    using collectFrom_within [OF ps w C, of t] by blast
  have "received s2 = received s1" "config s2 = config s1" "expCount s2 = expCount s1" by (simp_all add: c(1))
  moreover have "outCost C t msgs + linkSlots C s2 * nextTurns C t \<le>
      linkSlots C s * nextTurns C t + (if isLink pl then nextTurns C t else 0)"
    using c(5) unfolding linkSlots_irrelevant a(4) by (simp add: algebra_simps split: if_splits)
  moreover have "\<forall>v\<in>set out. (isLink (Payload v) \<or> To v = None) \<and> (Payload v = CreateNewBlock \<longrightarrow> pl = CreateNewBlock)"
    using a(6) c(4) by (auto simp: c(2) linksOnly_def isLink_def)
  moreover have "serverPot C t s2 + outCost C t out + 1 \<le> serverPot C t s + msgCost C t pl"
    using calculation(1-4) a(2,3,5,7) linksOnly_facts(1) [OF c(4)]
    by (cases "isLink pl"; cases "isBlock pl") (simp_all add: serverPot_def c(2))
  ultimately show ?thesis using a(2,3,7,8) c(3) linksOnly_facts [OF c(4)] unfolding paid_def by (simp add: c(2))
qed

lemma HandleMessage_paid:
  assumes r: "sim_HandleMessage env me pl from ts w = Some (Inr (w', out))" and s: "server_within C L (servers w ! me)"
    and C: "budget_ok C" "sint ts \<le> nb_end C" "(if isLoop pl then Suc L else L) \<le> nb_txs C" "orders_keys env"
    and sync: "pl = CreateNewBlock \<longrightarrow> nb_sync C \<le> sint (forceSynchronize (config (servers w ! me)))"
  shows "\<exists>s'. me < length (servers w) \<and> servers w' = (servers w)[me := s'] \<and>
    paid C env L (sint ts) me pl (servers w ! me) s' out"
proof -
  let ?s = "servers w ! me"
  have me: "me < length (servers w)"
    using r by (auto simp: sim_HandleMessage_def bindO_Inr_iff deref_def split: if_splits)
  then have d: "deref (servers w) me = Inr ?s" by (simp add: deref_def)
  obtain txgen s1 out1 where a1: "handlePayload env me pl from ts (txgen_of w) ?s = Some (Inr (txgen, s1, out1))"
    "bindO (collectOutgoingMessages env me s1 out1) (\<lambda>(s, outbox).
       let ss = (servers w)[me := s] in
       bindO (Some (if overlapSketch s \<noteq> None then recordOverlaps me ts outbox ss else Inr ss)) (\<lambda>ss.
         Some (Inr (w\<lparr>servers := ss, txgen_of := txgen\<rparr>, outbox)))) = Some (Inr (w', out))"
    using r unfolding sim_HandleMessage_def d by (auto simp: bindO_Inr_iff [of "handlePayload _ _ _ _ _ _ _"])
  obtain s2 ss where a2: "collectOutgoingMessages env me s1 out1 = Some (Inr (s2, out))"
    "(if overlapSketch s2 \<noteq> None then recordOverlaps me ts out ((servers w)[me := s2]) else Inr ((servers w)[me := s2])) = Inr ss"
    "w' = w\<lparr>servers := ss, txgen_of := txgen\<rparr>"
    using a1(2) by (auto simp: bindO_Inr_iff Let_def)
  note a = me a1(1) a2
  have p: "paid C env L (sint ts) me pl ?s s2 out"
    by (rule collect_paid [OF handlePayload_accounted [OF a(2) s C sync] a(3) C(1)])
  have "\<exists>sk. ss = (servers w)[me := s2\<lparr>overlapSketch := sk\<rparr>]"
  proof (cases "overlapSketch s2 \<noteq> None")
    case True
    then show ?thesis using recordOverlaps_frame [of me ts out "(servers w)[me := s2]" ss] a(1,4) by simp
  next
    case False
    then have "ss = (servers w)[me := s2]" using a(4) by simp
    then show ?thesis by (intro exI [of _ "overlapSketch s2"]) simp
  qed
  then obtain sk where sk: "ss = (servers w)[me := s2\<lparr>overlapSketch := sk\<rparr>]" by blast
  have "paid C env L (sint ts) me pl ?s (s2\<lparr>overlapSketch := sk\<rparr>) out"
    using p unfolding paid_def serverPot_def by (simp add: server_within_def)
  then show ?thesis using a(1,5) sk by (intro exI [of _ "s2\<lparr>overlapSketch := sk\<rparr>"]) simp
qed

section \<open>The queue\<close>

type_synonym simQueued = "(simPayload, serverId) queuedMessage"

definition queueCost :: "netBudget \<Rightarrow> simQueued multiset \<Rightarrow> int" where
  "queueCost C M = (\<Sum>m\<in>#M. msgCost C (sint (arrival m)) (payload m))"

text \<open>The transactions that server \<open>i\<close> is about to forward, and its next block.\<close>

definition loopsTo :: "serverId \<Rightarrow> simQueued multiset \<Rightarrow> nat" where
  "loopsTo i M = size (filter_mset (\<lambda>m. mto m = Some i \<and> isLoop (payload m)) M)"

definition blocksTo :: "serverId \<Rightarrow> simQueued multiset \<Rightarrow> simQueued multiset" where
  "blocksTo i M = filter_mset (\<lambda>m. mto m = Some i \<and> isBlock (payload m)) M"

lemma queueCost_simps [simp]:
  "queueCost C {#} = 0" "queueCost C (add_mset m M) = msgCost C (sint (arrival m)) (payload m) + queueCost C M"
  "queueCost C (M + M') = queueCost C M + queueCost C M'"
  by (simp_all add: queueCost_def)

lemma loopsTo_simps [simp]:
  "loopsTo i {#} = 0" "loopsTo i (M + M') = loopsTo i M + loopsTo i M'"
  "loopsTo i (add_mset m M) = (if mto m = Some i \<and> isLoop (payload m) then Suc (loopsTo i M) else loopsTo i M)"
  by (simp_all add: loopsTo_def)

lemma blocksTo_simps [simp]:
  "blocksTo i {#} = {#}" "blocksTo i (M + M') = blocksTo i M + blocksTo i M'"
  "blocksTo i (add_mset m M) = (if mto m = Some i \<and> isBlock (payload m) then add_mset m (blocksTo i M) else blocksTo i M)"
  by (simp_all add: blocksTo_def)

lemma queueCost_nonneg: "budget_ok C \<Longrightarrow> 0 \<le> queueCost C M"
  by (induction M) (simp_all add: msgCost_nonneg)

text \<open>The messages that a handler sends, once they are queued.\<close>

lemma queued_cost:
  "\<forall>v\<in>set out. sint (t + Delay v) = sint t + sint (Delay v) \<Longrightarrow>
   queueCost C (mset (queuedAll t from k out)) = outCost C (sint t) out"
  by (induction out arbitrary: k) (simp_all add: queuedFor_def)

lemma isLink_no: "isLink pl \<Longrightarrow> \<not> isLoop pl \<and> \<not> isBlock pl"
  by (simp add: isLink_def isLoop_def isBlock_def split: simPayload.splits)

lemma queued_loops:
  assumes "\<forall>v\<in>set out. isLink (Payload v) \<or> To v = None"
  shows "loopsTo i (mset (queuedAll t (Some h) k out)) = (if i = h then loops out else 0)"
  using assms by (induction out arbitrary: k) (auto simp: queuedFor_def loops_def dest: isLink_no)

lemma queued_blocks:
  assumes "\<forall>v\<in>set out. isLink (Payload v) \<or> To v = None"
  shows "image_mset arrival (blocksTo i (mset (queuedAll t (Some h) k out))) =
    (if i = h then mset (map ((+) t) (blockDelays out)) else {#})"
  using assms by (induction out arbitrary: k) (auto simp: queuedFor_def dest: isLink_no)

lemma queued_payload:
  "x \<in># mset (queuedAll t from k out) \<Longrightarrow> \<exists>v\<in>set out. payload x = Payload v"
  by (induction out arbitrary: k) (auto simp: queuedFor_def)

section \<open>The servers and the queue\<close>

text \<open>
  The account of server \<open>i\<close>: its buffers hold transactions that it has forwarded, and it waits
  for one block at most, which comes after its intervals up to now.
\<close>

definition funded :: "netBudget \<Rightarrow> simEnv \<Rightarrow> serverConfig \<Rightarrow> simQueued multiset \<Rightarrow> serverId \<Rightarrow> simServer \<Rightarrow> bool" where
  "funded C env cfg M i s \<longleftrightarrow>
     config s = cfg \<and> (\<exists>L. server_within C L s \<and> L + loopsTo i M \<le> card (received s)) \<and> expCount s \<le> nb_blocks C \<and>
     size (blocksTo i M) \<le> 1 \<and> (\<forall>m\<in>#blocksTo i M. blockTime env cfg i (expCount s) \<le> sint (arrival m))"

text \<open>All intervals are in range, and the last block of each server comes too late.\<close>

definition blocks_ok :: "netBudget \<Rightarrow> simEnv \<Rightarrow> serverConfig \<Rightarrow> nat \<Rightarrow> int \<Rightarrow> bool" where
  "blocks_ok C env cfg n b \<longleftrightarrow>
     (\<forall>i k. 0 \<le> interval env cfg i k \<and> interval env cfg i k \<le> b) \<and> (\<forall>i<n. nb_end C < blockTime env cfg i (nb_blocks C))"

lemma blockTime_mono:
  assumes "blocks_ok C env cfg n b" "k \<le> k'"
  shows "blockTime env cfg i k \<le> blockTime env cfg i k'"
  unfolding blockTime_def by (rule sum_mono2) (use assms in \<open>auto simp: blocks_ok_def\<close>)

lemma funded_other:
  assumes "funded C env cfg (add_mset m M) i s" "mto m = Some h" "i \<noteq> h"
    and "loopsTo i N = 0" "blocksTo i N = {#}"
  shows "funded C env cfg (M + N) i s"
  using assms unfolding funded_def by simp

lemma funded_handler:
  assumes f: "funded C env cfg (add_mset m M) h s" and m: "mto m = Some h" and early: "sint (arrival m) \<le> nb_end C"
    and L: "server_within C L s" "L + loopsTo h (add_mset m M) \<le> card (received s)"
    and p: "paid C env L (sint (arrival m)) h (payload m) s s' out"
    and B: "blocks_ok C env cfg n b" "h < n" "sint (arrival m) + b < 2 ^ 63" "0 \<le> sint (arrival m)"
  shows "funded C env cfg (M + mset (queuedAll (arrival m) (Some h) k out)) h s'"
proof -
  let ?N = "mset (queuedAll (arrival m) (Some h) k out)" and ?L = "if isLoop (payload m) then Suc L else L"
  have q: "server_within C ?L s'" "config s' = config s" "card (received s') = card (received s) + loops out"
    "expCount s' = expCount s + (if isBlock (payload m) then 1 else 0)"
    "blockDelays out = (if isBlock (payload m) then [word_of_int (interval env (config s) h (expCount s))] else [])"
    using p unfolding paid_def by - (elim conjE, assumption)+
  have ln: "\<forall>v\<in>set out. isLink (Payload v) \<or> To v = None" using p by (simp add: paid_def)
  have g: "config s = cfg" "expCount s \<le> nb_blocks C" "size (blocksTo h (add_mset m M)) \<le> 1"
    "\<forall>x\<in>#blocksTo h (add_mset m M). blockTime env cfg h (expCount s) \<le> sint (arrival x)"
    using f unfolding funded_def by - (elim conjE, assumption)+
  have bl: "image_mset arrival (blocksTo h ?N) = mset (map ((+) (arrival m)) (blockDelays out))"
    using queued_blocks [OF ln] by simp
  have "?L + loopsTo h (M + ?N) \<le> card (received s')"
    using L(2) q(3) m queued_loops [OF ln, of h] by (simp split: if_splits)
  moreover have "expCount s' \<le> nb_blocks C \<and> size (blocksTo h (M + ?N)) \<le> 1 \<and>
    (\<forall>x\<in>#blocksTo h (M + ?N). blockTime env cfg h (expCount s') \<le> sint (arrival x))"
  proof (cases "isBlock (payload m)")
    case True
    let ?z = "interval env cfg h (expCount s)"
    have z: "0 \<le> ?z" "?z \<le> b" using B(1) unfolding blocks_ok_def by blast+
    have sz: "sint (word_of_int ?z :: u64) = ?z" using z B(3,4) by (intro sint_of_int) simp_all
    have none: "blocksTo h M = {#}" and time: "blockTime env cfg h (expCount s) \<le> sint (arrival m)"
      using g(3,4) m True by simp_all
    have one: "image_mset arrival (blocksTo h ?N) = {#arrival m + word_of_int ?z#}" using bl q(5) True by (simp add: g(1))
    have "sint (arrival m + word_of_int ?z) = sint (arrival m) + sint (word_of_int ?z :: u64)"
      by (rule sint_add; unfold sz; use z B(3,4) in linarith)
    then have "sint (arrival m + word_of_int ?z) = sint (arrival m) + ?z" unfolding sz .
    moreover have "blockTime env cfg h (Suc (expCount s)) = blockTime env cfg h (expCount s) + ?z" by (simp add: blockTime_def)
    moreover have "arrival x = arrival m + word_of_int ?z" if "x \<in># blocksTo h ?N" for x
    proof -
      have "arrival x \<in># image_mset arrival (blocksTo h ?N)" using that by simp
      then show ?thesis unfolding one by simp
    qed
    ultimately have "\<forall>x\<in>#blocksTo h (M + ?N). blockTime env cfg h (expCount s') \<le> sint (arrival x)"
      using none time q(4) True by auto
    moreover have "size (blocksTo h (M + ?N)) \<le> 1" using arg_cong [OF one, of size] none by simp
    moreover have "expCount s < nb_blocks C"
    proof (rule ccontr)
      assume "\<not> expCount s < nb_blocks C"
      then have "blockTime env cfg h (nb_blocks C) \<le> blockTime env cfg h (expCount s)" by (intro blockTime_mono [OF B(1)]) simp
      moreover have "nb_end C < blockTime env cfg h (nb_blocks C)" using B(1,2) unfolding blocks_ok_def by blast
      ultimately show False using time early by simp
    qed
    ultimately show ?thesis using q(4) True by simp
  next
    case False
    then have "blocksTo h ?N = {#}" using arg_cong [OF bl, of size] q(5) by simp
    then show ?thesis using g(2-4) q(4) m False by simp
  qed
  ultimately show ?thesis using q(1,2) g(1) unfolding funded_def by blast
qed

section \<open>The network\<close>

lemma sum_servers_update:
  "h < length ss \<Longrightarrow> sum_list (map f (ss[h := x])) = sum_list (map f ss) - f (ss ! h) + f x" for f :: "simServer \<Rightarrow> int"
  by (induction ss arbitrary: h) (auto split: nat.splits)

definition netPot :: "netBudget \<Rightarrow> int \<Rightarrow> simWorld \<Rightarrow> int" where
  "netPot C t w = sum_list (map (serverPot C t) (servers w))"

definition blockCount :: "simWorld \<Rightarrow> int" where
  "blockCount w = sum_list (map (\<lambda>s. int (expCount s)) (servers w))"

abbreviation burstOf :: "netSpec \<Rightarrow> nat" where
  "burstOf K \<equiv> nat (blockArrivalBurst (net_cfg K))"

text \<open>
  The account of the network after \<open>d\<close> deliveries with \<open>g\<close> transactions, of a budget of \<open>D\<close>
  deliveries in all. The draw for the first block of a server is made before the run.
\<close>

definition solvent ::
  "netBudget \<Rightarrow> netSpec \<Rightarrow> int \<Rightarrow> nat \<Rightarrow> nat \<Rightarrow> (simPayload, serverId) Simulator \<Rightarrow> simWorld \<Rightarrow> bool" where
  "solvent C K D g d s w \<longleftrightarrow>
     (\<forall>i<net_size K. funded C (net_env K) (net_cfg K) (mset (mq s)) i (servers w ! i)) \<and>
     (\<forall>m\<in>set (mq s). payload m = CreateNewBlock \<longrightarrow> nb_sync C \<le> sint (forceSynchronize (net_cfg K))) \<and>
     int d + queueCost C (mset (mq s)) + netPot C (sint (stime s)) w \<le> D \<and>
     int g + int (burstOf K) * int (net_size K) = int (burstOf K) * blockCount w"

text \<open>The budget suffices for a run up to its time.\<close>

definition affords :: "netBudget \<Rightarrow> netSpec \<Rightarrow> int \<Rightarrow> bool" where
  "affords C K D \<longleftrightarrow>
     budget_ok C \<and> nb_txs C = net_N K \<and> blocks_ok C (net_env K) (net_cfg K) (net_size K) (net_b K) \<and>
     nb_end C + 2 * net_bound K < 2 ^ 63 \<and> D < 2 ^ 53 - 1 \<and>
     burstOf K * (net_size K * nb_blocks C + 1) \<le> net_N K"

lemma funded_pot:
  assumes "funded C env cfg M i s" "server_ok K truth g d t i s" "net_ok K" "g \<le> net_N K" "budget_ok C" "nb_txs C = net_N K"
  shows "0 \<le> serverPot C t' s" "t' \<le> t'' \<Longrightarrow> serverPot C t'' s \<le> serverPot C t' s"
proof -
  obtain L where L: "server_within C L s" "expCount s \<le> nb_blocks C" using assms(1) unfolding funded_def by blast
  have "card (received s) \<le> nb_txs C" using received_bound(2) [OF assms(2-4)] assms(4,6) by simp
  moreover have "0 \<le> nextTurns C t'" using assms(5) by (simp add: budget_ok_def turns_nonneg)
  ultimately show "0 \<le> serverPot C t' s" using linkSlots_nonneg [OF L(1)] L(2) by (simp add: serverPot_def)
  show "serverPot C t'' s \<le> serverPot C t' s" if "t' \<le> t''" by (rule serverPot_mono [OF L(1) assms(5) that])
qed

lemma solvent_facts:
  assumes v: "solvent C K D g d s w" and r: "run_ok K truth g d s w" and K: "net_ok K" and C: "affords C K D"
  shows "int d \<le> D" "g + burstOf K \<le> net_N K" "sint (stime s) \<le> t \<Longrightarrow> netPot C t w \<le> netPot C (sint (stime s)) w"
proof -
  let ?t = "sint (stime s)"
  have c: "budget_ok C" "nb_txs C = net_N K" "burstOf K * (net_size K * nb_blocks C + 1) \<le> net_N K"
    using C by (simp_all add: affords_def)
  have w: "length (servers w) = net_size K" "g \<le> net_N K"
    "\<And>i. i < net_size K \<Longrightarrow> server_ok K truth g d ?t i (servers w ! i)" using r by (simp_all add: run_ok_def world_ok_def)
  have f: "\<And>i. i < net_size K \<Longrightarrow> funded C (net_env K) (net_cfg K) (mset (mq s)) i (servers w ! i)"
    using v by (simp add: solvent_def)
  have pot: "0 \<le> serverPot C t' x \<and> (t' \<le> t'' \<longrightarrow> serverPot C t'' x \<le> serverPot C t' x) \<and> expCount x \<le> nb_blocks C"
    if x: "x \<in> set (servers w)" for x t' t''
  proof -
    obtain i where i: "i < net_size K" "x = servers w ! i" using x w(1) by (metis in_set_conv_nth)
    show ?thesis using funded_pot [OF f [OF i(1)] w(3) [OF i(1)] K w(2) c(1,2)] f [OF i(1)] by (simp add: i(2) funded_def)
  qed
  have "0 \<le> netPot C ?t w" unfolding netPot_def by (rule sum_list_nonneg) (use pot in auto)
  then show "int d \<le> D" using v queueCost_nonneg [OF c(1), of "mset (mq s)"] by (simp add: solvent_def)
  show "netPot C t w \<le> netPot C ?t w" if "?t \<le> t"
    unfolding netPot_def by (rule sum_list_mono) (use pot that in blast)
  have "blockCount w \<le> (\<Sum>x\<leftarrow>servers w. int (nb_blocks C))"
    unfolding blockCount_def by (rule sum_list_mono) (use pot in simp)
  then have "blockCount w \<le> int (net_size K * nb_blocks C)" using w(1) by (simp add: sum_list_triv)
  then have "int (burstOf K) * blockCount w \<le> int (burstOf K) * int (net_size K * nb_blocks C)" by (rule mult_left_mono) simp
  moreover have "int (burstOf K) * blockCount w = int g + int (burstOf K) * int (net_size K)" using v by (simp add: solvent_def)
  moreover have "0 \<le> int (burstOf K) * int (net_size K)" by simp
  ultimately have "int g \<le> int (burstOf K) * int (net_size K * nb_blocks C)" by linarith
  then have "int g \<le> int (burstOf K * (net_size K * nb_blocks C))" by (simp only: of_nat_mult)
  then have "g \<le> burstOf K * (net_size K * nb_blocks C)" by (simp only: of_nat_le_iff)
  then show "g + burstOf K \<le> net_N K" using c(3) by (simp add: algebra_simps)
qed

lemma out_delay:
  assumes "out_ok K truth g h v" "0 \<le> sint t" "sint t + net_bound K < 2 ^ 63"
  shows "sint (t + Delay v) = sint t + sint (Delay v)"
proof -
  have "0 \<le> sint (Delay v)" "sint (Delay v) \<le> net_bound K" using assms(1) by (simp_all add: out_ok_def)
  then have "- (2 ^ 63) \<le> sint t + sint (Delay v)" "sint t + sint (Delay v) < 2 ^ 63" using assms(2,3) by linarith+
  then show ?thesis by (rule sint_add)
qed

lemma arrivals_count:
  assumes "mok K truth g from h pl"
  shows "arrivals pl = (if isBlock pl then burstOf K else 0)"
  using assms by (auto simp: arrivals_def mok_def isBlock_def split: simPayload.splits)

lemma delivery_solvent:
  assumes v: "solvent C K D g d s w" and r: "run_ok K truth g d s w" and K: "net_ok K" and C: "affords C K D"
    and ne: "\<not> Drained s" and t: "sint (stime s) \<le> nb_end C"
  shows "\<exists>s' w' truth' g'. deliverNextMessage (sim_HandleMessage (net_env K)) s w = Some (Inr (s', w')) \<and>
    run_ok K truth' g' (Suc d) s' w' \<and> (sint (stime s') \<le> nb_end C \<longrightarrow> solvent C K D g' (Suc d) s' w')"
proof -
  let ?M = "mset (mq s)" and ?n = "net_size K" and ?env = "net_env K" and ?cfg = "net_cfg K"
  have c: "budget_ok C" "nb_txs C = net_N K" "blocks_ok C ?env ?cfg ?n (net_b K)" "nb_end C + 2 * net_bound K < 2 ^ 63"
    "D < 2 ^ 53 - 1" using C by (simp_all add: affords_def)
  note sf = solvent_facts [OF v r K C]
  have "int d < 2 ^ 53 - 1" using sf(1) c(5) by linarith
  then have d: "d < 2 ^ 53 - 1" by simp
  have st: "sint (stime s) + 2 * net_bound K < 2 ^ 63" using t c(4) by linarith
  obtain m rest h w' nm truth' where dl: "?M = add_mset m (mset rest)" "\<forall>x\<in>set rest. earlier m x"
    "mto m = Some h" "mok K truth g (mfrom m) h (payload m)"
    "sint (stime s) \<le> sint (arrival m)" "sint (arrival m) \<le> sint (stime s) + net_bound K"
    "sim_HandleMessage ?env h (payload m) (mfrom m) (arrival m) w = Some (Inr (w', nm))"
    "\<forall>v\<in>set nm. out_ok K truth' (g + arrivals (payload m)) h v"
    "deliverNextMessage (sim_HandleMessage ?env) s w =
       Some (Inr (scheduleAll nm (mto m) (s\<lparr>mq := rest, stime := arrival m\<rparr>), w'))"
    "run_ok K truth' (g + arrivals (payload m)) (Suc d) (scheduleAll nm (mto m) (s\<lparr>mq := rest, stime := arrival m\<rparr>)) w'"
    by (rule delivery_runs [OF K r ne st sf(2) d])
  let ?s' = "scheduleAll nm (mto m) (s\<lparr>mq := rest, stime := arrival m\<rparr>)" and ?ts = "sint (arrival m)"
  let ?new = "queuedAll (arrival m) (Some h) (seq s) nm"
  have s': "stime ?s' = arrival m" "mset (mq ?s') = mset rest + mset ?new"
    using scheduleAll_spec [of "mto m" nm "s\<lparr>mq := rest, stime := arrival m\<rparr>"] dl(3) by simp_all
  have "solvent C K D (g + arrivals (payload m)) (Suc d) ?s' w'" if early: "?ts \<le> nb_end C"
  proof -
    have w: "length (servers w) = ?n" "g \<le> net_N K" "0 \<le> sint (stime s)"
      "\<And>i. i < ?n \<Longrightarrow> server_ok K truth g d (sint (stime s)) i (servers w ! i)" using r by (simp_all add: run_ok_def world_ok_def)
    have f: "\<And>i. i < ?n \<Longrightarrow> funded C ?env ?cfg (add_mset m (mset rest)) i (servers w ! i)"
      using v dl(1) by (simp add: solvent_def)
    have h: "h < ?n" using dl(4) by (simp add: mok_def)
    have B: "0 \<le> net_bound K" "net_b K \<le> net_bound K" "orders_keys ?env" using K by (simp_all add: net_ok_def net_bound_def)
    have ts: "0 \<le> ?ts" "?ts + net_bound K < 2 ^ 63" "?ts + net_b K < 2 ^ 63" using early c(4) w(3) dl(5) B by linarith+
    obtain L where L: "server_within C L (servers w ! h)" "L + loopsTo h (add_mset m (mset rest)) \<le> card (received (servers w ! h))"
      "config (servers w ! h) = ?cfg" using f [OF h] unfolding funded_def by blast
    have "card (received (servers w ! h)) \<le> nb_txs C" using received_bound(2) [OF w(4) [OF h] K w(2)] w(2) c(2) by simp
    then have Lt: "(if isLoop (payload m) then Suc L else L) \<le> nb_txs C" using L(2) dl(3) by (simp split: if_splits)
    have "\<forall>x\<in>#?M. payload x = CreateNewBlock \<longrightarrow> nb_sync C \<le> sint (forceSynchronize ?cfg)" using v by (simp add: solvent_def)
    then have sy: "\<forall>x\<in>#add_mset m (mset rest). payload x = CreateNewBlock \<longrightarrow> nb_sync C \<le> sint (forceSynchronize ?cfg)"
      unfolding dl(1) .
    then have sync: "payload m = CreateNewBlock \<longrightarrow> nb_sync C \<le> sint (forceSynchronize (config (servers w ! h)))"
      using L(3) by simp
    obtain x where x: "servers w' = (servers w)[h := x]" "paid C ?env L ?ts h (payload m) (servers w ! h) x nm"
      using HandleMessage_paid [OF dl(7) L(1) c(1) early Lt B(3) sync] by blast
    have ln: "\<forall>v\<in>set nm. isLink (Payload v) \<or> To v = None" and cnb: "\<forall>v\<in>set nm. Payload v = CreateNewBlock \<longrightarrow> payload m = CreateNewBlock"
      using x(2) by (simp_all add: paid_def)
    have "funded C ?env ?cfg (mset rest + mset ?new) i (servers w' ! i)" if i: "i < ?n" for i
    proof (cases "i = h")
      case True
      then show ?thesis using funded_handler [OF f [OF h] dl(3) early L(1,2) x(2) c(3) h ts(3,1)] w(1) h by (simp add: x(1))
    next
      case False
      then have "image_mset arrival (blocksTo i (mset ?new)) = {#}" using queued_blocks [OF ln] by simp
      then have "blocksTo i (mset ?new) = {#}" by simp
      then show ?thesis using funded_other [OF f [OF i] dl(3) False] queued_loops [OF ln] False by (simp add: x(1))
    qed
    moreover have "payload y = CreateNewBlock \<longrightarrow> nb_sync C \<le> sint (forceSynchronize ?cfg)" if "y \<in> set (mq ?s')" for y
    proof -
      have "y \<in># mset rest + mset ?new" using that s'(2) by (metis set_mset_mset)
      then consider "y \<in># mset rest" | "y \<in># mset ?new" by auto
      then show ?thesis
      proof cases
        case 1
        then show ?thesis using sy by auto
      next
        case 2
        obtain v where "v \<in> set nm" "payload y = Payload v" using queued_payload [OF 2] by blast
        then have "payload y = CreateNewBlock \<longrightarrow> payload m = CreateNewBlock" using cnb by auto
        then show ?thesis using sy by simp
      qed
    qed
    moreover have "int (Suc d) + queueCost C (mset rest + mset ?new) + netPot C ?ts w' \<le> D"
    proof -
      have "\<forall>v\<in>set nm. sint (arrival m + Delay v) = ?ts + sint (Delay v)" using dl(8) out_delay ts(1,2) by blast
      then have q: "queueCost C (mset ?new) = outCost C ?ts nm" by (rule queued_cost)
      have "netPot C ?ts w' = netPot C ?ts w - serverPot C ?ts (servers w ! h) + serverPot C ?ts x"
        unfolding netPot_def x(1) by (rule sum_servers_update) (use h w(1) in simp)
      moreover have "netPot C ?ts w \<le> netPot C (sint (stime s)) w" by (rule sf(3) [OF dl(5)])
      moreover have "serverPot C ?ts x + outCost C ?ts nm + 1 \<le> serverPot C ?ts (servers w ! h) + msgCost C ?ts (payload m)"
        using x(2) by (simp add: paid_def)
      moreover have "int d + (msgCost C ?ts (payload m) + queueCost C (mset rest)) + netPot C (sint (stime s)) w \<le> D"
        using v unfolding solvent_def dl(1) by simp
      ultimately show ?thesis by (simp add: q)
    qed
    moreover have "int (g + arrivals (payload m)) + int (burstOf K) * int ?n = int (burstOf K) * blockCount w'"
    proof -
      have "blockCount w' = blockCount w - int (expCount (servers w ! h)) + int (expCount x)"
        unfolding blockCount_def x(1) by (rule sum_servers_update) (use h w(1) in simp)
      moreover have "expCount x = expCount (servers w ! h) + (if isBlock (payload m) then 1 else 0)" using x(2) by (simp add: paid_def)
      moreover have "int g + int (burstOf K) * int ?n = int (burstOf K) * blockCount w" using v by (simp add: solvent_def)
      moreover obtain b where "burstOf K = b" by blast
      ultimately show ?thesis using arrivals_count [OF dl(4)] by (cases "isBlock (payload m)") (simp_all add: algebra_simps)
    qed
    ultimately show ?thesis unfolding solvent_def s' by blast
  qed
  then have fin: "sint (stime ?s') \<le> nb_end C \<longrightarrow> solvent C K D (g + arrivals (payload m)) (Suc d) ?s' w'"
    unfolding s'(1) by (rule impI)
  show ?thesis by (intro exI conjI) (rule dl(9), rule dl(10), rule fin)
qed

end
