(* ===== verification/Sim_Report.thy ===== *)
theory Sim_Report
  imports Sim_Funded
begin

text \<open>
  Runs of \<open>simulator/main.go\<close> up to the end of its reports: \<open>RunUntil\<close> returns, for it makes no
  more deliveries than the budget has, and so does the reporting loop. The network that
  \<open>setupNetwork\<close> builds has a budget that its configuration determines: no codeword is in
  flight, no transaction is registered, and every server waits for its first block.
\<close>

section \<open>Running until a time\<close>

definition going :: "netBudget \<Rightarrow> netSpec \<Rightarrow> int \<Rightarrow> (simPayload, serverId) Simulator \<Rightarrow> simWorld \<Rightarrow> bool" where
  "going C K D s w \<longleftrightarrow>
     (\<exists>truth g d. run_ok K truth g d s w \<and> (sint (stime s) \<le> nb_end C \<longrightarrow> solvent C K D g d s w))"

lemma RunUntil_stops:
  "Drained s \<or> sint t < sint (stime s) \<Longrightarrow> RunUntil handle t s w = Some (Inr (s, w))"
  by (subst RunUntil.simps) auto

lemma RunUntil_going:
  assumes K: "net_ok K" and C: "affords C K D" and t: "sint t \<le> nb_end C"
    and r: "run_ok K truth g d s w" "sint (stime s) \<le> nb_end C \<longrightarrow> solvent C K D g d s w"
  shows "\<exists>s' w'. RunUntil (sim_HandleMessage (net_env K)) t s w = Some (Inr (s', w')) \<and> going C K D s' w' \<and>
    (Drained s' \<or> sint t < sint (stime s'))"
  using r
proof (induction "nat (D - int d)" arbitrary: truth g d s w rule: less_induct)
  case less
  show ?case
  proof (cases "Drained s \<or> sint t < sint (stime s)")
    case True
    have "going C K D s w" using less.prems unfolding going_def by blast
    then show ?thesis using True by (intro exI [of _ s] exI [of _ w] conjI RunUntil_stops)
  next
    case False
    then have st: "\<not> Drained s" "sint (stime s) \<le> sint t" by simp_all
    then have early: "sint (stime s) \<le> nb_end C" using t by simp
    have sv: "solvent C K D g d s w" using less.prems(2) early by blast
    obtain s1 w1 truth1 g1 where s1: "deliverNextMessage (sim_HandleMessage (net_env K)) s w = Some (Inr (s1, w1))"
      "run_ok K truth1 g1 (Suc d) s1 w1" "sint (stime s1) \<le> nb_end C \<longrightarrow> solvent C K D g1 (Suc d) s1 w1"
      using delivery_solvent [OF sv less.prems(1) K C st(1) early] by blast
    have step: "RunUntil (sim_HandleMessage (net_env K)) t s w = RunUntil (sim_HandleMessage (net_env K)) t s1 w1"
      using st s1(1) by (subst RunUntil.simps) simp
    show ?thesis
    proof (cases "sint (stime s1) \<le> nb_end C")
      case True
      have "solvent C K D g1 (Suc d) s1 w1" using s1(3) True by blast
      then have "int (Suc d) \<le> D" using solvent_facts(1) [OF _ s1(2) K C] by blast
      then have "nat (D - int (Suc d)) < nat (D - int d)" by simp
      then show ?thesis using less.hyps [OF _ s1(2,3)] unfolding step by blast
    next
      case False
      then have "sint t < sint (stime s1)" using t by simp
      moreover have "going C K D s1 w1" using s1(2,3) unfolding going_def by blast
      ultimately show ?thesis unfolding step by (intro exI [of _ s1] exI [of _ w1] conjI RunUntil_stops disjI2)
    qed
  qed
qed

section \<open>The reporting loop\<close>

abbreviation resetMetrics :: "simWorld \<Rightarrow> simWorld" where
  "resetMetrics w \<equiv> w\<lparr>servers := map (\<lambda>s. s\<lparr>metric := resetMetric (metric s)\<rparr>) (servers w)\<rparr>"

lemma going_reset:
  assumes "going C K D s w"
  shows "going C K D s (resetMetrics w)"
proof -
  obtain truth g d where r: "run_ok K truth g d s w" "sint (stime s) \<le> nb_end C \<longrightarrow> solvent C K D g d s w"
    using assms unfolding going_def by blast
  have "server_ok K truth g d t i (x\<lparr>metric := m\<rparr>) = server_ok K truth g d t i x" for t i x m
    by (simp add: server_ok_def server_knows_def)
  then have ok: "run_ok K truth g d s (resetMetrics w)" using r(1) by (simp add: run_ok_def world_ok_def)
  have len: "length (servers w) = net_size K" using r(1) by (simp add: run_ok_def world_ok_def)
  have "funded C env cfg M i (x\<lparr>metric := m\<rparr>) = funded C env cfg M i x" for env cfg M i x m
    by (simp add: funded_def server_within_def)
  moreover have "serverPot C t (x\<lparr>metric := m\<rparr>) = serverPot C t x" for t x m by (simp add: serverPot_def)
  ultimately have "solvent C K D g d s (resetMetrics w) = solvent C K D g d s w"
    using len by (simp add: solvent_def netPot_def blockCount_def comp_def)
  then show ?thesis using ok r(2) unfolding going_def by blast
qed

lemma going_servers:
  assumes "going C K D s w"
  shows "length (servers w) = net_size K"
  using assms by (auto simp: going_def run_ok_def world_ok_def)

lemma reportLoop_going:
  assumes K: "net_ok K" and C: "affords C K D" and n: "0 < net_size K"
    and dur: "sint dur \<le> nb_end C" "sint dur + sint r < 2 ^ 63" "0 < sint r"
    and "going C K D s w" "0 \<le> sint cur"
  shows "\<exists>s' w' rows. reportLoop (net_env K) dur r warmup cur warmed rate s w printed = Some (Inr (s', w', printed @ rows)) \<and>
    going C K D s' w' \<and> (sint cur < sint dur \<longrightarrow> Drained s' \<or> sint dur - sint r < sint (stime s'))"
  using assms(7,8)
proof (induction "nat (sint dur - sint cur)" arbitrary: cur warmed rate s w printed rule: less_induct)
  case less
  show ?case
  proof (cases "sint cur < sint dur")
    case False
    then show ?thesis using less.prems(1) by (subst reportLoop.simps) auto
  next
    case True
    have early: "sint cur \<le> nb_end C" using True dur(1) by simp
    obtain truth g d where g: "run_ok K truth g d s w" "sint (stime s) \<le> nb_end C \<longrightarrow> solvent C K D g d s w"
      using less.prems(1) unfolding going_def by blast
    obtain s1 w1 where s1: "RunUntil (sim_HandleMessage (net_env K)) cur s w = Some (Inr (s1, w1))" "going C K D s1 w1"
      "Drained s1 \<or> sint cur < sint (stime s1)" using RunUntil_going [OF K C early g] by blast
    have "sint (cur + r) = sint cur + sint r" using True dur(2,3) less.prems(2) by (intro sint_add) linarith+
    then have cr: "0 \<le> sint (cur + r)" "nat (sint dur - sint (cur + r)) < nat (sint dur - sint cur)"
      "\<not> sint (cur + r) < sint dur \<longrightarrow> sint dur - sint r \<le> sint cur" using True dur(3) less.prems(2) by simp_all
    have step: "\<exists>s' w' rows. reportLoop (net_env K) dur r warmup (cur + r) warmed' rate' s1 w2 (printed @ row) =
        Some (Inr (s', w', printed @ rows)) \<and> going C K D s' w' \<and> (Drained s' \<or> sint dur - sint r < sint (stime s'))"
      if w2: "going C K D s1 w2" for warmed' rate' w2 row
    proof -
      obtain s' w' rows where x: "reportLoop (net_env K) dur r warmup (cur + r) warmed' rate' s1 w2 (printed @ row) =
          Some (Inr (s', w', (printed @ row) @ rows))" "going C K D s' w'"
        "sint (cur + r) < sint dur \<longrightarrow> Drained s' \<or> sint dur - sint r < sint (stime s')"
        using less.hyps [OF cr(2) w2 cr(1)] by blast
      have "Drained s' \<or> sint dur - sint r < sint (stime s')" if no: "\<not> sint (cur + r) < sint dur"
      proof -
        have "s' = s1" using x(1) no by (subst (asm) reportLoop.simps) simp
        then show ?thesis using s1(3) cr(3) no by auto
      qed
      then show ?thesis using x by (intro exI [of _ s'] exI [of _ w'] exI [of _ "row @ rows"]) auto
    qed
    show ?thesis
    proof (cases "sint warmup < sint cur")
      case False
      then show ?thesis using step [OF s1(2), of warmed rate "[]"] True s1(1) by (subst reportLoop.simps) simp
    next
      case warm: True
      define w2 where "w2 = (if \<not> warmed then resetMetrics w1 else w1)"
      have w2: "going C K D s1 w2" using going_reset [OF s1(2)] s1(2) by (simp add: w2_def)
      have "0 < length (servers w2)" using going_servers [OF w2] n by simp
      then obtain x where x: "get (servers w2) 0 = Inr x" by (simp add: get_def)
      obtain rate' row where rr: "(let rate = difference_record rate (receivedCodewords (metric x))
          in if \<not> warmed then (rate, printed)
             else let (rate, d) = difference_get rate
                  in (rate, printed @ [(seconds (Time s1), f_div (f_of_int d) (seconds r))])) = (rate', printed @ row)"
      proof -
        have "\<exists>rate' row. (let rate = difference_record rate (receivedCodewords (metric x))
          in if \<not> warmed then (rate, printed)
             else let (rate, d) = difference_get rate
                  in (rate, printed @ [(seconds (Time s1), f_div (f_of_int d) (seconds r))])) = (rate', printed @ row)"
          by (cases warmed) (auto simp: difference_get_def Let_def)
        then show thesis using that by blast
      qed
      have eq: "reportLoop (net_env K) dur r warmup cur warmed rate s w printed =
          reportLoop (net_env K) dur r warmup (cur + r) True rate' s1 w2 (printed @ row)"
        using True warm s1(1) x rr unfolding w2_def by (subst reportLoop.simps) (auto simp: Let_def split: prod.splits if_splits)
      show ?thesis using step [OF w2, of True rate' row] unfolding eq by blast
    qed
  qed
qed

section \<open>New servers and their peers\<close>

definition freshPeer :: "serverConfig \<Rightarrow> int \<Rightarrow> simPeer \<Rightarrow> bool" where
  "freshPeer cfg l h \<longleftrightarrow>
     sbuffer (sender_of h) = [] \<and> inFlight (sender_of h) = 0 \<and> soutbox (sender_of h) = [] \<and> routbox (receiver_of h) = [] \<and>
     sendWindow (sender_of h) = sendThreshold (senderConfig cfg) \<and> sconfig (sender_of h) = senderConfig cfg \<and> l \<le> sint (pdelay h)"

definition newlyBuilt :: "serverConfig \<Rightarrow> int \<Rightarrow> nat \<Rightarrow> simServer \<Rightarrow> bool" where
  "newlyBuilt cfg l n s \<longleftrightarrow>
     config s = cfg \<and> received s = {} \<and> expCount s = 1 \<and> dom (handlers s) \<subseteq> {..<n} \<and>
     (\<forall>p h. handlers s p = Some h \<longrightarrow> freshPeer cfg l h)"

lemma addHandler_built:
  assumes "newlyBuilt cfg l n s" "l \<le> sint delay" "p < n"
  shows "newlyBuilt cfg l n (addHandler env me p delay s)"
proof -
  have "freshPeer cfg l \<lparr>sender_of = fst (newHandler env me p (config s)), receiver_of = snd (newHandler env me p (config s)), pdelay = delay\<rparr>"
    using assms(1,2) by (simp add: freshPeer_def newHandler_def newlyBuilt_def)
  then show ?thesis using assms by (auto simp: newlyBuilt_def addHandler_def split: prod.splits)
qed

lemma connectAll_built:
  assumes "connectAll env topo ss = Inr ss'" "\<forall>s\<in>set ss. newlyBuilt cfg l (length ss) s" "\<forall>(i, j, d)\<in>set topo. l \<le> sint d"
  shows "length ss' = length ss \<and> (\<forall>s\<in>set ss'. newlyBuilt cfg l (length ss) s)"
  using assms
proof (induction topo arbitrary: ss)
  case (Cons c topo)
  obtain a b delay where c: "c = (a, b, delay)" by (cases c) auto
  have l: "a < length ss" "b < length ss" "connectAll env topo (connectServers env a b delay ss) = Inr ss'"
    using Cons.prems(1) by (simp_all add: c split: if_splits)
  have d: "l \<le> sint delay" "\<forall>(i, j, d)\<in>set topo. l \<le> sint d" using Cons.prems(3) by (simp_all add: c)
  let ?s1 = "ss[a := addHandler env a b delay (ss ! a)]"
  have 1: "newlyBuilt cfg l (length ss) x" if "x \<in> set ?s1" for x
  proof -
    have "x = addHandler env a b delay (ss ! a) \<or> x \<in> set ss" using that set_update_subset_insert by fastforce
    then show ?thesis using Cons.prems(2) addHandler_built [OF _ d(1) l(2)] l(1) by auto
  qed
  have 2: "newlyBuilt cfg l (length ss) x" if x: "x \<in> set (?s1[b := addHandler env b a delay (?s1 ! b)])" for x
  proof -
    have "x = addHandler env b a delay (?s1 ! b) \<or> x \<in> set ?s1" using x set_update_subset_insert by fastforce
    moreover have "?s1 ! b \<in> set ?s1" using l(2) by (intro nth_mem) simp
    ultimately show ?thesis using 1 addHandler_built [OF _ d(1) l(1)] by blast
  qed
  then have "\<forall>s\<in>set (connectServers env a b delay ss). newlyBuilt cfg l (length (connectServers env a b delay ss)) s"
    by (simp add: connectServers_def Let_def)
  from Cons.IH [OF l(3) this d(2)] show ?case by simp
qed simp

lemma built_within:
  assumes "newlyBuilt cfg (nb_link C) n s" "window_config (senderConfig cfg)" "sendThreshold (senderConfig cfg) \<le> nb_window C" "budget_ok C"
  shows "server_within C 0 s" "linkSlots C s \<le> int n * nb_window C"
proof -
  have dom: "dom (handlers s) \<subseteq> {..<n}" using assms(1) by (simp add: newlyBuilt_def)
  have W: "0 \<le> nb_window C" using assms(4) by (simp add: budget_ok_def)
  have fin: "finite (dom (handlers s))" by (rule finite_subset [OF dom]) simp
  have p: "peer_within C 0 h \<and> peerSlots C h = nb_window C" if "handlers s p = Some h" for p h
  proof -
    have "freshPeer cfg (nb_link C) h" using assms(1) that by (simp add: newlyBuilt_def)
    then show ?thesis using assms(2,3) W by (simp add: freshPeer_def peer_within_def sender_within_def peerSlots_def)
  qed
  then show "server_within C 0 s" using assms(1) fin by (auto simp: server_within_def newlyBuilt_def)
  have "linkSlots C s = (\<Sum>p\<in>dom (handlers s). nb_window C)"
    unfolding linkSlots_def by (rule sum.cong) (use p in auto)
  also have "\<dots> \<le> int n * nb_window C" using W card_mono [OF _ dom] by (simp add: mult_right_mono)
  finally show "linkSlots C s \<le> int n * nb_window C" .
qed

section \<open>The first messages\<close>

definition queuedStart :: "netBudget \<Rightarrow> simEnv \<Rightarrow> serverConfig \<Rightarrow> nat \<Rightarrow> simQueued multiset \<Rightarrow> bool" where
  "queuedStart C env cfg i M \<longleftrightarrow>
     (\<forall>j. loopsTo j M = 0 \<and> size (blocksTo j M) \<le> (if j < i then 1 else 0) \<and>
          (\<forall>m\<in>#blocksTo j M. interval env cfg j 0 \<le> sint (arrival m))) \<and>
     (\<forall>m\<in>#M. payload m = CreateNewBlock \<longrightarrow> nb_sync C \<le> sint (forceSynchronize cfg)) \<and>
     queueCost C M \<le> int i * turns (nb_end C) (nb_sync C) (nb_sync C)"

lemma newServers_queue:
  assumes "newServers env cfg n i s res = Inr (s', res')" "stime s = 0" "queuedStart C env cfg i (mset (mq s))"
    and "budget_ok C" "blocks_ok C env cfg k b" "b < 2 ^ 63" "forceSynchronize cfg \<noteq> 0 \<longrightarrow> nb_sync C \<le> sint (forceSynchronize cfg)"
  shows "stime s' = 0 \<and> queuedStart C env cfg (i + n) (mset (mq s')) \<and>
    (\<exists>ss. res' = res @ ss \<and> length ss = n \<and> (\<forall>x\<in>set ss. x = (freshServer env cfg)\<lparr>expCount := 1\<rparr>))"
  using assms(1-3)
proof (induction n arbitrary: i s res)
  case (Suc n)
  let ?f = "freshServer env cfg"
  obtain x intv where na: "nextArrival env i ?f = Inr (x, intv)"
    using Suc.prems(1) by (auto simp: bindR_Inr_iff)
  have x: "x = ?f\<lparr>expCount := 1\<rparr>" "intv = word_of_int (interval env cfg i 0)"
    using nextArrival_accounted [OF na] by (simp_all add: freshServer_def)
  have z: "0 \<le> interval env cfg i 0" "interval env cfg i 0 \<le> b" using assms(5) unfolding blocks_ok_def by blast+
  then have si: "sint intv = interval env cfg i 0" unfolding x(2) using assms(6) by (intro sint_of_int) simp_all
  let ?v = "\<lparr>Payload = BlockArrival (blockArrivalBurst cfg), To = None, Delay = intv\<rparr> :: simMsg"
  let ?c = "\<lparr>Payload = CreateNewBlock, To = None, Delay = forceSynchronize cfg\<rparr> :: simMsg"
  define s1 where "s1 = ScheduleMessage s ?v (Some i)"
  define s2 where "s2 = (if forceSynchronize cfg \<noteq> 0 then ScheduleMessage s1 ?c (Some i) else s1)"
  have s1: "stime s1 = 0" "mset (mq s1) = add_mset (queuedFor 0 (Some i) (seq s) ?v) (mset (mq s))"
    using Suc.prems(2) by (simp_all add: s1_def ScheduleMessage_eq)
  have s2: "stime s2 = 0" "mset (mq s2) =
      (if forceSynchronize cfg \<noteq> 0 then add_mset (queuedFor 0 (Some i) (seq s1) ?c) (mset (mq s1)) else mset (mq s1))"
    using s1(1) by (simp_all add: s2_def ScheduleMessage_eq)
  have run: "newServers env cfg n (Suc i) s2 (res @ [x]) = Inr (s', res')"
    using Suc.prems(1) na by (cases "forceSynchronize cfg = 0") (simp_all add: s1_def s2_def Let_def)
  let ?t = "turns (nb_end C) (nb_sync C) (nb_sync C)"
  have t0: "0 \<le> ?t" using assms(4) by (simp add: budget_ok_def turns_nonneg)
  have ct: "turns (nb_end C) (nb_sync C) (sint (forceSynchronize cfg)) \<le> ?t" if "forceSynchronize cfg \<noteq> 0"
    using assms(4,7) that by (intro turns_mono) (simp_all add: budget_ok_def)
  have q: "queuedStart C env cfg i (mset (mq s))" by (rule Suc.prems(3))
  have "queuedStart C env cfg (Suc i) (mset (mq s2))"
    unfolding queuedStart_def
  proof (intro conjI allI)
    fix j
    have j: "loopsTo j (mset (mq s)) = 0" "size (blocksTo j (mset (mq s))) \<le> (if j < i then 1 else 0)"
      "\<forall>m\<in>#blocksTo j (mset (mq s)). interval env cfg j 0 \<le> sint (arrival m)" using q unfolding queuedStart_def by blast+
    show "loopsTo j (mset (mq s2)) = 0" using j(1) by (simp add: s1(2) s2(2) queuedFor_def isLoop_def)
    show "size (blocksTo j (mset (mq s2))) \<le> (if j < Suc i then 1 else 0)"
      using j(2) by (simp add: s1(2) s2(2) queuedFor_def isBlock_def split: if_splits)
    show "\<forall>m\<in>#blocksTo j (mset (mq s2)). interval env cfg j 0 \<le> sint (arrival m)"
      using j(3) si by (simp add: s1(2) s2(2) queuedFor_def isBlock_def)
  next
    have old: "\<forall>m\<in>#mset (mq s). payload m = CreateNewBlock \<longrightarrow> nb_sync C \<le> sint (forceSynchronize cfg)"
      "queueCost C (mset (mq s)) \<le> int i * ?t" using q unfolding queuedStart_def by blast+
    show "\<forall>m\<in>#mset (mq s2). payload m = CreateNewBlock \<longrightarrow> nb_sync C \<le> sint (forceSynchronize cfg)"
      using old(1) assms(7) by (auto simp: s1(2) s2(2) queuedFor_def)
    show "queueCost C (mset (mq s2)) \<le> int (Suc i) * ?t"
      using old(2) ct t0 by (auto simp: s1(2) s2(2) queuedFor_def msgCost_def algebra_simps)
  qed
  from Suc.IH [OF run s2(1) this]
  obtain ss where r: "stime s' = 0" "queuedStart C env cfg (Suc i + n) (mset (mq s'))" "res' = (res @ [x]) @ ss" "length ss = n"
    "\<forall>y\<in>set ss. y = ?f\<lparr>expCount := 1\<rparr>" by blast
  then show ?case using x(1) by (intro conjI exI [of _ "x # ss"]) simp_all
qed simp

section \<open>The budget of a configuration\<close>

text \<open>
  The budget of a run of \<open>n\<close> servers up to \<open>T\<close>, with \<open>N\<close> transactions at most, \<open>q\<close> block intervals
  for each server and links of delay \<open>l\<close> at least. Its deliveries: the forced synchronisations,
  the transactions and blocks of all servers, and for each link and each codeword that the
  window allows as many messages as follow each other up to \<open>T\<close>.
\<close>

definition budgetFor :: "serverConfig \<Rightarrow> int \<Rightarrow> nat \<Rightarrow> nat \<Rightarrow> int \<Rightarrow> netBudget" where
  "budgetFor cfg T N q l =
     \<lparr>nb_end = T, nb_link = l, nb_sync = max 1 (sint (forceSynchronize cfg)),
      nb_window = max (int N) (sendThreshold (senderConfig cfg)), nb_blocks = q, nb_txs = N\<rparr>"

definition deliveryBound :: "serverConfig \<Rightarrow> int \<Rightarrow> nat \<Rightarrow> nat \<Rightarrow> int \<Rightarrow> nat \<Rightarrow> int" where
  "deliveryBound cfg T N q l n =
     (let e = max 1 (sint (forceSynchronize cfg)) in
      int n * (turns T e e + int N + int q + int n * max (int N) (sendThreshold (senderConfig cfg)) * turns T l l))"

lemma setup_solvent:
  assumes s: "setupNetwork env cfg warmup smoothing topo n = Inr (s0, w0)" and st: "stime s0 = 0" and N: "N < 2 ^ 53"
    and cfg: "window_config (senderConfig cfg)" "0 \<le> sint (forceSynchronize cfg)" and l: "0 < l" "\<forall>(i, j, d)\<in>set topo. l \<le> sint d"
    and q: "0 < q" and B: "blocks_ok (budgetFor cfg T N q l) env cfg n b" "b < 2 ^ 63"
    and K: "net_env K = env" "net_cfg K = cfg" "net_size K = n"
  shows "solvent (budgetFor cfg T N q l) K (deliveryBound cfg T N q l n) 0 0 s0 w0"
proof -
  let ?C = "budgetFor cfg T N q l" and ?W = "max (int N) (sendThreshold (senderConfig cfg))"
  let ?e = "max 1 (sint (forceSynchronize cfg))"
  have f: "nb_end ?C = T" "nb_link ?C = l" "nb_sync ?C = ?e" "nb_window ?C = ?W" "nb_blocks ?C = q" "nb_txs ?C = N"
    by (simp_all add: budgetFor_def)
  have C: "budget_ok ?C" using l(1) N by (simp add: budget_ok_def f)
  obtain ss z ss' where a: "newServers env cfg n 0 emptySimulator [] = Inr (s0, ss)"
    "connectAll env topo (map (equipServer warmup (word_of_int z)) ss) = Inr ss'"
    "w0 = \<lparr>servers = ss', txgen_of = newTransactionGenerator\<rparr>"
    using s by (auto simp: setupNetwork_def bindR_Inr_iff)
  have empty: "queuedStart ?C env cfg 0 (mset (mq (emptySimulator :: (simPayload, serverId) Simulator)))"
    "stime (emptySimulator :: (simPayload, serverId) Simulator) = 0"
    by (simp_all add: queuedStart_def emptySimulator_def)
  have sync: "forceSynchronize cfg \<noteq> 0 \<longrightarrow> nb_sync ?C \<le> sint (forceSynchronize cfg)"
    using cfg(2) sint_eq_iff [of "forceSynchronize cfg" 0] by (auto simp: f)
  have ns: "queuedStart ?C env cfg n (mset (mq s0))" "length ss = n" "\<forall>x\<in>set ss. x = (freshServer env cfg)\<lparr>expCount := 1\<rparr>"
    using newServers_queue [OF a(1) empty(2,1) C B sync] by auto
  have "\<forall>x\<in>set (map (equipServer warmup (word_of_int z)) ss). newlyBuilt cfg l (length (map (equipServer warmup (word_of_int z)) ss)) x"
    using ns(3) by (auto simp: newlyBuilt_def equipServer_def freshServer_def)
  then have c: "length ss' = n" "\<forall>x\<in>set ss'. newlyBuilt cfg l n x" using connectAll_built [OF a(2) _ l(2)] ns(2) by simp_all
  have W: "sendThreshold (senderConfig cfg) \<le> nb_window ?C" by (simp add: f)
  have b: "server_within ?C 0 x" "linkSlots ?C x \<le> int n * ?W" "config x = cfg" "received x = {}" "expCount x = 1" if "x \<in> set ss'" for x
    using built_within [of cfg ?C n x, OF _ cfg(1) W C] c(2) that by (auto simp: f newlyBuilt_def)
  have qs: "loopsTo i (mset (mq s0)) = 0" "size (blocksTo i (mset (mq s0))) \<le> (if i < n then 1 else 0)"
    "\<forall>m\<in>#blocksTo i (mset (mq s0)). interval env cfg i 0 \<le> sint (arrival m)" for i
    using ns(1) unfolding queuedStart_def by blast+
  have qc: "\<forall>m\<in>#mset (mq s0). payload m = CreateNewBlock \<longrightarrow> nb_sync ?C \<le> sint (forceSynchronize cfg)"
    "queueCost ?C (mset (mq s0)) \<le> int n * turns T ?e ?e" using ns(1) unfolding queuedStart_def f by blast+
  have "funded ?C env cfg (mset (mq s0)) i (ss' ! i)" if i: "i < n" for i
  proof -
    have x: "ss' ! i \<in> set ss'" using i c(1) by simp
    have "blockTime env cfg i 1 = interval env cfg i 0" by (simp add: blockTime_def)
    then show ?thesis using b [OF x] qs [of i] i q unfolding funded_def f by (auto intro!: exI [of _ 0])
  qed
  moreover have "int 0 + queueCost ?C (mset (mq s0)) + netPot ?C (sint (stime s0)) w0 \<le> deliveryBound cfg T N q l n"
  proof -
    have t0: "0 \<le> turns T l l" by (rule turns_nonneg [OF l(1)])
    have "serverPot ?C 0 x \<le> int n * ?W * turns T l l + int N + int q" if x: "x \<in> set ss'" for x
    proof -
      have "linkSlots ?C x * turns T l l \<le> int n * ?W * turns T l l" using b(2) [OF x] t0 by (rule mult_right_mono)
      then show ?thesis using b(4,5) [OF x] by (simp add: serverPot_def f)
    qed
    then have "netPot ?C 0 w0 \<le> (\<Sum>x\<leftarrow>ss'. int n * ?W * turns T l l + int N + int q)"
      unfolding netPot_def a(3) simWorld.simps by (rule sum_list_mono)
    also have "\<dots> = int n * (int n * ?W * turns T l l + int N + int q)" using c(1) by (simp only: sum_list_triv)
    finally show ?thesis using qc(2) by (simp add: deliveryBound_def Let_def st algebra_simps)
  qed
  moreover have "blockCount w0 = int n"
  proof -
    have eq: "map (\<lambda>s. int (expCount s)) ss' = map (\<lambda>s. 1) ss'" using b(5) by simp
    show ?thesis unfolding blockCount_def a(3) simWorld.simps eq sum_list_triv c(1) by simp
  qed
  ultimately show ?thesis using qc(1) unfolding solvent_def K by (simp add: a(3))
qed

end
