(* ===== verification/Lt_Demo.thy ===== *)
theory Lt_Demo
  imports Lt_History Sim_Types
begin

text \<open>
  Concrete values for the witnesses of \<open>lt/\<close> and \<open>simulator/\<close>: the transactions of
  \<open>simulator/transaction.go\<close> with the indices 1 to 3, and a hash that returns the first byte.
\<close>

definition byteSip :: hash64 where
  "byteSip bs = ucast (hd bs)"

definition demoTruth :: "u32 \<Rightarrow> simTransaction" where
  "demoTruth h = \<lparr>tidx = ucast h, tts = 100 + ucast h\<rparr>"

definition demoEntry :: "u32 \<Rightarrow> simTransaction saltedTransaction" where
  "demoEntry h = \<lparr>saltedHash = h, tx_of = true_tx simOps demoTruth h\<rparr>"

definition demoEncoder :: "simTransaction ltEncoder" where
  "demoEncoder = \<lparr>rng = (\<lambda>k n. int n - 1), window = [demoEntry 1, demoEntry 2, demoEntry 3], hasher = byteSip,
     degreeDist = (\<lambda>k. 2), hashes = {1, 2, 3}, windowSize = 3, shuffleHistory = []\<rparr>"

lemma demo_hashes: "hashes_to simOps byteSip demoTruth {1, 2, 3}"
  by (simp add: hashes_to_def salted_def byteSip_def simOps_def simTransaction_Hash_def demoTruth_def upt_rec)

lemma demo_fair: "fair (rng demoEncoder)"
  by (simp add: fair_def demoEncoder_def)

lemma demo_encoder_ok: "encoder_ok demoEncoder"
  by (auto simp: encoder_ok_def demoEncoder_def demoEntry_def)

lemma demo_honest_tx: "h \<in> {1, 2, 3} \<Longrightarrow> honest_tx simOps byteSip demoTruth {1, 2, 3} (true_tx simOps demoTruth h)"
  using demo_hashes by (auto simp: honest_tx_def hashes_to_def true_tx_def)

lemma demo_honest_cw:
  "honest_cw simOps demoTruth {1, 2, 3}
     \<lparr>cw_symbol = data_XOR simOps (demoTruth 1) (demoTruth 2), cw_members = [1, 2]\<rparr>"
  by (simp add: honest_cw_def)

lemma simOps_laws: "data_laws simOps"
  by (rule simTx.data_laws_axioms)

definition demoHistory :: "simTransaction ltEvent list" where
  "demoHistory = [GotCodeword \<lparr>cw_symbol = data_XOR simOps (demoTruth 1) (demoTruth 2), cw_members = [1, 2]\<rparr>,
     GotTransaction (true_tx simOps demoTruth 1)]"

lemma demo_history:
  "\<forall>ev\<in>set demoHistory. honest simOps byteSip demoTruth {1, 2, 3} ev"
  "givenBy byteSip demoHistory = {1}" "wordsOf demoHistory = [[1, 2]]"
  using demo_honest_cw demo_honest_tx demo_hashes
  by (simp_all add: demoHistory_def honest_def hashes_to_def true_tx_def)

lemma demo_exact:
  assumes "3 \<le> mem"
  shows "exact simOps demoTruth {1, 2, 3} {} [] (lt_NewDecoder byteSip mem)"
  using assms demo_hashes by (simp add: exact_def agrees_def tracks_def remembers_def lt_NewDecoder_def)

end
