(* ===== verification/Sim_Properties.thy ===== *)
theory Sim_Properties
  imports Sim_Contract Lt_Demo
begin

text \<open>The properties of \<open>simulator/\<close>, with witnesses.\<close>

section \<open>Concrete values for the witnesses\<close>

definition demoConfig :: simSenderConfig where
  "demoConfig = \<lparr>controlOverhead = Fin (1 / 2), sendThreshold = 1\<rparr>"

definition demoSender :: simSender where
  "demoSender = \<lparr>sbuffer = [true_tx simOps demoTruth 1, true_tx simOps demoTruth 2], currentBlock = [],
     Encoder_of = lt_NewEncoder (\<lambda>k n. int n - 1) byteSip (\<lambda>_. 0) 0, solitons = (\<lambda>_ _ _. 2), sendWindow = 1,
     inFlight = 0, encodingCurrentBlock = False, soutbox = [], sconfig = demoConfig\<rparr>"

lemma demo_min_block: "f_to_int (f_div (f_of_int 1) (Fin (1 / 2))) = Inr 2"
  by (simp add: float_eval)

lemma demo_window_config: "window_config demoConfig"
  unfolding window_config_def
  by (intro conjI exI [of _ "1 / 2"] exI [of _ 2]) (simp_all add: demoConfig_def demo_min_block)

lemma demo_sender_ready: "sender_ready demoSender"
  by (simp add: sender_ready_def demoSender_def demo_window_config fair_def lt_NewEncoder_def positive_def)

definition demoReceiver :: simReceiver where
  "demoReceiver = \<lparr>curCodewords = [], currentBlockReceived = False, routbox = [],
     rconfig = \<lparr>detectThreshold = 0, targetCodewordLoss = Fin 0\<rparr>\<rparr>"

lemma demo_receiver_ready: "receiver_ready p demoReceiver"
  by (simp add: receiver_ready_def demoReceiver_def)

definition demoCodeword :: simCodeword where
  "demoCodeword = \<lparr>Codeword_of = \<lparr>cw_symbol = demoTruth 1, cw_members = [1]\<rparr>, newBlock = True\<rparr>"

definition demoServer :: simServer where
  "demoServer = \<lparr>handlers = [7 \<mapsto> \<lparr>sender_of = demoSender, receiver_of = demoReceiver, pdelay = 5\<rparr>],
     decoder = lt_NewDecoder byteSip 3, received = {}, expCount = 0, rangeCount = 0,
     config = \<lparr>blockArrivalIntv = Fin 1, blockArrivalBurst = 1, decoderMemory = 3, senderConfig = demoConfig,
       receiverConfig = rconfig demoReceiver, forceSynchronize = 0\<rparr>,
     latencySketch = None, overlapSketch = None, metric = \<lparr>decodedTransactions = 0, receivedCodewords = 0\<rparr>,
     forwardRateLimiter = \<lparr>lastScheduled = 100, minInterval = 10\<rparr>\<rparr>"

lemma demo_limiter: "n \<le> 3 \<Longrightarrow> limiter_ok (forwardRateLimiter demoServer) 50 n"
  by (simp add: limiter_ok_def firstSlot_def demoServer_def)

section \<open>The links\<close>

text \<open>C31: A sender whose configuration and encoder are in order always gets through
  \<open>tryFillSendWindow\<close> and stays so. It does nothing when its window is full or it has no block
  to encode; inside a block it sends codewords until the window is full; and it starts a block
  exactly from its buffer, marking the first codeword only. Every codeword mixes different
  entries of the block, which has each transaction of the buffer once per salted hash.\<close>

theorem sender_fills_window:
  assumes "sender_ready n"
  shows "\<exists>n' cws. sim_tryFillSendWindow may n = Some (Inr n') \<and> sender_ready n' \<and>
    soutbox n' = soutbox n @ map SimCodeword cws \<and> inFlight n' = inFlight n + int (length cws) \<and>
    (\<forall>cw\<in>set cws. ofBlock (Encoder_of n') cw) \<and>
    (if sendWindow n \<le> inFlight n \<or>
        \<not> encodingCurrentBlock n \<and> (\<not> may \<or> (\<exists>m. f_to_int (f_div (f_of_int (sendThreshold (sconfig n)))
          (controlOverhead (sconfig n))) = Inr m \<and> int (length (sbuffer n)) < m))
     then cws = [] \<and> (n' = n)
     else sendWindow n' \<le> inFlight n' \<and> cws \<noteq> [] \<and> (\<forall>cw\<in>set (tl cws). \<not> newBlock cw) \<and>
       (if encodingCurrentBlock n then \<not> newBlock (hd cws) \<and> sbuffer n' = sbuffer n \<and> currentBlock n' = currentBlock n
        else newBlock (hd cws) \<and> started n n'))"
proof -
  obtain m where m: "f_to_int (f_div (f_of_int (sendThreshold (sconfig n))) (controlOverhead (sconfig n))) = Inr m"
    using assms by (auto simp: sender_ready_def window_config_def)
  show ?thesis
  proof (cases "encodingCurrentBlock n")
    case True
    obtain n' cws where r: "sim_tryFillSendWindow may n = Some (Inr n')" "sender_ready n'" "sent cws n n'"
      "inFlight n' = max (inFlight n) (sendWindow n)" using fill_encoding [OF assms True] by blast
    show ?thesis
    proof (cases "sendWindow n \<le> inFlight n")
      case le: True
      then have "sim_tryFillSendWindow may n = Some (Inr n)" by (subst sim_tryFillSendWindow.simps) simp
      then show ?thesis using assms le by (intro exI [of _ n] exI [of _ "[]"]) simp
    next
      case False
      have "cws \<noteq> []" using r(3,4) False by (auto simp: sent_def)
      then show ?thesis using r True False
        by (intro exI [of _ n'] exI [of _ cws]) (cases cws; auto simp: sent_def ofBlock_def)
    qed
  next
    case False
    show ?thesis
    proof (cases "sendWindow n \<le> inFlight n \<or> \<not> may \<or> int (length (sbuffer n)) < m")
      case True
      then have "sim_tryFillSendWindow may n = Some (Inr n)"
        using fill_idle [OF assms False, of may] m by auto
      then show ?thesis using assms True False m by (intro exI [of _ n] exI [of _ "[]"]) auto
    next
      case go: False
      obtain n' cw cws where r: "sim_tryFillSendWindow True n = Some (Inr n')" "sender_ready n'" "started n n'"
        "soutbox n' = soutbox n @ map SimCodeword (cw # cws)" "inFlight n' = inFlight n + int (length (cw # cws))"
        "sendWindow n' \<le> inFlight n'" "newBlock cw" "ofBlock (Encoder_of n') cw"
        "\<forall>x\<in>set cws. \<not> newBlock x \<and> ofBlock (Encoder_of n') x"
        using fill_starting [OF assms False _ m] go by auto
      then show ?thesis using go False m by (intro exI [of _ n'] exI [of _ "cw # cws"]) auto
    qed
  qed
qed

theorem sender_fills_window_witness:
  "\<exists>n' cw cws. sim_tryFillSendWindow True demoSender = Some (Inr n') \<and> soutbox n' = SimCodeword cw # map SimCodeword cws \<and>
     newBlock cw \<and> currentBlock n' \<noteq> []"
proof -
  have c: "sendWindow demoSender = 1" "inFlight demoSender = 0" "encodingCurrentBlock demoSender = False"
    "length (sbuffer demoSender) = 2" "soutbox demoSender = []"
    "f_to_int (f_div (f_of_int (sendThreshold (sconfig demoSender))) (controlOverhead (sconfig demoSender))) = Inr 2"
    by (simp_all add: demoSender_def demoConfig_def demo_min_block)
  then obtain n' cws where r: "sim_tryFillSendWindow True demoSender = Some (Inr n')" "soutbox n' = map SimCodeword cws"
    "cws \<noteq> []" "newBlock (hd cws)" "started demoSender n'"
    using sender_fills_window [OF demo_sender_ready, of True] by auto
  have "sbuffer demoSender \<noteq> []" using c(4) by auto
  then show ?thesis using r firstOnes_nonempty
    by (intro exI [of _ n'] exI [of _ "hd cws"] exI [of _ "tl cws"]) (cases cws; auto simp: started_def)
qed

section \<open>The server\<close>

text \<open>C33: The rate limiter forwards transactions in order, one per slot: the first slot is the
  current time or one interval after the last slot, whichever is later, and the slots that
  follow are one interval apart, also from those of earlier calls.\<close>

theorem forwarding_is_limited:
  assumes "limiter_ok (forwardRateLimiter s) t (length txs)"
  shows "\<exists>s' msgs. scheduleForwardingTransactions s out txs t = (s', out @ msgs) \<and> length msgs = length txs \<and>
    (\<forall>i<length txs. Payload (msgs ! i) = Loopback (txs ! i) \<and> To (msgs ! i) = None \<and>
       sint t + sint (Delay (msgs ! i)) = firstSlot (forwardRateLimiter s) t + int i * sint (minInterval (forwardRateLimiter s))) \<and>
    minInterval (forwardRateLimiter s') = minInterval (forwardRateLimiter s) \<and>
    sint (lastScheduled (forwardRateLimiter s')) =
      (if txs = [] then sint (lastScheduled (forwardRateLimiter s))
       else firstSlot (forwardRateLimiter s) t + int (length txs - 1) * sint (minInterval (forwardRateLimiter s))) \<and>
    s' = s\<lparr>forwardRateLimiter := forwardRateLimiter s'\<rparr>"
  by (rule scheduleForwarding_spec [OF assms])

theorem forwarding_is_limited_witness:
  "\<exists>s' msgs. scheduleForwardingTransactions demoServer [] [true_tx simOps demoTruth 1, true_tx simOps demoTruth 2] 50 = (s', msgs) \<and>
     length msgs = 2 \<and> 50 + sint (Delay (msgs ! 1)) = 120 \<and> sint (lastScheduled (forwardRateLimiter s')) = 120"
proof -
  have "limiter_ok (forwardRateLimiter demoServer) 50 (length [true_tx simOps demoTruth 1, true_tx simOps demoTruth 2])"
    using demo_limiter [of "Suc (Suc 0)"] by simp
  moreover have "firstSlot (forwardRateLimiter demoServer) 50 = 110" "sint (minInterval (forwardRateLimiter demoServer)) = 10"
    by (simp_all add: firstSlot_def demoServer_def)
  ultimately show ?thesis
    using forwarding_is_limited [of demoServer 50 "[true_tx simOps demoTruth 1, true_tx simOps demoTruth 2]" "[]"] by fastforce
qed

text \<open>C34: With memory for all transactions in use, a server handles an honest codeword of a
  connected peer without a panic: it registers exactly the transactions that its decoder newly
  holds, none of which it had, counts them, schedules each once for forwarding, and answers
  with one acknowledgement. If no loss is tolerated, a positive one means that all members of
  the codewords of the block that have arrived are known; of transactions that no codeword has
  mixed it says nothing. Assumed are: transactions in use whose hashes do not collide, of which
  the server's state and the codeword are made, and a rate limiter far from its bounds.\<close>

theorem codeword_registered:
  assumes "server_knows truth H G os s" "honest_cw simOps truth H (Codeword_of m)" "handlers s from = Some h"
    and "receiver_ready (decoder s) (receiver_of h)" "length (curCodewords (receiver_of h)) < 2 ^ 53 - 1"
    and "\<And>n. n \<le> card H \<Longrightarrow> limiter_ok (forwardRateLimiter s) t n"
  shows "\<exists>s' msgs hs r yes. handleCodeword from m t s = Some (Inr (s', msgs)) \<and>
    server_knows truth H G (os @ [cw_members (Codeword_of m)]) s' \<and> distinct hs \<and>
    set hs = dom (receivedTransactions (decoder s')) - dom (receivedTransactions (decoder s)) \<and>
    map Payload msgs = map (\<lambda>h. Loopback (true_tx simOps truth h)) hs \<and>
    received s' = received s \<union> truth ` set hs \<and>
    metric s' = \<lparr>decodedTransactions = decodedTransactions (metric s) + int (length hs),
                 receivedCodewords = receivedCodewords (metric s) + 1\<rparr> \<and>
    handlers s' = (handlers s)(from \<mapsto> h\<lparr>receiver_of := r\<rparr>) \<and>
    routbox r = routbox (receiver_of h) @ [SimAck \<lparr>ackBlock = yes\<rparr>] \<and> receiver_ready (decoder s') r \<and>
    (yes \<and> targetCodewordLoss (rconfig r) = Fin 0 \<longrightarrow>
       (\<forall>c\<in>set (curCodewords r). set ((os @ [cw_members (Codeword_of m)]) ! c) \<subseteq> dom (receivedTransactions (decoder s'))))"
  by (rule exE [OF handleCodeword_full [where t = t, OF assms]], assumption, elim exE conjE, intro exI conjI; assumption)

theorem codeword_registered_witness:
  "\<exists>s' msgs. handleCodeword 7 demoCodeword 50 demoServer = Some (Inr (s', msgs)) \<and>
     receivedCodewords (metric s') = 1"
proof -
  have "inj_on demoTruth {1, 2, 3}" by (simp add: inj_on_def demoTruth_def)
  then have k: "server_knows demoTruth {1, 2, 3} {} [] demoServer"
    using demo_exact [of 3] NewDecoder_ok [of 3 byteSip]
    by (simp add: server_knows_def demoServer_def) (simp add: lt_NewDecoder_def)
  have c: "honest_cw simOps demoTruth {1, 2, 3} (Codeword_of demoCodeword)"
    using simTx.zero_right by (simp add: honest_cw_def demoCodeword_def)
  have h: "handlers demoServer 7 = Some \<lparr>sender_of = demoSender, receiver_of = demoReceiver, pdelay = 5\<rparr>"
    "curCodewords demoReceiver = []" "receivedCodewords (metric demoServer) = 0"
    by (simp_all add: demoServer_def demoReceiver_def)
  show ?thesis
    using codeword_registered [OF k c h(1), of 50] demo_receiver_ready demo_limiter h(2,3) by fastforce
qed

end
