(* ===== verification/Sim_Run_Properties.thy ===== *)
theory Sim_Run_Properties
  imports Sim_Report Sim_Properties
begin

text \<open>The property of whole runs of \<open>simulator/\<close>, up to the last report, with its witness; and before it
  what holds after any number of deliveries, with less assumed of delays and intervals.\<close>

definition demoSimEnv :: simEnv where
  "demoSimEnv = \<lparr>env_sip = byteSip, env_exp = (\<lambda>_ _. Fin 1), env_order = (\<lambda>_ _. sorted_list_of_set),
     env_rng = (\<lambda>_ _ k n. int n - 1), env_solitons = (\<lambda>_ _ _ _ _. 2)\<rparr>"

definition demoSimTopo :: "(serverId \<times> serverId \<times> duration) list" where
  "demoSimTopo = [(0, 1, 5)]"

lemma demo_config_ok: "sim_config_ok demoSimEnv (config demoServer) 3 5" "topo_ok demoSimTopo 2 5"
proof -
  have "noCollision byteSip 3"
    by (auto simp: noCollision_def inj_on_def lessThan_Suc numeral_3_eq_3 hashOf_def salted_def byteSip_def
      simTransaction_Hash_def upt_rec)
  moreover have "orders_keys demoSimEnv" by (simp add: orders_keys_def demoSimEnv_def)
  moreover have "arrivals_within demoSimEnv (config demoServer) 5"
    by (simp add: arrivals_within_def demoSimEnv_def demoServer_def float_eval)
  moreover have "window_config (senderConfig (config demoServer))" by (simp add: demoServer_def demo_window_config)
  moreover have "targetCodewordLoss (receiverConfig (config demoServer)) = Fin 0" by (simp add: demoServer_def demoReceiver_def)
  ultimately show "sim_config_ok demoSimEnv (config demoServer) 3 5"
    by (simp add: sim_config_ok_def) (simp add: demoSimEnv_def demoServer_def fair_def positive_def)
  show "topo_ok demoSimTopo 2 5" by (simp add: topo_ok_def demoSimTopo_def)
qed

lemma demo_interval: "f_to_int (f_mul (f_div (Fin 1) (Fin 1)) (Fin 1000000000)) = Inr 1000000000"
  by (simp add: float_eval)

section \<open>Runs\<close>

text \<open>The network that \<open>setupNetwork\<close> builds runs safely: if no two of the transactions that
  may be generated collide and the decoders can remember them all, then as long as time and
  transactions last no delivery panics or hangs, every delivery takes the clock forward by no
  more than the longest delay, and at every moment each server has registered precisely the
  transactions its decoder holds, all of which have been generated.\<close>

theorem network_runs:
  assumes "sim_config_ok env cfg N b" "topo_ok topo n b" "0 < n"
    and "f_to_int (f_mul (f_div (Fin 1) smoothing) (Fin 1000000000)) = Inr z" "0 \<le> z" "0 \<le> t"
    and "t + 2 * (b + (2 * int N + 1) * z) < 2 ^ 63" "k < 2 ^ 53"
  shows "\<exists>s0 w0. setupNetwork env cfg warmup smoothing topo n = Inr (s0, w0) \<and>
    (paced env cfg N t k s0 w0 \<longrightarrow>
     (\<exists>s w txs. deliveries env k s0 w0 = Some (Inr (s, w)) \<and>
       sint (stime s) \<le> int k * (b + (2 * int N + 1) * z) \<and> generated w \<le> k * nat (blockArrivalBurst cfg) \<and>
       length (servers w) = n \<and> map tidx txs = map of_nat [0..<generated w] \<and>
       (\<forall>srv\<in>set (servers w). received srv = data ` ran (receivedTransactions (decoder srv)) \<and> received srv \<subseteq> set txs)))"
proof -
  let ?K = "specOf env cfg topo n N b (word_of_int z)"
  have b: "0 \<le> b + (2 * int N + 1) * z" using assms(1,5) by (simp add: sim_config_ok_def)
  moreover have "B < c" if "0 \<le> B" "t + 2 * B < c" for B c using that assms(6) by linarith
  ultimately have z: "b + (2 * int N + 1) * z < 2 ^ 63" using assms(7) by blast
  obtain s0 w0 where r: "setupNetwork env cfg warmup smoothing topo n = Inr (s0, w0)" "net_ok ?K"
    "net_bound ?K = b + (2 * int N + 1) * z" "stime s0 = 0" "run_ok ?K (\<lambda>_. \<lparr>tidx = 0, tts = 0\<rparr>) 0 0 s0 w0"
    using setup_ok [OF assms(1,2,5) z assms(3,4), of warmup] by blast
  have f: "net_env ?K = env" "net_cfg ?K = cfg" "net_N ?K = N" "net_size ?K = n" by (simp_all add: specOf_def)
  have "\<exists>s w txs. deliveries env k s0 w0 = Some (Inr (s, w)) \<and>
       sint (stime s) \<le> int k * (b + (2 * int N + 1) * z) \<and> generated w \<le> k * nat (blockArrivalBurst cfg) \<and>
       length (servers w) = n \<and> map tidx txs = map of_nat [0..<generated w] \<and>
       (\<forall>srv\<in>set (servers w). received srv = data ` ran (receivedTransactions (decoder srv)) \<and> received srv \<subseteq> set txs)"
    if p: "paced env cfg N t k s0 w0"
  proof -
    have t: "t + 2 * net_bound ?K < 2 ^ 63" using assms(7) by (simp only: r(3))
    have p': "paced (net_env ?K) (net_cfg ?K) (net_N ?K) t k s0 w0" using p by (simp only: f)
    obtain s w truth g where d: "deliveries env k s0 w0 = Some (Inr (s, w))" "run_ok ?K truth g k s w"
      "g \<le> 0 + k * nat (blockArrivalBurst cfg)" "sint (stime s) \<le> sint (stime s0) + int k * net_bound ?K"
      using deliveries_keep [OF r(2,5) t assms(8) p'] unfolding f by blast
    obtain txs where h: "map tidx txs = map of_nat [0..<generated w]"
      "\<forall>srv\<in>set (servers w). received srv = data ` ran (receivedTransactions (decoder srv)) \<and> received srv \<subseteq> set txs"
      using run_holds [OF d(2) r(2)] by blast
    have "generated w = g" by (rule run_generated [OF d(2) r(2)])
    moreover have "length (servers w) = n" using d(2) by (simp add: run_ok_def world_ok_def f)
    ultimately show ?thesis using d(1,3,4) h r(3,4) by auto
  qed
  then show ?thesis using r(1) by blast
qed

theorem network_runs_witness:
  "\<exists>s0 w0 s w. setupNetwork demoSimEnv (config demoServer) 0 (Fin 1) demoSimTopo 2 = Inr (s0, w0) \<and>
     deliveries demoSimEnv 3 s0 w0 = Some (Inr (s, w)) \<and> generated w \<le> 3 \<and>
     (\<forall>srv\<in>set (servers w). received srv = data ` ran (receivedTransactions (decoder srv)))"
proof -
  let ?t = "14000000010 :: int" and ?cfg = "config demoServer"
  note run = network_runs [OF demo_config_ok _ demo_interval, of ?t _ 0]
  obtain s0 w0 where s0: "setupNetwork demoSimEnv ?cfg 0 (Fin 1) demoSimTopo 2 = Inr (s0, w0)" using run [of 0] by auto
  have one: "nat (blockArrivalBurst ?cfg) = 1" by (simp add: demoServer_def)
  have step: "\<exists>s w. deliveries demoSimEnv k s0 w0 = Some (Inr (s, w)) \<and> sint (stime s) \<le> int k * 7000000005 \<and> generated w \<le> k \<and>
      (\<forall>srv\<in>set (servers w). received srv = data ` ran (receivedTransactions (decoder srv)))"
    if "paced demoSimEnv ?cfg 3 ?t k s0 w0" "k \<le> 3" for k
    using run [of k] s0 that one by auto
  have "paced demoSimEnv ?cfg 3 ?t k s0 w0" if "k \<le> 3" for k
    using that
  proof (induction k)
    case (Suc k)
    then have p: "paced demoSimEnv ?cfg 3 ?t k s0 w0" by simp
    have "k \<le> 2" using Suc.prems by simp
    then show ?case using step [OF p] p one unfolding paced_def less_Suc_eq by fastforce
  qed (simp add: paced_def)
  then show ?thesis using step [of 3] s0 by auto
qed

section \<open>Whole runs\<close>

text \<open>C17: Every run of the program gets to its last report. If no two of the transactions that may
  be generated collide, the decoders can remember them all, links have a positive delay, and the
  intervals of each server make its last block too late for the run, then \<open>setupNetwork\<close> builds
  the network and the reporting loop returns: no delivery panics or hangs, at the end no message
  is left or the clock is in the last interval, and each server has registered precisely the
  transactions its decoder holds, all of which have been generated.\<close>

theorem simulation_reports:
  assumes cfg: "sim_config_ok env cfg N b" "topo_ok topo n b" "0 < n"
    and z: "f_to_int (f_mul (f_div (Fin 1) smoothing) (Fin 1000000000)) = Inr z" "0 \<le> z"
    and links: "0 < l" "\<forall>(i, j, d)\<in>set topo. l \<le> sint d"
    and blocks: "\<forall>i<n. sint dur < blockTime env cfg i q" "nat (blockArrivalBurst cfg) * (n * q + 1) \<le> N"
    and dur: "0 < sint dur" "sint dur + 2 * (b + (2 * int N + 1) * z) < 2 ^ 63" "0 < sint r" "sint dur + sint r < 2 ^ 63"
    and bound: "deliveryBound cfg (sint dur) N q l n < 2 ^ 53 - 1"
  shows "\<exists>s0 w0 s w rows txs. setupNetwork env cfg warmup smoothing topo n = Inr (s0, w0) \<and>
    reportLoop env dur r warmup 0 False \<lparr>lastRead = 0, current = 0\<rparr> s0 w0 [] = Some (Inr (s, w, rows)) \<and>
    (Drained s \<or> sint dur - sint r < sint (Time s)) \<and> length (servers w) = n \<and>
    map tidx txs = map of_nat [0..<generated w] \<and>
    (\<forall>srv\<in>set (servers w). received srv = data ` ran (receivedTransactions (decoder srv)) \<and> received srv \<subseteq> set txs)"
proof -
  let ?K = "specOf env cfg topo n N b (word_of_int z)" and ?C = "budgetFor cfg (sint dur) N q l"
  let ?D = "deliveryBound cfg (sint dur) N q l n"
  have b: "0 \<le> b" "0 \<le> b + (2 * int N + 1) * z" using cfg(1) z(2) by (simp_all add: sim_config_ok_def)
  moreover have "B < c" if "0 \<le> B" "t + 2 * B < c" "0 < t" for B c t :: int using that by linarith
  ultimately have zb: "b + (2 * int N + 1) * z < 2 ^ 63" using dur(1,2) by blast
  have "b \<le> b + (2 * int N + 1) * z" using z(2) by simp
  then have b63: "b < 2 ^ 63" using zb by linarith
  obtain s0 w0 where r: "setupNetwork env cfg warmup smoothing topo n = Inr (s0, w0)" "net_ok ?K"
    "net_bound ?K = b + (2 * int N + 1) * z" "stime s0 = 0" "run_ok ?K (\<lambda>_. \<lparr>tidx = 0, tts = 0\<rparr>) 0 0 s0 w0"
    using setup_ok [OF cfg(1,2) z(2) zb cfg(3) z(1), of warmup] by blast
  have f: "net_env ?K = env" "net_cfg ?K = cfg" "net_N ?K = N" "net_size ?K = n" "net_b ?K = b" by (simp_all add: specOf_def)
  have c: "window_config (senderConfig cfg)" "0 \<le> sint (forceSynchronize cfg)" "noCollision (env_sip env) N" "arrivals_within env cfg b"
    using cfg(1) by (simp_all add: sim_config_ok_def)
  have N: "N < 2 ^ 53" using noCollision_bound [OF c(3)] by simp
  have "0 < q"
  proof (rule ccontr)
    assume "\<not> 0 < q"
    then have "blockTime env cfg 0 q = 0" by (simp add: blockTime_def)
    then show False using blocks(1) cfg(3) dur(1) by force
  qed
  have "0 \<le> interval env cfg i k \<and> interval env cfg i k \<le> b" for i k
  proof -
    obtain y where "f_to_int (f_div (env_exp env i k) (blockArrivalIntv cfg)) = Inr y" "0 \<le> y" "y \<le> b"
      using c(4) unfolding arrivals_within_def by blast
    then show ?thesis by (simp add: interval_def)
  qed
  then have B: "blocks_ok ?C env cfg n b" using blocks(1) by (simp add: blocks_ok_def budgetFor_def)
  have E: "affords ?C ?K ?D"
    unfolding affords_def f r(3) using B links(1) N dur(2) bound blocks(2) by (simp add: budget_ok_def budgetFor_def)
  have "solvent ?C ?K ?D 0 0 s0 w0"
    by (rule setup_solvent [OF r(1,4) N c(1,2) links \<open>0 < q\<close> B b63 f(1,2,4)])
  then have "going ?C ?K ?D s0 w0" using r(5) unfolding going_def by blast
  moreover have "0 < net_size ?K" "sint dur \<le> nb_end ?C" using cfg(3) by (simp_all add: f budgetFor_def)
  ultimately obtain s w rows where l: "reportLoop env dur r warmup 0 False \<lparr>lastRead = 0, current = 0\<rparr> s0 w0 [] = Some (Inr (s, w, rows))"
    "going ?C ?K ?D s w" "Drained s \<or> sint dur - sint r < sint (stime s)"
    using reportLoop_going [OF r(2) E _ _ dur(4,3), of s0 w0 0 warmup False "\<lparr>lastRead = 0, current = 0\<rparr>" "[]"] dur(1)
    unfolding f by auto
  obtain truth g d where ok: "run_ok ?K truth g d s w" using l(2) unfolding going_def by blast
  obtain txs where h: "map tidx txs = map of_nat [0..<generated w]"
    "\<forall>srv\<in>set (servers w). received srv = data ` ran (receivedTransactions (decoder srv)) \<and> received srv \<subseteq> set txs"
    using run_holds [OF ok r(2)] by blast
  have len: "length (servers w) = n" using going_servers [OF l(2)] by (simp add: f)
  show ?thesis unfolding Time_def
    by (intro exI conjI) (rule r(1), rule l(1), rule l(3), rule len, rule h(1), rule h(2))
qed

definition roomyConfig :: serverConfig where
  "roomyConfig = (config demoServer)\<lparr>decoderMemory := 7\<rparr>"

lemma roomy_config_ok: "sim_config_ok demoSimEnv roomyConfig 7 5"
proof -
  have "noCollision byteSip 7"
  proof -
    have "hashOf byteSip i = of_nat i" if "i < 7" for i
    proof -
      have "i \<in> {0, 1, 2, 3, 4, 5, 6}" using that by auto
      then show ?thesis by (auto simp: hashOf_def salted_def byteSip_def simTransaction_Hash_def upt_rec)
    qed
    moreover have "i = j" if "(of_nat i :: u32) = of_nat j" "i < 7" "j < 7" for i j
      using arg_cong [OF that(1), of unat] that(2,3) by (simp add: unsigned_of_nat take_bit_nat_eq_self)
    ultimately show ?thesis by (simp add: noCollision_def inj_on_def)
  qed
  then show ?thesis using demo_config_ok(1) by (simp add: sim_config_ok_def roomyConfig_def arrivals_within_def demoSimEnv_def demoServer_def)
qed

theorem simulation_reports_witness:
  "\<exists>s0 w0 s w rows. setupNetwork demoSimEnv roomyConfig 0 (Fin 1) demoSimTopo 2 = Inr (s0, w0) \<and>
     reportLoop demoSimEnv 2 1 0 0 False \<lparr>lastRead = 0, current = 0\<rparr> s0 w0 [] = Some (Inr (s, w, rows)) \<and>
     (Drained s \<or> 1 < sint (Time s)) \<and> length (servers w) = 2"
proof -
  have i: "interval demoSimEnv roomyConfig i k = 1" for i k
    by (simp add: interval_def demoSimEnv_def roomyConfig_def demoServer_def float_eval)
  have "\<forall>i<2. sint (2 :: u64) < blockTime demoSimEnv roomyConfig i 3" by (simp add: blockTime_def i)
  moreover have "nat (blockArrivalBurst roomyConfig) * (2 * 3 + 1) \<le> 7" by (simp add: roomyConfig_def demoServer_def)
  moreover have "\<forall>(i, j, d)\<in>set demoSimTopo. 5 \<le> sint d" by (simp add: demoSimTopo_def)
  moreover have "deliveryBound roomyConfig (sint (2 :: u64)) 7 3 5 2 < 2 ^ 53 - 1"
    by (simp add: deliveryBound_def Let_def turns_def roomyConfig_def demoServer_def)
  ultimately show ?thesis
    using simulation_reports [OF roomy_config_ok demo_config_ok(2) _ demo_interval, of 5 2 3 1 0] by auto
qed

end
