(* ===== verification/Sim_Program.thy ===== *)
theory Sim_Program
  imports Loops Sim_Server Topology Moments
begin

text \<open>
  \<open>main\<close> of \<open>simulator/main.go\<close> as a whole: from the flags and the lines of the topology file to
  the printed rows and the files with the distribution of the overlaps. A file is its name and
  its rows; creating it is an input, as the operating system can refuse. The seed of the random
  generators is in the samples that \<open>simEnv\<close> holds.
\<close>

record simFlags =
  sflag_b :: int
  sflag_mem :: int
  sflag_th :: int
  sflag_txgen :: float64
  sflag_dur :: duration
  sflag_c :: float64
  sflag_r :: duration
  sflag_w :: duration
  sflag_prefix :: string
  sflag_smooth :: float64
  sflag_sync :: duration
  sflag_l :: float64

definition defaultSimFlags :: simFlags where
  "defaultSimFlags =
     \<lparr>sflag_b = 1, sflag_mem = 50000, sflag_th = 5, sflag_txgen = Fin 5, sflag_dur = 100 * 1000000000,
      sflag_c = rnd (1 / 10), sflag_r = 1000000000, sflag_w = 20 * 1000000000, sflag_prefix = ''exp'',
      sflag_smooth = Fin 100000, sflag_sync = 0, sflag_l = Fin 0\<rparr>"

definition simServerConfig :: "simFlags \<Rightarrow> serverConfig" where
  "simServerConfig fl =
     \<lparr>blockArrivalIntv = f_div (f_div (sflag_txgen fl) (f_of_int (sflag_b fl))) (Fin 1000000000),
      blockArrivalBurst = sflag_b fl, decoderMemory = sflag_mem fl,
      senderConfig = \<lparr>controlOverhead = sflag_c fl, sendThreshold = sflag_th fl\<rparr>,
      receiverConfig = \<lparr>detectThreshold = sflag_th fl, targetCodewordLoss = sflag_l fl\<rparr>,
      forceSynchronize = sflag_sync fl\<rparr>"

text \<open>A negative index is as far out of range as one beyond the servers.\<close>

definition topoIndex :: "int \<Rightarrow> topoLink \<Rightarrow> serverId \<times> serverId \<times> duration" where
  "topoIndex N c =
     (let pos = (\<lambda>i. if i < 0 then nat N else nat i) in (pos (link_a c), pos (link_b c), link_delay c))"

definition sim_getQuantiles :: "statFns \<Rightarrow> simSketch option \<Rightarrow> float64 list \<Rightarrow> float64 list result" where
  "sim_getQuantiles F t q =
     (case t of None \<Rightarrow> Inl NilDereference
        | Some sk \<Rightarrow>
            (case sketch_Quantiles F (sketch_values sk) q of None \<Rightarrow> Inl (Panic ''sketch error'') | Some res \<Rightarrow> Inr res))"

definition sim_collectMoments :: "statFns \<Rightarrow> simServer list \<Rightarrow> (simServer \<Rightarrow> float64 result) \<Rightarrow> float64 list result" where
  "sim_collectMoments F ss metr = collectMoments F ss metr"

definition sim_latency :: "statFns \<Rightarrow> rat \<Rightarrow> simServer \<Rightarrow> float64 result" where
  "sim_latency F q s = bindR (sim_getQuantiles F (latencySketch s) [rnd q]) (\<lambda>res. get res 0)"

definition simMetrics :: "statFns \<Rightarrow> duration \<Rightarrow> duration \<Rightarrow> (string \<times> (simServer \<Rightarrow> float64 result)) list" where
  "simMetrics F now warm =
     [(''# decoded transaction rate'', \<lambda>s. Inr (f_div (f_of_int (decodedTransactions (metric s))) (seconds (now - warm)))),
      (''# overhead'', \<lambda>s. Inr (f_div (f_of_int (receivedCodewords (metric s))) (f_of_int (decodedTransactions (metric s))))),
      (''# latency p5'', sim_latency F (5 / 100)),
      (''# latency p50'', sim_latency F (50 / 100)),
      (''# latency p95'', sim_latency F (95 / 100))]"

text \<open>\<open>for i := 0.0; i < 1.0; i += 0.01\<close>\<close>

partial_function (option) quantileSteps :: "float64 \<Rightarrow> float64 list \<Rightarrow> float64 list run" where
  "quantileSteps i qts =
     (if f_less i (Fin 1) then quantileSteps (f_add i (rnd (1 / 100))) (qts @ [i]) else Some (Inr qts))"

type_synonym csvFile = "string \<times> (float64 \<times> float64) list"

definition overlapFile :: "statFns \<Rightarrow> (string \<Rightarrow> bool) \<Rightarrow> string \<Rightarrow> float64 list \<Rightarrow> nat \<Rightarrow> simServer \<Rightarrow> csvFile result" where
  "overlapFile F creatable prefix qts i s =
     bindR (sim_getQuantiles F (overlapSketch s) qts) (\<lambda>qtres.
       let filename = prefix @ ''-overlap-'' @ showNat i @ ''.csv'' in
       if \<not> creatable filename then Inl (Panic ''create error'')
       else Inr (filename, map (\<lambda>(idx, val). (f_mul (f_of_int (int idx)) (rnd (1 / 100)), val)) (zip [0..<length qtres] qtres)))"

record simReport =
  srep_peers :: nat
  srep_rates :: "(float64 \<times> float64) list"
  srep_moments :: "(string \<times> float64 list) list"
  srep_files :: "csvFile list"

definition simMain :: "simEnv \<Rightarrow> statFns \<Rightarrow> (string \<Rightarrow> bool) \<Rightarrow> simFlags \<Rightarrow> string list \<Rightarrow> simReport run" where
  "simMain env F creatable fl file =
     bindO (Some (loadTopology file)) (\<lambda>(topo, N).
     bindO (Some (setupNetwork env (simServerConfig fl) (sflag_w fl) (sflag_smooth fl) (map (topoIndex N) topo) (nat N))) (\<lambda>(s, w).
     bindO (Some (get (servers w) 0)) (\<lambda>s0.
     bindO (reportLoop env (sflag_dur fl) (sflag_r fl) (sflag_w fl) 0 False \<lparr>lastRead = 0, current = 0\<rparr> s w []) (\<lambda>(s, w, rates).
     bindO (Some (eachR (\<lambda>(caption, metr) rows.
              bindR (sim_collectMoments F (servers w) metr) (\<lambda>m. Inr (rows @ [(caption, m)])))
              (simMetrics F (Time s) (sflag_w fl)) [])) (\<lambda>moments.
     bindO (quantileSteps (Fin 0) []) (\<lambda>qts.
     bindO (Some (eachR (\<lambda>(i, s) files. bindR (overlapFile F creatable (sflag_prefix fl) qts i s) (\<lambda>f. Inr (files @ [f])))
              (zip [0..<length (servers w)] (servers w)) [])) (\<lambda>files.
     Some (Inr \<lparr>srep_peers = card (dom (handlers s0)), srep_rates = rates, srep_moments = moments, srep_files = files\<rparr>))))))))"

end
