(* ===== verification/Lt_Properties.thy ===== *)
theory Lt_Properties
  imports Lt_Demo
begin

text \<open>
  The properties of \<open>lt/\<close>, with witnesses on the transactions of \<open>simulator/transaction.go\<close> and
  a hash that returns the first byte.
\<close>

section \<open>The encoder\<close>

text \<open>C26: With random numbers in range, producing a codeword of a positive degree from a window
  that is not empty returns: the codeword mixes as many different entries of the window as
  the degree asks for (all of them if it asks for more), its symbol is their exclusive or,
  and the shuffling is reverted. Degree zero, a negative degree, and an empty window panic.\<close>

theorem codeword_mixes:
  assumes "fair (rng e)"
  shows "(0 < deg \<longrightarrow> window e \<noteq> [] \<longrightarrow>
     (\<exists>e' c chosen. produceCodeword T e deg = Inr (e', c) \<and>
        window e' = window e \<and> hashes e' = hashes e \<and> windowSize e' = windowSize e \<and> hasher e' = hasher e \<and>
        degreeDist e' = degreeDist e \<and> fair (rng e') \<and>
        length chosen = min (nat deg) (length (window e)) \<and> mset chosen \<subseteq># mset (window e) \<and> mixes T chosen c)) \<and>
     (deg \<le> 0 \<or> window e = [] \<longrightarrow> (\<exists>m. produceCodeword T e deg = Inl (Panic m)))"
  using produceCodeword_spec [OF assms, of deg T] produceCodeword_fails [of deg e T] by auto

theorem codeword_mixes_witness:
  "\<exists>e' c. produceCodeword simOps demoEncoder 2 = Inr (e', c) \<and> window e' = window demoEncoder \<and> length (cw_members c) = 2"
  using codeword_mixes [OF demo_fair, of 2 simOps] by (auto simp: mixes_def demoEncoder_def)

section \<open>The decoder\<close>

text \<open>C27: Whatever codewords and transactions arrive, in whatever order, honest or not: the decoder
  never panics, every call returns, and the invariant of its pointers and queues holds after
  each.\<close>

theorem decoder_never_panics:
  assumes "0 \<le> mem"
  shows "\<exists>p out. lt_receiveAll T (lt_NewDecoder sip mem) evs = Some (Inr (p, out)) \<and> lt_ok p"
  using history_ok [OF NewDecoder_ok [OF assms]] by blast

theorem decoder_never_panics_witness:
  "\<exists>p out. lt_receiveAll simOps (lt_NewDecoder byteSip 0)
     [GotCodeword \<lparr>cw_symbol = demoTruth 7, cw_members = [1, 1, 2]\<rparr>,
      GotTransaction (true_tx simOps demoTruth 2), GotTransaction (true_tx simOps demoTruth 1)] = Some (Inr (p, out)) \<and> lt_ok p"
  by (rule decoder_never_panics) simp

text \<open>C28: If every codeword is the exclusive or of the transactions it names and every transaction
  is genuine, then every transaction the decoder reports is genuine, however little memory it
  has.\<close>

theorem decoded_genuine:
  assumes "data_laws T" "0 \<le> mem" "hashes_to T sip truth H" "\<forall>ev\<in>set evs. honest T sip truth H ev"
    and "lt_receiveAll T (lt_NewDecoder sip mem) evs = Some (Inr (p, out))"
  shows "set out \<subseteq> true_tx T truth ` H"
proof -
  have "agrees T truth H (lt_NewDecoder sip mem)" using assms(3) by (simp add: agrees_def lt_NewDecoder_def)
  then show ?thesis
    using history_genuine [OF assms(1) NewDecoder_ok [OF assms(2)] _ _ assms(5)] assms(4)
    by (simp add: lt_NewDecoder_def)
qed

theorem decoded_genuine_witness:
  "\<exists>p out. lt_receiveAll simOps (lt_NewDecoder byteSip 1) demoHistory = Some (Inr (p, out)) \<and>
           set out \<subseteq> true_tx simOps demoTruth ` {1, 2, 3}"
proof -
  obtain p out where r: "lt_receiveAll simOps (lt_NewDecoder byteSip 1) demoHistory = Some (Inr (p, out))"
    using history_ok [OF NewDecoder_ok [of 1]] by (metis zero_le_one)
  show ?thesis using decoded_genuine [OF simOps_laws _ demo_hashes demo_history(1) r] r by auto
qed

text \<open>C29: With memory for all transactions in use and honest input the decoder implements peeling:
  after any history the received hashes are exactly the closure of the given ones under the
  codewords; each derived transaction is reported once and in full; and \<open>Decoded\<close> of a
  codeword answers true exactly when all its members are known.\<close>

theorem decoder_is_peeling:
  assumes "data_laws T" "hashes_to T sip truth H" "finite H" "int (card H) \<le> mem"
    and "\<forall>ev\<in>set evs. honest T sip truth H ev"
  shows "\<exists>p out. lt_receiveAll T (lt_NewDecoder sip mem) evs = Some (Inr (p, out)) \<and>
    dom (receivedTransactions p) = peelable (givenBy sip evs) (wordsOf evs) \<and>
    learns T truth {} (givenBy sip evs) (dom (receivedTransactions p)) out \<and>
    (\<forall>h tx. receivedTransactions p h = Some tx \<longrightarrow> tx = true_tx T truth h) \<and>
    (\<forall>c<length (wordsOf evs). cw_Decoded p c = Inr (set (wordsOf evs ! c) \<subseteq> dom (receivedTransactions p)))"
proof -
  let ?p = "lt_NewDecoder sip mem"
  have mem: "0 \<le> mem" using assms(4) by linarith
  have ex: "exact T truth H {} [] ?p"
    using assms by (simp add: exact_def agrees_def tracks_def remembers_def lt_NewDecoder_def)
  obtain p out where r: "lt_receiveAll T ?p evs = Some (Inr (p, out))" using history_ok [OF NewDecoder_ok [OF mem]] by blast
  have d: "dhasher ?p = sip" "dom (receivedTransactions ?p) = {}" by (simp_all add: lt_NewDecoder_def)
  have f: "lt_ok p" "exact T truth H (givenBy sip evs) (wordsOf evs) p"
    "learns T truth {} (givenBy sip evs) (dom (receivedTransactions p)) out"
    using history_exact [OF assms(1) NewDecoder_ok [OF mem] ex _ r] assms(5) unfolding d by simp_all
  then have tr: "tracks (givenBy sip evs) (wordsOf evs) p" "agrees T truth H p" by (simp_all add: exact_def)
  have "cw_Decoded p c = Inr (set (wordsOf evs ! c) \<subseteq> dom (receivedTransactions p))" if "c < length (wordsOf evs)" for c
    using rest_closed(2) [OF f(1) tr(1) that] that tr(1) by (simp add: cw_Decoded_def tracks_def)
  then show ?thesis using r f(3) tr(2) rest_closed(1) [OF f(1) tr(1)] by (simp add: agrees_def)
qed

theorem decoder_is_peeling_witness:
  "\<exists>p out. lt_receiveAll simOps (lt_NewDecoder byteSip 3) demoHistory = Some (Inr (p, out)) \<and>
     2 \<in> dom (receivedTransactions p) \<and> cw_Decoded p 0 = Inr True"
proof -
  have p2: "2 \<in> peelable {1} [[1, 2]]"
  proof (rule peelable.peel [of "[1, 2]" _ _ "[1]"])
    show "\<forall>x\<in>set [1]. x \<in> peelable {1} [[1, 2]]" by (simp add: peelable.given)
  qed simp_all
  have "1 \<in> peelable {1} [[1, 2]]" by (rule peelable.given) simp
  then show ?thesis
    using decoder_is_peeling [OF simOps_laws demo_hashes _ _ demo_history(1), of 3] p2 unfolding demo_history(2,3)
    by auto
qed

text \<open>C30: From the encoder to the decoder: a codeword of any positive degree that the encoder mixes
  from a window of genuine transactions gives each of the chosen entries to a decoder that has
  all other entries of the window, whichever of them it lacks.\<close>

theorem codeword_recovers:
  assumes "data_laws T" "fair (rng e)" "0 < deg" "window e \<noteq> []" "genuine_window T sip truth (window e)"
    and "int (length (window e)) \<le> mem"
  shows "\<exists>e' c chosen. produceCodeword T e deg = Inr (e', c) \<and> mset chosen \<subseteq># mset (window e) \<and>
     length chosen = min (nat deg) (length (window e)) \<and>
     (\<forall>x\<in>set chosen. \<exists>p out. lt_receiveAll T (lt_NewDecoder sip mem)
          (givesAll (filter (\<lambda>y. y \<noteq> x) (window e)) @ [GotCodeword c]) = Some (Inr (p, out)) \<and> tx_of x \<in> set out)"
proof -
  obtain e' c chosen where p: "produceCodeword T e deg = Inr (e', c)" "mset chosen \<subseteq># mset (window e)"
    "length chosen = min (nat deg) (length (window e))" "mixes T chosen c"
    using produceCodeword_spec [OF assms(2-4), of T] by blast
  then show ?thesis using missing_recovered [OF assms(1,5,6) p(2,4)] by blast
qed

theorem codeword_recovers_witness:
  "\<exists>e' c. produceCodeword simOps demoEncoder 2 = Inr (e', c) \<and>
     (\<exists>x p out. lt_receiveAll simOps (lt_NewDecoder byteSip 3)
        (givesAll (filter (\<lambda>y. y \<noteq> x) (window demoEncoder)) @ [GotCodeword c]) = Some (Inr (p, out)) \<and> tx_of x \<in> set out)"
proof -
  have w: "window demoEncoder = [demoEntry 1, demoEntry 2, demoEntry 3]" by (simp add: demoEncoder_def)
  have "genuine_window simOps byteSip demoTruth (window demoEncoder)"
    using demo_hashes unfolding w genuine_window_def by (simp add: demoEntry_def hashes_to_def true_tx_def)
  moreover have "window demoEncoder \<noteq> []" "int (length (window demoEncoder)) \<le> 3" by (simp_all add: w)
  ultimately obtain e' c chosen where r: "produceCodeword simOps demoEncoder 2 = Inr (e', c)"
    "length chosen = min (nat 2) (length (window demoEncoder))"
    "\<forall>x\<in>set chosen. \<exists>p out. lt_receiveAll simOps (lt_NewDecoder byteSip 3)
        (givesAll (filter (\<lambda>y. y \<noteq> x) (window demoEncoder)) @ [GotCodeword c]) = Some (Inr (p, out)) \<and> tx_of x \<in> set out"
    using codeword_recovers [OF simOps_laws demo_fair, of 2 byteSip demoTruth 3] by auto
  then have "hd chosen \<in> set chosen" by (cases chosen) (auto simp: w)
  then show ?thesis using r by blast
qed

end
