(* ===== verification/Ldpc_Encoder.thy ===== *)
theory Ldpc_Encoder
  imports Lt_Encoder Float64
begin

unbundle bit_operations_syntax

text \<open>
  \<open>ldpc/transaction.go\<close>, \<open>ldpc/codeword.go\<close> and \<open>ldpc/encoder.go\<close>: transactions of 128 bytes, and
  the encoder that samples the window with a reservoir. \<open>TransactionData\<close> is a word of 1024 bits,
  byte \<open>k\<close> in the bits from \<open>8 * k\<close>; the source exclusive-ors it 64 bits at a time. A transaction
  has the fields of \<open>lt\<close> (\<open>serialized\<close> is \<open>data\<close>). The hash function \<open>blake2b\<close> is third-party: a
  parameter from bytes to bytes. The global \<open>math/rand\<close> is the samples it will give.
\<close>

section \<open>Transactions\<close>

type_synonym txData = "1024 word"

type_synonym ldpcTransaction = "txData ltTransaction"

type_synonym blake = "u8 list \<Rightarrow> u8 list"

text \<open>One round of \<open>TransactionData.XOR\<close>, on the 64 bits that start at byte \<open>8 * i\<close>.\<close>

definition xorWord :: "txData \<Rightarrow> nat \<Rightarrow> txData \<Rightarrow> txData" where
  "xorWord t2 i t =
     (let w = (ucast (drop_bit (64 * i) t) :: u64) XOR ucast (drop_bit (64 * i) t2);
          keep = t AND NOT (push_bit (64 * i) (mask 64))
      in keep OR push_bit (64 * i) (ucast w))"

definition ldpcXOR :: "txData \<Rightarrow> txData \<Rightarrow> txData" where
  "ldpcXOR t t2 = fold (xorWord t2) [0..<16] t"

definition Serialized :: "ldpcTransaction \<Rightarrow> u8 list" where
  "Serialized t = map (\<lambda>k. ucast (drop_bit (8 * k) (data t))) [0..<128]"

datatype dataSizeError = DataSizeError nat

text \<open>\<open>copy\<close> into the array: the word whose bytes are those of the list.\<close>

fun wordOfBytes :: "u8 list \<Rightarrow> txData" where
  "wordOfBytes [] = 0"
| "wordOfBytes (b # bs) = ucast b OR push_bit 8 (wordOfBytes bs)"

definition UnmarshalBinary :: "blake \<Rightarrow> ldpcTransaction \<Rightarrow> u8 list \<Rightarrow> dataSizeError + ldpcTransaction" where
  "UnmarshalBinary blake2b t bs =
     (if length bs \<noteq> 128 then Inl (DataSizeError (length bs))
      else let t = t\<lparr>data := wordOfBytes bs\<rparr> in Inr (t\<lparr>hash := blake2b (Serialized t)\<rparr>))"

definition zeroTransaction :: ldpcTransaction where
  "zeroTransaction = \<lparr>data = 0, hash = replicate 64 0\<rparr>"

text \<open>The data operations as \<open>lt\<close> names them.\<close>

definition ldpcOps :: "blake \<Rightarrow> txData dataOps" where
  "ldpcOps blake2b =
     \<lparr>data_XOR = ldpcXOR, data_Hash = (\<lambda>d. blake2b (Serialized \<lparr>data = d, hash = []\<rparr>)), data_zero = 0\<rparr>"

section \<open>The encoder\<close>

type_synonym ldpcCodeword = "txData ltCodeword"

record ldpcEncoder =
  lwindow :: "txData saltedTransaction list"
  lhasher :: hash64
  ldegreeDist :: "nat \<Rightarrow> u64"
  lwindowSize :: int
  lhashes :: "u32 set"

definition ldpc_NewEncoder :: "hash64 \<Rightarrow> (nat \<Rightarrow> u64) \<Rightarrow> int \<Rightarrow> ldpcEncoder" where
  "ldpc_NewEncoder siphash degs ws =
     \<lparr>lwindow = [], lhasher = siphash, ldegreeDist = degs, lwindowSize = ws, lhashes = {}\<rparr>"

definition ldpc_Reset :: "ldpcEncoder \<Rightarrow> (nat \<Rightarrow> u64) \<Rightarrow> int \<Rightarrow> ldpcEncoder" where
  "ldpc_Reset e degs ws = e\<lparr>ldegreeDist := degs, lwindow := [], lwindowSize := ws, lhashes := {}\<rparr>"

definition ldpc_AddTransaction :: "ldpcEncoder \<Rightarrow> ldpcTransaction \<Rightarrow> (ldpcEncoder \<times> bool) result" where
  "ldpc_AddTransaction e t =
     (let h = salted (lhasher e) (hash t) in
      if h \<in> lhashes e then Inr (e, False)
      else
        let tx = \<lparr>saltedHash = h, tx_of = t\<rparr> in
        bindR (trimWindow (lwindowSize e) (lwindow e @ [tx]) (insert h (lhashes e))) (\<lambda>(w, hs).
          Inr (e\<lparr>lwindow := w, lhashes := hs\<rparr>, True)))"

text \<open>\<open>rand.Float64\<close> and \<open>rand.Intn\<close>, and the functions \<open>Log\<close> and \<open>Exp\<close> of \<open>math\<close>, whose last bits are not specified.\<close>

record ldpcRand =
  floats :: "nat \<Rightarrow> float64"
  ints :: "nat \<Rightarrow> nat \<Rightarrow> int"

record mathFns =
  math_Log :: "float64 \<Rightarrow> float64"
  math_Exp :: "float64 \<Rightarrow> float64"

definition randFloat :: "ldpcRand \<Rightarrow> ldpcRand \<times> float64" where
  "randFloat g = (g\<lparr>floats := (\<lambda>k. floats g (Suc k))\<rparr>, floats g 0)"

definition randIntn :: "ldpcRand \<Rightarrow> nat \<Rightarrow> (ldpcRand \<times> int) result" where
  "randIntn g n =
     (if n = 0 then Inl (Panic ''invalid argument to Intn'')
      else Inr (g\<lparr>ints := (\<lambda>k. ints g (Suc k))\<rparr>, ints g 0 n))"

fun f_floor :: "float64 \<Rightarrow> float64" where
  "f_floor (Fin a) = Fin (of_int \<lfloor>a\<rfloor>)"
| "f_floor x = x"

text \<open>The position that the loop looks at next; the addition wraps.\<close>

definition nextMidx :: "mathFns \<Rightarrow> float64 \<Rightarrow> int \<Rightarrow> float64 \<Rightarrow> int result" where
  "nextMidx M u midx W =
     bindR (f_to_int (f_floor (f_div (math_Log M u) (math_Log M (f_sub (Fin 1) W))))) (\<lambda>k.
       Inr (sint (word_of_int (midx + (k + 1)) :: u64)))"

partial_function (option) reservoir ::
  "mathFns \<Rightarrow> txData saltedTransaction list \<Rightarrow> nat \<Rightarrow> int \<Rightarrow> float64 \<Rightarrow> txData saltedTransaction list \<Rightarrow> ldpcRand \<Rightarrow>
   (txData saltedTransaction list \<times> ldpcRand) run" where
  "reservoir M w deg midx W selected g =
     (if midx < int (length w)
      then bindO (Some (nextMidx M (snd (randFloat g)) midx W)) (\<lambda>midx.
             let g = fst (randFloat g) in
             if midx < int (length w)
             then bindO (Some (randIntn g deg)) (\<lambda>(g, r).
                    if midx < 0 \<or> r < 0 \<or> r \<ge> int (length selected) then Some (Inl IndexOutOfRange)
                    else
                      let selected = selected[nat r := w ! nat midx];
                          (g, u) = randFloat g;
                          W = f_mul W (math_Exp M (f_div (math_Log M u) (f_of_int (int deg))))
                      in reservoir M w deg midx W selected g)
             else reservoir M w deg midx W selected g)
      else Some (Inr (selected, g)))"

definition ldpc_produceCodeword ::
  "mathFns \<Rightarrow> ldpcEncoder \<Rightarrow> int \<Rightarrow> ldpcRand \<Rightarrow> (ldpcCodeword \<times> ldpcRand) run" where
  "ldpc_produceCodeword M e deg g =
     (let c = \<lparr>cw_symbol = 0, cw_members = []\<rparr>;
          deg = (if deg > int (length (lwindow e)) then int (length (lwindow e)) else deg) in
      if deg = 0 then Some (Inr (c, g))
      else if deg < 0 then Some (Inl (Panic ''makeslice: len out of range''))
      else
        let (g, u) = randFloat g;
            W = math_Exp M (f_div (math_Log M u) (f_of_int deg))
        in bindO (reservoir M (lwindow e) (nat deg) deg W (take (nat deg) (lwindow e)) g) (\<lambda>(selected, g).
             Some (Inr (\<lparr>cw_symbol = foldl ldpcXOR (cw_symbol c) (map (\<lambda>x. data (tx_of x)) selected),
                         cw_members = map saltedHash selected\<rparr>, g))))"

definition ldpc_ProduceCodeword ::
  "mathFns \<Rightarrow> ldpcEncoder \<Rightarrow> ldpcRand \<Rightarrow> (ldpcEncoder \<times> ldpcCodeword \<times> ldpcRand) run" where
  "ldpc_ProduceCodeword M e g =
     (let deg = sint (ldegreeDist e 0);
          e = e\<lparr>ldegreeDist := (\<lambda>k. ldegreeDist e (Suc k))\<rparr>
      in bindO (ldpc_produceCodeword M e deg g) (\<lambda>(c, g). Some (Inr (e, c, g))))"

section \<open>The data operations\<close>

lemma bit_xorWord:
  "bit (xorWord t2 i t) n \<longleftrightarrow>
     (if 64 * i \<le> n \<and> n < 64 * i + 64 \<and> n < 1024 then bit t n \<noteq> bit t2 n else bit t n)"
  by (auto simp: xorWord_def Let_def bit_simps dest: bit_imp_le_length)

lemma bit_xorWords:
  "bit (fold (xorWord t2) [0..<k] t) n \<longleftrightarrow> (if n < 64 * k \<and> n < 1024 then bit t n \<noteq> bit t2 n else bit t n)"
  by (induction k) (auto simp: bit_xorWord)

lemma ldpcXOR_eq: "ldpcXOR t t2 = t XOR t2"
  by (rule bit_word_eqI) (simp add: ldpcXOR_def bit_xorWords bit_simps)

lemma ldpcOps_laws: "data_laws (ldpcOps blake2b)"
  by unfold_locales (simp_all add: ldpcOps_def ldpcXOR_eq xor.assoc xor.commute xor.left_commute)

interpretation ldpc: data_laws "ldpcOps blake2b" for blake2b
  by (rule ldpcOps_laws)

text \<open>The bytes of a word and back.\<close>

lemma bit_wordOfBytes: "bit (wordOfBytes bs) n \<longleftrightarrow> n < 1024 \<and> n div 8 < length bs \<and> bit (bs ! (n div 8)) (n mod 8)"
proof (induction bs arbitrary: n)
  case (Cons b bs)
  show ?case
  proof (cases "n < 8")
    case True
    then show ?thesis by (simp add: bit_simps)
  next
    case False
    then have n: "n div 8 = Suc ((n - 8) div 8)" "n mod 8 = (n - 8) mod 8"
      by (simp_all add: div_if [of n] mod_if [of n])
    have "\<not> bit (ucast b :: txData) n" using False by (auto simp: bit_simps dest: bit_imp_le_length)
    then show ?thesis using False Cons.IH [of "n - 8"] n by (auto simp: bit_simps)
  qed
qed simp

lemma Serialized_wordOfBytes:
  assumes "length bs = 128"
  shows "Serialized \<lparr>data = wordOfBytes bs, hash = h\<rparr> = bs"
proof (rule nth_equalityI)
  show "Serialized \<lparr>data = wordOfBytes bs, hash = h\<rparr> ! k = bs ! k" if "k < length (Serialized \<lparr>data = wordOfBytes bs, hash = h\<rparr>)" for k
  proof (rule bit_word_eqI)
    fix n assume "n < LENGTH(8)"
    moreover have k: "k < 128" using that by (simp add: Serialized_def)
    ultimately have "(8 * k + n) div 8 = k" "(8 * k + n) mod 8 = n" "8 * k + n < 1024" by simp_all
    then show "bit (Serialized \<lparr>data = wordOfBytes bs, hash = h\<rparr> ! k) n = bit (bs ! k) n"
      using k \<open>n < LENGTH(8)\<close> assms by (simp add: Serialized_def bit_simps bit_wordOfBytes)
  qed
qed (simp add: Serialized_def assms)

lemma wordOfBytes_Serialized: "wordOfBytes (Serialized t) = data t"
proof (rule bit_word_eqI)
  fix n assume "n < LENGTH(1024)"
  then have n: "n < 1024" by simp
  have d: "n div 8 < 128" using n by (simp add: div_less_iff_less_mult)
  show "bit (wordOfBytes (Serialized t)) n = bit (data t) n"
    by (simp add: bit_wordOfBytes Serialized_def bit_simps n d)
qed

lemma Unmarshal_Serialized:
  "UnmarshalBinary blake2b t (Serialized u) = Inr (NewTransaction (ldpcOps blake2b) (data u))"
proof -
  have "length (Serialized u) = 128" by (simp add: Serialized_def)
  moreover have "Serialized (t\<lparr>data := data u\<rparr>) = Serialized \<lparr>data = data u, hash = []\<rparr>" by (simp add: Serialized_def)
  ultimately show ?thesis
    by (simp add: UnmarshalBinary_def wordOfBytes_Serialized NewTransaction_def ldpc.zero_left Let_def)
      (simp add: ldpcOps_def)
qed

end
