(* ===== verification/Ldpc_Sampling.thy ===== *)
theory Ldpc_Sampling
  imports Ldpc_Encoder
begin

text \<open>
  The reservoir of \<open>produceCodeword\<close> in \<open>ldpc/encoder.go\<close>: it returns, and holds as many
  different entries of the window as the degree asks for. The first position that may replace
  an entry is \<open>deg + 1\<close>: the entry at position \<open>deg\<close> is never mixed.
\<close>

section \<open>The skips of a run\<close>

text \<open>
  The samples of \<open>rand.Float64\<close> are \<open>fl\<close>: the first gives the weight before round 0, and each
  round uses one for its skip and one for the next weight.
\<close>

fun weight :: "mathFns \<Rightarrow> nat \<Rightarrow> (nat \<Rightarrow> float64) \<Rightarrow> nat \<Rightarrow> float64" where
  "weight M deg fl 0 = math_Exp M (f_div (math_Log M (fl 0)) (f_of_int (int deg)))"
| "weight M deg fl (Suc j) =
     f_mul (weight M deg fl j) (math_Exp M (f_div (math_Log M (fl (2 * j + 2))) (f_of_int (int deg))))"

definition skipAt :: "mathFns \<Rightarrow> nat \<Rightarrow> (nat \<Rightarrow> float64) \<Rightarrow> nat \<Rightarrow> int result" where
  "skipAt M deg fl j =
     f_to_int (f_floor (f_div (math_Log M (fl (2 * j + 1))) (math_Log M (f_sub (Fin 1) (weight M deg fl j)))))"

text \<open>The position of the loop before round \<open>j\<close>, as long as the skips are defined.\<close>

fun midxAt :: "mathFns \<Rightarrow> nat \<Rightarrow> (nat \<Rightarrow> float64) \<Rightarrow> nat \<Rightarrow> int" where
  "midxAt M deg fl 0 = int deg"
| "midxAt M deg fl (Suc j) = (case skipAt M deg fl j of Inl e \<Rightarrow> midxAt M deg fl j | Inr k \<Rightarrow> midxAt M deg fl j + (k + 1))"

text \<open>
  What is assumed of \<open>Log\<close> and \<open>Exp\<close> and of the samples, for a window of \<open>n\<close> entries: in every
  round that the loop executes the skip is defined and not negative. It is not when \<open>Float64\<close>
  returns 0, whose logarithm is infinite, nor when the weight has become so small that 1 minus
  it is 1, whose logarithm is 0.
\<close>

definition skips_ok :: "mathFns \<Rightarrow> nat \<Rightarrow> (nat \<Rightarrow> float64) \<Rightarrow> nat \<Rightarrow> bool" where
  "skips_ok M deg fl n \<longleftrightarrow>
     (\<forall>j<n. (\<forall>i\<le>j. midxAt M deg fl i < int n) \<longrightarrow>
        (case skipAt M deg fl j of Inl e \<Rightarrow> False | Inr k \<Rightarrow> 0 \<le> k \<and> k < 2 ^ 62))"

definition fairInts :: "(nat \<Rightarrow> nat \<Rightarrow> int) \<Rightarrow> bool" where
  "fairInts rand \<longleftrightarrow> (\<forall>k n. 0 < n \<longrightarrow> 0 \<le> rand k n \<and> rand k n < int n)"

section \<open>The reservoir\<close>

text \<open>What may be in the reservoir when the loop has looked at the positions up to \<open>midx\<close>.\<close>

definition candidates :: "'a list \<Rightarrow> nat \<Rightarrow> nat \<Rightarrow> 'a multiset" where
  "candidates w deg midx = mset (take deg w) + mset (drop (Suc deg) (take (Suc midx) w))"

lemma candidates_grow:
  assumes "deg \<le> m" "m < m'" "m' < length w"
  shows "candidates w deg m + {#w ! m'#} \<subseteq># candidates w deg m'"
proof -
  have "take (Suc m') w = take (Suc m) w @ drop (Suc m) (take (Suc m') w)"
    using assms by (metis append_take_drop_id min.absorb1 less_imp_le_nat Suc_le_mono take_take)
  then have "drop (Suc deg) (take (Suc m') w) = drop (Suc deg) (take (Suc m) w) @ drop (Suc m) (take (Suc m') w)"
    using assms by (metis (no_types, lifting) Suc_le_mono diff_is_0_eq drop0 drop_append length_take min.absorb2
        less_imp_le_nat order.strict_trans Suc_leI)
  moreover have "w ! m' \<in># mset (drop (Suc m) (take (Suc m') w))"
  proof -
    have "drop (Suc m) (take (Suc m') w) ! (m' - Suc m) = w ! m'" using assms by simp
    moreover have "m' - Suc m < length (drop (Suc m) (take (Suc m') w))" using assms by simp
    ultimately show ?thesis by (metis nth_mem set_mset_mset)
  qed
  ultimately show ?thesis by (simp add: candidates_def)
qed

lemma replace_candidate:
  assumes "mset sel \<subseteq># C" "r < length sel"
  shows "mset (sel[r := x]) \<subseteq># C + {#x#}"
  using assms by (simp add: mset_update) (meson diff_subset_eq_self subset_mset.order_trans)

lemma nextMidx_ok:
  assumes "f_to_int (f_floor (f_div (math_Log M u) (math_Log M (f_sub (Fin 1) W)))) = Inr k" "0 \<le> k" "k < 2 ^ 62"
    and "m < 2 ^ 62"
  shows "nextMidx M u (int m) W = Inr (int (m + nat k + 1))"
proof -
  have "sint (word_of_int (int m + (k + 1)) :: u64) = int m + (k + 1)"
    using assms(2-4) by (intro sint_of_int) simp_all
  then show ?thesis using assms(1,2) by (simp add: nextMidx_def del: of_int_add)
qed

lemma reservoir_spec:
  assumes "skips_ok M deg fl (length w)" "fairInts (ints g)" "floats g = (\<lambda>k. fl (2 * j + 1 + k))"
    and "deg + j \<le> m" "length w < 2 ^ 62" "0 < deg" "length sel = deg" "mset sel \<subseteq># candidates w deg m"
    and "m < length w + 2 ^ 62" "int m = midxAt M deg fl j" "\<forall>i<j. midxAt M deg fl i < int (length w)"
  shows "\<exists>sel' g'. reservoir M w deg (int m) (weight M deg fl j) sel g = Some (Inr (sel', g')) \<and>
    length sel' = deg \<and> mset sel' \<subseteq># mset (take deg w) + mset (drop (Suc deg) w) \<and> fairInts (ints g')"
  using assms(2-)
proof (induction "length w - m" arbitrary: m j sel g rule: less_induct)
  case less
  show ?case
  proof (cases "m < length w")
    case False
    then have "take (Suc m) w = w" by simp
    then show ?thesis using False less.prems
      by (intro exI [of _ sel] exI [of _ g], subst reservoir.simps) (simp add: candidates_def)
  next
    case True
    have "j < length w" using True less.prems(3) by simp
    have ex: "\<forall>i\<le>j. midxAt M deg fl i < int (length w)"
      using True less.prems(9,10) by (auto simp: order_le_less)
    have "case skipAt M deg fl j of Inl e \<Rightarrow> False | Inr k \<Rightarrow> 0 \<le> k \<and> k < 2 ^ 62"
      by (rule assms(1) [unfolded skips_ok_def, rule_format, OF \<open>j < length w\<close>]) (use ex in blast)
    then obtain k where k: "skipAt M deg fl j = Inr k" "0 \<le> k" "k < 2 ^ 62"
      by (cases "skipAt M deg fl j") simp_all
    define m' where "m' = m + nat k + 1"
    have mm: "m < m'" by (simp add: m'_def)
    have "floats g 0 = fl (2 * j + 1)" using less.prems(2) by simp
    then have nx: "nextMidx M (snd (randFloat g)) (int m) (weight M deg fl j) = Inr (int m')"
      using k True less.prems(4) unfolding skipAt_def m'_def by (intro nextMidx_ok) (simp_all add: randFloat_def)
    let ?g = "fst (randFloat g)"
    show ?thesis
    proof (cases "m' < length w")
      case False
      have "reservoir M w deg (int m') (weight M deg fl j) sel ?g = Some (Inr (sel, ?g))"
        using False by (subst reservoir.simps) simp
      then have "reservoir M w deg (int m) (weight M deg fl j) sel g = Some (Inr (sel, ?g))"
        using True False nx by (subst reservoir.simps) (simp add: Let_def)
      moreover have "candidates w deg m \<subseteq># mset (take deg w) + mset (drop (Suc deg) w)"
        by (simp add: candidates_def drop_take) (metis append_take_drop_id mset_append mset_subset_eq_add_left)
      then have "mset sel \<subseteq># mset (take deg w) + mset (drop (Suc deg) w)"
        using less.prems(7) by (rule subset_mset.order_trans [rotated])
      moreover have "fairInts (ints ?g)" using less.prems(1) by (simp add: randFloat_def)
      ultimately show ?thesis using less.prems(6) by blast
    next
      case in_range: True
      let ?r = "ints ?g 0 deg" and ?g1 = "?g\<lparr>ints := (\<lambda>k. ints ?g (Suc k))\<rparr>"
      have r: "0 \<le> ?r" "?r < int deg" using less.prems(1,5) by (simp_all add: randFloat_def fairInts_def)
      let ?sel = "sel[nat ?r := w ! m']" and ?g2 = "fst (randFloat ?g1)"
      have W: "f_mul (weight M deg fl j) (math_Exp M (f_div (math_Log M (snd (randFloat ?g1))) (f_of_int (int deg)))) = weight M deg fl (Suc j)"
        using less.prems(2) by (simp add: randFloat_def)
      have step: "reservoir M w deg (int m) (weight M deg fl j) sel g = reservoir M w deg (int m') (weight M deg fl (Suc j)) ?sel ?g2"
        using True in_range nx r less.prems(5,6) W
        by (subst reservoir.simps) (simp add: Let_def randIntn_def split_def del: weight.simps)
      have nr: "nat ?r < length sel" using r less.prems(6) by simp
      have "mset ?sel \<subseteq># candidates w deg m + {#w ! m'#}" by (rule replace_candidate [OF less.prems(7) nr])
      also have "\<dots> \<subseteq># candidates w deg m'" using less.prems(3) in_range mm by (intro candidates_grow) simp_all
      finally have sub: "mset ?sel \<subseteq># candidates w deg m'" .
      have "\<exists>sel' g'. reservoir M w deg (int m') (weight M deg fl (Suc j)) ?sel ?g2 = Some (Inr (sel', g')) \<and>
          length sel' = deg \<and> mset sel' \<subseteq># mset (take deg w) + mset (drop (Suc deg) w) \<and> fairInts (ints g')"
      proof (rule less.hyps)
        show "length w - m' < length w - m" using True mm by simp
        show "fairInts (ints ?g2)" using less.prems(1) by (simp add: randFloat_def fairInts_def)
        show "floats ?g2 = (\<lambda>k. fl (2 * Suc j + 1 + k))" using less.prems(2) by (simp add: randFloat_def)
        show "deg + Suc j \<le> m'" using less.prems(3) mm by simp
        show "m' < length w + 2 ^ 62" using in_range by simp
        show "int m' = midxAt M deg fl (Suc j)" using k less.prems(9) by (simp add: m'_def)
        show "\<forall>i<Suc j. midxAt M deg fl i < int (length w)" using ex by (simp add: less_Suc_eq_le)
      qed (use less.prems sub in simp_all)
      then show ?thesis unfolding step .
    qed
  qed
qed

section \<open>Producing a codeword\<close>

text \<open>The entries that a codeword of degree \<open>deg\<close> may mix: all but the one at position \<open>deg\<close>.\<close>

definition mixable :: "nat \<Rightarrow> 'a list \<Rightarrow> 'a list" where
  "mixable deg w = take deg w @ drop (Suc deg) w"

lemma ldpc_produce_spec:
  assumes "0 < deg" "lwindow e \<noteq> []" "length (lwindow e) < 2 ^ 62" "fairInts (ints g)"
    and "d = min (nat deg) (length (lwindow e))" "skips_ok M d (floats g) (length (lwindow e))"
  shows "\<exists>c g' chosen. ldpc_produceCodeword M e deg g = Some (Inr (c, g')) \<and> length chosen = d \<and>
    mset chosen \<subseteq># mset (mixable d (lwindow e)) \<and> mixes (ldpcOps blake2b) chosen c \<and> fairInts (ints g')"
proof -
  let ?w = "lwindow e"
  have d: "0 < d" "(if deg > int (length ?w) then int (length ?w) else deg) = int d" "d \<le> length ?w"
    using assms(1,2,5) by auto
  let ?g = "fst (randFloat g)"
  have "mset (take d ?w) \<subseteq># candidates ?w d d" by (simp add: candidates_def)
  then obtain sel g' where r: "reservoir M ?w d (int d) (weight M d (floats g) 0) (take d ?w) ?g = Some (Inr (sel, g'))"
    "length sel = d" "mset sel \<subseteq># mset (take d ?w) + mset (drop (Suc d) ?w)" "fairInts (ints g')"
    using reservoir_spec [OF assms(6), of ?g 0 d "take d ?w"] assms(3,4) d(1,3) by (auto simp: randFloat_def)
  let ?c = "\<lparr>cw_symbol = foldl ldpcXOR 0 (map (\<lambda>x. data (tx_of x)) sel), cw_members = map saltedHash sel\<rparr>"
  have "ldpc_produceCodeword M e deg g = Some (Inr (?c, g'))"
    using r(1) d(1) unfolding ldpc_produceCodeword_def Let_def d(2) by (simp add: randFloat_def)
  moreover have "mixes (ldpcOps blake2b) sel ?c" by (simp add: mixes_def ldpcOps_def)
  ultimately show ?thesis using r(2-4) by (intro exI [of _ ?c] exI [of _ g'] exI [of _ sel]) (simp add: mixable_def)
qed

end
