(* ===== verification/Ldpc_Decoder.thy ===== *)
theory Ldpc_Decoder
  imports Ldpc_Encoder Lt_Decoder
begin

text \<open>
  \<open>ldpc/decoder.go\<close>. The objects live in heaps of the decoder, as in \<open>Lt_Decoder\<close>, and so do the
  transactions (\<open>preimages\<close>), which this decoder compares as pointers when it forgets them; a
  caller allocates its transaction there before it adds it. The pools of objects
  (\<open>sync.Pool\<close>) are allocation: an object that comes from a pool is reset in every field
  before use, and the decoder keeps no pointer to an object that it has put back.
\<close>

section \<open>State\<close>

record ldpcPendingCodeword = "txData PendingCodeword" +
  freed :: bool

record recentTransaction =
  rptr :: nat
  rhash :: u32

record DecodedTransaction =
  Transaction :: nat
  Expired :: bool

record ldpcDecoder =
  lreceived :: "u32 \<rightharpoonup> nat"
  lrecent :: "recentTransaction list"
  lpending :: "u32 \<rightharpoonup> nat"
  ldhasher :: hash64
  numTransactionsDecoded :: int
  numTransactionsMemorized :: int
  preimages :: "ldpcTransaction list"
  ltxHeap :: "pendingTransaction list"
  lcwHeap :: "ldpcPendingCodeword list"

definition ldpc_NewDecoder :: "hash64 \<Rightarrow> int \<Rightarrow> ldpcDecoder" where
  "ldpc_NewDecoder siphash mem =
     \<lparr>lreceived = Map.empty, lrecent = [], lpending = Map.empty, ldhasher = siphash, numTransactionsDecoded = 0,
      numTransactionsMemorized = mem, preimages = [], ltxHeap = [], lcwHeap = []\<rparr>"

text \<open>A transaction that comes into being, with its pointer.\<close>

definition allocTx :: "ldpcDecoder \<Rightarrow> ldpcTransaction \<Rightarrow> ldpcDecoder \<times> nat" where
  "allocTx p t = (p\<lparr>preimages := preimages p @ [t]\<rparr>, length (preimages p))"

definition Free :: "ldpcDecoder \<Rightarrow> nat \<Rightarrow> ldpcDecoder result" where
  "Free p c = bindR (deref (lcwHeap p) c) (\<lambda>cw. Inr (p\<lparr>lcwHeap := (lcwHeap p)[c := cw\<lparr>freed := True\<rparr>]\<rparr>))"

definition ldpc_Decoded :: "ldpcDecoder \<Rightarrow> nat \<Rightarrow> bool result" where
  "ldpc_Decoded p c = bindR (deref (lcwHeap p) c) (\<lambda>cw. Inr (decoded cw))"

definition NumTransactionsReceived :: "ldpcDecoder \<Rightarrow> int" where
  "NumTransactionsReceived p = numTransactionsDecoded p"

section \<open>Peeling\<close>

definition ldpc_peelTransaction :: "ldpcPendingCodeword \<Rightarrow> nat \<Rightarrow> ldpcTransaction \<Rightarrow> ldpcPendingCodeword result" where
  "ldpc_peelTransaction peelable stub preimage =
     (case indexOf stub (members peelable) of
        Some idx \<Rightarrow> Inr (peelable\<lparr>members := swapRemove (members peelable) idx,
                                  symbol := ldpcXOR (symbol peelable) (data preimage)\<rparr>)
      | None \<Rightarrow> Inl (Panic ''unable to peel decoded transaction from codeword pointing to it''))"

definition ldpc_markOne ::
  "nat \<Rightarrow> ldpcTransaction \<Rightarrow> nat \<Rightarrow> nat option \<Rightarrow> ldpcDecoder \<Rightarrow> nat list \<Rightarrow> (ldpcDecoder \<times> nat list) result" where
  "ldpc_markOne tx preimage idx b p queue =
     (case b of None \<Rightarrow> Inl NilDereference
      | Some c \<Rightarrow>
          bindR (deref (lcwHeap p) c) (\<lambda>cw.
          bindR (ldpc_peelTransaction cw tx preimage) (\<lambda>cw.
            let (cw, queue) =
                  (if length (members cw) \<le> 1 \<and> \<not> queued cw then (cw\<lparr>queued := True\<rparr>, queue @ [c]) else (cw, queue))
            in bindR (deref (ltxHeap p) tx) (\<lambda>stub.
                 Inr (p\<lparr>lcwHeap := (lcwHeap p)[c := cw],
                        ltxHeap := (ltxHeap p)[tx := stub\<lparr>blocking := (blocking stub)[idx := None]\<rparr>]\<rparr>, queue)))))"

fun ldpc_markLoop ::
  "nat \<Rightarrow> ldpcTransaction \<Rightarrow> nat \<Rightarrow> nat option list \<Rightarrow> ldpcDecoder \<Rightarrow> nat list \<Rightarrow> (ldpcDecoder \<times> nat list) result" where
  "ldpc_markLoop tx preimage idx [] p queue = Inr (p, queue)"
| "ldpc_markLoop tx preimage idx (b # bs) p queue =
     bindR (ldpc_markOne tx preimage idx b p queue) (\<lambda>(p, queue). ldpc_markLoop tx preimage (idx + 1) bs p queue)"

definition ldpc_markDecoded :: "ldpcDecoder \<Rightarrow> nat \<Rightarrow> nat \<Rightarrow> nat list \<Rightarrow> (ldpcDecoder \<times> nat list) result" where
  "ldpc_markDecoded p tx preimage decodableCws =
     bindR (deref (preimages p) preimage) (\<lambda>t.
     bindR (deref (ltxHeap p) tx) (\<lambda>stub. ldpc_markLoop tx t 0 (blocking stub) p decodableCws))"

definition ldpc_failToDecode :: "ldpcDecoder \<Rightarrow> nat \<Rightarrow> (ldpcDecoder \<times> u32 \<times> bool) result" where
  "ldpc_failToDecode p c =
     bindR (deref (lcwHeap p) c) (\<lambda>cw.
       if length (members cw) \<noteq> 1 then Inl (Panic ''failing a codeword when it has more than 1 members'')
       else
         let ptr = members cw ! 0 in
         bindR (deref (ltxHeap p) ptr) (\<lambda>stub.
           case indexOf (Some c) (blocking stub) of
             None \<Rightarrow> Inl (Panic ''unable to find blocked codeword in pending transaction'')
           | Some cwIdx \<Rightarrow>
               let bs = swapRemove (blocking stub) cwIdx;
                   p = p\<lparr>lcwHeap := (lcwHeap p)[c := cw\<lparr>members := []\<rparr>],
                         ltxHeap := (ltxHeap p)[ptr := stub\<lparr>blocking := bs\<rparr>]\<rparr>
               in if length bs = 0 then Inr (p, stubHash stub, True) else Inr (p, 0, False)))"

section \<open>Storing\<close>

text \<open>A missing entry reads as a nil pointer, which no transaction has.\<close>

fun ldpc_forgetOld ::
  "int \<Rightarrow> recentTransaction list \<Rightarrow> (u32 \<rightharpoonup> nat) \<Rightarrow> (recentTransaction list \<times> (u32 \<rightharpoonup> nat)) result" where
  "ldpc_forgetOld mem [] received = (if 0 > mem then Inl IndexOutOfRange else Inr ([], received))"
| "ldpc_forgetOld mem (x # xs) received =
     (if int (length (x # xs)) > mem
      then ldpc_forgetOld mem xs (if received (rhash x) = Some (rptr x) then received(rhash x := None) else received)
      else Inr (x # xs, received))"

definition ldpc_storeNewTransaction :: "ldpcDecoder \<Rightarrow> u32 \<Rightarrow> nat \<Rightarrow> ldpcDecoder result" where
  "ldpc_storeNewTransaction p h t =
     bindR (ldpc_forgetOld (numTransactionsMemorized p) (lrecent p @ [\<lparr>rptr = t, rhash = h\<rparr>]) ((lreceived p)(h \<mapsto> t)))
       (\<lambda>(recent, received).
          Inr (p\<lparr>lrecent := recent, lreceived := received, numTransactionsDecoded := numTransactionsDecoded p + 1\<rparr>))"

section \<open>Decoding\<close>

definition ldpc_decodeOne ::
  "blake \<Rightarrow> nat \<Rightarrow> ldpcDecoder \<Rightarrow> nat list \<Rightarrow> DecodedTransaction list \<Rightarrow>
   (ldpcDecoder \<times> nat list \<times> DecodedTransaction list) result" where
  "ldpc_decodeOne blake2b c p queue newTx =
     bindR (deref (lcwHeap p) c) (\<lambda>cw.
       if \<not> queued cw then Inl (Panic ''decoding a codeword not queued'')
       else bindR
         (if length (members cw) = 0 then Inr (p, queue, newTx)
          else if length (members cw) = 1 then
            let tx = members cw ! 0 in
            bindR (deref (ltxHeap p) tx) (\<lambda>stub.
              if lreceived p (stubHash stub) = None then
                if lpending p (stubHash stub) \<noteq> None then
                  (case UnmarshalBinary blake2b zeroTransaction (Serialized \<lparr>data = symbol cw, hash = []\<rparr>) of
                     Inl err \<Rightarrow> Inl (Panic ''error unmarshalling degree-1 codeword into transaction'')
                   | Inr decodedTx \<Rightarrow>
                       let computedHash = salted (ldhasher p) (hash decodedTx); (p, ptr) = allocTx p decodedTx
                       in if computedHash \<noteq> stubHash stub then
                            bindR (ldpc_failToDecode p c) (\<lambda>(p, failedTx, failed).
                              Inr (if failed then p\<lparr>lpending := (lpending p)(failedTx := None)\<rparr> else p, queue, newTx))
                          else
                            bindR (ldpc_storeNewTransaction (p\<lparr>lpending := (lpending p)(stubHash stub := None)\<rparr>)
                                     (stubHash stub) ptr) (\<lambda>p.
                            bindR (ldpc_markDecoded p tx ptr queue) (\<lambda>(p, queue).
                              Inr (p, queue, newTx @ [\<lparr>Transaction = ptr, Expired = freed cw\<rparr>]))))
                else Inl (Panic ''unpeeled transaction is not pending'')
              else Inl (Panic ''unpeeled transaction is already received''))
          else Inl (Panic ''queued undecodable codeword''))
         (\<lambda>(p, queue, newTx).
            bindR (deref (lcwHeap p) c) (\<lambda>cw.
              if length (members cw) \<noteq> 0 then Inl (Panic ''codeword not empty after decoded'')
              else Inr (p\<lparr>lcwHeap := (lcwHeap p)[c := cw\<lparr>decoded := True\<rparr>]\<rparr>, queue, newTx))))"

partial_function (option) ldpc_decodeLoop ::
  "blake \<Rightarrow> ldpcDecoder \<Rightarrow> nat list \<Rightarrow> DecodedTransaction list \<Rightarrow> (ldpcDecoder \<times> DecodedTransaction list) run" where
  "ldpc_decodeLoop blake2b p queue newTx =
     (if queue = [] then Some (Inr (p, newTx))
      else bindO (Some (ldpc_decodeOne blake2b (last queue) p (butlast queue) newTx))
             (\<lambda>(p, queue, newTx). ldpc_decodeLoop blake2b p queue newTx))"

definition ldpc_decodeCodewords ::
  "blake \<Rightarrow> ldpcDecoder \<Rightarrow> nat list \<Rightarrow> (ldpcDecoder \<times> DecodedTransaction list) run" where
  "ldpc_decodeCodewords blake2b p queue = ldpc_decodeLoop blake2b p queue []"

section \<open>Adding codewords and transactions\<close>

definition ldpc_linkMember :: "nat \<Rightarrow> ldpcDecoder \<Rightarrow> u32 \<Rightarrow> ldpcDecoder result" where
  "ldpc_linkMember c p m =
     bindR (deref (lcwHeap p) c) (\<lambda>cw.
     case lreceived p m of
       None \<Rightarrow>
         let (p, pending) =
               (case lpending p m of
                  Some t \<Rightarrow> (p, t)
                | None \<Rightarrow> (p\<lparr>ltxHeap := ltxHeap p @ [\<lparr>stubHash = m, blocking = []\<rparr>],
                             lpending := (lpending p)(m \<mapsto> length (ltxHeap p))\<rparr>, length (ltxHeap p)))
         in bindR (deref (ltxHeap p) pending) (\<lambda>stub.
              Inr (p\<lparr>ltxHeap := (ltxHeap p)[pending := stub\<lparr>blocking := blocking stub @ [Some c]\<rparr>],
                     lcwHeap := (lcwHeap p)[c := cw\<lparr>members := members cw @ [pending]\<rparr>]\<rparr>))
     | Some received \<Rightarrow>
         if lpending p m = None then
           bindR (deref (preimages p) received) (\<lambda>t.
             Inr (p\<lparr>lcwHeap := (lcwHeap p)[c := cw\<lparr>symbol := ldpcXOR (symbol cw) (data t)\<rparr>]\<rparr>))
         else Inl (Panic ''transaction is marked both received and pending''))"

fun ldpc_linkMembers :: "nat \<Rightarrow> u32 list \<Rightarrow> ldpcDecoder \<Rightarrow> ldpcDecoder result" where
  "ldpc_linkMembers c [] p = Inr p"
| "ldpc_linkMembers c (m # ms) p = bindR (ldpc_linkMember c p m) (ldpc_linkMembers c ms)"

definition ldpc_AddCodeword ::
  "blake \<Rightarrow> ldpcDecoder \<Rightarrow> ldpcCodeword \<Rightarrow> (ldpcDecoder \<times> nat \<times> DecodedTransaction list) run" where
  "ldpc_AddCodeword blake2b p raw =
     (let c = length (lcwHeap p);
          p = p\<lparr>lcwHeap := lcwHeap p @
                 [\<lparr>symbol = cw_symbol raw, members = [], queued = False, decoded = False, freed = False\<rparr>]\<rparr>
      in bindO (Some (ldpc_linkMembers c (cw_members raw) p)) (\<lambda>p.
         bindO (Some (deref (lcwHeap p) c)) (\<lambda>cw.
           if length (members cw) \<le> 1 then
             bindO (ldpc_decodeCodewords blake2b (p\<lparr>lcwHeap := (lcwHeap p)[c := cw\<lparr>queued := True\<rparr>]\<rparr>) [c]) (\<lambda>(p, txs).
               Some (Inr (p, c, txs)))
           else Some (Inr (p, c, [])))))"

text \<open>\<open>t\<close> points to the transaction.\<close>

definition ldpc_Decoder_AddTransaction ::
  "blake \<Rightarrow> ldpcDecoder \<Rightarrow> nat \<Rightarrow> (ldpcDecoder \<times> DecodedTransaction list) run" where
  "ldpc_Decoder_AddTransaction blake2b p t =
     bindO (Some (deref (preimages p) t)) (\<lambda>tx.
     let h = salted (ldhasher p) (hash tx) in
      case lreceived p h of
        None \<Rightarrow>
          bindO (Some (ldpc_storeNewTransaction p h t)) (\<lambda>p.
            case lpending p h of
              Some pending \<Rightarrow>
                bindO (Some (deref (ltxHeap p) pending)) (\<lambda>stub.
                  if stubHash stub \<noteq> h
                  then Some (Inl (Panic ''salted hash of retrieved transaction stub does not match the hash computed from the full transaction''))
                  else
                    bindO (Some (ldpc_markDecoded (p\<lparr>lpending := (lpending p)(h := None)\<rparr>) pending t []))
                      (\<lambda>(p, queue). ldpc_decodeCodewords blake2b p queue))
            | None \<Rightarrow> Some (Inr (p, [])))
      | Some existing \<Rightarrow>
          bindO (Some (deref (preimages p) existing)) (\<lambda>ex.
            if data ex = data tx then Some (Inr (p, []))
            else
              bindO (Some (ldpc_storeNewTransaction p h t)) (\<lambda>p.
                if lpending p h \<noteq> None then Some (Inl (Panic ''pending transaction is already decoded''))
                else Some (Inr (p, [])))))"

end
