(* ===== verification/Ldpc_Refinement.thy ===== *)
theory Ldpc_Refinement
  imports Ldpc_Decoder Lt_History
begin

text \<open>
  The decoder of \<open>ldpc/decoder.go\<close> refines that of \<open>lt/decoder.go\<close>: following its pointers to
  transactions gives a decoder of \<open>lt\<close> that makes the same steps. The two differ in what they
  compare when they forget a transaction, pointers or contents; the comparison has the same
  outcome as long as no salted hash is stored twice, which the invariant \<open>ptrs_ok\<close> states.
\<close>

section \<open>The abstraction\<close>

definition toLt :: "ldpcDecoder \<Rightarrow> txData ltDecoder" where
  "toLt p =
     \<lparr>receivedTransactions = (\<lambda>h. map_option ((!) (preimages p)) (lreceived p h)),
      recentTransactions = map (\<lambda>r. \<lparr>saltedHash = rhash r, tx_of = preimages p ! rptr r\<rparr>) (lrecent p),
      pendingTransactions = lpending p, dhasher = ldhasher p, memory = numTransactionsMemorized p,
      txHeap = ltxHeap p, cwHeap = map PendingCodeword.truncate (lcwHeap p)\<rparr>"

lemma toLt_fields [simp]:
  "pendingTransactions (toLt p) = lpending p" "dhasher (toLt p) = ldhasher p"
  "memory (toLt p) = numTransactionsMemorized p" "txHeap (toLt p) = ltxHeap p"
  "cwHeap (toLt p) = map PendingCodeword.truncate (lcwHeap p)"
  "receivedTransactions (toLt p) h = None \<longleftrightarrow> lreceived p h = None"
  "dom (receivedTransactions (toLt p)) = dom (lreceived p)"
  by (auto simp: toLt_def)

lemma toLt_received: "receivedTransactions (toLt p) h = map_option ((!) (preimages p)) (lreceived p h)"
  by (simp add: toLt_def)

lemma truncate_simps [simp]:
  fixes cw :: ldpcPendingCodeword
  shows "symbol (PendingCodeword.truncate cw) = symbol cw" "members (PendingCodeword.truncate cw) = members cw"
    "queued (PendingCodeword.truncate cw) = queued cw" "decoded (PendingCodeword.truncate cw) = decoded cw"
    "PendingCodeword.truncate (cw\<lparr>members := ms, symbol := s\<rparr>) = (PendingCodeword.truncate cw)\<lparr>members := ms, symbol := s\<rparr>"
    "PendingCodeword.truncate (cw\<lparr>members := ms\<rparr>) = (PendingCodeword.truncate cw)\<lparr>members := ms\<rparr>"
    "PendingCodeword.truncate (cw\<lparr>symbol := s\<rparr>) = (PendingCodeword.truncate cw)\<lparr>symbol := s\<rparr>"
    "PendingCodeword.truncate (cw\<lparr>queued := b\<rparr>) = (PendingCodeword.truncate cw)\<lparr>queued := b\<rparr>"
    "PendingCodeword.truncate (cw\<lparr>decoded := b\<rparr>) = (PendingCodeword.truncate cw)\<lparr>decoded := b\<rparr>"
    "PendingCodeword.truncate (cw\<lparr>freed := b\<rparr>) = PendingCodeword.truncate cw"
  by (simp_all add: PendingCodeword.defs)

lemma deref_map: "deref (map f xs) i = bindR (deref xs i) (\<lambda>x. Inr (f x))"
  by (simp add: deref_def)

text \<open>Writing to the heaps and the pending map commutes with the abstraction.\<close>

lemma toLt_updates:
  "toLt (p\<lparr>lcwHeap := cs\<rparr>) = (toLt p)\<lparr>cwHeap := map PendingCodeword.truncate cs\<rparr>"
  "toLt (p\<lparr>ltxHeap := ts\<rparr>) = (toLt p)\<lparr>txHeap := ts\<rparr>"
  "toLt (p\<lparr>lpending := m\<rparr>) = (toLt p)\<lparr>pendingTransactions := m\<rparr>"
  by (simp_all add: toLt_def)

text \<open>The received map is the list of recent transactions, without two of one hash, and pointers are valid.\<close>

definition ptrs_ok :: "ldpcDecoder \<Rightarrow> bool" where
  "ptrs_ok p \<longleftrightarrow>
     distinct (map rhash (lrecent p)) \<and> lreceived p = map_of (map (\<lambda>r. (rhash r, rptr r)) (lrecent p)) \<and>
     (\<forall>r\<in>set (lrecent p). rptr r < length (preimages p))"

lemma ptrs_ok_valid: "ptrs_ok p \<Longrightarrow> lreceived p h = Some t \<Longrightarrow> t < length (preimages p)"
  by (auto simp: ptrs_ok_def dest!: map_of_SomeD)

text \<open>A step that leaves the store alone.\<close>

definition same_store :: "ldpcDecoder \<Rightarrow> ldpcDecoder \<Rightarrow> bool" where
  "same_store p p' \<longleftrightarrow>
     lreceived p' = lreceived p \<and> lrecent p' = lrecent p \<and> preimages p' = preimages p \<and>
     numTransactionsDecoded p' = numTransactionsDecoded p"

lemma same_store_refl [simp]: "same_store p p"
  by (simp add: same_store_def)

lemma same_store_trans: "same_store p q \<Longrightarrow> same_store q r \<Longrightarrow> same_store p r"
  by (simp add: same_store_def)

lemma same_store_ok: "same_store p p' \<Longrightarrow> ptrs_ok p' = ptrs_ok p"
  by (simp add: same_store_def ptrs_ok_def)

section \<open>Peeling\<close>

lemma peel_sim:
  assumes "peelTransaction (ldpcOps b) (PendingCodeword.truncate cw) stub (data t) = Inr x"
  shows "\<exists>cw'. ldpc_peelTransaction cw stub t = Inr cw' \<and> PendingCodeword.truncate cw' = x"
  using assms by (auto simp: peelTransaction_def ldpc_peelTransaction_def ldpcOps_def indexOf_Some_in split: option.splits)

lemma markOne_sim:
  assumes "markOne (ldpcOps b) tx (data t) idx e (toLt p) q = Inr (p1, q1)"
  shows "\<exists>p'. ldpc_markOne tx t idx e p q = Inr (p', q1) \<and> toLt p' = p1 \<and> same_store p p'"
proof -
  obtain c where e: "e = Some c" using assms by (cases e) (auto simp: markOne_def)
  obtain cw1 where c: "c < length (lcwHeap p)"
    "peelTransaction (ldpcOps b) (PendingCodeword.truncate (lcwHeap p ! c)) tx (data t) = Inr cw1"
    "tx < length (ltxHeap p)"
    using assms by (auto simp: markOne_def e result_simps Let_def split: if_splits)
  obtain cw' where cw': "ldpc_peelTransaction (lcwHeap p ! c) tx t = Inr cw'" "PendingCodeword.truncate cw' = cw1"
    using peel_sim [OF c(2)] by blast
  have sel: "members cw1 = members cw'" "queued cw1 = queued cw'" unfolding cw'(2) [symmetric] by simp_all
  show ?thesis
    using assms c cw' sel
    by (cases "length (members cw') \<le> 1 \<and> \<not> queued cw'")
      (auto simp: markOne_def ldpc_markOne_def e Let_def toLt_updates map_update same_store_def)
qed

lemma markLoop_sim:
  assumes "markLoop (ldpcOps b) tx (data t) idx bs (toLt p) q = Inr (p1, q1)"
  shows "\<exists>p'. ldpc_markLoop tx t idx bs p q = Inr (p', q1) \<and> toLt p' = p1 \<and> same_store p p'"
  using assms
proof (induction bs arbitrary: p q idx)
  case (Cons e bs)
  obtain p2 q2 where 2: "markOne (ldpcOps b) tx (data t) idx e (toLt p) q = Inr (p2, q2)"
    "markLoop (ldpcOps b) tx (data t) (idx + 1) bs p2 q2 = Inr (p1, q1)" using Cons.prems by (auto simp: result_simps)
  obtain p' where p': "ldpc_markOne tx t idx e p q = Inr (p', q2)" "toLt p' = p2" "same_store p p'"
    using markOne_sim [OF 2(1)] by blast
  obtain p'' where "ldpc_markLoop tx t (idx + 1) bs p' q2 = Inr (p'', q1)" "toLt p'' = p1" "same_store p' p''"
    using Cons.IH [of "idx + 1" p' q2] 2(2) p'(2) by auto
  then show ?case using p'(1,3) by (auto intro: same_store_trans)
qed simp

lemma markDecoded_sim:
  assumes "markDecoded (ldpcOps b) (toLt p) tx (data t) q = Inr (p1, q1)"
    and "ptr < length (preimages p)" "preimages p ! ptr = t"
  shows "\<exists>p'. ldpc_markDecoded p tx ptr q = Inr (p', q1) \<and> toLt p' = p1 \<and> same_store p p'"
  using assms markLoop_sim [of b tx t 0 "blocking (ltxHeap p ! tx)" p q p1 q1]
  by (auto simp: markDecoded_def ldpc_markDecoded_def result_simps)

lemma failToDecode_sim:
  assumes "failToDecode (toLt p) c = Inr (p1, h, ptr, failed)"
  shows "\<exists>p'. ldpc_failToDecode p c = Inr (p', h, failed) \<and> toLt p' = p1 \<and> same_store p p'"
proof -
  have c: "c < length (lcwHeap p)" "length (members (lcwHeap p ! c)) = 1"
    using assms by (auto simp: failToDecode_def result_simps split: if_splits)
  let ?ptr = "members (lcwHeap p ! c) ! 0"
  have t: "?ptr < length (ltxHeap p)" using assms c by (auto simp: failToDecode_def Let_def result_simps)
  show ?thesis
  proof (cases "indexOf (Some c) (blocking (ltxHeap p ! ?ptr))")
    case None
    then show ?thesis using assms c t by (simp add: failToDecode_def Let_def del: indexOf_None)
  next
    case (Some i)
    then show ?thesis using assms c t
      by (auto simp: failToDecode_def ldpc_failToDecode_def Let_def toLt_updates map_update same_store_def split: if_splits)
  qed
qed

section \<open>Storing\<close>

lemma forgetOld_sim:
  assumes "forgetOld T mem (map (\<lambda>r. \<lparr>saltedHash = rhash r, tx_of = pre ! rptr r\<rparr>) rs)
      (\<lambda>h. map_option ((!) pre) (m h)) = Inr (rs1, m1)"
    and "distinct (map rhash rs)" "m = map_of (map (\<lambda>r. (rhash r, rptr r)) rs)"
  shows "\<exists>rs' m'. ldpc_forgetOld mem rs m = Inr (rs', m') \<and> m' = map_of (map (\<lambda>r. (rhash r, rptr r)) rs') \<and>
    distinct (map rhash rs') \<and> set rs' \<subseteq> set rs \<and>
    rs1 = map (\<lambda>r. \<lparr>saltedHash = rhash r, tx_of = pre ! rptr r\<rparr>) rs' \<and> m1 = (\<lambda>h. map_option ((!) pre) (m' h))"
  using assms
proof (induction rs arbitrary: m)
  case Nil
  then show ?case by (auto split: if_splits)
next
  case (Cons r rs)
  have m: "m (rhash r) = Some (rptr r)" using Cons.prems(3) by simp
  let ?m = "m(rhash r := None)"
  have tail: "?m = map_of (map (\<lambda>r. (rhash r, rptr r)) rs)"
  proof
    fix h
    have "map_of (map (\<lambda>r. (rhash r, rptr r)) rs) (rhash r) = None"
      using Cons.prems(2) by (auto simp: map_of_eq_None_iff)
    then show "?m h = map_of (map (\<lambda>r. (rhash r, rptr r)) rs) h" using Cons.prems(3) by simp
  qed
  have upd: "(\<lambda>h. map_option ((!) pre) (m h))(rhash r := None) = (\<lambda>h. map_option ((!) pre) (?m h))" by auto
  show ?case
  proof (cases "int (length (r # rs)) > mem")
    case True
    then have run: "forgetOld T mem (map (\<lambda>r. \<lparr>saltedHash = rhash r, tx_of = pre ! rptr r\<rparr>) rs)
        (\<lambda>h. map_option ((!) pre) (?m h)) = Inr (rs1, m1)"
      using Cons.prems(1) m upd by (simp add: Let_def)
    have d: "distinct (map rhash rs)" using Cons.prems(2) by simp
    obtain rs' m' where IH: "ldpc_forgetOld mem rs ?m = Inr (rs', m')" "m' = map_of (map (\<lambda>r. (rhash r, rptr r)) rs')"
      "distinct (map rhash rs')" "set rs' \<subseteq> set rs"
      "rs1 = map (\<lambda>r. \<lparr>saltedHash = rhash r, tx_of = pre ! rptr r\<rparr>) rs'" "m1 = (\<lambda>h. map_option ((!) pre) (m' h))"
      using Cons.IH [OF run d tail] by blast
    have "ldpc_forgetOld mem (r # rs) m = Inr (rs', m')" using True m IH(1) by simp
    then show ?thesis using IH by (intro exI [of _ rs'] exI [of _ m']) auto
  next
    case False
    then show ?thesis using Cons.prems by (intro exI [of _ "r # rs"] exI [of _ m]) auto
  qed
qed

lemma store_sim:
  assumes ok: "ptrs_ok p" and t: "ptr < length (preimages p)" "preimages p ! ptr = t" and new: "lreceived p h = None"
    and run: "storeNewTransaction T (toLt p) h t = Inr p1"
  shows "\<exists>p'. ldpc_storeNewTransaction p h ptr = Inr p' \<and> toLt p' = p1 \<and> ptrs_ok p' \<and> preimages p' = preimages p \<and>
    numTransactionsDecoded p' = numTransactionsDecoded p + 1"
proof -
  let ?rs = "lrecent p @ [\<lparr>rptr = ptr, rhash = h\<rparr>]" and ?m = "(lreceived p)(h \<mapsto> ptr)"
  let ?abs = "\<lambda>r. \<lparr>saltedHash = rhash r, tx_of = preimages p ! rptr r\<rparr>"
  have dom: "rhash ` set (lrecent p) = dom (lreceived p)"
    using ok by (auto simp: ptrs_ok_def dom_map_of_conv_image_fst image_image)
  then have h: "h \<notin> rhash ` set (lrecent p)" using new by auto
  have d: "distinct (map rhash ?rs)" using ok h by (simp add: ptrs_ok_def)
  have m: "?m = map_of (map (\<lambda>r. (rhash r, rptr r)) ?rs)"
  proof
    fix k
    have "map_of (map (\<lambda>r. (rhash r, rptr r)) (lrecent p)) h = None"
      using h by (auto simp: map_of_eq_None_iff)
    then show "?m k = map_of (map (\<lambda>r. (rhash r, rptr r)) ?rs) k"
      using ok by (auto simp: ptrs_ok_def map_add_def split: option.splits)
  qed
  have rv: "(receivedTransactions (toLt p))(h \<mapsto> t) = (\<lambda>k. map_option ((!) (preimages p)) (?m k))"
    using t(2) by (auto simp: toLt_received)
  obtain rs1 m1 where f: "forgetOld T (numTransactionsMemorized p) (map ?abs ?rs)
      (\<lambda>k. map_option ((!) (preimages p)) (?m k)) = Inr (rs1, m1)"
    "p1 = (toLt p)\<lparr>recentTransactions := rs1, receivedTransactions := m1\<rparr>"
    using run rv t(2) by (auto simp: storeNewTransaction_def result_simps toLt_def)
  obtain rs' m' where f': "ldpc_forgetOld (numTransactionsMemorized p) ?rs ?m = Inr (rs', m')"
    "m' = map_of (map (\<lambda>r. (rhash r, rptr r)) rs')" "distinct (map rhash rs')" "set rs' \<subseteq> set ?rs"
    "rs1 = map ?abs rs'" "m1 = (\<lambda>k. map_option ((!) (preimages p)) (m' k))"
    using forgetOld_sim [OF f(1) d m] by blast
  let ?p = "p\<lparr>lrecent := rs', lreceived := m', numTransactionsDecoded := numTransactionsDecoded p + 1\<rparr>"
  have "toLt ?p = p1" unfolding f(2) f'(5,6) by (simp add: toLt_def)
  moreover have "ptrs_ok ?p" using f'(2-4) ok t(1) by (auto simp: ptrs_ok_def)
  ultimately show ?thesis using f'(1)
    by (intro exI [of _ ?p]) (simp add: ldpc_storeNewTransaction_def)
qed

text \<open>A new transaction changes nothing for the abstraction.\<close>

lemma toLt_alloc:
  assumes "ptrs_ok p"
  shows "toLt (p\<lparr>preimages := preimages p @ xs\<rparr>) = toLt p" "ptrs_ok (p\<lparr>preimages := preimages p @ xs\<rparr>)"
proof -
  have "map_option ((!) (preimages p @ xs)) (lreceived p h) = map_option ((!) (preimages p)) (lreceived p h)" for h
    using ptrs_ok_valid [OF assms, of h] by (cases "lreceived p h") (simp_all add: nth_append)
  moreover have "\<forall>r\<in>set (lrecent p). (preimages p @ xs) ! rptr r = preimages p ! rptr r"
    using assms by (simp add: ptrs_ok_def nth_append)
  ultimately show "toLt (p\<lparr>preimages := preimages p @ xs\<rparr>) = toLt p" by (simp add: toLt_def)
  show "ptrs_ok (p\<lparr>preimages := preimages p @ xs\<rparr>)" using assms by (auto simp: ptrs_ok_def)
qed

section \<open>The decoding loop\<close>

definition outs :: "ldpcDecoder \<Rightarrow> DecodedTransaction list \<Rightarrow> ldpcTransaction list" where
  "outs p new = map (\<lambda>d. preimages p ! Transaction d) new"

definition valid_out :: "ldpcDecoder \<Rightarrow> DecodedTransaction list \<Rightarrow> bool" where
  "valid_out p new \<longleftrightarrow> ptrs_ok p \<and> (\<forall>d\<in>set new. Transaction d < length (preimages p))"

text \<open>Steps only add transactions, and count the stored ones.\<close>

definition grows :: "ldpcDecoder \<Rightarrow> DecodedTransaction list \<Rightarrow> ldpcDecoder \<Rightarrow> DecodedTransaction list \<Rightarrow> bool" where
  "grows p new p' new' \<longleftrightarrow>
     (\<exists>ext. preimages p' = preimages p @ ext) \<and> valid_out p' new' \<and>
     numTransactionsDecoded p' - int (length new') = numTransactionsDecoded p - int (length new)"

lemma grows_trans: "grows p n p1 n1 \<Longrightarrow> grows p1 n1 p2 n2 \<Longrightarrow> grows p n p2 n2"
  by (auto simp: grows_def)

lemma grows_same: "same_store p p' \<Longrightarrow> valid_out p new \<Longrightarrow> grows p new p' new"
  by (auto simp: grows_def same_store_def valid_out_def ptrs_ok_def)

lemma outs_same: "same_store p p' \<Longrightarrow> outs p' new = outs p new"
  by (simp add: outs_def same_store_def)

lemma outs_grow: "valid_out p new \<Longrightarrow> preimages p' = preimages p @ ext \<Longrightarrow> outs p' new = outs p new"
  by (auto simp: outs_def valid_out_def nth_append)

lemma alloc_grows:
  assumes "valid_out p new"
  shows "grows p new (p\<lparr>preimages := preimages p @ xs\<rparr>) new" "outs (p\<lparr>preimages := preimages p @ xs\<rparr>) new = outs p new"
    "toLt (p\<lparr>preimages := preimages p @ xs\<rparr>) = toLt p"
  using assms toLt_alloc [of p xs] outs_grow [OF assms, of "p\<lparr>preimages := preimages p @ xs\<rparr>" xs]
  by (auto simp: grows_def valid_out_def)

text \<open>The last statements of a round.\<close>

lemma finish_sim:
  assumes "bindR (deref (cwHeap (toLt p)) c) (\<lambda>cw. if length (members cw) \<noteq> 0 then Inl e
      else Inr ((toLt p)\<lparr>cwHeap := (cwHeap (toLt p))[c := cw\<lparr>decoded := True\<rparr>]\<rparr>, q, n)) = Inr (p1, q1, n1)"
  shows "\<exists>p'. bindR (deref (lcwHeap p) c) (\<lambda>cw. if length (members cw) \<noteq> 0 then Inl e
      else Inr (p\<lparr>lcwHeap := (lcwHeap p)[c := cw\<lparr>decoded := True\<rparr>]\<rparr>, q, new)) = Inr (p', q1, new) \<and>
    toLt p' = p1 \<and> same_store p p' \<and> q1 = q \<and> n1 = n"
  using assms by (auto simp: result_simps toLt_updates map_update same_store_def split: if_splits)

lemma decodeOne_sim:
  assumes ok: "valid_out p new" and run: "decodeOne (ldpcOps b) c (toLt p) q (outs p new) = Inr (p1, q1, n1)"
  shows "\<exists>p' new'. ldpc_decodeOne b c p q new = Inr (p', q1, new') \<and> toLt p' = p1 \<and> outs p' new' = n1 \<and> grows p new p' new'"
proof -
  let ?cw = "lcwHeap p ! c"
  have c: "c < length (lcwHeap p)" "queued ?cw" using run by (auto simp: decodeOne_def result_simps split: if_splits)
  let ?tail = "\<lambda>e p q (n :: ldpcTransaction list). bindR (deref (cwHeap p) c) (\<lambda>cw. if length (members cw) \<noteq> 0 then Inl e
      else Inr (p\<lparr>cwHeap := (cwHeap p)[c := cw\<lparr>decoded := True\<rparr>]\<rparr>, q, n))"
  show ?thesis
  proof (cases "length (members ?cw) = 0")
    case True
    have tl: "?tail (Panic ''codeword not empty after decoded'') (toLt p) q (outs p new) = Inr (p1, q1, n1)"
      using run c True by (simp add: decodeOne_def)
    then obtain p' where "bindR (deref (lcwHeap p) c) (\<lambda>cw. if length (members cw) \<noteq> 0 then Inl (Panic ''codeword not empty after decoded'')
      else Inr (p\<lparr>lcwHeap := (lcwHeap p)[c := cw\<lparr>decoded := True\<rparr>]\<rparr>, q, new)) = Inr (p', q1, new)"
      "toLt p' = p1" "same_store p p'" "n1 = outs p new" using finish_sim [OF tl, of new] by blast
    then show ?thesis using c True outs_same grows_same [OF _ ok]
      by (intro exI [of _ p'] exI [of _ new]) (simp add: ldpc_decodeOne_def)
  next
    case False
    then have one: "length (members ?cw) = 1" using run c by (simp add: decodeOne_def split: if_splits)
    let ?tx = "members ?cw ! 0" and ?dt = "NewTransaction (ldpcOps b) (symbol ?cw)"
    have tx: "?tx < length (ltxHeap p)" using run c one by (auto simp: decodeOne_def result_simps Let_def)
    let ?h = "stubHash (ltxHeap p ! ?tx)"
    have st: "lreceived p ?h = None" "lpending p ?h \<noteq> None"
      using run c one tx by (auto simp: decodeOne_def Let_def split: if_splits)
    let ?p0 = "p\<lparr>preimages := preimages p @ [?dt]\<rparr>"
    note al = alloc_grows [OF ok, of "[?dt]"]
    have ok0: "valid_out ?p0 new" using al(1) by (simp add: grows_def)
    note um = Unmarshal_Serialized [of b zeroTransaction "\<lparr>data = symbol ?cw, hash = []\<rparr>", simplified]
    let ?e = "Panic ''codeword not empty after decoded''"
    let ?fin = "\<lambda>p q new. bindR (deref (lcwHeap p) c) (\<lambda>cw. if length (members cw) \<noteq> 0 then Inl ?e
      else Inr (p\<lparr>lcwHeap := (lcwHeap p)[c := cw\<lparr>decoded := True\<rparr>]\<rparr>, q, new))"
    show ?thesis
    proof (cases "salted (ldhasher p) (hash ?dt) = ?h")
      case False
      obtain p2 fh ptr failed where f: "failToDecode (toLt p) c = Inr (p2, fh, ptr, failed)"
        "?tail ?e (if failed then p2\<lparr>pendingTransactions := (pendingTransactions p2)(fh := None)\<rparr> else p2) q (outs p new)
           = Inr (p1, q1, n1)"
        using run c one tx st False by (auto simp: decodeOne_def Let_def result_simps)
      obtain p3 where p3: "ldpc_failToDecode ?p0 c = Inr (p3, fh, failed)" "toLt p3 = p2" "same_store ?p0 p3"
        using failToDecode_sim [of ?p0 c p2 fh ptr failed] f(1) al(3) by auto
      let ?p4 = "if failed then p3\<lparr>lpending := (lpending p3)(fh := None)\<rparr> else p3"
      have p4: "toLt ?p4 = (if failed then p2\<lparr>pendingTransactions := (pendingTransactions p2)(fh := None)\<rparr> else p2)"
        unfolding p3(2) [symmetric] by (simp add: toLt_updates)
      have s4: "same_store ?p0 ?p4" using p3(3) by (simp add: same_store_def)
      obtain p' where p': "?fin ?p4 q new = Inr (p', q1, new)" "toLt p' = p1" "same_store ?p4 p'" "n1 = outs p new"
        using finish_sim [of ?p4 c ?e q "outs p new" p1 q1 n1 new] f(2) unfolding p4 by blast
      have "ldpc_decodeOne b c p q new = ?fin ?p4 q new"
        using c one tx st False p3(1) by (simp add: ldpc_decodeOne_def Let_def um allocTx_def)
      moreover have s: "same_store ?p0 p'" using s4 p'(3) by (rule same_store_trans)
      ultimately show ?thesis using p' al(1,2) outs_same [OF s] grows_trans [OF al(1) grows_same [OF s ok0]]
        by (intro exI [of _ p'] exI [of _ new]) simp
    next
      case True
      let ?q = "(toLt p)\<lparr>pendingTransactions := (pendingTransactions (toLt p))(?h := None)\<rparr>"
      obtain p2 p3 q3 where f: "storeNewTransaction (ldpcOps b) ?q ?h ?dt = Inr p2"
        "markDecoded (ldpcOps b) p2 ?tx (data ?dt) q = Inr (p3, q3)" "?tail ?e p3 q3 (outs p new @ [?dt]) = Inr (p1, q1, n1)"
        using run c one tx st True by (auto simp: decodeOne_def Let_def result_simps)
      let ?p1 = "?p0\<lparr>lpending := (lpending ?p0)(?h := None)\<rparr>" and ?ptr = "length (preimages p)"
      have 1: "toLt ?p1 = ?q" using al(3) by (simp add: toLt_updates)
      have "ptrs_ok ?p1" "lreceived ?p1 ?h = None" using ok0 st(1) by (simp_all add: valid_out_def ptrs_ok_def)
      then obtain p2' where p2': "ldpc_storeNewTransaction ?p1 ?h ?ptr = Inr p2'" "toLt p2' = p2" "ptrs_ok p2'"
        "preimages p2' = preimages ?p1" "numTransactionsDecoded p2' = numTransactionsDecoded ?p1 + 1"
        using store_sim [of ?p1 ?ptr ?dt ?h "ldpcOps b" p2] f(1) unfolding 1 by auto
      obtain p3' where p3': "ldpc_markDecoded p2' ?tx ?ptr q = Inr (p3', q3)" "toLt p3' = p3" "same_store p2' p3'"
        using markDecoded_sim [of b p2' ?tx ?dt q p3 q3 ?ptr] f(2) p2'(2,4) by auto
      let ?new = "new @ [\<lparr>Transaction = ?ptr, Expired = freed ?cw\<rparr>]"
      obtain p' where p': "?fin p3' q3 ?new = Inr (p', q1, ?new)" "toLt p' = p1" "same_store p3' p'" "n1 = outs p new @ [?dt]"
        using finish_sim [of p3' c ?e q3 "outs p new @ [?dt]" p1 q1 n1 ?new] f(3) unfolding p3'(2) by blast
      have run': "ldpc_decodeOne b c p q new = ?fin p3' q3 ?new"
        using c one tx st True p2'(1) p3'(1) by (simp add: ldpc_decodeOne_def Let_def um allocTx_def)
      have s: "same_store p2' p'" using p3'(3) p'(3) by (rule same_store_trans)
      have pre: "preimages p' = preimages p @ [?dt]" using s p2'(4) by (simp add: same_store_def)
      have "valid_out p' ?new" using ok p2'(3) same_store_ok [OF s] pre by (auto simp: valid_out_def)
      moreover have "numTransactionsDecoded p' = numTransactionsDecoded p + 1" using s p2'(5) by (simp add: same_store_def)
      ultimately have "grows p new p' ?new" using pre unfolding grows_def by auto
      moreover have "outs p' ?new = n1" using outs_grow [OF ok pre] p'(4) pre by (simp add: outs_def)
      ultimately show ?thesis using run' p'(1,2) by auto
    qed
  qed
qed

lemma decodeLoop_sim:
  assumes "decodeLoop (ldpcOps b) q Q n = Some (Inr (q1, n1))" "valid_out p new" "toLt p = q" "outs p new = n"
  shows "\<exists>p' new'. ldpc_decodeLoop b p Q new = Some (Inr (p', new')) \<and> toLt p' = q1 \<and> outs p' new' = n1 \<and> grows p new p' new'"
proof -
  let ?P = "\<lambda>(T :: txData dataOps) q Q n (r :: (txData ltDecoder \<times> ldpcTransaction list) result). \<forall>p new q1 n1.
    T = ldpcOps b \<longrightarrow> r = Inr (q1, n1) \<longrightarrow> valid_out p new \<longrightarrow> toLt p = q \<longrightarrow> outs p new = n \<longrightarrow>
    (\<exists>p' new'. ldpc_decodeLoop b p Q new = Some (Inr (p', new')) \<and> toLt p' = q1 \<and> outs p' new' = n1 \<and> grows p new p' new')"
  have "?P (ldpcOps b) q Q n (Inr (q1, n1))"
  proof (rule decodeLoop.raw_induct [where P = ?P, OF _ assms(1)], intro allI impI)
    fix loop and T :: "txData dataOps" and q Q n and r :: "(txData ltDecoder \<times> ldpcTransaction list) result" and p new q1 n1
    assume IH: "\<And>T q Q n r. loop T q Q n = Some r \<Longrightarrow> ?P T q Q n r"
      and step: "(if Q = [] then Some (Inr (q, n))
        else bindO (Some (decodeOne T (last Q) q (butlast Q) n)) (\<lambda>(q, Q, n). loop T q Q n)) = Some r"
      and T: "T = ldpcOps b" and r: "r = Inr (q1, n1)" and p: "valid_out p new" "toLt p = q" "outs p new = n"
    show "\<exists>p' new'. ldpc_decodeLoop b p Q new = Some (Inr (p', new')) \<and> toLt p' = q1 \<and> outs p' new' = n1 \<and> grows p new p' new'"
    proof (cases "Q = []")
      case True
      then show ?thesis using step r p by (subst ldpc_decodeLoop.simps) (auto simp: grows_def)
    next
      case False
      obtain q2 Q2 n2 where 2: "decodeOne T (last Q) q (butlast Q) n = Inr (q2, Q2, n2)" "loop T q2 Q2 n2 = Some r"
        using step r False by (auto simp: bindO_Inr_iff)
      obtain p2 new2 where p2: "ldpc_decodeOne b (last Q) p (butlast Q) new = Inr (p2, Q2, new2)" "toLt p2 = q2"
        "outs p2 new2 = n2" "grows p new p2 new2"
        using decodeOne_sim [OF p(1), of b "last Q" "butlast Q" q2 Q2 n2] 2(1) T p(2,3) by auto
      have "valid_out p2 new2" using p2(4) by (simp add: grows_def)
      then obtain p' new' where "ldpc_decodeLoop b p2 Q2 new2 = Some (Inr (p', new'))" "toLt p' = q1" "outs p' new' = n1"
        "grows p2 new2 p' new'" using IH [OF 2(2)] T r p2(2,3) by blast
      then show ?thesis using False p2(1) grows_trans [OF p2(4)] by (subst ldpc_decodeLoop.simps) simp
    qed
  qed
  then show ?thesis using assms by blast
qed

section \<open>The operations\<close>

lemma linkMember_sim:
  assumes ok: "ptrs_ok p" and run: "linkMember (ldpcOps b) c (toLt p) m = Inr p1"
  shows "\<exists>p'. ldpc_linkMember c p m = Inr p' \<and> toLt p' = p1 \<and> same_store p p'"
proof -
  have c: "c < length (lcwHeap p)" using run by (auto simp: linkMember_def result_simps)
  show ?thesis
  proof (cases "lreceived p m")
    case (Some t)
    then show ?thesis using run c ptrs_ok_valid [OF ok Some]
      by (auto simp: linkMember_def ldpc_linkMember_def toLt_received toLt_updates map_update same_store_def ldpcOps_def
          split: if_splits)
  next
    case None
    show ?thesis
    proof (cases "lpending p m")
      case (Some t)
      then show ?thesis using run c None
        by (auto simp: linkMember_def ldpc_linkMember_def toLt_received toLt_updates map_update same_store_def result_simps)
    next
      case pending: None
      then show ?thesis using run c None
        by (auto simp: linkMember_def ldpc_linkMember_def toLt_received toLt_updates map_update same_store_def)
    qed
  qed
qed

lemma linkMembers_sim:
  assumes "ptrs_ok p" "linkMembers (ldpcOps b) c ms (toLt p) = Inr p1"
  shows "\<exists>p'. ldpc_linkMembers c ms p = Inr p' \<and> toLt p' = p1 \<and> same_store p p'"
  using assms
proof (induction ms arbitrary: p)
  case (Cons m ms)
  obtain p2 where 2: "linkMember (ldpcOps b) c (toLt p) m = Inr p2" "linkMembers (ldpcOps b) c ms p2 = Inr p1"
    using Cons.prems(2) by (auto simp: result_simps)
  obtain p' where p': "ldpc_linkMember c p m = Inr p'" "toLt p' = p2" "same_store p p'"
    using linkMember_sim [OF Cons.prems(1) 2(1)] by blast
  obtain p'' where "ldpc_linkMembers c ms p' = Inr p''" "toLt p'' = p1" "same_store p' p''"
    using Cons.IH [of p'] 2(2) p'(2) Cons.prems(1) same_store_ok [OF p'(3)] by auto
  then show ?case using p'(1,3) by (auto intro: same_store_trans)
qed simp

lemma AddCodeword_sim:
  assumes ok: "ptrs_ok p" and run: "lt_AddCodeword (ldpcOps b) (toLt p) raw = Some (Inr (p1, c, txs))"
  shows "\<exists>p' new. ldpc_AddCodeword b p raw = Some (Inr (p', c, new)) \<and> toLt p' = p1 \<and> outs p' new = txs \<and> grows p [] p' new"
proof -
  let ?c = "length (lcwHeap p)"
  let ?p = "p\<lparr>lcwHeap := lcwHeap p @ [\<lparr>symbol = cw_symbol raw, members = [], queued = False, decoded = False, freed = False\<rparr>]\<rparr>"
  have abs: "toLt ?p = (toLt p)\<lparr>cwHeap := cwHeap (toLt p) @ [\<lparr>symbol = cw_symbol raw, members = [], queued = False, decoded = False\<rparr>]\<rparr>"
    by (simp add: toLt_updates PendingCodeword.defs)
  have len: "length (cwHeap (toLt p)) = ?c" by simp
  obtain p2 where p2: "linkMembers (ldpcOps b) ?c (cw_members raw) (toLt ?p) = Inr p2"
    using run unfolding lt_AddCodeword_def Let_def abs by (auto simp: bindO_Inr_iff)
  obtain p3 where p3: "ldpc_linkMembers ?c (cw_members raw) ?p = Inr p3" "toLt p3 = p2" "same_store ?p p3"
    using linkMembers_sim [OF _ p2] ok by (auto simp: ptrs_ok_def)
  have v: "valid_out p3 []" using ok same_store_ok [OF p3(3)] by (simp add: valid_out_def ptrs_ok_def)
  have g: "grows p [] p3 []" using p3(3) v by (simp add: grows_def same_store_def)
  have run': "bindO (Some (deref (cwHeap (toLt p3)) ?c)) (\<lambda>cw.
           if length (members cw) \<le> 1 then
             bindO (decodeCodewords (ldpcOps b) ((toLt p3)\<lparr>cwHeap := (cwHeap (toLt p3))[?c := cw\<lparr>queued := True\<rparr>]\<rparr>) [?c]) (\<lambda>(p, txs).
               Some (Inr (p, ?c, txs)))
           else Some (Inr (toLt p3, ?c, []))) = Some (Inr (p1, c, txs))"
    using run p2 unfolding lt_AddCodeword_def Let_def p3(2) len abs by simp
  then have c: "?c < length (lcwHeap p3)" by (auto simp: deref_def split: if_splits)
  have go: "ldpc_AddCodeword b p raw = bindO (Some (deref (lcwHeap p3) ?c)) (\<lambda>cw.
           if length (members cw) \<le> 1 then
             bindO (ldpc_decodeCodewords b (p3\<lparr>lcwHeap := (lcwHeap p3)[?c := cw\<lparr>queued := True\<rparr>]\<rparr>) [?c]) (\<lambda>(p, txs).
               Some (Inr (p, ?c, txs)))
           else Some (Inr (p3, ?c, [])))"
    using p3(1) by (simp add: ldpc_AddCodeword_def Let_def)
  show ?thesis
  proof (cases "length (members (lcwHeap p3 ! ?c)) \<le> 1")
    case True
    let ?p4 = "p3\<lparr>lcwHeap := (lcwHeap p3)[?c := (lcwHeap p3 ! ?c)\<lparr>queued := True\<rparr>]\<rparr>"
    have s4: "same_store p3 ?p4" by (simp add: same_store_def)
    have "decodeLoop (ldpcOps b) (toLt ?p4) [?c] [] = Some (Inr (p1, txs))" "c = ?c"
      using run' c True by (auto simp: decodeCodewords_def toLt_updates map_update bindO_Inr_iff)
    moreover have v4: "valid_out ?p4 []" using v by (simp add: valid_out_def ptrs_ok_def)
    ultimately obtain p' new where "ldpc_decodeLoop b ?p4 [?c] [] = Some (Inr (p', new))" "toLt p' = p1" "outs p' new = txs"
      "grows ?p4 [] p' new" "c = ?c" using decodeLoop_sim [of b "toLt ?p4" "[?c]" "[]" p1 txs ?p4 "[]"] by (auto simp: outs_def)
    then show ?thesis using go c True grows_trans [OF g grows_trans [OF grows_same [OF s4 v]]]
      by (auto simp: ldpc_decodeCodewords_def)
  next
    case False
    then show ?thesis using run' go c g by (auto simp: outs_def)
  qed
qed

lemma AddTransaction_sim:
  assumes ok: "ptrs_ok p" and t: "t < length (preimages p)" "preimages p ! t = tx"
    and nocoll: "\<And>x. receivedTransactions (toLt p) (salted (ldhasher p) (hash tx)) = Some x \<Longrightarrow> x = tx"
    and run: "lt_Decoder_AddTransaction (ldpcOps b) (toLt p) tx = Some (Inr (p1, txs))"
  shows "\<exists>p' new k. ldpc_Decoder_AddTransaction b p t = Some (Inr (p', new)) \<and> toLt p' = p1 \<and> outs p' new = txs \<and>
    valid_out p' new \<and> (\<exists>ext. preimages p' = preimages p @ ext) \<and> k \<le> 1 \<and>
    numTransactionsDecoded p' = numTransactionsDecoded p + int (length new) + int k"
proof -
  let ?h = "salted (ldhasher p) (hash tx)"
  show ?thesis
  proof (cases "lreceived p ?h")
    case (Some e)
    have e: "e < length (preimages p)" using ptrs_ok_valid [OF ok Some] .
    have "preimages p ! e = tx" using nocoll Some by (simp add: toLt_received)
    then show ?thesis using run Some t e ok
      by (intro exI [of _ p] exI [of _ "[]"] exI [of _ 0])
        (auto simp: lt_Decoder_AddTransaction_def ldpc_Decoder_AddTransaction_def Let_def toLt_received outs_def valid_out_def)
  next
    case None
    then have rn: "receivedTransactions (toLt p) ?h = None" by simp
    obtain p2 where p2: "storeNewTransaction (ldpcOps b) (toLt p) ?h tx = Inr p2"
      using run rn by (auto simp: lt_Decoder_AddTransaction_def Let_def bindO_Inr_iff)
    obtain p3 where p3: "ldpc_storeNewTransaction p ?h t = Inr p3" "toLt p3 = p2" "ptrs_ok p3" "preimages p3 = preimages p"
      "numTransactionsDecoded p3 = numTransactionsDecoded p + 1" using store_sim [OF ok t None p2] by blast
    have same: "lpending p3 = pendingTransactions p2" "ltxHeap p3 = txHeap p2" unfolding p3(2) [symmetric] by simp_all
    show ?thesis
    proof (cases "lpending p3 ?h")
      case pn: None
      then have "p1 = p2" "txs = []"
        using run rn p2 same(1) by (auto simp: lt_Decoder_AddTransaction_def Let_def)
      then show ?thesis using None pn t p3
        by (intro exI [of _ p3] exI [of _ "[]"] exI [of _ 1])
          (auto simp: ldpc_Decoder_AddTransaction_def Let_def outs_def valid_out_def)
    next
      case (Some pd)
      let ?q = "p2\<lparr>pendingTransactions := (pendingTransactions p2)(?h := None)\<rparr>"
      obtain p4 Q where p4: "pd < length (txHeap p2)" "stubHash (txHeap p2 ! pd) = ?h"
        "markDecoded (ldpcOps b) ?q pd (data tx) [] = Inr (p4, Q)" "decodeCodewords (ldpcOps b) p4 Q = Some (Inr (p1, txs))"
        using run rn p2 Some same(1)
        by (auto simp: lt_Decoder_AddTransaction_def Let_def bindO_Inr_iff deref_iff split: if_splits)
      let ?p3 = "p3\<lparr>lpending := (lpending p3)(?h := None)\<rparr>"
      have abs: "toLt ?p3 = ?q" unfolding toLt_updates p3(2) same(1) ..
      obtain p5 where p5: "ldpc_markDecoded ?p3 pd t [] = Inr (p5, Q)" "toLt p5 = p4" "same_store ?p3 p5"
        using markDecoded_sim [of b ?p3 pd tx "[]" p4 Q t] p4(3) p3(4) t unfolding abs by auto
      have s: "same_store p3 p5" using p5(3) by (simp add: same_store_def)
      have v: "valid_out p5 []" using p3(3) same_store_ok [OF s] by (simp add: valid_out_def)
      obtain p' new where r: "ldpc_decodeLoop b p5 Q [] = Some (Inr (p', new))" "toLt p' = p1" "outs p' new = txs" "grows p5 [] p' new"
        using decodeLoop_sim [of b p4 Q "[]" p1 txs p5 "[]"] p4(4) v p5(2) by (auto simp: decodeCodewords_def outs_def)
      have "ldpc_Decoder_AddTransaction b p t = Some (Inr (p', new))"
        using None Some t p3(1) p4(1,2) p5(1) r(1) same(2)
        by (simp add: ldpc_Decoder_AddTransaction_def Let_def ldpc_decodeCodewords_def)
      moreover obtain ext where "preimages p' = preimages p @ ext"
        using r(4) s p3(4) by (auto simp: grows_def same_store_def)
      moreover have "numTransactionsDecoded p' = numTransactionsDecoded p + int (length new) + 1" "valid_out p' new"
        using r(4) s p3(5) by (auto simp: grows_def same_store_def)
      ultimately show ?thesis using r(2,3) by (intro exI [of _ p'] exI [of _ new] exI [of _ 1]) auto
    qed
  qed
qed

lemma Free_sim:
  assumes "ptrs_ok p" "c < length (lcwHeap p)"
  shows "\<exists>p'. Free p c = Inr p' \<and> toLt p' = toLt p \<and> same_store p p'"
proof -
  have "(map PendingCodeword.truncate (lcwHeap p))[c := PendingCodeword.truncate (lcwHeap p ! c)] =
    map PendingCodeword.truncate (lcwHeap p)" by (simp flip: map_update)
  then have "toLt (p\<lparr>lcwHeap := (lcwHeap p)[c := (lcwHeap p ! c)\<lparr>freed := True\<rparr>]\<rparr>) = toLt p"
    by (simp add: toLt_def map_update)
  then show ?thesis using assms by (simp add: Free_def same_store_def)
qed

end
