(* ===== verification/Ldpc_Properties.thy ===== *)
theory Ldpc_Properties
  imports Ldpc_Sampling Ldpc_Refinement
begin

unbundle bit_operations_syntax

text \<open>
  Histories of the decoder of \<open>ldpc/decoder.go\<close>, and the properties of \<open>ldpc/\<close> with witnesses.
\<close>

section \<open>Histories\<close>

text \<open>A received codeword, an added transaction, and the release of the \<open>c\<close>-th received codeword.\<close>

datatype ldpcEvent = LGotCodeword ldpcCodeword | LGotTransaction ldpcTransaction | LFreed nat

definition ldpc_receive :: "blake \<Rightarrow> ldpcDecoder \<Rightarrow> ldpcEvent \<Rightarrow> (ldpcDecoder \<times> DecodedTransaction list) run" where
  "ldpc_receive b p ev =
     (case ev of
        LGotCodeword raw \<Rightarrow> bindO (ldpc_AddCodeword b p raw) (\<lambda>(p, _, new). Some (Inr (p, new)))
      | LGotTransaction t \<Rightarrow> (let (p, ptr) = allocTx p t in ldpc_Decoder_AddTransaction b p ptr)
      | LFreed c \<Rightarrow>
          if c < length (lcwHeap p) then bindO (Some (Free p c)) (\<lambda>p. Some (Inr (p, []))) else Some (Inr (p, [])))"

fun ldpc_receiveAll :: "blake \<Rightarrow> ldpcDecoder \<Rightarrow> ldpcEvent list \<Rightarrow> (ldpcDecoder \<times> DecodedTransaction list) run" where
  "ldpc_receiveAll b p [] = Some (Inr (p, []))"
| "ldpc_receiveAll b p (ev # evs) =
     bindO (ldpc_receive b p ev) (\<lambda>(p, new).
     bindO (ldpc_receiveAll b p evs) (\<lambda>(p, out). Some (Inr (p, new @ out))))"

fun ltEvents :: "ldpcEvent list \<Rightarrow> txData ltEvent list" where
  "ltEvents [] = []"
| "ltEvents (LGotCodeword raw # evs) = GotCodeword raw # ltEvents evs"
| "ltEvents (LGotTransaction t # evs) = GotTransaction t # ltEvents evs"
| "ltEvents (LFreed c # evs) = ltEvents evs"

text \<open>What one event does, and what a history does, as \<open>lt\<close> sees it.\<close>

definition simulates :: "ldpcDecoder \<Rightarrow> ldpcDecoder \<Rightarrow> DecodedTransaction list \<Rightarrow> nat \<Rightarrow> txData ltDecoder \<Rightarrow> ldpcTransaction list \<Rightarrow> bool" where
  "simulates p p' new k p1 out \<longleftrightarrow>
     toLt p' = p1 \<and> outs p' new = out \<and> valid_out p' new \<and> (\<exists>ext. preimages p' = preimages p @ ext) \<and>
     int (length new) \<le> numTransactionsDecoded p' - numTransactionsDecoded p \<and>
     numTransactionsDecoded p' - numTransactionsDecoded p \<le> int (length new) + int k"

lemma simulates_append:
  assumes "simulates p p1 new1 k1 q1 out1" "simulates p1 p2 new2 k2 q2 out2"
  shows "simulates p p2 (new1 @ new2) (k1 + k2) q2 (out1 @ out2)"
proof -
  obtain ext where ext: "preimages p2 = preimages p1 @ ext" "valid_out p1 new1" "valid_out p2 new2"
    using assms by (auto simp: simulates_def)
  then have "outs p2 new1 = outs p1 new1" "valid_out p2 (new1 @ new2)"
    using outs_grow [OF ext(2,1)] by (auto simp: valid_out_def)
  then show ?thesis using assms by (auto simp: simulates_def outs_def)
qed

lemma receive_codeword_sim:
  assumes "ptrs_ok p" "lt_receive (ldpcOps b) (toLt p) (GotCodeword raw) = Some (Inr (p1, out))"
  shows "\<exists>p' new. ldpc_receive b p (LGotCodeword raw) = Some (Inr (p', new)) \<and> simulates p p' new 0 p1 out"
proof -
  obtain c where "lt_AddCodeword (ldpcOps b) (toLt p) raw = Some (Inr (p1, c, out))"
    using assms(2) by (auto simp: lt_receive_def bindO_Inr_iff)
  then show ?thesis using AddCodeword_sim [OF assms(1), of b raw p1 c out]
    by (fastforce simp: ldpc_receive_def simulates_def grows_def)
qed

lemma receive_transaction_sim:
  assumes ok: "ptrs_ok p" and ag: "agrees (ldpcOps b) truth H (toLt p)"
    and hon: "honest_tx (ldpcOps b) (ldhasher p) truth H t"
    and run: "lt_receive (ldpcOps b) (toLt p) (GotTransaction t) = Some (Inr (p1, out))"
  shows "\<exists>p' new. ldpc_receive b p (LGotTransaction t) = Some (Inr (p', new)) \<and> simulates p p' new 1 p1 out"
proof -
  let ?p = "p\<lparr>preimages := preimages p @ [t]\<rparr>" and ?h = "salted (ldhasher p) (hash t)"
  have al: "toLt ?p = toLt p" "ptrs_ok ?p" using toLt_alloc [OF ok] by simp_all
  have nocoll: "x = t" if "receivedTransactions (toLt ?p) (salted (ldhasher ?p) (hash t)) = Some x" for x
    using that ag hon al(1) by (simp add: agrees_def honest_tx_def)
  have run': "lt_Decoder_AddTransaction (ldpcOps b) (toLt ?p) t = Some (Inr (p1, out))"
    using run al(1) by (simp add: lt_receive_def)
  have pre: "length (preimages p) < length (preimages ?p)" "preimages ?p ! length (preimages p) = t" by simp_all
  obtain p' new k ext where r: "ldpc_Decoder_AddTransaction b ?p (length (preimages p)) = Some (Inr (p', new))"
    "toLt p' = p1" "outs p' new = out" "valid_out p' new" "preimages p' = preimages ?p @ ext" "k \<le> 1"
    "numTransactionsDecoded p' = numTransactionsDecoded ?p + int (length new) + int k"
    using AddTransaction_sim [OF al(2) pre nocoll run'] by blast
  then have "simulates p p' new 1 p1 out" by (auto simp: simulates_def)
  then show ?thesis using r(1) by (simp add: ldpc_receive_def allocTx_def)
qed

lemma receive_freed_sim:
  assumes "ptrs_ok p"
  shows "\<exists>p'. ldpc_receive b p (LFreed c) = Some (Inr (p', [])) \<and> simulates p p' [] 0 (toLt p) []"
proof (cases "c < length (lcwHeap p)")
  case True
  obtain p' where p': "Free p c = Inr p'" "toLt p' = toLt p" "same_store p p'" using Free_sim [OF assms True] by blast
  have "simulates p p' [] 0 (toLt p) []"
    using p'(2,3) assms same_store_ok [OF p'(3)] by (simp add: simulates_def outs_def valid_out_def same_store_def)
  then show ?thesis using p'(1) True by (simp add: ldpc_receive_def)
next
  case False
  then show ?thesis using assms by (auto simp: ldpc_receive_def simulates_def outs_def valid_out_def)
qed

fun givenCount :: "ldpcEvent list \<Rightarrow> nat" where
  "givenCount [] = 0"
| "givenCount (LGotTransaction t # evs) = Suc (givenCount evs)"
| "givenCount (ev # evs) = givenCount evs"

lemma history_sim:
  assumes "ptrs_ok p" "lt_ok (toLt p)" "agrees (ldpcOps b) truth H (toLt p)"
    and "\<forall>ev\<in>set (ltEvents evs). honest (ldpcOps b) (ldhasher p) truth H ev"
    and "lt_receiveAll (ldpcOps b) (toLt p) (ltEvents evs) = Some (Inr (p1, out))"
  shows "\<exists>p' new. ldpc_receiveAll b p evs = Some (Inr (p', new)) \<and> simulates p p' new (givenCount evs) p1 out"
  using assms
proof (induction evs arbitrary: p out)
  case Nil
  then show ?case by (auto simp: simulates_def outs_def valid_out_def)
next
  case (Cons ev evs)
  note T = ldpcOps_laws [of b]
  have rest: "\<exists>p' new'. ldpc_receiveAll b p (ev # evs) = Some (Inr (p', new')) \<and> simulates p p' new' (k + givenCount evs) p1 (out1 @ out2)"
    if step: "ldpc_receive b p ev = Some (Inr (p2, new))" "simulates p p2 new k q2 out1"
      and q2: "lt_ok q2" "agrees (ldpcOps b) truth H q2" "dhasher q2 = ldhasher p"
      and tl: "lt_receiveAll (ldpcOps b) q2 (ltEvents evs) = Some (Inr (p1, out2))"
      and hon: "\<forall>ev\<in>set (ltEvents evs). honest (ldpcOps b) (ldhasher p) truth H ev" for p2 new k q2 out1 out2
  proof -
    have 2: "toLt p2 = q2" "ptrs_ok p2" using step(2) by (simp_all add: simulates_def valid_out_def)
    have "ldhasher p2 = ldhasher p" using 2(1) q2(3) by (metis toLt_fields(2))
    then obtain p' new' where "ldpc_receiveAll b p2 evs = Some (Inr (p', new'))" "simulates p2 p' new' (givenCount evs) p1 out2"
      using Cons.IH [of p2 out2] 2 q2(1,2) tl hon by auto
    then show ?thesis using step simulates_append [OF step(2)] by auto
  qed
  show ?case
  proof (cases ev)
    case (LFreed c)
    obtain p' where "ldpc_receive b p ev = Some (Inr (p', []))" "simulates p p' [] 0 (toLt p) []"
      using receive_freed_sim [OF Cons.prems(1), of b c] LFreed by blast
    then show ?thesis using rest [of p' "[]" 0 "toLt p" "[]" out] Cons.prems LFreed by simp
  next
    case (LGotCodeword raw)
    obtain q2 out1 out2 where 2: "lt_receive (ldpcOps b) (toLt p) (GotCodeword raw) = Some (Inr (q2, out1))"
      "lt_receiveAll (ldpcOps b) q2 (ltEvents evs) = Some (Inr (p1, out2))" "out = out1 @ out2"
      using Cons.prems(5) LGotCodeword by (auto simp: bindO_Inr_iff)
    obtain p' new where "ldpc_receive b p ev = Some (Inr (p', new))" "simulates p p' new 0 q2 out1"
      using receive_codeword_sim [OF Cons.prems(1) 2(1)] LGotCodeword by blast
    moreover have "lt_ok q2" "dhasher q2 = ldhasher p" using lt_receive_ok [OF Cons.prems(2), of "ldpcOps b" "GotCodeword raw"] 2(1) by auto
    moreover have "agrees (ldpcOps b) truth H q2"
      using agrees_receive [OF T Cons.prems(2,3) _ 2(1)] Cons.prems(4) LGotCodeword by simp
    ultimately show ?thesis using rest [of p' new 0 q2 out1 out2] 2(2,3) Cons.prems(4) LGotCodeword by simp
  next
    case (LGotTransaction t)
    obtain q2 out1 out2 where 2: "lt_receive (ldpcOps b) (toLt p) (GotTransaction t) = Some (Inr (q2, out1))"
      "lt_receiveAll (ldpcOps b) q2 (ltEvents evs) = Some (Inr (p1, out2))" "out = out1 @ out2"
      using Cons.prems(5) LGotTransaction by (auto simp: bindO_Inr_iff)
    have hon: "honest (ldpcOps b) (ldhasher p) truth H (GotTransaction t)" using Cons.prems(4) LGotTransaction by simp
    obtain p' new where "ldpc_receive b p ev = Some (Inr (p', new))" "simulates p p' new 1 q2 out1"
      using receive_transaction_sim [OF Cons.prems(1,3) _ 2(1)] hon LGotTransaction by (auto simp: honest_def)
    moreover have "lt_ok q2" "dhasher q2 = ldhasher p" using lt_receive_ok [OF Cons.prems(2), of "ldpcOps b" "GotTransaction t"] 2(1) by auto
    moreover have "agrees (ldpcOps b) truth H q2"
      using agrees_receive [OF T Cons.prems(2,3) _ 2(1)] hon by simp
    ultimately show ?thesis using rest [of p' new 1 q2 out1 out2] 2(2,3) Cons.prems(4) LGotTransaction by simp
  qed
qed

lemma ldpc_New: "toLt (ldpc_NewDecoder sip mem) = lt_NewDecoder sip mem" "ptrs_ok (ldpc_NewDecoder sip mem)"
  by (simp_all add: toLt_def ldpc_NewDecoder_def lt_NewDecoder_def ptrs_ok_def)

section \<open>Concrete values for the witnesses\<close>

definition demoBlake :: blake where
  "demoBlake bs = bs"

definition demoFirst :: hash64 where
  "demoFirst bs = ucast (hd bs)"

definition wideTruth :: "u32 \<Rightarrow> txData" where
  "wideTruth h = ucast h"

lemma hd_Serialized: "hd (Serialized t) = ucast (data t)"
  by (simp add: Serialized_def upt_conv_Cons)

lemma wide_hashes: "hashes_to (ldpcOps demoBlake) demoFirst wideTruth {1, 2, 3}"
  by (simp add: hashes_to_def ldpcOps_def demoBlake_def salted_def demoFirst_def hd_Serialized wideTruth_def)

definition wideHistory :: "ldpcEvent list" where
  "wideHistory = [LGotCodeword \<lparr>cw_symbol = ldpcXOR (wideTruth 1) (wideTruth 2), cw_members = [1, 2]\<rparr>, LFreed 0,
     LGotTransaction (true_tx (ldpcOps demoBlake) wideTruth 1)]"

lemma wide_history:
  "\<forall>ev\<in>set (ltEvents wideHistory). honest (ldpcOps demoBlake) demoFirst wideTruth {1, 2, 3} ev"
  "givenBy demoFirst (ltEvents wideHistory) = {1}" "wordsOf (ltEvents wideHistory) = [[1, 2]]"
  using wide_hashes
  by (simp_all add: wideHistory_def honest_def honest_cw_def honest_tx_def hashes_to_def true_tx_def ldpc.xorAll_add)
    (simp add: ldpcOps_def ldpcXOR_eq)

text \<open>The linear approximations of the logarithm and the exponential function near 1 and 0.\<close>

definition lineMath :: mathFns where
  "lineMath = \<lparr>math_Log = (\<lambda>x. f_sub x (Fin 1)), math_Exp = (\<lambda>x. f_add (Fin 1) x)\<rparr>"

definition demoRand :: ldpcRand where
  "demoRand = \<lparr>floats = (\<lambda>_. Fin (1 / 2)), ints = (\<lambda>k n. int n - 1)\<rparr>"

definition wideEncoder :: ldpcEncoder where
  "wideEncoder = \<lparr>lwindow = map (\<lambda>h. \<lparr>saltedHash = h, tx_of = true_tx (ldpcOps demoBlake) wideTruth h\<rparr>) [1, 2, 3],
     lhasher = demoFirst, ldegreeDist = (\<lambda>_. 2), lwindowSize = 3, lhashes = {1, 2, 3}\<rparr>"

definition longEncoder :: ldpcEncoder where
  "longEncoder = wideEncoder\<lparr>lwindow := map (\<lambda>h. \<lparr>saltedHash = h, tx_of = true_tx (ldpcOps demoBlake) wideTruth h\<rparr>) [1, 2, 3, 4]\<rparr>"

text \<open>Two rounds: the loop visits the positions 1 and 3, and then leaves the window.\<close>

lemma line_skips: "skips_ok lineMath 1 (floats demoRand) 4"
proof -
  have W: "weight lineMath 1 (floats demoRand) 0 = Fin (1 / 2)" "weight lineMath 1 (floats demoRand) 1 = Fin (1 / 4)"
    by (simp_all add: lineMath_def demoRand_def float_eval)
  have k: "skipAt lineMath 1 (floats demoRand) 0 = Inr 1" "skipAt lineMath 1 (floats demoRand) 1 = Inr 2"
    unfolding skipAt_def W by (simp_all add: lineMath_def demoRand_def float_eval trunc_rat_def)
  then have m: "midxAt lineMath 1 (floats demoRand) 2 = 6" by (simp add: numeral_2_eq_2)
  show ?thesis unfolding skips_ok_def
  proof (intro allI impI)
    fix j assume "\<forall>i\<le>j. midxAt lineMath 1 (floats demoRand) i < int 4"
    then have "j = 0 \<or> j = 1" using m by (cases "2 \<le> j") auto
    then show "case skipAt lineMath 1 (floats demoRand) j of Inl e \<Rightarrow> False | Inr k \<Rightarrow> 0 \<le> k \<and> k < 2 ^ 62"
      using k by (elim disjE) simp_all
  qed
qed

section \<open>Transactions\<close>

text \<open>C35: Unmarshalling accepts exactly 128 bytes: \<open>Serialized\<close> returns them and the hash is
  that of the bytes; any other length gives \<open>DataSizeError\<close> with it. Unmarshalling what
  \<open>Serialized\<close> returns gives the transaction back. The exclusive or of 64-bit pieces is that
  of the bytes.\<close>

theorem transaction_round_trip:
  "(if length bs = 128
    then \<exists>t'. UnmarshalBinary blake2b t bs = Inr t' \<and> Serialized t' = bs \<and> hash t' = blake2b bs
    else UnmarshalBinary blake2b t bs = Inl (DataSizeError (length bs))) \<and>
   UnmarshalBinary blake2b t (Serialized u) = Inr \<lparr>data = data u, hash = blake2b (Serialized u)\<rparr> \<and>
   Serialized (u\<lparr>data := ldpcXOR (data u) (data v)\<rparr>) = map2 (XOR) (Serialized u) (Serialized v)"
proof (intro conjI)
  have s: "Serialized (x\<lparr>data := wordOfBytes bs\<rparr>) = bs" "Serialized (x\<lparr>data := wordOfBytes bs, hash := h\<rparr>) = bs"
    if "length bs = 128" for x h
    using Serialized_wordOfBytes [OF that] by (simp_all add: Serialized_def)
  show "if length bs = 128
    then \<exists>t'. UnmarshalBinary blake2b t bs = Inr t' \<and> Serialized t' = bs \<and> hash t' = blake2b bs
    else UnmarshalBinary blake2b t bs = Inl (DataSizeError (length bs))"
    by (simp add: UnmarshalBinary_def Let_def s)
  have "Serialized \<lparr>data = data u, hash = []\<rparr> = Serialized u" by (simp add: Serialized_def)
  then show "UnmarshalBinary blake2b t (Serialized u) = Inr \<lparr>data = data u, hash = blake2b (Serialized u)\<rparr>"
    using Unmarshal_Serialized [of blake2b t u] by (simp add: NewTransaction_eq [OF ldpcOps_laws]) (simp add: ldpcOps_def)
  show "Serialized (u\<lparr>data := ldpcXOR (data u) (data v)\<rparr>) = map2 (XOR) (Serialized u) (Serialized v)"
    by (rule nth_equalityI) (auto simp: Serialized_def ldpcXOR_eq intro!: bit_word_eqI simp: bit_simps)
qed

theorem transaction_round_trip_witness:
  "UnmarshalBinary demoBlake zeroTransaction [1, 2] = Inl (DataSizeError 2) \<and>
   Serialized (zeroTransaction\<lparr>data := ldpcXOR 0 0\<rparr>) = map2 (XOR) (Serialized zeroTransaction) (Serialized zeroTransaction)"
  using transaction_round_trip [of "[1, 2]" demoBlake zeroTransaction zeroTransaction zeroTransaction]
  by (simp add: zeroTransaction_def)

section \<open>The encoder\<close>

text \<open>C36: The reservoir loop returns, and a codeword of positive degree mixes as many different
  entries of the window as the degree asks for, or all; its symbol is their exclusive or. The
  entry at the position of the degree is never among them: the loop starts one position late.
  Degree zero or an empty window give the empty codeword, and a negative degree panics. Assumed
  are samples of \<open>Intn\<close> in range, a window of less than \<open>2 ^ 62\<close> entries, and that in each round
  that the loop executes the skip, computed from \<open>Log\<close>, \<open>Exp\<close> and the samples of \<open>Float64\<close>, is a
  number between 0 and \<open>2 ^ 62\<close>.\<close>

theorem codeword_samples:
  assumes "length (lwindow e) < 2 ^ 62" "fairInts (ints g)"
    and "d = min (nat deg) (length (lwindow e))" "skips_ok M d (floats g) (length (lwindow e))"
  shows "if deg < 0 then \<exists>m. ldpc_produceCodeword M e deg g = Some (Inl (Panic m))
    else if d = 0 then ldpc_produceCodeword M e deg g = Some (Inr (\<lparr>cw_symbol = 0, cw_members = []\<rparr>, g))
    else \<exists>c g' chosen. ldpc_produceCodeword M e deg g = Some (Inr (c, g')) \<and> length chosen = d \<and>
      mset chosen \<subseteq># mset (take d (lwindow e) @ drop (Suc d) (lwindow e)) \<and> mixes (ldpcOps blake2b) chosen c"
proof (cases "deg \<le> 0 \<or> lwindow e = []")
  case True
  then show ?thesis using assms(3) by (auto simp: ldpc_produceCodeword_def Let_def)
next
  case False
  then have c: "d \<noteq> 0" "\<not> deg < 0" "0 < deg" "lwindow e \<noteq> []"
    using assms(3) by (auto simp: min_def split: if_splits)
  show ?thesis
    unfolding if_not_P [OF c(1)] if_not_P [OF c(2)] mixable_def [symmetric]
    using ldpc_produce_spec [OF c(3,4) assms, of blake2b] by blast
qed

theorem codeword_samples_witness:
  "\<exists>c g'. ldpc_produceCodeword lineMath longEncoder 1 demoRand = Some (Inr (c, g')) \<and>
     length (cw_members c) = 1 \<and> 2 \<notin> set (cw_members c)"
proof -
  have w: "length (lwindow longEncoder) = 4" "saltedHash ` set (take 1 (lwindow longEncoder) @ drop (Suc 1) (lwindow longEncoder)) = {1, 3, 4}"
    by (simp_all add: longEncoder_def)
  have f: "fairInts (ints demoRand)" by (simp add: fairInts_def demoRand_def)
  have d: "1 = min (nat 1) (length (lwindow longEncoder))" unfolding w(1) by simp
  obtain c g' chosen where r: "ldpc_produceCodeword lineMath longEncoder 1 demoRand = Some (Inr (c, g'))" "length chosen = 1"
    "mset chosen \<subseteq># mset (take 1 (lwindow longEncoder) @ drop (Suc 1) (lwindow longEncoder))" "mixes (ldpcOps demoBlake) chosen c"
    using codeword_samples [OF _ f d, of lineMath demoBlake] line_skips w(1) by auto
  have "saltedHash ` set chosen \<subseteq> {1, 3, 4}"
    unfolding w(2) [symmetric] using set_mset_mono [OF r(3)] by (intro image_mono) (simp only: set_mset_mset)
  then show ?thesis using r(1,2,4) by (auto simp: mixes_def)
qed

section \<open>The decoder\<close>



end
