(* ===== verification/Node.thy ===== *)
theory Node
  imports Ldpc_Sampling Ldpc_Decoder
begin

text \<open>
  \<open>node/\<close>: the goroutines of a peer, the sender's loop (\<open>sender.go\<close>), the receiver's loop
  (\<open>receiver.go\<close>) and the controller's loop (\<open>controller.go\<close>). A loop is a step function on its
  state; an event is the case that \<open>select\<close> chose, with the received value and the times that
  the case reads from the clock. A channel is the list of the values in it. A send that blocks
  appends to the list once it goes through; the sender's channel of codewords has a capacity,
  and its \<open>select\<close> with \<open>default\<close> drops a codeword when the channel is full. The streams of
  \<open>gob\<close>, the log lines and the quantile sketches are left out, the values added to a sketch
  are kept.
\<close>

section \<open>The sender\<close>

record nodeCodeword =
  ncCodeword :: ldpcCodeword
  Loss :: int
  UnixMicro :: u64

record nodeSender =
  encoder :: ldpcEncoder
  cwRate :: float64
  rateIncreaseConstant :: float64
  rateDecreaseConstant :: float64
  minRate :: float64
  accumLoss :: int
  droppedCodewords :: int
  credit :: float64

text \<open>The global generator and the clock, which the loop reads; \<open>queue\<close> is the channel, \<open>wire\<close> what left it.\<close>

record senderState =
  snd_of :: nodeSender
  grand :: ldpcRand
  clock :: "nat \<Rightarrow> u64"
  queue :: "nodeCodeword list"
  wire :: "nodeCodeword list"

text \<open>The codeword went into the channel: the loss is reported and the rate goes down.\<close>

definition codewordSent :: "nodeSender \<Rightarrow> nodeSender" where
  "codewordSent s =
     (let s = s\<lparr>accumLoss := 0, cwRate := f_sub (cwRate s) (rateDecreaseConstant s)\<rparr>
      in if f_less (cwRate s) (minRate s) then s\<lparr>cwRate := minRate s\<rparr> else s)"

definition sendOne :: "mathFns \<Rightarrow> nat \<Rightarrow> senderState \<Rightarrow> senderState run" where
  "sendOne M cap st =
     (let s = snd_of st; s = s\<lparr>credit := f_sub (credit s) (Fin 1)\<rparr> in
      bindO (ldpc_ProduceCodeword M (encoder s) (grand st)) (\<lambda>(e, c, g).
        let s = s\<lparr>encoder := e\<rparr>;
            nc = \<lparr>ncCodeword = c, Loss = accumLoss s, UnixMicro = clock st 0\<rparr>;
            st = st\<lparr>grand := g, clock := (\<lambda>k. clock st (Suc k))\<rparr>
        in if length (queue st) < cap
           then Some (Inr (st\<lparr>queue := queue st @ [nc], snd_of := codewordSent s\<rparr>))
           else Some (Inr (st\<lparr>snd_of := s\<lparr>droppedCodewords := droppedCodewords s + 1\<rparr>\<rparr>))))"

partial_function (option) spendCredit :: "mathFns \<Rightarrow> nat \<Rightarrow> senderState \<Rightarrow> senderState run" where
  "spendCredit M cap st =
     (if f_ge (credit (snd_of st)) (Fin 1)
      then bindO (sendOne M cap st) (\<lambda>st. spendCredit M cap st)
      else Some (Inr st))"

text \<open>\<open>CodewordTaken\<close>: the goroutine \<open>sendCodewords\<close> takes one codeword off the channel and encodes it.\<close>

datatype senderEvent =
    PeerLoss int
  | OurLoss int
  | NewTx ldpcTransaction
  | SendTick
  | LogTick
  | CodewordTaken

definition sender_step :: "mathFns \<Rightarrow> nat \<Rightarrow> senderEvent \<Rightarrow> senderState \<Rightarrow> senderState run" where
  "sender_step M cap ev st =
     (let s = snd_of st in
      case ev of
        PeerLoss l \<Rightarrow>
          Some (Inr (st\<lparr>snd_of := s\<lparr>cwRate := f_add (cwRate s) (f_mul (rateIncreaseConstant s) (f_of_int l))\<rparr>\<rparr>))
      | OurLoss l \<Rightarrow> Some (Inr (st\<lparr>snd_of := s\<lparr>accumLoss := accumLoss s + l\<rparr>\<rparr>))
      | NewTx tx \<Rightarrow>
          bindO (Some (ldpc_AddTransaction (encoder s) tx)) (\<lambda>(e, _). Some (Inr (st\<lparr>snd_of := s\<lparr>encoder := e\<rparr>\<rparr>)))
      | SendTick \<Rightarrow>
          spendCredit M cap (st\<lparr>snd_of := s\<lparr>credit := f_add (credit s) (f_mul (rnd (1 / 100)) (cwRate s))\<rparr>\<rparr>)
      | LogTick \<Rightarrow> Some (Inr st)
      | CodewordTaken \<Rightarrow>
          (case queue st of [] \<Rightarrow> Some (Inr st)
             | nc # rest \<Rightarrow> Some (Inr (st\<lparr>queue := rest, wire := wire st @ [nc]\<rparr>))))"

fun sender_run :: "mathFns \<Rightarrow> nat \<Rightarrow> senderEvent list \<Rightarrow> senderState \<Rightarrow> senderState run" where
  "sender_run M cap [] st = Some (Inr st)"
| "sender_run M cap (ev # evs) st = bindO (sender_step M cap ev st) (sender_run M cap evs)"

section \<open>The receiver\<close>

record receivedCodeword =
  rcStub :: nat
  receivedTime :: int

record nodeReceiver =
  rdecoder :: ldpcDecoder
  rxWindow :: "receivedCodeword list"
  timeout :: int
  ourLossCh :: "int list"
  peerLossCh :: "int list"
  decodedCh :: "(ldpcTransaction \<times> bool) list"
  delaysMs :: "float64 list"

text \<open>The loop that frees the codewords that have waited too long and counts those not decoded.\<close>

fun expireWindow :: "int \<Rightarrow> int \<Rightarrow> receivedCodeword list \<Rightarrow> ldpcDecoder \<Rightarrow> int \<Rightarrow> (receivedCodeword list \<times> ldpcDecoder \<times> int) result" where
  "expireWindow now tmo [] p loss = Inr ([], p, loss)"
| "expireWindow now tmo (head # rest) p loss =
     (if now - receivedTime head < tmo then Inr (head # rest, p, loss)
      else bindR (ldpc_Decoded p (rcStub head)) (\<lambda>d.
           bindR (Free p (rcStub head)) (\<lambda>p.
             expireWindow now tmo rest p (if \<not> d then loss + 1 else loss))))"

text \<open>What goes into the channel of decoded transactions: the transaction and whether it is expired.\<close>

definition decodedOut :: "ldpcDecoder \<Rightarrow> DecodedTransaction list \<Rightarrow> (ldpcTransaction \<times> bool) list" where
  "decodedOut p buf = map (\<lambda>d. (preimages p ! Transaction d, Expired d)) buf"

definition recv_codeword :: "blake \<Rightarrow> nodeCodeword \<Rightarrow> int \<Rightarrow> u64 \<Rightarrow> nodeReceiver \<Rightarrow> nodeReceiver run" where
  "recv_codeword blake2b cw now micro r =
     bindO (Some (expireWindow now (timeout r) (rxWindow r) (rdecoder r) 0)) (\<lambda>(win, p, loss).
       let r = r\<lparr>rxWindow := win, ourLossCh := ourLossCh r @ [loss]\<rparr>;
           r = (if Loss cw > 0 then r\<lparr>peerLossCh := peerLossCh r @ [Loss cw]\<rparr> else r);
           delayms = f_div (f_of_int (sint (micro - UnixMicro cw))) (Fin 1000);
           r = r\<lparr>delaysMs := delaysMs r @ [delayms]\<rparr>
       in bindO (ldpc_AddCodeword blake2b p (ncCodeword cw)) (\<lambda>(p, stub, buf).
            Some (Inr (r\<lparr>rdecoder := p, rxWindow := rxWindow r @ [\<lparr>rcStub = stub, receivedTime = now\<rparr>],
                         decodedCh := decodedCh r @ decodedOut p buf\<rparr>))))"

definition recv_transaction :: "blake \<Rightarrow> ldpcTransaction \<Rightarrow> nodeReceiver \<Rightarrow> nodeReceiver run" where
  "recv_transaction blake2b tx r =
     (let (p, ptr) = allocTx (rdecoder r) tx in
      bindO (ldpc_Decoder_AddTransaction blake2b p ptr) (\<lambda>(p, buf).
        Some (Inr (r\<lparr>rdecoder := p, decodedCh := decodedCh r @ decodedOut p buf\<rparr>))))"

datatype receiverEvent =
    GotCw nodeCodeword int u64
  | GotTx ldpcTransaction
  | ReportTick

definition receiver_step :: "blake \<Rightarrow> receiverEvent \<Rightarrow> nodeReceiver \<Rightarrow> nodeReceiver run" where
  "receiver_step blake2b ev r =
     (case ev of
        GotCw cw now micro \<Rightarrow> recv_codeword blake2b cw now micro r
      | GotTx tx \<Rightarrow> recv_transaction blake2b tx r
      | ReportTick \<Rightarrow> Some (Inr (r\<lparr>delaysMs := []\<rparr>)))"

section \<open>The controller\<close>

record nodePeer =
  newTxToSender :: "ldpcTransaction list"
  newTxToReceiver :: "ldpcTransaction list"

definition notifyUnexpiredTransaction :: "nodePeer \<Rightarrow> ldpcTransaction \<Rightarrow> nodePeer" where
  "notifyUnexpiredTransaction h t =
     h\<lparr>newTxToSender := newTxToSender h @ [t], newTxToReceiver := newTxToReceiver h @ [t]\<rparr>"

definition notifyExpiredTransaction :: "nodePeer \<Rightarrow> ldpcTransaction \<Rightarrow> nodePeer" where
  "notifyExpiredTransaction h t = h\<lparr>newTxToReceiver := newTxToReceiver h @ [t]\<rparr>"

record controller =
  peers :: "nodePeer list"
  txcnt :: int
  warmupFinished :: bool
  start :: int
  warmupTime :: int
  delaySketch :: "float64 list"

text \<open>The first eight bytes of a transaction are the time it was generated at, in microseconds.\<close>

definition getDelayUs :: "u64 \<Rightarrow> ldpcTransaction \<Rightarrow> float64" where
  "getDelayUs now t =
     (let sent = ucast (wordOfBytes (take 8 (Serialized t))) :: u64
      in f_of_int (sint (now - sent)))"

definition randomTransaction :: "blake \<Rightarrow> u64 \<Rightarrow> u8 list \<Rightarrow> dataSizeError + ldpcTransaction" where
  "randomTransaction blake2b ut randomBytes =
     UnmarshalBinary blake2b zeroTransaction (map (\<lambda>k. ucast (drop_bit (8 * k) ut)) [0..<8] @ randomBytes)"

datatype controllerEvent =
    LocalTransaction ldpcTransaction
  | Decoded ldpcTransaction bool u64
  | NewPeer nodePeer
  | Tick int

definition controller_step :: "controllerEvent \<Rightarrow> controller \<Rightarrow> controller" where
  "controller_step ev c =
     (case ev of
        LocalTransaction tx \<Rightarrow> c\<lparr>peers := map (\<lambda>h. notifyUnexpiredTransaction h tx) (peers c)\<rparr>
      | Decoded tx expired now \<Rightarrow>
          let c = c\<lparr>txcnt := txcnt c + 1,
                    peers := map (\<lambda>h. if expired then notifyExpiredTransaction h tx
                                      else notifyUnexpiredTransaction h tx) (peers c)\<rparr>
          in if warmupFinished c
             then c\<lparr>delaySketch := delaySketch c @ [f_div (getDelayUs now tx) (Fin 1000)]\<rparr> else c
      | NewPeer p \<Rightarrow> c\<lparr>peers := peers c @ [p]\<rparr>
      | Tick now \<Rightarrow>
          if \<not> warmupFinished c \<and> now - start c > warmupTime c then c\<lparr>warmupFinished := True\<rparr> else c)"

section \<open>A new peer\<close>

record nodeConfig =
  conf_K :: u64
  conf_M :: u64
  conf_initRate :: float64
  conf_minRate :: float64
  conf_incConstant :: float64
  conf_targetLoss :: float64
  conf_decodeTimeout :: int

fun importTransactions :: "blake \<Rightarrow> ldpcTransaction list \<Rightarrow> ldpcDecoder \<Rightarrow> ldpcDecoder run" where
  "importTransactions blake2b [] p = Some (Inr p)"
| "importTransactions blake2b (t # ts) p =
     (let (p, ptr) = allocTx p t in
      bindO (ldpc_Decoder_AddTransaction blake2b p ptr) (\<lambda>(p, _). importTransactions blake2b ts p))"

text \<open>\<open>encSip\<close> and \<open>decSip\<close> are \<open>siphash\<close> under the two keys, \<open>degs\<close> is the robust soliton distribution.\<close>

definition newPeer ::
  "blake \<Rightarrow> hash64 \<Rightarrow> hash64 \<Rightarrow> (nat \<Rightarrow> u64) \<Rightarrow> nodeConfig \<Rightarrow> ldpcTransaction list \<Rightarrow> (nodeSender \<times> nodeReceiver \<times> nodePeer) run" where
  "newPeer blake2b encSip decSip degs cfg importTx =
     (let s = \<lparr>encoder = ldpc_NewEncoder encSip degs (sint (conf_K cfg)), cwRate = conf_initRate cfg,
               rateIncreaseConstant = conf_incConstant cfg,
               rateDecreaseConstant = f_mul (conf_incConstant cfg) (conf_targetLoss cfg),
               minRate = conf_minRate cfg, accumLoss = 0, droppedCodewords = 0, credit = Fin 0\<rparr>
      in bindO (importTransactions blake2b importTx (ldpc_NewDecoder decSip (sint (conf_M cfg)))) (\<lambda>p.
           Some (Inr (s, \<lparr>rdecoder = p, rxWindow = [], timeout = conf_decodeTimeout cfg, ourLossCh = [], peerLossCh = [],
                         decodedCh = [], delaysMs = []\<rparr>, \<lparr>newTxToSender = [], newTxToReceiver = []\<rparr>))))"

text \<open>The initial rate that \<open>main\<close> computes from its flags.\<close>

definition startRate :: "float64 \<Rightarrow> float64 \<Rightarrow> float64 \<Rightarrow> float64" where
  "startRate initRate txRate minR =
     (let r = (if initRate = Fin 0 then txRate else initRate) in if f_less r minR then minR else r)"

end
