(* ===== verification/Node_Properties.thy ===== *)
theory Node_Properties
  imports Node Ldpc_Properties
begin

text \<open>The loops of a peer in \<open>node/\<close>, and their properties.\<close>

section \<open>The sender\<close>

definition encoder_fine :: "ldpcEncoder \<Rightarrow> bool" where
  "encoder_fine e \<longleftrightarrow>
     (\<forall>k. 0 < sint (ldegreeDist e k)) \<and> 0 \<le> lwindowSize e \<and> lwindowSize e < 2 ^ 62 \<and>
     int (length (lwindow e)) \<le> lwindowSize e"

definition sender_fine :: "senderState \<Rightarrow> bool" where
  "sender_fine st \<longleftrightarrow> fairInts (ints (grand st)) \<and> encoder_fine (encoder (snd_of st))"

text \<open>What is assumed of the sampling of the next codeword: the skips of its rounds are defined.\<close>

definition draw_ok :: "mathFns \<Rightarrow> ldpcEncoder \<Rightarrow> ldpcRand \<Rightarrow> bool" where
  "draw_ok M e g \<longleftrightarrow>
     skips_ok M (min (nat (sint (ldegreeDist e 0))) (length (lwindow e))) (floats g) (length (lwindow e))"

text \<open>And of the codewords that the credit pays for, at most \<open>n\<close>.\<close>

fun draws_ok :: "mathFns \<Rightarrow> nat \<Rightarrow> nat \<Rightarrow> senderState \<Rightarrow> bool" where
  "draws_ok M cap 0 st = True"
| "draws_ok M cap (Suc n) st =
     (f_ge (credit (snd_of st)) (Fin 1) \<longrightarrow>
        draw_ok M (encoder (snd_of st)) (grand st) \<and>
        (\<forall>st'. sendOne M cap st = Some (Inr st') \<longrightarrow> draws_ok M cap n st'))"

lemma ProduceCodeword_returns:
  assumes "draw_ok M e g" "fairInts (ints g)" "encoder_fine e"
  shows "\<exists>e' c g'. ldpc_ProduceCodeword M e g = Some (Inr (e', c, g')) \<and> encoder_fine e' \<and> fairInts (ints g')"
proof -
  let ?e = "e\<lparr>ldegreeDist := (\<lambda>k. ldegreeDist e (Suc k))\<rparr>" and ?d = "sint (ldegreeDist e 0)"
  have fine: "encoder_fine ?e" "0 < ?d" "length (lwindow ?e) < 2 ^ 62"
    using assms(3) by (auto simp: encoder_fine_def)
  have "\<exists>c g'. ldpc_produceCodeword M ?e ?d g = Some (Inr (c, g')) \<and> fairInts (ints g')"
  proof (cases "lwindow e = []")
    case True
    then show ?thesis using assms(2) fine(2) by (simp add: ldpc_produceCodeword_def Let_def)
  next
    case False
    have "skips_ok M (min (nat ?d) (length (lwindow ?e))) (floats g) (length (lwindow ?e))"
      using assms(1) by (simp add: draw_ok_def)
    from ldpc_produce_spec [OF fine(2) _ fine(3) assms(2) refl this] False show ?thesis by fastforce
  qed
  then show ?thesis using fine(1) by (auto simp: ldpc_ProduceCodeword_def Let_def)
qed

lemma AddTransaction_fine:
  assumes "encoder_fine e"
  shows "\<exists>e' yes. ldpc_AddTransaction e t = Inr (e', yes) \<and> encoder_fine e'"
proof -
  have "0 \<le> lwindowSize e" using assms by (simp add: encoder_fine_def)
  then show ?thesis using assms by (auto simp: ldpc_AddTransaction_def Let_def trimWindow_eq encoder_fine_def)
qed

text \<open>The losses of the other direction that codewords have reported or the sender has yet to report.\<close>

definition losses :: "senderState \<Rightarrow> int" where
  "losses st = sum_list (map Loss (wire st @ queue st)) + accumLoss (snd_of st)"

text \<open>Codewords produced so far: those on their way and those dropped.\<close>

definition produced :: "senderState \<Rightarrow> int" where
  "produced st = int (length (wire st @ queue st)) + droppedCodewords (snd_of st)"

text \<open>The state in which a tick begins to spend its credit.\<close>

definition credited :: "senderState \<Rightarrow> senderState" where
  "credited st =
     st\<lparr>snd_of := (snd_of st)\<lparr>credit := f_add (credit (snd_of st)) (f_mul (rnd (1 / 100)) (cwRate (snd_of st)))\<rparr>\<rparr>"

lemma sendOne_spec:
  assumes "draw_ok M (encoder (snd_of st)) (grand st)" "sender_fine st"
  shows "\<exists>st'. sendOne M cap st = Some (Inr st') \<and> sender_fine st' \<and> losses st' = losses st \<and>
    produced st' = produced st + 1 \<and> credit (snd_of st') = f_sub (credit (snd_of st)) (Fin 1) \<and>
    (length (queue st) \<le> cap \<longrightarrow> length (queue st') \<le> cap) \<and> minRate (snd_of st') = minRate (snd_of st) \<and>
    (minRate (snd_of st) \<noteq> NaN \<longrightarrow> \<not> f_less (cwRate (snd_of st)) (minRate (snd_of st)) \<longrightarrow>
       \<not> f_less (cwRate (snd_of st')) (minRate (snd_of st')))"
proof -
  obtain e c g where p: "ldpc_ProduceCodeword M (encoder (snd_of st)) (grand st) = Some (Inr (e, c, g))" "encoder_fine e" "fairInts (ints g)"
    using ProduceCodeword_returns assms by (metis sender_fine_def)
  have "\<not> f_less x x" for x by (cases x) simp_all
  then show ?thesis using p
    by (auto simp: sendOne_def Let_def sender_fine_def losses_def produced_def codewordSent_def)
qed

lemma credit_spent:
  assumes "1 \<le> c" "c \<le> of_nat n" "n < 2 ^ 53"
  shows "\<exists>c'. f_sub (Fin c) (Fin 1) = Fin c' \<and> c' \<le> of_nat (n - 1) \<and> 1 \<le> n"
proof -
  have n: "1 \<le> n" using assms(1,2) by (cases n) simp_all
  then have le: "c - 1 \<le> of_nat (n - 1)" "0 \<le> c - 1" using assms(1,2) by (simp_all add: of_nat_diff)
  have n1: "n - 1 < 2 ^ 53" using assms(3) by simp
  have "rnd (c - 1) = Fin (rndq (c - 1))"
    using le nat_le_powi_1023 [OF n1] by (intro rnd_Fin) linarith+
  moreover have "rndq (c - 1) \<le> of_nat (n - 1)" using rndq_mono [OF le(2,1)] rndq_of_nat [OF n1] by simp
  ultimately show ?thesis using n by (simp add: f_sub_def)
qed

lemma spendCredit_spec:
  assumes "draws_ok M cap n st" "sender_fine st" "credit (snd_of st) = Fin c" "c \<le> of_nat n" "n < 2 ^ 53"
  shows "\<exists>st'. spendCredit M cap st = Some (Inr st') \<and> sender_fine st' \<and> losses st' = losses st \<and>
    produced st \<le> produced st' \<and> produced st' \<le> produced st + int n \<and> f_less (credit (snd_of st')) (Fin 1) \<and>
    (length (queue st) \<le> cap \<longrightarrow> length (queue st') \<le> cap) \<and> minRate (snd_of st') = minRate (snd_of st) \<and>
    (minRate (snd_of st) \<noteq> NaN \<longrightarrow> \<not> f_less (cwRate (snd_of st)) (minRate (snd_of st)) \<longrightarrow>
       \<not> f_less (cwRate (snd_of st')) (minRate (snd_of st')))"
  using assms
proof (induction n arbitrary: st c)
  case 0
  then have "f_less (credit (snd_of st)) (Fin 1)" by simp
  then show ?case using 0 by (intro exI [of _ st], subst spendCredit.simps) (simp add: f_ge_def)
next
  case (Suc n)
  show ?case
  proof (cases "c < 1")
    case True
    then show ?thesis using Suc.prems(2-) by (intro exI [of _ st], subst spendCredit.simps) (simp add: f_ge_def)
  next
    case False
    have "f_ge (credit (snd_of st)) (Fin 1)" using False Suc.prems(3) by (simp add: f_ge_def)
    then have draw: "draw_ok M (encoder (snd_of st)) (grand st)"
      and rest: "\<And>st'. sendOne M cap st = Some (Inr st') \<Longrightarrow> draws_ok M cap n st'" using Suc.prems(1) by simp_all
    obtain st1 where 1: "sendOne M cap st = Some (Inr st1)" "sender_fine st1" "losses st1 = losses st"
      "produced st1 = produced st + 1" "credit (snd_of st1) = f_sub (credit (snd_of st)) (Fin 1)"
      "length (queue st) \<le> cap \<longrightarrow> length (queue st1) \<le> cap" "minRate (snd_of st1) = minRate (snd_of st)"
      "minRate (snd_of st) \<noteq> NaN \<longrightarrow> \<not> f_less (cwRate (snd_of st)) (minRate (snd_of st)) \<longrightarrow>
         \<not> f_less (cwRate (snd_of st1)) (minRate (snd_of st1))"
      using sendOne_spec [OF draw Suc.prems(2)] by blast
    obtain c' where c': "credit (snd_of st1) = Fin c'" "c' \<le> of_nat n"
      using credit_spent [of c "Suc n"] Suc.prems(3-5) False 1(5) by auto
    have "n < 2 ^ 53" using Suc.prems(5) by simp
    then obtain st' where 2: "spendCredit M cap st1 = Some (Inr st')" "sender_fine st'" "losses st' = losses st1"
      "produced st1 \<le> produced st'" "produced st' \<le> produced st1 + int n" "f_less (credit (snd_of st')) (Fin 1)"
      "length (queue st1) \<le> cap \<longrightarrow> length (queue st') \<le> cap" "minRate (snd_of st') = minRate (snd_of st1)"
      "minRate (snd_of st1) \<noteq> NaN \<longrightarrow> \<not> f_less (cwRate (snd_of st1)) (minRate (snd_of st1)) \<longrightarrow>
         \<not> f_less (cwRate (snd_of st')) (minRate (snd_of st'))"
      using Suc.IH [OF rest [OF 1(1)] 1(2) c'] by blast
    have "spendCredit M cap st = Some (Inr st')"
      using 1(1) 2(1) False Suc.prems(3) by (subst spendCredit.simps) (simp add: f_ge_def)
    then show ?thesis using 1 2 by auto
  qed
qed

section \<open>The flags of released codewords\<close>

text \<open>Decoding leaves the flags alone that \<open>Free\<close> sets; a new codeword is not released.\<close>

abbreviation flags :: "ldpcDecoder \<Rightarrow> bool list" where
  "flags p \<equiv> map freed (lcwHeap p)"

lemma flags_update: "c < length hp \<Longrightarrow> freed cw = freed (hp ! c) \<Longrightarrow> map freed (hp[c := cw]) = map freed hp"
  by (simp add: map_update list_update_same_conv)

lemma peel_flag: "ldpc_peelTransaction cw tx t = Inr cw' \<Longrightarrow> freed cw' = freed cw"
  by (auto simp: ldpc_peelTransaction_def split: option.splits)

lemma markOne_flags: "ldpc_markOne tx t i b p q = Inr (p', q') \<Longrightarrow> flags p' = flags p"
  by (auto simp: ldpc_markOne_def Let_def result_simps intro!: flags_update dest!: peel_flag split: option.splits if_splits)

lemma markLoop_flags: "ldpc_markLoop tx t i bs p q = Inr (p', q') \<Longrightarrow> flags p' = flags p"
  by (induction tx t i bs p q rule: ldpc_markLoop.induct) (auto simp: result_simps dest!: markOne_flags)

lemma markDecoded_flags: "ldpc_markDecoded p tx t q = Inr (p', q') \<Longrightarrow> flags p' = flags p"
  by (auto simp: ldpc_markDecoded_def result_simps dest!: markLoop_flags)

lemma failToDecode_flags: "ldpc_failToDecode p c = Inr (p', x) \<Longrightarrow> flags p' = flags p"
  by (auto simp: ldpc_failToDecode_def Let_def result_simps intro!: flags_update split: option.splits if_splits)

lemma store_flags: "ldpc_storeNewTransaction p h t = Inr p' \<Longrightarrow> lcwHeap p' = lcwHeap p"
  by (auto simp: ldpc_storeNewTransaction_def result_simps)

lemma decodeOne_flags:
  assumes "ldpc_decodeOne b c p q new = Inr (p', q', new')"
  shows "flags p' = flags p"
  using assms
  by (auto simp: ldpc_decodeOne_def allocTx_def Let_def result_simps flags_update dest!: store_flags markDecoded_flags failToDecode_flags
      split: if_splits sum.splits)

lemma decodeLoop_flags:
  assumes "ldpc_decodeLoop b p q new = Some r"
  shows "r = Inr (p', new') \<longrightarrow> flags p' = flags p"
proof (rule ldpc_decodeLoop.raw_induct [where P = "\<lambda>b p q new r. r = Inr (p', new') \<longrightarrow> flags p' = flags p", OF _ assms], rule impI)
  fix loop b p q new r
  assume IH: "\<And>b p q new r. loop b p q new = Some r \<Longrightarrow> r = Inr (p', new') \<longrightarrow> flags p' = flags p"
    and body: "(if q = [] then Some (Inr (p, new))
      else bindO (Some (ldpc_decodeOne b (last q) p (butlast q) new)) (\<lambda>(p, q, new). loop b p q new)) = Some r"
    and r: "r = Inr (p', new')"
  show "flags p' = flags p"
  proof (cases "q = []")
    case True
    then show ?thesis using body r by simp
  next
    case False
    then obtain p1 q1 new1 where "ldpc_decodeOne b (last q) p (butlast q) new = Inr (p1, q1, new1)"
      "loop b p1 q1 new1 = Some (Inr (p', new'))"
      using body r by (auto simp: bindO_Inr_iff)
    then show ?thesis using IH [of b p1 q1 new1] decodeOne_flags by simp
  qed
qed

lemma linkMember_flags: "ldpc_linkMember c p m = Inr p' \<Longrightarrow> flags p' = flags p"
  by (auto simp: ldpc_linkMember_def Let_def result_simps intro!: flags_update split: option.splits if_splits)

lemma linkMembers_flags: "ldpc_linkMembers c ms p = Inr p' \<Longrightarrow> flags p' = flags p"
  by (induction ms arbitrary: p) (auto simp: result_simps dest!: linkMember_flags)

lemma AddCodeword_flags:
  assumes "ldpc_AddCodeword b p raw = Some (Inr (p', c, new))"
  shows "flags p' = flags p @ [False]"
proof -
  obtain p1 where p1: "flags p1 = flags p @ [False]"
    "bindO (Some (deref (lcwHeap p1) (length (lcwHeap p)))) (\<lambda>cw.
       if length (members cw) \<le> 1 then
         bindO (ldpc_decodeCodewords b (p1\<lparr>lcwHeap := (lcwHeap p1)[length (lcwHeap p) := cw\<lparr>queued := True\<rparr>]\<rparr>) [length (lcwHeap p)])
           (\<lambda>(p', txs). Some (Inr (p', length (lcwHeap p), txs)))
       else Some (Inr (p1, length (lcwHeap p), []))) = Some (Inr (p', c, new))"
    using assms linkMembers_flags by (fastforce simp: ldpc_AddCodeword_def Let_def bindO_Inr_iff)
  then show ?thesis
    by (auto simp: bindO_Inr_iff deref_def ldpc_decodeCodewords_def flags_update
        dest!: decodeLoop_flags [THEN mp, OF _ refl] split: if_splits)
qed

section \<open>The receiver\<close>

text \<open>The codewords at the head of the window that have waited for the timeout.\<close>

definition expired :: "int \<Rightarrow> int \<Rightarrow> receivedCodeword list \<Rightarrow> receivedCodeword list" where
  "expired now tmo win = takeWhile (\<lambda>rc. tmo \<le> now - receivedTime rc) win"

lemma expireWindow_spec:
  assumes "\<forall>rc\<in>set win. rcStub rc < length (lcwHeap p)"
  shows "\<exists>p'. expireWindow now tmo win p loss =
      Inr (drop (length (expired now tmo win)) win, p',
           loss + int (length (filter (\<lambda>rc. \<not> decoded (lcwHeap p ! rcStub rc)) (expired now tmo win)))) \<and>
    toLt p' = toLt p \<and> same_store p p' \<and> length (lcwHeap p') = length (lcwHeap p) \<and>
    (\<forall>c<length (lcwHeap p). freed (lcwHeap p' ! c) \<longleftrightarrow> freed (lcwHeap p ! c) \<or> c \<in> rcStub ` set (expired now tmo win))"
  using assms
proof (induction win arbitrary: p loss)
  case Nil
  then show ?case by (simp add: expired_def)
next
  case (Cons h win)
  show ?case
  proof (cases "now - receivedTime h < tmo")
    case True
    then show ?thesis by (simp add: expired_def)
  next
    case False
    let ?c = "rcStub h"
    have c: "?c < length (lcwHeap p)" using Cons.prems by simp
    let ?p = "p\<lparr>lcwHeap := (lcwHeap p)[?c := (lcwHeap p ! ?c)\<lparr>freed := True\<rparr>]\<rparr>"
    have free: "Free p ?c = Inr ?p" using c by (simp add: Free_def)
    have dec: "decoded (lcwHeap ?p ! x) = decoded (lcwHeap p ! x)" if "x < length (lcwHeap p)" for x
      using that by (cases "x = ?c") simp_all
    have "(map PendingCodeword.truncate (lcwHeap p))[?c := PendingCodeword.truncate (lcwHeap p ! ?c)] =
      map PendingCodeword.truncate (lcwHeap p)" by (simp flip: map_update)
    then have abs: "toLt ?p = toLt p" "same_store p ?p" by (simp_all add: toLt_def map_update same_store_def)
    obtain p' where p': "expireWindow now tmo win ?p (if \<not> decoded (lcwHeap p ! ?c) then loss + 1 else loss) =
      Inr (drop (length (expired now tmo win)) win, p', (if \<not> decoded (lcwHeap p ! ?c) then loss + 1 else loss) +
             int (length (filter (\<lambda>rc. \<not> decoded (lcwHeap ?p ! rcStub rc)) (expired now tmo win))))"
      "toLt p' = toLt ?p" "same_store ?p p'" "length (lcwHeap p') = length (lcwHeap ?p)"
      "\<forall>c<length (lcwHeap ?p). freed (lcwHeap p' ! c) \<longleftrightarrow> freed (lcwHeap ?p ! c) \<or> c \<in> rcStub ` set (expired now tmo win)"
      using Cons.IH [of ?p "if \<not> decoded (lcwHeap p ! ?c) then loss + 1 else loss"] Cons.prems by auto
    have "set (expired now tmo win) \<subseteq> set win" by (auto simp: expired_def dest: set_takeWhileD)
    then have f: "filter (\<lambda>rc. \<not> decoded (lcwHeap ?p ! rcStub rc)) (expired now tmo win) =
      filter (\<lambda>rc. \<not> decoded (lcwHeap p ! rcStub rc)) (expired now tmo win)"
      using Cons.prems dec by (intro filter_cong refl) auto
    have run: "expireWindow now tmo (h # win) p loss =
      expireWindow now tmo win ?p (if \<not> decoded (lcwHeap p ! ?c) then loss + 1 else loss)"
      using False c free by (simp add: ldpc_Decoded_def)
    have ex: "expired now tmo (h # win) = h # expired now tmo win" using False by (simp add: expired_def)
    have "freed (lcwHeap p' ! x) \<longleftrightarrow> freed (lcwHeap p ! x) \<or> x \<in> rcStub ` set (h # expired now tmo win)"
      if "x < length (lcwHeap p)" for x using p'(5) that c by (cases "x = ?c") auto
    then show ?thesis using p'(1-4) abs same_store_trans [OF abs(2) p'(3)] unfolding run ex f by auto
  qed
qed

text \<open>A received codeword.\<close>

lemma recv_codeword_spec:
  assumes "ptrs_ok (rdecoder r)" "lt_ok (toLt (rdecoder r))" "\<forall>rc\<in>set (rxWindow r). rcStub rc < length (lcwHeap (rdecoder r))"
    and "old = expired now (timeout r) (rxWindow r)"
  shows "\<exists>r' txs. recv_codeword b cw now micro r = Some (Inr r') \<and>
    rxWindow r' = drop (length old) (rxWindow r) @ [\<lparr>rcStub = length (lcwHeap (rdecoder r)), receivedTime = now\<rparr>] \<and>
    ourLossCh r' = ourLossCh r @ [int (length (filter (\<lambda>rc. \<not> decoded (lcwHeap (rdecoder r) ! rcStub rc)) old))] \<and>
    peerLossCh r' = peerLossCh r @ (if 0 < Loss cw then [Loss cw] else []) \<and>
    lt_AddCodeword (ldpcOps b) (toLt (rdecoder r)) (ncCodeword cw) =
      Some (Inr (toLt (rdecoder r'), length (lcwHeap (rdecoder r)), txs)) \<and>
    map fst (decodedCh r') = map fst (decodedCh r) @ txs \<and>
    flags (rdecoder r') = map (\<lambda>c. freed (lcwHeap (rdecoder r) ! c) \<or> c \<in> rcStub ` set old) [0..<length (lcwHeap (rdecoder r))] @ [False] \<and>
    ptrs_ok (rdecoder r') \<and> lt_ok (toLt (rdecoder r')) \<and>
    (\<forall>rc\<in>set (rxWindow r'). rcStub rc < length (lcwHeap (rdecoder r')))"
proof -
  let ?p = "rdecoder r"
  obtain p1 where p1: "expireWindow now (timeout r) (rxWindow r) ?p 0 = Inr (drop (length old) (rxWindow r), p1,
      0 + int (length (filter (\<lambda>rc. \<not> decoded (lcwHeap ?p ! rcStub rc)) old)))"
    "toLt p1 = toLt ?p" "same_store ?p p1" "length (lcwHeap p1) = length (lcwHeap ?p)"
    "\<forall>c<length (lcwHeap ?p). freed (lcwHeap p1 ! c) \<longleftrightarrow> freed (lcwHeap ?p ! c) \<or> c \<in> rcStub ` set old"
    using expireWindow_spec [OF assms(3), of now "timeout r" 0] unfolding assms(4) by blast
  obtain p0 q txs where q: "lt_AddCodeword (ldpcOps b) (toLt p1) (ncCodeword cw) = Some (Inr (q, length (lcwHeap ?p), txs))"
    "lt_ok q" "linked (ldpcOps b) (ncCodeword cw) (toLt p1) p0" "kept p0 q"
    using lt_AddCodeword_spec [OF assms(2), of "ldpcOps b" "ncCodeword cw"] unfolding p1(2) by (metis toLt_fields(5) length_map)
  have ok1: "ptrs_ok p1" using assms(1) same_store_ok [OF p1(3)] by simp
  obtain p2 new where p2: "ldpc_AddCodeword b p1 (ncCodeword cw) = Some (Inr (p2, length (lcwHeap ?p), new))" "toLt p2 = q"
    "outs p2 new = txs" "grows p1 [] p2 new" using AddCodeword_sim [OF ok1 q(1)] by blast
  have "length (cwHeap q) = Suc (length (lcwHeap ?p))" using q(3,4) p1(4) by (simp add: linked_def kept_def Let_def)
  then have len: "length (lcwHeap p2) = Suc (length (lcwHeap ?p))" unfolding p2(2) [symmetric] by simp
  have out: "map fst (decodedOut p2 new) = txs" using p2(3) by (simp add: decodedOut_def outs_def comp_def)
  have ok2: "ptrs_ok p2" using p2(4) by (simp add: grows_def valid_out_def)
  have win: "rc \<in> set (drop k (rxWindow r)) \<Longrightarrow> rcStub rc < Suc (length (lcwHeap ?p))" for rc k
    using assms(3) in_set_dropD less_SucI by metis
  have "flags p1 = map (\<lambda>c. freed (lcwHeap ?p ! c) \<or> c \<in> rcStub ` set old) [0..<length (lcwHeap ?p)]"
    using p1(4,5) by (intro nth_equalityI) simp_all
  then have fl: "flags p2 = map (\<lambda>c. freed (lcwHeap ?p ! c) \<or> c \<in> rcStub ` set old) [0..<length (lcwHeap ?p)] @ [False]"
    using AddCodeword_flags [OF p2(1)] by simp
  show ?thesis using p1(1,2) q(1,2) p2(1,2) out ok2 len win fl
    by (auto simp: recv_codeword_def Let_def)
qed

section \<open>The controller\<close>

fun toReceivers :: "controllerEvent list \<Rightarrow> ldpcTransaction list" where
  "toReceivers [] = []"
| "toReceivers (LocalTransaction tx # evs) = tx # toReceivers evs"
| "toReceivers (Decoded tx ex now # evs) = tx # toReceivers evs"
| "toReceivers (ev # evs) = toReceivers evs"

fun toSenders :: "controllerEvent list \<Rightarrow> ldpcTransaction list" where
  "toSenders [] = []"
| "toSenders (LocalTransaction tx # evs) = tx # toSenders evs"
| "toSenders (Decoded tx ex now # evs) = (if ex then toSenders evs else tx # toSenders evs)"
| "toSenders (ev # evs) = toSenders evs"

fun decodedIn :: "controllerEvent list \<Rightarrow> int" where
  "decodedIn [] = 0"
| "decodedIn (Decoded tx ex now # evs) = 1 + decodedIn evs"
| "decodedIn (ev # evs) = decodedIn evs"

lemma controller_step_old:
  "i < length (peers c) \<Longrightarrow> i < length (peers (controller_step ev c)) \<and>
   newTxToReceiver (peers (controller_step ev c) ! i) = newTxToReceiver (peers c ! i) @ toReceivers [ev] \<and>
   newTxToSender (peers (controller_step ev c) ! i) = newTxToSender (peers c ! i) @ toSenders [ev]"
  by (cases ev) (auto simp: controller_step_def Let_def notifyExpiredTransaction_def notifyUnexpiredTransaction_def nth_append)

lemma toReceivers_Cons: "toReceivers (ev # evs) = toReceivers [ev] @ toReceivers evs"
  and toSenders_Cons: "toSenders (ev # evs) = toSenders [ev] @ toSenders evs"
  by (cases ev; simp)+

lemma controller_run_old:
  "i < length (peers c) \<Longrightarrow> i < length (peers (fold controller_step evs c)) \<and>
   newTxToReceiver (peers (fold controller_step evs c) ! i) = newTxToReceiver (peers c ! i) @ toReceivers evs \<and>
   newTxToSender (peers (fold controller_step evs c) ! i) = newTxToSender (peers c ! i) @ toSenders evs"
proof (induction evs arbitrary: c)
  case (Cons ev evs)
  then show ?case using controller_step_old [OF Cons.prems, of ev] Cons.IH [of "controller_step ev c"]
    by (simp add: toReceivers_Cons [of ev evs] toSenders_Cons [of ev evs])
qed simp

lemma controller_run_count: "txcnt (fold controller_step evs c) = txcnt c + decodedIn evs"
proof (induction evs arbitrary: c)
  case (Cons ev evs)
  then show ?case by (cases ev) (simp_all add: controller_step_def Let_def)
qed simp

section \<open>Concrete values for the witnesses\<close>

definition demoNodeSender :: nodeSender where
  "demoNodeSender = \<lparr>encoder = longEncoder\<lparr>ldegreeDist := (\<lambda>_. 1), lwindowSize := 4\<rparr>, cwRate = Fin 100, rateIncreaseConstant = Fin 1, rateDecreaseConstant = Fin 1,
     minRate = Fin 1, accumLoss = 7, droppedCodewords = 0, credit = Fin 0\<rparr>"

definition demoState :: senderState where
  "demoState = \<lparr>snd_of = demoNodeSender, grand = demoRand, clock = (\<lambda>_. 0), queue = [], wire = []\<rparr>"

lemma demo_sender_fine: "sender_fine demoState"
  by (simp add: sender_fine_def demoState_def demoNodeSender_def encoder_fine_def longEncoder_def fairInts_def demoRand_def)

definition demoNodeReceiver :: nodeReceiver where
  "demoNodeReceiver = \<lparr>rdecoder = ldpc_NewDecoder demoFirst 3, rxWindow = [], timeout = 500, ourLossCh = [], peerLossCh = [],
     decodedCh = [], delaysMs = []\<rparr>"

section \<open>The properties\<close>

text \<open>C38: A sender in order handles every event and stays in order: a tick of the send timer adds
  the credit of 10 milliseconds and ends with a credit below 1, having produced at most as many
  codewords as the credit allows, each sent or counted as dropped. No loss report is lost or
  repeated: what codewords have reported and what is still to be reported changes by exactly the
  losses that arrive. The channel keeps its capacity, and a rate that is not below its minimum does
  not fall below it while sending. Assumed for a tick: the credit is a number, at most \<open>n\<close> and
  \<open>n\<close> below \<open>2 ^ 53\<close>, and for each codeword that it pays for, the skips of the rounds that the encoder's
  sampling executes are defined (which fails, for one, when \<open>Float64\<close> returns 0).\<close>

theorem losses_are_conserved:
  assumes "sender_fine st"
    and "ev = SendTick \<Longrightarrow> n < 2 ^ 53 \<and> draws_ok M cap n (credited st) \<and>
      (\<exists>c. credit (snd_of (credited st)) = Fin c \<and> c \<le> of_nat n)"
  shows "\<exists>st'. sender_step M cap ev st = Some (Inr st') \<and> sender_fine st' \<and>
    losses st' = losses st + (case ev of OurLoss l \<Rightarrow> l | _ \<Rightarrow> 0) \<and>
    (if ev = SendTick then produced st \<le> produced st' \<and> produced st' \<le> produced st + int n \<and> f_less (credit (snd_of st')) (Fin 1)
     else produced st' = produced st) \<and>
    (length (queue st) \<le> cap \<longrightarrow> length (queue st') \<le> cap) \<and>
    (ev = SendTick \<and> minRate (snd_of st) \<noteq> NaN \<and> \<not> f_less (cwRate (snd_of st)) (minRate (snd_of st)) \<longrightarrow>
       \<not> f_less (cwRate (snd_of st')) (minRate (snd_of st')))"
proof (cases ev)
  case (NewTx tx)
  then show ?thesis using AddTransaction_fine [of "encoder (snd_of st)" tx] assms(1)
    by (auto simp: sender_step_def Let_def sender_fine_def losses_def produced_def)
next
  case SendTick
  let ?st = "credited st"
  obtain c where c: "draws_ok M cap n ?st" "credit (snd_of ?st) = Fin c" "c \<le> of_nat n" "n < 2 ^ 53"
    using assms(2) [OF SendTick] by auto
  have fine: "sender_fine ?st" "losses ?st = losses st" "produced ?st = produced st" "queue ?st = queue st"
    "minRate (snd_of ?st) = minRate (snd_of st)" "cwRate (snd_of ?st) = cwRate (snd_of st)"
    using assms(1) by (simp_all add: credited_def sender_fine_def losses_def produced_def)
  have "sender_step M cap ev st = spendCredit M cap ?st" using SendTick by (simp add: sender_step_def credited_def Let_def)
  then show ?thesis using spendCredit_spec [OF c(1) fine(1) c(2-4)] SendTick unfolding fine(2-6) by auto
next
  case CodewordTaken
  then show ?thesis using assms(1)
    by (cases "queue st") (auto simp: sender_step_def Let_def sender_fine_def losses_def produced_def)
qed (use assms(1) in \<open>auto simp: sender_step_def Let_def sender_fine_def losses_def produced_def\<close>)

theorem losses_are_conserved_witness:
  "(\<exists>st'. sender_step lineMath 1000 SendTick demoState = Some (Inr st') \<and> losses st' = 7) \<and>
   (\<exists>st'. sender_step lineMath 1000 (OurLoss 5) demoState = Some (Inr st') \<and> losses st' = 12)"
proof -
  have "f_add (Fin 0) (f_mul (rnd (1 / 100)) (Fin 100)) = Fin 1" by (simp add: float_eval)
  then have c: "credit (snd_of (credited demoState)) = Fin 1"
    by (simp add: credited_def demoState_def demoNodeSender_def)
  have "draw_ok lineMath (encoder (snd_of (credited demoState))) (grand (credited demoState))"
    using line_skips by (simp add: draw_ok_def credited_def demoState_def demoNodeSender_def longEncoder_def eval_nat_numeral)
  then have "draws_ok lineMath 1000 1 (credited demoState)" by simp
  moreover have "losses demoState = 7" by (simp add: losses_def demoState_def demoNodeSender_def)
  ultimately show ?thesis
    using losses_are_conserved [OF demo_sender_fine, of SendTick 1 lineMath 1000] c
      losses_are_conserved [OF demo_sender_fine, of "OurLoss 5" 1 lineMath 1000] by auto
qed

text \<open>C39: A receiver handles any codeword without a panic: it takes from its window the codewords
  that have waited for the timeout, up to the first that has not, and reports how many of them
  were not decoded. It releases exactly these: afterwards the flag that \<open>Free\<close> sets is up on
  the codewords that had it up before and on those taken, and on no other. It passes on a positive
  loss of the peer, and it hands the codeword to its decoder, which does what that of \<open>lt\<close> does,
  keeps the codeword with its arrival time, and passes on the decoded transactions.\<close>

theorem window_expires:
  assumes "ptrs_ok (rdecoder r)" "lt_ok (toLt (rdecoder r))" "\<forall>rc\<in>set (rxWindow r). rcStub rc < length (lcwHeap (rdecoder r))"
    and "old = expired now (timeout r) (rxWindow r)"
  shows "\<exists>r' txs. recv_codeword b cw now micro r = Some (Inr r') \<and>
    rxWindow r' = drop (length old) (rxWindow r) @ [\<lparr>rcStub = length (lcwHeap (rdecoder r)), receivedTime = now\<rparr>] \<and>
    ourLossCh r' = ourLossCh r @ [int (length (filter (\<lambda>rc. \<not> decoded (lcwHeap (rdecoder r) ! rcStub rc)) old))] \<and>
    peerLossCh r' = peerLossCh r @ (if 0 < Loss cw then [Loss cw] else []) \<and>
    lt_AddCodeword (ldpcOps b) (toLt (rdecoder r)) (ncCodeword cw) =
      Some (Inr (toLt (rdecoder r'), length (lcwHeap (rdecoder r)), txs)) \<and>
    map fst (decodedCh r') = map fst (decodedCh r) @ txs \<and>
    flags (rdecoder r') = map (\<lambda>c. freed (lcwHeap (rdecoder r) ! c) \<or> c \<in> rcStub ` set old) [0..<length (lcwHeap (rdecoder r))] @ [False] \<and>
    ptrs_ok (rdecoder r') \<and> lt_ok (toLt (rdecoder r')) \<and>
    (\<forall>rc\<in>set (rxWindow r'). rcStub rc < length (lcwHeap (rdecoder r')))"
  by (rule recv_codeword_spec [OF assms])

lemma recv_codeword_timeout: "recv_codeword b cw now micro r = Some (Inr r') \<Longrightarrow> timeout r' = timeout r"
  by (auto simp: recv_codeword_def Let_def bindO_Inr_iff)

text \<open>Two codewords, the second long after the first, which mixes two unknown transactions.\<close>

theorem window_expires_witness:
  "\<exists>r r'. recv_codeword demoBlake \<lparr>ncCodeword = \<lparr>cw_symbol = wideTruth 1, cw_members = [1, 2]\<rparr>, Loss = 3, UnixMicro = 0\<rparr> 10 5 demoNodeReceiver
     = Some (Inr r) \<and> flags (rdecoder r) = [False] \<and>
     recv_codeword demoBlake \<lparr>ncCodeword = \<lparr>cw_symbol = wideTruth 1, cw_members = [1]\<rparr>, Loss = 0, UnixMicro = 0\<rparr> 600 5 r
     = Some (Inr r') \<and> flags (rdecoder r') = [True, False] \<and> length (rxWindow r') = 1 \<and> peerLossCh r' = [3]"
proof -
  have start: "ptrs_ok (rdecoder demoNodeReceiver)" "lt_ok (toLt (rdecoder demoNodeReceiver))"
    using ldpc_New NewDecoder_ok [of 3 demoFirst] by (simp_all add: demoNodeReceiver_def)
  have empty: "rxWindow demoNodeReceiver = []" "lcwHeap (rdecoder demoNodeReceiver) = []" "peerLossCh demoNodeReceiver = []"
    "timeout demoNodeReceiver = 500"
    by (simp_all add: demoNodeReceiver_def ldpc_NewDecoder_def)
  obtain r where r: "recv_codeword demoBlake \<lparr>ncCodeword = \<lparr>cw_symbol = wideTruth 1, cw_members = [1, 2]\<rparr>, Loss = 3, UnixMicro = 0\<rparr> 10 5 demoNodeReceiver
     = Some (Inr r)" "rxWindow r = [\<lparr>rcStub = 0, receivedTime = 10\<rparr>]" "peerLossCh r = [3]" "flags (rdecoder r) = [False]"
    "ptrs_ok (rdecoder r)" "lt_ok (toLt (rdecoder r))"
    using window_expires [OF start _ refl, of demoBlake
        "\<lparr>ncCodeword = \<lparr>cw_symbol = wideTruth 1, cw_members = [1, 2]\<rparr>, Loss = 3, UnixMicro = 0\<rparr>" 10 5]
    unfolding empty by (simp add: expired_def) (elim exE conjE, rule that, assumption+)
  have len: "length (lcwHeap (rdecoder r)) = 1" using arg_cong [OF r(4), of length] by simp
  then have win: "\<forall>rc\<in>set (rxWindow r). rcStub rc < length (lcwHeap (rdecoder r))" using r(2) by simp
  have flag: "\<not> freed (lcwHeap (rdecoder r) ! 0)" using r(4) len by (cases "lcwHeap (rdecoder r)") simp_all
  have late: "timeout r = 500" using recv_codeword_timeout [OF r(1)] empty(4) by simp
  have old: "expired 600 (timeout r) (rxWindow r) = rxWindow r" using late r(2) by (simp add: expired_def)
  obtain r' where r': "recv_codeword demoBlake \<lparr>ncCodeword = \<lparr>cw_symbol = wideTruth 1, cw_members = [1]\<rparr>, Loss = 0, UnixMicro = 0\<rparr> 600 5 r
     = Some (Inr r')" "flags (rdecoder r') = [True, False]" "length (rxWindow r') = 1" "peerLossCh r' = [3]"
    using window_expires [OF r(5,6) win refl, of demoBlake
        "\<lparr>ncCodeword = \<lparr>cw_symbol = wideTruth 1, cw_members = [1]\<rparr>, Loss = 0, UnixMicro = 0\<rparr>" 600 5]
    unfolding old len by (simp add: r(2,3) flag) (elim exE conjE, rule that, simp_all)
  show ?thesis by (intro exI conjI) (rule r(1) r(4) r')+
qed

text \<open>C40: Whatever events the controller handles, every peer's receiver gets every local and every
  decoded transaction since the peer joined, in order and once, its sender gets the same but
  the expired ones, and the controller counts the decoded ones.\<close>

theorem controller_fans_out:
  assumes "i < length (peers c)"
  shows "i < length (peers (fold controller_step evs c)) \<and>
    newTxToReceiver (peers (fold controller_step evs c) ! i) = newTxToReceiver (peers c ! i) @ toReceivers evs \<and>
    newTxToSender (peers (fold controller_step evs c) ! i) = newTxToSender (peers c ! i) @ toSenders evs \<and>
    txcnt (fold controller_step evs c) = txcnt c + decodedIn evs \<and>
    (let k = length (peers c); c' = fold controller_step evs (controller_step (NewPeer h) c) in
     newTxToReceiver (peers c' ! k) = newTxToReceiver h @ toReceivers evs \<and>
     newTxToSender (peers c' ! k) = newTxToSender h @ toSenders evs)"
  using controller_run_old [OF assms, of evs] controller_run_count [of evs c]
    controller_run_old [of "length (peers c)" "controller_step (NewPeer h) c" evs]
  by (simp add: controller_step_def Let_def)

theorem controller_fans_out_witness:
  "newTxToSender (peers (fold controller_step [Decoded (true_tx (ldpcOps demoBlake) wideTruth 1) True 0, LocalTransaction zeroTransaction]
       \<lparr>peers = [\<lparr>newTxToSender = [], newTxToReceiver = []\<rparr>], txcnt = 0, warmupFinished = False, start = 0, warmupTime = 0,
        delaySketch = []\<rparr>) ! 0) = [zeroTransaction]"
  using controller_fans_out [of 0 "\<lparr>peers = [\<lparr>newTxToSender = [], newTxToReceiver = []\<rparr>], txcnt = 0, warmupFinished = False,
     start = 0, warmupTime = 0, delaySketch = []\<rparr>" "[Decoded (true_tx (ldpcOps demoBlake) wideTruth 1) True 0, LocalTransaction zeroTransaction]"] by simp

end
