(* ===== verification/Node_Program.thy ===== *)
theory Node_Program
  imports Node
begin

text \<open>
  The rest of \<open>node/\<close>: the goroutines that write codewords to a connection and read them from it
  (\<open>sendCodewords\<close>, \<open>receive\<close>), the exchange of keys (\<open>handleConn\<close>), and in \<open>main.go\<close> the flags, the
  controller they configure and the goroutine that generates transactions. What a connection
  does is an input: the errors of its calls and the bytes that a read delivers. \<open>soliton\<close> gives
  the samples of the robust soliton distribution with the given parameters.
\<close>

section \<open>Codewords on a connection\<close>

text \<open>\<open>fails i\<close> is the error of the \<open>i\<close>-th \<open>Encode\<close>. The result is what was written, and the error
  that ends the loop, or none when the channel has nothing more.\<close>

fun sendCodewords ::
  "(nat \<Rightarrow> string option) \<Rightarrow> nat \<Rightarrow> nodeCodeword list \<Rightarrow> nodeCodeword list \<times> string option" where
  "sendCodewords fails i [] = ([], None)"
| "sendCodewords fails i (cw # ch) =
     (case fails i of Some err \<Rightarrow> ([], Some err)
        | None \<Rightarrow> (case sendCodewords fails (i + 1) ch of (out, r) \<Rightarrow> (cw # out, r)))"

text \<open>\<open>stream\<close> is what the calls of \<open>Decode\<close> return; the first error ends the loop.\<close>

fun receive_loop :: "(string + nodeCodeword) list \<Rightarrow> nodeCodeword list \<times> string option" where
  "receive_loop [] = ([], None)"
| "receive_loop (Inl err # stream) = ([], Some err)"
| "receive_loop (Inr newcw # stream) = (case receive_loop stream of (ch, r) \<Rightarrow> (newcw # ch, r))"

text \<open>The goroutines that \<open>newPeer\<close> starts for them: an error that ends the loop is a panic, which ends
  the program.\<close>

definition orPanic :: "string option \<Rightarrow> unit result" where
  "orPanic r = (case r of Some err \<Rightarrow> Inl (Panic err) | None \<Rightarrow> Inr ())"

definition writer :: "(nat \<Rightarrow> string option) \<Rightarrow> nodeCodeword list \<Rightarrow> nodeCodeword list \<times> unit result" where
  "writer fails ch = (case sendCodewords fails 0 ch of (out, r) \<Rightarrow> (out, orPanic r))"

definition reader :: "(string + nodeCodeword) list \<Rightarrow> nodeCodeword list \<times> unit result" where
  "reader stream = (case receive_loop stream of (ch, r) \<Rightarrow> (ch, orPanic r))"

text \<open>So a peer that closes its connection ends the node, after the codewords it has sent.\<close>

lemma closed_connection_panics: "reader (map Inr cws @ Inl err # rest) = (cws, Inl (Panic err))"
  by (induction cws) (auto simp: reader_def orPanic_def split: prod.splits)

lemma broken_connection_panics:
  assumes "fails (length sent) = Some err" "\<forall>i<length sent. fails i = None"
  shows "writer fails (sent @ cw # ch) = (sent, Inl (Panic err))"
proof -
  have "sendCodewords fails i (sent @ cw # ch) = (sent, Some err)"
    if "fails (i + length sent) = Some err" "\<forall>j<length sent. fails (i + j) = None" for i
    using that
  proof (induction sent arbitrary: i)
    case (Cons s sent)
    have "fails i = None" "\<forall>j<length sent. fails (i + 1 + j) = None" using Cons.prems(2) by fastforce+
    then show ?case using Cons.IH [of "i + 1"] Cons.prems(1) by simp
  qed simp
  from this [of 0] show ?thesis using assms by (simp add: writer_def orPanic_def)
qed

section \<open>The exchange of keys\<close>

definition saltSize :: nat where
  "saltSize = 16"

record connIO =
  write_err :: "string option"
  read_bytes :: "u8 list"
  read_err :: "string option"

record nodeSettings =
  set_conf :: nodeConfig
  solitonC :: float64
  solitonDelta :: float64

text \<open>A read fills the key from its start, with as many bytes as it delivers; the number of bytes
  is not looked at. The result is the error, or the goroutines' states and the new peer.\<close>

definition readKey :: "u8 list \<Rightarrow> u8 list" where
  "readKey bs = take saltSize bs @ replicate (saltSize - length bs) 0"

definition handleConn ::
  "blake \<Rightarrow> (u8 list \<Rightarrow> hash64) \<Rightarrow> (u64 \<Rightarrow> float64 \<Rightarrow> float64 \<Rightarrow> nat \<Rightarrow> u64) \<Rightarrow> nodeSettings \<Rightarrow> u8 list \<Rightarrow> connIO \<Rightarrow>
   (string + (nodeSender \<times> nodeReceiver \<times> nodePeer)) run" where
  "handleConn blake2b sip soliton c encoderKey conn =
     (case write_err conn of Some err \<Rightarrow> Some (Inr (Inl err))
      | None \<Rightarrow>
          (case read_err conn of Some err \<Rightarrow> Some (Inr (Inl err))
           | None \<Rightarrow>
               let decoderKey = readKey (read_bytes conn) in
               bindO (newPeer blake2b (sip encoderKey) (sip decoderKey)
                        (soliton (conf_K (set_conf c)) (solitonC c) (solitonDelta c)) (set_conf c) [])
                 (\<lambda>(s, r, p). Some (Inr (Inr (s, r, p))))))"

section \<open>The flags and the generator of transactions\<close>

record nodeFlags =
  nf_warmup :: int
  nf_addr :: string
  nf_conn :: string
  nf_K :: u64
  nf_M :: u64
  nf_C :: float64
  nf_txRate :: float64
  nf_delta :: float64
  nf_initRate :: float64
  nf_minRate :: float64
  nf_incConstant :: float64
  nf_targetLoss :: float64
  nf_decodeTimeout :: int
  nf_tcpWriteBuffer :: int

definition defaultNodeFlags :: nodeFlags where
  "defaultNodeFlags =
     \<lparr>nf_warmup = 60 * 1000000000, nf_addr = '':9000'', nf_conn = [], nf_K = 50, nf_M = 262144, nf_C = rnd (3 / 100), nf_txRate = Fin 1000,
      nf_delta = Fin (1 / 2), nf_initRate = Fin 0, nf_minRate = Fin 1, nf_incConstant = rnd (1 / 10),
      nf_targetLoss = rnd (2 / 100), nf_decodeTimeout = 500 * 1000000,
      nf_tcpWriteBuffer = 65000\<rparr>"

definition nodeSettingsOf :: "nodeFlags \<Rightarrow> nodeSettings" where
  "nodeSettingsOf fl =
     \<lparr>set_conf = \<lparr>conf_K = nf_K fl, conf_M = nf_M fl, conf_initRate = startRate (nf_initRate fl) (nf_txRate fl) (nf_minRate fl),
                 conf_minRate = nf_minRate fl, conf_incConstant = nf_incConstant fl, conf_targetLoss = nf_targetLoss fl,
                 conf_decodeTimeout = nf_decodeTimeout fl\<rparr>,
      solitonC = nf_C fl, solitonDelta = nf_delta fl\<rparr>"

text \<open>The controller that \<open>main\<close> starts at the time \<open>now\<close>.\<close>

definition newController :: "nodeFlags \<Rightarrow> int \<Rightarrow> controller" where
  "newController fl now =
     \<lparr>peers = [], txcnt = 0, warmupFinished = False, start = now, warmupTime = nf_warmup fl, delaySketch = []\<rparr>"

text \<open>\<open>time.Duration(rand.ExpFloat64() / r * float64(time.Second))\<close>\<close>

definition nextTransaction :: "float64 \<Rightarrow> float64 \<Rightarrow> int result" where
  "nextTransaction expo r = f_to_int (f_mul (f_div expo r) (Fin 1000000000))"

record txSource =
  gen_cnt :: int
  gen_wait :: int
  localTransaction :: "ldpcTransaction list"

text \<open>A case of the generator's \<open>select\<close>: the ticker, or the timer with the sample of \<open>ExpFloat64\<close>,
  the clock and the random bytes that it reads. \<open>randomTransaction\<close> ignores the error of
  \<open>UnmarshalBinary\<close>, which 128 bytes never give.\<close>

datatype generatorEvent = GenTicker | GenTimer float64 u64 "u8 list"

definition generator_step :: "blake \<Rightarrow> float64 \<Rightarrow> generatorEvent \<Rightarrow> txSource \<Rightarrow> txSource result" where
  "generator_step blake2b r ev s =
     (case ev of
        GenTicker \<Rightarrow> Inr s
      | GenTimer expo ut bytes \<Rightarrow>
          bindR (nextTransaction expo r) (\<lambda>w.
            let tx = (case randomTransaction blake2b ut bytes of Inl _ \<Rightarrow> zeroTransaction | Inr t \<Rightarrow> t) in
            Inr (s\<lparr>gen_wait := w, localTransaction := localTransaction s @ [tx], gen_cnt := gen_cnt s + 1\<rparr>)))"

text \<open>\<open>strings.Split(*conn, ",")\<close>, for a list of addresses that is not empty.\<close>

fun splitComma :: "string \<Rightarrow> string list" where
  "splitComma [] = [[]]"
| "splitComma (c # s) =
     (if c = CHR '','' then [] # splitComma s
      else (case splitComma s of [] \<Rightarrow> [[c]] | a # as \<Rightarrow> (c # a) # as))"

definition addrList :: "string \<Rightarrow> string list" where
  "addrList conn = (if conn \<noteq> [] then splitComma conn else [])"

end
