(* ===== verification/Node_Connection.thy ===== *)
theory Node_Connection
  imports Node_Program Node_Properties
begin

text \<open>
  A connection of two peers of \<open>node/\<close>: after the exchange of keys, the sender of one end and the
  receiver of the other agree about hashes; the codewords that the sender puts on the wire are
  honest, and the receiver implements peeling on what it gets.
\<close>

section \<open>The sender\<close>

text \<open>The reservoir holds entries of the window, whatever the samples.\<close>

lemma reservoir_members:
  assumes "reservoir M w deg midx W selected g = Some (Inr (sel, g'))" "set selected \<subseteq> set w"
  shows "set sel \<subseteq> set w"
proof -
  let ?P = "\<lambda>M w (deg :: nat) (midx :: int) (W :: float64) (selected :: txData saltedTransaction list) (g :: ldpcRand)
      (r :: (txData saltedTransaction list \<times> ldpcRand) result).
    \<forall>sel g'. r = Inr (sel, g') \<longrightarrow> set selected \<subseteq> set w \<longrightarrow> set sel \<subseteq> set w"
  have "?P M w deg midx W selected g (Inr (sel, g'))"
  proof (rule reservoir.raw_induct [where P = ?P, OF _ assms(1)], intro allI impI)
    fix R M w deg midx W selected g r sel g'
    assume IH: "\<And>M w deg midx W selected g r. R M w deg midx W selected g = Some r \<Longrightarrow> ?P M w deg midx W selected g r"
      and body: "(if midx < int (length w)
        then bindO (Some (nextMidx M (snd (randFloat g)) midx W)) (\<lambda>midx.
             let g = fst (randFloat g) in
             if midx < int (length w)
             then bindO (Some (randIntn g deg)) (\<lambda>(g, r).
                    if midx < 0 \<or> r < 0 \<or> r \<ge> int (length selected) then Some (Inl IndexOutOfRange)
                    else
                      let selected = selected[nat r := w ! nat midx];
                          (g, u) = randFloat g;
                          W = f_mul W (math_Exp M (f_div (math_Log M u) (f_of_int (int deg))))
                      in R M w deg midx W selected g)
             else R M w deg midx W selected g)
        else Some (Inr (selected, g))) = Some r"
      and r: "r = Inr (sel, g')" and sub: "set selected \<subseteq> set w"
    show "set sel \<subseteq> set w"
    proof (cases "midx < int (length w)")
      case False
      then show ?thesis using body r sub by simp
    next
      case True
      let ?g = "fst (randFloat g)"
      obtain m where m: "nextMidx M (snd (randFloat g)) midx W = Inr m"
        using body True r by (auto simp: bindO_Inr_iff)
      show ?thesis
      proof (cases "m < int (length w)")
        case out: False
        then have "R M w deg m W selected ?g = Some (Inr (sel, g'))" using body True r m by simp
        then show ?thesis using IH sub by blast
      next
        case inside: True
        obtain g1 k where k: "randIntn ?g deg = Inr (g1, k)" "\<not> (m < 0 \<or> k < 0 \<or> k \<ge> int (length selected))"
          using body True r m inside by (auto simp: bindO_Inr_iff split: if_splits)
        then obtain W1 g2 where "R M w deg m W1 (selected[nat k := w ! nat m]) g2 = Some (Inr (sel, g'))"
          using body True r m inside by (auto simp: Let_def split: prod.splits)
        moreover have "set (selected[nat k := w ! nat m]) \<subseteq> set w"
          using set_update_subset_insert [of selected "nat k" "w ! nat m"] sub inside k(2) by auto
        ultimately show ?thesis using IH by blast
      qed
    qed
  qed
  then show ?thesis using assms(2) by simp
qed

text \<open>A window of genuine transactions, by the hashes that occur.\<close>

definition genuine :: "blake \<Rightarrow> (u32 \<Rightarrow> txData) \<Rightarrow> u32 set \<Rightarrow> ldpcEncoder \<Rightarrow> bool" where
  "genuine b truth H e \<longleftrightarrow>
     (\<forall>x\<in>set (lwindow e). saltedHash x \<in> H \<and> tx_of x = true_tx (ldpcOps b) truth (saltedHash x))"

lemma produced_mixes:
  assumes "ldpc_produceCodeword M e deg g = Some (Inr (c, g'))"
  shows "\<exists>sel. set sel \<subseteq> set (lwindow e) \<and> mixes (ldpcOps b) sel c"
proof -
  define d where "d = (if deg > int (length (lwindow e)) then int (length (lwindow e)) else deg)"
  note run = assms [unfolded ldpc_produceCodeword_def Let_def d_def [symmetric]]
  show ?thesis
  proof (cases "d = 0")
    case True
    then show ?thesis using run by (intro exI [of _ "[]"]) (auto simp: mixes_def ldpcOps_def)
  next
    case False
    obtain g1 u where u: "randFloat g = (g1, u)" by fastforce
    have "\<not> d < 0" using run False by auto
    then obtain W sel g2 where r: "reservoir M (lwindow e) (nat d) d W (take (nat d) (lwindow e)) g1 = Some (Inr (sel, g2))"
      "c = \<lparr>cw_symbol = foldl ldpcXOR 0 (map (\<lambda>x. data (tx_of x)) sel), cw_members = map saltedHash sel\<rparr>"
      using run False u by (auto simp: bindO_Inr_iff)
    have "set sel \<subseteq> set (lwindow e)" by (rule reservoir_members [OF r(1) set_take_subset])
    then show ?thesis using r(2) by (intro exI [of _ sel]) (simp add: mixes_def ldpcOps_def)
  qed
qed

lemma produced_honest:
  assumes "genuine b truth H e" "ldpc_ProduceCodeword M e g = Some (Inr (e', c, g'))"
  shows "honest_cw (ldpcOps b) truth H c \<and> genuine b truth H e' \<and> lhasher e' = lhasher e"
proof -
  note T = ldpcOps_laws [of b]
  let ?deg = "sint (ldegreeDist e 0)" and ?e = "e\<lparr>ldegreeDist := (\<lambda>k. ldegreeDist e (Suc k))\<rparr>"
  have run: "ldpc_produceCodeword M ?e ?deg g = Some (Inr (c, g'))" "e' = ?e"
    using assms(2) by (auto simp: ldpc_ProduceCodeword_def Let_def bindO_Inr_iff)
  obtain sel where sel: "set sel \<subseteq> set (lwindow e)" "mixes (ldpcOps b) sel c"
    using produced_mixes [OF run(1)] by auto
  have "data (tx_of x) = truth (saltedHash x)" if "x \<in> set sel" for x
  proof -
    have "tx_of x = true_tx (ldpcOps b) truth (saltedHash x)" using assms(1) subsetD [OF sel(1) that] unfolding genuine_def by blast
    then show ?thesis unfolding true_tx_def by (metis ltTransaction.select_convs(1))
  qed
  then have "image_mset (\<lambda>x. data (tx_of x)) (mset sel) = image_mset (\<lambda>x. truth (saltedHash x)) (mset sel)"
    by (intro image_mset_cong) simp
  also have "\<dots> = image_mset truth (mset (map saltedHash sel))" by (simp add: multiset.map_comp comp_def)
  also have "map saltedHash sel = cw_members c" using sel(2) by (simp add: mixes_def)
  finally have "cw_symbol c = xorAll (ldpcOps b) (image_mset truth (mset (cw_members c)))"
    using mixes_xorAll [OF T sel(2)] by simp
  moreover have "set (cw_members c) \<subseteq> saltedHash ` set (lwindow e)" using sel by (auto simp: mixes_def)
  moreover have "saltedHash ` set (lwindow e) \<subseteq> H" using assms(1) unfolding genuine_def by blast
  ultimately have "honest_cw (ldpcOps b) truth H c" unfolding honest_cw_def by blast
  moreover have "lwindow e' = lwindow e" "lhasher e' = lhasher e" unfolding run(2) by simp_all
  ultimately show ?thesis using assms(1) unfolding genuine_def by simp
qed

text \<open>The state of a sender whose codewords are honest.\<close>

definition honest_sender :: "blake \<Rightarrow> hash64 \<Rightarrow> (u32 \<Rightarrow> txData) \<Rightarrow> u32 set \<Rightarrow> senderState \<Rightarrow> bool" where
  "honest_sender b sip truth H st \<longleftrightarrow>
     genuine b truth H (encoder (snd_of st)) \<and> lhasher (encoder (snd_of st)) = sip \<and>
     (\<forall>nc\<in>set (queue st @ wire st). honest_cw (ldpcOps b) truth H (ncCodeword nc))"

lemma trimWindow_subset: "trimWindow ws xs hs = Inr (w, hs') \<Longrightarrow> set w \<subseteq> set xs"
  by (induction ws xs hs rule: trimWindow.induct) (auto split: if_splits)

lemma added_genuine:
  assumes "genuine b truth H e" "lhasher e = sip" "honest_tx (ldpcOps b) sip truth H t" "ldpc_AddTransaction e t = Inr (e', yes)"
  shows "genuine b truth H e' \<and> lhasher e' = sip"
proof (cases "salted (lhasher e) (hash t) \<in> lhashes e")
  case True
  then show ?thesis using assms by (simp add: ldpc_AddTransaction_def Let_def)
next
  case False
  let ?h = "salted sip (hash t)"
  let ?x = "\<lparr>saltedHash = ?h, tx_of = t\<rparr>"
  obtain w hs where tw: "trimWindow (lwindowSize e) (lwindow e @ [?x]) (insert ?h (lhashes e)) = Inr (w, hs)" "e' = e\<lparr>lwindow := w, lhashes := hs\<rparr>"
    using assms(2,4) False by (auto simp: ldpc_AddTransaction_def Let_def bindR_Inr_iff)
  have "set w \<subseteq> insert ?x (set (lwindow e))"
    using trimWindow_subset [OF tw(1)] by simp
  moreover have "?h \<in> H" "t = true_tx (ldpcOps b) truth ?h" using assms(3) by (simp_all add: honest_tx_def)
  ultimately show ?thesis using assms(1,2) tw(2) unfolding genuine_def by auto
qed

lemma sendOne_honest:
  assumes "honest_sender b sip truth H st" "sendOne M cap st = Some (Inr st')"
  shows "honest_sender b sip truth H st'"
proof -
  obtain e c g where p: "ldpc_ProduceCodeword M (encoder (snd_of st)) (grand st) = Some (Inr (e, c, g))"
    using assms(2) by (auto simp: sendOne_def Let_def bindO_Inr_iff)
  have "honest_cw (ldpcOps b) truth H c" "genuine b truth H e" "lhasher e = sip"
    using produced_honest [OF _ p] assms(1) unfolding honest_sender_def by blast+
  then show ?thesis using assms p
    by (auto simp: sendOne_def Let_def honest_sender_def codewordSent_def split: if_splits)
qed

lemma spendCredit_honest:
  assumes "spendCredit M cap st = Some (Inr st')" "honest_sender b sip truth H st"
  shows "honest_sender b sip truth H st'"
proof -
  let ?P = "\<lambda>(M :: mathFns) (cap :: nat) (st :: senderState) (r :: senderState result).
    \<forall>st'. r = Inr st' \<longrightarrow> honest_sender b sip truth H st \<longrightarrow> honest_sender b sip truth H st'"
  have "?P M cap st (Inr st')"
  proof (rule spendCredit.raw_induct [where P = ?P, OF _ assms(1)], intro allI impI)
    fix R M cap st r st'
    assume IH: "\<And>M cap st r. R M cap st = Some r \<Longrightarrow> ?P M cap st r"
      and body: "(if f_ge (credit (snd_of st)) (Fin 1) then bindO (sendOne M cap st) (\<lambda>st. R M cap st) else Some (Inr st)) = Some r"
      and r: "r = Inr st'" and h: "honest_sender b sip truth H st"
    show "honest_sender b sip truth H st'"
    proof (cases "f_ge (credit (snd_of st)) (Fin 1)")
      case True
      then obtain st1 where "sendOne M cap st = Some (Inr st1)" "R M cap st1 = Some (Inr st')"
        using body r by (auto simp: bindO_Inr_iff)
      then show ?thesis using IH sendOne_honest [OF h] by blast
    next
      case False
      then show ?thesis using body r h by simp
    qed
  qed
  then show ?thesis using assms(2) by blast
qed

lemma sender_step_honest:
  assumes h: "honest_sender b sip truth H st" and run: "sender_step M cap ev st = Some (Inr st')"
    and new: "\<And>tx. ev = NewTx tx \<Longrightarrow> honest_tx (ldpcOps b) sip truth H tx"
  shows "honest_sender b sip truth H st'"
proof (cases ev)
  case (NewTx tx)
  obtain e yes where "ldpc_AddTransaction (encoder (snd_of st)) tx = Inr (e, yes)" "st' = st\<lparr>snd_of := (snd_of st)\<lparr>encoder := e\<rparr>\<rparr>"
    using run NewTx by (auto simp: sender_step_def Let_def bindO_Inr_iff)
  then show ?thesis using added_genuine [OF _ _ new [OF NewTx]] h unfolding honest_sender_def by auto
next
  case SendTick
  then have "spendCredit M cap (st\<lparr>snd_of := (snd_of st)\<lparr>credit := f_add (credit (snd_of st))
      (f_mul (rnd (1 / 100)) (cwRate (snd_of st)))\<rparr>\<rparr>) = Some (Inr st')"
    using run by (simp add: sender_step_def Let_def)
  then show ?thesis by (rule spendCredit_honest) (use h in \<open>simp add: honest_sender_def\<close>)
next
  case CodewordTaken
  then show ?thesis using h run
    by (cases "queue st") (auto simp: sender_step_def Let_def honest_sender_def)
qed (use h run in \<open>auto simp: sender_step_def Let_def honest_sender_def\<close>)

lemma sender_run_honest:
  assumes "sender_run M cap evs st = Some (Inr st')" "honest_sender b sip truth H st"
    and "\<forall>tx. NewTx tx \<in> set evs \<longrightarrow> honest_tx (ldpcOps b) sip truth H tx"
  shows "honest_sender b sip truth H st'"
  using assms
proof (induction evs arbitrary: st)
  case (Cons ev evs)
  then obtain st1 where 1: "sender_step M cap ev st = Some (Inr st1)" "sender_run M cap evs st1 = Some (Inr st')"
    by (auto simp: bindO_Inr_iff)
  have "honest_sender b sip truth H st1" using sender_step_honest [OF Cons.prems(2) 1(1)] Cons.prems(3) by auto
  then show ?case using Cons.IH [OF 1(2)] Cons.prems(3) by simp
qed simp

section \<open>The receiver\<close>

fun receiver_run :: "blake \<Rightarrow> receiverEvent list \<Rightarrow> nodeReceiver \<Rightarrow> nodeReceiver run" where
  "receiver_run b [] r = Some (Inr r)"
| "receiver_run b (ev # evs) r = bindO (receiver_step b ev r) (receiver_run b evs)"

text \<open>What the events bring to the decoder.\<close>

fun ltEventsOf :: "receiverEvent list \<Rightarrow> txData ltEvent list" where
  "ltEventsOf [] = []"
| "ltEventsOf (GotCw cw now micro # evs) = GotCodeword (ncCodeword cw) # ltEventsOf evs"
| "ltEventsOf (GotTx tx # evs) = GotTransaction tx # ltEventsOf evs"
| "ltEventsOf (ReportTick # evs) = ltEventsOf evs"

definition receiver_fine :: "nodeReceiver \<Rightarrow> bool" where
  "receiver_fine r \<longleftrightarrow> ptrs_ok (rdecoder r) \<and> lt_ok (toLt (rdecoder r)) \<and>
     (\<forall>rc\<in>set (rxWindow r). rcStub rc < length (lcwHeap (rdecoder r)))"

lemma given_heap:
  assumes "lt_ok p" "lt_receive T p (GotTransaction t) = Some (Inr (p', out))"
  shows "length (cwHeap p') = length (cwHeap p)"
  by (rule AddTransaction_cases [OF assms(1) refl, of t T]) (use assms(2) in \<open>auto simp: lt_receive_def kept_def\<close>)

lemma receiver_step_decodes:
  assumes fine: "receiver_fine r" and ag: "agrees (ldpcOps b) truth H (toLt (rdecoder r))"
    and hon: "\<forall>e\<in>set (ltEventsOf [ev]). honest (ldpcOps b) (ldhasher (rdecoder r)) truth H e"
  shows "\<exists>r' out. receiver_step b ev r = Some (Inr r') \<and> receiver_fine r' \<and>
    lt_receiveAll (ldpcOps b) (toLt (rdecoder r)) (ltEventsOf [ev]) = Some (Inr (toLt (rdecoder r'), out)) \<and>
    map fst (decodedCh r') = map fst (decodedCh r) @ out"
proof (cases ev)
  case (GotCw cw now micro)
  obtain r' txs where "recv_codeword b cw now micro r = Some (Inr r')"
    "lt_AddCodeword (ldpcOps b) (toLt (rdecoder r)) (ncCodeword cw) =
      Some (Inr (toLt (rdecoder r'), length (lcwHeap (rdecoder r)), txs))"
    "map fst (decodedCh r') = map fst (decodedCh r) @ txs" "receiver_fine r'"
    using recv_codeword_spec [OF _ _ _ refl, of r b cw now micro] fine unfolding receiver_fine_def by blast
  then show ?thesis using GotCw by (simp add: receiver_step_def lt_receive_def)
next
  case (GotTx tx)
  let ?p = "rdecoder r"
  obtain q out where q: "lt_receive (ldpcOps b) (toLt ?p) (GotTransaction tx) = Some (Inr (q, out))" "lt_ok q"
    using lt_receive_ok fine unfolding receiver_fine_def by blast
  obtain p' new where p': "ldpc_receive b ?p (LGotTransaction tx) = Some (Inr (p', new))" "simulates ?p p' new 1 q out"
    using receive_transaction_sim [OF _ ag _ q(1)] fine hon GotTx by (auto simp: receiver_fine_def honest_def)
  have run: "receiver_step b ev r = Some (Inr (r\<lparr>rdecoder := p', decodedCh := decodedCh r @ decodedOut p' new\<rparr>))"
    using p'(1) GotTx by (simp add: receiver_step_def recv_transaction_def ldpc_receive_def allocTx_def)
  have "length (lcwHeap ?p) = length (cwHeap (toLt ?p))" "length (lcwHeap p') = length (cwHeap q)"
    using p'(2) by (auto simp: simulates_def)
  moreover have "length (cwHeap q) = length (cwHeap (toLt ?p))"
    using given_heap [OF _ q(1)] fine unfolding receiver_fine_def by blast
  ultimately show ?thesis using run p'(2) q fine GotTx
    by (auto simp: simulates_def receiver_fine_def decodedOut_def outs_def comp_def valid_out_def)
next
  case ReportTick
  then show ?thesis using fine by (simp add: receiver_step_def receiver_fine_def)
qed

lemma ltEventsOf_Cons: "ltEventsOf (ev # evs) = ltEventsOf [ev] @ ltEventsOf evs"
  by (cases ev) simp_all

lemma lt_receiveAll_join:
  "lt_receiveAll T p xs = Some (Inr (p1, out1)) \<Longrightarrow> lt_receiveAll T p1 ys = Some (Inr (p2, out2)) \<Longrightarrow>
   lt_receiveAll T p (xs @ ys) = Some (Inr (p2, out1 @ out2))"
proof (induction xs arbitrary: p out1)
  case (Cons x xs)
  obtain q o1 o2 where "lt_receive T p x = Some (Inr (q, o1))" "lt_receiveAll T q xs = Some (Inr (p1, o2))" "out1 = o1 @ o2"
    using Cons.prems(1) by (auto simp: bindO_Inr_iff)
  then show ?case using Cons.IH [of q o2] Cons.prems(2) by simp
qed simp

lemma receiver_run_decodes:
  assumes "receiver_fine r" "agrees (ldpcOps b) truth H (toLt (rdecoder r))"
    and "\<forall>e\<in>set (ltEventsOf evs). honest (ldpcOps b) (ldhasher (rdecoder r)) truth H e"
  shows "\<exists>r' out. receiver_run b evs r = Some (Inr r') \<and> receiver_fine r' \<and>
    lt_receiveAll (ldpcOps b) (toLt (rdecoder r)) (ltEventsOf evs) = Some (Inr (toLt (rdecoder r'), out)) \<and>
    map fst (decodedCh r') = map fst (decodedCh r) @ out"
  using assms
proof (induction evs arbitrary: r)
  case (Cons ev evs)
  have split: "set (ltEventsOf (ev # evs)) = set (ltEventsOf [ev]) \<union> set (ltEventsOf evs)"
    by (simp add: ltEventsOf_Cons [of ev evs])
  have h1: "\<forall>e\<in>set (ltEventsOf [ev]). honest (ldpcOps b) (ldhasher (rdecoder r)) truth H e"
    using Cons.prems(3) unfolding split by blast
  obtain r1 out1 where 1: "receiver_step b ev r = Some (Inr r1)" "receiver_fine r1"
    "lt_receiveAll (ldpcOps b) (toLt (rdecoder r)) (ltEventsOf [ev]) = Some (Inr (toLt (rdecoder r1), out1))"
    "map fst (decodedCh r1) = map fst (decodedCh r) @ out1"
    using receiver_step_decodes [OF Cons.prems(1,2) h1] by blast
  have ok: "lt_ok (toLt (rdecoder r))" using Cons.prems(1) by (simp add: receiver_fine_def)
  have d: "ldhasher (rdecoder r1) = ldhasher (rdecoder r)"
    using history_ok [OF ok, of "ldpcOps b" "ltEventsOf [ev]"] 1(3) by auto
  have ag: "agrees (ldpcOps b) truth H (toLt (rdecoder r1))"
    using history_genuine [OF ldpcOps_laws ok Cons.prems(2) _ 1(3)] h1 by simp
  obtain r2 out2 where 2: "receiver_run b evs r1 = Some (Inr r2)" "receiver_fine r2"
    "lt_receiveAll (ldpcOps b) (toLt (rdecoder r1)) (ltEventsOf evs) = Some (Inr (toLt (rdecoder r2), out2))"
    "map fst (decodedCh r2) = map fst (decodedCh r1) @ out2"
    using Cons.IH [OF 1(2) ag] Cons.prems(3) unfolding split d by blast
  show ?case
    using 1(1,4) 2(1,2,4) lt_receiveAll_join [OF 1(3) 2(3)] unfolding ltEventsOf_Cons [of ev evs] by auto
qed simp

section \<open>The connection\<close>

fun codewordsIn :: "receiverEvent list \<Rightarrow> nodeCodeword list" where
  "codewordsIn [] = []"
| "codewordsIn (GotCw cw now micro # evs) = cw # codewordsIn evs"
| "codewordsIn (ev # evs) = codewordsIn evs"

text \<open>Every codeword that arrives is one of the sender's; every transaction that is given is genuine.\<close>

lemma events_honest:
  assumes "\<forall>nc\<in>set (codewordsIn evs). honest_cw T truth H (ncCodeword nc)"
    and "\<forall>tx. GotTx tx \<in> set evs \<longrightarrow> honest_tx T sip truth H tx"
  shows "\<forall>e\<in>set (ltEventsOf evs). honest T sip truth H e"
  using assms
proof (induction evs)
  case (Cons ev evs)
  then show ?case by (cases ev) (auto simp: honest_def)
qed simp

lemma readKey_full: "length k = saltSize \<Longrightarrow> readKey k = k"
  by (simp add: readKey_def)

lemma handshake:
  assumes "handleConn b sip soliton c key io = Some (Inr (Inr (s, r, h)))"
  shows "encoder s = ldpc_NewEncoder (sip key) (soliton (conf_K (set_conf c)) (solitonC c) (solitonDelta c)) (sint (conf_K (set_conf c)))"
    "r = \<lparr>rdecoder = ldpc_NewDecoder (sip (readKey (read_bytes io))) (sint (conf_M (set_conf c))), rxWindow = [],
          timeout = conf_decodeTimeout (set_conf c), ourLossCh = [], peerLossCh = [], decodedCh = [], delaysMs = []\<rparr>"
  using assms by (auto simp: handleConn_def newPeer_def Let_def bindO_Inr_iff split: option.splits)

lemma connection:
  assumes A: "handleConn b sip soliton cA keyA ioA = Some (Inr (Inr (sA, rA, hA)))"
    and B: "handleConn b sip soliton cB keyB ioB = Some (Inr (Inr (sB, rB, hB)))"
    and key: "length keyA = saltSize" "read_bytes ioB = keyA"
    and H: "hashes_to (ldpcOps b) (sip keyA) truth H" "finite H" "int (card H) \<le> sint (conf_M (set_conf cB))"
    and run: "sender_run M cap sevs \<lparr>snd_of = sA, grand = g, clock = clk, queue = [], wire = []\<rparr> = Some (Inr st)"
    and new: "\<forall>tx. NewTx tx \<in> set sevs \<longrightarrow> honest_tx (ldpcOps b) (sip keyA) truth H tx"
    and got: "set (codewordsIn revs) \<subseteq> set (wire st)" "\<forall>tx. GotTx tx \<in> set revs \<longrightarrow> honest_tx (ldpcOps b) (sip keyA) truth H tx"
    and sees: "given = givenBy (sip keyA) (ltEventsOf revs)" "words = wordsOf (ltEventsOf revs)"
  shows "\<exists>r hs. receiver_run b revs rB = Some (Inr r) \<and> dom (lreceived (rdecoder r)) = peelable given words \<and>
    map fst (decodedCh r) = map (true_tx (ldpcOps b) truth) hs \<and> distinct hs \<and> given \<union> set hs = peelable given words"
proof -
  note T = ldpcOps_laws [of b]
  let ?mem = "sint (conf_M (set_conf cB))" and ?sip = "sip keyA"
  let ?q = "lt_NewDecoder ?sip ?mem :: txData ltDecoder"
  have "honest_sender b ?sip truth H \<lparr>snd_of = sA, grand = g, clock = clk, queue = [], wire = []\<rparr>"
    using handshake(1) [OF A] by (simp add: honest_sender_def genuine_def ldpc_NewEncoder_def)
  then have "honest_sender b ?sip truth H st" using sender_run_honest [OF run _ new] by blast
  then have hon: "\<forall>e\<in>set (ltEventsOf revs). honest (ldpcOps b) ?sip truth H e"
    using events_honest [OF _ got(2)] got(1) unfolding honest_sender_def by auto
  have rB: "rdecoder rB = ldpc_NewDecoder ?sip ?mem" "rxWindow rB = []" "decodedCh rB = []"
    unfolding handshake(2) [OF B] key(2) readKey_full [OF key(1)] by simp_all
  have mem: "0 \<le> ?mem" using H(3) by linarith
  have lt: "toLt (rdecoder rB) = ?q" "ptrs_ok (rdecoder rB)" "ldhasher (rdecoder rB) = ?sip" "dhasher ?q = ?sip"
    unfolding rB(1) by (simp_all add: ldpc_New) (simp_all add: ldpc_NewDecoder_def lt_NewDecoder_def)
  have ex: "exact (ldpcOps b) truth H {} [] ?q"
    using H by (simp add: exact_def agrees_def tracks_def remembers_def lt_NewDecoder_def)
  have fine: "receiver_fine rB" using lt(1,2) rB(2) NewDecoder_ok [OF mem] by (simp add: receiver_fine_def)
  have ag: "agrees (ldpcOps b) truth H (toLt (rdecoder rB))" using ex unfolding lt(1) by (simp add: exact_def)
  obtain r out where r: "receiver_run b revs rB = Some (Inr r)"
    "lt_receiveAll (ldpcOps b) ?q (ltEventsOf revs) = Some (Inr (toLt (rdecoder r), out))" "map fst (decodedCh r) = out"
    using receiver_run_decodes [OF fine ag, of revs] hon unfolding lt(1,3) rB(3) by auto
  have hist: "lt_ok (toLt (rdecoder r))" "exact (ldpcOps b) truth H given words (toLt (rdecoder r))"
    "learns (ldpcOps b) truth (dom (receivedTransactions ?q)) given (dom (receivedTransactions (toLt (rdecoder r)))) out"
    using history_exact [OF T NewDecoder_ok [OF mem] ex _ r(2)] hon unfolding lt(4) sees by simp_all
  have tr: "tracks given words (toLt (rdecoder r))" using hist(2) by (simp add: exact_def)
  have dom: "dom (lreceived (rdecoder r)) = peelable given words" using rest_closed(1) [OF hist(1) tr] by simp
  have "dom (receivedTransactions ?q) = {}" by (simp add: lt_NewDecoder_def)
  then obtain hs where "out = map (true_tx (ldpcOps b) truth) hs" "distinct hs" "peelable given words = given \<union> set hs"
    using hist(3) dom unfolding learns_def by auto
  then show ?thesis using r(1,3) dom by blast
qed

section \<open>The property\<close>

text \<open>C10: Two peers that have exchanged their keys in full: whatever the peer A is given to send,
  whenever its timers run, and whatever of its codewords reach the peer B, in whatever order
  and whatever else B is given, B handles every event without a panic; the hashes it has
  received are the closure of the given ones under peeling with the codewords that arrived; and
  it passes on genuine transactions only, each once, which are all of the closure that were not
  given. Whether the closure holds all of A's transactions depends on the codewords that arrive:
  that is not claimed. Assumed are: transactions in use whose salted 32-bit hashes \<open>H\<close> do not
  collide (\<open>truth\<close> gives the one of each hash), that both peers are given only such transactions,
  that B's memory \<open>M\<close> has room for all of them, and a run of A that returns.\<close>

theorem connection_reconciles:
  assumes "handleConn b sip soliton cA keyA ioA = Some (Inr (Inr (sA, rA, hA)))"
    and "handleConn b sip soliton cB keyB ioB = Some (Inr (Inr (sB, rB, hB)))"
    and "length keyA = saltSize" "read_bytes ioB = keyA"
    and "hashes_to (ldpcOps b) (sip keyA) truth H" "finite H" "int (card H) \<le> sint (conf_M (set_conf cB))"
    and "sender_run M cap sevs \<lparr>snd_of = sA, grand = g, clock = clk, queue = [], wire = []\<rparr> = Some (Inr st)"
    and "\<forall>tx. NewTx tx \<in> set sevs \<longrightarrow> honest_tx (ldpcOps b) (sip keyA) truth H tx"
    and "set (codewordsIn revs) \<subseteq> set (wire st)" "\<forall>tx. GotTx tx \<in> set revs \<longrightarrow> honest_tx (ldpcOps b) (sip keyA) truth H tx"
    and "given = givenBy (sip keyA) (ltEventsOf revs)" "words = wordsOf (ltEventsOf revs)"
  shows "\<exists>r hs. receiver_run b revs rB = Some (Inr r) \<and> dom (lreceived (rdecoder r)) = peelable given words \<and>
    map fst (decodedCh r) = map (true_tx (ldpcOps b) truth) hs \<and> distinct hs \<and> given \<union> set hs = peelable given words"
  by (rule connection [OF assms])

text \<open>A sends its only transaction, with a distribution of degree one.\<close>

definition demoSettings :: nodeSettings where
  "demoSettings = nodeSettingsOf (defaultNodeFlags\<lparr>nf_txRate := Fin 100\<rparr>)"

definition demoKey :: "u8 list" where
  "demoKey = replicate 16 7"

definition demoTx :: ldpcTransaction where
  "demoTx = true_tx (ldpcOps demoBlake) wideTruth 1"

abbreviation demoConn :: "u8 list \<Rightarrow> (string + (nodeSender \<times> nodeReceiver \<times> nodePeer)) run" where
  "demoConn key \<equiv> handleConn demoBlake (\<lambda>_. demoFirst) (\<lambda>_ _ _ _. 1) demoSettings key
     \<lparr>write_err = None, read_bytes = demoKey, read_err = None\<rparr>"

lemma conn_hash: "salted demoFirst (hash demoTx) = 1" "honest_tx (ldpcOps demoBlake) demoFirst wideTruth {1, 2, 3} demoTx"
  using wide_hashes by (simp_all add: demoTx_def true_tx_def hashes_to_def honest_tx_def)

lemma conn_rates: "conf_initRate (set_conf demoSettings) = Fin 100" "conf_K (set_conf demoSettings) = 50"
  "sint (conf_M (set_conf demoSettings)) = 262144"
  by (simp_all add: demoSettings_def nodeSettingsOf_def defaultNodeFlags_def startRate_def)

definition demoSender :: nodeSender where
  "demoSender = \<lparr>encoder = ldpc_NewEncoder demoFirst (\<lambda>_. 1) 50, cwRate = Fin 100,
     rateIncreaseConstant = conf_incConstant (set_conf demoSettings),
     rateDecreaseConstant = f_mul (conf_incConstant (set_conf demoSettings)) (conf_targetLoss (set_conf demoSettings)),
     minRate = conf_minRate (set_conf demoSettings), accumLoss = 0, droppedCodewords = 0, credit = Fin 0\<rparr>"

lemma demo_conn: "\<exists>r h. demoConn demoKey = Some (Inr (Inr (demoSender, r, h)))"
  using conn_rates by (simp add: handleConn_def newPeer_def demoSender_def Let_def)

definition demoSent :: nodeCodeword where
  "demoSent = \<lparr>ncCodeword = \<lparr>cw_symbol = ldpcXOR 0 (data demoTx), cw_members = [1]\<rparr>, Loss = 0, UnixMicro = 0\<rparr>"

lemma codewordSent_credit: "credit (codewordSent s) = credit s"
  by (simp add: codewordSent_def Let_def)

lemma demo_sends:
  "\<exists>st. sender_run lineMath 1000 [NewTx demoTx, SendTick, CodewordTaken]
     \<lparr>snd_of = demoSender, grand = demoRand, clock = (\<lambda>_. 0), queue = [], wire = []\<rparr> = Some (Inr st) \<and> wire st = [demoSent]"
proof -
  let ?x = "\<lparr>saltedHash = 1, tx_of = demoTx\<rparr>"
  let ?e = "(encoder demoSender)\<lparr>lwindow := [?x], lhashes := {1}\<rparr>"
  have add: "ldpc_AddTransaction (encoder demoSender) demoTx = Inr (?e, True)"
    using conn_hash(1) by (simp add: ldpc_AddTransaction_def demoSender_def ldpc_NewEncoder_def)
  have cred: "f_add (Fin 0) (f_mul (rnd (1 / 100)) (Fin 100)) = Fin 1" by (simp add: float_eval)
  have stops: "reservoir lineMath [?x] (Suc 0) 1 W [?x] g = Some (Inr ([?x], g))" for W g
    by (subst reservoir.simps) simp
  obtain e g where prod: "ldpc_ProduceCodeword lineMath ?e demoRand = Some (Inr (e, ncCodeword demoSent, g))"
    by (simp add: ldpc_ProduceCodeword_def ldpc_produceCodeword_def demoSender_def ldpc_NewEncoder_def Let_def
        randFloat_def demoSent_def stops)
  let ?s = "demoSender\<lparr>encoder := ?e, credit := Fin 1\<rparr>"
  have zero: "f_sub (Fin 1) (Fin 1) = Fin 0" by (simp add: f_sub_def float_eval)
  let ?sent = "codewordSent (demoSender\<lparr>credit := Fin 0, encoder := e\<rparr>)"
  let ?st = "\<lparr>snd_of = ?s, grand = demoRand, clock = (\<lambda>_. 0), queue = [], wire = []\<rparr>"
  let ?st' = "\<lparr>snd_of = ?sent, grand = g, clock = (\<lambda>_. 0), queue = [demoSent], wire = []\<rparr>"
  have one: "sendOne lineMath 1000 ?st = Some (Inr ?st')"
    by (simp add: sendOne_def Let_def zero prod) (simp add: demoSent_def demoSender_def)
  have rest: "spendCredit lineMath 1000 ?st' = Some (Inr ?st')"
    by (subst spendCredit.simps) (simp add: codewordSent_credit f_ge_def)
  have tick: "spendCredit lineMath 1000 ?st = Some (Inr ?st')"
    by (subst spendCredit.simps) (simp add: one rest f_ge_def)
  have start: "credit demoSender = Fin 0" "cwRate demoSender = Fin 100" by (simp_all add: demoSender_def)
  show ?thesis by (simp add: sender_step_def Let_def add start cred tick)
qed

theorem connection_reconciles_witness:
  "\<exists>sA rA hA st r. demoConn demoKey = Some (Inr (Inr (sA, rA, hA))) \<and>
     sender_run lineMath 1000 [NewTx demoTx, SendTick, CodewordTaken]
       \<lparr>snd_of = sA, grand = demoRand, clock = (\<lambda>_. 0), queue = [], wire = []\<rparr> = Some (Inr st) \<and>
     receiver_run demoBlake (map (\<lambda>nc. GotCw nc 0 0) (wire st)) rA = Some (Inr r) \<and> map fst (decodedCh r) = [demoTx]"
proof -
  obtain rA hA where conn: "demoConn demoKey = Some (Inr (Inr (demoSender, rA, hA)))" using demo_conn by blast
  obtain st where st: "sender_run lineMath 1000 [NewTx demoTx, SendTick, CodewordTaken]
     \<lparr>snd_of = demoSender, grand = demoRand, clock = (\<lambda>_. 0), queue = [], wire = []\<rparr> = Some (Inr st)" "wire st = [demoSent]"
    using demo_sends by blast
  have all: "peelable {} [[1]] = {1}"
  proof (intro subset_antisym subsetI)
    fix h assume "h \<in> peelable {} [[1]]"
    then show "h \<in> {1}" by (induction rule: peelable.induct) auto
  next
    fix h :: u32 assume "h \<in> {1}"
    then show "h \<in> peelable {} [[1]]" using peelable.peel [of "[1]" "[[1]]" 1 "[]" "{}"] by simp
  qed
  obtain r hs where "receiver_run demoBlake [GotCw demoSent 0 0] rA = Some (Inr r)"
    "map fst (decodedCh r) = map (true_tx (ldpcOps demoBlake) wideTruth) hs" "distinct hs" "set hs = {1}"
    using connection_reconciles [OF conn conn _ _ wide_hashes _ _ st(1), of "[GotCw demoSent 0 0]" "{}" "[[1]]"]
      conn_hash(2) conn_rates(3) st(2) all by (auto simp: demoKey_def saltSize_def demoSent_def)
  moreover from this have "hs = [1]"
    by (cases hs; cases "tl hs") auto
  ultimately show ?thesis using conn st by (auto simp: demoTx_def)
qed

end
