(* ===== verification/Bench_Lt.thy ===== *)
theory Bench_Lt
  imports Loops Lt_Decoder Float64
begin

unbundle bit_operations_syntax

text \<open>
  \<open>microbenchmarks/\<close>: \<open>lib.go\<close> and \<open>onesender.go\<close>, which count the codewords of \<open>lt/\<close> that a
  receiver needs for a block it partly knows, and the programs under \<open>calc/\<close>, \<open>lossy/\<close>, \<open>overlap/\<close>
  and \<open>twosenders/\<close> that tabulate the counts. A run seeds its generators with its number: the
  samples of \<open>rand.NewSource(seed)\<close> and of the third-party soliton distribution on such a
  generator are functions of the seed. The runs of a simulation are goroutines that share
  nothing; their results are added up. A program is the list of the rows it prints.
\<close>

section \<open>Transactions\<close>

record mbTransaction =
  Idx :: u64

definition mb_XOR :: "mbTransaction \<Rightarrow> mbTransaction \<Rightarrow> mbTransaction" where
  "mb_XOR d t2 = \<lparr>Idx = Idx d XOR Idx t2\<rparr>"

definition mb_Hash :: "mbTransaction \<Rightarrow> u8 list" where
  "mb_Hash d = map (\<lambda>k. ucast (drop_bit (8 * k) (Idx d))) [0..<8]"

definition mbOps :: "mbTransaction dataOps" where
  "mbOps = \<lparr>data_XOR = mb_XOR, data_Hash = mb_Hash, data_zero = \<lparr>Idx = 0\<rparr>\<rparr>"

interpretation mb: data_laws mbOps
  by unfold_locales (simp_all add: mbOps_def mb_XOR_def xor.assoc xor.commute xor.left_commute)

definition GetTransaction :: "u64 \<Rightarrow> mbTransaction ltTransaction" where
  "GetTransaction i = NewTransaction mbOps \<lparr>Idx = i\<rparr>"

text \<open>The generators that a seed gives, and \<open>siphash\<close> under \<open>TestKey\<close>.\<close>

record mbEnv =
  mb_rng :: "int \<Rightarrow> nat \<Rightarrow> nat \<Rightarrow> int"
  mb_soliton :: "int \<Rightarrow> u64 \<Rightarrow> nat \<Rightarrow> u64"
  mb_sip :: hash64

definition mbEncoder :: "mbEnv \<Rightarrow> int \<Rightarrow> int \<Rightarrow> mbTransaction ltEncoder" where
  "mbEncoder env seed N = lt_NewEncoder (mb_rng env seed) (mb_sip env) (mb_soliton env seed (word_of_int N)) N"

definition mbDecoder :: "mbEnv \<Rightarrow> mbTransaction ltDecoder" where
  "mbDecoder env = lt_NewDecoder (mb_sip env) 2147483647"

section \<open>One sender\<close>

text \<open>The loops that fill the two ends. A transaction that the encoder refuses is skipped.\<close>

partial_function (option) fillCommon ::
  "int \<Rightarrow> int \<Rightarrow> u64 \<Rightarrow> mbTransaction ltEncoder \<Rightarrow> mbTransaction ltDecoder \<Rightarrow>
   (u64 \<times> mbTransaction ltEncoder \<times> mbTransaction ltDecoder) run" where
  "fillCommon common i txIdx e d =
     (if i < common
      then let tx = GetTransaction txIdx in
        bindO (Some (lt_AddTransaction e tx)) (\<lambda>(e, ok).
          if ok
          then bindO (lt_Decoder_AddTransaction mbOps d tx) (\<lambda>(d, _). fillCommon common (i + 1) (txIdx + 1) e d)
          else fillCommon common i (txIdx + 1) e d)
      else Some (Inr (txIdx, e, d)))"

partial_function (option) fillFresh ::
  "int \<Rightarrow> int \<Rightarrow> u64 \<Rightarrow> mbTransaction ltEncoder \<Rightarrow> u64 set \<Rightarrow> (u64 \<times> mbTransaction ltEncoder \<times> u64 set) run" where
  "fillFresh N i txIdx e toDecode =
     (if i < N
      then bindO (Some (lt_AddTransaction e (GetTransaction txIdx))) (\<lambda>(e, ok).
          if ok then fillFresh N (i + 1) (txIdx + 1) e (insert txIdx toDecode)
          else fillFresh N i (txIdx + 1) e toDecode)
      else Some (Inr (txIdx, e, toDecode)))"

text \<open>\<open>for _, tx := range newtx { delete(toDecode, tx.Data().Idx) }\<close>\<close>

definition deleteAll :: "mbTransaction ltTransaction list \<Rightarrow> u64 set \<Rightarrow> u64 set" where
  "deleteAll newtx toDecode = fold (\<lambda>tx s. s - {Idx (data tx)}) newtx toDecode"

text \<open>Producing and adding one codeword.\<close>

definition oneCodeword ::
  "mbTransaction ltEncoder \<Rightarrow> mbTransaction ltDecoder \<Rightarrow> u64 set \<Rightarrow>
   (mbTransaction ltEncoder \<times> mbTransaction ltDecoder \<times> nat \<times> u64 set) run" where
  "oneCodeword e d toDecode =
     bindO (Some (lt_ProduceCodeword mbOps e)) (\<lambda>(e, c).
     bindO (lt_AddCodeword mbOps d c) (\<lambda>(d, stub, newtx). Some (Inr (e, d, stub, deleteAll newtx toDecode))))"

partial_function (option) mbDecodeLoop ::
  "mbTransaction ltEncoder \<Rightarrow> mbTransaction ltDecoder \<Rightarrow> u64 set \<Rightarrow> nat \<Rightarrow> nat run" where
  "mbDecodeLoop e d toDecode Ncw =
     (if toDecode \<noteq> {}
      then bindO (oneCodeword e d toDecode) (\<lambda>(e, d, _, toDecode). mbDecodeLoop e d toDecode (Ncw + 1))
      else Some (Inr Ncw))"

definition oneSenderRun :: "mbEnv \<Rightarrow> int \<Rightarrow> int \<Rightarrow> int \<Rightarrow> nat run" where
  "oneSenderRun env N common runIdx =
     bindO (fillCommon common 0 0 (mbEncoder env runIdx N) (mbDecoder env)) (\<lambda>(txIdx, e, d).
     bindO (fillFresh N common txIdx e {}) (\<lambda>(_, e, toDecode). mbDecodeLoop e d toDecode 0))"

definition SimulateOneSenderOverlap :: "mbEnv \<Rightarrow> int \<Rightarrow> int \<Rightarrow> int \<Rightarrow> int run" where
  "SimulateOneSenderOverlap env Nruns N common =
     (if Nruns < 0 then Some (Inl (Panic ''makechan: size out of range''))
      else bindO (eachO (\<lambda>runIdx tot. bindO (oneSenderRun env N common (int runIdx)) (\<lambda>res. Some (Inr (tot + int res))))
                        [0..<nat Nruns] 0) (\<lambda>tot.
           Some (if Nruns = 0 then Inl DivideByZero else Inr (tot sdiv Nruns))))"

section \<open>Two senders\<close>

text \<open>Common transactions go to both encoders, when the first one accepts them.\<close>

partial_function (option) fillBoth ::
  "int \<Rightarrow> int \<Rightarrow> u64 \<Rightarrow> mbTransaction ltEncoder \<Rightarrow> mbTransaction ltEncoder \<Rightarrow> u64 set \<Rightarrow>
   (u64 \<times> mbTransaction ltEncoder \<times> mbTransaction ltEncoder \<times> u64 set) run" where
  "fillBoth common i txIdx e1 e2 toDecode =
     (if i < common
      then let tx = GetTransaction txIdx in
        bindO (Some (lt_AddTransaction e1 tx)) (\<lambda>(e1, ok).
          if ok
          then bindO (Some (lt_AddTransaction e2 tx)) (\<lambda>(e2, _).
               fillBoth common (i + 1) (txIdx + 1) e1 e2 (insert txIdx toDecode))
          else fillBoth common i (txIdx + 1) e1 e2 toDecode)
      else Some (Inr (txIdx, e1, e2, toDecode)))"

text \<open>The second loop over codewords stops at a limit.\<close>

definition sendCodewords ::
  "nat \<Rightarrow> mbTransaction ltEncoder \<Rightarrow> mbTransaction ltDecoder \<Rightarrow> u64 set \<Rightarrow>
   (mbTransaction ltEncoder \<times> mbTransaction ltDecoder \<times> u64 set) run" where
  "sendCodewords n e d toDecode =
     eachO (\<lambda>_ (e, d, toDecode). bindO (oneCodeword e d toDecode) (\<lambda>(e, d, _, toDecode). Some (Inr (e, d, toDecode))))
       [0..<n] (e, d, toDecode)"

function limitedLoop ::
  "int \<Rightarrow> mbTransaction ltEncoder \<Rightarrow> mbTransaction ltDecoder \<Rightarrow> u64 set \<Rightarrow> int \<Rightarrow> (int \<times> u64 set) run" where
  "limitedLoop limit e d toDecode Ncw =
     (if toDecode \<noteq> {} \<and> Ncw < limit
      then (case oneCodeword e d toDecode of
              None \<Rightarrow> None
            | Some (Inl err) \<Rightarrow> Some (Inl err)
            | Some (Inr (e, d, _, toDecode)) \<Rightarrow> limitedLoop limit e d toDecode (Ncw + 1))
      else Some (Inr (Ncw, toDecode)))"
  by pat_completeness auto
termination by (relation "measure (\<lambda>(limit, e, d, toDecode, Ncw). nat (limit - Ncw))") auto

declare limitedLoop.simps [simp del]

definition twoSendersRun :: "mbEnv \<Rightarrow> int \<Rightarrow> int \<Rightarrow> int \<Rightarrow> int \<Rightarrow> int run" where
  "twoSendersRun env N common sender1cw runIdx =
     bindO (fillBoth common 0 0 (mbEncoder env runIdx N) (mbEncoder env runIdx N) {}) (\<lambda>(txIdx, e1, e2, toDecode).
     bindO (fillFresh N common txIdx e1 toDecode) (\<lambda>(txIdx, e1, toDecode).
     bindO (fillFresh N common txIdx e2 toDecode) (\<lambda>(_, e2, toDecode).
     bindO (sendCodewords (nat sender1cw) e1 (mbDecoder env) toDecode) (\<lambda>(_, d, toDecode).
     bindO (limitedLoop (sender1cw + N * 5) e2 d toDecode (max 0 sender1cw)) (\<lambda>(Ncw, toDecode).
       Some (Inr (if toDecode \<noteq> {} then -1 else Ncw)))))))"

definition SimulateTwoSendersOverlap :: "mbEnv \<Rightarrow> int \<Rightarrow> int \<Rightarrow> int \<Rightarrow> int \<Rightarrow> int run" where
  "SimulateTwoSendersOverlap env Nruns N common sender1cw =
     (if Nruns < 0 then Some (Inl (Panic ''makechan: size out of range''))
      else bindO (eachO (\<lambda>runIdx (tot, failed). bindO (twoSendersRun env N common sender1cw (int runIdx)) (\<lambda>res.
                      Some (Inr (if res = -1 then (tot, failed + 1) else (tot + res, failed)))))
                    [0..<nat Nruns] (0, 0)) (\<lambda>(tot, failed).
           Some (if Nruns > failed + 50 then Inr (tot sdiv (Nruns - failed)) else Inr (-1))))"

section \<open>The programs\<close>

text \<open>\<open>overlap/main.go\<close>, \<open>twosenders/main.go\<close> and \<open>calc/main.go\<close>\<close>

definition overlapMain :: "mbEnv \<Rightarrow> (int \<times> float64 \<times> int \<times> float64) list run" where
  "overlapMain env =
     eachO (\<lambda>k rows. let fresh = int k in
       bindO (SimulateOneSenderOverlap env 100 200 (200 - fresh)) (\<lambda>res.
         Some (Inr (rows @ [(fresh, f_div (f_of_int fresh) (Fin 200), res, f_div (f_of_int res) (f_of_int fresh))])))) [0..<200] []"

definition twoSendersMain :: "mbEnv \<Rightarrow> (int \<times> int \<times> float64) list run" where
  "twoSendersMain env =
     eachO (\<lambda>k rows. let sender1 = int k in
       bindO (SimulateTwoSendersOverlap env 100 200 100 sender1) (\<lambda>res.
         Some (Inr (if res \<noteq> -1 then rows @ [(sender1, res, f_div (f_of_int res) (f_of_int 300))] else rows)))) [0..<400] []"

text \<open>The inner loop of \<open>findMaxOverhead\<close>: the overlap that maximises the overhead of one more node.\<close>

definition worstOverlap :: "mbEnv \<Rightarrow> int \<Rightarrow> int \<Rightarrow> int \<Rightarrow> (float64 \<times> int \<times> int) run" where
  "worstOverlap env blockSize totTx totCw =
     eachO (\<lambda>k (overhead, overlap, cw). let common = int k in
       bindO (SimulateOneSenderOverlap env 100 blockSize common) (\<lambda>blk.
         let thisOverhead = f_div (f_of_int (totCw + blk)) (f_of_int (totTx + blockSize - common)) in
         Some (Inr (if f_less overhead thisOverhead then (thisOverhead, common, blk) else (overhead, overlap, cw)))))
       (upTo 0 (blockSize + 1)) (Fin 0, 0, 0)"

definition findMaxOverhead :: "mbEnv \<Rightarrow> int \<Rightarrow> int \<Rightarrow> (float64 list \<times> int list) run" where
  "findMaxOverhead env blockSize numNodes =
     bindO (SimulateOneSenderOverlap env 100 blockSize 0) (\<lambda>totCw.
     bindO (eachO (\<lambda>node (totTx, totCw, maxOverhead, maximizingOverlap).
         bindO (worstOverlap env blockSize totTx totCw) (\<lambda>(overhead, overlap, cw).
           Some (Inr (totTx + (blockSize - overlap), totCw + cw, maxOverhead @ [overhead], maximizingOverlap @ [overlap]))))
         (upTo 1 numNodes) (blockSize, totCw, [], [])) (\<lambda>(totTx, totCw, maxOverhead, maximizingOverlap).
     Some (Inr (maxOverhead, maximizingOverlap))))"

definition calcMain :: "mbEnv \<Rightarrow> (int \<times> float64) list run" where
  "calcMain env =
     eachO (\<lambda>k rows. let nodes = int k in
       bindO (SimulateOneSenderOverlap env 50 5000 (5000 - 5000 sdiv nodes)) (\<lambda>ncw.
         Some (Inr (rows @ [(nodes, f_div (f_of_int ncw) (f_of_int (5000 sdiv nodes)))])))) [2..<21] []"

section \<open>Codewords until most of them decode\<close>

text \<open>\<open>lossy/main.go\<close>: the count of decoded codewords.\<close>

definition countDecoded :: "mbTransaction ltDecoder \<Rightarrow> nat list \<Rightarrow> nat result" where
  "countDecoded d stubs =
     eachR (\<lambda>stub decoded. bindR (cw_Decoded d stub) (\<lambda>b. Inr (if b then decoded + 1 else decoded))) stubs 0"

partial_function (option) lossyLoop ::
  "mbTransaction ltEncoder \<Rightarrow> mbTransaction ltDecoder \<Rightarrow> u64 set \<Rightarrow> nat \<Rightarrow> nat list \<Rightarrow> nat \<Rightarrow> nat \<Rightarrow> (nat \<times> nat \<times> nat) run" where
  "lossyLoop e d toDecode cw stubs cwToThreshold txAtThreshold =
     (if toDecode \<noteq> {}
      then bindO (oneCodeword e d toDecode) (\<lambda>(e, d, stub, toDecode).
        let stubs = stubs @ [stub] in
        if cwToThreshold = 0 \<and> length stubs > 5
        then bindO (Some (countDecoded d stubs)) (\<lambda>decoded.
             bindO (Some (f_to_int (f_mul (f_of_int (int (length stubs))) (Fin (1 / 2))))) (\<lambda>half.
               if int decoded > half then lossyLoop e d toDecode (cw + 1) stubs (length stubs) (card toDecode)
               else lossyLoop e d toDecode (cw + 1) stubs cwToThreshold txAtThreshold))
        else lossyLoop e d toDecode (cw + 1) stubs cwToThreshold txAtThreshold)
      else Some (Inr (cwToThreshold, cw, txAtThreshold)))"

definition lossyRun :: "mbEnv \<Rightarrow> int \<Rightarrow> int \<Rightarrow> int \<Rightarrow> (nat \<times> nat \<times> nat) run" where
  "lossyRun env N overlap nrun =
     bindO (fillCommon overlap 0 0 (mbEncoder env nrun N) (mbDecoder env)) (\<lambda>(txIdx, e, d).
     bindO (fillFresh N overlap txIdx e {}) (\<lambda>(_, e, toDecode). lossyLoop e d toDecode 0 [] 0 0))"

definition lossyMain :: "mbEnv \<Rightarrow> (nat \<times> nat \<times> nat \<times> nat) list run" where
  "lossyMain env =
     (let N = 100; nruns = 100 in
      eachO (\<lambda>overlap rows.
        bindO (eachO (\<lambda>nrun (cwToTh, cwTot, txAtTh).
            bindO (lossyRun env N (int overlap) (int nrun)) (\<lambda>(a, b, c). Some (Inr (cwToTh + a, cwTot + b, txAtTh + c))))
            [0..<nruns] (0, 0, 0)) (\<lambda>(cwToTh, cwTot, txAtTh).
        Some (Inr (rows @ [(overlap, cwToTh div nruns, cwTot div nruns, txAtTh div nruns)])))) [0..<100] [])"

end
