(* ===== verification/Bench_Lt_Runs.thy ===== *)
theory Bench_Lt_Runs
  imports Bench_Lt Lt_History
begin

text \<open>
  A run of \<open>SimulateOneSenderOverlap\<close> joins the encoder and the decoder of \<open>lt/\<close>: it returns
  exactly when some number of codewords lets the receiver peel the rest of the block, and then
  with the least such number.
\<close>

section \<open>The codewords that an encoder will give\<close>

fun codewordsOf :: "'d dataOps \<Rightarrow> 'd ltEncoder \<Rightarrow> nat \<Rightarrow> u32 list list" where
  "codewordsOf T e 0 = []"
| "codewordsOf T e (Suc n) =
     (case lt_ProduceCodeword T e of Inl _ \<Rightarrow> [] | Inr (e', c) \<Rightarrow> cw_members c # codewordsOf T e' n)"

text \<open>An encoder that can give codewords for ever.\<close>

definition steady :: "'d ltEncoder \<Rightarrow> bool" where
  "steady e \<longleftrightarrow> fair (rng e) \<and> (\<forall>k. 0 < sint (degreeDist e k)) \<and> window e \<noteq> []"

lemma steady_produces:
  assumes "steady e"
  obtains e' c chosen where "lt_ProduceCodeword T e = Inr (e', c)" "steady e'" "window e' = window e"
    "mset chosen \<subseteq># mset (window e)" "mixes T chosen c"
proof -
  let ?e = "e\<lparr>degreeDist := (\<lambda>k. degreeDist e (Suc k))\<rparr>"
  have s: "fair (rng ?e)" "0 < sint (degreeDist e 0)" "window ?e \<noteq> []" using assms by (simp_all add: steady_def)
  obtain e' c chosen where p: "produceCodeword T ?e (sint (degreeDist e 0)) = Inr (e', c)" "window e' = window ?e"
    "degreeDist e' = degreeDist ?e" "fair (rng e')" "mset chosen \<subseteq># mset (window ?e)" "mixes T chosen c"
    using produceCodeword_spec [OF s, of T] by blast
  then have "steady e'" using assms by (simp add: steady_def)
  then show thesis using that p by (simp add: lt_ProduceCodeword_def Let_def)
qed

section \<open>A block of transactions without colliding hashes\<close>

definition mbHash :: "mbEnv \<Rightarrow> nat \<Rightarrow> u32" where
  "mbHash env i = salted (mb_sip env) (mb_Hash \<lparr>Idx = of_nat i\<rparr>)"

definition mbEntry :: "mbEnv \<Rightarrow> nat \<Rightarrow> mbTransaction saltedTransaction" where
  "mbEntry env i = \<lparr>saltedHash = mbHash env i, tx_of = GetTransaction (of_nat i)\<rparr>"

text \<open>The encoder once it holds the block.\<close>

definition filledEncoder :: "mbEnv \<Rightarrow> int \<Rightarrow> nat \<Rightarrow> mbTransaction ltEncoder" where
  "filledEncoder env seed N =
     (mbEncoder env seed (int N))\<lparr>window := map (mbEntry env) [0..<N], hashes := mbHash env ` {..<N}\<rparr>"

definition block_ok :: "mbEnv \<Rightarrow> int \<Rightarrow> nat \<Rightarrow> bool" where
  "block_ok env seed N \<longleftrightarrow>
     N < 2147483648 \<and> inj_on (mbHash env) {..<N} \<and> fair (mb_rng env seed) \<and>
     (\<forall>k. 0 < sint (mb_soliton env seed (word_of_int (int N)) k))"

definition mbTruth :: "mbEnv \<Rightarrow> nat \<Rightarrow> u32 \<Rightarrow> mbTransaction" where
  "mbTruth env N h = \<lparr>Idx = of_nat (inv_into {..<N} (mbHash env) h)\<rparr>"

lemma GetTransaction_eq: "GetTransaction i = \<lparr>data = \<lparr>Idx = i\<rparr>, hash = mb_Hash \<lparr>Idx = i\<rparr>\<rparr>"
  by (simp add: GetTransaction_def NewTransaction_eq [OF mb.data_laws_axioms]) (simp add: mbOps_def)

lemma mbTruth_hash: "inj_on (mbHash env) {..<N} \<Longrightarrow> i < N \<Longrightarrow> mbTruth env N (mbHash env i) = \<lparr>Idx = of_nat i\<rparr>"
  by (simp add: mbTruth_def)

lemma mb_true_tx: "inj_on (mbHash env) {..<N} \<Longrightarrow> i < N \<Longrightarrow> true_tx mbOps (mbTruth env N) (mbHash env i) = GetTransaction (of_nat i)"
  by (simp add: true_tx_def mbTruth_hash GetTransaction_eq) (simp add: mbOps_def)

lemma mb_salted: "salted (mb_sip env) (hash (GetTransaction (of_nat i))) = mbHash env i"
  by (simp add: GetTransaction_eq mbHash_def)

lemma mb_hashes_to:
  assumes "inj_on (mbHash env) {..<N}"
  shows "hashes_to mbOps (mb_sip env) (mbTruth env N) (mbHash env ` {..<N})"
  using mbTruth_hash [OF assms] by (auto simp: hashes_to_def mbHash_def) (simp add: mbOps_def mbHash_def)

lemma mb_honest_tx:
  assumes "inj_on (mbHash env) {..<N}" "i < N"
  shows "honest_tx mbOps (mb_sip env) (mbTruth env N) (mbHash env ` {..<N}) (GetTransaction (of_nat i))"
  using mb_true_tx [OF assms] assms(2) by (simp add: honest_tx_def mb_salted)

lemma mb_genuine:
  assumes "inj_on (mbHash env) {..<N}"
  shows "genuine_window mbOps (mb_sip env) (mbTruth env N) (map (mbEntry env) [0..<N])"
proof -
  have e: "map saltedHash (map (mbEntry env) [0..<N]) = map (mbHash env) [0..<N]" by (simp add: mbEntry_def)
  have "distinct (map saltedHash (map (mbEntry env) [0..<N]))"
    unfolding e using assms by (simp add: distinct_map atLeast0LessThan)
  then show ?thesis
    using mb_true_tx [OF assms] unfolding genuine_window_def by (auto simp: mbEntry_def mb_salted simp del: map_map)
qed

section \<open>The two ends while they are filled\<close>

definition encFilled :: "mbEnv \<Rightarrow> int \<Rightarrow> nat \<Rightarrow> nat \<Rightarrow> mbTransaction ltEncoder \<Rightarrow> bool" where
  "encFilled env seed N i e \<longleftrightarrow>
     e = (mbEncoder env seed (int N))\<lparr>window := map (mbEntry env) [0..<i], hashes := mbHash env ` {..<i}\<rparr>"

definition decKnows :: "mbEnv \<Rightarrow> nat \<Rightarrow> nat \<Rightarrow> u32 list list \<Rightarrow> mbTransaction ltDecoder \<Rightarrow> bool" where
  "decKnows env N common os d \<longleftrightarrow>
     lt_ok d \<and> dhasher d = mb_sip env \<and> exact mbOps (mbTruth env N) (mbHash env ` {..<N}) (mbHash env ` {..<common}) os d"

lemma encFilled_add:
  assumes "inj_on (mbHash env) {..<N}" "i < N" "encFilled env seed N i e"
  shows "\<exists>e'. lt_AddTransaction e (GetTransaction (of_nat i)) = Inr (e', True) \<and> encFilled env seed N (Suc i) e'"
proof -
  have "mbHash env i \<notin> mbHash env ` {..<i}" using assms(1,2) by (auto dest: inj_onD)
  moreover have "trimWindow (int N) (map (mbEntry env) [0..<Suc i]) (insert (mbHash env i) (mbHash env ` {..<i})) =
      Inr (map (mbEntry env) [0..<Suc i], insert (mbHash env i) (mbHash env ` {..<i}))"
    using assms(2) by (subst trimWindow_eq) simp_all
  ultimately have "lt_AddTransaction e (GetTransaction (of_nat i)) =
      Inr ((mbEncoder env seed (int N))\<lparr>window := map (mbEntry env) [0..<Suc i], hashes := mbHash env ` {..<Suc i}\<rparr>, True)"
    using assms(3) unfolding encFilled_def
    by (simp add: lt_AddTransaction_def mbEncoder_def lt_NewEncoder_def mb_salted Let_def mbEntry_def lessThan_Suc)
  then show ?thesis by (simp add: encFilled_def)
qed

lemma decKnows_add:
  assumes "inj_on (mbHash env) {..<N}" "i < N" "decKnows env N i os d"
  shows "\<exists>d' out. lt_Decoder_AddTransaction mbOps d (GetTransaction (of_nat i)) = Some (Inr (d', out)) \<and> decKnows env N (Suc i) os d'"
proof -
  let ?ev = "GotTransaction (GetTransaction (of_nat i))"
  have d: "lt_ok d" "dhasher d = mb_sip env" "exact mbOps (mbTruth env N) (mbHash env ` {..<N}) (mbHash env ` {..<i}) os d"
    using assms(3) by (simp_all add: decKnows_def)
  obtain d' out where r: "lt_receive mbOps d ?ev = Some (Inr (d', out))" "lt_ok d'" "dhasher d' = dhasher d"
    using lt_receive_ok [OF d(1)] by blast
  have "honest mbOps (dhasher d) (mbTruth env N) (mbHash env ` {..<N}) ?ev"
    using mb_honest_tx [OF assms(1,2)] d(2) by (simp add: honest_def)
  from exact_receive [OF mb.data_laws_axioms d(1,3) this r(1)]
  have "decKnows env N (Suc i) os d'" using r(2,3) d(2) by (simp add: decKnows_def mb_salted lessThan_Suc)
  then show ?thesis using r(1) by (simp add: lt_receive_def)
qed

lemma fillCommon_returns:
  assumes "inj_on (mbHash env) {..<N}" "i \<le> common" "common \<le> N" "encFilled env seed N i e" "decKnows env N i [] d"
  shows "\<exists>e' d'. fillCommon (int common) (int i) (of_nat i) e d = Some (Inr (of_nat common, e', d')) \<and>
                 encFilled env seed N common e' \<and> decKnows env N common [] d'"
  using assms(2,4,5)
proof (induction "common - i" arbitrary: i e d)
  case 0
  then show ?case by (subst fillCommon.simps) auto
next
  case (Suc x)
  then have i: "i < common" "i < N" using assms(3) by simp_all
  obtain e1 where e1: "lt_AddTransaction e (GetTransaction (of_nat i)) = Inr (e1, True)" "encFilled env seed N (Suc i) e1"
    using encFilled_add [OF assms(1) i(2) Suc.prems(2)] by blast
  obtain d1 out where d1: "lt_Decoder_AddTransaction mbOps d (GetTransaction (of_nat i)) = Some (Inr (d1, out))"
    "decKnows env N (Suc i) [] d1" using decKnows_add [OF assms(1) i(2) Suc.prems(3)] by blast
  have "x = common - Suc i" "Suc i \<le> common" using Suc.hyps(2) i(1) by simp_all
  from Suc.hyps(1) [OF this e1(2) d1(2)] obtain e' d' where
    "fillCommon (int common) (int (Suc i)) (of_nat (Suc i)) e1 d1 = Some (Inr (of_nat common, e', d'))"
    "encFilled env seed N common e'" "decKnows env N common [] d'" by blast
  moreover have "fillCommon (int common) (int i) (of_nat i) e d = fillCommon (int common) (int (Suc i)) (of_nat (Suc i)) e1 d1"
    using e1(1) d1(1) i(1) by (subst fillCommon.simps) (simp add: Let_def add.commute)
  ultimately show ?case by auto
qed

lemma fillFresh_returns:
  assumes "inj_on (mbHash env) {..<N}" "i \<le> N" "encFilled env seed N i e"
  shows "\<exists>e' t. fillFresh (int N) (int i) (of_nat i) e td = Some (Inr (t, e', td \<union> of_nat ` {i..<N})) \<and> encFilled env seed N N e'"
  using assms(2,3)
proof (induction "N - i" arbitrary: i e td)
  case 0
  then show ?case by (subst fillFresh.simps) auto
next
  case (Suc x)
  then have i: "i < N" by simp
  obtain e1 where e1: "lt_AddTransaction e (GetTransaction (of_nat i)) = Inr (e1, True)" "encFilled env seed N (Suc i) e1"
    using encFilled_add [OF assms(1) i Suc.prems(2)] by blast
  have "x = N - Suc i" "Suc i \<le> N" using Suc.hyps(2) i by simp_all
  from Suc.hyps(1) [OF this e1(2), of "insert (of_nat i) td"] obtain e' t where
    "fillFresh (int N) (int (Suc i)) (of_nat (Suc i)) e1 (insert (of_nat i) td) =
       Some (Inr (t, e', insert (of_nat i) td \<union> of_nat ` {Suc i..<N}))" "encFilled env seed N N e'" by blast
  moreover have ivl: "{i..<N} = insert i {Suc i..<N}" using i by auto
  have "insert (of_nat i) td \<union> of_nat ` {Suc i..<N} = (td \<union> of_nat ` {i..<N} :: u64 set)"
    unfolding ivl using image_insert by auto
  moreover have "fillFresh (int N) (int i) (of_nat i) e td =
      fillFresh (int N) (int (Suc i)) (of_nat (Suc i)) e1 (insert (of_nat i) td)"
    using e1(1) i by (subst fillFresh.simps) (simp add: Let_def add.commute)
  ultimately show ?case by auto
qed

section \<open>The loop over codewords\<close>

text \<open>What is still to be decoded when the decoder has received the hashes \<open>D\<close>.\<close>

definition toDecodeFrom :: "mbEnv \<Rightarrow> nat \<Rightarrow> nat \<Rightarrow> u32 set \<Rightarrow> u64 set" where
  "toDecodeFrom env N common D = of_nat ` {i \<in> {common..<N}. mbHash env i \<notin> D}"

text \<open>The first \<open>n\<close> codewords let the receiver peel the whole block.\<close>

definition enough :: "mbEnv \<Rightarrow> int \<Rightarrow> nat \<Rightarrow> nat \<Rightarrow> nat \<Rightarrow> bool" where
  "enough env seed N common n \<longleftrightarrow>
     mbHash env ` {common..<N} \<subseteq> peelable (mbHash env ` {..<common}) (codewordsOf mbOps (filledEncoder env seed N) n)"

text \<open>The state after \<open>n\<close> codewords.\<close>

definition mbState :: "mbEnv \<Rightarrow> int \<Rightarrow> nat \<Rightarrow> nat \<Rightarrow> nat \<Rightarrow> mbTransaction ltEncoder \<Rightarrow> mbTransaction ltDecoder \<Rightarrow> u64 set \<Rightarrow> bool" where
  "mbState env seed N common n e d toDecode \<longleftrightarrow>
     steady e \<and> window e = map (mbEntry env) [0..<N] \<and>
     (\<forall>k. codewordsOf mbOps (filledEncoder env seed N) (n + k) =
          codewordsOf mbOps (filledEncoder env seed N) n @ codewordsOf mbOps e k) \<and>
     decKnows env N common (codewordsOf mbOps (filledEncoder env seed N) n) d \<and>
     toDecode = toDecodeFrom env N common (dom (receivedTransactions d))"

lemma deleteAll_eq: "deleteAll txs s = s - (\<lambda>tx. Idx (data tx)) ` set txs"
  unfolding deleteAll_def by (induction txs arbitrary: s) auto

lemma mbState_enough:
  assumes "inj_on (mbHash env) {..<N}" "mbState env seed N common n e d toDecode"
  shows "toDecode = {} \<longleftrightarrow> enough env seed N common n"
proof -
  have d: "lt_ok d" "tracks (mbHash env ` {..<common}) (codewordsOf mbOps (filledEncoder env seed N) n) d"
    "toDecode = toDecodeFrom env N common (dom (receivedTransactions d))"
    using assms(2) by (simp_all add: mbState_def decKnows_def exact_def)
  show ?thesis unfolding d(3) toDecodeFrom_def enough_def rest_closed(1) [OF d(1,2)] by auto
qed

lemma deleted_known:
  assumes inj: "inj_on (mbHash env) {..<N}" and N: "N < 2147483648"
    and hs: "set hs \<subseteq> mbHash env ` {..<N}" and B: "B = A \<union> set hs"
  shows "deleteAll (map (true_tx mbOps (mbTruth env N)) hs) (toDecodeFrom env N common A) = toDecodeFrom env N common B"
proof -
  have num: "(of_nat i :: u64) = of_nat j \<longleftrightarrow> i = j" if "i < N" "j < N" for i j
    using that N by (simp add: word_of_nat_eq_iff take_bit_nat_eq_self)
  have gone: "(of_nat i :: u64) \<in> (\<lambda>tx. Idx (data tx)) ` set (map (true_tx mbOps (mbTruth env N)) hs) \<longleftrightarrow> mbHash env i \<in> set hs"
    if i: "i < N" for i
  proof
    assume "(of_nat i :: u64) \<in> (\<lambda>tx. Idx (data tx)) ` set (map (true_tx mbOps (mbTruth env N)) hs)"
    then obtain h where h: "h \<in> set hs" "of_nat i = Idx (mbTruth env N h)" by (auto simp: true_tx_def)
    then obtain j where "j < N" "h = mbHash env j" using hs by auto
    then show "mbHash env i \<in> set hs" using h num [OF i] by (simp add: mbTruth_hash [OF inj])
  next
    assume "mbHash env i \<in> set hs"
    then show "(of_nat i :: u64) \<in> (\<lambda>tx. Idx (data tx)) ` set (map (true_tx mbOps (mbTruth env N)) hs)"
      using mbTruth_hash [OF inj i] by (force simp: true_tx_def)
  qed
  show ?thesis unfolding deleteAll_eq toDecodeFrom_def B using gone by auto
qed

lemma mbState_step:
  assumes ok: "block_ok env seed N" and st: "mbState env seed N common n e d toDecode"
  shows "\<exists>e' d' stub toDecode'. oneCodeword e d toDecode = Some (Inr (e', d', stub, toDecode')) \<and>
           mbState env seed N common (Suc n) e' d' toDecode'"
proof -
  let ?os = "codewordsOf mbOps (filledEncoder env seed N)" and ?H = "mbHash env ` {..<N}" and ?tr = "mbTruth env N"
  have inj: "inj_on (mbHash env) {..<N}" "N < 2147483648" using ok by (simp_all add: block_ok_def)
  have s: "steady e" "window e = map (mbEntry env) [0..<N]" "decKnows env N common (?os n) d"
    "toDecode = toDecodeFrom env N common (dom (receivedTransactions d))"
    and more: "\<And>k. ?os (n + k) = ?os n @ codewordsOf mbOps e k"
    using st unfolding mbState_def by blast+
  obtain e' c chosen where p: "lt_ProduceCodeword mbOps e = Inr (e', c)" "steady e'" "window e' = window e"
    "mset chosen \<subseteq># mset (window e)" "mixes mbOps chosen c" by (rule steady_produces [OF s(1), of mbOps])
  have next1: "codewordsOf mbOps e (Suc k) = cw_members c # codewordsOf mbOps e' k" for k by (simp add: p(1))
  have osS: "?os (Suc n) = ?os n @ [cw_members c]"
    using more [of "Suc 0"] unfolding next1 codewordsOf.simps(1) add_Suc_right add_0_right .
  have more': "?os (Suc n + k) = ?os (Suc n) @ codewordsOf mbOps e' k" for k
    using more [of "Suc k"] unfolding next1 osS add_Suc_right add_Suc by simp
  have d: "lt_ok d" "dhasher d = mb_sip env" "exact mbOps ?tr ?H (mbHash env ` {..<common}) (?os n) d"
    using s(3) by (simp_all add: decKnows_def)
  have "saltedHash ` set (window e) = ?H" by (auto simp: s(2) mbEntry_def image_image)
  then have hon: "honest mbOps (dhasher d) ?tr ?H (GotCodeword c)"
    using mixes_honest [OF mb.data_laws_axioms mb_genuine [OF inj(1)] p(4) [unfolded s(2)] p(5)] s(2) by (simp add: honest_def)
  obtain d' out where r: "lt_receive mbOps d (GotCodeword c) = Some (Inr (d', out))" "lt_ok d'" "dhasher d' = dhasher d"
    using lt_receive_ok [OF d(1)] by blast
  obtain stub where add: "lt_AddCodeword mbOps d c = Some (Inr (d', stub, out))"
    using r(1) by (auto simp: lt_receive_def bindO_Inr_iff)
  have ex: "exact mbOps ?tr ?H (mbHash env ` {..<common}) (?os (Suc n)) d'"
    "learns mbOps ?tr (dom (receivedTransactions d)) {} (dom (receivedTransactions d')) out"
    using exact_receive [OF mb.data_laws_axioms d(1,3) hon r(1)] unfolding osS by simp_all
  then have kn: "decKnows env N common (?os (Suc n)) d'" using r(2,3) d(2) by (simp add: decKnows_def)
  obtain hs where hs: "out = map (true_tx mbOps ?tr) hs"
    "dom (receivedTransactions d') = dom (receivedTransactions d) \<union> set hs"
    using ex(2) unfolding learns_def by auto
  have "dom (receivedTransactions d') \<subseteq> ?H" using ex(1) by (simp add: exact_def remembers_def)
  then have "deleteAll out toDecode = toDecodeFrom env N common (dom (receivedTransactions d'))"
    using deleted_known [OF inj _ hs(2)] hs s(4) by simp
  moreover have "window e' = map (mbEntry env) [0..<N]" using p(3) s(2) by simp
  ultimately have "mbState env seed N common (Suc n) e' d' (deleteAll out toDecode)"
    using p(2) more' kn unfolding mbState_def by blast
  then show ?thesis using p(1) add by (simp add: oneCodeword_def)
qed

lemma mbDecodeLoop_least:
  assumes ok: "block_ok env seed N" and "mbState env seed N common n e d toDecode"
    and "n \<le> m" "enough env seed N common m" "\<And>j. n \<le> j \<Longrightarrow> j < m \<Longrightarrow> \<not> enough env seed N common j"
  shows "mbDecodeLoop e d toDecode n = Some (Inr m)"
  using assms(2,3,5)
proof (induction "m - n" arbitrary: n e d toDecode)
  case 0
  then have "toDecode = {}" "n = m"
    using mbState_enough [OF _ 0(2)] ok assms(4) by (auto simp: block_ok_def)
  then show ?case by (subst mbDecodeLoop.simps) simp
next
  case (Suc x)
  then have "n < m" by simp
  then have "toDecode \<noteq> {}" using mbState_enough [OF _ Suc.prems(1)] ok Suc.prems(3) by (auto simp: block_ok_def)
  moreover obtain e' d' stub td' where s: "oneCodeword e d toDecode = Some (Inr (e', d', stub, td'))"
    "mbState env seed N common (Suc n) e' d' td'" using mbState_step [OF ok Suc.prems(1)] by blast
  moreover have "mbDecodeLoop e' d' td' (Suc n) = Some (Inr m)"
    using Suc.hyps(1) [OF _ s(2)] Suc.hyps(2) Suc.prems(3) \<open>n < m\<close> by auto
  ultimately show ?case by (subst mbDecodeLoop.simps) simp
qed

lemma mbDecodeLoop_diverges:
  assumes ok: "block_ok env seed N" and "mbDecodeLoop e d toDecode n = Some r"
  shows "mbState env seed N common n e d toDecode \<Longrightarrow> \<exists>m. enough env seed N common m"
proof -
  let ?P = "\<lambda>e d toDecode n (r :: nat result). mbState env seed N common n e d toDecode \<longrightarrow> (\<exists>m. enough env seed N common m)"
  have "?P e d toDecode n r"
  proof (rule mbDecodeLoop.raw_induct [where P = ?P, OF _ assms(2)])
    fix loop :: "mbTransaction ltEncoder \<Rightarrow> mbTransaction ltDecoder \<Rightarrow> u64 set \<Rightarrow> nat \<Rightarrow> nat run" and e d toDecode n r
    assume IH: "\<And>e d toDecode n r. loop e d toDecode n = Some r \<Longrightarrow> ?P e d toDecode n r"
      and step: "(if toDecode \<noteq> {}
        then bindO (oneCodeword e d toDecode) (\<lambda>(e, d, _, toDecode). loop e d toDecode (n + 1)) else Some (Inr n)) = Some r"
    show "?P e d toDecode n r"
    proof
      assume st: "mbState env seed N common n e d toDecode"
      show "\<exists>m. enough env seed N common m"
      proof (cases "toDecode = {}")
        case True
        then show ?thesis using mbState_enough [OF _ st] ok by (auto simp: block_ok_def)
      next
        case False
        obtain e' d' stub td' where s: "oneCodeword e d toDecode = Some (Inr (e', d', stub, td'))"
          "mbState env seed N common (Suc n) e' d' td'" using mbState_step [OF ok st] by blast
        then have "loop e' d' td' (n + 1) = Some r" using step False by simp
        then show ?thesis using IH s(2) by fastforce
      qed
    qed
  qed
  then show "mbState env seed N common n e d toDecode \<Longrightarrow> \<exists>m. enough env seed N common m" by blast
qed

section \<open>A whole run\<close>

lemma oneSenderRun_exact:
  assumes ok: "block_ok env seed N" and common: "common \<le> N"
  shows "oneSenderRun env (int N) (int common) seed =
    (if \<exists>n. enough env seed N common n then Some (Inr (LEAST n. enough env seed N common n)) else None)"
proof -
  have inj: "inj_on (mbHash env) {..<N}" "N < 2147483648" using ok by (simp_all add: block_ok_def)
  have card: "card (mbHash env ` {..<N}) \<le> N" using card_image_le [of "{..<N}" "mbHash env"] by simp
  have e0: "encFilled env seed N 0 (mbEncoder env seed (int N))"
    by (simp add: encFilled_def mbEncoder_def lt_NewEncoder_def)
  have d0: "decKnows env N 0 [] (mbDecoder env)"
    using NewDecoder_ok [of 2147483647 "mb_sip env"] mb_hashes_to [OF inj(1)] card inj(2)
    by (simp add: decKnows_def mbDecoder_def exact_def agrees_def tracks_def remembers_def) (simp add: lt_NewDecoder_def)
  obtain e1 d1 where fill: "fillCommon (int common) 0 0 (mbEncoder env seed (int N)) (mbDecoder env) = Some (Inr (of_nat common, e1, d1))"
    "encFilled env seed N common e1" "decKnows env N common [] d1"
    using fillCommon_returns [OF inj(1) _ common e0 d0] by auto
  obtain e2 t where fresh: "fillFresh (int N) (int common) (of_nat common) e1 {} = Some (Inr (t, e2, of_nat ` {common..<N}))"
    "encFilled env seed N N e2" using fillFresh_returns [OF inj(1) common fill(2), of "{}"] by auto
  have e2: "e2 = filledEncoder env seed N" using fresh(2) by (simp add: encFilled_def filledEncoder_def)
  have run: "oneSenderRun env (int N) (int common) seed = mbDecodeLoop e2 d1 (of_nat ` {common..<N}) 0"
    using fill(1) fresh(1) by (simp add: oneSenderRun_def)
  show ?thesis
  proof (cases "common = N")
    case True
    then have "enough env seed N common 0" by (simp add: enough_def)
    then have "(LEAST n. enough env seed N common n) = 0" "\<exists>n. enough env seed N common n" by (auto intro: Least_equality)
    moreover have "mbDecodeLoop e2 d1 (of_nat ` {common..<N}) 0 = Some (Inr 0)"
      using True by (subst mbDecodeLoop.simps) simp
    ultimately show ?thesis using run by simp
  next
    case False
    have "lt_ok d1" "tracks (mbHash env ` {..<common}) [] d1" using fill(3) by (simp_all add: decKnows_def exact_def)
    from rest_closed(1) [OF this] have known: "dom (receivedTransactions d1) = mbHash env ` {..<common}"
      by (auto intro: peelable.given elim: peelable.cases)
    have "mbHash env i \<notin> mbHash env ` {..<common}" if "common \<le> i" "i < N" for i
      using inj(1) that by (auto dest: inj_onD)
    then have td: "of_nat ` {common..<N} = toDecodeFrom env N common (dom (receivedTransactions d1))"
      unfolding toDecodeFrom_def known by (intro arg_cong [where f = "image of_nat"]) fastforce
    have "steady e2" using ok False common
      by (auto simp: steady_def e2 filledEncoder_def mbEncoder_def lt_NewEncoder_def block_ok_def)
    then have st: "mbState env seed N common 0 e2 d1 (of_nat ` {common..<N})"
      using fill(3) td by (simp add: mbState_def e2) (simp add: filledEncoder_def)
    show ?thesis
    proof (cases "\<exists>n. enough env seed N common n")
      case True
      then have "mbDecodeLoop e2 d1 (of_nat ` {common..<N}) 0 = Some (Inr (LEAST n. enough env seed N common n))"
        using mbDecodeLoop_least [OF ok st le0 LeastI_ex [where P = "enough env seed N common"]] not_less_Least by blast
      then show ?thesis using run True by simp
    next
      case False
      have "mbDecodeLoop e2 d1 (of_nat ` {common..<N}) 0 = None"
      proof (rule ccontr)
        assume "mbDecodeLoop e2 d1 (of_nat ` {common..<N}) 0 \<noteq> None"
        then obtain r where "mbDecodeLoop e2 d1 (of_nat ` {common..<N}) 0 = Some r" by blast
        then show False using mbDecodeLoop_diverges [OF ok _ st] False by blast
      qed
      then show ?thesis using run False by simp
    qed
  qed
qed

end
