(* ===== verification/Bench_Properties.thy ===== *)
theory Bench_Properties
  imports Bench_Lt_Runs
begin

text \<open>The property of \<open>microbenchmarks/\<close>, with a witness of a block of two transactions.\<close>

text \<open>C32: The simulation of one sender. For a block of \<open>N\<close> transactions without colliding hashes, of
  which the receiver knows the first \<open>common\<close>, a run returns exactly when the codewords that the
  encoder will give let the receiver peel the rest, and then with the least number of codewords
  that do; otherwise it does not end. It never panics.\<close>

theorem one_sender_counts:
  assumes "block_ok env seed N" "common \<le> N"
  shows "oneSenderRun env (int N) (int common) seed =
    (if \<exists>n. enough env seed N common n then Some (Inr (LEAST n. enough env seed N common n)) else None)"
  by (rule oneSenderRun_exact [OF assms])

definition demoMbEnv :: mbEnv where
  "demoMbEnv = \<lparr>mb_rng = (\<lambda>_ _ n. int n - 1), mb_soliton = (\<lambda>_ _ _. 1), mb_sip = (\<lambda>bs. ucast (hd bs))\<rparr>"

lemma demo_mbHash: "mbHash demoMbEnv 0 = 0" "mbHash demoMbEnv 1 = 1"
  by (simp_all add: mbHash_def salted_def demoMbEnv_def mb_Hash_def upt_rec)

lemma demo_block_ok: "block_ok demoMbEnv 7 2"
proof -
  have "inj_on (mbHash demoMbEnv) {..<2}" using demo_mbHash by (auto simp: inj_on_def numeral_2_eq_2 less_Suc_eq)
  then show ?thesis by (simp add: block_ok_def fair_def) (simp add: demoMbEnv_def)
qed

text \<open>Every codeword is the second entry alone.\<close>

lemma demo_codeword: "codewordsOf mbOps (filledEncoder demoMbEnv 7 2) 1 = [[1]]"
  using demo_mbHash
  by (simp add: lt_ProduceCodeword_def produceCodeword_def filledEncoder_def mbEncoder_def lt_NewEncoder_def demoMbEnv_def
      sampleOne_def Intn_def get_def swap_def mbEntry_def Let_def upt_rec numeral_2_eq_2)

theorem one_sender_counts_witness: "oneSenderRun demoMbEnv 2 1 7 = Some (Inr 1)"
proof -
  have "mbHash demoMbEnv ` {1..<2} = {1}" using demo_mbHash by (simp add: numeral_2_eq_2)
  moreover have "1 \<in> peelable (mbHash demoMbEnv ` {..<1}) [[1]]" by (rule peelable.peel [of "[1]" _ _ "[]"]) simp_all
  ultimately have e1: "enough demoMbEnv 7 2 1 1" by (simp add: enough_def demo_codeword [simplified])
  have "\<not> enough demoMbEnv 7 2 1 0"
  proof
    assume "enough demoMbEnv 7 2 1 0"
    then have "1 \<in> peelable (mbHash demoMbEnv ` {..<1}) []" using \<open>mbHash demoMbEnv ` {1..<2} = {1}\<close> by (simp add: enough_def)
    then show False using demo_mbHash by (auto elim: peelable.cases)
  qed
  then have "(LEAST n. enough demoMbEnv 7 2 1 n) = 1" using e1 by (metis LeastI Least_le One_nat_def le_Suc_eq le_zero_eq)
  then show ?thesis using one_sender_counts [OF demo_block_ok, of 1] e1 by auto
qed

end
