(* ===== verification/Exp_Ldpc.thy ===== *)
theory Exp_Ldpc
  imports Loops Ldpc_Sampling Ldpc_Decoder
begin

text \<open>
  \<open>experiments/\<close>: what its programs share (\<open>lib.go\<close>), and those that send a block of random
  transactions over \<open>ldpc\<close> and count codewords: \<open>simple\<close>, \<open>decoding\<close>, \<open>detect-loss\<close>,
  \<open>detect-loss-overlap\<close>, \<open>overlap/analysis-exp\<close> and \<open>windowed-lt\<close>. The global generator is the
  values it will give, a soliton distribution the samples it will give. Flags are arguments, and
  a program is the list of the rows it prints. A map keyed by transactions is the set of its keys.
\<close>

section \<open>What the programs share\<close>

text \<open>\<open>siphash\<close> is under \<open>TestKey\<close>; \<open>exp_soliton seed k\<close> are the samples of a robust soliton
  distribution over \<open>rand.NewSource(seed)\<close>.\<close>

record expEnv =
  exp_math :: mathFns
  exp_blake :: blake
  exp_sip :: hash64
  exp_soliton :: "int \<Rightarrow> u64 \<Rightarrow> nat \<Rightarrow> u64"

record expRand =
  exp_rand :: ldpcRand
  exp_reads :: "nat \<Rightarrow> txData"

definition RandomTransaction :: "expEnv \<Rightarrow> expRand \<Rightarrow> ldpcTransaction \<times> expRand" where
  "RandomTransaction env g =
     (let d = exp_reads g 0; g = g\<lparr>exp_reads := (\<lambda>k. exp_reads g (Suc k))\<rparr>; t = zeroTransaction in
      (case UnmarshalBinary (exp_blake env) t (Serialized \<lparr>data = d, hash = []\<rparr>) of Inl _ \<Rightarrow> t | Inr t \<Rightarrow> t, g))"

definition expEncoder :: "expEnv \<Rightarrow> (nat \<Rightarrow> u64) \<Rightarrow> int \<Rightarrow> ldpcEncoder" where
  "expEncoder env degs ws = ldpc_NewEncoder (exp_sip env) degs ws"

definition expDecoder :: "expEnv \<Rightarrow> int \<Rightarrow> ldpcDecoder" where
  "expDecoder env mem = ldpc_NewDecoder (exp_sip env) mem"

text \<open>The loop that fills an encoder with \<open>t\<close> random transactions.\<close>

partial_function (option) fillBlock ::
  "expEnv \<Rightarrow> int \<Rightarrow> int \<Rightarrow> expRand \<Rightarrow> ldpcEncoder \<Rightarrow> ldpcTransaction set \<Rightarrow>
   (expRand \<times> ldpcEncoder \<times> ldpcTransaction set) run" where
  "fillBlock env t cnt g e txset =
     (if cnt < t
      then let (tx, g) = RandomTransaction env g in
        bindO (Some (ldpc_AddTransaction e tx)) (\<lambda>(e, ok).
          if ok then fillBlock env t (cnt + 1) g e (insert tx txset) else fillBlock env t cnt g e txset)
      else Some (Inr (g, e, txset)))"

text \<open>\<open>for _, tx := range newtx { delete(txset, *tx.Transaction) }\<close>\<close>

definition removeDecoded ::
  "ldpcDecoder \<Rightarrow> DecodedTransaction list \<Rightarrow> ldpcTransaction set \<Rightarrow> ldpcTransaction set result" where
  "removeDecoded d newtx txset =
     eachR (\<lambda>tx txset. bindR (deref (preimages d) (Transaction tx)) (\<lambda>t. Inr (txset - {t}))) newtx txset"

text \<open>Producing one codeword and adding it.\<close>

definition passCodeword ::
  "expEnv \<Rightarrow> expRand \<Rightarrow> ldpcEncoder \<Rightarrow> ldpcDecoder \<Rightarrow>
   (expRand \<times> ldpcEncoder \<times> ldpcDecoder \<times> nat \<times> DecodedTransaction list) run" where
  "passCodeword env g e d =
     bindO (ldpc_ProduceCodeword (exp_math env) e (exp_rand g)) (\<lambda>(e, cw, r).
     bindO (ldpc_AddCodeword (exp_blake env) d cw) (\<lambda>(d, stub, newtx).
       Some (Inr (g\<lparr>exp_rand := r\<rparr>, e, d, stub, newtx))))"

definition receiveOne ::
  "expEnv \<Rightarrow> expRand \<Rightarrow> ldpcEncoder \<Rightarrow> ldpcDecoder \<Rightarrow> ldpcTransaction set \<Rightarrow>
   (expRand \<times> ldpcEncoder \<times> ldpcDecoder \<times> nat \<times> ldpcTransaction set) run" where
  "receiveOne env g e d txset =
     bindO (passCodeword env g e d) (\<lambda>(g, e, d, stub, newtx).
     bindO (Some (removeDecoded d newtx txset)) (\<lambda>txset. Some (Inr (g, e, d, stub, txset))))"

section \<open>\<open>simple\<close>: how many transactions \<open>n\<close> codewords leave\<close>

text \<open>All tests share the generator of the distribution; \<open>degs\<close> are the samples of one test.\<close>

definition simple_testOverlap :: "expEnv \<Rightarrow> (nat \<Rightarrow> u64) \<Rightarrow> expRand \<Rightarrow> int \<Rightarrow> int \<Rightarrow> (int \<times> expRand) run" where
  "simple_testOverlap env degs g t n =
     bindO (fillBlock env t 0 g (expEncoder env degs t) {}) (\<lambda>(g, e, txset).
     bindO (eachO (\<lambda>_ (g, e, d, txset). bindO (receiveOne env g e d txset) (\<lambda>(g, e, d, _, txset).
               Some (Inr (g, e, d, txset)))) (upTo 0 n) (g, e, expDecoder env 2147483647, txset)) (\<lambda>(g, e, d, txset).
     Some (Inr (int (card txset), g))))"

definition simple_main :: "expEnv \<Rightarrow> (nat \<Rightarrow> nat \<Rightarrow> u64) \<Rightarrow> expRand \<Rightarrow> int \<Rightarrow> int \<Rightarrow> int \<Rightarrow> int \<Rightarrow> float64 run" where
  "simple_main env degs g t m ntest n =
     bindO (eachO (\<lambda>i (succ, g).
         bindO (simple_testOverlap env (degs i) g t n) (\<lambda>(failed, g).
           Some (Inr (if failed \<le> m then succ + 1 else succ, g)))) (upTo 0 ntest) (0, g)) (\<lambda>(succ, g).
     Some (Inr (f_div (f_of_int (ntest - succ)) (f_of_int ntest))))"

section \<open>\<open>decoding\<close>: the progress of one block\<close>

partial_function (option) decodingLoop ::
  "expEnv \<Rightarrow> expRand \<Rightarrow> ldpcEncoder \<Rightarrow> ldpcDecoder \<Rightarrow> ldpcTransaction set \<Rightarrow> int \<Rightarrow> int \<Rightarrow> (int \<times> int) list \<Rightarrow>
   (int \<times> int) list run" where
  "decodingLoop env g e d txset n orig rows =
     (if 0 < card txset
      then bindO (receiveOne env g e d txset) (\<lambda>(g, e, d, _, txset).
             decodingLoop env g e d txset (n + 1) orig (rows @ [(n + 1, orig - int (card txset))]))
      else Some (Inr rows))"

definition decoding_testOverlap :: "expEnv \<Rightarrow> (nat \<Rightarrow> u64) \<Rightarrow> expRand \<Rightarrow> int \<Rightarrow> (int \<times> int) list run" where
  "decoding_testOverlap env degs g t =
     bindO (fillBlock env t 0 g (expEncoder env degs t) {}) (\<lambda>(g, e, txset).
     decodingLoop env g e (expDecoder env 2147483647) txset 0 (int (card txset)) [])"

section \<open>\<open>detect-loss\<close>: a rule that stops the sender\<close>

text \<open>The loop over the stopping set, which ends at the first codeword that is not decoded.\<close>

fun allDecoded :: "ldpcDecoder \<Rightarrow> nat list \<Rightarrow> bool result" where
  "allDecoded d [] = Inr True"
| "allDecoded d (v # vs) = bindR (ldpc_Decoded d v) (\<lambda>b. if \<not> b then Inr False else allDecoded d vs)"

partial_function (option) detectLoss_loop ::
  "expEnv \<Rightarrow> int \<Rightarrow> bool \<Rightarrow> expRand \<Rightarrow> ldpcEncoder \<Rightarrow> ldpcDecoder \<Rightarrow> ldpcTransaction set \<Rightarrow> int \<Rightarrow> int \<Rightarrow> nat list \<Rightarrow>
   (int \<times> int \<times> expRand) run" where
  "detectLoss_loop env n lastN g e d txset nd i stoppingSet =
     bindO (receiveOne env g e d txset) (\<lambda>(g, e, d, stub, txset).
       let i = i + 1 in
       if lastN
       then bindO (Some (ldpc_Decoded d stub)) (\<lambda>b.
              let nd = (if b then nd + 1 else 0) in
              if nd \<ge> n then Some (Inr (int (card txset), i, g))
              else detectLoss_loop env n lastN g e d txset nd i stoppingSet)
       else if int (length stoppingSet) < n
       then detectLoss_loop env n lastN g e d txset nd i (stoppingSet @ [stub])
       else bindO (Some (allDecoded d stoppingSet)) (\<lambda>allSet.
              if allSet then Some (Inr (int (card txset), i, g))
              else detectLoss_loop env n lastN g e d txset nd i stoppingSet))"

definition detectLoss_testOverlap ::
  "expEnv \<Rightarrow> (nat \<Rightarrow> u64) \<Rightarrow> expRand \<Rightarrow> int \<Rightarrow> int \<Rightarrow> bool \<Rightarrow> (int \<times> int \<times> expRand) run" where
  "detectLoss_testOverlap env degs g t n lastN =
     bindO (fillBlock env t 0 g (expEncoder env degs t) {}) (\<lambda>(g, e, txset).
     detectLoss_loop env n lastN g e (expDecoder env 2147483647) txset 0 0 [])"

text \<open>The counting of failures that \<open>detect-loss\<close> and \<open>detect-loss-overlap\<close> share.\<close>

definition countTests ::
  "(nat \<Rightarrow> expRand \<Rightarrow> (int \<times> int \<times> expRand) run) \<Rightarrow> expRand \<Rightarrow> int \<Rightarrow> int \<Rightarrow> (float64 \<times> float64) run" where
  "countTests test g m ntest =
     bindO (eachO (\<lambda>i (succ, tot, g). bindO (test i g) (\<lambda>(failed, cws, g).
               Some (Inr (if failed \<le> m then succ + 1 else succ, tot + cws, g)))) (upTo 0 ntest) (0, 0, g)) (\<lambda>(succ, tot, g).
     Some (Inr (f_div (f_of_int (ntest - succ)) (f_of_int ntest), f_div (f_of_int tot) (f_of_int ntest))))"

definition detectLoss_main ::
  "expEnv \<Rightarrow> (nat \<Rightarrow> nat \<Rightarrow> u64) \<Rightarrow> expRand \<Rightarrow> int \<Rightarrow> int \<Rightarrow> int \<Rightarrow> int \<Rightarrow> bool \<Rightarrow> (int \<times> float64 \<times> float64) run" where
  "detectLoss_main env degs g t m ntest n lastN =
     bindO (countTests (\<lambda>i g. detectLoss_testOverlap env (degs i) g t n lastN) g m ntest) (\<lambda>(rate, cws).
     Some (Inr (n, rate, cws)))"

section \<open>\<open>detect-loss-overlap\<close>: the same with transactions that the receiver knows\<close>

partial_function (option) fillOverlap ::
  "expEnv \<Rightarrow> int \<Rightarrow> int \<Rightarrow> int \<Rightarrow> expRand \<Rightarrow> ldpcEncoder \<Rightarrow> ldpcDecoder \<Rightarrow> ldpcTransaction set \<Rightarrow>
   (expRand \<times> ldpcEncoder \<times> ldpcDecoder \<times> ldpcTransaction set) run" where
  "fillOverlap env t preadd cnt g e d txset =
     (if cnt < t
      then let (tx, g) = RandomTransaction env g in
        bindO (Some (ldpc_AddTransaction e tx)) (\<lambda>(e, ok).
          if ok
          then if cnt < t - preadd
               then fillOverlap env t preadd (cnt + 1) g e d (insert tx txset)
               else let (d, ptr) = allocTx d tx in
                 bindO (ldpc_Decoder_AddTransaction (exp_blake env) d ptr) (\<lambda>(d, _).
                   fillOverlap env t preadd (cnt + 1) g e d txset)
          else fillOverlap env t preadd cnt g e d txset)
      else Some (Inr (g, e, d, txset)))"

partial_function (option) detectOverlap_loop ::
  "expEnv \<Rightarrow> int \<Rightarrow> expRand \<Rightarrow> ldpcEncoder \<Rightarrow> ldpcDecoder \<Rightarrow> ldpcTransaction set \<Rightarrow> int \<Rightarrow> nat list \<Rightarrow>
   (int \<times> int \<times> expRand) run" where
  "detectOverlap_loop env n g e d txset i stoppingSet =
     bindO (receiveOne env g e d txset) (\<lambda>(g, e, d, stub, txset).
       let i = i + 1; stoppingSet = stoppingSet @ [stub] in
       if int (length stoppingSet) > n
       then bindO (Some (allDecoded d stoppingSet)) (\<lambda>allSet.
              if allSet then Some (Inr (int (card txset), i, g))
              else detectOverlap_loop env n g e d txset i stoppingSet)
       else detectOverlap_loop env n g e d txset i stoppingSet)"

definition detectOverlap_testOverlap ::
  "expEnv \<Rightarrow> (nat \<Rightarrow> u64) \<Rightarrow> expRand \<Rightarrow> int \<Rightarrow> int \<Rightarrow> int \<Rightarrow> (int \<times> int \<times> expRand) run" where
  "detectOverlap_testOverlap env degs g t n preadd =
     bindO (fillOverlap env t preadd 0 g (expEncoder env degs t) (expDecoder env 2147483647) {}) (\<lambda>(g, e, d, txset).
     detectOverlap_loop env n g e d txset 0 [])"

definition detectOverlap_main ::
  "expEnv \<Rightarrow> (nat \<Rightarrow> nat \<Rightarrow> u64) \<Rightarrow> expRand \<Rightarrow> int \<Rightarrow> int \<Rightarrow> int \<Rightarrow> int \<Rightarrow> int \<Rightarrow> (int \<times> int \<times> float64 \<times> float64) run" where
  "detectOverlap_main env degs g t m ntest n p =
     bindO (countTests (\<lambda>i g. detectOverlap_testOverlap env (degs i) g t n p) g m ntest) (\<lambda>(rate, cws).
     Some (Inr (p, n, rate, cws)))"

end
