(* ===== verification/Exp_Overlap.thy ===== *)
theory Exp_Overlap
  imports Exp_Ldpc
begin

text \<open>
  \<open>experiments/overlap/analysis-exp\<close>, two senders whose blocks overlap, and
  \<open>experiments/windowed-lt\<close>, which compares a block with a sliding window, both over \<open>ldpc\<close>;
  and the programs \<open>soliton-sample\<close> and \<open>control-loss\<close>, which evaluate the probabilities that the
  third-party distribution gives. A distribution that several encoders share is passed on with
  the samples that are left.
\<close>

section \<open>\<open>analysis-exp\<close>\<close>

partial_function (option) fillShared ::
  "expEnv \<Rightarrow> int \<Rightarrow> int \<Rightarrow> expRand \<Rightarrow> ldpcEncoder \<Rightarrow> ldpcEncoder \<Rightarrow> ldpcTransaction set \<Rightarrow> ldpcTransaction set \<Rightarrow>
   (expRand \<times> ldpcEncoder \<times> ldpcEncoder \<times> ldpcTransaction set \<times> ldpcTransaction set) run" where
  "fillShared env Tc cnt g e1 e2 txset1 txset2 =
     (if cnt < Tc
      then let (tx, g) = RandomTransaction env g in
        bindO (Some (ldpc_AddTransaction e1 tx)) (\<lambda>(e1, ok).
          if ok
          then bindO (Some (ldpc_AddTransaction e2 tx)) (\<lambda>(e2, _).
                 fillShared env Tc (cnt + 1) g e1 e2 (insert tx txset1) (insert tx txset2))
          else fillShared env Tc cnt g e1 e2 txset1 txset2)
      else Some (Inr (g, e1, e2, txset1, txset2)))"

text \<open>One codeword, whose transactions leave both sets.\<close>

definition receiveBoth ::
  "expEnv \<Rightarrow> expRand \<Rightarrow> ldpcDecoder \<Rightarrow> ldpcCodeword \<Rightarrow> ldpcTransaction set \<Rightarrow> ldpcTransaction set \<Rightarrow>
   (ldpcDecoder \<times> ldpcTransaction set \<times> ldpcTransaction set) run" where
  "receiveBoth env g d c txset1 txset2 =
     bindO (ldpc_AddCodeword (exp_blake env) d c) (\<lambda>(d, _, newtx).
     bindO (Some (removeDecoded d newtx txset1)) (\<lambda>txset1.
     bindO (Some (removeDecoded d newtx txset2)) (\<lambda>txset2. Some (Inr (d, txset1, txset2)))))"

text \<open>\<open>len(txset) > int(0.02*float64(T))\<close>\<close>

definition tooMany :: "ldpcTransaction set \<Rightarrow> int \<Rightarrow> bool result" where
  "tooMany txset T = bindR (f_to_int (f_mul (rnd (2 / 100)) (f_of_int T))) (\<lambda>limit. Inr (int (card txset) > limit))"

partial_function (option) analysis_loop ::
  "expEnv \<Rightarrow> int \<Rightarrow> int \<Rightarrow> expRand \<Rightarrow> ldpcEncoder \<Rightarrow> ldpcEncoder \<Rightarrow> ldpcDecoder \<Rightarrow> ldpcTransaction set \<Rightarrow> ldpcTransaction set \<Rightarrow>
   int \<Rightarrow> int \<Rightarrow> (int \<times> int \<times> expRand) run" where
  "analysis_loop env N1 N2 g e1 e2 d txset1 txset2 cnt1 cnt2 =
     bindO (Some (bindR (tooMany txset1 N1) (\<lambda>b. if b then Inr True else tooMany txset2 N2))) (\<lambda>more.
       if more
       then bindO (ldpc_ProduceCodeword (exp_math env) e1 (exp_rand g)) (\<lambda>(e1, c1, r).
            bindO (ldpc_ProduceCodeword (exp_math env) e2 r) (\<lambda>(e2, c2, r).
            let g = g\<lparr>exp_rand := r\<rparr> in
            bindO (receiveBoth env g d c1 txset1 txset2) (\<lambda>(d, txset1, txset2).
            bindO (receiveBoth env g d c2 txset1 txset2) (\<lambda>(d, txset1, txset2).
              analysis_loop env N1 N2 g e1 e2 d txset1 txset2 (cnt1 + 1) (cnt2 + 1)))))
       else Some (Inr (cnt1, cnt2, g)))"

text \<open>The third loop adds \<open>T1\<close> transactions to the second sender, as the first adds to the first.\<close>

definition analysis_testOverlap ::
  "expEnv \<Rightarrow> expRand \<Rightarrow> int \<Rightarrow> int \<Rightarrow> int \<Rightarrow> int \<Rightarrow> (int \<times> int \<times> expRand) run" where
  "analysis_testOverlap env g T1 T2 Tc K =
     (let e1 = expEncoder env (exp_soliton env 1 (word_of_int K)) (T1 + Tc);
          e2 = expEncoder env (exp_soliton env 2 (word_of_int K)) (T2 + Tc) in
      bindO (fillShared env Tc 0 g e1 e2 {} {}) (\<lambda>(g, e1, e2, txset1, txset2).
      bindO (fillBlock env T1 0 g e1 txset1) (\<lambda>(g, e1, txset1).
      bindO (fillBlock env T1 0 g e2 txset2) (\<lambda>(g, e2, txset2).
      analysis_loop env (T1 + Tc) (T2 + Tc) g e1 e2 (expDecoder env 2147483647) txset1 txset2 0 0))))"

definition analysis_main ::
  "expEnv \<Rightarrow> expRand \<Rightarrow> int \<Rightarrow> int \<Rightarrow> int \<Rightarrow> int \<Rightarrow> int \<Rightarrow>
   ((float64 \<times> float64 \<times> float64) list \<times> (float64 \<times> float64 \<times> float64)) run" where
  "analysis_main env g t1 t2 tc k ntest =
     bindO (eachO (\<lambda>_ (g, total1, total2, totalOverall, rows).
         bindO (analysis_testOverlap env g t1 t2 tc k) (\<lambda>(cnt1, cnt2, g).
           let r1 = f_div (f_of_int cnt1) (f_of_int (t1 + tc));
               r2 = f_div (f_of_int cnt2) (f_of_int (t2 + tc));
               overall = f_div (f_of_int (cnt1 + cnt2)) (f_of_int (t1 + t2 + tc)) in
           Some (Inr (g, f_add total1 r1, f_add total2 r2, f_add totalOverall overall, rows @ [(r1, r2, overall)]))))
         (upTo 0 ntest) (g, Fin 0, Fin 0, Fin 0, [])) (\<lambda>(g, total1, total2, totalOverall, rows).
     Some (Inr (rows, (f_div total1 (f_of_int ntest), f_div total2 (f_of_int ntest), f_div totalOverall (f_of_int ntest)))))"

section \<open>\<open>windowed-lt\<close>\<close>

partial_function (option) blockLoop ::
  "expEnv \<Rightarrow> expRand \<Rightarrow> ldpcEncoder \<Rightarrow> ldpcDecoder \<Rightarrow> ldpcTransaction set \<Rightarrow> int \<Rightarrow> (int \<times> ldpcEncoder \<times> expRand) run" where
  "blockLoop env g e d txset cnt =
     (if 0 < card txset
      then bindO (receiveOne env g e d txset) (\<lambda>(g, e, d, _, txset). blockLoop env g e d txset (cnt + 1))
      else Some (Inr (cnt, e, g)))"

text \<open>The state of one test: the third entry of the result tells whether the test returned in the loop.\<close>

partial_function (option) spendTestCredit ::
  "expEnv \<Rightarrow> expRand \<Rightarrow> ldpcEncoder \<Rightarrow> ldpcDecoder \<Rightarrow> ldpcTransaction set \<Rightarrow> float64 \<Rightarrow>
   (bool \<times> expRand \<times> ldpcEncoder \<times> ldpcDecoder \<times> ldpcTransaction set \<times> float64) run" where
  "spendTestCredit env g e d txset credit =
     (if f_less (Fin 1) credit
      then bindO (receiveOne env g e d txset) (\<lambda>(g, e, d, _, txset).
             let credit = f_sub credit (Fin 1) in
             if card txset = 0 then Some (Inr (True, g, e, d, txset, credit))
             else spendTestCredit env g e d txset credit)
      else Some (Inr (False, g, e, d, txset, credit)))"

fun slideWindow ::
  "expEnv \<Rightarrow> int \<Rightarrow> float64 \<Rightarrow> ldpcTransaction list \<Rightarrow> nat list \<Rightarrow> expRand \<Rightarrow> ldpcEncoder \<Rightarrow> ldpcDecoder \<Rightarrow>
   ldpcTransaction set \<Rightarrow> float64 \<Rightarrow> (bool \<times> ldpcEncoder \<times> expRand) run" where
  "slideWindow env K rate2 txs [] g e d txset credit = Some (Inr (card txset = 0, e, g))"
| "slideWindow env K rate2 txs (i # is) g e d txset credit =
     bindO (Some (get txs i)) (\<lambda>tx.
     bindO (Some (ldpc_AddTransaction e tx)) (\<lambda>(e, _).
       if int i < K then slideWindow env K rate2 txs is g e d txset credit
       else bindO (spendTestCredit env g e d txset (f_add credit rate2)) (\<lambda>(returned, g, e, d, txset, credit).
              if returned then Some (Inr (True, e, g))
              else slideWindow env K rate2 txs is g e d txset credit)))"

definition knowTransaction :: "expEnv \<Rightarrow> ldpcTransaction list \<Rightarrow> int \<Rightarrow> ldpcDecoder \<Rightarrow> ldpcDecoder run" where
  "knowTransaction env txs i d =
     bindO (Some (if i < 0 then Inl IndexOutOfRange else get txs (nat i))) (\<lambda>tx.
       let (d, ptr) = allocTx d tx in
       bindO (ldpc_Decoder_AddTransaction (exp_blake env) d ptr) (\<lambda>(d, _). Some (Inr d)))"

definition windowed_test ::
  "expEnv \<Rightarrow> int \<Rightarrow> int \<Rightarrow> ldpcTransaction list \<Rightarrow> (nat \<Rightarrow> u64) \<Rightarrow> expRand \<Rightarrow> float64 \<Rightarrow>
   (bool \<times> (nat \<Rightarrow> u64) \<times> expRand) run" where
  "windowed_test env K nc txs degs g rate2 =
     bindO (eachO (\<lambda>i d. bindO (knowTransaction env txs (int i) d) (\<lambda>d. knowTransaction env txs (int i + K + nc) d))
              (upTo 0 K) (expDecoder env 2147483647)) (\<lambda>d2.
     bindO (Some (eachR (\<lambda>i txset. bindR (get txs i) (\<lambda>tx. Inr (insert tx txset))) (upTo K (nc + K)) {})) (\<lambda>txset2.
     bindO (slideWindow env K rate2 txs (upTo 0 (nc + K + K)) g (expEncoder env degs K) d2 txset2 (Fin 0)) (\<lambda>(ok, e, g).
       Some (Inr (ok, ldegreeDist e, g)))))"

partial_function (option) bisectRate ::
  "expEnv \<Rightarrow> int \<Rightarrow> int \<Rightarrow> ldpcTransaction list \<Rightarrow> (nat \<Rightarrow> u64) \<Rightarrow> expRand \<Rightarrow> float64 \<Rightarrow> float64 \<Rightarrow> (float64 \<times> expRand) run" where
  "bisectRate env K nc txs degs g lo hi =
     (if f_less (rnd (1 / 100)) (f_sub hi lo)
      then let rate2 = f_div (f_add hi lo) (Fin 2) in
        bindO (windowed_test env K nc txs degs g rate2) (\<lambda>(ok, degs, g).
          if ok then bisectRate env K nc txs degs g lo rate2 else bisectRate env K nc txs degs g rate2 hi)
      else Some (Inr (hi, g)))"

definition windowed_testOverlap :: "expEnv \<Rightarrow> expRand \<Rightarrow> int \<Rightarrow> ldpcTransaction list \<Rightarrow> (float64 \<times> float64 \<times> expRand) run" where
  "windowed_testOverlap env g K txs =
     bindO (Some (eachR (\<lambda>ptr (e, txset).
         bindR (get txs ptr) (\<lambda>tx. bindR (ldpc_AddTransaction e tx) (\<lambda>(e, _). Inr (e, insert tx txset))))
         (upTo 0 K) (expEncoder env (exp_soliton env 1 (word_of_int K)) K, {}))) (\<lambda>(e1, txset).
     bindO (blockLoop env g e1 (expDecoder env 2147483647) txset 0) (\<lambda>(cnt1, e1, g).
     let rate1 = f_div (f_of_int cnt1) (f_of_int K) in
     bindO (bisectRate env K 5000 txs (ldegreeDist e1) g (Fin 1) (Fin 2)) (\<lambda>(best, g).
       Some (Inr (rate1, best, g)))))"

text \<open>The transactions of all tests; one that the encoder refuses is dropped.\<close>

partial_function (option) catchConflicts ::
  "expEnv \<Rightarrow> nat \<Rightarrow> expRand \<Rightarrow> ldpcEncoder \<Rightarrow> ldpcTransaction list \<Rightarrow> (ldpcTransaction list \<times> ldpcEncoder \<times> expRand) run" where
  "catchConflicts env n g e txs =
     (if length txs < n
      then let (tx, g) = RandomTransaction env g in
        bindO (Some (ldpc_AddTransaction e tx)) (\<lambda>(e, ok).
          catchConflicts env n g e (if ok then txs @ [tx] else txs))
      else Some (Inr (txs, e, g)))"

definition windowed_row ::
  "expEnv \<Rightarrow> ldpcTransaction list \<Rightarrow> int \<Rightarrow> expRand \<Rightarrow> ((int \<times> float64 \<times> float64 \<times> float64 \<times> float64) \<times> expRand) run" where
  "windowed_row env txs N g =
     (let ntest = 100 in
      bindO (eachO (\<lambda>_ (normalTotal, normalTotalSq, windowTotal, windowTotalSq, g).
          bindO (windowed_testOverlap env g N txs) (\<lambda>(normal, window, g).
            Some (Inr (f_add normalTotal normal, f_add normalTotalSq (f_mul normal normal),
                       f_add windowTotal window, f_add windowTotalSq (f_mul window window), g))))
          (upTo 0 ntest) (Fin 0, Fin 0, Fin 0, Fin 0, g)) (\<lambda>(normalTotal, normalTotalSq, windowTotal, windowTotalSq, g).
      let avg = (\<lambda>t. f_div t (f_of_int ntest));
          normalAvg = avg normalTotal;
          windowAvg = avg windowTotal;
          normalStd = f_sqrt (f_sub (avg normalTotalSq) (f_mul normalAvg normalAvg));
          windowStd = f_sqrt (f_sub (avg windowTotalSq) (f_mul windowAvg windowAvg))
      in Some (Inr ((N, normalAvg, normalStd, windowAvg, windowStd), g))))"

definition windowed_main :: "expEnv \<Rightarrow> expRand \<Rightarrow> (int \<times> float64 \<times> float64 \<times> float64 \<times> float64) list run" where
  "windowed_main env g =
     bindO (catchConflicts env 100000 g (expEncoder env (exp_soliton env 1 50) 100000) []) (\<lambda>(txs, _, g).
     bindO (eachO (\<lambda>N (rows, g). bindO (windowed_row env txs N g) (\<lambda>(row, g). Some (Inr (rows @ [row], g))))
              [20, 50, 75, 100, 150, 200] ([], g)) (\<lambda>(rows, g).
     Some (Inr rows)))"

section \<open>Probabilities\<close>

text \<open>\<open>soliton-sample\<close>: the two probability mass functions, numbered from 1.\<close>

definition solitonSample_main :: "float64 list \<Rightarrow> float64 list \<Rightarrow> (int \<times> float64) list \<times> (int \<times> float64) list" where
  "solitonSample_main pmf1 pmf2 =
     (let rows = (\<lambda>pmf. map (\<lambda>(i, p). (int i + 1, p)) (zip [0..<length pmf] pmf)) in (rows pmf1, rows pmf2))"

text \<open>\<open>control-loss\<close>: the position where the tail exceeds one in a thousand, -1 when it never does,
  and the sum from there, whose first access panics for -1.\<close>

fun tailFrom :: "nat \<Rightarrow> float64 list \<Rightarrow> float64 \<Rightarrow> int" where
  "tailFrom 0 pmf tot = - 1"
| "tailFrom (Suc sd) pmf tot =
     (let tot = f_add tot (pmf ! sd) in if f_less (rnd (1 / 1000)) tot then int sd else tailFrom sd pmf tot)"

definition controlLoss_main :: "float64 list \<Rightarrow> float64 result" where
  "controlLoss_main pmf =
     (let sd = tailFrom (length pmf) pmf (Fin 0) in
      if sd < 0 then Inl IndexOutOfRange
      else eachR (\<lambda>i loss. bindR (get pmf i) (\<lambda>p. Inr (f_add loss (f_mul (f_of_int (int i)) p))))
             (upTo sd (int (length pmf))) (Fin 0))"

end
