(* ===== verification/Exp_Control.thy ===== *)
theory Exp_Control
  imports Exp_Overlap
begin

text \<open>
  The rate controllers of \<open>experiments/\<close>: \<open>controller\<close>, \<open>new-controller\<close> and \<open>overlap/streams\<close>. A
  sender earns credit for codewords in steps of a millisecond; codewords that are not decoded
  in time raise the rate, codewords that are sent lower it. The three files define the same
  window of received codewords. A program is the list of the rows it prints. The loop of
  \<open>streams\<close> has no end: it is a step function.
\<close>

section \<open>The window of received codewords\<close>

record windowDecoder =
  wdec :: ldpcDecoder
  rxWindow :: "(nat \<times> int) list"

definition newWindow :: "expEnv \<Rightarrow> windowDecoder" where
  "newWindow env = \<lparr>wdec = expDecoder env 262144, rxWindow = []\<rparr>"

text \<open>The codewords at the head of the window that have timed out are freed; those not decoded are a loss.\<close>

fun scanLoop ::
  "int \<Rightarrow> int \<Rightarrow> (nat \<times> int) list \<Rightarrow> ldpcDecoder \<Rightarrow> int \<Rightarrow> (ldpcDecoder \<times> (nat \<times> int) list \<times> int) result" where
  "scanLoop step timeout [] p loss = Inr (p, [], loss)"
| "scanLoop step timeout ((stub, receivedTime) # rest) p loss =
     (if step - receivedTime < timeout then Inr (p, (stub, receivedTime) # rest, loss)
      else bindR (ldpc_Decoded p stub) (\<lambda>b.
           bindR (Free p stub) (\<lambda>p. scanLoop step timeout rest p (if \<not> b then loss + 1 else loss))))"

definition scan :: "int \<Rightarrow> int \<Rightarrow> windowDecoder \<Rightarrow> (windowDecoder \<times> int) result" where
  "scan step timeout d =
     bindR (scanLoop step timeout (rxWindow d) (wdec d) 0) (\<lambda>(p, win, loss). Inr (d\<lparr>wdec := p, rxWindow := win\<rparr>, loss))"

definition addWindow ::
  "expEnv \<Rightarrow> int \<Rightarrow> windowDecoder \<Rightarrow> ldpcCodeword \<Rightarrow> (windowDecoder \<times> nat \<times> DecodedTransaction list) run" where
  "addWindow env step d cw =
     bindO (ldpc_AddCodeword (exp_blake env) (wdec d) cw) (\<lambda>(p, stub, txs).
       Some (Inr (d\<lparr>wdec := p, rxWindow := rxWindow d @ [(stub, step)]\<rparr>, stub, txs)))"

definition nextFloat :: "expRand \<Rightarrow> float64 \<times> expRand" where
  "nextFloat g = (let (r, u) = randFloat (exp_rand g) in (u, g\<lparr>exp_rand := r\<rparr>))"

section \<open>\<open>controller\<close>\<close>

record ctl =
  cd :: windowDecoder
  cdvirt :: windowDecoder
  ce :: ldpcEncoder
  cg :: expRand
  crate :: float64
  ccredit :: float64
  cvirt :: float64
  cl :: int
  ccw :: int
  totCw :: int
  totLoss :: int

record ctlParams =
  par_s :: float64
  par_timeout :: int
  par_alpha :: float64
  par_loss :: float64
  par_drop :: float64

text \<open>One codeword: it goes to the decoder, and unless it is dropped to the virtual one.\<close>

definition ctl_send :: "expEnv \<Rightarrow> ctlParams \<Rightarrow> int \<Rightarrow> ctl \<Rightarrow> ctl run" where
  "ctl_send env par step st =
     bindO (ldpc_ProduceCodeword (exp_math env) (ce st) (exp_rand (cg st))) (\<lambda>(e, codeword, r).
     let st = st\<lparr>ce := e, cg := (cg st)\<lparr>exp_rand := r\<rparr>, ccredit := f_sub (ccredit st) (Fin 1), ccw := ccw st + 1,
                totCw := (if step > 100000 then totCw st + 1 else totCw st)\<rparr> in
     bindO (addWindow env step (cd st) codeword) (\<lambda>(d, _).
     let st = st\<lparr>cd := d, cvirt := f_add (cvirt st) (par_drop par)\<rparr> in
     if f_less (cvirt st) (Fin 1)
     then bindO (addWindow env step (cdvirt st) codeword) (\<lambda>(dv, _).
            Some (Inr (st\<lparr>cdvirt := dv,
              crate := f_sub (crate st) (f_div (f_mul (par_loss par) (par_alpha par)) (Fin 1000))\<rparr>)))
     else Some (Inr (st\<lparr>cvirt := f_sub (cvirt st) (Fin 1)\<rparr>))))"

partial_function (option) ctl_spend :: "expEnv \<Rightarrow> ctlParams \<Rightarrow> int \<Rightarrow> ctl \<Rightarrow> ctl run" where
  "ctl_spend env par step st =
     (if f_ge (ccredit st) (Fin 1) then bindO (ctl_send env par step st) (ctl_spend env par step) else Some (Inr st))"

text \<open>One millisecond: the body of the loop, up to the printed row.\<close>

definition ctl_step :: "expEnv \<Rightarrow> ctlParams \<Rightarrow> int \<Rightarrow> ctl \<Rightarrow> ctl run" where
  "ctl_step env par step st =
     (let (u, g) = nextFloat (cg st); st = st\<lparr>cg := g\<rparr> in
      bindO (if f_less u (par_s par)
             then let (tx, g) = RandomTransaction env (cg st) in
                  bindO (Some (ldpc_AddTransaction (ce st) tx)) (\<lambda>(e, _). Some (Inr (st\<lparr>ce := e, cg := g\<rparr>)))
             else Some (Inr st)) (\<lambda>st.
      bindO (ctl_spend env par step (st\<lparr>ccredit := f_add (ccredit st) (crate st)\<rparr>)) (\<lambda>st.
      bindO (Some (scan step (par_timeout par) (cdvirt st))) (\<lambda>(dv, loss).
      let st = st\<lparr>cdvirt := dv,
                 crate := f_add (crate st) (f_mul (f_div (par_alpha par) (Fin 1000)) (f_of_int loss))\<rparr> in
      bindO (Some (scan step (par_timeout par) (cd st))) (\<lambda>(d, realLoss).
      Some (Inr (st\<lparr>cd := d, cl := cl st + realLoss,
                    totLoss := (if step > 100000 then totLoss st + realLoss else totLoss st)\<rparr>)))))))"

partial_function (option) ctl_loop ::
  "expEnv \<Rightarrow> ctlParams \<Rightarrow> int \<Rightarrow> ctl \<Rightarrow> (int \<times> float64 \<times> float64) list \<Rightarrow> (ctl \<times> (int \<times> float64 \<times> float64) list) run" where
  "ctl_loop env par step st rows =
     (let step = step + 1 in
      bindO (ctl_step env par step st) (\<lambda>st.
        let (st, rows) =
              (if step mod 1000 = 0
               then (st\<lparr>cl := 0, ccw := 0\<rparr>, rows @ [(step, crate st, f_div (f_of_int (cl st)) (f_of_int (ccw st)))])
               else (st, rows))
        in if step > 500000 then Some (Inr (st, rows)) else ctl_loop env par step st rows))"

definition controller_testController ::
  "expEnv \<Rightarrow> expRand \<Rightarrow> int \<Rightarrow> float64 \<Rightarrow> float64 \<Rightarrow> int \<Rightarrow> float64 \<Rightarrow> float64 \<Rightarrow> float64 \<Rightarrow>
   ((int \<times> float64 \<times> float64) list \<times> float64 \<times> float64) run" where
  "controller_testController env g K s rinit timeout alpha loss drp =
     (let st = \<lparr>cd = newWindow env, cdvirt = newWindow env, ce = expEncoder env (exp_soliton env 1 (word_of_int K)) K,
                cg = g, crate = rinit, ccredit = Fin 0, cvirt = Fin 0, cl = 0, ccw = 0, totCw = 0, totLoss = 0\<rparr>;
          par = \<lparr>par_s = s, par_timeout = timeout, par_alpha = alpha, par_loss = loss, par_drop = drp\<rparr> in
      bindO (ctl_loop env par 0 st []) (\<lambda>(st, rows).
        Some (Inr (rows, f_div (f_of_int (totLoss st)) (f_of_int (totCw st)),
                   f_div (f_div (f_div (f_of_int (totCw st)) (Fin 400)) s) (Fin 1000)))))"

definition controller_main ::
  "expEnv \<Rightarrow> expRand \<Rightarrow> float64 \<Rightarrow> float64 \<Rightarrow> float64 \<Rightarrow> ((int \<times> float64 \<times> float64) list \<times> float64 \<times> float64) run" where
  "controller_main env g gamma drp alpha =
     controller_testController env g 50 (rnd (6 / 10)) (rnd (1 / 10)) 500 alpha gamma drp"

section \<open>\<open>new-controller\<close>\<close>

text \<open>\<open>nc_nd\<close> counts the codewords decoded in a row. The counter \<open>l\<close> of the source, which it never
  increases, is \<open>nc_l\<close>.\<close>

record newCtl =
  nc_d :: windowDecoder
  nc_nd :: int
  nc_e :: ldpcEncoder
  nc_g :: expRand
  nc_r :: float64
  nc_c :: float64
  nc_l :: int
  nc_cw :: int
  nc_windowCw :: int
  nc_dec :: int
  nc_gen :: int
  txQueue :: "ldpcTransaction list"

text \<open>Adding a codeword: whether 20 in a row are decoded, and the number of its transactions.\<close>

definition nc_add :: "expEnv \<Rightarrow> int \<Rightarrow> ldpcCodeword \<Rightarrow> newCtl \<Rightarrow> (bool \<times> int \<times> newCtl) run" where
  "nc_add env step cw st =
     bindO (addWindow env step (nc_d st) cw) (\<lambda>(d, stub, txs).
     bindO (Some (ldpc_Decoded (wdec d) stub)) (\<lambda>b.
       let nd = (if b then nc_nd st + 1 else 0); st = st\<lparr>nc_d := d, nc_nd := nd\<rparr> in
       Some (Inr (if nd \<ge> 20 then (True, int (length txs), st\<lparr>nc_nd := 0\<rparr>) else (False, int (length txs), st)))))"

text \<open>Moving up to \<open>K\<close> transactions of the queue into the encoder.\<close>

definition moveWindow ::
  "int \<Rightarrow> ldpcEncoder \<Rightarrow> ldpcTransaction list \<Rightarrow> (ldpcEncoder \<times> ldpcTransaction list) result" where
  "moveWindow K e q =
     (let k = (if int (length q) < K then int (length q) else K) in
      bindR (eachR (\<lambda>i e. bindR (get q i) (\<lambda>tx. bindR (ldpc_AddTransaction e tx) (\<lambda>(e, _). Inr e))) (upTo 0 k) e) (\<lambda>e.
        if k < 0 then Inl IndexOutOfRange else Inr (e, drop (nat k) q)))"

definition nc_send :: "expEnv \<Rightarrow> int \<Rightarrow> float64 \<Rightarrow> float64 \<Rightarrow> int \<Rightarrow> newCtl \<Rightarrow> newCtl run" where
  "nc_send env K alpha loss step st =
     bindO (ldpc_ProduceCodeword (exp_math env) (nc_e st) (exp_rand (nc_g st))) (\<lambda>(e, codeword, r).
     let st = st\<lparr>nc_e := e, nc_g := (nc_g st)\<lparr>exp_rand := r\<rparr>, nc_c := f_sub (nc_c st) (Fin 1), nc_cw := nc_cw st + 1,
                nc_windowCw := nc_windowCw st + 1\<rparr> in
     bindO (nc_add env step codeword st) (\<lambda>(canMove, decoded, st).
     let st = st\<lparr>nc_dec := nc_dec st + decoded\<rparr> in
     bindO (if canMove
            then bindO (Some (moveWindow K (nc_e st) (txQueue st))) (\<lambda>(e, q). Some (Inr (st\<lparr>nc_e := e, txQueue := q\<rparr>)))
            else Some (Inr st)) (\<lambda>st.
     Some (Inr (st\<lparr>nc_r := f_sub (nc_r st) (f_div (f_mul loss alpha) (Fin 1000))\<rparr>)))))"

partial_function (option) nc_spend :: "expEnv \<Rightarrow> int \<Rightarrow> float64 \<Rightarrow> float64 \<Rightarrow> int \<Rightarrow> newCtl \<Rightarrow> newCtl run" where
  "nc_spend env K alpha loss step st =
     (if f_ge (nc_c st) (Fin 1) then bindO (nc_send env K alpha loss step st) (nc_spend env K alpha loss step)
      else Some (Inr st))"

type_synonym ncRow = "int \<times> float64 \<times> float64 \<times> int \<times> int \<times> int"

definition nc_step ::
  "expEnv \<Rightarrow> int \<Rightarrow> float64 \<Rightarrow> int \<Rightarrow> float64 \<Rightarrow> float64 \<Rightarrow> int \<Rightarrow> newCtl \<Rightarrow> ncRow list \<Rightarrow> (newCtl \<times> ncRow list) run" where
  "nc_step env K s timeout alpha loss step st rows =
     (let (u, g) = nextFloat (nc_g st); st = st\<lparr>nc_g := g\<rparr>;
          st = (if f_less u s
                then let (tx, g) = RandomTransaction env (nc_g st)
                     in st\<lparr>nc_g := g, txQueue := txQueue st @ [tx], nc_gen := nc_gen st + 1\<rparr>
                else st) in
      bindO (nc_spend env K alpha loss step (st\<lparr>nc_c := f_add (nc_c st) (nc_r st)\<rparr>)) (\<lambda>st.
      bindO (Some (scan step timeout (nc_d st))) (\<lambda>(d, realLoss).
      let st = st\<lparr>nc_d := d, nc_r := f_add (nc_r st) (f_mul (f_div alpha (Fin 1000)) (f_of_int realLoss))\<rparr> in
      Some (Inr (if step mod 1000 = 0
                 then (st\<lparr>nc_l := 0, nc_windowCw := 0\<rparr>,
                       rows @ [(step, nc_r st, f_div (f_of_int (nc_l st)) (f_of_int (nc_windowCw st)), nc_cw st, nc_dec st, nc_gen st)])
                 else (st, rows))))))"

definition newController_testController ::
  "expEnv \<Rightarrow> expRand \<Rightarrow> int \<Rightarrow> float64 \<Rightarrow> float64 \<Rightarrow> int \<Rightarrow> float64 \<Rightarrow> float64 \<Rightarrow> ncRow list run" where
  "newController_testController env g K s rinit timeout alpha loss =
     bindO (eachO (\<lambda>_ (e, g, gen). let (tx, g) = RandomTransaction env g in
               bindO (Some (ldpc_AddTransaction e tx)) (\<lambda>(e, _). Some (Inr (e, g, gen + 1))))
              (upTo 0 K) (expEncoder env (exp_soliton env 1 (word_of_int K)) K, g, 0)) (\<lambda>(e, g, gen).
     let st = \<lparr>nc_d = newWindow env, nc_nd = 0, nc_e = e, nc_g = g, nc_r = rinit, nc_c = Fin 0, nc_l = 0, nc_cw = 0,
               nc_windowCw = 0, nc_dec = 0, nc_gen = gen, txQueue = []\<rparr> in
     bindO (eachO (\<lambda>step (st, rows). nc_step env K s timeout alpha loss (int step) st rows) [0..<500000] (st, [])) (\<lambda>(_, rows).
     Some (Inr rows)))"

definition newController_main :: "expEnv \<Rightarrow> expRand \<Rightarrow> float64 \<Rightarrow> float64 \<Rightarrow> ncRow list run" where
  "newController_main env g gamma alpha =
     newController_testController env g 500 (rnd (6 / 10)) (rnd (1 / 10)) 5000 alpha gamma"

section \<open>\<open>streams\<close>: two senders and two decoders that share what they decode\<close>

text \<open>A transaction that one decoder finds is added to the other, as long as any are found.\<close>

definition giveAll ::
  "expEnv \<Rightarrow> ldpcDecoder \<Rightarrow> DecodedTransaction list \<Rightarrow> ldpcDecoder \<Rightarrow> (ldpcDecoder \<times> DecodedTransaction list) run" where
  "giveAll env source txs d =
     eachO (\<lambda>t (d, newtxs).
         bindO (Some (deref (preimages source) (Transaction t))) (\<lambda>tx.
           let (d, ptr) = allocTx d tx in
           bindO (ldpc_Decoder_AddTransaction (exp_blake env) d ptr) (\<lambda>(d, buf). Some (Inr (d, newtxs @ buf))))) txs (d, [])"

text \<open>\<open>one\<close> is the decoder that found \<open>txs\<close>, \<open>other\<close> the one that gets them; they change places.\<close>

partial_function (option) exchange ::
  "expEnv \<Rightarrow> ldpcDecoder \<Rightarrow> ldpcDecoder \<Rightarrow> bool \<Rightarrow> DecodedTransaction list \<Rightarrow> (ldpcDecoder \<times> ldpcDecoder \<times> bool) run" where
  "exchange env one other swapped txs =
     (if txs = [] then Some (Inr (one, other, swapped))
      else bindO (giveAll env one txs other) (\<lambda>(other, newtxs). exchange env other one (\<not> swapped) newtxs))"

definition streams_add ::
  "expEnv \<Rightarrow> int \<Rightarrow> windowDecoder \<Rightarrow> windowDecoder \<Rightarrow> ldpcCodeword \<Rightarrow> (windowDecoder \<times> windowDecoder) run" where
  "streams_add env step d other cw =
     bindO (addWindow env step d cw) (\<lambda>(d, _, txs).
     bindO (exchange env (wdec d) (wdec other) False txs) (\<lambda>(p, q, swapped).
       let (p, q) = (if swapped then (q, p) else (p, q)) in
       Some (Inr (d\<lparr>wdec := p\<rparr>, other\<lparr>wdec := q\<rparr>))))"

record streams =
  sd1 :: windowDecoder
  sd2 :: windowDecoder
  se1 :: ldpcEncoder
  se2 :: ldpcEncoder
  sdist :: "nat \<Rightarrow> u64"
  sgen :: expRand
  sr1 :: float64
  sr2 :: float64
  sc1 :: float64
  sc2 :: float64
  sl1 :: int
  sl2 :: int
  scw1 :: int
  scw2 :: int
  sstep :: int

text \<open>Producing a codeword from the distribution that the encoders share.\<close>

definition produceShared ::
  "expEnv \<Rightarrow> (nat \<Rightarrow> u64) \<Rightarrow> ldpcEncoder \<Rightarrow> expRand \<Rightarrow> (ldpcEncoder \<times> ldpcCodeword \<times> (nat \<Rightarrow> u64) \<times> expRand) run" where
  "produceShared env degs e g =
     bindO (ldpc_ProduceCodeword (exp_math env) (e\<lparr>ldegreeDist := degs\<rparr>) (exp_rand g)) (\<lambda>(e, cw, r).
       Some (Inr (e, cw, ldegreeDist e, g\<lparr>exp_rand := r\<rparr>)))"

text \<open>\<open>if (rand.Float64() < p) { ... }\<close> around adding a transaction to some encoders.\<close>

definition arriveAt ::
  "expEnv \<Rightarrow> float64 \<Rightarrow> bool \<Rightarrow> bool \<Rightarrow> streams \<Rightarrow> streams result" where
  "arriveAt env p to1 to2 st =
     (let (u, g) = nextFloat (sgen st) in
      if f_less u p
      then let (tx, g) = RandomTransaction env g in
        bindR (if to1 then ldpc_AddTransaction (se1 st) tx else Inr (se1 st, False)) (\<lambda>(e1, _).
        bindR (if to2 then ldpc_AddTransaction (se2 st) tx else Inr (se2 st, False)) (\<lambda>(e2, _).
          Inr (st\<lparr>sgen := g, se1 := e1, se2 := e2\<rparr>)))
      else Inr (st\<lparr>sgen := g\<rparr>))"

definition streams_send1 :: "expEnv \<Rightarrow> streams \<Rightarrow> streams run" where
  "streams_send1 env st =
     bindO (produceShared env (sdist st) (se1 st) (sgen st)) (\<lambda>(e, cw, degs, g).
     bindO (streams_add env (sstep st) (sd1 st) (sd2 st) cw) (\<lambda>(d1, d2).
       Some (Inr (st\<lparr>se1 := e, sdist := degs, sgen := g, sd1 := d1, sd2 := d2,
         sr1 := f_sub (sr1 st) (rnd (2 / 1000000)), sc1 := f_sub (sc1 st) (Fin 1), scw1 := scw1 st + 1\<rparr>))))"

definition streams_send2 :: "expEnv \<Rightarrow> streams \<Rightarrow> streams run" where
  "streams_send2 env st =
     bindO (produceShared env (sdist st) (se2 st) (sgen st)) (\<lambda>(e, cw, degs, g).
     bindO (streams_add env (sstep st) (sd2 st) (sd1 st) cw) (\<lambda>(d2, d1).
       Some (Inr (st\<lparr>se2 := e, sdist := degs, sgen := g, sd1 := d1, sd2 := d2,
         sr2 := f_sub (sr2 st) (rnd (2 / 1000000)), sc2 := f_sub (sc2 st) (Fin 1), scw2 := scw2 st + 1\<rparr>))))"

partial_function (option) streams_spend1 :: "expEnv \<Rightarrow> streams \<Rightarrow> streams run" where
  "streams_spend1 env st =
     (if f_ge (sc1 st) (Fin 1) then bindO (streams_send1 env st) (streams_spend1 env) else Some (Inr st))"

partial_function (option) streams_spend2 :: "expEnv \<Rightarrow> streams \<Rightarrow> streams run" where
  "streams_spend2 env st =
     (if f_ge (sc2 st) (Fin 1) then bindO (streams_send2 env st) (streams_spend2 env) else Some (Inr st))"

type_synonym streamsRow = "int \<times> float64 \<times> float64 \<times> float64 \<times> float64"

definition streams_step ::
  "expEnv \<Rightarrow> float64 \<Rightarrow> float64 \<Rightarrow> float64 \<Rightarrow> int \<Rightarrow> streams \<Rightarrow> streamsRow list \<Rightarrow> (streams \<times> streamsRow list) run" where
  "streams_step env s1 s2 common timeout st rows =
     bindO (Some (arriveAt env s1 True False (st\<lparr>sstep := sstep st + 1\<rparr>))) (\<lambda>st.
     bindO (Some (arriveAt env s2 False True st)) (\<lambda>st.
     bindO (Some (arriveAt env common True True st)) (\<lambda>st.
     bindO (streams_spend1 env (st\<lparr>sc1 := f_add (sc1 st) (sr1 st), sc2 := f_add (sc2 st) (sr2 st)\<rparr>)) (\<lambda>st.
     bindO (streams_spend2 env st) (\<lambda>st.
     bindO (Some (scan (sstep st) timeout (sd1 st))) (\<lambda>(d1, loss1).
     let st = st\<lparr>sd1 := d1, sr1 := f_add (sr1 st) (f_mul (rnd (1 / 10000)) (f_of_int loss1))\<rparr> in
     bindO (Some (scan (sstep st) timeout (sd2 st))) (\<lambda>(d2, loss2).
     let st = st\<lparr>sd2 := d2, sr2 := f_add (sr2 st) (f_mul (rnd (1 / 10000)) (f_of_int loss2)),
                sl1 := sl1 st + loss1, sl2 := sl2 st + loss2\<rparr> in
     Some (Inr (if sstep st mod 10000 = 0
       then (st\<lparr>sl1 := 0, sl2 := 0, scw1 := 0, scw2 := 0\<rparr>,
             rows @ [(sstep st, sr1 st, sr2 st, f_div (f_of_int (sl1 st)) (f_of_int (scw1 st)),
                      f_div (f_of_int (sl2 st)) (f_of_int (scw2 st)))])
       else (st, rows))))))))))"

text \<open>The state and the rows after \<open>n\<close> rounds of the endless loop.\<close>

definition streams_testController ::
  "expEnv \<Rightarrow> expRand \<Rightarrow> int \<Rightarrow> float64 \<Rightarrow> float64 \<Rightarrow> float64 \<Rightarrow> float64 \<Rightarrow> float64 \<Rightarrow> int \<Rightarrow> nat \<Rightarrow> (streams \<times> streamsRow list) run" where
  "streams_testController env g K s1 s2 common r1init r2init timeout n =
     (let degs = exp_soliton env 1 (word_of_int K);
          st = \<lparr>sd1 = newWindow env, sd2 = newWindow env, se1 = expEncoder env degs K, se2 = expEncoder env degs K,
                sdist = degs, sgen = g, sr1 = r1init, sr2 = r2init, sc1 = Fin 0, sc2 = Fin 0,
                sl1 = 0, sl2 = 0, scw1 = 0, scw2 = 0, sstep = 0\<rparr> in
      eachO (\<lambda>_ (st, rows). streams_step env s1 s2 common timeout st rows) [0..<n] (st, []))"

section \<open>\<open>streams\<close>: the rates that deliver\<close>

record pairTest =
  td :: ldpcDecoder
  te1 :: ldpcEncoder
  te2 :: ldpcEncoder
  tdist :: "nat \<Rightarrow> u64"
  tg :: expRand
  tset1 :: "ldpcTransaction set"
  tset2 :: "ldpcTransaction set"
  tc1 :: float64
  tc2 :: float64
  tptr :: nat

text \<open>\<open>if (rand.Float64() < p) { ... }\<close> around adding the next transaction to some encoders and their sets.\<close>

definition takeNext ::
  "ldpcTransaction list \<Rightarrow> float64 \<Rightarrow> bool \<Rightarrow> bool \<Rightarrow> pairTest \<Rightarrow> pairTest result" where
  "takeNext txs p to1 to2 st =
     (let (u, g) = nextFloat (tg st); st = st\<lparr>tg := g\<rparr> in
      if f_less u p
      then bindR (get txs (tptr st)) (\<lambda>tx.
           bindR (if to1 then ldpc_AddTransaction (te1 st) tx else Inr (te1 st, False)) (\<lambda>(e1, _).
           bindR (if to2 then ldpc_AddTransaction (te2 st) tx else Inr (te2 st, False)) (\<lambda>(e2, _).
             Inr (st\<lparr>te1 := e1, te2 := e2, tset1 := (if to1 then insert tx (tset1 st) else tset1 st),
                     tset2 := (if to2 then insert tx (tset2 st) else tset2 st), tptr := tptr st + 1\<rparr>))))
      else Inr st)"

partial_function (option) pair_spend1 :: "expEnv \<Rightarrow> pairTest \<Rightarrow> pairTest run" where
  "pair_spend1 env st =
     (if f_ge (tc1 st) (Fin 1)
      then bindO (produceShared env (tdist st) (te1 st) (tg st)) (\<lambda>(e, c, degs, g).
           bindO (receiveBoth env g (td st) c (tset1 st) (tset2 st)) (\<lambda>(d, set1, set2).
             pair_spend1 env (st\<lparr>te1 := e, tdist := degs, tg := g, td := d, tset1 := set1, tset2 := set2,
                                 tc1 := f_sub (tc1 st) (Fin 1)\<rparr>)))
      else Some (Inr st))"

partial_function (option) pair_spend2 :: "expEnv \<Rightarrow> pairTest \<Rightarrow> pairTest run" where
  "pair_spend2 env st =
     (if f_ge (tc2 st) (Fin 1)
      then bindO (produceShared env (tdist st) (te2 st) (tg st)) (\<lambda>(e, c, degs, g).
           bindO (receiveBoth env g (td st) c (tset1 st) (tset2 st)) (\<lambda>(d, set1, set2).
             pair_spend2 env (st\<lparr>te2 := e, tdist := degs, tg := g, td := d, tset1 := set1, tset2 := set2,
                                 tc2 := f_sub (tc2 st) (Fin 1)\<rparr>)))
      else Some (Inr st))"

definition pair_round ::
  "expEnv \<Rightarrow> ldpcTransaction list \<Rightarrow> float64 \<Rightarrow> float64 \<Rightarrow> float64 \<Rightarrow> float64 \<Rightarrow> float64 \<Rightarrow> pairTest \<Rightarrow> pairTest run" where
  "pair_round env txs s1 s2 common r1 r2 st =
     bindO (Some (takeNext txs s1 True False st)) (\<lambda>st.
     bindO (Some (takeNext txs s2 False True st)) (\<lambda>st.
     bindO (Some (takeNext txs common True True st)) (\<lambda>st.
     bindO (pair_spend1 env (st\<lparr>tc1 := f_add (tc1 st) r1, tc2 := f_add (tc2 st) r2\<rparr>)) (pair_spend2 env))))"

definition pair_test ::
  "expEnv \<Rightarrow> ldpcTransaction list \<Rightarrow> int \<Rightarrow> int \<Rightarrow> float64 \<Rightarrow> float64 \<Rightarrow> float64 \<Rightarrow> float64 \<Rightarrow> float64 \<Rightarrow> (nat \<Rightarrow> u64) \<Rightarrow> expRand \<Rightarrow>
   (float64 \<times> float64 \<times> (nat \<Rightarrow> u64) \<times> expRand) run" where
  "pair_test env txs K N s1 s2 common r1 r2 degs g =
     (let st = \<lparr>td = expDecoder env 2147483647, te1 = expEncoder env degs K, te2 = expEncoder env degs K, tdist = degs,
                tg = g, tset1 = {}, tset2 = {}, tc1 = Fin 0, tc2 = Fin 0, tptr = 0\<rparr> in
      bindO (eachO (\<lambda>_. pair_round env txs s1 s2 common r1 r2) (upTo 0 N) st) (\<lambda>st.
        Some (Inr (f_div (f_of_int (N - int (card (tset1 st)))) (f_of_int N),
                   f_div (f_of_int (N - int (card (tset2 st)))) (f_of_int N), tdist st, tg st))))"

partial_function (option) searchRate ::
  "(float64 \<Rightarrow> (nat \<Rightarrow> u64) \<Rightarrow> expRand \<Rightarrow> (float64 \<times> float64 \<times> (nat \<Rightarrow> u64) \<times> expRand) run) \<Rightarrow> float64 \<Rightarrow>
   float64 \<Rightarrow> float64 \<Rightarrow> float64 \<Rightarrow> (nat \<Rightarrow> u64) \<Rightarrow> expRand \<Rightarrow> (float64 \<times> (nat \<Rightarrow> u64) \<times> expRand) run" where
  "searchRate test threshold r1 lastOk lastFail degs g =
     (if f_less (rnd (1 / 100)) (f_sub lastOk lastFail)
      then bindO (test r1 degs g) (\<lambda>(d1, d2, degs, g).
             if f_less threshold d1 \<and> f_less threshold d2
             then searchRate test threshold (f_div (f_add r1 lastFail) (Fin 2)) r1 lastFail degs g
             else searchRate test threshold (f_div (f_add r1 lastOk) (Fin 2)) lastOk r1 degs g)
      else Some (Inr (lastOk, degs, g)))"

text \<open>The loop over the rates of the second sender. Its first rate is \<open>minRate + maxRate/2\<close>.\<close>

partial_function (option) streams_rates ::
  "(float64 \<Rightarrow> float64 \<Rightarrow> (nat \<Rightarrow> u64) \<Rightarrow> expRand \<Rightarrow> (float64 \<times> float64 \<times> (nat \<Rightarrow> u64) \<times> expRand) run) \<Rightarrow> float64 \<Rightarrow>
   float64 \<Rightarrow> float64 \<Rightarrow> float64 \<Rightarrow> (nat \<Rightarrow> u64) \<Rightarrow> expRand \<Rightarrow> (float64 \<times> float64) list \<Rightarrow> (float64 \<times> float64) list run" where
  "streams_rates test threshold minR maxR r2 degs g rows =
     (if f_ge maxR r2
      then bindO (searchRate (\<lambda>r1. test r1 r2) threshold (f_add minR (f_div maxR (Fin 2))) maxR minR degs g) (\<lambda>(lastOk, degs, g).
             streams_rates test threshold minR maxR (f_add r2 (rnd (2 / 100))) degs g
               (if lastOk \<noteq> maxR then rows @ [(lastOk, r2)] else rows))
      else Some (Inr rows))"

definition streams_testOverlap ::
  "expEnv \<Rightarrow> expRand \<Rightarrow> int \<Rightarrow> int \<Rightarrow> float64 \<Rightarrow> float64 \<Rightarrow> float64 \<Rightarrow> float64 \<Rightarrow> (float64 \<times> float64) list run" where
  "streams_testOverlap env g K N s1 s2 common threshold =
     (let degs = exp_soliton env 1 (word_of_int K) in
      bindO (catchConflicts env (nat (N * 3)) g (expEncoder env degs (N * 3)) []) (\<lambda>(txs, _, g).
      streams_rates (\<lambda>r1 r2. pair_test env txs K N s1 s2 common r1 r2) threshold (Fin 0) (Fin 3) s2 degs g []))"

text \<open>\<open>main\<close> runs the controller; its call of \<open>testOverlap\<close> is commented out.\<close>

definition streams_main :: "expEnv \<Rightarrow> expRand \<Rightarrow> nat \<Rightarrow> (streams \<times> streamsRow list) run" where
  "streams_main env g n =
     streams_testController env g 50 (rnd (6 / 10)) (rnd (1 / 10)) (rnd (4 / 10)) (rnd (1 / 10)) (rnd (1 / 10)) 500 n"

end
