(* ===== verification/Iblt.thy ===== *)
theory Iblt
  imports Lt_Decoder
begin

text \<open>
  \<open>iblt/\<close> is a copy of \<open>lt/\<close>: the sources differ in the package clause, and the copy lacks
  \<open>Decoder.HasDecoded\<close>. Nothing in the repository imports it. Its operations are those of the
  model of \<open>lt/\<close>, so all that is proved of these holds for the copy.
\<close>

type_synonym 'd ibltTransaction = "'d ltTransaction"
type_synonym 'd ibltCodeword = "'d ltCodeword"
type_synonym 'd ibltEncoder = "'d ltEncoder"
type_synonym 'd ibltDecoder = "'d ltDecoder"

definition iblt_NewTransaction :: "'d dataOps \<Rightarrow> 'd \<Rightarrow> 'd ibltTransaction" where
  "iblt_NewTransaction = NewTransaction"

definition iblt_NewEncoder :: "(nat \<Rightarrow> nat \<Rightarrow> int) \<Rightarrow> hash64 \<Rightarrow> (nat \<Rightarrow> u64) \<Rightarrow> int \<Rightarrow> 'd ibltEncoder" where
  "iblt_NewEncoder = lt_NewEncoder"

definition iblt_Reset :: "'d ibltEncoder \<Rightarrow> (nat \<Rightarrow> u64) \<Rightarrow> int \<Rightarrow> 'd ibltEncoder" where
  "iblt_Reset = lt_Reset"

definition iblt_AddTransaction :: "'d ibltEncoder \<Rightarrow> 'd ibltTransaction \<Rightarrow> ('d ibltEncoder \<times> bool) result" where
  "iblt_AddTransaction = lt_AddTransaction"

definition iblt_produceCodeword :: "'d dataOps \<Rightarrow> 'd ibltEncoder \<Rightarrow> int \<Rightarrow> ('d ibltEncoder \<times> 'd ibltCodeword) result" where
  "iblt_produceCodeword = produceCodeword"

definition iblt_ProduceCodeword :: "'d dataOps \<Rightarrow> 'd ibltEncoder \<Rightarrow> ('d ibltEncoder \<times> 'd ibltCodeword) result" where
  "iblt_ProduceCodeword = lt_ProduceCodeword"

definition iblt_NewDecoder :: "hash64 \<Rightarrow> int \<Rightarrow> 'd ibltDecoder" where
  "iblt_NewDecoder = lt_NewDecoder"

definition iblt_Decoded :: "'d ibltDecoder \<Rightarrow> nat \<Rightarrow> bool result" where
  "iblt_Decoded = cw_Decoded"

definition iblt_markDecoded ::
  "'d dataOps \<Rightarrow> 'd ibltDecoder \<Rightarrow> nat \<Rightarrow> 'd \<Rightarrow> nat list \<Rightarrow> ('d ibltDecoder \<times> nat list) result" where
  "iblt_markDecoded = markDecoded"

definition iblt_failToDecode :: "'d ibltDecoder \<Rightarrow> nat \<Rightarrow> ('d ibltDecoder \<times> u32 \<times> nat option \<times> bool) result" where
  "iblt_failToDecode = failToDecode"

definition iblt_peelTransaction :: "'d dataOps \<Rightarrow> 'd PendingCodeword \<Rightarrow> nat \<Rightarrow> 'd \<Rightarrow> 'd PendingCodeword result" where
  "iblt_peelTransaction = peelTransaction"

definition iblt_storeNewTransaction ::
  "'d dataOps \<Rightarrow> 'd ibltDecoder \<Rightarrow> u32 \<Rightarrow> 'd ibltTransaction \<Rightarrow> 'd ibltDecoder result" where
  "iblt_storeNewTransaction = storeNewTransaction"

definition iblt_decodeCodewords ::
  "'d dataOps \<Rightarrow> 'd ibltDecoder \<Rightarrow> nat list \<Rightarrow> ('d ibltDecoder \<times> 'd ibltTransaction list) run" where
  "iblt_decodeCodewords = decodeCodewords"

definition iblt_AddCodeword ::
  "'d dataOps \<Rightarrow> 'd ibltDecoder \<Rightarrow> 'd ibltCodeword \<Rightarrow> ('d ibltDecoder \<times> nat \<times> 'd ibltTransaction list) run" where
  "iblt_AddCodeword = lt_AddCodeword"

definition iblt_Decoder_AddTransaction ::
  "'d dataOps \<Rightarrow> 'd ibltDecoder \<Rightarrow> 'd ibltTransaction \<Rightarrow> ('d ibltDecoder \<times> 'd ibltTransaction list) run" where
  "iblt_Decoder_AddTransaction = lt_Decoder_AddTransaction"

end
