(* ===== verification/Node_Main.thy ===== *)
theory Node_Main
  imports Node_Program
begin

text \<open>
  \<open>main\<close> of \<open>node/main.go\<close> as a whole: what it starts, the loop that accepts connections, and the
  goroutines that dial the addresses of the flag \<open>-p\<close>. The network is an input: the error of
  each call, or the connection it gives; an error of \<open>log.Fatalln\<close> is the \<open>Inl\<close> of a result. The
  \<open>i\<close>-th exchange of keys takes the \<open>i\<close>-th key that \<open>rand.Read\<close> gives.
\<close>

section \<open>The network\<close>

text \<open>The connections that \<open>Accept\<close> gives are \<open>None\<close> for a peer that never sends its key.\<close>

record nodeNet =
  SetsockoptInt :: "int \<Rightarrow> string option"
  net_Listen :: "string \<Rightarrow> string option"
  net_Dial :: "string \<Rightarrow> nat \<Rightarrow> string + connIO"
  SetWriteBuffer :: "int \<Rightarrow> string option"

text \<open>The function \<open>swb\<close> gives the error of setting the socket option. \<open>Listen\<close> and \<open>Dial\<close> call it on
  the new socket, and return its error.\<close>

definition swb :: "nodeNet \<Rightarrow> nodeFlags \<Rightarrow> string option" where
  "swb net fl = (case SetsockoptInt net (nf_tcpWriteBuffer fl) of Some err \<Rightarrow> Some err | None \<Rightarrow> None)"

definition listenAt :: "nodeNet \<Rightarrow> nodeFlags \<Rightarrow> string option" where
  "listenAt net fl = (case swb net fl of Some err \<Rightarrow> Some err | None \<Rightarrow> net_Listen net (nf_addr fl))"

definition dialOnce :: "nodeNet \<Rightarrow> nodeFlags \<Rightarrow> string \<Rightarrow> nat \<Rightarrow> string + connIO" where
  "dialOnce net fl a i = (case swb net fl of Some err \<Rightarrow> Inl err | None \<Rightarrow> net_Dial net a i)"

section \<open>Accepting and dialling\<close>

text \<open>The peers that the accept loop hands to the controller. The handshake runs in the loop itself:
  while it waits for a key, nobody else is accepted.\<close>

fun acceptLoop :: "(nat \<Rightarrow> connIO \<Rightarrow> (string + 'p) run) \<Rightarrow> nat \<Rightarrow> (string + connIO option) list \<Rightarrow> 'p list run" where
  "acceptLoop handle i [] = Some (Inr [])"
| "acceptLoop handle i (Inl err # accepts) = acceptLoop handle i accepts"
| "acceptLoop handle i (Inr None # accepts) = None"
| "acceptLoop handle i (Inr (Some cn) # accepts) =
     bindO (handle i cn) (\<lambda>r.
     bindO (acceptLoop handle (i + 1) accepts) (\<lambda>ps.
       Some (Inr (case r of Inl err \<Rightarrow> ps | Inr p \<Rightarrow> p # ps))))"

text \<open>The loop around \<open>Dial\<close>, which waits a second after an error: the number of failures and the
  connection.\<close>

partial_function (option) dialLoop :: "(nat \<Rightarrow> string + 'c) \<Rightarrow> nat \<Rightarrow> (nat \<times> 'c) option" where
  "dialLoop dial i = (case dial i of Inl err \<Rightarrow> dialLoop dial (i + 1) | Inr cn \<Rightarrow> Some (i, cn))"

definition connectTo ::
  "nodeNet \<Rightarrow> nodeFlags \<Rightarrow> (connIO \<Rightarrow> (string + 'p) run) \<Rightarrow> string \<Rightarrow> (string + (string + 'p)) run" where
  "connectTo net fl handle addr =
     (case dialLoop (dialOnce net fl addr) 0 of None \<Rightarrow> None
      | Some (i, cn) \<Rightarrow>
          (case SetWriteBuffer net (nf_tcpWriteBuffer fl) of Some err \<Rightarrow> Some (Inr (Inl err))
           | None \<Rightarrow> bindO (handle cn) (\<lambda>r. Some (Inr (Inr r)))))"

section \<open>What main starts\<close>

record nodeProcess =
  proc_controller :: controller
  proc_settings :: nodeSettings
  proc_dials :: "string list"
  proc_generates :: "float64 option"

text \<open>\<open>sketchErr\<close> is the error of \<open>NewDefaultDDSketchWithExactSummaryStatistics\<close>.\<close>

definition nodeMain :: "string option \<Rightarrow> nodeNet \<Rightarrow> nodeFlags \<Rightarrow> int \<Rightarrow> string + nodeProcess" where
  "nodeMain sketchErr net fl now =
     (case sketchErr of Some err \<Rightarrow> Inl err
      | None \<Rightarrow>
          (case listenAt net fl of Some err \<Rightarrow> Inl err
           | None \<Rightarrow>
               Inr \<lparr>proc_controller = newController fl now, proc_settings = nodeSettingsOf fl,
                    proc_dials = addrList (nf_conn fl),
                    proc_generates = (if f_less (Fin 0) (nf_txRate fl) then Some (nf_txRate fl) else None)\<rparr>))"

section \<open>Lemmas\<close>

text \<open>A dialler gets the first connection that works, and waits forever when none does.\<close>

lemma dialLoop_found:
  assumes "dial j = Inr cn" "\<forall>k. i \<le> k \<and> k < j \<longrightarrow> isl (dial k)" "i \<le> j"
  shows "dialLoop dial i = Some (j, cn)"
  using assms(2,3)
proof (induction "j - i" arbitrary: i)
  case 0
  then show ?case using assms(1) by (subst dialLoop.simps) simp
next
  case (Suc d)
  then obtain err where "dial i = Inl err" by (metis Suc_diff_le diff_is_0_eq isl_def nat.distinct(1) not_le order.refl zero_less_diff)
  moreover have "dialLoop dial (i + 1) = Some (j, cn)" by (rule Suc.hyps(1)) (use Suc.hyps(2) Suc.prems in auto)
  ultimately show ?case by (subst dialLoop.simps) simp
qed

lemma dialLoop_first:
  assumes "dialLoop dial i = Some (j, cn)"
  shows "i \<le> j \<and> dial j = Inr cn \<and> (\<forall>k. i \<le> k \<and> k < j \<longrightarrow> isl (dial k))"
proof -
  let ?P = "\<lambda>dial i (r :: nat \<times> 'a). i \<le> fst r \<and> dial (fst r) = Inr (snd r) \<and> (\<forall>k. i \<le> k \<and> k < fst r \<longrightarrow> isl (dial k :: string + 'a))"
  have "?P dial i (j, cn)"
  proof (rule dialLoop.raw_induct [where P = ?P, OF _ assms])
    fix F and dial :: "nat \<Rightarrow> string + 'a" and i r
    assume IH: "\<And>dial i r. F dial i = Some r \<Longrightarrow> ?P dial i r"
      and body: "(case dial i of Inl err \<Rightarrow> F dial (i + 1) | Inr cn \<Rightarrow> Some (i, cn)) = Some r"
    show "?P dial i r"
    proof (cases "dial i")
      case (Inl err)
      then have next_i: "?P dial (i + 1) r" using IH body by simp
      moreover have "isl (dial k)" if "i \<le> k" "k < fst r" for k
        using next_i that Inl by (cases "k = i") auto
      ultimately show ?thesis by simp
    next
      case (Inr c)
      then show ?thesis using body by auto
    qed
  qed
  then show ?thesis by simp
qed

lemma dialLoop_waits: "dialLoop dial i = None \<longleftrightarrow> (\<forall>k\<ge>i. isl (dial k))"
proof
  assume none: "dialLoop dial i = None"
  show "\<forall>k\<ge>i. isl (dial k)"
  proof (rule ccontr)
    assume "\<not> (\<forall>k\<ge>i. isl (dial k))"
    then have ex: "\<exists>k. i \<le> k \<and> \<not> isl (dial k)" by blast
    define j where "j = (LEAST k. i \<le> k \<and> \<not> isl (dial k))"
    have j: "i \<le> j" "\<not> isl (dial j)" using LeastI_ex [OF ex] by (simp_all add: j_def)
    have "\<forall>k. i \<le> k \<and> k < j \<longrightarrow> isl (dial k)" using not_less_Least unfolding j_def by blast
    moreover obtain cn where "dial j = Inr cn" using j(2) by (cases "dial j") simp_all
    ultimately show False using dialLoop_found [of dial j cn i] none j(1) by simp
  qed
next
  assume "\<forall>k\<ge>i. isl (dial k)"
  then show "dialLoop dial i = None" using dialLoop_first [of dial i] by (cases "dialLoop dial i") auto
qed

text \<open>The connections that are accepted before a silent peer are handled, none after it is.\<close>

lemma silent_peer_blocks: "acceptLoop handle i (accepts @ Inr None # later) \<noteq> Some (Inr ps)"
proof (induction accepts arbitrary: i ps)
  case (Cons a accepts)
  show ?case
  proof (cases a)
    case (Inl err)
    then show ?thesis using Cons by simp
  next
    case (Inr c)
    then show ?thesis using Cons by (cases c) (auto simp: bindO_Inr_iff)
  qed
qed simp

text \<open>Without silent peers the loop hands on those whose exchange of keys succeeds, in order.\<close>

lemma accepts_handled:
  assumes "\<And>i cn. handle i cn = Some (Inr (r cn))"
  shows "acceptLoop handle i (map (map_sum id Some) accepts) =
    Some (Inr (concat (map (\<lambda>a. case a of Inl err \<Rightarrow> [] | Inr cn \<Rightarrow> (case r cn of Inl err \<Rightarrow> [] | Inr p \<Rightarrow> [p])) accepts)))"
proof (induction accepts arbitrary: i)
  case (Cons a accepts)
  then show ?case by (cases a) (auto simp: assms split: sum.splits)
qed simp

end
