(* ===== verification/Testbed.thy ===== *)
theory Testbed
  imports Node_Main Topology
begin

text \<open>
  \<open>testbed/main.go\<close>, \<open>cluster.go\<close>, \<open>exp.go\<close> and \<open>sshutil.go\<close>: the program that rents servers and runs
  \<open>node\<close> on them. Modelled are its decisions: which subcommand and action run, in which order
  the servers are listed, and what is executed on which server. The files it decodes from JSON,
  the parsed flags, the random number for the port and the outcome of every remote action are
  inputs. The goroutines of \<open>runAll\<close> work on different servers, so the model runs them in turn.
\<close>

text \<open>A program can end with an exit code, and a panic ends it too.\<close>

datatype ending = Exit int | Crash panic

type_synonym 'a program = "ending + 'a"

definition bindP :: "'a program \<Rightarrow> ('a \<Rightarrow> 'b program) \<Rightarrow> 'b program" where
  "bindP r f = (case r of Inl e \<Rightarrow> Inl e | Inr a \<Rightarrow> f a)"

definition orCrash :: "'a result \<Rightarrow> 'a program" where
  "orCrash r = (case r of Inl e \<Rightarrow> Inl (Crash e) | Inr a \<Rightarrow> Inr a)"

text \<open>An error is printed and the program ends with code 1.\<close>

definition orExit :: "string + 'a \<Rightarrow> 'a program" where
  "orExit r = (case r of Inl e \<Rightarrow> Inl (Exit 1) | Inr a \<Rightarrow> Inr a)"

lemma program_simps [simp]:
  "bindP (Inl e) f = Inl e" "bindP (Inr a) f = f a" "orCrash (Inl p) = Inl (Crash p)" "orCrash (Inr a) = Inr a"
  "orExit (Inl s) = Inl (Exit 1)" "orExit (Inr a) = Inr a"
  by (simp_all add: bindP_def orCrash_def orExit_def)

section \<open>Servers and their order\<close>

record testServer =
  srv_ID :: string
  srv_PublicIP :: string
  srv_PrivateIP :: string
  srv_Port :: int
  srv_User :: string
  srv_KeyPath :: string
  srv_Location :: string
  srv_Tag :: string
  srv_Provider :: string

text \<open>\<open>strings.Compare\<close>, by bytes.\<close>

fun strCompare :: "string \<Rightarrow> string \<Rightarrow> int" where
  "strCompare [] [] = 0"
| "strCompare [] (b # bs) = - 1"
| "strCompare (a # as) [] = 1"
| "strCompare (a # as) (b # bs) =
     (if (of_char a :: nat) < of_char b then - 1 else if (of_char b :: nat) < of_char a then 1 else strCompare as bs)"

definition ServerByLocation_Less :: "testServer \<Rightarrow> testServer \<Rightarrow> bool" where
  "ServerByLocation_Less s t =
     (let byloc = strCompare (srv_Location s) (srv_Location t) in
      if byloc = 0 then strCompare (srv_ID s) (srv_ID t) = - 1 else byloc = - 1)"

lemma strCompare_range: "strCompare s t \<in> {- 1, 0, 1}"
  by (induction s t rule: strCompare.induct) simp_all

lemma strCompare_eq [simp]: "strCompare s t = 0 \<longleftrightarrow> s = t"
proof (induction s t rule: strCompare.induct)
  case (4 a as b bs)
  then show ?case by (cases "a = b") (auto dest: of_char_eq_iff [THEN iffD1] simp: not_less le_less)
qed simp_all

lemma strCompare_flip: "strCompare t s = - strCompare s t"
  by (induction s t rule: strCompare.induct) simp_all

lemma strCompare_less_Cons:
  "strCompare (a # as) (b # bs) = - 1 \<longleftrightarrow>
   (of_char a :: nat) < of_char b \<or> (of_char a :: nat) = of_char b \<and> strCompare as bs = - 1"
  by auto

lemma strCompare_asym: "strCompare s t = - 1 \<Longrightarrow> strCompare t s \<noteq> - 1"
  using strCompare_flip [of t s] by simp

lemma strCompare_trans: "strCompare r s = - 1 \<Longrightarrow> strCompare s t = - 1 \<Longrightarrow> strCompare r t = - 1"
proof (induction r s arbitrary: t rule: strCompare.induct)
  case (2 b bs)
  then show ?case by (cases t) simp_all
next
  case (4 a as b bs)
  show ?case
  proof (cases t)
    case (Cons c cs)
    have "(of_char a :: nat) < of_char b \<or> (of_char a :: nat) = of_char b \<and> strCompare as bs = - 1"
      "(of_char b :: nat) < of_char c \<or> (of_char b :: nat) = of_char c \<and> strCompare bs cs = - 1"
      using 4(2,3) unfolding Cons strCompare_less_Cons by blast+
    moreover have "strCompare as bs = - 1 \<Longrightarrow> strCompare bs cs = - 1 \<Longrightarrow> strCompare as cs = - 1"
      if "(of_char a :: nat) = of_char b" using 4(1) [of cs] that by simp
    ultimately show ?thesis unfolding Cons strCompare_less_Cons by linarith
  qed (use 4(3) in simp)
qed simp_all

text \<open>The order is total on servers that differ in location or identifier.\<close>

definition serverKey :: "testServer \<Rightarrow> string \<times> string" where
  "serverKey s = (srv_Location s, srv_ID s)"

lemma Less_total: "serverKey s \<noteq> serverKey t \<Longrightarrow> ServerByLocation_Less s t \<or> ServerByLocation_Less t s"
  using strCompare_range [of "srv_Location s" "srv_Location t"] strCompare_range [of "srv_ID s" "srv_ID t"]
  by (auto simp: ServerByLocation_Less_def serverKey_def Let_def strCompare_flip [of "srv_Location t"] strCompare_flip [of "srv_ID t"])

lemma Less_asym: "ServerByLocation_Less s t \<Longrightarrow> \<not> ServerByLocation_Less t s"
  by (auto simp: ServerByLocation_Less_def Let_def strCompare_flip [of "srv_Location t"] strCompare_flip [of "srv_ID t"])

lemma Less_trans: "ServerByLocation_Less r s \<Longrightarrow> ServerByLocation_Less s t \<Longrightarrow> ServerByLocation_Less r t"
  by (auto simp: ServerByLocation_Less_def Let_def split: if_splits dest: strCompare_trans strCompare_asym)

text \<open>What \<open>sort.Sort\<close> promises: the same entries, none before a smaller one. The servers are then in
  one order only, whatever algorithm sorts them: the numbers that an experiment uses for the
  servers are stable.\<close>

definition sorts :: "(testServer list \<Rightarrow> testServer list) \<Rightarrow> bool" where
  "sorts srt \<longleftrightarrow> (\<forall>ss. mset (srt ss) = mset ss \<and> sorted_wrt (\<lambda>s t. \<not> ServerByLocation_Less t s) (srt ss))"

lemma sorted_servers_unique:
  assumes "mset ss = mset ts" "sorted_wrt (\<lambda>s t. \<not> ServerByLocation_Less t s) ss"
    "sorted_wrt (\<lambda>s t. \<not> ServerByLocation_Less t s) ts" "inj_on serverKey (set ss)"
  shows "ss = ts"
  using assms
proof (induction ss arbitrary: ts)
  case (Cons s ss)
  then obtain t ts' where ts: "ts = t # ts'" by (cases ts) auto
  have set: "set (s # ss) = set ts" using Cons.prems(1) by (rule mset_eq_setD)
  have "t = s"
  proof (rule ccontr)
    assume ne: "t \<noteq> s"
    then have "t \<in> set ss" "s \<in> set ts'" using set ts by auto
    then have "\<not> ServerByLocation_Less t s" "\<not> ServerByLocation_Less s t" using Cons.prems(2,3) ts by auto
    moreover have "serverKey s \<noteq> serverKey t" using Cons.prems(4) \<open>t \<in> set ss\<close> ne by (auto simp: inj_on_def)
    ultimately show False using Less_total by blast
  qed
  then show ?case using Cons.IH [of ts'] Cons.prems ts by simp
qed simp

lemma sorts_determined:
  assumes "sorts f" "sorts g" "mset ss = mset ts" "inj_on serverKey (set ss)"
  shows "f ss = g ts"
proof (rule sorted_servers_unique)
  show "mset (f ss) = mset (g ts)" using assms(1-3) by (simp add: sorts_def)
  have "set (f ss) = set ss" using assms(1) unfolding sorts_def by (metis mset_eq_setD)
  then show "inj_on serverKey (set (f ss))" using assms(4) by simp
qed (use assms(1,2) in \<open>simp_all add: sorts_def\<close>)

section \<open>The subcommand \<open>cluster\<close>\<close>

record clusterFlags =
  cl_tag :: string
  cl_serverListFilePath :: string
  cl_yes :: bool
  cl_serverPrice :: float64
  cl_loc :: string
  cl_count :: int
  cl_vendor :: string

definition defaultClusterFlags :: clusterFlags where
  "defaultClusterFlags =
     \<lparr>cl_tag = ''ouroboros'', cl_serverListFilePath = [], cl_yes = False, cl_serverPrice = Fin 80, cl_loc = [],
      cl_count = 1, cl_vendor = ''vultr''\<rparr>"

definition getConfirmation :: "string \<Rightarrow> bool" where
  "getConfirmation input \<longleftrightarrow> input = ''y'' \<or> input = ''Y''"

text \<open>The call of \<open>vultr.go\<close> or \<open>aws.go\<close> that a command leads to, and whether the servers that it
  returns are written to the server list file.\<close>

datatype clusterCall =
    StartServersCall string float64 string int
  | StopServersCall string
  | RestartServersCall string
  | CheckServerStatusCall string
  | AWSStartInstanceAtRegionsCall string int string
  | AWSStopServersAtAllRegionsCall string
  | AWSListServersAtAllRegionsCall string

definition destructive :: "clusterFlags \<Rightarrow> string \<Rightarrow> clusterCall \<times> bool \<Rightarrow> (clusterCall \<times> bool) option program" where
  "destructive fl input call =
     (if cl_tag fl = [] then Inl (Exit 1)
      else if \<not> cl_yes fl \<and> \<not> getConfirmation input then Inl (Exit 0)
      else Inr (Some call))"

text \<open>\<open>parse\<close> are the flags in the arguments after the action, \<open>input\<close> is what the user types.\<close>

definition dispatchCluster ::
  "(string list \<Rightarrow> clusterFlags) \<Rightarrow> string \<Rightarrow> string list \<Rightarrow> (clusterCall \<times> bool) option program" where
  "dispatchCluster parse input args =
     (case args of [] \<Rightarrow> Inl (Exit 1)
      | action # rest \<Rightarrow>
         let fl = parse rest; toFile = (cl_serverListFilePath fl \<noteq> []) in
         if cl_vendor fl = ''vultr'' then
           (if action = ''start'' then
              destructive fl input (StartServersCall (cl_tag fl) (cl_serverPrice fl) (cl_loc fl) (cl_count fl), toFile)
            else if action = ''stop'' then destructive fl input (StopServersCall (cl_tag fl), False)
            else if action = ''reboot'' then destructive fl input (RestartServersCall (cl_tag fl), False)
            else if action = ''status'' then Inr (Some (CheckServerStatusCall (cl_tag fl), toFile))
            else Inl (Exit 1))
         else if cl_vendor fl = ''aws'' then
           (if action = ''start'' then
              destructive fl input (AWSStartInstanceAtRegionsCall (cl_loc fl) (cl_count fl) (cl_tag fl), False)
            else if action = ''stop'' then destructive fl input (AWSStopServersAtAllRegionsCall (cl_tag fl), False)
            else if action = ''status'' then Inr (Some (AWSListServersAtAllRegionsCall (cl_tag fl), toFile))
            else Inl (Exit 1))
         else Inr None)"

text \<open>No server is started, stopped or rebooted without a tag and a confirmation.\<close>

lemma dispatchCluster_confirmed:
  assumes "dispatchCluster parse input (action # rest) = Inr (Some (call, f))" "action \<noteq> ''status''"
  shows "cl_tag (parse rest) \<noteq> []" "cl_yes (parse rest) \<or> getConfirmation input"
  using assms by (auto simp: dispatchCluster_def destructive_def Let_def split: if_splits)

section \<open>The subcommand \<open>exp\<close>\<close>

record expConnection =
  conn_From :: int
  conn_To :: int

definition showInt :: "int \<Rightarrow> string" where
  "showInt z = (if z < 0 then CHR ''-'' # showNat (nat (- z)) else showNat (nat z))"

text \<open>\<open>servers[i]\<close> for an \<open>int\<close> from the file.\<close>

definition serverAt :: "testServer list \<Rightarrow> int \<Rightarrow> testServer result" where
  "serverAt servers i = (if i < 0 then Inl IndexOutOfRange else get servers (nat i))"

fun joinComma :: "string list \<Rightarrow> string" where
  "joinComma [] = []"
| "joinComma [a] = a"
| "joinComma (a # b # as) = a @ CHR '','' # joinComma (b # as)"

fun joinSpace :: "string list \<Rightarrow> string" where
  "joinSpace [] = []"
| "joinSpace [a] = a"
| "joinSpace (a # b # as) = a @ CHR '' '' # joinSpace (b # as)"

text \<open>The port of a run, from the sample of \<open>rand.Float64\<close>.\<close>

definition randomPort :: "float64 \<Rightarrow> int result" where
  "randomPort u = bindR (f_to_int (f_mul u (Fin 40000))) (\<lambda>p. Inr (p + 10000))"

fun peerAddrs :: "testServer list \<Rightarrow> int \<Rightarrow> expConnection list \<Rightarrow> int \<Rightarrow> string list result" where
  "peerAddrs servers port [] i = Inr []"
| "peerAddrs servers port (pair # topo) i =
     (if conn_From pair = i then
        bindR (serverAt servers (conn_To pair)) (\<lambda>s.
        bindR (peerAddrs servers port topo i) (\<lambda>as. Inr ((srv_PublicIP s @ CHR '':'' # showInt port) # as)))
      else peerAddrs servers port topo i)"

definition nodeCommand :: "int \<Rightarrow> string list \<Rightarrow> string list \<Rightarrow> string" where
  "nodeCommand port args addrs =
     (let peerCmd = (if addrs \<noteq> [] then joinComma addrs else []);
          cmd = ''bash -c '' @ CHR 0x27 # ''sysctl -w net.ipv4.tcp_congestion_control=bbr; ufw disable ; nohup '';
          cmd = cmd @ (if peerCmd \<noteq> [] then ''./txcode-node -p '' @ peerCmd else ''./txcode-node'')
      in cmd @ '' -l 0.0.0.0:'' @ showInt port @ '' '' @ joinSpace args @ '' > log.txt 2>&1 &'' @ [CHR 0x27])"

text \<open>An error of \<open>exp.go\<close> with the error that caused it, if any.\<close>

record remoteError =
  re_inner :: "string option"
  re_problem :: string

definition RemoteError_Error :: "remoteError \<Rightarrow> string" where
  "RemoteError_Error e = (case re_inner e of Some err \<Rightarrow> re_problem e @ '': '' @ err | None \<Rightarrow> re_problem e)"

text \<open>What the goroutine of one server does: remote sessions, copies, and the rows that it prints.\<close>

datatype remoteAct =
    KillServer
  | Scp "string list"
  | SshRun string
  | SshOutput string

datatype actReply = ActError string | ActOutput string

text \<open>\<open>KillServer\<close> fails only when no session can be created, and wraps that error. The actions are
  performed up to the first error.\<close>

definition actError :: "remoteAct \<Rightarrow> string \<Rightarrow> string" where
  "actError a err =
     (if a = KillServer then RemoteError_Error \<lparr>re_inner = Some err, re_problem = ''error creating session''\<rparr> else err)"

fun perform :: "(remoteAct \<Rightarrow> actReply) \<Rightarrow> remoteAct list \<Rightarrow> remoteAct list \<times> string option" where
  "perform reply [] = ([], None)"
| "perform reply (a # as) =
     (case reply a of ActError err \<Rightarrow> ([a], Some (actError a err))
      | ActOutput out \<Rightarrow> (case perform reply as of (done_acts, r) \<Rightarrow> (a # done_acts, r)))"

record serverReport =
  rep_acts :: "remoteAct list"
  rep_lines :: "string list"
  rep_err :: "string option"

definition reportOf :: "(remoteAct \<Rightarrow> actReply) \<Rightarrow> remoteAct list \<Rightarrow> serverReport" where
  "reportOf reply acts =
     (case perform reply acts of (as, err) \<Rightarrow> \<lparr>rep_acts = as, rep_lines = [], rep_err = err\<rparr>)"

definition remotePath :: "testServer \<Rightarrow> string \<Rightarrow> string" where
  "remotePath s file = srv_User s @ ''@'' @ srv_PublicIP s @ '':'' @ file"

definition scpArgs :: "testServer \<Rightarrow> string \<Rightarrow> string \<Rightarrow> string list" where
  "scpArgs s src dest =
     [''-o'', ''StrictHostKeyChecking=no'', ''-o'', ''UserKnownHostsFile=/dev/null'', ''-i'', srv_KeyPath s, src, dest]"

definition uploadFile :: "testServer \<Rightarrow> string \<Rightarrow> string \<Rightarrow> remoteAct" where
  "uploadFile s src dest = Scp (scpArgs s src (remotePath s dest))"

definition copyBackFile :: "testServer \<Rightarrow> string \<Rightarrow> string \<Rightarrow> remoteAct" where
  "copyBackFile s src dest = Scp (scpArgs s (remotePath s src) dest)"

definition installOn :: "string \<Rightarrow> (remoteAct \<Rightarrow> actReply) \<Rightarrow> nat \<Rightarrow> testServer \<Rightarrow> serverReport result" where
  "installOn file reply i s = Inr (reportOf reply [KillServer, uploadFile s file ''txcode-node''])"

definition runOn ::
  "testServer list \<Rightarrow> int \<Rightarrow> expConnection list \<Rightarrow> string list \<Rightarrow> (remoteAct \<Rightarrow> actReply) \<Rightarrow> nat \<Rightarrow> testServer \<Rightarrow> serverReport result" where
  "runOn servers port topo args reply i s =
     bindR (peerAddrs servers port topo (int i)) (\<lambda>addrs.
       Inr (reportOf reply [KillServer, SshRun (nodeCommand port args addrs)]))"

definition downloadFrom :: "string \<Rightarrow> (remoteAct \<Rightarrow> actReply) \<Rightarrow> nat \<Rightarrow> testServer \<Rightarrow> serverReport result" where
  "downloadFrom prefix reply i s =
     Inr (reportOf reply [KillServer, copyBackFile s ''log.txt'' (prefix @ ''-'' @ showNat i)])"

text \<open>The mean delay of a link from the output of \<open>ping\<close>. \<open>parseFloat\<close> is \<open>strconv.ParseFloat\<close> with 64
  bits. The verb \<open>%.1f\<close> rounds the exact value to even.\<close>

definition trimSpace :: "string \<Rightarrow> string" where
  "trimSpace s = (let sp = (\<lambda>c. isSpace c \<or> of_char c = (10 :: nat)) in rev (dropWhile sp (rev (dropWhile sp s))))"

definition showTenths :: "float64 \<Rightarrow> string" where
  "showTenths x =
     (case x of Fin r \<Rightarrow> let n = nat (rnd_even (10 * \<bar>r\<bar>)) in
                (if r < 0 then ''-'' else []) @ showNat (n div 10) @ CHR ''.'' # showNat (n mod 10)
      | PInf \<Rightarrow> ''+Inf'' | NInf \<Rightarrow> ''-Inf'' | NaN \<Rightarrow> ''NaN'')"

definition pingCommand :: "string \<Rightarrow> string" where
  "pingCommand ip = ''ping -c 30 '' @ ip @ '' | tail -n1 | cut -f5 -d'' @ [CHR 0x27, CHR ''/'', CHR 0x27]"

definition pingLine :: "expConnection \<Rightarrow> float64 \<Rightarrow> string" where
  "pingLine pair meanDelay =
     ''        node['' @ showInt (conn_From pair) @ ''].peer++ <--> {  delay = '' @ showTenths (f_div meanDelay (Fin 2)) @
     ''ms; } <--> node['' @ showInt (conn_To pair) @ ''].peer++;''"

fun pingOn ::
  "testServer list \<Rightarrow> (string \<Rightarrow> string + float64) \<Rightarrow> (remoteAct \<Rightarrow> actReply) \<Rightarrow> expConnection list \<Rightarrow> nat \<Rightarrow> serverReport result" where
  "pingOn servers parseFloat reply [] i = Inr \<lparr>rep_acts = [], rep_lines = [], rep_err = None\<rparr>"
| "pingOn servers parseFloat reply (pair # topo) i =
     (if conn_From pair = int i then
        bindR (serverAt servers (conn_To pair)) (\<lambda>s.
          let act = SshOutput (pingCommand (srv_PublicIP s)) in
          (case reply act of
             ActError err \<Rightarrow> Inr \<lparr>rep_acts = [act], rep_lines = [], rep_err = Some err\<rparr>
           | ActOutput out \<Rightarrow>
               (case parseFloat (trimSpace out) of
                  Inl err \<Rightarrow> Inr \<lparr>rep_acts = [act], rep_lines = [], rep_err = Some err\<rparr>
                | Inr meanDelay \<Rightarrow>
                    bindR (pingOn servers parseFloat reply topo i) (\<lambda>r.
                      Inr (r\<lparr>rep_acts := act # rep_acts r, rep_lines := pingLine pair meanDelay # rep_lines r\<rparr>)))))
      else pingOn servers parseFloat reply topo i)"

text \<open>\<open>runAll\<close> prints the error of a server and goes on; it has a report for each client.\<close>

fun runFrom :: "(nat \<Rightarrow> testServer \<Rightarrow> serverReport result) \<Rightarrow> nat \<Rightarrow> testServer list \<Rightarrow> serverReport list result" where
  "runFrom fn i [] = Inr []"
| "runFrom fn i (s # ss) = bindR (fn i s) (\<lambda>r. bindR (runFrom fn (i + 1) ss) (\<lambda>rs. Inr (r # rs)))"

definition runAll ::
  "testServer list \<Rightarrow> 'c list \<Rightarrow> (nat \<Rightarrow> testServer \<Rightarrow> serverReport result) \<Rightarrow> serverReport list result" where
  "runAll servers clients fn =
     (if length servers \<noteq> length clients then Inl (Panic ''incorrect'') else runFrom fn 0 servers)"

record expFlags =
  ex_serverListFilePath :: string
  ex_install :: string
  ex_runExp :: string
  ex_downloadResults :: string
  ex_measure :: string
  ex_args :: "string list"

section \<open>Keys and connections\<close>

text \<open>\<open>sshutil.go\<close>. The library gives the keys of a file, \<open>'s\<close>, and the connections, \<open>'c\<close>.\<close>

record ('s, 'c) sshLib =
  ssh_ReadFile :: "string \<Rightarrow> string + string"
  ssh_ParsePrivateKey :: "string \<Rightarrow> string + 's"
  ssh_MarshalAuthorizedKey :: "'s \<Rightarrow> string"
  ssh_Dial :: "string \<Rightarrow> 's \<Rightarrow> string \<Rightarrow> string + 'c"

text \<open>The error of \<open>ParsePrivateKey\<close> is returned only after a method of the missing key is called.\<close>

definition getPublicKey :: "('s, 'c) sshLib \<Rightarrow> string \<Rightarrow> (string + string) result" where
  "getPublicKey L path =
     (case ssh_ReadFile L path of Inl err \<Rightarrow> Inr (Inl err)
      | Inr key \<Rightarrow>
          (case ssh_ParsePrivateKey L key of Inl err \<Rightarrow> Inl NilDereference
           | Inr signer \<Rightarrow> Inr (Inr (ssh_MarshalAuthorizedKey L signer))))"

definition loadSSHKey :: "('s, 'c) sshLib \<Rightarrow> string \<Rightarrow> string + 's" where
  "loadSSHKey L path =
     (case ssh_ReadFile L path of Inl err \<Rightarrow> Inl err | Inr key \<Rightarrow> ssh_ParsePrivateKey L key)"

definition connectSSH :: "('s, 'c) sshLib \<Rightarrow> string \<Rightarrow> string \<Rightarrow> int \<Rightarrow> string \<Rightarrow> string + 'c" where
  "connectSSH L user addr port key =
     (case loadSSHKey L key of Inl err \<Rightarrow> Inl err
      | Inr au \<Rightarrow> ssh_Dial L user au (addr @ CHR '':'' # showInt port))"

section \<open>Experiments\<close>

text \<open>The world of a run: the errors of opening files and what their JSON decodes to, the ssh library,
  the replies of server \<open>i\<close>, and the sample for the port.\<close>

record ('s, 'c) testWorld =
  w_Open :: "string \<Rightarrow> string option"
  w_DecodeServers :: "string \<Rightarrow> string + testServer list"
  w_DecodeExperiment :: "string \<Rightarrow> string + expConnection list"
  w_ssh :: "('s, 'c) sshLib"
  w_reply :: "nat \<Rightarrow> remoteAct \<Rightarrow> actReply"
  w_parseFloat :: "string \<Rightarrow> string + float64"
  w_Float64 :: float64

definition ReadServerInfo :: "('s, 'c) testWorld \<Rightarrow> string \<Rightarrow> testServer list program" where
  "ReadServerInfo w path = (case w_Open w path of Some err \<Rightarrow> Inl (Exit 1) | None \<Rightarrow> orExit (w_DecodeServers w path))"

text \<open>The topology of the experiment, its only field.\<close>

definition ReadExperimentInfo :: "('s, 'c) testWorld \<Rightarrow> string \<Rightarrow> expConnection list program" where
  "ReadExperimentInfo w path = (case w_Open w path of Some err \<Rightarrow> Inl (Exit 1) | None \<Rightarrow> orExit (w_DecodeExperiment w path))"

fun sshClients :: "(testServer \<Rightarrow> string + 'c) \<Rightarrow> testServer list \<Rightarrow> 'c list program" where
  "sshClients conn [] = Inr []"
| "sshClients conn (s # ss) = bindP (orExit (conn s)) (\<lambda>c. bindP (sshClients conn ss) (\<lambda>cs'. Inr (c # cs')))"

definition phase :: "bool \<Rightarrow> serverReport list program \<Rightarrow> serverReport list list program \<Rightarrow> serverReport list list program" where
  "phase wanted run rest = (if wanted then bindP run (\<lambda>r. bindP rest (\<lambda>rs. Inr (r # rs))) else rest)"

definition dispatchBwTest :: "('s, 'c) testWorld \<Rightarrow> expFlags \<Rightarrow> serverReport list list program" where
  "dispatchBwTest w fl =
     (if ex_serverListFilePath fl = [] then Inl (Exit 1) else
      bindP (ReadServerInfo w (ex_serverListFilePath fl)) (\<lambda>ss.
      bindP (sshClients (\<lambda>s. connectSSH (w_ssh w) (srv_User s) (srv_PublicIP s) (srv_Port s) (srv_KeyPath s)) ss) (\<lambda>clients.
        phase (ex_install fl \<noteq> [])
          (orCrash (runAll ss clients (\<lambda>i. installOn (ex_install fl) (w_reply w i) i)))
       (phase (ex_measure fl \<noteq> [])
          (bindP (ReadExperimentInfo w (ex_measure fl)) (\<lambda>topo.
            orCrash (runAll ss clients (\<lambda>i s. pingOn ss (w_parseFloat w) (w_reply w i) topo i))))
       (phase (ex_runExp fl \<noteq> [])
          (bindP (orCrash (randomPort (w_Float64 w))) (\<lambda>port.
           bindP (ReadExperimentInfo w (ex_runExp fl)) (\<lambda>topo.
            orCrash (runAll ss clients (\<lambda>i. runOn ss port topo (ex_args fl) (w_reply w i) i)))))
       (phase (ex_downloadResults fl \<noteq> [])
          (orCrash (runAll ss clients (\<lambda>i. downloadFrom (ex_downloadResults fl) (w_reply w i) i)))
          (Inr [])))))))"

definition testbedMain ::
  "(string list \<Rightarrow> clusterFlags) \<Rightarrow> (string list \<Rightarrow> expFlags) \<Rightarrow> string \<Rightarrow> ('s, 'c) testWorld \<Rightarrow> string list \<Rightarrow>
   ((clusterCall \<times> bool) option + serverReport list list) program" where
  "testbedMain parseCluster parseExp input w args =
     (case args of _ # sub # rest \<Rightarrow>
        (if sub = ''cluster'' then bindP (dispatchCluster parseCluster input rest) (\<lambda>c. Inr (Inl c))
         else if sub = ''exp'' then bindP (dispatchBwTest w (parseExp rest)) (\<lambda>r. Inr (Inr r))
         else Inl (Exit 1))
      | _ \<Rightarrow> Inl (Exit 1))"

section \<open>The nodes dial what the experiment says\<close>

lemma joinComma_split:
  assumes "\<forall>a\<in>set as. CHR '','' \<notin> set a" "as \<noteq> []"
  shows "splitComma (joinComma as) = as"
  using assms
proof (induction as rule: joinComma.induct)
  case (2 a)
  then show ?case by (induction a) auto
next
  case (3 a b as)
  have "splitComma (a @ CHR '','' # s) = a # splitComma s" if "CHR '','' \<notin> set a" for s
    using that by (induction a) auto
  then show ?case using 3 by simp
qed simp

lemma showInt_no_comma: "CHR '','' \<notin> set (showInt z)"
  using showNat_digits [of "nat z"] showNat_digits [of "nat (- z)"] by (auto simp: showInt_def isDigit_def)

text \<open>The addresses are those of the other ends of the links that start at the server, in order.\<close>

lemma peerAddrs_eq:
  assumes "\<forall>pair\<in>set topo. 0 \<le> conn_To pair \<and> conn_To pair < int (length servers)"
  shows "peerAddrs servers port topo i =
    Inr (map (\<lambda>pair. srv_PublicIP (servers ! nat (conn_To pair)) @ CHR '':'' # showInt port)
           (filter (\<lambda>pair. conn_From pair = i) topo))"
  using assms by (induction topo) (auto simp: serverAt_def get_def)

text \<open>A node that is started for server \<open>i\<close> connects to exactly these: the command gives them to its
  flag \<open>-p\<close>, and its \<open>main\<close> starts one dialler for each.\<close>

lemma node_dials_experiment:
  assumes "\<forall>pair\<in>set topo. 0 \<le> conn_To pair \<and> conn_To pair < int (length servers)"
    "\<forall>s\<in>set servers. CHR '','' \<notin> set (srv_PublicIP s)"
  shows "\<exists>addrs. peerAddrs servers port topo i = Inr addrs \<and>
    addrs = map (\<lambda>pair. srv_PublicIP (servers ! nat (conn_To pair)) @ CHR '':'' # showInt port)
              (filter (\<lambda>pair. conn_From pair = i) topo) \<and>
    (\<forall>net fl now p. nf_conn fl = (if addrs \<noteq> [] then joinComma addrs else []) \<and> nodeMain None net fl now = Inr p \<longrightarrow>
       proc_dials p = addrs)"
proof (intro exI conjI, rule peerAddrs_eq [OF assms(1)])
  let ?addrs = "map (\<lambda>pair. srv_PublicIP (servers ! nat (conn_To pair)) @ CHR '':'' # showInt port)
    (filter (\<lambda>pair. conn_From pair = i) topo)"
  have "\<forall>a\<in>set ?addrs. CHR '','' \<notin> set a"
    using assms showInt_no_comma [of port] by (auto simp: nat_less_iff)
  moreover have "joinComma ?addrs \<noteq> []" if "?addrs \<noteq> []"
    using that by (cases ?addrs rule: joinComma.cases) auto
  ultimately have "addrList (if ?addrs \<noteq> [] then joinComma ?addrs else []) = ?addrs"
    using joinComma_split [of ?addrs] by (auto simp: addrList_def)
  moreover have "proc_dials p = addrList (nf_conn fl)" if "nodeMain None net fl now = Inr p" for net fl now p
    using that by (auto simp: nodeMain_def split: option.splits)
  ultimately have dials: "proc_dials p = ?addrs"
    if "nf_conn fl = (if ?addrs \<noteq> [] then joinComma ?addrs else [])" "nodeMain None net fl now = Inr p" for net fl now p
    using that by (simp only:)
  show "\<forall>net fl now p. nf_conn fl = (if ?addrs \<noteq> [] then joinComma ?addrs else []) \<and> nodeMain None net fl now = Inr p \<longrightarrow>
       proc_dials p = ?addrs" by (intro allI impI, elim conjE, rule dials)
qed rule

end
