(* ===== verification/Testbed_Cloud.thy ===== *)
theory Testbed_Cloud
  imports Testbed "HOL-Library.Sublist"
begin

text \<open>
  \<open>testbed/vultr.go\<close>: which machines of the provider are chosen, started, listed and stopped. The
  provider's answers are inputs, an answer is an error or a value.
\<close>

section \<open>Strings\<close>

text \<open>\<open>strings.ToLower\<close> and \<open>strings.Contains\<close> on ASCII text.\<close>

definition toLower :: "string \<Rightarrow> string" where
  "toLower = map (\<lambda>c. if 65 \<le> (of_char c :: nat) \<and> (of_char c :: nat) \<le> 90 then char_of (of_char c + (32 :: nat)) else c)"

fun containsStr :: "string \<Rightarrow> string \<Rightarrow> bool" where
  "containsStr [] q \<longleftrightarrow> q = []"
| "containsStr (c # s) q \<longleftrightarrow> prefix q (c # s) \<or> containsStr s q"

lemma containsStr_sublist: "containsStr s q \<longleftrightarrow> sublist q s"
  by (induction s) (auto simp: sublist_Cons_right)

text \<open>\<open>strconv.Atoi\<close>: all of the string is an optional sign and digits of an \<open>int\<close>.\<close>

definition atoi :: "string \<Rightarrow> int option" where
  "atoi s =
     (let (neg, ds) = (case s of [] \<Rightarrow> (False, s)
            | c # r \<Rightarrow> if c = CHR ''-'' then (True, r) else if c = CHR ''+'' then (False, r) else (False, s));
          v = foldl (\<lambda>a d. a * 10 + (of_char d - 48)) 0 ds;
          v = (if neg then - v else v)
      in if ds = [] \<or> \<not> list_all isDigit ds \<or> v < - (2 ^ 63) \<or> v \<ge> 2 ^ 63 then None else Some v)"

definition matchesLocation :: "string \<Rightarrow> string \<Rightarrow> bool" where
  "matchesLocation location name \<longleftrightarrow> location = [] \<or> containsStr (toLower name) (toLower location)"

section \<open>Vultr\<close>

record vultrServer =
  vs_InstanceID :: string
  vs_MainIP :: string
  vs_Location :: string
  vs_Tag :: string
  vs_Status :: string
  vs_ServerState :: string

definition vultrInfo :: "string \<Rightarrow> vultrServer \<Rightarrow> testServer" where
  "vultrInfo keypath s =
     \<lparr>srv_ID = vs_InstanceID s, srv_PublicIP = vs_MainIP s, srv_PrivateIP = vs_MainIP s, srv_Port = 22, srv_User = ''root'',
      srv_KeyPath = keypath, srv_Location = vs_Location s, srv_Tag = vs_Tag s, srv_Provider = ''vultr''\<rparr>"

text \<open>The content of the server list file. \<open>srt\<close> is \<open>sort.Sort\<close> in the order by location.\<close>

definition DumpServerInfo ::
  "(testServer list \<Rightarrow> testServer list) \<Rightarrow> string + string \<Rightarrow> (string \<Rightarrow> string + unit) \<Rightarrow> string \<Rightarrow> vultrServer list \<Rightarrow>
   testServer list program" where
  "DumpServerInfo srt home create path servers =
     bindP (orExit home) (\<lambda>usrhome.
       let dt = srt (map (vultrInfo (usrhome @ ''/.ssh/vultr'')) servers) in
       bindP (orExit (create path)) (\<lambda>_. Inr dt))"

record statusCount =
  nActive :: nat
  nPending :: nat
  nOK :: nat
  nInstalling :: nat

definition countStatus :: "vultrServer \<Rightarrow> statusCount \<Rightarrow> statusCount" where
  "countStatus s n =
     (if vs_Status s = ''active'' then
        let n = n\<lparr>nActive := nActive n + 1\<rparr> in
        if vs_ServerState s = ''ok'' then n\<lparr>nOK := nOK n + 1\<rparr>
        else if vs_ServerState s = ''installingbooting'' then n\<lparr>nInstalling := nInstalling n + 1\<rparr>
        else n
      else if vs_Status s = ''pending'' then n\<lparr>nPending := nPending n + 1\<rparr>
      else n)"

definition CheckServerStatus ::
  "string + vultrServer list \<Rightarrow> (string \<Rightarrow> string + vultrServer list) \<Rightarrow> string \<Rightarrow> (vultrServer list \<times> statusCount) program" where
  "CheckServerStatus listAll listByTag tag =
     bindP (orExit (if tag = [] then listAll else listByTag tag)) (\<lambda>servers.
       Inr (servers, fold countStatus servers \<lparr>nActive = 0, nPending = 0, nOK = 0, nInstalling = 0\<rparr>))"

record vultrPlan =
  pl_PlanID :: int
  pl_Price :: string
  pl_Regions :: "int list"

record vultrRegion =
  rg_RegionID :: string
  rg_Name :: string

text \<open>The request for a server.\<close>

record vultrOrder =
  vo_region :: int
  vo_plan :: int
  vo_os :: int
  vo_Tag :: string
  vo_SSHKeyIDs :: "string list"
  vo_ScriptID :: string

text \<open>What the lists of the provider hold, and what the request for the \<open>n\<close>-th server gives.\<close>

record vultrCloud =
  vc_plans :: "string + vultrPlan list"
  vc_regions :: "string + vultrRegion list"
  vc_sshKeys :: "string + (string \<times> string) list"
  vc_oses :: "string + (string \<times> int) list"
  vc_scripts :: "string + (string \<times> string) list"
  vc_create :: "nat \<Rightarrow> vultrOrder \<Rightarrow> string + vultrServer"

fun choosePlan :: "(string \<Rightarrow> string + float64) \<Rightarrow> float64 \<Rightarrow> vultrPlan list \<Rightarrow> vultrPlan option program" where
  "choosePlan parseFloat price [] = Inr None"
| "choosePlan parseFloat price (v # vs) =
     bindP (orExit (parseFloat (pl_Price v))) (\<lambda>p.
       if p = price \<and> p \<noteq> NaN \<and> pl_PlanID v = 523 then Inr (Some v) else choosePlan parseFloat price vs)"

fun chooseRegions :: "int list \<Rightarrow> string \<Rightarrow> vultrRegion list \<Rightarrow> int list program" where
  "chooseRegions supported location [] = Inr []"
| "chooseRegions supported location (v # vs) =
     (case atoi (rg_RegionID v) of None \<Rightarrow> Inl (Exit 1)
      | Some rid \<Rightarrow>
          bindP (chooseRegions supported location vs) (\<lambda>rids.
            if rid \<in> set supported \<and> toLower (rg_Name v) \<noteq> ''seoul'' \<and> matchesLocation location (rg_Name v)
            then Inr (rid # rids) else Inr rids))"

text \<open>The identifier of the first entry with a name; the zero value \<open>z\<close> when there is none.\<close>

fun idByName :: "'i \<Rightarrow> string \<Rightarrow> (string \<times> 'i) list \<Rightarrow> 'i" where
  "idByName z name [] = z"
| "idByName z name ((n, i) # vs) = (if n = name then i else idByName z name vs)"

fun createServers :: "(nat \<Rightarrow> vultrOrder \<Rightarrow> string + vultrServer) \<Rightarrow> nat \<Rightarrow> vultrOrder list \<Rightarrow> vultrServer list program" where
  "createServers create n [] = Inr []"
| "createServers create n (r # rs) =
     bindP (orExit (create n r)) (\<lambda>s. bindP (createServers create (n + 1) rs) (\<lambda>ss. Inr (s # ss)))"

definition StartServers ::
  "(string \<Rightarrow> string + float64) \<Rightarrow> vultrCloud \<Rightarrow> string \<Rightarrow> float64 \<Rightarrow> string \<Rightarrow> int \<Rightarrow> vultrServer list program" where
  "StartServers parseFloat c tag price location cnt =
     bindP (orExit (vc_plans c)) (\<lambda>plans.
     bindP (choosePlan parseFloat price plans) (\<lambda>plan.
     (case plan of None \<Rightarrow> Inl (Exit 1) | Some plan \<Rightarrow>
     bindP (orExit (vc_regions c)) (\<lambda>regions.
     bindP (chooseRegions (pl_Regions plan) location regions) (\<lambda>rids.
     bindP (orExit (vc_sshKeys c)) (\<lambda>keys.
     let kid = idByName [] ''macOS Testbed'' keys in
     if kid = [] then Inl (Exit 1) else
     bindP (orExit (vc_oses c)) (\<lambda>oses.
     let osid = idByName 0 ''Ubuntu 22.04 x64'' oses in
     if osid = 0 then Inl (Exit 1) else
     bindP (orExit (vc_scripts c)) (\<lambda>scripts.
     let sid = idByName [] ''increase-sshmaxsessions'' scripts;
         order = (\<lambda>r. \<lparr>vo_region = r, vo_plan = pl_PlanID plan, vo_os = osid, vo_Tag = tag, vo_SSHKeyIDs = [kid], vo_ScriptID = sid\<rparr>) in
     if sid = [] then Inl (Exit 1) else
     createServers (vc_create c) 0 (concat (map (\<lambda>r. replicate (nat cnt) (order r)) rids))))))))))"

text \<open>Only a server that is neither pending, closed nor locked is stopped or rebooted.\<close>

definition canStop :: "vultrServer \<Rightarrow> bool" where
  "canStop s \<longleftrightarrow> \<not> (vs_Status s = ''pending'' \<or> vs_Status s = ''closed'') \<and> vs_ServerState s \<noteq> ''locked''"

fun eachStoppable :: "(string \<Rightarrow> string option) \<Rightarrow> vultrServer list \<Rightarrow> string list program" where
  "eachStoppable call [] = Inr []"
| "eachStoppable call (s # ss) =
     (if \<not> canStop s then eachStoppable call ss
      else (case call (vs_InstanceID s) of Some err \<Rightarrow> Inl (Exit 1)
              | None \<Rightarrow> bindP (eachStoppable call ss) (\<lambda>ids. Inr (vs_InstanceID s # ids))))"

text \<open>The deleted servers, and how many remain in the last list.\<close>

definition StopServers ::
  "(string \<Rightarrow> string + vultrServer list) \<Rightarrow> (string \<Rightarrow> string option) \<Rightarrow> string + vultrServer list \<Rightarrow> string \<Rightarrow>
   (string list \<times> nat) program" where
  "StopServers listByTag del listAfter tag =
     bindP (orExit (listByTag tag)) (\<lambda>servers.
     bindP (eachStoppable del servers) (\<lambda>ids.
     bindP (orExit listAfter) (\<lambda>servers. Inr (ids, length servers))))"

definition RestartServers ::
  "(string \<Rightarrow> string + vultrServer list) \<Rightarrow> (string \<Rightarrow> string option) \<Rightarrow> string \<Rightarrow> string list program" where
  "RestartServers listByTag reboot tag =
     bindP (orExit (listByTag tag)) (\<lambda>servers. eachStoppable reboot servers)"

lemma choosePlan_found:
  "choosePlan parseFloat price plans = Inr (Some plan) \<Longrightarrow>
   plan \<in> set plans \<and> pl_PlanID plan = 523 \<and> parseFloat (pl_Price plan) = Inr price"
  by (induction plans) (auto simp: bindP_def orExit_def split: sum.splits if_splits)

lemma chooseRegions_supported:
  "chooseRegions supported location regions = Inr rids \<Longrightarrow> set rids \<subseteq> set supported"
  by (induction regions arbitrary: rids) (auto simp: bindP_def split: sum.splits option.splits if_splits)

lemma createServers_length: "createServers create n rs = Inr ss \<Longrightarrow> length ss = length rs"
  by (induction rs arbitrary: n ss) (auto simp: bindP_def orExit_def split: sum.splits)

lemma eachStoppable_only:
  "eachStoppable call servers = Inr ids \<Longrightarrow> ids = map vs_InstanceID (filter canStop servers)"
  by (induction servers arbitrary: ids) (auto simp: bindP_def split: sum.splits option.splits if_splits)

end
