(* ===== verification/Testbed_Aws.thy ===== *)
theory Testbed_Aws
  imports Testbed_Cloud
begin

text \<open>
  \<open>testbed/aws.go\<close>: the machines of the other cloud provider. The provider's answers are functions of
  the requests, which are modelled field by field; an answer is an error or a value. A session
  can only fail to be created where the code looks at the error, in \<open>AWSFilterRegionsByName\<close>.
\<close>

section \<open>Requests\<close>

record ec2Filter =
  flt_Name :: string
  flt_Values :: "string list"

text \<open>One resource type with its tags.\<close>

record ec2TagSpec =
  tg_ResourceType :: string
  tg_Tags :: "(string \<times> string) list"

record groupRequest =
  gr_Description :: string
  gr_GroupName :: string
  gr_VpcId :: string
  gr_TagSpecs :: "ec2TagSpec list"

record ingressRequest =
  ig_GroupId :: string
  ig_IpProtocol :: string
  ig_FromPort :: int
  ig_ToPort :: int
  ig_CidrIps :: "string list"

record keyRequest =
  ky_KeyName :: string
  ky_TagSpecs :: "ec2TagSpec list"
  ky_PublicKeyMaterial :: string

record runRequest =
  rq_DeviceName :: string
  rq_VolumeSize :: int
  rq_DeleteOnTermination :: bool
  rq_VolumeType :: string
  rq_ImageId :: string
  rq_InstanceType :: string
  rq_KeyName :: string
  rq_MinCount :: int
  rq_MaxCount :: int
  rq_SecurityGroupIds :: "string list"
  rq_EbsOptimized :: bool
  rq_TagSpecs :: "ec2TagSpec list"
  rq_UserData :: string

text \<open>An instance; the pointer to an address that it does not have is nil.\<close>

record awsInstance =
  in_StateCode :: int
  in_InstanceId :: string
  in_PrivateIpAddress :: "string option"
  in_PublicIpAddress :: "string option"

text \<open>The provider in one region. Answers in pages can end with an error after some of them.\<close>

record ec2 =
  DescribeRegions :: "ec2Filter list \<Rightarrow> string + (string \<times> string) list"
  DescribeSecurityGroupsPages :: "ec2Filter list \<Rightarrow> string list list \<times> string option"
  DescribeVpcs :: "string + string list"
  CreateSecurityGroup :: "groupRequest \<Rightarrow> string + string"
  AuthorizeSecurityGroupIngress :: "ingressRequest \<Rightarrow> string option"
  DescribeKeyPairs :: "ec2Filter list \<Rightarrow> string + string list"
  ImportKeyPair :: "keyRequest \<Rightarrow> string + string"
  RunInstances :: "runRequest \<Rightarrow> string option"
  DescribeInstancesPages :: "ec2Filter list \<Rightarrow> awsInstance list list list \<times> string option"
  TerminateInstances :: "string list \<Rightarrow> string option"

section \<open>Regions and servers\<close>

record EC2Region =
  rg_Endpoint :: string
  rg_RegionName :: string

definition AWSListRegions :: "ec2 \<Rightarrow> string + EC2Region list" where
  "AWSListRegions svc =
     (case DescribeRegions svc [\<lparr>flt_Name = ''opt-in-status'', flt_Values = [''opt-in-not-required'', ''opted-in'']\<rparr>] of
        Inl err \<Rightarrow> Inl err
      | Inr rs \<Rightarrow> Inr (map (\<lambda>(endpoint, name). \<lparr>rg_Endpoint = endpoint, rg_RegionName = name\<rparr>) rs))"

definition AWSFilterRegionsByName :: "(string \<Rightarrow> string + ec2) \<Rightarrow> string \<Rightarrow> string + string list" where
  "AWSFilterRegionsByName session location =
     (case session ''us-east-1'' of Inl err \<Rightarrow> Inl err
      | Inr svc \<Rightarrow>
          (case AWSListRegions svc of Inl err \<Rightarrow> Inl err
           | Inr rs \<Rightarrow> Inr (filter (matchesLocation location) (map rg_RegionName rs))))"

record awsServer =
  as_Region :: string
  as_ID :: string
  as_PublicIP :: string
  as_PrivateIP :: string
  as_Tag :: string

definition awsInfo :: "string \<Rightarrow> awsServer \<Rightarrow> testServer" where
  "awsInfo keypath s =
     \<lparr>srv_ID = as_ID s, srv_PublicIP = as_PublicIP s, srv_PrivateIP = as_PrivateIP s, srv_Port = 22, srv_User = ''ubuntu'',
      srv_KeyPath = keypath, srv_Location = as_Region s, srv_Tag = as_Tag s, srv_Provider = ''aws''\<rparr>"

definition AWSDumpServerInfo ::
  "(testServer list \<Rightarrow> testServer list) \<Rightarrow> string + string \<Rightarrow> (string \<Rightarrow> string + unit) \<Rightarrow> string \<Rightarrow> awsServer list \<Rightarrow>
   testServer list program" where
  "AWSDumpServerInfo srt home create path servers =
     bindP (orExit home) (\<lambda>usrhome.
       let dt = srt (map (awsInfo (usrhome @ ''/.ssh/pikaaws'')) servers) in
       bindP (orExit (create path)) (\<lambda>_. Inr dt))"

text \<open>Only running instances count. One without an address is a nil pointer that is dereferenced.\<close>

fun runningServers :: "string \<Rightarrow> string \<Rightarrow> awsInstance list \<Rightarrow> awsServer list result" where
  "runningServers region tag [] = Inr []"
| "runningServers region tag (i # is') =
     (if in_StateCode i mod 256 \<noteq> 16 then runningServers region tag is'
      else case (in_PrivateIpAddress i, in_PublicIpAddress i) of
             (Some priv, Some pub) \<Rightarrow>
               bindR (runningServers region tag is') (\<lambda>ss.
                 Inr (\<lparr>as_Region = region, as_ID = in_InstanceId i, as_PublicIP = pub, as_PrivateIP = priv, as_Tag = tag\<rparr> # ss))
           | _ \<Rightarrow> Inl NilDereference)"

definition instanceFilter :: "string \<Rightarrow> ec2Filter" where
  "instanceFilter tag =
     (if tag \<noteq> [] then \<lparr>flt_Name = ''tag:pika'', flt_Values = [tag]\<rparr>
      else \<lparr>flt_Name = ''tag-key'', flt_Values = [''pika'']\<rparr>)"

text \<open>An error after some pages drops them; a page is a list of reservations.\<close>

definition AWSListServersAtRegion :: "(string \<Rightarrow> ec2) \<Rightarrow> string \<Rightarrow> string \<Rightarrow> (string + awsServer list) result" where
  "AWSListServersAtRegion svc region tag =
     (case DescribeInstancesPages (svc region) [instanceFilter tag] of (pages, failed) \<Rightarrow>
        bindR (runningServers region tag (concat (concat pages))) (\<lambda>output.
          Inr (case failed of Some err \<Rightarrow> Inl err | None \<Rightarrow> Inr output)))"

text \<open>The goroutines append under a lock, in an order that is an input; a region with an error is left
  out.\<close>

fun listRegions :: "(string \<Rightarrow> (string + awsServer list) result) \<Rightarrow> string list \<Rightarrow> awsServer list result" where
  "listRegions f [] = Inr []"
| "listRegions f (r # rs) =
     bindR (f r) (\<lambda>d. bindR (listRegions f rs) (\<lambda>res. Inr ((case d of Inl err \<Rightarrow> [] | Inr ss \<Rightarrow> ss) @ res)))"

definition AWSListServersAtAllRegions ::
  "(string list \<Rightarrow> string list) \<Rightarrow> (string \<Rightarrow> string + ec2) \<Rightarrow> (string \<Rightarrow> ec2) \<Rightarrow> string \<Rightarrow> (string + awsServer list) result" where
  "AWSListServersAtAllRegions order session svc tag =
     (case AWSFilterRegionsByName session [] of Inl err \<Rightarrow> Inr (Inl err)
      | Inr rs \<Rightarrow> bindR (listRegions (\<lambda>r. AWSListServersAtRegion svc r tag) (order rs)) (\<lambda>res. Inr (Inr res)))"

text \<open>The instances that the region is asked to terminate, if any, and the error.\<close>

definition AWSStopServersAtRegion :: "(string \<Rightarrow> ec2) \<Rightarrow> string \<Rightarrow> string \<Rightarrow> (string list \<times> string option) result" where
  "AWSStopServersAtRegion svc region tag =
     bindR (AWSListServersAtRegion svc region tag) (\<lambda>servers.
       (case servers of Inl err \<Rightarrow> Inr ([], Some err)
        | Inr servers \<Rightarrow>
            let sid = map as_ID servers in
            Inr (if sid = [] then ([], None) else (sid, TerminateInstances (svc region) sid))))"

fun stopRegions ::
  "(string \<Rightarrow> (string list \<times> string option) result) \<Rightarrow> string list \<Rightarrow> (string \<times> string list \<times> string option) list result" where
  "stopRegions f [] = Inr []"
| "stopRegions f (r # rs) = bindR (f r) (\<lambda>out. bindR (stopRegions f rs) (\<lambda>outs. Inr ((r, out) # outs)))"

definition AWSStopServersAtAllRegions ::
  "(string \<Rightarrow> string + ec2) \<Rightarrow> (string \<Rightarrow> ec2) \<Rightarrow> string \<Rightarrow> (string + (string \<times> string list \<times> string option) list) result" where
  "AWSStopServersAtAllRegions session svc tag =
     (case AWSFilterRegionsByName session [] of Inl err \<Rightarrow> Inr (Inl err)
      | Inr rs \<Rightarrow> bindR (stopRegions (\<lambda>r. AWSStopServersAtRegion svc r tag) rs) (\<lambda>outs. Inr (Inr outs)))"

section \<open>Keys and security groups\<close>

text \<open>A group or key that carries the tag of the program: at most one is expected.\<close>

definition onlyOne :: "string list \<Rightarrow> string result" where
  "onlyOne ids = (case ids of [] \<Rightarrow> Inr [] | [i] \<Rightarrow> Inr i | _ \<Rightarrow> Inl (Panic ''multiple keypairs''))"

definition AWSGetSecurityGroup :: "ec2 \<Rightarrow> (string + string) result" where
  "AWSGetSecurityGroup svc =
     (case DescribeSecurityGroupsPages svc [\<lparr>flt_Name = ''tag-key'', flt_Values = [''pika'']\<rparr>] of
        (_, Some err) \<Rightarrow> Inr (Inl err)
      | (ps, None) \<Rightarrow> bindR (onlyOne (concat ps)) (\<lambda>i. Inr (Inr i)))"

definition AWSGetVPC :: "ec2 \<Rightarrow> (string + string) result" where
  "AWSGetVPC svc =
     (case DescribeVpcs svc of Inl err \<Rightarrow> Inr (Inl err)
      | Inr [] \<Rightarrow> Inl (Panic ''no VPC found'') | Inr (v # _) \<Rightarrow> Inr (Inr v))"

text \<open>An error, or a value with which the function goes on.\<close>

definition onOk :: "(string + 'a) result \<Rightarrow> ('a \<Rightarrow> (string + 'b) result) \<Rightarrow> (string + 'b) result" where
  "onOk r f = bindR r (\<lambda>x. case x of Inl err \<Rightarrow> Inr (Inl err) | Inr a \<Rightarrow> f a)"

definition AWSCreateSecurityGroup :: "ec2 \<Rightarrow> (string + string) result" where
  "AWSCreateSecurityGroup svc =
     onOk (AWSGetVPC svc) (\<lambda>vpcid.
     onOk (Inr (CreateSecurityGroup svc
             \<lparr>gr_Description = ''allow all in all out'', gr_GroupName = ''pika-allow-all'', gr_VpcId = vpcid,
              gr_TagSpecs = [\<lparr>tg_ResourceType = ''security-group'', tg_Tags = [(''pika'', ''security-group'')]\<rparr>]\<rparr>)) (\<lambda>output.
       Inr (case AuthorizeSecurityGroupIngress svc
                   \<lparr>ig_GroupId = output, ig_IpProtocol = ''-1'', ig_FromPort = - 1, ig_ToPort = - 1, ig_CidrIps = [''0.0.0.0/0'']\<rparr> of
              Some err \<Rightarrow> Inl err | None \<Rightarrow> Inr output)))"

definition AWSGetSSHKey :: "ec2 \<Rightarrow> (string + string) result" where
  "AWSGetSSHKey svc =
     (case DescribeKeyPairs svc [\<lparr>flt_Name = ''tag-key'', flt_Values = [''pika2'']\<rparr>] of Inl err \<Rightarrow> Inr (Inl err)
      | Inr ks \<Rightarrow> bindR (onlyOne ks) (\<lambda>k. Inr (Inr k)))"

definition AWSUploadSSHKey :: "('s, 'c) sshLib \<Rightarrow> ec2 \<Rightarrow> string \<Rightarrow> (string + string) result" where
  "AWSUploadSSHKey L svc source =
     onOk (getPublicKey L source) (\<lambda>pk.
       Inr (ImportKeyPair svc
              \<lparr>ky_KeyName = ''pikabarrow2'', ky_TagSpecs = [\<lparr>tg_ResourceType = ''key-pair'', tg_Tags = [(''pika2'', ''ssh-key'')]\<rparr>],
               ky_PublicKeyMaterial = pk\<rparr>))"

section \<open>The list of images and its lock\<close>

text \<open>The list is fetched once, under a lock that an error leaves locked.\<close>

record imageList =
  AWSImageListLock :: bool
  AWSImageList :: string

definition escapeRegion :: "string \<Rightarrow> string" where
  "escapeRegion region = concat (map (\<lambda>c. if c = CHR ''-'' then [CHR 0x5C, CHR ''-''] else [c]) region)"

text \<open>\<open>bufio.Scanner\<close> by lines: the line feed and a carriage return before it are dropped, and a line
  that does not fit the buffer ends the scan with an error.\<close>

fun scanLines :: "string \<Rightarrow> string \<Rightarrow> string list" where
  "scanLines cur [] = (if cur = [] then [] else [cur])"
| "scanLines cur (c # s) = (if c = CHR 0x0A then cur # scanLines [] s else scanLines (cur @ [c]) s)"

definition dropCR :: "string \<Rightarrow> string" where
  "dropCR l = (if l \<noteq> [] \<and> List.last l = CHR 0x0D then butlast l else l)"

text \<open>\<open>submatch\<close> is \<open>FindStringSubmatch\<close> of the regular expression with the escaped region.\<close>

fun findImage :: "(string \<Rightarrow> string \<Rightarrow> string option) \<Rightarrow> string \<Rightarrow> string list \<Rightarrow> string + string" where
  "findImage submatch escaped [] = Inr []"
| "findImage submatch escaped (l # ls) =
     (if 8 * 1024 * 1024 \<le> length l then Inl ''token too long''
      else (case submatch escaped (dropCR l) of Some m \<Rightarrow> Inr m | None \<Rightarrow> findImage submatch escaped ls))"

text \<open>\<open>None\<close> waits for a lock that nobody will release.\<close>

definition AWSGetImageID ::
  "(string \<Rightarrow> string + string) \<Rightarrow> (string \<Rightarrow> string \<Rightarrow> string option) \<Rightarrow> string \<Rightarrow> imageList \<Rightarrow>
   (imageList \<times> (string + string)) option" where
  "AWSGetImageID fetch submatch region st =
     (if AWSImageListLock st then None
      else
        let found = (\<lambda>st. Some (st, findImage submatch (escapeRegion region) (scanLines [] (AWSImageList st)))) in
        if AWSImageList st = [] then
          (case fetch region of Inl err \<Rightarrow> Some (st\<lparr>AWSImageListLock := True\<rparr>, Inl err)
           | Inr body \<Rightarrow> found (st\<lparr>AWSImageList := body\<rparr>))
        else found st)"

section \<open>Starting instances\<close>

text \<open>\<open>base64.StdEncoding\<close>.\<close>

definition base64Char :: "nat \<Rightarrow> char" where
  "base64Char n = ''ABCDEFGHIJKLMNOPQRSTUVWXYZabcdefghijklmnopqrstuvwxyz0123456789+/'' ! n"

fun base64 :: "nat list \<Rightarrow> string" where
  "base64 [] = []"
| "base64 [a] = [base64Char (a div 4), base64Char (a mod 4 * 16), CHR ''='', CHR ''='']"
| "base64 [a, b] = [base64Char (a div 4), base64Char (a mod 4 * 16 + b div 16), base64Char (b mod 16 * 4), CHR ''='']"
| "base64 (a # b # c # bs) =
     [base64Char (a div 4), base64Char (a mod 4 * 16 + b div 16), base64Char (b mod 16 * 4 + c div 64), base64Char (c mod 64)]
       @ base64 bs"

definition userdata :: string where
  "userdata =
     ''#!/bin/bash'' @ [CHR 0x0A, CHR 0x0A] @ ''# increase the max. ssh sessions'' @ [CHR 0x0A] @
     ''echo '' @ [CHR 0x27] @ ''MaxSessions 1024'' @ [CHR 0x27] @ '' >> /etc/ssh/sshd_config'' @ [CHR 0x0A]"

definition instanceRequest :: "string \<Rightarrow> string \<Rightarrow> string \<Rightarrow> int \<Rightarrow> string \<Rightarrow> runRequest" where
  "instanceRequest ami keyid sgid cnt tag =
     \<lparr>rq_DeviceName = ''/dev/sda1'', rq_VolumeSize = 512, rq_DeleteOnTermination = True, rq_VolumeType = ''gp2'',
      rq_ImageId = ami, rq_InstanceType = ''r5.xlarge'', rq_KeyName = keyid, rq_MinCount = cnt, rq_MaxCount = cnt,
      rq_SecurityGroupIds = [sgid], rq_EbsOptimized = True,
      rq_TagSpecs = [\<lparr>tg_ResourceType = ''instance'', tg_Tags = [(''pika'', tag)]\<rparr>],
      rq_UserData = base64 (map of_char userdata)\<rparr>"

definition startRequest :: "('s, 'c) sshLib \<Rightarrow> ec2 \<Rightarrow> string \<Rightarrow> int \<Rightarrow> string \<Rightarrow> (string + runRequest) result" where
  "startRequest L svc ami cnt tag =
     onOk (AWSGetSSHKey svc) (\<lambda>keyid.
     onOk (if keyid = [] then AWSUploadSSHKey L svc ''/Users/leiy/.ssh/pikaaws'' else Inr (Inr keyid)) (\<lambda>keyid.
     onOk (AWSGetSecurityGroup svc) (\<lambda>sgid.
     onOk (if sgid = [] then AWSCreateSecurityGroup svc else Inr (Inr sgid)) (\<lambda>sgid.
       let req = instanceRequest ami keyid sgid cnt tag in
       Inr (case RunInstances svc req of Some err \<Rightarrow> Inl err | None \<Rightarrow> Inr req)))))"

definition AWSStartInstanceAtRegion ::
  "(string \<Rightarrow> string + string) \<Rightarrow> (string \<Rightarrow> string \<Rightarrow> string option) \<Rightarrow> ('s, 'c) sshLib \<Rightarrow> (string \<Rightarrow> ec2) \<Rightarrow> int \<Rightarrow> string \<Rightarrow> string \<Rightarrow>
   imageList \<Rightarrow> (imageList \<times> (string + runRequest) result) option" where
  "AWSStartInstanceAtRegion fetch submatch L svc cnt tag region st =
     (case AWSGetImageID fetch submatch region st of None \<Rightarrow> None
      | Some (st, Inl err) \<Rightarrow> Some (st, Inr (Inl err))
      | Some (st, Inr ami) \<Rightarrow> Some (st, startRequest L (svc region) ami cnt tag))"

text \<open>The regions are those in the order in which their goroutines take the lock. A panic of one of
  them ends the program; otherwise there is an outcome for each region.\<close>

fun startRegions ::
  "(string \<Rightarrow> imageList \<Rightarrow> (imageList \<times> (string + runRequest) result) option) \<Rightarrow> string list \<Rightarrow> imageList \<Rightarrow>
   (string + runRequest) list run" where
  "startRegions startAt [] st = Some (Inr [])"
| "startRegions startAt (r # rs) st =
     (case startAt r st of None \<Rightarrow> None
      | Some (st, Inl p) \<Rightarrow> Some (Inl p)
      | Some (st, Inr out) \<Rightarrow> bindO (startRegions startAt rs st) (\<lambda>outs. Some (Inr (out # outs))))"

definition AWSStartInstanceAtRegions ::
  "(string list \<Rightarrow> string list) \<Rightarrow> (string \<Rightarrow> string + ec2) \<Rightarrow> (string \<Rightarrow> string + string) \<Rightarrow> (string \<Rightarrow> string \<Rightarrow> string option) \<Rightarrow>
   ('s, 'c) sshLib \<Rightarrow> (string \<Rightarrow> ec2) \<Rightarrow> string \<Rightarrow> int \<Rightarrow> string \<Rightarrow> (string + (string + runRequest) list) run" where
  "AWSStartInstanceAtRegions order session fetch submatch L svc region cnt tag =
     (case AWSFilterRegionsByName session region of Inl err \<Rightarrow> Some (Inr (Inl err))
      | Inr rs \<Rightarrow>
          bindO (startRegions (AWSStartInstanceAtRegion fetch submatch L svc cnt tag) (order rs)
                   \<lparr>AWSImageListLock = False, AWSImageList = []\<rparr>)
            (\<lambda>outs. Some (Inr (Inr outs))))"

text \<open>Once the list has been fetched, every region has its outcome or one of them panics.\<close>

lemma fetched_starts:
  assumes "\<not> AWSImageListLock st" "AWSImageList st \<noteq> []"
  shows "\<exists>res. startRegions (AWSStartInstanceAtRegion fetch submatch L svc cnt tag) rs st = Some res \<and>
    (\<forall>outs. res = Inr outs \<longrightarrow> length outs = length rs)"
proof (induction rs)
  case (Cons r rs)
  obtain out where out: "AWSStartInstanceAtRegion fetch submatch L svc cnt tag r st = Some (st, out)"
    using assms
    by (cases "findImage submatch (escapeRegion r) (scanLines [] (AWSImageList st))")
      (auto simp: AWSStartInstanceAtRegion_def AWSGetImageID_def)
  from Cons obtain res where res: "startRegions (AWSStartInstanceAtRegion fetch submatch L svc cnt tag) rs st = Some res"
    "\<forall>outs. res = Inr outs \<longrightarrow> length outs = length rs" by blast
  show ?case by (cases out; cases res) (use out res in auto)
qed simp

text \<open>C25: The first of the selected regions fetches the list of images, under a lock. If that fails
  and there is another region, the program waits forever, since the failing fetch leaves the lock
  locked; with one region its error is the outcome. If it gives a list, the program does not wait:
  every region has an outcome, unless one of them panics.\<close>

theorem failed_fetch_blocks:
  assumes "AWSFilterRegionsByName session region = Inr rs" "order rs = r # rs'"
  shows "(\<forall>err. fetch r = Inl err \<longrightarrow>
      AWSStartInstanceAtRegions order session fetch submatch L svc region cnt tag =
        (if rs' = [] then Some (Inr (Inr [Inl err])) else None)) \<and>
    (\<forall>body. fetch r = Inr body \<and> body \<noteq> [] \<longrightarrow>
      (\<exists>res. AWSStartInstanceAtRegions order session fetch submatch L svc region cnt tag = Some res \<and>
        (\<forall>outs. res = Inr (Inr outs) \<longrightarrow> length outs = length rs' + 1)))"
proof (intro conjI allI impI)
  fix err assume "fetch r = Inl err"
  then show "AWSStartInstanceAtRegions order session fetch submatch L svc region cnt tag =
      (if rs' = [] then Some (Inr (Inr [Inl err])) else None)"
    using assms by (cases rs') (simp_all add: AWSStartInstanceAtRegions_def AWSStartInstanceAtRegion_def AWSGetImageID_def)
next
  fix body assume body: "fetch r = Inr body \<and> body \<noteq> []"
  let ?st = "\<lparr>AWSImageListLock = False, AWSImageList = body\<rparr>"
  let ?start = "AWSStartInstanceAtRegion fetch submatch L svc cnt tag"
  have first: "?start r \<lparr>AWSImageListLock = False, AWSImageList = []\<rparr> = ?start r ?st"
    using body by (simp add: AWSStartInstanceAtRegion_def AWSGetImageID_def)
  obtain res where res: "startRegions ?start (r # rs') ?st = Some res" "\<forall>outs. res = Inr outs \<longrightarrow> length outs = length (r # rs')"
    using fetched_starts [of ?st fetch submatch L svc cnt tag "r # rs'"] body by auto
  have "startRegions ?start (order rs) \<lparr>AWSImageListLock = False, AWSImageList = []\<rparr> = Some res"
    using res(1) unfolding assms(2) startRegions.simps first .
  then show "\<exists>res. AWSStartInstanceAtRegions order session fetch submatch L svc region cnt tag = Some res \<and>
      (\<forall>outs. res = Inr (Inr outs) \<longrightarrow> length outs = length rs' + 1)"
    using assms(1) res(2) by (cases res) (simp_all add: AWSStartInstanceAtRegions_def)
qed

definition demoRegions :: ec2 where
  "demoRegions =
     \<lparr>DescribeRegions = (\<lambda>_. Inr [([], ''us-east-1''), ([], ''eu-west-1'')]), DescribeSecurityGroupsPages = (\<lambda>_. ([[''sg'']], None)),
      DescribeVpcs = Inr [], CreateSecurityGroup = (\<lambda>_. Inl []), AuthorizeSecurityGroupIngress = (\<lambda>_. None),
      DescribeKeyPairs = (\<lambda>_. Inr [''key'']), ImportKeyPair = (\<lambda>_. Inl []), RunInstances = (\<lambda>_. None),
      DescribeInstancesPages = (\<lambda>_. ([], None)), TerminateInstances = (\<lambda>_. None)\<rparr>"

theorem failed_fetch_blocks_witness:
  "\<forall>submatch L :: (unit, unit) sshLib.
     AWSStartInstanceAtRegions id (\<lambda>_. Inr demoRegions) (\<lambda>_. Inl ''timeout'') (\<lambda>_. submatch) L (\<lambda>_. demoRegions) [] 1 ''exp'' = None \<and>
     AWSStartInstanceAtRegions id (\<lambda>_. Inr demoRegions) (\<lambda>_. Inr ''list'') (\<lambda>_. submatch) L (\<lambda>_. demoRegions) [] 1 ''exp'' \<noteq> None"
proof (intro allI)
  fix submatch and L :: "(unit, unit) sshLib"
  have f: "AWSFilterRegionsByName (\<lambda>_. Inr demoRegions) [] = Inr [''us-east-1'', ''eu-west-1'']"
    "id [''us-east-1'', ''eu-west-1''] = ''us-east-1'' # [''eu-west-1'']"
    by (simp_all add: AWSFilterRegionsByName_def AWSListRegions_def demoRegions_def matchesLocation_def)
  show "AWSStartInstanceAtRegions id (\<lambda>_. Inr demoRegions) (\<lambda>_. Inl ''timeout'') (\<lambda>_. submatch) L (\<lambda>_. demoRegions) [] 1 ''exp'' = None \<and>
     AWSStartInstanceAtRegions id (\<lambda>_. Inr demoRegions) (\<lambda>_. Inr ''list'') (\<lambda>_. submatch) L (\<lambda>_. demoRegions) [] 1 ''exp'' \<noteq> None"
    using failed_fetch_blocks [where order = id, OF f, of "\<lambda>_. Inl ''timeout''" "\<lambda>_. submatch" L "\<lambda>_. demoRegions" 1 "''exp''"]
      failed_fetch_blocks [where order = id, OF f, of "\<lambda>_. Inr ''list''" "\<lambda>_. submatch" L "\<lambda>_. demoRegions" 1 "''exp''"]
    by auto
qed

end
