(* ===== verification/Spec2Isabelle.thy ===== *)
theory Spec2Isabelle
  imports Newsim_Properties Program_Properties Sim_Run_Properties Sim_Program Lt_Properties Ldpc_Properties
    Node_Properties Node_Connection Bench_Properties Exp_Control Newsim_Main Iblt
    Testbed_Aws
begin

text \<open>
  This development models the set-reconciliation code of the repository: two peers hold sets of
  transactions that mostly agree, and they find the difference by exchanging coded symbols,
  exclusive ors of many transactions each, until the receiver can peel them.

  \<^bold>\<open>The parts of the program.\<close>
  \<^item> \<open>riblt/\<close>: rateless IBLT. Every symbol is mapped by a pseudo-random sequence of indices
    (\<open>random.go\<close>) to an endless sequence of coded symbols, which an encoder produces one by one
    from a heap (\<open>encoder.go\<close>), or a sketch holds up to a fixed size (\<open>sketch.go\<close>). A decoder
    (\<open>decoder.go\<close>) subtracts its own symbols and peels the difference of the two sets.
  \<^item> \<open>lt/\<close>, its copy \<open>iblt/\<close>, and \<open>ldpc/\<close>: windowed LT codes. An encoder mixes random entries of
    a sliding window into codewords that name their entries by salted hashes; a decoder peels
    them with the transactions it knows and forgets old ones. \<open>ldpc/\<close> has fixed transactions of
    128 bytes, a reservoir for the sampling and pooled objects.
  \<^item> \<open>des/\<close>: a discrete-event simulator over a priority queue.
  \<^item> \<open>newsim/\<close>: simulated servers that exchange transactions over links which run either an
    announce/request/response protocol (\<open>pull.go\<close>) or blocks of \<open>riblt\<close> symbols (\<open>coding.go\<close>).
  \<^item> \<open>simulator/\<close>: the older simulated servers, whose links carry \<open>lt\<close> codewords.
  \<^item> \<open>node/\<close>: a real peer: goroutines for the sender and the receiver of each connection, over
    \<open>ldpc\<close>, and a controller that distributes transactions among them.
  \<^item> \<open>benchmark/\<close>, \<open>microbenchmarks/\<close>, \<open>experiments/\<close>: programs that feed random transactions to
    \<open>riblt\<close>, \<open>lt\<close> and \<open>ldpc\<close> and count codewords, among them the controllers of the codeword rate
    that \<open>node/\<close> adopted.
  \<^item> \<open>testbed/\<close>: rents machines of two cloud providers, installs \<open>node\<close> on them and starts the network
    of an experiment.

  The simulated servers are the modules of \<open>des\<close>: they answer a message with messages to
  schedule. A server calls the encoders and decoders of its links, directly in \<open>newsim\<close>
  (\<open>receiver_onCodeword\<close> calls \<open>AddCodedSymbol\<close> and \<open>TryDecode\<close>), and in \<open>simulator\<close> through one
  decoder that all its links share.

  \<^bold>\<open>Conventions.\<close>
  Theory \<open>Prelude\<close> holds them. A Go panic is a value of \<open>panic\<close>, a fallible operation returns
  \<open>panic + 'a\<close>, and a loop whose end is not evident from its shape is a
  \<open>partial_function (option)\<close>, for which \<open>None\<close> means that it does not return; no fuel is used
  anywhere. That a loop returns is a theorem (C2, C10, C15, C16, C17, C22, C26, C27, C31, C36,
  C37, C38), and where it depends on the input the theorem says on which (C8, C9, C32). \<open>int\<close>, \<open>uint64\<close> and
  \<open>time.Duration\<close> are 64-bit words where the program relies on their width (mappings, checksums,
  sequence numbers, times), and \<open>int\<close> for lengths, indices and counters that follow from
  lengths. \<open>float64\<close> is modelled in theory \<open>Float64\<close>: exact results, rounded to nearest even.
  Structs are records, a pointer that several objects share is a position in a list of objects
  (\<open>Lt_Decoder\<close>, \<open>Ldpc_Decoder\<close>) or the number of a server, a map is a partial function.
\<close>

text \<open>
  \<^bold>\<open>Theories.\<close> What each models, in the order of the imports.
  \<^item> \<open>Prelude\<close>, \<open>Binary_Heap\<close> (the loops \<open>up\<close> and \<open>down\<close> of Go's \<open>container/heap\<close>), \<open>Float64\<close>.
  \<^item> \<open>riblt/symbol.go\<close>: \<open>Riblt_Symbol\<close>. \<open>random.go\<close>: \<open>Riblt_Random\<close>, with \<open>Riblt_Walk\<close> for the
    loop over the indices of a mapping. \<open>encoder.go\<close>: \<open>Riblt_Heap\<close> (\<open>fixHead\<close>, \<open>fixTail\<close>),
    \<open>Riblt_Encoder\<close>, and \<open>Riblt_Window\<close> for what a window does to a cell. \<open>sketch.go\<close>:
    \<open>Riblt_Sketch\<close>. \<open>decoder.go\<close>: \<open>Riblt_Decoder\<close>; the arguments about peeling are in
    \<open>Riblt_Peeling\<close>, invariant, the calls of a session (\<open>schedule\<close>) and correctness in
    \<open>Riblt_Reconcile\<close>, and in \<open>Riblt_Schedule\<close> that the order of the calls does not matter.
  \<^item> \<open>des/simulator.go\<close>: \<open>Des\<close>.
  \<^item> \<open>newsim/types.go\<close>, \<open>messages.go\<close>, \<open>coding.go\<close>: \<open>Newsim_Types\<close>, \<open>Newsim_Messages\<close>,
    \<open>Newsim_Coding\<close>. \<open>pull.go\<close>, \<open>module.go\<close> and the construction of the network in \<open>main.go\<close>:
    \<open>Newsim_Server\<close>; the loop of \<open>main.go\<close> and \<open>filter.go\<close>: \<open>Newsim_Main\<close>; \<open>topology.go\<close>:
    \<open>Topology\<close>; \<open>collectMoments\<close> and \<open>getQuantiles\<close>: \<open>Moments\<close>; all of \<open>main\<close>, from the flags to
    the report: \<open>Newsim_Program\<close>. About them: \<open>Newsim_Network\<close> (the network of a file),
    \<open>Newsim_Program_Runs\<close> (the program runs to its report), \<open>Newsim_Shards\<close> (shards and blocks), \<open>Newsim_Contract\<close>
    (servers as modules of \<open>des\<close>), \<open>Newsim_Accounts\<close> (metrics), \<open>Newsim_Link\<close> (one block over a
    link), \<open>Newsim_Fill\<close> (filling the send window).
  \<^item> \<open>lt/transaction.go\<close>, \<open>encoder.go\<close>, \<open>decoder.go\<close>: \<open>Lt_Encoder\<close>, \<open>Lt_Decoder\<close>. About the
    decoder: \<open>Lt_Invariant\<close> (its pointers), \<open>Lt_Operations\<close> (its loop returns), \<open>Lt_Peeling\<close> and
    \<open>Lt_History\<close> (what it decodes). \<open>Lt_Demo\<close>: values for witnesses. \<open>iblt/\<close>: \<open>Iblt\<close>.
  \<^item> \<open>simulator/\<close>: \<open>Sim_Types\<close> (\<open>transaction.go\<close>, \<open>messages.go\<close>, \<open>filter.go\<close>), \<open>Sim_Node\<close>
    (\<open>node.go\<close>), \<open>Sim_Server\<close> (\<open>module.go\<close>, the network and the loop of \<open>main.go\<close>), \<open>Sim_Program\<close>
    (all of \<open>main.go\<close>); about them \<open>Sim_Links\<close> (a sender), \<open>Sim_Contract\<close> (a server that
    receives a codeword), \<open>Sim_Network\<close> (genuine transactions), \<open>Sim_Invariant\<close> and
    \<open>Sim_Handler\<close> (the invariant of a network, and that a call of a server keeps it), \<open>Sim_Runs\<close>
    (setting up a network, and its deliveries). That a run ends is a matter of accounts:
    \<open>Sim_Accounts\<close> (senders), \<open>Sim_Budget\<close> (what handling a message costs), \<open>Sim_Funded\<close> (a
    delivery costs one unit), \<open>Sim_Report\<close> (the loops of \<open>RunUntil\<close> and of the reports, and the
    budget of a new network).
  \<^item> \<open>ldpc/\<close>: \<open>Ldpc_Encoder\<close> (\<open>transaction.go\<close>, \<open>codeword.go\<close>, \<open>encoder.go\<close>), \<open>Ldpc_Decoder\<close>;
    about them \<open>Ldpc_Sampling\<close>, \<open>Ldpc_Refinement\<close>.
  \<^item> \<open>node/\<close>: \<open>Node\<close> (the loops of \<open>sender.go\<close>, \<open>receiver.go\<close>, \<open>controller.go\<close>), \<open>Node_Program\<close>
    (\<open>sendCodewords\<close>, \<open>receive\<close>, \<open>handleConn\<close>, and the flags and the generator of \<open>main.go\<close>), \<open>Node_Main\<close>
    (\<open>main\<close> itself, accepting and dialling); about a connection of two peers: \<open>Node_Connection\<close>.
  \<^item> \<open>Loops\<close>: the counting loops of the drivers. \<open>benchmark/main.go\<close>: \<open>Bench_Riblt\<close>.
    \<open>microbenchmarks/\<close>: \<open>Bench_Lt\<close>, about the simulation of one sender \<open>Bench_Lt_Runs\<close>.
    \<open>experiments/\<close>: \<open>Exp_Ldpc\<close> (\<open>lib.go\<close>, \<open>simple\<close>, \<open>decoding\<close>, \<open>detect-loss\<close>,
    \<open>detect-loss-overlap\<close>), \<open>Exp_Overlap\<close> (\<open>overlap/analysis-exp\<close>, \<open>windowed-lt\<close>, \<open>soliton-sample\<close>,
    \<open>control-loss\<close>), \<open>Exp_Control\<close> (\<open>controller\<close>, \<open>new-controller\<close>, \<open>overlap/streams\<close>).
  \<^item> \<open>testbed/\<close>: \<open>Testbed\<close> (\<open>main.go\<close>, \<open>cluster.go\<close>, \<open>exp.go\<close>, \<open>sshutil.go\<close>), \<open>Testbed_Cloud\<close>
    (\<open>vultr.go\<close>), \<open>Testbed_Aws\<close> (\<open>aws.go\<close>).
  \<^item> The properties C1 to C40, each with a witness where it has hypotheses, are in
    \<open>Riblt_Properties\<close> (C1 to C6, C8, C9, C11, C12), \<open>Newsim_Properties\<close> (C13 to C15, C18 to C22,
    C24), \<open>Program_Properties\<close> (C7, C16, C23), \<open>Lt_Properties\<close> (C26 to C30), \<open>Sim_Properties\<close>
    (C31, C33, C34), \<open>Sim_Run_Properties\<close> (C17), \<open>Testbed_Aws\<close> (C25), \<open>Bench_Properties\<close> (C32), \<open>Ldpc_Properties\<close> (C35 to C37), \<open>Node_Properties\<close>
    (C38 to C40) and \<open>Node_Connection\<close> (C10).
\<close>

text \<open>
  \<^bold>\<open>Interfaces.\<close> Each is a locale, interpreted on the definitions of the program.
  \<^item> \<open>heap_order\<close> (\<open>Binary_Heap\<close>): a strict weak order; the heap loops restore the heap and
    permute. Interpreted on the order of events (\<open>queue\<close>) and of coded indices (\<open>coded\<close>).
  \<^item> \<open>symbol_laws\<close> (\<open>Riblt_Symbol\<close>): the contract of the Go interface \<open>Symbol\<close>. Interpreted on
    the transactions of \<open>newsim\<close> (\<open>tx\<close>) and the symbols of \<open>benchmark\<close> (\<open>testSym\<close>).
  \<^item> \<open>data_laws\<close> (\<open>Lt_Encoder\<close>): the contract of \<open>TransactionData\<close>. Interpreted on the
    transactions of \<open>simulator\<close> (\<open>simTx\<close>), of \<open>ldpc\<close> (\<open>ldpc\<close>) and of \<open>microbenchmarks\<close> (\<open>mb\<close>).
  \<^item> \<open>delay_contract\<close> and its extension \<open>module_contract\<close> (\<open>Des\<close>): modules ask for delays within a
    range, and do not panic. Interpreted on the servers of \<open>newsim\<close> (\<open>newsim\<close>, \<open>pullnet\<close>).
  \<open>float64\<close> is an instance of \<open>linorder\<close> (\<open>Moments\<close>), in the order of \<open>sort.Float64s\<close>.

  \<^bold>\<open>What the lemmas show.\<close>
  For \<open>riblt\<close>: the arithmetic of the mapping (C6), the heap of mappings (C11), that encoder and sketch
  produce the same cells (C5), that the decoding loop returns and refines an abstract peeling
  decoder (C2) and keeps the invariant with every coded symbol (C3), that what is decoded is the
  set difference (C1 for the session of encoder and decoder, C4 for sketches) whenever it is
  tried (C12), when adding to a sketch returns (C8), and, for the benchmark, how many coded symbols a
  test counts, and that it prints their sum when every test can be decoded (C9). For
  \<open>des\<close>: order of delivery, a clock that does not run backwards, termination (C13 to C15). For
  \<open>newsim\<close>: a topology file is read as it was written (C23), the network built from it fits
  together for both algorithms (C7), the program with the pull protocol runs to its report (C16),
  servers keep their books (C18), the pull protocol delivers (C19), the
  shards partition the hashes (C20, C21), the send window (C22), and one block over a link
  reconciles the two shards (C24, which rests on the theory of \<open>riblt\<close>). For \<open>lt\<close>: the codewords
  of the encoder (C26), and for the decoder safety on any input (C27), soundness on
  honest input (C28), and completeness, as a refinement of peeling as an inductive set (C29,
  C30). For \<open>simulator\<close>: sender, rate limiter and bookkeeping (C31, C33, C34), and whole
  runs of the program: it gets to its last report without a panic, with every server consistent
  (C17). For
  \<open>microbenchmarks\<close>: how many codewords the simulation of one sender counts, and when it ends
  (C32). For \<open>ldpc\<close>: the codec (C35), the reservoir (C36), and that the decoder with its pointers
  refines that of \<open>lt\<close> (C37). For \<open>node\<close>: the loops of sender, receiver and controller (C38 to
  C40), and a connection from the exchange of keys to the decoded transactions (C10): they are
  those that peeling reaches from the codewords received, which need not be all that was sent. The
  programs of \<open>experiments\<close> are modelled on top of \<open>ldpc\<close>, without properties of their own. For
  \<open>testbed\<close>: the list of servers has one order only, a node that it starts dials exactly the
  servers that the experiment names (\<open>node_dials_experiment\<close>), and what becomes of starting
  instances when the list of images cannot be fetched (C25).

  \<^bold>\<open>Parameters and hypotheses.\<close>
  Code outside the repository is a parameter: \<open>siphash\<close> and \<open>blake2b\<close> as functions on bytes; a
  \<open>*rand.Rand\<close>, the global generator and the soliton distribution as the samples they will give
  (hypotheses say that \<open>Intn(n)\<close> is below \<open>n\<close> and a degree is positive); \<open>math.Log\<close> and
  \<open>math.Exp\<close> as functions on floats; the quantile sketch as the list of the values added, with the quantiles that it will answer
  (\<open>statFns\<close>; C16 assumes that the 5, 50 and 95 % quantiles, which the program asks for, fail
  exactly when it is empty). The order in
  which Go ranges over a map is the parameter \<open>env_order\<close>. With a collision of the
  64-bit hash a decoder of \<open>riblt\<close> can report a wrong symbol. No hash excludes this for all sets of
  symbols, so C1, C2, C4, C9, C12 and C24 speak of runs in which it does not happen: in every
  iteration of every attempt to decode (\<open>attempt_apart\<close>; of a session \<open>run_apart\<close>, of two sketches
  \<open>sketch_apart\<close>) the checksums of the cells that the decoder holds just then mistake none of them
  for a single symbol or for an empty cell (\<open>told_apart\<close>). Nothing is asked of combinations of
  symbols that no cell holds. C10, C28 to C30, C32 and C37 assume that no two transactions in play have
  the same 32-bit salted hash, and C10 that the decoder remembers them all and that the peer is
  honest. C36 and C38 assume the skips of the reservoir to be defined in the rounds that its loop
  executes (\<open>skips_ok\<close>, \<open>draws_ok\<close>), which depends on the samples. C17 assumes
  that the salted hashes of the first \<open>N\<close> transactions differ (\<open>noCollision\<close>), that decoders
  remember \<open>N\<close>, that delays and intervals are bounded and the delays of links positive, and that
  after \<open>q\<close> intervals a server generates its next block too late for the run. From these numbers
  follows how many deliveries there can be (\<open>deliveryBound\<close>); C17 needs fewer than \<open>2 ^ 53\<close>.

  \<^bold>\<open>Bounds.\<close>
  The lemmas about mappings hold for indices below \<open>2 ^ 34\<close>: there the float expression of
  \<open>nextIndex\<close> is below \<open>2 ^ 63\<close>. A session of that many coded symbols is far beyond any use. The
  top 1024 states of the generator, for which the conversion is implementation-defined, are
  excluded by \<open>goodState\<close> and \<open>walkable\<close>. Counts that are converted to \<open>float64\<close> stay below
  \<open>2 ^ 53\<close>, where the conversion is exact. Times of a simulation stay below \<open>2 ^ 63\<close>
  nanoseconds, 292 years.
\<close>

text \<open>
  \<^bold>\<open>What modelling showed.\<close>
  \<^item> A symbol whose hash is 0 makes \<open>AddHashedSymbol\<close> of a sketch run forever: 0 is a fixed point
    of the generator (C8). The same loop is in \<open>applyNewSymbol\<close> and \<open>applyWindow\<close>.
  \<^item> For the 1024 largest states \<open>nextIndex\<close> converts an infinite float to \<open>uint64\<close>; for new states
    up to 1024 the index does not move, and a symbol enters the same coded symbol twice (C6).
  \<^item> The reservoir of \<open>ldpc/encoder.go\<close> starts one position late: the window entry at the position
    of the degree is never mixed (C36). A sample 0 of \<open>Float64\<close>, which the package \<open>rand\<close> allows,
    makes a skip infinite, and converting that to an integer is implementation-defined.
  \<^item> \<open>lt/decoder.go\<close> forgets by comparing contents, where its comment speaks of pointers; with
    colliding hashes the two differ. \<open>Ldpc_Refinement\<close> proves that without collisions they do not.
  \<^item> \<open>registerReceived\<close> of \<open>simulator/module.go\<close> panics on a duplicate, which a decoder with little
    memory can produce; C34 and C17 assume memory for all transactions in use.
  \<^item> \<open>newsim/main.go\<close> and \<open>simulator/main.go\<close> panic after the simulation when a server has recorded
    no latency since the warm-up (C16).
  \<^item> \<open>handleConn\<close> of \<open>node/controller.go\<close> does not look at how many bytes of the key it has read; C10
    needs all of them. Its accept loop waits for the key of one peer before it accepts the next
    (\<open>silent_peer_blocks\<close>), and a closed connection ends the node (\<open>closed_connection_panics\<close>).
  \<^item> \<open>AWSGetImageID\<close> of \<open>testbed/aws.go\<close> keeps its lock when the list of images cannot be fetched:
    all other regions wait forever (C25). \<open>AWSListServersAtRegion\<close> dereferences the address of an instance
    that has none, and \<open>getPublicKey\<close> of \<open>sshutil.go\<close> the key that it could not parse.
  \<^item> In \<open>experiments/\<close>: \<open>overlap/analysis-exp\<close> gives the second sender \<open>T1\<close> transactions where
    \<open>T2\<close> is meant, \<open>new-controller\<close> prints a loss that it never counts, \<open>overlap/streams\<close> halves
    \<open>maxRate\<close> where the mean is meant, and three programs do not compile.

  \<^bold>\<open>Not modelled.\<close>
  The answers of the cloud providers to \<open>testbed/\<close>, its regular expression, the replies of its ssh
  sessions, and the network under \<open>node/\<close> are inputs. \<open>overlap/adv-censor\<close>,
  \<open>overlap/parallel\<close> and \<open>overlap/two-steps\<close> of \<open>experiments/\<close> dereference a struct, which Go
  rejects. In the modelled packages: reading the command line and opening files, sockets and
  their options, the encoding of \<open>gob\<close>, logs, captions and progress lines, and the measurement
  of time in \<open>benchmark/\<close>. The permission of \<open>XOR\<close> to reuse the memory of its receiver is not
  modelled, symbols are values. Concurrency of \<open>node/\<close> is modelled as the sequence of the cases
  that each \<open>select\<close> takes.
\<close>

end
